(* ===== verification/Prelude.thy ===== *)
theory Prelude
  imports Main "HOL-Library.Sublist" "HOL-Library.Char_ord" "HOL-Library.List_Lexorder"
    "HOL-Library.Code_Target_Nat"
begin

text \<open>
  What every component of the development shares: the result type of fallible
  Rust code and its bind, the checked and saturating operations on \<open>u32\<close>
  and \<open>u64\<close> values (kept as naturals with their bounds written out), loops
  that stop at the first error, and generic facts on lists.
\<close>

named_theorems bind_simps \<open>unfolding of the error bind and of its relatives\<close>
named_theorems bounds \<open>arithmetic bounds of machine integers\<close>
named_theorems path_rules \<open>facts on repository paths\<close>

section \<open>Fallible computations\<close>

text \<open>
  \<open>Result<T, E>\<close> is \<open>'e + 'a\<close>, with \<open>Inl\<close> for \<open>Err\<close>. The operator \<open>?\<close> of the
  source is \<open>bindE\<close>, \<open>map_err\<close> is \<open>map_errE\<close>, \<open>ok_or\<close> is \<open>okE\<close> and \<open>ok\<close> is \<open>ok_of\<close>.
\<close>

definition bindE :: "'e + 'a \<Rightarrow> ('a \<Rightarrow> 'e + 'b) \<Rightarrow> 'e + 'b" where
  "bindE m f = (case m of Inl e \<Rightarrow> Inl e | Inr x \<Rightarrow> f x)"

definition map_errE :: "('e \<Rightarrow> 'f) \<Rightarrow> 'e + 'a \<Rightarrow> 'f + 'a" where
  "map_errE g m = (case m of Inl e \<Rightarrow> Inl (g e) | Inr x \<Rightarrow> Inr x)"

definition okE :: "'e \<Rightarrow> 'a option \<Rightarrow> 'e + 'a" where
  "okE e m = (case m of None \<Rightarrow> Inl e | Some x \<Rightarrow> Inr x)"

definition ok_of :: "'e + 'a \<Rightarrow> 'a option" where
  "ok_of r = (case r of Inl _ \<Rightarrow> None | Inr x \<Rightarrow> Some x)"

definition failIf :: "bool \<Rightarrow> 'e \<Rightarrow> 'e + 'a \<Rightarrow> 'e + 'a" where
  "failIf b e m = (if b then Inl e else m)"

lemma bindE_Inr [simp]: "bindE (Inr x) f = f x"
  by (simp add: bindE_def)

lemma bindE_Inl [simp]: "bindE (Inl e) f = Inl e"
  by (simp add: bindE_def)

lemma bindE_eq_Inr [bind_simps]: "bindE m f = Inr y \<longleftrightarrow> (\<exists>x. m = Inr x \<and> f x = Inr y)"
  by (cases m) auto

lemma bindE_eq_Inl [bind_simps]:
  "bindE m f = Inl e \<longleftrightarrow> m = Inl e \<or> (\<exists>x. m = Inr x \<and> f x = Inl e)"
  by (cases m) auto

lemma map_errE_eq_Inr [bind_simps]: "map_errE g m = Inr x \<longleftrightarrow> m = Inr x"
  by (cases m) (auto simp: map_errE_def)

lemma map_errE_Inr [simp]: "map_errE g (Inr x) = Inr x"
  by (simp add: map_errE_def)

lemma map_errE_Inl [simp]: "map_errE g (Inl e) = Inl (g e)"
  by (simp add: map_errE_def)

lemma okE_eq_Inr [bind_simps]: "okE e m = Inr x \<longleftrightarrow> m = Some x"
  by (cases m) (auto simp: okE_def)

lemma okE_simps [simp]: "okE e None = Inl e" "okE e (Some x) = Inr x"
  by (simp_all add: okE_def)

lemma failIf_eq_Inr [bind_simps]: "failIf b e m = Inr x \<longleftrightarrow> \<not> b \<and> m = Inr x"
  by (simp add: failIf_def)

lemma failIf_simps [simp]: "failIf True e m = Inl e" "failIf False e m = m"
  by (simp_all add: failIf_def)

lemma bindE_cong [fundef_cong]:
  "m = m' \<Longrightarrow> (\<And>x. m' = Inr x \<Longrightarrow> f x = f' x) \<Longrightarrow> bindE m f = bindE m' f'"
  by (cases m') auto

lemma failIf_cong [fundef_cong]:
  "b = b' \<Longrightarrow> e = e' \<Longrightarrow> (\<not> b' \<Longrightarrow> m = m') \<Longrightarrow> failIf b e m = failIf b' e' m'"
  by (simp add: failIf_def)

section \<open>Unsigned integers with their bounds written out\<close>

definition u32_max :: nat where
  "u32_max = 4294967295"

definition u64_max :: nat where
  "u64_max = 18446744073709551615"

definition checked_add_u32 :: "nat \<Rightarrow> nat \<Rightarrow> nat option" where
  "checked_add_u32 a b = (if a + b \<le> u32_max then Some (a + b) else None)"

definition saturating_add_u32 :: "nat \<Rightarrow> nat \<Rightarrow> nat" where
  "saturating_add_u32 a b = min (a + b) u32_max"

definition checked_add_u64 :: "nat \<Rightarrow> nat \<Rightarrow> nat option" where
  "checked_add_u64 a b = (if a + b \<le> u64_max then Some (a + b) else None)"

lemma checked_add_u32_Some [bounds]:
  "checked_add_u32 a b = Some c \<longleftrightarrow> c = a + b \<and> a + b \<le> u32_max"
  by (auto simp: checked_add_u32_def)

lemma checked_add_u32_None [bounds]: "checked_add_u32 a b = None \<longleftrightarrow> u32_max < a + b"
  by (auto simp: checked_add_u32_def)

lemma checked_add_u64_Some [bounds]:
  "checked_add_u64 a b = Some c \<longleftrightarrow> c = a + b \<and> a + b \<le> u64_max"
  by (auto simp: checked_add_u64_def)

lemma saturating_add_u32_exact [bounds]:
  "a + b \<le> u32_max \<Longrightarrow> saturating_add_u32 a b = a + b"
  by (simp add: saturating_add_u32_def)

section \<open>Loops that stop at the first error\<close>

text \<open>A \<open>for\<close> loop whose body may return early with an error, threading a state.\<close>

fun foldE :: "('a \<Rightarrow> 's \<Rightarrow> 'e + 's) \<Rightarrow> 'a list \<Rightarrow> 's \<Rightarrow> 'e + 's" where
  "foldE f [] s = Inr s"
| "foldE f (x # xs) s = bindE (f x s) (foldE f xs)"

lemma foldE_append: "foldE f (xs @ ys) s = bindE (foldE f xs s) (foldE f ys)"
  by (induction xs arbitrary: s) (auto simp: bindE_def split: sum.splits)

lemma foldE_invariant:
  assumes "foldE f xs s = Inr t" "P s"
    and "\<And>x s t. x \<in> set xs \<Longrightarrow> P s \<Longrightarrow> f x s = Inr t \<Longrightarrow> P t"
  shows "P t"
  using assms
proof (induction xs arbitrary: s)
  case Nil
  then show ?case by simp
next
  case (Cons x xs)
  then obtain u where u: "f x s = Inr u" "foldE f xs u = Inr t"
    by (auto simp: bind_simps)
  from u(1) Cons.prems(2,3) have "P u" by auto
  with u(2) show ?case using Cons.IH Cons.prems(3) by auto
qed

section \<open>Half-open ranges and slices\<close>

text \<open>\<open>Range<usize>\<close> is a pair (start, end); \<open>&s[a..b]\<close> is \<open>slice\<close>.\<close>

type_synonym range = "nat \<times> nat"

definition slice :: "nat \<Rightarrow> nat \<Rightarrow> 'a list \<Rightarrow> 'a list" where
  "slice a b xs = take (b - a) (drop a xs)"

lemma slice_full [simp]: "slice 0 (length xs) xs = xs"
  by (simp add: slice_def)

lemma slice_empty [simp]: "slice a a xs = []"
  by (simp add: slice_def)

lemma length_slice: "b \<le> length xs \<Longrightarrow> length (slice a b xs) = b - a"
  by (simp add: slice_def)

lemma slice_append:
  assumes "a \<le> b" "b \<le> c"
  shows "slice a b xs @ slice b c xs = slice a c xs"
proof -
  have "c - a = (b - a) + (c - b)" using assms by simp
  then have "slice a c xs = take (b - a) (drop a xs) @ take (c - b) (drop (b - a) (drop a xs))"
    by (simp add: slice_def take_add)
  then show ?thesis
    using assms by (simp add: slice_def)
qed

lemma slice_Suc: "a < b \<Longrightarrow> a < length xs \<Longrightarrow> slice a b xs = xs ! a # slice (Suc a) b xs"
  unfolding slice_def
  by (metis Cons_nth_drop_Suc Suc_diff_Suc take_Suc_Cons)

lemma slice_take: "a \<le> length xs \<Longrightarrow> slice 0 a xs = take a xs"
  by (simp add: slice_def)

section \<open>Generic list facts\<close>

text \<open>
  \<open>partition_point\<close> of the standard library, on a list whose elements with the
  property come first.
\<close>

definition partition_point :: "('a \<Rightarrow> bool) \<Rightarrow> 'a list \<Rightarrow> nat" where
  "partition_point P xs = length (takeWhile P xs)"

lemma those_Some: "those xs = Some ys \<longleftrightarrow> xs = map Some ys"
proof
  show "those xs = Some ys \<Longrightarrow> xs = map Some ys"
    by (induction xs arbitrary: ys) (auto split: option.splits)
qed (induction ys arbitrary: xs; simp)

lemma find_Some_in: "List.find P xs = Some x \<Longrightarrow> x \<in> set xs \<and> P x"
  by (metis find_Some_iff nth_mem)

lemma find_None_all: "List.find P xs = None \<Longrightarrow> x \<in> set xs \<Longrightarrow> \<not> P x"
  by (simp add: find_None_iff)

lemma find_unique:
  assumes "x \<in> set xs" "P x" "\<And>y. y \<in> set xs \<Longrightarrow> P y \<Longrightarrow> y = x"
  shows "List.find P xs = Some x"
proof (cases "List.find P xs")
  case None
  with assms(1,2) find_None_all show ?thesis by metis
next
  case (Some y)
  then have "y = x" using find_Some_in assms(3) by metis
  with Some show ?thesis by simp
qed

lemma sorted_wrt_upt_append:
  "a \<le> b \<Longrightarrow> b \<le> c \<Longrightarrow> [a..<b] @ [b..<c] = [a..<c]"
  by (metis le_add_diff_inverse upt_add_eq_append)

lemma map_of_filter_fst: "map_of (filter (\<lambda>kv. P (fst kv)) kvs) k = (if P k then map_of kvs k else None)"
  by (induction kvs) auto

lemma map_of_map_value: "map_of (map (\<lambda>(k, x). (k, f k x)) kvs) k = map_option (f k) (map_of kvs k)"
  by (induction kvs) auto

end
