(* ===== verification/Text.thy ===== *)
theory Text
  imports Prelude
begin

text \<open>
  Byte strings and UTF-8 text as the Rust standard library treats them. Both
  \<open>&[u8]\<close> and \<open>&str\<close> are HOL strings: an Isabelle character is one byte, and a
  \<open>str\<close> is a byte string accepted by \<open>valid_utf8\<close>. Offsets are byte offsets, as
  in the source. The definitions below are the library operations that the
  components call: splitting, prefixes, UTF-8 validation and decoding, white
  space, decimal and hexadecimal numerals.
\<close>

type_synonym bytes = string
type_synonym str = string

abbreviation LF :: char where "LF \<equiv> CHR 0x0A"
abbreviation CR :: char where "CR \<equiv> CHR 0x0D"
abbreviation TAB :: char where "TAB \<equiv> CHR 0x09"
abbreviation NUL :: char where "NUL \<equiv> CHR 0x00"
abbreviation QUOTE :: char where "QUOTE \<equiv> CHR 0x22"
abbreviation BACKSLASH :: char where "BACKSLASH \<equiv> CHR 0x5C"

abbreviation byte_of :: "char \<Rightarrow> nat" where
  "byte_of \<equiv> of_char"

abbreviation of_byte :: "nat \<Rightarrow> char" where
  "of_byte \<equiv> char_of"

section \<open>Splitting and prefixes\<close>

text \<open>\<open>bytes.split(|b| *b == c)\<close>: always at least one piece.\<close>

fun split_on :: "'a \<Rightarrow> 'a list \<Rightarrow> 'a list list" where
  "split_on c [] = [[]]"
| "split_on c (x # xs) =
     (case split_on c xs of
        [] \<Rightarrow> []
      | p # ps \<Rightarrow> if x = c then [] # p # ps else (x # p) # ps)"

text \<open>The reference inverse: the pieces joined by the separator.\<close>

fun join_with :: "'a list \<Rightarrow> 'a list list \<Rightarrow> 'a list" where
  "join_with c [] = []"
| "join_with c [p] = p"
| "join_with c (p # q # ps) = p @ c @ join_with c (q # ps)"

lemma split_on_nonempty [simp]: "split_on c xs \<noteq> []"
  by (induction xs) (auto split: list.splits)

lemma split_on_Cons_sep: "split_on c (c # xs) = [] # split_on c xs"
  using split_on_nonempty [of c xs] by (auto split: list.splits)

lemma split_on_Cons_other:
  "x \<noteq> c \<Longrightarrow> split_on c (x # xs) = (x # hd (split_on c xs)) # tl (split_on c xs)"
  using split_on_nonempty [of c xs] by (auto split: list.splits)

lemmas split_on_Cons = split_on_Cons_sep split_on_Cons_other

declare split_on.simps(2) [simp del]

lemma join_with_Cons: "ps \<noteq> [] \<Longrightarrow> join_with c (p # ps) = p @ c @ join_with c ps"
  by (cases ps) auto

lemma join_with_hd_Cons: "ps \<noteq> [] \<Longrightarrow> join_with c ((x # hd ps) # tl ps) = x # join_with c ps"
  by (cases ps; cases "tl ps") auto

lemma join_split_on: "join_with [c] (split_on c xs) = xs"
proof (induction xs)
  case (Cons x xs)
  then show ?case
    by (cases "x = c") (auto simp: split_on_Cons join_with_Cons join_with_hd_Cons)
qed simp

lemma split_on_pieces: "p \<in> set (split_on c xs) \<Longrightarrow> c \<notin> set p"
proof (induction xs arbitrary: p)
  case Nil
  then show ?case by simp
next
  case (Cons x xs)
  have "hd (split_on c xs) \<in> set (split_on c xs)" by simp
  moreover have "set (tl (split_on c xs)) \<subseteq> set (split_on c xs)"
    by (meson list.set_sel(2) split_on_nonempty subsetI)
  ultimately show ?case
    using Cons by (cases "x = c") (auto simp: split_on_Cons)
qed

lemma split_on_no_sep: "c \<notin> set xs \<Longrightarrow> split_on c xs = [xs]"
  by (induction xs) (auto simp: split_on_Cons)

lemma split_on_append_sep:
  "split_on c (xs @ c # ys) = split_on c xs @ split_on c ys"
proof (induction xs)
  case (Cons x xs)
  then show ?case by (cases "x = c") (auto simp: split_on_Cons hd_append)
qed (simp add: split_on_Cons)

lemma split_on_join:
  assumes "ps \<noteq> []" "\<And>p. p \<in> set ps \<Longrightarrow> c \<notin> set p"
  shows "split_on c (join_with [c] ps) = ps"
  using assms
proof (induction ps)
  case (Cons p ps)
  then show ?case
    by (cases ps) (auto simp: split_on_append_sep split_on_no_sep)
qed simp

fun strip_prefix :: "'a list \<Rightarrow> 'a list \<Rightarrow> 'a list option" where
  "strip_prefix [] s = Some s"
| "strip_prefix (p # ps) [] = None"
| "strip_prefix (p # ps) (c # cs) = (if p = c then strip_prefix ps cs else None)"

definition starts_with :: "'a list \<Rightarrow> 'a list \<Rightarrow> bool" where
  "starts_with p s \<longleftrightarrow> strip_prefix p s \<noteq> None"

definition ends_with :: "'a list \<Rightarrow> 'a list \<Rightarrow> bool" where
  "ends_with p s \<longleftrightarrow> starts_with (rev p) (rev s)"

definition strip_suffix :: "'a list \<Rightarrow> 'a list \<Rightarrow> 'a list option" where
  "strip_suffix p s = map_option rev (strip_prefix (rev p) (rev s))"

lemma strip_prefix_Some: "strip_prefix p s = Some r \<longleftrightarrow> s = p @ r"
  by (induction p s rule: strip_prefix.induct) auto

lemma strip_prefix_append [simp]: "strip_prefix p (p @ r) = Some r"
  by (simp add: strip_prefix_Some)

lemma starts_with_iff: "starts_with p s \<longleftrightarrow> (\<exists>r. s = p @ r)"
  by (metis not_None_eq starts_with_def strip_prefix_Some)

lemma starts_with_append [simp]: "starts_with p (p @ r)"
  by (auto simp: starts_with_iff)

lemma ends_with_iff: "ends_with p s \<longleftrightarrow> (\<exists>r. s = r @ p)"
proof -
  have "(\<exists>r. rev s = rev p @ r) \<longleftrightarrow> (\<exists>r. s = r @ p)"
    by (metis rev_append rev_rev_ident)
  then show ?thesis by (simp add: ends_with_def starts_with_iff)
qed

lemma strip_suffix_Some: "strip_suffix p s = Some r \<longleftrightarrow> s = r @ p"
  by (auto simp: strip_suffix_def strip_prefix_Some)
    (metis rev_append rev_rev_ident)

text \<open>\<open>str::split_once\<close>: the first occurrence of the pattern.\<close>

fun split_once :: "'a list \<Rightarrow> 'a list \<Rightarrow> ('a list \<times> 'a list) option" where
  "split_once p [] = (if p = [] then Some ([], []) else None)"
| "split_once p (c # cs) =
     (case strip_prefix p (c # cs) of
        Some r \<Rightarrow> Some ([], r)
      | None \<Rightarrow> map_option (\<lambda>(a, b). (c # a, b)) (split_once p cs))"

lemma split_once_Some: "split_once p s = Some (a, b) \<Longrightarrow> s = a @ p @ b"
proof (induction s arbitrary: a)
  case Nil
  then show ?case by (auto split: if_splits)
next
  case (Cons c cs)
  show ?case
  proof (cases "strip_prefix p (c # cs)")
    case None
    with Cons.prems obtain a' where "a = c # a'" "split_once p cs = Some (a', b)"
      by auto
    with Cons.IH show ?thesis by simp
  next
    case (Some r)
    with Cons.prems have "a = [] \<and> b = r" by simp
    with Some show ?thesis by (simp add: strip_prefix_Some)
  qed
qed

lemma split_once_char:
  "c \<notin> set a \<Longrightarrow> split_once [c] (a @ c # b) = Some (a, b)"
  by (induction a) auto

lemma split_once_char_None: "split_once [c] s = None \<longleftrightarrow> c \<notin> set s"
  by (induction s) auto

text \<open>\<open>str::contains\<close> for a text pattern.\<close>

definition str_contains :: "'a list \<Rightarrow> 'a list \<Rightarrow> bool" where
  "str_contains p s \<longleftrightarrow> split_once p s \<noteq> None"

section \<open>UTF-8\<close>

definition is_cont :: "char \<Rightarrow> bool" where
  "is_cont b \<longleftrightarrow> 0x80 \<le> byte_of b \<and> byte_of b < (0xC0 :: nat)"

definition cont_bits :: "char \<Rightarrow> nat" where
  "cont_bits b = byte_of b - 0x80"

text \<open>
  One decoding step: the code point and the number of bytes of the first
  character, when the bytes start with a well-formed one. Overlong forms,
  surrogates and values above U+10FFFF are rejected, as in
  \<open>core::str::from_utf8\<close>.
\<close>

fun utf8_step :: "bytes \<Rightarrow> (nat \<times> nat) option" where
  "utf8_step [] = None"
| "utf8_step (a # r) =
     (let x = byte_of a in
      if x < 0x80 then Some (x, 1)
      else if 0xC2 \<le> x \<and> x < 0xE0 then
        (case r of
           b # _ \<Rightarrow> if is_cont b then Some ((x - 0xC0) * 64 + cont_bits b, 2) else None
         | _ \<Rightarrow> None)
      else if 0xE0 \<le> x \<and> x < 0xF0 then
        (case r of
           b # c # _ \<Rightarrow>
             (let cp = (x - 0xE0) * 4096 + cont_bits b * 64 + cont_bits c in
              if is_cont b \<and> is_cont c \<and> 0x800 \<le> cp \<and> \<not> (0xD800 \<le> cp \<and> cp < 0xE000)
              then Some (cp, 3) else None)
         | _ \<Rightarrow> None)
      else if 0xF0 \<le> x \<and> x < 0xF5 then
        (case r of
           b # c # d # _ \<Rightarrow>
             (let cp = (x - 0xF0) * 262144 + cont_bits b * 4096 + cont_bits c * 64 + cont_bits d in
              if is_cont b \<and> is_cont c \<and> is_cont d \<and> 0x10000 \<le> cp \<and> cp < 0x110000
              then Some (cp, 4) else None)
         | _ \<Rightarrow> None)
      else None)"

lemma utf8_step_len: "utf8_step s = Some (cp, n) \<Longrightarrow> 0 < n \<and> n \<le> length s"
  by (cases s) (auto simp: Let_def split: if_splits list.splits)

lemma utf8_step_append: "utf8_step s = Some (cp, n) \<Longrightarrow> utf8_step (s @ t) = Some (cp, n)"
  by (cases s) (auto simp: Let_def split: if_splits list.splits)

lemma utf8_step_ascii: "byte_of a < (0x80 :: nat) \<Longrightarrow> utf8_step (a # r) = Some (byte_of a, 1)"
  by (simp add: Let_def)

declare utf8_step.simps [simp del]

text \<open>
  The characters of a text, each as its bytes. On bytes that are not UTF-8 the
  function is still total: an undecodable byte stands alone. The model calls it
  on text only.
\<close>

function chars :: "str \<Rightarrow> str list" where
  "chars s =
     (case s of
        [] \<Rightarrow> []
      | c # cs \<Rightarrow>
          (case utf8_step s of
             Some (_, n) \<Rightarrow> take n s # chars (drop n s)
           | None \<Rightarrow> [c] # chars cs))"
  by pat_completeness auto
termination
  by (relation "measure length") (auto dest: utf8_step_len)

function valid_utf8 :: "bytes \<Rightarrow> bool" where
  "valid_utf8 s =
     (s = [] \<or> (case utf8_step s of Some (_, n) \<Rightarrow> valid_utf8 (drop n s) | None \<Rightarrow> False))"
  by pat_completeness auto
termination
  by (relation "measure length") (auto dest: utf8_step_len)

declare chars.simps [simp del] valid_utf8.simps [simp del]

lemma chars_Nil [simp]: "chars [] = []"
  by (simp add: chars.simps)

lemma valid_utf8_Nil [simp]: "valid_utf8 []"
  by (simp add: valid_utf8.simps)

definition char_cp :: "str \<Rightarrow> nat" where
  "char_cp c = (case utf8_step c of Some (cp, _) \<Rightarrow> cp | None \<Rightarrow> 0xFFFD)"

lemma concat_chars [simp]: "concat (chars s) = s"
proof (induction s rule: chars.induct)
  case (1 s)
  then show ?case
    by (subst chars.simps) (auto split: list.splits option.splits)
qed

text \<open>\<open>str::is_char_boundary\<close> as the library computes it.\<close>

definition is_char_boundary :: "str \<Rightarrow> nat \<Rightarrow> bool" where
  "is_char_boundary s i \<longleftrightarrow>
     i = 0 \<or> (if length s \<le> i then i = length s else \<not> is_cont (s ! i))"

text \<open>\<open>str::get(a..b)\<close>: \<open>None\<close> out of range or inside a character.\<close>

definition str_get :: "str \<Rightarrow> nat \<Rightarrow> nat \<Rightarrow> str option" where
  "str_get s a b =
     (if a \<le> b \<and> is_char_boundary s a \<and> is_char_boundary s b then Some (slice a b s) else None)"

definition from_utf8 :: "bytes \<Rightarrow> str option" where
  "from_utf8 s = (if valid_utf8 s then Some s else None)"

lemma char_boundary_0 [simp]: "is_char_boundary s 0"
  by (simp add: is_char_boundary_def)

lemma char_boundary_len [simp]: "is_char_boundary s (length s)"
  by (simp add: is_char_boundary_def)

lemma char_boundary_le: "is_char_boundary s i \<Longrightarrow> i \<le> length s"
  by (auto simp: is_char_boundary_def split: if_splits)

lemma ascii_valid_utf8: "\<forall>c \<in> set s. byte_of c < (0x80 :: nat) \<Longrightarrow> valid_utf8 s"
  by (induction s) (simp, subst valid_utf8.simps, simp add: utf8_step_ascii)

lemma valid_utf8_append: "valid_utf8 s \<Longrightarrow> valid_utf8 t \<Longrightarrow> valid_utf8 (s @ t)"
proof (induction s rule: valid_utf8.induct)
  case (1 s)
  show ?case
  proof (cases "s = []")
    case True
    with "1.prems" show ?thesis by simp
  next
    case False
    with "1.prems"(1) obtain cp n where st: "utf8_step s = Some (cp, n)" "valid_utf8 (drop n s)"
      by (subst (asm) valid_utf8.simps) (auto split: option.splits)
    with "1.IH" False "1.prems"(2) have "valid_utf8 (drop n s @ t)" by auto
    with st utf8_step_len [OF st(1)] utf8_step_append [OF st(1)] show ?thesis
      by (subst valid_utf8.simps) simp
  qed
qed

lemma utf8_step_cut:
  assumes "utf8_step (s @ c # t) = Some (cp, n)" "\<not> is_cont c" "s \<noteq> []"
  shows "utf8_step s = Some (cp, n)"
proof -
  obtain a r where s: "s = a # r" using assms(3) by (cases s) auto
  show ?thesis
  proof (cases r)
    case Nil
    with assms s show ?thesis
      by (auto simp: utf8_step.simps Let_def split: if_splits list.splits)
  next
    case r1: (Cons b r')
    show ?thesis
    proof (cases r')
      case Nil
      with assms s r1 show ?thesis
        by (auto simp: utf8_step.simps Let_def split: if_splits list.splits)
    next
      case (Cons d r'')
      with assms s r1 show ?thesis
        by (cases r'') (auto simp: utf8_step.simps Let_def split: if_splits)
    qed
  qed
qed

lemma valid_utf8_cut:
  "valid_utf8 (s @ c # t) \<Longrightarrow> \<not> is_cont c \<Longrightarrow> valid_utf8 s \<and> valid_utf8 (c # t)"
proof (induction s rule: valid_utf8.induct)
  case (1 s)
  show ?case
  proof (cases "s = []")
    case True
    with "1.prems" show ?thesis by simp
  next
    case False
    with "1.prems"(1) obtain cp n where st: "utf8_step (s @ c # t) = Some (cp, n)"
      "valid_utf8 (drop n (s @ c # t))"
      by (subst (asm) valid_utf8.simps) (auto split: option.splits)
    with "1.prems"(2) False have u: "utf8_step s = Some (cp, n)" by (blast intro: utf8_step_cut)
    with utf8_step_len [OF u] st(2) have "valid_utf8 (drop n s @ c # t)" by simp
    with "1.IH" False u "1.prems"(2) have "valid_utf8 (drop n s) \<and> valid_utf8 (c # t)" by auto
    with u show ?thesis by (subst valid_utf8.simps) simp
  qed
qed

lemma valid_utf8_boundary:
  assumes "valid_utf8 s" "is_char_boundary s i"
  shows "valid_utf8 (take i s) \<and> valid_utf8 (drop i s)"
proof (cases "i < length s")
  case True
  show ?thesis
  proof (cases "i = 0")
    case False
    with True assms(2) have "\<not> is_cont (s ! i)" by (simp add: is_char_boundary_def)
    moreover have "s = take i s @ s ! i # drop (Suc i) s" using True by (rule id_take_nth_drop)
    ultimately show ?thesis
      using assms(1) valid_utf8_cut [of "take i s" "s ! i" "drop (Suc i) s"] True
      by (metis Cons_nth_drop_Suc)
  qed (simp add: assms(1))
next
  case False
  with assms show ?thesis by (simp add: is_char_boundary_def split: if_splits)
qed

section \<open>White space and case\<close>

text \<open>\<open>char::is_whitespace\<close>: the code points with the Unicode property White\_Space.\<close>

definition is_whitespace :: "nat \<Rightarrow> bool" where
  "is_whitespace cp \<longleftrightarrow>
     (9 \<le> cp \<and> cp \<le> 13) \<or> cp = 0x20 \<or> cp = 0x85 \<or> cp = 0xA0 \<or> cp = 0x1680 \<or>
     (0x2000 \<le> cp \<and> cp \<le> 0x200A) \<or> cp = 0x2028 \<or> cp = 0x2029 \<or> cp = 0x202F \<or>
     cp = 0x205F \<or> cp = 0x3000"

text \<open>\<open>char::is_control\<close>: the general category Cc.\<close>

definition is_control :: "nat \<Rightarrow> bool" where
  "is_control cp \<longleftrightarrow> cp < 0x20 \<or> (0x7F \<le> cp \<and> cp < 0xA0)"

definition ws_char :: "str \<Rightarrow> bool" where
  "ws_char c \<longleftrightarrow> is_whitespace (char_cp c)"

definition trim_start :: "str \<Rightarrow> str" where
  "trim_start s = concat (dropWhile ws_char (chars s))"

definition trim_end :: "str \<Rightarrow> str" where
  "trim_end s = concat (rev (dropWhile ws_char (rev (chars s))))"

definition trim :: "str \<Rightarrow> str" where
  "trim s = concat (rev (dropWhile ws_char (rev (dropWhile ws_char (chars s)))))"

lemma trim_end_prefix: "\<exists>t. s = trim_end s @ t"
proof -
  have "chars s = rev (dropWhile ws_char (rev (chars s))) @ rev (takeWhile ws_char (rev (chars s)))"
    by (metis rev_append rev_rev_ident takeWhile_dropWhile_id)
  then have "concat (chars s) = trim_end s @ concat (rev (takeWhile ws_char (rev (chars s))))"
    unfolding trim_end_def by (metis concat_append)
  then show ?thesis by auto
qed

lemma trim_start_suffix: "\<exists>t. s = t @ trim_start s"
proof -
  have "concat (chars s) = concat (takeWhile ws_char (chars s)) @ trim_start s"
    unfolding trim_start_def by (metis concat_append takeWhile_dropWhile_id)
  then show ?thesis by auto
qed

text \<open>\<open>str::split_whitespace\<close>: the maximal runs of characters that are not white space.\<close>

function ws_words :: "str list \<Rightarrow> str list" where
  "ws_words cs =
     (case dropWhile ws_char cs of
        [] \<Rightarrow> []
      | c # r \<Rightarrow> concat (takeWhile (\<lambda>x. \<not> ws_char x) (c # r)) #
                  ws_words (dropWhile (\<lambda>x. \<not> ws_char x) r))"
  by pat_completeness auto
termination
proof (relation "measure length", goal_cases)
  case (2 cs c r)
  have "length (dropWhile (\<lambda>x. \<not> ws_char x) r) \<le> length r"
    by (rule length_dropWhile_le)
  also have "length r < length cs"
    using length_dropWhile_le [of ws_char cs] 2 by simp
  finally show ?case by simp
qed simp

declare ws_words.simps [simp del]

definition split_whitespace :: "str \<Rightarrow> str list" where
  "split_whitespace s = ws_words (chars s)"

definition is_ascii_whitespace :: "char \<Rightarrow> bool" where
  "is_ascii_whitespace c \<longleftrightarrow> c \<in> {CHR 0x20, CHR 0x09, CHR 0x0A, CHR 0x0C, CHR 0x0D}"

text \<open>
  \<open>str::lines\<close>: the pieces between line feeds, each that ended in one without the
  carriage return before it; no last piece when the text ends in a line feed.
\<close>

definition strip_cr :: "str \<Rightarrow> str" where
  "strip_cr l = (case strip_suffix [CR] l of Some m \<Rightarrow> m | None \<Rightarrow> l)"

definition str_lines :: "str \<Rightarrow> str list" where
  "str_lines s =
     (let ps = split_on LF s in map strip_cr (butlast ps) @ (if last ps = [] then [] else [last ps]))"

definition ascii_lower :: "char \<Rightarrow> char" where
  "ascii_lower c =
     (if 65 \<le> byte_of c \<and> byte_of c \<le> (90 :: nat) then of_byte (byte_of c + 32) else c)"

definition to_ascii_lowercase :: "str \<Rightarrow> str" where
  "to_ascii_lowercase s = map ascii_lower s"

definition is_ascii_digit :: "char \<Rightarrow> bool" where
  "is_ascii_digit c \<longleftrightarrow> 48 \<le> byte_of c \<and> byte_of c \<le> (57 :: nat)"

definition is_ascii_alphabetic :: "char \<Rightarrow> bool" where
  "is_ascii_alphabetic c \<longleftrightarrow>
     (65 \<le> byte_of c \<and> byte_of c \<le> (90 :: nat)) \<or> (97 \<le> byte_of c \<and> byte_of c \<le> (122 :: nat))"

definition is_ascii_alphanumeric :: "char \<Rightarrow> bool" where
  "is_ascii_alphanumeric c \<longleftrightarrow> is_ascii_alphabetic c \<or> is_ascii_digit c"

definition is_ascii_graphic :: "char \<Rightarrow> bool" where
  "is_ascii_graphic c \<longleftrightarrow> 33 \<le> byte_of c \<and> byte_of c \<le> (126 :: nat)"

section \<open>Numerals\<close>

definition digit_char :: "nat \<Rightarrow> char" where
  "digit_char d = of_byte (48 + d)"

definition hex_lower :: "nat \<Rightarrow> char" where
  "hex_lower d = (if d < 10 then of_byte (48 + d) else of_byte (87 + d))"

definition hex_upper :: "nat \<Rightarrow> char" where
  "hex_upper d = (if d < 10 then of_byte (48 + d) else of_byte (55 + d))"

fun show_nat :: "nat \<Rightarrow> str" where
  "show_nat n = (if n < 10 then [digit_char n] else show_nat (n div 10) @ [digit_char (n mod 10)])"

declare show_nat.simps [simp del]

text \<open>\<open>str::parse\<close> for an unsigned integer type with the given largest value.\<close>

fun digits_value :: "nat \<Rightarrow> nat \<Rightarrow> str \<Rightarrow> nat option" where
  "digits_value limit acc [] = Some acc"
| "digits_value limit acc (c # cs) =
     (if is_ascii_digit c \<and> acc * 10 + (byte_of c - 48) \<le> limit
      then digits_value limit (acc * 10 + (byte_of c - 48)) cs else None)"

definition parse_unsigned :: "nat \<Rightarrow> str \<Rightarrow> nat option" where
  "parse_unsigned limit s =
     (case s of
        [] \<Rightarrow> None
      | c # cs \<Rightarrow>
          (if c = CHR ''+'' then (if cs = [] then None else digits_value limit 0 cs)
           else digits_value limit 0 s))"

definition parse_u32 :: "str \<Rightarrow> nat option" where
  "parse_u32 = parse_unsigned u32_max"

lemma digits_value_bound: "digits_value limit acc s = Some n \<Longrightarrow> acc \<le> limit \<Longrightarrow> n \<le> limit"
  by (induction limit acc s rule: digits_value.induct) (auto split: if_splits)

lemma parse_u32_bound: "parse_u32 s = Some n \<Longrightarrow> n \<le> u32_max"
  by (auto simp: parse_u32_def parse_unsigned_def
      dest!: digits_value_bound split: list.splits if_splits)

lemma digit_char_value:
  "d < 10 \<Longrightarrow> byte_of (digit_char d) = 48 + d"
  by (simp add: digit_char_def)

lemma digits_value_append:
  "digits_value limit acc s = Some n \<Longrightarrow>
     digits_value limit acc (s @ t) = digits_value limit n t"
  by (induction limit acc s rule: digits_value.induct) (auto split: if_splits)

lemma digits_value_show: "n \<le> limit \<Longrightarrow> digits_value limit 0 (show_nat n) = Some n"
proof (induction n rule: show_nat.induct)
  case (1 n)
  show ?case
  proof (cases "n < 10")
    case True
    with "1.prems" show ?thesis
      by (subst show_nat.simps) (simp add: is_ascii_digit_def digit_char_value)
  next
    case False
    have "n div 10 \<le> limit" using "1.prems" by (meson div_le_dividend le_trans)
    with "1.IH" False have "digits_value limit 0 (show_nat (n div 10)) = Some (n div 10)" by simp
    moreover have "n div 10 * 10 + n mod 10 = n" by simp
    ultimately show ?thesis using False "1.prems"
      by (subst show_nat.simps)
        (simp add: digits_value_append is_ascii_digit_def digit_char_value)
  qed
qed

lemma show_nat_nonempty: "show_nat n \<noteq> []"
  by (subst show_nat.simps) simp

lemma show_nat_digits: "c \<in> set (show_nat n) \<Longrightarrow> is_ascii_digit c"
proof (induction n rule: show_nat.induct)
  case (1 n)
  then show ?case
    by (subst (asm) (2) show_nat.simps)
      (auto simp: is_ascii_digit_def digit_char_value split: if_splits)
qed

lemma parse_u32_show: "n \<le> u32_max \<Longrightarrow> parse_u32 (show_nat n) = Some n"
proof -
  assume n: "n \<le> u32_max"
  obtain c cs where s: "show_nat n = c # cs"
    using show_nat_nonempty by (cases "show_nat n") auto
  then have "is_ascii_digit c" using show_nat_digits by (metis list.set_intros(1))
  then have "c \<noteq> CHR ''+''" by (auto simp: is_ascii_digit_def)
  with s digits_value_show [OF n] show ?thesis
    by (simp add: parse_u32_def parse_unsigned_def)
qed

section \<open>Characters and boundaries\<close>

lemma valid_utf8_hd: "valid_utf8 (c # t) \<Longrightarrow> \<not> is_cont c"
  by (subst (asm) valid_utf8.simps) (auto simp: utf8_step.simps is_cont_def Let_def split: if_splits)

lemma valid_utf8_step:
  assumes "valid_utf8 s" "s \<noteq> []"
  obtains cp n where "utf8_step s = Some (cp, n)" "valid_utf8 (drop n s)" "chars s = take n s # chars (drop n s)" "0 < n" "n \<le> length s"
proof -
  from assms obtain cp n where st: "utf8_step s = Some (cp, n)" "valid_utf8 (drop n s)"
    by (subst (asm) valid_utf8.simps) (auto split: option.splits)
  moreover have "chars s = take n s # chars (drop n s)"
    using st(1) assms(2) by (subst chars.simps) (auto split: list.splits)
  ultimately show ?thesis using utf8_step_len [OF st(1)] that by blast
qed

lemma chars_nonempty: "[] \<notin> set (chars s)"
proof (induction s rule: chars.induct)
  case (1 s)
  show ?case
    by (subst chars.simps) (use 1 in \<open>auto split: list.splits option.splits dest: utf8_step_len\<close>)
qed

lemma boundary_drop:
  assumes "is_char_boundary (drop n s) k" "valid_utf8 (drop n s)" "n \<le> length s"
  shows "is_char_boundary s (n + k)"
proof (cases "k = 0")
  case False
  with assms(1,3) show ?thesis by (auto simp: is_char_boundary_def split: if_splits)
next
  case True
  show ?thesis
  proof (cases "n < length s")
    case lt: True
    then have "drop n s = s ! n # drop (Suc n) s" by (simp add: Cons_nth_drop_Suc)
    with assms(2) have "\<not> is_cont (s ! n)" by (metis valid_utf8_hd)
    with True lt show ?thesis by (simp add: is_char_boundary_def)
  qed (use True assms(3) in \<open>simp add: is_char_boundary_def\<close>)
qed

lemma chars_boundary:
  assumes "valid_utf8 s" "chars s = cs @ ds"
  shows "is_char_boundary s (length (concat cs))"
  using assms
proof (induction cs arbitrary: s)
  case (Cons c cs)
  then have "s \<noteq> []" by auto
  with Cons.prems(1) obtain cp n where st: "utf8_step s = Some (cp, n)" "valid_utf8 (drop n s)"
    "chars s = take n s # chars (drop n s)" "0 < n" "n \<le> length s" by (rule valid_utf8_step)
  then have "is_char_boundary (drop n s) (length (concat cs))" using Cons by simp
  from boundary_drop [OF this st(2,5)] st(3,5) Cons.prems(2) show ?case by simp
qed simp

lemma chars_step: "utf8_step u = Some (cp, n) \<Longrightarrow> chars u = take n u # chars (drop n u)"
  by (subst chars.simps) (auto simp: utf8_step.simps split: list.split)

lemma chars_append: "valid_utf8 s \<Longrightarrow> chars (s @ t) = chars s @ chars t"
proof (induction s rule: chars.induct)
  case (1 s)
  show ?case
  proof (cases "s = []")
    case False
    obtain cp n where st: "utf8_step s = Some (cp, n)" "valid_utf8 (drop n s)"
      "chars s = take n s # chars (drop n s)" "0 < n" "n \<le> length s"
      using valid_utf8_step [OF 1(3) False] by metis
    obtain x xs where s: "s = x # xs" using False by (cases s) auto
    have "chars (drop n s @ t) = chars (drop n s) @ chars t" using 1(2) [OF s st(1) refl st(2)] .
    moreover have "chars (s @ t) = take n s # chars (drop n s @ t)"
      using chars_step [OF utf8_step_append [OF st(1), of t]] st(5) by simp
    ultimately show ?thesis using st(3) by simp
  qed simp
qed

lemma utf8_step_take: "utf8_step s = Some (cp, n) \<Longrightarrow> utf8_step (take n s) = Some (cp, n)"
  by (cases s) (auto simp: utf8_step.simps Let_def split: if_splits list.splits)

text \<open>The bytes of exactly one character.\<close>

definition one_char :: "str \<Rightarrow> bool" where
  "one_char c \<longleftrightarrow> utf8_step c = Some (char_cp c, length c)"

lemma chars_one_char: "valid_utf8 s \<Longrightarrow> c \<in> set (chars s) \<Longrightarrow> one_char c"
proof (induction s rule: chars.induct)
  case (1 s)
  show ?case
  proof (cases "s = []")
    case False
    obtain cp n where st: "utf8_step s = Some (cp, n)" "valid_utf8 (drop n s)"
      "chars s = take n s # chars (drop n s)" "0 < n" "n \<le> length s"
      using valid_utf8_step [OF 1(3) False] by metis
    have "one_char (take n s)"
      using utf8_step_take [OF st(1)] st(5) by (simp add: one_char_def char_cp_def)
    moreover obtain x xs where "s = x # xs" using False by (cases s) auto
    ultimately show ?thesis using 1(2) [OF _ st(1) refl st(2)] 1(4) st(3) by auto
  qed (use 1(4) in simp)
qed

lemma chars_concat: "\<forall>c \<in> set cs. one_char c \<Longrightarrow> chars (concat cs) = cs"
proof (induction cs)
  case (Cons c cs)
  then have "utf8_step (c @ concat cs) = Some (char_cp c, length c)"
    by (simp add: one_char_def utf8_step_append)
  from chars_step [OF this] Cons show ?case by simp
qed simp

end
