(* ===== verification/Domain.thy ===== *)
theory Domain
  imports Text
begin

text \<open>
  The source-identity module, \<open>crates/core/src/domain.rs\<close>, up to the snapshot:
  identities and their digest, sides and line endings, decoded source
  documents, and Git paths. SHA-256 comes from the \<open>sha2\<close> crate and is a
  parameter \<open>sha\<close> of every definition that hashes.
\<close>

section \<open>Identities\<close>

datatype snapshot_id = SnapshotId (snapshot_key: str)
datatype file_id = FileId (file_key: str)
datatype draft_id = DraftId (draft_key: str)
datatype operation_id = OperationId (operation_key: str)

text \<open>The derived \<open>Ord\<close> of the identity types compares the wrapped strings.\<close>

instantiation file_id :: linorder
begin
definition less_eq_file_id :: "file_id \<Rightarrow> file_id \<Rightarrow> bool" where
  "less_eq_file_id a b \<longleftrightarrow> file_key a \<le> file_key b"
definition less_file_id :: "file_id \<Rightarrow> file_id \<Rightarrow> bool" where
  "less_file_id a b \<longleftrightarrow> file_key a < file_key b"
instance
  by standard (auto simp: less_eq_file_id_def less_file_id_def intro: file_id.expand)
end

instantiation draft_id :: linorder
begin
definition less_eq_draft_id :: "draft_id \<Rightarrow> draft_id \<Rightarrow> bool" where
  "less_eq_draft_id a b \<longleftrightarrow> draft_key a \<le> draft_key b"
definition less_draft_id :: "draft_id \<Rightarrow> draft_id \<Rightarrow> bool" where
  "less_draft_id a b \<longleftrightarrow> draft_key a < draft_key b"
instance
  by standard (auto simp: less_eq_draft_id_def less_draft_id_def intro: draft_id.expand)
end

section \<open>The digest\<close>

text \<open>\<open>u64::to_le_bytes\<close>: eight bytes, least significant first.\<close>

fun le_bytes :: "nat \<Rightarrow> nat \<Rightarrow> bytes" where
  "le_bytes 0 n = []"
| "le_bytes (Suc k) n = of_byte (n mod 256) # le_bytes k (n div 256)"

definition digest_input :: "bytes list \<Rightarrow> bytes" where
  "digest_input parts = concat (map (\<lambda>p. le_bytes 8 (length p) @ p) parts)"

definition hex_byte :: "char \<Rightarrow> str" where
  "hex_byte b = [hex_lower (byte_of b div 16), hex_lower (byte_of b mod 16)]"

definition digest :: "(bytes \<Rightarrow> bytes) \<Rightarrow> bytes list \<Rightarrow> str" where
  "digest sha parts = concat (map hex_byte (sha (digest_input parts)))"

lemma length_le_bytes [simp]: "length (le_bytes k n) = k"
  by (induction k arbitrary: n) auto

lemma le_bytes_8_nonempty [simp]: "le_bytes 8 n \<noteq> []" "[] \<noteq> le_bytes 8 n"
  using length_le_bytes [of 8 n] by (metis list.size(3) zero_neq_numeral)+

lemma of_byte_mod_eq: "of_byte (a mod 256) = of_byte (b mod 256) \<Longrightarrow> a mod 256 = (b mod 256 :: nat)"
  by (metis char_of_mod_256 of_char_of)

lemma le_bytes_inj:
  "a < 256 ^ k \<Longrightarrow> b < 256 ^ k \<Longrightarrow> le_bytes k a = le_bytes k b \<Longrightarrow> a = b"
proof (induction k arbitrary: a b)
  case 0
  then show ?case by simp
next
  case (Suc k)
  have "a div 256 < 256 ^ k" "b div 256 < 256 ^ k"
    using Suc.prems(1,2) by (simp_all add: less_mult_imp_div_less mult.commute)
  with Suc have "a div 256 = b div 256" by simp
  moreover have "a mod 256 = b mod 256"
    using Suc.prems(3) of_byte_mod_eq by simp
  ultimately show ?case by (metis div_mult_mod_eq)
qed

lemma digest_input_inj:
  assumes "\<forall>p \<in> set ps. length p < 2 ^ 64" "\<forall>q \<in> set qs. length q < 2 ^ 64"
    and "digest_input ps = digest_input qs"
  shows "ps = qs"
  using assms
proof (induction ps arbitrary: qs)
  case Nil
  then show ?case by (cases qs) (auto simp: digest_input_def simp del: le_bytes.simps)
next
  case (Cons p ps)
  obtain q qs' where qs: "qs = q # qs'"
    using Cons.prems(3) by (cases qs) (simp_all add: digest_input_def del: le_bytes.simps)
  with Cons.prems(3) have eq: "le_bytes 8 (length p) @ p @ digest_input ps =
      le_bytes 8 (length q) @ q @ digest_input qs'"
    by (simp add: digest_input_def)
  then have "le_bytes 8 (length p) = le_bytes 8 (length q)" and
    rest: "p @ digest_input ps = q @ digest_input qs'"
    using append_eq_append_conv by (metis length_le_bytes)+
  then have "length p = length q"
    using Cons.prems(1,2) qs by (intro le_bytes_inj [of _ 8]) auto
  with rest have "p = q" "digest_input ps = digest_input qs'" by auto
  with Cons qs show ?case by auto
qed

lemma hex_lower_inj: "a < 16 \<Longrightarrow> b < 16 \<Longrightarrow> hex_lower a = hex_lower b \<Longrightarrow> a = b"
proof -
  assume ab: "a < 16" "b < 16" "hex_lower a = hex_lower b"
  have v: "byte_of (hex_lower d) = (if d < 10 then 48 + d else 87 + d)" if "d < 16" for d :: nat
    using that by (simp add: hex_lower_def)
  from ab(3) have "(byte_of (hex_lower a) :: nat) = byte_of (hex_lower b)" by simp
  with ab(1,2) show "a = b" by (simp add: v split: if_splits)
qed

lemma hex_byte_inj: "hex_byte a = hex_byte b \<Longrightarrow> a = b"
proof -
  have lt: "byte_of c div 16 < (16 :: nat)" for c
    using nat_of_char_less_256 [of c] by (simp add: less_mult_imp_div_less)
  assume "hex_byte a = hex_byte b"
  then have "byte_of a div 16 = (byte_of b div 16 :: nat)" "byte_of a mod 16 = (byte_of b mod 16 :: nat)"
    by (auto simp: hex_byte_def intro: hex_lower_inj lt)
  then have "byte_of a = (byte_of b :: nat)" by (metis div_mult_mod_eq)
  then show "a = b" by simp
qed

lemma concat_hex_inj: "concat (map hex_byte xs) = concat (map hex_byte ys) \<Longrightarrow> xs = ys"
proof (induction xs arbitrary: ys)
  case Nil
  then show ?case by (cases ys) (auto simp: hex_byte_def)
next
  case (Cons x xs)
  then obtain y ys' where ys: "ys = y # ys'"
    by (cases ys) (auto simp: hex_byte_def)
  with Cons.prems have "hex_byte x @ concat (map hex_byte xs) = hex_byte y @ concat (map hex_byte ys')"
    by simp
  moreover have "length (hex_byte x) = length (hex_byte y)" by (simp add: hex_byte_def)
  ultimately have "hex_byte x = hex_byte y" "concat (map hex_byte xs) = concat (map hex_byte ys')"
    by auto
  with Cons.IH hex_byte_inj ys show ?case by auto
qed

section \<open>Sides and line endings\<close>

datatype side = SideLeft | SideRight

definition side_api :: "side \<Rightarrow> str" where
  "side_api s = (case s of SideLeft \<Rightarrow> ''LEFT'' | SideRight \<Rightarrow> ''RIGHT'')"

datatype line_ending = EndLf | EndCrLf | EndNone

definition ending_bytes :: "line_ending \<Rightarrow> bytes" where
  "ending_bytes e = (case e of EndLf \<Rightarrow> [LF] | EndCrLf \<Rightarrow> [CR, LF] | EndNone \<Rightarrow> [])"

definition ending_label :: "line_ending \<Rightarrow> str" where
  "ending_label e =
     (case e of EndLf \<Rightarrow> ''LF'' | EndCrLf \<Rightarrow> ''CRLF'' | EndNone \<Rightarrow> ''no final newline'')"

section \<open>Source documents\<close>

record source_line =
  content :: range
  sl_ending :: line_ending

datatype source_error = InvalidUtf8 | TooLarge | TooManyLines | InvalidCoordinate

record source_document =
  raw :: str
  doc_lines :: "source_line list"

definition max_source_bytes :: nat where
  "max_source_bytes = 32 * 1024 * 1024"

definition max_source_lines :: nat where
  "max_source_lines = 1000000"

text \<open>The loop of \<open>from_utf8\<close> over the bytes from index \<open>i\<close> on.\<close>

fun scan_lines :: "str \<Rightarrow> nat \<Rightarrow> nat \<Rightarrow> source_line list \<Rightarrow> str \<Rightarrow> source_error + (nat \<times> source_line list)"
where
  "scan_lines rw i start ls [] = Inr (start, ls)"
| "scan_lines rw i start ls (b # r) =
     (if b = LF then
        (let cr = (start < i \<and> rw ! (i - 1) = CR);
             ls' = ls @ [\<lparr>content = (start, if cr then i - 1 else i),
                          sl_ending = (if cr then EndCrLf else EndLf)\<rparr>]
         in if max_source_lines < length ls' then Inl TooManyLines
            else scan_lines rw (Suc i) (Suc i) ls' r)
      else scan_lines rw (Suc i) start ls r)"

definition source_from_utf8 :: "bytes \<Rightarrow> source_error + source_document" where
  "source_from_utf8 bs =
     failIf (max_source_bytes < length bs) TooLarge
       (bindE (okE InvalidUtf8 (from_utf8 bs)) (\<lambda>rw.
        bindE (scan_lines rw 0 0 [] rw) (\<lambda>(start, ls).
          (let ls' = (if start < length rw
                      then ls @ [\<lparr>content = (start, length rw), sl_ending = EndNone\<rparr>] else ls)
           in if max_source_lines < length ls' then Inl TooManyLines
              else Inr \<lparr>raw = rw, doc_lines = ls'\<rparr>))))"

definition doc_line_at :: "source_document \<Rightarrow> nat \<Rightarrow> source_line option" where
  "doc_line_at d line =
     (if line = 0 then None
      else if line - 1 < length (doc_lines d) then Some (doc_lines d ! (line - 1)) else None)"

definition line_slice :: "str \<Rightarrow> source_line \<Rightarrow> str" where
  "line_slice rw l = slice (fst (content l)) (snd (content l)) rw"

definition line_text :: "source_document \<Rightarrow> nat \<Rightarrow> str option" where
  "line_text d line = map_option (line_slice (raw d)) (doc_line_at d line)"

definition doc_offset :: "source_document \<Rightarrow> nat \<Rightarrow> nat \<Rightarrow> source_error + nat" where
  "doc_offset d line column =
     bindE (okE InvalidCoordinate (doc_line_at d line)) (\<lambda>l.
       if snd (content l) - fst (content l) < column \<or>
          \<not> is_char_boundary (raw d) (fst (content l) + column)
       then Inl InvalidCoordinate else Inr (fst (content l) + column))"

text \<open>One stored line back as the bytes it came from.\<close>

definition render_line :: "str \<Rightarrow> source_line \<Rightarrow> str" where
  "render_line rw l = line_slice rw l @ ending_bytes (sl_ending l)"

definition line_ok :: "str \<Rightarrow> source_line \<Rightarrow> bool" where
  "line_ok rw l \<longleftrightarrow> fst (content l) \<le> snd (content l) \<and> snd (content l) \<le> length rw \<and>
     LF \<notin> set (line_slice rw l)"

lemma slice_snoc: "a \<le> i \<Longrightarrow> i < length xs \<Longrightarrow> slice a (Suc i) xs = slice a i xs @ [xs ! i]"
  by (simp add: slice_def Suc_diff_le take_Suc_conv_app_nth)

text \<open>The next line the loop pushes renders to the bytes since \<open>start\<close>.\<close>

lemma pushed_line_render:
  assumes "start \<le> i" "i < length rw" "rw ! i = LF"
    and "cr \<longleftrightarrow> start < i \<and> rw ! (i - 1) = CR"
  shows "render_line rw \<lparr>content = (start, if cr then i - 1 else i),
           sl_ending = (if cr then EndCrLf else EndLf)\<rparr> = slice start (Suc i) rw"
proof (cases cr)
  case True
  with assms have i: "start \<le> i - 1" "i - 1 < length rw" "Suc (i - 1) = i" by auto
  then have "slice start i rw = slice start (i - 1) rw @ [CR]"
    using slice_snoc [of start "i - 1" rw] True assms(4) by simp
  with True assms i show ?thesis
    by (simp add: render_line_def line_slice_def ending_bytes_def slice_snoc)
next
  case False
  with assms show ?thesis
    by (simp add: render_line_def line_slice_def ending_bytes_def slice_snoc)
qed

lemma slice_no_LF_prefix:
  "LF \<notin> set (slice a b xs) \<Longrightarrow> c \<le> b \<Longrightarrow> LF \<notin> set (slice a c xs)"
  unfolding slice_def by (meson diff_le_mono in_mono set_take_subset_set_take)

lemma scan_lines_render:
  assumes "scan_lines rw i start ls r = Inr (e, ls')"
    and "r = drop i rw" "i \<le> length rw" "start \<le> i"
    and "concat (map (render_line rw) ls) = take start rw"
    and "\<forall>l \<in> set ls. line_ok rw l" "LF \<notin> set (slice start i rw)"
  shows "e \<le> length rw \<and> concat (map (render_line rw) ls') = take e rw \<and>
    (\<forall>l \<in> set ls'. line_ok rw l) \<and> LF \<notin> set (slice e (length rw) rw)"
  using assms
proof (induction rw i start ls r rule: scan_lines.induct)
  case (1 rw i start ls)
  then show ?case by (simp add: slice_def)
next
  case (2 rw i start ls b r)
  then have i: "i < length rw" "rw ! i = b" "r = drop (Suc i) rw"
    by (metis drop_eq_Nil2 leI list.distinct(1), metis drop_eq_Nil2 hd_drop_conv_nth leI
        list.distinct(1) list.sel(1), metis drop_Suc list.sel(3) tl_drop)
  show ?case
  proof (cases "b = LF")
    case True
    define cr where "cr \<longleftrightarrow> start < i \<and> rw ! (i - 1) = CR"
    define l where "l = \<lparr>content = (start, if cr then i - 1 else i),
                         sl_ending = (if cr then EndCrLf else EndLf)\<rparr>"
    have "render_line rw l = slice start (Suc i) rw"
      unfolding l_def using pushed_line_render 2(6) i True cr_def by simp
    then have render: "concat (map (render_line rw) (ls @ [l])) = take (Suc i) rw"
      using 2(6,7) i slice_append [of 0 start "Suc i" rw]
      by (simp add: slice_take)
    have ok: "line_ok rw l"
      using 2(6,9) i cr_def slice_no_LF_prefix [of start i rw "i - 1"]
      by (auto simp: line_ok_def l_def line_slice_def)
    have "scan_lines rw (Suc i) (Suc i) (ls @ [l]) r = Inr (e, ls')" "\<not> max_source_lines < length (ls @ [l])"
      using 2(3) True by (auto simp: Let_def cr_def l_def split: if_splits)
    then show ?thesis
      using 2(1) [OF True cr_def] render ok 2(8) i by (auto simp: l_def)
  next
    case False
    have "LF \<notin> set (slice start (Suc i) rw)"
      using 2(6,9) i False by (simp add: slice_snoc)
    with 2 i False show ?thesis by auto
  qed
qed

section \<open>Repository paths\<close>

datatype repo_path = RepoPath (path_bytes: bytes)

definition path_component_bad :: "bytes \<Rightarrow> bool" where
  "path_component_bad p \<longleftrightarrow> p = [] \<or> p = ''.'' \<or> p = ''..''"

definition repo_path_new :: "bytes \<Rightarrow> str + repo_path" where
  "repo_path_new bs =
     (if bs = [] \<or> NUL \<in> set bs \<or> starts_with ''/'' bs \<or>
         list_ex path_component_bad (split_on CHR ''/'' bs)
      then Inl ''invalid relative repository path'' else Inr (RepoPath bs))"

text \<open>The invariant of the type: what \<open>RepoPath::new\<close> accepts.\<close>

definition path_ok :: "repo_path \<Rightarrow> bool" where
  "path_ok p \<longleftrightarrow> repo_path_new (path_bytes p) = Inr p"

lemma repo_path_new_Inr [path_rules]:
  "repo_path_new bs = Inr p \<longleftrightarrow>
     p = RepoPath bs \<and> NUL \<notin> set bs \<and> list_all (\<lambda>c. \<not> path_component_bad c) (split_on CHR ''/'' bs)"
proof -
  have "bs = [] \<or> starts_with ''/'' bs \<Longrightarrow> list_ex path_component_bad (split_on CHR ''/'' bs)"
    by (auto simp: path_component_bad_def starts_with_iff split_on_Cons)
  then show ?thesis
    by (auto simp: repo_path_new_def list_all_iff list_ex_iff)
qed

lemma repo_path_new_ok: "repo_path_new bs = Inr p \<Longrightarrow> path_ok p"
  by (simp add: path_ok_def path_rules)

lemma path_ok_components:
  "path_ok p \<longleftrightarrow> NUL \<notin> set (path_bytes p) \<and>
     list_all (\<lambda>c. \<not> path_component_bad c) (split_on CHR ''/'' (path_bytes p))"
  by (cases p) (simp add: path_ok_def path_rules)

text \<open>\<open>RepoPath::display\<close>: control characters and raw bytes are escaped.\<close>

function hex_digits :: "nat \<Rightarrow> str" where
  "hex_digits n = (if n < 16 then [hex_lower n] else hex_digits (n div 16) @ [hex_lower (n mod 16)])"
  by pat_completeness auto
termination
  by (relation "measure id") auto

declare hex_digits.simps [simp del]

definition escape_default :: "nat \<Rightarrow> str" where
  "escape_default cp =
     (if cp = 9 then [BACKSLASH, CHR ''t''] else if cp = 10 then [BACKSLASH, CHR ''n'']
      else if cp = 13 then [BACKSLASH, CHR ''r'']
      else [BACKSLASH, CHR ''u'', CHR ''{''] @ hex_digits cp @ ''}'')"

definition path_display :: "repo_path \<Rightarrow> str" where
  "path_display p =
     (case from_utf8 (path_bytes p) of
        Some s \<Rightarrow> concat (map (\<lambda>c. if is_control (char_cp c) then escape_default (char_cp c) else c) (chars s))
      | None \<Rightarrow> concat (map (\<lambda>b. if is_ascii_graphic b \<or> b = CHR '' '' then [b]
                               else [BACKSLASH, CHR ''x''] @ hex_byte b) (path_bytes p)))"

definition path_utf8 :: "repo_path \<Rightarrow> str + str" where
  "path_utf8 p = okE ''GitHub requires a UTF-8 path'' (from_utf8 (path_bytes p))"

text \<open>
  \<open>from_git_token\<close>. The loop runs over the bytes between the quotes; \<open>octal_more\<close>
  is its inner loop, which takes at most \<open>k\<close> further octal digits.
\<close>

definition is_octal :: "char \<Rightarrow> bool" where
  "is_octal c \<longleftrightarrow> 48 \<le> byte_of c \<and> byte_of c \<le> (55 :: nat)"

fun octal_more :: "nat \<Rightarrow> nat \<Rightarrow> bytes \<Rightarrow> nat \<times> bytes" where
  "octal_more 0 n r = (n, r)"
| "octal_more (Suc k) n r =
     (case r of
        [] \<Rightarrow> (n, [])
      | c # r' \<Rightarrow> if is_octal c then octal_more k (n * 8 + (byte_of c - 48)) r' else (n, r))"

lemma octal_more_length: "length (snd (octal_more k n r)) \<le> length r"
  by (induction k arbitrary: n r) (auto split: list.splits simp: le_Suc_eq)

definition simple_escape :: "char \<Rightarrow> char option" where
  "simple_escape c =
     (if c = CHR ''a'' then Some (of_byte 7) else if c = CHR ''b'' then Some (of_byte 8)
      else if c = CHR ''t'' then Some (of_byte 9) else if c = CHR ''n'' then Some (of_byte 10)
      else if c = CHR ''v'' then Some (of_byte 11) else if c = CHR ''f'' then Some (of_byte 12)
      else if c = CHR ''r'' then Some (of_byte 13)
      else if c = BACKSLASH \<or> c = QUOTE then Some c else None)"

function unquote :: "bytes \<Rightarrow> bytes \<Rightarrow> str + bytes" where
  "unquote out [] = Inr out"
| "unquote out (b # r) =
     (if b = QUOTE then Inl ''unescaped quote in path''
      else if b \<noteq> BACKSLASH then unquote (out @ [b]) r
      else (case r of
              [] \<Rightarrow> Inl ''trailing path escape''
            | c # r' \<Rightarrow>
                if is_octal c then
                  (case octal_more 2 (byte_of c - 48) r' of
                     (n, r'') \<Rightarrow>
                       if 255 < n then Inl ''octal path escape is larger than one byte''
                       else unquote (out @ [of_byte n]) r'')
                else (case simple_escape c of
                        Some e \<Rightarrow> unquote (out @ [e]) r'
                      | None \<Rightarrow> Inl ''invalid Git path escape'')))"
  by pat_completeness auto
termination
proof (relation "measure (\<lambda>(out, r). length r)", goal_cases)
  case (3 out b r c r' n r'')
  then have "length r'' \<le> length r'" by (metis octal_more_length snd_conv)
  with 3 show ?case by simp
qed auto

definition from_git_token :: "bytes \<Rightarrow> str + repo_path" where
  "from_git_token v =
     (if \<not> starts_with [QUOTE] v then repo_path_new v
      else if length v < 2 \<or> last v \<noteq> QUOTE then Inl ''unterminated quoted path''
      else bindE (unquote [] (butlast (tl v))) repo_path_new)"

definition without_side :: "repo_path \<Rightarrow> str + repo_path" where
  "without_side p =
     (if starts_with ''a/'' (path_bytes p) \<or> starts_with ''b/'' (path_bytes p)
      then repo_path_new (drop 2 (path_bytes p)) else Inr p)"

lemma from_git_token_ok: "from_git_token v = Inr p \<Longrightarrow> path_ok p"
  by (auto simp: from_git_token_def bind_simps repo_path_new_ok split: if_splits)

lemma path_ok_drop_side:
  assumes "path_ok p" "path_bytes p = c # CHR ''/'' # r" "c \<noteq> CHR ''/''"
  shows "path_ok (RepoPath r)"
  using assms by (simp add: path_ok_components split_on_Cons)

lemma without_side_total: "path_ok p \<Longrightarrow> \<exists>q. without_side p = Inr q \<and> path_ok q"
proof -
  assume ok: "path_ok p"
  show ?thesis
  proof (cases "starts_with ''a/'' (path_bytes p) \<or> starts_with ''b/'' (path_bytes p)")
    case True
    then obtain c r where "path_bytes p = c # CHR ''/'' # r" "c \<noteq> CHR ''/''"
      by (auto simp: starts_with_iff)
    with path_ok_drop_side [OF ok] True show ?thesis
      by (auto simp: without_side_def path_ok_def)
  next
    case False
    with ok show ?thesis by (auto simp: without_side_def)
  qed
qed

text \<open>Serialisation: text when the bytes are UTF-8, a byte array otherwise or in legacy mode.\<close>

datatype path_repr = PathStr str | PathBytes "nat list"

definition serialize_path :: "bool \<Rightarrow> repo_path \<Rightarrow> path_repr" where
  "serialize_path legacy p =
     (case from_utf8 (path_bytes p) of
        Some s \<Rightarrow> if legacy then PathBytes (map byte_of (path_bytes p)) else PathStr s
      | None \<Rightarrow> PathBytes (map byte_of (path_bytes p)))"

definition deserialize_path :: "path_repr \<Rightarrow> str + repo_path" where
  "deserialize_path r =
     (case r of PathStr s \<Rightarrow> repo_path_new s | PathBytes bs \<Rightarrow> repo_path_new (map of_byte bs))"

section \<open>Points, providers, targets\<close>

record source_point =
  sp_snapshot :: snapshot_id
  sp_file :: file_id
  sp_side :: side
  sp_line :: nat
  byte_column :: nat

record source_selection =
  sel_start :: source_point
  sel_end :: source_point

record repository_key =
  repo_host :: str
  repo_id :: nat
  repo_owner :: str
  repo_name :: str

datatype provider_id = ProviderId (provider_str: str)

definition GITHUB :: provider_id where "GITHUB = ProviderId ''GitHub''"
definition GITLAB :: provider_id where "GITLAB = ProviderId ''GitLab''"
definition ENTIRE :: provider_id where "ENTIRE = ProviderId ''Entire''"

definition identity_tag :: "provider_id \<Rightarrow> bytes" where
  "identity_tag p =
     (if p = GITHUB then ''snapshot-v1''
      else ''snapshot-'' @ to_ascii_lowercase (provider_str p) @ ''-v1'')"

record compare_refs =
  cmp_base :: str
  cmp_head :: str
  cmp_direct :: bool

definition compare_label :: "compare_refs \<Rightarrow> str" where
  "compare_label c = cmp_base c @ (if cmp_direct c then ''..'' else ''...'') @ cmp_head c"

record entire_target =
  forge :: str
  repository_id :: str
  placement_id :: str
  change_id :: str
  api_origin :: str
  entire_address :: str
  project_trail_id :: "str option"

record remote_target =
  rt_provider :: provider_id
  rt_repository :: repository_key
  rt_account :: str
  rt_pr :: nat
  target_tip :: str
  comparison_base :: str
  rt_head :: str
  rt_open :: bool
  rt_draft :: bool
  rt_merged :: bool
  pending_review :: bool
  rt_compare :: "compare_refs option"
  rt_entire :: "entire_target option"

record thread_comment =
  tc_id :: nat
  root_id :: nat
  tc_path :: str
  tc_side :: "side option"
  tc_line :: "nat option"
  tc_start_line :: "nat option"
  tc_file_level :: "bool option"
  tc_body :: str
  tc_author :: str
  tc_commit_id :: str
  tc_created_at :: "str option"

section \<open>Quoting of paths, as Git prints them\<close>

definition quote_byte :: "char \<Rightarrow> bytes" where
  "quote_byte b =
     (let n = byte_of b in
      if b = QUOTE \<or> b = BACKSLASH then [BACKSLASH, b]
      else if n = 7 then [BACKSLASH, CHR ''a''] else if n = 8 then [BACKSLASH, CHR ''b'']
      else if n = 9 then [BACKSLASH, CHR ''t''] else if n = 10 then [BACKSLASH, CHR ''n'']
      else if n = 11 then [BACKSLASH, CHR ''v''] else if n = 12 then [BACKSLASH, CHR ''f'']
      else if n = 13 then [BACKSLASH, CHR ''r'']
      else if n < 32 \<or> 126 < n then
        [BACKSLASH, digit_char (n div 64), digit_char (n div 8 mod 8), digit_char (n mod 8)]
      else [b])"

definition git_quote :: "bytes \<Rightarrow> bytes" where
  "git_quote p =
     (if list_all (\<lambda>b. quote_byte b = [b]) p then p
      else [QUOTE] @ concat (map quote_byte p) @ [QUOTE])"

lemma octal_digit: "d < 8 \<Longrightarrow> is_octal (digit_char d) \<and> byte_of (digit_char d) - 48 = d"
  by (simp add: is_octal_def digit_char_value)

lemma octal_split: "(n::nat) < 256 \<Longrightarrow> (n div 64 * 8 + n div 8 mod 8) * 8 + n mod 8 = n"
proof -
  have "n div 64 * 8 + n div 8 mod 8 = n div 8"
    using div_mult_mod_eq [of "n div 8" 8] by (simp add: div_mult2_eq [of n 8 8, symmetric])
  then show ?thesis using div_mult_mod_eq [of n 8] by simp
qed

lemma unquote_octal:
  assumes "n < 256"
  shows "unquote out ([BACKSLASH, digit_char (n div 64), digit_char (n div 8 mod 8), digit_char (n mod 8)] @ r)
    = unquote (out @ [of_byte n]) r"
proof -
  have d: "n div 64 < 8" "n div 8 mod 8 < 8" "n mod 8 < 8" using assms by auto
  have "octal_more 2 (n div 64) (digit_char (n div 8 mod 8) # digit_char (n mod 8) # r) =
      ((n div 64 * 8 + n div 8 mod 8) * 8 + n mod 8, r)"
    using octal_digit d by (simp add: numeral_2_eq_2)
  then have "octal_more 2 (n div 64) (digit_char (n div 8 mod 8) # digit_char (n mod 8) # r) = (n, r)"
    by (simp only: octal_split [OF assms])
  with octal_digit [OF d(1)] assms show ?thesis by simp
qed

lemma unquote_byte: "unquote out (quote_byte b @ r) = unquote (out @ [b]) r"
proof -
  have b: "of_byte (byte_of b) = b" by simp
  have "byte_of b < (256 :: nat)" by simp
  note o = unquote_octal [OF this, of out r, unfolded b]
  have e: "b = of_byte k" if "byte_of b = k" for k :: nat using that by auto
  show ?thesis
  proof (cases "b = QUOTE \<or> b = BACKSLASH")
    case True
    then show ?thesis by (auto simp: quote_byte_def is_octal_def simple_escape_def)
  next
    case False
    then show ?thesis
      using o by (auto simp: quote_byte_def Let_def is_octal_def simple_escape_def dest!: e)
  qed
qed

lemma unquote_quoted: "unquote out (concat (map quote_byte p)) = Inr (out @ p)"
  by (induction p arbitrary: out) (simp_all add: unquote_byte)

lemma from_git_token_quote:
  assumes "path_ok p"
  shows "from_git_token (git_quote (path_bytes p)) = Inr p"
proof (cases "list_all (\<lambda>b. quote_byte b = [b]) (path_bytes p)")
  case True
  then have "\<not> starts_with [QUOTE] (path_bytes p)"
    by (auto simp: starts_with_iff quote_byte_def)
  with True assms show ?thesis by (simp add: git_quote_def from_git_token_def path_ok_def)
next
  case False
  then have "unquote [] (butlast (tl (git_quote (path_bytes p)))) = Inr (path_bytes p)"
    by (simp add: git_quote_def unquote_quoted)
  moreover have "starts_with [QUOTE] (git_quote (path_bytes p))" "2 \<le> length (git_quote (path_bytes p))"
    "last (git_quote (path_bytes p)) = QUOTE"
    using False by (auto simp: git_quote_def starts_with_def)
  ultimately show ?thesis using assms by (simp add: from_git_token_def path_ok_def)
qed


text \<open>A decoded document is a partition of its bytes into lines.\<close>

lemma source_doc_lines:
  assumes "source_from_utf8 bs = Inr d"
  shows "raw d = bs \<and> concat (map (render_line (raw d)) (doc_lines d)) = bs \<and>
     (\<forall>l \<in> set (doc_lines d). line_ok (raw d) l) \<and> length (doc_lines d) \<le> max_source_lines"
proof -
  from assms obtain start ls where sc: "scan_lines bs 0 0 [] bs = Inr (start, ls)"
    and d: "raw d = bs" "doc_lines d = (if start < length bs
       then ls @ [\<lparr>content = (start, length bs), sl_ending = EndNone\<rparr>] else ls)"
    "length (doc_lines d) \<le> max_source_lines"
    by (auto simp: source_from_utf8_def bind_simps from_utf8_def Let_def split: if_splits)
  have s: "start \<le> length bs" "concat (map (render_line bs) ls) = take start bs"
    "\<forall>l \<in> set ls. line_ok bs l" "LF \<notin> set (slice start (length bs) bs)"
    using scan_lines_render [OF sc] by auto
  have "concat (map (render_line bs) (doc_lines d)) = bs"
  proof (cases "start < length bs")
    case True
    then show ?thesis
      using d(2) s(2) by (simp add: render_line_def line_slice_def ending_bytes_def slice_def)
  qed (use d(2) s in simp)
  moreover have "\<forall>l \<in> set (doc_lines d). line_ok bs l"
    using d(2) s by (auto simp: line_ok_def line_slice_def)
  ultimately show ?thesis using d by simp
qed

lemma digest_parts:
  assumes "digest sha ps = digest sha qs"
    and "\<forall>p \<in> set ps \<union> set qs. length p < 2 ^ 64"
  shows "ps = qs \<or> digest_input ps \<noteq> digest_input qs \<and> sha (digest_input ps) = sha (digest_input qs)"
  using assms digest_input_inj [of ps qs] concat_hex_inj by (auto simp: digest_def)

section \<open>Properties\<close>

text \<open>
  The digest separates its parts: two different lists of parts whose
  digests agree are a collision of SHA-256 itself, since every part is preceded
  by its length and the hexadecimal form loses nothing.
\<close>

theorem digest_collision:
  assumes "digest sha ps = digest sha qs" "ps \<noteq> qs"
    and "\<forall>p \<in> set ps \<union> set qs. length p < 2 ^ 64"
  shows "digest_input ps \<noteq> digest_input qs \<and> sha (digest_input ps) = sha (digest_input qs)"
  using digest_parts [OF assms(1,3)] assms(2) by blast

theorem digest_collision_witness:
  "digest_input [''a'', ''b''] \<noteq> digest_input [''ab'']"
  using digest_collision [of "\<lambda>_. []" "[''a'', ''b'']" "[''ab'']"] by (simp add: digest_def)

text \<open>
  A decoded document accounts for every byte: its lines with their
  endings, in order, are the raw bytes again; no line holds a line feed; the
  line ranges stay inside the text.
\<close>

theorem source_document_roundtrip:
  assumes "source_from_utf8 bs = Inr d"
  shows "raw d = bs \<and> concat (map (render_line (raw d)) (doc_lines d)) = bs \<and>
     (\<forall>l \<in> set (doc_lines d). line_ok (raw d) l) \<and> length (doc_lines d) \<le> max_source_lines"
  using assms by (rule source_doc_lines)

definition sample_source :: bytes where
  "sample_source = ''ab'' @ [CR, LF] @ ''c'' @ [LF, CHR ''d'']"

theorem source_document_roundtrip_witness:
  "\<exists>d. source_from_utf8 sample_source = Inr d \<and> length (doc_lines d) = 3 \<and>
     concat (map (render_line (raw d)) (doc_lines d)) = sample_source"
proof -
  let ?d = "\<lparr>raw = sample_source, doc_lines = [\<lparr>content = (0, 2), sl_ending = EndCrLf\<rparr>,
      \<lparr>content = (4, 5), sl_ending = EndLf\<rparr>, \<lparr>content = (6, 7), sl_ending = EndNone\<rparr>]\<rparr>"
  have "source_from_utf8 sample_source = Inr ?d" by code_simp
  with source_document_roundtrip [OF this] show ?thesis by auto
qed

text \<open>
  A byte offset that a document hands out for a line and a column is a
  character boundary inside that line: the text before it is the line's prefix
  of that length.
\<close>

theorem doc_offset_sound:
  assumes "source_from_utf8 bs = Inr d" "doc_offset d line column = Inr pos"
  shows "is_char_boundary bs pos \<and> pos \<le> length bs \<and>
     (\<exists>txt. line_text d line = Some txt \<and> column \<le> length txt \<and> slice (pos - column) pos bs = take column txt)"
proof -
  from assms(2) obtain l where l: "doc_line_at d line = Some l" "column \<le> snd (content l) - fst (content l)"
    "is_char_boundary (raw d) (fst (content l) + column)" "pos = fst (content l) + column"
    by (auto simp: doc_offset_def bind_simps split: if_splits)
  have "l \<in> set (doc_lines d)"
    using l(1) by (auto simp: doc_line_at_def split: if_splits)
  then have ok: "line_ok (raw d) l" and rw: "raw d = bs"
    using source_doc_lines [OF assms(1)] by auto
  have "length (line_slice bs l) = snd (content l) - fst (content l)"
    using ok rw by (simp add: line_slice_def line_ok_def length_slice)
  moreover have "slice (pos - column) pos bs = take column (line_slice bs l)"
    using l(2,4) by (simp add: slice_def line_slice_def min_absorb2)
  ultimately show ?thesis
    using l ok rw by (auto simp: line_text_def line_ok_def)
qed

theorem doc_offset_sound_witness:
  "\<exists>d. source_from_utf8 sample_source = Inr d \<and> doc_offset d 2 1 = Inr 5 \<and> is_char_boundary sample_source 5"
proof -
  let ?d = "\<lparr>raw = sample_source, doc_lines = [\<lparr>content = (0, 2), sl_ending = EndCrLf\<rparr>,
      \<lparr>content = (4, 5), sl_ending = EndLf\<rparr>, \<lparr>content = (6, 7), sl_ending = EndNone\<rparr>]\<rparr>"
  have d: "source_from_utf8 sample_source = Inr ?d" by code_simp
  have "doc_offset ?d 2 1 = Inr 5" by code_simp
  with doc_offset_sound [OF d this] d show ?thesis by blast
qed

text \<open>
  A path survives Git's C-style quoting: reading the quoted form of a
  valid path gives the path, whichever bytes it holds.
\<close>

theorem git_token_roundtrip:
  assumes "repo_path_new bs = Inr p"
  shows "from_git_token (git_quote bs) = Inr p"
  using from_git_token_quote [of p] repo_path_new_ok [OF assms] assms by (auto simp: path_rules)

theorem git_token_roundtrip_witness:
  "from_git_token (git_quote [CHR ''d'', CHR ''/'', CHR 0xC3, CHR 0xA9, TAB]) =
     Inr (RepoPath [CHR ''d'', CHR ''/'', CHR 0xC3, CHR 0xA9, TAB])"
proof -
  have "repo_path_new [CHR ''d'', CHR ''/'', CHR 0xC3, CHR 0xA9, TAB] =
      Inr (RepoPath [CHR ''d'', CHR ''/'', CHR 0xC3, CHR 0xA9, TAB])" by code_simp
  then show ?thesis by (rule git_token_roundtrip)
qed

text \<open>
  Whatever token a patch holds, a path read from it is relative and
  free of empty, dot and dot-dot components, and stripping the side prefix from
  it never fails and keeps that property.
\<close>

theorem git_token_safe:
  assumes "from_git_token v = Inr p"
  shows "list_all (\<lambda>c. \<not> path_component_bad c) (split_on CHR ''/'' (path_bytes p)) \<and>
     (\<exists>q. without_side p = Inr q \<and> list_all (\<lambda>c. \<not> path_component_bad c) (split_on CHR ''/'' (path_bytes q)))"
  using from_git_token_ok [OF assms] without_side_total path_ok_components by metis

theorem git_token_safe_witness:
  "list_all (\<lambda>c. \<not> path_component_bad c) (split_on CHR ''/'' ''a/b'')"
proof -
  have "from_git_token ''a/b'' = Inr (RepoPath ''a/b'')" by code_simp
  from git_token_safe [OF this] show ?thesis by simp
qed

text \<open>
  A stored path loads again: both encodings, the text form and the
  legacy byte array, deserialise to the path they were written from.
\<close>

theorem path_serialize_roundtrip:
  assumes "repo_path_new bs = Inr p"
  shows "deserialize_path (serialize_path legacy p) = Inr p"
  using assms
  by (auto simp: path_rules serialize_path_def deserialize_path_def from_utf8_def comp_def
      split: option.splits)

theorem path_serialize_roundtrip_witness:
  "deserialize_path (serialize_path True (RepoPath ''src/a'')) = Inr (RepoPath ''src/a'')"
proof -
  have "repo_path_new ''src/a'' = Inr (RepoPath ''src/a'')" by code_simp
  then show ?thesis by (rule path_serialize_roundtrip)
qed

end
