(* ===== verification/Patch.thy ===== *)
theory Patch
  imports Domain
begin

text \<open>
  The data of a parsed patch and the operations on it, \<open>crates/core/src/patch.rs\<close>
  up to the parser: rows, hunks, file changes, and the folded label of a moved
  file. The invariants \<open>hunk_ok\<close> and \<open>file_ok\<close> say what the parser establishes;
  the locale \<open>line_index\<close> is the contract under which clients look lines up.
\<close>

section \<open>Data\<close>

datatype change_kind = KAdded | KDeleted | KModified | KRenamed | KCopied
datatype content_kind = CText | CBinary | CSubmodule
datatype row_kind = RContext | RAdded | RRemoved

record patch_row =
  old_line :: "nat option"
  new_line :: "nat option"
  row_text :: str
  row_ending :: line_ending
  row_kind :: row_kind

definition row_number :: "side \<Rightarrow> patch_row \<Rightarrow> nat option" where
  "row_number s r = (case s of SideLeft \<Rightarrow> old_line r | SideRight \<Rightarrow> new_line r)"

record hunk =
  old_start :: nat
  old_count :: nat
  new_start :: nat
  new_count :: nat
  section_text :: str
  rows :: "patch_row list"

record file_change =
  fc_id :: file_id
  old_path :: "repo_path option"
  new_path :: "repo_path option"
  fc_kind :: change_kind
  fc_content :: content_kind
  old_mode :: "str option"
  new_mode :: "str option"
  old_oid :: "str option"
  new_oid :: "str option"
  hunks :: "hunk list"
  metadata :: "str list"

record patch_report =
  files :: "file_change list"

section \<open>Operations on a file change\<close>

text \<open>\<open>path()\<close> panics when neither side has a path: \<open>None\<close> here.\<close>

definition fc_path :: "file_change \<Rightarrow> repo_path option" where
  "fc_path f = (case new_path f of Some p \<Rightarrow> Some p | None \<Rightarrow> old_path f)"

definition display_path :: "file_change \<Rightarrow> str option" where
  "display_path f = map_option path_display (fc_path f)"

definition find_map :: "('a \<Rightarrow> 'b option) \<Rightarrow> 'a list \<Rightarrow> 'b option" where
  "find_map g xs = (case List.map_filter g xs of [] \<Rightarrow> None | y # _ \<Rightarrow> Some y)"

definition header_percent :: "file_change \<Rightarrow> str \<Rightarrow> nat option" where
  "header_percent f name =
     Option.bind (find_map (strip_prefix name) (metadata f)) (\<lambda>l.
     Option.bind (strip_suffix ''%'' (trim l)) (\<lambda>d.
     Option.bind (parse_unsigned 255 d) (\<lambda>n. if n \<le> 100 then Some n else None)))"

definition similarity :: "file_change \<Rightarrow> nat option" where
  "similarity f = header_percent f ''similarity index ''"

definition dissimilarity :: "file_change \<Rightarrow> nat option" where
  "dissimilarity f = header_percent f ''dissimilarity index ''"

definition moved_from :: "file_change \<Rightarrow> repo_path option" where
  "moved_from f = (case fc_kind f of KRenamed \<Rightarrow> old_path f | KCopied \<Rightarrow> old_path f | _ \<Rightarrow> None)"

definition arrow :: str where
  "arrow = [CHR '' '', CHR 0xE2, CHR 0x86, CHR 0x92, CHR '' '']"

definition empty_note :: "file_change \<Rightarrow> str option" where
  "empty_note f =
     (if hunks f \<noteq> [] then None
      else if fc_content f = CBinary then Some ''Binary file changed''
      else if fc_content f = CSubmodule then Some ''Submodule changed''
      else
        (let similar = (case similarity f of None \<Rightarrow> [] | Some n \<Rightarrow> '' ('' @ show_nat n @ ''% similar)'');
             from = map_option path_display (moved_from f)
         in case (fc_kind f, from) of
              (KRenamed, Some p) \<Rightarrow> Some (''Renamed from '' @ p @ '', contents unchanged'' @ similar)
            | (KCopied, Some p) \<Rightarrow> Some (''Copied from '' @ p @ '', contents unchanged'' @ similar)
            | _ \<Rightarrow>
                (case (old_mode f, new_mode f) of
                   (Some a, Some b) \<Rightarrow>
                     if a \<noteq> b then Some (''Mode changed '' @ a @ arrow @ b) else None
                 | _ \<Rightarrow> None)))"

definition file_rows :: "file_change \<Rightarrow> patch_row list" where
  "file_rows f = concat (map rows (hunks f))"

definition fc_line :: "file_change \<Rightarrow> side \<Rightarrow> nat \<Rightarrow> patch_row option" where
  "fc_line f s n = List.find (\<lambda>r. row_number s r = Some n) (file_rows f)"

definition additions :: "file_change \<Rightarrow> nat" where
  "additions f = length (filter (\<lambda>r. row_kind r = RAdded) (file_rows f))"

definition deletions :: "file_change \<Rightarrow> nat" where
  "deletions f = length (filter (\<lambda>r. row_kind r = RRemoved) (file_rows f))"

definition eligible :: "file_change \<Rightarrow> side \<Rightarrow> nat \<Rightarrow> nat \<Rightarrow> bool" where
  "eligible f s start stop \<longleftrightarrow>
     fc_content f = CText \<and> 0 < start \<and> start \<le> stop \<and> stop - start \<le> 10000 \<and>
     list_ex (\<lambda>h. list_all (\<lambda>n. list_ex (\<lambda>r. row_number s r = Some n) (rows h)) [start..<Suc stop])
       (hunks f)"

section \<open>The label of a moved file\<close>

record move_label =
  ml_prefix :: str
  ml_old :: str
  ml_new :: str
  ml_suffix :: str

fun common_len :: "'a list \<Rightarrow> 'a list \<Rightarrow> nat" where
  "common_len (x # xs) (y # ys) = (if x = y then Suc (common_len xs ys) else 0)"
| "common_len _ _ = 0"

fun position :: "('a \<Rightarrow> bool) \<Rightarrow> 'a list \<Rightarrow> nat option" where
  "position P [] = None"
| "position P (x # xs) = (if P x then Some 0 else map_option Suc (position P xs))"

definition rposition :: "('a \<Rightarrow> bool) \<Rightarrow> 'a list \<Rightarrow> nat option" where
  "rposition P xs = map_option (\<lambda>i. length xs - 1 - i) (position P (rev xs))"

definition move_label_new :: "str \<Rightarrow> str \<Rightarrow> move_label" where
  "move_label_new old new =
     (let common = common_len old new;
          cut = (case rposition (\<lambda>b. b = CHR ''/'') (take common old) of None \<Rightarrow> 0 | Some i \<Rightarrow> i + 1);
          old_rest = drop cut old;
          new_rest = drop cut new;
          shared = common_len (rev old_rest) (rev new_rest);
          tail = drop (length old_rest - shared) old_rest;
          keep = (case position (\<lambda>b. b = CHR ''/'') tail of None \<Rightarrow> 0 | Some i \<Rightarrow> shared - i)
      in \<lparr>ml_prefix = take cut old,
          ml_old = take (length old_rest - keep) old_rest,
          ml_new = take (length new_rest - keep) new_rest,
          ml_suffix = drop (length old_rest - keep) old_rest\<rparr>)"

definition folded :: "move_label \<Rightarrow> bool" where
  "folded m \<longleftrightarrow> ml_prefix m \<noteq> [] \<or> ml_suffix m \<noteq> []"

definition plain_label :: "move_label \<Rightarrow> str" where
  "plain_label m =
     (if folded m then ml_prefix m @ ''{'' @ ml_old m @ arrow @ ml_new m @ ''}'' @ ml_suffix m
      else ml_old m @ arrow @ ml_new m)"

definition move_label_of :: "file_change \<Rightarrow> move_label option" where
  "move_label_of f =
     Option.bind (moved_from f) (\<lambda>old.
     Option.bind (new_path f) (\<lambda>new.
       if path_display old \<noteq> path_display new
       then Some (move_label_new (path_display old) (path_display new)) else None))"

lemma common_len_le: "common_len xs ys \<le> length xs" "common_len xs ys \<le> length ys"
  by (induction xs ys rule: common_len.induct) auto

lemma common_len_take: "n \<le> common_len xs ys \<Longrightarrow> take n xs = take n ys"
proof (induction xs ys arbitrary: n rule: common_len.induct)
  case (1 x xs y ys)
  then show ?case by (cases n) (auto split: if_splits)
qed auto

lemma position_Some: "position P xs = Some i \<Longrightarrow> i < length xs \<and> P (xs ! i)"
  by (induction xs arbitrary: i) (auto split: if_splits)

lemma rposition_Some: "rposition P xs = Some i \<Longrightarrow> i < length xs \<and> P (xs ! i)"
proof -
  assume "rposition P xs = Some i"
  then obtain j where j: "position P (rev xs) = Some j" "i = length xs - 1 - j"
    by (auto simp: rposition_def)
  with position_Some [OF j(1)] show ?thesis by (auto simp: rev_nth)
qed

lemma common_suffix_drop:
  assumes "k \<le> common_len (rev xs) (rev ys)"
  shows "drop (length xs - k) xs = drop (length ys - k) ys"
proof -
  have "take k (rev xs) = take k (rev ys)" using assms by (rule common_len_take)
  then show ?thesis by (simp add: take_rev)
qed

section \<open>What the parser guarantees of its rows\<close>

definition row_ok :: "patch_row \<Rightarrow> bool" where
  "row_ok r \<longleftrightarrow>
     (case row_kind r of
        RContext \<Rightarrow> old_line r \<noteq> None \<and> new_line r \<noteq> None
      | RAdded \<Rightarrow> old_line r = None \<and> new_line r \<noteq> None
      | RRemoved \<Rightarrow> old_line r \<noteq> None \<and> new_line r = None) \<and>
     valid_utf8 (row_text r)"

definition side_numbers :: "side \<Rightarrow> patch_row list \<Rightarrow> nat list" where
  "side_numbers s rs = List.map_filter (row_number s) rs"

definition side_start :: "side \<Rightarrow> hunk \<Rightarrow> nat" where
  "side_start s h = (case s of SideLeft \<Rightarrow> old_start h | SideRight \<Rightarrow> new_start h)"

definition side_count :: "side \<Rightarrow> hunk \<Rightarrow> nat" where
  "side_count s h = (case s of SideLeft \<Rightarrow> old_count h | SideRight \<Rightarrow> new_count h)"

definition range_ok :: "nat \<Rightarrow> nat \<Rightarrow> bool" where
  "range_ok start count \<longleftrightarrow>
     start \<le> u32_max \<and> (0 < count \<longrightarrow> 0 < start \<and> start + count \<le> u32_max)"

definition hunk_ok :: "hunk \<Rightarrow> bool" where
  "hunk_ok h \<longleftrightarrow>
     list_all row_ok (rows h) \<and>
     (\<forall>s. side_numbers s (rows h) = [side_start s h ..< side_start s h + side_count s h]) \<and>
     (\<forall>s. range_ok (side_start s h) (side_count s h))"

definition hunk_before :: "hunk \<Rightarrow> hunk \<Rightarrow> bool" where
  "hunk_before a b \<longleftrightarrow> (\<forall>s. side_start s a + side_count s a \<le> side_start s b)"

definition file_ok :: "file_change \<Rightarrow> bool" where
  "file_ok f \<longleftrightarrow> list_all hunk_ok (hunks f) \<and> sorted_wrt hunk_before (hunks f)"

lemma side_numbers_append [simp]:
  "side_numbers s (xs @ ys) = side_numbers s xs @ side_numbers s ys"
  by (simp add: side_numbers_def map_filter_def)

lemma side_numbers_Nil [simp]: "side_numbers s [] = []"
  by (simp add: side_numbers_def map_filter_def)

lemma side_numbers_Cons [simp]:
  "side_numbers s (r # rs) =
     (case row_number s r of None \<Rightarrow> side_numbers s rs | Some n \<Rightarrow> n # side_numbers s rs)"
  by (simp add: side_numbers_def map_filter_def split: option.splits)

lemma set_side_numbers: "n \<in> set (side_numbers s rs) \<longleftrightarrow> (\<exists>r \<in> set rs. row_number s r = Some n)"
  by (induction rs) (auto split: option.splits)

lemma hunk_numbers_sorted:
  assumes "list_all hunk_ok hs" "sorted_wrt hunk_before hs"
  shows "sorted_wrt (<) (side_numbers s (concat (map rows hs)))"
  using assms
proof (induction hs)
  case Nil
  then show ?case by simp
next
  case (Cons h hs)
  have own: "side_numbers s (rows h) = [side_start s h ..< side_start s h + side_count s h]"
    using Cons.prems(1) by (simp add: hunk_ok_def)
  have later: "side_start s h + side_count s h \<le> n"
    if "n \<in> set (side_numbers s (concat (map rows hs)))" for n
  proof -
    from that obtain h' where h': "h' \<in> set hs" "n \<in> set (side_numbers s (rows h'))"
      by (auto simp: set_side_numbers)
    with Cons.prems have "hunk_ok h'" "hunk_before h h'" by (auto simp: list_all_iff)
    with h'(2) have "side_start s h' \<le> n" "side_start s h + side_count s h \<le> side_start s h'"
      by (simp_all add: hunk_ok_def hunk_before_def)
    then show ?thesis by simp
  qed
  have "sorted_wrt (<) (side_numbers s (concat (map rows hs)))"
    using Cons by (simp add: list_all_iff)
  with own later show ?case by (fastforce simp: sorted_wrt_append)
qed

lemma file_numbers_sorted:
  "file_ok f \<Longrightarrow> sorted_wrt (<) (side_numbers s (file_rows f))"
  unfolding file_ok_def file_rows_def by (blast intro: hunk_numbers_sorted)

text \<open>Rows with strictly increasing numbers are determined by their number.\<close>

lemma sorted_numbers_unique:
  assumes "sorted_wrt (<) (side_numbers s rs)" "a \<in> set rs" "b \<in> set rs"
    and "row_number s a = Some n" "row_number s b = Some n"
  shows "a = b"
  using assms
proof (induction rs)
  case Nil
  then show ?case by simp
next
  case (Cons r rs)
  have step: "x \<notin> set rs" if "row_number s r = Some n" "row_number s x = Some n" for x
    using Cons.prems(1) that by (fastforce simp: set_side_numbers)
  have "sorted_wrt (<) (side_numbers s rs)"
    using Cons.prems(1) by (auto split: option.splits)
  with Cons step show ?case by auto
qed

section \<open>Line lookup as an interface\<close>

text \<open>
  What the snapshot, the annotators and the comment threads rely on when they
  look a line up: a lookup finds exactly the row that carries the number.
\<close>

locale line_index =
  fixes index_ok :: "'f \<Rightarrow> bool"
    and lookup_line :: "'f \<Rightarrow> side \<Rightarrow> nat \<Rightarrow> patch_row option"
    and rows_of :: "'f \<Rightarrow> patch_row list"
  assumes lookup_iff:
    "index_ok f \<Longrightarrow> lookup_line f s n = Some r \<longleftrightarrow> r \<in> set (rows_of f) \<and> row_number s r = Some n"
begin

lemma lookup_None_iff:
  "index_ok f \<Longrightarrow> lookup_line f s n = None \<longleftrightarrow> n \<notin> set (side_numbers s (rows_of f))"
  by (metis lookup_iff not_None_eq set_side_numbers)

lemma lookup_inj:
  "index_ok f \<Longrightarrow> lookup_line f s m = Some r \<Longrightarrow> lookup_line f s n = Some r \<Longrightarrow> m = n"
  by (auto simp: lookup_iff)

lemma lookup_row_unique:
  "index_ok f \<Longrightarrow> a \<in> set (rows_of f) \<Longrightarrow> b \<in> set (rows_of f) \<Longrightarrow>
     row_number s a = Some n \<Longrightarrow> row_number s b = Some n \<Longrightarrow> a = b"
  by (metis lookup_iff option.inject)

lemma lookup_all:
  assumes "index_ok f" "\<And>n. n \<in> set ns \<Longrightarrow> n \<in> set (side_numbers s (rows_of f))"
  shows "\<exists>rs. map (lookup_line f s) ns = map Some rs \<and> map (row_number s) rs = map Some ns \<and>
     set rs \<subseteq> set (rows_of f)"
  using assms(2)
proof (induction ns)
  case Nil
  then show ?case by simp
next
  case (Cons n ns)
  then obtain rs where rs: "map (lookup_line f s) ns = map Some rs"
    "map (row_number s) rs = map Some ns" "set rs \<subseteq> set (rows_of f)" by auto
  have "lookup_line f s n \<noteq> None"
    using Cons.prems lookup_None_iff [OF assms(1)] by simp
  then obtain r where r: "lookup_line f s n = Some r" by blast
  then have "r \<in> set (rows_of f)" "row_number s r = Some n"
    using lookup_iff [OF assms(1)] by blast+
  with rs r show ?case by (intro exI [of _ "r # rs"]) simp
qed

end

lemma fc_line_iff:
  assumes "file_ok f"
  shows "fc_line f s n = Some r \<longleftrightarrow> r \<in> set (file_rows f) \<and> row_number s r = Some n"
proof
  assume "fc_line f s n = Some r"
  then show "r \<in> set (file_rows f) \<and> row_number s r = Some n"
    unfolding fc_line_def by (rule find_Some_in)
next
  assume r: "r \<in> set (file_rows f) \<and> row_number s r = Some n"
  show "fc_line f s n = Some r"
    unfolding fc_line_def
  proof (rule find_unique)
    fix y
    assume "y \<in> set (file_rows f)" "row_number s y = Some n"
    with r show "y = r"
      using sorted_numbers_unique [OF file_numbers_sorted [OF assms, of s]] by blast
  qed (use r in auto)
qed

interpretation file_lines: line_index file_ok fc_line file_rows
  by unfold_locales (rule fc_line_iff)

end
