(* ===== verification/PatchParse.thy ===== *)
theory PatchParse
  imports Patch
begin

text \<open>
  The parser of counted unified patches, \<open>parse_patch\<close> in
  \<open>crates/core/src/patch.rs\<close>. The index \<open>i\<close> into the line vector becomes the
  pair of \<open>i\<close> (kept for the line numbers of errors) and the lines from \<open>i\<close> on.
  Each of the three nested loops is one function; every \<open>return Err\<close> is an
  \<open>Inl\<close>.
\<close>

section \<open>Definitions\<close>

record parse_limits =
  max_bytes :: nat
  max_files :: nat
  max_rows :: nat
  max_line_bytes :: nat

definition default_limits :: parse_limits where
  "default_limits = \<lparr>max_bytes = 32 * 1024 * 1024, max_files = 10000, max_rows = 500000,
     max_line_bytes = 1024 * 1024\<rparr>"

datatype patch_error = Malformed nat str | Unsupported str | Limit str

definition bad :: "nat \<Rightarrow> str \<Rightarrow> patch_error" where
  "bad line msg = Malformed (line + 1) msg"

definition mark_no_final_newline :: "patch_row \<Rightarrow> nat \<Rightarrow> patch_error + patch_row" where
  "mark_no_final_newline r line =
     (case row_ending r of
        EndNone \<Rightarrow> Inl (bad line ''duplicate EOF marker'')
      | EndCrLf \<Rightarrow> Inr (r\<lparr>row_text := row_text r @ [CR], row_ending := EndNone\<rparr>)
      | EndLf \<Rightarrow> Inr (r\<lparr>row_ending := EndNone\<rparr>))"

definition utf8 :: "bytes \<Rightarrow> nat \<Rightarrow> patch_error + str" where
  "utf8 v line =
     okE (bad line ''source bytes are invalid UTF-8; this patch cannot render safely'') (from_utf8 v)"

definition path_at :: "bytes \<Rightarrow> nat \<Rightarrow> bool \<Rightarrow> patch_error + repo_path" where
  "path_at v line strip =
     bindE (map_errE (bad line) (from_git_token v)) (\<lambda>p.
       if strip then map_errE (bad line) (without_side p) else Inr p)"

text \<open>The index of the closing quote, from byte \<open>i\<close> on.\<close>

fun quoted_end :: "bool \<Rightarrow> nat \<Rightarrow> bytes \<Rightarrow> nat option" where
  "quoted_end esc i [] = None"
| "quoted_end esc i (b # r) =
     (if esc then quoted_end False (Suc i) r
      else if b = BACKSLASH then quoted_end True (Suc i) r
      else if b = QUOTE then Some i
      else quoted_end False (Suc i) r)"

definition side_positions :: "bytes \<Rightarrow> nat list" where
  "side_positions v = filter (\<lambda>i. slice i (i + 3) v = '' b/'') [0..<length v - 2]"

definition header_paths :: "bytes \<Rightarrow> nat \<Rightarrow> patch_error + (repo_path option \<times> repo_path option)" where
  "header_paths v line =
     (if starts_with [QUOTE] v then
        (case quoted_end False 1 (tl v) of
           Some e \<Rightarrow>
             if e + 1 < length v \<and> v ! (e + 1) = CHR '' '' then
               bindE (path_at (take (e + 1) v) line True) (\<lambda>a.
               bindE (path_at (drop (e + 2) v) line True) (\<lambda>b. Inr (Some a, Some b)))
             else Inl (bad line ''invalid quoted diff header'')
         | None \<Rightarrow> Inl (bad line ''invalid quoted diff header''))
      else
        (case side_positions v of
           [i] \<Rightarrow>
             bindE (path_at (take i v) line True) (\<lambda>a.
             bindE (path_at (drop (i + 1) v) line True) (\<lambda>b. Inr (Some a, Some b)))
         | _ \<Rightarrow> Inr (None, None)))"

definition pair :: "str \<Rightarrow> nat \<Rightarrow> patch_error + (nat \<times> nat)" where
  "pair s line =
     (let (a, b) = (case split_once '','' s of Some ab \<Rightarrow> ab | None \<Rightarrow> (s, ''1'')) in
      bindE (okE (bad line ''invalid hunk start'') (parse_u32 a)) (\<lambda>start.
      bindE (okE (bad line ''invalid hunk count'') (parse_u32 b)) (\<lambda>count.
        if 0 < count \<and> (start = 0 \<or> checked_add_u32 start count = None)
        then Inl (bad line ''invalid or overflowing hunk range'') else Inr (start, count))))"

definition hunk_header :: "bytes \<Rightarrow> nat \<Rightarrow> patch_error + hunk" where
  "hunk_header v line =
     bindE (utf8 v line) (\<lambda>s.
     bindE (okE (bad line ''invalid hunk header'') (strip_prefix ''@@ -'' s)) (\<lambda>rest.
     bindE (okE (bad line ''missing new range'') (split_once '' +'' rest)) (\<lambda>(old, rest).
     bindE (okE (bad line ''unclosed hunk header'') (split_once '' @@'' rest)) (\<lambda>(new, sect).
     bindE (pair old line) (\<lambda>(os, oc).
     bindE (pair new line) (\<lambda>(ns, nc).
       Inr \<lparr>old_start = os, old_count = oc, new_start = ns, new_count = nc,
            section_text = trim_start sect, rows = []\<rparr>))))))"

definition eof_marker :: bytes where
  "eof_marker = BACKSLASH # '' No newline at end of file''"

definition kind_of_prefix :: "char \<Rightarrow> row_kind option" where
  "kind_of_prefix c =
     (if c = CHR '' '' then Some RContext else if c = CHR ''+'' then Some RAdded
      else if c = CHR ''-'' then Some RRemoved else None)"

text \<open>The number of a row on one side: \<open>used\<close> lines of \<open>count\<close> are taken.\<close>

definition take_number ::
  "bool \<Rightarrow> nat \<Rightarrow> nat \<Rightarrow> nat \<Rightarrow> patch_error \<Rightarrow> patch_error \<Rightarrow> patch_error + (nat option \<times> nat)" where
  "take_number on start count used too_many overflow =
     (if on then
        (if count \<le> used then Inl too_many
         else bindE (okE overflow (checked_add_u32 start used)) (\<lambda>n. Inr (Some n, used + 1)))
      else Inr (None, used))"

definition split_ending :: "bytes \<Rightarrow> bytes \<times> line_ending" where
  "split_ending text =
     (if ends_with [CR] text then (butlast text, EndCrLf) else (text, EndLf))"

definition hunk_row ::
  "parse_limits \<Rightarrow> nat \<Rightarrow> bytes \<Rightarrow> hunk \<Rightarrow> nat \<Rightarrow> nat \<Rightarrow> nat \<Rightarrow> patch_error + (patch_row \<times> nat \<times> nat \<times> nat)"
where
  "hunk_row lim i l h old new total_rows =
     (case l of
        [] \<Rightarrow> Inl (bad i ''unprefixed empty hunk row'')
      | pfx # text \<Rightarrow>
          bindE (okE (bad i ''unexpected hunk row; count mismatch'') (kind_of_prefix pfx)) (\<lambda>kind.
          bindE (take_number (kind \<noteq> RAdded) (old_start h) (old_count h) old
                   (bad i ''too many old-side lines'') (bad i ''line overflow'')) (\<lambda>(ol, old').
          bindE (take_number (kind \<noteq> RRemoved) (new_start h) (new_count h) new
                   (bad i ''too many new-side lines'') (bad i ''line overflow'')) (\<lambda>(nl, new').
          (case split_ending text of (txt, ending) \<Rightarrow>
             failIf (max_rows lim < total_rows + 1) (Limit ''source row count'')
               (bindE (utf8 txt i) (\<lambda>s.
                  Inr (\<lparr>old_line = ol, new_line = nl, row_text = s, row_ending = ending, row_kind = kind\<rparr>,
                       old', new', total_rows + 1))))))))"

definition mark_last :: "nat \<Rightarrow> hunk \<Rightarrow> patch_error + hunk" where
  "mark_last i h =
     (if rows h = [] then Inl (bad i ''orphan EOF marker'')
      else bindE (mark_no_final_newline (last (rows h)) i) (\<lambda>r.
             Inr (h\<lparr>rows := butlast (rows h) @ [r]\<rparr>)))"

fun hunk_loop ::
  "parse_limits \<Rightarrow> nat \<Rightarrow> bytes list \<Rightarrow> hunk \<Rightarrow> nat \<Rightarrow> nat \<Rightarrow> nat \<Rightarrow>
     patch_error + (nat \<times> bytes list \<times> hunk \<times> nat)" where
  "hunk_loop lim i [] h old new total_rows =
     (if old < old_count h \<or> new < new_count h then Inl (bad i ''truncated counted hunk'')
      else Inr (i, [], h, total_rows))"
| "hunk_loop lim i (l # ls) h old new total_rows =
     (if old < old_count h \<or> new < new_count h then
        (if l = eof_marker then
           bindE (mark_last i h) (\<lambda>h'. hunk_loop lim (Suc i) ls h' old new total_rows)
         else
           bindE (hunk_row lim i l h old new total_rows) (\<lambda>(r, old', new', total_rows').
             hunk_loop lim (Suc i) ls (h\<lparr>rows := rows h @ [r]\<rparr>) old' new' total_rows'))
      else Inr (i, l # ls, h, total_rows))"

definition hunks_overlap :: "hunk \<Rightarrow> hunk \<Rightarrow> bool" where
  "hunks_overlap prev h \<longleftrightarrow>
     old_start h < saturating_add_u32 (old_start prev) (old_count prev) \<or>
     new_start h < saturating_add_u32 (new_start prev) (new_count prev)"

text \<open>An EOF marker that follows the counted rows.\<close>

fun trailing_eof :: "nat \<times> bytes list \<times> hunk \<times> nat \<Rightarrow> patch_error + (nat \<times> bytes list \<times> hunk \<times> nat)" where
  "trailing_eof (i, [], h, t) = Inr (i, [], h, t)"
| "trailing_eof (i, m # ls, h, t) =
     (if m = eof_marker then bindE (mark_last i h) (\<lambda>h'. Inr (Suc i, ls, h', t))
      else Inr (i, m # ls, h, t))"

text \<open>One hunk: its header \<open>l\<close> at index \<open>i\<close>, then the counted rows, then an EOF marker.\<close>

definition parse_hunk ::
  "parse_limits \<Rightarrow> nat \<Rightarrow> bytes \<Rightarrow> bytes list \<Rightarrow> hunk list \<Rightarrow> nat \<Rightarrow>
     patch_error + (nat \<times> bytes list \<times> hunk \<times> nat)" where
  "parse_hunk lim i l ls prevs total_rows =
     bindE (hunk_header l i) (\<lambda>h.
       failIf (prevs \<noteq> [] \<and> hunks_overlap (last prevs) h)
         (bad (Suc i) ''overlapping/out-of-order hunks'')
         (bindE (hunk_loop lim (Suc i) ls h 0 0 total_rows) trailing_eof))"

definition first_field :: "bytes \<Rightarrow> bytes" where
  "first_field v = hd (split_on TAB v)"

definition marker_path :: "bytes \<Rightarrow> nat \<Rightarrow> patch_error + repo_path option" where
  "marker_path v i =
     (let v' = first_field v in
      if v' = ''/dev/null'' then Inr None
      else bindE (path_at v' i True) (\<lambda>p. Inr (Some p)))"

definition index_line :: "str \<Rightarrow> file_change \<Rightarrow> file_change" where
  "index_line s f =
     (let ws = split_whitespace s;
          f1 = (case ws of
                  p # _ \<Rightarrow> (case split_once ''..'' p of
                             Some (a, b) \<Rightarrow> f\<lparr>old_oid := Some a, new_oid := Some b\<rparr>
                           | None \<Rightarrow> f)
                | [] \<Rightarrow> f)
      in (case ws of _ # mode # _ \<Rightarrow> f1\<lparr>old_mode := Some mode, new_mode := Some mode\<rparr> | _ \<Rightarrow> f1))"

text \<open>One extended header line of a file, in the order of the source's tests.\<close>

definition header_line :: "nat \<Rightarrow> bytes \<Rightarrow> file_change \<Rightarrow> patch_error + file_change" where
  "header_line i l f =
     (case strip_prefix ''--- '' l of Some v \<Rightarrow>
        bindE (marker_path v i) (\<lambda>p. Inr (f\<lparr>old_path := p\<rparr>))
      | None \<Rightarrow>
     (case strip_prefix ''+++ '' l of Some v \<Rightarrow>
        bindE (marker_path v i) (\<lambda>p. Inr (f\<lparr>new_path := p\<rparr>))
      | None \<Rightarrow>
     (case strip_prefix ''rename from '' l of Some v \<Rightarrow>
        bindE (path_at v i False) (\<lambda>p. Inr (f\<lparr>old_path := Some p, fc_kind := KRenamed\<rparr>))
      | None \<Rightarrow>
     (case strip_prefix ''rename to '' l of Some v \<Rightarrow>
        bindE (path_at v i False) (\<lambda>p. Inr (f\<lparr>new_path := Some p, fc_kind := KRenamed\<rparr>))
      | None \<Rightarrow>
     (case strip_prefix ''copy from '' l of Some v \<Rightarrow>
        bindE (path_at v i False) (\<lambda>p. Inr (f\<lparr>old_path := Some p, fc_kind := KCopied\<rparr>))
      | None \<Rightarrow>
     (case strip_prefix ''copy to '' l of Some v \<Rightarrow>
        bindE (path_at v i False) (\<lambda>p. Inr (f\<lparr>new_path := Some p, fc_kind := KCopied\<rparr>))
      | None \<Rightarrow>
     (case strip_prefix ''new file mode '' l of Some v \<Rightarrow>
        bindE (utf8 v i) (\<lambda>m. Inr (f\<lparr>new_mode := Some m, fc_kind := KAdded, old_path := None\<rparr>))
      | None \<Rightarrow>
     (case strip_prefix ''deleted file mode '' l of Some v \<Rightarrow>
        bindE (utf8 v i) (\<lambda>m. Inr (f\<lparr>old_mode := Some m, fc_kind := KDeleted, new_path := None\<rparr>))
      | None \<Rightarrow>
     (case strip_prefix ''old mode '' l of Some v \<Rightarrow>
        bindE (utf8 v i) (\<lambda>m. Inr (f\<lparr>old_mode := Some m\<rparr>))
      | None \<Rightarrow>
     (case strip_prefix ''new mode '' l of Some v \<Rightarrow>
        bindE (utf8 v i) (\<lambda>m. Inr (f\<lparr>new_mode := Some m\<rparr>))
      | None \<Rightarrow>
     (if starts_with ''Binary files '' l \<or> l = ''GIT binary patch'' then
        Inr (f\<lparr>fc_content := CBinary\<rparr>)
      else
     (case strip_prefix ''index '' l of Some v \<Rightarrow>
        bindE (utf8 v i) (\<lambda>s. Inr (index_line s f))
      | None \<Rightarrow>
        if l \<noteq> [] then bindE (utf8 l i) (\<lambda>s. Inr (f\<lparr>metadata := metadata f @ [s]\<rparr>))
        else Inr f))))))))))))"

lemma hunk_loop_length:
  "hunk_loop lim i ls h old new total_rows = Inr (i', ls', h', t') \<Longrightarrow> length ls' \<le> length ls"
proof (induction ls arbitrary: i h old new total_rows)
  case Nil
  then show ?case by (simp split: if_splits)
next
  case (Cons l ls)
  show ?case
  proof (cases "old < old_count h \<or> new < new_count h")
    case True
    with Cons.prems obtain i2 h2 old2 new2 t2 where
      "hunk_loop lim i2 ls h2 old2 new2 t2 = Inr (i', ls', h', t')"
      by (auto simp: bind_simps split: if_splits)
    then show ?thesis using Cons.IH by fastforce
  next
    case False
    with Cons.prems show ?thesis by auto
  qed
qed

lemma trailing_eof_length:
  "trailing_eof (i, ls, h, t) = Inr (i', ls', h', t') \<Longrightarrow> length ls' \<le> length ls"
  by (cases ls) (auto simp: bind_simps split: if_splits)

lemma parse_hunk_length:
  assumes "parse_hunk lim i l ls prevs total_rows = Inr (i', ls', h', t')"
  shows "length ls' \<le> length ls"
proof -
  from assms obtain h i1 ls1 h1 t1 where
    "hunk_loop lim (Suc i) ls h 0 0 total_rows = Inr (i1, ls1, h1, t1)"
    "trailing_eof (i1, ls1, h1, t1) = Inr (i', ls', h', t')"
    unfolding parse_hunk_def bind_simps by (metis prod_cases4)
  then show ?thesis using hunk_loop_length trailing_eof_length le_trans by metis
qed

definition git_header :: "bytes \<Rightarrow> bool" where
  "git_header l \<longleftrightarrow> starts_with ''diff --git '' l"

function file_loop ::
  "parse_limits \<Rightarrow> nat \<Rightarrow> bytes list \<Rightarrow> file_change \<Rightarrow> nat \<Rightarrow>
     patch_error + (nat \<times> bytes list \<times> file_change \<times> nat)" where
  "file_loop lim i [] f total_rows = Inr (i, [], f, total_rows)"
| "file_loop lim i (l # ls) f total_rows =
     (if git_header l then Inr (i, l # ls, f, total_rows)
      else if starts_with ''@@ '' l then
        bindE (parse_hunk lim i l ls (hunks f) total_rows) (\<lambda>(i', ls', h, total_rows').
          file_loop lim i' ls' (f\<lparr>hunks := hunks f @ [h]\<rparr>) total_rows')
      else if hunks f \<noteq> [] then
        (if l = [] then file_loop lim (Suc i) ls f total_rows
         else if l = ''-- '' then Inr (i + length (l # ls), [], f, total_rows)
         else Inl (bad i ''unexpected text after counted hunk''))
      else bindE (header_line i l f) (\<lambda>f'. file_loop lim (Suc i) ls f' total_rows))"
  by pat_completeness auto
termination
  by (relation "measure (\<lambda>(lim, i, ls, f, total_rows). length ls)") (auto dest!: parse_hunk_length)

definition new_file :: "repo_path option \<Rightarrow> repo_path option \<Rightarrow> file_change" where
  "new_file old new =
     \<lparr>fc_id = FileId [], old_path = old, new_path = new, fc_kind = KModified, fc_content = CText,
      old_mode = None, new_mode = None, old_oid = None, new_oid = None, hunks = [], metadata = []\<rparr>"

definition opt_path_bytes :: "repo_path option \<Rightarrow> bytes" where
  "opt_path_bytes p = (case p of None \<Rightarrow> [] | Some q \<Rightarrow> path_bytes q)"

definition file_identity :: "(bytes \<Rightarrow> bytes) \<Rightarrow> file_change \<Rightarrow> file_id" where
  "file_identity sha f =
     FileId (digest sha [''file-v1'', opt_path_bytes (old_path f), opt_path_bytes (new_path f)])"

text \<open>What follows the header and hunk loop of a file: the checks and the identity.\<close>

definition settle_file :: "file_change \<Rightarrow> file_change" where
  "settle_file f =
     (let f1 = (if old_mode f = Some ''160000'' \<or> new_mode f = Some ''160000''
                then f\<lparr>fc_content := CSubmodule\<rparr> else f);
          f2 = (if fc_kind f1 = KAdded then f1\<lparr>old_path := None\<rparr> else f1)
      in if fc_kind f2 = KDeleted then f2\<lparr>new_path := None\<rparr> else f2)"

definition finish_file ::
  "(bytes \<Rightarrow> bytes) \<Rightarrow> nat \<Rightarrow> file_change \<Rightarrow> file_id list \<Rightarrow> patch_error + file_change" where
  "finish_file sha i f seen =
     (if old_path f = None \<and> new_path f = None then Inl (bad i ''file has no unambiguous path'')
      else
        (let f1 = settle_file f; f2 = f1\<lparr>fc_id := file_identity sha f1\<rparr> in
         if fc_id f2 \<in> set seen then Inl (bad i ''duplicate file change'') else Inr f2))"

lemma file_loop_length: "file_loop lim i ls f total_rows = Inr (i', ls', f', t') \<Longrightarrow> length ls' \<le> length ls"
proof (induction lim i ls f total_rows arbitrary: i' ls' f' t' rule: file_loop.induct)
  case (2 lim i l ls f total_rows)
  then show ?case
    by (fastforce simp: bind_simps split: if_splits dest: parse_hunk_length)
qed simp

function files_loop ::
  "(bytes \<Rightarrow> bytes) \<Rightarrow> parse_limits \<Rightarrow> nat \<Rightarrow> bytes list \<Rightarrow> file_change list \<Rightarrow> file_id list \<Rightarrow> nat \<Rightarrow>
     patch_error + file_change list" where
  "files_loop sha lim i [] fs seen total_rows = Inr fs"
| "files_loop sha lim i (l # ls) fs seen total_rows =
     (if \<not> git_header l then
        (if fs = [] then files_loop sha lim (Suc i) ls fs seen total_rows
         else if l = [] \<or> l = ''-- '' then files_loop sha lim (Suc i) ls fs seen total_rows
         else Inl (bad i ''unexpected patch trailer''))
      else if max_files lim \<le> length fs then Inl (Limit ''file count'')
      else
        bindE (header_paths (drop 11 l) i) (\<lambda>(old, new).
        bindE (file_loop lim (Suc i) ls (new_file old new) total_rows) (\<lambda>(i', ls', f, total_rows').
        bindE (finish_file sha i' f seen) (\<lambda>f'.
          files_loop sha lim i' ls' (fs @ [f']) (seen @ [fc_id f']) total_rows'))))"
  by pat_completeness auto
termination
  by (relation "measure (\<lambda>(sha, lim, i, ls, fs, seen, total_rows). length ls)")
    (auto dest!: file_loop_length)

definition patch_lines :: "bytes \<Rightarrow> bytes list" where
  "patch_lines bs =
     (let ls = split_on LF bs in if last ls = [] then butlast ls else ls)"

fun check_lines :: "parse_limits \<Rightarrow> nat \<Rightarrow> bytes list \<Rightarrow> patch_error + unit" where
  "check_lines lim i [] = Inr ()"
| "check_lines lim i (l # ls) =
     (if max_line_bytes lim < length l then Inl (Limit (''line '' @ show_nat (i + 1) @ '' length''))
      else if starts_with ''diff --cc '' l \<or> starts_with ''diff --combined '' l \<or> starts_with ''@@@ '' l
      then Inl (Unsupported ''combined merge diff'')
      else check_lines lim (Suc i) ls)"

definition parse_patch :: "(bytes \<Rightarrow> bytes) \<Rightarrow> bytes \<Rightarrow> parse_limits \<Rightarrow> patch_error + patch_report" where
  "parse_patch sha bs lim =
     failIf (max_bytes lim < length bs) (Limit ''bytes'')
       (let ls = patch_lines bs in
        bindE (check_lines lim 0 ls) (\<lambda>_.
        bindE (files_loop sha lim 0 ls [] [] 0) (\<lambda>fs.
          if fs = [] \<and> \<not> list_all is_ascii_whitespace bs
          then Inl (Unsupported ''Git unified file headers are missing'')
          else Inr \<lparr>files = fs\<rparr>)))"

section \<open>The counted hunk\<close>

definition counted :: "hunk \<Rightarrow> nat \<Rightarrow> nat \<Rightarrow> bool" where
  "counted h old new \<longleftrightarrow>
     list_all row_ok (rows h) \<and> old \<le> old_count h \<and> new \<le> new_count h \<and>
     side_numbers SideLeft (rows h) = [old_start h ..< old_start h + old] \<and>
     side_numbers SideRight (rows h) = [new_start h ..< new_start h + new]"

lemma take_number_Inr:
  "take_number on start count used e1 e2 = Inr (n, used') \<longleftrightarrow>
     (if on then used < count \<and> start + used \<le> u32_max \<and> n = Some (start + used) \<and> used' = used + 1
      else n = None \<and> used' = used)"
  by (auto simp: take_number_def bind_simps bounds)

lemma utf8_Inr [bind_simps]: "utf8 v line = Inr s \<longleftrightarrow> s = v \<and> valid_utf8 v"
  by (auto simp: utf8_def bind_simps from_utf8_def)

lemma hunk_row_Inr:
  assumes "hunk_row lim i l h old new t = Inr (r, old', new', t')"
  shows "take_number (row_kind r \<noteq> RAdded) (old_start h) (old_count h) old
           (bad i ''too many old-side lines'') (bad i ''line overflow'') = Inr (old_line r, old')"
    and "take_number (row_kind r \<noteq> RRemoved) (new_start h) (new_count h) new
           (bad i ''too many new-side lines'') (bad i ''line overflow'') = Inr (new_line r, new')"
    and "valid_utf8 (row_text r)" "t' = t + 1" "t' \<le> max_rows lim"
  using assms by (cases l; cases "split_ending (tl l)"; auto simp: hunk_row_def bind_simps)+

lemma hunk_row_counted:
  assumes "hunk_row lim i l h old new t = Inr (r, old', new', t')" "counted h old new"
  shows "counted (h\<lparr>rows := rows h @ [r]\<rparr>) old' new' \<and> t' = t + 1 \<and> t' \<le> max_rows lim"
proof -
  note o = hunk_row_Inr(1) [OF assms(1)] and n = hunk_row_Inr(2) [OF assms(1)]
    and r = hunk_row_Inr(3) [OF assms(1)] and t = hunk_row_Inr(4,5) [OF assms(1)]
  have "row_ok r"
    using o n r by (cases "row_kind r") (auto simp: row_ok_def take_number_Inr)
  moreover have "old' \<le> old_count h" "new' \<le> new_count h"
    using o n assms(2) by (auto simp: take_number_Inr counted_def split: if_splits)
  moreover have "side_numbers SideLeft (rows h @ [r]) = [old_start h ..< old_start h + old']"
    using o assms(2) by (auto simp: take_number_Inr counted_def row_number_def split: if_splits)
  moreover have "side_numbers SideRight (rows h @ [r]) = [new_start h ..< new_start h + new']"
    using n assms(2) by (auto simp: take_number_Inr counted_def row_number_def split: if_splits)
  ultimately show ?thesis using assms(2) t by (auto simp: counted_def)
qed

lemma valid_utf8_CR: "valid_utf8 s \<Longrightarrow> valid_utf8 (s @ [CR])"
  by (intro valid_utf8_append) (simp_all add: ascii_valid_utf8)

lemma mark_no_final_newline_keeps:
  "mark_no_final_newline r i = Inr r' \<Longrightarrow>
     row_kind r' = row_kind r \<and> (\<forall>s. row_number s r' = row_number s r) \<and> (row_ok r \<longrightarrow> row_ok r')"
  by (auto simp: mark_no_final_newline_def row_number_def row_ok_def valid_utf8_CR
      split: line_ending.splits side.splits row_kind.splits)

lemma mark_last_Inr:
  "mark_last i h = Inr h' \<longleftrightarrow>
     (\<exists>rs r r'. rows h = rs @ [r] \<and> mark_no_final_newline r i = Inr r' \<and> h' = h\<lparr>rows := rs @ [r']\<rparr>)"
  by (cases "rows h" rule: rev_cases) (auto simp: mark_last_def bind_simps)

lemma mark_last_counted:
  "mark_last i h = Inr h' \<Longrightarrow> counted h old new \<Longrightarrow> counted h' old new"
  by (auto simp: mark_last_Inr counted_def dest!: mark_no_final_newline_keeps split: option.splits)

lemma mark_last_length: "mark_last i h = Inr h' \<Longrightarrow> length (rows h') = length (rows h)"
  by (auto simp: mark_last_Inr)

lemma mark_last_header: "mark_last i h = Inr h' \<Longrightarrow> h'\<lparr>rows := []\<rparr> = h\<lparr>rows := []\<rparr>"
  by (auto simp: mark_last_Inr)

lemma hunk_loop_counted:
  assumes "hunk_loop lim i ls h old new t = Inr (i', ls', h', t')" "counted h old new" "t \<le> max_rows lim"
  shows "counted h' (old_count h) (new_count h) \<and> h'\<lparr>rows := []\<rparr> = h\<lparr>rows := []\<rparr> \<and>
     t' + length (rows h) = t + length (rows h') \<and> t' \<le> max_rows lim"
  using assms
proof (induction ls arbitrary: i h old new t)
  case Nil
  then show ?case by (auto simp: counted_def split: if_splits)
next
  case (Cons l ls)
  show ?case
  proof (cases "old < old_count h \<or> new < new_count h")
    case False
    with Cons.prems show ?thesis by (auto simp: counted_def)
  next
    case more: True
    show ?thesis
    proof (cases "l = eof_marker")
      case True
      with more Cons.prems(1) obtain h1 where h1: "mark_last i h = Inr h1"
        "hunk_loop lim (Suc i) ls h1 old new t = Inr (i', ls', h', t')"
        by (auto simp: bind_simps)
      from h1(1) have hd1: "h1\<lparr>rows := []\<rparr> = h\<lparr>rows := []\<rparr>" by (rule mark_last_header)
      then have "old_count h1 = old_count h" "new_count h1 = new_count h"
        by (cases h1, cases h, simp)+
      with Cons.IH [OF h1(2) mark_last_counted [OF h1(1) Cons.prems(2)] Cons.prems(3)]
        mark_last_length [OF h1(1)] hd1 show ?thesis by simp
    next
      case False
      with more Cons.prems(1) obtain r o2 n2 t2 where r: "hunk_row lim i l h old new t = Inr (r, o2, n2, t2)"
        "hunk_loop lim (Suc i) ls (h\<lparr>rows := rows h @ [r]\<rparr>) o2 n2 t2 = Inr (i', ls', h', t')"
        by (auto simp: bind_simps)
      from hunk_row_counted [OF r(1) Cons.prems(2)] Cons.IH [OF r(2)] show ?thesis by simp
    qed
  qed
qed

section \<open>Hunks and files\<close>

lemma all_sides: "(\<forall>s. P s) \<longleftrightarrow> P SideLeft \<and> P SideRight"
  by (metis side.exhaust)

lemma pair_range_ok: "pair s line = Inr (start, count) \<Longrightarrow> range_ok start count"
  by (auto simp: pair_def bind_simps bounds range_ok_def Let_def split: prod.splits if_splits
      dest: parse_u32_bound)

lemma hunk_header_Inr:
  assumes "hunk_header l i = Inr h"
  shows "rows h = [] \<and> range_ok (old_start h) (old_count h) \<and> range_ok (new_start h) (new_count h)"
  using assms by (auto simp: hunk_header_def bind_simps dest!: pair_range_ok)

lemma hunk_header_counted: "hunk_header l i = Inr h \<Longrightarrow> counted h 0 0"
  by (drule hunk_header_Inr) (simp add: counted_def)

lemma counted_hunk_ok:
  assumes "counted h (old_count h) (new_count h)"
    and "range_ok (old_start h) (old_count h)" "range_ok (new_start h) (new_count h)"
  shows "hunk_ok h"
  using assms by (simp add: hunk_ok_def counted_def all_sides side_start_def side_count_def)

lemma range_end_bound: "range_ok start count \<Longrightarrow> start + count \<le> u32_max"
  by (cases "count = 0") (auto simp: range_ok_def)

lemma no_overlap_before:
  assumes "hunk_ok prev" "\<not> hunks_overlap prev h"
  shows "hunk_before prev h"
proof -
  have "\<forall>s. side_start s prev + side_count s prev \<le> u32_max"
    using assms(1) by (auto simp: hunk_ok_def intro: range_end_bound)
  with assms(2) show ?thesis
    by (auto simp: hunks_overlap_def hunk_before_def all_sides side_start_def side_count_def bounds)
qed

lemma header_fields:
  "(h' :: hunk)\<lparr>rows := []\<rparr> = h\<lparr>rows := []\<rparr> \<Longrightarrow>
     old_start h' = old_start h \<and> old_count h' = old_count h \<and>
     new_start h' = new_start h \<and> new_count h' = new_count h"
  by (cases h', cases h) simp

lemma trailing_eof_counted:
  assumes "trailing_eof (i, ls, h, t) = Inr (i', ls', h', t')" "counted h old new"
  shows "counted h' old new \<and> h'\<lparr>rows := []\<rparr> = h\<lparr>rows := []\<rparr> \<and>
     length (rows h') = length (rows h) \<and> t' = t"
  using assms
  by (cases ls) (auto simp: bind_simps split: if_splits
      dest: mark_last_counted mark_last_header mark_last_length)

lemma parse_hunk_Inr:
  assumes "parse_hunk lim i l ls prevs t = Inr (i', ls', h', t')" "t \<le> max_rows lim"
  shows "hunk_ok h'" "prevs \<noteq> [] \<Longrightarrow> \<not> hunks_overlap (last prevs) h'"
    "t' = t + length (rows h')" "t' \<le> max_rows lim"
proof -
  from assms(1) obtain h i1 ls1 h1 t1 where h: "hunk_header l i = Inr h"
    "\<not> (prevs \<noteq> [] \<and> hunks_overlap (last prevs) h)"
    and lp: "hunk_loop lim (Suc i) ls h 0 0 t = Inr (i1, ls1, h1, t1)"
    and tr: "trailing_eof (i1, ls1, h1, t1) = Inr (i', ls', h', t')"
    unfolding parse_hunk_def bind_simps by (metis prod_cases4)
  note l = hunk_loop_counted [OF lp hunk_header_counted [OF h(1)] assms(2)]
  note e = trailing_eof_counted [OF tr, of "old_count h" "new_count h"]
  have hd: "h'\<lparr>rows := []\<rparr> = h\<lparr>rows := []\<rparr>" using l e by simp
  note f = header_fields [OF hd] and r = hunk_header_Inr [OF h(1)]
  show "hunk_ok h'" using l e f r by (intro counted_hunk_ok) auto
  show "\<not> hunks_overlap (last prevs) h'" if "prevs \<noteq> []"
    using h(2) f that by (simp add: hunks_overlap_def)
  show "t' = t + length (rows h')" "t' \<le> max_rows lim" using l e r by simp_all
qed

lemma hunk_before_snoc:
  assumes "sorted_wrt hunk_before hs" "list_all hunk_ok hs" "hs \<noteq> [] \<Longrightarrow> hunk_before (last hs) h"
  shows "sorted_wrt hunk_before (hs @ [h])"
proof (cases hs rule: rev_cases)
  case Nil
  then show ?thesis by simp
next
  case (snoc gs g)
  have "hunk_before x h" if "x \<in> set gs" for x
  proof -
    have "hunk_before x g" "hunk_before g h" using assms(1,3) snoc that by (auto simp: sorted_wrt_append)
    then show ?thesis unfolding hunk_before_def by (meson add_leD1 le_trans)
  qed
  with assms snoc show ?thesis by (auto simp: sorted_wrt_append)
qed

lemma parse_hunk_file_ok:
  assumes "parse_hunk lim i l ls (hunks f) t = Inr (i', ls', h, t')" "t \<le> max_rows lim" "file_ok f"
  shows "file_ok (f\<lparr>hunks := hunks f @ [h]\<rparr>)"
proof -
  note p = parse_hunk_Inr [OF assms(1,2)]
  have "hunks f \<noteq> [] \<Longrightarrow> hunk_before (last (hunks f)) h"
    using p(2) assms(3) no_overlap_before by (simp add: file_ok_def list_all_iff)
  with p(1) assms(3) show ?thesis by (simp add: file_ok_def hunk_before_snoc)
qed

definition paths_ok :: "file_change \<Rightarrow> bool" where
  "paths_ok f \<longleftrightarrow> pred_option path_ok (old_path f) \<and> pred_option path_ok (new_path f)"

lemma path_at_ok: "path_at v line strip = Inr p \<Longrightarrow> path_ok p"
  by (auto simp: path_at_def bind_simps split: if_splits
      dest: from_git_token_ok) (metis Inr_inject from_git_token_ok without_side_total)

lemma marker_path_ok: "marker_path v i = Inr p \<Longrightarrow> pred_option path_ok p"
  by (auto simp: marker_path_def Let_def bind_simps path_at_ok split: if_splits)

lemma header_paths_ok:
  "header_paths v i = Inr (a, b) \<Longrightarrow> pred_option path_ok a \<and> pred_option path_ok b"
  by (auto simp: header_paths_def bind_simps path_at_ok split: if_splits option.splits list.splits)

lemma index_line_keeps [simp]:
  "hunks (index_line s f) = hunks f" "old_path (index_line s f) = old_path f"
  "new_path (index_line s f) = new_path f"
  by (auto simp: index_line_def Let_def split: list.splits option.splits)

lemma header_line_hunks: "header_line i l f = Inr f' \<Longrightarrow> hunks f' = hunks f"
  unfolding header_line_def by (auto simp: bind_simps split: option.splits if_splits)

lemma header_line_paths: "header_line i l f = Inr f' \<Longrightarrow> paths_ok f \<Longrightarrow> paths_ok f'"
  unfolding header_line_def
  by (auto simp: bind_simps paths_ok_def path_at_ok marker_path_ok split: option.splits if_splits)

lemma file_rows_snoc: "file_rows (f\<lparr>hunks := hunks f @ [h]\<rparr>) = file_rows f @ rows h"
  by (simp add: file_rows_def)

lemma same_hunks_file_ok: "hunks f' = hunks f \<Longrightarrow> file_ok f' = file_ok f"
  by (simp add: file_ok_def)

lemma same_hunks_rows: "hunks f' = hunks f \<Longrightarrow> file_rows f' = file_rows f"
  by (simp add: file_rows_def)

lemma file_loop_Inr:
  assumes "file_loop lim i ls f t = Inr (i', ls', f', t')" "file_ok f" "paths_ok f" "t \<le> max_rows lim"
  shows "file_ok f' \<and> paths_ok f' \<and> t' + length (file_rows f) = t + length (file_rows f') \<and>
    t' \<le> max_rows lim"
  using assms
proof (induction lim i ls f t arbitrary: i' ls' f' t' rule: file_loop.induct)
  case (1 lim i f t)
  then show ?case by simp
next
  case (2 lim i l ls f t)
  show ?case
  proof (cases "git_header l \<or> \<not> starts_with ''@@ '' l \<and> hunks f \<noteq> []")
    case True
    with 2 show ?thesis by (auto split: if_splits)
  next
    case not_rest: False
    show ?thesis
    proof (cases "starts_with ''@@ '' l")
      case True
      with not_rest "2.prems"(1) obtain i1 ls1 h t1 where
        h: "parse_hunk lim i l ls (hunks f) t = Inr (i1, ls1, h, t1)"
        and rest: "file_loop lim i1 ls1 (f\<lparr>hunks := hunks f @ [h]\<rparr>) t1 = Inr (i', ls', f', t')"
        by (auto simp: bind_simps)
      note p = parse_hunk_Inr(3,4) [OF h "2.prems"(4)]
      have "paths_ok (f\<lparr>hunks := hunks f @ [h]\<rparr>)"
        using "2.prems"(3) by (simp add: paths_ok_def)
      with "2.IH"(1) [OF _ True h] not_rest rest p parse_hunk_file_ok [OF h "2.prems"(4,2)] True
      show ?thesis by (auto simp: file_rows_snoc)
    next
      case False
      with not_rest "2.prems"(1) obtain f1 where f1: "header_line i l f = Inr f1"
        and rest: "file_loop lim (Suc i) ls f1 t = Inr (i', ls', f', t')"
        by (auto simp: bind_simps)
      note k = header_line_hunks [OF f1]
      with "2.IH"(3) [OF _ False _ f1 rest] not_rest False "2.prems"(2,4)
        header_line_paths [OF f1 "2.prems"(3)] show ?thesis
        by (simp add: same_hunks_file_ok [OF k] same_hunks_rows [OF k])
    qed
  qed
qed

lemma settle_file_keeps [simp]:
  "hunks (settle_file f) = hunks f" "fc_kind (settle_file f) = fc_kind f"
  by (simp_all add: settle_file_def Let_def)

lemma settle_file_paths: "paths_ok f \<Longrightarrow> paths_ok (settle_file f)"
  by (auto simp: settle_file_def Let_def paths_ok_def)

lemma settle_file_kind_paths:
  "fc_kind f = KAdded \<Longrightarrow> old_path (settle_file f) = None"
  "fc_kind f = KDeleted \<Longrightarrow> new_path (settle_file f) = None"
  by (simp_all add: settle_file_def Let_def)

text \<open>What holds of every file of a report.\<close>

definition file_settled :: "(bytes \<Rightarrow> bytes) \<Rightarrow> file_change \<Rightarrow> bool" where
  "file_settled sha f \<longleftrightarrow>
     file_ok f \<and> paths_ok f \<and> fc_id f = file_identity sha f \<and>
     (fc_kind f = KAdded \<longrightarrow> old_path f = None) \<and> (fc_kind f = KDeleted \<longrightarrow> new_path f = None)"

lemma finish_file_Inr:
  assumes "finish_file sha i f seen = Inr f'" "file_ok f" "paths_ok f"
  shows "file_settled sha f' \<and> fc_id f' \<notin> set seen \<and> file_rows f' = file_rows f"
proof -
  from assms(1) have f': "f' = (settle_file f)\<lparr>fc_id := file_identity sha (settle_file f)\<rparr>"
    and new: "fc_id f' \<notin> set seen"
    by (auto simp: finish_file_def Let_def split: if_splits)
  have h: "hunks f' = hunks f" by (simp add: f')
  have p: "paths_ok f'"
    using settle_file_paths [OF assms(3)] by (simp add: f' paths_ok_def)
  have id: "fc_id f' = file_identity sha f'"
    by (simp add: f' file_identity_def)
  have k: "fc_kind f' = KAdded \<longrightarrow> old_path f' = None" "fc_kind f' = KDeleted \<longrightarrow> new_path f' = None"
    by (simp_all add: f' settle_file_kind_paths)
  show ?thesis
    unfolding file_settled_def same_hunks_file_ok [OF h]
    using p id k new assms(2) same_hunks_rows [OF h] by blast
qed

lemma new_file_ok [simp]: "file_ok (new_file a b)" "file_rows (new_file a b) = []"
  by (simp_all add: new_file_def file_ok_def file_rows_def)

definition total_file_rows :: "file_change list \<Rightarrow> nat" where
  "total_file_rows fs = sum_list (map (\<lambda>f. length (file_rows f)) fs)"

lemma files_loop_Inr:
  assumes "files_loop sha lim i ls fs seen t = Inr fs'"
    and "list_all (file_settled sha) fs" "seen = map fc_id fs" "distinct seen"
    and "t = total_file_rows fs" "t \<le> max_rows lim" "length fs \<le> max_files lim"
  shows "list_all (file_settled sha) fs' \<and> distinct (map fc_id fs') \<and>
     total_file_rows fs' \<le> max_rows lim \<and> length fs' \<le> max_files lim"
  using assms
proof (induction sha lim i ls fs seen t rule: files_loop.induct)
  case (1 sha lim i fs seen t)
  then show ?case by simp
next
  case (2 sha lim i l ls fs seen t)
  show ?case
  proof (cases "git_header l")
    case False
    with 2 show ?thesis by (simp split: if_splits)
  next
    case True
    with "2.prems"(1) obtain a b i1 ls1 f t1 f1 where
      room: "\<not> max_files lim \<le> length fs"
      and hp: "header_paths (drop 11 l) i = Inr (a, b)"
      and fl: "file_loop lim (Suc i) ls (new_file a b) t = Inr (i1, ls1, f, t1)"
      and ff: "finish_file sha i1 f seen = Inr f1"
      and rest: "files_loop sha lim i1 ls1 (fs @ [f1]) (seen @ [fc_id f1]) t1 = Inr fs'"
      by (auto simp: bind_simps split: if_splits)
    have "paths_ok (new_file a b)"
      using header_paths_ok [OF hp] by (simp add: paths_ok_def new_file_def)
    note k = file_loop_Inr [OF fl new_file_ok(1) this "2.prems"(6)]
    then have s: "file_settled sha f1 \<and> fc_id f1 \<notin> set seen \<and> file_rows f1 = file_rows f"
      using finish_file_Inr [OF ff] by blast
    have "t1 = total_file_rows (fs @ [f1])" "t1 \<le> max_rows lim"
      using k s "2.prems"(5) by (auto simp: total_file_rows_def)
    moreover have "list_all (file_settled sha) (fs @ [f1])" "seen @ [fc_id f1] = map fc_id (fs @ [f1])"
      "distinct (seen @ [fc_id f1])"
      using s "2.prems" by auto
    ultimately show ?thesis
      using "2.IH"(3) [OF _ room hp refl fl _ _ _ ff rest] True room by auto
  qed
qed

lemma parse_patch_Inr:
  assumes "parse_patch sha bs lim = Inr r"
  shows "list_all (file_settled sha) (files r)" "distinct (map fc_id (files r))"
    "total_file_rows (files r) \<le> max_rows lim" "length (files r) \<le> max_files lim"
    "files r = [] \<Longrightarrow> list_all is_ascii_whitespace bs" "length bs \<le> max_bytes lim"
proof -
  from assms have fl: "files_loop sha lim 0 (patch_lines bs) [] [] 0 = Inr (files r)"
    by (auto simp: parse_patch_def bind_simps Let_def split: if_splits)
  have "list_all (file_settled sha) (files r) \<and> distinct (map fc_id (files r)) \<and>
     total_file_rows (files r) \<le> max_rows lim \<and> length (files r) \<le> max_files lim"
    by (rule files_loop_Inr [OF fl]) (simp_all add: total_file_rows_def)
  then show "list_all (file_settled sha) (files r)" "distinct (map fc_id (files r))"
    "total_file_rows (files r) \<le> max_rows lim" "length (files r) \<le> max_files lim"
    by auto
  show "list_all is_ascii_whitespace bs" if "files r = []"
    using assms that by (auto simp: parse_patch_def bind_simps Let_def split: if_splits)
  show "length bs \<le> max_bytes lim"
    using assms by (auto simp: parse_patch_def bind_simps)
qed

end
