(* ===== verification/PatchPrint.thy ===== *)
theory PatchPrint
  imports PatchParse
begin

text \<open>
  What the patch parser promises, stated over \<open>parse_patch\<close> and \<open>parse_hunk\<close>:
  counted hunks, exact line lookup, safety limits, sound paths, and the round
  trip through a reference printer of hunks. A sample patch instantiates each
  statement.
\<close>

section \<open>Printing a hunk and reading it back\<close>

text \<open>The reference printer: Git's form of a hunk, as lines without their line feed.\<close>

definition kind_prefix :: "row_kind \<Rightarrow> char" where
  "kind_prefix k = (case k of RContext \<Rightarrow> CHR '' '' | RAdded \<Rightarrow> CHR ''+'' | RRemoved \<Rightarrow> CHR ''-'')"

definition print_row :: "patch_row \<Rightarrow> bytes list" where
  "print_row r =
     (case row_ending r of
        EndLf \<Rightarrow> [kind_prefix (row_kind r) # row_text r]
      | EndCrLf \<Rightarrow> [kind_prefix (row_kind r) # row_text r @ [CR]]
      | EndNone \<Rightarrow> [kind_prefix (row_kind r) # row_text r, eof_marker])"

definition print_range :: "nat \<Rightarrow> nat \<Rightarrow> str" where
  "print_range start count = show_nat start @ '','' @ show_nat count"

definition print_header :: "hunk \<Rightarrow> bytes" where
  "print_header h =
     ''@@ -'' @ print_range (old_start h) (old_count h) @ '' +'' @
     print_range (new_start h) (new_count h) @ '' @@'' @
     (if section_text h = [] then [] else '' '' @ section_text h)"

definition print_rows :: "patch_row list \<Rightarrow> bytes list" where
  "print_rows rs = concat (map print_row rs)"

definition printable :: "hunk \<Rightarrow> bool" where
  "printable h \<longleftrightarrow> hunk_ok h \<and> valid_utf8 (section_text h) \<and> trim_start (section_text h) = section_text h \<and>
     (\<forall>r \<in> set (rows h). row_ending r = EndLf \<longrightarrow> \<not> ends_with [CR] (row_text r))"

lemma kind_prefix_roundtrip [simp]: "kind_of_prefix (kind_prefix k) = Some k"
  by (cases k) (simp_all add: kind_prefix_def kind_of_prefix_def)

lemma kind_prefix_not_marker [simp]: "kind_prefix k # s \<noteq> eof_marker"
  by (cases k) (simp_all add: kind_prefix_def eof_marker_def)

lemma print_row_Cons: "\<exists>s more. print_row r = (kind_prefix (row_kind r) # s) # more"
  by (cases "row_ending r") (auto simp: print_row_def)

text \<open>How far a row advances the counters of its hunk.\<close>

definition step_old :: "patch_row \<Rightarrow> nat \<Rightarrow> nat" where
  "step_old r n = (if row_kind r \<noteq> RAdded then n + 1 else n)"

definition step_new :: "patch_row \<Rightarrow> nat \<Rightarrow> nat" where
  "step_new r n = (if row_kind r \<noteq> RRemoved then n + 1 else n)"

text \<open>The rows still to be read fit the numbers that remain.\<close>

definition pending :: "hunk \<Rightarrow> nat \<Rightarrow> nat \<Rightarrow> patch_row list \<Rightarrow> bool" where
  "pending h old new rs \<longleftrightarrow>
     list_all row_ok rs \<and> old \<le> old_count h \<and> new \<le> new_count h \<and>
     old_start h + old_count h \<le> u32_max \<and> new_start h + new_count h \<le> u32_max \<and>
     side_numbers SideLeft rs = [old_start h + old ..< old_start h + old_count h] \<and>
     side_numbers SideRight rs = [new_start h + new ..< new_start h + new_count h]"

lemma upt_Cons_iff: "n # ns = [a..<b] \<longleftrightarrow> a < b \<and> n = a \<and> ns = [Suc a..<b]"
  by (metis list.distinct(1) list.inject upt_conv_Cons upt_rec)

lemma pending_Cons:
  assumes "pending h old new (r # rs)"
  shows "row_ok r" "pending h (step_old r old) (step_new r new) rs"
    "old < old_count h \<or> new < new_count h"
    "take_number (row_kind r \<noteq> RAdded) (old_start h) (old_count h) old e1 e2 = Inr (old_line r, step_old r old)"
    "take_number (row_kind r \<noteq> RRemoved) (new_start h) (new_count h) new e1 e2 = Inr (new_line r, step_new r new)"
  using assms
  by (cases "row_kind r";
      auto simp: pending_def row_ok_def row_number_def upt_Cons_iff step_old_def step_new_def
        take_number_Inr)+

lemma pending_rows: "pending (h\<lparr>rows := x\<rparr>) old new rs = pending h old new rs"
  by (simp add: pending_def)

lemma pending_done:
  "pending h old new rs \<Longrightarrow> \<not> (old < old_count h \<or> new < new_count h) \<Longrightarrow> rs = []"
  using pending_Cons(3) by (cases rs) blast+

text \<open>What the parser stores for the text line of a row, before an EOF marker is seen.\<close>

definition read_row :: "patch_row \<Rightarrow> patch_row" where
  "read_row r =
     (if row_ending r = EndNone then
        (if ends_with [CR] (row_text r) then r\<lparr>row_text := butlast (row_text r), row_ending := EndCrLf\<rparr>
         else r\<lparr>row_ending := EndLf\<rparr>)
      else r)"

lemma ends_with_CR: "ends_with [CR] s \<longleftrightarrow> s \<noteq> [] \<and> last s = CR"
  by (cases s rule: rev_cases) (auto simp: ends_with_iff)

lemma mark_read_row: "row_ending r = EndNone \<Longrightarrow> mark_no_final_newline (read_row r) i = Inr r"
  by (cases r) (auto simp: read_row_def mark_no_final_newline_def ends_with_CR snoc_eq_iff_butlast)

lemma valid_utf8_butlast_CR: "valid_utf8 s \<Longrightarrow> ends_with [CR] s \<Longrightarrow> valid_utf8 (butlast s)"
  using valid_utf8_cut [of "butlast s" CR "[]"]
  by (auto simp: ends_with_CR is_cont_def) (metis append_butlast_last_id)

lemma hunk_row_print:
  assumes "pending h old new (r # rs)" "t < max_rows lim"
    and "row_ending r = EndLf \<longrightarrow> \<not> ends_with [CR] (row_text r)"
  shows "hunk_row lim i (hd (print_row r)) h old new t =
     Inr (read_row r, step_old r old, step_new r new, t + 1)"
proof -
  note p = pending_Cons [OF assms(1)]
  obtain s where s: "hd (print_row r) = kind_prefix (row_kind r) # s"
    "split_ending s = (row_text (read_row r), row_ending (read_row r))"
    using assms(3)
    by (cases "row_ending r") (auto simp: print_row_def read_row_def split_ending_def ends_with_CR)
  have "valid_utf8 (row_text (read_row r))"
    using p(1) valid_utf8_butlast_CR [of "row_text r"] by (simp add: read_row_def row_ok_def)
  then have u: "utf8 (row_text (read_row r)) i = Inr (row_text (read_row r))"
    by (simp add: bind_simps)
  show ?thesis
    using p(4,5) s u assms(2) by (simp add: hunk_row_def read_row_def)
qed


lemma mark_last_read_row:
  "row_ending r = EndNone \<Longrightarrow> mark_last i (h\<lparr>rows := rs @ [read_row r]\<rparr>) = Inr (h\<lparr>rows := rs @ [r]\<rparr>)"
  by (simp add: mark_last_def mark_read_row)

text \<open>Reading the printed rows that are pending, up to the line that follows the hunk.\<close>

lemma read_printed_rows:
  assumes "pending h old new rs" "t + length rs \<le> max_rows lim"
    and "\<forall>r \<in> set rs. row_ending r = EndLf \<longrightarrow> \<not> ends_with [CR] (row_text r)"
    and "rest = [] \<or> hd rest \<noteq> eof_marker"
  shows "bindE (hunk_loop lim i (print_rows rs @ rest) h old new t) trailing_eof =
     Inr (i + length (print_rows rs), rest, h\<lparr>rows := rows h @ rs\<rparr>, t + length rs)"
  using assms
proof (induction rs arbitrary: i h old new t)
  case Nil
  then have "\<not> (old < old_count h \<or> new < new_count h)"
    by (simp add: pending_def) (metis nat_add_left_cancel_le upt_eq_Nil_conv not_less order.refl
        le_eq_less_or_eq add_is_0 gr_implies_not0)
  with Nil show ?case by (cases rest) (auto simp: print_rows_def)
next
  case (Cons r rs)
  define l where "l = hd (print_row r)"
  define g where "g = h\<lparr>rows := rows h @ [read_row r]\<rparr>"
  define f where "f = h\<lparr>rows := rows h @ [r]\<rparr>"
  note p = pending_Cons [OF Cons.prems(1)]
  have row: "hunk_row lim i l h old new t = Inr (read_row r, step_old r old, step_new r new, t + 1)"
    unfolding l_def using Cons.prems by (intro hunk_row_print) auto
  have l: "l \<noteq> eof_marker"
    unfolding l_def using print_row_Cons [of r] by auto
  have pend: "pending f (step_old r old) (step_new r new) rs"
    using p(2) by (simp add: f_def pending_rows)
  have IH: "bindE (hunk_loop lim j (print_rows rs @ rest) f (step_old r old) (step_new r new) (t + 1))
      trailing_eof = Inr (j + length (print_rows rs), rest, h\<lparr>rows := rows h @ r # rs\<rparr>, t + length (r # rs))" for j
    using Cons.IH [OF pend, of "t + 1" j] Cons.prems(2-4) by (simp add: f_def)
  have first: "hunk_loop lim i (l # ls) h old new t =
      hunk_loop lim (Suc i) ls g (step_old r old) (step_new r new) (t + 1)" for ls
    using p(3) l row by (simp add: g_def)
  show ?case
  proof (cases "row_ending r = EndNone")
    case False
    then have "print_row r = [l]" "g = f"
      by (cases "row_ending r"; simp add: print_row_def l_def g_def f_def read_row_def)+
    with first IH [of "Suc i"] show ?thesis by (simp add: print_rows_def)
  next
    case True
    then have pr: "print_row r = [l, eof_marker]" by (simp add: print_row_def l_def)
    have mark: "mark_last j g = Inr f" for j
      unfolding g_def f_def using True by (rule mark_last_read_row)
    show ?thesis
    proof (cases "step_old r old < old_count g \<or> step_new r new < new_count g")
      case True
      with first mark IH [of "Suc (Suc i)"] pr show ?thesis by (simp add: print_rows_def)
    next
      case fin: False
      then have "rs = []" using pending_done [OF p(2)] by (simp add: g_def)
      with first mark pr fin show ?thesis by (simp add: print_rows_def f_def)
    qed
  qed
qed

lemma show_nat_no_sep: "c \<notin> set (show_nat n)" if "\<not> is_ascii_digit c"
  using that show_nat_digits by blast

lemma pair_print:
  assumes "range_ok start count" "count \<le> u32_max"
  shows "pair (print_range start count) i = Inr (start, count)"
proof -
  have "split_once '','' (print_range start count) = Some (show_nat start, show_nat count)"
    unfolding print_range_def using split_once_char [OF show_nat_no_sep, of "CHR '',''" start "show_nat count"]
    by (simp add: is_ascii_digit_def)
  with assms show ?thesis
    by (auto simp: pair_def range_ok_def parse_u32_show checked_add_u32_def)
qed

lemma split_once_skip:
  assumes "hd p \<notin> set a" "p \<noteq> []"
  shows "split_once p (a @ p @ b) = Some (a, b)"
  using assms
proof (induction a)
  case Nil
  then show ?case by (cases p) auto
next
  case (Cons c a)
  then have "strip_prefix p (c # a @ p @ b) = None" by (cases p) auto
  with Cons show ?case by simp
qed

lemma print_range_no_space: "CHR '' '' \<notin> set (print_range a b)"
  unfolding print_range_def using show_nat_no_sep [of "CHR '' ''"] by (auto simp: is_ascii_digit_def)

lemma print_range_ascii: "c \<in> set (print_range a b) \<Longrightarrow> byte_of c < (0x80 :: nat)"
  unfolding print_range_def by (auto simp: is_ascii_digit_def dest!: show_nat_digits)

lemma trim_start_space: "trim_start (CHR '' '' # s) = trim_start s"
proof -
  have "chars (CHR '' '' # s) = [CHR '' ''] # chars s"
    by (subst chars.simps) (simp add: utf8_step_ascii)
  then show ?thesis
    by (simp add: trim_start_def ws_char_def char_cp_def utf8_step_ascii is_whitespace_def)
qed

lemma hunk_header_print:
  assumes "printable h"
  shows "hunk_header (print_header h) i = Inr (h\<lparr>rows := []\<rparr>)"
proof -
  let ?sect = "(if section_text h = [] then [] else '' '' @ section_text h)"
  let ?o = "print_range (old_start h) (old_count h)" and ?n = "print_range (new_start h) (new_count h)"
  have ro: "range_ok (old_start h) (old_count h)" "range_ok (new_start h) (new_count h)"
    using assms by (auto simp: printable_def hunk_ok_def all_sides side_start_def side_count_def)
  have v: "valid_utf8 (print_header h)"
  proof -
    have "valid_utf8 ?o" "valid_utf8 ?n"
      by (simp_all add: ascii_valid_utf8 print_range_ascii)
    moreover have "valid_utf8 ?sect"
      using assms valid_utf8_append [of "'' ''" "section_text h"]
      by (simp add: printable_def ascii_valid_utf8)
    ultimately show ?thesis
      unfolding print_header_def by (intro valid_utf8_append) (simp_all add: ascii_valid_utf8)
  qed
  have s1: "split_once '' +'' (?o @ '' +'' @ ?n @ '' @@'' @ ?sect) = Some (?o, ?n @ '' @@'' @ ?sect)"
    by (rule split_once_skip) (simp_all add: print_range_no_space)
  have s2: "split_once '' @@'' (?n @ '' @@'' @ ?sect) = Some (?n, ?sect)"
    by (rule split_once_skip) (simp_all add: print_range_no_space)
  have sect: "trim_start ?sect = section_text h"
    using assms by (auto simp: trim_start_space printable_def)
  have p: "pair ?o i = Inr (old_start h, old_count h)" "pair ?n i = Inr (new_start h, new_count h)"
    using ro range_end_bound [OF ro(1)] range_end_bound [OF ro(2)] by (simp_all add: pair_print)
  have u: "utf8 (print_header h) i = Inr (print_header h)" using v by (simp add: bind_simps)
  have pre: "strip_prefix ''@@ -'' (print_header h) = Some (?o @ '' +'' @ ?n @ '' @@'' @ ?sect)"
    unfolding print_header_def strip_prefix_Some by simp
  show ?thesis
    unfolding hunk_header_def
    by (simp only: u pre s1 s2 p sect bindE_Inr okE_simps prod.case) simp
qed


lemma printable_pending: "printable h \<Longrightarrow> pending (h\<lparr>rows := []\<rparr>) 0 0 (rows h)"
  using range_end_bound
  by (auto simp: printable_def hunk_ok_def pending_def all_sides side_start_def side_count_def)

section \<open>Properties of the parser\<close>

text \<open>
  Claim C8. A successful parse returns only counted hunks: the rows of a hunk
  carry exactly the line numbers its header announces on each side, in order
  and without a gap; hunks of a file follow each other without overlap; so the
  numbers of a whole file increase strictly on each side.
\<close>

theorem parse_patch_counted:
  assumes "parse_patch sha bs lim = Inr r" "f \<in> set (files r)"
  shows "(\<forall>h \<in> set (hunks f). \<forall>s.
            side_numbers s (rows h) = [side_start s h ..< side_start s h + side_count s h]) \<and>
         sorted_wrt hunk_before (hunks f) \<and>
         (\<forall>s. sorted_wrt (<) (side_numbers s (file_rows f)))"
proof -
  have "file_ok f"
    using parse_patch_Inr(1) [OF assms(1)] assms(2) by (auto simp: list_all_iff file_settled_def)
  then show ?thesis
    using file_numbers_sorted by (auto simp: file_ok_def list_all_iff hunk_ok_def)
qed

text \<open>
  Line lookup in a parsed file is exact: \<open>line(side, n)\<close> returns a row
  if and only if it is a row of the file that carries the number on that side.
\<close>

theorem parse_patch_line_lookup:
  assumes "parse_patch sha bs lim = Inr r" "f \<in> set (files r)"
  shows "fc_line f s n = Some x \<longleftrightarrow> x \<in> set (file_rows f) \<and> row_number s x = Some n"
proof -
  have "file_ok f"
    using parse_patch_Inr(1) [OF assms(1)] assms(2) by (auto simp: list_all_iff file_settled_def)
  then show ?thesis by (rule file_lines.lookup_iff)
qed

text \<open>
  The safety limits hold for every report, file identities are
  pairwise distinct, and a patch without files is accepted only when the input
  is ASCII white space: bad input never becomes an empty success.
\<close>

theorem parse_patch_limits:
  assumes "parse_patch sha bs lim = Inr r"
  shows "length (files r) \<le> max_files lim \<and> total_file_rows (files r) \<le> max_rows lim \<and>
     length bs \<le> max_bytes lim \<and> distinct (map fc_id (files r)) \<and>
     (files r = [] \<longrightarrow> list_all is_ascii_whitespace bs)"
  using parse_patch_Inr [OF assms] by blast


text \<open>
  Claim C10. Reading back a printed hunk gives the hunk: LF and CRLF rows, rows
  without a final newline (also when their text ends in a carriage return), the
  ranges of the header and the section text survive, and the reader stops at
  the line after the hunk.
\<close>

theorem parse_hunk_print:
  assumes "printable h" "prevs = [] \<or> \<not> hunks_overlap (last prevs) h"
    and "t + length (rows h) \<le> max_rows lim" "rest = [] \<or> hd rest \<noteq> eof_marker"
  shows "parse_hunk lim i (print_header h) (print_rows (rows h) @ rest) prevs t =
     Inr (Suc i + length (print_rows (rows h)), rest, h, t + length (rows h))"
proof -
  have ov: "\<not> (prevs \<noteq> [] \<and> hunks_overlap (last prevs) (h\<lparr>rows := []\<rparr>))"
    using assms(2) by (simp add: hunks_overlap_def)
  have "bindE (hunk_loop lim (Suc i) (print_rows (rows h) @ rest) (h\<lparr>rows := []\<rparr>) 0 0 t) trailing_eof =
     Inr (Suc i + length (print_rows (rows h)), rest, h, t + length (rows h))"
    using read_printed_rows [OF printable_pending [OF assms(1)] assms(3) _ assms(4), of "Suc i"] assms(1)
    by (simp add: printable_def)
  with ov hunk_header_print [OF assms(1)] show ?thesis
    unfolding parse_hunk_def by (simp only: bindE_Inr failIf_simps)
qed

text \<open>
  A range that \<open>eligible\<close> admits for a comment lies in one hunk: every
  line of it is found by line lookup, in a row of that hunk.
\<close>

theorem eligible_lines:
  assumes "file_ok f" "eligible f s a b"
  shows "a \<le> b \<and> (\<exists>h \<in> set (hunks f). \<forall>n. a \<le> n \<and> n \<le> b \<longrightarrow> (\<exists>r \<in> set (rows h). fc_line f s n = Some r))"
proof -
  from assms(2) obtain h where h: "h \<in> set (hunks f)"
    "\<forall>n \<in> set [a..<Suc b]. \<exists>r \<in> set (rows h). row_number s r = Some n" and ab: "a \<le> b"
    by (auto simp: eligible_def list_ex_iff list_all_iff simp del: upt_Suc)
  have "\<exists>r \<in> set (rows h). fc_line f s n = Some r" if "a \<le> n" "n \<le> b" for n
  proof -
    from that have "n \<in> set [a..<Suc b]" by auto
    with h(2) obtain r where r: "r \<in> set (rows h)" "row_number s r = Some n" by blast
    then have "r \<in> set (file_rows f)" using h(1) by (auto simp: file_rows_def)
    with r file_lines.lookup_iff [OF assms(1)] show ?thesis by blast
  qed
  with h(1) ab show ?thesis by blast
qed


section \<open>A sample patch\<close>

definition sample_lines :: "bytes list" where
  "sample_lines = [''diff --git a/x b/x'', ''--- a/x'', ''+++ b/x'', ''@@ -1,2 +1,2 @@ f'',
     '' a'', ''-b'', ''+c'', eof_marker]"

definition sample_limits :: parse_limits where
  "sample_limits = \<lparr>max_bytes = 200, max_files = 2, max_rows = 4, max_line_bytes = 80\<rparr>"

definition sample_hunk :: hunk where
  "sample_hunk = \<lparr>old_start = 1, old_count = 2, new_start = 1, new_count = 2, section_text = ''f'',
     rows = [\<lparr>old_line = Some 1, new_line = Some 1, row_text = ''a'', row_ending = EndLf, row_kind = RContext\<rparr>,
             \<lparr>old_line = Some 2, new_line = None, row_text = ''b'', row_ending = EndLf, row_kind = RRemoved\<rparr>,
             \<lparr>old_line = None, new_line = Some 2, row_text = ''c'', row_ending = EndNone, row_kind = RAdded\<rparr>]\<rparr>"

definition sample_file :: file_change where
  "sample_file = (new_file (Some (RepoPath ''x'')) (Some (RepoPath ''x'')))\<lparr>hunks := [sample_hunk]\<rparr>"

definition sample_patch :: bytes where
  "sample_patch = concat (map (\<lambda>l. l @ [LF]) sample_lines)"

lemma sample_parses:
  "parse_patch (\<lambda>_. []) sample_patch sample_limits = Inr \<lparr>files = [sample_file]\<rparr>"
  by code_simp

lemma sample_in_report: "sample_file \<in> set (files \<lparr>files = [sample_file]\<rparr>)"
  by simp

lemma sample_file_ok: "file_ok sample_file"
  using parse_patch_Inr(1) [OF sample_parses] by (simp add: file_settled_def)

lemma sample_hunk_printable: "printable sample_hunk"
proof -
  have "hunk_ok sample_hunk" using sample_file_ok by (simp add: file_ok_def sample_file_def new_file_def)
  moreover have "valid_utf8 (section_text sample_hunk)" by code_simp
  moreover have "trim_start (section_text sample_hunk) = section_text sample_hunk" by code_simp
  moreover have "\<forall>r \<in> set (rows sample_hunk). row_ending r = EndLf \<longrightarrow> \<not> ends_with [CR] (row_text r)"
    by code_simp
  ultimately show ?thesis by (simp only: printable_def)
qed

theorem parse_patch_counted_witness:
  "side_numbers SideLeft (rows sample_hunk) = [1, 2] \<and> sorted_wrt hunk_before (hunks sample_file) \<and>
   sorted_wrt (<) (side_numbers SideRight (file_rows sample_file))"
proof -
  have "sample_hunk \<in> set (hunks sample_file)" by (simp add: sample_file_def)
  with parse_patch_counted [OF sample_parses sample_in_report]
  have "side_numbers SideLeft (rows sample_hunk) =
      [side_start SideLeft sample_hunk ..< side_start SideLeft sample_hunk + side_count SideLeft sample_hunk]"
    and "sorted_wrt hunk_before (hunks sample_file)"
    and "sorted_wrt (<) (side_numbers SideRight (file_rows sample_file))" by blast+
  moreover have "[side_start SideLeft sample_hunk ..< side_start SideLeft sample_hunk + side_count SideLeft sample_hunk] = [1, 2]"
    by code_simp
  ultimately show ?thesis by simp
qed

theorem parse_patch_line_lookup_witness:
  "fc_line sample_file SideRight 2 = Some (rows sample_hunk ! 2)"
proof -
  have "rows sample_hunk ! 2 \<in> set (file_rows sample_file)"
    "row_number SideRight (rows sample_hunk ! 2) = Some 2" by code_simp+
  then show ?thesis
    using parse_patch_line_lookup [OF sample_parses sample_in_report, of SideRight 2 "rows sample_hunk ! 2"]
    by blast
qed

theorem parse_patch_limits_witness:
  "length [sample_file] \<le> max_files sample_limits \<and> total_file_rows [sample_file] \<le> max_rows sample_limits"
  using parse_patch_limits [OF sample_parses] by simp


theorem parse_hunk_print_witness:
  "parse_hunk sample_limits 3 (print_header sample_hunk) (print_rows (rows sample_hunk) @ [[]]) [] 0 =
     Inr (8, [[]], sample_hunk, 3)"
proof -
  have "0 + length (rows sample_hunk) \<le> max_rows sample_limits" by code_simp
  moreover have "[[]] = [] \<or> hd [[]] \<noteq> eof_marker" by code_simp
  moreover have "Suc 3 + length (print_rows (rows sample_hunk)) = 8" "0 + length (rows sample_hunk) = 3"
    by code_simp+
  ultimately show ?thesis
    using parse_hunk_print [OF sample_hunk_printable, of "[]" 0 sample_limits "[[]]" 3] by simp
qed

theorem eligible_lines_witness:
  "\<exists>h \<in> set (hunks sample_file). \<exists>r \<in> set (rows h). fc_line sample_file SideLeft 2 = Some r"
proof -
  have "eligible sample_file SideLeft 1 2" by code_simp
  from eligible_lines [OF sample_file_ok this] obtain h where "h \<in> set (hunks sample_file)"
    "\<forall>n. 1 \<le> n \<and> n \<le> 2 \<longrightarrow> (\<exists>r \<in> set (rows h). fc_line sample_file SideLeft n = Some r)" by blast
  then show ?thesis by (metis one_le_numeral order.refl)
qed

definition pathless_lines :: "bytes list" where
  "pathless_lines = [''diff --git a/x b/x'', ''new file mode 100644'', ''--- a/x'', ''+++ /dev/null'']"

text \<open>
  Claim C11. The path check of the parser runs before the added and deleted cases
  clear a path, so a patch that announces a new file, names an old path and
  \<open>/dev/null\<close> as the new one is accepted with a file that has no path at all,
  for which \<open>path()\<close> panics.
\<close>

theorem parse_patch_pathless_file:
  "\<exists>f. parse_patch sha (concat (map (\<lambda>l. l @ [LF]) pathless_lines)) sample_limits =
     Inr \<lparr>files = [f]\<rparr> \<and> fc_path f = None"
proof -
  let ?bs = "concat (map (\<lambda>l. l @ [LF]) pathless_lines)"
  define g where "g = (new_file (Some (RepoPath ''x'')) None)\<lparr>fc_kind := KAdded, new_mode := Some ''100644''\<rparr>"
  define f where "f = g\<lparr>old_path := None, fc_id := file_identity sha (g\<lparr>old_path := None\<rparr>)\<rparr>"
  have ls: "patch_lines ?bs = ''diff --git a/x b/x'' # tl pathless_lines"
    "check_lines sample_limits 0 (''diff --git a/x b/x'' # tl pathless_lines) = Inr ()"
    "\<not> max_bytes sample_limits < length ?bs" "git_header ''diff --git a/x b/x''"
    "\<not> max_files sample_limits \<le> 0" by code_simp+
  have hp: "header_paths (drop 11 ''diff --git a/x b/x'') 0 = Inr (Some (RepoPath ''x''), Some (RepoPath ''x''))"
    by code_simp
  have fl: "file_loop sample_limits (Suc 0) (tl pathless_lines)
      (new_file (Some (RepoPath ''x'')) (Some (RepoPath ''x''))) 0 = Inr (4, [], g, 0)"
    unfolding g_def by code_simp
  have ff: "finish_file sha 4 g [] = Inr f"
    by (simp add: finish_file_def settle_file_def Let_def g_def f_def new_file_def)
  have "files_loop sha sample_limits 0 (''diff --git a/x b/x'' # tl pathless_lines) [] [] 0 = Inr [f]"
    using ls(4,5) hp fl ff by simp
  then have "parse_patch sha ?bs sample_limits = Inr \<lparr>files = [f]\<rparr>"
    unfolding parse_patch_def using ls by simp
  moreover have "fc_path f = None" by (simp add: f_def g_def fc_path_def new_file_def)
  ultimately show ?thesis by blast
qed

end
