(* ===== verification/BTree.thy ===== *)
theory BTree
  imports Text
begin

text \<open>
  Ordered maps. A \<open>BTreeMap\<close> of the source is an association list kept in
  strictly increasing key order, because the code iterates over it; the
  operations are the ones the source calls. The locale \<open>key_map\<close> is the
  contract the clients use, and the sorted list is its instance.
\<close>

type_synonym ('k, 'v) btree = "('k \<times> 'v) list"

fun bt_insert :: "'k::linorder \<Rightarrow> 'v \<Rightarrow> ('k, 'v) btree \<Rightarrow> ('k, 'v) btree" where
  "bt_insert k v [] = [(k, v)]"
| "bt_insert k v ((a, b) # m) =
     (if k < a then (k, v) # (a, b) # m
      else if k = a then (k, v) # m
      else (a, b) # bt_insert k v m)"

definition bt_get :: "'k \<Rightarrow> ('k, 'v) btree \<Rightarrow> 'v option" where
  "bt_get k m = map_of m k"

definition bt_contains :: "'k \<Rightarrow> ('k, 'v) btree \<Rightarrow> bool" where
  "bt_contains k m \<longleftrightarrow> bt_get k m \<noteq> None"

text \<open>\<open>extend\<close>, and \<open>collect\<close> from an iterator of pairs: later pairs win.\<close>

definition bt_extend :: "('k::linorder, 'v) btree \<Rightarrow> ('k \<times> 'v) list \<Rightarrow> ('k, 'v) btree" where
  "bt_extend m kvs = fold (\<lambda>(k, v). bt_insert k v) kvs m"

definition bt_ok :: "('k::linorder, 'v) btree \<Rightarrow> bool" where
  "bt_ok m \<longleftrightarrow> sorted_wrt (<) (map fst m)"

lemma keys_bt_insert: "set (map fst (bt_insert k v m)) = insert k (set (map fst m))"
  by (induction k v m rule: bt_insert.induct) auto

lemma bt_get_insert_sorted:
  assumes "bt_ok m"
  shows "bt_get x (bt_insert k v m) = (if x = k then Some v else bt_get x m)"
  using assms
proof (induction k v m rule: bt_insert.induct)
  case (2 k v a b m)
  then show ?case by (auto simp: bt_get_def bt_ok_def)
qed (simp add: bt_get_def)

lemma bt_insert_sorted: "bt_ok m \<Longrightarrow> bt_ok (bt_insert k v m)"
proof (induction k v m rule: bt_insert.induct)
  case (2 k v a b m)
  then show ?case using keys_bt_insert [of k v m] by (force simp: bt_ok_def)
qed (simp add: bt_ok_def)

section \<open>The contract of a keyed map\<close>

locale key_map =
  fixes map_ok :: "'m \<Rightarrow> bool"
    and get :: "'k \<Rightarrow> 'm \<Rightarrow> 'v option"
    and put :: "'k \<Rightarrow> 'v \<Rightarrow> 'm \<Rightarrow> 'm"
  assumes get_put: "map_ok m \<Longrightarrow> get x (put k v m) = (if x = k then Some v else get x m)"
    and put_ok: "map_ok m \<Longrightarrow> map_ok (put k v m)"
begin

lemma fold_put_ok: "map_ok m \<Longrightarrow> map_ok (fold (\<lambda>(k, v). put k v) kvs m)"
  by (induction kvs arbitrary: m) (auto simp: put_ok)

lemma get_fold_put:
  "map_ok m \<Longrightarrow> get x (fold (\<lambda>(k, v). put k v) kvs m) =
     (case map_of (rev kvs) x of Some v \<Rightarrow> Some v | None \<Rightarrow> get x m)"
proof (induction kvs arbitrary: m)
  case Nil
  then show ?case by simp
next
  case (Cons kv kvs)
  then show ?case
    by (cases kv) (auto simp: get_put put_ok map_add_def split: option.splits)
qed

lemma put_other: "map_ok m \<Longrightarrow> x \<noteq> k \<Longrightarrow> get x (put k v m) = get x m"
  by (simp add: get_put)

end

interpretation bt: key_map bt_ok bt_get bt_insert
  by unfold_locales (simp_all add: bt_get_insert_sorted bt_insert_sorted)

lemma bt_ok_Nil [simp]: "bt_ok []"
  by (simp add: bt_ok_def)

lemma bt_get_Nil [simp]: "bt_get k [] = None"
  by (simp add: bt_get_def)

lemma bt_extend_ok: "bt_ok m \<Longrightarrow> bt_ok (bt_extend m kvs)"
  unfolding bt_extend_def by (rule bt.fold_put_ok)

lemma bt_get_extend:
  "bt_ok m \<Longrightarrow> bt_get x (bt_extend m kvs) =
     (case map_of (rev kvs) x of Some v \<Rightarrow> Some v | None \<Rightarrow> bt_get x m)"
  unfolding bt_extend_def by (rule bt.get_fold_put)

lemma bt_get_in: "bt_get k m = Some v \<Longrightarrow> (k, v) \<in> set m"
  by (simp add: bt_get_def map_of_SomeD)

lemma bt_in_get: "bt_ok m \<Longrightarrow> (k, v) \<in> set m \<Longrightarrow> bt_get k m = Some v"
  unfolding bt_get_def bt_ok_def
  by (rule map_of_is_SomeI) (use strict_sorted_iff in \<open>auto simp: strict_sorted_iff\<close>)

end
