(* ===== verification/Snapshot.thy ===== *)
theory Snapshot
  imports PatchParse BTree
begin

text \<open>
  The snapshot of \<open>crates/core/src/domain.rs\<close> and what hangs on it: the overview
  record of \<open>review_details.rs\<close>, the snapshot's identity, line validation and
  copying of a selection, local drafts, the context export of \<open>export.rs\<close>.
  SHA-256 (\<open>sha2\<close>) and JSON encoding (\<open>serde_json\<close>) are the fields of a
  record \<open>codec\<close>, a parameter of the definitions that hash. An \<open>f32\<close> that the
  code only stores is kept as its bit pattern.
\<close>

section \<open>Overview data\<close>

type_synonym f32_bits = nat

record release_file =
  rf_path :: str
  rf_additions :: nat
  rf_deletions :: nat
  rf_previous :: "str option"

record release =
  rel_tag :: "str option"
  rel_commit :: str
  rel_date :: "str option"
  rel_commits :: nat
  rel_files :: "release_file list"
  rel_notes :: "str option"
  rel_url :: "str option"
  rel_shas :: "str list"

record blamed_range =
  bl_start :: nat
  bl_end :: nat
  bl_release :: nat
  bl_commit :: str

type_synonym blame_read = "(str, blamed_range list option) btree"

datatype review_decision = Approved | ChangesRequested

record check =
  check_name :: str
  check_kind :: str
  check_status :: str
  check_conclusion :: "str option"
  check_url :: "str option"

record conversation_comment =
  cc_id :: nat
  cc_author :: str
  cc_body :: str
  cc_created_at :: "str option"

record overview =
  ov_description :: "str option"
  ov_author :: "str option"
  ov_decision :: "review_decision option"
  ov_checks :: "check list"
  ov_notices :: "str list"
  ov_captured_at :: "nat option"
  ov_conversation :: "conversation_comment list"
  ov_releases :: "release list"
  ov_blame :: blame_read

definition default_overview :: overview where
  "default_overview = \<lparr>ov_description = None, ov_author = None, ov_decision = None, ov_checks = [],
     ov_notices = [], ov_captured_at = None, ov_conversation = [], ov_releases = [], ov_blame = []\<rparr>"

section \<open>Snapshots\<close>

type_synonym identity_key =
  "str \<times> patch_report \<times> (repository_key \<times> nat \<times> str \<times> str \<times> str \<times> str) option"

record codec =
  sha256 :: "bytes \<Rightarrow> bytes"
  json_identity :: "identity_key \<Rightarrow> bytes"
  json_entire :: "entire_target option \<Rightarrow> bytes"
  json_releases :: "release list \<Rightarrow> bytes"

record snapshot =
  snap_id :: snapshot_id
  snap_title :: str
  snap_origin :: str
  snap_patch :: patch_report
  snap_remote :: "remote_target option"
  snap_comments :: "thread_comment list"
  snap_overview :: overview
  snap_warnings :: "str list"

definition identity_key_of :: "patch_report \<Rightarrow> remote_target option \<Rightarrow> str \<Rightarrow> identity_key" where
  "identity_key_of p remote origin =
     (origin, p, map_option (\<lambda>r. (rt_repository r, rt_pr r, target_tip r, comparison_base r, rt_head r,
        rt_account r)) remote)"

definition remote_tag :: "remote_target option \<Rightarrow> bytes" where
  "remote_tag remote =
     (case remote of None \<Rightarrow> identity_tag GITHUB | Some r \<Rightarrow> identity_tag (rt_provider r))"

definition identity_parts ::
  "'a codec_scheme \<Rightarrow> patch_report \<Rightarrow> remote_target option \<Rightarrow> str \<Rightarrow> bytes list" where
  "identity_parts c p remote origin =
     (let bs = json_identity c (identity_key_of p remote origin); tag = remote_tag remote in
      case remote of
        None \<Rightarrow> [tag, bs]
      | Some r \<Rightarrow> if rt_provider r = ENTIRE then [tag, bs, json_entire c (rt_entire r)] else [tag, bs])"

definition identity ::
  "'a codec_scheme \<Rightarrow> patch_report \<Rightarrow> remote_target option \<Rightarrow> str \<Rightarrow> snapshot_id" where
  "identity c p remote origin = SnapshotId (digest (sha256 c) (identity_parts c p remote origin))"

definition with_origin :: "'a codec_scheme \<Rightarrow> str \<Rightarrow> patch_report \<Rightarrow> remote_target option \<Rightarrow>
    thread_comment list \<Rightarrow> str \<Rightarrow> snapshot" where
  "with_origin c title p remote comments origin =
     \<lparr>snap_id = identity c p remote origin, snap_title = title, snap_origin = origin, snap_patch = p,
      snap_remote = remote, snap_comments = comments, snap_overview = default_overview,
      snap_warnings = []\<rparr>"

definition snapshot_new :: "'a codec_scheme \<Rightarrow> str \<Rightarrow> patch_report \<Rightarrow> remote_target option \<Rightarrow>
    thread_comment list \<Rightarrow> snapshot" where
  "snapshot_new c title p remote comments = with_origin c title p remote comments ''patch-bytes''"

definition verify_identity :: "'a codec_scheme \<Rightarrow> snapshot \<Rightarrow> bool" where
  "verify_identity c s \<longleftrightarrow> snap_id s = identity c (snap_patch s) (snap_remote s) (snap_origin s)"

definition snap_file :: "snapshot \<Rightarrow> file_id \<Rightarrow> file_change option" where
  "snap_file s i = List.find (\<lambda>f. fc_id f = i) (files (snap_patch s))"

definition validate_point :: "snapshot \<Rightarrow> source_point \<Rightarrow> str + patch_row" where
  "validate_point s p =
     failIf (snap_id s \<noteq> sp_snapshot p) ''source point comes from a different snapshot''
       (bindE (okE ''source line is not loaded''
          (Option.bind (snap_file s (sp_file p)) (\<lambda>f. fc_line f (sp_side p) (sp_line p)))) (\<lambda>r.
        failIf (\<not> is_char_boundary (row_text r) (byte_column p)) ''invalid UTF-8 source column'' (Inr r)))"

definition point_le :: "source_point \<Rightarrow> source_point \<Rightarrow> bool" where
  "point_le p q \<longleftrightarrow> sp_line p < sp_line q \<or> sp_line p = sp_line q \<and> byte_column p \<le> byte_column q"

text \<open>One turn of the copying loop, at line \<open>n\<close>.\<close>

definition copy_line :: "file_change \<Rightarrow> source_point \<Rightarrow> source_point \<Rightarrow> nat \<Rightarrow> str \<Rightarrow> str + str" where
  "copy_line f a b n out =
     bindE (okE ''selection includes unloaded context; choose a smaller range''
        (fc_line f (sp_side a) n)) (\<lambda>r.
       (let lo = (if n = sp_line a then byte_column a else 0);
            hi = (if n = sp_line b then byte_column b else length (row_text r)) in
        bindE (okE ''invalid source selection'' (str_get (row_text r) lo hi)) (\<lambda>t.
          Inr (out @ t @ (if n \<noteq> sp_line b then ending_bytes (row_ending r) else [])))))"

definition copy_selection :: "snapshot \<Rightarrow> source_selection \<Rightarrow> str + str" where
  "copy_selection s sel =
     failIf (sp_snapshot (sel_start sel) \<noteq> sp_snapshot (sel_end sel) \<or>
             sp_file (sel_start sel) \<noteq> sp_file (sel_end sel) \<or>
             sp_side (sel_start sel) \<noteq> sp_side (sel_end sel))
       ''selection spans multiple files, snapshots, or sides''
       (bindE (validate_point s (sel_start sel)) (\<lambda>_.
        bindE (validate_point s (sel_end sel)) (\<lambda>_.
          (let (a, b) = (if point_le (sel_start sel) (sel_end sel) then (sel_start sel, sel_end sel)
                         else (sel_end sel, sel_start sel)) in
           bindE (okE ''missing file'' (snap_file s (sp_file a))) (\<lambda>f.
             foldE (copy_line f a b) [sp_line a ..< Suc (sp_line b)] [])))))"

section \<open>Drafts and preferences\<close>

record draft =
  d_id :: draft_id
  d_snapshot :: snapshot_id
  d_file :: file_id
  d_side :: side
  d_start_line :: nat
  d_line :: nat
  d_file_level :: bool
  d_body :: str
  d_version :: nat
  d_saved_version :: nat
  d_published :: bool

definition is_saved :: "draft \<Rightarrow> bool" where
  "is_saved d \<longleftrightarrow> d_version d = d_saved_version d"

definition is_file_level :: "draft \<Rightarrow> bool" where
  "is_file_level d \<longleftrightarrow> d_file_level d"

record preferences =
  viewed :: "(str, bool) btree"

record saved_reply =
  reply_title :: str
  reply_body :: str

record settings =
  set_split :: bool
  set_wrap :: "bool option"
  font_size :: f32_bits
  dark :: bool
  set_theme :: "str option"
  rich :: bool
  rich_inline :: bool
  saved_replies :: "saved_reply list"

text \<open>The bit pattern of \<open>14.0f32\<close> is \<open>0x41600000\<close>.\<close>

definition default_settings :: settings where
  "default_settings = \<lparr>set_split = False, set_wrap = None, font_size = 0x41600000, dark = True,
     set_theme = None, rich = True, rich_inline = False, saved_replies = []\<rparr>"

section \<open>Context export\<close>

record context_export =
  schema_version :: nat
  ce_snapshot :: snapshot_id
  ce_title :: str
  source_path :: str
  source_path_bytes :: bytes
  ce_origin :: str
  ce_repository :: "repository_key option"
  reviewed_head :: "str option"
  ce_selection :: source_selection
  ce_text :: str
  ce_notes :: "str list"
  provenance :: str

definition export_selected ::
  "snapshot \<Rightarrow> source_selection \<Rightarrow> str list \<Rightarrow> str + context_export" where
  "export_selected s sel notes =
     bindE (copy_selection s sel) (\<lambda>t.
     failIf (1024 * 1024 < length t \<or> 1024 * 1024 < sum_list (map length notes))
       ''selected context is larger than 1 MiB''
       (bindE (okE ''selected source file is missing'' (snap_file s (sp_file (sel_start sel)))) (\<lambda>f.
        bindE (okE ''selected source side has no file path''
          (case sp_side (sel_start sel) of SideLeft \<Rightarrow> old_path f | SideRight \<Rightarrow> new_path f)) (\<lambda>p.
        Inr \<lparr>schema_version = 1, ce_snapshot = snap_id s, ce_title = snap_title s,
             source_path = path_display p, source_path_bytes = path_bytes p, ce_origin = snap_origin s,
             ce_repository = map_option rt_repository (snap_remote s),
             reviewed_head = map_option rt_head (snap_remote s),
             ce_selection = sel, ce_text = t, ce_notes = notes,
             provenance =
               ''User-selected source from diffz; no model or remote transmission performed''\<rparr>))))"

section \<open>What a copied selection holds\<close>

text \<open>The text of loaded lines \<open>m\<close> to \<open>n - 1\<close> of one side, with their endings.\<close>

definition loaded_line :: "file_change \<Rightarrow> side \<Rightarrow> nat \<Rightarrow> patch_row" where
  "loaded_line f s n = the (fc_line f s n)"

definition side_text :: "file_change \<Rightarrow> side \<Rightarrow> nat \<Rightarrow> nat \<Rightarrow> str" where
  "side_text f s m n = concat (map (\<lambda>k. row_text (loaded_line f s k) @
     ending_bytes (row_ending (loaded_line f s k))) [m..<n])"

definition text_between :: "file_change \<Rightarrow> side \<Rightarrow> source_point \<Rightarrow> source_point \<Rightarrow> str" where
  "text_between f s a b = drop (byte_column a)
     (side_text f s (sp_line a) (sp_line b) @ take (byte_column b) (row_text (loaded_line f s (sp_line b))))"

definition lines_loaded :: "file_change \<Rightarrow> side \<Rightarrow> nat \<Rightarrow> nat \<Rightarrow> bool" where
  "lines_loaded f s m n \<longleftrightarrow> list_all (\<lambda>k. fc_line f s k \<noteq> None) [m..<Suc n]"

lemma side_text_Cons:
  "m < n \<Longrightarrow> side_text f s m n = row_text (loaded_line f s m) @
     ending_bytes (row_ending (loaded_line f s m)) @ side_text f s (Suc m) n"
  by (simp add: side_text_def upt_conv_Cons)

lemma side_text_empty [simp]: "side_text f s m m = []"
  by (simp add: side_text_def)

lemma side_text_append: "k \<le> m \<Longrightarrow> m \<le> n \<Longrightarrow> side_text f s k m @ side_text f s m n = side_text f s k n"
proof -
  assume "k \<le> m" "m \<le> n"
  then have "[k..<n] = [k..<m] @ [m..<n]" by (simp add: sorted_wrt_upt_append)
  then show ?thesis by (simp add: side_text_def)
qed

lemma str_get_Some:
  "str_get t lo hi = Some u \<longleftrightarrow> lo \<le> hi \<and> is_char_boundary t lo \<and> is_char_boundary t hi \<and> u = slice lo hi t"
  by (auto simp: str_get_def)

text \<open>The lines after the first one, up to the last.\<close>

lemma copy_rest:
  assumes "sp_line a < m" "m \<le> sp_line b" "lines_loaded f (sp_side a) m (sp_line b)"
    and "is_char_boundary (row_text (loaded_line f (sp_side a) (sp_line b))) (byte_column b)"
  shows "foldE (copy_line f a b) [m ..< Suc (sp_line b)] out =
    Inr (out @ side_text f (sp_side a) m (sp_line b) @
      take (byte_column b) (row_text (loaded_line f (sp_side a) (sp_line b))))"
  using assms
proof (induction "sp_line b - m" arbitrary: m out)
  case 0
  then have m: "m = sp_line b" by simp
  then obtain r where "fc_line f (sp_side a) (sp_line b) = Some r"
    using 0 by (auto simp: lines_loaded_def)
  with 0 m show ?case
    by (simp add: copy_line_def loaded_line_def str_get_def slice_def)
next
  case (Suc k)
  then have m: "m < sp_line b" by simp
  have up: "[m ..< Suc (sp_line b)] = m # [Suc m ..< Suc (sp_line b)]"
    using m by (simp add: upt_conv_Cons)
  then obtain r where r: "fc_line f (sp_side a) m = Some r"
    using Suc.prems(3) by (auto simp: lines_loaded_def)
  then have "copy_line f a b m out = Inr (out @ row_text r @ ending_bytes (row_ending r))"
    using m Suc.prems(1) by (simp add: copy_line_def str_get_def)
  moreover have "lines_loaded f (sp_side a) (Suc m) (sp_line b)"
    using Suc.prems(3) up by (simp add: lines_loaded_def)
  ultimately show ?case
    using Suc.hyps(1) [of "Suc m"] Suc.hyps(2) Suc.prems m r
    by (simp add: up side_text_Cons loaded_line_def del: upt_Suc)
qed

lemma copy_all_lines:
  assumes "point_le a b" "lines_loaded f (sp_side a) (sp_line a) (sp_line b)"
    and "is_char_boundary (row_text (loaded_line f (sp_side a) (sp_line a))) (byte_column a)"
    and "is_char_boundary (row_text (loaded_line f (sp_side a) (sp_line b))) (byte_column b)"
  shows "foldE (copy_line f a b) [sp_line a ..< Suc (sp_line b)] [] = Inr (text_between f (sp_side a) a b)"
proof -
  have le: "sp_line a \<le> sp_line b" using assms(1) by (auto simp: point_le_def)
  then have up: "[sp_line a ..< Suc (sp_line b)] = sp_line a # [Suc (sp_line a) ..< Suc (sp_line b)]"
    by (simp add: upt_conv_Cons)
  with assms(2) obtain r where r: "fc_line f (sp_side a) (sp_line a) = Some r"
    by (auto simp: lines_loaded_def)
  have cl: "byte_column a \<le> length (row_text r)"
    using assms(3) r char_boundary_le by (simp add: loaded_line_def)
  show ?thesis
  proof (cases "sp_line a = sp_line b")
    case True
    with assms r show ?thesis
      by (simp add: copy_line_def str_get_def loaded_line_def text_between_def point_le_def slice_def
          drop_take Let_def)
  next
    case False
    then have "copy_line f a b (sp_line a) [] =
        Inr (drop (byte_column a) (row_text r) @ ending_bytes (row_ending r))"
      using assms(3) r cl by (simp add: copy_line_def str_get_def loaded_line_def slice_def)
    moreover have "lines_loaded f (sp_side a) (Suc (sp_line a)) (sp_line b)"
      using assms(2) up by (simp add: lines_loaded_def)
    ultimately show ?thesis
      using copy_rest [of a "Suc (sp_line a)" b f] assms(4) le False r cl
      by (simp add: up text_between_def side_text_Cons loaded_line_def del: upt_Suc)
  qed
qed

lemma copy_needs_lines:
  "foldE (copy_line f a b) ns out = Inr t \<Longrightarrow> list_all (\<lambda>k. fc_line f (sp_side a) k \<noteq> None) ns"
  by (induction ns arbitrary: out) (auto simp: bind_simps copy_line_def)

lemma validate_point_Inr:
  "validate_point s p = Inr r \<longleftrightarrow> snap_id s = sp_snapshot p \<and>
     (\<exists>f. snap_file s (sp_file p) = Some f \<and> fc_line f (sp_side p) (sp_line p) = Some r) \<and>
     is_char_boundary (row_text r) (byte_column p)"
  by (auto simp: validate_point_def bind_simps Option.bind_eq_Some_conv)

definition same_side :: "source_point \<Rightarrow> source_point \<Rightarrow> bool" where
  "same_side a b \<longleftrightarrow> sp_snapshot a = sp_snapshot b \<and> sp_file a = sp_file b \<and> sp_side a = sp_side b"

lemma copy_ordered:
  assumes "same_side a b" "snap_file s (sp_file a) = Some f" "point_le a b"
    and "validate_point s a = Inr ra" "validate_point s b = Inr rb"
  shows "foldE (copy_line f a b) [sp_line a ..< Suc (sp_line b)] [] = Inr out \<longleftrightarrow>
     lines_loaded f (sp_side a) (sp_line a) (sp_line b) \<and> out = text_between f (sp_side a) a b"
    (is "?copy = _ \<longleftrightarrow> ?loaded \<and> _")
proof -
  have "?copy = Inr (text_between f (sp_side a) a b)" if ?loaded
    using that assms
    by (intro copy_all_lines) (auto simp: validate_point_Inr same_side_def loaded_line_def)
  moreover have ?loaded if "?copy = Inr out"
    using copy_needs_lines [OF that] by (simp add: lines_loaded_def)
  ultimately show ?thesis by auto
qed

text \<open>
  The copy of two validated points, in either order: it succeeds exactly when
  every line between them is loaded, and gives the text between them.
\<close>

lemma copy_selection_iff:
  "copy_selection s \<lparr>sel_start = p, sel_end = q\<rparr> = Inr out \<longleftrightarrow>
     same_side p q \<and> (\<exists>r. validate_point s p = Inr r) \<and> (\<exists>r. validate_point s q = Inr r) \<and>
     (\<exists>f a b. snap_file s (sp_file p) = Some f \<and>
        (a, b) = (if point_le p q then (p, q) else (q, p)) \<and>
        lines_loaded f (sp_side p) (sp_line a) (sp_line b) \<and> out = text_between f (sp_side p) a b)"
proof (cases "same_side p q \<and> (\<exists>r. validate_point s p = Inr r) \<and> (\<exists>r. validate_point s q = Inr r)")
  case True
  then obtain rp rq f where v: "validate_point s p = Inr rp" "validate_point s q = Inr rq"
    "snap_file s (sp_file p) = Some f" "snap_file s (sp_file q) = Some f"
    by (auto simp: validate_point_Inr same_side_def)
  have s: "sp_snapshot p = sp_snapshot q" "sp_file p = sp_file q" "sp_side p = sp_side q"
    "same_side p q" "same_side q p"
    using True by (auto simp: same_side_def)
  show ?thesis
  proof (cases "point_le p q")
    case True
    with s v copy_ordered [of p q s f] show ?thesis by (auto simp: copy_selection_def)
  next
    case False
    then have "point_le q p" by (auto simp: point_le_def)
    with False s v copy_ordered [of q p s f] show ?thesis by (auto simp: copy_selection_def)
  qed
next
  case False
  then show ?thesis by (auto simp: copy_selection_def bind_simps same_side_def)
qed

lemma point_le_trans: "point_le a b \<Longrightarrow> point_le b c \<Longrightarrow> point_le a c"
  by (auto simp: point_le_def)

lemma text_between_append:
  assumes "point_le a b" "point_le b c"
    and "byte_column a \<le> length (row_text (loaded_line f s (sp_line a)))"
    and "byte_column b \<le> length (row_text (loaded_line f s (sp_line b)))"
  shows "text_between f s a b @ text_between f s b c = text_between f s a c"
proof -
  have le: "sp_line a \<le> sp_line b" "sp_line b \<le> sp_line c"
    using assms(1,2) by (auto simp: point_le_def)
  let ?T = "\<lambda>p. row_text (loaded_line f s (sp_line p))"
  let ?tail = "side_text f s (sp_line b) (sp_line c) @ take (byte_column c) (?T c)"
  have tail: "take (byte_column b) (?T b) @ drop (byte_column b) ?tail = ?tail"
  proof (cases "sp_line b = sp_line c")
    case True
    with assms(2) have "take (byte_column b) (?T b) = take (byte_column b) (take (byte_column c) (?T c))"
      by (simp add: point_le_def min_absorb1)
    with True show ?thesis by (simp only: side_text_empty append_Nil append_take_drop_id)
  next
    case False
    with le have "take (byte_column b) (?T b) = take (byte_column b) ?tail"
      using assms(4) by (simp add: side_text_Cons)
    then show ?thesis by (simp only: append_take_drop_id)
  qed
  have "byte_column a \<le> length (side_text f s (sp_line a) (sp_line b) @ take (byte_column b) (?T b))"
  proof (cases "sp_line a = sp_line b")
    case True
    with assms show ?thesis by (auto simp: point_le_def)
  next
    case False
    with le assms(3) show ?thesis by (simp add: side_text_Cons)
  qed
  then have "text_between f s a b @ text_between f s b c =
      drop (byte_column a) (side_text f s (sp_line a) (sp_line b) @ take (byte_column b) (?T b) @
        drop (byte_column b) ?tail)"
    by (simp add: text_between_def)
  then show ?thesis
    using le by (simp only: tail) (simp add: text_between_def side_text_append flip: append_assoc)
qed


section \<open>Properties\<close>


definition sample_codec :: codec where
  "sample_codec = \<lparr>sha256 = (\<lambda>_. []), json_identity = (\<lambda>k. fst k), json_entire = (\<lambda>_. []),
     json_releases = (\<lambda>rs. concat (map rel_commit rs))\<rparr>"

definition sample_change :: file_change where
  "sample_change =
     \<lparr>fc_id = FileId ''f1'', old_path = Some (RepoPath ''a.rs''), new_path = Some (RepoPath ''a.rs''),
      fc_kind = KModified, fc_content = CText, old_mode = None, new_mode = None, old_oid = None,
      new_oid = None,
      hunks = [\<lparr>old_start = 4, old_count = 2, new_start = 4, new_count = 3, section_text = [],
        rows = [\<lparr>old_line = Some 4, new_line = Some 4, row_text = ''let a'', row_ending = EndLf, row_kind = RContext\<rparr>,
                \<lparr>old_line = Some 5, new_line = None, row_text = ''gone'', row_ending = EndLf, row_kind = RRemoved\<rparr>,
                \<lparr>old_line = None, new_line = Some 5, row_text = ''fresh'', row_ending = EndCrLf, row_kind = RAdded\<rparr>,
                \<lparr>old_line = None, new_line = Some 6, row_text = ''last'', row_ending = EndLf, row_kind = RAdded\<rparr>]\<rparr>],
      metadata = []\<rparr>"

definition sample_snapshot :: snapshot where
  "sample_snapshot = snapshot_new sample_codec ''t'' \<lparr>files = [sample_change]\<rparr> None []"

lemma sample_identity: "identity sample_codec p r x = SnapshotId []"
  by (simp add: identity_def digest_def sample_codec_def)

lemma sample_snapshot_code [code]:
  "sample_snapshot = \<lparr>snap_id = SnapshotId [], snap_title = ''t'', snap_origin = ''patch-bytes'',
     snap_patch = \<lparr>files = [sample_change]\<rparr>, snap_remote = None, snap_comments = [],
     snap_overview = default_overview, snap_warnings = []\<rparr>"
  by (simp add: sample_snapshot_def snapshot_new_def with_origin_def sample_identity)

definition sample_point :: "nat \<Rightarrow> nat \<Rightarrow> source_point" where
  "sample_point l c = \<lparr>sp_snapshot = snap_id sample_snapshot, sp_file = FileId ''f1'',
     sp_side = SideRight, sp_line = l, byte_column = c\<rparr>"


text \<open>
  Copying a selection of two points of one file side succeeds exactly
  when both points are valid and every line between them is loaded; the result
  is the text between the two points with the original line endings, whichever
  of the two points comes first.
\<close>

theorem copy_selection_correct:
  assumes "validate_point s p = Inr rp" "validate_point s q = Inr rq" "same_side p q"
    and "snap_file s (sp_file p) = Some f" "point_le p q"
  shows "(copy_selection s \<lparr>sel_start = p, sel_end = q\<rparr> = Inr out \<longleftrightarrow>
           lines_loaded f (sp_side p) (sp_line p) (sp_line q) \<and> out = text_between f (sp_side p) p q) \<and>
         (copy_selection s \<lparr>sel_start = q, sel_end = p\<rparr> = Inr out \<longleftrightarrow>
           copy_selection s \<lparr>sel_start = p, sel_end = q\<rparr> = Inr out)"
proof -
  have same_pos: "point_le q p \<Longrightarrow> sp_line q = sp_line p \<and> byte_column q = byte_column p"
    using assms(5) by (auto simp: point_le_def)
  have eq: "same_side q p" "sp_file q = sp_file p" "sp_side q = sp_side p"
    using assms(3) by (auto simp: same_side_def)
  show ?thesis
    using assms eq same_pos
    by (cases "point_le q p") (auto simp: copy_selection_iff text_between_def)
qed

theorem copy_selection_correct_witness:
  "copy_selection sample_snapshot \<lparr>sel_start = sample_point 6 2, sel_end = sample_point 4 4\<rparr> =
     Inr (''a'' @ [LF] @ ''fresh'' @ [CR, LF] @ ''la'')"
proof -
  let ?p = "sample_point 4 4" and ?q = "sample_point 6 2"
  let ?r = "rows (hd (hunks sample_change))"
  have "validate_point sample_snapshot ?p = Inr (?r ! 0)" "validate_point sample_snapshot ?q = Inr (?r ! 3)"
    "same_side ?p ?q" "snap_file sample_snapshot (sp_file ?p) = Some sample_change" "point_le ?p ?q"
    by code_simp+
  note c = copy_selection_correct [OF this]
  have "lines_loaded sample_change (sp_side ?p) (sp_line ?p) (sp_line ?q)"
    "text_between sample_change (sp_side ?p) ?p ?q = ''a'' @ [LF] @ ''fresh'' @ [CR, LF] @ ''la''"
    by code_simp+
  with c show ?thesis by simp
qed

text \<open>
  Copies compose: for three points in order, the copy from the first
  to the last is the copy up to the middle point followed by the copy from it.
\<close>

theorem copy_selection_append:
  assumes "copy_selection s \<lparr>sel_start = p, sel_end = q\<rparr> = Inr t"
    and "copy_selection s \<lparr>sel_start = q, sel_end = r\<rparr> = Inr u"
    and "point_le p q" "point_le q r"
  shows "copy_selection s \<lparr>sel_start = p, sel_end = r\<rparr> = Inr (t @ u)"
proof -
  obtain f where f: "snap_file s (sp_file p) = Some f" and ss: "same_side p q" "same_side q r"
    and v: "\<exists>x. validate_point s p = Inr x" "\<exists>x. validate_point s q = Inr x" "\<exists>x. validate_point s r = Inr x"
    and l: "lines_loaded f (sp_side p) (sp_line p) (sp_line q)" "lines_loaded f (sp_side p) (sp_line q) (sp_line r)"
    and t: "t = text_between f (sp_side p) p q" "u = text_between f (sp_side p) q r"
    using assms by (auto simp: copy_selection_iff same_side_def)
  have le: "sp_line p \<le> sp_line q" "sp_line q \<le> sp_line r"
    using assms(3,4) by (auto simp: point_le_def)
  have "lines_loaded f (sp_side p) (sp_line p) (sp_line r)"
    using l le by (auto simp: lines_loaded_def list_all_iff simp del: upt_Suc)
  have col: "byte_column x \<le> length (row_text (loaded_line f (sp_side p) (sp_line x)))"
    if "validate_point s x = Inr y" "same_side p x" for x y
    using that f char_boundary_le by (auto simp: validate_point_Inr same_side_def loaded_line_def)
  have "text_between f (sp_side p) p q @ text_between f (sp_side p) q r = text_between f (sp_side p) p r"
    using v ss assms(3,4) by (intro text_between_append) (auto intro: col simp: same_side_def [of p p])
  with \<open>lines_loaded f (sp_side p) (sp_line p) (sp_line r)\<close> show ?thesis
    using f ss v t point_le_trans [OF assms(3,4)] by (auto simp: copy_selection_iff same_side_def)
qed

theorem copy_selection_append_witness:
  "copy_selection sample_snapshot \<lparr>sel_start = sample_point 4 0, sel_end = sample_point 6 4\<rparr> =
     Inr (''let a'' @ [LF] @ ''fr'' @ ''esh'' @ [CR, LF] @ ''last'')"
proof -
  have "copy_selection sample_snapshot \<lparr>sel_start = sample_point 4 0, sel_end = sample_point 5 2\<rparr> =
      Inr (''let a'' @ [LF] @ ''fr'')"
    "copy_selection sample_snapshot \<lparr>sel_start = sample_point 5 2, sel_end = sample_point 6 4\<rparr> =
      Inr (''esh'' @ [CR, LF] @ ''last'')"
    "point_le (sample_point 4 0) (sample_point 5 2)" "point_le (sample_point 5 2) (sample_point 6 4)"
    by code_simp+
  from copy_selection_append [OF this] show ?thesis by simp
qed

end
