(* ===== verification/Session.thy ===== *)
theory Session
  imports Snapshot "HOL-Library.Word"
begin

text \<open>
  The deterministic review state of \<open>crates/core/src/session.rs\<close> and the
  navigation clock of \<open>anchor.rs\<close>: the session record, the events, the reducer
  with its effects, and the draft operations the reducer shares with the input
  adapter. The reducer is a state machine; \<open>session_run\<close> is the relation between
  a state and every later one.
\<close>

section \<open>Anchors and the navigation clock\<close>

record viewport_anchor =
  va_point :: source_point
  viewport_y :: f32_bits
  horizontal :: f32_bits

datatype navigation_reason =
  NavOpen | NavFile | NavHunk | NavFind | NavThread | NavRestore | NavAcceptRevision | NavUserCollapse

datatype navigation_clock = NavigationClock (generation: "64 word")

definition user_input :: "navigation_clock \<Rightarrow> navigation_clock" where
  "user_input c = NavigationClock (generation c + 1)"

definition accepts :: "navigation_clock \<Rightarrow> 64 word \<Rightarrow> bool" where
  "accepts c g \<longleftrightarrow> generation c = g"

section \<open>Drafts\<close>

definition edit_draft :: "draft \<Rightarrow> str \<Rightarrow> str + (draft \<times> bool)" where
  "edit_draft d body =
     (if d_published d \<or> d_body d = body then Inr (d, False)
      else bindE (okE ''draft revision overflow'' (checked_add_u64 (d_version d) 1)) (\<lambda>next_version.
        Inr (d\<lparr>d_body := body, d_version := next_version\<rparr>, True)))"

definition acknowledge_save :: "draft \<Rightarrow> nat \<Rightarrow> draft" where
  "acknowledge_save d version =
     (if version \<le> d_version d then d\<lparr>d_saved_version := max (d_saved_version d) version\<rparr> else d)"

section \<open>The session and its reducer\<close>

record session =
  se_snapshot :: snapshot
  selected_file :: "file_id option"
  se_drafts :: "(draft_id, draft) btree"
  se_preferences :: preferences
  se_anchors :: "(str, viewport_anchor) btree"
  revision_offer :: "str option"
  last_error :: "str option"

datatype event =
    SelectFile file_id
  | EvNavigate source_point navigation_reason
  | EditDraft draft_id str
  | DraftSaved draft_id nat
  | RevisionOffered snapshot_id str
  | StoreFailed str
  | SaveAnchor viewport_anchor

datatype effect =
    PersistDraft draft
  | EffNavigate source_point navigation_reason
  | PersistPreferences

definition session_new :: "snapshot \<Rightarrow> session" where
  "session_new s =
     \<lparr>se_snapshot = s,
      selected_file = (case files (snap_patch s) of [] \<Rightarrow> None | f # _ \<Rightarrow> Some (fc_id f)),
      se_drafts = [], se_preferences = \<lparr>viewed = []\<rparr>, se_anchors = [], revision_offer = None,
      last_error = None\<rparr>"

definition reduce :: "session \<Rightarrow> event \<Rightarrow> session \<times> effect list" where
  "reduce st e =
     (case e of
        SelectFile i \<Rightarrow>
          (if snap_file (se_snapshot st) i \<noteq> None then st\<lparr>selected_file := Some i\<rparr> else st, [])
      | EvNavigate p reason \<Rightarrow>
          (st, if \<not> isl (validate_point (se_snapshot st) p) then [EffNavigate p reason] else [])
      | EditDraft i body \<Rightarrow>
          (case bt_get i (se_drafts st) of
             None \<Rightarrow> (st, [])
           | Some d \<Rightarrow>
               (case edit_draft d body of
                  Inr (d', True) \<Rightarrow> (st\<lparr>se_drafts := bt_insert i d' (se_drafts st)\<rparr>, [PersistDraft d'])
                | Inr (d', False) \<Rightarrow> (st\<lparr>se_drafts := bt_insert i d' (se_drafts st)\<rparr>, [])
                | Inl m \<Rightarrow> (st\<lparr>last_error := Some m\<rparr>, [])))
      | DraftSaved i version \<Rightarrow>
          (case bt_get i (se_drafts st) of
             None \<Rightarrow> (st, [])
           | Some d \<Rightarrow> (st\<lparr>se_drafts := bt_insert i (acknowledge_save d version) (se_drafts st)\<rparr>, []))
      | RevisionOffered current head \<Rightarrow>
          (if current = snap_id (se_snapshot st) \<and>
              (case snap_remote (se_snapshot st) of None \<Rightarrow> False | Some r \<Rightarrow> rt_head r \<noteq> head)
           then st\<lparr>revision_offer := Some head\<rparr> else st, [])
      | StoreFailed m \<Rightarrow> (st\<lparr>last_error := Some m\<rparr>, [])
      | SaveAnchor a \<Rightarrow>
          (if sp_snapshot (va_point a) = snap_id (se_snapshot st)
           then st\<lparr>se_anchors := bt_insert (file_key (sp_file (va_point a))) a (se_anchors st)\<rparr> else st,
           [PersistPreferences]))"

inductive session_run :: "session \<Rightarrow> session \<Rightarrow> bool" where
  run_refl: "session_run st st"
| run_step: "session_run st st' \<Longrightarrow> session_run st (fst (reduce st' e))"

section \<open>What the reducer keeps\<close>

definition draft_ok :: "draft \<Rightarrow> bool" where
  "draft_ok d \<longleftrightarrow> d_saved_version d \<le> d_version d \<and> d_version d \<le> u64_max"

definition session_ok :: "session \<Rightarrow> bool" where
  "session_ok st \<longleftrightarrow>
     bt_ok (se_drafts st) \<and> bt_ok (se_anchors st) \<and>
     (\<forall>i d. bt_get i (se_drafts st) = Some d \<longrightarrow> draft_ok d) \<and>
     (\<forall>i. selected_file st = Some i \<longrightarrow> snap_file (se_snapshot st) i \<noteq> None) \<and>
     (\<forall>k a. bt_get k (se_anchors st) = Some a \<longrightarrow>
        k = file_key (sp_file (va_point a)) \<and> sp_snapshot (va_point a) = snap_id (se_snapshot st)) \<and>
     (\<forall>h. revision_offer st = Some h \<longrightarrow>
        (\<exists>r. snap_remote (se_snapshot st) = Some r \<and> rt_head r \<noteq> h))"

text \<open>How a draft may change: its anchor never, its text only with a larger version.\<close>

definition draft_later :: "draft \<Rightarrow> draft \<Rightarrow> bool" where
  "draft_later d d' \<longleftrightarrow>
     (d_id d' = d_id d \<and> d_snapshot d' = d_snapshot d \<and> d_file d' = d_file d \<and> d_side d' = d_side d \<and>
      d_start_line d' = d_start_line d \<and> d_line d' = d_line d \<and> d_file_level d' = d_file_level d \<and>
      d_published d' = d_published d) \<and>
     d_version d \<le> d_version d' \<and> (d_version d' = d_version d \<longrightarrow> d_body d' = d_body d) \<and>
     d_saved_version d \<le> d_saved_version d' \<and>
     (d_published d \<longrightarrow> d_body d' = d_body d \<and> d_version d' = d_version d)"

lemma draft_later_refl [simp]: "draft_later d d"
  by (simp add: draft_later_def)

lemma draft_later_trans: "draft_later a b \<Longrightarrow> draft_later b c \<Longrightarrow> draft_later a c"
  unfolding draft_later_def by (metis le_antisym le_trans)

lemma edit_draft_later: "edit_draft d body = Inr (d', b) \<Longrightarrow> draft_later d d'"
  by (auto simp: edit_draft_def bind_simps checked_add_u64_Some draft_later_def split: if_splits)

lemma edit_draft_ok: "draft_ok d \<Longrightarrow> edit_draft d body = Inr (d', b) \<Longrightarrow> draft_ok d'"
  by (auto simp: edit_draft_def bind_simps checked_add_u64_Some draft_ok_def split: if_splits)

lemma edit_draft_changed: "edit_draft d body = Inr (d', True) \<Longrightarrow> d_body d' = body \<and> d_version d' = Suc (d_version d)"
  by (auto simp: edit_draft_def bind_simps checked_add_u64_Some split: if_splits)

lemma edit_draft_same: "edit_draft d body = Inr (d', False) \<Longrightarrow> d' = d"
  by (auto simp: edit_draft_def bind_simps split: if_splits)

lemma acknowledge_save_later: "draft_later d (acknowledge_save d v)"
  by (simp add: acknowledge_save_def draft_later_def)

lemma acknowledge_save_ok: "draft_ok d \<Longrightarrow> draft_ok (acknowledge_save d v)"
  by (simp add: acknowledge_save_def draft_ok_def)

lemmas draft_op_rules = edit_draft_later edit_draft_ok acknowledge_save_later acknowledge_save_ok

text \<open>Every event leaves the drafts as they were but for one, which it may replace.\<close>

lemma reduce_drafts:
  "se_drafts (fst (reduce st e)) = se_drafts st \<or>
   (\<exists>i d d'. bt_get i (se_drafts st) = Some d \<and> se_drafts (fst (reduce st e)) = bt_insert i d' (se_drafts st) \<and>
      draft_later d d' \<and> (draft_ok d \<longrightarrow> draft_ok d'))"
  by (auto simp: reduce_def draft_op_rules split: event.splits option.splits sum.splits bool.splits)
     (blast intro: draft_op_rules)+

lemma reduce_snapshot [simp]: "se_snapshot (fst (reduce st e)) = se_snapshot st"
  by (auto simp: reduce_def split: event.splits option.splits sum.splits bool.splits)

lemma run_snapshot: "session_run st st' \<Longrightarrow> se_snapshot st' = se_snapshot st"
  by (induction rule: session_run.induct) auto

lemma reduce_session_ok:
  assumes "session_ok st"
  shows "session_ok (fst (reduce st e))"
proof -
  have "bt_ok (se_drafts (fst (reduce st e))) \<and>
      (\<forall>i d. bt_get i (se_drafts (fst (reduce st e))) = Some d \<longrightarrow> draft_ok d)"
    using reduce_drafts [of st e] assms
    by (auto simp: session_ok_def bt.get_put bt.put_ok split: if_splits)
  moreover have "bt_ok (se_anchors (fst (reduce st e))) \<and>
      (\<forall>k a. bt_get k (se_anchors (fst (reduce st e))) = Some a \<longrightarrow>
        k = file_key (sp_file (va_point a)) \<and> sp_snapshot (va_point a) = snap_id (se_snapshot st))"
    using assms
    by (auto simp: reduce_def session_ok_def bt.get_put bt.put_ok
        split: event.splits option.splits sum.splits bool.splits if_splits)
  moreover have "(\<forall>i. selected_file (fst (reduce st e)) = Some i \<longrightarrow> snap_file (se_snapshot st) i \<noteq> None) \<and>
      (\<forall>h. revision_offer (fst (reduce st e)) = Some h \<longrightarrow>
        (\<exists>r. snap_remote (se_snapshot st) = Some r \<and> rt_head r \<noteq> h))"
    using assms
    by (auto simp: reduce_def session_ok_def split: event.splits option.splits sum.splits bool.splits)
  ultimately show ?thesis by (simp add: session_ok_def)
qed

lemma session_new_ok: "session_ok (session_new s)"
  by (auto simp: session_ok_def session_new_def snap_file_def split: list.splits)

lemma run_session_ok: "session_run st st' \<Longrightarrow> session_ok st \<Longrightarrow> session_ok st'"
  by (induction rule: session_run.induct) (auto intro: reduce_session_ok)

lemma reduce_draft_later:
  assumes "session_ok st" "bt_get i (se_drafts st) = Some d"
  shows "\<exists>d'. bt_get i (se_drafts (fst (reduce st e))) = Some d' \<and> draft_later d d'"
  using reduce_drafts [of st e] assms by (auto simp: session_ok_def bt.get_put)

lemma run_draft_later:
  assumes "session_run st st'" "session_ok st" "bt_get i (se_drafts st) = Some d"
  shows "\<exists>d'. bt_get i (se_drafts st') = Some d' \<and> draft_later d d'"
  using assms
proof (induction rule: session_run.induct)
  case (run_refl st)
  then show ?case by simp
next
  case (run_step st st' e)
  then obtain d' where d': "bt_get i (se_drafts st') = Some d'" "draft_later d d'" by blast
  moreover have "session_ok st'" using run_step run_session_ok by blast
  ultimately show ?case using reduce_draft_later draft_later_trans by metis
qed

definition sample_draft :: draft where
  "sample_draft = \<lparr>d_id = DraftId ''d1'', d_snapshot = SnapshotId [], d_file = FileId ''f1'', d_side = SideRight,
     d_start_line = 5, d_line = 6, d_file_level = False, d_body = ''why'', d_version = 3, d_saved_version = 2,
     d_published = False\<rparr>"

definition sample_session :: session where
  "sample_session = (session_new sample_snapshot)\<lparr>se_drafts := [(DraftId ''d1'', sample_draft)]\<rparr>"

lemma sample_session_ok: "session_ok sample_session"
  using session_new_ok [of sample_snapshot]
  by (auto simp: session_ok_def sample_session_def bt_ok_def bt_get_def sample_draft_def draft_ok_def u64_max_def
      split: if_splits)

section \<open>Properties\<close>



text \<open>
  Over any run of events a draft keeps its anchor and its published
  flag, its version only grows, two states with the same version hold the same
  text, and a published draft keeps its text.
\<close>

theorem session_draft_history:
  assumes "session_ok st" "session_run st st'" "bt_get i (se_drafts st) = Some d"
  shows "\<exists>d'. bt_get i (se_drafts st') = Some d' \<and>
     d_file d' = d_file d \<and> d_start_line d' = d_start_line d \<and> d_line d' = d_line d \<and>
     d_published d' = d_published d \<and> d_version d \<le> d_version d' \<and>
     (d_version d' = d_version d \<longrightarrow> d_body d' = d_body d) \<and>
     (d_published d \<longrightarrow> d_body d' = d_body d)"
  using run_draft_later [OF assms(2,1,3)] by (auto simp: draft_later_def)

theorem session_draft_history_witness:
  "\<exists>d'. bt_get (DraftId ''d1'') (se_drafts (fst (reduce sample_session (EditDraft (DraftId ''d1'') ''now'')))) = Some d' \<and>
     d_line d' = 6 \<and> 3 \<le> d_version d'"
proof -
  have d: "bt_get (DraftId ''d1'') (se_drafts sample_session) = Some sample_draft"
    by (simp add: sample_session_def bt_get_def)
  have "session_run sample_session (fst (reduce sample_session (EditDraft (DraftId ''d1'') ''now'')))"
    by (rule run_step [OF run_refl])
  from session_draft_history [OF sample_session_ok this d] show ?thesis
    by (auto simp: sample_draft_def)
qed

text \<open>
  An acknowledged save never marks newer text as saved: after the
  store acknowledges version \<open>v\<close> of a draft that was not saved, the draft counts
  as saved only if \<open>v\<close> is its current version, and an edit that changes the text
  is always handed to the store with its new version.
\<close>

theorem session_save_tracking:
  assumes "session_ok st" "bt_get i (se_drafts st) = Some d"
  shows "(\<not> is_saved d \<longrightarrow>
       (\<exists>d'. bt_get i (se_drafts (fst (reduce st (DraftSaved i v)))) = Some d' \<and> (is_saved d' \<longleftrightarrow> v = d_version d))) \<and>
     (\<not> d_published d \<and> body \<noteq> d_body d \<and> d_version d < u64_max \<longrightarrow>
       (\<exists>d'. reduce st (EditDraft i body) = (st\<lparr>se_drafts := bt_insert i d' (se_drafts st)\<rparr>, [PersistDraft d']) \<and>
          d_body d' = body \<and> d_version d' = d_version d + 1 \<and> \<not> is_saved d'))"
proof -
  have ok: "bt_ok (se_drafts st)" "draft_ok d" using assms by (auto simp: session_ok_def)
  show ?thesis
    using assms(2) ok
    by (auto simp: reduce_def bt.get_put is_saved_def acknowledge_save_def edit_draft_def checked_add_u64_def
        draft_ok_def)
qed

theorem session_save_tracking_witness:
  "\<exists>d'. bt_get (DraftId ''d1'') (se_drafts (fst (reduce sample_session (DraftSaved (DraftId ''d1'') 2)))) = Some d' \<and>
     \<not> is_saved d'"
proof -
  have d: "bt_get (DraftId ''d1'') (se_drafts sample_session) = Some sample_draft"
    by (simp add: sample_session_def bt_get_def)
  from session_save_tracking [OF sample_session_ok d, of 2 "''x''"] show ?thesis
    by (auto simp: is_saved_def sample_draft_def)
qed

text \<open>
  User input invalidates every scheduled navigation until the 64-bit
  counter has gone all the way round: after \<open>k\<close> inputs a token taken before them
  is accepted exactly when \<open>k\<close> is a multiple of \<open>2 ^ 64\<close>.
\<close>

theorem navigation_clock_invalidates:
  "accepts ((user_input ^^ k) c) (generation c) \<longleftrightarrow> 2 ^ 64 dvd k"
proof -
  have "generation ((user_input ^^ k) c) = generation c + of_nat k"
    by (induction k) (simp_all add: user_input_def add.assoc add.commute)
  then have "accepts ((user_input ^^ k) c) (generation c) \<longleftrightarrow> (of_nat k :: 64 word) = 0"
    by (simp add: accepts_def)
  then show ?thesis by (simp add: word_of_nat_eq_0_iff)
qed

end
