(* ===== verification/Review.thy ===== *)
theory Review
  imports Snapshot
begin

text \<open>
  Frozen review payloads, \<open>crates/core/src/review.rs\<close>, with the provider rules of
  \<open>provider.rs\<close> they are prepared under and the line links of \<open>source_link.rs\<close>.
  The trait \<open>ReviewRules\<close> is a record of its methods. A JSON value that the code
  keeps as raw text (\<open>RawValue\<close>) is that text.
\<close>

section \<open>Verdicts and prepared reviews\<close>

datatype verdict = Approve | RequestChanges | Comment

definition verdict_api :: "verdict \<Rightarrow> str" where
  "verdict_api v =
     (case v of Approve \<Rightarrow> ''APPROVE'' | RequestChanges \<Rightarrow> ''REQUEST_CHANGES'' | Comment \<Rightarrow> ''COMMENT'')"

definition remote_state :: "verdict \<Rightarrow> str" where
  "remote_state v =
     (case v of Approve \<Rightarrow> ''APPROVED'' | RequestChanges \<Rightarrow> ''CHANGES_REQUESTED'' | Comment \<Rightarrow> ''COMMENTED'')"

text \<open>A \<open>ReviewError\<close> of the source, or the panic of \<open>FileChange::path\<close>.\<close>

datatype review_error = ReviewError str | ReviewPanic

record prepared_comment =
  pc_draft :: draft_id
  pc_version :: nat
  pc_path :: str
  pc_position :: "str option"
  pc_body :: str
  pc_side :: side
  pc_start_line :: nat
  pc_line :: nat
  pc_file_level :: bool

record prepared_review =
  pr_id :: operation_id
  pr_snapshot :: snapshot_id
  pr_target :: remote_target
  pr_verdict :: verdict
  pr_summary :: str
  pr_comments :: "prepared_comment list"
  fingerprint :: str

record review_codec = codec +
  json_review :: "operation_id \<times> snapshot_id \<times> remote_target \<times> str \<times> (draft_id \<times> nat) list \<Rightarrow> bytes"

section \<open>The rules of a provider\<close>

record review_rules =
  rules_id :: provider_id
  rules_name :: str
  open_label :: str
  address_label :: str
  address_hint :: str
  address_help :: str
  write_flag :: str
  read_only_reason :: "str option"
  preview_note :: "str option"
  reopen_address :: "remote_target \<Rightarrow> str"
  source_link_unavailable_reason :: "str option"
  line_url :: "remote_target \<Rightarrow> str \<Rightarrow> str \<Rightarrow> nat \<Rightarrow> str"
  rules_supports :: "verdict \<Rightarrow> bool"
  rules_check :: "verdict \<Rightarrow> str \<Rightarrow> draft list \<Rightarrow> review_error + unit"
  rules_position :: "remote_target \<Rightarrow> file_change \<Rightarrow> draft \<Rightarrow> review_error + str option"
  rules_payload :: "prepared_review \<Rightarrow> str"
  marks_reviews :: bool

section \<open>Preparing and verifying a review\<close>

definition compute_fingerprint :: "'a review_codec_scheme \<Rightarrow> review_rules \<Rightarrow> prepared_review \<Rightarrow> str" where
  "compute_fingerprint c rules p =
     digest (sha256 c)
       [''review-v1'',
        json_review c (pr_id p, pr_snapshot p, pr_target p, rules_payload rules p,
          map (\<lambda>k. (pc_draft k, pc_version k)) (pr_comments p))]"

definition verify_review :: "'a review_codec_scheme \<Rightarrow> review_rules \<Rightarrow> prepared_review \<Rightarrow> bool" where
  "verify_review c rules p \<longleftrightarrow>
     rules_id rules = rt_provider (pr_target p) \<and> fingerprint p = compute_fingerprint c rules p"

text \<open>One turn of the loop over the drafts; the state is the comments so far and the ids seen.\<close>

definition prepare_draft :: "review_rules \<Rightarrow> snapshot \<Rightarrow> remote_target \<Rightarrow> draft \<Rightarrow>
    prepared_comment list \<times> draft_id list \<Rightarrow> review_error + (prepared_comment list \<times> draft_id list)" where
  "prepare_draft rules s target d st =
     failIf (d_id d \<in> set (snd st)) (ReviewError ''duplicate local draft'')
     (failIf (d_snapshot d \<noteq> snap_id s \<or> d_published d)
        (ReviewError ''draft targets another revision or has already been published'')
     (failIf (\<not> is_saved d) (ReviewError ''save every selected draft before continuing'')
     (failIf (trim (d_body d) = [] \<or> 64 * 1024 < length (d_body d))
        (ReviewError ''empty or oversized draft body'')
     (bindE (okE (ReviewError ''draft file is absent from this snapshot'') (snap_file s (d_file d))) (\<lambda>f.
      failIf (\<not> is_file_level d \<and> \<not> eligible f (d_side d) (d_start_line d) (d_line d))
        (ReviewError ''comment range must remain inside one canonical provider hunk for posting'')
     (bindE (okE ReviewPanic (fc_path f)) (\<lambda>fp.
      bindE (map_errE ReviewError (path_utf8 fp)) (\<lambda>path.
      bindE (rules_position rules target f d) (\<lambda>position.
      Inr (fst st @ [\<lparr>pc_draft = d_id d, pc_version = d_version d, pc_path = path, pc_position = position,
                     pc_body = d_body d, pc_side = d_side d, pc_start_line = d_start_line d,
                     pc_line = d_line d, pc_file_level = is_file_level d\<rparr>],
           d_id d # snd st))))))))))"

definition prepare :: "'a review_codec_scheme \<Rightarrow> review_rules \<Rightarrow> operation_id \<Rightarrow> snapshot \<Rightarrow> draft list \<Rightarrow>
    verdict \<Rightarrow> str \<Rightarrow> review_error + prepared_review" where
  "prepare c rules i s drafts verdict summary =
     bindE (okE (ReviewError ''offline source; a hosted review target is required'') (snap_remote s)) (\<lambda>target.
     failIf (rules_id rules \<noteq> rt_provider target) (ReviewError ''this review belongs to another provider'')
     (case read_only_reason rules of
        Some reason \<Rightarrow> Inl (ReviewError reason)
      | None \<Rightarrow>
     failIf (rt_compare target \<noteq> None)
       (ReviewError ''a compare is read-only; reviews can only be sent on a pull or merge request'')
     (bindE (rules_check rules verdict summary drafts) (\<lambda>_.
      failIf (\<not> verify_identity c s) (ReviewError ''snapshot identity failed verification'')
     (failIf (snap_warnings s \<noteq> [])
       (ReviewError ''coverage warnings mean the snapshot is incomplete; inspect diagnostics first'')
     (failIf (\<not> rt_open target) (ReviewError ''pull request is not open'')
     (failIf (pending_review target) (ReviewError ''another pending review exists; handle it separately'')
     (failIf (verdict \<noteq> Approve \<and> trim summary = []) (ReviewError ''this verdict needs a summary'')
     (failIf (64 * 1024 < length summary \<or> 100 < length drafts)
       (ReviewError ''summary or batch is beyond safety limits'')
     (bindE (foldE (prepare_draft rules s target) drafts ([], [])) (\<lambda>st.
      (let p = \<lparr>pr_id = i, pr_snapshot = snap_id s, pr_target = target, pr_verdict = verdict,
                pr_summary = summary, pr_comments = fst st, fingerprint = []\<rparr> in
       Inr (p\<lparr>fingerprint := compute_fingerprint c rules p\<rparr>)))))))))))))"

section \<open>Outbox states\<close>

datatype outbox_state = Prepared | InFlight | Confirmed | Rejected | UnknownOutcome

definition state_as_str :: "outbox_state \<Rightarrow> str" where
  "state_as_str s =
     (case s of Prepared \<Rightarrow> ''prepared'' | InFlight \<Rightarrow> ''in_flight'' | Confirmed \<Rightarrow> ''confirmed''
      | Rejected \<Rightarrow> ''rejected'' | UnknownOutcome \<Rightarrow> ''unknown'')"

definition state_parse :: "str \<Rightarrow> outbox_state option" where
  "state_parse s =
     (if s = ''prepared'' then Some Prepared else if s = ''in_flight'' then Some InFlight
      else if s = ''confirmed'' then Some Confirmed else if s = ''rejected'' then Some Rejected
      else if s = ''unknown'' then Some UnknownOutcome else None)"

definition can_transition :: "outbox_state \<Rightarrow> outbox_state \<Rightarrow> bool" where
  "can_transition a b \<longleftrightarrow>
     (a, b) \<in> {(Prepared, InFlight), (Prepared, Rejected), (InFlight, Confirmed), (InFlight, Rejected),
       (InFlight, UnknownOutcome), (UnknownOutcome, Confirmed)}"

record outbox_entry =
  oe_prepared :: prepared_review
  oe_state :: outbox_state
  baseline_review_ids :: "nat list"
  remote_id :: "nat option"
  diagnostic :: "str option"

section \<open>Line links\<close>

definition encode_byte :: "char \<Rightarrow> str" where
  "encode_byte b =
     (if is_ascii_alphanumeric b \<or> b \<in> set ''-._~/'' then [b]
      else [CHR ''%'', hex_upper (byte_of b div 16), hex_upper (byte_of b mod 16)])"

definition encode :: "str \<Rightarrow> str" where
  "encode v = concat (map encode_byte v)"

definition source_link :: "snapshot \<Rightarrow> source_point \<Rightarrow> review_rules option \<Rightarrow> str + str" where
  "source_link s p rules =
     failIf (sp_snapshot p \<noteq> snap_id s \<or> sp_line p = 0) ''Line belongs to a different review''
     (bindE (okE ''Hosted line link unavailable for local source'' (snap_remote s)) (\<lambda>t.
      bindE (okE (''No provider named '' @ provider_str (rt_provider t) @ '' is available for line links'')
        (case rules of None \<Rightarrow> None | Some r \<Rightarrow> if rules_id r = rt_provider t then Some r else None)) (\<lambda>r.
      case source_link_unavailable_reason r of
        Some reason \<Rightarrow> Inl reason
      | None \<Rightarrow>
      bindE (okE ''File is not in this review'' (snap_file s (sp_file p))) (\<lambda>f.
      (let (path, revision) = (case sp_side p of
             SideLeft \<Rightarrow> (old_path f, comparison_base t) | SideRight \<Rightarrow> (new_path f, rt_head t)) in
       bindE (okE ''This side has no source file'' path) (\<lambda>q.
       bindE (path_utf8 q) (\<lambda>u. Inr (line_url r t u revision (sp_line p)))))))))"

section \<open>What the rules of a provider promise\<close>

text \<open>
  The fingerprint is computed before it is stored in the review, and checked
  after: preparation relies on the payload not reading the stored fingerprint,
  and on positions that only fail for line comments outside the diff.
\<close>

locale review_contract =
  fixes rules :: review_rules
  assumes payload_ignores_fingerprint: "rules_payload rules (p\<lparr>fingerprint := x\<rparr>) = rules_payload rules p"
begin

lemma compute_fingerprint_stored:
  "compute_fingerprint c rules (p\<lparr>fingerprint := x\<rparr>) = compute_fingerprint c rules p"
  by (simp add: compute_fingerprint_def payload_ignores_fingerprint)

lemma fingerprint_verifies:
  "rules_id rules = rt_provider (pr_target p) \<Longrightarrow>
   verify_review c rules (p\<lparr>fingerprint := compute_fingerprint c rules p\<rparr>)"
  by (simp add: verify_review_def compute_fingerprint_stored)

end

text \<open>One prepared comment against the draft it froze.\<close>

definition comment_of :: "snapshot \<Rightarrow> draft \<Rightarrow> prepared_comment \<Rightarrow> bool" where
  "comment_of s d k \<longleftrightarrow>
     pc_draft k = d_id d \<and> pc_version k = d_version d \<and> pc_body k = d_body d \<and> pc_side k = d_side d \<and>
     pc_start_line k = d_start_line d \<and> pc_line k = d_line d \<and> pc_file_level k = d_file_level d \<and>
     d_snapshot d = snap_id s \<and> \<not> d_published d \<and> is_saved d \<and> trim (d_body d) \<noteq> [] \<and>
     (\<exists>f p. snap_file s (d_file d) = Some f \<and> fc_path f = Some p \<and> pc_path k = path_bytes p \<and>
        (d_file_level d \<or> eligible f (d_side d) (d_start_line d) (d_line d)))"

lemma path_utf8_Inr: "path_utf8 p = Inr u \<longleftrightarrow> valid_utf8 (path_bytes p) \<and> u = path_bytes p"
  by (auto simp: path_utf8_def bind_simps from_utf8_def)

lemma prepare_draft_Inr:
  assumes "prepare_draft rules s target d st = Inr st'"
  shows "d_id d \<notin> set (snd st) \<and> snd st' = d_id d # snd st \<and>
    (\<exists>k. fst st' = fst st @ [k] \<and> comment_of s d k)"
  using assms
  by (auto simp: prepare_draft_def bind_simps comment_of_def path_utf8_Inr is_file_level_def)

lemma prepare_drafts:
  assumes "foldE (prepare_draft rules s target) drafts (ks, seen) = Inr (ks', seen')"
  shows "distinct (map d_id drafts) \<and> set (map d_id drafts) \<inter> set seen = {} \<and>
    (\<exists>new. ks' = ks @ new \<and> list_all2 (comment_of s) drafts new)"
  using assms
proof (induction drafts arbitrary: ks seen)
  case Nil
  then show ?case by simp
next
  case (Cons d ds)
  then obtain st where st: "prepare_draft rules s target d (ks, seen) = Inr st"
    "foldE (prepare_draft rules s target) ds (fst st, snd st) = Inr (ks', seen')"
    by (auto simp: bind_simps)
  from prepare_draft_Inr [OF st(1)] obtain k where
    k: "d_id d \<notin> set seen" "snd st = d_id d # seen" "fst st = ks @ [k]" "comment_of s d k" by auto
  from Cons.IH [OF st(2)] obtain new where
    "distinct (map d_id ds)" "set (map d_id ds) \<inter> set (snd st) = {}"
    "ks' = fst st @ new" "list_all2 (comment_of s) ds new" by auto
  with k show ?case by auto
qed

lemma prepare_Inr:
  assumes "prepare c rules i s drafts v summary = Inr p"
  obtains target ks seen where "snap_remote s = Some target" "rules_id rules = rt_provider target"
    "read_only_reason rules = None" "rt_compare target = None" "verify_identity c s"
    "snap_warnings s = []" "rt_open target" "\<not> pending_review target"
    "v = Approve \<or> trim summary \<noteq> []" "length drafts \<le> 100"
    "foldE (prepare_draft rules s target) drafts ([], []) = Inr (ks, seen)"
    "p = (let q = \<lparr>pr_id = i, pr_snapshot = snap_id s, pr_target = target, pr_verdict = v,
            pr_summary = summary, pr_comments = ks, fingerprint = []\<rparr> in
          q\<lparr>fingerprint := compute_fingerprint c rules q\<rparr>)"
  using assms by (auto simp: prepare_def bind_simps Let_def split: option.splits)

context review_contract
begin

lemma prepare_frozen:
  assumes "prepare c rules i s drafts v summary = Inr p"
  shows "verify_review c rules p \<and> verify_identity c s \<and> snap_remote s = Some (pr_target p) \<and>
     pr_snapshot p = snap_id s \<and> pr_id p = i \<and> pr_verdict p = v \<and> pr_summary p = summary \<and>
     rt_open (pr_target p) \<and> \<not> pending_review (pr_target p) \<and> rt_compare (pr_target p) = None \<and>
     snap_warnings s = [] \<and> distinct (map d_id drafts) \<and> list_all2 (comment_of s) drafts (pr_comments p)"
proof -
  from assms obtain target ks seen where t: "snap_remote s = Some target" "rules_id rules = rt_provider target"
    "rt_compare target = None" "verify_identity c s" "snap_warnings s = []" "rt_open target"
    "\<not> pending_review target" "foldE (prepare_draft rules s target) drafts ([], []) = Inr (ks, seen)"
    and p: "p = (let q = \<lparr>pr_id = i, pr_snapshot = snap_id s, pr_target = target, pr_verdict = v,
            pr_summary = summary, pr_comments = ks, fingerprint = []\<rparr> in
          q\<lparr>fingerprint := compute_fingerprint c rules q\<rparr>)"
    by (rule prepare_Inr)
  have "verify_review c rules p"
    using t(2) unfolding p Let_def by (intro fingerprint_verifies) simp_all
  with t p prepare_drafts [OF t(8)] show ?thesis by (simp add: Let_def)
qed

end

section \<open>The outbox lifecycle\<close>

definition state_rank :: "outbox_state \<Rightarrow> nat" where
  "state_rank s = (case s of Prepared \<Rightarrow> 0 | InFlight \<Rightarrow> 1 | UnknownOutcome \<Rightarrow> 2 | Confirmed \<Rightarrow> 3 | Rejected \<Rightarrow> 3)"

lemma can_transition_rank: "can_transition a b \<Longrightarrow> state_rank a < state_rank b"
  by (auto simp: can_transition_def state_rank_def)

lemma rank_bound: "state_rank s \<le> 3"
  by (cases s) (simp_all add: state_rank_def)

fun lifecycle :: "outbox_state list \<Rightarrow> bool" where
  "lifecycle (a # b # r) \<longleftrightarrow> can_transition a b \<and> lifecycle (b # r)"
| "lifecycle _ \<longleftrightarrow> True"

lemma lifecycle_ranks: "lifecycle ss \<Longrightarrow> sorted_wrt (<) (map state_rank ss)"
proof (induction ss rule: lifecycle.induct)
  case (1 a b r)
  then show ?case using can_transition_rank [of a b] by fastforce
qed auto

lemma ranks_length:
  "sorted_wrt (<) ns \<Longrightarrow> \<forall>n \<in> set ns. n \<le> k \<Longrightarrow> length ns \<le> Suc k" for ns :: "nat list"
proof -
  assume "sorted_wrt (<) ns" "\<forall>n \<in> set ns. n \<le> k"
  then have "distinct ns" "set ns \<subseteq> {..k}" by (auto simp: strict_sorted_iff)
  then show ?thesis using card_mono [of "{..k}" "set ns"] by (simp add: distinct_card)
qed



section \<open>Properties\<close>

text \<open>
  The fingerprint of a verified review binds what was previewed: two
  verified reviews with the same fingerprint have the same encoded operation id,
  snapshot, target, payload and draft versions, or SHA-256 collides.
\<close>

theorem fingerprint_binds:
  assumes "verify_review c rules p" "verify_review c rules q" "fingerprint p = fingerprint q"
    and "\<And>k. length (json_review c k) < 2 ^ 64"
  shows "json_review c (pr_id p, pr_snapshot p, pr_target p, rules_payload rules p,
           map (\<lambda>k. (pc_draft k, pc_version k)) (pr_comments p)) =
         json_review c (pr_id q, pr_snapshot q, pr_target q, rules_payload rules q,
           map (\<lambda>k. (pc_draft k, pc_version k)) (pr_comments q)) \<or>
         (\<exists>x y. x \<noteq> y \<and> sha256 c x = sha256 c y)"
proof -
  let ?parts = "\<lambda>r. [''review-v1'', json_review c (pr_id r, pr_snapshot r, pr_target r, rules_payload rules r,
    map (\<lambda>k. (pc_draft k, pc_version k)) (pr_comments r))]"
  have "digest (sha256 c) (?parts p) = digest (sha256 c) (?parts q)"
    using assms(1-3) by (simp add: verify_review_def compute_fingerprint_def)
  moreover have "\<forall>x \<in> set (?parts p) \<union> set (?parts q). length x < 2 ^ 64"
    using assms(4) by simp
  ultimately show ?thesis using digest_parts by blast
qed

definition sample_review_codec :: review_codec where
  "sample_review_codec = \<lparr>sha256 = (\<lambda>_. []), json_identity = (\<lambda>k. fst k), json_entire = (\<lambda>_. []),
     json_releases = (\<lambda>_. []), json_review = (\<lambda>k. [])\<rparr>"

definition sample_target :: remote_target where
  "sample_target = \<lparr>rt_provider = GITHUB, rt_repository = \<lparr>repo_host = ''github.com'', repo_id = 7,
     repo_owner = ''o'', repo_name = ''r''\<rparr>, rt_account = ''me'', rt_pr = 12, target_tip = ''t1'',
     comparison_base = ''b1'', rt_head = ''h1'', rt_open = True, rt_draft = False, rt_merged = False,
     pending_review = False, rt_compare = None, rt_entire = None\<rparr>"

definition plain_rules :: review_rules where
  "plain_rules = \<lparr>rules_id = GITHUB, rules_name = [], open_label = [], address_label = [], address_hint = [],
     address_help = [], write_flag = [], read_only_reason = None, preview_note = None, reopen_address = (\<lambda>_. []),
     source_link_unavailable_reason = None, line_url = (\<lambda>_ _ _ _. []), rules_supports = (\<lambda>_. True),
     rules_check = (\<lambda>_ _ _. Inr ()), rules_position = (\<lambda>_ _ _. Inr None), rules_payload = pr_summary,
     marks_reviews = False\<rparr>"

definition sample_review :: "str \<Rightarrow> prepared_review" where
  "sample_review summary = \<lparr>pr_id = OperationId ''op'', pr_snapshot = SnapshotId [], pr_target = sample_target,
     pr_verdict = Comment, pr_summary = summary, pr_comments = [], fingerprint = []\<rparr>"

theorem fingerprint_binds_witness:
  "verify_review sample_review_codec plain_rules (sample_review ''a'') \<and>
   (json_review sample_review_codec (OperationId ''op'', SnapshotId [], sample_target, ''a'', []) =
    json_review sample_review_codec (OperationId ''op'', SnapshotId [], sample_target, ''b'', []) \<or>
   (\<exists>x y. x \<noteq> y \<and> sha256 sample_review_codec x = sha256 sample_review_codec y))"
proof -
  have v: "verify_review sample_review_codec plain_rules (sample_review x)" for x
    by (simp add: verify_review_def plain_rules_def sample_review_def sample_target_def compute_fingerprint_def
        digest_def sample_review_codec_def)
  have "length (json_review sample_review_codec k) < 2 ^ 64" for k
    by (simp add: sample_review_codec_def)
  from fingerprint_binds [OF v v _ this, of "''a''" "''b''"] v [of "''a''"] show ?thesis
    by (simp add: sample_review_def plain_rules_def)
qed

text \<open>
  The lifecycle of an operation is a short path that never returns:
  whatever sequence of moves the store admits, no state is entered twice, there
  are at most three moves, nothing follows a confirmed or rejected state, and an
  operation enters the sending state only as its first move from prepared.
\<close>

theorem lifecycle_no_return:
  assumes "lifecycle ss"
  shows "distinct ss \<and> length ss \<le> 4 \<and>
     (\<forall>i < length ss. ss ! i \<in> {Confirmed, Rejected} \<longrightarrow> i = length ss - 1) \<and>
     (\<forall>i. Suc i < length ss \<and> ss ! Suc i = InFlight \<longrightarrow> ss ! i = Prepared \<and> i = 0)"
proof -
  have sorted: "sorted_wrt (<) (map state_rank ss)" by (rule lifecycle_ranks [OF assms])
  then have "distinct ss" by (metis distinct_map strict_sorted_iff)
  moreover have "length ss \<le> 4"
    using ranks_length [OF sorted, of 3] rank_bound by auto
  moreover have "i = length ss - 1" if "i < length ss" "ss ! i \<in> {Confirmed, Rejected}" for i
  proof (rule ccontr)
    assume "i \<noteq> length ss - 1"
    with that(1) have "state_rank (ss ! i) < state_rank (ss ! Suc i)"
      using sorted sorted_wrt_nth_less [OF sorted, of i "Suc i"] by simp
    with that(2) rank_bound [of "ss ! Suc i"] show False by (auto simp: state_rank_def)
  qed
  moreover have "ss ! i = Prepared \<and> i = 0" if i: "Suc i < length ss" "ss ! Suc i = InFlight" for i
  proof -
    have r: "state_rank (ss ! j) < state_rank (ss ! k)" if "j < k" "k < length ss" for j k
      using sorted_wrt_nth_less [OF sorted, of j k] that by simp
    have "state_rank (ss ! i) < 1" using r [of i "Suc i"] i by (simp add: state_rank_def)
    moreover have "i = 0"
    proof (rule ccontr)
      assume "i \<noteq> 0"
      then show False using r [of "i - 1" i] i \<open>state_rank (ss ! i) < 1\<close> by simp
    qed
    ultimately show ?thesis by (cases "ss ! i") (simp_all add: state_rank_def)
  qed
  ultimately show ?thesis by blast
qed

theorem lifecycle_no_return_witness:
  "distinct [Prepared, InFlight, UnknownOutcome, Confirmed] \<and>
   length [Prepared, InFlight, UnknownOutcome, Confirmed] \<le> 4"
proof -
  have "lifecycle [Prepared, InFlight, UnknownOutcome, Confirmed]" by code_simp
  from lifecycle_no_return [OF this] show ?thesis by blast
qed

text \<open>The stored name of a state reads back as the state, and nothing else is a state.\<close>

theorem state_roundtrip: "state_parse t = Some s \<longleftrightarrow> t = state_as_str s"
  by (cases s) (auto simp: state_parse_def state_as_str_def)

end
