(* ===== verification/Store.thy ===== *)
theory Store
  imports Session Review
begin

text \<open>
  The durable store of \<open>crates/adapters/src/store.rs\<close> over the tables of
  \<open>schema.sql\<close>. A table is the list of its rows in rowid order; a statement of the
  source is the list operation it performs, and a transaction that fails returns
  an error and no new state. What JSON text (\<open>serde_json\<close>) and compressed data
  (\<open>flate2\<close>) look like is not fixed: columns hold values of a type \<open>'j\<close> that the
  fields of the record \<open>json\<close> write and read. \<open>json_ok\<close> is what the code relies
  on, that written values read back.
\<close>

section \<open>Columns\<close>

datatype store_error = Message str | IoError | SqlError | JsonError | PatchFailed patch_error | AdapterPanic

definition i64_max :: nat where
  "i64_max = 9223372036854775807"

text \<open>\<open>n as i64\<close> of a \<open>u64\<close>.\<close>

definition as_i64 :: "nat \<Rightarrow> int" where
  "as_i64 n = (if n \<le> i64_max then int n else int n - 2 ^ 64)"

datatype 'j sql_value = SqlText 'j | SqlBlob 'j | SqlOther

record saved_view =
  sv_revision :: nat
  review_summary :: str
  review_verdict :: "verdict option"
  sv_preferences :: preferences
  sv_anchors :: "(str, viewport_anchor) btree"
  sv_selected_file :: "file_id option"

definition default_view :: saved_view where
  "default_view = \<lparr>sv_revision = 0, review_summary = [], review_verdict = None,
     sv_preferences = \<lparr>viewed = []\<rparr>, sv_anchors = [], sv_selected_file = None\<rparr>"

record 'j json =
  enc_snapshot :: "snapshot \<Rightarrow> 'j"
  dec_snapshot :: "'j \<Rightarrow> snapshot option"
  enc_draft :: "draft \<Rightarrow> 'j"
  dec_draft :: "'j \<Rightarrow> draft option"
  enc_view :: "saved_view \<Rightarrow> 'j"
  dec_view :: "'j \<Rightarrow> saved_view option"
  enc_entry :: "outbox_entry \<Rightarrow> 'j"
  dec_entry :: "'j \<Rightarrow> outbox_entry option"
  enc_blame :: "blamed_range list \<Rightarrow> 'j"
  dec_blame :: "'j \<Rightarrow> blamed_range list option"
  enc_settings :: "settings \<Rightarrow> 'j"
  dec_settings :: "'j \<Rightarrow> settings option"
  deflate :: "'j \<Rightarrow> 'j"
  inflate :: "'j \<Rightarrow> 'j option"
  extract_snapshot :: "'j \<Rightarrow> str option option"

text \<open>\<open>read_blame\<close>: a snapshot is written without the paths whose blame was not read.\<close>

definition written_snapshot :: "snapshot \<Rightarrow> snapshot" where
  "written_snapshot s = s\<lparr>snap_overview := (snap_overview s)
     \<lparr>ov_blame := filter (\<lambda>(p, b). b \<noteq> None) (ov_blame (snap_overview s))\<rparr>\<rparr>"

definition json_ok :: "'j json \<Rightarrow> bool" where
  "json_ok k \<longleftrightarrow>
     (\<forall>s. dec_snapshot k (enc_snapshot k s) = Some (written_snapshot s)) \<and>
     (\<forall>d. dec_draft k (enc_draft k d) = Some d) \<and>
     (\<forall>v. dec_view k (enc_view k v) = Some v) \<and>
     (\<forall>e. dec_entry k (enc_entry k e) = Some e) \<and>
     (\<forall>b. dec_blame k (enc_blame k b) = Some b) \<and>
     (\<forall>s. dec_settings k (enc_settings k s) = Some s) \<and>
     (\<forall>j. inflate k (deflate k j) = Some j) \<and>
     (\<forall>e. extract_snapshot k (enc_entry k e) = Some (Some (snapshot_key (pr_snapshot (oe_prepared e)))))"

section \<open>Tables\<close>

record 'j snapshot_row =
  sr_id :: str
  sr_title :: str
  sr_data :: "'j sql_value"
  sr_updated_at :: int

record 'j blame_row =
  br_snapshot_id :: str
  br_path :: str
  br_releases_key :: str
  br_data :: 'j

record 'j draft_row =
  dr_id :: str
  dr_snapshot_id :: str
  dr_version :: int
  dr_data :: 'j
  dr_published :: bool

record 'j view_row =
  vr_snapshot_id :: str
  vr_revision :: int
  vr_data :: 'j

record 'j outbox_row =
  or_id :: str
  or_state :: str
  or_data :: 'j
  or_updated_at :: int

record 'j db =
  snapshots_t :: "'j snapshot_row list"
  snapshot_blame_t :: "'j blame_row list"
  drafts_t :: "'j draft_row list"
  views_t :: "'j view_row list"
  outbox_t :: "'j outbox_row list"
  hidden_recents_t :: "str list"
  settings_t :: "(str \<times> 'j) list"

definition empty_db :: "'j db" where
  "empty_db = \<lparr>snapshots_t = [], snapshot_blame_t = [], drafts_t = [], views_t = [], outbox_t = [],
     hidden_recents_t = [], settings_t = []\<rparr>"

text \<open>\<open>SELECT ... WHERE key=?\<close>, \<open>UPDATE ... WHERE key=?\<close> and \<open>INSERT ... ON CONFLICT DO UPDATE\<close>.\<close>

definition tb_get :: "('r \<Rightarrow> 'k) \<Rightarrow> 'k \<Rightarrow> 'r list \<Rightarrow> 'r option" where
  "tb_get key x rs = List.find (\<lambda>r. key r = x) rs"

definition tb_update :: "('r \<Rightarrow> 'k) \<Rightarrow> 'k \<Rightarrow> ('r \<Rightarrow> 'r) \<Rightarrow> 'r list \<Rightarrow> 'r list" where
  "tb_update key x g rs = map (\<lambda>r. if key r = x then g r else r) rs"

definition tb_upsert :: "('r \<Rightarrow> 'k) \<Rightarrow> 'r \<Rightarrow> ('r \<Rightarrow> 'r) \<Rightarrow> 'r list \<Rightarrow> 'r list" where
  "tb_upsert key new g rs =
     (if tb_get key (key new) rs = None then rs @ [new] else tb_update key (key new) g rs)"

section \<open>Snapshots and release attribution\<close>

definition releases_key :: "'a codec_scheme \<Rightarrow> release list \<Rightarrow> str" where
  "releases_key c rs = digest (sha256 c) [''releases-v1'', json_releases c rs]"

definition put_snapshot ::
  "'a codec_scheme \<Rightarrow> 'j json \<Rightarrow> int \<Rightarrow> snapshot \<Rightarrow> 'j db \<Rightarrow> store_error + 'j db" where
  "put_snapshot c k now s db =
     failIf (\<not> verify_identity c s) (Message ''snapshot identity and its source data do not agree'')
     (let i = snapshot_key (snap_id s); data = SqlBlob (deflate k (enc_snapshot k s)) in
      Inr (db\<lparr>snapshot_blame_t := filter (\<lambda>r. br_snapshot_id r \<noteq> i) (snapshot_blame_t db),
              snapshots_t := tb_upsert sr_id
                \<lparr>sr_id = i, sr_title = snap_title s, sr_data = data, sr_updated_at = now\<rparr>
                (\<lambda>r. r\<lparr>sr_title := snap_title s, sr_data := data, sr_updated_at := now\<rparr>)
                (snapshots_t db)\<rparr>))"

definition save_blame_row :: "'j json \<Rightarrow> str \<Rightarrow> str \<Rightarrow> str \<times> blamed_range list option \<Rightarrow>
    'j db \<Rightarrow> store_error + 'j db" where
  "save_blame_row k i key found db =
     (case snd found of
        None \<Rightarrow> Inr db
      | Some ranges \<Rightarrow>
          failIf (tb_get sr_id i (snapshots_t db) = None) SqlError
          (Inr (db\<lparr>snapshot_blame_t := tb_upsert (\<lambda>r. (br_snapshot_id r, br_path r, br_releases_key r))
             \<lparr>br_snapshot_id = i, br_path = fst found, br_releases_key = key, br_data = enc_blame k ranges\<rparr>
             (\<lambda>r. r\<lparr>br_data := enc_blame k ranges\<rparr>) (snapshot_blame_t db)\<rparr>)))"

definition touch_snapshot :: "int \<Rightarrow> str \<Rightarrow> 'j db \<Rightarrow> 'j db" where
  "touch_snapshot now i db =
     db\<lparr>snapshots_t := tb_update sr_id i (\<lambda>r. r\<lparr>sr_updated_at := now\<rparr>) (snapshots_t db)\<rparr>"

definition save_blame :: "'j json \<Rightarrow> int \<Rightarrow> snapshot_id \<Rightarrow> str \<Rightarrow> blame_read \<Rightarrow> 'j db \<Rightarrow> store_error + 'j db" where
  "save_blame k now i key found db =
     bindE (foldE (save_blame_row k (snapshot_key i) key) found db) (\<lambda>db'.
       Inr (touch_snapshot now (snapshot_key i) db'))"

definition load_blame_row :: "'j json \<Rightarrow> 'j blame_row \<Rightarrow> blame_read \<Rightarrow> store_error + blame_read" where
  "load_blame_row k r blame =
     bindE (okE JsonError (dec_blame k (br_data r))) (\<lambda>ranges. Inr (bt_insert (br_path r) (Some ranges) blame))"

definition snapshot_of :: "'a codec_scheme \<Rightarrow> 'j json \<Rightarrow> snapshot_id \<Rightarrow> 'j db \<Rightarrow> store_error + snapshot" where
  "snapshot_of c k i db =
     bindE (okE SqlError (tb_get sr_id (snapshot_key i) (snapshots_t db))) (\<lambda>row.
     bindE (case sr_data row of
              SqlText j \<Rightarrow> okE JsonError (dec_snapshot k j)
            | SqlBlob z \<Rightarrow> bindE (okE JsonError (inflate k z)) (\<lambda>j. okE JsonError (dec_snapshot k j))
            | SqlOther \<Rightarrow> Inl (Message ''saved snapshot has an unknown encoding'')) (\<lambda>s.
     failIf (\<not> verify_identity c s) (Message ''saved snapshot integrity check failed'')
     (bindE (foldE (load_blame_row k)
          (filter (\<lambda>r. br_snapshot_id r = snapshot_key i \<and>
             br_releases_key r = releases_key c (ov_releases (snap_overview s))) (snapshot_blame_t db))
          (ov_blame (snap_overview s))) (\<lambda>blame.
        Inr (s\<lparr>snap_overview := (snap_overview s)\<lparr>ov_blame := blame\<rparr>\<rparr>)))))"

section \<open>Drafts\<close>

text \<open>The comparison of a draft with the stored one of the same id.\<close>

definition check_stored :: "draft \<Rightarrow> draft \<Rightarrow> store_error + unit" where
  "check_stored p d =
     failIf (d_snapshot p \<noteq> d_snapshot d \<or> d_file p \<noteq> d_file d \<or> d_side p \<noteq> d_side d \<or>
             d_start_line p \<noteq> d_start_line d \<or> d_line p \<noteq> d_line d \<or> d_published p)
       (Message ''a draft's source identity and published state cannot be rewritten'')
     (failIf (d_version d < d_version p)
       (Message ''the draft write is stale; the newer text remains stored'')
     (failIf (d_version p = d_version d \<and> d_body p \<noteq> d_body d)
       (Message ''draft text differs for the existing version'')
     (Inr ())))"

definition save_draft ::
  "'a codec_scheme \<Rightarrow> 'j json \<Rightarrow> draft \<Rightarrow> 'j db \<Rightarrow> store_error + (nat \<times> 'j db)" where
  "save_draft c k d db =
     failIf (d_version d = 0 \<or> i64_max < d_version d \<or> 1024 * 1024 < length (d_body d))
       (Message ''draft metadata fails version or size checks'')
     (bindE (snapshot_of c k (d_snapshot d) db) (\<lambda>s.
      bindE (okE (Message ''draft file is absent'') (snap_file s (d_file d))) (\<lambda>f.
      failIf (\<not> is_file_level d \<and> \<not> eligible f (d_side d) (d_start_line d) (d_line d))
        (Message ''the draft range does not exist in the frozen patch'')
     (bindE (case tb_get dr_id (draft_key (d_id d)) (drafts_t db) of
               None \<Rightarrow> Inr ()
             | Some row \<Rightarrow> bindE (okE JsonError (dec_draft k (dr_data row))) (\<lambda>p. check_stored p d)) (\<lambda>_.
      failIf (d_published d) (Message ''only confirmed outbox evidence may mark a draft published'')
     (let d' = d\<lparr>d_saved_version := d_version d\<rparr>; raw = enc_draft k d' in
      Inr (d_version d',
           db\<lparr>drafts_t := tb_upsert dr_id
             \<lparr>dr_id = draft_key (d_id d'), dr_snapshot_id = snapshot_key (d_snapshot d'),
              dr_version = as_i64 (d_version d'), dr_data = raw, dr_published = False\<rparr>
             (\<lambda>r. r\<lparr>dr_version := as_i64 (d_version d'), dr_data := raw\<rparr>) (drafts_t db)\<rparr>)))))))"

definition discard_draft :: "draft_id \<Rightarrow> nat \<Rightarrow> 'j db \<Rightarrow> store_error + 'j db" where
  "discard_draft i version db =
     (let hit = (\<lambda>r. dr_id r = draft_key i \<and> dr_version r = as_i64 version \<and> \<not> dr_published r) in
      failIf (length (filter hit (drafts_t db)) \<noteq> 1)
        (Message ''the draft changed, is published, or no longer exists'')
        (Inr (db\<lparr>drafts_t := filter (\<lambda>r. \<not> hit r) (drafts_t db)\<rparr>)))"

fun decode_all :: "('j \<Rightarrow> 'a option) \<Rightarrow> 'j list \<Rightarrow> store_error + 'a list" where
  "decode_all f [] = Inr []"
| "decode_all f (j # js) = bindE (okE JsonError (f j)) (\<lambda>x. bindE (decode_all f js) (\<lambda>xs. Inr (x # xs)))"

definition drafts_of :: "'j json \<Rightarrow> snapshot_id \<Rightarrow> 'j db \<Rightarrow> store_error + draft list" where
  "drafts_of k i db =
     decode_all (dec_draft k) (map dr_data
       (sort_key dr_id (filter (\<lambda>r. dr_snapshot_id r = snapshot_key i) (drafts_t db))))"

section \<open>Views, settings, recent reviews\<close>

definition save_view :: "'j json \<Rightarrow> snapshot_id \<Rightarrow> saved_view \<Rightarrow> 'j db \<Rightarrow> store_error + 'j db" where
  "save_view k i v db =
     (let rev = int (min (sv_revision v) i64_max); data = enc_view k v in
      failIf (tb_get sr_id (snapshot_key i) (snapshots_t db) = None) SqlError
      (Inr (db\<lparr>views_t := tb_upsert vr_snapshot_id
         \<lparr>vr_snapshot_id = snapshot_key i, vr_revision = rev, vr_data = data\<rparr>
         (\<lambda>r. if vr_revision r \<le> rev then r\<lparr>vr_revision := rev, vr_data := data\<rparr> else r) (views_t db)\<rparr>)))"

definition view_of :: "'j json \<Rightarrow> snapshot_id \<Rightarrow> 'j db \<Rightarrow> store_error + saved_view" where
  "view_of k i db =
     (case tb_get vr_snapshot_id (snapshot_key i) (views_t db) of
        None \<Rightarrow> Inr default_view
      | Some r \<Rightarrow> okE JsonError (dec_view k (vr_data r)))"

definition settings_of :: "'j json \<Rightarrow> 'j db \<Rightarrow> store_error + settings" where
  "settings_of k db =
     (case tb_get fst ''reader'' (settings_t db) of
        None \<Rightarrow> Inr default_settings
      | Some r \<Rightarrow> okE JsonError (dec_settings k (snd r)))"

definition save_settings :: "'j json \<Rightarrow> settings \<Rightarrow> 'j db \<Rightarrow> 'j db" where
  "save_settings k s db =
     db\<lparr>settings_t := tb_upsert fst (''reader'', enc_settings k s) (\<lambda>r. (fst r, enc_settings k s)) (settings_t db)\<rparr>"

definition show_recent :: "int \<Rightarrow> snapshot_id \<Rightarrow> 'j db \<Rightarrow> 'j db" where
  "show_recent now i db =
     touch_snapshot now (snapshot_key i)
       (db\<lparr>hidden_recents_t := filter (\<lambda>x. x \<noteq> snapshot_key i) (hidden_recents_t db)\<rparr>)"

definition insert_hidden :: "str \<Rightarrow> str list \<Rightarrow> str list" where
  "insert_hidden x xs = (if x \<in> set xs then xs else xs @ [x])"

definition hide_recent :: "snapshot_id option \<Rightarrow> 'j db \<Rightarrow> 'j db" where
  "hide_recent i db =
     db\<lparr>hidden_recents_t := fold insert_hidden
       (map sr_id (filter (\<lambda>r. case i of None \<Rightarrow> True | Some x \<Rightarrow> sr_id r = snapshot_key x) (snapshots_t db)))
       (hidden_recents_t db)\<rparr>"

text \<open>\<open>ORDER BY updated_at DESC, rowid DESC\<close>: the stable sort, reversed.\<close>

definition newest_first :: "'j snapshot_row list \<Rightarrow> 'j snapshot_row list" where
  "newest_first rs = rev (sort_key sr_updated_at rs)"

definition recent :: "'j db \<Rightarrow> (snapshot_id \<times> str) list" where
  "recent db =
     map (\<lambda>r. (SnapshotId (sr_id r), sr_title r))
       (take 30 (newest_first (filter (\<lambda>r. sr_id r \<notin> set (hidden_recents_t db)) (snapshots_t db))))"

definition opened :: "'a codec_scheme \<Rightarrow> 'j json \<Rightarrow> int \<Rightarrow> snapshot_id \<Rightarrow> 'j db \<Rightarrow>
    (store_error + (snapshot \<times> draft list \<times> saved_view)) \<times> 'j db" where
  "opened c k now i db =
     (let db' = show_recent now i db in
      (bindE (snapshot_of c k i db') (\<lambda>s. bindE (drafts_of k i db') (\<lambda>ds.
         bindE (view_of k i db') (\<lambda>v. Inr (s, ds, v)))), db'))"

section \<open>The outbox table\<close>

definition insert_prepared :: "'a review_codec_scheme \<Rightarrow> 'j json \<Rightarrow> int \<Rightarrow> review_rules \<Rightarrow> prepared_review \<Rightarrow>
    'j db \<Rightarrow> store_error + (outbox_entry \<times> 'j db)" where
  "insert_prepared c k now rules p db =
     failIf (\<not> verify_review c rules p) (Message ''prepared review fingerprint mismatch'')
     (let e = \<lparr>oe_prepared = p, oe_state = Prepared, baseline_review_ids = [], remote_id = None,
              diagnostic = None\<rparr> in
      failIf (tb_get or_id (operation_key (pr_id p)) (outbox_t db) \<noteq> None) SqlError
      (Inr (e, db\<lparr>outbox_t := outbox_t db @
         [\<lparr>or_id = operation_key (pr_id p), or_state = ''prepared'', or_data = enc_entry k e,
           or_updated_at = now\<rparr>]\<rparr>)))"

definition outbox_of :: "'j json \<Rightarrow> 'j db \<Rightarrow> store_error + outbox_entry list" where
  "outbox_of k db = decode_all (dec_entry k) (map or_data (rev (sort_key or_updated_at (outbox_t db))))"

definition operation :: "'j json \<Rightarrow> operation_id \<Rightarrow> 'j db \<Rightarrow> store_error + outbox_entry" where
  "operation k i db =
     bindE (okE SqlError (tb_get or_id (operation_key i) (outbox_t db))) (\<lambda>r.
       okE JsonError (dec_entry k (or_data r)))"

text \<open>Marking the drafts of a confirmed review as published, one comment at a time.\<close>

definition publish_comment :: "'j json \<Rightarrow> prepared_comment \<Rightarrow> 'j db \<Rightarrow> store_error + 'j db" where
  "publish_comment k comment db =
     (case tb_get dr_id (draft_key (pc_draft comment)) (drafts_t db) of
        None \<Rightarrow> Inr db
      | Some row \<Rightarrow>
          bindE (okE JsonError (dec_draft k (dr_data row))) (\<lambda>d.
            if d_version d = pc_version comment \<and> d_body d = pc_body comment
            then Inr (db\<lparr>drafts_t := tb_update dr_id (draft_key (d_id d))
                   (\<lambda>r. r\<lparr>dr_published := True, dr_data := enc_draft k (d\<lparr>d_published := True\<rparr>)\<rparr>) (drafts_t db)\<rparr>)
            else Inr db))"

definition state_debug :: "outbox_state \<Rightarrow> str" where
  "state_debug s = (case s of Prepared \<Rightarrow> ''Prepared'' | InFlight \<Rightarrow> ''InFlight'' | Confirmed \<Rightarrow> ''Confirmed''
     | Rejected \<Rightarrow> ''Rejected'' | UnknownOutcome \<Rightarrow> ''UnknownOutcome'')"

definition write_transition :: "'a review_codec_scheme \<Rightarrow> 'j json \<Rightarrow> int \<Rightarrow> review_rules option \<Rightarrow> outbox_entry \<Rightarrow>
    'j db \<Rightarrow> store_error + 'j db" where
  "write_transition c k now rules e db =
     (let i = operation_key (pr_id (oe_prepared e)) in
      bindE (okE SqlError (tb_get or_id i (outbox_t db))) (\<lambda>row.
      bindE (okE JsonError (dec_entry k (or_data row))) (\<lambda>old.
      failIf (fingerprint (oe_prepared old) \<noteq> fingerprint (oe_prepared e) \<or>
              (case rules of None \<Rightarrow> False | Some r \<Rightarrow> \<not> verify_review c r (oe_prepared e)))
        (Message ''outbox payload changed after preview'')
     (failIf (\<not> can_transition (oe_state old) (oe_state e))
        (Message (''bad outbox move '' @ state_debug (oe_state old) @ arrow @ state_debug (oe_state e)))
     (let db' = db\<lparr>outbox_t := tb_update or_id i
                 (\<lambda>r. r\<lparr>or_state := state_as_str (oe_state e), or_data := enc_entry k e, or_updated_at := now\<rparr>)
                 (outbox_t db)\<rparr> in
      if oe_state e = Confirmed then
        failIf (remote_id e = None) (Message ''the confirmed review lacks its remote evidence ID'')
          (foldE (publish_comment k) (pr_comments (oe_prepared e)) db')
      else Inr db')))))"

definition transition :: "'a review_codec_scheme \<Rightarrow> 'j json \<Rightarrow> int \<Rightarrow> review_rules \<Rightarrow> outbox_entry \<Rightarrow>
    'j db \<Rightarrow> store_error + 'j db" where
  "transition c k now rules e db = write_transition c k now (Some rules) e db"

section \<open>Opening the store\<close>

definition recover_entry :: "'a review_codec_scheme \<Rightarrow> 'j json \<Rightarrow> int \<Rightarrow> outbox_entry \<Rightarrow> 'j db \<Rightarrow> store_error + 'j db" where
  "recover_entry c k now e db =
     (if oe_state e = InFlight then
        write_transition c k now None
          (e\<lparr>oe_state := UnknownOutcome, diagnostic := Some
             ''the process stopped after sending became possible; reconcile before submitting again''\<rparr>) db
      else Inr db)"

text \<open>Each recovered entry is committed on its own, so an error keeps the moves before it.\<close>

fun recover_all :: "'a review_codec_scheme \<Rightarrow> 'j json \<Rightarrow> int \<Rightarrow> outbox_entry list \<Rightarrow> 'j db \<Rightarrow>
    (store_error + unit) \<times> 'j db" where
  "recover_all c k now [] db = (Inr (), db)"
| "recover_all c k now (e # es) db =
     (case recover_entry c k now e db of Inl x \<Rightarrow> (Inl x, db) | Inr db' \<Rightarrow> recover_all c k now es db')"

definition recover_inflight :: "'a review_codec_scheme \<Rightarrow> 'j json \<Rightarrow> int \<Rightarrow> 'j db \<Rightarrow> (store_error + unit) \<times> 'j db" where
  "recover_inflight c k now db =
     (case outbox_of k db of Inl x \<Rightarrow> (Inl x, db) | Inr es \<Rightarrow> recover_all c k now es db)"

text \<open>
  The rows that pruning removes. \<open>json_extract\<close> fails on text that is not JSON,
  and one \<open>NULL\<close> in the list of \<open>NOT IN\<close> makes the condition \<open>NULL\<close> for every row
  it does not match, so that no row is selected.
\<close>

definition doomed :: "'j json \<Rightarrow> nat \<Rightarrow> 'j db \<Rightarrow> store_error + str list" where
  "doomed k keep db =
     bindE (decode_all (extract_snapshot k) (map or_data
       (filter (\<lambda>r. or_state r \<in> {''prepared'', ''in_flight'', ''unknown''}) (outbox_t db)))) (\<lambda>pinned.
     Inr (map sr_id (filter (\<lambda>r.
       sr_id r \<notin> set (map sr_id (take keep (newest_first (snapshots_t db)))) \<and>
       \<not> list_ex (\<lambda>d. dr_snapshot_id d = sr_id r \<and> \<not> dr_published d) (drafts_t db) \<and>
       list_all (\<lambda>x. x \<noteq> None \<and> x \<noteq> Some (sr_id r)) pinned) (snapshots_t db))))"

definition prune :: "'j json \<Rightarrow> nat \<Rightarrow> 'j db \<Rightarrow> store_error + (nat \<times> 'j db)" where
  "prune k keep db =
     bindE (doomed k keep db) (\<lambda>ids.
       (let gone = (\<lambda>x. x \<in> set ids) in
        Inr (length (filter (\<lambda>r. gone (sr_id r)) (snapshots_t db)),
          db\<lparr>drafts_t := filter (\<lambda>r. \<not> gone (dr_snapshot_id r)) (drafts_t db),
             views_t := filter (\<lambda>r. \<not> gone (vr_snapshot_id r)) (views_t db),
             hidden_recents_t := filter (\<lambda>x. \<not> gone x) (hidden_recents_t db),
             snapshots_t := filter (\<lambda>r. \<not> gone (sr_id r)) (snapshots_t db),
             snapshot_blame_t := filter (\<lambda>r. \<not> gone (br_snapshot_id r)) (snapshot_blame_t db)\<rparr>)))"

definition KEEP_RECENT :: nat where
  "KEEP_RECENT = 50"

definition store_open :: "'a review_codec_scheme \<Rightarrow> 'j json \<Rightarrow> int \<Rightarrow> 'j db \<Rightarrow> (store_error + unit) \<times> 'j db" where
  "store_open c k now db =
     (case recover_inflight c k now db of
        (Inl x, db') \<Rightarrow> (Inl x, db')
      | (Inr _, db') \<Rightarrow>
          (case prune k KEEP_RECENT db' of Inl x \<Rightarrow> (Inl x, db') | Inr (n, db'') \<Rightarrow> (Inr (), db'')))"

section \<open>Laws of the tables\<close>

lemma tb_get_Some: "tb_get key x rs = Some r \<Longrightarrow> r \<in> set rs \<and> key r = x"
  unfolding tb_get_def by (rule find_Some_in)

lemma tb_get_None: "tb_get key x rs = None \<longleftrightarrow> x \<notin> key ` set rs"
  by (auto simp: tb_get_def find_None_iff)

lemma tb_get_distinct: "distinct (map key rs) \<Longrightarrow> r \<in> set rs \<Longrightarrow> tb_get key (key r) rs = Some r"
  unfolding tb_get_def by (rule find_unique) (auto simp: distinct_map inj_on_def)

lemma tb_get_update:
  assumes "\<And>r. key (g r) = key r"
  shows "tb_get key y (tb_update key x g rs) =
    (if y = x then map_option g (tb_get key y rs) else tb_get key y rs)"
  using assms by (induction rs) (auto simp: tb_get_def tb_update_def)

lemma tb_get_append: "tb_get key y (rs @ qs) = (case tb_get key y rs of Some r \<Rightarrow> Some r | None \<Rightarrow> tb_get key y qs)"
  by (induction rs) (auto simp: tb_get_def)

lemma tb_get_single: "tb_get key y [r] = (if key r = y then Some r else None)"
  by (simp add: tb_get_def)

lemma keys_tb_update [simp]: "(\<And>r. key (g r) = key r) \<Longrightarrow> map key (tb_update key x g rs) = map key rs"
  by (simp add: tb_update_def)

lemma tb_get_upsert:
  assumes "\<And>r. key (g r) = key r"
  shows "tb_get key y (tb_upsert key new g rs) =
    (if y = key new then (case tb_get key y rs of None \<Rightarrow> Some new | Some r \<Rightarrow> Some (g r)) else tb_get key y rs)"
  using assms
  by (auto simp: tb_upsert_def tb_get_append tb_get_single tb_get_update split: option.splits)

lemma set_tb_update: "r \<in> set (tb_update key x g rs) \<Longrightarrow> r \<in> set rs \<and> key r \<noteq> x \<or> (\<exists>q \<in> set rs. key q = x \<and> r = g q)"
  by (auto simp: tb_update_def)

lemma keys_tb_upsert:
  assumes "\<And>r. key (g r) = key r"
  shows "set (map key (tb_upsert key new g rs)) = insert (key new) (set (map key rs))"
proof -
  have "key new \<in> key ` set rs" if "tb_get key (key new) rs \<noteq> None"
    using that by (auto simp: tb_get_None)
  then show ?thesis using assms keys_tb_update [of key g "key new" rs]
    by (auto simp: tb_upsert_def simp flip: set_map)
qed

lemma distinct_tb_upsert:
  assumes "\<And>r. key (g r) = key r" "distinct (map key rs)"
  shows "distinct (map key (tb_upsert key new g rs))"
  using assms by (auto simp: tb_upsert_def tb_get_None)

lemma set_tb_upsert:
  assumes "r \<in> set (tb_upsert key new g rs)"
  shows "r = new \<and> tb_get key (key new) rs = None \<or> (r \<in> set rs \<and> key r \<noteq> key new) \<or>
    (\<exists>q \<in> set rs. key q = key new \<and> r = g q \<and> tb_get key (key new) rs \<noteq> None)"
proof (cases "tb_get key (key new) rs = None")
  case True
  then have "key q \<noteq> key new" if "q \<in> set rs" for q using that unfolding tb_get_None by (metis imageI)
  with True assms show ?thesis by (auto simp: tb_upsert_def)
next
  case False
  with assms show ?thesis using set_tb_update [of r key "key new" g rs] by (auto simp: tb_upsert_def)
qed

section \<open>The invariant of the store\<close>

definition draft_row_ok :: "'j json \<Rightarrow> 'j draft_row \<Rightarrow> bool" where
  "draft_row_ok k r \<longleftrightarrow>
     (\<exists>d. dec_draft k (dr_data r) = Some d \<and> draft_key (d_id d) = dr_id r \<and>
        snapshot_key (d_snapshot d) = dr_snapshot_id r \<and> as_i64 (d_version d) = dr_version r \<and>
        d_published d = dr_published r \<and> d_saved_version d = d_version d \<and>
        0 < d_version d \<and> d_version d \<le> i64_max)"

definition outbox_row_ok :: "'j json \<Rightarrow> 'j outbox_row \<Rightarrow> bool" where
  "outbox_row_ok k r \<longleftrightarrow>
     (\<exists>e. dec_entry k (or_data r) = Some e \<and> operation_key (pr_id (oe_prepared e)) = or_id r \<and>
        or_state r = state_as_str (oe_state e) \<and>
        extract_snapshot k (or_data r) = Some (Some (snapshot_key (pr_snapshot (oe_prepared e)))))"

definition snapshot_ids :: "'j db \<Rightarrow> str set" where
  "snapshot_ids db = set (map sr_id (snapshots_t db))"

definition db_ok :: "'j json \<Rightarrow> 'j db \<Rightarrow> bool" where
  "db_ok k db \<longleftrightarrow>
     distinct (map sr_id (snapshots_t db)) \<and> distinct (map dr_id (drafts_t db)) \<and>
     distinct (map vr_snapshot_id (views_t db)) \<and> distinct (map or_id (outbox_t db)) \<and>
     (\<forall>r \<in> set (drafts_t db). draft_row_ok k r \<and> dr_snapshot_id r \<in> snapshot_ids db) \<and>
     (\<forall>r \<in> set (outbox_t db). outbox_row_ok k r) \<and>
     (\<forall>r \<in> set (views_t db). vr_snapshot_id r \<in> snapshot_ids db) \<and>
     (\<forall>r \<in> set (snapshot_blame_t db). br_snapshot_id r \<in> snapshot_ids db) \<and>
     set (hidden_recents_t db) \<subseteq> snapshot_ids db"

lemma empty_db_ok: "db_ok k empty_db"
  by (simp add: db_ok_def empty_db_def)

lemma json_okD:
  assumes "json_ok k"
  shows "dec_snapshot k (enc_snapshot k s) = Some (written_snapshot s)" "dec_draft k (enc_draft k d) = Some d"
    "dec_view k (enc_view k v) = Some v" "dec_entry k (enc_entry k e) = Some e"
    "dec_blame k (enc_blame k b) = Some b" "dec_settings k (enc_settings k t) = Some t"
    "inflate k (deflate k j) = Some j"
    "extract_snapshot k (enc_entry k e) = Some (Some (snapshot_key (pr_snapshot (oe_prepared e))))"
  using assms by (simp_all add: json_ok_def)

lemma put_snapshot_ok:
  assumes "db_ok k db" "put_snapshot c k now s db = Inr db'"
  shows "db_ok k db' \<and> snapshot_ids db' = insert (snapshot_key (snap_id s)) (snapshot_ids db)"
proof -
  define rs where "rs = tb_upsert sr_id \<lparr>sr_id = snapshot_key (snap_id s), sr_title = snap_title s,
      sr_data = SqlBlob (deflate k (enc_snapshot k s)), sr_updated_at = now\<rparr>
    (\<lambda>r. r\<lparr>sr_title := snap_title s, sr_data := SqlBlob (deflate k (enc_snapshot k s)), sr_updated_at := now\<rparr>)
    (snapshots_t db)"
  have "set (map sr_id rs) = insert (snapshot_key (snap_id s)) (snapshot_ids db)"
    unfolding rs_def snapshot_ids_def by (subst keys_tb_upsert) auto
  moreover have "distinct (map sr_id rs)"
    using assms(1) unfolding rs_def by (intro distinct_tb_upsert) (auto simp: db_ok_def)
  moreover have "db' = db\<lparr>snapshot_blame_t := filter (\<lambda>r. br_snapshot_id r \<noteq> snapshot_key (snap_id s)) (snapshot_blame_t db),
      snapshots_t := rs\<rparr>"
    using assms(2) by (auto simp: put_snapshot_def bind_simps Let_def rs_def)
  ultimately show ?thesis using assms(1) by (auto simp: db_ok_def snapshot_ids_def)
qed

lemma save_blame_row_ok:
  assumes "db_ok k db" "save_blame_row k i key f db = Inr db'"
  shows "db_ok k db' \<and> snapshots_t db' = snapshots_t db"
proof (cases "snd f")
  case None
  with assms show ?thesis by (simp add: save_blame_row_def)
next
  case (Some ranges)
  then have i: "i \<in> snapshot_ids db"
    using assms(2) by (auto simp: save_blame_row_def bind_simps tb_get_None snapshot_ids_def)
  have "\<forall>r \<in> set (snapshot_blame_t db'). br_snapshot_id r \<in> snapshot_ids db"
    using assms Some i
    by (auto simp: save_blame_row_def bind_simps db_ok_def dest!: set_tb_upsert)
  moreover have "db' = db\<lparr>snapshot_blame_t := snapshot_blame_t db'\<rparr>"
    using assms(2) Some by (auto simp: save_blame_row_def bind_simps)
  ultimately show ?thesis using assms(1) by (cases db') (auto simp: db_ok_def snapshot_ids_def)
qed

lemma touch_snapshot_ok: "db_ok k db \<Longrightarrow> db_ok k (touch_snapshot now i db)"
proof -
  have "map sr_id (snapshots_t (touch_snapshot now i db)) = map sr_id (snapshots_t db)"
    by (simp add: touch_snapshot_def)
  moreover have "touch_snapshot now i db = db\<lparr>snapshots_t := snapshots_t (touch_snapshot now i db)\<rparr>"
    by (simp add: touch_snapshot_def)
  moreover assume "db_ok k db"
  ultimately show ?thesis unfolding db_ok_def snapshot_ids_def by (metis (no_types, lifting) db.ext_inject db.surjective db.update_convs(1) db.select_convs)
qed

lemma db_ok_drafts:
  assumes "db_ok k db" "distinct (map dr_id rs)"
    and "\<And>r. r \<in> set rs \<Longrightarrow> draft_row_ok k r \<and> dr_snapshot_id r \<in> snapshot_ids db"
  shows "db_ok k (db\<lparr>drafts_t := rs\<rparr>)"
  using assms by (simp add: db_ok_def snapshot_ids_def)

lemma db_ok_outbox:
  assumes "db_ok k db" "distinct (map or_id rs)" "\<And>r. r \<in> set rs \<Longrightarrow> outbox_row_ok k r"
  shows "db_ok k (db\<lparr>outbox_t := rs\<rparr>)"
  using assms by (simp add: db_ok_def snapshot_ids_def)

lemma db_ok_views:
  assumes "db_ok k db" "distinct (map vr_snapshot_id rs)"
    and "\<And>r. r \<in> set rs \<Longrightarrow> vr_snapshot_id r \<in> snapshot_ids db"
  shows "db_ok k (db\<lparr>views_t := rs\<rparr>)"
  using assms by (simp add: db_ok_def snapshot_ids_def)

lemma draft_row_of:
  assumes "db_ok k db" "tb_get dr_id x (drafts_t db) = Some r"
  shows "dr_id r = x \<and> r \<in> set (drafts_t db) \<and> draft_row_ok k r \<and> dr_snapshot_id r \<in> snapshot_ids db"
  using assms tb_get_Some [OF assms(2)] by (auto simp: db_ok_def)

lemma outbox_row_of:
  assumes "db_ok k db" "tb_get or_id x (outbox_t db) = Some r"
  shows "or_id r = x \<and> r \<in> set (outbox_t db) \<and> outbox_row_ok k r"
  using assms tb_get_Some [OF assms(2)] by (auto simp: db_ok_def)

lemma snapshot_of_known: "snapshot_of c k i db = Inr s \<Longrightarrow> snapshot_key i \<in> snapshot_ids db"
  using tb_get_Some [of sr_id "snapshot_key i" "snapshots_t db"]
  by (auto simp: snapshot_of_def bind_simps snapshot_ids_def) (metis imageI)

text \<open>What a successful save did: the stored draft is the given one, marked as saved.\<close>

lemma save_draft_Inr:
  assumes "save_draft c k d db = Inr (v, db')"
  shows "v = d_version d \<and> 0 < d_version d \<and> d_version d \<le> i64_max \<and> \<not> d_published d \<and>
    snapshot_key (d_snapshot d) \<in> snapshot_ids db \<and>
    (\<forall>row. tb_get dr_id (draft_key (d_id d)) (drafts_t db) = Some row \<longrightarrow>
       (\<exists>p. dec_draft k (dr_data row) = Some p \<and> check_stored p d = Inr ())) \<and>
    db' = db\<lparr>drafts_t := tb_upsert dr_id
      \<lparr>dr_id = draft_key (d_id d), dr_snapshot_id = snapshot_key (d_snapshot d),
       dr_version = as_i64 (d_version d), dr_data = enc_draft k (d\<lparr>d_saved_version := d_version d\<rparr>),
       dr_published = False\<rparr>
      (\<lambda>r. r\<lparr>dr_version := as_i64 (d_version d), dr_data := enc_draft k (d\<lparr>d_saved_version := d_version d\<rparr>)\<rparr>)
      (drafts_t db)\<rparr>"
  using assms
  by (auto simp: save_draft_def bind_simps Let_def snapshot_of_known split: option.splits)

lemma check_stored_Inr:
  "check_stored p d = Inr () \<longleftrightarrow>
     d_snapshot p = d_snapshot d \<and> d_file p = d_file d \<and> d_side p = d_side d \<and>
     d_start_line p = d_start_line d \<and> d_line p = d_line d \<and> \<not> d_published p \<and>
     d_version p \<le> d_version d \<and> (d_version p = d_version d \<longrightarrow> d_body p = d_body d)"
  by (auto simp: check_stored_def bind_simps)

lemma save_draft_ok:
  assumes "json_ok k" "db_ok k db" "save_draft c k d db = Inr (v, db')"
  shows "db_ok k db'"
proof -
  let ?d = "d\<lparr>d_saved_version := d_version d\<rparr>"
  note s = save_draft_Inr [OF assms(3)]
  have row: "draft_row_ok k r \<and> dr_snapshot_id r \<in> snapshot_ids db"
    if "dr_data r = enc_draft k ?d" "dr_id r = draft_key (d_id d)" "dr_version r = as_i64 (d_version d)"
      "dr_snapshot_id r = snapshot_key (d_snapshot d)" "\<not> dr_published r" for r
    using that s json_okD(2) [OF assms(1)] by (auto simp: draft_row_ok_def)
  have old: "dr_snapshot_id q = snapshot_key (d_snapshot d) \<and> \<not> dr_published q"
    if "q \<in> set (drafts_t db)" "dr_id q = draft_key (d_id d)" for q
  proof -
    have "tb_get dr_id (draft_key (d_id d)) (drafts_t db) = Some q"
      using tb_get_distinct [of dr_id "drafts_t db" q] that assms(2) by (simp add: db_ok_def)
    with s obtain p where p: "dec_draft k (dr_data q) = Some p" "check_stored p d = Inr ()" by blast
    have "draft_row_ok k q" using that assms(2) by (simp add: db_ok_def)
    with p show ?thesis by (auto simp: draft_row_ok_def check_stored_Inr)
  qed
  let ?new = "\<lparr>dr_id = draft_key (d_id d), dr_snapshot_id = snapshot_key (d_snapshot d),
       dr_version = as_i64 (d_version d), dr_data = enc_draft k ?d, dr_published = False\<rparr>"
  let ?g = "\<lambda>r. r\<lparr>dr_version := as_i64 (d_version d), dr_data := enc_draft k ?d\<rparr>"
  have rows: "draft_row_ok k r \<and> dr_snapshot_id r \<in> snapshot_ids db" if "r \<in> set (drafts_t db')" for r
  proof -
    from that s have "r \<in> set (tb_upsert dr_id ?new ?g (drafts_t db))" by simp
    from set_tb_upsert [OF this] consider "r = ?new" | "r \<in> set (drafts_t db)"
      | q where "q \<in> set (drafts_t db)" "dr_id q = draft_key (d_id d)" "r = ?g q" by auto
    then show ?thesis
    proof cases
      case 1
      then show ?thesis by (intro row) simp_all
    next
      case 2
      then show ?thesis using assms(2) by (simp add: db_ok_def)
    next
      case 3
      then show ?thesis using old [of q] by (intro row) simp_all
    qed
  qed
  have "distinct (map dr_id (drafts_t db'))"
    using s assms(2) by (auto simp: db_ok_def intro!: distinct_tb_upsert)
  then have "db_ok k (db\<lparr>drafts_t := drafts_t db'\<rparr>)"
    using rows by (intro db_ok_drafts [OF assms(2)]) auto
  moreover have "db' = db\<lparr>drafts_t := drafts_t db'\<rparr>" using s by simp
  ultimately show ?thesis by simp
qed

lemma discard_draft_ok: "db_ok k db \<Longrightarrow> discard_draft i v db = Inr db' \<Longrightarrow> db_ok k db'"
  by (auto simp: discard_draft_def bind_simps Let_def intro!: db_ok_drafts) (auto simp: db_ok_def distinct_map_filter)

lemma save_view_ok:
  assumes "db_ok k db" "save_view k i v db = Inr db'"
  shows "db_ok k db'"
proof -
  from assms(2) have i: "snapshot_key i \<in> snapshot_ids db"
    by (auto simp: save_view_def bind_simps Let_def tb_get_None snapshot_ids_def)
  have rows: "\<forall>r \<in> set (views_t db'). vr_snapshot_id r \<in> snapshot_ids db"
    using assms i by (auto simp: save_view_def bind_simps Let_def db_ok_def dest!: set_tb_upsert split: if_splits)
  have "distinct (map vr_snapshot_id (views_t db'))"
    using assms by (auto simp: save_view_def bind_simps Let_def db_ok_def intro!: distinct_tb_upsert)
  moreover have "db' = db\<lparr>views_t := views_t db'\<rparr>"
    using assms(2) by (auto simp: save_view_def bind_simps Let_def)
  ultimately show ?thesis using db_ok_views [OF assms(1), of "views_t db'"] rows by simp
qed

lemma show_recent_ok: "db_ok k db \<Longrightarrow> db_ok k (show_recent now i db)"
  unfolding show_recent_def by (rule touch_snapshot_ok) (auto simp: db_ok_def snapshot_ids_def)

lemma fold_insert_hidden: "set (fold insert_hidden xs ys) = set xs \<union> set ys"
  by (induction xs arbitrary: ys) (auto simp: insert_hidden_def)

lemma hide_recent_ok: "db_ok k db \<Longrightarrow> db_ok k (hide_recent i db)"
  by (auto simp: hide_recent_def db_ok_def snapshot_ids_def fold_insert_hidden)

lemma insert_prepared_ok:
  assumes "json_ok k" "db_ok k db" "insert_prepared c k now rules p db = Inr (e, db')"
  shows "db_ok k db'"
proof -
  have new: "operation_key (pr_id p) \<notin> or_id ` set (outbox_t db)"
    and db': "db' = db\<lparr>outbox_t := outbox_t db @ [\<lparr>or_id = operation_key (pr_id p), or_state = ''prepared'',
       or_data = enc_entry k e, or_updated_at = now\<rparr>]\<rparr>" and e: "oe_prepared e = p" "oe_state e = Prepared"
    using assms(3) by (auto simp: insert_prepared_def bind_simps Let_def tb_get_None)
  have "outbox_row_ok k \<lparr>or_id = operation_key (pr_id p), or_state = ''prepared'',
       or_data = enc_entry k e, or_updated_at = now\<rparr>"
    using json_okD(4,8) [OF assms(1)] e by (auto simp: outbox_row_ok_def state_as_str_def)
  then show ?thesis unfolding db' using assms(2) new
    by (intro db_ok_outbox) (auto simp: db_ok_def)
qed

lemma publish_comment_ok:
  assumes "json_ok k" "db_ok k db" "publish_comment k m db = Inr db'"
  shows "db_ok k db'"
proof (cases "tb_get dr_id (draft_key (pc_draft m)) (drafts_t db)")
  case None
  with assms show ?thesis by (simp add: publish_comment_def)
next
  case (Some row)
  then obtain d where d: "dec_draft k (dr_data row) = Some d"
    using assms(3) by (auto simp: publish_comment_def bind_simps)
  have ok: "draft_row_ok k row" "dr_snapshot_id row \<in> snapshot_ids db" "row \<in> set (drafts_t db)"
    using draft_row_of [OF assms(2) Some] by auto
  then have id: "draft_key (d_id d) = dr_id row" using d by (auto simp: draft_row_ok_def)
  let ?g = "\<lambda>r. r\<lparr>dr_published := True, dr_data := enc_draft k (d\<lparr>d_published := True\<rparr>)\<rparr>"
  have upd: "draft_row_ok k (?g q) \<and> dr_snapshot_id q \<in> snapshot_ids db"
    if "q \<in> set (drafts_t db)" "dr_id q = dr_id row" for q
  proof -
    have "q = row"
      using that ok(3) assms(2) by (auto simp: db_ok_def distinct_map inj_on_def)
    with ok d json_okD(2) [OF assms(1)] show ?thesis by (auto simp: draft_row_ok_def)
  qed
  show ?thesis
  proof (cases "d_version d = pc_version m \<and> d_body d = pc_body m")
    case True
    then have "db' = db\<lparr>drafts_t := tb_update dr_id (dr_id row) ?g (drafts_t db)\<rparr>"
      using assms(3) Some d id by (simp add: publish_comment_def bind_simps)
    moreover have "db_ok k (db\<lparr>drafts_t := tb_update dr_id (dr_id row) ?g (drafts_t db)\<rparr>)"
    proof (rule db_ok_drafts [OF assms(2)])
      show "distinct (map dr_id (tb_update dr_id (dr_id row) ?g (drafts_t db)))"
        using assms(2) by (simp add: db_ok_def)
      show "draft_row_ok k r \<and> dr_snapshot_id r \<in> snapshot_ids db"
        if "r \<in> set (tb_update dr_id (dr_id row) ?g (drafts_t db))" for r
        using set_tb_update [OF that] upd assms(2) by (auto simp: db_ok_def)
    qed
    ultimately show ?thesis by simp
  next
    case False
    with assms Some d show ?thesis by (auto simp: publish_comment_def bind_simps)
  qed
qed

lemma publish_comments_ok:
  assumes "json_ok k" "db_ok k db" "foldE (publish_comment k) ms db = Inr db'"
  shows "db_ok k db'"
  using assms(3,2) by (rule foldE_invariant) (use assms(1) publish_comment_ok in blast)

lemma publish_comment_tables:
  "publish_comment k m db = Inr db' \<Longrightarrow> outbox_t db' = outbox_t db \<and> snapshots_t db' = snapshots_t db"
  by (auto simp: publish_comment_def bind_simps split: option.splits if_splits)

lemma publish_comments_tables:
  "foldE (publish_comment k) ms db = Inr db' \<Longrightarrow> outbox_t db' = outbox_t db \<and> snapshots_t db' = snapshots_t db"
  by (induction ms arbitrary: db) (auto simp: bind_simps dest: publish_comment_tables)

text \<open>What a successful move did, in the outbox table and elsewhere.\<close>

definition moved_outbox :: "'j json \<Rightarrow> int \<Rightarrow> outbox_entry \<Rightarrow> 'j outbox_row list \<Rightarrow> 'j outbox_row list" where
  "moved_outbox k now e rs = tb_update or_id (operation_key (pr_id (oe_prepared e)))
     (\<lambda>r. r\<lparr>or_state := state_as_str (oe_state e), or_data := enc_entry k e, or_updated_at := now\<rparr>) rs"

lemma write_transition_Inr:
  assumes "write_transition c k now rules e db = Inr db'"
  shows "\<exists>row old. tb_get or_id (operation_key (pr_id (oe_prepared e))) (outbox_t db) = Some row \<and>
    dec_entry k (or_data row) = Some old \<and> fingerprint (oe_prepared old) = fingerprint (oe_prepared e) \<and>
    can_transition (oe_state old) (oe_state e) \<and> (\<forall>r. rules = Some r \<longrightarrow> verify_review c r (oe_prepared e)) \<and>
    outbox_t db' = moved_outbox k now e (outbox_t db) \<and> snapshots_t db' = snapshots_t db \<and>
    (if oe_state e = Confirmed then remote_id e \<noteq> None \<and>
       foldE (publish_comment k) (pr_comments (oe_prepared e)) (db\<lparr>outbox_t := moved_outbox k now e (outbox_t db)\<rparr>) = Inr db'
     else db' = db\<lparr>outbox_t := moved_outbox k now e (outbox_t db)\<rparr>)"
proof -
  from assms obtain row old where 1:
    "tb_get or_id (operation_key (pr_id (oe_prepared e))) (outbox_t db) = Some row"
    "dec_entry k (or_data row) = Some old" "fingerprint (oe_prepared old) = fingerprint (oe_prepared e)"
    "can_transition (oe_state old) (oe_state e)" "\<forall>r. rules = Some r \<longrightarrow> verify_review c r (oe_prepared e)"
    by (auto simp: write_transition_def bind_simps Let_def split: option.splits)
  from assms have 2: "if oe_state e = Confirmed then remote_id e \<noteq> None \<and>
       foldE (publish_comment k) (pr_comments (oe_prepared e)) (db\<lparr>outbox_t := moved_outbox k now e (outbox_t db)\<rparr>) = Inr db'
     else db' = db\<lparr>outbox_t := moved_outbox k now e (outbox_t db)\<rparr>"
    by (auto simp: write_transition_def bind_simps Let_def moved_outbox_def)
  then have "outbox_t db' = moved_outbox k now e (outbox_t db) \<and> snapshots_t db' = snapshots_t db"
    using publish_comments_tables by (fastforce split: if_splits)
  with 1 2 show ?thesis by blast
qed

lemma moved_outbox_ok:
  assumes "json_ok k" "db_ok k db"
  shows "db_ok k (db\<lparr>outbox_t := moved_outbox k now e (outbox_t db)\<rparr>)"
proof (rule db_ok_outbox [OF assms(2)])
  show "distinct (map or_id (moved_outbox k now e (outbox_t db)))"
    using assms(2) by (simp add: moved_outbox_def db_ok_def)
  show "outbox_row_ok k r" if "r \<in> set (moved_outbox k now e (outbox_t db))" for r
    using set_tb_update [OF that [unfolded moved_outbox_def]] assms json_okD(4,8) [OF assms(1)]
    by (auto simp: db_ok_def outbox_row_ok_def)
qed

lemma write_transition_ok:
  assumes "json_ok k" "db_ok k db" "write_transition c k now rules e db = Inr db'"
  shows "db_ok k db'"
proof (cases "oe_state e = Confirmed")
  case True
  with write_transition_Inr [OF assms(3)]
  have "foldE (publish_comment k) (pr_comments (oe_prepared e)) (db\<lparr>outbox_t := moved_outbox k now e (outbox_t db)\<rparr>) = Inr db'"
    by auto
  then show ?thesis by (rule publish_comments_ok [OF assms(1) moved_outbox_ok [OF assms(1,2)]])
next
  case False
  with write_transition_Inr [OF assms(3)] moved_outbox_ok [OF assms(1,2)] show ?thesis by auto
qed

lemma recover_entry_ok:
  "json_ok k \<Longrightarrow> db_ok k db \<Longrightarrow> recover_entry c k now e db = Inr db' \<Longrightarrow> db_ok k db'"
  unfolding recover_entry_def by (metis Inr_inject write_transition_ok)

lemma recover_all_ok:
  assumes "json_ok k" "db_ok k db"
  shows "db_ok k (snd (recover_all c k now es db))"
  using assms(2)
proof (induction es arbitrary: db)
  case (Cons e es)
  show ?case
  proof (cases "recover_entry c k now e db")
    case (Inr db')
    have "db_ok k db'" by (rule recover_entry_ok [OF assms(1) Cons.prems Inr])
    with Inr Cons.IH show ?thesis by simp
  qed (use Cons.prems in simp)
qed simp

lemma prune_ok: "db_ok k db \<Longrightarrow> prune k keep db = Inr (n, db') \<Longrightarrow> db_ok k db'"
proof -
  assume ok: "db_ok k db" and p: "prune k keep db = Inr (n, db')"
  from p obtain ids where db': "db' = db\<lparr>drafts_t := filter (\<lambda>r. dr_snapshot_id r \<notin> set ids) (drafts_t db),
      views_t := filter (\<lambda>r. vr_snapshot_id r \<notin> set ids) (views_t db),
      hidden_recents_t := filter (\<lambda>x. x \<notin> set ids) (hidden_recents_t db),
      snapshots_t := filter (\<lambda>r. sr_id r \<notin> set ids) (snapshots_t db),
      snapshot_blame_t := filter (\<lambda>r. br_snapshot_id r \<notin> set ids) (snapshot_blame_t db)\<rparr>"
    by (auto simp: prune_def bind_simps Let_def)
  have "snapshot_ids db' = snapshot_ids db - set ids" by (auto simp: db' snapshot_ids_def)
  with ok show ?thesis by (auto simp: db' db_ok_def distinct_map_filter)
qed

lemma store_open_ok:
  assumes "json_ok k" "db_ok k db"
  shows "db_ok k (snd (store_open c k now db))"
proof -
  have r: "db_ok k (snd (recover_inflight c k now db))"
    using recover_all_ok [OF assms, of c now] assms(2) by (simp add: recover_inflight_def split: sum.split)
  obtain x db' where x: "recover_inflight c k now db = (x, db')" by fastforce
  with r prune_ok [of k db'] show ?thesis
    by (auto simp: store_open_def split: sum.split)
qed

section \<open>The outbox as an operation log\<close>

text \<open>
  What publication relies on: a move replaces exactly one entry, and only along
  the lifecycle and under the same fingerprint.
\<close>

locale operation_log =
  fixes log_ok :: "'s \<Rightarrow> bool"
    and entry_of :: "operation_id \<Rightarrow> 's \<Rightarrow> outbox_entry option"
    and move :: "outbox_entry \<Rightarrow> 's \<Rightarrow> 's option"
  assumes move_entry:
    "log_ok s \<Longrightarrow> move e s = Some s' \<Longrightarrow>
       entry_of i s' = (if i = pr_id (oe_prepared e) then Some e else entry_of i s)"
    and move_allowed:
    "log_ok s \<Longrightarrow> move e s = Some s' \<Longrightarrow>
       \<exists>old. entry_of (pr_id (oe_prepared e)) s = Some old \<and> can_transition (oe_state old) (oe_state e) \<and>
         fingerprint (oe_prepared old) = fingerprint (oe_prepared e)"
    and move_keeps: "log_ok s \<Longrightarrow> move e s = Some s' \<Longrightarrow> log_ok s'"
begin

fun moves :: "outbox_entry list \<Rightarrow> 's \<Rightarrow> 's option" where
  "moves [] s = Some s"
| "moves (e # es) s = Option.bind (move e s) (moves es)"

lemma moves_lifecycle:
  assumes "log_ok s" "moves es s = Some s'" "entry_of i s = Some e0"
  shows "lifecycle (oe_state e0 # map oe_state (filter (\<lambda>e. pr_id (oe_prepared e) = i) es))"
  using assms
proof (induction es arbitrary: s e0)
  case Nil
  then show ?case by simp
next
  case (Cons e es)
  then obtain t where t: "move e s = Some t" "moves es t = Some s'"
    by (auto simp: Option.bind_eq_Some_conv)
  have "log_ok t" using move_keeps Cons.prems(1) t(1) by blast
  moreover have "entry_of i t = (if i = pr_id (oe_prepared e) then Some e else entry_of i s)"
    by (rule move_entry [OF Cons.prems(1) t(1)])
  ultimately show ?case
    using Cons.IH [of t] t(2) move_allowed [OF Cons.prems(1) t(1)] Cons.prems(3) by (cases "pr_id (oe_prepared e) = i") auto
qed

lemma lifecycle_inflight_once: "lifecycle ss \<Longrightarrow> length (filter (\<lambda>s. s = InFlight) ss) \<le> 1"
proof -
  assume "lifecycle ss"
  then have "sorted_wrt (<) (map state_rank ss)" by (rule lifecycle_ranks)
  then have "distinct ss" by (metis distinct_map strict_sorted_iff)
  then have d: "distinct (filter (\<lambda>s. s = InFlight) ss)" by (rule distinct_filter)
  then have "length (filter (\<lambda>s. s = InFlight) ss) = card (set (filter (\<lambda>s. s = InFlight) ss))"
    by (simp only: distinct_card)
  also have "\<dots> \<le> card {InFlight}" by (rule card_mono) auto
  finally show ?thesis by simp
qed

lemma moves_send_once:
  assumes "log_ok s" "moves es s = Some s'" "entry_of i s = Some e0"
  shows "length (filter (\<lambda>e. pr_id (oe_prepared e) = i \<and> oe_state e = InFlight) es) \<le> 1"
proof -
  have "length (filter (\<lambda>s. s = InFlight) (map oe_state (filter (\<lambda>e. pr_id (oe_prepared e) = i) es))) \<le> 1"
    using lifecycle_inflight_once [OF moves_lifecycle [OF assms]] by (simp split: if_splits)
  moreover have "length (filter (\<lambda>s. s = InFlight) (map oe_state (filter (\<lambda>e. pr_id (oe_prepared e) = i) es))) =
      length (filter (\<lambda>e. pr_id (oe_prepared e) = i \<and> oe_state e = InFlight) es)"
    by (simp add: filter_map comp_def conj_commute)
  ultimately show ?thesis by simp
qed

end

definition entry_of :: "'j json \<Rightarrow> operation_id \<Rightarrow> 'j db \<Rightarrow> outbox_entry option" where
  "entry_of k i db = (case operation k i db of Inl _ \<Rightarrow> None | Inr e \<Rightarrow> Some e)"

definition move_of :: "'a review_codec_scheme \<Rightarrow> 'j json \<Rightarrow> int \<Rightarrow> review_rules option \<Rightarrow> outbox_entry \<Rightarrow>
    'j db \<Rightarrow> 'j db option" where
  "move_of c k now rules e db = (case write_transition c k now rules e db of Inl _ \<Rightarrow> None | Inr db' \<Rightarrow> Some db')"

lemma move_of_Some: "move_of c k now rules e db = Some db' \<longleftrightarrow> write_transition c k now rules e db = Inr db'"
  by (simp add: move_of_def split: sum.split)

lemma entry_of_row:
  "entry_of k i db = Option.bind (tb_get or_id (operation_key i) (outbox_t db)) (\<lambda>r. dec_entry k (or_data r))"
  by (auto simp: entry_of_def operation_def bindE_def okE_def split: option.splits)

lemma operation_key_eq [simp]: "operation_key a = operation_key b \<longleftrightarrow> a = b"
  by (metis operation_id.expand)

lemma entry_of_moved:
  assumes "json_ok k" "tb_get or_id (operation_key (pr_id (oe_prepared e))) (outbox_t db) \<noteq> None"
    "outbox_t db' = moved_outbox k now e (outbox_t db)"
  shows "entry_of k i db' = (if i = pr_id (oe_prepared e) then Some e else entry_of k i db)"
  using assms json_okD(4) [OF assms(1)]
  by (auto simp: entry_of_row moved_outbox_def tb_get_update)

interpretation stored_log: operation_log "\<lambda>db. json_ok k \<and> db_ok k db" "entry_of k" "move_of c k now rules"
proof (unfold_locales, goal_cases)
  case (1 s e s' i)
  then have "tb_get or_id (operation_key (pr_id (oe_prepared e))) (outbox_t s) \<noteq> None"
    "outbox_t s' = moved_outbox k now e (outbox_t s)"
    using write_transition_Inr [of c k now rules e s s'] by (auto simp: move_of_Some)
  with 1 show ?case by (intro entry_of_moved) simp_all
next
  case (2 s e s')
  then show ?case
    using write_transition_Inr [of c k now rules e s s'] by (auto simp: move_of_Some entry_of_row)
next
  case (3 s e s')
  then show ?case using write_transition_ok by (auto simp: move_of_Some)
qed

lemma db_ok_entry_id: "db_ok k db \<Longrightarrow> entry_of k i db = Some e \<Longrightarrow> pr_id (oe_prepared e) = i"
  by (auto simp: entry_of_row Option.bind_eq_Some_conv outbox_row_ok_def dest!: outbox_row_of)

section \<open>Reading the whole outbox\<close>

lemma decode_all_map:
  assumes "\<And>j. j \<in> set js \<Longrightarrow> f j \<noteq> None"
  shows "decode_all f js = Inr (map (\<lambda>j. the (f j)) js)"
  using assms
proof (induction js)
  case (Cons j js)
  then obtain x where "f j = Some x" by fastforce
  with Cons show ?case by simp
qed simp

lemma outbox_of_total:
  assumes "db_ok k db"
  shows "\<exists>es. outbox_of k db = Inr es \<and> (\<forall>e. e \<in> set es \<longleftrightarrow> (\<exists>i. entry_of k i db = Some e)) \<and>
    distinct (map (\<lambda>e. pr_id (oe_prepared e)) es)"
proof -
  let ?rs = "rev (sort_key or_updated_at (outbox_t db))"
  let ?e = "\<lambda>r. the (dec_entry k (or_data r))"
  have ok: "outbox_row_ok k r" if "r \<in> set (outbox_t db)" for r using assms that by (simp add: db_ok_def)
  have dec: "dec_entry k (or_data r) = Some (?e r)" "operation_key (pr_id (oe_prepared (?e r))) = or_id r"
    if "r \<in> set (outbox_t db)" for r using ok [OF that] by (auto simp: outbox_row_ok_def)
  have d: "distinct (map or_id (outbox_t db))" using assms by (simp add: db_ok_def)
  have "dec_entry k j \<noteq> None" if "j \<in> set (map or_data ?rs)" for j
    using that ok by (auto simp: outbox_row_ok_def)
  then have "decode_all (dec_entry k) (map or_data ?rs) = Inr (map (\<lambda>j. the (dec_entry k j)) (map or_data ?rs))"
    by (rule decode_all_map)
  then have "outbox_of k db = Inr (map ?e ?rs)"
    by (simp add: outbox_of_def comp_def)
  moreover have "e \<in> set (map ?e ?rs) \<longleftrightarrow> (\<exists>i. entry_of k i db = Some e)" for e
  proof
    assume "e \<in> set (map ?e ?rs)"
    then obtain r where r: "r \<in> set (outbox_t db)" "e = ?e r" by auto
    have "tb_get or_id (or_id r) (outbox_t db) = Some r" by (rule tb_get_distinct [OF d r(1)])
    then show "\<exists>i. entry_of k i db = Some e"
      using dec [OF r(1)] r(2) by (intro exI [of _ "pr_id (oe_prepared e)"]) (simp add: entry_of_row)
  next
    assume "\<exists>i. entry_of k i db = Some e"
    then obtain i r where "tb_get or_id (operation_key i) (outbox_t db) = Some r" "dec_entry k (or_data r) = Some e"
      by (auto simp: entry_of_row Option.bind_eq_Some_conv)
    then show "e \<in> set (map ?e ?rs)"
      using tb_get_Some [of or_id "operation_key i" "outbox_t db" r] by (simp add: image_iff) (metis option.sel)
  qed
  moreover have "distinct (map (\<lambda>e. pr_id (oe_prepared e)) (map ?e ?rs))"
  proof -
    have ids: "map (\<lambda>r. operation_key (pr_id (oe_prepared (?e r)))) ?rs = map or_id ?rs"
      using dec(2) by simp
    have "distinct (map or_id ?rs)"
      using d by (simp add: distinct_map)
    then have "distinct (map operation_key (map (\<lambda>r. pr_id (oe_prepared (?e r))) ?rs))"
      using ids by (simp add: comp_def del: map_eq_conv)
    then have "distinct (map (\<lambda>r. pr_id (oe_prepared (?e r))) ?rs)" by (simp only: distinct_map)
    then show ?thesis by (simp add: comp_def)
  qed
  ultimately show ?thesis by blast
qed

text \<open>Recovery turns every entry that was being sent into one with an unknown outcome.\<close>

definition recovered :: "outbox_entry \<Rightarrow> outbox_entry" where
  "recovered e =
     (if oe_state e = InFlight then e\<lparr>oe_state := UnknownOutcome, diagnostic := Some
        ''the process stopped after sending became possible; reconcile before submitting again''\<rparr> else e)"

lemma recovered_id [simp]: "oe_prepared (recovered e) = oe_prepared e"
  by (simp add: recovered_def)

lemma recover_entry_total:
  assumes "json_ok k" "entry_of k (pr_id (oe_prepared e)) db = Some e"
  shows "\<exists>db'. recover_entry c k now e db = Inr db' \<and>
    (\<forall>i. entry_of k i db' = (if i = pr_id (oe_prepared e) then Some (recovered e) else entry_of k i db))"
proof (cases "oe_state e = InFlight")
  case False
  with assms(2) show ?thesis by (auto simp: recover_entry_def recovered_def)
next
  case True
  from assms(2) obtain row where row: "tb_get or_id (operation_key (pr_id (oe_prepared e))) (outbox_t db) = Some row"
    "dec_entry k (or_data row) = Some e" by (auto simp: entry_of_row Option.bind_eq_Some_conv)
  let ?db = "db\<lparr>outbox_t := moved_outbox k now (recovered e) (outbox_t db)\<rparr>"
  have "recover_entry c k now e db = Inr ?db"
    using True row
    by (simp add: recover_entry_def recovered_def write_transition_def Let_def moved_outbox_def can_transition_def)
  moreover have "entry_of k i ?db = (if i = pr_id (oe_prepared e) then Some (recovered e) else entry_of k i db)" for i
    using entry_of_moved [OF assms(1), of "recovered e" db ?db] row by simp
  ultimately show ?thesis by blast
qed

lemma recover_all_total:
  assumes "json_ok k" "distinct (map (\<lambda>e. pr_id (oe_prepared e)) es)"
    and "\<And>e. e \<in> set es \<Longrightarrow> entry_of k (pr_id (oe_prepared e)) db = Some e"
  shows "\<exists>db'. recover_all c k now es db = (Inr (), db') \<and>
    (\<forall>i. entry_of k i db' = (if i \<in> (\<lambda>e. pr_id (oe_prepared e)) ` set es
       then map_option recovered (entry_of k i db) else entry_of k i db))"
  using assms(2,3)
proof (induction es arbitrary: db)
  case Nil
  then show ?case by simp
next
  case (Cons e es)
  obtain db1 where db1: "recover_entry c k now e db = Inr db1"
    "\<And>i. entry_of k i db1 = (if i = pr_id (oe_prepared e) then Some (recovered e) else entry_of k i db)"
    using recover_entry_total [OF assms(1), of e db c now] Cons.prems(2) by auto
  have "entry_of k (pr_id (oe_prepared x)) db1 = Some x" if "x \<in> set es" for x
    using that Cons.prems db1(2) by (auto simp: image_iff)
  with Cons.IH [of db1] Cons.prems(1) obtain db' where
    db': "recover_all c k now es db1 = (Inr (), db')"
    "\<And>i. entry_of k i db' = (if i \<in> (\<lambda>e. pr_id (oe_prepared e)) ` set es
       then map_option recovered (entry_of k i db1) else entry_of k i db1)" by auto
  have "entry_of k i db' = (if i \<in> (\<lambda>e. pr_id (oe_prepared e)) ` set (e # es)
       then map_option recovered (entry_of k i db) else entry_of k i db)" for i
    using db'(2) [of i] db1(2) [of i] Cons.prems by auto
  with db1(1) db'(1) show ?case by auto
qed

lemma recover_inflight_total:
  assumes "json_ok k" "db_ok k db"
  shows "\<exists>db'. recover_inflight c k now db = (Inr (), db') \<and> db_ok k db' \<and>
    (\<forall>i. entry_of k i db' = map_option recovered (entry_of k i db))"
proof -
  obtain es where es: "outbox_of k db = Inr es" "\<And>e. e \<in> set es \<longleftrightarrow> (\<exists>i. entry_of k i db = Some e)"
    "distinct (map (\<lambda>e. pr_id (oe_prepared e)) es)" using outbox_of_total [OF assms(2)] by blast
  have own: "entry_of k (pr_id (oe_prepared e)) db = Some e" if "e \<in> set es" for e
    using that es(2) db_ok_entry_id [OF assms(2)] by metis
  obtain db' where db': "recover_all c k now es db = (Inr (), db')"
    "\<And>i. entry_of k i db' = (if i \<in> (\<lambda>e. pr_id (oe_prepared e)) ` set es
       then map_option recovered (entry_of k i db) else entry_of k i db)"
    using recover_all_total [OF assms(1) es(3) own, of c now] by auto
  have "entry_of k i db' = map_option recovered (entry_of k i db)" for i
  proof (cases "entry_of k i db")
    case None
    then show ?thesis using db'(2) by simp
  next
    case (Some e)
    then have "e \<in> set es" "pr_id (oe_prepared e) = i" using es(2) db_ok_entry_id [OF assms(2)] by auto
    then show ?thesis using db'(2) Some by auto
  qed
  moreover have "db_ok k db'" using recover_all_ok [OF assms, of c now es] db'(1) by simp
  ultimately show ?thesis using db'(1) es(1) by (simp add: recover_inflight_def)
qed

section \<open>Reachable stores\<close>

text \<open>Every database that the operations of the store can produce from an empty one.\<close>

inductive store_reach :: "'a review_codec_scheme \<Rightarrow> 'j json \<Rightarrow> 'j db \<Rightarrow> bool" for c k where
  reach_empty: "store_reach c k empty_db"
| reach_put: "store_reach c k db \<Longrightarrow> put_snapshot c k now s db = Inr db' \<Longrightarrow> store_reach c k db'"
| reach_blame: "store_reach c k db \<Longrightarrow> save_blame k now i key found db = Inr db' \<Longrightarrow> store_reach c k db'"
| reach_save: "store_reach c k db \<Longrightarrow> save_draft c k d db = Inr (v, db') \<Longrightarrow> store_reach c k db'"
| reach_discard: "store_reach c k db \<Longrightarrow> discard_draft j v db = Inr db' \<Longrightarrow> store_reach c k db'"
| reach_view: "store_reach c k db \<Longrightarrow> save_view k i w db = Inr db' \<Longrightarrow> store_reach c k db'"
| reach_settings: "store_reach c k db \<Longrightarrow> store_reach c k (save_settings k t db)"
| reach_show: "store_reach c k db \<Longrightarrow> store_reach c k (show_recent now i db)"
| reach_hide: "store_reach c k db \<Longrightarrow> store_reach c k (hide_recent hid db)"
| reach_prepare: "store_reach c k db \<Longrightarrow> insert_prepared c k now rules p db = Inr (e, db') \<Longrightarrow> store_reach c k db'"
| reach_move: "store_reach c k db \<Longrightarrow> transition c k now rules e db = Inr db' \<Longrightarrow> store_reach c k db'"
| reach_open: "store_reach c k db \<Longrightarrow> store_reach c k (snd (store_open c k now db))"

lemma save_blame_ok:
  assumes "db_ok k db" "save_blame k now i key found db = Inr db'"
  shows "db_ok k db'"
proof -
  obtain db1 where db1: "foldE (save_blame_row k (snapshot_key i) key) found db = Inr db1"
    "db' = touch_snapshot now (snapshot_key i) db1"
    using assms(2) by (auto simp: save_blame_def bind_simps)
  from db1(1) assms(1) have "db_ok k db1"
    by (rule foldE_invariant) (use save_blame_row_ok in blast)
  with db1(2) show ?thesis by (simp add: touch_snapshot_ok)
qed

lemma save_settings_ok: "db_ok k db \<Longrightarrow> db_ok k (save_settings k t db)"
  by (simp add: save_settings_def db_ok_def snapshot_ids_def)

lemma reach_db_ok: "store_reach c k db \<Longrightarrow> json_ok k \<Longrightarrow> db_ok k db"
proof (induction rule: store_reach.induct)
  case (reach_put db now s db')
  then show ?case using put_snapshot_ok by blast
next
  case (reach_move db now rules e db')
  then show ?case using write_transition_ok unfolding transition_def by blast
qed (auto intro: empty_db_ok save_blame_ok save_draft_ok discard_draft_ok save_view_ok save_settings_ok
    show_recent_ok hide_recent_ok insert_prepared_ok store_open_ok)

section \<open>Stored drafts\<close>

definition stored_draft :: "'j json \<Rightarrow> draft_id \<Rightarrow> 'j db \<Rightarrow> draft option" where
  "stored_draft k i db =
     Option.bind (tb_get dr_id (draft_key i) (drafts_t db)) (\<lambda>r. dec_draft k (dr_data r))"

lemma draft_key_eq [simp]: "draft_key a = draft_key b \<longleftrightarrow> a = b"
  by (metis draft_id.expand)

lemma stored_draft_listed:
  assumes "db_ok k db"
  shows "\<exists>ds. drafts_of k s db = Inr ds \<and>
    (\<forall>d. d \<in> set ds \<longleftrightarrow> stored_draft k (d_id d) db = Some d \<and> d_snapshot d = s)"
proof -
  let ?rs = "sort_key dr_id (filter (\<lambda>r. dr_snapshot_id r = snapshot_key s) (drafts_t db))"
  let ?d = "\<lambda>r. the (dec_draft k (dr_data r))"
  have ok: "draft_row_ok k r" if "r \<in> set (drafts_t db)" for r using assms that by (simp add: db_ok_def)
  have d: "distinct (map dr_id (drafts_t db))" using assms by (simp add: db_ok_def)
  have sk: "snapshot_key a = snapshot_key b \<longleftrightarrow> a = b" for a b by (metis snapshot_id.expand)
  have "dec_draft k j \<noteq> None" if "j \<in> set (map dr_data ?rs)" for j
    using that ok by (auto simp: draft_row_ok_def)
  then have "decode_all (dec_draft k) (map dr_data ?rs) = Inr (map (\<lambda>j. the (dec_draft k j)) (map dr_data ?rs))"
    by (rule decode_all_map)
  then have 1: "drafts_of k s db = Inr (map ?d ?rs)" by (simp add: drafts_of_def comp_def)
  have 2: "x \<in> set (map ?d ?rs) \<longleftrightarrow> stored_draft k (d_id x) db = Some x \<and> d_snapshot x = s" for x
  proof
    assume "x \<in> set (map ?d ?rs)"
    then obtain r where r: "r \<in> set (drafts_t db)" "dr_snapshot_id r = snapshot_key s" "x = ?d r" by auto
    from ok [OF r(1)] r(2,3) have "dec_draft k (dr_data r) = Some x" "draft_key (d_id x) = dr_id r" "d_snapshot x = s"
      by (auto simp: draft_row_ok_def sk)
    with tb_get_distinct [OF d r(1)] show "stored_draft k (d_id x) db = Some x \<and> d_snapshot x = s"
      by (simp add: stored_draft_def)
  next
    assume "stored_draft k (d_id x) db = Some x \<and> d_snapshot x = s"
    then obtain r where r: "tb_get dr_id (draft_key (d_id x)) (drafts_t db) = Some r" "dec_draft k (dr_data r) = Some x"
      "d_snapshot x = s" by (auto simp: stored_draft_def Option.bind_eq_Some_conv)
    have "r \<in> set (drafts_t db)" "dr_snapshot_id r = snapshot_key s"
      using draft_row_of [OF assms r(1)] r(2,3) by (auto simp: draft_row_ok_def)
    with r(2) show "x \<in> set (map ?d ?rs)" by (simp add: image_iff) (metis option.sel)
  qed
  from 1 2 show ?thesis by blast
qed

lemma save_draft_stored:
  assumes "json_ok k" "save_draft c k d db = Inr (v, db')"
  shows "stored_draft k i db' = (if i = d_id d then Some (d\<lparr>d_saved_version := d_version d\<rparr>) else stored_draft k i db)"
  using save_draft_Inr [OF assms(2)] json_okD(2) [OF assms(1)]
  by (auto simp: stored_draft_def tb_get_upsert split: option.split)

section \<open>A concrete JSON\<close>

text \<open>A text that remembers the value it was written from, for evaluating the model.\<close>

datatype json_text = JSnapshot snapshot | JDraft draft | JView saved_view | JEntry outbox_entry
  | JBlame "blamed_range list" | JSettings settings | JPacked json_text

definition plain_json :: "json_text json" where
  "plain_json =
     \<lparr>enc_snapshot = (\<lambda>s. JSnapshot (written_snapshot s)),
      dec_snapshot = (\<lambda>j. case j of JSnapshot s \<Rightarrow> Some s | _ \<Rightarrow> None),
      enc_draft = JDraft, dec_draft = (\<lambda>j. case j of JDraft d \<Rightarrow> Some d | _ \<Rightarrow> None),
      enc_view = JView, dec_view = (\<lambda>j. case j of JView v \<Rightarrow> Some v | _ \<Rightarrow> None),
      enc_entry = JEntry, dec_entry = (\<lambda>j. case j of JEntry e \<Rightarrow> Some e | _ \<Rightarrow> None),
      enc_blame = JBlame, dec_blame = (\<lambda>j. case j of JBlame b \<Rightarrow> Some b | _ \<Rightarrow> None),
      enc_settings = JSettings, dec_settings = (\<lambda>j. case j of JSettings s \<Rightarrow> Some s | _ \<Rightarrow> None),
      deflate = JPacked, inflate = (\<lambda>j. case j of JPacked t \<Rightarrow> Some t | _ \<Rightarrow> None),
      extract_snapshot = (\<lambda>j. case j of JEntry e \<Rightarrow> Some (Some (snapshot_key (pr_snapshot (oe_prepared e)))) | _ \<Rightarrow> None)\<rparr>"

lemma plain_json_ok: "json_ok plain_json"
  by (simp add: json_ok_def plain_json_def)

definition sample_db :: "json_text db" where
  "sample_db = empty_db\<lparr>snapshots_t := [\<lparr>sr_id = [], sr_title = ''t'',
     sr_data = SqlBlob (JPacked (JSnapshot sample_snapshot)), sr_updated_at = 1\<rparr>]\<rparr>"

lemma sample_snapshot_of: "snapshot_of sample_codec plain_json (SnapshotId []) sample_db = Inr sample_snapshot"
  by (simp add: snapshot_of_def sample_db_def empty_db_def tb_get_def plain_json_def verify_identity_def
      sample_snapshot_code sample_identity default_overview_def)

lemma sample_db_ok: "db_ok plain_json sample_db"
  by (simp add: db_ok_def sample_db_def empty_db_def)

lemma sample_save:
  assumes "d_file d = FileId ''f1''" "d_snapshot d = SnapshotId []" "\<not> d_published d" "0 < d_version d"
    "d_version d \<le> i64_max" "length (d_body d) \<le> 1024 * 1024"
    "d_file_level d \<or> eligible sample_change (d_side d) (d_start_line d) (d_line d)"
  shows "\<exists>db'. save_draft sample_codec plain_json d sample_db = Inr (d_version d, db') \<and>
    db' = sample_db\<lparr>drafts_t := [\<lparr>dr_id = draft_key (d_id d), dr_snapshot_id = [], dr_version = as_i64 (d_version d),
      dr_data = JDraft (d\<lparr>d_saved_version := d_version d\<rparr>), dr_published = False\<rparr>]\<rparr>"
proof -
  have "snap_file sample_snapshot (FileId ''f1'') = Some sample_change" by code_simp
  moreover have "drafts_t sample_db = []" by (simp add: sample_db_def empty_db_def)
  moreover have "enc_draft plain_json = JDraft" by (simp add: plain_json_def)
  ultimately show ?thesis
    using assms by (auto simp: save_draft_def sample_snapshot_of tb_get_def tb_upsert_def is_file_level_def Let_def)
qed

section \<open>Properties\<close>

text \<open>
  Claim C7. Every database the store can reach is consistent: ids are unique,
  every draft row decodes to the draft its columns describe and is saved, every
  outbox row decodes and its state column names its state, and drafts, views,
  attributions and hidden entries only refer to stored snapshots.
\<close>

theorem store_invariant:
  assumes "json_ok k" "store_reach c k db"
  shows "db_ok k db"
  using reach_db_ok assms by blast

theorem store_invariant_witness:
  "db_ok plain_json (hide_recent None (save_settings plain_json default_settings empty_db))"
  by (rule store_invariant [OF plain_json_ok, of sample_review_codec])
     (intro reach_hide reach_settings reach_empty)

text \<open>
  A stored snapshot reads back as it was written, without the paths
  whose blame was never read: verification succeeds and attribution of an
  earlier release list under the same id is gone.
\<close>

theorem snapshot_roundtrip:
  assumes "json_ok k" "put_snapshot c k now s db = Inr db'"
  shows "snapshot_of c k (snap_id s) db' = Inr (written_snapshot s)"
proof -
  from assms(2) have v: "verify_identity c s" and db': "db' = db\<lparr>snapshot_blame_t :=
      filter (\<lambda>r. br_snapshot_id r \<noteq> snapshot_key (snap_id s)) (snapshot_blame_t db),
      snapshots_t := tb_upsert sr_id \<lparr>sr_id = snapshot_key (snap_id s), sr_title = snap_title s,
        sr_data = SqlBlob (deflate k (enc_snapshot k s)), sr_updated_at = now\<rparr>
      (\<lambda>r. r\<lparr>sr_title := snap_title s, sr_data := SqlBlob (deflate k (enc_snapshot k s)), sr_updated_at := now\<rparr>)
      (snapshots_t db)\<rparr>"
    by (auto simp: put_snapshot_def bind_simps Let_def)
  have "\<exists>row. tb_get sr_id (snapshot_key (snap_id s)) (snapshots_t db') = Some row \<and>
      sr_data row = SqlBlob (deflate k (enc_snapshot k s))"
    unfolding db' by (simp add: tb_get_upsert split: option.split)
  moreover have "filter (\<lambda>r. br_snapshot_id r = snapshot_key (snap_id s) \<and> P r) (snapshot_blame_t db') = []" for P
    unfolding db' by (simp add: filter_empty_conv)
  moreover have "verify_identity c (written_snapshot s)" using v by (simp add: verify_identity_def written_snapshot_def)
  ultimately show ?thesis
    using json_okD(1,7) [OF assms(1)] by (auto simp: snapshot_of_def)
qed

theorem snapshot_roundtrip_witness:
  "\<exists>db'. put_snapshot sample_codec plain_json 1 sample_snapshot empty_db = Inr db' \<and>
     snapshot_of sample_codec plain_json (SnapshotId []) db' = Inr (written_snapshot sample_snapshot)"
proof -
  have "verify_identity sample_codec sample_snapshot"
    by (simp add: verify_identity_def sample_snapshot_code sample_identity)
  then obtain db' where "put_snapshot sample_codec plain_json 1 sample_snapshot empty_db = Inr db'"
    by (simp add: put_snapshot_def Let_def)
  with snapshot_roundtrip [OF plain_json_ok this] show ?thesis
    by (simp add: sample_snapshot_code)
qed

text \<open>
  A saved draft is durable: after an acknowledged save the store lists
  the draft with exactly the acknowledged text and version, marked as saved,
  every other draft of any snapshot is listed as before, and the acknowledged
  version is never smaller than a stored one.
\<close>

theorem save_draft_durable:
  assumes "json_ok k" "db_ok k db" "save_draft c k d db = Inr (v, db')"
  shows "\<exists>ds. drafts_of k (d_snapshot d) db' = Inr ds \<and> d\<lparr>d_saved_version := v\<rparr> \<in> set ds \<and> v = d_version d \<and>
     (\<forall>i. i \<noteq> d_id d \<longrightarrow> stored_draft k i db' = stored_draft k i db) \<and>
     (\<forall>p. stored_draft k (d_id d) db = Some p \<longrightarrow>
        d_version p \<le> v \<and> (d_version p = v \<longrightarrow> d_body p = d_body d) \<and> \<not> d_published p \<and>
        d_file p = d_file d \<and> d_side p = d_side d \<and> d_start_line p = d_start_line d \<and> d_line p = d_line d)"
proof -
  note s = save_draft_Inr [OF assms(3)]
  have "db_ok k db'" by (rule save_draft_ok [OF assms])
  from stored_draft_listed [OF this, of "d_snapshot d"] obtain ds where
    ds: "drafts_of k (d_snapshot d) db' = Inr ds"
    "\<And>x. x \<in> set ds \<longleftrightarrow> stored_draft k (d_id x) db' = Some x \<and> d_snapshot x = d_snapshot d" by blast
  have "d\<lparr>d_saved_version := v\<rparr> \<in> set ds"
    using ds(2) save_draft_stored [OF assms(1,3)] s by simp
  moreover have "d_version p \<le> v \<and> (d_version p = v \<longrightarrow> d_body p = d_body d) \<and> \<not> d_published p \<and>
        d_file p = d_file d \<and> d_side p = d_side d \<and> d_start_line p = d_start_line d \<and> d_line p = d_line d"
    if "stored_draft k (d_id d) db = Some p" for p
    using that s by (auto simp: stored_draft_def Option.bind_eq_Some_conv check_stored_Inr)
  ultimately show ?thesis using ds(1) s save_draft_stored [OF assms(1,3)] by auto
qed


theorem save_draft_durable_witness:
  "\<exists>db' ds. save_draft sample_codec plain_json sample_draft sample_db = Inr (3, db') \<and>
     drafts_of plain_json (SnapshotId []) db' = Inr ds \<and> sample_draft\<lparr>d_saved_version := 3\<rparr> \<in> set ds"
proof -
  have e: "eligible sample_change SideRight 5 6" by code_simp
  obtain db' where s: "save_draft sample_codec plain_json sample_draft sample_db = Inr (d_version sample_draft, db')"
    using sample_save [of sample_draft] e by (auto simp: sample_draft_def i64_max_def)
  from save_draft_durable [OF plain_json_ok sample_db_ok this] s show ?thesis
    by (auto simp: sample_draft_def)
qed

text \<open>
  The stored anchor of a draft is not complete: a line comment that is
  saved again, with the same version and text but marked as a comment on the
  whole file, is accepted, and the stored draft no longer covers the line, although
  the store promises that the source identity of a draft cannot be rewritten.
\<close>

theorem save_draft_rewrites_anchor:
  "\<exists>db' db''. save_draft sample_codec plain_json sample_draft sample_db = Inr (3, db') \<and>
     save_draft sample_codec plain_json (sample_draft\<lparr>d_file_level := True\<rparr>) db' = Inr (3, db'') \<and>
     map_option d_file_level (stored_draft plain_json (DraftId ''d1'') db') = Some False \<and>
     map_option d_file_level (stored_draft plain_json (DraftId ''d1'') db'') = Some True"
proof -
  have e: "eligible sample_change SideRight 5 6" by code_simp
  let ?db = "sample_db\<lparr>drafts_t := [\<lparr>dr_id = ''d1'', dr_snapshot_id = [], dr_version = as_i64 3,
      dr_data = JDraft (sample_draft\<lparr>d_saved_version := 3\<rparr>), dr_published = False\<rparr>]\<rparr>"
  have 1: "save_draft sample_codec plain_json sample_draft sample_db = Inr (3, ?db)"
    using sample_save [of sample_draft] e by (auto simp: sample_draft_def i64_max_def)
  have f: "snap_file sample_snapshot (FileId ''f1'') = Some sample_change" by code_simp
  have s: "snapshot_of sample_codec plain_json (SnapshotId []) ?db = Inr sample_snapshot"
    using sample_snapshot_of by (simp add: snapshot_of_def)
  obtain db'' where 2: "save_draft sample_codec plain_json (sample_draft\<lparr>d_file_level := True\<rparr>) ?db = Inr (3, db'')"
    using s f by (auto simp: save_draft_def sample_draft_def i64_max_def tb_get_def plain_json_def
        is_file_level_def check_stored_def Let_def)
  show ?thesis
    using 1 2 save_draft_stored [OF plain_json_ok 1, of "DraftId ''d1''"]
      save_draft_stored [OF plain_json_ok 2, of "DraftId ''d1''"]
    by (intro exI conjI) (auto simp: sample_draft_def)
qed

section \<open>Pruning and publication\<close>

text \<open>States whose snapshot must stay, as the column stores them.\<close>

definition unresolved_or_prepared :: "outbox_state \<Rightarrow> bool" where
  "unresolved_or_prepared s \<longleftrightarrow> s \<in> {Prepared, InFlight, UnknownOutcome}"

lemma state_column:
  "state_as_str s \<in> {''prepared'', ''in_flight'', ''unknown''} \<longleftrightarrow> unresolved_or_prepared s"
  by (cases s) (simp_all add: state_as_str_def unresolved_or_prepared_def)

lemma doomed_total:
  assumes "db_ok k db"
  shows "\<exists>ids. doomed k keep db = Inr ids \<and>
    (\<forall>x \<in> set ids. x \<in> snapshot_ids db \<and>
       x \<notin> set (map sr_id (take keep (newest_first (snapshots_t db)))) \<and>
       (\<forall>r \<in> set (drafts_t db). dr_snapshot_id r = x \<longrightarrow> dr_published r) \<and>
       (\<forall>i e. entry_of k i db = Some e \<and> unresolved_or_prepared (oe_state e) \<longrightarrow>
          snapshot_key (pr_snapshot (oe_prepared e)) \<noteq> x))"
proof -
  let ?rs = "filter (\<lambda>r. or_state r \<in> {''prepared'', ''in_flight'', ''unknown''}) (outbox_t db)"
  let ?x = "\<lambda>j. the (extract_snapshot k j)"
  have ok: "outbox_row_ok k r" if "r \<in> set (outbox_t db)" for r using assms that by (simp add: db_ok_def)
  have "extract_snapshot k j \<noteq> None" if "j \<in> set (map or_data ?rs)" for j
    using that ok by (auto simp: outbox_row_ok_def)
  then have pins: "decode_all (extract_snapshot k) (map or_data ?rs) = Inr (map ?x (map or_data ?rs))"
    by (rule decode_all_map)
  define ids where "ids = map sr_id (filter (\<lambda>r.
       sr_id r \<notin> set (map sr_id (take keep (newest_first (snapshots_t db)))) \<and>
       \<not> list_ex (\<lambda>d. dr_snapshot_id d = sr_id r \<and> \<not> dr_published d) (drafts_t db) \<and>
       list_all (\<lambda>x. x \<noteq> None \<and> x \<noteq> Some (sr_id r)) (map ?x (map or_data ?rs))) (snapshots_t db))"
  have 1: "doomed k keep db = Inr ids"
    unfolding doomed_def ids_def by (simp only: pins bindE_Inr)
  have 2: "snapshot_key (pr_snapshot (oe_prepared e)) \<noteq> x"
    if x: "x \<in> set ids" and e: "entry_of k i db = Some e" "unresolved_or_prepared (oe_state e)" for x i e
  proof -
    from e(1) obtain r where r: "tb_get or_id (operation_key i) (outbox_t db) = Some r" "dec_entry k (or_data r) = Some e"
      by (auto simp: entry_of_row Option.bind_eq_Some_conv)
    have row: "r \<in> set (outbox_t db)" "outbox_row_ok k r" using outbox_row_of [OF assms r(1)] by auto
    then have "r \<in> set ?rs" "?x (or_data r) = Some (snapshot_key (pr_snapshot (oe_prepared e)))"
      using r(2) e(2) state_column [of "oe_state e"] by (auto simp: outbox_row_ok_def)
    with x show ?thesis unfolding ids_def list_all_iff by fastforce
  qed
  have 3: "x \<in> snapshot_ids db \<and> x \<notin> set (map sr_id (take keep (newest_first (snapshots_t db)))) \<and>
       (\<forall>r \<in> set (drafts_t db). dr_snapshot_id r = x \<longrightarrow> dr_published r)" if "x \<in> set ids" for x
    using that by (auto simp: ids_def snapshot_ids_def list_ex_iff)
  from 1 2 3 show ?thesis by blast
qed

lemma prune_total:
  assumes "db_ok k db"
  shows "\<exists>n db'. prune k keep db = Inr (n, db') \<and> outbox_t db' = outbox_t db \<and>
    (\<forall>r \<in> set (drafts_t db). \<not> dr_published r \<longrightarrow> r \<in> set (drafts_t db')) \<and>
    (\<forall>r \<in> set (take keep (newest_first (snapshots_t db))). r \<in> set (snapshots_t db')) \<and>
    (\<forall>i e. entry_of k i db = Some e \<and> unresolved_or_prepared (oe_state e) \<and>
        snapshot_key (pr_snapshot (oe_prepared e)) \<in> snapshot_ids db \<longrightarrow>
        snapshot_key (pr_snapshot (oe_prepared e)) \<in> snapshot_ids db')"
proof -
  obtain ids where ids: "doomed k keep db = Inr ids"
    "\<And>x. x \<in> set ids \<Longrightarrow> x \<notin> set (map sr_id (take keep (newest_first (snapshots_t db))))"
    "\<And>x r. x \<in> set ids \<Longrightarrow> r \<in> set (drafts_t db) \<Longrightarrow> dr_snapshot_id r = x \<Longrightarrow> dr_published r"
    "\<And>x i e. x \<in> set ids \<Longrightarrow> entry_of k i db = Some e \<Longrightarrow> unresolved_or_prepared (oe_state e) \<Longrightarrow>
          snapshot_key (pr_snapshot (oe_prepared e)) \<noteq> x"
    using doomed_total [OF assms, of keep] by blast
  have newest: "set (take keep (newest_first (snapshots_t db))) \<subseteq> set (snapshots_t db)"
    using set_take_subset [of keep "newest_first (snapshots_t db)"] by (simp add: newest_first_def)
  define db' where "db' = snd (projr (prune k keep db))"
  have p: "prune k keep db = Inr (length (filter (\<lambda>r. sr_id r \<in> set ids) (snapshots_t db)), db')"
    and t: "outbox_t db' = outbox_t db" "drafts_t db' = filter (\<lambda>r. dr_snapshot_id r \<notin> set ids) (drafts_t db)"
      "snapshots_t db' = filter (\<lambda>r. sr_id r \<notin> set ids) (snapshots_t db)"
    by (simp_all add: db'_def prune_def ids(1) Let_def)
  have d: "\<forall>r \<in> set (drafts_t db). \<not> dr_published r \<longrightarrow> r \<in> set (drafts_t db')"
    using ids(3) t(2) by auto
  have s: "\<forall>r \<in> set (take keep (newest_first (snapshots_t db))). r \<in> set (snapshots_t db')"
    using ids(2) newest t(3) by auto
  have "\<forall>i e. entry_of k i db = Some e \<and> unresolved_or_prepared (oe_state e) \<and>
        snapshot_key (pr_snapshot (oe_prepared e)) \<in> snapshot_ids db \<longrightarrow>
        snapshot_key (pr_snapshot (oe_prepared e)) \<in> snapshot_ids db'"
    using ids(4) t(3) by (auto simp: snapshot_ids_def)
  with p t(1) d s show ?thesis by blast
qed

lemma entry_of_outbox: "outbox_t db = outbox_t db' \<Longrightarrow> entry_of k i db = entry_of k i db'"
  by (simp add: entry_of_row)

definition matches_comment :: "draft_id \<Rightarrow> draft \<Rightarrow> prepared_comment \<Rightarrow> bool" where
  "matches_comment i d m \<longleftrightarrow> pc_draft m = i \<and> pc_version m = d_version d \<and> pc_body m = d_body d"

lemma publish_comment_stored:
  assumes "json_ok k" "db_ok k db" "publish_comment k m db = Inr db'"
  shows "stored_draft k i db' =
    map_option (\<lambda>d. if matches_comment i d m then d\<lparr>d_published := True\<rparr> else d) (stored_draft k i db)"
proof (cases "tb_get dr_id (draft_key (pc_draft m)) (drafts_t db)")
  case None
  with assms(3) have "db' = db" by (simp add: publish_comment_def)
  moreover have "stored_draft k (pc_draft m) db = None" using None by (simp add: stored_draft_def)
  ultimately show ?thesis
    by (cases "stored_draft k i db") (auto simp: matches_comment_def)
next
  case (Some row)
  then obtain d where d: "dec_draft k (dr_data row) = Some d"
    using assms(3) by (auto simp: publish_comment_def bind_simps)
  have id: "d_id d = pc_draft m"
    using draft_row_of [OF assms(2) Some] d by (auto simp: draft_row_ok_def)
  have sd: "stored_draft k (pc_draft m) db = Some d" using Some d by (simp add: stored_draft_def)
  show ?thesis
  proof (cases "d_version d = pc_version m \<and> d_body d = pc_body m")
    case True
    then have "db' = db\<lparr>drafts_t := tb_update dr_id (draft_key (pc_draft m))
        (\<lambda>r. r\<lparr>dr_published := True, dr_data := enc_draft k (d\<lparr>d_published := True\<rparr>)\<rparr>) (drafts_t db)\<rparr>"
      using assms(3) Some d id by (simp add: publish_comment_def bind_simps)
    then have "stored_draft k i db' = (if i = pc_draft m then Some (d\<lparr>d_published := True\<rparr>) else stored_draft k i db)"
      using Some json_okD(2) [OF assms(1)] by (simp add: stored_draft_def tb_get_update)
    with True sd show ?thesis by (cases "stored_draft k i db") (auto simp: matches_comment_def)
  next
    case False
    then have "db' = db" using assms(3) Some d by (auto simp: publish_comment_def bind_simps)
    with False sd show ?thesis by (cases "stored_draft k i db") (auto simp: matches_comment_def)
  qed
qed

lemma publish_comments_stored:
  assumes "json_ok k" "db_ok k db" "foldE (publish_comment k) ms db = Inr db'"
  shows "stored_draft k i db' =
    map_option (\<lambda>d. if list_ex (matches_comment i d) ms then d\<lparr>d_published := True\<rparr> else d) (stored_draft k i db)"
  using assms(2,3)
proof (induction ms arbitrary: db)
  case Nil
  then show ?case by (simp add: option.map_ident)
next
  case (Cons m ms)
  then obtain db1 where db1: "publish_comment k m db = Inr db1" "foldE (publish_comment k) ms db1 = Inr db'"
    by (auto simp: bind_simps)
  have "db_ok k db1" by (rule publish_comment_ok [OF assms(1) Cons.prems(1) db1(1)])
  from Cons.IH [OF this db1(2)] publish_comment_stored [OF assms(1) Cons.prems(1) db1(1), of i] show ?case
    by (cases "stored_draft k i db") (auto simp: matches_comment_def)
qed

lemma recovered_state: "oe_state (recovered e) \<noteq> InFlight"
  by (simp add: recovered_def)

lemma recover_entry_drafts: "recover_entry c k now e db = Inr db' \<Longrightarrow> drafts_t db' = drafts_t db"
  by (auto simp: recover_entry_def dest!: write_transition_Inr split: if_splits)

lemma recover_all_drafts: "drafts_t (snd (recover_all c k now es db)) = drafts_t db"
proof (induction es arbitrary: db)
  case (Cons e es)
  then show ?case by (cases "recover_entry c k now e db") (simp_all add: recover_entry_drafts)
qed simp

lemma recover_inflight_drafts: "recover_inflight c k now db = (x, db') \<Longrightarrow> drafts_t db' = drafts_t db"
  using recover_all_drafts [of c k now _ db]
  by (auto simp: recover_inflight_def split: sum.splits) (metis snd_conv)

section \<open>Properties of opening, pruning and publication\<close>

text \<open>
  Claim C4. Opening a consistent store always succeeds, also after a crash in
  the middle of a publication: every operation that was being sent is afterwards
  recorded with an unknown outcome and every other operation is unchanged, so
  that none is in flight; unpublished drafts and the snapshots of operations that
  are not resolved survive the pruning of old reviews.
\<close>

theorem store_open_recovers:
  assumes "json_ok k" "db_ok k db"
  shows "\<exists>db'. store_open c k now db = (Inr (), db') \<and> db_ok k db' \<and>
     (\<forall>i. entry_of k i db' = map_option recovered (entry_of k i db)) \<and>
     (\<forall>i e. entry_of k i db' = Some e \<longrightarrow> oe_state e \<noteq> InFlight) \<and>
     (\<forall>r \<in> set (drafts_t db). \<not> dr_published r \<longrightarrow> r \<in> set (drafts_t db'))"
proof -
  obtain db1 where db1: "recover_inflight c k now db = (Inr (), db1)" "db_ok k db1"
    "\<And>i. entry_of k i db1 = map_option recovered (entry_of k i db)"
    using recover_inflight_total [OF assms, of c now] by blast
  obtain n db2 where db2: "prune k KEEP_RECENT db1 = Inr (n, db2)" "outbox_t db2 = outbox_t db1"
    "\<forall>r \<in> set (drafts_t db1). \<not> dr_published r \<longrightarrow> r \<in> set (drafts_t db2)"
    using prune_total [OF db1(2), of KEEP_RECENT] by blast
  have op: "store_open c k now db = (Inr (), db2)" by (simp add: store_open_def db1(1) db2(1))
  have e: "entry_of k i db2 = map_option recovered (entry_of k i db)" for i
    using entry_of_outbox [OF db2(2), of k i] db1(3) by simp
  have dr: "drafts_t db1 = drafts_t db" using recover_inflight_drafts [OF db1(1)] .
  have "oe_state x \<noteq> InFlight" if "entry_of k i db2 = Some x" for i x
    using that e [of i] recovered_state by auto
  moreover have "db_ok k db2" by (rule prune_ok [OF db1(2) db2(1)])
  ultimately show ?thesis using op e db2(3) dr by auto
qed


definition sending_entry :: outbox_entry where
  "sending_entry = \<lparr>oe_prepared = sample_review ''a'', oe_state = InFlight, baseline_review_ids = [],
     remote_id = None, diagnostic = None\<rparr>"

definition crashed_db :: "json_text db" where
  "crashed_db = sample_db\<lparr>outbox_t := [\<lparr>or_id = ''op'', or_state = ''in_flight'',
     or_data = JEntry sending_entry, or_updated_at = 5\<rparr>]\<rparr>"

lemma crashed_db_ok: "db_ok plain_json crashed_db"
  using sample_db_ok
  by (auto simp: crashed_db_def db_ok_def snapshot_ids_def outbox_row_ok_def plain_json_def sending_entry_def
      sample_review_def state_as_str_def)

theorem store_open_recovers_witness:
  "\<exists>db'. store_open sample_review_codec plain_json 9 crashed_db = (Inr (), db') \<and>
     map_option oe_state (entry_of plain_json (OperationId ''op'') db') = Some UnknownOutcome"
proof -
  have "entry_of plain_json (OperationId ''op'') crashed_db = Some sending_entry"
    by (simp add: entry_of_row crashed_db_def tb_get_def plain_json_def)
  with store_open_recovers [OF plain_json_ok crashed_db_ok, of sample_review_codec 9] show ?thesis
    by (auto simp: recovered_def sending_entry_def)
qed



text \<open>
  The saved view of a review is the newest one: a write with an older
  revision than the stored one is ignored, any other write is what the next read
  returns, and views of other reviews are untouched.
\<close>

theorem save_view_newest:
  assumes "json_ok k" "save_view k i v db = Inr db'"
  shows "view_of k i db' =
       (case tb_get vr_snapshot_id (snapshot_key i) (views_t db) of
          None \<Rightarrow> Inr v
        | Some r \<Rightarrow> if vr_revision r \<le> int (min (sv_revision v) i64_max) then Inr v else view_of k i db) \<and>
     (\<forall>j. j \<noteq> i \<longrightarrow> view_of k j db' = view_of k j db)"
proof -
  have sk: "snapshot_key a = snapshot_key b \<longleftrightarrow> a = b" for a b by (metis snapshot_id.expand)
  show ?thesis
    using assms(2) json_okD(3) [OF assms(1)]
    by (auto simp: save_view_def bind_simps Let_def view_of_def tb_get_upsert sk split: option.split)
qed

theorem save_view_newest_witness:
  "\<exists>db'. save_view plain_json (SnapshotId []) default_view sample_db = Inr db' \<and>
     view_of plain_json (SnapshotId []) db' = Inr default_view"
proof -
  obtain db' where "save_view plain_json (SnapshotId []) default_view sample_db = Inr db'"
    by (simp add: save_view_def Let_def sample_db_def tb_get_def)
  with save_view_newest [OF plain_json_ok this] show ?thesis
    by (auto simp: sample_db_def empty_db_def tb_get_def)
qed

end
