(* ===== verification/Outbox.thy ===== *)
theory Outbox
  imports Store "HOL-Library.Multiset" "HOL-Library.Product_Lexorder"
begin

text \<open>
  Publication of a prepared review, \<open>crates/adapters/src/outbox.rs\<close>, over the
  store. What the remote answers to each call is an argument: the records
  \<open>publish_answers\<close> and \<open>reconcile_answers\<close> hold the answers of one run, one
  field per call, since the remote may change between two calls. A JSON value
  (\<open>serde_json::Value\<close>) has an arbitrary type \<open>'v\<close>; the record \<open>value_api\<close> holds the
  accessors the code calls on it.
\<close>

section \<open>Remote values\<close>

record 'v value_api =
  v_get :: "'v \<Rightarrow> str \<Rightarrow> 'v"
  v_str :: "'v \<Rightarrow> str option"
  v_u64 :: "'v \<Rightarrow> nat option"

datatype 'v send_outcome = Accepted 'v | SendRejected nat | SendUnknown str

definition same_pr :: "remote_target \<Rightarrow> remote_target \<Rightarrow> bool" where
  "same_pr a b \<longleftrightarrow> rt_provider a = rt_provider b \<and> rt_repository a = rt_repository b \<and>
     rt_pr a = rt_pr b \<and> rt_account a = rt_account b"

definition matches_metadata :: "'v value_api \<Rightarrow> prepared_review \<Rightarrow> 'v \<Rightarrow> bool \<Rightarrow> bool" where
  "matches_metadata a p r marked \<longleftrightarrow>
     \<not> (marked \<and> v_str a (v_get a r ''fingerprint'') \<noteq> Some (fingerprint p)) \<and>
     v_str a (v_get a r ''commit_id'') = Some (rt_head (pr_target p)) \<and>
     v_str a (v_get a r ''state'') = Some (remote_state (pr_verdict p)) \<and>
     (case v_str a (v_get a r ''body'') of None \<Rightarrow> [] | Some s \<Rightarrow> s) = pr_summary p \<and>
     v_str a (v_get a (v_get a r ''user'') ''login'') = Some (rt_account (pr_target p))"

type_synonym comment_tuple = "str \<times> str \<times> str \<times> nat \<times> nat"

definition or_else :: "'x option \<Rightarrow> 'x option \<Rightarrow> 'x option" where
  "or_else a b = (case a of None \<Rightarrow> b | Some x \<Rightarrow> Some x)"

definition comment_key :: "'v value_api \<Rightarrow> 'v \<Rightarrow> comment_tuple option" where
  "comment_key a c =
     Option.bind (or_else (v_u64 a (v_get a c ''line'')) (v_u64 a (v_get a c ''original_line''))) (\<lambda>line.
     (let start = (case or_else (v_u64 a (v_get a c ''start_line'')) (v_u64 a (v_get a c ''original_start_line'')) of
                     None \<Rightarrow> line | Some n \<Rightarrow> n) in
     Option.bind (v_str a (v_get a c ''side'')) (\<lambda>sd.
     (let start_side = (case v_str a (v_get a c ''start_side'') of None \<Rightarrow> sd | Some s \<Rightarrow> s) in
      if start_side \<noteq> sd then None else
      Option.bind (v_str a (v_get a c ''path'')) (\<lambda>path.
      Option.bind (v_str a (v_get a c ''body'')) (\<lambda>body. Some (path, body, sd, start, line)))))))"

definition expected_key :: "prepared_comment \<Rightarrow> comment_tuple" where
  "expected_key c = (pc_path c, pc_body c, side_api (pc_side c), pc_start_line c, pc_line c)"

fun collect_options :: "'x option list \<Rightarrow> 'x list option" where
  "collect_options [] = Some []"
| "collect_options (x # xs) =
     Option.bind x (\<lambda>y. Option.bind (collect_options xs) (\<lambda>ys. Some (y # ys)))"

definition matches_review :: "'v value_api \<Rightarrow> prepared_review \<Rightarrow> 'v \<Rightarrow> 'v list \<Rightarrow> bool \<Rightarrow> bool" where
  "matches_review a p r comments marked \<longleftrightarrow>
     matches_metadata a p r marked \<and> length comments = length (pr_comments p) \<and>
     (case collect_options (map (comment_key a) comments) of
        None \<Rightarrow> False
      | Some actual \<Rightarrow> sort (map expected_key (pr_comments p)) = sort actual)"

section \<open>Publication\<close>

record 'v publish_answers =
  first_current :: "store_error + remote_target"
  listed_reviews :: "store_error + 'v list"
  second_current :: "store_error + remote_target"
  send_answer :: "'v send_outcome"
  review_comments :: "nat \<Rightarrow> store_error + 'v list"

definition is_unresolved :: "outbox_state \<Rightarrow> bool" where
  "is_unresolved s \<longleftrightarrow> s = UnknownOutcome \<or> s = InFlight"

definition drafts_current :: "prepared_review \<Rightarrow> draft list \<Rightarrow> bool" where
  "drafts_current p saved \<longleftrightarrow>
     list_all (\<lambda>m. list_ex (\<lambda>d. d_id d = pc_draft m \<and> d_version d = pc_version m \<and> d_body d = pc_body m \<and>
        \<not> d_published d \<and> is_saved d) saved) (pr_comments p)"

text \<open>Everything before the request: either the run ends, or the entry is in flight and may be sent.\<close>

datatype 'j ready = Stop "store_error + outbox_entry" "'j db" | Send outbox_entry "'j db"

definition publish_ready :: "'a review_codec_scheme \<Rightarrow> 'j json \<Rightarrow> 'v value_api \<Rightarrow> review_rules \<Rightarrow> int \<Rightarrow>
    'v publish_answers \<Rightarrow> prepared_review \<Rightarrow> 'j db \<Rightarrow> 'j ready" where
  "publish_ready c k a rules now ans p db =
     (case operation k (pr_id p) db of Inl x \<Rightarrow> Stop (Inl x) db | Inr entry \<Rightarrow>
      if oe_state entry \<noteq> Prepared \<or> fingerprint (oe_prepared entry) \<noteq> fingerprint p \<or> \<not> verify_review c rules p
      then Stop (Inl (Message
        ''the operation differs from its prepared review; an uncertain send cannot be retried'')) db
      else
     (case outbox_of k db of Inl x \<Rightarrow> Stop (Inl x) db | Inr es \<Rightarrow>
      if list_ex (\<lambda>x. pr_id (oe_prepared x) \<noteq> pr_id p \<and> same_pr (pr_target (oe_prepared x)) (pr_target p) \<and>
           is_unresolved (oe_state x)) es
      then Stop (Inl (Message ''this PR already has an operation whose result is unresolved'')) db
      else
     (case first_current ans of Inl x \<Rightarrow> Stop (Inl x) db | Inr current \<Rightarrow>
      if current \<noteq> pr_target p \<or> \<not> rt_open current \<or> pending_review current
      then (let e = entry\<lparr>oe_state := Rejected, diagnostic := Some
              ''The PR revision, repository, account, or pending-review state no longer matches the preview.''\<rparr> in
            case transition c k now rules e db of Inl x \<Rightarrow> Stop (Inl x) db | Inr db' \<Rightarrow> Stop (Inr e) db')
      else
     (case drafts_of k (pr_snapshot p) db of Inl x \<Rightarrow> Stop (Inl x) db | Inr saved \<Rightarrow>
      if \<not> drafts_current p saved
      then Stop (Inl (Message ''the saved text is newer or already published; prepare another preview'')) db
      else
     (case listed_reviews ans of Inl x \<Rightarrow> Stop (Inl x) db | Inr reviews \<Rightarrow>
     (case second_current ans of Inl x \<Rightarrow> Stop (Inl x) db | Inr again \<Rightarrow>
      if again \<noteq> pr_target p
      then Stop (Inl (Message ''the PR changed just before sending; no request was made'')) db
      else
     (let e = entry\<lparr>baseline_review_ids := List.map_filter (\<lambda>r. v_u64 a (v_get a r ''id'')) reviews,
                   oe_state := InFlight\<rparr> in
      case transition c k now rules e db of Inl x \<Rightarrow> Stop (Inl x) db | Inr db' \<Rightarrow> Send e db')))))))"

definition settle_send :: "'v value_api \<Rightarrow> review_rules \<Rightarrow> 'v publish_answers \<Rightarrow> prepared_review \<Rightarrow>
    outbox_entry \<Rightarrow> outbox_entry" where
  "settle_send a rules ans p e =
     (case send_answer ans of
        SendRejected code \<Rightarrow> e\<lparr>oe_state := Rejected, diagnostic := Some
          (''Provider refused this request (HTTP '' @ show_nat code @ ''); drafts remain'')\<rparr>
      | SendUnknown reason \<Rightarrow> e\<lparr>oe_state := UnknownOutcome, diagnostic := Some reason\<rparr>
      | Accepted response \<Rightarrow>
          (let rid = v_u64 a (v_get a response ''id'');
               verified = (case rid of
                  Some i \<Rightarrow> (case review_comments ans i of
                     Inl _ \<Rightarrow> False | Inr cs \<Rightarrow> matches_review a p response cs (marks_reviews rules))
                | None \<Rightarrow> False) in
           if verified then e\<lparr>remote_id := rid, oe_state := Confirmed, diagnostic := None\<rparr>
           else e\<lparr>remote_id := rid, oe_state := UnknownOutcome, diagnostic := Some
             ''The server accepted the request, but the review or comment could not be fully verified.''\<rparr>))"

text \<open>The result, the database, and whether the request was sent.\<close>

definition publish :: "'a review_codec_scheme \<Rightarrow> 'j json \<Rightarrow> 'v value_api \<Rightarrow> review_rules \<Rightarrow> int \<Rightarrow>
    'v publish_answers \<Rightarrow> prepared_review \<Rightarrow> 'j db \<Rightarrow> (store_error + outbox_entry) \<times> 'j db \<times> bool" where
  "publish c k a rules now ans p db =
     (case publish_ready c k a rules now ans p db of
        Stop r db' \<Rightarrow> (r, db', False)
      | Send e db' \<Rightarrow>
          (let e' = settle_send a rules ans p e in
           case transition c k now rules e' db' of
             Inl x \<Rightarrow> (Inl x, db', True)
           | Inr db'' \<Rightarrow> (Inr e', db'', True)))"

section \<open>Reconciliation\<close>

record 'v reconcile_answers =
  rc_current :: "store_error + remote_target"
  rc_reviews :: "store_error + 'v list"
  rc_comments :: "nat \<Rightarrow> store_error + 'v list"

definition reconcile_review :: "'v value_api \<Rightarrow> review_rules \<Rightarrow> 'v reconcile_answers \<Rightarrow> outbox_entry \<Rightarrow>
    'v \<Rightarrow> nat list \<Rightarrow> store_error + nat list" where
  "reconcile_review a rules ans e r found =
     (case v_u64 a (v_get a r ''id'') of
        None \<Rightarrow> Inr found
      | Some i \<Rightarrow>
          if (case remote_id e of Some known \<Rightarrow> known \<noteq> i | None \<Rightarrow> i \<in> set (baseline_review_ids e))
          then Inr found
          else if \<not> matches_metadata a (oe_prepared e) r (marks_reviews rules) then Inr found
          else bindE (rc_comments ans i) (\<lambda>cs.
            Inr (if matches_review a (oe_prepared e) r cs (marks_reviews rules) then found @ [i] else found)))"

definition reconcile :: "'a review_codec_scheme \<Rightarrow> 'j json \<Rightarrow> 'v value_api \<Rightarrow> review_rules \<Rightarrow> int \<Rightarrow>
    'v reconcile_answers \<Rightarrow> operation_id \<Rightarrow> 'j db \<Rightarrow> store_error + (outbox_entry \<times> 'j db)" where
  "reconcile c k a rules now ans i db =
     bindE (operation k i db) (\<lambda>e.
       if oe_state e \<noteq> UnknownOutcome then Inr (e, db)
       else
       bindE (rc_current ans) (\<lambda>current.
       failIf (rt_account current \<noteq> rt_account (pr_target (oe_prepared e)))
         (Message ''reconciliation requires the account that originally sent this review'')
       (bindE (rc_reviews ans) (\<lambda>reviews.
        bindE (foldE (reconcile_review a rules ans e) reviews []) (\<lambda>found.
          if length found = 1 then
            (let e' = e\<lparr>oe_state := Confirmed, remote_id := Some (hd found), diagnostic := None\<rparr> in
             bindE (transition c k now rules e' db) (\<lambda>db'. Inr (e', db')))
          else Inr (e, db))))))"

section \<open>What one run does to the log\<close>

lemma operation_entry: "operation k i db = Inr e \<longleftrightarrow> entry_of k i db = Some e"
  by (simp add: entry_of_def split: sum.split)

lemma publish_ready_Send:
  assumes "publish_ready c k a rules now ans p db = Send e db'"
  shows "\<exists>entry es. entry_of k (pr_id p) db = Some entry \<and> oe_state entry = Prepared \<and>
    fingerprint (oe_prepared entry) = fingerprint p \<and> verify_review c rules p \<and> outbox_of k db = Inr es \<and>
    (\<forall>x \<in> set es. pr_id (oe_prepared x) \<noteq> pr_id p \<and> same_pr (pr_target (oe_prepared x)) (pr_target p) \<longrightarrow>
       \<not> is_unresolved (oe_state x)) \<and>
    oe_prepared e = oe_prepared entry \<and> oe_state e = InFlight \<and> remote_id e = remote_id entry \<and>
    first_current ans = Inr (pr_target p) \<and> second_current ans = Inr (pr_target p) \<and>
    rt_open (pr_target p) \<and> \<not> pending_review (pr_target p) \<and>
    (\<exists>saved. drafts_of k (pr_snapshot p) db = Inr saved \<and> drafts_current p saved) \<and>
    transition c k now rules e db = Inr db'"
  using assms unfolding publish_ready_def Let_def
  by (auto simp: list_ex_iff operation_entry split: sum.splits if_splits)

lemma publish_ready_Stop:
  assumes "publish_ready c k a rules now ans p db = Stop r db'"
  shows "db' = db \<or> (\<exists>entry e. entry_of k (pr_id p) db = Some entry \<and> oe_prepared e = oe_prepared entry \<and>
    oe_state e = Rejected \<and> transition c k now rules e db = Inr db')"
  using assms unfolding publish_ready_def Let_def
  by (fastforce simp: operation_entry split: sum.splits if_splits)

lemma settle_send_prepared [simp]: "oe_prepared (settle_send a rules ans p e) = oe_prepared e"
  by (simp add: settle_send_def Let_def split: send_outcome.split)

lemma settle_send_state: "oe_state (settle_send a rules ans p e) \<in> {Rejected, UnknownOutcome, Confirmed}"
  by (simp add: settle_send_def Let_def split: send_outcome.split)

lemma transition_entry:
  assumes "json_ok k" "db_ok k db" "transition c k now rules e db = Inr db'"
  shows "db_ok k db' \<and> entry_of k i db' = (if i = pr_id (oe_prepared e) then Some e else entry_of k i db) \<and>
    verify_review c rules (oe_prepared e) \<and>
    (\<exists>old. entry_of k (pr_id (oe_prepared e)) db = Some old \<and> can_transition (oe_state old) (oe_state e) \<and>
       fingerprint (oe_prepared old) = fingerprint (oe_prepared e))"
proof -
  have m: "move_of c k now (Some rules) e db = Some db'"
    using assms(3) by (simp add: move_of_Some transition_def)
  have l: "json_ok k \<and> db_ok k db" using assms by simp
  show ?thesis
    using stored_log.move_entry [OF l m] stored_log.move_allowed [OF l m] stored_log.move_keeps [OF l m]
      write_transition_Inr [OF assms(3) [unfolded transition_def]] by auto
qed

section \<open>The system\<close>

text \<open>Operations that leave the recorded operations alone, but for recording a new prepared one.\<close>

inductive local_step :: "'a review_codec_scheme \<Rightarrow> 'j json \<Rightarrow> review_rules list \<Rightarrow> 'j db \<Rightarrow> 'j db \<Rightarrow> bool"
  for c k rs where
  "put_snapshot c k now s db = Inr db' \<Longrightarrow> local_step c k rs db db'"
| "save_blame k now i key found db = Inr db' \<Longrightarrow> local_step c k rs db db'"
| "save_draft c k d db = Inr (v, db') \<Longrightarrow> local_step c k rs db db'"
| "discard_draft j v db = Inr db' \<Longrightarrow> local_step c k rs db db'"
| "save_view k i w db = Inr db' \<Longrightarrow> local_step c k rs db db'"
| "local_step c k rs db (save_settings k t db)"
| "local_step c k rs db (show_recent now i db)"
| "local_step c k rs db (hide_recent hid db)"
| "r \<in> set rs \<Longrightarrow> insert_prepared c k now r p db = Inr (e, db') \<Longrightarrow> local_step c k rs db db'"

text \<open>
  The whole system: the database and the log of requests that left the machine.
  A process may die at any point of a publication: before the entry is in flight
  nothing has happened, after it the request may or may not have been sent.
\<close>

inductive sys_step :: "'a review_codec_scheme \<Rightarrow> 'j json \<Rightarrow> 'v value_api \<Rightarrow> review_rules list \<Rightarrow>
    'j db \<times> operation_id list \<Rightarrow> 'j db \<times> operation_id list \<Rightarrow> bool" for c k a rs where
  sys_local: "local_step c k rs db db' \<Longrightarrow> sys_step c k a rs (db, sent) (db', sent)"
| sys_publish: "r \<in> set rs \<Longrightarrow> publish c k a r now ans p db = (res, db', s) \<Longrightarrow>
    sys_step c k a rs (db, sent) (db', if s then pr_id p # sent else sent)"
| sys_crash: "r \<in> set rs \<Longrightarrow> publish_ready c k a r now ans p db = Send e db' \<Longrightarrow>
    sys_step c k a rs (db, sent) (db', if s then pr_id p # sent else sent)"
| sys_reconcile: "r \<in> set rs \<Longrightarrow> reconcile c k a r now rans i db = Inr (e, db') \<Longrightarrow>
    sys_step c k a rs (db, sent) (db', sent)"
| sys_open: "sys_step c k a rs (db, sent) (snd (store_open c k now db), sent)"

inductive sys_reach :: "'a review_codec_scheme \<Rightarrow> 'j json \<Rightarrow> 'v value_api \<Rightarrow> review_rules list \<Rightarrow>
    'j db \<times> operation_id list \<Rightarrow> bool" for c k a rs where
  sys_start: "sys_reach c k a rs (empty_db, [])"
| sys_next: "sys_reach c k a rs st \<Longrightarrow> sys_step c k a rs st st' \<Longrightarrow> sys_reach c k a rs st'"

text \<open>The log side of every step: the entries stay, one is added, or one moves.\<close>

definition log_add :: "'a review_codec_scheme \<Rightarrow> 'j json \<Rightarrow> review_rules list \<Rightarrow> 'j db \<Rightarrow> 'j db \<Rightarrow> bool" where
  "log_add c k rs db db' \<longleftrightarrow>
     (\<exists>i e r. entry_of k i db = None \<and> oe_state e = Prepared \<and> r \<in> set rs \<and> verify_review c r (oe_prepared e) \<and>
        (\<forall>j. entry_of k j db' = (if j = i then Some e else entry_of k j db)))"

definition log_move :: "'a review_codec_scheme \<Rightarrow> 'j json \<Rightarrow> review_rules list \<Rightarrow> 'j db \<Rightarrow> outbox_entry \<Rightarrow> 'j db \<Rightarrow> bool" where
  "log_move c k rs db e db' \<longleftrightarrow>
     (\<exists>old r. entry_of k (pr_id (oe_prepared e)) db = Some old \<and> can_transition (oe_state old) (oe_state e) \<and>
        fingerprint (oe_prepared old) = fingerprint (oe_prepared e) \<and>
        r \<in> set rs \<and> verify_review c r (oe_prepared e) \<and>
        (\<forall>j. entry_of k j db' = (if j = pr_id (oe_prepared e) then Some e else entry_of k j db)))"

lemma transition_log_move:
  "json_ok k \<Longrightarrow> db_ok k db \<Longrightarrow> r \<in> set rs \<Longrightarrow> transition c k now r e db = Inr db' \<Longrightarrow> log_move c k rs db e db'"
  unfolding log_move_def using transition_entry by metis

lemma local_step_ok:
  "local_step c k rs db db' \<Longrightarrow> json_ok k \<Longrightarrow> db_ok k db \<Longrightarrow> db_ok k db'"
  by (induction rule: local_step.induct)
     (auto intro: save_blame_ok save_draft_ok discard_draft_ok save_view_ok save_settings_ok
        show_recent_ok hide_recent_ok insert_prepared_ok dest: put_snapshot_ok)

lemma blame_outbox: "foldE (save_blame_row k i key) found db = Inr db' \<Longrightarrow> outbox_t db' = outbox_t db"
  by (induction found arbitrary: db)
     (auto simp: bind_simps save_blame_row_def split: option.splits)

lemma local_step_log:
  assumes "local_step c k rs db db'" "json_ok k"
  shows "(\<forall>j. entry_of k j db' = entry_of k j db) \<or> log_add c k rs db db'"
  using assms
proof (induction rule: local_step.induct)
  case (1 now s db db')
  then have "outbox_t db' = outbox_t db" by (auto simp: put_snapshot_def bind_simps Let_def)
  then show ?case using entry_of_outbox by blast
next
  case (2 now i key found db db')
  then have "outbox_t db' = outbox_t db"
    using blame_outbox by (fastforce simp: save_blame_def bind_simps touch_snapshot_def)
  then show ?case using entry_of_outbox by blast
next
  case (3 d db v db')
  then have "outbox_t db' = outbox_t db" using save_draft_Inr [OF 3(1)] by simp
  then show ?case using entry_of_outbox by blast
next
  case (4 j v db db')
  then have "outbox_t db' = outbox_t db" by (auto simp: discard_draft_def bind_simps Let_def)
  then show ?case using entry_of_outbox by blast
next
  case (5 i w db db')
  then have "outbox_t db' = outbox_t db" by (auto simp: save_view_def bind_simps Let_def)
  then show ?case using entry_of_outbox by blast
next
  case (9 r now p db e db')
  then have e: "oe_state e = Prepared" "oe_prepared e = p" "verify_review c r p"
    "tb_get or_id (operation_key (pr_id p)) (outbox_t db) = None"
    "outbox_t db' = outbox_t db @ [\<lparr>or_id = operation_key (pr_id p), or_state = ''prepared'',
       or_data = enc_entry k e, or_updated_at = now\<rparr>]"
    by (auto simp: insert_prepared_def bind_simps Let_def)
  then have "entry_of k (pr_id p) db = None"
    "\<And>j. entry_of k j db' = (if j = pr_id p then Some e else entry_of k j db)"
    using json_okD(4) [OF 9(3)] by (auto simp: entry_of_row tb_get_append tb_get_single split: option.split)
  with e 9(1) show ?case unfolding log_add_def by blast
qed (simp_all add: entry_of_row save_settings_def show_recent_def touch_snapshot_def hide_recent_def)

section \<open>Invariants of the log\<close>

definition entries_verified :: "'a review_codec_scheme \<Rightarrow> 'j json \<Rightarrow> review_rules list \<Rightarrow> 'j db \<Rightarrow> bool" where
  "entries_verified c k rs db \<longleftrightarrow>
     (\<forall>i e. entry_of k i db = Some e \<longrightarrow> (\<exists>r \<in> set rs. verify_review c r (oe_prepared e)))"

definition sent_recorded :: "'j json \<Rightarrow> 'j db \<Rightarrow> operation_id list \<Rightarrow> bool" where
  "sent_recorded k db sent \<longleftrightarrow>
     distinct sent \<and> (\<forall>i \<in> set sent. \<exists>e. entry_of k i db = Some e \<and> oe_state e \<noteq> Prepared)"

text \<open>Two verified reviews of different pull requests with one fingerprint.\<close>

definition fingerprint_collision :: "'a review_codec_scheme \<Rightarrow> review_rules list \<Rightarrow> bool" where
  "fingerprint_collision c rs \<longleftrightarrow>
     (\<exists>r \<in> set rs. \<exists>r' \<in> set rs. \<exists>p q. verify_review c r p \<and> verify_review c r' q \<and>
        fingerprint p = fingerprint q \<and> \<not> same_pr (pr_target p) (pr_target q))"

definition one_unresolved :: "'j json \<Rightarrow> 'j db \<Rightarrow> bool" where
  "one_unresolved k db \<longleftrightarrow>
     (\<forall>i j e f. entry_of k i db = Some e \<and> entry_of k j db = Some f \<and> i \<noteq> j \<and>
        is_unresolved (oe_state e) \<and> is_unresolved (oe_state f) \<longrightarrow>
        \<not> same_pr (pr_target (oe_prepared e)) (pr_target (oe_prepared f)))"

lemma same_pr_sym: "same_pr a b \<longleftrightarrow> same_pr b a"
  by (auto simp: same_pr_def)

lemma same_pr_trans: "same_pr a b \<Longrightarrow> same_pr b d \<Longrightarrow> same_pr a d"
  by (simp add: same_pr_def)

lemma to_prepared: "\<not> can_transition s Prepared"
  by (auto simp: can_transition_def)

lemma to_unresolved: "can_transition s t \<Longrightarrow> is_unresolved t \<Longrightarrow> s = Prepared \<and> t = InFlight \<or> is_unresolved s"
  by (auto simp: can_transition_def is_unresolved_def)

lemma log_move_keeps:
  assumes "log_move c k rs db e db'"
  shows "(entries_verified c k rs db \<longrightarrow> entries_verified c k rs db') \<and>
    (sent_recorded k db sent \<longrightarrow> sent_recorded k db' sent)"
  using assms to_prepared unfolding log_move_def entries_verified_def sent_recorded_def
  by (metis (no_types, lifting) option.inject)

lemma log_add_keeps:
  assumes "log_add c k rs db db'"
  shows "(entries_verified c k rs db \<longrightarrow> entries_verified c k rs db') \<and>
    (sent_recorded k db sent \<longrightarrow> sent_recorded k db' sent) \<and> (one_unresolved k db \<longrightarrow> one_unresolved k db')"
proof -
  from assms obtain i e r where a: "entry_of k i db = None" "oe_state e = Prepared" "r \<in> set rs"
    "verify_review c r (oe_prepared e)" "\<And>j. entry_of k j db' = (if j = i then Some e else entry_of k j db)"
    unfolding log_add_def by blast
  have "entries_verified c k rs db'" if "entries_verified c k rs db"
    using that a unfolding entries_verified_def by (metis option.inject)
  moreover have "sent_recorded k db' sent" if "sent_recorded k db sent"
    using that a(1,5) unfolding sent_recorded_def by (metis option.distinct(1))
  moreover have "one_unresolved k db'" if "one_unresolved k db"
  proof -
    have "\<not> is_unresolved (oe_state e)" using a(2) by (simp add: is_unresolved_def)
    with that a(5) show ?thesis unfolding one_unresolved_def by (metis option.inject)
  qed
  ultimately show ?thesis by blast
qed

text \<open>A move to a state that is not newly in flight keeps at most one unresolved operation.\<close>

lemma log_move_unresolved:
  assumes "log_move c k rs db e db'" "entries_verified c k rs db" "\<not> fingerprint_collision c rs"
    and "one_unresolved k db"
    and new: "oe_state e = InFlight \<Longrightarrow> \<forall>j f. entry_of k j db = Some f \<and> j \<noteq> pr_id (oe_prepared e) \<and>
       is_unresolved (oe_state f) \<longrightarrow> \<not> same_pr (pr_target (oe_prepared e)) (pr_target (oe_prepared f))"
  shows "one_unresolved k db'"
proof -
  let ?i = "pr_id (oe_prepared e)"
  from assms(1) obtain old r where o: "entry_of k ?i db = Some old" "can_transition (oe_state old) (oe_state e)"
    "fingerprint (oe_prepared old) = fingerprint (oe_prepared e)" "r \<in> set rs" "verify_review c r (oe_prepared e)"
    "\<And>j. entry_of k j db' = (if j = ?i then Some e else entry_of k j db)"
    unfolding log_move_def by blast
  have same: "same_pr (pr_target (oe_prepared old)) (pr_target (oe_prepared e))"
    using o assms(2,3) unfolding entries_verified_def fingerprint_collision_def by metis
  have clash: "\<not> same_pr (pr_target (oe_prepared e)) (pr_target (oe_prepared f))"
    if f: "entry_of k j db = Some f" "j \<noteq> ?i" "is_unresolved (oe_state f)" "is_unresolved (oe_state e)" for j f
  proof (cases "oe_state e = InFlight \<and> oe_state old = Prepared")
    case True
    then show ?thesis using new f by blast
  next
    case False
    then have "is_unresolved (oe_state old)" using to_unresolved [OF o(2) f(4)] by blast
    then have "\<not> same_pr (pr_target (oe_prepared old)) (pr_target (oe_prepared f))"
      using assms(4) o(1) f unfolding one_unresolved_def by metis
    then show ?thesis using same same_pr_trans by blast
  qed
  show ?thesis
    unfolding one_unresolved_def
  proof (intro allI impI, elim conjE)
    fix i j x y
    assume x: "entry_of k i db' = Some x" "entry_of k j db' = Some y" "i \<noteq> j"
      "is_unresolved (oe_state x)" "is_unresolved (oe_state y)"
    consider "i = ?i" | "j = ?i" | "i \<noteq> ?i" "j \<noteq> ?i" by blast
    then show "\<not> same_pr (pr_target (oe_prepared x)) (pr_target (oe_prepared y))"
    proof cases
      case 1
      with x o(6) clash [of j y] show ?thesis by (auto split: if_splits)
    next
      case 2
      with x o(6) clash [of i x] show ?thesis by (auto simp: same_pr_sym split: if_splits)
    next
      case 3
      with x o(6) assms(4) show ?thesis unfolding one_unresolved_def by auto
    qed
  qed
qed

definition sys_ok :: "'a review_codec_scheme \<Rightarrow> 'j json \<Rightarrow> review_rules list \<Rightarrow> 'j db \<times> operation_id list \<Rightarrow> bool" where
  "sys_ok c k rs st \<longleftrightarrow>
     db_ok k (fst st) \<and> entries_verified c k rs (fst st) \<and> sent_recorded k (fst st) (snd st) \<and>
     (\<not> fingerprint_collision c rs \<longrightarrow> one_unresolved k (fst st))"

lemma sys_ok_same:
  "sys_ok c k rs (db, sent) \<Longrightarrow> db_ok k db' \<Longrightarrow> (\<And>j. entry_of k j db' = entry_of k j db) \<Longrightarrow> sys_ok c k rs (db', sent)"
  unfolding sys_ok_def entries_verified_def sent_recorded_def one_unresolved_def by auto

lemma sys_ok_move:
  assumes "json_ok k" "sys_ok c k rs (db, sent)" "r \<in> set rs" "transition c k now r e db = Inr db'" "oe_state e \<noteq> InFlight"
  shows "sys_ok c k rs (db', sent)"
proof -
  have ok: "db_ok k db" using assms(2) by (simp add: sys_ok_def)
  have m: "log_move c k rs db e db'" by (rule transition_log_move [OF assms(1) ok assms(3,4)])
  show ?thesis
    using assms(2,5) log_move_keeps [OF m, of sent] log_move_unresolved [OF m] transition_entry [OF assms(1) ok assms(4)]
    by (auto simp: sys_ok_def)
qed

text \<open>The step into flight, with or without the request in the log.\<close>

lemma sys_ok_send:
  assumes "json_ok k" "sys_ok c k rs (db, sent)" "r \<in> set rs" "publish_ready c k a r now ans p db = Send e db'"
  shows "sys_ok c k rs (db', sent) \<and> sys_ok c k rs (db', pr_id p # sent) \<and> oe_state e = InFlight \<and>
    pr_id (oe_prepared e) = pr_id p"
proof -
  have ok: "db_ok k db" "entries_verified c k rs db" "sent_recorded k db sent" using assms(2) by (simp_all add: sys_ok_def)
  obtain entry es where s: "entry_of k (pr_id p) db = Some entry" "oe_state entry = Prepared"
    "fingerprint (oe_prepared entry) = fingerprint p" "verify_review c r p" "outbox_of k db = Inr es"
    "\<forall>x \<in> set es. pr_id (oe_prepared x) \<noteq> pr_id p \<and> same_pr (pr_target (oe_prepared x)) (pr_target p) \<longrightarrow>
       \<not> is_unresolved (oe_state x)"
    "oe_prepared e = oe_prepared entry" "oe_state e = InFlight" "transition c k now r e db = Inr db'"
    using publish_ready_Send [OF assms(4)] by blast
  have id: "pr_id (oe_prepared e) = pr_id p" using db_ok_entry_id [OF ok(1) s(1)] s(7) by simp
  note t = transition_entry [OF assms(1) ok(1) s(9)]
  have m: "log_move c k rs db e db'" by (rule transition_log_move [OF assms(1) ok(1) assms(3) s(9)])
  have fresh: "pr_id p \<notin> set sent" using ok(3) s(1,2) by (auto simp: sent_recorded_def)
  have others: "\<not> same_pr (pr_target (oe_prepared e)) (pr_target (oe_prepared f))"
    if "\<not> fingerprint_collision c rs" "entry_of k j db = Some f" "j \<noteq> pr_id (oe_prepared e)" "is_unresolved (oe_state f)" for j f
  proof -
    have "f \<in> set es" using outbox_of_total [OF ok(1)] s(5) that(2) by auto
    moreover have "pr_id (oe_prepared f) \<noteq> pr_id p" using db_ok_entry_id [OF ok(1) that(2)] that(3) id by simp
    ultimately have "\<not> same_pr (pr_target (oe_prepared f)) (pr_target p)" using s(6) that(4) by blast
    moreover have "same_pr (pr_target (oe_prepared e)) (pr_target p)"
      using that(1) s(3,4,7) t assms(3) unfolding fingerprint_collision_def by metis
    ultimately show ?thesis using same_pr_trans same_pr_sym by blast
  qed
  have "sys_ok c k rs (db', sent)"
    using assms(2) log_move_keeps [OF m, of sent] log_move_unresolved [OF m] others t by (auto simp: sys_ok_def)
  moreover have "sent_recorded k db' (pr_id p # sent)"
    using \<open>sys_ok c k rs (db', sent)\<close> fresh t id s(8) by (auto simp: sys_ok_def sent_recorded_def)
  ultimately show ?thesis using s(8) id by (auto simp: sys_ok_def)
qed

lemma sys_ok_publish:
  assumes "json_ok k" "sys_ok c k rs (db, sent)" "r \<in> set rs" "publish c k a r now ans p db = (res, db', s)"
  shows "sys_ok c k rs (db', if s then pr_id p # sent else sent)"
proof (cases "publish_ready c k a r now ans p db")
  case (Stop x db1)
  with assms(4) have "db' = db1" "\<not> s" by (simp_all add: publish_def)
  with publish_ready_Stop [OF Stop] assms sys_ok_move [OF assms(1-3)] show ?thesis by fastforce
next
  case (Send e db1)
  let ?e = "settle_send a r ans p e"
  note ok = sys_ok_send [OF assms(1-3) Send]
  have "s" "db' = db1 \<or> transition c k now r ?e db1 = Inr db'"
    using assms(4) Send by (auto simp: publish_def Let_def split: sum.splits)
  moreover have "oe_state ?e \<noteq> InFlight" using settle_send_state [of a r ans p e] by auto
  ultimately show ?thesis using ok sys_ok_move [OF assms(1) _ assms(3)] by auto
qed

lemma sys_ok_reconcile:
  assumes "json_ok k" "sys_ok c k rs (db, sent)" "r \<in> set rs" "reconcile c k a r now rans i db = Inr (e, db')"
  shows "sys_ok c k rs (db', sent)"
proof -
  have "db' = db \<or> transition c k now r e db = Inr db' \<and> oe_state e = Confirmed"
    using assms(4) by (auto simp: reconcile_def bind_simps Let_def split: if_splits)
  with assms sys_ok_move [OF assms(1-3)] show ?thesis by auto
qed

lemma sys_ok_open:
  assumes "json_ok k" "sys_ok c k rs (db, sent)"
  shows "sys_ok c k rs (snd (store_open c k now db), sent)"
proof -
  have ok: "db_ok k db" using assms(2) by (simp add: sys_ok_def)
  obtain db1 where db1: "recover_inflight c k now db = (Inr (), db1)" "db_ok k db1"
    "\<And>i. entry_of k i db1 = map_option recovered (entry_of k i db)"
    using recover_inflight_total [OF assms(1) ok, of c now] by blast
  obtain n db2 where db2: "prune k KEEP_RECENT db1 = Inr (n, db2)" "outbox_t db2 = outbox_t db1"
    using prune_total [OF db1(2), of KEEP_RECENT] by blast
  have e: "entry_of k i db2 = map_option recovered (entry_of k i db)" for i
    using entry_of_outbox [OF db2(2), of k i] db1(3) by simp
  have st: "oe_state (recovered x) = Prepared \<longleftrightarrow> oe_state x = Prepared"
    "is_unresolved (oe_state (recovered x)) \<longleftrightarrow> is_unresolved (oe_state x)" for x
    by (auto simp: recovered_def is_unresolved_def)
  have ver: "entries_verified c k rs db2"
    using assms(2) e unfolding sys_ok_def entries_verified_def by auto
  have sent: "sent_recorded k db2 sent"
    using assms(2) e st(1) unfolding sys_ok_def sent_recorded_def by fastforce
  have one: "one_unresolved k db2" if "one_unresolved k db"
    using that e st(2) unfolding one_unresolved_def by auto
  have "db_ok k db2" by (rule prune_ok [OF db1(2) db2(1)])
  with ver sent one assms(2) show ?thesis
    by (simp add: store_open_def db1(1) db2(1) sys_ok_def)
qed

lemma sys_step_ok:
  assumes "sys_step c k a rs st st'" "json_ok k" "sys_ok c k rs st"
  shows "sys_ok c k rs st'"
  using assms
proof (induction rule: sys_step.induct)
  case (sys_local db db' sent)
  have ok: "db_ok k db'" using local_step_ok [OF sys_local(1,2)] sys_local(3) by (simp add: sys_ok_def)
  from local_step_log [OF sys_local(1,2)] show ?case
  proof
    assume "\<forall>j. entry_of k j db' = entry_of k j db"
    with sys_local(3) ok show ?thesis using sys_ok_same by blast
  next
    assume "log_add c k rs db db'"
    from log_add_keeps [OF this, of sent] sys_local(3) ok show ?thesis by (auto simp: sys_ok_def)
  qed
next
  case (sys_crash r now ans p db e db' s sent)
  then show ?case using sys_ok_send by (cases s) fastforce+
qed (blast intro: sys_ok_publish sys_ok_reconcile sys_ok_open)+

lemma sys_reach_ok: "sys_reach c k a rs st \<Longrightarrow> json_ok k \<Longrightarrow> sys_ok c k rs st"
proof (induction rule: sys_reach.induct)
  case sys_start
  have "entry_of k i empty_db = None" for i by (simp add: entry_of_row empty_db_def tb_get_def)
  then show ?case
    by (simp add: sys_ok_def empty_db_ok entries_verified_def sent_recorded_def one_unresolved_def)
next
  case (sys_next st st')
  then show ?case using sys_step_ok by blast
qed


section \<open>Matching a remote review\<close>

lemma drafts_currentD:
  "drafts_current p saved \<Longrightarrow> m \<in> set (pr_comments p) \<Longrightarrow>
     \<exists>d \<in> set saved. d_id d = pc_draft m \<and> d_version d = pc_version m \<and> d_body d = pc_body m \<and> \<not> d_published d"
  unfolding drafts_current_def list_all_iff list_ex_iff by fast


lemma sort_eq_mset: "sort xs = sort ys \<longleftrightarrow> mset xs = mset ys" for xs ys :: "'b::linorder list"
  by (metis mset_sort properties_for_sort sorted_sort)

lemma collect_options_Some: "collect_options xs = Some ys \<longleftrightarrow> xs = map Some ys"
  by (induction xs arbitrary: ys) (auto simp: Option.bind_eq_Some_conv Cons_eq_map_conv)

definition sent_answers :: "unit publish_answers" where
  "sent_answers = \<lparr>first_current = Inr sample_target, listed_reviews = Inr [], second_current = Inr sample_target,
     send_answer = SendUnknown ''timeout'', review_comments = (\<lambda>_. Inr [])\<rparr>"

definition unit_api :: "unit value_api" where
  "unit_api = \<lparr>v_get = (\<lambda>v _. v), v_str = (\<lambda>_. None), v_u64 = (\<lambda>_. None)\<rparr>"

text \<open>A codec whose fingerprints spell out the pull request, so that none collide.\<close>

definition code_nat :: "nat \<Rightarrow> bytes" where
  "code_nat n = replicate n CHR ''a'' @ ''b''"

definition code_str :: "str \<Rightarrow> bytes" where
  "code_str s = code_nat (length s) @ s"

definition code_target :: "remote_target \<Rightarrow> bytes" where
  "code_target t = code_str (repo_host (rt_repository t)) @ code_nat (repo_id (rt_repository t)) @
     code_str (repo_owner (rt_repository t)) @ code_str (repo_name (rt_repository t)) @
     code_nat (rt_pr t) @ code_str (rt_account t)"

definition clear_codec :: review_codec where
  "clear_codec = \<lparr>sha256 = (\<lambda>x. x), json_identity = fst, json_entire = (\<lambda>_. []), json_releases = (\<lambda>_. []),
     json_review = (\<lambda>(i, s, t, q, ds). code_target t)\<rparr>"

lemma code_nat_inj: "code_nat m @ x = code_nat n @ y \<Longrightarrow> m = n \<and> x = y"
proof (induction m arbitrary: n)
  case 0
  then show ?case by (cases n) (simp_all add: code_nat_def)
next
  case (Suc m)
  then show ?case by (cases n) (simp_all add: code_nat_def)
qed

lemma code_str_inj: "code_str s @ x = code_str t @ y \<Longrightarrow> s = t \<and> x = y"
  using code_nat_inj [of "length s" "s @ x" "length t" "t @ y"] by (auto simp: code_str_def)

lemma code_target_inj:
  assumes "code_target s = code_target t"
  shows "rt_repository s = rt_repository t \<and> rt_pr s = rt_pr t \<and> rt_account s = rt_account t"
proof -
  have "code_str (rt_account s) @ [] = code_str (rt_account t) @ [] \<and> rt_pr s = rt_pr t \<and>
      repo_host (rt_repository s) = repo_host (rt_repository t) \<and> repo_id (rt_repository s) = repo_id (rt_repository t) \<and>
      repo_owner (rt_repository s) = repo_owner (rt_repository t) \<and> repo_name (rt_repository s) = repo_name (rt_repository t)"
    using assms unfolding code_target_def by (metis append_Nil2 code_nat_inj code_str_inj)
  then show ?thesis using code_str_inj [of "rt_account s" "[]" "rt_account t" "[]"] by simp
qed

lemma clear_no_collision: "\<not> fingerprint_collision clear_codec [plain_rules]"
proof -
  have "same_pr (pr_target p) (pr_target q)"
    if "verify_review clear_codec plain_rules p" "verify_review clear_codec plain_rules q" "fingerprint p = fingerprint q" for p q
  proof -
    have fp: "compute_fingerprint clear_codec plain_rules r =
        concat (map hex_byte (le_bytes 8 (length ''review-v1'') @ ''review-v1'' @ le_bytes 8 (length (code_target (pr_target r))) @
          code_target (pr_target r)))" for r
      by (simp add: compute_fingerprint_def clear_codec_def digest_def digest_input_def del: le_bytes.simps)
    have "concat (map hex_byte (le_bytes 8 (length ''review-v1'') @ ''review-v1'' @
          le_bytes 8 (length (code_target (pr_target p))) @ code_target (pr_target p))) =
        concat (map hex_byte (le_bytes 8 (length ''review-v1'') @ ''review-v1'' @
          le_bytes 8 (length (code_target (pr_target q))) @ code_target (pr_target q)))"
      using that unfolding verify_review_def fp by simp
    from concat_hex_inj [OF this]
    have "le_bytes 8 (length (code_target (pr_target p))) @ code_target (pr_target p) =
        le_bytes 8 (length (code_target (pr_target q))) @ code_target (pr_target q)"
      by (simp only: same_append_eq)
    then have "code_target (pr_target p) = code_target (pr_target q)"
      by (metis append_eq_append_conv length_le_bytes)
    from code_target_inj [OF this] that(1,2) show ?thesis by (simp add: same_pr_def verify_review_def)
  qed
  then show ?thesis by (simp add: fingerprint_collision_def)
qed

text \<open>One review under any codec, recorded, and in flight.\<close>

definition signed_review :: "review_codec \<Rightarrow> prepared_review" where
  "signed_review c = (sample_review ''a'')\<lparr>fingerprint := compute_fingerprint c plain_rules (sample_review ''a'')\<rparr>"

definition signed_entry :: "review_codec \<Rightarrow> outbox_state \<Rightarrow> outbox_entry" where
  "signed_entry c st = \<lparr>oe_prepared = signed_review c, oe_state = st, baseline_review_ids = [], remote_id = None,
     diagnostic = None\<rparr>"

definition signed_db :: "review_codec \<Rightarrow> outbox_state \<Rightarrow> int \<Rightarrow> json_text db" where
  "signed_db c st now = empty_db\<lparr>outbox_t := [\<lparr>or_id = ''op'', or_state = state_as_str st,
     or_data = JEntry (signed_entry c st), or_updated_at = now\<rparr>]\<rparr>"

lemma signed_simps [simp]: "pr_id (signed_review c) = OperationId ''op''" "pr_snapshot (signed_review c) = SnapshotId []"
    "pr_comments (signed_review c) = []" "pr_target (signed_review c) = sample_target"
  by (simp_all add: signed_review_def sample_review_def)

lemma signed_verifies: "verify_review c plain_rules (signed_review c)"
  by (simp add: verify_review_def signed_review_def compute_fingerprint_def plain_rules_def sample_review_def sample_target_def)

lemma prepared_reachable: "sys_reach c plain_json unit_api [plain_rules] (signed_db c Prepared 1, [])"
proof -
  have "insert_prepared c plain_json 1 plain_rules (signed_review c) empty_db = Inr (signed_entry c Prepared, signed_db c Prepared 1)"
    using signed_verifies [of c]
    by (simp add: insert_prepared_def empty_db_def tb_get_def signed_db_def signed_entry_def plain_json_def Let_def
        state_as_str_def)
  then have "local_step c plain_json [plain_rules] empty_db (signed_db c Prepared 1)"
    by (intro local_step.intros(9) [of plain_rules]) simp_all
  then show ?thesis by (intro sys_next [OF sys_start] sys_local)
qed

lemma sample_publish_ready:
  "publish_ready c plain_json unit_api plain_rules 2 sent_answers (signed_review c) (signed_db c Prepared 1) =
     Send (signed_entry c InFlight) (signed_db c InFlight 2)"
proof -
  have j: "dec_entry plain_json (JEntry e) = Some e" "enc_entry plain_json e = JEntry e" for e by (simp_all add: plain_json_def)
  have [simp]: "rt_open sample_target" "\<not> pending_review sample_target" by (simp_all add: sample_target_def)
  show ?thesis
    using signed_verifies [of c]
    by (simp add: publish_ready_def operation_def signed_db_def empty_db_def tb_get_def j outbox_of_def
        sent_answers_def drafts_of_def drafts_current_def transition_def write_transition_def Let_def
        can_transition_def tb_update_def signed_entry_def state_as_str_def map_filter_simps)
qed

lemma sample_flying: "sys_reach c plain_json unit_api [plain_rules] (signed_db c InFlight 2, [OperationId ''op''])"
proof -
  have "sys_step c plain_json unit_api [plain_rules] (signed_db c Prepared 1, [])
      (signed_db c InFlight 2, if True then [pr_id (signed_review c)] else [])"
    by (rule sys_crash [OF _ sample_publish_ready]) simp
  then show ?thesis using sys_next [OF prepared_reachable] by simp
qed

section \<open>Properties\<close>

text \<open>
  Claim C1. A review leaves the machine at most once. Over every history of
  local edits, publications, crashes before or after the request, reconciliations
  and restarts, no operation is sent twice, and each one that was sent is recorded
  in a state other than prepared.
\<close>

theorem publish_at_most_once:
  assumes "json_ok k" "sys_reach c k a rs (db, sent)"
  shows "distinct sent \<and> (\<forall>i \<in> set sent. \<exists>e. operation k i db = Inr e \<and> oe_state e \<noteq> Prepared)"
  using sys_reach_ok [OF assms(2,1)] by (simp add: sys_ok_def sent_recorded_def operation_entry)

theorem publish_at_most_once_witness:
  "\<exists>e. operation plain_json (OperationId ''op'') (signed_db clear_codec InFlight 2) = Inr e \<and> oe_state e \<noteq> Prepared"
  using publish_at_most_once [OF plain_json_ok sample_flying [of clear_codec]] by simp





text \<open>
  A review is confirmed only against matching remote evidence: a
  remote review matches exactly when its commit, verdict, summary and author are
  those of the prepared review and its comments are, as a multiset of path, text,
  side and line range, the prepared ones.
\<close>

theorem matches_review_iff:
  "matches_review a p r comments marked \<longleftrightarrow>
     matches_metadata a p r marked \<and>
     (\<exists>keys. map (comment_key a) comments = map Some keys \<and>
        mset keys = mset (map expected_key (pr_comments p)))"
proof (cases "collect_options (map (comment_key a) comments)")
  case None
  then have "\<nexists>keys. map (comment_key a) comments = map Some keys"
    by (metis collect_options_Some option.distinct(1))
  with None show ?thesis by (auto simp: matches_review_def)
next
  case (Some keys)
  then have k: "map (comment_key a) comments = map Some keys" by (simp add: collect_options_Some)
  have "length comments = length (pr_comments p)" if "mset keys = mset (map expected_key (pr_comments p))"
    using that k by (metis length_map mset_eq_length)
  moreover have "keys' = keys" if "map Some keys = map Some keys'" for keys'
    using that by (simp add: inj_map_eq_map)
  ultimately show ?thesis
    using Some unfolding k by (auto simp: matches_review_def sort_eq_mset k)
qed

text \<open>Every review that reconciliation counts was listed, is new or the known one, and matches.\<close>

lemma reconcile_found:
  assumes "foldE (reconcile_review a rules ans e) reviews found = Inr found'" "n \<in> set found'"
  shows "n \<in> set found \<or> (\<exists>r cs. r \<in> set reviews \<and> v_u64 a (v_get a r ''id'') = Some n \<and>
     rc_comments ans n = Inr cs \<and> matches_review a (oe_prepared e) r cs (marks_reviews rules) \<and>
     (case remote_id e of Some known \<Rightarrow> n = known | None \<Rightarrow> n \<notin> set (baseline_review_ids e)))"
  using assms
proof (induction reviews arbitrary: found)
  case Nil
  then show ?case by simp
next
  case (Cons r rs)
  then obtain mid where mid: "reconcile_review a rules ans e r found = Inr mid"
    "foldE (reconcile_review a rules ans e) rs mid = Inr found'" by (auto simp: bind_simps)
  have step: "n \<in> set found \<or> (\<exists>cs. v_u64 a (v_get a r ''id'') = Some n \<and>
     rc_comments ans n = Inr cs \<and> matches_review a (oe_prepared e) r cs (marks_reviews rules) \<and>
     (case remote_id e of Some known \<Rightarrow> n = known | None \<Rightarrow> n \<notin> set (baseline_review_ids e)))"
    if "n \<in> set mid"
    using mid(1) that
    by (auto simp: reconcile_review_def bind_simps split: option.splits if_splits)
  from Cons.IH [OF mid(2) Cons.prems(2)] step show ?case by auto
qed

text \<open>An operation of unknown outcome, and a remote that lists one matching review.\<close>

definition found_api :: "(str + nat) value_api" where
  "found_api = \<lparr>v_get = (\<lambda>v f. if f = ''id'' then Inr 17 else if f = ''body'' then Inl ''a''
      else if f = ''commit_id'' then Inl ''h1'' else if f = ''state'' then Inl ''COMMENTED''
      else if f = ''user'' then v else if f = ''login'' then Inl ''me'' else Inl []),
    v_str = (\<lambda>v. case v of Inl s \<Rightarrow> Some s | Inr _ \<Rightarrow> None),
    v_u64 = (\<lambda>v. case v of Inr n \<Rightarrow> Some n | Inl _ \<Rightarrow> None)\<rparr>"

definition found_answers :: "(str + nat) reconcile_answers" where
  "found_answers = \<lparr>rc_current = Inr sample_target, rc_reviews = Inr [Inl []], rc_comments = (\<lambda>_. Inr [])\<rparr>"

definition unknown_entry :: outbox_entry where
  "unknown_entry = (signed_entry clear_codec UnknownOutcome)\<lparr>baseline_review_ids := [3, 4]\<rparr>"

definition unknown_db :: "json_text db" where
  "unknown_db = empty_db\<lparr>outbox_t := [\<lparr>or_id = ''op'', or_state = ''unknown'', or_data = JEntry unknown_entry,
    or_updated_at = 1\<rparr>]\<rparr>"



end
