(* ===== verification/Address.thy ===== *)
theory Address
  imports Review
begin

text \<open>
  Review addresses: what GitHub, GitLab and Entire addresses the program accepts
  and what they name (\<open>crates/adapters/src/github.rs\<close>, \<open>gitlab.rs\<close>, \<open>entire.rs\<close>),
  with the percent and base64url decoding they use. \<open>Url::parse\<close> of the \<open>url\<close>
  crate is a parameter \<open>url_parse\<close> that gives the parts the code reads.
\<close>

section \<open>Strings\<close>

definition trim_end_char :: "char \<Rightarrow> str \<Rightarrow> str" where
  "trim_end_char c s = rev (dropWhile (\<lambda>x. x = c) (rev s))"

definition trim_char :: "char \<Rightarrow> str \<Rightarrow> str" where
  "trim_char c s = trim_end_char c (dropWhile (\<lambda>x. x = c) s)"

definition rsplit_once :: "str \<Rightarrow> str \<Rightarrow> (str \<times> str) option" where
  "rsplit_once p s = map_option (\<lambda>(a, b). (rev b, rev a)) (split_once (rev p) (rev s))"

fun splitn :: "nat \<Rightarrow> char \<Rightarrow> str \<Rightarrow> str list" where
  "splitn 0 c s = []"
| "splitn (Suc n) c s =
     (if n = 0 then [s]
      else case split_once [c] s of None \<Rightarrow> [s] | Some (a, b) \<Rightarrow> a # splitn n c b)"

definition replace_char :: "char \<Rightarrow> str \<Rightarrow> str \<Rightarrow> str" where
  "replace_char c new s = concat (map (\<lambda>x. if x = c then new else [x]) s)"

definition eq_ignore_ascii_case :: "str \<Rightarrow> str \<Rightarrow> bool" where
  "eq_ignore_ascii_case a b \<longleftrightarrow> to_ascii_lowercase a = to_ascii_lowercase b"

definition all_digits :: "str \<Rightarrow> bool" where
  "all_digits s \<longleftrightarrow> list_all is_ascii_digit s"

definition parse_u64 :: "str \<Rightarrow> nat option" where
  "parse_u64 s = parse_unsigned u64_max s"

definition name_char :: "char \<Rightarrow> bool" where
  "name_char b \<longleftrightarrow> is_ascii_alphanumeric b \<or> b \<in> set ''-_.''"

definition https :: str where
  "https = ''https://''"

definition relative_segment :: "str \<Rightarrow> bool" where
  "relative_segment p \<longleftrightarrow> p = ''..'' \<or> p = ''.''"

section \<open>URLs\<close>

record url =
  u_scheme :: str
  u_username :: str
  u_password :: "str option"
  u_port :: "nat option"
  u_query :: "str option"
  u_fragment :: "str option"
  u_host :: "str option"
  u_path :: str
  u_segments :: "str list option"
  u_query_pairs :: "(str \<times> str) list"

type_synonym url_parser = "str \<Rightarrow> url option"

section \<open>Percent encoding\<close>

definition encode_path_byte :: "char \<Rightarrow> str" where
  "encode_path_byte b =
     (if is_ascii_alphanumeric b \<or> b = CHR ''-'' \<or> b = CHR ''.'' \<or> b = CHR ''_'' \<or> b = CHR ''~'' \<or> b = CHR ''/''
      then [b]
      else [CHR ''%'', hex_upper (byte_of b div 16), hex_upper (byte_of b mod 16)])"

definition encode_path :: "str \<Rightarrow> str" where
  "encode_path path = concat (map encode_path_byte path)"

definition hex_value :: "char \<Rightarrow> nat option" where
  "hex_value c =
     (let n = byte_of c in
      if 48 \<le> n \<and> n \<le> 57 then Some (n - 48)
      else if 65 \<le> n \<and> n \<le> 70 then Some (n - 55)
      else if 97 \<le> n \<and> n \<le> 102 then Some (n - 87) else None)"

text \<open>\<open>u8::from_str_radix(h, 16)\<close> on a text of two bytes: a leading plus sign is accepted.\<close>

definition hex_pair :: "str \<Rightarrow> nat option" where
  "hex_pair h =
     (case h of
        [a, b] \<Rightarrow>
          if a = CHR ''+'' then hex_value b
          else Option.bind (hex_value a) (\<lambda>x. Option.bind (hex_value b) (\<lambda>y. Some (16 * x + y)))
      | _ \<Rightarrow> None)"

function decode_loop :: "str \<Rightarrow> nat \<Rightarrow> bytes \<Rightarrow> str + bytes" where
  "decode_loop s i out =
     (if length s \<le> i then Inr out
      else if s ! i = CHR ''%'' then
        (case Option.bind (str_get s (i + 1) (i + 3)) hex_pair of
           None \<Rightarrow> Inl ''invalid percent-encoding in the URL''
         | Some n \<Rightarrow> decode_loop s (i + 3) (out @ [of_byte n]))
      else decode_loop s (i + 1) (out @ [s ! i]))"
  by pat_completeness auto
termination
  by (relation "measure (\<lambda>(s, i, out). length s - i)") auto

declare decode_loop.simps [simp del]

definition decode_path :: "str \<Rightarrow> str + str" where
  "decode_path s =
     bindE (decode_loop s 0 []) (\<lambda>out. okE ''the URL is not valid UTF-8 once decoded'' (from_utf8 out))"

section \<open>GitHub\<close>

record pr_address =
  pa_host :: str
  pa_owner :: str
  pa_repo :: str
  pa_number :: nat

definition gh_identifier :: "str \<Rightarrow> bool" where
  "gh_identifier s \<longleftrightarrow> s \<noteq> [] \<and> s \<noteq> ''.'' \<and> s \<noteq> ''..'' \<and> length s \<le> 100 \<and> list_all name_char s"

definition pr_checked :: "str \<Rightarrow> str \<Rightarrow> str \<Rightarrow> str \<Rightarrow> str + pr_address" where
  "pr_checked host owner repo n =
     failIf (\<not> gh_identifier owner \<or> \<not> gh_identifier repo \<or> \<not> all_digits n)
       ''bad repository identity, or a bad PR number''
     (bindE (okE ''invalid PR number'' (parse_u64 n)) (\<lambda>number.
      failIf (number = 0) ''PR number must be positive''
        (Inr \<lparr>pa_host = host, pa_owner = owner, pa_repo = repo, pa_number = number\<rparr>)))"

definition credentials :: "url \<Rightarrow> bool" where
  "credentials u \<longleftrightarrow> u_username u \<noteq> [] \<or> u_password u \<noteq> None \<or> u_port u \<noteq> None"

definition pr_parse :: "url_parser \<Rightarrow> str \<Rightarrow> str + pr_address" where
  "pr_parse url_parse given =
     (let value = trim given in
      if starts_with https value then
        failIf (list_ex relative_segment (split_on CHR ''/'' value))
          ''relative URL segments are not accepted as a PR identity''
        (bindE (okE ''invalid PR URL'' (url_parse value)) (\<lambda>u.
         failIf (credentials u \<or> u_query u \<noteq> None)
           ''credentials, ports, and query strings are not allowed in a PR URL''
        (bindE (okE ''PR URL has no host'' (u_host u)) (\<lambda>h.
         (let parts = tl (split_on CHR ''/'' (trim_end_char CHR ''/'' (u_path u))) in
          failIf (length parts < 4 \<or> 5 < length parts \<or> parts ! 2 \<noteq> ''pull'' \<or>
                  (length parts = 5 \<and> parts ! 4 \<notin> {''files'', ''commits''}))
            ''the URL must look like https://HOST/OWNER/REPO/pull/NUMBER''
            (pr_checked (to_ascii_lowercase h) (parts ! 0) (parts ! 1) (parts ! 3)))))))
      else
        bindE (okE ''pass an owner/repo#number or a full PR URL; a bare number alone is ambiguous''
          (split_once ''#'' value)) (\<lambda>(slug, n).
        bindE (okE ''expected owner/repo#number'' (split_once ''/'' slug)) (\<lambda>(own, r).
          pr_checked ''github.com'' own r n)))"

definition pr_from_target :: "remote_target \<Rightarrow> pr_address" where
  "pr_from_target t = \<lparr>pa_host = repo_host (rt_repository t), pa_owner = repo_owner (rt_repository t),
     pa_repo = repo_name (rt_repository t), pa_number = rt_pr t\<rparr>"

definition pr_root :: "pr_address \<Rightarrow> str" where
  "pr_root a = ''repos/'' @ pa_owner a @ ''/'' @ pa_repo a @ ''/pulls/'' @ show_nat (pa_number a)"

record compare_address =
  ca_host :: str
  ca_owner :: str
  ca_repo :: str
  ca_refs :: compare_refs

definition ref_name :: "str \<Rightarrow> bool" where
  "ref_name s \<longleftrightarrow>
     s \<noteq> [] \<and> length s \<le> 255 \<and> hd s \<notin> {CHR ''-'', CHR ''/'', CHR ''.''} \<and>
     last s \<notin> {CHR ''/'', CHR ''.''} \<and> \<not> ends_with ''.lock'' s \<and> \<not> str_contains ''..'' s \<and>
     \<not> str_contains ''//'' s \<and> \<not> str_contains (''@'' @ ''{'') s \<and> \<not> str_contains ''/.'' s \<and>
     \<not> list_ex (\<lambda>b. byte_of b \<le> (32 :: nat) \<or> byte_of b = (127 :: nat) \<or>
        b \<in> set ([CHR ''~'', CHR ''^'', CHR '':'', CHR ''?'', CHR ''*'', CHR ''['', BACKSLASH])) s"

definition split_range :: "str \<Rightarrow> (str \<times> str \<times> bool) option" where
  "split_range s =
     (case split_once ''...'' s of
        Some (base, head) \<Rightarrow> Some (base, head, False)
      | None \<Rightarrow> map_option (\<lambda>(base, head). (base, head, True)) (split_once ''..'' s))"

text \<open>A side of a compare may be \<open>owner:ref\<close>.\<close>

definition side_ref_ok :: "str \<Rightarrow> bool" where
  "side_ref_ok sd =
     ref_name (case split_once '':'' sd of None \<Rightarrow> sd | Some (own, name) \<Rightarrow> if gh_identifier own then name else [])"

definition view_toggle :: "str \<times> str \<Rightarrow> bool" where
  "view_toggle kv \<longleftrightarrow> kv \<in> {(''expand'', ''1''), (''diff'', ''split''), (''diff'', ''unified''), (''w'', ''1'')}"

definition compare_parse :: "url_parser \<Rightarrow> str \<Rightarrow> str + compare_address" where
  "compare_parse url_parse given =
     (let value = trim given in
      failIf (list_ex relative_segment (split_on CHR ''/'' value))
        ''relative URL segments are not accepted as a compare identity''
      (bindE (okE ''invalid compare URL'' (url_parse value)) (\<lambda>u.
       failIf (u_scheme u \<noteq> ''https'' \<or> credentials u \<or> list_ex (\<lambda>kv. \<not> view_toggle kv) (u_query_pairs u))
         ''a compare URL must be HTTPS, without credentials, ports, or query strings''
      (bindE (okE ''compare URL has no host'' (u_host u)) (\<lambda>h.
      (let parts = tl (splitn 5 CHR ''/'' (trim_end_char CHR ''/'' (u_path u))) in
       failIf (length parts \<noteq> 4 \<or> parts ! 2 \<noteq> ''compare'' \<or> \<not> gh_identifier (parts ! 0) \<or> \<not> gh_identifier (parts ! 1))
         ''the URL must look like https://HOST/OWNER/REPO/compare/BASE...HEAD''
      (bindE (decode_path (parts ! 3)) (\<lambda>rng.
       bindE (okE ''a compare needs two refs: BASE...HEAD, or BASE..HEAD'' (split_range rng)) (\<lambda>(base, head, direct).
       failIf (\<not> side_ref_ok base \<or> \<not> side_ref_ok head) ''the compare names a ref that Git cannot use''
        (Inr \<lparr>ca_host = to_ascii_lowercase h, ca_owner = parts ! 0, ca_repo = parts ! 1,
              ca_refs = \<lparr>cmp_base = base, cmp_head = head, cmp_direct = direct\<rparr>\<rparr>))))))))))"

datatype github_target = GhPr pr_address | GhCompare compare_address

definition github_target_parse :: "url_parser \<Rightarrow> str \<Rightarrow> str + github_target" where
  "github_target_parse url_parse given =
     (let value = trim given;
          compare = (starts_with https value \<and>
            (case Option.bind (url_parse value) u_segments of
               None \<Rightarrow> False | Some segs \<Rightarrow> 2 < length segs \<and> segs ! 2 = ''compare'')) in
      if compare then bindE (compare_parse url_parse value) (\<lambda>c. Inr (GhCompare c))
      else bindE (pr_parse url_parse value) (\<lambda>p. Inr (GhPr p)))"

section \<open>GitLab\<close>

record mr_address =
  ma_host :: str
  ma_project :: str
  ma_number :: nat

definition project_ok :: "str \<Rightarrow> bool" where
  "project_ok project \<longleftrightarrow>
     2 \<le> length (split_on CHR ''/'' project) \<and>
     list_all (\<lambda>p. p \<noteq> [] \<and> \<not> relative_segment p \<and> list_all name_char p) (split_on CHR ''/'' project)"

definition mr_parts :: "url_parser \<Rightarrow> str \<Rightarrow> str + (str \<times> str \<times> str)" where
  "mr_parts url_parse input =
     (if starts_with https input then
        failIf (list_ex relative_segment (split_on CHR ''/'' input)) ''URL paths may not contain relative segments''
        (bindE (okE ''Invalid merge request URL'' (url_parse input)) (\<lambda>u.
         failIf (credentials u \<or> u_query u \<noteq> None)
           ''HTTPS MR URLs cannot include credentials, ports, or queries''
        (bindE (okE ''Expected /group/project/-/merge_requests/number''
           (split_once ''/-/merge_requests/'' (trim_char CHR ''/'' (u_path u)))) (\<lambda>(project, rest).
         (let parts = split_on CHR ''/'' rest in
          failIf ((1 < length parts \<and> parts ! 1 \<notin> {''diffs'', ''commits'', ''pipelines''}) \<or> 2 < length parts)
            ''Invalid MR URL suffix''
            (bindE (okE ''Missing GitLab host'' (u_host u)) (\<lambda>h. Inr (h, project, hd parts))))))))
      else
        bindE (okE ''Enter group/project!123, or provide an HTTPS URL for the GitLab MR''
          (rsplit_once ''!'' input)) (\<lambda>(project, n). Inr (''gitlab.com'', project, n)))"

definition mr_parse :: "url_parser \<Rightarrow> str \<Rightarrow> str + mr_address" where
  "mr_parse url_parse given =
     bindE (mr_parts url_parse (trim given)) (\<lambda>(host, project, n).
     failIf (\<not> project_ok project \<or> \<not> all_digits n)
       ''GitLab project name or merge request number is invalid''
     (bindE (okE ''Invalid MR number'' (parse_u64 n)) (\<lambda>number.
      failIf (number = 0) ''MR number must be positive''
        (Inr \<lparr>ma_host = host, ma_project = project, ma_number = number\<rparr>))))"

definition mr_root :: "mr_address \<Rightarrow> str" where
  "mr_root a = ''projects/'' @ replace_char CHR ''/'' ''%2F'' (ma_project a) @ ''/merge_requests/'' @
     show_nat (ma_number a)"

definition mr_from_target :: "remote_target \<Rightarrow> mr_address" where
  "mr_from_target t = \<lparr>ma_host = repo_host (rt_repository t),
     ma_project = repo_owner (rt_repository t) @ ''/'' @ repo_name (rt_repository t), ma_number = rt_pr t\<rparr>"

record gitlab_compare =
  gc_host :: str
  gc_project :: str
  gc_refs :: compare_refs
  from_project_id :: "nat option"

text \<open>The query of a compare whose refs are in the path: the state is the project id and \<open>straight\<close>.\<close>

definition path_query :: "str \<times> str \<Rightarrow> nat option \<times> bool option \<Rightarrow> str + (nat option \<times> bool option)" where
  "path_query kv st =
     (if fst kv = ''from_project_id'' then
        bindE (okE ''from_project_id must be a number'' (parse_u64 (snd kv))) (\<lambda>n. Inr (Some n, snd st))
      else if fst kv = ''straight'' then Inr (fst st, Some (snd kv = ''true''))
      else Inl ''Give the refs in the path or in the query, not both'')"

text \<open>The query of a compare whose refs are in the query.\<close>

record compare_query =
  cq_from :: "str option"
  cq_to :: "str option"
  cq_project :: "nat option"
  cq_direct :: bool

definition ref_query :: "str \<times> str \<Rightarrow> compare_query \<Rightarrow> str + compare_query" where
  "ref_query kv st =
     (if fst kv = ''from'' then Inr (st\<lparr>cq_from := Some (snd kv)\<rparr>)
      else if fst kv = ''to'' then Inr (st\<lparr>cq_to := Some (snd kv)\<rparr>)
      else if fst kv = ''from_project_id'' then
        bindE (okE ''from_project_id must be a number'' (parse_u64 (snd kv))) (\<lambda>n. Inr (st\<lparr>cq_project := Some n\<rparr>))
      else if fst kv = ''straight'' then
        (if snd kv = ''true'' then Inr (st\<lparr>cq_direct := True\<rparr>)
         else if snd kv = ''false'' then Inr (st\<lparr>cq_direct := False\<rparr>)
         else Inl ''straight must be true or false'')
      else Inl ''Only from, to, straight, and from_project_id are accepted'')"

definition gitlab_refs :: "str option \<Rightarrow> (str \<times> str) list \<Rightarrow> str + (str \<times> str \<times> bool \<times> nat option)" where
  "gitlab_refs rest pairs =
     (case rest of
        Some rng \<Rightarrow>
          bindE (foldE path_query pairs (None, None)) (\<lambda>(pid, straight).
          bindE (decode_path rng) (\<lambda>r.
          bindE (okE ''A compare needs two refs: from...to, or from..to'' (split_range r)) (\<lambda>(from, to, direct).
          failIf (straight \<noteq> None \<and> straight \<noteq> Some direct)
            ''straight disagrees with the dots in the compare path''
            (Inr (from, to, direct, pid)))))
      | None \<Rightarrow>
          bindE (foldE ref_query pairs \<lparr>cq_from = None, cq_to = None, cq_project = None, cq_direct = False\<rparr>) (\<lambda>q.
          bindE (okE ''The compare query needs from and to'' (cq_from q)) (\<lambda>from.
          bindE (okE ''The compare query needs from and to'' (cq_to q)) (\<lambda>to.
            Inr (from, to, cq_direct q, cq_project q)))))"

definition gitlab_compare_parse :: "url_parser \<Rightarrow> str \<Rightarrow> str + gitlab_compare" where
  "gitlab_compare_parse url_parse given =
     (let input = trim given in
      failIf (list_ex relative_segment (split_on CHR ''/'' input)) ''URL paths may not contain relative segments''
      (bindE (okE ''Invalid compare URL'' (url_parse input)) (\<lambda>u.
       failIf (u_scheme u \<noteq> ''https'' \<or> credentials u) ''HTTPS compare URLs cannot include credentials or ports''
      (bindE (okE ''Expected /group/project/-/compare/from...to''
         (split_once ''/-/compare'' (trim_char CHR ''/'' (u_path u)))) (\<lambda>(project, t).
       bindE (if t = [] then Inr None
              else bindE (okE ''Invalid compare URL suffix'' (strip_prefix ''/'' t)) (\<lambda>x. Inr (Some x))) (\<lambda>rest.
       bindE (gitlab_refs rest (u_query_pairs u)) (\<lambda>(from, to, direct, pid).
       failIf (\<not> project_ok project) ''GitLab project name is invalid''
      (failIf (\<not> ref_name from \<or> \<not> ref_name to) ''The compare names a ref that Git cannot use''
      (bindE (okE ''Missing GitLab host'' (u_host u)) (\<lambda>h.
        Inr \<lparr>gc_host = h, gc_project = project,
             gc_refs = \<lparr>cmp_base = from, cmp_head = to, cmp_direct = direct\<rparr>, from_project_id = pid\<rparr>))))))))))"

datatype gitlab_target = GlMr mr_address | GlCompare gitlab_compare

definition gitlab_target_parse :: "url_parser \<Rightarrow> str \<Rightarrow> str + gitlab_target" where
  "gitlab_target_parse url_parse given =
     (let input = trim given;
          compare = (starts_with https input \<and>
            (case url_parse input of
               None \<Rightarrow> False
             | Some u \<Rightarrow> (let path = trim_end_char CHR ''/'' (u_path u) in
                 ends_with ''/-/compare'' path \<or> str_contains ''/-/compare/'' path))) in
      if compare then bindE (gitlab_compare_parse url_parse input) (\<lambda>c. Inr (GlCompare c))
      else bindE (mr_parse url_parse input) (\<lambda>m. Inr (GlMr m)))"

section \<open>Entire\<close>

datatype trail_selection =
    TrailProject nat "(str \<times> nat) option"
  | TrailRepository str nat

record trail_address =
  ta_host :: str
  ta_forge :: str
  ta_project :: str
  ta_selection :: trail_selection

definition project_name :: "str \<Rightarrow> bool" where
  "project_name s \<longleftrightarrow>
     s \<noteq> [] \<and> length s \<le> 39 \<and> is_ascii_alphanumeric (hd s) \<and> is_ascii_alphanumeric (last s) \<and>
     list_all (\<lambda>b. is_ascii_alphanumeric b \<or> b = CHR ''-'') s"

definition entire_repo_name :: "str \<Rightarrow> bool" where
  "entire_repo_name s \<longleftrightarrow>
     s \<noteq> [] \<and> length s \<le> 100 \<and> s \<notin> {''.'', ''..'', ''-''} \<and> list_all name_char s"

definition trail_number :: "str \<Rightarrow> str + nat" where
  "trail_number s =
     failIf (s = [] \<or> 10 < length s \<or> \<not> all_digits s)
       ''Entire Trail and Change numbers must be positive integers''
     (bindE (okE ''invalid Entire number'' (parse_u64 s)) (\<lambda>n.
      failIf (n = 0) ''Entire Trail and Change numbers must be positive integers'' (Inr n)))"

definition opaque_id :: "str \<Rightarrow> bool" where
  "opaque_id s \<longleftrightarrow> s \<noteq> [] \<and> length s \<le> 128 \<and> list_all (\<lambda>b. is_ascii_alphanumeric b \<or> b \<in> set ''_-'') s"

definition placement_ok :: "str \<Rightarrow> bool" where
  "placement_ok s \<longleftrightarrow>
     length s = 26 \<and> byte_of (hd s) \<le> (55 :: nat) \<and> list_all (\<lambda>b. b \<in> set ''0123456789ABCDEFGHJKMNPQRSTVWXYZ'') s"

definition is_ascii_hexdigit :: "char \<Rightarrow> bool" where
  "is_ascii_hexdigit c \<longleftrightarrow> hex_value c \<noteq> None"

definition commit_id_ok :: "str \<Rightarrow> bool" where
  "commit_id_ok s \<longleftrightarrow> length s \<in> {40, 64} \<and> list_all is_ascii_hexdigit s"

definition is_ascii_control :: "char \<Rightarrow> bool" where
  "is_ascii_control b \<longleftrightarrow> byte_of b < (32 :: nat) \<or> byte_of b = (127 :: nat)"

definition strict_https_url :: "url_parser \<Rightarrow> str \<Rightarrow> str + url" where
  "strict_https_url url_parse given =
     failIf (\<not> starts_with https given \<or> list_ex (\<lambda>b. is_ascii_control b \<or> b = BACKSLASH) given \<or>
             list_ex relative_segment (split_on CHR ''/'' given))
       ''Entire URLs must be absolute HTTPS URLs without relative segments''
     (let authority = takeWhile (\<lambda>b. b \<notin> set ''/?#'') (drop 8 given);
          given_path = takeWhile (\<lambda>b. b \<notin> set ''?#'') (drop (8 + length authority) given) in
      failIf (authority = [] \<or> CHR ''@'' \<in> set authority \<or> CHR '':'' \<in> set authority)
        ''credentials and ports are not allowed in Entire URLs''
     (failIf (CHR ''%'' \<in> set given_path) ''encoded Entire URL identities are not accepted''
     (bindE (okE ''invalid Entire URL'' (url_parse given)) (\<lambda>u.
      failIf (\<not> (case u_host u of None \<Rightarrow> False | Some h \<Rightarrow> eq_ignore_ascii_case authority h) \<or>
              credentials u \<or> CHR ''%'' \<in> set (u_path u))
        ''invalid or encoded Entire URL identity'' (Inr u)))))"

definition trail_selection_of :: "str list \<Rightarrow> str + trail_selection" where
  "trail_selection_of p =
     (if p ! 2 = ''-'' \<and> p ! 3 = ''trails'' then
        bindE (trail_number (p ! 4)) (\<lambda>number.
          if length p = 5 then Inr (TrailProject number None)
          else if length p = 8 \<and> p ! 5 = ''changes'' \<and> entire_repo_name (p ! 6) then
            bindE (trail_number (p ! 7)) (\<lambda>n. Inr (TrailProject number (Some (p ! 6, n))))
          else Inl ''expected /-/trails/NUMBER or /-/trails/NUMBER/changes/REPO/NUMBER'')
      else if length p \<in> {5, 6} \<and> entire_repo_name (p ! 2) \<and> p ! 3 = ''trails'' \<and>
              (length p = 5 \<or> entire_repo_name (p ! 5)) then
        bindE (trail_number (p ! 4)) (\<lambda>n. Inr (TrailRepository (p ! 2) n))
      else Inl ''expected an Entire project Trail or repository Change URL'')"

definition trail_parse :: "url_parser \<Rightarrow> str \<Rightarrow> str + trail_address" where
  "trail_parse url_parse given =
     bindE (strict_https_url url_parse (trim given)) (\<lambda>u.
     bindE (okE ''Entire URL has no host'' (u_host u)) (\<lambda>host.
     failIf (host \<notin> {''entire.com'', ''entire.io''}) ''Entire Trail URLs must use entire.com or entire.io''
    (failIf (u_query u \<noteq> None) ''query strings are not allowed in an Entire Trail identity''
    (let p = tl (split_on CHR ''/'' (trim_end_char CHR ''/'' (u_path u))) in
     failIf (length p < 5 \<or> p ! 0 \<notin> {''et'', ''gh''} \<or> \<not> project_name (p ! 1))
       ''expected an Entire URL with et/<project> or gh/<owner>''
     (bindE (trail_selection_of p) (\<lambda>sel.
       Inr \<lparr>ta_host = host, ta_forge = p ! 0, ta_project = to_ascii_lowercase (p ! 1), ta_selection = sel\<rparr>))))))"

definition entire_base :: "trail_address \<Rightarrow> str" where
  "entire_base a = ''https://entire.com/'' @ ta_forge a @ ''/'' @ ta_project a @ ''/''"

definition change_url :: "trail_address \<Rightarrow> str \<Rightarrow> nat \<Rightarrow> str" where
  "change_url a repo number =
     (case ta_selection a of
        TrailProject trail _ \<Rightarrow>
          entire_base a @ ''-/trails/'' @ show_nat trail @ ''/changes/'' @ repo @ ''/'' @ show_nat number
      | TrailRepository _ _ \<Rightarrow> entire_base a @ repo @ ''/trails/'' @ show_nat number)"

definition canonical_url :: "trail_address \<Rightarrow> str" where
  "canonical_url a =
     (case ta_selection a of
        TrailProject number None \<Rightarrow> entire_base a @ ''-/trails/'' @ show_nat number
      | TrailProject _ (Some (repo, number)) \<Rightarrow> change_url a repo number
      | TrailRepository repo number \<Rightarrow> change_url a repo number)"

definition entire_api_origin :: "url_parser \<Rightarrow> str \<Rightarrow> str + str" where
  "entire_api_origin url_parse given =
     bindE (strict_https_url url_parse given) (\<lambda>u.
       (let host = (case u_host u of None \<Rightarrow> [] | Some h \<Rightarrow> h) in
        failIf (\<not> (ends_with ''.api.entire.io'' host \<or> ends_with ''.api.entire.com'' host) \<or>
                u_path u \<notin> {[], ''/''} \<or> u_query u \<noteq> None \<or> u_fragment u \<noteq> None)
          ''Entire did not return a trusted HTTPS API cell origin''
          (Inr (https @ host))))"

section \<open>Base64url\<close>

definition base64_digit :: "char \<Rightarrow> nat option" where
  "base64_digit b =
     (let n = byte_of b in
      if 65 \<le> n \<and> n \<le> 90 then Some (n - 65)
      else if 97 \<le> n \<and> n \<le> 122 then Some (n - 97 + 26)
      else if 48 \<le> n \<and> n \<le> 57 then Some (n - 48 + 52)
      else if b = CHR ''-'' then Some 62 else if b = CHR ''_'' then Some 63 else None)"

text \<open>The loop over the digits: the pending value and the number of its bits.\<close>

fun base64_loop :: "nat \<Rightarrow> nat \<Rightarrow> bytes \<Rightarrow> str \<Rightarrow> str + (nat \<times> nat \<times> bytes)" where
  "base64_loop value bits out [] = Inr (value, bits, out)"
| "base64_loop value bits out (b # r) =
     bindE (okE ''Entire login has invalid encoded claims'' (base64_digit b)) (\<lambda>d.
       (let v = value * 64 + d; n = bits + 6 in
        if 8 \<le> n then base64_loop (v mod 2 ^ (n - 8)) (n - 8) (out @ [of_byte (v div 2 ^ (n - 8) mod 256)]) r
        else base64_loop v n out r))"

definition decode_base64url :: "str \<Rightarrow> str + bytes" where
  "decode_base64url s =
     bindE (base64_loop 0 0 [] s) (\<lambda>(value, bits, out).
       failIf (bits = 6 \<or> value \<noteq> 0) ''Entire login has invalid encoded claims'' (Inr out))"

section \<open>Round trips\<close>

lemma ascii_boundary: "list_all (\<lambda>c. byte_of c < (128 :: nat)) s \<Longrightarrow> i \<le> length s \<Longrightarrow> is_char_boundary s i"
proof (cases "i < length s")
  case True
  moreover assume "list_all (\<lambda>c. byte_of c < (128 :: nat)) s"
  ultimately have "byte_of (s ! i) < (128 :: nat)" by (simp add: list_all_length)
  then show ?thesis using True by (simp add: is_char_boundary_def is_cont_def)
qed (simp add: is_char_boundary_def)

lemma ascii_str_get:
  "list_all (\<lambda>c. byte_of c < (128 :: nat)) s \<Longrightarrow> a \<le> b \<Longrightarrow> b \<le> length s \<Longrightarrow> str_get s a b = Some (slice a b s)"
  by (simp add: str_get_def ascii_boundary)

lemma hex_upper_value: "n < 16 \<Longrightarrow> hex_value (hex_upper n) = Some n"
  by (auto simp: hex_upper_def hex_value_def Let_def)

lemma hex_upper_plain: "n < 16 \<Longrightarrow> byte_of (hex_upper n) < (128 :: nat) \<and> hex_upper n \<noteq> CHR ''+''"
proof -
  assume n: "n < 16"
  then have "byte_of (hex_upper n) = (if n < 10 then 48 + n else 55 + n)" by (simp add: hex_upper_def)
  with n show ?thesis by (auto split: if_splits)
qed

lemma byte_hex: "byte_of b div 16 < (16 :: nat)" "byte_of b mod 16 < (16 :: nat)"
  "16 * (byte_of b div 16) + byte_of b mod 16 = (byte_of b :: nat)"
proof -
  have "byte_of b < (256 :: nat)" by simp
  then show "byte_of b div 16 < (16 :: nat)" by (simp add: less_mult_imp_div_less)
qed simp_all

lemma encode_path_byte_cases:
  obtains "encode_path_byte b = [b]" "b \<noteq> CHR ''%''" "byte_of b < (128 :: nat)"
  | "encode_path_byte b = [CHR ''%'', hex_upper (byte_of b div 16), hex_upper (byte_of b mod 16)]"
proof (cases "is_ascii_alphanumeric b \<or> b = CHR ''-'' \<or> b = CHR ''.'' \<or> b = CHR ''_'' \<or> b = CHR ''~'' \<or> b = CHR ''/''")
  case True
  then have "b \<noteq> CHR ''%''" "byte_of b < (128 :: nat)"
    by (auto simp: is_ascii_alphanumeric_def is_ascii_alphabetic_def is_ascii_digit_def)
  with True that(1) show thesis by (simp add: encode_path_byte_def)
next
  case False
  with that(2) show thesis by (simp add: encode_path_byte_def)
qed

lemma encode_path_ascii: "list_all (\<lambda>c. byte_of c < (128 :: nat)) (encode_path v)"
proof (induction v)
  case (Cons b v)
  have "list_all (\<lambda>c. byte_of c < (128 :: nat)) (encode_path_byte b)"
    by (rule encode_path_byte_cases [of b]) (simp_all add: hex_upper_plain byte_hex)
  with Cons show ?case by (simp add: encode_path_def)
qed (simp add: encode_path_def)

lemma decode_encode_loop:
  assumes "list_all (\<lambda>c. byte_of c < (128 :: nat)) pre"
  shows "decode_loop (pre @ encode_path v) (length pre) out = Inr (out @ v)"
  using assms
proof (induction v arbitrary: pre out)
  case Nil
  then show ?case by (simp add: decode_loop.simps encode_path_def)
next
  case (Cons b v)
  have e: "encode_path (b # v) = encode_path_byte b @ encode_path v" by (simp add: encode_path_def)
  show ?case
  proof (rule encode_path_byte_cases [of b])
    assume b: "encode_path_byte b = [b]" "b \<noteq> CHR ''%''" "byte_of b < (128 :: nat)"
    have "decode_loop (pre @ encode_path (b # v)) (length pre) out =
        decode_loop ((pre @ [b]) @ encode_path v) (length (pre @ [b])) (out @ [b])"
      using b by (subst decode_loop.simps) (simp add: e nth_append)
    with Cons.IH [of "pre @ [b]" "out @ [b]"] Cons.prems b show ?thesis by simp
  next
    let ?h = "hex_upper (byte_of b div 16)" and ?l = "hex_upper (byte_of b mod 16)"
    assume b: "encode_path_byte b = [CHR ''%'', ?h, ?l]"
    let ?s = "pre @ [CHR ''%'', ?h, ?l] @ encode_path v"
    have asc: "list_all (\<lambda>c. byte_of c < (128 :: nat)) ?s"
      using Cons.prems encode_path_ascii hex_upper_plain byte_hex by simp
    have "str_get ?s (length pre + 1) (length pre + 3) = Some [?h, ?l]"
      using ascii_str_get [OF asc, of "length pre + 1" "length pre + 3"] by (simp add: slice_def)
    moreover have "hex_pair [?h, ?l] = Some (byte_of b)"
      using hex_upper_plain byte_hex [of b] by (simp add: hex_pair_def hex_upper_value)
    ultimately have "decode_loop ?s (length pre) out =
        decode_loop ?s (length pre + 3) (out @ [b])"
      by (subst decode_loop.simps) (simp add: nth_append)
    moreover have len: "length (pre @ [CHR ''%'', ?h, ?l]) = length pre + 3" by simp
    have "decode_loop ((pre @ [CHR ''%'', ?h, ?l]) @ encode_path v) (length (pre @ [CHR ''%'', ?h, ?l])) (out @ [b])
        = Inr ((out @ [b]) @ v)"
      using Cons.prems hex_upper_plain byte_hex by (intro Cons.IH) simp
    ultimately show ?thesis using b e unfolding len by simp
  qed
qed

lemma encode_same: "encode v = encode_path v"
proof -
  have "encode_byte = encode_path_byte" by (rule ext) (simp add: encode_byte_def encode_path_byte_def)
  then show ?thesis by (simp add: encode_def encode_path_def)
qed

text \<open>The reference encoder of base64url without padding.\<close>

definition base64_char :: "nat \<Rightarrow> char" where
  "base64_char d =
     (if d < 26 then of_byte (65 + d) else if d < 52 then of_byte (97 + (d - 26))
      else if d < 62 then of_byte (48 + (d - 52)) else if d = 62 then CHR ''-'' else CHR ''_'')"

fun base64_encode :: "bytes \<Rightarrow> str" where
  "base64_encode [] = []"
| "base64_encode [a] = [base64_char (byte_of a div 4), base64_char (byte_of a mod 4 * 16)]"
| "base64_encode [a, b] =
     [base64_char (byte_of a div 4), base64_char (byte_of a mod 4 * 16 + byte_of b div 16),
      base64_char (byte_of b mod 16 * 4)]"
| "base64_encode (a # b # c # r) =
     [base64_char (byte_of a div 4), base64_char (byte_of a mod 4 * 16 + byte_of b div 16),
      base64_char (byte_of b mod 16 * 4 + byte_of c div 64), base64_char (byte_of c mod 64)] @ base64_encode r"

lemma base64_char_digit: "d < 64 \<Longrightarrow> base64_digit (base64_char d) = Some d"
  by (auto simp: base64_char_def base64_digit_def Let_def)

lemma byte_bits:
  "byte_of a div 4 < (64 :: nat)" "byte_of b div 16 < (16 :: nat)" "byte_of c div 64 < (4 :: nat)"
proof -
  have "byte_of x < (256 :: nat)" for x by simp
  then show "byte_of a div 4 < (64 :: nat)" "byte_of b div 16 < (16 :: nat)" "byte_of c div 64 < (4 :: nat)"
    by (simp_all add: less_mult_imp_div_less)
qed

lemma split_times4:
  "n div 4 * 64 + (n mod 4 * 16 + y) = n * 16 + (y :: nat)"
  "n div 16 * 64 + (n mod 16 * 4 + y) = n * 4 + (y :: nat)"
  by presburger+

lemma base64_step1:
  assumes "y < (16 :: nat)"
  shows "base64_loop 0 0 out (base64_char (byte_of a div 4) # base64_char (byte_of a mod 4 * 16 + y) # r) =
    base64_loop y 4 (out @ [a]) r"
proof -
  have d: "byte_of a mod 4 * 16 + y < (64 :: nat)" using assms by (simp add: add.commute)
  have v: "(byte_of a div 4 * 64 + (byte_of a mod 4 * 16 + y)) div 16 = byte_of a"
      "(byte_of a div 4 * 64 + (byte_of a mod 4 * 16 + y)) mod 16 = y"
    using assms by (simp_all only: split_times4) simp_all
  show ?thesis using byte_bits(1) [of a] d by (simp add: Let_def base64_char_digit v)
qed


lemma base64_step2:
  assumes "y < (4 :: nat)"
  shows "base64_loop (byte_of b div 16) 4 out (base64_char (byte_of b mod 16 * 4 + y) # r) =
    base64_loop y 2 (out @ [b]) r"
proof -
  have d: "byte_of b mod 16 * 4 + y < (64 :: nat)" using assms by (simp add: add.commute)
  have v: "(byte_of b div 16 * 64 + (byte_of b mod 16 * 4 + y)) div 4 = byte_of b"
      "(byte_of b div 16 * 64 + (byte_of b mod 16 * 4 + y)) mod 4 = y"
    using assms by (simp_all only: split_times4) simp_all
  show ?thesis using d by (simp add: Let_def base64_char_digit v)
qed

lemma base64_step3:
  "base64_loop (byte_of c div 64) 2 out (base64_char (byte_of c mod 64) # r) = base64_loop 0 0 (out @ [c]) r"
proof -
  have "byte_of c div 64 * 64 + byte_of c mod 64 = (byte_of c :: nat)" by simp
  then show ?thesis by (simp add: base64_char_digit Let_def)
qed

lemma base64_decode_loop:
  "\<exists>bits. base64_loop 0 0 out (base64_encode bs) = Inr (0, bits, out @ bs) \<and> bits \<noteq> 6"
proof (induction bs arbitrary: out rule: base64_encode.induct)
  case (2 a)
  then show ?case using base64_step1 [of 0 out a "[]"] by simp
next
  case (3 a b)
  then show ?case
    using base64_step1 [of "byte_of b div 16" out a] base64_step2 [of 0 b "out @ [a]" "[]"] byte_bits(2) [of b]
    by (simp del: base64_loop.simps) simp
next
  case (4 a b c r)
  have "base64_loop 0 0 out (base64_encode (a # b # c # r)) = base64_loop 0 0 (out @ [a, b, c]) (base64_encode r)"
    using base64_step1 [of "byte_of b div 16" out a] base64_step2 [of "byte_of c div 64" b "out @ [a]"]
      base64_step3 [of c "out @ [a, b]"] byte_bits(2) [of b] byte_bits(3) [of c]
    by (simp del: base64_loop.simps)
  with "4.IH" [of "out @ [a, b, c]"] show ?case by simp
qed simp

section \<open>Properties\<close>

text \<open>
  Percent encoding loses nothing: decoding the encoded form of any
  text, written by either of the two encoders, gives the text back.
\<close>

theorem percent_roundtrip:
  assumes "valid_utf8 v"
  shows "decode_path (encode_path v) = Inr v \<and> decode_path (encode v) = Inr v"
  using decode_encode_loop [of "[]" v "[]"] assms
  by (simp add: decode_path_def from_utf8_def encode_same)

theorem percent_roundtrip_witness:
  "decode_path (encode_path ''a b#?'') = Inr ''a b#?''"
proof -
  have "valid_utf8 ''a b#?''" by code_simp
  from percent_roundtrip [OF this] show ?thesis by simp
qed

text \<open>
  The decoder also accepts escapes that are not two hexadecimal
  digits: a plus sign after the percent sign is read as a sign, so that the
  range \<open>a%+e..b\<close> decodes to a text with a control character.
\<close>

theorem decode_path_plus_sign:
  "decode_path ''a%+e..b'' = Inr (''a'' @ [of_byte 14] @ ''..b'')"
  by code_simp

text \<open>
  Base64url decoding inverts encoding on every byte string, whatever
  its length modulo three.
\<close>

theorem base64_roundtrip: "decode_base64url (base64_encode bs) = Inr bs"
proof -
  obtain bits where "base64_loop 0 0 [] (base64_encode bs) = Inr (0, bits, bs)" "bits \<noteq> 6"
    using base64_decode_loop [of "[]" bs] by auto
  then show ?thesis by (simp add: decode_base64url_def)
qed

end
