(* ===== verification/Rules.thy ===== *)
theory Rules
  imports Address Session
begin

text \<open>
  The review rules of the three providers: \<open>GithubRules\<close> of
  \<open>crates/adapters/src/github.rs\<close>, \<open>GitlabRules\<close> of \<open>gitlab.rs\<close> with its frozen
  diff positions, and \<open>EntireRules\<close> of \<open>entire.rs\<close>. Each is an instance of the
  record that models the trait; the serialised text of a payload or a position
  (serde_json) and SHA-1 are parameters. Each instance keeps the contract of
  \<open>Review\<close>, so that preparation is proved once.
\<close>

section \<open>Payload data\<close>

datatype github_comment =
    FileComment str str str
  | LineComment str str nat str "nat option" "str option"

record github_payload =
  gp_commit_id :: str
  gp_event :: str
  gp_body :: str
  gp_comments :: "github_comment list"

record gitlab_range_line =
  rl_line_code :: str
  rl_side :: str
  rl_old_line :: "nat option"
  rl_new_line :: "nat option"

record gitlab_line_range =
  lr_start :: gitlab_range_line
  lr_end :: gitlab_range_line

record gitlab_position =
  gp_type :: str
  base_sha :: str
  start_sha :: str
  head_sha :: str
  gp_old_path :: str
  gp_new_path :: str
  gp_old_line :: "nat option"
  gp_new_line :: "nat option"
  line_range :: "gitlab_line_range option"

record gitlab_payload =
  lp_head :: str
  lp_verdict :: verdict
  lp_summary :: str
  lp_comments :: "prepared_comment list"

text \<open>The encoders that the rules call.\<close>

record payload_codec =
  json_github :: "github_payload \<Rightarrow> str"
  json_gitlab :: "gitlab_payload \<Rightarrow> str"
  json_position :: "gitlab_position \<Rightarrow> str"
  sha1 :: "bytes \<Rightarrow> bytes"

section \<open>GitHub\<close>

definition dots :: "compare_refs \<Rightarrow> str" where
  "dots c = (if cmp_direct c then ''..'' else ''...'')"

definition github_reopen :: "remote_target \<Rightarrow> str" where
  "github_reopen t =
     (let r = rt_repository t; base = https @ repo_host r @ ''/'' @ repo_owner r @ ''/'' @ repo_name r in
      case rt_compare t of
        Some c \<Rightarrow> base @ ''/compare/'' @ encode_path (cmp_base c) @ dots c @ encode_path (cmp_head c)
      | None \<Rightarrow> base @ ''/pull/'' @ show_nat (rt_pr t))"

definition github_line_url :: "remote_target \<Rightarrow> str \<Rightarrow> str \<Rightarrow> nat \<Rightarrow> str" where
  "github_line_url t path revision line =
     (let r = rt_repository t in
      https @ repo_host r @ ''/'' @ encode (repo_owner r) @ ''/'' @ encode (repo_name r) @ ''/blob/'' @
        encode revision @ ''/'' @ encode path @ ''#L'' @ show_nat line)"

definition github_comment_of :: "prepared_comment \<Rightarrow> github_comment" where
  "github_comment_of c =
     (if pc_file_level c then FileComment (pc_path c) (pc_body c) ''file''
      else (let range = pc_start_line c < pc_line c in
        LineComment (pc_path c) (pc_body c) (pc_line c) (side_api (pc_side c))
          (if range then Some (pc_start_line c) else None)
          (if range then Some (side_api (pc_side c)) else None)))"

definition github_payload_of :: "prepared_review \<Rightarrow> github_payload" where
  "github_payload_of p =
     \<lparr>gp_commit_id = rt_head (pr_target p), gp_event = verdict_api (pr_verdict p), gp_body = pr_summary p,
      gp_comments = map github_comment_of (pr_comments p)\<rparr>"

definition github_rules :: "payload_codec \<Rightarrow> review_rules" where
  "github_rules j =
     \<lparr>rules_id = GITHUB, rules_name = ''GitHub'', open_label = ''GitHub'',
      address_label = ''Pull request or compare URL'',
      address_hint = ''Enter owner/repo#123, a GitHub pull request URL, or a compare URL'',
      address_help = ''Enter a PR link or use owner/repository#number. A compare URL opens read-only.'',
      write_flag = ''--allow-github-writes'', read_only_reason = None, preview_note = None,
      reopen_address = github_reopen, source_link_unavailable_reason = None, line_url = github_line_url,
      rules_supports = (\<lambda>_. True), rules_check = (\<lambda>_ _ _. Inr ()), rules_position = (\<lambda>_ _ _. Inr None),
      rules_payload = (\<lambda>p. json_github j (github_payload_of p)), marks_reviews = False\<rparr>"

section \<open>GitLab\<close>

definition quick_action :: "str \<Rightarrow> bool" where
  "quick_action s \<longleftrightarrow> list_ex (\<lambda>l. starts_with ''/'' (trim_start l)) (str_lines s)"

definition gitlab_check :: "verdict \<Rightarrow> str \<Rightarrow> draft list \<Rightarrow> review_error + unit" where
  "gitlab_check v summary drafts =
     failIf (quick_action summary \<or> list_ex (\<lambda>d. quick_action (d_body d)) drafts)
       (ReviewError ''GitLab quick actions are disallowed here; format inline slash-prefixed text before posting'')
       (Inr ())"

definition range_line_new :: "str \<Rightarrow> side \<Rightarrow> patch_row \<Rightarrow> gitlab_range_line" where
  "range_line_new path_hash s row =
     \<lparr>rl_line_code = path_hash @ ''_'' @ show_nat (case old_line row of Some n \<Rightarrow> n | None \<Rightarrow> 0) @ ''_'' @
        show_nat (case new_line row of Some n \<Rightarrow> n | None \<Rightarrow> 0),
      rl_side = (if s = SideRight then ''new'' else ''old''),
      rl_old_line = old_line row, rl_new_line = new_line row\<rparr>"

definition path_or :: "repo_path option \<Rightarrow> repo_path \<Rightarrow> review_error + str" where
  "path_or q p = map_errE ReviewError (path_utf8 (case q of Some x \<Rightarrow> x | None \<Rightarrow> p))"

definition gitlab_position_of :: "payload_codec \<Rightarrow> remote_target \<Rightarrow> file_change \<Rightarrow> draft \<Rightarrow>
    review_error + gitlab_position" where
  "gitlab_position_of j target f d =
     bindE (okE ReviewPanic (fc_path f)) (\<lambda>p.
     bindE (path_or (old_path f) p) (\<lambda>old.
     bindE (path_or (new_path f) p) (\<lambda>new.
     (let position = \<lparr>gp_type = ''file'', base_sha = comparison_base target, start_sha = target_tip target,
            head_sha = rt_head target, gp_old_path = old, gp_new_path = new, gp_old_line = None,
            gp_new_line = None, line_range = None\<rparr> in
      if is_file_level d then Inr position
      else
      bindE (okE (ReviewError ''the draft holds no source line to post to GitLab'')
        (fc_line f (d_side d) (d_line d))) (\<lambda>row.
      (let position = position\<lparr>gp_type := ''text'', gp_old_line := old_line row, gp_new_line := new_line row\<rparr> in
       if d_start_line d = d_line d then Inr position
       else
       bindE (okE (ReviewError ''the draft starts outside the GitLab diff'')
         (fc_line f (d_side d) (d_start_line d))) (\<lambda>start.
       (let path_hash = concat (map hex_byte (sha1 j new)) in
        Inr (position\<lparr>line_range := Some \<lparr>lr_start = range_line_new path_hash (d_side d) start,
          lr_end = range_line_new path_hash (d_side d) row\<rparr>\<rparr>)))))))))"

definition gitlab_reopen :: "remote_target \<Rightarrow> str" where
  "gitlab_reopen t =
     (let r = rt_repository t; base = https @ repo_host r @ ''/'' @ repo_owner r @ ''/'' @ repo_name r in
      case rt_compare t of
        Some c \<Rightarrow> base @ ''/-/compare/'' @ encode_path (cmp_base c) @ dots c @ encode_path (cmp_head c)
      | None \<Rightarrow> base @ ''/-/merge_requests/'' @ show_nat (rt_pr t))"

definition gitlab_line_url :: "remote_target \<Rightarrow> str \<Rightarrow> str \<Rightarrow> nat \<Rightarrow> str" where
  "gitlab_line_url t path revision line =
     (let r = rt_repository t in
      https @ repo_host r @ ''/'' @ encode (repo_owner r) @ ''/'' @ encode (repo_name r) @ ''/-/blob/'' @
        encode revision @ ''/'' @ encode path @ ''#L'' @ show_nat line)"

definition gitlab_payload_of :: "prepared_review \<Rightarrow> gitlab_payload" where
  "gitlab_payload_of p =
     \<lparr>lp_head = rt_head (pr_target p), lp_verdict = pr_verdict p, lp_summary = pr_summary p,
      lp_comments = pr_comments p\<rparr>"

definition gitlab_rules :: "payload_codec \<Rightarrow> review_rules" where
  "gitlab_rules j =
     \<lparr>rules_id = GITLAB, rules_name = ''GitLab'', open_label = ''GitLab'',
      address_label = ''Merge request or compare URL'',
      address_hint = ''Enter group/project!123, a GitLab merge request URL, or a compare URL'',
      address_help = ''Uses glab with GitLab.com or a self-managed HTTPS server. A compare URL opens read-only.'',
      write_flag = ''--allow-gitlab-writes'', read_only_reason = None,
      preview_note = Some ''GitLab accepts comments, approval, and change requests. Inline drafts can cover lines in one diff hunk.'',
      reopen_address = gitlab_reopen, source_link_unavailable_reason = None, line_url = gitlab_line_url,
      rules_supports = (\<lambda>_. True), rules_check = gitlab_check,
      rules_position = (\<lambda>t f d. bindE (gitlab_position_of j t f d) (\<lambda>p. Inr (Some (json_position j p)))),
      rules_payload = (\<lambda>p. json_gitlab j (gitlab_payload_of p)), marks_reviews = True\<rparr>"

section \<open>Entire\<close>

definition READ_ONLY :: str where
  "READ_ONLY = ''Entire Trails are read-only in Diffz. Local drafts and exports remain available; publish reviews in Entire.''"

definition SOURCE_LINK_UNAVAILABLE :: str where
  "SOURCE_LINK_UNAVAILABLE = ''Entire immutable source links are not available yet; open the Trail in your browser.''"

definition entire_reopen :: "url_parser \<Rightarrow> remote_target \<Rightarrow> str" where
  "entire_reopen u t =
     (case rt_entire t of None \<Rightarrow> []
      | Some e \<Rightarrow> (case trail_parse u (entire_address e) of Inl _ \<Rightarrow> [] | Inr a \<Rightarrow> canonical_url a))"

definition entire_rules :: "url_parser \<Rightarrow> review_rules" where
  "entire_rules u =
     \<lparr>rules_id = ENTIRE, rules_name = ''Entire'', open_label = ''Entire'',
      address_label = ''Entire Trail or Change URL'',
      address_hint = ''https://entire.com/et/project/-/trails/42/changes/repo/7'',
      address_help = ''Open a Change URL, or a Trail with one complete readable Change. Sign in with entire login.'',
      write_flag = [], read_only_reason = Some READ_ONLY, preview_note = None,
      reopen_address = entire_reopen u, source_link_unavailable_reason = Some SOURCE_LINK_UNAVAILABLE,
      line_url = (\<lambda>_ _ _ _. []), rules_supports = (\<lambda>_. False), rules_check = (\<lambda>_ _ _. Inr ()),
      rules_position = (\<lambda>_ _ _. Inr None), rules_payload = (\<lambda>_. ''null''), marks_reviews = False\<rparr>"

section \<open>The contract holds for every provider\<close>

lemma github_payload_fingerprint: "github_payload_of (p\<lparr>fingerprint := x\<rparr>) = github_payload_of p"
  by (simp add: github_payload_of_def)

lemma gitlab_payload_fingerprint: "gitlab_payload_of (p\<lparr>fingerprint := x\<rparr>) = gitlab_payload_of p"
  by (simp add: gitlab_payload_of_def)

interpretation github_frozen: review_contract "github_rules j"
  by unfold_locales (simp add: github_rules_def github_payload_fingerprint)

interpretation gitlab_frozen: review_contract "gitlab_rules j"
  by unfold_locales (simp add: gitlab_rules_def gitlab_payload_fingerprint)

interpretation entire_frozen: review_contract "entire_rules u"
  by unfold_locales (simp add: entire_rules_def)

lemma entire_never_prepares: "prepare c (entire_rules u) i s drafts v summary \<noteq> Inr p"
  by (auto simp: entire_rules_def elim!: prepare_Inr)

section \<open>Positions of GitLab comments\<close>

text \<open>A position names the frozen revisions, and the rows that hold the first and the last commented line.\<close>

definition position_frozen :: "payload_codec \<Rightarrow> remote_target \<Rightarrow> file_change \<Rightarrow> draft \<Rightarrow> gitlab_position \<Rightarrow> bool" where
  "position_frozen j t f d q \<longleftrightarrow>
     base_sha q = comparison_base t \<and> start_sha q = target_tip t \<and> head_sha q = rt_head t \<and>
     (if is_file_level d then gp_type q = ''file'' \<and> gp_old_line q = None \<and> gp_new_line q = None \<and> line_range q = None
      else gp_type q = ''text'' \<and>
        (\<exists>row \<in> set (file_rows f). row_number (d_side d) row = Some (d_line d) \<and>
           gp_old_line q = old_line row \<and> gp_new_line q = new_line row \<and>
           (if d_start_line d = d_line d then line_range q = None
            else \<exists>start \<in> set (file_rows f). row_number (d_side d) start = Some (d_start_line d) \<and>
              line_range q = Some
                \<lparr>lr_start = range_line_new (concat (map hex_byte (sha1 j (gp_new_path q)))) (d_side d) start,
                 lr_end = range_line_new (concat (map hex_byte (sha1 j (gp_new_path q)))) (d_side d) row\<rparr>)))"

lemma fc_line_in: "fc_line f s n = Some r \<Longrightarrow> r \<in> set (file_rows f) \<and> row_number s r = Some n"
  unfolding fc_line_def by (rule find_Some_in)

lemma gitlab_position_frozen:
  assumes "gitlab_position_of j t f d = Inr q"
  shows "position_frozen j t f d q"
  using assms unfolding gitlab_position_of_def position_frozen_def
  by (auto simp: bind_simps Let_def dest!: fc_line_in split: if_splits) auto

lemma foldE_list_all2:
  assumes "foldE step xs st = Inr st'"
    and "\<And>x st st'. step x st = Inr st' \<Longrightarrow> \<exists>y. out st' = out st @ [y] \<and> P x y"
  shows "\<exists>ys. out st' = out st @ ys \<and> list_all2 P xs ys"
  using assms(1)
proof (induction xs arbitrary: st)
  case (Cons x xs)
  then obtain s1 where s1: "step x st = Inr s1" "foldE step xs s1 = Inr st'" by (auto simp: bind_simps)
  from assms(2) [OF s1(1)] Cons.IH [OF s1(2)] obtain y ys where
    "out s1 = out st @ [y]" "P x y" "out st' = out s1 @ ys" "list_all2 P xs ys" by auto
  then show ?case by auto
qed simp

lemma prepare_positions:
  assumes "foldE (prepare_draft rules s t) drafts ([], []) = Inr (ks, seen)"
  shows "list_all2 (\<lambda>d k. \<exists>f. snap_file s (d_file d) = Some f \<and> rules_position rules t f d = Inr (pc_position k)) drafts ks"
proof -
  have "\<exists>k. fst st' = fst st @ [k] \<and> (\<exists>f. snap_file s (d_file d) = Some f \<and> rules_position rules t f d = Inr (pc_position k))"
    if "prepare_draft rules s t d st = Inr st'" for d st st'
    using that by (auto simp: prepare_draft_def bind_simps)
  from foldE_list_all2 [where out = fst, OF assms this] show ?thesis by simp
qed

lemma gitlab_prepared_parts:
  assumes "prepare c (gitlab_rules j) i s drafts v summary = Inr p"
  shows "\<not> quick_action summary" "\<forall>d \<in> set drafts. \<not> quick_action (d_body d)"
    "list_all2 (\<lambda>d k. \<exists>f q. snap_file s (d_file d) = Some f \<and> pc_position k = Some (json_position j q) \<and>
        position_frozen j (pr_target p) f d q) drafts (pr_comments p)"
proof -
  from assms have "gitlab_check v summary drafts = Inr ()"
    by (auto simp: prepare_def bind_simps gitlab_rules_def split: option.splits)
  then show "\<not> quick_action summary" "\<forall>d \<in> set drafts. \<not> quick_action (d_body d)"
    by (auto simp: gitlab_check_def bind_simps list_ex_iff)
  from assms obtain t ks seen where t: "foldE (prepare_draft (gitlab_rules j) s t) drafts ([], []) = Inr (ks, seen)"
    "pr_comments p = ks" "pr_target p = t"
    by (rule prepare_Inr) (simp add: Let_def)
  show "list_all2 (\<lambda>d k. \<exists>f q. snap_file s (d_file d) = Some f \<and> pc_position k = Some (json_position j q) \<and>
        position_frozen j (pr_target p) f d q) drafts (pr_comments p)"
    unfolding t(2,3)
    by (rule list_all2_mono [OF prepare_positions [OF t(1)]])
      (auto simp: gitlab_rules_def bind_simps dest!: gitlab_position_frozen intro: sym)
qed

section \<open>A prepared GitLab review\<close>

definition hex_codec :: payload_codec where
  "hex_codec = \<lparr>json_github = gp_body, json_gitlab = lp_summary, json_position = gp_new_path, sha1 = rev\<rparr>"

definition lab_target :: remote_target where
  "lab_target = sample_target\<lparr>rt_provider := GITLAB\<rparr>"

definition hosted :: "remote_target \<Rightarrow> snapshot" where
  "hosted t = sample_snapshot\<lparr>snap_remote := Some t\<rparr>"

definition ready_draft :: draft where
  "ready_draft = sample_draft\<lparr>d_saved_version := 3\<rparr>"

lemma hosted_verifies: "verify_identity sample_review_codec (hosted t)"
  by (simp add: verify_identity_def hosted_def sample_snapshot_code identity_def digest_def sample_review_codec_def)

lemma lab_prepares:
  "\<exists>p. prepare sample_review_codec (gitlab_rules hex_codec) (OperationId ''op'') (hosted lab_target)
     [ready_draft] Approve [] = Inr p \<and> length (pr_comments p) = 1"
proof -
  have "case foldE (prepare_draft (gitlab_rules hex_codec) (hosted lab_target) lab_target) [ready_draft] ([], []) of
      Inr st \<Rightarrow> length (fst st) = 1 | Inl _ \<Rightarrow> False"
    by code_simp
  then obtain ks seen where "foldE (prepare_draft (gitlab_rules hex_codec) (hosted lab_target) lab_target) [ready_draft] ([], []) = Inr (ks, seen)"
      "length ks = 1"
    by (auto split: sum.splits)
  moreover have "gitlab_check Approve [] [ready_draft] = Inr ()" by code_simp
  moreover have "snap_remote (hosted lab_target) = Some lab_target" "snap_warnings (hosted lab_target) = []"
    "rt_provider lab_target = GITLAB" "rt_compare lab_target = None" "rt_open lab_target" "\<not> pending_review lab_target"
    by (simp_all add: hosted_def lab_target_def sample_target_def sample_snapshot_code)
  moreover have "rules_id (gitlab_rules hex_codec) = GITLAB" "read_only_reason (gitlab_rules hex_codec) = None"
    "rules_check (gitlab_rules hex_codec) = gitlab_check" by (simp_all add: gitlab_rules_def)
  ultimately show ?thesis using hosted_verifies [of lab_target] by (simp add: prepare_def Let_def)
qed

section \<open>Properties\<close>

text \<open>
  Claim C16. Whatever provider a review is prepared for, a prepared review passes
  its own verification, is bound to a verified snapshot of an open review target
  with no coverage warnings and no pending review, never to a compare, and its
  comments are exactly the given drafts, in order, each saved, unpublished, not
  empty and inside one hunk of its file. For Entire nothing is ever prepared.
\<close>

theorem prepare_sound:
  assumes "rules = github_rules j \<or> rules = gitlab_rules j \<or> rules = entire_rules u"
    and "prepare c rules i s drafts v summary = Inr p"
  shows "rules \<noteq> entire_rules u \<and> verify_review c rules p \<and> verify_identity c s \<and>
     snap_remote s = Some (pr_target p) \<and> pr_snapshot p = snap_id s \<and> pr_id p = i \<and> pr_verdict p = v \<and>
     pr_summary p = summary \<and> rt_open (pr_target p) \<and> \<not> pending_review (pr_target p) \<and>
     rt_compare (pr_target p) = None \<and> snap_warnings s = [] \<and> distinct (map d_id drafts) \<and>
     list_all2 (comment_of s) drafts (pr_comments p)"
proof -
  have "rules \<noteq> entire_rules u" using assms(2) entire_never_prepares by blast
  with assms(1) have "rules = github_rules j \<or> rules = gitlab_rules j" by blast
  with assms(2) \<open>rules \<noteq> entire_rules u\<close> github_frozen.prepare_frozen gitlab_frozen.prepare_frozen show ?thesis
    by metis
qed

theorem prepare_sound_witness:
  "\<exists>p. verify_review sample_review_codec (gitlab_rules hex_codec) p \<and>
     list_all2 (comment_of (hosted lab_target)) [ready_draft] (pr_comments p)"
proof -
  obtain p where p: "prepare sample_review_codec (gitlab_rules hex_codec) (OperationId ''op'') (hosted lab_target)
     [ready_draft] Approve [] = Inr p" using lab_prepares by blast
  have "gitlab_rules hex_codec = github_rules hex_codec \<or> gitlab_rules hex_codec = gitlab_rules hex_codec \<or>
      gitlab_rules hex_codec = entire_rules (\<lambda>_. None)" by simp
  from prepare_sound [OF this p] show ?thesis by blast
qed

text \<open>
  A prepared GitLab review posts where it was previewed and runs no
  quick action: each comment carries a position with the frozen base, start and
  head revisions whose lines are the two sides' numbers of the patch row that
  the draft is on (and of the row it starts on, for a range), a file comment
  carries no line, and no line of the summary or of a comment starts with a slash.
\<close>

theorem gitlab_positions_frozen:
  assumes "prepare c (gitlab_rules j) i s drafts v summary = Inr p"
  shows "\<not> quick_action summary \<and>
     list_all2 (\<lambda>d k. \<not> quick_action (pc_body k) \<and>
        (\<exists>f q. snap_file s (d_file d) = Some f \<and> pc_position k = Some (json_position j q) \<and>
           position_frozen j (pr_target p) f d q)) drafts (pr_comments p)"
proof -
  note parts = gitlab_prepared_parts [OF assms]
  have "list_all2 (comment_of s) drafts (pr_comments p)" using gitlab_frozen.prepare_frozen [OF assms] by blast
  with parts show ?thesis by (fastforce simp: list_all2_conv_all_nth comment_of_def)
qed

theorem gitlab_positions_frozen_witness:
  "\<exists>(k :: prepared_comment) q. pc_position k = Some (json_position hex_codec q) \<and>
     position_frozen hex_codec lab_target sample_change ready_draft q"
proof -
  obtain p where p: "prepare sample_review_codec (gitlab_rules hex_codec) (OperationId ''op'') (hosted lab_target)
     [ready_draft] Approve [] = Inr p" using lab_prepares by blast
  have "pr_target p = lab_target"
    using gitlab_frozen.prepare_frozen [OF p] by (simp add: hosted_def)
  moreover have "snap_file (hosted lab_target) (d_file ready_draft) = Some sample_change" by code_simp
  ultimately obtain k :: prepared_comment and q where "pc_position k = Some (json_position hex_codec q)"
    "position_frozen hex_codec lab_target sample_change ready_draft q"
    using gitlab_positions_frozen [OF p] by (auto simp: list_all2_Cons1)
  then show ?thesis by blast
qed

end
