(* ===== verification/Http.thy ===== *)
theory Http
  imports Outbox Rules
begin

text \<open>
  The read side of the hosted providers: HTTP responses as the command line tools
  print them, the reading of JSON documents page by page, and the review target
  that GitHub (\<open>crates/adapters/src/github.rs\<close>) and GitLab (\<open>gitlab.rs\<close>) report.
  A run of \<open>gh\<close> or \<open>glab\<close> is a parameter that answers the n-th request, so that
  two reads of one address may differ; JSON values (serde_json) are the parameter
  of \<open>Outbox\<close> with the accessors these readers use.
\<close>

section \<open>JSON values\<close>

record 'v json_api = "'v value_api" +
  v_bool :: "'v \<Rightarrow> bool option"
  v_array :: "'v \<Rightarrow> 'v list option"
  v_size :: "'v \<Rightarrow> nat"
  v_show :: "'v \<Rightarrow> str"
  v_null :: 'v
  v_of_str :: "str \<Rightarrow> 'v"
  v_of_u64 :: "nat \<Rightarrow> 'v"
  v_object :: "(str \<times> 'v) list \<Rightarrow> 'v"
  from_slice :: "bytes \<Rightarrow> 'v option"

text \<open>\<open>v[key]\<close> and \<open>Value::pointer\<close> agree under \<open>as_str\<close> and \<open>as_u64\<close>: both give none on a missing key.\<close>

definition pointer :: "('v, 'z) json_api_scheme \<Rightarrow> 'v \<Rightarrow> str \<Rightarrow> 'v" where
  "pointer a v path = fold (\<lambda>k x. v_get a x k) (tl (split_on (CHR ''/'') path)) v"

definition str_or :: "str \<Rightarrow> str option \<Rightarrow> str" where
  "str_or d x = (case x of None \<Rightarrow> d | Some s \<Rightarrow> s)"

definition is_true :: "('v, 'z) json_api_scheme \<Rightarrow> 'v \<Rightarrow> str \<Rightarrow> bool" where
  "is_true a v k \<longleftrightarrow> v_bool a (v_get a v k) = Some True"

definition is_text :: "('v, 'z) json_api_scheme \<Rightarrow> 'v \<Rightarrow> str \<Rightarrow> str \<Rightarrow> bool" where
  "is_text a v k s \<longleftrightarrow> v_str a (v_get a v k) = Some s"

definition to_u32 :: "nat option \<Rightarrow> nat option" where
  "to_u32 x = (case x of None \<Rightarrow> None | Some n \<Rightarrow> if n \<le> u32_max then Some n else None)"

section \<open>HTTP responses on standard output\<close>

record http_response =
  hr_status :: nat
  hr_headers :: str
  hr_body :: bytes

definition header_end :: "bytes \<Rightarrow> (bytes \<times> bytes) option" where
  "header_end b =
     (case split_once [CR, LF, CR, LF] b of Some r \<Rightarrow> Some r | None \<Rightarrow> split_once [LF, LF] b)"

definition first_line :: "str \<Rightarrow> str option" where
  "first_line s = (if s = [] then None else Some (hd (str_lines s)))"

definition status_line :: "str \<Rightarrow> store_error + nat" where
  "status_line headers =
     bindE (okE (Message ''missing HTTP status'') (first_line headers)) (\<lambda>l.
     (let ws = split_whitespace l in
      failIf (\<not> starts_with ''HTTP/'' (case ws of [] \<Rightarrow> [] | w # _ \<Rightarrow> w)) (Message ''gh did not print an HTTP response'')
     (okE (Message ''invalid HTTP status'')
        (case ws of
           _ # s # _ \<Rightarrow> (case parse_unsigned 65535 s of
              Some n \<Rightarrow> if 100 \<le> n \<and> n < 600 then Some n else None | None \<Rightarrow> None)
         | _ \<Rightarrow> None))))"

lemma header_end_split:
  assumes "header_end b = Some (h, r)"
  shows "b = h @ [CR, LF, CR, LF] @ r \<or> b = h @ [LF, LF] @ r"
  using assms by (auto simp: header_end_def dest: split_once_Some split: option.splits)

lemma header_end_shorter: "header_end b = Some (h, r) \<Longrightarrow> length r < length b"
  by (auto dest!: header_end_split)

function decode_http :: "bytes \<Rightarrow> store_error + http_response" where
  "decode_http b =
     (case header_end b of
        None \<Rightarrow> Inl (Message ''no HTTP headers in the gh output could be parsed'')
      | Some (h, r) \<Rightarrow>
          bindE (okE (Message ''invalid HTTP header encoding'') (from_utf8 h)) (\<lambda>headers.
          bindE (status_line headers) (\<lambda>status.
          if status < 200 then decode_http r
          else Inr \<lparr>hr_status = status, hr_headers = headers, hr_body = r\<rparr>)))"
  by pat_completeness auto

termination
  by (relation "measure length") (auto dest: header_end_shorter)

declare decode_http.simps [simp del]

section \<open>Reading\<close>

text \<open>
  A reader threads the number of requests made so far. \<open>server n endpoint accept\<close>
  is the answer to the n-th request.
\<close>

type_synonym server = "nat \<Rightarrow> str \<Rightarrow> str \<Rightarrow> store_error + http_response"
type_synonym 'a reader = "nat \<Rightarrow> (store_error + 'a) \<times> nat"

definition bindR :: "'a reader \<Rightarrow> ('a \<Rightarrow> 'b reader) \<Rightarrow> 'b reader" where
  "bindR m f n = (case m n of (Inl e, k) \<Rightarrow> (Inl e, k) | (Inr x, k) \<Rightarrow> f x k)"

definition liftR :: "store_error + 'a \<Rightarrow> 'a reader" where
  "liftR r n = (r, n)"

definition tryR :: "'a reader \<Rightarrow> (store_error + 'a) reader" where
  "tryR m n = (case m n of (r, k) \<Rightarrow> (Inr r, k))"

lemma bindR_Inr [bind_simps]:
  "bindR m f n = (Inr y, k) \<longleftrightarrow> (\<exists>x j. m n = (Inr x, j) \<and> f x j = (Inr y, k))"
  by (auto simp: bindR_def split: prod.split sum.split)

lemma bindR_fst_Inr: "fst (bindR m f n) = Inr y \<longleftrightarrow> (\<exists>x j. m n = (Inr x, j) \<and> fst (f x j) = Inr y)"
  by (auto simp: bindR_def split: prod.split sum.split)

lemma liftR_Inr [bind_simps]: "liftR r n = (Inr y, k) \<longleftrightarrow> r = Inr y \<and> k = n"
  by (auto simp: liftR_def)

definition ask :: "server \<Rightarrow> str \<Rightarrow> str \<Rightarrow> http_response reader" where
  "ask srv endpoint accept n = (srv n endpoint accept, Suc n)"

section \<open>GitHub reads\<close>

definition GITHUB_JSON :: str where
  "GITHUB_JSON = ''Accept: application/vnd.github+json''"

definition github_request :: "server \<Rightarrow> str \<Rightarrow> str \<Rightarrow> http_response reader" where
  "github_request srv endpoint accept =
     (if starts_with ''-'' endpoint \<or> starts_with ''/'' endpoint \<or> str_contains ''://'' endpoint
      then liftR (Inl (Message ''invalid relative GitHub API endpoint''))
      else ask srv endpoint accept)"

definition github_source :: "server \<Rightarrow> remote_target \<Rightarrow> str \<Rightarrow> str \<Rightarrow> bytes reader" where
  "github_source srv t path revision =
     (let endpoint = ''repos/'' @ repo_owner (rt_repository t) @ ''/'' @ repo_name (rt_repository t) @ ''/contents/'' @
            encode_path path @ ''?ref='' @ encode_path revision in
      bindR (github_request srv endpoint ''Accept: application/vnd.github.raw+json'') (\<lambda>r.
      liftR (failIf (hr_status r \<noteq> 200) (Message (''Source read returned HTTP '' @ show_nat (hr_status r)))
        (Inr (hr_body r)))))"

definition get_json :: "('v, 'z) json_api_scheme \<Rightarrow> server \<Rightarrow> str \<Rightarrow> 'v reader" where
  "get_json a srv endpoint =
     bindR (github_request srv endpoint GITHUB_JSON) (\<lambda>r.
     liftR (failIf (hr_status r \<noteq> 200)
       (Message (''GitHub read failed with HTTP '' @ show_nat (hr_status r) @ ''; no credentials or content were logged''))
       (okE JsonError (from_slice a (hr_body r)))))"

definition page_of :: "str \<Rightarrow> nat \<Rightarrow> str" where
  "page_of endpoint page =
     endpoint @ (if CHR ''?'' \<in> set endpoint then ''&'' else ''?'') @ ''per_page=100&page='' @ show_nat page"

text \<open>The loop over pages: \<open>left\<close> pages may still be read, the next is \<open>page\<close>.\<close>

fun pages_loop :: "('v, 'z) json_api_scheme \<Rightarrow> server \<Rightarrow> str \<Rightarrow> nat \<Rightarrow> nat \<Rightarrow> nat \<Rightarrow> 'v list \<Rightarrow> 'v list reader" where
  "pages_loop a srv endpoint 0 page total_bytes all =
     liftR (Inl (Message ''GitHub pagination limit reached; truncated responses are never accepted''))"
| "pages_loop a srv endpoint (Suc left) page total_bytes all =
     bindR (get_json a srv (page_of endpoint page)) (\<lambda>v.
     (let size = total_bytes + v_size a v in
      if 64 * 1024 * 1024 < size
      then liftR (Inl (Message ''paged GitHub data passed 64 MiB, so completeness is not guaranteed''))
      else
      bindR (liftR (okE (Message ''expected GitHub array page'') (v_array a v))) (\<lambda>items.
      if length items < 100 then liftR (Inr (all @ items))
      else pages_loop a srv endpoint left (Suc page) size (all @ items))))"

definition pages :: "('v, 'z) json_api_scheme \<Rightarrow> server \<Rightarrow> str \<Rightarrow> 'v list reader" where
  "pages a srv endpoint = pages_loop a srv endpoint 100 1 0 []"

fun named_loop :: "('v, 'z) json_api_scheme \<Rightarrow> server \<Rightarrow> str \<Rightarrow> str \<Rightarrow> nat \<Rightarrow> nat \<Rightarrow> nat \<Rightarrow> 'v list \<Rightarrow> 'v list reader" where
  "named_loop a srv endpoint field 0 page total_bytes all =
     liftR (Inl (Message ''check metadata exceeds 1,000 entries''))"
| "named_loop a srv endpoint field (Suc left) page total_bytes all =
     bindR (get_json a srv (page_of endpoint page)) (\<lambda>v.
     (let size = total_bytes + v_size a v in
      if 16 * 1024 * 1024 < size then liftR (Inl (Message ''check metadata exceeds 16 MiB''))
      else
      bindR (liftR (okE (Message ''missing check metadata collection'') (v_array a (v_get a v field)))) (\<lambda>items.
      if length items < 100 then liftR (Inr (all @ items))
      else named_loop a srv endpoint field left (Suc page) size (all @ items))))"

definition named_pages :: "('v, 'z) json_api_scheme \<Rightarrow> server \<Rightarrow> str \<Rightarrow> str \<Rightarrow> 'v list reader" where
  "named_pages a srv endpoint field = named_loop a srv endpoint field 10 1 0 []"

definition json_text_at :: "str \<Rightarrow> ('v, 'z) json_api_scheme \<Rightarrow> 'v \<Rightarrow> str \<Rightarrow> store_error + str" where
  "json_text_at missing a v path = okE (Message (missing @ path)) (v_str a (pointer a v path))"

definition gh_text :: "('v, 'z) json_api_scheme \<Rightarrow> 'v \<Rightarrow> str \<Rightarrow> store_error + str" where
  "gh_text = json_text_at ''GitHub response is missing ''"

definition object_id :: "str \<Rightarrow> bool" where
  "object_id s \<longleftrightarrow> (length s = 40 \<or> length s = 64) \<and> list_all is_ascii_hexdigit s"

definition oid :: "('v, 'z) json_api_scheme \<Rightarrow> 'v \<Rightarrow> str \<Rightarrow> store_error + str" where
  "oid a v path =
     bindE (gh_text a v path) (\<lambda>s.
     failIf (\<not> object_id s) (Message ''the object ID GitHub sent is not valid'') (Inr (to_ascii_lowercase s)))"

definition gh_number :: "('v, 'z) json_api_scheme \<Rightarrow> 'v \<Rightarrow> str \<Rightarrow> store_error + nat" where
  "gh_number a v path = okE (Message (''GitHub response is missing '' @ path)) (v_u64 a (pointer a v path))"

definition is_merged :: "('v, 'z) json_api_scheme \<Rightarrow> 'v \<Rightarrow> bool" where
  "is_merged a m \<longleftrightarrow> is_true a m ''merged'' \<or> v_str a (v_get a m ''merged_at'') \<noteq> None"

definition github_target_of :: "('v, 'z) json_api_scheme \<Rightarrow> pr_address \<Rightarrow> 'v \<Rightarrow> str \<Rightarrow> str \<Rightarrow>
    store_error + remote_target" where
  "github_target_of a addr m account base =
     bindE (gh_text a m ''/base/repo/owner/login'') (\<lambda>owner.
     bindE (gh_text a m ''/base/repo/name'') (\<lambda>name.
     failIf (\<not> eq_ignore_ascii_case owner (pa_owner addr) \<or> \<not> eq_ignore_ascii_case name (pa_repo addr))
       (Message ''the repository moved to another identity; open the PR at its canonical URL'')
     (bindE (gh_number a m ''/base/repo/id'') (\<lambda>i.
      bindE (oid a m ''/base/sha'') (\<lambda>tip.
      bindE (oid a m ''/head/sha'') (\<lambda>head.
      Inr \<lparr>rt_provider = GITHUB,
           rt_repository = \<lparr>repo_host = pa_host addr, repo_id = i, repo_owner = owner, repo_name = name\<rparr>,
           rt_account = account, rt_pr = pa_number addr, target_tip = tip, comparison_base = base, rt_head = head,
           rt_open = is_text a m ''state'' ''open'', rt_draft = is_true a m ''draft'', rt_merged = is_merged a m,
           pending_review = False, rt_compare = None, rt_entire = None\<rparr>))))))"

definition github_account :: "('v, 'z) json_api_scheme \<Rightarrow> server \<Rightarrow> str reader" where
  "github_account a srv = bindR (get_json a srv ''user'') (\<lambda>v. liftR (gh_text a v ''/login''))"

definition github_metadata :: "('v, 'z) json_api_scheme \<Rightarrow> server \<Rightarrow> pr_address \<Rightarrow> 'v reader" where
  "github_metadata a srv addr = get_json a srv (pr_root addr)"

definition github_reviews :: "('v, 'z) json_api_scheme \<Rightarrow> server \<Rightarrow> remote_target \<Rightarrow> 'v list reader" where
  "github_reviews a srv t = pages a srv (pr_root (pr_from_target t) @ ''/reviews'')"

definition github_review_comments :: "('v, 'z) json_api_scheme \<Rightarrow> server \<Rightarrow> remote_target \<Rightarrow> nat \<Rightarrow> 'v list reader" where
  "github_review_comments a srv t i =
     pages a srv (pr_root (pr_from_target t) @ ''/reviews/'' @ show_nat i @ ''/comments'')"

definition pending_by :: "('v, 'z) json_api_scheme \<Rightarrow> str \<Rightarrow> 'v \<Rightarrow> bool" where
  "pending_by a account r \<longleftrightarrow>
     is_text a r ''state'' ''PENDING'' \<and> is_text a (v_get a r ''user'') ''login'' account"

definition current_target :: "('v, 'z) json_api_scheme \<Rightarrow> server \<Rightarrow> remote_target \<Rightarrow> remote_target reader" where
  "current_target a srv t =
     (let addr = pr_from_target t in
      bindR (github_account a srv) (\<lambda>account.
      bindR (github_metadata a srv addr) (\<lambda>meta.
      bindR (liftR (oid a meta ''/base/sha'')) (\<lambda>base.
      bindR (liftR (oid a meta ''/head/sha'')) (\<lambda>head.
      bindR (get_json a srv (''repos/'' @ pa_owner addr @ ''/'' @ pa_repo addr @ ''/compare/'' @ base @ ''...'' @ head)) (\<lambda>comparison.
      bindR (liftR (oid a comparison ''/merge_base_commit/sha'')) (\<lambda>merge_base.
      bindR (liftR (github_target_of a addr meta account merge_base)) (\<lambda>target.
      bindR (github_reviews a srv target) (\<lambda>reviews.
      liftR (Inr (target\<lparr>pending_review := list_ex (pending_by a (rt_account target)) reviews\<rparr>)))))))))))"

definition side_of_api :: "str option \<Rightarrow> side option" where
  "side_of_api x =
     (if x = Some ''LEFT'' then Some SideLeft else if x = Some ''RIGHT'' then Some SideRight else None)"

definition github_thread :: "('v, 'z) json_api_scheme \<Rightarrow> 'v \<Rightarrow> store_error + thread_comment" where
  "github_thread a v =
     bindE (gh_number a v ''/id'') (\<lambda>i.
     bindE (gh_text a v ''/path'') (\<lambda>path.
     bindE (gh_text a v ''/body'') (\<lambda>body.
     bindE (gh_text a v ''/user/login'') (\<lambda>author.
     bindE (gh_text a v ''/commit_id'') (\<lambda>commit.
     Inr \<lparr>tc_id = i, root_id = (case v_u64 a (v_get a v ''in_reply_to_id'') of Some r \<Rightarrow> r | None \<Rightarrow> i),
          tc_path = path, tc_side = side_of_api (v_str a (v_get a v ''side'')),
          tc_line = to_u32 (v_u64 a (v_get a v ''line'')),
          tc_start_line = to_u32 (v_u64 a (v_get a v ''start_line'')),
          tc_file_level = Some (is_text a v ''subject_type'' ''file''), tc_body = body, tc_author = author,
          tc_commit_id = commit, tc_created_at = v_str a (v_get a v ''created_at'')\<rparr>)))))"

definition https_only :: "str option \<Rightarrow> str option" where
  "https_only x = (case x of Some u \<Rightarrow> if starts_with https u then Some u else None | None \<Rightarrow> None)"

definition check_row :: "('v, 'z) json_api_scheme \<Rightarrow> 'v \<Rightarrow> str \<Rightarrow> check" where
  "check_row a v kind =
     (let legacy = (kind = ''Status''); state = str_or ''unknown'' (v_str a (v_get a v ''state'')) in
      \<lparr>check_name = str_or ''Unnamed check'' (v_str a (v_get a v (if legacy then ''context'' else ''name''))),
       check_kind = kind,
       check_status = (if legacy then (if state = ''pending'' then ''queued'' else ''completed'')
                       else str_or ''unknown'' (v_str a (v_get a v ''status''))),
       check_conclusion = (if legacy then Some state else v_str a (v_get a v ''conclusion'')),
       check_url = https_only (v_str a (v_get a v (if legacy then ''target_url'' else ''html_url'')))\<rparr>)"

section \<open>GitLab reads\<close>

definition gitlab_get :: "('v, 'z) json_api_scheme \<Rightarrow> server \<Rightarrow> str \<Rightarrow> 'v reader" where
  "gitlab_get a srv path =
     bindR (ask srv path []) (\<lambda>r.
     liftR (failIf (hr_status r \<noteq> 200) (Message (''GitLab read returned HTTP '' @ show_nat (hr_status r)))
       (okE JsonError (from_slice a (hr_body r)))))"

definition gitlab_source :: "server \<Rightarrow> remote_target \<Rightarrow> str \<Rightarrow> str \<Rightarrow> bytes reader" where
  "gitlab_source srv t path revision =
     (let slash = replace_char (CHR ''/'') ''%2F'';
          endpoint = ''projects/'' @ slash (encode_path (ma_project (mr_from_target t))) @ ''/repository/files/'' @
            slash (encode_path path) @ ''/raw?ref='' @ encode_path revision in
      bindR (ask srv endpoint []) (\<lambda>r.
      liftR (failIf (hr_status r \<noteq> 200) (Message (''Source read returned HTTP '' @ show_nat (hr_status r)))
        (Inr (hr_body r)))))"

text \<open>A page is a JSON array; anything else fails to decode as one.\<close>

fun gitlab_loop :: "('v, 'z) json_api_scheme \<Rightarrow> server \<Rightarrow> str \<Rightarrow> nat \<Rightarrow> nat \<Rightarrow> nat \<Rightarrow> 'v list \<Rightarrow> 'v list reader" where
  "gitlab_loop a srv path 0 page total_bytes got =
     liftR (Inl (Message ''GitLab collection is over the 3000-item cap''))"
| "gitlab_loop a srv path (Suc left) page total_bytes got =
     bindR (ask srv (page_of path page) []) (\<lambda>r.
     if hr_status r \<noteq> 200 then liftR (Inl (Message (''GitLab list returned HTTP '' @ show_nat (hr_status r))))
     else
     (let size = total_bytes + length (hr_body r) in
      if 16 * 1024 * 1024 < size then liftR (Inl (Message ''GitLab collection is over the 16 MiB cap''))
      else
      bindR (liftR (okE JsonError (Option.bind (from_slice a (hr_body r)) (v_array a)))) (\<lambda>items.
      if length items < 100 then liftR (Inr (got @ items))
      else gitlab_loop a srv path left (Suc page) size (got @ items))))"

definition gitlab_pages :: "('v, 'z) json_api_scheme \<Rightarrow> server \<Rightarrow> str \<Rightarrow> 'v list reader" where
  "gitlab_pages a srv path = gitlab_loop a srv path 30 1 0 []"

definition gl_string :: "('v, 'z) json_api_scheme \<Rightarrow> 'v \<Rightarrow> str \<Rightarrow> store_error + str" where
  "gl_string = json_text_at ''GitLab response missing ''"

definition gl_sha :: "('v, 'z) json_api_scheme \<Rightarrow> 'v \<Rightarrow> str \<Rightarrow> store_error + str" where
  "gl_sha a v path =
     bindE (gl_string a v path) (\<lambda>s.
     failIf (\<not> object_id s) (Message ''the object ID GitLab sent is not valid'') (Inr (to_ascii_lowercase s)))"

definition gitlab_target_of :: "('v, 'z) json_api_scheme \<Rightarrow> mr_address \<Rightarrow> 'v \<Rightarrow> 'v \<Rightarrow> store_error + remote_target" where
  "gitlab_target_of a addr m user =
     bindE (okE (Message ''Invalid project'') (rsplit_once ''/'' (ma_project addr))) (\<lambda>(owner, name).
     bindE (okE (Message ''Missing project ID'') (v_u64 a (v_get a m ''project_id''))) (\<lambda>i.
     bindE (gl_string a user ''/username'') (\<lambda>account.
     bindE (gl_string a m ''/diff_refs/start_sha'') (\<lambda>tip.
     bindE (gl_string a m ''/diff_refs/base_sha'') (\<lambda>base.
     bindE (gl_string a m ''/diff_refs/head_sha'') (\<lambda>head.
     failIf (list_ex (\<lambda>s. length s \<noteq> 40 \<or> \<not> list_all is_ascii_hexdigit s) [head, tip, base])
       (Message ''GitLab has not produced usable diff references yet'')
     (failIf (v_u64 a (v_get a m ''iid'') \<noteq> Some (ma_number addr)) (Message ''GitLab MR identity mismatch'')
     (Inr \<lparr>rt_provider = GITLAB,
           rt_repository = \<lparr>repo_host = ma_host addr, repo_id = i, repo_owner = owner, repo_name = name\<rparr>,
           rt_account = account, rt_pr = ma_number addr, target_tip = tip, comparison_base = base, rt_head = head,
           rt_open = is_text a m ''state'' ''opened'',
           rt_draft = (is_true a m ''draft'' \<or> is_true a m ''work_in_progress''),
           rt_merged = is_text a m ''state'' ''merged'', pending_review = False, rt_compare = None,
           rt_entire = None\<rparr>))))))))"

definition gitlab_target_read :: "('v, 'z) json_api_scheme \<Rightarrow> server \<Rightarrow> mr_address \<Rightarrow> remote_target reader" where
  "gitlab_target_read a srv addr =
     bindR (gitlab_get a srv (mr_root addr)) (\<lambda>m.
     bindR (gitlab_get a srv ''user'') (\<lambda>user. liftR (gitlab_target_of a addr m user)))"

definition gitlab_check_of :: "('v, 'z) json_api_scheme \<Rightarrow> 'v \<Rightarrow> str \<Rightarrow> check" where
  "gitlab_check_of a v kind =
     (let status = str_or ''unknown'' (v_str a (v_get a v ''status''));
          conclusion = (if status = ''success'' then Some ''success'' else if status = ''failed'' then Some ''failure''
            else if status = ''canceled'' then Some ''cancelled'' else if status = ''skipped'' then Some ''skipped'' else None) in
      \<lparr>check_name = (case v_str a (v_get a v ''name'') of Some n \<Rightarrow> n
         | None \<Rightarrow> ''Pipeline #'' @ v_show a (v_get a v ''id'')),
       check_kind = kind,
       check_status = (if conclusion \<noteq> None then ''completed'' else status),
       check_conclusion = conclusion,
       check_url = https_only (v_str a (v_get a v ''web_url''))\<rparr>)"

text \<open>One note of a discussion, with the position of its root: a thread comment or a line of the conversation.\<close>

definition discussion_note :: "('v, 'z) json_api_scheme \<Rightarrow> 'v \<Rightarrow> 'v \<Rightarrow>
    thread_comment list \<times> conversation_comment list \<Rightarrow> thread_comment list \<times> conversation_comment list" where
  "discussion_note a root n st =
     (case v_u64 a (v_get a n ''id'') of None \<Rightarrow> st | Some i \<Rightarrow>
      (let pos = v_get a root ''position''; body = str_or [] (v_str a (v_get a n ''body''));
           author = str_or ''unknown'' (v_str a (v_get a (v_get a n ''author'') ''username''));
           created = v_str a (v_get a n ''created_at'') in
       if is_text a pos ''position_type'' ''text'' \<or> is_text a pos ''position_type'' ''file'' then
         (let file_level = is_text a pos ''position_type'' ''file'';
              right = (file_level \<or> v_u64 a (v_get a pos ''new_line'') \<noteq> None);
              key = (if right then ''new'' else ''old'') in
          (fst st @ [\<lparr>tc_id = i, root_id = (case v_u64 a (v_get a root ''id'') of Some r \<Rightarrow> r | None \<Rightarrow> i),
             tc_path = str_or [] (v_str a (v_get a pos (key @ ''_path''))),
             tc_side = Some (if right then SideRight else SideLeft),
             tc_line = to_u32 (v_u64 a (v_get a pos (key @ ''_line''))),
             tc_start_line = to_u32 (v_u64 a (v_get a (v_get a (v_get a pos ''line_range'') ''start'') (key @ ''_line''))),
             tc_file_level = Some file_level, tc_body = body, tc_author = author,
             tc_commit_id = str_or [] (v_str a (v_get a pos ''head_sha'')), tc_created_at = created\<rparr>], snd st))
       else (fst st, snd st @ [\<lparr>cc_id = i, cc_author = author, cc_body = body, cc_created_at = created\<rparr>])))"

definition discussion :: "('v, 'z) json_api_scheme \<Rightarrow> 'v \<Rightarrow>
    thread_comment list \<times> conversation_comment list \<Rightarrow> thread_comment list \<times> conversation_comment list" where
  "discussion a d st =
     (case v_array a (v_get a d ''notes'') of None \<Rightarrow> st | Some notes \<Rightarrow>
      (case filter (\<lambda>n. \<not> is_true a n ''system'') notes of
         [] \<Rightarrow> st
       | root # rest \<Rightarrow> fold (discussion_note a root) (root # rest) st))"

definition discussion_comments :: "('v, 'z) json_api_scheme \<Rightarrow> 'v list \<Rightarrow> overview \<Rightarrow> thread_comment list \<times> overview" where
  "discussion_comments a ds ov =
     (case fold (discussion a) ds ([], ov_conversation ov) of
        (out, conversation) \<Rightarrow> (out, ov\<lparr>ov_conversation := conversation\<rparr>))"

section \<open>A GitLab review\<close>

definition listed_path :: "('v, 'z) json_api_scheme \<Rightarrow> str set \<Rightarrow> 'v \<Rightarrow> str" where
  "listed_path a paths f =
     (let new = str_or [] (v_str a (v_get a f ''new_path'')) in
      if new \<in> paths then new else str_or [] (v_str a (v_get a f ''old_path'')))"

definition files_complete :: "('v, 'z) json_api_scheme \<Rightarrow> str list \<Rightarrow> 'v list \<Rightarrow> bool" where
  "files_complete a shown listing \<longleftrightarrow>
     (let paths = set shown; listed = set (map (listed_path a paths) listing) in
      length listing = length shown \<and> card listed = card paths \<and> listed \<subseteq> paths \<and>
      \<not> list_ex (\<lambda>f. is_true a f ''too_large'' \<or> is_true a f ''collapsed'') listing)"

text \<open>The paths of the patch that are UTF-8; none at all when some file has no path, where \<open>path()\<close> panics.\<close>

definition patch_names :: "patch_report \<Rightarrow> str list option" where
  "patch_names patch =
     map_option (List.map_filter (\<lambda>p. case path_utf8 p of Inr s \<Rightarrow> Some s | Inl _ \<Rightarrow> None))
       (collect_options (map fc_path (files patch)))"

definition keep_current :: "str \<Rightarrow> thread_comment \<Rightarrow> thread_comment" where
  "keep_current head c = (if tc_commit_id c \<noteq> head then c\<lparr>tc_line := None, tc_start_line := None\<rparr> else c)"

definition of_revision :: "('v, 'z) json_api_scheme \<Rightarrow> str \<Rightarrow> 'v \<Rightarrow> bool" where
  "of_revision a head p \<longleftrightarrow> is_text a p ''sha'' head"

fun pipeline_checks :: "('v, 'z) json_api_scheme \<Rightarrow> (store_error \<Rightarrow> str) \<Rightarrow> server \<Rightarrow> nat \<Rightarrow> 'v list \<Rightarrow> overview \<Rightarrow> overview reader" where
  "pipeline_checks a disp srv project [] ov = liftR (Inr ov)"
| "pipeline_checks a disp srv project (p # ps) ov =
     (if 500 \<le> length (ov_checks ov) then liftR (Inr ov)
      else (let ov1 = ov\<lparr>ov_checks := ov_checks ov @ [gitlab_check_of a p ''Pipeline'']\<rparr> in
        case v_u64 a (v_get a p ''id'') of
          None \<Rightarrow> pipeline_checks a disp srv project ps ov1
        | Some i \<Rightarrow>
            bindR (tryR (gitlab_pages a srv (''projects/'' @ show_nat project @ ''/pipelines/'' @ show_nat i @ ''/jobs''))) (\<lambda>r.
            pipeline_checks a disp srv project ps
              (case r of Inr jobs \<Rightarrow> ov1\<lparr>ov_checks := ov_checks ov1 @ map (\<lambda>j. gitlab_check_of a j ''Job'') jobs\<rparr>
               | Inl e \<Rightarrow> ov1\<lparr>ov_notices := ov_notices ov1 @ [disp e]\<rparr>))))"

definition pipelines_overview :: "('v, 'z) json_api_scheme \<Rightarrow> (store_error \<Rightarrow> str) \<Rightarrow> server \<Rightarrow> remote_target \<Rightarrow>
    store_error + 'v list \<Rightarrow> overview \<Rightarrow> overview reader" where
  "pipelines_overview a disp srv t r ov =
     (case r of
        Inl e \<Rightarrow> liftR (Inr (ov\<lparr>ov_notices := ov_notices ov @ [disp e]\<rparr>))
      | Inr ps \<Rightarrow>
          (let mine = filter (of_revision a (rt_head t)) ps;
               ov1 = (if 10 < length mine
                 then ov\<lparr>ov_notices := ov_notices ov @ [''Only the newest 10 pipelines for this revision are shown.'']\<rparr>
                 else ov) in
           pipeline_checks a disp srv (repo_id (rt_repository t)) (take 10 mine) ov1))"

definition approved_by_any :: "('v, 'z) json_api_scheme \<Rightarrow> store_error + 'v \<Rightarrow> bool" where
  "approved_by_any a r =
     (case r of Inl _ \<Rightarrow> False | Inr v \<Rightarrow>
      (case v_array a (v_get a v ''approved_by'') of None \<Rightarrow> False | Some us \<Rightarrow> us \<noteq> []))"

definition changes_requested :: "('v, 'z) json_api_scheme \<Rightarrow> store_error + 'v \<Rightarrow> bool" where
  "changes_requested a r =
     (case r of Inl _ \<Rightarrow> False | Inr v \<Rightarrow>
      (case v_array a v of None \<Rightarrow> False | Some us \<Rightarrow> list_ex (\<lambda>u. is_text a u ''state'' ''requested_changes'') us))"

definition middle_dot :: str where
  "middle_dot = [CHR '' '', of_byte 0xC2, of_byte 0xB7, CHR '' '']"

text \<open>Everything after the file list was found complete.\<close>

definition gitlab_finish :: "('v, 'z) json_api_scheme \<Rightarrow> 'a codec_scheme \<Rightarrow> (store_error \<Rightarrow> str) \<Rightarrow> server \<Rightarrow>
    nat option \<Rightarrow> mr_address \<Rightarrow> 'v \<Rightarrow> remote_target \<Rightarrow> patch_report \<Rightarrow> snapshot reader" where
  "gitlab_finish a c disp srv clock addr m t patch =
     bindR (gitlab_pages a srv (mr_root addr @ ''/discussions'')) (\<lambda>discussions.
     bindR (tryR (gitlab_get a srv (mr_root addr @ ''/approvals''))) (\<lambda>approvals.
     bindR (tryR (gitlab_get a srv (mr_root addr @ ''/reviewers''))) (\<lambda>reviewers.
     bindR (liftR (okE (Message ''Clock error'') clock)) (\<lambda>now.
     (let found = discussion_comments a discussions (default_overview\<lparr>
            ov_description := v_str a (v_get a m ''description''),
            ov_author := v_str a (v_get a (v_get a m ''author'') ''username''),
            ov_decision := (if changes_requested a reviewers then Some ChangesRequested
              else if approved_by_any a approvals then Some Approved else None),
            ov_captured_at := Some now\<rparr>) in
      bindR (tryR (gitlab_pages a srv (mr_root addr @ ''/pipelines''))) (\<lambda>pipelines.
      bindR (pipelines_overview a disp srv t pipelines (snd found)) (\<lambda>ov.
      bindR (gitlab_target_read a srv addr) (\<lambda>again.
      if again \<noteq> t
      then liftR (Inl (Message ''The merge request or account changed during loading; open it again''))
      else liftR (Inr ((with_origin c
        (str_or ''Merge request'' (v_str a (v_get a m ''title'')) @ middle_dot @ ma_project addr @ '' !'' @ show_nat (ma_number addr))
        patch (Some t) (map (keep_current (rt_head t)) (fst found))
        (''gitlab:'' @ ma_host addr @ '':'' @ ma_project addr @ ''!'' @ show_nat (ma_number addr)))
          \<lparr>snap_overview := ov\<rparr>))))))))))"

definition gitlab_snapshot :: "('v, 'z) json_api_scheme \<Rightarrow> 'a codec_scheme \<Rightarrow> (store_error \<Rightarrow> str) \<Rightarrow> server \<Rightarrow>
    nat option \<Rightarrow> mr_address \<Rightarrow> snapshot reader" where
  "gitlab_snapshot a c disp srv clock addr =
     bindR (gitlab_get a srv (mr_root addr)) (\<lambda>m.
     bindR (gitlab_get a srv ''user'') (\<lambda>user.
     bindR (liftR (gitlab_target_of a addr m user)) (\<lambda>t.
     bindR (ask srv (mr_root addr @ ''/raw_diffs'') []) (\<lambda>response.
     if hr_status response \<noteq> 200
     then liftR (Inl (Message (''GitLab diff returned HTTP '' @ show_nat (hr_status response))))
     else
     bindR (liftR (map_errE PatchFailed (parse_patch (sha256 c) (hr_body response) default_limits))) (\<lambda>patch.
     bindR (gitlab_pages a srv (mr_root addr @ ''/diffs'')) (\<lambda>listing.
     bindR (liftR (okE AdapterPanic (collect_options (map display_path (files patch))))) (\<lambda>shown.
     if \<not> files_complete a shown listing
     then liftR (Inl (Message ''GitLab did not provide every diff file; review was refused''))
     else gitlab_finish a c disp srv clock addr m t patch)))))))"

section \<open>Paged collections\<close>

text \<open>
  What the three page loops share: a run that succeeds reads the next page and
  either stops on a short one or goes on. Reading nothing never succeeds.
\<close>

locale page_loop =
  fixes loop :: "nat \<Rightarrow> nat \<Rightarrow> nat \<Rightarrow> 'v list \<Rightarrow> 'v list reader"
    and fetched :: "nat \<Rightarrow> nat \<Rightarrow> 'v list \<Rightarrow> bool"
  assumes loop_zero: "loop 0 page sz all n \<noteq> (Inr out, k)"
    and loop_step: "loop (Suc left) page sz all n = (Inr out, k) \<Longrightarrow>
      \<exists>items sz1. fetched page n items \<and>
        (if length items < 100 then out = all @ items \<and> k = Suc n
         else loop left (Suc page) sz1 (all @ items) (Suc n) = (Inr out, k))"
begin

lemma pages_complete:
  assumes "loop left page sz all n = (Inr out, k)"
  shows "\<exists>ps. ps \<noteq> [] \<and> length ps \<le> left \<and> out = all @ concat ps \<and> k = n + length ps \<and>
    (\<forall>i < length ps. fetched (page + i) (n + i) (ps ! i)) \<and>
    (\<forall>p \<in> set (butlast ps). 100 \<le> length p) \<and> length (last ps) < 100"
  using assms
proof (induction left arbitrary: page sz all n)
  case 0
  then show ?case by (simp add: loop_zero)
next
  case (Suc left)
  from loop_step [OF Suc.prems] obtain items sz1 where f: "fetched page n items"
    and r: "if length items < 100 then out = all @ items \<and> k = Suc n
         else loop left (Suc page) sz1 (all @ items) (Suc n) = (Inr out, k)" by blast
  show ?case
  proof (cases "length items < 100")
    case True
    with f r show ?thesis by (intro exI [of _ "[items]"]) simp
  next
    case False
    with r have "loop left (Suc page) sz1 (all @ items) (Suc n) = (Inr out, k)" by simp
    from Suc.IH [OF this] obtain ps where ps: "ps \<noteq> []" "length ps \<le> left" "out = (all @ items) @ concat ps"
      "k = Suc n + length ps" "\<forall>i < length ps. fetched (Suc page + i) (Suc n + i) (ps ! i)"
      "\<forall>p \<in> set (butlast ps). 100 \<le> length p" "length (last ps) < 100" by blast
    have "\<forall>i < length (items # ps). fetched (page + i) (n + i) ((items # ps) ! i)"
      using f ps(5) by (auto simp: nth_Cons' less_Suc_eq_0_disj)
    with ps False show ?thesis by (intro exI [of _ "items # ps"]) simp
  qed
qed

lemma from_first_page:
  assumes "loop limit 1 0 [] n = (Inr out, k)"
  shows "\<exists>ps. out = concat ps \<and> ps \<noteq> [] \<and> length ps \<le> limit \<and>
    (\<forall>i < length ps. fetched (Suc i) (n + i) (ps ! i)) \<and>
    (\<forall>p \<in> set (butlast ps). 100 \<le> length p) \<and> length (last ps) < 100"
  using pages_complete [OF assms] by auto

end

definition github_page :: "('v, 'z) json_api_scheme \<Rightarrow> server \<Rightarrow> ('v \<Rightarrow> 'v) \<Rightarrow> str \<Rightarrow> nat \<Rightarrow> nat \<Rightarrow> 'v list \<Rightarrow> bool" where
  "github_page a srv part endpoint page n items \<longleftrightarrow>
     (\<exists>r v. srv n (page_of endpoint page) GITHUB_JSON = Inr r \<and> hr_status r = 200 \<and>
        from_slice a (hr_body r) = Some v \<and> v_array a (part v) = Some items)"

definition gitlab_page :: "('v, 'z) json_api_scheme \<Rightarrow> server \<Rightarrow> str \<Rightarrow> nat \<Rightarrow> nat \<Rightarrow> 'v list \<Rightarrow> bool" where
  "gitlab_page a srv path page n items \<longleftrightarrow>
     (\<exists>r v. srv n (page_of path page) [] = Inr r \<and> hr_status r = 200 \<and>
        from_slice a (hr_body r) = Some v \<and> v_array a v = Some items)"

lemma get_json_Inr:
  assumes "get_json a srv e n = (Inr v, k)"
  shows "k = Suc n \<and> (\<exists>r. srv n e GITHUB_JSON = Inr r \<and> hr_status r = 200 \<and> from_slice a (hr_body r) = Some v)"
  using assms
  by (auto simp: get_json_def github_request_def bind_simps ask_def liftR_def split: if_splits)

interpretation github_pages: page_loop "pages_loop a srv endpoint" "github_page a srv (\<lambda>v. v) endpoint"
proof unfold_locales
  fix left page sz1 all n out k
  assume "pages_loop a srv endpoint (Suc left) page sz1 all n = (Inr out, k)"
  then show "\<exists>items sz2. github_page a srv (\<lambda>v. v) endpoint page n items \<and>
      (if length items < 100 then out = all @ items \<and> k = Suc n
       else pages_loop a srv endpoint left (Suc page) sz2 (all @ items) (Suc n) = (Inr out, k))"
    by (auto simp: bind_simps Let_def github_page_def dest!: get_json_Inr split: if_splits) 
qed (simp add: liftR_def)

interpretation github_named: page_loop "named_loop a srv endpoint field" "github_page a srv (\<lambda>v. v_get a v field) endpoint"
proof unfold_locales
  fix left page sz1 all n out k
  assume "named_loop a srv endpoint field (Suc left) page sz1 all n = (Inr out, k)"
  then show "\<exists>items sz2. github_page a srv (\<lambda>v. v_get a v field) endpoint page n items \<and>
      (if length items < 100 then out = all @ items \<and> k = Suc n
       else named_loop a srv endpoint field left (Suc page) sz2 (all @ items) (Suc n) = (Inr out, k))"
    by (auto simp: bind_simps Let_def github_page_def dest!: get_json_Inr split: if_splits)
qed (simp add: liftR_def)

interpretation gitlab_listing: page_loop "gitlab_loop a srv path" "gitlab_page a srv path"
proof unfold_locales
  fix left page sz1 all n out k
  assume "gitlab_loop a srv path (Suc left) page sz1 all n = (Inr out, k)"
  then show "\<exists>items sz2. gitlab_page a srv path page n items \<and>
      (if length items < 100 then out = all @ items \<and> k = Suc n
       else gitlab_loop a srv path left (Suc page) sz2 (all @ items) (Suc n) = (Inr out, k))"
    by (auto simp: bind_simps Let_def gitlab_page_def ask_def bind_eq_Some_conv split: if_splits)
qed (simp add: liftR_def)

section \<open>The end of the headers\<close>

definition head_ok :: "bytes \<Rightarrow> bool" where
  "head_ok h \<longleftrightarrow> h \<noteq> [] \<and> last h \<noteq> CR \<and> last h \<noteq> LF \<and> \<not> str_contains [CR, LF, CR, LF] h \<and> valid_utf8 h"

lemma split_once_blank_line:
  assumes "h \<noteq> []" "last h \<noteq> CR" "last h \<noteq> LF" "split_once [CR, LF, CR, LF] h = None"
  shows "split_once [CR, LF, CR, LF] (h @ [CR, LF, CR, LF] @ r) = Some (h, r)"
  using assms
proof (induction h)
  case (Cons c h)
  have none: "strip_prefix [CR, LF, CR, LF] (c # h) = None" using Cons.prems(4) by (auto split: option.splits)
  have first: "strip_prefix [CR, LF, CR, LF] ((c # h) @ [CR, LF, CR, LF] @ r) = None"
  proof (rule ccontr)
    assume "strip_prefix [CR, LF, CR, LF] ((c # h) @ [CR, LF, CR, LF] @ r) \<noteq> None"
    then obtain x where x: "(c # h) @ [CR, LF, CR, LF] @ r = [CR, LF, CR, LF] @ x"
      unfolding not_None_eq strip_prefix_Some by blast
    consider "h = []" | c1 where "h = [c1]" | c1 c2 where "h = [c1, c2]" | c1 c2 c3 h' where "h = c1 # c2 # c3 # h'"
      by (metis list.exhaust)
    then show False
      using x none Cons.prems by cases auto
  qed
  then show ?case
  proof (cases "h = []")
    case False
    with Cons none first show ?thesis by (auto split: option.splits)
  qed (use first in simp)
qed simp

lemma decode_http_head:
  assumes "head_ok h" "status_line h = Inr s"
  shows "decode_http (h @ [CR, LF, CR, LF] @ r) =
    (if s < 200 then decode_http r else Inr \<lparr>hr_status = s, hr_headers = h, hr_body = r\<rparr>)"
proof -
  have "split_once [CR, LF, CR, LF] h = None"
    using assms(1) unfolding head_ok_def str_contains_def by blast
  with assms(1) split_once_blank_line [of h r] have "header_end (h @ [CR, LF, CR, LF] @ r) = Some (h, r)"
    by (simp add: header_end_def head_ok_def)
  then show ?thesis
    using assms by (subst decode_http.simps) (simp add: head_ok_def from_utf8_def)
qed

lemma decode_http_interim:
  assumes "list_all (\<lambda>h. head_ok h \<and> (\<exists>s < 200. status_line h = Inr s)) hs"
  shows "decode_http (concat (map (\<lambda>h. h @ [CR, LF, CR, LF]) hs) @ r) = decode_http r"
  using assms
proof (induction hs)
  case (Cons h hs)
  then obtain s where "head_ok h" "s < 200" "status_line h = Inr s" by auto
  from decode_http_head [OF this(1,3)] this(2) Cons show ?case by simp
qed simp

definition listing_run :: "('v, 'z) json_api_scheme \<Rightarrow> server \<Rightarrow> nat \<Rightarrow> 'v list \<Rightarrow> nat \<Rightarrow> nat \<Rightarrow>
    (nat \<Rightarrow> nat \<Rightarrow> 'v list \<Rightarrow> bool) \<Rightarrow> bool" where
  "listing_run a srv n out k limit page \<longleftrightarrow>
     (\<exists>endpoint. pages a srv endpoint n = (Inr out, k) \<and> limit = 100 \<and> page = github_page a srv (\<lambda>v. v) endpoint) \<or>
     (\<exists>endpoint field. named_pages a srv endpoint field n = (Inr out, k) \<and> limit = 10 \<and>
        page = github_page a srv (\<lambda>v. v_get a v field) endpoint) \<or>
     (\<exists>path. gitlab_pages a srv path n = (Inr out, k) \<and> limit = 30 \<and> page = gitlab_page a srv path)"

section \<open>Requests only move forward\<close>

definition forward :: "'a reader \<Rightarrow> bool" where
  "forward m \<longleftrightarrow> (\<forall>n. n \<le> snd (m n))"

lemma forward_bindR [intro]: "forward m \<Longrightarrow> (\<And>x. forward (f x)) \<Longrightarrow> forward (bindR m f)"
  unfolding forward_def bindR_def by (fastforce split: prod.split sum.split intro: le_trans)

lemma forward_basic [intro, simp]: "forward (liftR r)" "forward (ask srv e x)" "forward m \<Longrightarrow> forward (tryR m)"
  by (auto simp: forward_def liftR_def ask_def tryR_def split_beta)

lemma forward_if [intro]: "forward x \<Longrightarrow> forward y \<Longrightarrow> forward (if b then x else y)"
  by simp

lemma forward_gitlab_get: "forward (gitlab_get a srv p)"
  by (auto simp: gitlab_get_def)

lemma forward_gitlab_loop: "forward (gitlab_loop a srv path left page sz got)"
  by (induction left arbitrary: page sz got) (simp_all add: Let_def forward_bindR forward_if)

lemma forward_gitlab_pages: "forward (gitlab_pages a srv path)"
  unfolding gitlab_pages_def by (rule forward_gitlab_loop)

lemma forward_pipeline_checks: "forward (pipeline_checks a disp srv project ps ov)"
  by (induction ps arbitrary: ov) (simp_all add: Let_def forward_gitlab_pages forward_bindR forward_if split: option.split)

lemma forward_pipelines: "forward (pipelines_overview a disp srv t r ov)"
  by (auto simp: pipelines_overview_def Let_def forward_pipeline_checks split: sum.split)

lemmas forward_rules = forward_gitlab_get forward_gitlab_pages forward_pipelines forward_basic

lemma forwardD: "forward m \<Longrightarrow> m n = (r, k) \<Longrightarrow> n \<le> k"
  by (metis forward_def snd_conv)

lemma gitlab_get_next: "gitlab_get a srv p n = (Inr v, k) \<Longrightarrow> k = Suc n"
  by (auto simp: gitlab_get_def bind_simps ask_def)

section \<open>A concrete document type\<close>

text \<open>A number that is no unsigned 64-bit integer is kept as its text.\<close>

datatype doc = DNull | DBool bool | DNum nat | DNumber str | DStr str | DArr "doc list" | DObj "(str \<times> doc) list"

definition doc_get :: "doc \<Rightarrow> str \<Rightarrow> doc" where
  "doc_get v k = (case v of DObj kvs \<Rightarrow> (case map_of kvs k of Some x \<Rightarrow> x | None \<Rightarrow> DNull) | _ \<Rightarrow> DNull)"

definition doc_api :: "(bytes \<Rightarrow> doc option) \<Rightarrow> doc json_api" where
  "doc_api decode = \<lparr>v_get = doc_get, v_str = (\<lambda>v. case v of DStr s \<Rightarrow> Some s | _ \<Rightarrow> None),
     v_u64 = (\<lambda>v. case v of DNum n \<Rightarrow> Some n | _ \<Rightarrow> None), v_bool = (\<lambda>v. case v of DBool b \<Rightarrow> Some b | _ \<Rightarrow> None),
     v_array = (\<lambda>v. case v of DArr xs \<Rightarrow> Some xs | _ \<Rightarrow> None), v_size = (\<lambda>_. 2), v_show = (\<lambda>_. []), v_null = DNull,
     v_of_str = DStr, v_of_u64 = DNum, v_object = DObj, from_slice = decode\<rparr>"

definition empty_page :: server where
  "empty_page n e accept = Inr \<lparr>hr_status = 200, hr_headers = [], hr_body = ''[]''\<rparr>"

definition list_decode :: "bytes \<Rightarrow> doc option" where
  "list_decode b = (if b = ''[]'' then Some (DArr []) else None)"

section \<open>Properties\<close>

text \<open>
  A paged listing is complete or an error, never cut short: when a
  listing of GitHub or GitLab succeeds, its rows are the rows of consecutive
  pages from the first on, each answered with status 200, every page before the
  last is full, and the last is not, within the page limit.
\<close>

theorem listings_complete:
  assumes "listing_run a srv n out k limit page"
  shows "\<exists>ps. out = concat ps \<and> ps \<noteq> [] \<and> length ps \<le> limit \<and>
     (\<forall>i < length ps. page (Suc i) (n + i) (ps ! i)) \<and>
     (\<forall>p \<in> set (butlast ps). 100 \<le> length p) \<and> length (last ps) < 100"
  using assms unfolding listing_run_def pages_def named_pages_def gitlab_pages_def
  using github_pages.from_first_page github_named.from_first_page gitlab_listing.from_first_page
  by (elim disjE exE conjE) simp_all

theorem listings_complete_witness:
  "\<exists>ps. [] = concat ps \<and> length ps \<le> 30 \<and>
     gitlab_page (doc_api list_decode) empty_page ''projects/1/notes'' 1 0 (ps ! 0)"
proof -
  have "gitlab_pages (doc_api list_decode) empty_page ''projects/1/notes'' 0 = (Inr [], 1)" by code_simp
  then have "listing_run (doc_api list_decode) empty_page 0 [] 1 30
      (gitlab_page (doc_api list_decode) empty_page ''projects/1/notes'')" by (auto simp: listing_run_def)
  from listings_complete [OF this] obtain ps where "[] = concat ps" "ps \<noteq> []" "length ps \<le> 30"
    "\<forall>i < length ps. gitlab_page (doc_api list_decode) empty_page ''projects/1/notes'' (Suc i) (0 + i) (ps ! i)" by blast
  then show ?thesis by (intro exI [of _ ps]) fastforce
qed

text \<open>
  The response that a tool prints is read back exactly, after any
  number of interim responses: status, header text and every byte of the body.
\<close>

theorem decode_http_response:
  assumes "list_all (\<lambda>i. head_ok i \<and> (\<exists>s < 200. status_line i = Inr s)) interim"
    and "head_ok h" "status_line h = Inr status" "200 \<le> status"
  shows "decode_http (concat (map (\<lambda>i. i @ [CR, LF, CR, LF]) interim) @ h @ [CR, LF, CR, LF] @ body) =
     Inr \<lparr>hr_status = status, hr_headers = h, hr_body = body\<rparr>"
  using decode_http_interim [OF assms(1)] decode_http_head [OF assms(2,3)] assms(4) by simp

theorem decode_http_response_witness:
  "decode_http (''HTTP/1.1 100 Continue'' @ [CR, LF, CR, LF] @ ''HTTP/2 201 Created'' @ [CR, LF] @ ''a: b'' @
     [CR, LF, CR, LF] @ ''x'' @ [LF, LF]) =
   Inr \<lparr>hr_status = 201, hr_headers = ''HTTP/2 201 Created'' @ [CR, LF] @ ''a: b'', hr_body = ''x'' @ [LF, LF]\<rparr>"
proof -
  have "head_ok ''HTTP/1.1 100 Continue''" "status_line ''HTTP/1.1 100 Continue'' = Inr 100" by code_simp+
  then have "list_all (\<lambda>i. head_ok i \<and> (\<exists>s < 200. status_line i = Inr s)) [''HTTP/1.1 100 Continue'']" by simp
  moreover have "head_ok (''HTTP/2 201 Created'' @ [CR, LF] @ ''a: b'')"
    "status_line (''HTTP/2 201 Created'' @ [CR, LF] @ ''a: b'') = Inr 201" by code_simp+
  ultimately show ?thesis
    using decode_http_response [of "[''HTTP/1.1 100 Continue'']" "''HTTP/2 201 Created'' @ [CR, LF] @ ''a: b''" 201 "''x'' @ [LF, LF]"]
    by simp
qed

lemma bindR_elim:
  assumes "fst (bindR m f n) = Inr y"
  obtains x j where "m n = (Inr x, j)" "fst (f x j) = Inr y"
  using assms by (auto simp: bindR_fst_Inr)

lemma liftR_elim:
  assumes "fst (bindR (liftR r) f n) = Inr y"
  obtains x where "r = Inr x" "fst (f x n) = Inr y"
  using assms by (auto simp: bindR_fst_Inr liftR_def)

lemma if_fst_Inr:
  assumes "fst ((if b then liftR (Inl e) else m) n) = Inr y"
  obtains "\<not> b" "fst (m n) = Inr y"
  using assms by (auto simp: liftR_def split: if_splits)

lemma gitlab_finish_parts:
  assumes "fst (gitlab_finish a c disp srv clock addr m t patch n) = Inr s"
  shows "\<exists>k title comments origin ov. n \<le> k \<and> fst (gitlab_target_read a srv addr k) = Inr t \<and>
    s = (with_origin c title patch (Some t) (map (keep_current (rt_head t)) comments) origin)\<lparr>snap_overview := ov\<rparr>"
  using assms unfolding gitlab_finish_def Let_def
proof (elim liftR_elim bindR_elim if_fst_Inr, goal_cases)
  case (1 ds k1 ap k2 rv k3 now pl k4 ov k5 again k6)
  note order = forwardD [OF forward_gitlab_pages 1(1)] forwardD [OF forward_basic(3) [OF forward_gitlab_get] 1(2)]
    forwardD [OF forward_basic(3) [OF forward_gitlab_get] 1(3)]
    forwardD [OF forward_basic(3) [OF forward_gitlab_pages] 1(5)] forwardD [OF forward_pipelines 1(6)]
  have "n \<le> k5" using order by (meson le_trans)
  moreover have "again = t" "gitlab_target_read a srv addr k5 = (Inr again, k6)" using 1(7,8,9) by blast+
  ultimately show ?case using 1(7,8,9) unfolding liftR_def fst_conv sum.inject by (metis fst_conv)
qed

lemma gitlab_snapshot_parts:
  assumes "fst (gitlab_snapshot a c disp srv clock addr n) = Inr s"
  shows "\<exists>m user t response patch k. gitlab_get a srv (mr_root addr) n = (Inr m, Suc n) \<and>
    gitlab_get a srv ''user'' (Suc n) = (Inr user, Suc (Suc n)) \<and> gitlab_target_of a addr m user = Inr t \<and>
    srv (Suc (Suc n)) (mr_root addr @ ''/raw_diffs'') [] = Inr response \<and> hr_status response = 200 \<and>
    parse_patch (sha256 c) (hr_body response) default_limits = Inr patch \<and> n + 3 \<le> k \<and>
    fst (gitlab_finish a c disp srv clock addr m t patch k) = Inr s"
  using assms unfolding gitlab_snapshot_def
proof (elim liftR_elim bindR_elim if_fst_Inr, goal_cases)
  case (1 m k1 user k2 t response k3 patch listing k4 shown)
  note k1 = gitlab_get_next [OF 1(1)]
  note k2 = gitlab_get_next [OF 1(2)]
  have a: "k3 = Suc k2" "srv k2 (mr_root addr @ ''/raw_diffs'') [] = Inr response" using 1(4) by (simp_all add: ask_def)
  have "k3 \<le> k4" by (rule forwardD [OF forward_gitlab_pages 1(7)])
  with k1 k2 a(1) have "n + 3 \<le> k4" by simp
  with 1(1,2,3,10) a(2) 1(5) 1(6) [unfolded map_errE_eq_Inr] show ?case unfolding k1 k2 by blast
qed

text \<open>
  A merge request that loads is one consistent revision: the target is
  the one read before the diff and again after everything else, with hexadecimal
  revisions and the number asked for; the patch is the parse of the diff that was
  read; the identity verifies; and a thread comment keeps a line only when it was
  made on the loaded head.
\<close>

theorem gitlab_snapshot_consistent:
  assumes "fst (gitlab_snapshot a c disp srv clock addr n) = Inr s"
  shows "verify_identity c s \<and> snap_warnings s = [] \<and>
     (\<exists>t k response. snap_remote s = Some t \<and> fst (gitlab_target_read a srv addr n) = Inr t \<and>
        fst (gitlab_target_read a srv addr k) = Inr t \<and> n + 3 \<le> k \<and>
        rt_provider t = GITLAB \<and> rt_pr t = ma_number addr \<and> length (rt_head t) = 40 \<and> list_all is_ascii_hexdigit (rt_head t) \<and>
        srv (n + 2) (mr_root addr @ ''/raw_diffs'') [] = Inr response \<and> hr_status response = 200 \<and>
        parse_patch (sha256 c) (hr_body response) default_limits = Inr (snap_patch s) \<and>
        (\<forall>m \<in> set (snap_comments s). tc_line m \<noteq> None \<longrightarrow> tc_commit_id m = rt_head t))"
proof -
  obtain m user t response patch k where r: "gitlab_get a srv (mr_root addr) n = (Inr m, Suc n)"
    "gitlab_get a srv ''user'' (Suc n) = (Inr user, Suc (Suc n))" "gitlab_target_of a addr m user = Inr t"
    "srv (Suc (Suc n)) (mr_root addr @ ''/raw_diffs'') [] = Inr response" "hr_status response = 200"
    "parse_patch (sha256 c) (hr_body response) default_limits = Inr patch" "n + 3 \<le> k"
    "fst (gitlab_finish a c disp srv clock addr m t patch k) = Inr s"
    using gitlab_snapshot_parts [OF assms] by blast
  obtain k' title comments origin ov where f: "k \<le> k'" "fst (gitlab_target_read a srv addr k') = Inr t"
    "s = (with_origin c title patch (Some t) (map (keep_current (rt_head t)) comments) origin)\<lparr>snap_overview := ov\<rparr>"
    using gitlab_finish_parts [OF r(8)] by blast
  have t: "rt_provider t = GITLAB" "rt_pr t = ma_number addr" "length (rt_head t) = 40" "list_all is_ascii_hexdigit (rt_head t)"
    using r(3) by (auto simp: gitlab_target_of_def bind_simps split: prod.splits)
  have first: "fst (gitlab_target_read a srv addr n) = Inr t"
    using r(1-3) by (simp add: gitlab_target_read_def bindR_def liftR_def)
  have "verify_identity c s" using f(3) by (simp add: verify_identity_def with_origin_def)
  moreover have "snap_warnings s = []" "snap_remote s = Some t" "snap_patch s = patch" using f(3) by (simp_all add: with_origin_def)
  moreover have "\<forall>m \<in> set (snap_comments s). tc_line m \<noteq> None \<longrightarrow> tc_commit_id m = rt_head t"
    using f(3) by (auto simp: with_origin_def keep_current_def)
  ultimately show ?thesis using t first f(1,2) r(4-7) by (intro conjI exI [of _ t] exI [of _ k'] exI [of _ response]) auto
qed

definition lab_address :: mr_address where
  "lab_address = \<lparr>ma_host = ''gitlab.com'', ma_project = ''g/p'', ma_number = 7\<rparr>"

definition lab_decode :: "bytes \<Rightarrow> doc option" where
  "lab_decode b =
     (let sha = DStr (replicate 40 (CHR ''a'')) in
      if b = ''m'' then Some (DObj [(''project_id'', DNum 3), (''iid'', DNum 7), (''state'', DStr ''opened''),
        (''diff_refs'', DObj [(''start_sha'', sha), (''base_sha'', sha), (''head_sha'', sha)])])
      else if b = ''u'' then Some (DObj [(''username'', DStr ''me'')])
      else if b = ''[]'' then Some (DArr []) else None)"

definition lab_server :: server where
  "lab_server n e accept =
     Inr \<lparr>hr_status = 200, hr_headers = [],
       hr_body = (if e = mr_root lab_address then ''m'' else if e = ''user'' then ''u''
         else if ends_with ''/raw_diffs'' e then [] else ''[]'')\<rparr>"

lemma lab_loads:
  "case fst (gitlab_snapshot (doc_api lab_decode) sample_codec (\<lambda>_. []) lab_server (Some 5) lab_address 0) of
     Inl _ \<Rightarrow> False | Inr s \<Rightarrow> True"
  by code_simp

theorem gitlab_snapshot_consistent_witness:
  "\<exists>s t. fst (gitlab_snapshot (doc_api lab_decode) sample_codec (\<lambda>_. []) lab_server (Some 5) lab_address 0) = Inr s \<and>
     verify_identity sample_codec s \<and> snap_remote s = Some t \<and> rt_pr t = 7"
proof -
  obtain s where s: "fst (gitlab_snapshot (doc_api lab_decode) sample_codec (\<lambda>_. []) lab_server (Some 5) lab_address 0) = Inr s"
    using lab_loads by (auto split: sum.splits)
  from gitlab_snapshot_consistent [OF s] s show ?thesis by (auto simp: lab_address_def)
qed

end
