(* ===== verification/Writers.thy ===== *)
theory Writers
  imports Http
begin

text \<open>
  The write side of the hosted providers: \<open>GithubWriter::send\<close> of
  \<open>crates/adapters/src/github.rs\<close> and \<open>GitlabWriter\<close> of \<open>gitlab.rs\<close>, which posts a
  review in several requests and signs each note with a marker that reconciliation
  reads back. A request is recorded before its answer is known: the record of
  requests, not the answers, is what may exist on the server.
\<close>

section \<open>Markers\<close>

definition MARK :: str where
  "MARK = [LF, LF] @ ''<!-- diffz:''"

definition marker :: "prepared_review \<Rightarrow> str" where
  "marker p = MARK @ fingerprint p @ '':'' @ rt_head (pr_target p) @ '':'' @ remote_state (pr_verdict p) @ '' -->''"

definition marked_note :: "('v, 'z) json_api_scheme \<Rightarrow> 'v \<Rightarrow> 'v option" where
  "marked_note a n =
     Option.bind (v_str a (v_get a n ''body'')) (\<lambda>text_body.
     Option.bind (rsplit_once MARK text_body) (\<lambda>(body, mark).
     Option.bind (strip_suffix '' -->'' mark) (\<lambda>m.
     (let fields = split_on (CHR '':'') m in
      if \<not> (length fields = 3 \<or> length fields = 4) then None
      else Some (v_object a
        [(''id'', v_get a n ''id''), (''body'', v_of_str a body), (''commit_id'', v_of_str a (fields ! 1)),
         (''state'', v_of_str a (fields ! 2)), (''fingerprint'', v_of_str a (fields ! 0)),
         (''side'', if length fields = 4 then v_of_str a (fields ! 3) else v_null a),
         (''user'', v_object a [(''login'', v_get a (v_get a n ''author'') ''username'')])])))))"

definition file_level_note :: "('v, 'z) json_api_scheme \<Rightarrow> 'v \<Rightarrow> str \<Rightarrow> 'v option" where
  "file_level_note a n fp =
     Option.bind (marked_note a n) (\<lambda>marked.
     if \<not> is_text a marked ''fingerprint'' fp then None
     else
     Option.bind (v_str a (v_get a marked ''body'')) (\<lambda>body.
     Option.bind (strip_prefix ''**'' body) (\<lambda>rest.
     Option.bind (split_once (''**'' @ [LF, LF]) rest) (\<lambda>(path, note).
     if path = [] \<or> note = [] then None
     else Some (v_object a [(''body'', v_of_str a note), (''path'', v_of_str a path), (''line'', v_of_u64 a 0),
       (''side'', v_of_str a ''RIGHT'')])))))"

section \<open>Reading GitLab reviews back\<close>

definition plain_note :: "('v, 'z) json_api_scheme \<Rightarrow> 'v \<Rightarrow> bool" where
  "plain_note a n \<longleftrightarrow> \<not> is_true a n ''system'' \<and> \<not> is_text a n ''type'' ''DiffNote''"

definition gitlab_reviews :: "('v, 'z) json_api_scheme \<Rightarrow> server \<Rightarrow> remote_target \<Rightarrow> 'v list reader" where
  "gitlab_reviews a srv t =
     bindR (gitlab_pages a srv (mr_root (mr_from_target t) @ ''/notes'')) (\<lambda>notes.
     liftR (Inr (List.map_filter (marked_note a) (filter (plain_note a) notes))))"

definition verdict_verified :: "('v, 'z) json_api_scheme \<Rightarrow> server \<Rightarrow> remote_target \<Rightarrow> 'v \<Rightarrow> unit reader" where
  "verdict_verified a srv t review =
     (let root = mr_root (mr_from_target t); by = (\<lambda>u. is_text a (v_get a u ''user'') ''username'' (rt_account t)) in
      if is_text a review ''state'' ''APPROVED'' then
        bindR (gitlab_get a srv (root @ ''/approvals'')) (\<lambda>v.
        liftR (failIf (\<not> (case v_array a (v_get a v ''approved_by'') of Some us \<Rightarrow> list_ex by us | None \<Rightarrow> False))
          (Message ''Approval could not be verified'') (Inr ())))
      else if is_text a review ''state'' ''CHANGES_REQUESTED'' then
        bindR (gitlab_get a srv (root @ ''/reviewers'')) (\<lambda>v.
        liftR (failIf (\<not> (case v_array a v of
              Some us \<Rightarrow> list_ex (\<lambda>u. by u \<and> is_text a u ''state'' ''requested_changes'') us | None \<Rightarrow> False))
          (Message ''GitLab change request could not be verified'') (Inr ())))
      else liftR (Inr ()))"

definition positioned_note :: "('v, 'z) json_api_scheme \<Rightarrow> remote_target \<Rightarrow> str \<Rightarrow> 'v \<Rightarrow> 'v list \<Rightarrow> store_error + 'v list" where
  "positioned_note a t fp n found =
     (let pos = v_get a n ''position'' in
      if \<not> is_text a pos ''position_type'' ''text'' \<and> \<not> is_text a pos ''position_type'' ''file'' then Inr found
      else case marked_note a n of None \<Rightarrow> Inr found | Some marked \<Rightarrow>
      if \<not> is_text a marked ''fingerprint'' fp then Inr found
      else if \<not> is_text a pos ''head_sha'' (rt_head t) \<or> \<not> is_text a pos ''base_sha'' (comparison_base t) \<or>
        \<not> is_text a pos ''start_sha'' (target_tip t) \<or> \<not> is_text a (v_get a n ''author'') ''username'' (rt_account t)
      then Inl (Message ''Discussion identity mismatch'')
      else if is_text a pos ''position_type'' ''file'' then
        Inr (found @ [v_object a [(''body'', v_get a marked ''body''), (''path'', v_get a pos ''new_path''),
          (''line'', v_of_u64 a 0), (''start_line'', v_of_u64 a 0), (''side'', v_of_str a ''RIGHT'')]])
      else
        (let right = (case v_str a (v_get a marked ''side'') of
               Some s \<Rightarrow> s = ''RIGHT'' | None \<Rightarrow> v_u64 a (v_get a pos ''new_line'') \<noteq> None);
             key = (if right then ''new'' else ''old'');
             line = v_get a pos (key @ ''_line'');
             start = (case v_u64 a (v_get a (v_get a (v_get a pos ''line_range'') ''start'') (key @ ''_line'')) of
               Some m \<Rightarrow> v_of_u64 a m | None \<Rightarrow> line) in
         Inr (found @ [v_object a [(''body'', v_get a marked ''body''), (''path'', v_get a pos (key @ ''_path'')),
           (''line'', line), (''start_line'', start), (''side'', v_of_str a (if right then ''RIGHT'' else ''LEFT''))]])))"

definition discussion_notes :: "('v, 'z) json_api_scheme \<Rightarrow> 'v \<Rightarrow> 'v list" where
  "discussion_notes a d = (case v_array a (v_get a d ''notes'') of Some ns \<Rightarrow> ns | None \<Rightarrow> [])"

definition gitlab_comments :: "('v, 'z) json_api_scheme \<Rightarrow> server \<Rightarrow> remote_target \<Rightarrow> nat \<Rightarrow> 'v list reader" where
  "gitlab_comments a srv t i =
     (let root = mr_root (mr_from_target t) in
      bindR (gitlab_get a srv (root @ ''/notes/'' @ show_nat i)) (\<lambda>note.
      bindR (liftR (okE (Message ''Review marker unavailable'') (marked_note a note))) (\<lambda>review.
      bindR (liftR (okE (Message ''Missing fingerprint'') (v_str a (v_get a review ''fingerprint'')))) (\<lambda>fp.
      bindR (verdict_verified a srv t review) (\<lambda>_.
      bindR (gitlab_pages a srv (root @ ''/discussions'')) (\<lambda>ds.
      bindR (liftR (foldE (positioned_note a t fp) (concat (map (discussion_notes a) ds)) [])) (\<lambda>result.
      bindR (gitlab_pages a srv (root @ ''/notes'')) (\<lambda>notes.
      liftR (Inr (result @ List.map_filter (\<lambda>n. file_level_note a n fp) (filter (plain_note a) notes)))))))))))"

section \<open>Sending to GitHub\<close>

definition github_send :: "('v, 'z) json_api_scheme \<Rightarrow> 'a review_codec_scheme \<Rightarrow> payload_codec \<Rightarrow> (store_error \<Rightarrow> str) \<Rightarrow>
    (str \<Rightarrow> 'v \<Rightarrow> store_error + http_response) \<Rightarrow> prepared_review \<Rightarrow> 'v send_outcome \<times> (str \<times> 'v) list" where
  "github_send a c j disp post p =
     (if \<not> verify_review c (github_rules j) p then (SendRejected 422, [])
      else case from_slice a (rules_payload (github_rules j) p) of
        None \<Rightarrow> (SendRejected 422, [])
      | Some payload \<Rightarrow>
          (let endpoint = pr_root (pr_from_target (pr_target p)) @ ''/reviews'' in
           (case post endpoint payload of
              Inl e \<Rightarrow> SendUnknown (disp e)
            | Inr r \<Rightarrow>
                if hr_status r = 200 \<or> hr_status r = 201 then
                  (case from_slice a (hr_body r) of
                     Some v \<Rightarrow> Accepted v
                   | None \<Rightarrow> SendUnknown ''the server reported success but the response body could not be read'')
                else if 400 \<le> hr_status r \<and> hr_status r < 500 \<and> hr_status r \<noteq> 408 then SendRejected (hr_status r)
                else SendUnknown (''the write got HTTP '' @ show_nat (hr_status r) @ ''; retrying it automatically is not safe''),
            [(endpoint, payload)])))"

section \<open>Sending to GitLab\<close>

datatype gitlab_write =
    RequestChangesOf str nat
  | Discussion str str
  | ApproveAt str
  | SummaryNote str

text \<open>How the remote answers: the n-th check of the current target, and the n-th write.\<close>

record gitlab_remote =
  current_at :: "nat \<Rightarrow> store_error + remote_target"
  answer_at :: "nat \<Rightarrow> store_error + http_response"

record send_state =
  ss_checks :: nat
  ss_writes :: "gitlab_write list"
  ss_sent :: bool

type_synonym 'a sender = "send_state \<Rightarrow> (store_error + 'a) \<times> send_state"

definition bindS :: "'a sender \<Rightarrow> ('a \<Rightarrow> 'b sender) \<Rightarrow> 'b sender" where
  "bindS m f s = (case m s of (Inl e, s') \<Rightarrow> (Inl e, s') | (Inr x, s') \<Rightarrow> f x s')"

definition liftS :: "store_error + 'a \<Rightarrow> 'a sender" where
  "liftS r s = (r, s)"

definition still_current :: "gitlab_remote \<Rightarrow> prepared_review \<Rightarrow> str \<Rightarrow> unit sender" where
  "still_current w p msg s =
     (bindE (current_at w (ss_checks s)) (\<lambda>t. failIf (t \<noteq> pr_target p) (Message msg) (Inr ())),
      s\<lparr>ss_checks := Suc (ss_checks s)\<rparr>)"

definition post_write :: "gitlab_remote \<Rightarrow> gitlab_write \<Rightarrow> http_response sender" where
  "post_write w r s =
     (answer_at w (length (ss_writes s)), s\<lparr>ss_sent := True, ss_writes := ss_writes s @ [r]\<rparr>)"

text \<open>\<open>str::trim_end_matches\<close> of a text pattern.\<close>

function trim_end_text :: "str \<Rightarrow> str \<Rightarrow> str" where
  "trim_end_text pat s =
     (case strip_suffix pat s of Some r \<Rightarrow> if pat = [] then s else trim_end_text pat r | None \<Rightarrow> s)"
  by pat_completeness auto
termination
  by (relation "measure (\<lambda>(_, s). length s)") (auto simp: strip_suffix_Some)

declare trim_end_text.simps [simp del]

definition array_filled :: "('v, 'z) json_api_scheme \<Rightarrow> 'v \<Rightarrow> bool" where
  "array_filled a v \<longleftrightarrow> (case v_array a v of Some xs \<Rightarrow> xs \<noteq> [] | None \<Rightarrow> False)"

definition change_confirmed :: "('v, 'z) json_api_scheme \<Rightarrow> nat \<Rightarrow> 'v \<Rightarrow> bool" where
  "change_confirmed a number body \<longleftrightarrow>
     (let result = v_get a (v_get a body ''data'') ''mergeRequestRequestChanges'' in
      \<not> array_filled a (v_get a body ''errors'') \<and> \<not> array_filled a (v_get a result ''errors'') \<and>
      Option.bind (v_str a (v_get a (v_get a result ''mergeRequest'') ''iid'')) parse_u64 = Some number)"

definition send_change_request :: "('v, 'z) json_api_scheme \<Rightarrow> gitlab_remote \<Rightarrow> prepared_review \<Rightarrow> unit sender" where
  "send_change_request a w p =
     (let addr = mr_from_target (pr_target p) in
      bindS (still_current w p ''MR changed before requesting changes'') (\<lambda>_.
      bindS (post_write w (RequestChangesOf (ma_project addr) (ma_number addr))) (\<lambda>r.
      if hr_status r \<noteq> 200
      then liftS (Inl (Message (''GitLab change request returned HTTP '' @ show_nat (hr_status r))))
      else bindS (liftS (okE JsonError (from_slice a (hr_body r)))) (\<lambda>body.
        liftS (failIf (\<not> change_confirmed a (ma_number addr) body)
          (Message ''GitLab did not confirm the change request'') (Inr ()))))))"

definition comment_write :: "prepared_review \<Rightarrow> prepared_comment \<Rightarrow> str \<Rightarrow> gitlab_write" where
  "comment_write p k pos =
     Discussion (pc_body k @ trim_end_text '' -->'' (marker p) @ '':'' @ side_api (pc_side k) @ '' -->'') pos"

definition send_comment :: "gitlab_remote \<Rightarrow> prepared_review \<Rightarrow> prepared_comment \<Rightarrow> unit sender" where
  "send_comment w p k =
     bindS (still_current w p ''MR changed during publication'') (\<lambda>_.
     bindS (liftS (okE (Message ''Frozen GitLab position is absent'') (pc_position k))) (\<lambda>pos.
     bindS (post_write w (comment_write p k pos)) (\<lambda>r.
     liftS (failIf (hr_status r \<noteq> 201)
       (Message (''GitLab rejected the comment with HTTP '' @ show_nat (hr_status r))) (Inr ())))))"

fun send_comments :: "gitlab_remote \<Rightarrow> prepared_review \<Rightarrow> prepared_comment list \<Rightarrow> unit sender" where
  "send_comments w p [] = liftS (Inr ())"
| "send_comments w p (k # ks) = bindS (send_comment w p k) (\<lambda>_. send_comments w p ks)"

definition send_approval :: "gitlab_remote \<Rightarrow> prepared_review \<Rightarrow> unit sender" where
  "send_approval w p =
     bindS (still_current w p ''MR changed before approval'') (\<lambda>_.
     bindS (post_write w (ApproveAt (rt_head (pr_target p)))) (\<lambda>r.
     liftS (failIf (hr_status r \<noteq> 201 \<and> hr_status r \<noteq> 200) (Message ''GitLab approval did not confirm'') (Inr ()))))"

definition send_summary :: "('v, 'z) json_api_scheme \<Rightarrow> gitlab_remote \<Rightarrow> prepared_review \<Rightarrow> 'v sender" where
  "send_summary a w p =
     bindS (still_current w p ''MR changed before review summary'') (\<lambda>_.
     bindS (post_write w (SummaryNote (pr_summary p @ marker p))) (\<lambda>r.
     if hr_status r \<noteq> 201
     then liftS (Inl (Message (''GitLab summary write produced HTTP '' @ show_nat (hr_status r))))
     else bindS (liftS (okE JsonError (from_slice a (hr_body r)))) (\<lambda>n.
       liftS (okE (Message ''Unverifiable GitLab summary'') (marked_note a n)))))"

definition onlyif :: "bool \<Rightarrow> unit sender \<Rightarrow> unit sender" where
  "onlyif b m = (if b then m else liftS (Inr ()))"

definition gitlab_publish :: "('v, 'z) json_api_scheme \<Rightarrow> gitlab_remote \<Rightarrow> prepared_review \<Rightarrow> 'v sender" where
  "gitlab_publish a w p =
     bindS (onlyif (pr_verdict p = RequestChanges) (send_change_request a w p)) (\<lambda>_.
     bindS (send_comments w p (pr_comments p)) (\<lambda>_.
     bindS (onlyif (pr_verdict p = Approve) (send_approval w p)) (\<lambda>_.
     send_summary a w p)))"

definition start_state :: send_state where
  "start_state = \<lparr>ss_checks = 0, ss_writes = [], ss_sent = False\<rparr>"

definition gitlab_send :: "('v, 'z) json_api_scheme \<Rightarrow> 'a review_codec_scheme \<Rightarrow> payload_codec \<Rightarrow> (store_error \<Rightarrow> str) \<Rightarrow>
    gitlab_remote \<Rightarrow> prepared_review \<Rightarrow> 'v send_outcome \<times> send_state" where
  "gitlab_send a c j disp w p =
     (if \<not> verify_review c (gitlab_rules j) p then (SendRejected 422, start_state)
      else case gitlab_publish a w p start_state of
        (Inr v, s) \<Rightarrow> (Accepted v, s)
      | (Inl e, s) \<Rightarrow>
          (if ss_sent s
           then SendUnknown (disp e @ ''. Comments may exist remotely; inspect and reconcile before any resend.'')
           else SendRejected 422, s))"

section \<open>What a sender writes\<close>

text \<open>
  A sender that plans the writes \<open>ws\<close> makes a first part of them, each after one
  check that found the frozen target; all of them when it succeeds.
\<close>

definition write_log :: "gitlab_remote \<Rightarrow> prepared_review \<Rightarrow> send_state \<Rightarrow> bool" where
  "write_log w p s \<longleftrightarrow> ss_sent s = (ss_writes s \<noteq> []) \<and>
     (\<forall>i < length (ss_writes s). current_at w i = Inr (pr_target p))"

definition sends :: "gitlab_remote \<Rightarrow> prepared_review \<Rightarrow> gitlab_write list \<Rightarrow> 'a sender \<Rightarrow> bool" where
  "sends w p ws m \<longleftrightarrow>
     (\<forall>s r s'. write_log w p s \<and> ss_checks s = length (ss_writes s) \<and> m s = (r, s') \<longrightarrow>
        write_log w p s' \<and>
        (\<exists>made. prefix made ws \<and> ss_writes s' = ss_writes s @ made \<and>
           (\<forall>x. r = Inr x \<longrightarrow> made = ws \<and> ss_checks s' = length (ss_writes s'))))"

lemma sendsD:
  assumes "sends w p ws m" "write_log w p s" "ss_checks s = length (ss_writes s)" "m s = (r, s')"
  obtains made where "write_log w p s'" "prefix made ws" "ss_writes s' = ss_writes s @ made"
    "\<forall>x. r = Inr x \<longrightarrow> made = ws \<and> ss_checks s' = length (ss_writes s')"
  using assms(1) [unfolded sends_def, rule_format, of s r s'] assms(2-4) by auto

lemma bindS_liftS [simp]: "bindS (liftS (Inr x)) f = f x" "bindS (liftS (Inl e)) f = liftS (Inl e)"
  by (simp_all add: bindS_def liftS_def fun_eq_iff)

lemma sends_bind:
  assumes "sends w p ws m" "\<And>x. sends w p vs (f x)"
  shows "sends w p (ws @ vs) (bindS m f)"
  unfolding sends_def
proof (intro allI impI, elim conjE)
  fix s r s'
  assume s: "write_log w p s" "ss_checks s = length (ss_writes s)" "bindS m f s = (r, s')"
  obtain r1 s1 where 1: "m s = (r1, s1)" by fastforce
  obtain made where m: "write_log w p s1" "prefix made ws" "ss_writes s1 = ss_writes s @ made"
    "\<forall>x. r1 = Inr x \<longrightarrow> made = ws \<and> ss_checks s1 = length (ss_writes s1)"
    by (rule sendsD [OF assms(1) s(1,2) 1])
  show "write_log w p s' \<and> (\<exists>made. prefix made (ws @ vs) \<and> ss_writes s' = ss_writes s @ made \<and>
           (\<forall>x. r = Inr x \<longrightarrow> made = ws @ vs \<and> ss_checks s' = length (ss_writes s')))"
  proof (cases r1)
    case (Inl e)
    with s(3) 1 m show ?thesis by (auto simp: bindS_def)
  next
    case (Inr x)
    with m have m1: "made = ws" "ss_checks s1 = length (ss_writes s1)" by auto
    from s(3) 1 Inr have f: "f x s1 = (r, s')" by (simp add: bindS_def)
    obtain more where "write_log w p s'" "prefix more vs" "ss_writes s' = ss_writes s1 @ more"
      "\<forall>y. r = Inr y \<longrightarrow> more = vs \<and> ss_checks s' = length (ss_writes s')"
      by (rule sendsD [OF assms(2) m(1) m1(2) f])
    with m(3) m1(1) show ?thesis by auto
  qed
qed

lemma sends_nothing: "sends w p [] (liftS r)"
  by (auto simp: sends_def liftS_def)

lemma sends_onlyif: "sends w p ws m \<Longrightarrow> sends w p (if b then ws else []) (onlyif b m)"
  by (simp add: onlyif_def sends_nothing)

lemma sends_one:
  assumes "\<And>x s. snd (g x s) = s"
  shows "sends w p [r] (bindS (still_current w p msg) (\<lambda>_. bindS (post_write w r) g))"
  unfolding sends_def
proof (intro allI impI, elim conjE)
  fix s out s'
  assume s: "write_log w p s" "ss_checks s = length (ss_writes s)"
    "bindS (still_current w p msg) (\<lambda>_. bindS (post_write w r) g) s = (out, s')"
  show "write_log w p s' \<and> (\<exists>made. prefix made [r] \<and> ss_writes s' = ss_writes s @ made \<and>
           (\<forall>x. out = Inr x \<longrightarrow> made = [r] \<and> ss_checks s' = length (ss_writes s')))"
  proof (cases "current_at w (ss_checks s) = Inr (pr_target p)")
    case False
    then obtain e where "still_current w p msg s = (Inl e, s\<lparr>ss_checks := Suc (ss_checks s)\<rparr>)"
      by (cases "current_at w (ss_checks s)") (auto simp: still_current_def failIf_def)
    with s show ?thesis by (auto simp: bindS_def write_log_def)
  next
    case True
    define s1 where "s1 = s\<lparr>ss_checks := Suc (ss_checks s), ss_sent := True, ss_writes := ss_writes s @ [r]\<rparr>"
    have log: "write_log w p s1" using s(1,2) True by (auto simp: write_log_def s1_def less_Suc_eq)
    have "bindS (post_write w r) g (s\<lparr>ss_checks := Suc (ss_checks s)\<rparr>) = (out, s')"
      using s(3) True by (simp add: bindS_def still_current_def failIf_def)
    then have "s' = s1"
      using assms by (auto simp: bindS_def post_write_def s1_def split: sum.splits) (metis snd_conv)+
    with log s(2) show ?thesis by (simp add: s1_def)
  qed
qed

lemma liftS_keeps: "snd (liftS r s) = s" "snd (bindS (liftS r) (\<lambda>x. liftS (f x)) s) = s"
  by (auto simp: liftS_def bindS_def split: sum.split)

definition write_plan :: "prepared_review \<Rightarrow> gitlab_write list" where
  "write_plan p =
     (let addr = mr_from_target (pr_target p) in
      (if pr_verdict p = RequestChanges then [RequestChangesOf (ma_project addr) (ma_number addr)] else []) @
      map (\<lambda>k. comment_write p k (case pc_position k of Some q \<Rightarrow> q | None \<Rightarrow> [])) (pr_comments p) @
      (if pr_verdict p = Approve then [ApproveAt (rt_head (pr_target p))] else []) @
      [SummaryNote (pr_summary p @ marker p)])"

lemma sends_comment: "sends w p [comment_write p k (case pc_position k of Some q \<Rightarrow> q | None \<Rightarrow> [])] (send_comment w p k)"
proof (cases "pc_position k")
  case (Some q)
  then have "send_comment w p k = bindS (still_current w p ''MR changed during publication'') (\<lambda>_.
     bindS (post_write w (comment_write p k q)) (\<lambda>r. liftS (failIf (hr_status r \<noteq> 201)
       (Message (''GitLab rejected the comment with HTTP '' @ show_nat (hr_status r))) (Inr ()))))"
    by (simp add: send_comment_def)
  with Some show ?thesis by (simp add: sends_one liftS_keeps)
next
  case None
  show ?thesis
    unfolding sends_def
  proof (intro allI impI, elim conjE)
    fix s r s'
    assume s: "write_log w p s" "send_comment w p k s = (r, s')"
    then have "s' = s\<lparr>ss_checks := Suc (ss_checks s)\<rparr>" "\<exists>e. r = Inl e"
      using None by (auto simp: send_comment_def bindS_def liftS_def still_current_def split: sum.splits dest: sym)
    with s(1) show "write_log w p s' \<and> (\<exists>made. prefix made [comment_write p k (case pc_position k of Some q \<Rightarrow> q | None \<Rightarrow> [])] \<and>
        ss_writes s' = ss_writes s @ made \<and> (\<forall>x. r = Inr x \<longrightarrow> made =
          [comment_write p k (case pc_position k of Some q \<Rightarrow> q | None \<Rightarrow> [])] \<and> ss_checks s' = length (ss_writes s')))"
      by (auto simp: write_log_def)
  qed
qed

lemma sends_comments:
  "sends w p (map (\<lambda>k. comment_write p k (case pc_position k of Some q \<Rightarrow> q | None \<Rightarrow> [])) ks) (send_comments w p ks)"
proof (induction ks)
  case (Cons k ks)
  from sends_bind [OF sends_comment this] show ?case by simp
qed (simp add: sends_nothing)

lemma sends_publish: "sends w p (write_plan p) (gitlab_publish a w p)"
  unfolding write_plan_def gitlab_publish_def Let_def
  by (intro sends_bind sends_onlyif sends_comments)
    (simp_all add: send_change_request_def send_approval_def send_summary_def Let_def sends_one liftS_keeps)

section \<open>Markers read back\<close>

lemma split_once_fresh:
  assumes "x \<notin> set a" "x \<notin> set q"
  shows "split_once (q @ x # r) (a @ (q @ x # r) @ b) = Some (a, b)"
  using assms(1)
proof (induction a)
  case Nil
  have "strip_prefix (q @ x # r) ((q @ x # r) @ b) = Some b" by (rule strip_prefix_append)
  then show ?case by (cases "(q @ x # r) @ b") auto
next
  case (Cons c a)
  have "strip_prefix (q @ x # r) ((c # a) @ (q @ x # r) @ b) = None"
  proof (rule ccontr)
    assume "strip_prefix (q @ x # r) ((c # a) @ (q @ x # r) @ b) \<noteq> None"
    then obtain z where z: "(c # a) @ (q @ x # r) @ b = (q @ x # r) @ z"
      unfolding not_None_eq strip_prefix_Some by blast
    have "((c # a) @ q) ! length q \<in> set ((c # a) @ q)" by (rule nth_mem) simp
    moreover have "(((c # a) @ q) @ (x # r @ b)) ! length q = ((c # a) @ q) ! length q"
      by (rule nth_append_left) simp
    ultimately have "((c # a) @ (q @ x # r) @ b) ! length q \<in> set ((c # a) @ q)" by simp
    moreover have "((q @ x # r) @ z) ! length q = x" by (simp add: nth_append)
    ultimately show False using z Cons.prems assms(2) by simp
  qed
  with Cons show ?case by simp
qed

lemma rsplit_once_mark:
  assumes "LF \<notin> set m"
  shows "rsplit_once MARK (b @ MARK @ m) = Some (b, m)"
proof -
  have mark: "rev MARK = rev ''<!-- diffz:'' @ LF # [LF]" by (simp add: MARK_def)
  have "LF \<notin> set (rev ''<!-- diffz:'')" by code_simp
  with assms have "split_once (rev MARK) (rev m @ rev MARK @ rev b) = Some (rev m, rev b)"
    unfolding mark by (intro split_once_fresh) simp
  then show ?thesis by (simp add: rsplit_once_def)
qed

lemma split_on_fields: "list_all (\<lambda>f. c \<notin> set f) fs \<Longrightarrow> fs \<noteq> [] \<Longrightarrow> split_on c (join_with [c] fs) = fs"
  by (rule split_on_join) (auto simp: list_all_iff)

definition json_laws :: "('v, 'z) json_api_scheme \<Rightarrow> bool" where
  "json_laws a \<longleftrightarrow> (\<forall>s. v_str a (v_of_str a s) = Some s) \<and>
     (\<forall>kvs k v. map_of kvs k = Some v \<longrightarrow> v_get a (v_object a kvs) k = v)"

text \<open>A note whose body ends in a marker with three or four clean fields.\<close>

lemma marked_note_fields:
  assumes "v_str a (v_get a n ''body'') = Some (b @ MARK @ join_with '':'' fs @ '' -->'')"
    and "length fs = 3 \<or> length fs = 4" "list_all (\<lambda>f. CHR '':'' \<notin> set f \<and> LF \<notin> set f) fs"
  shows "marked_note a n = Some (v_object a
        [(''id'', v_get a n ''id''), (''body'', v_of_str a b), (''commit_id'', v_of_str a (fs ! 1)),
         (''state'', v_of_str a (fs ! 2)), (''fingerprint'', v_of_str a (fs ! 0)),
         (''side'', if length fs = 4 then v_of_str a (fs ! 3) else v_null a),
         (''user'', v_object a [(''login'', v_get a (v_get a n ''author'') ''username'')])])"
proof -
  have "set (join_with sep gs) \<subseteq> \<Union> (set ` set gs) \<union> set sep" for gs and sep :: str
    by (induction sep gs rule: join_with.induct) auto
  from this [of "'':''" fs] have "set (join_with '':'' fs) \<subseteq> \<Union> (set ` set fs) \<union> {CHR '':''}" by simp
  moreover have "LF \<noteq> CHR '':''" "LF \<notin> set '' -->''" by code_simp+
  ultimately have "LF \<notin> set (join_with '':'' fs @ '' -->'')"
    using assms(3) by (fastforce simp: list_all_iff)
  from rsplit_once_mark [OF this] have "rsplit_once MARK (b @ MARK @ join_with '':'' fs @ '' -->'') =
    Some (b, join_with '':'' fs @ '' -->'')" .
  moreover have "strip_suffix '' -->'' (join_with '':'' fs @ '' -->'') = Some (join_with '':'' fs)"
    by (simp add: strip_suffix_Some)
  moreover have "split_on (CHR '':'') (join_with '':'' fs) = fs"
    using assms(2,3) by (intro split_on_fields) (auto simp: list_all_iff)
  ultimately show ?thesis using assms(1,2) by (simp add: marked_note_def Let_def)
qed

lemma hex_clean: "list_all is_ascii_hexdigit s \<Longrightarrow> CHR '':'' \<notin> set s \<and> LF \<notin> set s"
proof -
  have "\<not> is_ascii_hexdigit (CHR '':'')" "\<not> is_ascii_hexdigit LF" by code_simp+
  then show "list_all is_ascii_hexdigit s \<Longrightarrow> CHR '':'' \<notin> set s \<and> LF \<notin> set s" by (auto simp: list_all_iff)
qed

lemma fingerprint_clean:
  assumes "verify_review c rules p"
  shows "CHR '':'' \<notin> set (fingerprint p) \<and> LF \<notin> set (fingerprint p)"
proof (rule hex_clean)
  have "is_ascii_hexdigit (hex_lower d)" if "d < 16" for d
    using that by (auto simp: hex_lower_def is_ascii_hexdigit_def hex_value_def Let_def)
  then have "list_all is_ascii_hexdigit (hex_byte b)" for b
    by (simp add: hex_byte_def byte_hex)
  then show "list_all is_ascii_hexdigit (fingerprint p)"
    using assms by (auto simp: verify_review_def compute_fingerprint_def digest_def list_all_iff)
qed

lemma state_clean: "CHR '':'' \<notin> set (remote_state v) \<and> LF \<notin> set (remote_state v)"
  by (cases v) (simp_all add: remote_state_def)

lemma side_clean: "CHR '':'' \<notin> set (side_api s) \<and> LF \<notin> set (side_api s)"
  by (cases s) (simp_all add: side_api_def)

lemma trim_marker: "trim_end_text '' -->'' (marker p) = MARK @ fingerprint p @ '':'' @ rt_head (pr_target p) @ '':'' @ remote_state (pr_verdict p)"
proof -
  let ?m = "MARK @ fingerprint p @ '':'' @ rt_head (pr_target p) @ '':'' @ remote_state (pr_verdict p)"
  have "strip_suffix '' -->'' (?m @ '' -->'') = Some ?m" by (simp only: strip_suffix_Some)
  moreover have "strip_suffix '' -->'' ?m = None"
    by (cases "pr_verdict p") (simp_all add: strip_suffix_def remote_state_def)
  ultimately show ?thesis by (simp add: marker_def trim_end_text.simps)
qed

definition doc_note :: "str \<Rightarrow> str \<Rightarrow> doc" where
  "doc_note body user = DObj [(''id'', DNum 9), (''body'', DStr body), (''author'', DObj [(''username'', DStr user)])]"

lemma doc_laws: "json_laws (doc_api decode)"
  by (simp add: json_laws_def doc_api_def doc_get_def)

definition lab_review :: prepared_review where
  "lab_review = (let p = (sample_review ''fine'')\<lparr>pr_target := lab_target\<lparr>rt_head := ''abc1''\<rparr>, pr_verdict := Approve\<rparr> in
     p\<lparr>fingerprint := compute_fingerprint sample_review_codec (gitlab_rules hex_codec) p\<rparr>)"

lemma lab_review_verifies: "verify_review sample_review_codec (gitlab_rules hex_codec) lab_review"
  unfolding lab_review_def Let_def
  by (rule gitlab_frozen.fingerprint_verifies) (simp add: gitlab_rules_def lab_target_def)

definition note_decode :: "bytes \<Rightarrow> doc option" where
  "note_decode b = Some (doc_note b ''me'')"

definition willing_remote :: "prepared_review \<Rightarrow> gitlab_remote" where
  "willing_remote p = \<lparr>current_at = (\<lambda>_. Inr (pr_target p)),
     answer_at = (\<lambda>_. Inr \<lparr>hr_status = 201, hr_headers = [], hr_body = pr_summary p @ marker p\<rparr>)\<rparr>"

section \<open>Properties\<close>

text \<open>
  Claim C14. A GitLab review is posted by the plan and at most once: whatever the
  server answers, the requests made are a first part of the planned ones, in
  order and each once, and each was made right after the server reported exactly
  the frozen target; a rejected outcome means that no request was made at all,
  and an accepted one that all of them were.
\<close>

theorem gitlab_send_plan:
  assumes "gitlab_send a c j disp w p = (outcome, s)"
  shows "prefix (ss_writes s) (write_plan p) \<and>
     (\<forall>i < length (ss_writes s). current_at w i = Inr (pr_target p)) \<and>
     (\<forall>code. outcome = SendRejected code \<longrightarrow> ss_writes s = []) \<and>
     (\<forall>v. outcome = Accepted v \<longrightarrow> ss_writes s = write_plan p)"
proof (cases "verify_review c (gitlab_rules j) p")
  case True
  obtain r s1 where r: "gitlab_publish a w p start_state = (r, s1)" by fastforce
  have start: "write_log w p start_state" "ss_checks start_state = length (ss_writes start_state)"
    by (simp_all add: write_log_def start_state_def)
  obtain made where m: "write_log w p s1" "prefix made (write_plan p)" "ss_writes s1 = ss_writes start_state @ made"
    "\<forall>x. r = Inr x \<longrightarrow> made = write_plan p \<and> ss_checks s1 = length (ss_writes s1)"
    by (rule sendsD [OF sends_publish start r])
  then have w: "ss_writes s1 = made" by (simp add: start_state_def)
  have "s1 = s" using assms True r by (auto simp: gitlab_send_def split: sum.splits)
  moreover have "(\<forall>code. outcome = SendRejected code \<longrightarrow> \<not> ss_sent s1) \<and> (\<forall>v. outcome = Accepted v \<longrightarrow> (\<exists>x. r = Inr x))"
    using assms True r by (auto simp: gitlab_send_def split: sum.splits if_splits)
  ultimately show ?thesis using m w by (auto simp: write_log_def)
next
  case False
  with assms show ?thesis by (auto simp: gitlab_send_def start_state_def)
qed

theorem gitlab_send_plan_witness:
  "\<exists>v s. gitlab_send (doc_api note_decode) sample_review_codec hex_codec (\<lambda>_. []) (willing_remote lab_review) lab_review =
     (Accepted v, s) \<and> ss_writes s = [ApproveAt ''abc1'', SummaryNote (''fine'' @ marker lab_review)]"
proof -
  have "case gitlab_publish (doc_api note_decode) (willing_remote lab_review) lab_review start_state of
      (Inr v, s) \<Rightarrow> True | (Inl e, s) \<Rightarrow> False" by code_simp
  then obtain v s where "gitlab_send (doc_api note_decode) sample_review_codec hex_codec (\<lambda>_. []) (willing_remote lab_review) lab_review =
      (Accepted v, s)" using lab_review_verifies by (auto simp: gitlab_send_def split: sum.splits)
  moreover from gitlab_send_plan [OF this] have "ss_writes s = write_plan lab_review" by blast
  ultimately show ?thesis by (simp add: write_plan_def lab_review_def sample_review_def Let_def lab_target_def)
qed

text \<open>
  What GitLab's writer posts is what reconciliation recognises: the
  summary note of a verified review reads back as a review whose metadata
  matches, and the note of each comment as its text, side and fingerprint.
\<close>

theorem gitlab_marker_roundtrip:
  assumes "json_laws a" "verify_review c rules p" "list_all is_ascii_hexdigit (rt_head (pr_target p))"
    and "v_str a (v_get a n ''body'') = Some (pr_summary p @ marker p)"
    and "v_str a (v_get a (v_get a n ''author'') ''username'') = Some (rt_account (pr_target p))"
    and "comment_write p k pos = Discussion posted pos" "v_str a (v_get a m ''body'') = Some posted"
  shows "(\<exists>v. marked_note a n = Some v \<and> matches_metadata (value_api.truncate a) p v True) \<and>
     (\<exists>v. marked_note a m = Some v \<and> v_str a (v_get a v ''body'') = Some (pc_body k) \<and>
        v_str a (v_get a v ''side'') = Some (side_api (pc_side k)) \<and>
        v_str a (v_get a v ''fingerprint'') = Some (fingerprint p))"
proof
  note clean = fingerprint_clean [OF assms(2)] hex_clean [OF assms(3)] state_clean [of "pr_verdict p"] side_clean [of "pc_side k"]
  let ?fs = "[fingerprint p, rt_head (pr_target p), remote_state (pr_verdict p)]"
  note laws = assms(1) [unfolded json_laws_def]
  have "v_str a (v_get a n ''body'') = Some (pr_summary p @ MARK @ join_with '':'' ?fs @ '' -->'')"
    using assms(4) by (simp add: marker_def)
  from marked_note_fields [OF this] clean laws assms(5)
  show "\<exists>v. marked_note a n = Some v \<and> matches_metadata (value_api.truncate a) p v True"
    by (simp add: matches_metadata_def value_api.defs)
  have "posted = pc_body k @ MARK @ join_with '':'' (?fs @ [side_api (pc_side k)]) @ '' -->''"
    using assms(6) by (simp add: comment_write_def trim_marker)
  with assms(7) have "v_str a (v_get a m ''body'') = Some (pc_body k @ MARK @ join_with '':'' (?fs @ [side_api (pc_side k)]) @ '' -->'')"
    by simp
  from marked_note_fields [OF this] clean laws
  show "\<exists>v. marked_note a m = Some v \<and> v_str a (v_get a v ''body'') = Some (pc_body k) \<and>
        v_str a (v_get a v ''side'') = Some (side_api (pc_side k)) \<and>
        v_str a (v_get a v ''fingerprint'') = Some (fingerprint p)"
    by simp
qed

theorem gitlab_marker_roundtrip_witness:
  "\<exists>v. marked_note (doc_api note_decode) (doc_note (''fine'' @ marker lab_review) ''me'') = Some v \<and>
     matches_metadata (value_api.truncate (doc_api note_decode)) lab_review v True"
proof -
  let ?a = "doc_api note_decode" and ?n = "doc_note (''fine'' @ marker lab_review) ''me''"
  let ?k = "\<lparr>pc_draft = DraftId ''d1'', pc_version = 3, pc_path = ''a.rs'', pc_position = Some ''q'', pc_body = ''why'',
    pc_side = SideRight, pc_start_line = 5, pc_line = 6, pc_file_level = False\<rparr>"
  obtain posted where posted: "comment_write lab_review ?k ''q'' = Discussion posted ''q''" by (simp add: comment_write_def)
  have "list_all is_ascii_hexdigit (rt_head (pr_target lab_review))" by code_simp
  moreover have "v_str ?a (v_get ?a ?n ''body'') = Some (pr_summary lab_review @ marker lab_review)"
    "v_str ?a (v_get ?a (v_get ?a ?n ''author'') ''username'') = Some (rt_account (pr_target lab_review))"
    by (simp_all add: doc_api_def doc_get_def doc_note_def lab_review_def sample_review_def Let_def lab_target_def sample_target_def)
  moreover have "v_str ?a (v_get ?a (doc_note posted ''me'') ''body'') = Some posted"
    by (simp add: doc_api_def doc_get_def doc_note_def)
  ultimately show ?thesis
    using gitlab_marker_roundtrip [OF doc_laws lab_review_verifies, of note_decode ?n ?k "''q''" posted "doc_note posted ''me''"] posted
    by blast
qed

text \<open>
  Claim C15. A GitHub review is one request or none: a rejection is reported only
  when nothing was posted or the server refused it with a client error other than
  a timeout, an acceptance only for status 200 or 201 with a readable answer, and
  the posted payload is the fingerprinted one.
\<close>

theorem github_send_outcome:
  assumes "github_send a c j disp post p = (outcome, posted)"
  shows "(posted = [] \<or> (\<exists>payload. posted = [(pr_root (pr_from_target (pr_target p)) @ ''/reviews'', payload)] \<and>
        from_slice a (rules_payload (github_rules j) p) = Some payload \<and> verify_review c (github_rules j) p)) \<and>
     (\<forall>code. outcome = SendRejected code \<longrightarrow> posted = [] \<or>
        (\<exists>e b r. posted = [(e, b)] \<and> post e b = Inr r \<and> hr_status r = code \<and> 400 \<le> code \<and> code < 500 \<and> code \<noteq> 408)) \<and>
     (\<forall>v. outcome = Accepted v \<longrightarrow> (\<exists>e b r. posted = [(e, b)] \<and> post e b = Inr r \<and> hr_status r \<in> {200, 201} \<and>
        from_slice a (hr_body r) = Some v))"
  using assms by (auto simp: github_send_def Let_def split: if_splits option.splits sum.splits)

theorem github_send_outcome_witness:
  "\<exists>posted. github_send (doc_api (\<lambda>_. Some DNull)) sample_review_codec hex_codec (\<lambda>_. [])
     (\<lambda>e b. Inr \<lparr>hr_status = 422, hr_headers = [], hr_body = []\<rparr>) (sample_review []) = (SendRejected 422, posted) \<and>
     (posted = [] \<or> (\<exists>e b. posted = [(e, b)]))"
proof -
  let ?send = "github_send (doc_api (\<lambda>_. Some DNull)) sample_review_codec hex_codec (\<lambda>_. [])
     (\<lambda>e b. Inr \<lparr>hr_status = 422, hr_headers = [], hr_body = []\<rparr>) (sample_review [])"
  have "fst ?send = SendRejected 422" by (simp add: github_send_def Let_def doc_api_def)
  then obtain posted where p: "?send = (SendRejected 422, posted)" 
    by (cases ?send) (simp only: fst_conv)
  have "posted = [] \<or> (\<exists>e b. posted = [(e, b)])"
    using github_send_outcome [OF p, THEN conjunct1] by (elim disjE exE conjE) simp_all
  with p show ?thesis by (intro exI [of _ posted] conjI)
qed

end
