(* ===== verification/Rebuild.thy ===== *)
theory Rebuild
  imports Http
begin

text \<open>
  Patches that are rebuilt from a provider's file list: \<open>patch_from_files\<close> of
  \<open>crates/adapters/src/github.rs\<close>, used when GitHub refuses the whole diff, and
  \<open>patch_from_diffs\<close> of \<open>gitlab.rs\<close>, for a compare. Both print Git headers around
  the hunks of the listing, with paths quoted as Git quotes them.
\<close>

section \<open>Quoted paths\<close>

definition quote_plain :: "char \<Rightarrow> bool" where
  "quote_plain b \<longleftrightarrow> 0x20 \<le> byte_of b \<and> byte_of b < (0x7f :: nat) \<and> b \<noteq> QUOTE \<and> b \<noteq> BACKSLASH"

definition quote_path_byte :: "char \<Rightarrow> bytes" where
  "quote_path_byte b =
     (let n = byte_of b in
      if b = QUOTE then [BACKSLASH, QUOTE] else if b = BACKSLASH then [BACKSLASH, BACKSLASH]
      else if b = TAB then [BACKSLASH, CHR ''t''] else if b = LF then [BACKSLASH, CHR ''n'']
      else if 0x20 \<le> n \<and> n \<le> (0x7e :: nat) then [b]
      else [BACKSLASH, digit_char (n div 64), digit_char (n div 8 mod 8), digit_char (n mod 8)])"

definition quote_path :: "str \<Rightarrow> str \<Rightarrow> str" where
  "quote_path pre path =
     (if list_all quote_plain path then pre @ path
      else [QUOTE] @ pre @ concat (map quote_path_byte path) @ [QUOTE])"

section \<open>GitHub file lists\<close>

definition file_header :: "str \<Rightarrow> str \<Rightarrow> str" where
  "file_header old new = ''diff --git '' @ quote_path ''a/'' old @ '' '' @ quote_path ''b/'' new @ [LF]"

definition side_header :: "bool \<Rightarrow> bool \<Rightarrow> str \<Rightarrow> str \<Rightarrow> str" where
  "side_header no_old no_new old new =
     ''--- '' @ (if no_old then ''/dev/null'' else quote_path ''a/'' old) @ [LF] @
     ''+++ '' @ (if no_new then ''/dev/null'' else quote_path ''b/'' new) @ [LF]"

definition with_newline :: "str \<Rightarrow> str" where
  "with_newline s = (if ends_with [LF] s then s else s @ [LF])"

definition rebuild_file :: "('v, 'z) json_api_scheme \<Rightarrow> 'v \<Rightarrow> bytes" where
  "rebuild_file a f =
     (case v_str a (v_get a f ''filename'') of None \<Rightarrow> [] | Some name \<Rightarrow>
      (let prev = str_or name (v_str a (v_get a f ''previous_filename''));
           status = str_or ''modified'' (v_str a (v_get a f ''status''));
           changes = (case v_u64 a (v_get a f ''changes'') of Some n \<Rightarrow> n | None \<Rightarrow> 0);
           patch = v_str a (v_get a f ''patch'');
           verb = (if status = ''copied'' then ''copy'' else ''rename'') in
       file_header prev name @
       (if status = ''added'' then ''new file mode 100644'' @ [LF]
        else if status = ''removed'' then ''deleted file mode 100644'' @ [LF]
        else if (status = ''renamed'' \<or> status = ''copied'') \<and> prev \<noteq> name then
          verb @ '' from '' @ quote_path [] prev @ [LF] @ verb @ '' to '' @ quote_path [] name @ [LF]
        else []) @
       (if patch = None \<and> 0 < changes then show_nat changes @ ''-line change; GitHub omitted its text'' @ [LF] else []) @
       (if patch \<noteq> None \<or> 0 < changes then side_header (status = ''added'') (status = ''removed'') prev name else []) @
       (case patch of Some p \<Rightarrow> with_newline p | None \<Rightarrow> [])))"

definition patch_from_files :: "('v, 'z) json_api_scheme \<Rightarrow> 'v list \<Rightarrow> bytes" where
  "patch_from_files a fs = concat (map (rebuild_file a) fs)"

section \<open>GitLab compare lists\<close>

definition rebuild_diff :: "('v, 'z) json_api_scheme \<Rightarrow> 'v \<Rightarrow> bytes" where
  "rebuild_diff a d =
     (case (v_str a (v_get a d ''old_path''), v_str a (v_get a d ''new_path'')) of
        (Some old, Some new) \<Rightarrow>
          (let mode = (\<lambda>k. str_or ''100644'' (v_str a (v_get a d k)));
               diff = str_or [] (v_str a (v_get a d ''diff''));
               omitted = (diff = [] \<and> (is_true a d ''too_large'' \<or> is_true a d ''collapsed'')) in
           file_header old new @
           (if is_true a d ''new_file'' then ''new file mode '' @ mode ''b_mode'' @ [LF]
            else if is_true a d ''deleted_file'' then ''deleted file mode '' @ mode ''a_mode'' @ [LF]
            else if mode ''a_mode'' \<noteq> mode ''b_mode'' then
              ''old mode '' @ mode ''a_mode'' @ [LF] @ ''new mode '' @ mode ''b_mode'' @ [LF]
            else []) @
           (if is_true a d ''renamed_file'' \<and> old \<noteq> new then
              ''rename from '' @ quote_path [] old @ [LF] @ ''rename to '' @ quote_path [] new @ [LF] else []) @
           (if omitted then ''GitLab omitted its text'' @ [LF] else []) @
           (if diff \<noteq> [] \<or> omitted
            then side_header (is_true a d ''new_file'') (is_true a d ''deleted_file'') old new else []) @
           (if diff = [] then [] else with_newline diff))
      | _ \<Rightarrow> [])"

definition patch_from_diffs :: "('v, 'z) json_api_scheme \<Rightarrow> 'v list \<Rightarrow> bytes" where
  "patch_from_diffs a ds = concat (map (rebuild_diff a) ds)"

section \<open>Quoted paths read back\<close>

lemma unquote_path_byte: "unquote out (quote_path_byte b @ r) = unquote (out @ [b]) r"
proof -
  have b: "of_byte (byte_of b) = b" by simp
  have "byte_of b < (256 :: nat)" by simp
  note o = unquote_octal [OF this, of out r, unfolded b]
  show ?thesis
  proof (cases "b \<in> {QUOTE, BACKSLASH, TAB, LF}")
    case True
    moreover have "of_byte 9 = TAB" "of_byte 10 = LF" by code_simp+
    ultimately show ?thesis by (auto simp: quote_path_byte_def is_octal_def simple_escape_def)
  next
    case False
    then have "quote_path_byte b = [b] \<or> quote_path_byte b = [BACKSLASH, digit_char (byte_of b div 64),
        digit_char (byte_of b div 8 mod 8), digit_char (byte_of b mod 8)]" by (simp add: quote_path_byte_def Let_def)
    with False o show ?thesis by (elim disjE) simp_all
  qed
qed

lemma unquote_path_bytes: "unquote out (concat (map quote_path_byte p) @ r) = unquote (out @ p) r"
  by (induction p arbitrary: out) (simp_all add: unquote_path_byte)

lemma unquote_plain: "list_all quote_plain s \<Longrightarrow> unquote out (s @ r) = unquote (out @ s) r"
  by (induction s arbitrary: out) (simp_all add: quote_plain_def)

text \<open>
  A path of a rebuilt patch header reads back as the path: for any
  prefix the headers use, the Git reader of the quoted text gives the prefixed
  path whenever that is a valid path, whatever bytes it holds.
\<close>

theorem quote_path_roundtrip:
  assumes "pre \<in> {[], ''a/'', ''b/''}" "path_ok (RepoPath (pre @ path))"
  shows "from_git_token (quote_path pre path) = Inr (RepoPath (pre @ path))"
proof (cases "list_all quote_plain path")
  case True
  have "\<not> starts_with [QUOTE] (pre @ path)"
    using True assms(1) by (cases path) (auto simp: starts_with_iff quote_plain_def)
  with True assms(2) show ?thesis by (simp add: quote_path_def from_git_token_def path_ok_def)
next
  case False
  have "list_all quote_plain pre" using assms(1) by (auto simp: quote_plain_def)
  then have "unquote [] (pre @ concat (map quote_path_byte path)) = Inr (pre @ path)"
    using unquote_plain [of pre "[]" "concat (map quote_path_byte path)"] unquote_path_bytes [of pre path "[]"] by simp
  with False assms(2) show ?thesis
    by (simp add: quote_path_def from_git_token_def starts_with_iff path_ok_def butlast_append)
qed

theorem quote_path_roundtrip_witness:
  "from_git_token (quote_path ''b/'' (''x'' @ [QUOTE, TAB] @ ''y'')) = Inr (RepoPath (''b/x'' @ [QUOTE, TAB] @ ''y''))"
proof -
  have "path_ok (RepoPath (''b/'' @ ''x'' @ [QUOTE, TAB] @ ''y''))" by code_simp
  from quote_path_roundtrip [OF _ this] show ?thesis by simp
qed

end
