(* ===== verification/Releases.thy ===== *)
theory Releases
  imports Snapshot
begin

text \<open>
  The release timeline of a compare, \<open>crates/adapters/src/releases.rs\<close>: the
  first-parent path is cut at its tags into steps, and every commit of the range is
  given to the step that first reaches it. A \<open>HashMap\<close> that is collected from a
  list is \<open>map_of\<close> of the reversed list, since a later entry replaces an earlier one.
\<close>

section \<open>Steps\<close>

definition MAX_RELEASES :: nat where
  "MAX_RELEASES = 30"

record step =
  step_tag :: "str option"
  step_from :: str
  step_to :: str

type_synonym parent_map = "str \<Rightarrow> str option option"

definition parents_of :: "(str \<times> str option) list \<Rightarrow> parent_map" where
  "parents_of rng = map_of (rev rng)"

definition next_commit :: "parent_map \<Rightarrow> nat \<Rightarrow> str list \<Rightarrow> str \<Rightarrow> str option" where
  "next_commit parents limit path sha =
     (case parents sha of
        Some (Some p) \<Rightarrow> if parents p \<noteq> None \<and> length path \<le> limit then Some p else None
      | _ \<Rightarrow> None)"

function walk :: "parent_map \<Rightarrow> nat \<Rightarrow> str option \<Rightarrow> str list \<Rightarrow> str list" where
  "walk parents limit at_commit path =
     (case at_commit of
        None \<Rightarrow> path
      | Some sha \<Rightarrow>
          (let path' = path @ [sha] in walk parents limit (next_commit parents limit path' sha) path'))"
  by pat_completeness auto
termination
  by (relation "measure (\<lambda>(_, limit, at_commit, path).
        case at_commit of None \<Rightarrow> 0 | Some _ \<Rightarrow> Suc (Suc limit - length path))")
    (auto simp: next_commit_def split: option.splits if_splits)

declare walk.simps [simp del]

definition first_parent_path :: "(str \<times> str option) list \<Rightarrow> str \<Rightarrow> str list" where
  "first_parent_path rng head =
     (let parents = parents_of rng in
      rev (walk parents (length rng) (if parents head \<noteq> None then Some head else None) []))"

definition position_in :: "str list \<Rightarrow> str \<Rightarrow> nat option" where
  "position_in path sha = map_of (rev (zip path [0..<length path])) sha"

definition place_tag :: "str list \<Rightarrow> str list \<Rightarrow> str \<times> str \<Rightarrow> (nat \<rightharpoonup> str) \<Rightarrow> (nat \<rightharpoonup> str)" where
  "place_tag path released tag at_index =
     (case position_in path (snd tag) of
        None \<Rightarrow> at_index
      | Some i \<Rightarrow>
          (case at_index i of
             Some kept \<Rightarrow>
               if kept \<in> set released \<or> fst tag \<notin> set released then at_index else at_index(i \<mapsto> fst tag)
           | None \<Rightarrow> at_index(i \<mapsto> fst tag)))"

definition placed_tags :: "str list \<Rightarrow> (str \<times> str) list \<Rightarrow> str list \<Rightarrow> (nat \<times> str) list" where
  "placed_tags path tags released =
     (let at_index = fold (place_tag path released) tags (\<lambda>_. None) in
      List.map_filter (\<lambda>i. map_option (Pair i) (at_index i)) [0..<length path])"

fun tag_steps :: "str list \<Rightarrow> str \<Rightarrow> (nat \<times> str) list \<Rightarrow> step list \<times> str" where
  "tag_steps path base [] = ([], base)"
| "tag_steps path base ((i, name) # r) =
     (case tag_steps path (path ! i) r of
        (ss, last_from) \<Rightarrow> (\<lparr>step_tag = Some name, step_from = base, step_to = path ! i\<rparr> # ss, last_from))"

definition steps :: "(str \<times> str option) list \<Rightarrow> str \<Rightarrow> str \<Rightarrow> (str \<times> str) list \<Rightarrow> str list \<Rightarrow> step list \<times> str list" where
  "steps rng base head tags released =
     (let path = first_parent_path rng head;
          placed = placed_tags path tags released;
          cut = length placed - MAX_RELEASES;
          (ss, from) = tag_steps path base (drop cut placed) in
      (ss @ (if path \<noteq> [] \<and> ss \<noteq> [] \<and> last path \<noteq> from
             then [\<lparr>step_tag = None, step_from = from, step_to = last path\<rparr>] else []),
       map snd (take cut placed)))"

section \<open>Members\<close>

text \<open>The stack grows at its head; \<open>extend\<close> pushes the parents so that the last one is popped first.\<close>

function reach_new :: "(str \<times> str list) list \<Rightarrow> str list \<Rightarrow> str list \<Rightarrow> str list \<Rightarrow> str list \<times> str list" where
  "reach_new rng seen added [] = (seen, added)"
| "reach_new rng seen added (sha # stack) =
     (case map_of (rev rng) sha of
        None \<Rightarrow> reach_new rng seen added stack
      | Some up \<Rightarrow>
          if sha \<in> set seen then reach_new rng seen added stack
          else reach_new rng (sha # seen) (added @ [sha]) (rev up @ stack))"
  by pat_completeness auto
termination
proof (relation "(\<lambda>(rng, seen, added, stack). card (set (map fst rng) - set seen)) <*mlex*>
    measure (\<lambda>(rng, seen, added, stack). length stack)", goal_cases)
  case (4 rng seen added sha stack up)
  have "sha \<in> fst ` set rng" using map_of_SomeD [OF 4(1)] by force
  with 4(2) have "card (fst ` set rng - set (sha # seen)) < card (fst ` set rng - set seen)"
    by (intro psubset_card_mono) auto
  then show ?case by (intro mlex_less) simp
qed (auto intro: wf_mlex mlex_leq simp: mlex_leq)

fun members_loop :: "(str \<times> str list) list \<Rightarrow> str list \<Rightarrow> step list \<Rightarrow> str list list" where
  "members_loop rng seen [] = []"
| "members_loop rng seen (s # ss) =
     (case reach_new rng seen [] [step_to s] of (seen', added) \<Rightarrow> added # members_loop rng seen' ss)"

definition members :: "(str \<times> str list) list \<Rightarrow> step list \<Rightarrow> str list list" where
  "members rng ss = members_loop rng [] ss"

definition folded_warning :: "str list \<Rightarrow> str option" where
  "folded_warning fs =
     (if fs = [] then None
      else Some (''This range holds '' @ show_nat (length fs + MAX_RELEASES) @
        '' release tags; the timeline keeps the newest '' @ show_nat MAX_RELEASES @ '' and folds the oldest '' @
        show_nat (length fs) @ '' ('' @ hd fs @ '' to '' @ last fs @ '') into its first step.''))"

section \<open>Every step starts where the one before ends\<close>

lemma position_in_Some: "position_in path sha = Some i \<Longrightarrow> i < length path \<and> path ! i = sha"
  unfolding position_in_def by (drule map_of_SomeD) (auto simp: set_zip)

lemma placed_at:
  assumes "\<forall>i name. at_index i = Some name \<longrightarrow> i < length path \<and> (name, path ! i) \<in> T"
    and "fold (place_tag path released) tags at_index i = Some name"
  shows "i < length path \<and> (name, path ! i) \<in> T \<union> set tags"
  using assms
proof (induction tags arbitrary: at_index T)
  case (Cons t tags)
  have "\<forall>i name. place_tag path released t at_index i = Some name \<longrightarrow> i < length path \<and> (name, path ! i) \<in> insert t T"
    using Cons.prems(1) by (auto simp: place_tag_def split: option.splits if_splits dest!: position_in_Some)
  from Cons.IH [OF this] Cons.prems(2) show ?case by simp
qed auto

lemma placed_tags_in:
  assumes "(i, name) \<in> set (placed_tags path tags released)"
  shows "i < length path \<and> (name, path ! i) \<in> set tags"
  using assms placed_at [of "\<lambda>_. None" path "{}" released tags i name]
  by (auto simp: placed_tags_def Let_def List.map_filter_def)

lemma map_filter_keys: "map fst (List.map_filter (\<lambda>i. map_option (Pair i) (f i)) is) = filter (\<lambda>i. f i \<noteq> None) is"
  by (induction "is") (auto simp: List.map_filter_def)

lemma placed_tags_sorted: "sorted_wrt (<) (map fst (placed_tags path tags released))"
  by (simp add: placed_tags_def Let_def map_filter_keys sorted_wrt_filter)

fun chained :: "str \<Rightarrow> step list \<Rightarrow> bool" where
  "chained a [] \<longleftrightarrow> True"
| "chained a (s # ss) \<longleftrightarrow> step_from s = a \<and> chained (step_to s) ss"

lemma chained_snoc: "chained a (ss @ [s]) \<longleftrightarrow> chained a ss \<and> step_from s = (if ss = [] then a else step_to (last ss))"
  by (induction ss arbitrary: a) auto

lemma tag_steps_chained:
  assumes "tag_steps path base placed = (ss, end)"
  shows "chained base ss \<and> end = (if ss = [] then base else step_to (last ss)) \<and>
    map (\<lambda>s. (step_tag s, step_to s)) ss = map (\<lambda>(i, name). (Some name, path ! i)) placed"
  using assms
proof (induction path base placed arbitrary: ss "end" rule: tag_steps.induct)
  case (2 path base i name r)
  obtain ss' end' where r: "tag_steps path (path ! i) r = (ss', end')" by fastforce
  from "2.IH" [OF r] 2(2) r show ?case by auto
qed simp

lemma walk_prefix: "prefix path (walk parents limit c path)"
proof (induction parents limit c path rule: walk.induct)
  case (1 parents limit c path)
  show ?case
  proof (cases c)
    case None
    then show ?thesis by (simp add: walk.simps)
  next
    case (Some sha)
    with 1 have "prefix (path @ [sha]) (walk parents limit (next_commit parents limit (path @ [sha]) sha) (path @ [sha]))"
      by simp
    then have "prefix path (walk parents limit (next_commit parents limit (path @ [sha]) sha) (path @ [sha]))"
      by (rule append_prefixD)
    with Some show ?thesis by (subst walk.simps) (simp add: Let_def)
  qed
qed

lemma path_ends_at_head: "first_parent_path rng head \<noteq> [] \<Longrightarrow> last (first_parent_path rng head) = head"
  using walk_prefix [of "[head]" "parents_of rng" "length rng"
      "next_commit (parents_of rng) (length rng) [head] head"]
  by (auto simp: first_parent_path_def Let_def walk.simps [of _ _ "Some head"] walk.simps [of _ _ None] last_rev prefix_def)

lemma path_limit: "length path \<le> limit \<Longrightarrow> length (walk parents limit c path) \<le> Suc limit"
proof (induction parents limit c path rule: walk.induct)
  case (1 parents limit c path)
  show ?case
  proof (cases c)
    case None
    with 1 show ?thesis by (simp add: walk.simps)
  next
    case (Some sha)
    show ?thesis
    proof (cases "next_commit parents limit (path @ [sha]) sha")
      case None
      then have "walk parents limit (next_commit parents limit (path @ [sha]) sha) (path @ [sha]) = path @ [sha]"
        by (subst walk.simps) simp
      with Some 1(2) show ?thesis by (subst walk.simps) (simp add: Let_def)
    next
      case (Some p)
      then have "length (path @ [sha]) \<le> limit" by (auto simp: next_commit_def split: option.splits if_splits)
      with 1(1) [OF \<open>c = Some sha\<close> refl] \<open>c = Some sha\<close> show ?thesis by (subst walk.simps) (simp add: Let_def)
    qed
  qed
qed

section \<open>What the steps reach\<close>

definition edge :: "(str \<times> str list) list \<Rightarrow> str \<Rightarrow> str \<Rightarrow> bool" where
  "edge rng a b \<longleftrightarrow> (\<exists>up. map_of (rev rng) a = Some up \<and> b \<in> set up \<and> map_of (rev rng) b \<noteq> None)"

definition reachable :: "(str \<times> str list) list \<Rightarrow> str \<Rightarrow> str set" where
  "reachable rng a = {b. map_of (rev rng) a \<noteq> None \<and> (edge rng)\<^sup>*\<^sup>* a b}"

lemma reachable_step:
  assumes "edge rng a b"
  shows "reachable rng b \<subseteq> reachable rng a"
proof
  fix x assume "x \<in> reachable rng b"
  then have "(edge rng)\<^sup>*\<^sup>* a x" using converse_rtranclp_into_rtranclp [of "edge rng", OF assms] by (simp add: reachable_def)
  with assms show "x \<in> reachable rng a" by (auto simp: reachable_def edge_def)
qed

lemma reach_new_sound:
  assumes "reach_new rng seen added stack = (seen', added')"
  shows "set seen \<subseteq> set seen' \<and> set seen' \<subseteq> set seen \<union> \<Union> (reachable rng ` set stack) \<and>
    {a \<in> set stack. map_of (rev rng) a \<noteq> None} \<subseteq> set seen' \<and>
    (\<exists>new. added' = added @ new \<and> set seen' = set seen \<union> set new \<and> set new \<inter> set seen = {} \<and> distinct new)"
  using assms
proof (induction rng seen added stack rule: reach_new.induct)
  case (2 rng seen added sha stack)
  show ?case
  proof (cases "map_of (rev rng) sha")
    case None
    with 2 show ?thesis by auto
  next
    case (Some up)
    show ?thesis
    proof (cases "sha \<in> set seen")
      case True
      with Some 2 show ?thesis by auto
    next
      case False
      with Some 2(4) have "reach_new rng (sha # seen) (added @ [sha]) (rev up @ stack) = (seen', added')" by simp
      from 2(3) [OF Some False this] obtain new where ih: "set (sha # seen) \<subseteq> set seen'"
        "set seen' \<subseteq> set (sha # seen) \<union> \<Union> (reachable rng ` set (rev up @ stack))"
        "{a \<in> set (rev up @ stack). map_of (rev rng) a \<noteq> None} \<subseteq> set seen'"
        "added' = (added @ [sha]) @ new" "set seen' = set (sha # seen) \<union> set new" "set new \<inter> set (sha # seen) = {}" "distinct new"
        by blast
      have up: "reachable rng b \<subseteq> reachable rng sha" if "b \<in> set up" for b
      proof (cases "map_of (rev rng) b")
        case None
        then show ?thesis by (simp add: reachable_def)
      next
        case (Some x)
        with \<open>map_of (rev rng) sha = Some up\<close> that show ?thesis by (intro reachable_step) (auto simp: edge_def)
      qed
      have "\<Union> (reachable rng ` set (rev up @ stack)) \<subseteq> \<Union> (reachable rng ` set (sha # stack))"
        using up by auto
      moreover have "set (sha # seen) \<subseteq> set seen \<union> \<Union> (reachable rng ` set (sha # stack))"
        using Some by (auto simp: reachable_def)
      ultimately have "set seen' \<subseteq> set seen \<union> \<Union> (reachable rng ` set (sha # stack))" using ih(2) by (meson Un_least order_trans sup.cobounded1 le_supI2)
      moreover have "\<exists>new. added' = added @ new \<and> set seen' = set seen \<union> set new \<and> set new \<inter> set seen = {} \<and> distinct new"
        using ih(4-7) False by (intro exI [of _ "sha # new"]) auto
      ultimately show ?thesis using ih(1,3) by auto
    qed
  qed
qed simp

lemma reach_new_closed:
  assumes "reach_new rng seen added stack = (seen', added')"
    and "\<forall>a \<in> set seen. \<forall>b. edge rng a b \<longrightarrow> b \<in> set seen \<union> set stack"
  shows "\<forall>a \<in> set seen'. \<forall>b. edge rng a b \<longrightarrow> b \<in> set seen'"
  using assms
proof (induction rng seen added stack rule: reach_new.induct)
  case (2 rng seen added sha stack)
  show ?case
  proof (cases "map_of (rev rng) sha")
    case None
    then have "\<not> edge rng a sha" for a by (simp add: edge_def)
    with 2 None show ?thesis by auto
  next
    case (Some up)
    show ?thesis
    proof (cases "sha \<in> set seen")
      case True
      with Some 2 show ?thesis by auto
    next
      case False
      with Some 2(4) have "reach_new rng (sha # seen) (added @ [sha]) (rev up @ stack) = (seen', added')" by simp
      moreover have "\<forall>a \<in> set (sha # seen). \<forall>b. edge rng a b \<longrightarrow> b \<in> set (sha # seen) \<union> set (rev up @ stack)"
        using 2(5) Some by (auto simp: edge_def)
      ultimately show ?thesis using 2(3) [OF Some False] by blast
    qed
  qed
qed simp

lemma reach_new_exact:
  assumes "reach_new rng seen [] [a] = (seen', added)"
    and closed: "\<forall>a \<in> set seen. \<forall>b. edge rng a b \<longrightarrow> b \<in> set seen"
  shows "set seen' = set seen \<union> reachable rng a \<and> set added = reachable rng a - set seen \<and> distinct added \<and>
    (\<forall>a \<in> set seen'. \<forall>b. edge rng a b \<longrightarrow> b \<in> set seen')"
proof -
  note s = reach_new_sound [OF assms(1)]
  have c: "\<forall>a \<in> set seen'. \<forall>b. edge rng a b \<longrightarrow> b \<in> set seen'"
    using closed by (intro reach_new_closed [OF assms(1)]) auto
  have "b \<in> set seen'" if "b \<in> reachable rng a" for b
  proof -
    from that have "(edge rng)\<^sup>*\<^sup>* a b" "a \<in> set seen'" using s by (auto simp: reachable_def)
    then show ?thesis by (induction rule: rtranclp_induct) (use c in auto)
  qed
  with s c show ?thesis by auto
qed

lemma members_loop_exact:
  assumes "\<forall>a \<in> set seen. \<forall>b. edge rng a b \<longrightarrow> b \<in> set seen"
  shows "length (members_loop rng seen ss) = length ss \<and>
    (\<forall>i < length ss. distinct (members_loop rng seen ss ! i) \<and> set (members_loop rng seen ss ! i) =
       reachable rng (step_to (ss ! i)) - set seen - (\<Union>j < i. reachable rng (step_to (ss ! j))))"
  using assms
proof (induction ss arbitrary: seen)
  case (Cons s ss)
  obtain seen' added where r: "reach_new rng seen [] [step_to s] = (seen', added)" by fastforce
  note e = reach_new_exact [OF r Cons.prems]
  have ih: "length (members_loop rng seen' ss) = length ss"
    "\<And>i. i < length ss \<Longrightarrow> distinct (members_loop rng seen' ss ! i) \<and> set (members_loop rng seen' ss ! i) =
       reachable rng (step_to (ss ! i)) - set seen' - (\<Union>j < i. reachable rng (step_to (ss ! j)))"
    using Cons.IH [of seen'] e by auto
  have "distinct (members_loop rng seen (s # ss) ! i) \<and> set (members_loop rng seen (s # ss) ! i) =
       reachable rng (step_to ((s # ss) ! i)) - set seen - (\<Union>j < i. reachable rng (step_to ((s # ss) ! j)))"
    if "i < length (s # ss)" for i
  proof (cases i)
    case 0
    with e r show ?thesis by simp
  next
    case (Suc k)
    have "(\<Union>j < Suc k. reachable rng (step_to ((s # ss) ! j))) =
        reachable rng (step_to s) \<union> (\<Union>j < k. reachable rng (step_to (ss ! j)))"
      by (auto simp: less_Suc_eq_0_disj)
    with Suc that ih(2) [of k] r e show ?thesis by auto
  qed
  with ih(1) r show ?case by auto
qed simp


section \<open>Properties\<close>

text \<open>
  The timeline cuts the compare at its tags: the first step starts at the
  base, each next one where the step before it ends, and the last one ends at the head
  of the compare. Every tag of a step is one of the given tags on the commit the step
  ends at, a step without a tag can only be the last, and there are at most
  \<open>MAX_RELEASES\<close> tagged steps however many tags lie in the range; the folded tags are
  given tags too.
\<close>

theorem steps_chain:
  assumes "steps rng base head tags released = (ss, older)"
  shows "chained base ss \<and> (ss \<noteq> [] \<longrightarrow> step_to (last ss) = head) \<and>
    length (filter (\<lambda>s. step_tag s \<noteq> None) ss) \<le> MAX_RELEASES \<and>
    (\<forall>s \<in> set (butlast ss). step_tag s \<noteq> None) \<and>
    (\<forall>s \<in> set ss. \<forall>name. step_tag s = Some name \<longrightarrow> (name, step_to s) \<in> set tags) \<and>
    set older \<subseteq> fst ` set tags \<and> (older \<noteq> [] \<longrightarrow> length ss \<ge> MAX_RELEASES)"
proof -
  define path where "path = first_parent_path rng head"
  define placed where "placed = placed_tags path tags released"
  define cut where "cut = length placed - MAX_RELEASES"
  obtain ts t where t: "tag_steps path base (drop cut placed) = (ts, t)" by fastforce
  note c = tag_steps_chained [OF t]
  define extra where "extra = (if path \<noteq> [] \<and> ts \<noteq> [] \<and> last path \<noteq> t
    then [\<lparr>step_tag = None, step_from = t, step_to = last path\<rparr>] else [])"
  have ss: "ss = ts @ extra" "older = map snd (take cut placed)"
    using assms t unfolding steps_def Let_def extra_def
    by (auto simp: path_def [symmetric] placed_def [symmetric] cut_def [symmetric])
  have len: "length ts = length placed - cut"
    using arg_cong [OF conjunct2 [OF conjunct2 [OF c]], of length] by simp
  have tagged: "\<exists>name. step_tag s = Some name \<and> (name, step_to s) \<in> set tags" if "s \<in> set ts" for s
  proof -
    from that have "(step_tag s, step_to s) \<in> set (map (\<lambda>(i, name). (Some name, path ! i)) (drop cut placed))"
      using c by (metis (no_types, lifting) image_eqI list.set_map)
    then show ?thesis using placed_tags_in [of _ _ path tags released]
      by (auto simp: placed_def [symmetric] dest!: in_set_dropD)
  qed
  have ne: "path \<noteq> []" if "ts \<noteq> []"
    using that len by (auto simp: placed_def placed_tags_def List.map_filter_def)
  have "step_to (last ss) = head" if "ss \<noteq> []"
  proof -
    from that have "ts \<noteq> []" by (auto simp: ss extra_def split: if_splits)
    with c ne path_ends_at_head [of rng head] show ?thesis by (auto simp: ss extra_def path_def [symmetric])
  qed
  moreover have "chained base ss" using c by (auto simp: ss extra_def chained_snoc)
  moreover have "filter (\<lambda>s. step_tag s \<noteq> None) ss = ts"
    using tagged by (fastforce simp: ss extra_def filter_id_conv)
  moreover have "\<forall>s \<in> set (butlast ss). step_tag s \<noteq> None"
    using tagged by (fastforce simp: ss extra_def butlast_append dest: in_set_butlastD split: if_splits)
  moreover have "\<forall>s \<in> set ss. \<forall>name. step_tag s = Some name \<longrightarrow> (name, step_to s) \<in> set tags"
    using tagged by (fastforce simp: ss extra_def split: if_splits)
  moreover have "set older \<subseteq> fst ` set tags"
    using placed_tags_in [of _ _ path tags released]
    by (force simp: ss placed_def [symmetric] dest!: in_set_takeD)
  moreover have "older \<noteq> [] \<longrightarrow> length ss \<ge> MAX_RELEASES"
    using len by (auto simp: ss cut_def)
  ultimately show ?thesis using len by (auto simp: cut_def)
qed

definition sample_range :: "(str \<times> str option) list" where
  "sample_range = [(''a'', Some ''z''), (''b'', Some ''a''), (''c'', Some ''b''), (''d'', Some ''c'')]"

theorem steps_chain_witness:
  "\<exists>ss older. steps sample_range ''z'' ''d'' [(''v1'', ''b''), (''v2'', ''c''), (''x'', ''q'')] [] = (ss, older) \<and>
     length ss = 3 \<and> chained ''z'' ss \<and> step_to (last ss) = ''d''"
proof -
  have "steps sample_range ''z'' ''d'' [(''v1'', ''b''), (''v2'', ''c''), (''x'', ''q'')] [] =
    ([\<lparr>step_tag = Some ''v1'', step_from = ''z'', step_to = ''b''\<rparr>,
      \<lparr>step_tag = Some ''v2'', step_from = ''b'', step_to = ''c''\<rparr>,
      \<lparr>step_tag = None, step_from = ''c'', step_to = ''d''\<rparr>], [])" by code_simp
  from steps_chain [OF this] this show ?thesis by auto
qed

text \<open>
  Every commit of the compared range is given to exactly one step: the one
  that first reaches it. The commits of a step are listed once each, and are those
  that the step's end reaches over parents inside the range and that no earlier step
  reaches; the search ends although merges let it meet a commit again.
\<close>

theorem members_partition:
  assumes "i < length ss"
  shows "length (members rng ss) = length ss \<and> distinct (members rng ss ! i) \<and>
    set (members rng ss ! i) = reachable rng (step_to (ss ! i)) - (\<Union>j < i. reachable rng (step_to (ss ! j)))"
  using members_loop_exact [of "[]" rng ss] assms by (simp add: members_def)

theorem members_partition_witness:
  "reachable [(''a'', [''z'']), (''b'', [''a'']), (''m'', [''b'', ''a''])] ''m'' -
     reachable [(''a'', [''z'']), (''b'', [''a'']), (''m'', [''b'', ''a''])] ''a'' = {''m'', ''b''}"
proof -
  let ?rng = "[(''a'', [''z'']), (''b'', [''a'']), (''m'', [''b'', ''a''])]"
  let ?ss = "[\<lparr>step_tag = Some ''v1'', step_from = ''z'', step_to = ''a''\<rparr>, \<lparr>step_tag = None, step_from = ''a'', step_to = ''m''\<rparr>]"
  have m: "members ?rng ?ss = [[''a''], [''m'', ''b'']]" by code_simp
  have "set (members ?rng ?ss ! 1) =
      reachable ?rng (step_to (?ss ! 1)) - (\<Union>j < 1. reachable ?rng (step_to (?ss ! j)))"
    by (rule members_partition [THEN conjunct2, THEN conjunct2]) simp
  moreover have "(\<Union>j < 1. reachable ?rng (step_to (?ss ! j))) = reachable ?rng ''a''"
    by (simp add: lessThan_Suc)
  ultimately show ?thesis unfolding m by simp
qed

end
