(* ===== verification/Fair.thy ===== *)
theory Fair
  imports Main
begin

text \<open>
  Machines run by an arbitrary scheduler. An event that is not possible changes
  nothing. The locale is the contract under which every fair run ends: a rank that never
  grows, and, until the end, an event of the fair ones that lowers it and
  stays able to do so until it happens.
\<close>

primrec run_events :: "('e \<Rightarrow> 's \<Rightarrow> 's) \<Rightarrow> (nat \<Rightarrow> 'e) \<Rightarrow> 's \<Rightarrow> nat \<Rightarrow> 's" where
  "run_events act sched s 0 = s"
| "run_events act sched s (Suc n) = act (sched n) (run_events act sched s n)"

definition fair_for :: "'e set \<Rightarrow> (nat \<Rightarrow> 'e) \<Rightarrow> bool" where
  "fair_for E sched \<longleftrightarrow> (\<forall>e \<in> E. \<forall>k. \<exists>m \<ge> k. sched m = e)"

locale fair_machine =
  fixes act :: "'e \<Rightarrow> 's \<Rightarrow> 's"
    and inv :: "'s \<Rightarrow> bool"
    and rank :: "'s \<Rightarrow> nat"
    and helps :: "'e \<Rightarrow> 's \<Rightarrow> bool"
    and over :: "'s \<Rightarrow> bool"
    and E :: "'e set"
  assumes inv_act: "inv s \<Longrightarrow> inv (act e s)"
    and rank_act: "inv s \<Longrightarrow> rank (act e s) \<le> rank s"
    and helped: "inv s \<Longrightarrow> \<not> over s \<Longrightarrow> \<exists>e \<in> E. helps e s"
    and helps_lowers: "inv s \<Longrightarrow> helps e s \<Longrightarrow> rank (act e s) < rank s"
    and helps_stays: "inv s \<Longrightarrow> helps e s \<Longrightarrow> e' \<noteq> e \<Longrightarrow> rank (act e' s) < rank s \<or> helps e (act e' s)"
    and over_act: "inv s \<Longrightarrow> over s \<Longrightarrow> over (act e s)"
begin

lemma run_inv: "inv s \<Longrightarrow> inv (run_events act sched s n)"
  by (induction n) (auto intro: inv_act)

lemma run_rank:
  assumes "inv s" "m \<le> n"
  shows "rank (run_events act sched s n) \<le> rank (run_events act sched s m)"
  using assms(2)
proof (induction n)
  case (Suc n)
  then show ?case
    using rank_act [OF run_inv [OF assms(1)], of "sched n" sched n] by (cases "m = Suc n") auto
qed simp

lemma waits_or_lowers:
  assumes "inv s" "helps e (run_events act sched s k)" "\<And>j. k \<le> j \<Longrightarrow> j < k + d \<Longrightarrow> sched j \<noteq> e"
  shows "rank (run_events act sched s (k + d)) < rank (run_events act sched s k) \<or> helps e (run_events act sched s (k + d))"
  using assms(3)
proof (induction d)
  case 0
  then show ?case using assms(2) by simp
next
  case (Suc d)
  let ?u = "run_events act sched s (k + d)"
  consider "rank ?u < rank (run_events act sched s k)" | "helps e ?u" using Suc by force
  then show ?case
  proof cases
    case 1
    with run_rank [OF assms(1), of "k + d" "Suc (k + d)" sched] show ?thesis by auto
  next
    case 2
    have "sched (k + d) \<noteq> e" using Suc.prems [of "k + d"] by simp
    from helps_stays [OF run_inv [OF assms(1)] 2 this] run_rank [OF assms(1), of k "k + d" sched]
    show ?thesis by auto
  qed
qed

lemma rank_drops:
  assumes "inv s" "fair_for E sched" "\<not> over (run_events act sched s k)"
  shows "\<exists>n \<ge> k. rank (run_events act sched s n) < rank (run_events act sched s k)"
proof -
  obtain e where e: "e \<in> E" "helps e (run_events act sched s k)"
    using helped [OF run_inv [OF assms(1)] assms(3)] by blast
  define m where "m = (LEAST m. m \<ge> k \<and> sched m = e)"
  have "\<exists>m \<ge> k. sched m = e" using assms(2) e(1) by (simp add: fair_for_def)
  then have m: "m \<ge> k" "sched m = e" unfolding m_def by (metis (mono_tags, lifting) LeastI_ex)+
  have before: "sched j \<noteq> e" if "k \<le> j" "j < m" for j using not_less_Least [of j "\<lambda>m. m \<ge> k \<and> sched m = e"] that by (simp add: m_def)
  obtain d where d: "m = k + d" using m(1) le_Suc_ex by blast
  from waits_or_lowers [OF assms(1) e(2), of d] before d
  consider "rank (run_events act sched s m) < rank (run_events act sched s k)" | "helps e (run_events act sched s m)" by auto
  then show ?thesis
  proof cases
    case 1
    with m(1) show ?thesis by blast
  next
    case 2
    have "rank (run_events act sched s (Suc m)) < rank (run_events act sched s m)"
      using helps_lowers [OF run_inv [OF assms(1)] 2] m(2) by simp
    also have "\<dots> \<le> rank (run_events act sched s k)" by (rule run_rank [OF assms(1) m(1)])
    finally show ?thesis using m(1) le_Suc_eq by blast
  qed
qed

lemma ends_from:
  assumes "inv s" "fair_for E sched"
  shows "\<exists>n \<ge> k. over (run_events act sched s n)"
proof (induction "rank (run_events act sched s k)" arbitrary: k rule: less_induct)
  case less
  show ?case
  proof (cases "over (run_events act sched s k)")
    case False
    then obtain n where "n \<ge> k" "rank (run_events act sched s n) < rank (run_events act sched s k)"
      using rank_drops [OF assms] by blast
    with less show ?thesis by (meson order_trans)
  qed blast
qed

lemma stays_over: "inv s \<Longrightarrow> over (run_events act sched s n) \<Longrightarrow> n \<le> m \<Longrightarrow> over (run_events act sched s m)"
proof (induction m)
  case (Suc m)
  then show ?case using over_act [OF run_inv] by (cases "n = Suc m") auto
qed simp

theorem eventually_over:
  assumes "inv s" "fair_for E sched"
  shows "\<exists>n. \<forall>m \<ge> n. over (run_events act sched s m)"
  using ends_from [OF assms, of 0] stays_over [OF assms(1)] by blast

end

end
