(* ===== verification/Pool.thy ===== *)
theory Pool
  imports Store Fair "HOL-Library.Multiset"
begin

text \<open>
  The bounded pool of threads that reads the steps of a timeline,
  \<open>bounded\<close> of \<open>crates/adapters/src/releases.rs\<close>. The threads share one atomic counter,
  the index of the next item; each thread is a small machine whose moves interleave in
  any order. A thread that panics loses what it had finished, as \<open>join\<close> then yields
  the default. The work \<open>f\<close> is a parameter: \<open>None\<close> is a panic.
\<close>

section \<open>The machine\<close>

definition WIDTH :: nat where
  "WIDTH = 4"

datatype phase = Taking | Running nat | Failing | Returned | Panicked nat

record 'r worker =
  phase_of :: phase
  finished :: "(nat \<times> (store_error + 'r)) list"

record 'r pool =
  next_item :: nat
  crew :: "'r worker list"

type_synonym ('a, 'r) work = "'a \<Rightarrow> (store_error + 'r) option"

definition pool_start :: "'a list \<Rightarrow> 'r pool" where
  "pool_start items = \<lparr>next_item = 0, crew = replicate (min WIDTH (length items)) \<lparr>phase_of = Taking, finished = []\<rparr>\<rparr>"

definition worker_move :: "('a, 'r) work \<Rightarrow> 'a list \<Rightarrow> nat \<Rightarrow> 'r worker \<Rightarrow> (nat \<times> 'r worker) option" where
  "worker_move f items i w =
     (case phase_of w of
        Taking \<Rightarrow> Some (Suc i, w\<lparr>phase_of := if i < length items then Running i else Returned\<rparr>)
      | Running k \<Rightarrow>
          (case f (items ! k) of
             None \<Rightarrow> Some (i, w\<lparr>phase_of := Panicked k\<rparr>)
           | Some r \<Rightarrow> Some (i, w\<lparr>phase_of := if isl r then Failing else Taking, finished := finished w @ [(k, r)]\<rparr>))
      | Failing \<Rightarrow> Some (length items, w\<lparr>phase_of := Returned\<rparr>)
      | Returned \<Rightarrow> None
      | Panicked _ \<Rightarrow> None)"

definition pool_move :: "('a, 'r) work \<Rightarrow> 'a list \<Rightarrow> nat \<Rightarrow> 'r pool \<Rightarrow> 'r pool option" where
  "pool_move f items n c =
     (if n < length (crew c)
      then map_option (\<lambda>(i, w). \<lparr>next_item = i, crew = (crew c)[n := w]\<rparr>) (worker_move f items (next_item c) (crew c ! n))
      else None)"

inductive pool_step :: "('a, 'r) work \<Rightarrow> 'a list \<Rightarrow> 'r pool \<Rightarrow> 'r pool \<Rightarrow> bool" for f items where
  "pool_move f items n c = Some c' \<Longrightarrow> pool_step f items c c'"

inductive_cases pool_stepE: "pool_step f items c c'"

fun ended :: "phase \<Rightarrow> bool" where
  "ended Returned \<longleftrightarrow> True"
| "ended (Panicked _) \<longleftrightarrow> True"
| "ended _ \<longleftrightarrow> False"

definition pool_final :: "'r pool \<Rightarrow> bool" where
  "pool_final c \<longleftrightarrow> list_all (\<lambda>w. ended (phase_of w)) (crew c)"

fun joined :: "'r worker \<Rightarrow> (nat \<times> (store_error + 'r)) list" where
  "joined w = (case phase_of w of Panicked _ \<Rightarrow> [] | _ \<Rightarrow> finished w)"

fun collect_results :: "('e + 'r) list \<Rightarrow> 'e + 'r list" where
  "collect_results [] = Inr []"
| "collect_results (r # rs) =
     (case r of Inl e \<Rightarrow> Inl e | Inr x \<Rightarrow> (case collect_results rs of Inl e \<Rightarrow> Inl e | Inr xs \<Rightarrow> Inr (x # xs)))"

definition pool_result :: "'a list \<Rightarrow> 'r pool \<Rightarrow> store_error + 'r list" where
  "pool_result items c =
     (let reads = sort_key fst (concat (map joined (crew c))) in
      if length reads \<noteq> length items \<and> list_all (\<lambda>(_, r). \<not> isl r) reads
      then Inl (Message ''a release read stopped unexpectedly'')
      else collect_results (map snd reads))"

fun run_schedule :: "('a, 'r) work \<Rightarrow> 'a list \<Rightarrow> nat list \<Rightarrow> 'r pool \<Rightarrow> 'r pool" where
  "run_schedule f items [] c = c"
| "run_schedule f items (n # ns) c =
     (case pool_move f items n c of None \<Rightarrow> run_schedule f items ns c | Some c' \<Rightarrow> run_schedule f items ns c')"

section \<open>Every schedule ends\<close>

fun phase_weight :: "phase \<Rightarrow> nat" where
  "phase_weight Taking = 1"
| "phase_weight (Running _) = 2"
| "phase_weight Failing = 1"
| "phase_weight _ = 0"

definition pool_weight :: "'a list \<Rightarrow> 'r pool \<Rightarrow> nat" where
  "pool_weight items c = 2 * (length items - next_item c) + sum_list (map (phase_weight \<circ> phase_of) (crew c))"

lemma sum_list_swap:
  fixes g :: "'b \<Rightarrow> nat"
  assumes "n < length ws"
  shows "sum_list (map g (ws[n := w])) + g (ws ! n) = sum_list (map g ws) + g w"
  using assms by (induction ws arbitrary: n) (auto simp: nth_Cons split: nat.splits)

lemma pool_moveE:
  assumes "pool_move f items n c = Some c'"
  obtains w i where "n < length (crew c)" "worker_move f items (next_item c) (crew c ! n) = Some (i, w)"
    "c' = \<lparr>next_item = i, crew = (crew c)[n := w]\<rparr>"
  using assms by (auto simp: pool_move_def split: if_splits)

lemma pool_step_weight:
  assumes "pool_step f items c c'"
  shows "pool_weight items c' < pool_weight items c"
proof -
  from assms obtain n where "pool_move f items n c = Some c'" by (rule pool_stepE)
  then obtain w i where n: "n < length (crew c)"
    and w: "worker_move f items (next_item c) (crew c ! n) = Some (i, w)"
    and c': "c' = \<lparr>next_item = i, crew = (crew c)[n := w]\<rparr>" by (rule pool_moveE)
  have "2 * (length items - i) + phase_weight (phase_of w) <
      2 * (length items - next_item c) + phase_weight (phase_of (crew c ! n))"
    using w by (auto simp: worker_move_def split: phase.splits option.splits if_splits)
  with sum_list_swap [OF n, of "phase_weight \<circ> phase_of" w] show ?thesis by (simp add: c' pool_weight_def)
qed

lemma pool_steps_weight:
  "(pool_step f items ^^ k) c c' \<Longrightarrow> pool_weight items c' + k \<le> pool_weight items c"
  by (induction k arbitrary: c') (fastforce dest: pool_step_weight)+

lemma pool_progress:
  assumes "\<not> pool_final c"
  shows "\<exists>c'. pool_step f items c c'"
proof -
  from assms obtain n where n: "n < length (crew c)" "\<not> ended (phase_of (crew c ! n))"
    by (auto simp: pool_final_def list_all_length)
  then have "worker_move f items (next_item c) (crew c ! n) \<noteq> None"
    by (auto simp: worker_move_def split: phase.split option.split)
  with n(1) have "pool_move f items n c \<noteq> None" by (simp add: pool_move_def)
  then show ?thesis by (auto intro: pool_step.intros)
qed

section \<open>What the threads hold\<close>

fun held :: "phase \<Rightarrow> nat list" where
  "held (Running k) = [k]"
| "held (Panicked k) = [k]"
| "held _ = []"

definition taken :: "'r worker \<Rightarrow> nat list" where
  "taken w = map fst (finished w) @ held (phase_of w)"

definition has_error :: "'r worker \<Rightarrow> bool" where
  "has_error w \<longleftrightarrow> (\<exists>r \<in> set (finished w). isl (snd r))"

definition worker_ok :: "('a, 'r) work \<Rightarrow> 'a list \<Rightarrow> nat \<Rightarrow> 'r worker \<Rightarrow> bool" where
  "worker_ok f items i w \<longleftrightarrow>
     (\<forall>r \<in> set (finished w). f (items ! fst r) = Some (snd r)) \<and>
     (has_error w \<longrightarrow> phase_of w = Failing \<or> phase_of w = Returned) \<and>
     (phase_of w = Failing \<longrightarrow> has_error w) \<and>
     (phase_of w = Returned \<longrightarrow> length items \<le> i) \<and>
     (\<forall>k. phase_of w = Panicked k \<longrightarrow> f (items ! k) = None)"

definition pool_ok :: "('a, 'r) work \<Rightarrow> 'a list \<Rightarrow> 'r pool \<Rightarrow> nat \<Rightarrow> bool" where
  "pool_ok f items c k \<longleftrightarrow>
     length (crew c) = min WIDTH (length items) \<and>
     k \<le> length items \<and> k \<le> next_item c \<and> mset (concat (map taken (crew c))) = mset [0..<k] \<and>
     (next_item c < length items \<longrightarrow> next_item c = k) \<and>
     (k < length items \<longrightarrow> length items \<le> next_item c \<longrightarrow> (\<exists>w \<in> set (crew c). has_error w)) \<and>
     (\<forall>w \<in> set (crew c). worker_ok f items (next_item c) w)"

lemma mset_concat_swap:
  assumes "n < length ws"
  shows "mset (concat (map g (ws[n := w]))) + mset (g (ws ! n)) = mset (concat (map g ws)) + mset (g w)"
  using assms
proof (induction ws arbitrary: n)
  case (Cons a ws)
  then show ?case by (cases n) (auto simp: ac_simps)
qed simp

lemma pool_ok_start: "pool_ok f items (pool_start items) 0"
  by (auto simp: pool_ok_def pool_start_def taken_def worker_ok_def has_error_def concat_replicate_trivial)

lemma worker_ok_mono: "worker_ok f items i w \<Longrightarrow> i \<le> j \<or> length items \<le> j \<Longrightarrow> worker_ok f items j w"
  by (auto simp: worker_ok_def)

lemma worker_move_ok:
  assumes "worker_move f items i w = Some (j, w')" "worker_ok f items i w"
  shows "worker_ok f items j w' \<and> (i \<le> j \<or> length items \<le> j) \<and> (has_error w \<longrightarrow> has_error w')"
  using assms
  by (auto simp: worker_move_def worker_ok_def has_error_def split: phase.splits option.splits if_splits)

lemma worker_move_taken:
  assumes "worker_move f items i w = Some (j, w')" "worker_ok f items i w"
  shows "(j = Suc i \<and> i < length items \<and> mset (taken w') = add_mset i (mset (taken w))) \<or>
    (mset (taken w') = mset (taken w) \<and>
      (j = i \<or> (j = Suc i \<and> length items \<le> i) \<or> (j = length items \<and> has_error w')))"
  using assms
  by (auto simp: worker_move_def taken_def worker_ok_def has_error_def split: phase.splits option.splits if_splits)

lemma pool_ok_step:
  assumes "pool_step f items c c'" "pool_ok f items c k"
  shows "\<exists>k'. pool_ok f items c' k'"
proof -
  from assms(1) obtain n where "pool_move f items n c = Some c'" by (rule pool_stepE)
  then obtain w j where n: "n < length (crew c)"
    and w: "worker_move f items (next_item c) (crew c ! n) = Some (j, w)"
    and c': "c' = \<lparr>next_item = j, crew = (crew c)[n := w]\<rparr>" by (rule pool_moveE)
  have ok: "worker_ok f items (next_item c) (crew c ! n)" using assms(2) n by (simp add: pool_ok_def)
  note moved = worker_move_ok [OF w ok]
  have workers: "\<forall>v \<in> set (crew c'). worker_ok f items j v"
    using assms(2) moved set_update_subset_insert [of "crew c" n w]
    by (auto simp: c' pool_ok_def intro: worker_ok_mono)
  have w_in: "w \<in> set (crew c')" using n by (simp add: c' set_update_memI)
  have errs: "\<exists>v \<in> set (crew c'). has_error v" if "\<exists>v \<in> set (crew c). has_error v"
  proof -
    from that obtain m where m: "m < length (crew c)" "has_error (crew c ! m)" by (auto simp: in_set_conv_nth)
    then have "m < length (crew c') \<and> has_error (crew c' ! m)" using moved by (cases "m = n") (auto simp: c')
    then show ?thesis using nth_mem by blast
  qed
  note swap = mset_concat_swap [OF n, of taken w]
  consider (took) "j = Suc (next_item c)" "next_item c < length items" "mset (taken w) = add_mset (next_item c) (mset (taken (crew c ! n)))"
    | (kept) "mset (taken w) = mset (taken (crew c ! n))"
        "j = next_item c \<or> (j = Suc (next_item c) \<and> length items \<le> next_item c) \<or> (j = length items \<and> has_error w)"
    using worker_move_taken [OF w ok] by blast
  then show ?thesis
  proof cases
    case took
    with assms(2) have "pool_ok f items c' (Suc k)" using swap workers by (auto simp: pool_ok_def c')
    then show ?thesis ..
  next
    case kept
    have "mset (concat (map taken (crew c'))) = mset [0..<k]" using kept(1) swap assms(2) by (simp add: c' pool_ok_def)
    with kept(2) assms(2) workers errs w_in have "pool_ok f items c' k" by (auto simp: pool_ok_def c')
    then show ?thesis ..
  qed
qed

lemma pool_ok_reach:
  assumes "(pool_step f items)\<^sup>*\<^sup>* (pool_start items) c"
  shows "\<exists>k. pool_ok f items c k"
  using assms by (induction rule: rtranclp_induct) (use pool_ok_start pool_ok_step in blast)+

section \<open>The result\<close>

lemma collect_results_all: "collect_results (map Inr xs) = Inr xs"
  by (induction xs) simp_all

lemma collect_results_Inr: "collect_results rs = Inr xs \<longleftrightarrow> rs = map Inr xs"
proof
  show "collect_results rs = Inr xs \<Longrightarrow> rs = map Inr xs"
    by (induction rs arbitrary: xs) (auto split: sum.splits)
qed (simp add: collect_results_all)

lemma collect_results_append: "\<exists>r \<in> set rs. isl r \<Longrightarrow> collect_results (rs @ rs') = collect_results rs"
proof (induction rs)
  case (Cons r rs)
  then show ?case by (cases r) auto
qed simp

definition pool_reads :: "'r pool \<Rightarrow> (nat \<times> (store_error + 'r)) list" where
  "pool_reads c = sort_key fst (concat (map joined (crew c)))"

lemma pool_reads_work:
  assumes "pool_ok f items c k" "r \<in> set (pool_reads c)"
  shows "f (items ! fst r) = Some (snd r)"
proof -
  from assms(2) obtain w where w: "w \<in> set (crew c)" "r \<in> set (joined w)" by (auto simp: pool_reads_def)
  then have "r \<in> set (finished w)" by (cases "phase_of w") auto
  with w(1) assms(1) show ?thesis by (simp add: pool_ok_def worker_ok_def)
qed

lemma mset_concat_mono:
  assumes "\<And>w. w \<in> set ws \<Longrightarrow> mset (g w) \<subseteq># mset (h w)"
  shows "mset (concat (map g ws)) \<subseteq># mset (concat (map h ws))"
  using assms by (induction ws) (auto intro: subset_mset.add_mono)

lemma pool_reads_mset: "mset (map fst (pool_reads c)) = mset (concat (map (\<lambda>w. map fst (joined w)) (crew c)))"
proof -
  have "mset (map fst (pool_reads c)) = mset (map fst (concat (map joined (crew c))))"
    unfolding mset_map pool_reads_def by simp
  also have "map fst (concat (map joined (crew c))) = concat (map (\<lambda>w. map fst (joined w)) (crew c))"
    by (simp only: map_concat list.map_comp comp_def)
  finally show ?thesis .
qed

lemma pool_reads_keys:
  assumes "pool_ok f items c k"
  shows "mset (map fst (pool_reads c)) \<subseteq># mset [0..<k]"
proof -
  note pool_reads_mset [of c]
  also have "mset (concat (map (\<lambda>w. map fst (joined w)) (crew c))) \<subseteq># mset (concat (map taken (crew c)))"
    by (intro mset_concat_mono) (auto simp: taken_def split: phase.split)
  also have "\<dots> = mset [0..<k]" using assms by (simp add: pool_ok_def)
  finally show ?thesis .
qed

lemma pool_reads_are:
  assumes "pool_ok f items c k" "mset (map fst (pool_reads c)) = mset [0..<k]"
  shows "map Some (map snd (pool_reads c)) = map f (take k items)"
proof -
  have "sorted (map fst (pool_reads c))" by (simp add: pool_reads_def)
  with assms(2) have keys: "map fst (pool_reads c) = [0..<k]"
    by (metis properties_for_sort sorted_upt)
  have "map Some (map snd (pool_reads c)) = map (\<lambda>r. f (items ! fst r)) (pool_reads c)"
    using pool_reads_work [OF assms(1)] by simp
  also have "\<dots> = map (\<lambda>i. f (items ! i)) (map fst (pool_reads c))" by simp
  also have "\<dots> = map f (take k items)"
    using assms(1) unfolding keys by (intro nth_equalityI) (auto simp: pool_ok_def)
  finally show ?thesis .
qed

lemma pool_result_complete:
  assumes "pool_ok f items c k" "pool_result items c = Inr rs"
  shows "map f items = map (\<lambda>r. Some (Inr r)) rs"
proof -
  have rs: "map snd (pool_reads c) = map Inr rs" "length (pool_reads c) = length items"
    using assms(2) by (auto simp: pool_result_def pool_reads_def [symmetric] Let_def list_all_iff
      split: if_splits dest!: collect_results_Inr [THEN iffD1])
      (metis (no_types, lifting) in_set_conv_nth isl_def length_map nth_map snd_conv sum.distinct(1))
  have "k \<le> length items" using assms(1) by (simp add: pool_ok_def)
  moreover note keys = pool_reads_keys [OF assms(1)]
  have "size (mset (map fst (pool_reads c))) \<le> size (mset [0..<k])" using keys by (rule size_mset_mono)
  ultimately have k: "k = length items" using rs(2) by simp
  then have eq: "mset (map fst (pool_reads c)) = mset [0..<k]"
    using keys rs(2) mset_subset_size [of "mset (map fst (pool_reads c))" "mset [0..<k]"]
    by (simp only: subset_mset.le_less size_mset length_map length_upt) auto
  from pool_reads_are [OF assms(1) eq] rs(1) k show ?thesis by (simp add: comp_def)
qed

lemma pool_result_sequential:
  assumes ok: "pool_ok f items c k" and fin: "pool_final c" and run: "\<forall>x \<in> set items. f x \<noteq> None"
  shows "pool_result items c = collect_results (map (\<lambda>x. the (f x)) items)"
proof -
  have phases: "phase_of w = Returned" if "w \<in> set (crew c)" for w
  proof (cases "phase_of w")
    case (Panicked j)
    then have "j \<in> set (taken w)" by (simp add: taken_def)
    with that have "j \<in> set (concat (map taken (crew c)))" by auto
    with ok have "j < k" by (metis atLeastLessThan_iff pool_ok_def set_mset_mset set_upt)
    moreover have "f (items ! j) = None" using ok that Panicked by (auto simp: pool_ok_def worker_ok_def)
    moreover have "k \<le> length items" using ok by (simp add: pool_ok_def)
    ultimately show ?thesis using run nth_mem [of j items] by fastforce
  qed (use that fin in \<open>auto simp: pool_final_def list_all_iff\<close>)
  have same: "map (\<lambda>w. map fst (joined w)) (crew c) = map taken (crew c)"
    using phases by (simp add: taken_def)
  have "mset (map fst (pool_reads c)) = mset [0..<k]"
    unfolding pool_reads_mset same using ok by (simp add: pool_ok_def)
  from pool_reads_are [OF ok this] have reads: "map Some (map snd (pool_reads c)) = map f (take k items)" .
  have snds: "map snd (pool_reads c) = map (\<lambda>x. the (f x)) (take k items)"
    using arg_cong [OF reads, of "map the"] by (simp only: list.map_comp comp_def option.sel)
  then have len: "length (pool_reads c) = k" using ok by (metis length_map length_take min.absorb2 pool_ok_def)
  show ?thesis
  proof (cases "k < length items")
    case False
    with ok have "k = length items" by (simp add: pool_ok_def)
    with snds len show ?thesis by (simp add: pool_result_def pool_reads_def [symmetric] Let_def)
  next
    case True
    then have "crew c \<noteq> []" using ok by (auto simp: pool_ok_def WIDTH_def)
    then obtain w where "w \<in> set (crew c)" by (meson hd_in_set)
    then have "length items \<le> next_item c" using phases ok by (auto simp: pool_ok_def worker_ok_def)
    with True ok obtain v where v: "v \<in> set (crew c)" "has_error v" by (auto simp: pool_ok_def)
    then have "\<exists>r \<in> set (pool_reads c). isl (snd r)"
      using phases by (fastforce simp: has_error_def pool_reads_def)
    then have err: "\<exists>r \<in> set (map snd (pool_reads c)). isl r" by auto
    have "pool_result items c = collect_results (map snd (pool_reads c))"
      using err by (auto simp: pool_result_def pool_reads_def [symmetric] Let_def list_all_iff)
    also have "\<dots> = collect_results (map snd (pool_reads c) @ map (\<lambda>x. the (f x)) (drop k items))"
      using collect_results_append [OF err] by simp
    also have "\<dots> = collect_results (map (\<lambda>x. the (f x)) items)"
      unfolding snds map_append [symmetric] by simp
    finally show ?thesis .
  qed
qed

section \<open>Properties\<close>

text \<open>
  Claim C17. Reading with a pool of threads is reading in order: whatever the threads'
  interleaving, when all of them have ended without a panic the pool's result is the
  result of reading the items one after another, so the error that is reported is that
  of the first failing item although later items may have failed earlier and the
  threads stop early. Even when threads panic and their finished work is lost, a
  result without an error holds the answer of every item, in order.
\<close>

theorem bounded_sequential:
  assumes "(pool_step f items)\<^sup>*\<^sup>* (pool_start items) c" "pool_final c"
  shows "((\<forall>x \<in> set items. f x \<noteq> None) \<longrightarrow>
      pool_result items c = collect_results (map (\<lambda>x. the (f x)) items)) \<and>
    (\<forall>rs. pool_result items c = Inr rs \<longrightarrow> map f items = map (\<lambda>r. Some (Inr r)) rs)"
  using pool_ok_reach [OF assms(1)] assms(2) pool_result_sequential pool_result_complete by blast

definition sample_work :: "(nat, nat) work" where
  "sample_work n = (if n = 7 then None else if n < 5 then Some (Inr (n * n)) else Some (Inl (Message (show_nat n))))"

lemma run_schedule_steps: "(pool_step f items)\<^sup>*\<^sup>* c (run_schedule f items ns c)"
proof (induction f items ns c rule: run_schedule.induct)
  case (2 f items n ns c)
  show ?case
  proof (cases "pool_move f items n c")
    case (Some c')
    with 2(2) have "(pool_step f items)\<^sup>*\<^sup>* c' (run_schedule f items (n # ns) c)" by simp
    with pool_step.intros [OF Some] show ?thesis by (rule converse_rtranclp_into_rtranclp)
  qed (use 2 in simp)
qed simp

theorem bounded_sequential_witness:
  "pool_result [1 :: nat, 6, 2, 5] (run_schedule sample_work [1, 6, 2, 5] [3, 2, 1, 0, 0, 0, 1, 1, 2, 2, 2, 3, 3, 3]
      (pool_start [1 :: nat, 6, 2, 5])) = Inl (Message ''6'')"
proof -
  let ?c = "run_schedule sample_work [1 :: nat, 6, 2, 5] [3, 2, 1, 0, 0, 0, 1, 1, 2, 2, 2, 3, 3, 3] (pool_start [1 :: nat, 6, 2, 5])"
  have "pool_final ?c" by code_simp
  moreover have "\<forall>x \<in> set [1 :: nat, 6, 2, 5]. sample_work x \<noteq> None" by code_simp
  moreover have "collect_results (map (\<lambda>x. the (sample_work x)) [1 :: nat, 6, 2, 5]) = Inl (Message ''6'')" by code_simp
  ultimately show ?thesis
    using bounded_sequential [OF run_schedule_steps [of sample_work "[1 :: nat, 6, 2, 5]" "pool_start [1 :: nat, 6, 2, 5]"
      "[3, 2, 1, 0, 0, 0, 1, 1, 2, 2, 2, 3, 3, 3]"]] by simp
qed

text \<open>
  The pool always ends: while some thread has not ended, one of them can move,
  and no schedule, however unfair, makes more than two moves for each item and one for
  each thread, so every schedule that keeps moving ends with all threads joined.
\<close>

theorem bounded_ends:
  assumes "(pool_step f items ^^ k) (pool_start items :: 'r pool) c"
  shows "k \<le> 2 * length items + min WIDTH (length items) \<and>
    (pool_final c \<or> (\<exists>c'. pool_step f items c c' \<and> pool_weight items c' < pool_weight items c))"
proof -
  have "pool_weight items (pool_start items :: 'r pool) = 2 * length items + min WIDTH (length items)"
    by (simp add: pool_weight_def pool_start_def sum_list_replicate)
  with pool_steps_weight [OF assms] show ?thesis using pool_progress [of c f items] pool_step_weight by fastforce
qed

theorem bounded_ends_witness:
  "\<exists>c. pool_step sample_work [1] (pool_start [1 :: nat]) c \<and> (1::nat) \<le> 2 * 1 + min WIDTH 1"
proof -
  have "\<not> pool_final (pool_start [1::nat] :: nat pool)" by code_simp
  then obtain c where c: "pool_step sample_work [1] (pool_start [1 :: nat]) c"
    using pool_progress by blast
  then have "(pool_step sample_work [1] ^^ 1) (pool_start [1 :: nat]) c" by (simp only: relpowp_1)
  from bounded_ends [OF this] c show ?thesis by auto
qed

section \<open>Fair schedules\<close>

definition pool_act :: "('a, 'r) work \<Rightarrow> 'a list \<Rightarrow> nat \<Rightarrow> 'r pool \<Rightarrow> 'r pool" where
  "pool_act f items n c = (case pool_move f items n c of None \<Rightarrow> c | Some c' \<Rightarrow> c')"

definition can_move :: "nat \<Rightarrow> 'r pool \<Rightarrow> bool" where
  "can_move n c \<longleftrightarrow> n < length (crew c) \<and> \<not> ended (phase_of (crew c ! n))"

lemma can_move_iff: "can_move n c \<longleftrightarrow> pool_move f items n c \<noteq> None"
  by (auto simp: can_move_def pool_move_def worker_move_def split: phase.split option.split)

lemma pool_act_crew: "length (crew (pool_act f items n c)) = length (crew c)"
  by (auto simp: pool_act_def pool_move_def split: option.split)

lemma pool_act_other: "m \<noteq> n \<Longrightarrow> can_move n (pool_act f items m c) = can_move n c"
  by (auto simp: can_move_def pool_act_def pool_move_def split: option.split)

lemma pool_act_weight:
  shows "pool_weight items (pool_act f items n c) \<le> pool_weight items c"
    and "can_move n c \<Longrightarrow> pool_weight items (pool_act f items n c) < pool_weight items c"
  using pool_step_weight [OF pool_step.intros, of f items n c] can_move_iff [of n c f items]
  by (auto simp: pool_act_def less_imp_le split: option.split)

lemma pool_final_iff: "pool_final c \<longleftrightarrow> (\<forall>n. \<not> can_move n c)"
  by (auto simp: pool_final_def can_move_def list_all_length)

text \<open>The contract of fair machines, for the threads of one pool.\<close>

interpretation read_pool: fair_machine "pool_act f items" "\<lambda>c. length (crew c) = n" "pool_weight items" can_move
  pool_final "{..<n}" for f :: "('a, 'r) work" and items n
proof (unfold_locales, goal_cases)
  case (1 c i)
  then show ?case by (simp add: pool_act_crew)
next
  case (2 c i)
  show ?case by (rule pool_act_weight)
next
  case (3 c)
  then show ?case by (auto simp: pool_final_iff can_move_def)
next
  case (4 c i)
  then show ?case by (simp add: pool_act_weight)
next
  case (5 c i j)
  then show ?case by (simp add: pool_act_other)
next
  case (6 c i)
  then show ?case using can_move_iff [of i c f items] by (simp add: pool_final_iff pool_act_def)
qed

lemma pool_act_reach: "(pool_step f items)\<^sup>*\<^sup>* c (run_events (pool_act f items) sched c k)"
proof (induction k)
  case (Suc k)
  let ?u = "run_events (pool_act f items) sched c k"
  have "(pool_step f items)\<^sup>*\<^sup>* ?u (pool_act f items (sched k) ?u)"
    by (auto simp: pool_act_def intro: pool_step.intros split: option.split)
  with Suc show ?case by (simp add: rtranclp_trans)
qed simp

lemma pool_fair_end:
  assumes "fair_for {..<min WIDTH (length items)} sched"
  shows "\<exists>k. \<forall>m \<ge> k. pool_final (run_events (pool_act f items) sched (pool_start items) m)"
  by (rule read_pool.eventually_over [OF _ assms]) (simp add: pool_start_def)

text \<open>
  The pool answers: when each of its threads gets turns again and again and no work
  panics, from some moment on all threads have ended and the result is the result of
  reading the items one after another.
\<close>

theorem bounded_answers:
  assumes "fair_for {..<min WIDTH (length items)} sched" "\<forall>x \<in> set items. f x \<noteq> None"
  shows "\<exists>k. \<forall>m \<ge> k. pool_final (run_events (pool_act f items) sched (pool_start items) m) \<and>
    pool_result items (run_events (pool_act f items) sched (pool_start items) m) =
      collect_results (map (\<lambda>x. the (f x)) items)"
proof -
  from pool_fair_end [OF assms(1)] obtain k where
    k: "\<forall>m \<ge> k. pool_final (run_events (pool_act f items) sched (pool_start items) m)" by blast
  have "pool_result items (run_events (pool_act f items) sched (pool_start items) m) =
      collect_results (map (\<lambda>x. the (f x)) items)" if "m \<ge> k" for m
    using pool_ok_reach [OF pool_act_reach [of f items "pool_start items" sched m]] k that
      pool_result_sequential [OF _ _ assms(2)] by blast
  with k show ?thesis by blast
qed

theorem bounded_answers_witness:
  "\<exists>k. pool_result [1 :: nat, 6, 2] (run_events (pool_act sample_work [1, 6, 2]) (\<lambda>k. k mod 3) (pool_start [1 :: nat, 6, 2]) k) =
     Inl (Message ''6'')"
proof -
  have "\<exists>m \<ge> k. m mod 3 = i" if "i < 3" for i k :: nat
    by (rule exI [of _ "3 * k + i"]) (use that in simp)
  then have "fair_for {..<min WIDTH (length [1 :: nat, 6, 2])} (\<lambda>k. k mod 3)" by (auto simp: fair_for_def WIDTH_def)
  moreover have "\<forall>x \<in> set [1 :: nat, 6, 2]. sample_work x \<noteq> None" by code_simp
  from bounded_answers [OF calculation this] obtain k where k: "\<forall>m \<ge> k. pool_final (run_events (pool_act sample_work [1, 6, 2]) (\<lambda>k. k mod 3) (pool_start [1 :: nat, 6, 2]) m) \<and>
     pool_result [1 :: nat, 6, 2] (run_events (pool_act sample_work [1, 6, 2]) (\<lambda>k. k mod 3) (pool_start [1 :: nat, 6, 2]) m) =
       collect_results (map (\<lambda>x. the (sample_work x)) [1, 6, 2])" ..
  have "collect_results (map (\<lambda>x. the (sample_work x)) [1 :: nat, 6, 2]) = Inl (Message ''6'')" by code_simp
  with k [THEN spec, THEN mp, OF order_refl] show ?thesis by auto
qed

end
