(* ===== verification/Inline.thy ===== *)
theory Inline
  imports Patch "HOL-Library.Sublist"
begin

text \<open>
  Word marks, \<open>crates/core/src/inline.rs\<close>: a line is cut into tokens, the longest common
  subsequence of both sides' tokens is found over a flat table, and what is outside it
  is marked. Ranges are pairs of byte offsets. The Unicode property
  \<open>char::is_alphanumeric\<close> is the argument \<open>alnum\<close> on code points, and the
  single-precision test for more than 70 percent is written out on integers: the
  rounded quotient exceeds the single nearest to 0.7, which is 11744051 / 2^24, exactly when the
  quotient of the rounded operands is at least the midpoint to the next single, as the
  tie goes to the even one above.
\<close>

section \<open>Tokens\<close>

type_synonym ranges = "range list"

definition MAX_BYTES :: nat where
  "MAX_BYTES = 4096"

definition MAX_TOKENS :: nat where
  "MAX_TOKENS = 512"

definition word_char :: "(nat \<Rightarrow> bool) \<Rightarrow> str \<Rightarrow> bool" where
  "word_char alnum c \<longleftrightarrow> alnum (char_cp c) \<or> c = ''_''"

fun token_run :: "(nat \<Rightarrow> bool) \<Rightarrow> bool \<Rightarrow> bool \<Rightarrow> nat \<Rightarrow> str list \<Rightarrow> nat \<times> str list" where
  "token_run alnum word space stop [] = (stop, [])"
| "token_run alnum word space stop (c # cs) =
     (if word \<and> word_char alnum c \<or> space \<and> ws_char c
      then token_run alnum word space (stop + length c) cs
      else (stop, c # cs))"

lemma token_run_length: "length (snd (token_run alnum word space stop cs)) \<le> length cs"
  by (induction cs arbitrary: stop) (auto intro: le_SucI)

function tokens_loop :: "(nat \<Rightarrow> bool) \<Rightarrow> nat \<Rightarrow> nat \<Rightarrow> ranges \<Rightarrow> str list \<Rightarrow> ranges option" where
  "tokens_loop alnum max_tokens start out [] = Some out"
| "tokens_loop alnum max_tokens start out (c # cs) =
     (let (stop, cs') = token_run alnum (word_char alnum c) (ws_char c) (start + length c) cs;
          out' = out @ [(start, stop)] in
      if length out' > max_tokens then None else tokens_loop alnum max_tokens stop out' cs')"
  by pat_completeness auto
termination
  by (relation "measure (\<lambda>(_, _, _, _, cs). length cs)") (auto, metis le_imp_less_Suc snd_conv token_run_length)

definition tokens :: "(nat \<Rightarrow> bool) \<Rightarrow> str \<Rightarrow> nat \<Rightarrow> ranges option" where
  "tokens alnum s max_tokens = tokens_loop alnum max_tokens 0 [] (chars s)"

definition coalesce_into :: "ranges \<Rightarrow> range \<Rightarrow> ranges" where
  "coalesce_into out r =
     (if out \<noteq> [] \<and> snd (last out) = fst r then butlast out @ [(fst (last out), snd r)] else out @ [r])"

definition coalesce :: "ranges \<Rightarrow> ranges" where
  "coalesce v = foldl coalesce_into [] v"

section \<open>The longest common subsequence\<close>

fun fill_cells :: "'a list \<Rightarrow> 'a list \<Rightarrow> nat \<Rightarrow> nat \<Rightarrow> nat \<Rightarrow> nat list \<Rightarrow> nat list" where
  "fill_cells a b cols i 0 dp = dp"
| "fill_cells a b cols i (Suc j) dp =
     fill_cells a b cols i j
       (dp[i * cols + j :=
          if a ! i = b ! j then 1 + dp ! ((i + 1) * cols + j + 1)
          else max (dp ! ((i + 1) * cols + j)) (dp ! (i * cols + j + 1))])"

fun fill_rows :: "'a list \<Rightarrow> 'a list \<Rightarrow> nat \<Rightarrow> nat \<Rightarrow> nat list \<Rightarrow> nat list" where
  "fill_rows a b cols 0 dp = dp"
| "fill_rows a b cols (Suc i) dp = fill_rows a b cols i (fill_cells a b cols i (length b) dp)"

function trace_pairs :: "'a list \<Rightarrow> 'a list \<Rightarrow> nat \<Rightarrow> nat list \<Rightarrow> nat \<Rightarrow> nat \<Rightarrow> (nat \<times> nat) list" where
  "trace_pairs a b cols dp i j =
     (if i < length a \<and> j < length b then
        if a ! i = b ! j then (i, j) # trace_pairs a b cols dp (i + 1) (j + 1)
        else if dp ! ((i + 1) * cols + j) \<ge> dp ! (i * cols + j + 1) then trace_pairs a b cols dp (i + 1) j
        else trace_pairs a b cols dp i (j + 1)
      else [])"
  by pat_completeness auto
termination
  by (relation "measure (\<lambda>(a, b, cols, dp, i, j). (length a - i) + (length b - j))") auto

declare trace_pairs.simps [simp del]

definition lcs :: "'a list \<Rightarrow> 'a list \<Rightarrow> (nat \<times> nat) list" where
  "lcs a b =
     (if a = [] \<or> b = [] then []
      else let cols = length b + 1;
               dp = fill_rows a b cols (length a) (replicate ((length a + 1) * cols) 0) in
        trace_pairs a b cols dp 0 0)"

section \<open>Marks\<close>

definition piece :: "str \<Rightarrow> range \<Rightarrow> str" where
  "piece s r = slice (fst r) (snd r) s"

definition range_total :: "ranges \<Rightarrow> nat" where
  "range_total rs = sum_list (map (\<lambda>(a, b). b - a) rs)"

function bit_len :: "nat \<Rightarrow> nat" where
  "bit_len n = (if n = 0 then 0 else Suc (bit_len (n div 2)))"
  by pat_completeness auto
termination by (relation "measure id") auto

declare bit_len.simps [simp del]

definition as_f32 :: "nat \<Rightarrow> nat" where
  "as_f32 n =
     (if n < 2 ^ 24 then n
      else let e = bit_len n - 24; q = n div 2 ^ e; r = n mod 2 ^ e; half = 2 ^ (e - 1) in
        (if r > half \<or> (r = half \<and> odd q) then q + 1 else q) * 2 ^ e)"

definition over_fraction :: "ranges \<Rightarrow> nat \<Rightarrow> bool" where
  "over_fraction rs len \<longleftrightarrow> len > 0 \<and> as_f32 (range_total rs) * 2 ^ 25 \<ge> 23488103 * as_f32 len"

fun mark_gaps :: "'a list \<Rightarrow> 'b list \<Rightarrow> nat \<Rightarrow> nat \<Rightarrow> 'a list \<times> 'b list \<Rightarrow> (nat \<times> nat) list \<Rightarrow> 'a list \<times> 'b list" where
  "mark_gaps a b i j out [] = out"
| "mark_gaps a b i j out ((mi, mj) # ms) =
     mark_gaps a b (min (mi + 1) (length a)) (min (mj + 1) (length b))
       (fst out @ slice i mi a, snd out @ slice j mj b) ms"

definition fine :: "str \<Rightarrow> str \<Rightarrow> ranges \<Rightarrow> ranges \<Rightarrow> (ranges \<times> ranges) option" where
  "fine old new a b =
     (let ms = lcs (map (piece old) a) (map (piece new) b);
          (ra, rb) = mark_gaps a b 0 0 ([], []) (ms @ [(length a, length b)]) in
      if over_fraction ra (range_total a) \<or> over_fraction rb (range_total b) then None
      else Some (coalesce ra, coalesce rb))"

definition word_diff :: "(nat \<Rightarrow> bool) \<Rightarrow> str \<Rightarrow> str \<Rightarrow> ranges \<times> ranges" where
  "word_diff alnum old new =
     (if length old > MAX_BYTES \<or> length new > MAX_BYTES then ([], [])
      else case (tokens alnum old MAX_TOKENS, tokens alnum new MAX_TOKENS) of
        (Some a, Some b) \<Rightarrow> (case fine old new a b of Some r \<Rightarrow> r | None \<Rightarrow> ([], []))
      | _ \<Rightarrow> ([], []))"

definition span :: "ranges \<Rightarrow> ranges" where
  "span t = (if t = [] then [] else [(fst (hd t), snd (last t))])"

section \<open>Sentences\<close>

record sentence =
  sen_bytes :: range
  sen_tokens :: range

definition sentence_end :: "str \<Rightarrow> ranges \<Rightarrow> nat \<Rightarrow> bool" where
  "sentence_end txt toks i \<longleftrightarrow>
     (let p = piece txt (toks ! i) in
      (p \<in> {''.'', ''!'', ''?''} \<and> i + 1 < length toks \<and> list_all ws_char (chars (piece txt (toks ! (i + 1))))) \<or>
      LF \<in> set p \<or> i + 1 = length toks)"

fun sentences_loop :: "str \<Rightarrow> ranges \<Rightarrow> nat \<Rightarrow> nat list \<Rightarrow> sentence list" where
  "sentences_loop txt toks start [] = []"
| "sentences_loop txt toks start (i # is) =
     (if sentence_end txt toks i
      then \<lparr>sen_bytes = (fst (toks ! start), snd (toks ! i)), sen_tokens = (start, i + 1)\<rparr> #
        sentences_loop txt toks (i + 1) is
      else sentences_loop txt toks start is)"

definition sentences :: "str \<Rightarrow> ranges \<Rightarrow> sentence list" where
  "sentences txt toks = sentences_loop txt toks 0 [0..<length toks]"

definition refine_pair :: "str \<Rightarrow> str \<Rightarrow> ranges \<Rightarrow> ranges \<Rightarrow> nat \<Rightarrow> sentence \<times> sentence \<Rightarrow> ranges \<times> ranges" where
  "refine_pair old new a b max_tokens xy =
     (let (x, y) = xy;
          ta = slice (fst (sen_tokens x)) (snd (sen_tokens x)) a;
          tb = slice (fst (sen_tokens y)) (snd (sen_tokens y)) b in
      case (if length ta \<le> max_tokens \<and> length tb \<le> max_tokens then fine old new ta tb else None) of
        Some r \<Rightarrow> r
      | None \<Rightarrow> ([sen_bytes x], [sen_bytes y]))"

fun coarse_loop :: "str \<Rightarrow> str \<Rightarrow> ranges \<Rightarrow> ranges \<Rightarrow> nat \<Rightarrow> sentence list \<Rightarrow> sentence list \<Rightarrow> nat \<Rightarrow> nat \<Rightarrow>
    ranges \<times> ranges \<Rightarrow> (nat \<times> nat) list \<Rightarrow> ranges \<times> ranges" where
  "coarse_loop old new a b max_tokens ca cb i j out [] = out"
| "coarse_loop old new a b max_tokens ca cb i j out ((mi, mj) # ms) =
     (let paired = min (mi - i) (mj - j);
          refined = map (refine_pair old new a b max_tokens) (zip (slice i (i + paired) ca) (slice j (j + paired) cb)) in
      coarse_loop old new a b max_tokens ca cb (min (mi + 1) (length ca)) (min (mj + 1) (length cb))
        (fst out @ concat (map fst refined) @ map sen_bytes (slice (i + paired) mi ca),
         snd out @ concat (map snd refined) @ map sen_bytes (slice (j + paired) mj cb)) ms)"

definition coarse :: "str \<Rightarrow> str \<Rightarrow> ranges \<Rightarrow> ranges \<Rightarrow> nat \<Rightarrow> ranges \<times> ranges" where
  "coarse old new a b max_tokens =
     (let ca = sentences old a; cb = sentences new b in
      if length ca * length cb > 4000000 then (span a, span b)
      else
        let ms = lcs (map (\<lambda>c. trim (piece old (sen_bytes c))) ca) (map (\<lambda>c. trim (piece new (sen_bytes c))) cb);
            (ra, rb) = coarse_loop old new a b max_tokens ca cb 0 0 ([], []) (ms @ [(length ca, length cb)]) in
        (coalesce ra, coalesce rb))"

definition word_diff_with :: "(nat \<Rightarrow> bool) \<Rightarrow> str \<Rightarrow> str \<Rightarrow> nat \<Rightarrow> nat \<Rightarrow> ranges \<times> ranges" where
  "word_diff_with alnum old new max_bytes max_tokens =
     (if length old > max_bytes \<or> length new > max_bytes then ([], [])
      else
        let old = trim_end old; new = trim_end new in
        case (tokens alnum old u64_max, tokens alnum new u64_max) of
          (Some a, Some b) \<Rightarrow>
            let ta = map (piece old) a; tb = map (piece new) b;
                pre = common_len ta tb;
                suf = common_len (rev (drop pre ta)) (rev (drop pre tb));
                a = slice pre (length a - suf) a; b = slice pre (length b - suf) b in
            if a = [] \<and> b = [] then ([], [])
            else if length a \<le> max_tokens \<and> length b \<le> max_tokens then
              (case fine old new a b of Some r \<Rightarrow> r | None \<Rightarrow> (span a, span b))
            else coarse old new a b max_tokens
        | _ \<Rightarrow> ([], []))"

section \<open>The table and the trace\<close>

text \<open>The reference recurrence for the length of a longest common subsequence.\<close>

fun lcs_len :: "'a list \<Rightarrow> 'a list \<Rightarrow> nat" where
  "lcs_len (x # xs) (y # ys) = (if x = y then 1 + lcs_len xs ys else max (lcs_len xs (y # ys)) (lcs_len (x # xs) ys))"
| "lcs_len _ _ = 0"

lemma lcs_len_Nil [simp]: "lcs_len xs [] = 0" "lcs_len [] ys = 0"
  by (cases xs) simp_all

lemma subseq_lcs_len: "subseq zs xs \<Longrightarrow> subseq zs ys \<Longrightarrow> length zs \<le> lcs_len xs ys"
proof (induction xs ys arbitrary: zs rule: lcs_len.induct)
  case (1 x xs y ys)
  show ?case
  proof (cases zs)
    case (Cons z zs')
    show ?thesis
    proof (cases "x = y")
      case True
      have "subseq zs' xs" "subseq zs' ys" using 1(4,5) Cons by (auto simp: subseq_Cons2_iff split: if_splits dest: subseq_Cons')
      with 1(1) [OF True] True Cons show ?thesis by auto
    next
      case False
      with 1(4,5) Cons have "subseq zs xs \<or> subseq zs ys" by (auto split: if_splits)
      with 1(2,3) [OF False] 1(4,5) False show ?thesis by fastforce
    qed
  qed simp
qed (auto dest: list_emb_Nil2)

definition cell_ok :: "'a list \<Rightarrow> 'a list \<Rightarrow> nat list \<Rightarrow> nat \<Rightarrow> nat \<Rightarrow> bool" where
  "cell_ok a b dp i j \<longleftrightarrow> dp ! (i * (length b + 1) + j) = lcs_len (drop i a) (drop j b)"

definition rows_done :: "'a list \<Rightarrow> 'a list \<Rightarrow> nat \<Rightarrow> nat list \<Rightarrow> bool" where
  "rows_done a b n dp \<longleftrightarrow> length dp = (length a + 1) * (length b + 1) \<and>
     (\<forall>i j. n \<le> i \<longrightarrow> i \<le> length a \<longrightarrow> j \<le> length b \<longrightarrow> cell_ok a b dp i j) \<and>
     (\<forall>p < n * (length b + 1). dp ! p = 0)"

definition cells_done :: "'a list \<Rightarrow> 'a list \<Rightarrow> nat \<Rightarrow> nat \<Rightarrow> nat list \<Rightarrow> bool" where
  "cells_done a b n m dp \<longleftrightarrow> length dp = (length a + 1) * (length b + 1) \<and>
     (\<forall>i j. Suc n \<le> i \<longrightarrow> i \<le> length a \<longrightarrow> j \<le> length b \<longrightarrow> cell_ok a b dp i j) \<and>
     (\<forall>j. m \<le> j \<longrightarrow> j \<le> length b \<longrightarrow> cell_ok a b dp n j) \<and>
     (\<forall>p < n * (length b + 1) + m. dp ! p = 0)"

lemma cell_index_inj:
  assumes "(i :: nat) * (n + 1) + j = i' * (n + 1) + j'" "j \<le> n" "j' \<le> n"
  shows "i = i' \<and> j = j'"
proof -
  have "(i * (n + 1) + j) div (n + 1) = i" "(i' * (n + 1) + j') div (n + 1) = i'"
    using assms(2,3) div_mult_self3 [of "n + 1" i j] div_mult_self3 [of "n + 1" i' j'] by simp_all
  with assms(1) have "i = i'" by metis
  with assms(1) show ?thesis by simp
qed

lemma cell_index_bound:
  assumes "i \<le> la" "j \<le> (lb :: nat)"
  shows "i * (lb + 1) + j < (la + 1) * (lb + 1)"
proof -
  have "i * (lb + 1) \<le> la * (lb + 1)" using assms(1) by (rule mult_le_mono1)
  with assms(2) show ?thesis by simp
qed

lemma cell_ok_update:
  assumes "cell_ok a b dp i j" "i \<noteq> i' \<or> j \<noteq> j'" "j \<le> length b" "j' \<le> length b"
  shows "cell_ok a b (dp[i' * (length b + 1) + j' := v]) i j"
proof -
  have "i * (length b + 1) + j \<noteq> i' * (length b + 1) + j'" using cell_index_inj assms(2-4) by blast
  with assms(1) show ?thesis unfolding cell_ok_def by (metis nth_list_update_neq)
qed

lemma lcs_len_drop:
  assumes "i < length a" "j < length b"
  shows "lcs_len (drop i a) (drop j b) =
    (if a ! i = b ! j then 1 + lcs_len (drop (i + 1) a) (drop (j + 1) b)
     else max (lcs_len (drop (i + 1) a) (drop j b)) (lcs_len (drop i a) (drop (j + 1) b)))"
proof -
  have "drop i a = a ! i # drop (i + 1) a" "drop j b = b ! j # drop (j + 1) b"
    using assms by (simp_all add: Cons_nth_drop_Suc)
  then show ?thesis by simp
qed

lemma cells_done_step:
  assumes "cells_done a b n (Suc m) dp" "n < length a" "m < length b"
  shows "cells_done a b n m (dp[n * (length b + 1) + m :=
      if a ! n = b ! m then 1 + dp ! ((n + 1) * (length b + 1) + m + 1)
      else max (dp ! ((n + 1) * (length b + 1) + m)) (dp ! (n * (length b + 1) + m + 1))])"
    (is "cells_done a b n m (dp[?p := ?v])")
proof -
  have len: "length dp = (length a + 1) * (length b + 1)" using assms(1) by (simp add: cells_done_def)
  have below: "cell_ok a b dp (n + 1) (m + 1)" "cell_ok a b dp (n + 1) m" "cell_ok a b dp n (m + 1)"
    using assms by (simp_all add: cells_done_def)
  have "?v = lcs_len (drop n a) (drop m b)"
    using below unfolding lcs_len_drop [OF assms(2,3)] cell_ok_def by (simp add: add.assoc)
  moreover have "?p < length dp" using cell_index_bound [of n "length a" m "length b"] assms(2,3) len by simp
  ultimately have new: "cell_ok a b (dp[?p := ?v]) n m" unfolding cell_ok_def by simp
  have "cell_ok a b (dp[?p := ?v]) i j" if "Suc n \<le> i" "i \<le> length a" "j \<le> length b" for i j
    using that assms(1,3) by (intro cell_ok_update) (auto simp: cells_done_def)
  moreover have "cell_ok a b (dp[?p := ?v]) n j" if "m \<le> j" "j \<le> length b" for j
  proof (cases "j = m")
    case True
    with new show ?thesis by simp
  next
    case False
    with that assms(1,3) show ?thesis by (intro cell_ok_update) (auto simp: cells_done_def)
  qed
  moreover have "dp[?p := ?v] ! p = 0" if "p < n * (length b + 1) + m" for p
    using that assms(1) by (simp add: cells_done_def)
  ultimately show ?thesis using len by (simp add: cells_done_def)
qed

lemma fill_cells_done:
  assumes "cells_done a b n m dp" "n < length a" "m \<le> length b"
  shows "cells_done a b n 0 (fill_cells a b (length b + 1) n m dp)"
  using assms
proof (induction m arbitrary: dp)
  case (Suc m)
  note next_cell = cells_done_step [OF Suc.prems(1,2)]
  show ?case unfolding fill_cells.simps by (rule Suc.IH [OF next_cell]) (use Suc.prems in auto)
qed simp

lemma fill_rows_done:
  assumes "rows_done a b n dp" "n \<le> length a"
  shows "rows_done a b 0 (fill_rows a b (length b + 1) n dp)"
  using assms
proof (induction n arbitrary: dp)
  case (Suc n)
  have "cells_done a b n (length b) dp"
    using Suc.prems(1) by (auto simp: rows_done_def cells_done_def cell_ok_def le_antisym)
  then have "cells_done a b n 0 (fill_cells a b (length b + 1) n (length b) dp)"
    using Suc.prems(2) by (intro fill_cells_done) auto
  then have "rows_done a b n (fill_cells a b (length b + 1) n (length b) dp)"
    unfolding rows_done_def cells_done_def by (metis Suc_leI add.right_neutral le_neq_implies_less zero_le)
  with Suc show ?case by simp
qed simp

lemma table_done:
  "rows_done a b 0 (fill_rows a b (length b + 1) (length a) (replicate ((length a + 1) * (length b + 1)) 0))"
proof (rule fill_rows_done)
  have "cell_ok a b (replicate ((length a + 1) * (length b + 1)) 0) i j"
    if "length a \<le> i" "i \<le> length a" "j \<le> length b" for i j
    using that cell_index_bound [of i "length a" j "length b"] by (simp add: cell_ok_def del: replicate.simps mult_Suc mult_Suc_right add_mult_distrib2 distrib_left distrib_right)
  moreover have "replicate ((length a + 1) * (length b + 1)) (0 :: nat) ! p = 0" if "p < length a * (length b + 1)" for p
    by (rule nth_replicate) (use that in simp)
  ultimately show "rows_done a b (length a) (replicate ((length a + 1) * (length b + 1)) 0)"
    by (simp add: rows_done_def del: replicate.simps)
qed simp

definition pair_before :: "nat \<times> nat \<Rightarrow> nat \<times> nat \<Rightarrow> bool" where
  "pair_before p q \<longleftrightarrow> fst p < fst q \<and> snd p < snd q"

lemma trace_pairs_sound:
  assumes "rows_done a b 0 dp"
  shows "length (trace_pairs a b (length b + 1) dp i j) = lcs_len (drop i a) (drop j b) \<and>
    sorted_wrt pair_before (trace_pairs a b (length b + 1) dp i j) \<and>
    (\<forall>p \<in> set (trace_pairs a b (length b + 1) dp i j). i \<le> fst p \<and> fst p < length a \<and> j \<le> snd p \<and> snd p < length b \<and> a ! fst p = b ! snd p)"
  using assms
proof (induction a b "length b + 1" dp i j rule: trace_pairs.induct)
  case (1 a b dp i j)
  let ?t = "trace_pairs a b (length b + 1) dp"
  show ?case
  proof (cases "i < length a \<and> j < length b")
    case False
    then show ?thesis by (subst (1 2 3) trace_pairs.simps) auto
  next
    case True
    note ih = 1(1) [OF True] 1(2) [OF True] 1(3) [OF True]
    have cells: "cell_ok a b dp (i + 1) j" "cell_ok a b dp i (j + 1)" using 1(4) True by (auto simp: rows_done_def)
    show ?thesis
    proof (cases "a ! i = b ! j")
      case eq: True
      have t: "?t i j = (i, j) # ?t (i + 1) (j + 1)" using True eq by (subst trace_pairs.simps) simp
      show ?thesis using ih(1) [OF eq 1(4)] True eq lcs_len_drop [of i a j b]
        unfolding t by (auto simp: pair_before_def)
    next
      case neq: False
      have max: "lcs_len (drop i a) (drop j b) = max (dp ! ((i + 1) * (length b + 1) + j)) (dp ! (i * (length b + 1) + j + 1))"
        using cells lcs_len_drop [of i a j b] True neq by (simp add: cell_ok_def add.assoc)
      show ?thesis
      proof (cases "dp ! ((i + 1) * (length b + 1) + j) \<ge> dp ! (i * (length b + 1) + j + 1)")
        case up: True
        have t: "?t i j = ?t (i + 1) j" using True neq up by (subst trace_pairs.simps) simp
        show ?thesis using ih(2) [OF neq up 1(4)] max up cells(1) unfolding t cell_ok_def by auto
      next
        case down: False
        have t: "?t i j = ?t i (j + 1)" using True neq down by (subst trace_pairs.simps) simp
        show ?thesis using ih(3) [OF neq down 1(4)] max down cells(2) unfolding t cell_ok_def by (auto simp: add.assoc)
      qed
    qed
  qed
qed

lemma lcs_pairs:
  "length (lcs a b) = lcs_len a b \<and> sorted_wrt pair_before (lcs a b) \<and>
    (\<forall>p \<in> set (lcs a b). fst p < length a \<and> snd p < length b \<and> a ! fst p = b ! snd p)"
proof (cases "a = [] \<or> b = []")
  case False
  then have "lcs a b = trace_pairs a b (length b + 1)
      (fill_rows a b (length b + 1) (length a) (replicate ((length a + 1) * (length b + 1)) 0)) 0 0"
    by (simp only: lcs_def Let_def if_False)
  with trace_pairs_sound [OF table_done, of a b 0 0] show ?thesis by simp
qed (auto simp: lcs_def)

section \<open>Tokens cover the line\<close>

fun tiles :: "nat \<Rightarrow> ranges \<Rightarrow> nat \<Rightarrow> bool" where
  "tiles p [] q \<longleftrightarrow> p = q"
| "tiles p (r # rs) q \<longleftrightarrow> fst r = p \<and> fst r < snd r \<and> tiles (snd r) rs q"

lemma tiles_append: "tiles p (rs @ rs') q \<longleftrightarrow> (\<exists>m. tiles p rs m \<and> tiles m rs' q)"
  by (induction rs arbitrary: p) auto

lemma tiles_le: "tiles p rs q \<Longrightarrow> p \<le> q"
  by (induction rs arbitrary: p) force+

lemma token_run_takes:
  assumes "token_run alnum word space stop cs = (stop', cs')"
  shows "\<exists>ds. cs = ds @ cs' \<and> stop' = stop + length (concat ds)"
  using assms
proof (induction cs arbitrary: stop)
  case (Cons c cs)
  show ?case
  proof (cases "word \<and> word_char alnum c \<or> space \<and> ws_char c")
    case True
    with Cons obtain ds where "cs = ds @ cs'" "stop' = stop + length c + length (concat ds)" by auto
    then show ?thesis by (intro exI [of _ "c # ds"]) simp
  qed (use Cons in auto)
qed simp

lemma tokens_loop_tiles:
  assumes "tokens_loop alnum max_tokens start out cs = Some toks"
    and "tiles 0 out start" "chars s = ds @ cs" "start = length (concat ds)" "valid_utf8 s"
    and "\<forall>r \<in> set out. is_char_boundary s (fst r) \<and> is_char_boundary s (snd r)"
  shows "tiles 0 toks (length s) \<and> (\<forall>r \<in> set toks. is_char_boundary s (fst r) \<and> is_char_boundary s (snd r)) \<and>
    (length toks \<le> max_tokens \<or> toks = out)"
  using assms
proof (induction alnum max_tokens start out cs arbitrary: ds rule: tokens_loop.induct)
  case (1 alnum max_tokens start out)
  have "s = concat ds" using arg_cong [OF 1(3), of concat] by simp
  with 1 show ?case by simp
next
  case (2 alnum max_tokens start out c cs)
  obtain stop cs' where r: "token_run alnum (word_char alnum c) (ws_char c) (start + length c) cs = (stop, cs')" by fastforce
  then obtain es where es: "cs = es @ cs'" "stop = start + length c + length (concat es)" using token_run_takes by blast
  have rest: "tokens_loop alnum max_tokens stop (out @ [(start, stop)]) cs' = Some toks"
    and few: "\<not> length (out @ [(start, stop)]) > max_tokens"
    using 2(2) r by (auto simp: Let_def split: if_splits)
  have "c \<noteq> []" using 2(4) chars_nonempty [of s] by auto
  then have "tiles 0 (out @ [(start, stop)]) stop" using 2(3) es by (auto simp: tiles_append)
  moreover have cs: "chars s = (ds @ c # es) @ cs'" "stop = length (concat (ds @ c # es))" using 2(4,5) es by simp_all
  moreover have "is_char_boundary s start" "is_char_boundary s stop"
    using chars_boundary [OF 2(6) 2(4)] chars_boundary [OF 2(6) cs(1)] cs(2) 2(5) by simp_all
  ultimately show ?case using 2(1) [OF r [symmetric] refl refl few rest, of "ds @ c # es"] 2(6,7) few by auto
qed

lemma tokens_tile:
  assumes "tokens alnum s max_tokens = Some toks" "valid_utf8 s"
  shows "tiles 0 toks (length s) \<and> (\<forall>r \<in> set toks. is_char_boundary s (fst r) \<and> is_char_boundary s (snd r)) \<and>
    length toks \<le> max_tokens"
  using tokens_loop_tiles [OF assms(1) [unfolded tokens_def], of s "[]"] assms(2) by auto

section \<open>What is left outside the marks\<close>

fun kept :: "nat \<Rightarrow> ranges \<Rightarrow> str \<Rightarrow> str" where
  "kept pos [] s = drop pos s"
| "kept pos (r # rs) s = slice pos (fst r) s @ kept (snd r) rs s"

lemma coalesce_keeps: "kept pos (coalesce rs) s = kept pos rs s"
proof -
  have snoc: "kept p (xs @ [r, r'] @ rs) s = kept p (xs @ [(fst r, snd r')] @ rs) s" if "snd r = fst r'" for p xs r r' and rs :: ranges
    using that by (induction xs arbitrary: p) auto
  have "kept pos (foldl coalesce_into out rs) s = kept pos (out @ rs) s" for out
  proof (induction rs arbitrary: out)
    case (Cons r rs)
    have "kept pos (coalesce_into out r @ rs) s = kept pos (out @ r # rs) s"
      using snoc [of "last out" r pos "butlast out" rs]
      by (cases out rule: rev_cases) (auto simp: coalesce_into_def)
    with Cons show ?case by simp
  qed simp
  from this [of "[]"] show ?thesis by (simp add: coalesce_def)
qed

definition tile_start :: "ranges \<Rightarrow> nat \<Rightarrow> nat \<Rightarrow> nat" where
  "tile_start a q k = (if k < length a then fst (a ! k) else q)"

lemma tiles_nth:
  assumes "tiles p a q" "k < length a"
  shows "snd (a ! k) = tile_start a q (Suc k) \<and> fst (a ! k) < snd (a ! k)"
  using assms
proof (induction a arbitrary: p k)
  case (Cons r a)
  show ?case
  proof (cases k)
    case 0
    with Cons.prems show ?thesis by (cases a) (auto simp: tile_start_def)
  next
    case (Suc m)
    with Cons.IH [of "snd r" m] Cons.prems show ?thesis by (auto simp: tile_start_def)
  qed
qed simp

lemma tile_start_0: "tiles p a q \<Longrightarrow> tile_start a q 0 = p"
  by (cases a) (auto simp: tile_start_def)

lemma tile_start_mono:
  assumes "tiles p a q" "k \<le> m"
  shows "tile_start a q k \<le> tile_start a q m"
proof (cases "m \<le> length a")
  case True
  from assms(2) show ?thesis
    using True
  proof (induction m rule: dec_induct)
    case (step m)
    then show ?case using tiles_nth [OF assms(1), of m] by (auto simp: tile_start_def)
  qed simp
next
  case False
  have "tile_start a q k \<le> q" if "k < length a"
    using that
  proof (induction "length a - k" arbitrary: k)
    case (Suc n)
    show ?case
    proof (cases "Suc k < length a")
      case True
      with Suc have "tile_start a q (Suc k) \<le> q" by auto
      with tiles_nth [OF assms(1) \<open>k < length a\<close>] Suc.prems show ?thesis by (simp add: tile_start_def)
    next
      case False
      with tiles_nth [OF assms(1) \<open>k < length a\<close>] Suc.prems show ?thesis by (simp add: tile_start_def)
    qed
  qed simp
  with False show ?thesis by (auto simp: tile_start_def)
qed

lemma kept_block:
  assumes "tiles p a q" "i \<le> m" "m \<le> length a"
  shows "kept (tile_start a q i) (slice i m a @ rs) s = kept (tile_start a q m) rs s"
  using assms(2,3)
proof (induction "m - i" arbitrary: i)
  case (Suc n)
  then have i: "i < m" "i < length a" by auto
  then have "slice i m a = a ! i # slice (Suc i) m a" by (intro slice_Suc)
  moreover have "kept (tile_start a q (Suc i)) (slice (Suc i) m a @ rs) s = kept (tile_start a q m) rs s"
    using Suc i by auto
  ultimately show ?case using i tiles_nth [OF assms(1) i(2)] by (simp add: tile_start_def)
qed simp

fun starts_from :: "nat \<Rightarrow> ranges \<Rightarrow> bool" where
  "starts_from p [] \<longleftrightarrow> True"
| "starts_from p (r # rs) \<longleftrightarrow> p \<le> fst r"

lemma kept_tile:
  assumes "x \<le> y" "starts_from y rs"
  shows "kept x rs s = slice x y s @ kept y rs s"
proof (cases rs)
  case Nil
  show ?thesis using assms(1) Nil by (simp add: slice_def) (metis append_take_drop_id drop_drop le_add_diff_inverse2)
next
  case (Cons r rs')
  then show ?thesis using assms slice_append [of x y "fst r" s] by simp
qed

lemma tiles_sorted: "tiles p a q \<Longrightarrow> sorted_wrt (\<lambda>r r'. snd r \<le> fst r') a \<and> (\<forall>r \<in> set a. p \<le> fst r \<and> fst r < snd r \<and> snd r \<le> q)"
proof (induction a arbitrary: p)
  case (Cons r a)
  then show ?case using tiles_le [of "snd r" a q] by fastforce
qed simp

fun gaps :: "'a list \<Rightarrow> nat \<Rightarrow> nat list \<Rightarrow> 'a list" where
  "gaps a i [] = []"
| "gaps a i (m # ms) = slice i m a @ gaps a (min (m + 1) (length a)) ms"

lemma mark_gaps_sides: "mark_gaps a b i j out ms = (fst out @ gaps a i (map fst ms), snd out @ gaps b j (map snd ms))"
  by (induction a b i j out ms rule: mark_gaps.induct) auto

lemma slice_mem: "r \<in> set (slice i m a) \<Longrightarrow> \<exists>k. i \<le> k \<and> k < m \<and> k < length a \<and> r = a ! k"
  by (auto simp: slice_def in_set_conv_nth) (metis add.commute add_less_cancel_left le_add1 less_diff_conv nth_drop)

lemma gaps_from: "r \<in> set (gaps a i ms) \<Longrightarrow> i \<le> length a \<Longrightarrow> sorted_wrt (<) (i # map Suc ms) \<Longrightarrow> \<exists>k. i \<le> k \<and> k < length a \<and> r = a ! k"
proof (induction a i ms rule: gaps.induct)
  case (2 a i m ms)
  show ?case
  proof (cases "r \<in> set (slice i m a)")
    case True
    then show ?thesis using slice_mem by fast
  next
    case False
    then have r: "r \<in> set (gaps a (min (m + 1) (length a)) ms)" using 2(2) by simp
    have le: "i \<le> min (m + 1) (length a)" using 2(3,4) by simp
    obtain k where "min (m + 1) (length a) \<le> k" "k < length a" "r = a ! k"
      using 2(1) [OF r] 2(4) by (auto simp: min_less_iff_disj)
    with le show ?thesis by (intro exI [of _ k]) linarith
  qed
qed simp

lemma gaps_starts_from:
  assumes "tiles p a q" "i \<le> length a" "sorted_wrt (<) (i # map Suc ms)"
  shows "starts_from (tile_start a q i) (gaps a i ms)"
proof (cases "gaps a i ms")
  case (Cons r rs)
  then obtain k where k: "i \<le> k" "k < length a" "r = a ! k" using gaps_from [OF _ assms(2,3), of r] by auto
  with tile_start_mono [OF assms(1) k(1)] Cons show ?thesis by (simp add: tile_start_def)
qed simp

lemma kept_gaps:
  assumes "tiles p a q" "sorted_wrt (<) ms" "\<forall>m \<in> set ms. i \<le> m \<and> m < length a" "i \<le> length a"
  shows "kept (tile_start a q i) (gaps a i (ms @ [length a])) s = concat (map (\<lambda>m. piece s (a ! m)) ms) @ drop q s"
  using assms(2-4)
proof (induction ms arbitrary: i)
  case Nil
  then show ?case using kept_block [OF assms(1), of i "length a" "[]" s] by (simp add: tile_start_def)
next
  case (Cons m ms)
  then have m: "i \<le> m" "m < length a" by auto
  let ?R = "gaps a (Suc m) (ms @ [length a])"
  have "kept (tile_start a q i) (gaps a i ((m # ms) @ [length a])) s = kept (tile_start a q m) ?R s"
    using kept_block [OF assms(1), of i m ?R s] m by (simp add: min_def)
  also have "\<dots> = slice (tile_start a q m) (tile_start a q (Suc m)) s @ kept (tile_start a q (Suc m)) ?R s"
    by (intro kept_tile tile_start_mono [OF assms(1)] gaps_starts_from [OF assms(1)])
      (use Cons.prems m in \<open>auto simp: sorted_wrt_append sorted_wrt_map\<close>)
  also have "slice (tile_start a q m) (tile_start a q (Suc m)) s = piece s (a ! m)"
    using tiles_nth [OF assms(1) m(2)] m(2) by (simp add: piece_def tile_start_def)
  also have "kept (tile_start a q (Suc m)) ?R s = concat (map (\<lambda>m. piece s (a ! m)) ms) @ drop q s"
    by (rule Cons.IH) (use Cons.prems m in auto)
  finally show ?case by simp
qed

lemma pair_before_sides: "sorted_wrt pair_before ms \<Longrightarrow> sorted_wrt (<) (map fst ms) \<and> sorted_wrt (<) (map snd ms)"
  by (induction ms) (auto simp: pair_before_def)

lemma fine_shape:
  assumes "fine old new a b = Some (ra, rb)"
  obtains ms where "ra = coalesce (gaps a 0 (map fst ms @ [length a]))" "rb = coalesce (gaps b 0 (map snd ms @ [length b]))"
    "sorted_wrt (<) (map fst ms)" "sorted_wrt (<) (map snd ms)"
    "\<forall>p \<in> set ms. fst p < length a \<and> snd p < length b \<and> piece old (a ! fst p) = piece new (b ! snd p)"
    "sorted_wrt (<) (0 # map Suc (map fst ms @ [length a]))" "sorted_wrt (<) (0 # map Suc (map snd ms @ [length b]))"
proof -
  let ?ms = "lcs (map (piece old) a) (map (piece new) b)"
  note l = lcs_pairs [of "map (piece old) a" "map (piece new) b"]
  note s = pair_before_sides [OF conjunct1 [OF conjunct2 [OF l]]]
  have r: "ra = coalesce (gaps a 0 (map fst ?ms @ [length a]))" "rb = coalesce (gaps b 0 (map snd ?ms @ [length b]))"
    using assms by (auto simp: fine_def Let_def mark_gaps_sides split: if_splits)
  have bounds: "\<forall>p \<in> set ?ms. fst p < length a \<and> snd p < length b \<and> piece old (a ! fst p) = piece new (b ! snd p)"
    using l by auto
  have "sorted_wrt (<) (0 # map Suc (map fst ?ms @ [length a]))" "sorted_wrt (<) (0 # map Suc (map snd ?ms @ [length b]))"
    using bounds s by (auto simp: sorted_wrt_append sorted_wrt_map)
  with that [of ?ms] r s bounds show ?thesis by blast
qed

lemma fine_kept:
  assumes f: "fine old new a b = Some (ra, rb)" and a: "tiles p a q" and b: "tiles p' b q'"
  shows "\<exists>common. kept p ra old = common @ drop q old \<and> kept p' rb new = common @ drop q' new"
  using f
proof (rule fine_shape, goal_cases)
  case (1 ms)
  have "kept p ra old = concat (map (\<lambda>m. piece old (a ! m)) (map fst ms)) @ drop q old"
    unfolding 1 coalesce_keeps tile_start_0 [OF a, symmetric] by (rule kept_gaps [OF a]) (use 1 in auto)
  moreover have "kept p' rb new = concat (map (\<lambda>m. piece new (b ! m)) (map snd ms)) @ drop q' new"
    unfolding 1 coalesce_keeps tile_start_0 [OF b, symmetric] by (rule kept_gaps [OF b]) (use 1 in auto)
  moreover have "map (\<lambda>m. piece old (a ! m)) (map fst ms) = map (\<lambda>m. piece new (b ! m)) (map snd ms)"
    using 1 by auto
  ultimately show ?case by metis
qed

section \<open>The shape of the marks\<close>

definition marks_ok :: "nat \<Rightarrow> nat \<Rightarrow> ranges \<Rightarrow> bool" where
  "marks_ok p q rs \<longleftrightarrow> sorted_wrt (\<lambda>r r'. snd r < fst r') rs \<and> (\<forall>r \<in> set rs. p \<le> fst r \<and> fst r < snd r \<and> snd r \<le> q)"

lemma coalesce_into_ok:
  assumes "marks_ok p q out" "p \<le> fst r" "fst r < snd r" "snd r \<le> q" "\<forall>w \<in> set out. snd w \<le> fst r"
  shows "marks_ok p q (coalesce_into out r) \<and> (\<forall>w \<in> set (coalesce_into out r). snd w \<le> snd r)"
proof (cases out rule: rev_cases)
  case Nil
  with assms show ?thesis by (simp add: marks_ok_def coalesce_into_def)
next
  case (snoc ys y)
  have ys: "sorted_wrt (\<lambda>r r'. snd r < fst r') ys" "\<forall>w \<in> set ys. p \<le> fst w \<and> fst w < snd w \<and> snd w \<le> q \<and> snd w < fst y"
    "p \<le> fst y" "fst y < snd y" "snd y \<le> fst r"
    using assms(1,5) by (auto simp: snoc marks_ok_def sorted_wrt_append)
  then have "\<forall>w \<in> set ys. snd w < fst r \<and> snd w \<le> snd r" using assms(3) by fastforce
  with ys assms(2-4) show ?thesis by (simp add: snoc marks_ok_def coalesce_into_def sorted_wrt_append)
qed

lemma coalesce_ok:
  assumes "sorted_wrt (\<lambda>r r'. snd r \<le> fst r') rs" "\<forall>r \<in> set rs. p \<le> fst r \<and> fst r < snd r \<and> snd r \<le> q"
  shows "marks_ok p q (coalesce rs)"
proof -
  have "marks_ok p q (foldl coalesce_into out rs)"
    if "marks_ok p q out" "\<forall>w \<in> set out. \<forall>r \<in> set rs. snd w \<le> fst r" for out
    using that assms
  proof (induction rs arbitrary: out)
    case (Cons r rs)
    have "marks_ok p q (coalesce_into out r) \<and> (\<forall>w \<in> set (coalesce_into out r). snd w \<le> snd r)"
      using Cons.prems by (intro coalesce_into_ok) auto
    moreover have "\<forall>x \<in> set rs. snd r \<le> fst x" using Cons.prems(3) by simp
    ultimately have "\<forall>w \<in> set (coalesce_into out r). \<forall>x \<in> set rs. snd w \<le> fst x" "marks_ok p q (coalesce_into out r)"
      by (meson order_trans)+
    with Cons show ?case by simp
  qed simp
  from this [of "[]"] show ?thesis by (simp add: coalesce_def marks_ok_def)
qed

lemma gaps_sorted:
  assumes "sorted_wrt P a" "sorted_wrt (<) (i # map Suc ms)" "i \<le> length a"
  shows "sorted_wrt P (gaps a i ms)"
  using assms(2,3)
proof (induction ms arbitrary: i)
  case (Cons m ms)
  have rest: "sorted_wrt (<) (min (m + 1) (length a) # map Suc ms)" using Cons.prems by (auto simp: min_less_iff_disj)
  have "sorted_wrt P (slice i m a)" using assms(1) by (simp add: slice_def sorted_wrt_take sorted_wrt_drop)
  moreover have "P x y" if xy: "x \<in> set (slice i m a)" "y \<in> set (gaps a (min (m + 1) (length a)) ms)" for x y
  proof -
    obtain k where k: "k < m" "k < length a" "x = a ! k" using slice_mem [OF xy(1)] by blast
    obtain k' where k': "min (m + 1) (length a) \<le> k'" "k' < length a" "y = a ! k'" using gaps_from [OF xy(2) _ rest] by auto
    have "k < k'" using k k' by linarith
    with k k' assms(1) show ?thesis by (simp add: sorted_wrt_nth_less)
  qed
  ultimately show ?case using Cons.IH [OF rest] by (simp add: sorted_wrt_append)
qed simp

lemma fine_marks:
  assumes f: "fine old new a b = Some (ra, rb)" and a: "tiles p a q" and b: "tiles p' b q'"
  shows "marks_ok p q ra \<and> marks_ok p' q' rb"
  using f
proof (rule fine_shape, goal_cases)
  case (1 ms)
  have "\<forall>r \<in> set (gaps a 0 (map fst ms @ [length a])). p \<le> fst r \<and> fst r < snd r \<and> snd r \<le> q"
    using gaps_from [OF _ _ 1(6)] tiles_sorted [OF a] by fastforce
  moreover have "\<forall>r \<in> set (gaps b 0 (map snd ms @ [length b])). p' \<le> fst r \<and> fst r < snd r \<and> snd r \<le> q'"
    using gaps_from [OF _ _ 1(7)] tiles_sorted [OF b] by fastforce
  ultimately show ?case unfolding 1(1,2)
    using gaps_sorted [OF conjunct1 [OF tiles_sorted [OF a]] 1(6)] gaps_sorted [OF conjunct1 [OF tiles_sorted [OF b]] 1(7)]
    by (auto intro: coalesce_ok)
qed

lemma coalesce_ends:
  assumes "r \<in> set (coalesce rs)"
  shows "fst r \<in> fst ` set rs \<and> snd r \<in> snd ` set rs"
proof -
  have "fst r \<in> fst ` (set out \<union> set rs) \<and> snd r \<in> snd ` (set out \<union> set rs)"
    if "r \<in> set (foldl coalesce_into out rs)" for out
    using that
  proof (induction rs arbitrary: out)
    case (Cons x rs)
    then have "fst r \<in> fst ` (set (coalesce_into out x) \<union> set rs) \<and> snd r \<in> snd ` (set (coalesce_into out x) \<union> set rs)" by simp
    moreover have "fst ` set (coalesce_into out x) \<subseteq> fst ` (set out \<union> {x})" "snd ` set (coalesce_into out x) \<subseteq> snd ` (set out \<union> {x})"
      by (cases out rule: rev_cases; auto simp: coalesce_into_def)+
    ultimately show ?case by (auto simp: image_Un)
  qed auto
  from this [of "[]"] assms show ?thesis by (simp add: coalesce_def)
qed

lemma gaps_subset: "set (gaps a i ms) \<subseteq> set a"
  by (induction a i ms rule: gaps.induct) (auto simp: slice_def dest!: in_set_takeD in_set_dropD)

lemma fine_ends:
  assumes "fine old new a b = Some (ra, rb)"
  shows "(\<forall>r \<in> set ra. fst r \<in> fst ` set a \<and> snd r \<in> snd ` set a) \<and> (\<forall>r \<in> set rb. fst r \<in> fst ` set b \<and> snd r \<in> snd ` set b)"
  using assms
proof (rule fine_shape, goal_cases)
  case (1 ms)
  have sub: "set (gaps a 0 (map fst ms @ [length a])) \<subseteq> set a" "set (gaps b 0 (map snd ms @ [length b])) \<subseteq> set b"
    by (rule gaps_subset)+
  show ?case unfolding 1(1,2)
    by (intro conjI ballI; drule coalesce_ends) (use sub in blast)+
qed

lemma tiles_slice:
  assumes "tiles p a q" "i \<le> m" "m \<le> length a"
  shows "tiles (tile_start a q i) (slice i m a) (tile_start a q m)"
  using assms(2,3)
proof (induction "m - i" arbitrary: i)
  case (Suc n)
  then have i: "i < m" "i < length a" by auto
  then have "slice i m a = a ! i # slice (Suc i) m a" by (intro slice_Suc)
  moreover have "tiles (tile_start a q (Suc i)) (slice (Suc i) m a) (tile_start a q m)" using Suc i by auto
  ultimately show ?case using i tiles_nth [OF assms(1) i(2)] by (simp add: tile_start_def)
qed simp

lemma tiles_text: "tiles p a q \<Longrightarrow> slice p q s = concat (map (piece s) a)"
proof (induction a arbitrary: p)
  case (Cons r a)
  then show ?case using slice_append [of p "snd r" q s] tiles_le [of "snd r" a q] by (simp add: piece_def)
qed simp

lemma kept_prefix:
  assumes "marks_ok p q rs"
  shows "kept 0 rs s = take p s @ kept p rs s"
proof -
  have "starts_from p rs" using assms by (cases rs) (auto simp: marks_ok_def)
  from kept_tile [OF _ this, of 0 s] show ?thesis by (simp add: slice_def)
qed

lemma tiles_span: "tiles p a q \<Longrightarrow> span a = (if a = [] then [] else [(p, q)])"
proof (induction a arbitrary: p)
  case (Cons r a)
  then show ?case by (cases a) (auto simp: span_def split: if_splits)
qed (simp add: span_def)

lemma span_kept: "tiles p a q \<Longrightarrow> kept p (span a) s = drop q s"
  by (auto simp: tiles_span)

lemma span_marks: "tiles p a q \<Longrightarrow> marks_ok p q (span a)"
  using tiles_sorted [of p a q] by (cases a) (auto simp: tiles_span marks_ok_def)

lemma valid_trim_end:
  assumes "valid_utf8 s"
  shows "valid_utf8 (trim_end s)"
proof -
  have cs: "chars s = rev (dropWhile ws_char (rev (chars s))) @ rev (takeWhile ws_char (rev (chars s)))"
    by (metis rev_append rev_rev_ident takeWhile_dropWhile_id)
  have "is_char_boundary s (length (trim_end s))"
    unfolding trim_end_def by (rule chars_boundary [OF assms cs])
  moreover have "trim_end s = take (length (trim_end s)) s" using trim_end_prefix [of s] by (metis append_eq_conv_conj)
  ultimately show ?thesis using valid_utf8_boundary [OF assms] by metis
qed

lemma word_diff_ranges:
  assumes "valid_utf8 old" "valid_utf8 new" "word_diff alnum old new = (ra, rb)"
  shows "marks_ok 0 (length old) ra \<and> marks_ok 0 (length new) rb"
proof (cases "(ra, rb) = ([], [])")
  case False
  with assms(3) obtain a b where t: "tokens alnum old MAX_TOKENS = Some a" "tokens alnum new MAX_TOKENS = Some b"
    and f: "fine old new a b = Some (ra, rb)"
    by (auto simp: word_diff_def split: if_splits option.splits)
  show ?thesis using fine_marks [OF f] tokens_tile [OF t(1) assms(1)] tokens_tile [OF t(2) assms(2)] by auto
qed (simp add: marks_ok_def)

section \<open>Properties\<close>

text \<open>
  Claim C18. The token comparison finds a longest common subsequence: the pairs that the
  table walk returns are in range, increasing on both sides and join equal tokens, and
  no common subsequence of the two token lists is longer.
\<close>

theorem lcs_longest:
  assumes "subseq zs a" "subseq zs b"
  shows "length zs \<le> length (lcs a b) \<and> sorted_wrt pair_before (lcs a b) \<and>
    (\<forall>(i, j) \<in> set (lcs a b). i < length a \<and> j < length b \<and> a ! i = b ! j)"
  using subseq_lcs_len [OF assms] lcs_pairs [of a b] by auto

theorem lcs_longest_witness:
  "length ''bd'' \<le> length (lcs ''abcd'' ''xbyd'') \<and> lcs ''abcd'' ''xbyd'' = [(1, 1), (3, 3)]"
proof -
  have "subseq ''bd'' ''abcd''" "subseq ''bd'' ''xbyd''" by simp_all
  from lcs_longest [OF this] show ?thesis by (intro conjI) (blast, code_simp)
qed

text \<open>
  Claim C19. The word marks of a line are honest: when they are not blank, each side's
  marks are non-empty, increasing, separated ranges of that side on character
  boundaries, and the text left outside the marks is the same on both sides.
\<close>

theorem word_diff_marks:
  assumes "valid_utf8 old" "valid_utf8 new" "word_diff alnum old new = (ra, rb)" "(ra, rb) \<noteq> ([], [])"
  shows "marks_ok 0 (length old) ra \<and> marks_ok 0 (length new) rb \<and> kept 0 ra old = kept 0 rb new \<and>
    (\<forall>r \<in> set ra. str_get old (fst r) (snd r) = Some (piece old r)) \<and>
    (\<forall>r \<in> set rb. str_get new (fst r) (snd r) = Some (piece new r))"
proof -
  obtain a b where t: "tokens alnum old MAX_TOKENS = Some a" "tokens alnum new MAX_TOKENS = Some b"
    and f: "fine old new a b = Some (ra, rb)"
    using assms(3,4) by (auto simp: word_diff_def split: if_splits option.splits)
  note ta = tokens_tile [OF t(1) assms(1)] and tb = tokens_tile [OF t(2) assms(2)]
  have m: "marks_ok 0 (length old) ra" "marks_ok 0 (length new) rb" using word_diff_ranges [OF assms(1-3)] by auto
  moreover have "kept 0 ra old = kept 0 rb new" using fine_kept [OF f] ta tb by force
  moreover have "str_get old (fst r) (snd r) = Some (piece old r)" if "r \<in> set ra" for r
    using fine_ends [OF f] that ta m(1) by (fastforce simp: str_get_def piece_def marks_ok_def)
  moreover have "str_get new (fst r) (snd r) = Some (piece new r)" if "r \<in> set rb" for r
    using fine_ends [OF f] that tb m(2) by (fastforce simp: str_get_def piece_def marks_ok_def)
  ultimately show ?thesis by blast
qed

definition ascii_alnum :: "nat \<Rightarrow> bool" where
  "ascii_alnum cp \<longleftrightarrow> cp < 128 \<and> is_ascii_alphanumeric (of_byte cp)"

theorem word_diff_marks_witness:
  "word_diff ascii_alnum ''let a = beta;'' ''let a = gamma;'' = ([(8, 12)], [(8, 13)]) \<and>
   kept 0 [(8, 12)] ''let a = beta;'' = kept 0 [(8, 13)] ''let a = gamma;''"
proof -
  have "valid_utf8 ''let a = beta;''" "valid_utf8 ''let a = gamma;''" by code_simp+
  moreover have w: "word_diff ascii_alnum ''let a = beta;'' ''let a = gamma;'' = ([(8, 12)], [(8, 13)])" by code_simp
  moreover have "([(8 :: nat, 12 :: nat)], [(8 :: nat, 13 :: nat)]) \<noteq> ([], [])" by simp
  ultimately show ?thesis using word_diff_marks by blast
qed

lemma tiles_take_text:
  assumes "tiles 0 a n" "k \<le> length a"
  shows "take (tile_start a n k) s = concat (map (piece s) (take k a))"
  using tiles_text [OF tiles_slice [OF assms(1), of 0 k], of s] assms tile_start_0 [OF assms(1)] by (simp add: slice_def)

lemma tiles_drop_text:
  assumes "tiles 0 a (length s)" "k \<le> length a"
  shows "drop (tile_start a (length s) k) s = concat (map (piece s) (drop k a))"
  using tiles_text [OF tiles_slice [OF assms(1), of k "length a"], of s] assms by (simp add: slice_def tile_start_def)

lemma marks_ok_widen: "marks_ok p q rs \<Longrightarrow> p' \<le> p \<Longrightarrow> q \<le> q' \<Longrightarrow> marks_ok p' q' rs"
  by (auto simp: marks_ok_def)

lemma inner_marks:
  assumes "tiles p a q" "tiles p' b q'"
    and "(ra, rb) = (if a = [] \<and> b = [] then ([], []) else case fine s t a b of Some r \<Rightarrow> r | None \<Rightarrow> (span a, span b))"
  shows "marks_ok p q ra \<and> marks_ok p' q' rb \<and>
    (\<exists>common. kept p ra s = common @ drop q s \<and> kept p' rb t = common @ drop q' t)"
proof (cases "a = [] \<and> b = []")
  case True
  with assms show ?thesis by (auto simp: marks_ok_def)
next
  case False
  show ?thesis
  proof (cases "fine s t a b")
    case None
    with False assms(3) have "ra = span a" "rb = span b" by auto
    then show ?thesis using span_marks span_kept assms(1,2) by auto
  next
    case (Some r)
    with False assms(3) have f: "fine s t a b = Some (ra, rb)" by (metis option.simps(5))
    show ?thesis using fine_marks [OF f assms(1,2)] fine_kept [OF f assms(1,2)] by simp
  qed
qed

lemma word_diff_with_inner:
  assumes "length old \<le> max_bytes" "length new \<le> max_bytes"
    and "tokens alnum (trim_end old) u64_max = Some a" "tokens alnum (trim_end new) u64_max = Some b"
    and "length a \<le> max_tokens" "length b \<le> max_tokens"
    and "pre = common_len (map (piece (trim_end old)) a) (map (piece (trim_end new)) b)"
    and "suf = common_len (rev (drop pre (map (piece (trim_end old)) a))) (rev (drop pre (map (piece (trim_end new)) b)))"
    and "a' = slice pre (length a - suf) a" "b' = slice pre (length b - suf) b"
  shows "word_diff_with alnum old new max_bytes max_tokens =
    (if a' = [] \<and> b' = [] then ([], []) else
       case fine (trim_end old) (trim_end new) a' b' of Some r \<Rightarrow> r | None \<Rightarrow> (span a', span b'))"
proof -
  have "length a' \<le> max_tokens" "length b' \<le> max_tokens" using assms(5,6,9,10) by (auto simp: slice_def)
  with assms(1-6) show ?thesis
    unfolding word_diff_with_def Let_def
    by (simp only: assms(7) [symmetric] assms(8) [symmetric] assms(9) [symmetric] assms(10) [symmetric]
        not_less [symmetric] if_False if_True simp_thms option.case prod.case)
qed

text \<open>
  The prose marks are honest too: for texts within the byte limit whose
  tokens stay within the token limit, the marks of \<open>word_diff_with\<close> are separated ranges
  of the texts without their trailing white space, and removing them leaves the same
  text on both sides. There is no mark only if those texts are equal.
\<close>

theorem word_diff_with_marks:
  assumes "valid_utf8 old" "valid_utf8 new" "length old \<le> max_bytes" "length new \<le> max_bytes"
    and "tokens alnum (trim_end old) u64_max = Some a" "tokens alnum (trim_end new) u64_max = Some b"
    and "length a \<le> max_tokens" "length b \<le> max_tokens"
    and w: "word_diff_with alnum old new max_bytes max_tokens = (ra, rb)"
  shows "marks_ok 0 (length (trim_end old)) ra \<and> marks_ok 0 (length (trim_end new)) rb \<and>
    kept 0 ra (trim_end old) = kept 0 rb (trim_end new) \<and>
    (ra = [] \<and> rb = [] \<longrightarrow> trim_end old = trim_end new)"
proof -
  define s t where st: "s = trim_end old" "t = trim_end new"
  define pre where "pre = common_len (map (piece s) a) (map (piece t) b)"
  define suf where "suf = common_len (rev (drop pre (map (piece s) a))) (rev (drop pre (map (piece t) b)))"
  define a' b' where ab: "a' = slice pre (length a - suf) a" "b' = slice pre (length b - suf) b"
  have a: "tiles 0 a (length s)" and b: "tiles 0 b (length t)"
    using tokens_tile [OF assms(5) valid_trim_end] tokens_tile [OF assms(6) valid_trim_end] assms(1,2) by (simp_all add: st)
  have pre: "pre \<le> length a" "pre \<le> length b" "take pre (map (piece s) a) = take pre (map (piece t) b)"
    using common_len_le [of "map (piece s) a" "map (piece t) b"] common_len_take [of pre "map (piece s) a" "map (piece t) b"]
    by (simp_all add: pre_def)
  have suf: "suf \<le> length a - pre" "suf \<le> length b - pre"
    "drop (length a - suf) (map (piece s) a) = drop (length b - suf) (map (piece t) b)"
    using common_len_le [of "rev (drop pre (map (piece s) a))" "rev (drop pre (map (piece t) b))"]
      common_suffix_drop [of suf "drop pre (map (piece s) a)" "drop pre (map (piece t) b)"] pre(1,2)
    by (simp_all add: suf_def)
  define p p' q q' where pq: "p = tile_start a (length s) pre" "p' = tile_start b (length t) pre"
    "q = tile_start a (length s) (length a - suf)" "q' = tile_start b (length t) (length b - suf)"
  have a': "tiles p a' q" unfolding pq ab by (rule tiles_slice [OF a]) (use pre suf in auto)
  have b': "tiles p' b' q'" unfolding pq ab by (rule tiles_slice [OF b]) (use pre suf in auto)
  have heads: "take p s = take p' t"
    using tiles_take_text [OF a pre(1), of s] tiles_take_text [OF b pre(2), of t] pre(3) by (simp add: pq take_map)
  have tails: "drop q s = drop q' t"
    using tiles_drop_text [OF a, of "length a - suf"] tiles_drop_text [OF b, of "length b - suf"] suf(3)
    by (simp add: pq drop_map)
  have "q \<le> length s" "q' \<le> length t"
    using tile_start_mono [OF a, of "length a - suf" "length a"] tile_start_mono [OF b, of "length b - suf" "length b"]
    by (simp_all add: pq tile_start_def split: if_splits)
  moreover note out = word_diff_with_inner [OF assms(3-8) pre_def [unfolded st] suf_def [unfolded st] ab, unfolded w]
  note inner = inner_marks [OF a' b' out [folded st]]
  ultimately have marks: "marks_ok 0 (length s) ra" "marks_ok 0 (length t) rb" by (auto intro: marks_ok_widen)
  have same: "kept 0 ra s = kept 0 rb t"
    using inner heads tails kept_prefix [of p q ra s] kept_prefix [of p' q' rb t] by auto
  then have "ra = [] \<and> rb = [] \<longrightarrow> s = t" by auto
  with marks same show ?thesis by (simp add: st)
qed

theorem word_diff_with_marks_witness:
  "word_diff_with ascii_alnum ''one two  '' ''one too'' 100 10 = ([(4, 7)], [(4, 7)]) \<and>
   kept 0 [(4, 7)] ''one two'' = kept 0 [(4, 7)] ''one too''"
proof -
  have t: "trim_end ''one two  '' = ''one two''" "trim_end ''one too'' = ''one too''" by code_simp+
  have v: "valid_utf8 ''one two  ''" "valid_utf8 ''one too''" by code_simp+
  have k: "tokens ascii_alnum ''one two'' u64_max = Some [(0, 3), (3, 4), (4, 7)]"
    "tokens ascii_alnum ''one too'' u64_max = Some [(0, 3), (3, 4), (4, 7)]" by code_simp+
  have w: "word_diff_with ascii_alnum ''one two  '' ''one too'' 100 10 = ([(4, 7)], [(4, 7)])" by code_simp
  show ?thesis
    using word_diff_with_marks [OF v, of 100 ascii_alnum "[(0, 3), (3, 4), (4, 7)]" "[(0, 3), (3, 4), (4, 7)]" 10] w k t by auto
qed

text \<open>
  The documentation of \<open>word_diff_with\<close> promises marks for any differing texts. Beyond the
  token limit sentences are compared without the white space around them, so texts
  that differ inside can get no mark.
\<close>

theorem word_diff_with_blank:
  "word_diff_with ascii_alnum ''x. y. q'' ''x.  y.  q'' 100 3 = ([], [])"
  by code_simp

end
