(* ===== verification/Timefmt.thy ===== *)
theory Timefmt
  imports Text
begin

text \<open>
  Timestamps, \<open>crates/core/src/timefmt.rs\<close>: the number of days since the epoch is turned
  into a date with divisions only. The reference is the Gregorian calendar by its
  leap years and month lengths.
\<close>

definition civil_from_days :: "nat \<Rightarrow> nat \<times> nat \<times> nat" where
  "civil_from_days z0 =
     (let z = z0 + 719468;
          era = z div 146097;
          doe = z - era * 146097;
          yoe = (doe - doe div 1460 + doe div 36524 - doe div 146096) div 365;
          year = yoe + era * 400;
          doy = doe - (365 * yoe + yoe div 4 - yoe div 100);
          mp = (5 * doy + 2) div 153;
          day = doy - (153 * mp + 2) div 5 + 1;
          month = (if mp < 10 then mp + 3 else mp - 9) in
      (year + (if month \<le> 2 then 1 else 0), month, day))"

definition pad_nat :: "nat \<Rightarrow> nat \<Rightarrow> str" where
  "pad_nat width n = (let s = show_nat n in replicate (width - length s) (CHR ''0'') @ s)"

definition short_unix_timestamp :: "nat \<Rightarrow> str" where
  "short_unix_timestamp secs =
     (let days = secs div 86400;
          secs_in_day = secs mod 86400;
          (year, month, day) = civil_from_days days;
          hour = secs_in_day div 3600;
          minute = (secs_in_day mod 3600) div 60 in
      pad_nat 4 year @ ''-'' @ pad_nat 2 month @ ''-'' @ pad_nat 2 day @ '' '' @ pad_nat 2 hour @ '':'' @ pad_nat 2 minute)"

section \<open>The calendar\<close>

definition leap_year :: "nat \<Rightarrow> bool" where
  "leap_year y \<longleftrightarrow> 4 dvd y \<and> (\<not> 100 dvd y \<or> 400 dvd y)"

definition month_length :: "nat \<Rightarrow> nat \<Rightarrow> nat" where
  "month_length y m = (if m = 2 then if leap_year y then 29 else 28 else if m \<in> {4, 6, 9, 11} then 30 else 31)"

definition valid_date :: "nat \<times> nat \<times> nat \<Rightarrow> bool" where
  "valid_date = (\<lambda>(y, m, d). 1 \<le> m \<and> m \<le> 12 \<and> 1 \<le> d \<and> d \<le> month_length y m)"

definition next_date :: "nat \<times> nat \<times> nat \<Rightarrow> nat \<times> nat \<times> nat" where
  "next_date = (\<lambda>(y, m, d).
     if d < month_length y m then (y, m, d + 1) else if m < 12 then (y, m + 1, 1) else (y + 1, 1, 1))"

section \<open>Days of the March year\<close>

definition month_day :: "nat \<Rightarrow> nat \<times> nat" where
  "month_day doy =
     (let mp = (5 * doy + 2) div 153 in (if mp < 10 then mp + 3 else mp - 9, doy - (153 * mp + 2) div 5 + 1))"

lemma month_day_cases:
  "doy < 31 \<Longrightarrow> month_day doy = (3, doy + 1)"
  "31 \<le> doy \<Longrightarrow> doy < 61 \<Longrightarrow> month_day doy = (4, doy - 30)"
  "61 \<le> doy \<Longrightarrow> doy < 92 \<Longrightarrow> month_day doy = (5, doy - 60)"
  "92 \<le> doy \<Longrightarrow> doy < 122 \<Longrightarrow> month_day doy = (6, doy - 91)"
  "122 \<le> doy \<Longrightarrow> doy < 153 \<Longrightarrow> month_day doy = (7, doy - 121)"
  "153 \<le> doy \<Longrightarrow> doy < 184 \<Longrightarrow> month_day doy = (8, doy - 152)"
  "184 \<le> doy \<Longrightarrow> doy < 214 \<Longrightarrow> month_day doy = (9, doy - 183)"
  "214 \<le> doy \<Longrightarrow> doy < 245 \<Longrightarrow> month_day doy = (10, doy - 213)"
  "245 \<le> doy \<Longrightarrow> doy < 275 \<Longrightarrow> month_day doy = (11, doy - 244)"
  "275 \<le> doy \<Longrightarrow> doy < 306 \<Longrightarrow> month_day doy = (12, doy - 274)"
  "306 \<le> doy \<Longrightarrow> doy < 337 \<Longrightarrow> month_day doy = (1, doy - 305)"
  "337 \<le> doy \<Longrightarrow> doy < 367 \<Longrightarrow> month_day doy = (2, doy - 336)"
proof -
  have mp: "(5 * doy + 2) div 153 = i" if "153 * i \<le> 5 * doy + 2" "5 * doy + 2 < 153 * (i + 1)" for i
    using that by (intro div_nat_eqI) auto
  show "doy < 31 \<Longrightarrow> month_day doy = (3, doy + 1)" using mp [of 0] by (simp add: month_day_def)
  show "31 \<le> doy \<Longrightarrow> doy < 61 \<Longrightarrow> month_day doy = (4, doy - 30)" using mp [of 1] by (simp add: month_day_def)
  show "61 \<le> doy \<Longrightarrow> doy < 92 \<Longrightarrow> month_day doy = (5, doy - 60)" using mp [of 2] by (simp add: month_day_def)
  show "92 \<le> doy \<Longrightarrow> doy < 122 \<Longrightarrow> month_day doy = (6, doy - 91)" using mp [of 3] by (simp add: month_day_def)
  show "122 \<le> doy \<Longrightarrow> doy < 153 \<Longrightarrow> month_day doy = (7, doy - 121)" using mp [of 4] by (simp add: month_day_def)
  show "153 \<le> doy \<Longrightarrow> doy < 184 \<Longrightarrow> month_day doy = (8, doy - 152)" using mp [of 5] by (simp add: month_day_def)
  show "184 \<le> doy \<Longrightarrow> doy < 214 \<Longrightarrow> month_day doy = (9, doy - 183)" using mp [of 6] by (simp add: month_day_def)
  show "214 \<le> doy \<Longrightarrow> doy < 245 \<Longrightarrow> month_day doy = (10, doy - 213)" using mp [of 7] by (simp add: month_day_def)
  show "245 \<le> doy \<Longrightarrow> doy < 275 \<Longrightarrow> month_day doy = (11, doy - 244)" using mp [of 8] by (simp add: month_day_def)
  show "275 \<le> doy \<Longrightarrow> doy < 306 \<Longrightarrow> month_day doy = (12, doy - 274)" using mp [of 9] by (simp add: month_day_def)
  show "306 \<le> doy \<Longrightarrow> doy < 337 \<Longrightarrow> month_day doy = (1, doy - 305)" using mp [of 10] by (simp add: month_day_def)
  show "337 \<le> doy \<Longrightarrow> doy < 367 \<Longrightarrow> month_day doy = (2, doy - 336)" using mp [of 11] by (simp add: month_day_def)
qed

definition march_date :: "nat \<Rightarrow> nat \<Rightarrow> nat \<times> nat \<times> nat" where
  "march_date y doy = (case month_day doy of (m, d) \<Rightarrow> (y + (if m \<le> 2 then 1 else 0), m, d))"

definition march_length :: "nat \<Rightarrow> nat" where
  "march_length y = (if leap_year (Suc y) then 366 else 365)"

lemma march_date_next:
  assumes "Suc doy < march_length y"
  shows "next_date (march_date y doy) = march_date y (Suc doy)"
proof -
  have bound: "doy < 365" and leap: "doy = 364 \<longrightarrow> leap_year (Suc y)"
    using assms by (auto simp: march_length_def split: if_splits)
  from bound consider "doy < 30" | "doy = 30" | "31 \<le> doy" "doy < 60" | "doy = 60" | "61 \<le> doy" "doy < 91" | "doy = 91"
    | "92 \<le> doy" "doy < 121" | "doy = 121" | "122 \<le> doy" "doy < 152" | "doy = 152" | "153 \<le> doy" "doy < 183" | "doy = 183"
    | "184 \<le> doy" "doy < 213" | "doy = 213" | "214 \<le> doy" "doy < 244" | "doy = 244" | "245 \<le> doy" "doy < 274" | "doy = 274"
    | "275 \<le> doy" "doy < 305" | "doy = 305" | "306 \<le> doy" "doy < 336" | "doy = 336" | "337 \<le> doy" "doy < 364"
    | "doy = 364"
    by atomize_elim presburger
  then show ?thesis
    using leap by cases (auto simp: march_date_def month_day_cases next_date_def month_length_def)
qed

lemma march_date_last:
  assumes "Suc doy = march_length y"
  shows "next_date (march_date y doy) = march_date (Suc y) 0"
  using assms by (auto simp: march_length_def march_date_def month_day_cases next_date_def month_length_def split: if_splits)

section \<open>Years of the era\<close>

definition year_start :: "nat \<Rightarrow> nat" where
  "year_start y = 365 * y + y div 4 - y div 100"

lemma era_split:
  assumes "(doe :: nat) < 146097"
  obtains c k j r where "doe = 36524 * c + 1461 * k + 365 * j + r" "c < 4" "k < 25" "j < 4"
    "r < 365 \<or> (r = 365 \<and> j = 3 \<and> (k < 24 \<or> c = 3))"
proof -
  define c where "c = min 3 (doe div 36524)"
  define d where "d = doe - 36524 * c"
  define k where "k = d div 1461"
  define e where "e = d - 1461 * k"
  define j where "j = min 3 (e div 365)"
  show ?thesis
  proof (rule that [of c k j "e - 365 * j"])
    have d: "doe = 36524 * c + d" "d < 36524 \<or> (c = 3 \<and> d = 36524)" using assms unfolding c_def d_def by linarith+
    have e: "d = 1461 * k + e" "e < 1461" unfolding k_def e_def by simp_all
    have j: "365 * j \<le> e" unfolding j_def by linarith
    show "doe = 36524 * c + 1461 * k + 365 * j + (e - 365 * j)" using d e j by linarith
    show "c < 4" "j < 4" by (simp_all add: c_def j_def)
    show "k < 25" using d(2) unfolding k_def by auto
    show "e - 365 * j < 365 \<or> (e - 365 * j = 365 \<and> j = 3 \<and> (k < 24 \<or> c = 3))"
      using d e unfolding j_def by linarith
  qed
qed

lemma year_of_era:
  fixes doe c k j r :: nat
  assumes "doe = 36524 * c + 1461 * k + 365 * j + r" "c < 4" "k < 25" "j < 4"
    "r < 365 \<or> (r = 365 \<and> j = 3 \<and> (k < 24 \<or> c = 3))"
  shows "(doe - doe div 1460 + doe div 36524 - doe div 146096) div 365 = 100 * c + 4 * k + j"
    and "doe - (365 * (100 * c + 4 * k + j) + (100 * c + 4 * k + j) div 4 - (100 * c + 4 * k + j) div 100) = r"
proof -
  let ?y = "100 * c + 4 * k + j"
  define e where "e = (24 * c + k + 365 * j + r) div 1460"
  have "doe = 1460 * (25 * c + k) + (24 * c + k + 365 * j + r)" using assms(1) by simp
  then have d1: "doe div 1460 = 25 * c + k + e" by (simp add: e_def)
  have e: "e \<le> 1" "e = 1 \<longrightarrow> 1 \<le> r" "r = 365 \<longrightarrow> e = 1"
    using assms(2-5) unfolding e_def by auto
  have d2: "doe div 36524 - doe div 146096 = c"
  proof (cases "doe = 146096")
    case True
    with assms show ?thesis by auto
  next
    case False
    with assms have "36524 * c \<le> doe" "doe < 36524 * Suc c" "doe < 146096" by auto
    then have "doe div 36524 = c" by (intro div_nat_eqI) auto
    with \<open>doe < 146096\<close> show ?thesis by simp
  qed
  have "doe div 146096 \<le> doe div 36524" by (rule div_le_mono2) auto
  with d2 have d3: "doe div 36524 = c + doe div 146096" by simp
  have "doe - doe div 1460 + doe div 36524 - doe div 146096 = doe - (25 * c + k + e) + c"
    unfolding d1 d3 by simp
  also have "\<dots> = 365 * ?y + (r - e)" using assms(1) e by (cases "e = 0") auto
  finally have "doe - doe div 1460 + doe div 36524 - doe div 146096 = 365 * ?y + (r - e)" .
  moreover have "r - e < 365" using assms(5) e by linarith
  ultimately show "(doe - doe div 1460 + doe div 36524 - doe div 146096) div 365 = ?y" by simp
  have "?y div 4 = 25 * c + k" using assms(4) by (intro div_nat_eqI) auto
  moreover have "?y div 100 = c" using assms(3,4) by (intro div_nat_eqI) auto
  ultimately show "doe - (365 * ?y + ?y div 4 - ?y div 100) = r" using assms(1) by simp
qed

lemma march_length_era:
  fixes c k j era :: nat
  assumes "c < 4" "k < 25" "j < 4"
  shows "march_length (100 * c + 4 * k + j + era * 400) = (if j = 3 \<and> (k < 24 \<or> c = 3) then 366 else 365)"
proof -
  have eq: "Suc (100 * c + 4 * k + j + era * 400) = 400 * era + (100 * c + (4 * k + (j + 1)))" by simp
  have d4: "4 dvd 400 * era + (100 * c + (4 * k + (j + 1))) \<longleftrightarrow> j = 3" using assms(3) by presburger
  have d100: "100 dvd 400 * era + (100 * c + (4 * k + (j + 1))) \<longleftrightarrow> k = 24 \<and> j = 3"
  proof -
    have "100 dvd 400 * era + 100 * c + (4 * k + (j + 1)) \<longleftrightarrow> 100 dvd 4 * k + (j + 1)" by (rule dvd_add_right_iff) simp
    also have "\<dots> \<longleftrightarrow> 4 * k + (j + 1) = 100" using assms(2,3) dvd_imp_le [of 100 "4 * k + (j + 1)"] by auto
    finally show ?thesis using assms(2,3) by (simp add: add.assoc) linarith
  qed
  have d400: "400 dvd 400 * era + (100 * c + (4 * k + (j + 1))) \<longleftrightarrow> c = 3 \<and> k = 24 \<and> j = 3"
  proof -
    have "400 dvd 400 * era + (100 * c + (4 * k + (j + 1))) \<longleftrightarrow> 400 dvd 100 * c + (4 * k + (j + 1))" by (rule dvd_add_right_iff) simp
    also have "\<dots> \<longleftrightarrow> 100 * c + (4 * k + (j + 1)) = 400"
      using assms dvd_imp_le [of 400 "100 * c + (4 * k + (j + 1))"] by auto
    finally show ?thesis using assms by simp linarith
  qed
  show ?thesis unfolding march_length_def leap_year_def eq d4 d100 d400 using assms by auto
qed

text \<open>A day count in March years: era, year of the era and day of the year.\<close>

lemma civil_march:
  assumes "z + 719468 = 146097 * era + (36524 * c + 1461 * k + 365 * j + r)" "c < 4" "k < 25" "j < 4"
    "r < 365 \<or> (r = 365 \<and> j = 3 \<and> (k < 24 \<or> c = 3))"
  shows "civil_from_days z = march_date (100 * c + 4 * k + j + era * 400) r"
proof -
  define doe where "doe = 36524 * c + 1461 * k + 365 * j + r"
  have "doe < 146097" using assms(2-5) unfolding doe_def by linarith
  then have era: "(z + 719468) div 146097 = era" unfolding assms(1) doe_def [symmetric] by simp
  then have doe: "z + 719468 - era * 146097 = doe" unfolding assms(1) doe_def by simp
  show ?thesis
    unfolding civil_from_days_def Let_def era doe year_of_era [OF doe_def assms(2-5)]
    by (simp add: march_date_def month_day_def Let_def)
qed

lemma civil_split:
  fixes z :: nat
  obtains era c k j r where "z + 719468 = 146097 * era + (36524 * c + 1461 * k + 365 * j + r)" "c < 4" "k < 25" "j < 4"
    "r < 365 \<or> (r = 365 \<and> j = 3 \<and> (k < 24 \<or> c = 3))"
proof (rule era_split [of "(z + 719468) mod 146097"], goal_cases)
  case (2 c k j r)
  with that [of "(z + 719468) div 146097" c k j r] show ?case by (metis mult_div_mod_eq)
qed simp

lemma civil_next: "civil_from_days (Suc z) = next_date (civil_from_days z)"
proof (rule civil_split [of z], goal_cases)
  case (1 era c k j r)
  let ?y = "100 * c + 4 * k + j + era * 400"
  note z = civil_march [OF 1] and len = march_length_era [OF 1(2-4), of era]
  show ?case
  proof (cases "Suc r < march_length ?y")
    case True
    have "civil_from_days (Suc z) = march_date ?y (Suc r)"
      by (rule civil_march) (use 1 True len in \<open>auto split: if_splits\<close>)
    with z march_date_next [OF True] show ?thesis by simp
  next
    case False
    with 1(5) len have r: "Suc r = march_length ?y" by (auto split: if_splits)
    have "civil_from_days (Suc z) = march_date (Suc ?y) 0"
    proof (cases "j < 3")
      case j: True
      have "civil_from_days (Suc z) = march_date (100 * c + 4 * k + Suc j + era * 400) 0"
        by (rule civil_march) (use 1 j r len in auto)
      then show ?thesis by simp
    next
      case nj: False
      then have j: "j = 3" using 1(4) by simp
      show ?thesis
      proof (cases "k < 24")
        case k: True
        have "civil_from_days (Suc z) = march_date (100 * c + 4 * Suc k + 0 + era * 400) 0"
          by (rule civil_march) (use 1 j k r len in auto)
        then show ?thesis using j by (simp add: ac_simps)
      next
        case nk: False
        then have k: "k = 24" using 1(3) by simp
        show ?thesis
        proof (cases "c < 3")
          case c: True
          have "civil_from_days (Suc z) = march_date (100 * Suc c + 4 * 0 + 0 + era * 400) 0"
            by (rule civil_march) (use 1 j k c r len in auto)
          then show ?thesis using j k by (simp add: ac_simps)
        next
          case nc: False
          then have c: "c = 3" using 1(2) by simp
          have "civil_from_days (Suc z) = march_date (100 * 0 + 4 * 0 + 0 + Suc era * 400) 0"
            by (rule civil_march) (use 1 j k c r len in auto)
          then show ?thesis using j k c by (simp add: ac_simps)
        qed
      qed
    qed
    with z march_date_last [OF r] show ?thesis by simp
  qed
qed

section \<open>Properties\<close>

lemma next_date_valid: "valid_date d \<Longrightarrow> valid_date (next_date d)"
  by (cases d) (auto simp: valid_date_def next_date_def month_length_def)

text \<open>
  The date of a day count is the calendar's: it is the date reached from
  1 January 1970 by that many steps to the next day of the Gregorian calendar, with
  its leap years, and so always a valid date.
\<close>

theorem civil_from_days_calendar:
  "civil_from_days z = (next_date ^^ z) (1970, 1, 1) \<and> valid_date (civil_from_days z)"
proof (induction z)
  case 0
  have "civil_from_days 0 = (1970, 1, 1)" by code_simp
  then show ?case by (simp add: valid_date_def month_length_def)
next
  case (Suc z)
  have "valid_date (civil_from_days (Suc z))" using Suc next_date_valid unfolding civil_next by blast
  with Suc civil_next [of z] show ?case by simp
qed

end
