(* ===== verification/Annotation.thy ===== *)
theory Annotation
  imports Snapshot PatchPrint
begin

text \<open>
  Annotations, \<open>crates/core/src/annotation.rs\<close>: anchors, the test that an anchor lies in a
  snapshot, and the built-in check of added lines, which merges problems of
  consecutive lines. The cancellation flag is the argument \<open>cancelled\<close>, its answer at the
  poll before the file with that index; a file without a path makes the path accessor
  panic, which is an error value here.
\<close>

datatype severity = SevNote | SevInfo | SevWarning | SevError

datatype anchor = AnchorFile str | AnchorLines str side nat nat

fun anchor_path :: "anchor \<Rightarrow> str" where
  "anchor_path (AnchorFile p) = p"
| "anchor_path (AnchorLines p _ _ _) = p"

fun anchor_covers :: "anchor \<Rightarrow> side \<Rightarrow> nat \<Rightarrow> bool" where
  "anchor_covers (AnchorLines _ s start stop) s' line \<longleftrightarrow> s = s' \<and> start \<le> line \<and> line \<le> stop"
| "anchor_covers (AnchorFile _) _ _ \<longleftrightarrow> False"

record annotation =
  ann_anchor :: anchor
  ann_severity :: severity
  ann_title :: str
  ann_body :: "str option"
  ann_source :: str

definition in_snapshot :: "snapshot \<Rightarrow> anchor \<Rightarrow> bool" where
  "in_snapshot s a =
     (case List.find (\<lambda>f. display_path f = Some (anchor_path a)) (files (snap_patch s)) of
        None \<Rightarrow> False
      | Some f \<Rightarrow>
          (case a of
             AnchorFile _ \<Rightarrow> True
           | AnchorLines _ side start stop \<Rightarrow>
               start \<ge> 1 \<and> start \<le> stop \<and> fc_line f side start \<noteq> None \<and> fc_line f side stop \<noteq> None))"

section \<open>The check of added lines\<close>

definition blank_char :: "char \<Rightarrow> bool" where
  "blank_char c \<longleftrightarrow> c = CHR '' '' \<or> c = TAB"

definition problem :: "str \<Rightarrow> (severity \<times> str) option" where
  "problem txt =
     (if starts_with ''<<<<<<< '' txt \<or> starts_with ''>>>>>>> '' txt \<or> txt \<in> {''======='', ''<<<<<<<'', ''>>>>>>>''}
      then Some (SevError, ''Conflict marker'')
      else if txt \<noteq> [] \<and> blank_char (last txt) then Some (SevWarning, ''Trailing whitespace'')
      else if str_contains [CHR '' '', TAB] (takeWhile blank_char txt)
      then Some (SevWarning, ''Space before tab in indentation'')
      else None)"

datatype annotate_error = AnnotateMessage str | PathPanic

definition extends_last :: "str \<Rightarrow> str \<Rightarrow> nat \<Rightarrow> annotation list \<Rightarrow> bool" where
  "extends_last path title line out \<longleftrightarrow>
     out \<noteq> [] \<and>
     (case ann_anchor (last out) of
        AnchorLines p _ _ stop \<Rightarrow> p = path \<and> ann_title (last out) = title \<and> stop + 1 = line
      | AnchorFile _ \<Rightarrow> False)"

definition stretch :: "nat \<Rightarrow> annotation \<Rightarrow> annotation" where
  "stretch line a =
     (case ann_anchor a of
        AnchorLines p s start _ \<Rightarrow> a\<lparr>ann_anchor := AnchorLines p s start line\<rparr>
      | AnchorFile _ \<Rightarrow> a)"

definition flag_row :: "str \<Rightarrow> patch_row \<Rightarrow> annotation list \<Rightarrow> annotation list" where
  "flag_row path row out =
     (case (row_kind row, new_line row) of
        (RAdded, Some line) \<Rightarrow>
          (case problem (row_text row) of
             None \<Rightarrow> out
           | Some (sev, title) \<Rightarrow>
               if extends_last path title line out then butlast out @ [stretch line (last out)]
               else out @ [\<lparr>ann_anchor = AnchorLines path SideRight line line, ann_severity = sev,
                 ann_title = title, ann_body = None, ann_source = ''diff check''\<rparr>])
      | _ \<Rightarrow> out)"

fun annotate_files :: "(nat \<Rightarrow> bool) \<Rightarrow> nat \<Rightarrow> file_change list \<Rightarrow> annotation list \<Rightarrow> annotate_error + annotation list" where
  "annotate_files cancelled k [] out = Inr out"
| "annotate_files cancelled k (f # fs) out =
     (if cancelled k then Inl (AnnotateMessage ''cancelled'')
      else case display_path f of
        None \<Rightarrow> Inl PathPanic
      | Some path \<Rightarrow> annotate_files cancelled (Suc k) fs (fold (flag_row path) (file_rows f) out))"

definition annotate :: "(nat \<Rightarrow> bool) \<Rightarrow> snapshot \<Rightarrow> annotate_error + annotation list" where
  "annotate cancelled s = annotate_files cancelled 0 (files (snap_patch s)) []"

section \<open>What is flagged\<close>

definition flags :: "annotation list \<Rightarrow> (str \<times> severity \<times> str \<times> nat) set" where
  "flags out = {(path, sev, title, line). \<exists>a \<in> set out.
     anchor_path (ann_anchor a) = path \<and> ann_severity a = sev \<and> ann_title a = title \<and>
     anchor_covers (ann_anchor a) SideRight line}"

definition row_flags :: "str \<Rightarrow> patch_row \<Rightarrow> (str \<times> severity \<times> str \<times> nat) set" where
  "row_flags path r = {(path, sev, title, line) |sev title line.
     row_kind r = RAdded \<and> new_line r = Some line \<and> problem (row_text r) = Some (sev, title)}"

definition ann_ok :: "annotation \<Rightarrow> bool" where
  "ann_ok a \<longleftrightarrow> (\<exists>path start stop. ann_anchor a = AnchorLines path SideRight start stop \<and> start \<le> stop) \<and>
     (\<exists>txt. problem txt = Some (ann_severity a, ann_title a))"

lemma problem_severity: "problem t = Some (sev, title) \<Longrightarrow> problem t' = Some (sev', title) \<Longrightarrow> sev = sev'"
  by (auto simp: problem_def split: if_splits)

lemma flags_append [simp]: "flags (xs @ ys) = flags xs \<union> flags ys"
  by (auto simp: flags_def)

lemma flags_single [simp]: "flags [a] = {(anchor_path (ann_anchor a), ann_severity a, ann_title a, line) |line.
    anchor_covers (ann_anchor a) SideRight line}"
  by (auto simp: flags_def)

lemma flag_row_flags:
  assumes "list_all ann_ok out"
  shows "list_all ann_ok (flag_row path row out) \<and> flags (flag_row path row out) = flags out \<union> row_flags path row"
proof (cases "\<exists>line sev title. row_kind row = RAdded \<and> new_line row = Some line \<and> problem (row_text row) = Some (sev, title)")
  case False
  then have "flag_row path row out = out" "row_flags path row = {}"
    by (auto simp: flag_row_def row_flags_def split: row_kind.split option.split)
  with assms show ?thesis by simp
next
  case True
  then obtain line sev title where r: "row_kind row = RAdded" "new_line row = Some line"
    "problem (row_text row) = Some (sev, title)" by blast
  then have new: "row_flags path row = {(path, sev, title, line)}" by (auto simp: row_flags_def)
  show ?thesis
  proof (cases "extends_last path title line out")
    case ext: True
    then obtain xs a where out: "out = xs @ [a]" by (metis extends_last_def rev_exhaust)
    from assms obtain start stop p where a: "ann_anchor a = AnchorLines p SideRight start stop" "start \<le> stop" "ann_ok a"
      by (auto simp: out ann_ok_def)
    with ext have e: "p = path" "ann_title a = title" "stop + 1 = line" by (auto simp: extends_last_def out)
    have "ann_severity a = sev" using a(3) r(3) e(2) problem_severity by (auto simp: ann_ok_def)
    moreover have "ann_ok (stretch line a)" using a e by (auto simp: ann_ok_def stretch_def)
    ultimately show ?thesis
      using assms r ext a e new by (auto simp: flag_row_def out stretch_def)
  next
    case False
    with assms r new show ?thesis by (auto simp: flag_row_def ann_ok_def)
  qed
qed

lemma flag_rows_flags:
  "list_all ann_ok out \<Longrightarrow> list_all ann_ok (fold (flag_row path) rs out) \<and>
    flags (fold (flag_row path) rs out) = flags out \<union> (\<Union>r \<in> set rs. row_flags path r)"
  by (induction rs arbitrary: out) (simp, use flag_row_flags in fastforce)

lemma annotate_files_flags:
  assumes "annotate_files cancelled k fs out = Inr res" "list_all ann_ok out"
  shows "list_all ann_ok res \<and> flags res = flags out \<union>
    (\<Union>f \<in> set fs. \<Union>r \<in> set (file_rows f). \<Union>path \<in> set_option (display_path f). row_flags path r)"
  using assms
proof (induction cancelled k fs out rule: annotate_files.induct)
  case (2 cancelled k f fs out)
  then obtain path where p: "display_path f = Some path" "\<not> cancelled k"
    "annotate_files cancelled (Suc k) fs (fold (flag_row path) (file_rows f) out) = Inr res"
    by (auto split: if_splits option.splits)
  note c = flag_rows_flags [OF 2(3), of path "file_rows f"]
  from 2(1) [OF p(2,1,3)] c p(1) show ?case by auto
qed auto

lemma file_line_positive:
  assumes "file_ok f" "r \<in> set (file_rows f)" "row_number s r = Some n"
  shows "1 \<le> n"
proof -
  obtain h where h: "h \<in> set (hunks f)" "r \<in> set (rows h)" using assms(2) by (auto simp: file_rows_def)
  with assms(1) have "hunk_ok h" by (auto simp: file_ok_def list_all_iff)
  moreover have "n \<in> set (side_numbers s (rows h))" using h assms(3) by (auto simp: set_side_numbers)
  ultimately have "side_start s h \<le> n" "n < side_start s h + side_count s h" "range_ok (side_start s h) (side_count s h)"
    by (auto simp: hunk_ok_def)
  then show ?thesis by (auto simp: range_ok_def)
qed

section \<open>Properties\<close>

text \<open>
  The check of a patch flags exactly the added lines that have a problem:
  a path, severity, title and line of the right side are covered by an annotation if
  and only if that line is an added row with that problem, although consecutive lines
  are merged; and when the files' displayed paths are distinct, every annotation's anchor lies
  in the snapshot, so none is rejected.
\<close>

theorem annotate_exact:
  assumes "parse_patch sha bs lim = Inr (snap_patch s)" "annotate cancelled s = Inr out"
  shows "flags out = (\<Union>f \<in> set (files (snap_patch s)). \<Union>r \<in> set (file_rows f). \<Union>path \<in> set_option (display_path f).
      row_flags path r) \<and>
    (distinct (map display_path (files (snap_patch s))) \<longrightarrow> (\<forall>a \<in> set out. in_snapshot s (ann_anchor a)))"
proof -
  note an = annotate_files_flags [OF assms(2) [unfolded annotate_def]]
  have "in_snapshot s (ann_anchor a)" if d: "distinct (map display_path (files (snap_patch s)))" and a: "a \<in> set out" for a
  proof -
    from an a obtain path start stop where anc: "ann_anchor a = AnchorLines path SideRight start stop" "start \<le> stop"
      by (auto simp: list_all_iff ann_ok_def)
    have row: "\<exists>f \<in> set (files (snap_patch s)). display_path f = Some path \<and> (\<exists>r \<in> set (file_rows f). new_line r = Some n)"
      if "start \<le> n" "n \<le> stop" for n
    proof -
      have "(path, ann_severity a, ann_title a, n) \<in> flags out" using a anc that unfolding flags_def by (auto intro!: bexI [of _ a])
      with an show ?thesis by (fastforce simp: row_flags_def flags_def)
    qed
    obtain f where f: "f \<in> set (files (snap_patch s))" "display_path f = Some path" "\<exists>r \<in> set (file_rows f). new_line r = Some start"
      using bexE [OF row [OF order_refl anc(2)]] by blast
    obtain g where g: "g \<in> set (files (snap_patch s))" "display_path g = Some path" "\<exists>r \<in> set (file_rows g). new_line r = Some stop"
      using bexE [OF row [OF anc(2) order_refl]] by blast
    have "inj_on display_path (set (files (snap_patch s)))" using d by (simp add: distinct_map)
    then have only: "h = f" if "h \<in> set (files (snap_patch s))" "display_path h = Some path" for h
      by (rule inj_onD) (simp_all only: that f(1,2))
    have "List.find (\<lambda>f. display_path f = Some path) (files (snap_patch s)) = Some f"
      by (rule find_unique) (simp_all only: f(1,2) only)
    moreover have ok: "file_ok f"
      using parse_patch_Inr(1) [OF assms(1)] f(1) by (auto simp: list_all_iff file_settled_def)
    moreover have "fc_line f SideRight start \<noteq> None" "fc_line f SideRight stop \<noteq> None"
      using f(3) g(3) only [OF g(1,2)] fc_line_iff [OF ok, of SideRight] by (auto simp: row_number_def)
    moreover have "1 \<le> start" using f(3) file_line_positive [OF ok, of _ SideRight] by (auto simp: row_number_def)
    ultimately show ?thesis using anc by (simp add: in_snapshot_def)
  qed
  with an show ?thesis by (auto simp: flags_def)
qed

definition flawed_patch :: bytes where
  "flawed_patch = concat (map (\<lambda>l. l @ [LF]) [''diff --git a/x b/x'', ''--- a/x'', ''+++ b/x'', ''@@ -1 +1,3 @@'',
     ''-a'', ''+b '', ''+c '', ''+d''])"

definition flawed_snapshot :: snapshot where
  "flawed_snapshot = sample_snapshot\<lparr>snap_patch :=
     (case parse_patch (\<lambda>_. []) flawed_patch sample_limits of Inr r \<Rightarrow> r | Inl _ \<Rightarrow> \<lparr>files = []\<rparr>)\<rparr>"

theorem annotate_exact_witness:
  "\<exists>a. annotate (\<lambda>_. False) flawed_snapshot = Inr [a] \<and> ann_anchor a = AnchorLines ''x'' SideRight 1 2 \<and>
     in_snapshot flawed_snapshot (ann_anchor a)"
proof -
  let ?a = "\<lparr>ann_anchor = AnchorLines ''x'' SideRight 1 2, ann_severity = SevWarning,
    ann_title = ''Trailing whitespace'', ann_body = None, ann_source = ''diff check''\<rparr>"
  have p: "parse_patch (\<lambda>_. []) flawed_patch sample_limits = Inr (snap_patch flawed_snapshot)" by code_simp
  have an: "annotate (\<lambda>_. False) flawed_snapshot = Inr [?a]" by code_simp
  have d: "distinct (map display_path (files (snap_patch flawed_snapshot)))" by code_simp
  have "\<forall>a \<in> set [?a]. in_snapshot flawed_snapshot (ann_anchor a)" using annotate_exact [OF p an] d by (rule conjunct2 [THEN mp])
  then have "in_snapshot flawed_snapshot (ann_anchor ?a)" by simp
  with an show ?thesis by (intro exI [of _ ?a]) simp
qed

text \<open>
  A patch in which a file changes its type deletes and adds the same path. The check
  flags the added line, but the anchor is looked up in the first file of that path, the
  deleted one, which has no such line.
\<close>

definition retyped_files :: "file_change list" where
  "retyped_files =
     [(new_file (Some (RepoPath ''x'')) None)\<lparr>fc_id := FileId ''1'', fc_kind := KDeleted,
        hunks := [\<lparr>old_start = 1, old_count = 1, new_start = 0, new_count = 0, section_text = [],
          rows = [\<lparr>old_line = Some 1, new_line = None, row_text = ''a'', row_ending = EndLf, row_kind = RRemoved\<rparr>]\<rparr>]\<rparr>,
      (new_file None (Some (RepoPath ''x'')))\<lparr>fc_id := FileId ''2'', fc_kind := KAdded,
        hunks := [\<lparr>old_start = 0, old_count = 0, new_start = 1, new_count = 1, section_text = [],
          rows = [\<lparr>old_line = None, new_line = Some 1, row_text = ''b '', row_ending = EndLf, row_kind = RAdded\<rparr>]\<rparr>]\<rparr>]"

definition retyped_snapshot :: snapshot where
  "retyped_snapshot = sample_snapshot\<lparr>snap_patch := \<lparr>files = retyped_files\<rparr>\<rparr>"

theorem retyped_annotation_dropped:
  "\<exists>a. annotate (\<lambda>_. False) retyped_snapshot = Inr [a] \<and> ann_anchor a = AnchorLines ''x'' SideRight 1 1 \<and>
     list_all file_ok retyped_files \<and> \<not> in_snapshot retyped_snapshot (ann_anchor a)"
proof -
  let ?a = "\<lparr>ann_anchor = AnchorLines ''x'' SideRight 1 1, ann_severity = SevWarning,
    ann_title = ''Trailing whitespace'', ann_body = None, ann_source = ''diff check''\<rparr>"
  have "annotate (\<lambda>_. False) retyped_snapshot = Inr [?a]" by code_simp
  moreover have "list_all file_ok retyped_files"
    by (simp add: retyped_files_def new_file_def file_ok_def hunk_ok_def row_ok_def range_ok_def ascii_valid_utf8
      side_start_def side_count_def row_number_def u32_max_def split: side.split)
  moreover have "\<not> in_snapshot retyped_snapshot (AnchorLines ''x'' SideRight 1 1)" by code_simp
  ultimately show ?thesis by (intro exI [of _ ?a]) simp
qed

end
