(* ===== verification/FileTree.thy ===== *)
theory FileTree
  imports BTree Domain "HOL-Library.Product_Lexorder" "HOL-Library.Sublist"
begin

text \<open>
  The file tree, \<open>crates/core/src/file_tree.rs\<close>: the matching files are put into a tree of
  ordered maps, and the tree is flattened into rows; chains of directories with one
  entry share a row. \<open>str::to_lowercase\<close> is the argument \<open>lower\<close>, the hash map of old
  paths a finite function and the set of collapsed directories a list.
\<close>

record tree_row =
  tr_path :: str
  tr_label :: str
  tr_prefix :: str
  tr_depth :: nat
  tr_file :: "file_id option"
  tr_expanded :: bool
  tr_old_path :: "str option"

datatype directory = Directory (dir_dirs: "(str \<times> directory) list") (dir_files: "((str \<times> file_id) \<times> str) list")

record file_tree =
  ft_entries :: "(file_id \<times> str) list"
  ft_old_paths :: "file_id \<Rightarrow> str option"

definition file_tree_new :: "(file_id \<times> str) list \<Rightarrow> file_tree" where
  "file_tree_new entries = \<lparr>ft_entries = entries, ft_old_paths = (\<lambda>_. None)\<rparr>"

definition with_old_paths :: "file_tree \<Rightarrow> (file_id \<Rightarrow> str option) \<Rightarrow> file_tree" where
  "with_old_paths t m = t\<lparr>ft_old_paths := m\<rparr>"

abbreviation empty_dir :: directory where
  "empty_dir \<equiv> Directory [] []"

fun insert_file :: "str list \<Rightarrow> file_id \<Rightarrow> str \<Rightarrow> directory \<Rightarrow> directory" where
  "insert_file [] fid path d = d"
| "insert_file [part] fid path (Directory ds fs) = Directory ds (bt_insert (part, fid) path fs)"
| "insert_file (part # q # ps) fid path (Directory ds fs) =
     Directory
       (bt_insert part (insert_file (q # ps) fid path (case bt_get part ds of Some c \<Rightarrow> c | None \<Rightarrow> empty_dir)) ds) fs"

fun fold_chain :: "str \<Rightarrow> str \<Rightarrow> directory \<Rightarrow> str \<times> str \<times> directory" where
  "fold_chain label path (Directory [(name, child)] []) = fold_chain (label @ ''/'' @ name) (path @ ''/'' @ name) child"
| "fold_chain label path d = (label, path, d)"

lemma fold_chain_size: "fold_chain label path d = (label', path', node) \<Longrightarrow> size node \<le> size d"
  by (induction label path d rule: fold_chain.induct) auto

lemma child_size:
  assumes "(name, child) \<in> set ds" "(label', path', node) = fold_chain label path child"
  shows "size node < Suc (size_list (size_prod (\<lambda>x. 0) size) ds)"
proof -
  have "size child \<le> size_prod (\<lambda>x. 0) size (name, child)" by simp
  with assms(1) have "size child \<le> size_list (size_prod (\<lambda>x. 0) size) ds" by (rule size_list_estimation')
  with fold_chain_size [OF assms(2) [symmetric]] show ?thesis by simp
qed

definition file_row :: "(file_id \<Rightarrow> str option) \<Rightarrow> nat \<Rightarrow> str \<Rightarrow> (str \<times> file_id) \<times> str \<Rightarrow> tree_row" where
  "file_row old depth pre f =
     (case f of ((name, fid), path) \<Rightarrow>
        \<lparr>tr_path = path, tr_label = name, tr_prefix = pre, tr_depth = depth, tr_file = Some fid,
         tr_expanded = False, tr_old_path = old fid\<rparr>)"

fun lone_file :: "directory \<Rightarrow> ((str \<times> file_id) \<times> str) option" where
  "lone_file (Directory [] [f]) = Some f"
| "lone_file _ = None"

function flatten :: "directory \<Rightarrow> str \<Rightarrow> nat \<Rightarrow> str list \<Rightarrow> bool \<Rightarrow> (file_id \<Rightarrow> str option) \<Rightarrow> tree_row list" where
  "flatten (Directory ds fs) parent depth collapsed filtering old =
     concat (map (\<lambda>(name, child).
       case fold_chain name (if parent = [] then name else parent @ ''/'' @ name) child of
         (label, path, node) \<Rightarrow>
           (case lone_file node of
              Some f \<Rightarrow> [file_row old depth (label @ ''/'') f]
            | None \<Rightarrow>
                (let expanded = filtering \<or> path \<notin> set collapsed in
                 \<lparr>tr_path = path, tr_label = label, tr_prefix = [], tr_depth = depth, tr_file = None,
                  tr_expanded = expanded, tr_old_path = None\<rparr> #
                 (if expanded then flatten node path (depth + 1) collapsed filtering old else [])))) ds) @
     map (file_row old depth []) fs"
  by pat_completeness auto
termination
  by (relation "measure (\<lambda>(d, _). size d)") (auto intro: child_size)

declare flatten.simps [simp del]

definition tree_matches :: "(str \<Rightarrow> str) \<Rightarrow> str \<Rightarrow> (file_id \<Rightarrow> str option) \<Rightarrow> file_id \<times> str \<Rightarrow> bool" where
  "tree_matches lower query old e \<longleftrightarrow>
     str_contains query (lower (snd e)) \<or>
     (case old (fst e) of Some p \<Rightarrow> str_contains query (lower p) | None \<Rightarrow> False)"

definition build_tree :: "(str \<Rightarrow> str) \<Rightarrow> str \<Rightarrow> file_tree \<Rightarrow> directory" where
  "build_tree lower query t =
     fold (\<lambda>(fid, path). insert_file (split_on CHR ''/'' path) fid path)
       (filter (tree_matches lower query (ft_old_paths t)) (ft_entries t)) empty_dir"

definition tree_rows :: "(str \<Rightarrow> str) \<Rightarrow> file_tree \<Rightarrow> str list \<Rightarrow> str \<Rightarrow> tree_row list" where
  "tree_rows lower t collapsed query0 =
     (let query = lower query0 in
      flatten (build_tree lower query t) [] 0 collapsed (query \<noteq> []) (ft_old_paths t))"

section \<open>The files of a tree\<close>

fun listing :: "directory \<Rightarrow> (file_id \<times> str) list" where
  "listing (Directory ds fs) = concat (map (\<lambda>(name, child). listing child) ds) @ map (\<lambda>((name, fid), path). (fid, path)) fs"

fun dir_ok :: "str list \<Rightarrow> directory \<Rightarrow> bool" where
  "dir_ok pre (Directory ds fs) \<longleftrightarrow> bt_ok ds \<and> bt_ok fs \<and>
     list_all (\<lambda>(name, child). dir_ok (pre @ [name]) child) ds \<and>
     list_all (\<lambda>((name, fid), path). split_on CHR ''/'' path = pre @ [name]) fs"

definition shown :: "tree_row list \<Rightarrow> (file_id \<times> str) list" where
  "shown rs = List.map_filter (\<lambda>r. map_option (\<lambda>fid. (fid, tr_path r)) (tr_file r)) rs"

lemma shown_simps [simp]: "shown [] = []" "shown (r # rs) = (case tr_file r of None \<Rightarrow> shown rs | Some fid \<Rightarrow> (fid, tr_path r) # shown rs)"
  "shown (rs @ rs') = shown rs @ shown rs'"
  by (auto simp: shown_def List.map_filter_def split: option.splits)

lemma shown_concat: "shown (concat rss) = concat (map shown rss)"
  by (induction rss) auto

lemma shown_files: "shown (map (file_row old depth pre) fs) = map (\<lambda>((name, fid), path). (fid, path)) fs"
  by (induction fs) (auto simp: file_row_def)

lemma fold_chain_listing: "fold_chain label path d = (label', path', node) \<Longrightarrow> listing node = listing d"
  by (induction label path d rule: fold_chain.induct) auto

lemma lone_file_listing: "lone_file node = Some ((name, fid), path) \<Longrightarrow> listing node = [(fid, path)]"
  by (cases node rule: lone_file.cases) auto

lemma subseq_concat_map: "(\<And>x. x \<in> set xs \<Longrightarrow> subseq (g x) (h x)) \<Longrightarrow> subseq (concat (map g xs)) (concat (map h xs))"
  by (induction xs) (auto intro: list_emb_append_mono)

lemma subseq_parts: "subseq xs ys \<Longrightarrow> set xs \<subseteq> set ys \<and> (distinct ys \<longrightarrow> distinct xs)"
proof (induction xs ys rule: list_emb.induct)
  case (list_emb_Cons2 x y xs ys)
  then show ?case by auto
qed auto

lemma flatten_shown:
  "subseq (shown (flatten d parent depth collapsed filtering old)) (listing d) \<and>
   (filtering \<or> collapsed = [] \<longrightarrow> shown (flatten d parent depth collapsed filtering old) = listing d)"
proof (induction d parent depth collapsed filtering old rule: flatten.induct)
  case (1 ds fs parent depth collapsed filtering old)
  define g where "g = (\<lambda>(name, child).
       case fold_chain name (if parent = [] then name else parent @ ''/'' @ name) child of
         (label, path, node) \<Rightarrow>
           (case lone_file node of
              Some f \<Rightarrow> [file_row old depth (label @ ''/'') f]
            | None \<Rightarrow>
                (let expanded = filtering \<or> path \<notin> set collapsed in
                 \<lparr>tr_path = path, tr_label = label, tr_prefix = [], tr_depth = depth, tr_file = None,
                  tr_expanded = expanded, tr_old_path = None\<rparr> #
                 (if expanded then flatten node path (depth + 1) collapsed filtering old else []))))"
  have fl: "flatten (Directory ds fs) parent depth collapsed filtering old = concat (map g ds) @ map (file_row old depth []) fs"
    unfolding g_def by (rule flatten.simps)
  have row: "subseq (shown (g (name, child))) (listing child) \<and>
      (filtering \<or> collapsed = [] \<longrightarrow> shown (g (name, child)) = listing child)" if e: "(name, child) \<in> set ds" for name child
  proof -
    obtain label path node where c: "fold_chain name (if parent = [] then name else parent @ ''/'' @ name) child = (label, path, node)"
      by (metis prod_cases3)
    note same = fold_chain_listing [OF c]
    show ?thesis
    proof (cases "lone_file node")
      case None
      show ?thesis
      proof (cases "filtering \<or> path \<notin> set collapsed")
        case True
        with 1 [OF e refl c [symmetric] refl None refl] have "subseq (shown (flatten node path (depth + 1) collapsed filtering old)) (listing node) \<and>
          (filtering \<or> collapsed = [] \<longrightarrow> shown (flatten node path (depth + 1) collapsed filtering old) = listing node)"
          by simp
        with c None True same show ?thesis by (auto simp: g_def)
      next
        case False
        with c None show ?thesis by (auto simp: g_def)
      qed
    next
      case (Some f)
      obtain n i p where "f = ((n, i), p)" by (metis prod.collapse)
      with c Some same lone_file_listing [of node n i p] show ?thesis by (auto simp: g_def file_row_def)
    qed
  qed
  have "subseq (concat (map (\<lambda>e. shown (g e)) ds)) (concat (map (\<lambda>e. listing (snd e)) ds))"
    by (rule subseq_concat_map) (use row in auto)
  moreover have "filtering \<or> collapsed = [] \<longrightarrow> concat (map (\<lambda>e. shown (g e)) ds) = concat (map (\<lambda>e. listing (snd e)) ds)"
    using row by (intro impI arg_cong [of _ _ concat]) auto
  ultimately show ?case
    unfolding fl listing.simps case_prod_beta' shown_simps shown_concat shown_files
    by (simp add: comp_def case_prod_beta' list_emb_append_mono)
qed

lemma set_bt_insert: "bt_ok m \<Longrightarrow> set (bt_insert k v m) = insert (k, v) {x \<in> set m. fst x \<noteq> k}"
proof (induction k v m rule: bt_insert.induct)
  case (2 k v a b m)
  then show ?case by (auto simp: bt_ok_def)
qed simp

lemma split_on_inj: "split_on c p = split_on c q \<Longrightarrow> p = q"
  by (metis join_split_on)

lemma insert_file_ok:
  assumes "dir_ok pre d" "split_on CHR ''/'' path = pre @ parts" "parts \<noteq> []"
  shows "dir_ok pre (insert_file parts fid path d) \<and>
    set (listing (insert_file parts fid path d)) = insert (fid, path) (set (listing d))"
  using assms
proof (induction parts fid path d arbitrary: pre rule: insert_file.induct)
  case (2 part fid path ds fs)
  have same: "p = path" if "((part, fid), p) \<in> set fs" for p
    using 2 that by (intro split_on_inj [of "CHR ''/''"]) (auto simp: list_all_iff)
  have "set (bt_insert (part, fid) path fs) = insert ((part, fid), path) (set fs)"
    using 2(1) same by (auto simp: set_bt_insert)
  with 2 show ?case by (auto simp: list_all_iff bt_insert_sorted)
next
  case (3 part q ps fid path ds fs)
  let ?c = "case bt_get part ds of Some c \<Rightarrow> c | None \<Rightarrow> empty_dir"
  have "dir_ok (pre @ [part]) ?c"
    using 3(2) by (auto simp: list_all_iff dest: bt_get_in split: option.splits)
  from 3(1) [OF this] 3(3) have c: "dir_ok (pre @ [part]) (insert_file (q # ps) fid path ?c)"
    "set (listing (insert_file (q # ps) fid path ?c)) = insert (fid, path) (set (listing ?c))" by auto
  have old: "{x \<in> set ds. fst x = part} = (case bt_get part ds of Some c \<Rightarrow> {(part, c)} | None \<Rightarrow> {})"
    using 3(2) by (auto dest: bt_get_in bt_in_get split: option.splits)
  have ins: "set (bt_insert part (insert_file (q # ps) fid path ?c) ds) =
      insert (part, insert_file (q # ps) fid path ?c) {x \<in> set ds. fst x \<noteq> part}"
    using 3(2) by (intro set_bt_insert) auto
  have "(\<Union>x \<in> set ds. set (listing (snd x))) = (\<Union>x \<in> {x \<in> set ds. fst x = part}. set (listing (snd x))) \<union>
      (\<Union>x \<in> {x \<in> set ds. fst x \<noteq> part}. set (listing (snd x)))" by auto
  also have "(\<Union>x \<in> {x \<in> set ds. fst x = part}. set (listing (snd x))) = set (listing ?c)"
    unfolding old by (simp split: option.splits)
  finally have "(\<Union>x \<in> set ds. set (listing (snd x))) = set (listing ?c) \<union>
      (\<Union>x \<in> {x \<in> set ds. fst x \<noteq> part}. set (listing (snd x)))" .
  with c(2) ins have "set (listing (insert_file (part # q # ps) fid path (Directory ds fs))) = insert (fid, path) (set (listing (Directory ds fs)))"
    by (simp add: case_prod_beta')
  moreover have "dir_ok pre (insert_file (part # q # ps) fid path (Directory ds fs))"
    using 3(2) c(1) ins by (auto simp: list_all_iff bt_insert_sorted)
  ultimately show ?case by blast
qed simp

lemma listing_parts:
  assumes "dir_ok pre d" "(fid, path) \<in> set (listing d)"
  shows "\<exists>rest. rest \<noteq> [] \<and> split_on CHR ''/'' path = pre @ rest"
  using assms
proof (induction d arbitrary: pre rule: listing.induct)
  case (1 ds fs)
  from 1(3) consider name child where "(name, child) \<in> set ds" "(fid, path) \<in> set (listing child)"
    | name where "((name, fid), path) \<in> set fs" by auto
  then show ?case
  proof cases
    case (1 name child)
    then have "dir_ok (pre @ [name]) child" using \<open>dir_ok pre (Directory ds fs)\<close> by (auto simp: list_all_iff)
    from "1.IH" [OF 1(1) refl this 1(2)] show ?thesis by auto
  next
    case (2 name)
    then show ?thesis using \<open>dir_ok pre (Directory ds fs)\<close> by (auto simp: list_all_iff)
  qed
qed

lemma distinct_children:
  assumes "distinct (map fst ds)"
    and "\<And>e. e \<in> set ds \<Longrightarrow> distinct (h e)"
    and "\<And>e x. e \<in> set ds \<Longrightarrow> x \<in> set (h e) \<Longrightarrow> key x = fst e"
  shows "distinct (concat (map h ds))"
  using assms
proof (induction ds)
  case (Cons e ds)
  have "set (h e) \<inter> (\<Union>x \<in> set ds. set (h x)) = {}"
  proof (rule ccontr)
    assume "set (h e) \<inter> (\<Union>x \<in> set ds. set (h x)) \<noteq> {}"
    then obtain x e' where "x \<in> set (h e)" "e' \<in> set ds" "x \<in> set (h e')" by auto
    then have "fst e = fst e'" using Cons.prems(3) [of e x] Cons.prems(3) [of e' x] by simp
    with Cons.prems(1) \<open>e' \<in> set ds\<close> show False by (metis distinct.simps(2) image_eqI list.set_map list.simps(9))
  qed
  with Cons show ?case by auto
qed simp

lemma bt_ok_distinct: "bt_ok m \<Longrightarrow> distinct (map fst m)"
  by (simp add: bt_ok_def strict_sorted_iff)

lemma listing_distinct: "dir_ok pre d \<Longrightarrow> distinct (listing d)"
proof (induction d arbitrary: pre rule: listing.induct)
  case (1 ds fs)
  let ?h = "\<lambda>e. listing (snd e)"
  have child: "dir_ok (pre @ [fst e]) (snd e)" if "e \<in> set ds" for e
    using 1(2) that by (auto simp: list_all_iff)
  have ext: "\<exists>rest. rest \<noteq> [] \<and> split_on CHR ''/'' (snd x) = (pre @ [fst e]) @ rest" if "e \<in> set ds" "x \<in> set (?h e)" for e x
    using listing_parts [OF child [OF that(1)], of "fst x" "snd x"] that(2) by simp
  have "distinct (concat (map ?h ds))"
  proof (rule distinct_children [where key = "\<lambda>x. split_on CHR ''/'' (snd x) ! length pre"])
    show "distinct (map fst ds)" using 1(2) by (simp add: bt_ok_distinct)
    show "distinct (?h e)" if "e \<in> set ds" for e
      using 1(1) [of e "fst e" "snd e"] child [OF that] that by simp
    show "split_on CHR ''/'' (snd x) ! length pre = fst e" if "e \<in> set ds" "x \<in> set (?h e)" for e x
      using ext [OF that] by (auto simp: nth_append)
  qed
  moreover have "distinct (map (\<lambda>f. (snd (fst f), snd f)) fs)"
  proof -
    have key: "split_on CHR ''/'' (snd f) = pre @ [fst (fst f)]" if "f \<in> set fs" for f
      using 1(2) that by (auto simp: list_all_iff)
    have "inj_on (\<lambda>f. (snd (fst f), snd f)) (set fs)"
    proof (rule inj_onI)
      fix f g assume fg: "f \<in> set fs" "g \<in> set fs" "(snd (fst f), snd f) = (snd (fst g), snd g)"
      then have "fst (fst f) = fst (fst g)" using key [of f] key [of g] by simp
      with fg(3) show "f = g" by (simp add: prod_eq_iff)
    qed
    moreover have "distinct fs" using 1(2) bt_ok_distinct [of fs] by (simp add: distinct_map)
    ultimately show ?thesis by (simp add: distinct_map)
  qed
  moreover have "set (concat (map ?h ds)) \<inter> set (map (\<lambda>f. (snd (fst f), snd f)) fs) = {}"
  proof (rule Int_emptyI)
    fix x assume x: "x \<in> set (concat (map ?h ds))" "x \<in> set (map (\<lambda>f. (snd (fst f), snd f)) fs)"
    then obtain e where "e \<in> set ds" "x \<in> set (?h e)" by auto
    from ext [OF this] x(2) 1(2) show False by (auto simp: list_all_iff)
  qed
  ultimately show ?case unfolding listing.simps case_prod_beta' distinct_append by blast
qed

lemma build_tree_listing:
  "dir_ok [] (build_tree lower query t) \<and>
   set (listing (build_tree lower query t)) = set (filter (tree_matches lower query (ft_old_paths t)) (ft_entries t))"
proof -
  have "dir_ok [] (fold (\<lambda>(fid, path). insert_file (split_on CHR ''/'' path) fid path) es d) \<and>
      set (listing (fold (\<lambda>(fid, path). insert_file (split_on CHR ''/'' path) fid path) es d)) = set (listing d) \<union> set es"
    if "dir_ok [] d" for es d
    using that
  proof (induction es arbitrary: d)
    case (Cons e es)
    obtain fid path where e: "e = (fid, path)" by fastforce
    have "dir_ok [] (insert_file (split_on CHR ''/'' path) fid path d) \<and>
      set (listing (insert_file (split_on CHR ''/'' path) fid path d)) = insert (fid, path) (set (listing d))"
      by (rule insert_file_ok) (use Cons.prems in auto)
    with Cons.IH [of "insert_file (split_on CHR ''/'' path) fid path d"] show ?case by (auto simp: e)
  qed simp
  from this [of empty_dir] show ?thesis by (simp add: build_tree_def)
qed

section \<open>Properties\<close>

text \<open>
  Every file that matches the filter has exactly one row. The rows never show
  a file twice and never one that does not match; and while a filter is active or
  nothing is collapsed, the files shown are all the matching ones, whatever directories
  are folded into chains and whatever names collide.
\<close>

theorem tree_rows_complete:
  "distinct (shown (tree_rows lower t collapsed query)) \<and>
   set (shown (tree_rows lower t collapsed query)) \<subseteq>
     set (filter (tree_matches lower (lower query) (ft_old_paths t)) (ft_entries t)) \<and>
   (lower query \<noteq> [] \<or> collapsed = [] \<longrightarrow>
     set (shown (tree_rows lower t collapsed query)) =
       set (filter (tree_matches lower (lower query) (ft_old_paths t)) (ft_entries t)))"
proof -
  let ?d = "build_tree lower (lower query) t"
  note b = build_tree_listing [of lower "lower query" t]
  note f = flatten_shown [of ?d "[]" 0 collapsed "lower query \<noteq> []" "ft_old_paths t"]
  have "distinct (shown (tree_rows lower t collapsed query))"
    using f listing_distinct [of "[]" ?d] b unfolding tree_rows_def Let_def by (blast dest: subseq_parts)
  moreover have "set (shown (tree_rows lower t collapsed query)) \<subseteq> set (listing ?d)"
    using f unfolding tree_rows_def Let_def by (blast dest: subseq_parts)
  ultimately show ?thesis using f b by (simp add: tree_rows_def Let_def)
qed

definition sample_tree :: file_tree where
  "sample_tree = file_tree_new [(FileId ''1'', ''src/a.rs''), (FileId ''2'', ''doc/x/y.md''), (FileId ''3'', ''src/b.rs'')]"

theorem tree_rows_complete_witness:
  "set (shown (tree_rows to_ascii_lowercase sample_tree [''src''] ''RS'')) = {(FileId ''1'', ''src/a.rs''), (FileId ''3'', ''src/b.rs'')}"
proof -
  have "to_ascii_lowercase ''RS'' \<noteq> []" by code_simp
  moreover have "set (filter (tree_matches to_ascii_lowercase (to_ascii_lowercase ''RS'') (ft_old_paths sample_tree)) (ft_entries sample_tree)) =
    {(FileId ''1'', ''src/a.rs''), (FileId ''3'', ''src/b.rs'')}" by code_simp
  ultimately show ?thesis using tree_rows_complete [of to_ascii_lowercase sample_tree "[''src'']" "''RS''"] by simp
qed

end
