(* ===== verification/Layout.thy ===== *)
theory Layout
  imports Patch
begin

text \<open>
  Source mapping, \<open>crates/core/src/layout.rs\<close>: copying a byte range, tab expansion with
  its map of offsets, and the fragment that holds a byte. Measured positions and heights
  are floating-point numbers of the text engine and are not part of the model.
  \<open>partition_point\<close> is the length of the prefix on which the predicate holds, which is
  what its binary search returns on a partitioned list.
\<close>

datatype mapping_error = MapOutOfBounds | MapInvalidBoundary | MapIncomplete

definition copy_source_range :: "bytes \<Rightarrow> nat \<Rightarrow> nat \<Rightarrow> mapping_error + str" where
  "copy_source_range bs start stop =
     (case from_utf8 bs of
        None \<Rightarrow> Inl MapInvalidBoundary
      | Some full \<Rightarrow>
          if start > stop \<or> stop > length bs then Inl MapOutOfBounds
          else okE MapInvalidBoundary (str_get full start stop))"

definition fragment_for_byte :: "(nat \<times> nat) list \<Rightarrow> nat \<Rightarrow> nat option" where
  "fragment_for_byte fragments byte =
     (case position (\<lambda>f. fst f \<le> byte \<and> byte < snd f) fragments of
        Some k \<Rightarrow> Some k
      | None \<Rightarrow> if fragments \<noteq> [] \<and> byte = snd (last fragments) then Some (length fragments - 1) else None)"

section \<open>Tabs\<close>

record display_text =
  dt_text :: str
  dt_map :: "(nat \<times> nat) list"

fun expand_tabs :: "nat \<Rightarrow> nat \<Rightarrow> nat \<Rightarrow> str \<Rightarrow> (nat \<times> nat) list \<Rightarrow> str list \<Rightarrow> str \<times> (nat \<times> nat) list" where
  "expand_tabs tab column i dst m [] = (dst, m)"
| "expand_tabs tab column i dst m (c # cs) =
     (if c = [TAB]
      then let n = tab - column mod tab in
        expand_tabs tab (column + n) (i + length c) (dst @ replicate n (CHR '' ''))
          (m @ map (\<lambda>k. (length dst + k, i)) [0..<n]) cs
      else expand_tabs tab (column + 1) (i + length c) (dst @ c) (m @ [(length dst, i)]) cs)"

definition display_new :: "str \<Rightarrow> nat \<Rightarrow> display_text" where
  "display_new source tab_size =
     (if TAB \<notin> set source then \<lparr>dt_text = source, dt_map = []\<rparr>
      else case expand_tabs (max 1 (min tab_size 16)) 0 0 [] [] (chars source) of
        (dst, m) \<Rightarrow> \<lparr>dt_text = dst, dt_map = m @ [(length dst, length source)]\<rparr>)"

definition source_byte :: "display_text \<Rightarrow> nat \<Rightarrow> nat" where
  "source_byte t display =
     (if dt_map t = [] then min display (length (dt_text t))
      else let k = partition_point (\<lambda>e. fst e \<le> display) (dt_map t) - 1 in
        if k < length (dt_map t) then snd (dt_map t ! k) else 0)"

definition display_byte :: "display_text \<Rightarrow> nat \<Rightarrow> nat" where
  "display_byte t source =
     (if dt_map t = [] then min source (length (dt_text t))
      else let k = partition_point (\<lambda>e. snd e < source) (dt_map t) in
        if k < length (dt_map t) then fst (dt_map t ! k) else length (dt_text t))"

section \<open>Boundaries are character starts\<close>

lemma boundary_chars:
  assumes "valid_utf8 s" "is_char_boundary s b"
  obtains cs ds where "chars s = cs @ ds" "b = length (concat cs)"
proof -
  have "chars s = chars (take b s) @ chars (drop b s)"
    using chars_append [of "take b s" "drop b s"] valid_utf8_boundary [OF assms] by simp
  moreover have "b = length (concat (chars (take b s)))" using char_boundary_le [OF assms(2)] by simp
  ultimately show ?thesis by (rule that)
qed

section \<open>The map of a line with tabs\<close>

definition map_ok :: "nat \<Rightarrow> nat \<Rightarrow> (nat \<times> nat) list \<Rightarrow> bool" where
  "map_ok d i m \<longleftrightarrow> sorted_wrt (<) (map fst m) \<and> sorted (map snd m) \<and> (\<forall>e \<in> set m. fst e < d \<and> snd e < i)"

lemma map_ok_append:
  assumes "map_ok d i m" "sorted_wrt (<) (map fst m')" "\<forall>e \<in> set m'. d \<le> fst e \<and> fst e < d' \<and> snd e = i" "d \<le> d'" "i < i'"
  shows "map_ok d' i' (m @ m')"
proof -
  have "sorted (map snd m')" using assms(3) by (induction m') auto
  with assms show ?thesis by (fastforce simp: map_ok_def sorted_wrt_append sorted_append)
qed

fun starts :: "nat \<Rightarrow> str list \<Rightarrow> nat list" where
  "starts i [] = []"
| "starts i (c # cs) = i # starts (i + length c) cs"

lemma starts_mem: "ds \<noteq> [] \<Longrightarrow> i + length (concat cs) \<in> set (starts i (cs @ ds))"
proof (induction cs arbitrary: i)
  case Nil
  then show ?case by (cases ds) auto
next
  case (Cons c cs)
  then show ?case using Cons.IH [of "i + length c"] by (simp add: add.assoc)
qed

lemma expand_tabs_map:
  assumes "expand_tabs tab column i dst m cs = (dst', m')" "map_ok (length dst) i m" "0 < tab" "[] \<notin> set cs"
  shows "map_ok (length dst') (i + length (concat cs)) m' \<and> length dst \<le> length dst' \<and>
    snd ` set m' = snd ` set m \<union> set (starts i cs)"
  using assms
proof (induction tab column i dst m cs rule: expand_tabs.induct)
  case (2 tab column i dst m c cs)
  define n where "n = (if c = [TAB] then tab - column mod tab else 1)"
  define dst1 where "dst1 = dst @ (if c = [TAB] then replicate n (CHR '' '') else c)"
  define m1 where "m1 = m @ (if c = [TAB] then map (\<lambda>k. (length dst + k, i)) [0..<n] else [(length dst, i)])"
  have rec: "expand_tabs tab (column + n) (i + length c) dst1 m1 cs = (dst', m')"
    using 2(3) by (auto simp: n_def dst1_def m1_def Let_def)
  have n: "0 < n" using 2(5) by (simp add: n_def)
  have c: "c \<noteq> []" using 2(6) by auto
  have len: "length dst < length dst1" using n c by (auto simp: dst1_def)
  have ok: "map_ok (length dst1) (i + length c) m1"
    unfolding m1_def
    by (rule map_ok_append [OF 2(4)]) (use n c len in \<open>auto simp: dst1_def sorted_wrt_map comp_def sorted_wrt_upt\<close>)
  have snds: "snd ` set m1 = insert i (snd ` set m)" using n by (auto simp: m1_def image_Un image_image)
  have ih: "map_ok (length dst') (i + length c + length (concat cs)) m' \<and> length dst1 \<le> length dst' \<and>
    snd ` set m' = snd ` set m1 \<union> set (starts (i + length c) cs)"
  proof (cases "c = [TAB]")
    case True
    show ?thesis using 2(1) [OF True refl _ _ 2(5)] rec ok 2(6) True by (simp add: n_def dst1_def m1_def)
  next
    case False
    show ?thesis using 2(2) [OF False _ _ 2(5)] rec ok 2(6) False by (simp add: n_def dst1_def m1_def)
  qed
  with ih snds len show ?case by (auto simp: add.assoc)
qed auto

lemma expand_tabs_text:
  "expand_tabs tab column i dst m cs = (dst', m') \<Longrightarrow>
    filter (\<lambda>c. c \<noteq> CHR '' '' \<and> c \<noteq> TAB) dst' = filter (\<lambda>c. c \<noteq> CHR '' '' \<and> c \<noteq> TAB) (dst @ concat cs)"
  by (induction tab column i dst m cs rule: expand_tabs.induct) (auto simp: Let_def split: if_splits)

lemma partition_point_first:
  fixes m :: "(nat \<times> nat) list"
  assumes "sorted (map snd m)" "e \<in> set m" "snd e = b"
  shows "partition_point (\<lambda>e. snd e < b) m < length m \<and> snd (m ! partition_point (\<lambda>e. snd e < b) m) = b"
proof -
  have "dropWhile (\<lambda>e. snd e < b) m \<noteq> []" using assms(2,3) by auto
  moreover have "length m = length (takeWhile (\<lambda>e. snd e < b) m) + length (dropWhile (\<lambda>e. snd e < b) m)"
    by (metis length_append takeWhile_dropWhile_id)
  ultimately have k: "partition_point (\<lambda>e. snd e < b) m < length m" by (simp add: partition_point_def)
  have ge: "b \<le> snd (m ! partition_point (\<lambda>e. snd e < b) m)"
    using k unfolding partition_point_def using nth_length_takeWhile [of "\<lambda>e. snd e < b" m] by force
  obtain j where j: "j < length m" "m ! j = e" using assms(2) by (auto simp: in_set_conv_nth)
  have "partition_point (\<lambda>e. snd e < b) m \<le> j"
  proof (rule ccontr)
    assume "\<not> ?thesis"
    then have "snd (m ! j) < b" unfolding partition_point_def using takeWhile_nth set_takeWhileD nth_mem by (metis not_le)
    with j assms(3) show False by simp
  qed
  then have "snd (m ! partition_point (\<lambda>e. snd e < b) m) \<le> b"
    using sorted_nth_mono [OF assms(1)] j assms(3) by fastforce
  with k ge show ?thesis by simp
qed

lemma partition_point_here:
  fixes m :: "(nat \<times> nat) list"
  assumes "sorted_wrt (<) (map fst m)" "k < length m"
  shows "partition_point (\<lambda>e. fst e \<le> fst (m ! k)) m = Suc k"
proof -
  have lt: "fst (m ! i) < fst (m ! j)" if "i < j" "j < length m" for i j
    using sorted_wrt_nth_less [OF assms(1), of i j] that by simp
  have "takeWhile (\<lambda>e. fst e \<le> fst (m ! k)) m = take (Suc k) m"
  proof (rule takeWhile_eq_take_P_nth)
    show "fst (m ! i) \<le> fst (m ! k)" if "i < Suc k" "i < length m" for i
      using lt [of i k] that assms(2) by (cases "i = k") auto
    show "\<not> fst (m ! Suc k) \<le> fst (m ! k)" if "Suc k < length m" using lt [of k "Suc k"] that by simp
  qed
  with assms(2) show ?thesis by (simp add: partition_point_def)
qed

lemma display_map:
  assumes "valid_utf8 source" "TAB \<in> set source" "t = display_new source tab_size"
  shows "sorted_wrt (<) (map fst (dt_map t)) \<and> sorted (map snd (dt_map t)) \<and> dt_map t \<noteq> [] \<and>
    (\<forall>b. is_char_boundary source b \<longrightarrow> (\<exists>e \<in> set (dt_map t). snd e = b))"
proof -
  obtain dst m where x: "expand_tabs (max 1 (min tab_size 16)) 0 0 [] [] (chars source) = (dst, m)" by fastforce
  then have t: "dt_map t = m @ [(length dst, length source)]" using assms(2,3) by (simp add: display_new_def)
  have m: "map_ok (length dst) (length source) m"
    "snd ` set m = set (starts 0 (chars source))"
    using expand_tabs_map [OF x] chars_nonempty [of source] by (auto simp: map_ok_def)
  have "\<exists>e \<in> set (dt_map t). snd e = b" if "is_char_boundary source b" for b
    using assms(1) that
  proof (rule boundary_chars)
    fix cs ds assume cs: "chars source = cs @ ds" "b = length (concat cs)"
    show ?thesis
    proof (cases "ds = []")
      case True
      moreover have "source = concat (cs @ ds)" by (metis concat_chars cs(1))
      ultimately have "b = length source" using cs(2) by simp
      then show ?thesis by (simp add: t)
    next
      case False
      with cs have "b \<in> snd ` set m" using starts_mem [of ds 0 cs] unfolding m(2) by simp
      then show ?thesis by (auto simp: t)
    qed
  qed
  moreover have "sorted_wrt (<) (map fst (dt_map t))" "sorted (map snd (dt_map t))"
    using m(1) by (auto simp: t map_ok_def sorted_wrt_append sorted_append intro: less_imp_le)
  ultimately show ?thesis by (simp add: t)
qed

section \<open>Properties\<close>

text \<open>
  Positions survive tab expansion: for a line of text and any character
  boundary of it, the source offset of its display offset is the boundary itself,
  and display offsets follow the order of the source. Expansion changes nothing but
  tabs and blanks.
\<close>

theorem display_source_roundtrip:
  assumes "valid_utf8 source" "is_char_boundary source b" "t = display_new source tab_size"
  shows "source_byte t (display_byte t b) = b \<and>
    (\<forall>b'. is_char_boundary source b' \<longrightarrow> b \<le> b' \<longrightarrow> display_byte t b \<le> display_byte t b') \<and>
    filter (\<lambda>c. c \<noteq> CHR '' '' \<and> c \<noteq> TAB) (dt_text t) = filter (\<lambda>c. c \<noteq> CHR '' '' \<and> c \<noteq> TAB) source"
proof (cases "TAB \<in> set source")
  case False
  with assms(3) have t: "t = \<lparr>dt_text = source, dt_map = []\<rparr>" by (simp add: display_new_def)
  show ?thesis using char_boundary_le [OF assms(2)] by (simp add: t source_byte_def display_byte_def)
next
  case True
  note m = display_map [OF assms(1) True assms(3)]
  let ?k = "\<lambda>b. partition_point (\<lambda>e. snd e < b) (dt_map t)"
  have k: "?k b' < length (dt_map t)" "snd (dt_map t ! ?k b') = b'" if "is_char_boundary source b'" for b'
    using partition_point_first [of "dt_map t"] m that by blast+
  have d: "display_byte t b' = fst (dt_map t ! ?k b')" if "is_char_boundary source b'" for b'
    using k [OF that] m by (simp add: display_byte_def)
  have "source_byte t (display_byte t b) = b"
    using partition_point_here [of "dt_map t" "?k b"] k [OF assms(2)] m by (simp add: d [OF assms(2)] source_byte_def)
  moreover have "display_byte t b \<le> display_byte t b'" if b': "is_char_boundary source b'" "b \<le> b'" for b'
  proof -
    have "?k b \<le> ?k b'"
    proof (rule ccontr)
      assume "\<not> ?thesis"
      then have "snd (dt_map t ! ?k b') < b"
        unfolding partition_point_def by (metis not_le nth_mem set_takeWhileD takeWhile_nth)
      with k(2) [OF b'(1)] b'(2) show False by simp
    qed
    then have "map fst (dt_map t) ! ?k b \<le> map fst (dt_map t) ! ?k b'"
      using m k(1) [OF b'(1)] by (intro sorted_nth_mono) (auto simp: strict_sorted_imp_sorted)
    then show ?thesis using d k b'(1) assms(2) by auto
  qed
  moreover obtain dst mm where x: "expand_tabs (max 1 (min tab_size 16)) 0 0 [] [] (chars source) = (dst, mm)" by fastforce
  moreover have "dt_text t = dst" using True assms(3) x by (simp add: display_new_def)
  ultimately show ?thesis using expand_tabs_text [OF x] by simp
qed

theorem display_source_roundtrip_witness:
  "source_byte (display_new [CHR ''a'', TAB, CHR ''b''] 4) (display_byte (display_new [CHR ''a'', TAB, CHR ''b''] 4) 2) = 2 \<and>
   dt_text (display_new [CHR ''a'', TAB, CHR ''b''] 4) = ''a   b''"
proof -
  have "valid_utf8 [CHR ''a'', TAB, CHR ''b'']" "is_char_boundary [CHR ''a'', TAB, CHR ''b''] 2" by code_simp+
  moreover have "dt_text (display_new [CHR ''a'', TAB, CHR ''b''] 4) = ''a   b''" by code_simp
  ultimately show ?thesis using display_source_roundtrip by blast
qed

end
