(* ===== verification/Presentation.thy ===== *)
theory Presentation
  imports Snapshot Inline
begin

text \<open>
  Display rows and the search of a snapshot, \<open>crates/core/src/presentation.rs\<close>. The rows of a
  file are laid out in one column or in two, an equal run of removed and added rows gets
  word marks, and a search lists the places where a text occurs. A loop over an
  index of \<open>h.rows\<close> is a recursion over the rows from that index on.
\<close>

section \<open>Cells and rows\<close>

record display_cell =
  cell_number :: nat
  cell_text :: str
  cell_ending :: line_ending
  cell_kind :: row_kind
  intra :: ranges

definition cell_from :: "side \<Rightarrow> patch_row \<Rightarrow> display_cell option" where
  "cell_from s r = map_option (\<lambda>n. \<lparr>cell_number = n, cell_text = row_text r, cell_ending = row_ending r,
     cell_kind = row_kind r, intra = []\<rparr>) (row_number s r)"

datatype display_row =
    HunkRow (hr_label: str) (hr_line: nat) (hr_side: side)
  | LineRow (lr_left: "display_cell option") (lr_right: "display_cell option") (lr_unified: bool)
      (lr_old: "nat option")
  | NoticeRow str

definition row_cell :: "side \<Rightarrow> display_row \<Rightarrow> display_cell option" where
  "row_cell s d = (case d of LineRow l r _ _ \<Rightarrow> (case s of SideLeft \<Rightarrow> l | SideRight \<Rightarrow> r) | _ \<Rightarrow> None)"

definition find_source :: "display_row list \<Rightarrow> side \<Rightarrow> nat \<Rightarrow> nat option" where
  "find_source ds s line =
     position (\<lambda>d. case row_cell s d of None \<Rightarrow> False | Some c \<Rightarrow> cell_number c = line) ds"

section \<open>The rows of a file\<close>

definition content_debug :: "content_kind \<Rightarrow> str" where
  "content_debug c = (case c of CText \<Rightarrow> ''Text'' | CBinary \<Rightarrow> ''Binary'' | CSubmodule \<Rightarrow> ''Submodule'')"

definition kind_debug :: "change_kind \<Rightarrow> str" where
  "kind_debug k = (case k of KAdded \<Rightarrow> ''Added'' | KDeleted \<Rightarrow> ''Deleted'' | KModified \<Rightarrow> ''Modified''
     | KRenamed \<Rightarrow> ''Renamed'' | KCopied \<Rightarrow> ''Copied'')"

definition em_dash :: str where
  "em_dash = [CHR 0xE2, CHR 0x80, CHR 0x94]"

definition mode_label :: "file_change \<Rightarrow> str" where
  "mode_label f =
     (case fc_kind f of
        KAdded \<Rightarrow> if new_mode f = Some ''100755'' then ''Added executable file'' else ''Added file''
      | KDeleted \<Rightarrow> ''Deleted file''
      | _ \<Rightarrow>
          if old_mode f = Some ''100644'' \<and> new_mode f = Some ''100755'' then ''Executable permission added''
          else if old_mode f = Some ''100755'' \<and> new_mode f = Some ''100644'' then ''Executable permission removed''
          else ''File mode: '' @ case_option ''not recorded'' id (old_mode f) @ arrow @
            case_option ''not recorded'' id (new_mode f))"

definition notices :: "file_change \<Rightarrow> display_row list" where
  "notices f =
     (if fc_content f \<noteq> CText
      then [NoticeRow (content_debug (fc_content f) @ '' change '' @ em_dash @ '' executable and binary content are not opened'')]
      else []) @
     (if old_mode f \<noteq> new_mode f then [NoticeRow (mode_label f)] else []) @
     (if hunks f = [] then [NoticeRow (kind_debug (fc_kind f) @ '': metadata-only change'')] else [])"

definition hunk_label :: "hunk \<Rightarrow> str" where
  "hunk_label h = ''@@ -'' @ show_nat (old_start h) @ '','' @ show_nat (old_count h) @ '' +'' @
     show_nat (new_start h) @ '','' @ show_nat (new_count h) @ '' @@ '' @ section_text h"

definition header_row :: "hunk \<Rightarrow> display_row" where
  "header_row h = HunkRow (hunk_label h) (if new_count h > 0 then new_start h else old_start h)
     (if new_count h > 0 then SideRight else SideLeft)"

definition unified_row :: "patch_row \<Rightarrow> display_row" where
  "unified_row r = LineRow (if row_kind r = RRemoved then cell_from SideLeft r else None)
     (if row_kind r \<noteq> RRemoved then cell_from SideRight r else None) True (old_line r)"

definition removed_run :: "patch_row list \<Rightarrow> patch_row list" where
  "removed_run rs = takeWhile (\<lambda>r. row_kind r = RRemoved) rs"

definition added_run :: "patch_row list \<Rightarrow> patch_row list" where
  "added_run rs = takeWhile (\<lambda>r. row_kind r = RAdded) (dropWhile (\<lambda>r. row_kind r = RRemoved) rs)"

definition after_runs :: "patch_row list \<Rightarrow> patch_row list" where
  "after_runs rs = dropWhile (\<lambda>r. row_kind r = RAdded) (dropWhile (\<lambda>r. row_kind r = RRemoved) rs)"

definition split_pair :: "patch_row list \<Rightarrow> patch_row list \<Rightarrow> nat \<Rightarrow> display_row" where
  "split_pair old new p = LineRow (if p < length old then cell_from SideLeft (old ! p) else None)
     (if p < length new then cell_from SideRight (new ! p) else None) False None"

definition split_context :: "patch_row \<Rightarrow> display_row" where
  "split_context r = LineRow (cell_from SideLeft r) (cell_from SideRight r) False None"

lemma after_runs_length: "length (after_runs rs) \<le> length rs"
  unfolding after_runs_def by (rule order_trans [OF length_dropWhile_le length_dropWhile_le])

lemma after_runs_less: "row_kind r = RRemoved \<Longrightarrow> length (after_runs (r # rs)) < Suc (length rs)"
  using after_runs_length [of rs] by (simp add: after_runs_def)

function split_rows :: "patch_row list \<Rightarrow> display_row list" where
  "split_rows [] = []"
| "split_rows (r # rs) =
     (if row_kind r = RRemoved
      then map (split_pair (removed_run (r # rs)) (added_run (r # rs)))
             [0..<max (length (removed_run (r # rs))) (length (added_run (r # rs)))] @
           split_rows (after_runs (r # rs))
      else split_context r # split_rows rs)"
  by pat_completeness auto
termination
  by (relation "measure length") (auto simp: after_runs_less)

definition hunk_rows :: "bool \<Rightarrow> hunk \<Rightarrow> display_row list" where
  "hunk_rows split h = header_row h # (if split then split_rows (rows h) else map unified_row (rows h))"

section \<open>Word marks\<close>

type_synonym word_marks = "side \<times> nat \<rightharpoonup> ranges"

definition mark_at :: "nat option \<Rightarrow> side \<Rightarrow> ranges \<Rightarrow> word_marks \<Rightarrow> word_marks" where
  "mark_at n s v ws = (case n of None \<Rightarrow> ws | Some n \<Rightarrow> ws((s, n) \<mapsto> v))"

definition mark_pair :: "(nat \<Rightarrow> bool) \<Rightarrow> word_marks \<Rightarrow> patch_row \<times> patch_row \<Rightarrow> word_marks" where
  "mark_pair alnum ws p =
     (let (old, new) = p; (left, right) = word_diff alnum (row_text old) (row_text new) in
      mark_at (new_line new) SideRight right (mark_at (old_line old) SideLeft left ws))"

function mark_runs :: "(nat \<Rightarrow> bool) \<Rightarrow> patch_row list \<Rightarrow> word_marks \<Rightarrow> word_marks" where
  "mark_runs alnum [] ws = ws"
| "mark_runs alnum (r # rs) ws =
     (if row_kind r \<noteq> RRemoved then mark_runs alnum rs ws
      else
        (let old = removed_run (r # rs); new = added_run (r # rs) in
         mark_runs alnum (after_runs (r # rs))
           (if length old \<noteq> length new \<or> length old > 32 then ws
            else foldl (mark_pair alnum) ws (zip old new))))"
  by pat_completeness auto
termination
  by (relation "measure (\<lambda>(_, rs, _). length rs)") (auto simp: after_runs_less)

definition decorate_cell :: "side \<Rightarrow> word_marks \<times> display_cell option \<Rightarrow> word_marks \<times> display_cell option" where
  "decorate_cell s p =
     (case snd p of
        None \<Rightarrow> p
      | Some c \<Rightarrow> ((fst p)((s, cell_number c) := None),
          Some (c\<lparr>intra := case_option [] id (fst p (s, cell_number c))\<rparr>)))"

definition decorate_row :: "word_marks \<Rightarrow> display_row \<Rightarrow> word_marks \<times> display_row" where
  "decorate_row ws d =
     (case d of
        LineRow l r u n \<Rightarrow>
          (let (ws1, l') = decorate_cell SideLeft (ws, l); (ws2, r') = decorate_cell SideRight (ws1, r) in
           (ws2, LineRow l' r' u n))
      | _ \<Rightarrow> (ws, d))"

fun decorate :: "word_marks \<Rightarrow> display_row list \<Rightarrow> display_row list" where
  "decorate ws [] = []"
| "decorate ws (d # ds) = (let (ws', d') = decorate_row ws d in d' # decorate ws' ds)"

definition display_rows :: "(nat \<Rightarrow> bool) \<Rightarrow> file_change \<Rightarrow> bool \<Rightarrow> display_row list" where
  "display_rows alnum f split =
     (if hunks f = [] then notices f
      else decorate (foldl (\<lambda>ws h. mark_runs alnum (rows h) ws) Map.empty (hunks f))
        (notices f @ concat (map (hunk_rows split) (hunks f))))"

definition default_wrap :: "str \<Rightarrow> bool" where
  "default_wrap p = list_ex (\<lambda>e. ends_with e (to_ascii_lowercase p)) [''.md'', ''.markdown'', ''.mdx'']"

section \<open>Search\<close>

record search_hit =
  hit_file :: file_id
  hit_side :: side
  hit_line :: nat
  hit_bytes :: range

text \<open>
  \<open>str::match_indices\<close>: the disjoint matches from the left, by start. The pattern is not
  empty here.
\<close>

function match_indices :: "'a list \<Rightarrow> nat \<Rightarrow> 'a list \<Rightarrow> nat list" where
  "match_indices q i s =
     (if q = [] \<or> s = [] then []
      else if starts_with q s then i # match_indices q (i + length q) (drop (length q) s)
      else match_indices q (Suc i) (tl s))"
  by pat_completeness auto
termination
  by (relation "measure (\<lambda>(_, _, s). length s)") (auto simp: starts_with_iff)

definition row_side :: "patch_row \<Rightarrow> side" where
  "row_side r = (if row_kind r = RRemoved then SideLeft else SideRight)"

fun find_row :: "file_id \<Rightarrow> side \<Rightarrow> nat \<Rightarrow> nat \<Rightarrow> nat \<Rightarrow> nat list \<Rightarrow> search_hit list \<Rightarrow> search_hit list + search_hit list" where
  "find_row f s line len limit [] out = Inr out"
| "find_row f s line len limit (i # is) out =
     (let out' = out @ [\<lparr>hit_file = f, hit_side = s, hit_line = line, hit_bytes = (i, i + len)\<rparr>] in
      if length out' \<ge> limit then Inl out' else find_row f s line len limit is out')"

definition find_in_row :: "str \<Rightarrow> nat \<Rightarrow> file_id \<times> patch_row \<Rightarrow> search_hit list \<Rightarrow> search_hit list + search_hit list" where
  "find_in_row q limit p out =
     (case row_number (row_side (snd p)) (snd p) of
        None \<Rightarrow> Inr out
      | Some line \<Rightarrow>
          find_row (fst p) (row_side (snd p)) line (length q) limit (match_indices q 0 (row_text (snd p))) out)"

definition find_hits :: "snapshot \<Rightarrow> str \<Rightarrow> nat \<Rightarrow> search_hit list" where
  "find_hits s q limit =
     (if q = [] then []
      else
        (case foldE (\<lambda>f out. foldE (\<lambda>h out. foldE (\<lambda>r out. find_in_row q limit (fc_id f, r) out)
                (rows h) out) (hunks f) out) (files (snap_patch s)) [] of
           Inl out \<Rightarrow> out | Inr out \<Rightarrow> out))"

declare match_indices.simps [simp del]

section \<open>Every row is shown\<close>

definition side_cells :: "side \<Rightarrow> display_row list \<Rightarrow> display_cell list" where
  "side_cells s ds = List.map_filter (row_cell s) ds"

definition bare :: "display_cell \<Rightarrow> display_cell" where
  "bare c = c\<lparr>intra := []\<rparr>"

lemma side_cells_append [simp]: "side_cells s (xs @ ys) = side_cells s xs @ side_cells s ys"
  by (simp add: side_cells_def map_filter_def)

lemma side_cells_simps [simp]:
  "side_cells s [] = []"
  "side_cells s (d # ds) = (case row_cell s d of None \<Rightarrow> [] | Some c \<Rightarrow> [c]) @ side_cells s ds"
  by (simp_all add: side_cells_def map_filter_def split: option.splits)

lemma map_filter_append [simp]: "List.map_filter f (xs @ ys) = List.map_filter f xs @ List.map_filter f ys"
  by (simp add: map_filter_def)

lemma map_filter_concat: "List.map_filter f (concat xss) = concat (map (List.map_filter f) xss)"
  by (induction xss) (auto simp: map_filter_def)

lemma side_cells_concat: "side_cells s (concat dss) = concat (map (side_cells s) dss)"
  by (induction dss) simp_all

lemma cell_from_kind:
  assumes "row_ok r"
  shows "row_kind r = RAdded \<Longrightarrow> cell_from SideLeft r = None"
    and "row_kind r = RRemoved \<Longrightarrow> cell_from SideRight r = None"
  using assms by (auto simp: row_ok_def cell_from_def row_number_def)

lemma map_filter_None: "(\<And>x. x \<in> set xs \<Longrightarrow> f x = None) \<Longrightarrow> List.map_filter f xs = []"
  by (auto simp: map_filter_def filter_empty_conv)

lemma runs_split: "removed_run rs @ added_run rs @ after_runs rs = rs"
  by (simp add: removed_run_def added_run_def after_runs_def)

lemma removed_run_mem: "r \<in> set (removed_run rs) \<Longrightarrow> row_kind r = RRemoved \<and> r \<in> set rs"
  by (auto simp: removed_run_def dest: set_takeWhileD)

lemma added_run_mem: "r \<in> set (added_run rs) \<Longrightarrow> row_kind r = RAdded \<and> r \<in> set rs"
  by (auto simp: added_run_def dest!: set_takeWhileD dest: set_dropWhileD)

lemma map_filter_agree: "(\<And>x. x \<in> set xs \<Longrightarrow> f x = g x) \<Longrightarrow> List.map_filter f xs = List.map_filter g xs"
  by (induction xs) (auto simp: map_filter_def)

lemma map_filter_upt_nth:
  assumes "length xs \<le> n"
  shows "List.map_filter (\<lambda>p. if p < length xs then g (xs ! p) else None) [0..<n] = List.map_filter g xs"
proof -
  have n: "[0..<n] = [0..<length xs] @ [length xs..<n]"
    using assms by (metis le_add_diff_inverse upt_add_eq_append zero_le)
  have "List.map_filter (\<lambda>p. if p < length xs then g (xs ! p) else None) [length xs..<n] = []"
    by (rule map_filter_None) simp
  moreover have "List.map_filter (\<lambda>p. if p < length xs then g (xs ! p) else None) [0..<length xs] =
      List.map_filter (\<lambda>p. g (xs ! p)) [0..<length xs]"
    by (rule map_filter_agree) simp
  moreover have "List.map_filter (\<lambda>p. g (xs ! p)) [0..<length xs] = List.map_filter g (map ((!) xs) [0..<length xs])"
    by (simp add: map_filter_def filter_map comp_def)
  ultimately show ?thesis by (simp add: n map_nth)
qed

lemma side_cells_pairs:
  "side_cells s (map (split_pair old new) [0..<max (length old) (length new)]) =
     (case s of SideLeft \<Rightarrow> List.map_filter (cell_from SideLeft) old | SideRight \<Rightarrow> List.map_filter (cell_from SideRight) new)"
proof -
  have "side_cells s (map (split_pair old new) ps) = List.map_filter (\<lambda>p. row_cell s (split_pair old new p)) ps" for ps
    by (simp add: side_cells_def map_filter_def filter_map comp_def)
  then show ?thesis
    using map_filter_upt_nth [of old _ "cell_from SideLeft"] map_filter_upt_nth [of new _ "cell_from SideRight"]
    by (simp add: row_cell_def split_pair_def split: side.split)
qed

lemma split_rows_cells:
  "list_all row_ok rs \<Longrightarrow> side_cells s (split_rows rs) = List.map_filter (cell_from s) rs"
proof (induction rs rule: split_rows.induct)
  case (2 r rs)
  show ?case
  proof (cases "row_kind r = RRemoved")
    case True
    let ?old = "removed_run (r # rs)" and ?new = "added_run (r # rs)" and ?rest = "after_runs (r # rs)"
    have ok: "row_ok x" if "x \<in> set (r # rs)" for x using 2(3) that by (auto simp: list_all_iff)
    have "set ?rest \<subseteq> set (r # rs)" by (metis runs_split set_append Un_iff subsetI)
    then have "list_all row_ok ?rest" using 2(3) by (auto simp: list_all_iff)
    from 2(1) [OF True this] have rest: "side_cells s (split_rows ?rest) = List.map_filter (cell_from s) ?rest" .
    have l: "List.map_filter (cell_from SideLeft) ?new = []"
      by (rule map_filter_None) (use cell_from_kind(1) ok added_run_mem in blast)
    have r: "List.map_filter (cell_from SideRight) ?old = []"
      by (rule map_filter_None) (use cell_from_kind(2) ok removed_run_mem in blast)
    have "side_cells s (split_rows (r # rs)) =
        (case s of SideLeft \<Rightarrow> List.map_filter (cell_from SideLeft) ?old | SideRight \<Rightarrow> List.map_filter (cell_from SideRight) ?new)
        @ List.map_filter (cell_from s) ?rest"
      using True by (simp add: side_cells_pairs rest)
    also have "\<dots> = List.map_filter (cell_from s) (?old @ ?new @ ?rest)"
      using l r by (cases s) simp_all
    finally show ?thesis by (simp only: runs_split)
  next
    case False
    with 2 show ?thesis
      by (simp add: row_cell_def split_context_def map_filter_def split: side.split option.split)
  qed
qed simp

lemma unified_rows_cells:
  "side_cells s (map unified_row rs) = List.map_filter (cell_from s) (filter (\<lambda>r. row_side r = s) rs)"
  by (induction rs)
    (auto simp: row_cell_def unified_row_def row_side_def map_filter_def split: side.splits option.splits)

section \<open>Decoration\<close>

lemma decorate_row_cell:
  assumes "decorate_row ws d = (ws', d')"
  shows "map_option bare (row_cell s d') = map_option bare (row_cell s d)"
  using assms by (cases d)
    (auto simp: decorate_row_def decorate_cell_def row_cell_def bare_def Let_def split: option.splits prod.splits side.splits)

lemma decorate_bare: "map bare (side_cells s (decorate ws ds)) = map bare (side_cells s ds)"
proof (induction ds arbitrary: ws)
  case (Cons d ds)
  obtain ws' d' where d: "decorate_row ws d = (ws', d')" by fastforce
  with Cons decorate_row_cell [OF d, of s] show ?case
    by (cases "row_cell s d"; cases "row_cell s d'") simp_all
qed simp

lemma notices_cells: "side_cells s (notices f) = []"
  by (simp add: notices_def row_cell_def)

lemma bare_cells: "map bare (List.map_filter (cell_from s) rs) = List.map_filter (cell_from s) rs"
  by (induction rs) (auto simp: map_filter_def cell_from_def bare_def)

lemma display_rows_bare:
  "map bare (side_cells s (display_rows alnum f split)) =
     concat (map (\<lambda>h. map bare (side_cells s (hunk_rows split h))) (hunks f))"
  by (simp add: display_rows_def decorate_bare notices_cells side_cells_concat map_concat comp_def)

text \<open>The marks kept for a line belong to a row with that number and lie in its text.\<close>

definition marks_fit :: "patch_row list \<Rightarrow> word_marks \<Rightarrow> bool" where
  "marks_fit rs ws \<longleftrightarrow> (\<forall>s n v. ws (s, n) = Some v \<longrightarrow>
     (\<exists>r \<in> set rs. row_number s r = Some n \<and> marks_ok 0 (length (row_text r)) v))"

lemma marks_fit_step:
  assumes "marks_fit rs ws" "r \<in> set rs" "\<And>m. n = Some m \<Longrightarrow> row_number s r = Some m" "marks_ok 0 (length (row_text r)) v"
  shows "marks_fit rs (mark_at n s v ws)"
  using assms by (cases n) (auto simp: marks_fit_def mark_at_def)

lemma marks_fit_pair:
  assumes "marks_fit rs ws" "list_all row_ok rs" "old \<in> set rs" "new \<in> set rs"
  shows "marks_fit rs (mark_pair alnum ws (old, new))"
proof -
  obtain l r where w: "word_diff alnum (row_text old) (row_text new) = (l, r)" by fastforce
  have "valid_utf8 (row_text old)" "valid_utf8 (row_text new)" using assms by (auto simp: list_all_iff row_ok_def)
  from word_diff_ranges [OF this w]
  have m: "marks_ok 0 (length (row_text old)) l" "marks_ok 0 (length (row_text new)) r" by auto
  have "marks_fit rs (mark_at (old_line old) SideLeft l ws)"
    by (rule marks_fit_step [OF assms(1,3) _ m(1)]) (simp add: row_number_def)
  from marks_fit_step [OF this assms(4) _ m(2), of "new_line new" SideRight]
  show ?thesis by (simp add: mark_pair_def w row_number_def)
qed

lemma marks_fit_pairs:
  "marks_fit rs ws \<Longrightarrow> list_all row_ok rs \<Longrightarrow> set ps \<subseteq> set rs \<times> set rs \<Longrightarrow> marks_fit rs (foldl (mark_pair alnum) ws ps)"
proof (induction ps arbitrary: ws)
  case (Cons p ps)
  then show ?case using marks_fit_pair [of rs ws "fst p" "snd p" alnum] by auto
qed simp

lemma marks_fit_runs:
  "marks_fit rs ws \<Longrightarrow> list_all row_ok rs \<Longrightarrow> set hs \<subseteq> set rs \<Longrightarrow> marks_fit rs (mark_runs alnum hs ws)"
proof (induction alnum hs ws rule: mark_runs.induct)
  case (2 alnum r hs ws)
  let ?old = "removed_run (r # hs)" and ?new = "added_run (r # hs)" and ?rest = "after_runs (r # hs)"
  have part: "set ?old \<subseteq> set rs" "set ?new \<subseteq> set rs" "set ?rest \<subseteq> set rs"
    using 2(5) runs_split [of "r # hs"] by (metis set_append Un_subset_iff)+
  then have "set (zip ?old ?new) \<subseteq> set rs \<times> set rs" by (auto dest: set_zip_leftD set_zip_rightD)
  then have "marks_fit rs (if length ?old \<noteq> length ?new \<or> length ?old > 32 then ws else foldl (mark_pair alnum) ws (zip ?old ?new))"
    using marks_fit_pairs [OF 2(3,4)] 2(3) by simp
  with 2 part show ?case by (auto simp: Let_def)
qed simp

lemma marks_fit_file:
  assumes "list_all row_ok (file_rows f)"
  shows "marks_fit (file_rows f) (foldl (\<lambda>ws h. mark_runs alnum (rows h) ws) Map.empty (hunks f))"
proof -
  have "marks_fit (file_rows f) (foldl (\<lambda>ws h. mark_runs alnum (rows h) ws) ws hs)"
    if "set hs \<subseteq> set (hunks f)" "marks_fit (file_rows f) ws" for hs ws
    using that
  proof (induction hs arbitrary: ws)
    case (Cons h hs)
    then have "set (rows h) \<subseteq> set (file_rows f)" by (auto simp: file_rows_def)
    with Cons marks_fit_runs [OF Cons.prems(2) assms, of "rows h" alnum] show ?case by simp
  qed simp
  moreover have "marks_fit (file_rows f) Map.empty" by (simp add: marks_fit_def)
  ultimately show ?thesis by blast
qed

lemma marks_fit_remove: "marks_fit rs ws \<Longrightarrow> marks_fit rs (ws(k := None))"
  by (auto simp: marks_fit_def)

definition cell_shows :: "side \<Rightarrow> patch_row list \<Rightarrow> display_cell \<Rightarrow> bool" where
  "cell_shows s rs c \<longleftrightarrow> (\<exists>r \<in> set rs. row_number s r = Some (cell_number c) \<and> row_text r = cell_text c)"

lemma decorate_cell_fits:
  assumes "marks_fit rs ws" "sorted_wrt (<) (side_numbers s rs)" "decorate_cell s (ws, x) = (ws', y)"
    and "\<And>c. x = Some c \<Longrightarrow> cell_shows s rs c"
  shows "marks_fit rs ws' \<and> (\<forall>c. y = Some c \<longrightarrow> marks_ok 0 (length (cell_text c)) (intra c))"
proof (cases x)
  case None
  with assms show ?thesis by (auto simp: decorate_cell_def)
next
  case (Some c)
  let ?v = "case_option [] id (ws (s, cell_number c))"
  have out: "ws' = ws((s, cell_number c) := None)" "y = Some (c\<lparr>intra := ?v\<rparr>)"
    using assms(3) by (auto simp: Some decorate_cell_def)
  obtain r where r: "r \<in> set rs" "row_number s r = Some (cell_number c)" "row_text r = cell_text c"
    using assms(4) [OF Some] by (auto simp: cell_shows_def)
  have "marks_ok 0 (length (cell_text c)) ?v"
  proof (cases "ws (s, cell_number c)")
    case (Some v)
    then obtain r' where r': "r' \<in> set rs" "row_number s r' = Some (cell_number c)" "marks_ok 0 (length (row_text r')) v"
      using assms(1) unfolding marks_fit_def by blast
    have "r' = r" by (rule sorted_numbers_unique [OF assms(2) r'(1) r(1) r'(2) r(2)])
    with r' r Some show ?thesis by simp
  qed (simp add: marks_ok_def)
  with out show ?thesis using marks_fit_remove [OF assms(1)] by simp
qed

lemma decorate_fits:
  assumes "marks_fit rs ws" "\<And>s. sorted_wrt (<) (side_numbers s rs)"
    and "\<And>s c. c \<in> set (side_cells s ds) \<Longrightarrow> cell_shows s rs c"
    and "c \<in> set (side_cells s (decorate ws ds))"
  shows "marks_ok 0 (length (cell_text c)) (intra c)"
  using assms
proof (induction ds arbitrary: ws)
  case (Cons d ds)
  obtain ws' d' where d: "decorate_row ws d = (ws', d')" by fastforce
  have shown: "cell_shows s rs c" if "row_cell s d = Some c" for s c using Cons.prems(3) [of c s] that by simp
  have "marks_fit rs ws' \<and> (\<forall>s c. row_cell s d' = Some c \<longrightarrow> marks_ok 0 (length (cell_text c)) (intra c))"
  proof (cases d)
    case (LineRow l r u n)
    obtain ws1 l' where l: "decorate_cell SideLeft (ws, l) = (ws1, l')" by fastforce
    obtain ws2 r' where r: "decorate_cell SideRight (ws1, r) = (ws2, r')" by fastforce
    note fl = decorate_cell_fits [OF Cons.prems(1,2) l]
    have fl: "marks_fit rs ws1" "\<And>c. l' = Some c \<Longrightarrow> marks_ok 0 (length (cell_text c)) (intra c)"
      using fl shown [of SideLeft] by (auto simp: LineRow row_cell_def)
    have fr: "marks_fit rs ws2" "\<And>c. r' = Some c \<Longrightarrow> marks_ok 0 (length (cell_text c)) (intra c)"
      using decorate_cell_fits [OF fl(1) Cons.prems(2) r] shown [of SideRight] by (auto simp: LineRow row_cell_def)
    have "ws' = ws2" "d' = LineRow l' r' u n" using d l r by (auto simp: LineRow decorate_row_def)
    with fl fr show ?thesis by (auto simp: row_cell_def split: side.splits)
  qed (use d Cons.prems(1) in \<open>auto simp: decorate_row_def row_cell_def\<close>)
  with Cons d show ?case by (auto split: option.splits)
qed simp

lemma cell_shows_bare: "cell_shows s rs (bare c) = cell_shows s rs c"
  by (simp add: cell_shows_def bare_def)

lemma cell_from_shows: "c \<in> set (List.map_filter (cell_from s) rs) \<Longrightarrow> cell_shows s rs c"
  by (auto simp: map_filter_def cell_from_def cell_shows_def)

lemma cell_shows_mono: "cell_shows s rs c \<Longrightarrow> set rs \<subseteq> set rs' \<Longrightarrow> cell_shows s rs' c"
  by (auto simp: cell_shows_def)

lemma hunk_rows_cells:
  assumes "list_all row_ok (rows h)"
  shows "side_cells s (hunk_rows True h) = List.map_filter (cell_from s) (rows h)"
    and "side_cells s (hunk_rows False h) = List.map_filter (cell_from s) (filter (\<lambda>r. row_side r = s) (rows h))"
  using split_rows_cells [OF assms] unified_rows_cells [of s "rows h"]
  by (simp_all add: hunk_rows_def row_cell_def header_row_def)

lemma hunk_rows_shown:
  assumes "list_all row_ok (rows h)" "c \<in> set (side_cells s (hunk_rows split h))"
  shows "cell_shows s (rows h) c"
proof (cases split)
  case True
  with assms hunk_rows_cells(1) [OF assms(1), of s] show ?thesis by (simp add: cell_from_shows)
next
  case False
  with assms hunk_rows_cells(2) [OF assms(1), of s] have "cell_shows s (filter (\<lambda>r. row_side r = s) (rows h)) c"
    by (simp add: cell_from_shows)
  then show ?thesis by (rule cell_shows_mono) auto
qed

lemma file_rows_ok: "file_ok f \<Longrightarrow> h \<in> set (hunks f) \<Longrightarrow> list_all row_ok (rows h)"
  by (auto simp: file_ok_def hunk_ok_def list_all_iff)

section \<open>The search\<close>

lemma match_indices_sound:
  "i \<in> set (match_indices q k s) \<Longrightarrow> \<exists>j. i = k + j \<and> slice j (j + length q) s = q \<and> j + length q \<le> length s"
proof (induction q k s rule: match_indices.induct)
  case (1 q k s)
  show ?case
  proof (cases "q = [] \<or> s = []")
    case True
    with 1(3) show ?thesis by (simp add: match_indices.simps)
  next
    case False
    show ?thesis
    proof (cases "starts_with q s")
      case True
      then obtain t where s: "s = q @ t" by (auto simp: starts_with_iff)
      consider "i = k" | "i \<in> set (match_indices q (k + length q) t)"
        using 1(3) False True by (subst (asm) match_indices.simps) (auto simp: s)
      then show ?thesis
      proof cases
        case 1
        then show ?thesis by (intro exI [of _ 0]) (simp add: s slice_def)
      next
        case 2
        then obtain j where "i = k + length q + j" "slice j (j + length q) t = q" "j + length q \<le> length t"
          using 1(1) [OF False True] by (auto simp: s)
        then show ?thesis by (intro exI [of _ "length q + j"]) (simp add: s slice_def)
      qed
    next
      case no: False
      obtain x t where s: "s = x # t" using False by (cases s) auto
      from 1(3) False no have "i \<in> set (match_indices q (Suc k) t)" by (subst (asm) match_indices.simps) (simp add: s)
      then obtain j where "i = Suc k + j" "slice j (j + length q) t = q" "j + length q \<le> length t"
        using 1(2) [OF False no] by (auto simp: s)
      then show ?thesis by (intro exI [of _ "Suc j"]) (simp add: s slice_def)
    qed
  qed
qed

text \<open>No occurrence is passed over: each one overlaps a listed match that starts no later.\<close>

lemma match_indices_complete:
  assumes "q \<noteq> []" "slice j (j + length q) s = q"
  shows "\<exists>i \<in> set (match_indices q k s). i \<le> k + j \<and> k + j < i + length q"
  using assms
proof (induction q k s arbitrary: j rule: match_indices.induct)
  case (1 q k s)
  have ne: "\<not> (q = [] \<or> s = [])" using 1(3,4) by (auto simp: slice_def)
  show ?case
  proof (cases "starts_with q s")
    case True
    then obtain t where s: "s = q @ t" by (auto simp: starts_with_iff)
    have m: "match_indices q k s = k # match_indices q (k + length q) t"
      using ne True by (subst match_indices.simps) (simp add: s)
    show ?thesis
    proof (cases "j < length q")
      case True
      then show ?thesis by (auto simp: m)
    next
      case False
      then have "slice (j - length q) (j - length q + length q) t = q" using 1(4) by (simp add: s slice_def)
      with 1(1) [OF ne \<open>starts_with q s\<close> 1(3), of "j - length q"] obtain i
        where "i \<in> set (match_indices q (k + length q) t)" "i \<le> k + length q + (j - length q)"
          "k + length q + (j - length q) < i + length q" by (auto simp: s)
      with False show ?thesis by (auto simp: m)
    qed
  next
    case False
    obtain x t where s: "s = x # t" using ne by (cases s) auto
    have m: "match_indices q k s = match_indices q (Suc k) t" using ne False by (subst match_indices.simps) (simp add: s)
    obtain j' where j: "j = Suc j'"
      using 1(4) False by (cases j) (auto simp: slice_def starts_with_iff, metis append_take_drop_id)
    then have "slice j' (j' + length q) t = q" using 1(4) by (simp add: s slice_def)
    with 1(2) [OF ne False 1(3), of j']
    have "\<exists>i \<in> set (match_indices q (Suc k) t). i \<le> Suc k + j' \<and> Suc k + j' < i + length q" by (simp add: s)
    then show ?thesis by (simp add: m j)
  qed
qed

definition row_hits :: "str \<Rightarrow> file_id \<times> patch_row \<Rightarrow> search_hit list" where
  "row_hits q p =
     (case row_number (row_side (snd p)) (snd p) of
        None \<Rightarrow> []
      | Some line \<Rightarrow> map (\<lambda>i. \<lparr>hit_file = fst p, hit_side = row_side (snd p), hit_line = line, hit_bytes = (i, i + length q)\<rparr>)
          (match_indices q 0 (row_text (snd p))))"

definition all_hits :: "snapshot \<Rightarrow> str \<Rightarrow> search_hit list" where
  "all_hits s q = concat (map (\<lambda>f. concat (map (\<lambda>r. row_hits q (fc_id f, r)) (file_rows f))) (files (snap_patch s)))"

definition emit :: "nat \<Rightarrow> 'a list \<Rightarrow> 'a list \<Rightarrow> 'a list + 'a list" where
  "emit L out xs = (if length out + length xs < L then Inr (out @ xs) else Inl (take L (out @ xs)))"

lemma emit_bind:
  "length out < L \<Longrightarrow> (\<And>u. length u < L \<Longrightarrow> k u = emit L u ys) \<Longrightarrow> bindE (emit L out xs) k = emit L out (xs @ ys)"
  by (auto simp: emit_def bind_simps)

lemma emit_fold:
  assumes "\<And>x u. length u < L \<Longrightarrow> f x u = emit L u (g x)" "length out < L"
  shows "foldE f xs out = emit L out (concat (map g xs))"
  using assms(2)
proof (induction xs arbitrary: out)
  case Nil
  then show ?case by (simp add: emit_def)
next
  case (Cons x xs)
  then show ?case by (simp add: assms(1) emit_bind)
qed

lemma find_row_emit:
  assumes "L = max 1 limit" "length out < L"
  shows "find_row f s line len limit is out =
    emit L out (map (\<lambda>i. \<lparr>hit_file = f, hit_side = s, hit_line = line, hit_bytes = (i, i + len)\<rparr>) is)"
  using assms(2)
proof (induction "is" arbitrary: out)
  case Nil
  then show ?case by (simp add: emit_def)
next
  case (Cons i "is")
  show ?case
  proof (cases "Suc (length out) < L")
    case True
    with Cons assms(1) show ?thesis by (simp add: emit_def Let_def)
  next
    case False
    with Cons.prems have L: "L = Suc (length out)" by simp
    with assms(1) have "limit \<le> Suc (length out)" by simp
    then show ?thesis by (simp add: emit_def Let_def L)
  qed
qed

lemma concat_map_concat: "concat (map g (concat xss)) = concat (map (\<lambda>xs. concat (map g xs)) xss)"
  by (induction xss) simp_all

lemma find_hits_emit: "q \<noteq> [] \<Longrightarrow> find_hits s q limit = take (max 1 limit) (all_hits s q)"
proof -
  assume q: "q \<noteq> []"
  let ?L = "max 1 limit"
  have row: "find_in_row q limit p u = emit ?L u (row_hits q p)" if "length u < ?L" for p u
    using find_row_emit [OF refl that] that by (simp add: find_in_row_def row_hits_def emit_def split: option.split)
  have hunk: "foldE (\<lambda>h. foldE (\<lambda>r. find_in_row q limit (fc_id f, r)) (rows h)) hs u =
      emit ?L u (concat (map (\<lambda>h. concat (map (\<lambda>r. row_hits q (fc_id f, r)) (rows h))) hs))" if "length u < ?L" for f hs u
    using that row by (intro emit_fold) simp_all
  have "foldE (\<lambda>f. foldE (\<lambda>h. foldE (\<lambda>r. find_in_row q limit (fc_id f, r)) (rows h)) (hunks f)) (files (snap_patch s)) [] =
      emit ?L [] (all_hits s q)"
    unfolding all_hits_def file_rows_def
    by (rule emit_fold) (simp_all add: hunk concat_map_concat comp_def)
  with q show ?thesis by (simp add: find_hits_def emit_def)
qed

section \<open>Properties\<close>

text \<open>
  Claim C29. No row of a parsed patch is lost, repeated or reordered on screen: side by side, the
  cells of a side are exactly the rows that have a number on that side, in
  order; in one column, the right cells are the rows that are not removed and the left
  ones the removed rows. Number, text, line ending and kind are the row's own.
\<close>

theorem display_rows_cover:
  assumes "file_ok f"
  shows "map bare (side_cells s (display_rows alnum f True)) = List.map_filter (cell_from s) (file_rows f) \<and>
    map bare (side_cells s (display_rows alnum f False)) =
      List.map_filter (cell_from s) (filter (\<lambda>r. row_side r = s) (file_rows f))"
proof -
  have "map bare (side_cells s (hunk_rows True h)) = List.map_filter (cell_from s) (rows h)"
    "map bare (side_cells s (hunk_rows False h)) = List.map_filter (cell_from s) (filter (\<lambda>r. row_side r = s) (rows h))"
    if "h \<in> set (hunks f)" for h
    using hunk_rows_cells [OF file_rows_ok [OF assms that], of s] by (simp_all add: bare_cells)
  then show ?thesis
    by (simp add: display_rows_bare file_rows_def filter_concat map_filter_concat comp_def cong: map_cong)
qed

lemma sample_change_ok: "file_ok sample_change"
proof -
  have "side_numbers s (rows h) = [side_start s h ..< side_start s h + side_count s h]"
    "range_ok (side_start s h) (side_count s h)" if "h \<in> set (hunks sample_change)" for s h
    using that by (cases s; simp add: sample_change_def side_start_def side_count_def row_number_def range_ok_def
        u32_max_def upt_rec)+
  moreover have "list_all (\<lambda>h. list_all row_ok (rows h)) (hunks sample_change)" by code_simp
  ultimately show ?thesis
    by (simp add: file_ok_def hunk_ok_def list_all_iff) (simp add: sample_change_def)
qed

theorem display_rows_cover_witness:
  "map bare (side_cells SideRight (display_rows ascii_alnum sample_change True)) =
     List.map_filter (cell_from SideRight) (file_rows sample_change) \<and>
   map cell_number (side_cells SideRight (display_rows ascii_alnum sample_change True)) = [4, 5, 6] \<and>
   map cell_number (side_cells SideLeft (display_rows ascii_alnum sample_change False)) = [5]"
  using display_rows_cover [OF sample_change_ok, of SideRight ascii_alnum]
  by (intro conjI) (blast, code_simp+)

text \<open>
  Word marks never point outside the line they decorate: in either view of a
  parsed file, the marks of every cell are non-empty, increasing, separated ranges of the
  cell's own text.
\<close>

theorem display_marks_inside:
  assumes "file_ok f" "c \<in> set (side_cells s (display_rows alnum f split))"
  shows "marks_ok 0 (length (cell_text c)) (intra c)"
proof (cases "hunks f = []")
  case True
  with assms(2) show ?thesis by (simp add: display_rows_def notices_cells)
next
  case False
  let ?ds = "notices f @ concat (map (hunk_rows split) (hunks f))"
  have ok: "list_all row_ok (file_rows f)" using file_rows_ok [OF assms(1)] by (auto simp: file_rows_def list_all_iff)
  have "cell_shows s (file_rows f) c" if c: "c \<in> set (side_cells s ?ds)" for s c
  proof -
    obtain h where h: "h \<in> set (hunks f)" "c \<in> set (side_cells s (hunk_rows split h))"
      using c by (auto simp: notices_cells side_cells_concat)
    from hunk_rows_shown [OF file_rows_ok [OF assms(1) h(1)] h(2)] show ?thesis
      by (rule cell_shows_mono) (use h(1) in \<open>auto simp: file_rows_def\<close>)
  qed
  then show ?thesis
    by (rule decorate_fits [OF marks_fit_file [OF ok] file_numbers_sorted [OF assms(1)], where ds = ?ds])
      (use assms(2) False in \<open>simp_all add: display_rows_def\<close>)
qed

theorem display_marks_inside_witness:
  "marks_ok 0 (length (cell_text (hd (side_cells SideLeft (display_rows ascii_alnum sample_change True)))))
     (intra (hd (side_cells SideLeft (display_rows ascii_alnum sample_change True))))"
proof -
  have "side_cells SideLeft (display_rows ascii_alnum sample_change True) \<noteq> []" by code_simp
  from display_marks_inside [OF sample_change_ok hd_in_set [OF this]] show ?thesis .
qed

text \<open>
  A search lists the matches of the whole snapshot in order, cut at the limit (a
  limit of 0 still lists one). Each hit is an occurrence of the query in a
  row with the hit's file, side and line, and no occurrence in a numbered row is passed over: it
  overlaps a match that starts no later.
\<close>

theorem find_hits_search:
  assumes "q \<noteq> []"
  shows "find_hits s q limit = take (max 1 limit) (all_hits s q) \<and>
    (\<forall>hit \<in> set (all_hits s q). \<exists>f \<in> set (files (snap_patch s)). \<exists>r \<in> set (file_rows f).
       hit_file hit = fc_id f \<and> hit_side hit = row_side r \<and> row_number (hit_side hit) r = Some (hit_line hit) \<and>
       slice (fst (hit_bytes hit)) (snd (hit_bytes hit)) (row_text r) = q \<and> snd (hit_bytes hit) \<le> length (row_text r)) \<and>
    (\<forall>f \<in> set (files (snap_patch s)). \<forall>r \<in> set (file_rows f). \<forall>n j.
       row_number (row_side r) r = Some n \<and> slice j (j + length q) (row_text r) = q \<longrightarrow>
       (\<exists>hit \<in> set (all_hits s q). hit_file hit = fc_id f \<and> hit_side hit = row_side r \<and> hit_line hit = n \<and>
          fst (hit_bytes hit) \<le> j \<and> j < snd (hit_bytes hit)))"
proof (intro conjI ballI allI impI)
  show "find_hits s q limit = take (max 1 limit) (all_hits s q)" by (rule find_hits_emit [OF assms])
next
  fix hit
  assume "hit \<in> set (all_hits s q)"
  then obtain f r where fr: "f \<in> set (files (snap_patch s))" "r \<in> set (file_rows f)" "hit \<in> set (row_hits q (fc_id f, r))"
    by (auto simp: all_hits_def)
  then obtain n i where n: "row_number (row_side r) r = Some n" and i: "i \<in> set (match_indices q 0 (row_text r))"
    and h: "hit = \<lparr>hit_file = fc_id f, hit_side = row_side r, hit_line = n, hit_bytes = (i, i + length q)\<rparr>"
    by (cases "row_number (row_side r) r") (auto simp: row_hits_def)
  from match_indices_sound [OF i] fr n show "\<exists>f \<in> set (files (snap_patch s)). \<exists>r \<in> set (file_rows f).
       hit_file hit = fc_id f \<and> hit_side hit = row_side r \<and> row_number (hit_side hit) r = Some (hit_line hit) \<and>
       slice (fst (hit_bytes hit)) (snd (hit_bytes hit)) (row_text r) = q \<and> snd (hit_bytes hit) \<le> length (row_text r)"
    by (intro bexI [of _ f] bexI [of _ r]) (auto simp: h)
next
  fix f r n j
  assume fr: "f \<in> set (files (snap_patch s))" "r \<in> set (file_rows f)"
    and at: "row_number (row_side r) r = Some n \<and> slice j (j + length q) (row_text r) = q"
  obtain i where i: "i \<in> set (match_indices q 0 (row_text r))" "i \<le> j" "j < i + length q"
    using match_indices_complete [OF assms, of j "row_text r" 0] at by auto
  let ?hit = "\<lparr>hit_file = fc_id f, hit_side = row_side r, hit_line = n, hit_bytes = (i, i + length q)\<rparr>"
  have "?hit \<in> set (row_hits q (fc_id f, r))" using at i(1) by (simp add: row_hits_def)
  with fr have "?hit \<in> set (all_hits s q)" unfolding all_hits_def by auto
  with i(2,3) show "\<exists>hit \<in> set (all_hits s q). hit_file hit = fc_id f \<and> hit_side hit = row_side r \<and> hit_line hit = n \<and>
          fst (hit_bytes hit) \<le> j \<and> j < snd (hit_bytes hit)" by (intro bexI [of _ ?hit]) simp_all
qed

theorem find_hits_search_witness:
  "find_hits sample_snapshot ''e'' 2 = take (max 1 2) (all_hits sample_snapshot ''e'') \<and>
   map hit_line (find_hits sample_snapshot ''e'' 2) = [4, 5] \<and>
   map hit_bytes (find_hits sample_snapshot ''e'' 2) = [(1, 2), (3, 4)]"
proof -
  have "''e'' \<noteq> []" by simp
  note found = find_hits_search [OF this, of sample_snapshot 2, THEN conjunct1]
  show ?thesis by (rule conjI [OF found]) code_simp
qed

end
