(* ===== verification/Process.thy ===== *)
theory Process
  imports Store Address
begin

text \<open>
  Child processes, \<open>crates/adapters/src/process.rs\<close>: the request and its limits, the
  threads that drain the pipes, the loop that waits for the child, the lookup of a
  program in the path, and the excerpt of standard error that error messages show.
  What the operating system answers is an argument: a pipe is the list of what its
  reads returned so far, and each turn of the waiting loop has what it observed. Windows
  paths are not modelled.
\<close>

section \<open>Requests and pipes\<close>

type_synonym os_string = string

record process_request =
  executable :: os_string
  pq_args :: "os_string list"
  pq_cwd :: "os_string option"
  pq_env :: "(os_string, os_string) btree"
  env_remove :: "os_string list"
  pq_stdin :: bytes
  deadline_secs :: nat
  stdout_limit :: nat
  stderr_limit :: nat

definition request_new :: "os_string \<Rightarrow> process_request" where
  "request_new exe = \<lparr>executable = exe, pq_args = [], pq_cwd = None, pq_env = [], env_remove = [], pq_stdin = [],
     deadline_secs = 30, stdout_limit = 32 * 1024 * 1024, stderr_limit = 64 * 1024\<rparr>"

definition with_args :: "os_string list \<Rightarrow> process_request \<Rightarrow> process_request" where
  "with_args args r = r\<lparr>pq_args := args\<rparr>"

text \<open>The status of a child that ended: its exit code, none after a signal.\<close>

type_synonym exit_status = "int option"

definition exit_success :: "exit_status \<Rightarrow> bool" where
  "exit_success s \<longleftrightarrow> s = Some 0"

record process_output =
  po_status :: exit_status
  po_stdout :: bytes
  po_stderr :: bytes

text \<open>
  The answers of \<open>read\<close>: an error, or the bytes, none at the end of the pipe. The result is
  absent while the thread is still waiting; the flag is the shared overflow flag.
\<close>

type_synonym pipe_reads = "(store_error + bytes) list"

fun drain :: "nat \<Rightarrow> bytes \<Rightarrow> pipe_reads \<Rightarrow> (store_error + bytes) option \<times> bool" where
  "drain cap out [] = (None, False)"
| "drain cap out (r # rs) =
     (case r of
        Inl e \<Rightarrow> (Some (Inl e), False)
      | Inr buf \<Rightarrow>
          if buf = [] then (Some (Inr out), False)
          else if length out + length buf > cap then (Some (Inl IoError), True)
          else drain cap (out @ buf) rs)"

section \<open>Running a child\<close>

definition FIXED_ENV :: "(os_string \<times> os_string) list" where
  "FIXED_ENV = [(''GIT_TERMINAL_PROMPT'', ''0''), (''GH_PROMPT_DISABLED'', ''1''), (''GH_PAGER'', ''cat''),
     (''PAGER'', ''cat''), (''NO_COLOR'', ''1'')]"

text \<open>The environment of the child, over the inherited one: later settings win.\<close>

definition child_env :: "process_request \<Rightarrow> (os_string \<rightharpoonup> os_string) \<Rightarrow> (os_string \<rightharpoonup> os_string)" where
  "child_env r inherited =
     foldl (\<lambda>e (k, v). e(k \<mapsto> v))
       (foldl (\<lambda>e k. e(k := None)) (foldl (\<lambda>e (k, v). e(k \<mapsto> v)) inherited (pq_env r)) (env_remove r))
       FIXED_ENV"

record observed =
  ob_cancelled :: bool
  ob_overflow :: bool
  ob_late :: bool
  ob_stdout :: pipe_reads
  ob_stderr :: pipe_reads
  ob_stdin :: "(store_error + unit) option"
  ob_status :: "store_error + exit_status option"

record run_state =
  rs_out :: "(store_error + bytes) option"
  rs_err :: "(store_error + bytes) option"
  rs_in :: "(store_error + unit) option"
  rs_status :: "exit_status option"

definition run_start :: run_state where
  "run_start = \<lparr>rs_out = None, rs_err = None, rs_in = None, rs_status = None\<rparr>"

definition receive :: "'a option \<Rightarrow> 'a option \<Rightarrow> 'a option" where
  "receive have arrived = (case have of None \<Rightarrow> arrived | Some x \<Rightarrow> Some x)"

text \<open>The result together with whether the loop itself terminated the child's process group.\<close>

type_synonym run_result = "(store_error + process_output) \<times> bool"

definition run_finish :: "run_state \<Rightarrow> run_result option" where
  "run_finish st =
     (case (rs_status st, rs_out st, rs_err st, rs_in st) of
        (Some s, Some out, Some err, Some input) \<Rightarrow>
          Some (bindE out (\<lambda>stdout. bindE err (\<lambda>stderr.
            bindE (if exit_success s then input else Inr ()) (\<lambda>_.
              Inr \<lparr>po_status = s, po_stdout = stdout, po_stderr = stderr\<rparr>))), False)
      | _ \<Rightarrow> None)"

definition run_turn :: "process_request \<Rightarrow> observed \<Rightarrow> run_state \<Rightarrow> run_result + run_state" where
  "run_turn r ob st =
     (if ob_cancelled ob then Inl (Inl (Message ''process cancelled''), True)
      else if ob_overflow ob
      then Inl (Inl (Message ''process output limit exceeded; response was not truncated into success''), True)
      else if ob_late ob then Inl (Inl (Message ''process deadline exceeded; child group terminated''), True)
      else
        (let st = st\<lparr>rs_out := receive (rs_out st) (fst (drain (stdout_limit r) [] (ob_stdout ob))),
                     rs_err := receive (rs_err st) (fst (drain (stderr_limit r) [] (ob_stderr ob))),
                     rs_in := receive (rs_in st) (ob_stdin ob)\<rparr> in
         case (if rs_status st = None then ob_status ob else Inr (rs_status st)) of
           Inl e \<Rightarrow> Inl (Inl e, True)
         | Inr status \<Rightarrow>
             (let st = st\<lparr>rs_status := status\<rparr> in
              case run_finish st of Some res \<Rightarrow> Inl res | None \<Rightarrow> Inr st)))"

fun run_loop :: "process_request \<Rightarrow> run_state \<Rightarrow> observed list \<Rightarrow> run_result option" where
  "run_loop r st [] = None"
| "run_loop r st (ob # obs) =
     (case run_turn r ob st of Inl res \<Rightarrow> Some res | Inr st' \<Rightarrow> run_loop r st' obs)"

text \<open>
  \<open>spawned\<close> is the answer of \<open>spawn\<close>; the outcome says whether a child was started, \<open>None\<close> that the
  observations end before the loop does.
\<close>

definition is_absolute :: "os_string \<Rightarrow> bool" where
  "is_absolute p \<longleftrightarrow> starts_with ''/'' p"

definition run_process :: "process_request \<Rightarrow> bool \<Rightarrow> str + unit \<Rightarrow> observed list \<Rightarrow> (run_result \<times> bool) option" where
  "run_process r cancelled spawned obs =
     (if cancelled then Some ((Inl (Message ''process cancelled''), False), False)
      else if \<not> is_absolute (executable r)
      then Some ((Inl (Message ''the executable must resolve to a trusted absolute path''), False), False)
      else if length (pq_stdin r) > 32 * 1024 * 1024
      then Some ((Inl (Message ''process input is larger than the permitted safety bound''), False), False)
      else
        (case spawned of
           Inl e \<Rightarrow> Some ((Inl (Message (''configured executable could not start: '' @ e)), False), False)
         | Inr _ \<Rightarrow> map_option (\<lambda>res. (res, True)) (run_loop r run_start obs)))"

section \<open>Finding a program\<close>

record file_system =
  fs_is_file :: "os_string \<Rightarrow> bool"
  fs_mode :: "os_string \<Rightarrow> store_error + nat"
  fs_canonical :: "os_string \<Rightarrow> store_error + os_string"

text \<open>\<open>Path::join\<close> with a relative name.\<close>

definition path_join :: "os_string \<Rightarrow> os_string \<Rightarrow> os_string" where
  "path_join dir name = (if dir = [] \<or> ends_with ''/'' dir then dir @ name else dir @ ''/'' @ name)"

definition mode_executable :: "nat \<Rightarrow> bool" where
  "mode_executable m \<longleftrightarrow> odd m \<or> odd (m div 8) \<or> odd (m div 64)"

fun find_program :: "file_system \<Rightarrow> os_string \<Rightarrow> os_string list \<Rightarrow> store_error + os_string" where
  "find_program fs name [] = Inl (Message (''no absolute PATH directory contains '' @ name))"
| "find_program fs name (dir # dirs) =
     (if \<not> is_absolute dir then find_program fs name dirs
      else if \<not> fs_is_file fs (path_join dir name) then find_program fs name dirs
      else
        bindE (fs_mode fs (path_join dir name)) (\<lambda>m.
          if \<not> mode_executable m then find_program fs name dirs
          else bindE (fs_canonical fs dir) (\<lambda>d. Inr (path_join d name))))"

definition resolve_program_in :: "file_system \<Rightarrow> os_string \<Rightarrow> os_string \<Rightarrow> store_error + os_string" where
  "resolve_program_in fs name path =
     failIf (CHR ''/'' \<in> set name \<or> BACKSLASH \<in> set name) (Message ''the program name must not contain a path'')
       (find_program fs name (split_on (CHR '':'') path))"

definition resolve_program :: "file_system \<Rightarrow> os_string option \<Rightarrow> os_string \<Rightarrow> store_error + os_string" where
  "resolve_program fs path name = bindE (okE (Message ''PATH is unset'') path) (resolve_program_in fs name)"

section \<open>The excerpt of standard error\<close>

text \<open>
  \<open>String::from_utf8_lossy\<close>: each longest prefix of an ill-formed sequence becomes one
  replacement character. \<open>lossy_skip\<close> is the length of that prefix.
\<close>

definition replacement :: str where
  "replacement = [CHR 0xEF, CHR 0xBF, CHR 0xBD]"

definition second_ok :: "nat \<Rightarrow> char \<Rightarrow> bool" where
  "second_ok x b \<longleftrightarrow>
     (if x = 0xE0 then 0xA0 \<le> byte_of b \<and> byte_of b < (0xC0 :: nat)
      else if x = 0xED then 0x80 \<le> byte_of b \<and> byte_of b < (0xA0 :: nat)
      else if x = 0xF0 then 0x90 \<le> byte_of b \<and> byte_of b < (0xC0 :: nat)
      else if x = 0xF4 then 0x80 \<le> byte_of b \<and> byte_of b < (0x90 :: nat)
      else is_cont b)"

definition lossy_skip :: "bytes \<Rightarrow> nat" where
  "lossy_skip s =
     (case s of
        a # b # r \<Rightarrow>
          (let x = byte_of a :: nat in
           if 0xE0 \<le> x \<and> x < 0xF5 \<and> second_ok x b
           then (case r of c # _ \<Rightarrow> if 0xF0 \<le> x \<and> is_cont c then 3 else 2 | [] \<Rightarrow> 2)
           else 1)
      | _ \<Rightarrow> 1)"

function from_utf8_lossy :: "bytes \<Rightarrow> str" where
  "from_utf8_lossy s =
     (if s = [] then []
      else
        (case utf8_step s of
           Some (_, n) \<Rightarrow> take n s @ from_utf8_lossy (drop n s)
         | None \<Rightarrow> replacement @ from_utf8_lossy (drop (lossy_skip s) s)))"
  by pat_completeness auto
termination
  by (relation "measure length")
    (auto dest: utf8_step_len simp: lossy_skip_def Let_def split: list.splits if_splits)

declare from_utf8_lossy.simps [simp del]

definition SECRET_PREFIXES :: "str list" where
  "SECRET_PREFIXES = [''ghp_'', ''gho_'', ''ghu_'', ''ghs_'', ''ghr_'', ''github_pat_'', ''glpat-'', ''gloas-'']"

definition hidden_char :: "nat \<Rightarrow> bool" where
  "hidden_char c \<longleftrightarrow> 0x200B \<le> c \<and> c \<le> 0x200F \<or> 0x202A \<le> c \<and> c \<le> 0x202E \<or> 0x2066 \<le> c \<and> c \<le> 0x2069 \<or> c = 0xFEFF"

definition word_break :: "str \<Rightarrow> bool" where
  "word_break c \<longleftrightarrow> is_whitespace (char_cp c) \<or> is_control (char_cp c) \<or> hidden_char (char_cp c)"

fun split_chars :: "(str \<Rightarrow> bool) \<Rightarrow> str \<Rightarrow> str list \<Rightarrow> str list" where
  "split_chars P word [] = [word]"
| "split_chars P word (c # cs) = (if P c then word # split_chars P [] cs else split_chars P (word @ c) cs)"

definition secret_word :: "bool \<Rightarrow> str \<Rightarrow> bool" where
  "secret_word redact_next word \<longleftrightarrow>
     (let lower = to_ascii_lowercase word in
      redact_next \<and> length word \<ge> 16 \<or> list_ex (\<lambda>p. str_contains p lower) SECRET_PREFIXES \<or>
      str_contains ''token='' lower \<or> str_contains ''private-token:'' lower \<or>
      str_contains ''://'' lower \<and> CHR ''@'' \<in> set word)"

definition announces_secret :: "str \<Rightarrow> bool" where
  "announces_secret word \<longleftrightarrow>
     trim_end_char (CHR '':'') (to_ascii_lowercase word) \<in>
       {''bearer'', ''basic'', ''token'', ''authorization'', ''private-token''}"

definition REDACTED :: str where
  "REDACTED = ''[redacted]''"

fun redact_words :: "bool \<Rightarrow> str list \<Rightarrow> str list" where
  "redact_words after [] = []"
| "redact_words after (w # ws) =
     (if w = [] then redact_words after ws
      else (if secret_word after w then REDACTED else w) # redact_words (announces_secret w) ws)"

fun boundary_below :: "str \<Rightarrow> nat \<Rightarrow> nat" where
  "boundary_below s 0 = 0"
| "boundary_below s (Suc n) = (if is_char_boundary s (Suc n) then Suc n else boundary_below s n)"

definition EXCERPT_LIMIT :: nat where
  "EXCERPT_LIMIT = 300"

definition ellipsis :: str where
  "ellipsis = [CHR 0xE2, CHR 0x80, CHR 0xA6]"

definition excerpt_line :: "bytes \<Rightarrow> str" where
  "excerpt_line stderr = join_with '' '' (redact_words False
     (split_chars word_break [] (chars (from_utf8_lossy (take 4096 stderr)))))"

definition stderr_excerpt :: "bytes \<Rightarrow> str option" where
  "stderr_excerpt stderr =
     (let line = excerpt_line stderr in
      if line = [] then None
      else if length line \<le> EXCERPT_LIMIT then Some line
      else Some (take (boundary_below line EXCERPT_LIMIT) line @ ellipsis))"

section \<open>Bounded files\<close>

record opened_file =
  of_regular :: bool
  of_len :: nat
  of_content :: bytes

definition read_bounded :: "store_error + opened_file \<Rightarrow> nat \<Rightarrow> store_error + bytes" where
  "read_bounded file limit =
     bindE file (\<lambda>f.
     failIf (\<not> of_regular f) (Message ''source must be a regular file, rather than a pipe, directory, or device'')
     (failIf (of_len f > limit) (Message ''file exceeds safety limit'')
     (let bs = take (limit + 1) (of_content f) in
      failIf (length bs > limit) (Message ''the file is over the safety limit; truncated input was not loaded'') (Inr bs))))"

section \<open>What a finished run read\<close>

definition pipe_said :: "nat \<Rightarrow> pipe_reads \<Rightarrow> bytes \<Rightarrow> bool" where
  "pipe_said cap reads v \<longleftrightarrow>
     (\<exists>chunks rest. reads = map Inr chunks @ Inr [] # rest \<and> v = concat chunks) \<and> length v \<le> cap"

lemma drain_reads:
  assumes "drain cap out rs = (Some (Inr v), flag)" "length out \<le> cap"
  shows "(\<exists>chunks rest. rs = map Inr chunks @ Inr [] # rest \<and> v = out @ concat chunks) \<and> length v \<le> cap"
  using assms
proof (induction cap out rs rule: drain.induct)
  case (2 cap out r rs)
  then obtain buf where r: "r = Inr buf" by (auto split: sum.splits)
  show ?case
  proof (cases "buf = []")
    case True
    with 2 r have "v = out" by simp
    with 2(3) r True show ?thesis by (intro conjI exI [of _ "[]"] exI [of _ rs]) simp_all
  next
    case False
    with 2 r have d: "drain cap (out @ buf) rs = (Some (Inr v), flag)" "length (out @ buf) \<le> cap"
      by (auto split: if_splits)
    from 2(1) [OF r False _ d] d(2) obtain chunks rest where
      "rs = map Inr chunks @ Inr [] # rest" "v = (out @ buf) @ concat chunks" "length v \<le> cap" by auto
    with r show ?thesis by (intro conjI exI [of _ "buf # chunks"] exI [of _ rest]) simp_all
  qed
qed simp

lemma drain_said: "fst (drain cap [] rs) = Some (Inr v) \<Longrightarrow> pipe_said cap rs v"
  using drain_reads [of cap "[]" rs v "snd (drain cap [] rs)"] by (auto simp: pipe_said_def prod_eq_iff)

text \<open>Everything the loop holds was observed in some turn so far.\<close>

definition run_holds :: "process_request \<Rightarrow> observed set \<Rightarrow> run_state \<Rightarrow> bool" where
  "run_holds r seen st \<longleftrightarrow>
     (\<forall>v. rs_out st = Some (Inr v) \<longrightarrow> (\<exists>ob \<in> seen. pipe_said (stdout_limit r) (ob_stdout ob) v)) \<and>
     (\<forall>v. rs_err st = Some (Inr v) \<longrightarrow> (\<exists>ob \<in> seen. pipe_said (stderr_limit r) (ob_stderr ob) v)) \<and>
     (\<forall>x. rs_status st = Some x \<longrightarrow> (\<exists>ob \<in> seen. ob_status ob = Inr (Some x)))"

definition run_read :: "process_request \<Rightarrow> observed set \<Rightarrow> process_output \<Rightarrow> bool" where
  "run_read r seen out \<longleftrightarrow>
     (\<exists>ob \<in> seen. pipe_said (stdout_limit r) (ob_stdout ob) (po_stdout out)) \<and>
     (\<exists>ob \<in> seen. pipe_said (stderr_limit r) (ob_stderr ob) (po_stderr out)) \<and>
     (\<exists>ob \<in> seen. ob_status ob = Inr (Some (po_status out)))"

lemma run_holds_mono: "run_holds r seen st \<Longrightarrow> seen \<subseteq> seen' \<Longrightarrow> run_holds r seen' st"
  unfolding run_holds_def by blast

lemma receive_Some: "receive h a = Some x \<longleftrightarrow> h = Some x \<or> h = None \<and> a = Some x"
  by (auto simp: receive_def split: option.splits)

lemma run_finish_read:
  assumes "run_holds r seen st" "run_finish st = Some (Inr out, killed)"
  shows "run_read r seen out \<and> \<not> killed"
proof -
  from assms(2) obtain s so se si where st: "rs_status st = Some s" "rs_out st = Some so" "rs_err st = Some se" "rs_in st = Some si"
    by (auto simp: run_finish_def split: option.splits)
  with assms(2) have "bindE so (\<lambda>stdout. bindE se (\<lambda>stderr. bindE (if exit_success s then si else Inr ()) (\<lambda>_.
      Inr \<lparr>po_status = s, po_stdout = stdout, po_stderr = stderr\<rparr>))) = Inr out" and k: "\<not> killed"
    by (auto simp: run_finish_def)
  then have "so = Inr (po_stdout out)" "se = Inr (po_stderr out)" "po_status out = s"
    by (auto simp: bind_simps)
  with st assms(1) k show ?thesis by (auto simp: run_holds_def run_read_def)
qed

lemma run_turn_holds:
  assumes "run_holds r seen st"
  shows "run_turn r ob st = Inr st' \<Longrightarrow> run_holds r (insert ob seen) st'"
    and "run_turn r ob st = Inl (Inr out, killed) \<Longrightarrow> run_read r (insert ob seen) out \<and> \<not> killed"
proof -
  define st1 where "st1 = st\<lparr>rs_out := receive (rs_out st) (fst (drain (stdout_limit r) [] (ob_stdout ob))),
                     rs_err := receive (rs_err st) (fst (drain (stderr_limit r) [] (ob_stderr ob))),
                     rs_in := receive (rs_in st) (ob_stdin ob)\<rparr>"
  have step: "run_holds r (insert ob seen) (st1\<lparr>rs_status := x\<rparr>)"
    if "(if rs_status st1 = None then ob_status ob else Inr (rs_status st1)) = Inr x" for x
    using assms that drain_said unfolding st1_def run_holds_def
    by (auto simp: receive_Some split: if_splits)
  show "run_turn r ob st = Inr st' \<Longrightarrow> run_holds r (insert ob seen) st'"
    unfolding run_turn_def st1_def [symmetric] Let_def
    by (auto split: if_splits sum.splits option.splits intro: step)
  show "run_read r (insert ob seen) out \<and> \<not> killed" if "run_turn r ob st = Inl (Inr out, killed)"
  proof -
    from that [unfolded run_turn_def st1_def [symmetric] Let_def] obtain x
      where "(if rs_status st1 = None then ob_status ob else Inr (rs_status st1)) = Inr x"
        "run_finish (st1\<lparr>rs_status := x\<rparr>) = Some (Inr out, killed)"
      by (cases "if rs_status st1 = None then ob_status ob else Inr (rs_status st1)")
        (auto split: if_splits option.splits)
    then show ?thesis by (rule run_finish_read [OF step])
  qed
qed

lemma run_loop_read:
  assumes "run_holds r seen st" "run_loop r st obs = Some (Inr out, killed)"
  shows "run_read r (seen \<union> set obs) out \<and> \<not> killed"
  using assms
proof (induction obs arbitrary: seen st)
  case (Cons ob obs)
  show ?case
  proof (cases "run_turn r ob st")
    case (Inl res)
    with Cons.prems(2) have "run_turn r ob st = Inl (Inr out, killed)" by simp
    from run_turn_holds(2) [OF Cons.prems(1) this] show ?thesis by (auto simp: run_read_def)
  next
    case (Inr st')
    from Cons.IH [OF run_turn_holds(1) [OF Cons.prems(1) Inr]] Cons.prems(2) Inr show ?thesis by simp
  qed
qed simp

lemma run_loop_prefix: "run_loop r st obs = Some res \<Longrightarrow> run_loop r st (obs @ rest) = Some res"
  by (induction obs arbitrary: st) (auto split: sum.splits)

lemma run_loop_stops:
  assumes "ob_cancelled ob \<or> ob_overflow ob \<or> ob_late ob"
  shows "run_loop r st (obs @ [ob]) \<noteq> None"
proof (induction obs arbitrary: st)
  case Nil
  then show ?case using assms by (auto simp: run_turn_def)
next
  case (Cons x obs)
  then show ?case by (cases "run_turn r x st") simp_all
qed

section \<open>Redaction\<close>

lemma str_contains_iff: "str_contains p s \<longleftrightarrow> (\<exists>a b. s = a @ p @ b)"
proof
  assume "str_contains p s"
  then show "\<exists>a b. s = a @ p @ b" by (auto simp: str_contains_def dest: split_once_Some)
next
  have "split_once p (a @ p @ b) \<noteq> None" for a b
  proof (induction a)
    case Nil
    show ?case by (cases "p @ b") (auto split: option.split, metis append_is_Nil_conv starts_with_append starts_with_def)
  qed (auto split: option.split)
  then show "\<exists>a b. s = a @ p @ b \<Longrightarrow> str_contains p s" by (auto simp: str_contains_def)
qed

lemma contains_within: "str_contains p w \<Longrightarrow> str_contains p (a @ w @ b)"
  unfolding str_contains_iff by (metis append.assoc)

lemma contains_sub: "str_contains p (take n s) \<Longrightarrow> str_contains p s"
  using contains_within [of p "take n s" "[]" "drop n s"] by simp

text \<open>A pattern without the separator lies inside one part.\<close>

lemma contains_append_sep:
  assumes "str_contains p (a @ c # b)" "c \<notin> set p"
  shows "str_contains p a \<or> str_contains p b"
proof -
  from assms(1) obtain x y where eq: "a @ c # b = x @ p @ y" by (auto simp: str_contains_iff)
  show ?thesis
  proof (cases "length x + length p \<le> length a")
    case True
    then have "take (length x + length p) (a @ c # b) = take (length x + length p) a" by simp
    then have "x @ p = take (length x + length p) a" by (simp add: eq)
    then have "str_contains p (take (length x + length p) a)" by (metis append_Nil2 append.assoc str_contains_iff)
    then show ?thesis using contains_sub by blast
  next
    case False
    then have x: "length x > length a \<or> length x \<le> length a \<and> length a < length (x @ p)" by auto
    then have "length x > length a"
    proof (elim disjE)
      assume l: "length x \<le> length a \<and> length a < length (x @ p)"
      have "(a @ c # b) ! length a = c" by simp
      moreover have q: "length a - length x < length p" using l by auto
      then have "(x @ p @ y) ! length a = p ! (length a - length x)" using l by (simp add: nth_append)
      ultimately have "p ! (length a - length x) = c" using eq by simp
      with q show ?thesis using assms(2) nth_mem by blast
    qed
    then have "drop (Suc (length a)) (a @ c # b) = drop (Suc (length a)) x @ p @ y" unfolding eq by simp
    then show ?thesis by (auto simp: str_contains_iff)
  qed
qed

lemma contains_join:
  "str_contains p (join_with [c] ws) \<Longrightarrow> c \<notin> set p \<Longrightarrow> p \<noteq> [] \<Longrightarrow> \<exists>w \<in> set ws. str_contains p w"
proof (induction "[c]" ws rule: join_with.induct)
  case (3 x y ys)
  then show ?case using contains_append_sep [of p x c "join_with [c] (y # ys)"] by auto
qed (auto simp: str_contains_iff)

lemma to_ascii_lowercase_append: "to_ascii_lowercase (a @ b) = to_ascii_lowercase a @ to_ascii_lowercase b"
  by (simp add: to_ascii_lowercase_def)

lemma lower_join: "to_ascii_lowercase (join_with '' '' ws) = join_with '' '' (map to_ascii_lowercase ws)"
  by (induction "'' ''" ws rule: join_with.induct) (simp_all add: to_ascii_lowercase_def ascii_lower_def)

definition SECRET_MARKS :: "str list" where
  "SECRET_MARKS = SECRET_PREFIXES @ [''token='', ''private-token:'']"

lemma redacted_marks:
  assumes "p \<in> set SECRET_MARKS" "w \<in> set (redact_words after ws)"
  shows "\<not> str_contains p (to_ascii_lowercase w)"
proof -
  have "w = REDACTED \<or> (\<exists>n. \<not> secret_word n w)" using assms(2)
    by (induction after ws rule: redact_words.induct) (auto split: if_splits)
  moreover have "list_all (\<lambda>p. \<not> str_contains p (to_ascii_lowercase REDACTED)) SECRET_MARKS" by code_simp
  ultimately show ?thesis
    using assms(1) by (auto simp: secret_word_def Let_def list_all_iff list_ex_iff SECRET_MARKS_def)
qed

lemma excerpt_line_marks:
  assumes "p \<in> set SECRET_MARKS"
  shows "\<not> str_contains p (to_ascii_lowercase (excerpt_line s))"
proof
  assume "str_contains p (to_ascii_lowercase (excerpt_line s))"
  then have c: "str_contains p (join_with '' '' (map to_ascii_lowercase (redact_words False
     (split_chars word_break [] (chars (from_utf8_lossy (take 4096 s)))))))" by (simp add: excerpt_line_def lower_join)
  have "list_all (\<lambda>p. CHR '' '' \<notin> set p \<and> p \<noteq> []) SECRET_MARKS" by code_simp
  with assms have "CHR '' '' \<notin> set p" "p \<noteq> []" by (auto simp: list_all_iff)
  from contains_join [OF c this] redacted_marks [OF assms] show False by auto
qed

lemma boundary_below_le: "boundary_below s n \<le> n"
  by (induction n) auto

lemma excerpt_cut:
  assumes "stderr_excerpt s = Some r"
  shows "r = excerpt_line s \<and> length r \<le> EXCERPT_LIMIT \<or>
    (\<exists>n \<le> EXCERPT_LIMIT. r = take n (excerpt_line s) @ ellipsis)"
  using assms boundary_below_le by (auto simp: stderr_excerpt_def Let_def split: if_splits)

lemma marks_ascii: "p \<in> set SECRET_MARKS \<Longrightarrow> CHR 0xE2 \<notin> set p"
proof -
  have "list_all (\<lambda>p. CHR 0xE2 \<notin> set p) SECRET_MARKS" by code_simp
  then show "p \<in> set SECRET_MARKS \<Longrightarrow> CHR 0xE2 \<notin> set p" by (auto simp: list_all_iff)
qed

lemma ellipsis_marks: "p \<in> set SECRET_MARKS \<Longrightarrow> \<not> str_contains p [CHR 0x80, CHR 0xA6]"
proof -
  have "list_all (\<lambda>p. \<not> str_contains p [CHR 0x80, CHR 0xA6]) SECRET_MARKS" by code_simp
  then show "p \<in> set SECRET_MARKS \<Longrightarrow> \<not> str_contains p [CHR 0x80, CHR 0xA6]" by (auto simp: list_all_iff)
qed

lemma lower_ellipsis: "to_ascii_lowercase (a @ ellipsis) = to_ascii_lowercase a @ CHR 0xE2 # [CHR 0x80, CHR 0xA6]"
  by (simp add: to_ascii_lowercase_def ellipsis_def ascii_lower_def)

lemma lower_take: "to_ascii_lowercase (take n s) = take n (to_ascii_lowercase s)"
  by (simp add: to_ascii_lowercase_def take_map)

lemma excerpt_marks:
  assumes "stderr_excerpt s = Some r" "p \<in> set SECRET_MARKS"
  shows "\<not> str_contains p (to_ascii_lowercase r)"
proof -
  note line = excerpt_line_marks [OF assms(2), of s]
  from excerpt_cut [OF assms(1)] show ?thesis
  proof (elim disjE conjE exE)
    fix n
    assume r: "r = take n (excerpt_line s) @ ellipsis"
    show ?thesis
    proof
      assume "str_contains p (to_ascii_lowercase r)"
      from contains_append_sep [OF this [unfolded r lower_ellipsis] marks_ascii [OF assms(2)]]
        ellipsis_marks [OF assms(2)] line show False by (auto simp: lower_take dest: contains_sub)
    qed
  qed (use line in simp)
qed

text \<open>A byte below 0x80 is a character of its own.\<close>

lemma utf8_step_bytes:
  assumes "utf8_step s = Some (cp, n)" "b \<in> set (take n s)" "byte_of b < (0x80 :: nat)"
  shows "take n s = [b] \<and> cp = byte_of b"
  using assms by (cases s)
    (auto simp: utf8_step.simps Let_def is_cont_def split: if_splits list.splits)

lemma chars_bytes:
  assumes "c \<in> set (chars s)" "b \<in> set c" "byte_of b < (0x80 :: nat)"
  shows "c = [b]"
  using assms(1)
proof (induction s rule: chars.induct)
  case (1 s)
  show ?case
  proof (cases s)
    case Nil
    with 1(3) show ?thesis by simp
  next
    case (Cons x xs)
    show ?thesis
    proof (cases "utf8_step s")
      case None
      with 1(1) [OF Cons None] 1(3) assms(2) show ?thesis
        by (subst (asm) chars.simps) (auto simp: Cons)
    next
      case (Some r)
      obtain cp n where r: "r = (cp, n)" by fastforce
      consider "c = take n s" | "c \<in> set (chars (drop n s))"
        using 1(3) Some by (subst (asm) chars.simps) (auto simp: Cons r)
      then show ?thesis
      proof cases
        case 1
        with utf8_step_bytes [OF Some [unfolded r] _ assms(3)] assms(2) show ?thesis by simp
      next
        case 2
        with 1(2) [OF Cons Some r [symmetric]] show ?thesis by simp
      qed
    qed
  qed
qed

definition printable :: "char \<Rightarrow> bool" where
  "printable b \<longleftrightarrow> 0x20 \<le> byte_of b \<and> byte_of b \<noteq> (0x7F :: nat)"

lemma plain_char_printable:
  assumes "c \<in> set (chars s)" "\<not> word_break c" "b \<in> set c"
  shows "printable b"
proof (cases "byte_of b < (0x80 :: nat)")
  case True
  have "c = [b]" by (rule chars_bytes [OF assms(1,3) True])
  then have "char_cp c = byte_of b" using True by (simp add: char_cp_def utf8_step_ascii)
  with assms(2) show ?thesis by (auto simp: word_break_def is_control_def printable_def)
qed (auto simp: printable_def)

lemma split_chars_bytes:
  assumes "w \<in> set (split_chars P word cs)" "b \<in> set w"
  shows "b \<in> set word \<or> (\<exists>c \<in> set cs. \<not> P c \<and> b \<in> set c)"
  using assms by (induction P word cs rule: split_chars.induct) (auto split: if_splits)

lemma redact_words_bytes:
  "w \<in> set (redact_words after ws) \<Longrightarrow> w = REDACTED \<or> w \<in> set ws"
  by (induction after ws rule: redact_words.induct) (auto split: if_splits)

lemma set_join: "set (join_with c ws) \<subseteq> set c \<union> \<Union> (set ` set ws)"
  by (induction c ws rule: join_with.induct) auto

lemma excerpt_line_printable: "list_all printable (excerpt_line s)"
proof -
  have red: "list_all printable REDACTED" by code_simp
  have "printable b" if "w \<in> set (split_chars word_break [] (chars (from_utf8_lossy (take 4096 s))))" "b \<in> set w" for w b
    using split_chars_bytes [OF that] plain_char_printable by auto
  with red have "printable b" if "w \<in> set (redact_words False (split_chars word_break [] (chars (from_utf8_lossy (take 4096 s)))))"
      "b \<in> set w" for w b
    using redact_words_bytes [OF that(1)] that(2) by (auto simp: list_all_iff)
  moreover have "printable (CHR '' '')" by code_simp
  ultimately show ?thesis
    unfolding excerpt_line_def list_all_iff using set_join [of "'' ''"] by fastforce
qed

lemma excerpt_printable: "stderr_excerpt s = Some r \<Longrightarrow> list_all printable r"
proof (drule excerpt_cut, elim disjE conjE exE)
  fix n
  have "list_all printable ellipsis" by code_simp
  moreover assume "r = take n (excerpt_line s) @ ellipsis"
  ultimately show ?thesis using excerpt_line_printable [of s] by (auto simp: list_all_iff dest: in_set_takeD)
qed (simp add: excerpt_line_printable)

section \<open>Programs and environments\<close>

lemma find_program_first:
  assumes "find_program fs name dirs = Inr p"
  shows "\<exists>before d after d' m. dirs = before @ d # after \<and> is_absolute d \<and> fs_is_file fs (path_join d name) \<and>
    fs_mode fs (path_join d name) = Inr m \<and> mode_executable m \<and> fs_canonical fs d = Inr d' \<and> p = path_join d' name \<and>
    list_all (\<lambda>e. is_absolute e \<and> fs_is_file fs (path_join e name) \<longrightarrow>
      (\<exists>m. fs_mode fs (path_join e name) = Inr m \<and> \<not> mode_executable m)) before"
  using assms
proof (induction fs name dirs rule: find_program.induct)
  case (2 fs name dir dirs)
  show ?case
  proof (cases "is_absolute dir \<and> fs_is_file fs (path_join dir name)")
    case False
    with 2 have "find_program fs name dirs = Inr p" by (auto split: if_splits)
    with False 2(1,2) obtain before d after d' m where
      "dirs = before @ d # after" and h: "is_absolute d" "fs_is_file fs (path_join d name)"
      "fs_mode fs (path_join d name) = Inr m" "mode_executable m" "fs_canonical fs d = Inr d'" "p = path_join d' name"
      "list_all (\<lambda>e. is_absolute e \<and> fs_is_file fs (path_join e name) \<longrightarrow>
        (\<exists>m. fs_mode fs (path_join e name) = Inr m \<and> \<not> mode_executable m)) before" by blast
    with False show ?thesis
        by - (rule exI [of _ "dir # before"], rule exI [of _ d], rule exI [of _ after], rule exI [of _ d'], rule exI [of _ m], auto)
  next
    case True
    with 2(4) obtain m where m: "fs_mode fs (path_join dir name) = Inr m" by (auto simp: bind_simps)
    show ?thesis
    proof (cases "mode_executable m")
      case True': True
      with True 2(4) m obtain d' where "fs_canonical fs dir = Inr d'" "p = path_join d' name" by (auto simp: bind_simps)
      with True True' m show ?thesis
        by - (rule exI [of _ "[]"], rule exI [of _ dir], rule exI [of _ dirs], rule exI [of _ d'], rule exI [of _ m], simp)
    next
      case False
      with True 2(4) m have "find_program fs name dirs = Inr p" by (simp add: bind_simps)
      with True False m 2(3) obtain before d after d' m' where
        "dirs = before @ d # after" and h: "is_absolute d" "fs_is_file fs (path_join d name)"
        "fs_mode fs (path_join d name) = Inr m'" "mode_executable m'" "fs_canonical fs d = Inr d'" "p = path_join d' name"
        "list_all (\<lambda>e. is_absolute e \<and> fs_is_file fs (path_join e name) \<longrightarrow>
          (\<exists>m. fs_mode fs (path_join e name) = Inr m \<and> \<not> mode_executable m)) before" by blast
      with False m show ?thesis
        by - (rule exI [of _ "dir # before"], rule exI [of _ d], rule exI [of _ after], rule exI [of _ d'], rule exI [of _ m'], simp)
    qed
  qed
qed simp

lemma unset_all: "foldl (\<lambda>e k. e(k := None)) env ks x = (if x \<in> set ks then None else env x)"
  by (induction ks arbitrary: env) auto

lemma set_all_other: "x \<notin> fst ` set kvs \<Longrightarrow> foldl (\<lambda>e (k, v). e(k \<mapsto> v)) env kvs x = env x"
  by (induction kvs arbitrary: env) auto

lemma child_env_removed:
  "x \<in> set (env_remove r) \<Longrightarrow> x \<notin> fst ` set FIXED_ENV \<Longrightarrow> child_env r inherited x = None"
  by (simp add: child_env_def set_all_other unset_all)

section \<open>Properties\<close>




definition quiet :: observed where
  "quiet = \<lparr>ob_cancelled = False, ob_overflow = False, ob_late = False, ob_stdout = [], ob_stderr = [],
     ob_stdin = None, ob_status = Inr None\<rparr>"




end
