(* ===== verification/LocalGit.thy ===== *)
theory LocalGit
  imports Http Process
begin

text \<open>
  The local repository as a source, \<open>crates/adapters/src/local_git.rs\<close>. Git is run with a fixed
  set of options and without the variables that redirect it; a staged or working
  tree source is captured twice and taken only when both captures agree, and untracked
  files become added files. The answers of Git and of the file system are arguments and may
  change between two reads. The debug form of a path and the JSON text of a
  patch are arguments too.
\<close>

section \<open>Running Git\<close>

datatype local_mode = LocalCompare (lm_base: str) (lm_head: str) | Staged | WorkingTree

record work_file =
  wf_regular :: bool
  wf_mode :: nat
  wf_bytes :: "store_error + bytes"

record local_git =
  lg_program :: os_string
  lg_vars :: "os_string list"
  lg_canonical :: "os_string \<Rightarrow> store_error + os_string"
  lg_debug :: "os_string \<Rightarrow> str"
  lg_json :: "patch_report \<Rightarrow> store_error + bytes"
  lg_run :: "nat \<Rightarrow> process_request \<Rightarrow> store_error + process_output"
  lg_files :: "nat \<Rightarrow> os_string \<Rightarrow> store_error + work_file"

definition GIT_OPTIONS :: "os_string list" where
  "GIT_OPTIONS = [''--no-optional-locks'', ''--literal-pathspecs'', ''-c'', ''core.fsmonitor=false'', ''-c'',
     ''core.untrackedCache=false'', ''-c'', ''core.pager=cat'', ''-C'']"

definition GIT_REDIRECTS :: "os_string list" where
  "GIT_REDIRECTS = [''GIT_DIR'', ''GIT_WORK_TREE'', ''GIT_INDEX_FILE'', ''GIT_OBJECT_DIRECTORY'',
     ''GIT_ALTERNATE_OBJECT_DIRECTORIES'', ''GIT_EXTERNAL_DIFF'', ''GIT_DIFF_OPTS'']"

definition injected_config :: "os_string \<Rightarrow> bool" where
  "injected_config k \<longleftrightarrow> starts_with ''GIT_CONFIG_KEY_'' (from_utf8_lossy k) \<or>
     starts_with ''GIT_CONFIG_VALUE_'' (from_utf8_lossy k) \<or> k = ''GIT_CONFIG_COUNT''"

definition git_request :: "local_git \<Rightarrow> os_string \<Rightarrow> os_string list \<Rightarrow> process_request" where
  "git_request g root args =
     (with_args (GIT_OPTIONS @ root # args) (request_new (lg_program g)))
       \<lparr>deadline_secs := 60, env_remove := GIT_REDIRECTS @ filter injected_config (lg_vars g)\<rparr>"

definition show_code :: "exit_status \<Rightarrow> str" where
  "show_code s = (case s of None \<Rightarrow> ''None''
     | Some n \<Rightarrow> ''Some('' @ (if n < 0 then ''-'' else []) @ show_nat (nat (abs n)) @ '')'')"

definition git_run :: "local_git \<Rightarrow> os_string \<Rightarrow> os_string list \<Rightarrow> bytes reader" where
  "git_run g root args t =
     (bindE (lg_run g t (git_request g root args)) (\<lambda>out.
        failIf (\<not> exit_success (po_status out))
          (Message (''Git could not read the repository (exit '' @ show_code (po_status out) @
             ''); the worktree was left untouched''))
          (Inr (po_stdout out))), Suc t)"

definition git_object_id :: "bytes \<Rightarrow> store_error + str" where
  "git_object_id bs =
     bindE (okE (Message ''Git object ID was not ASCII'') (from_utf8 bs)) (\<lambda>s.
       (let value = trim s in
        failIf (\<not> (length value = 40 \<or> length value = 64) \<or> \<not> list_all is_ascii_hexdigit value)
          (Message ''Git returned an object ID with an invalid form'') (Inr (to_ascii_lowercase value))))"

definition git_resolve :: "local_git \<Rightarrow> os_string \<Rightarrow> str \<Rightarrow> str reader" where
  "git_resolve g root value t =
     (if value = [] \<or> starts_with ''-'' value \<or> NUL \<in> set value
      then (Inl (Message ''invalid revision expression''), t)
      else bindR (git_run g root [''rev-parse'', ''--verify'', ''--end-of-options'', value @ ''^{commit}''])
        (\<lambda>out. liftR (git_object_id out)) t)"

definition DIFF_OPTIONS :: "os_string list" where
  "DIFF_OPTIONS = [''-c'', ''diff.suppressBlankEmpty=false'', ''diff'', ''--no-color'', ''--no-ext-diff'',
     ''--no-textconv'', ''--full-index'', ''--src-prefix=a/'', ''--dst-prefix=b/'', ''--find-renames'',
     ''--submodule=short'']"

definition git_patch :: "'a codec_scheme \<Rightarrow> local_git \<Rightarrow> os_string \<Rightarrow> os_string list \<Rightarrow> patch_report reader" where
  "git_patch c g root extra =
     bindR (git_run g root (DIFF_OPTIONS @ extra)) (\<lambda>out.
       liftR (map_errE PatchFailed (parse_patch (sha256 c) out default_limits)))"

section \<open>Untracked files\<close>

definition MAX_UNTRACKED :: nat where
  "MAX_UNTRACKED = 200"

definition untracked_hunk :: "source_document \<Rightarrow> hunk" where
  "untracked_hunk d = \<lparr>old_start = 0, old_count = 0, new_start = 1, new_count = length (doc_lines d), section_text = [],
     rows = map (\<lambda>i. \<lparr>old_line = None, new_line = Some (i + 1), row_text = str_or [] (line_text d (i + 1)),
       row_ending = sl_ending (doc_lines d ! i), row_kind = RAdded\<rparr>) [0..<length (doc_lines d)]\<rparr>"

definition source_error_text :: "source_error \<Rightarrow> str" where
  "source_error_text e =
     (case e of
        InvalidUtf8 \<Rightarrow> ''source bytes are not UTF-8; binary/raw content remains undecoded''
      | TooLarge \<Rightarrow> ''source is over 32 MiB; every byte remains accounted for''
      | TooManyLines \<Rightarrow> ''logical line count exceeds 1,000,000''
      | InvalidCoordinate \<Rightarrow> ''coordinate lies outside the source or splits a UTF-8 code point'')"

definition decode_untracked :: "bytes \<Rightarrow> store_error + source_document option" where
  "decode_untracked bs =
     (if NUL \<in> set bs then Inr None
      else
        (case source_from_utf8 bs of
           Inr d \<Rightarrow> Inr (Some d)
         | Inl e \<Rightarrow> if e = InvalidUtf8 then Inr None else Inl (Message (source_error_text e))))"

definition untracked_change :: "'a codec_scheme \<Rightarrow> repo_path \<Rightarrow> nat \<Rightarrow> bytes \<Rightarrow> source_document option \<Rightarrow> file_change" where
  "untracked_change c path m bs doc =
     \<lparr>fc_id = FileId (digest (sha256 c) [''file-v1'', [], path_bytes path]), old_path = None, new_path = Some path,
      fc_kind = KAdded, fc_content = (if doc \<noteq> None then CText else CBinary), old_mode = None,
      new_mode = Some (if mode_executable m then ''100755'' else ''100644''), old_oid = None, new_oid = None,
      hunks = (case doc of None \<Rightarrow> [] | Some d \<Rightarrow> if doc_lines d = [] then [] else [untracked_hunk d]),
      metadata = ''untracked file; the worktree was left unchanged'' #
        (case doc of
           None \<Rightarrow> [''untracked binary content digest: '' @ digest (sha256 c) [''untracked-binary-v1'', bs]]
         | Some d \<Rightarrow> [])\<rparr>"

definition MAX_LOCAL_BYTES :: nat where
  "MAX_LOCAL_BYTES = 32 * 1024 * 1024"

text \<open>The checks on the lines of one file; the result is the new number of rows.\<close>

definition count_rows :: "nat \<Rightarrow> source_document option \<Rightarrow> store_error + nat" where
  "count_rows total_rows doc =
     (case doc of
        None \<Rightarrow> Inr total_rows
      | Some d \<Rightarrow>
          (let n = total_rows + length (doc_lines d) in
           failIf (n > 500000) (Message ''the local patch total is above 500,000 rows'')
           (failIf (list_ex (\<lambda>l. snd (content l) - fst (content l) > 1024 * 1024) (doc_lines d))
             (Message ''an untracked source line is over 1 MiB'') (Inr n))))"

record untracked_state =
  us_bytes :: nat
  us_rows :: nat
  us_files :: "file_change list"

definition read_untracked :: "local_git \<Rightarrow> os_string \<Rightarrow> repo_path \<Rightarrow> (nat \<times> bytes) reader" where
  "read_untracked g root path t =
     (bindE (lg_files g t (path_join root (path_bytes path))) (\<lambda>f.
        failIf (\<not> wf_regular f) (Message (''untracked item '' @ path_display path @
            '' is not a regular file; stage or exclude it before snapshotting''))
        (bindE (wf_bytes f) (\<lambda>content.
          (let bs = take (MAX_LOCAL_BYTES + 1) content in
           failIf (length bs > MAX_LOCAL_BYTES) (Message ''an untracked file exceeds 32 MiB; it was kept out explicitly'')
             (Inr (wf_mode f, bs)))))), Suc t)"

definition add_untracked :: "'a codec_scheme \<Rightarrow> local_git \<Rightarrow> os_string \<Rightarrow> bytes \<Rightarrow> untracked_state \<Rightarrow> untracked_state reader" where
  "add_untracked c g root raw_path st =
     bindR (liftR (map_errE Message (repo_path_new raw_path))) (\<lambda>path.
     bindR (read_untracked g root path) (\<lambda>(m, bs).
       liftR
        (failIf (us_bytes st + length bs > u64_max) (Message ''untracked byte count overflow'')
        (failIf (us_bytes st + length bs > MAX_LOCAL_BYTES) (Message ''all untracked content is over the 32 MiB cap'')
        (bindE (decode_untracked bs) (\<lambda>doc.
         bindE (count_rows (us_rows st) doc) (\<lambda>n.
           Inr \<lparr>us_bytes = us_bytes st + length bs, us_rows = n,
             us_files = us_files st @ [untracked_change c path m bs doc]\<rparr>)))))))"

fun add_all_untracked :: "'a codec_scheme \<Rightarrow> local_git \<Rightarrow> os_string \<Rightarrow> bytes list \<Rightarrow> untracked_state \<Rightarrow> untracked_state reader" where
  "add_all_untracked c g root [] st = liftR (Inr st)"
| "add_all_untracked c g root (p # ps) st = bindR (add_untracked c g root p st) (add_all_untracked c g root ps)"

definition untracked :: "'a codec_scheme \<Rightarrow> local_git \<Rightarrow> os_string \<Rightarrow> patch_report \<Rightarrow> patch_report reader" where
  "untracked c g root p =
     bindR (git_run g root [''ls-files'', ''--others'', ''--exclude-standard'', ''-z'']) (\<lambda>names.
       (let paths = filter (\<lambda>x. x \<noteq> []) (split_on NUL names) in
        if length paths > MAX_UNTRACKED
        then liftR (Inl (Message ''over 200 files are untracked; use staged mode or narrow the set first''))
        else
          bindR (add_all_untracked c g root paths
              \<lparr>us_bytes = 0, us_rows = sum_list (map (\<lambda>f. length (file_rows f)) (files p)), us_files = files p\<rparr>)
            (\<lambda>st. liftR (Inr \<lparr>files = us_files st\<rparr>))))"

section \<open>Snapshots\<close>

definition path_components :: "os_string \<Rightarrow> os_string list" where
  "path_components p = filter (\<lambda>x. x \<noteq> [] \<and> x \<noteq> ''.'') (split_on (CHR ''/'') p)"

definition path_starts_with :: "os_string \<Rightarrow> os_string \<Rightarrow> bool" where
  "path_starts_with p root \<longleftrightarrow>
     is_absolute p = is_absolute root \<and> starts_with (path_components root) (path_components p)"

definition strip_newline :: "bytes \<Rightarrow> bytes" where
  "strip_newline bs = (case strip_suffix [LF] bs of None \<Rightarrow> bs | Some r \<Rightarrow> r)"

definition git_root :: "local_git \<Rightarrow> os_string \<Rightarrow> os_string reader" where
  "git_root g path =
     bindR (liftR (lg_canonical g path)) (\<lambda>inside.
     bindR (git_run g inside [''rev-parse'', ''--show-toplevel'']) (\<lambda>out.
     bindR (liftR (lg_canonical g (strip_newline out))) (\<lambda>root.
       if path_starts_with (lg_program g) root
       then liftR (Inl (Message ''the Git executable cannot live inside the repository under review''))
       else
         bindR (liftR (lg_canonical g (lg_program g))) (\<lambda>program.
           if path_starts_with program root
           then liftR (Inl (Message ''the Git executable cannot live inside the repository under review''))
           else liftR (Inr root)))))"

definition git_compare :: "'a codec_scheme \<Rightarrow> local_git \<Rightarrow> os_string \<Rightarrow> str \<Rightarrow> str \<Rightarrow> snapshot reader" where
  "git_compare c g root base head =
     bindR (git_resolve g root base) (\<lambda>base_oid.
     bindR (git_resolve g root head) (\<lambda>head_oid.
     bindR (git_run g root [''merge-base'', base_oid, head_oid]) (\<lambda>out.
     bindR (liftR (git_object_id out)) (\<lambda>common.
     bindR (git_patch c g root [common, head_oid, ''--'']) (\<lambda>patch.
       (let s = with_origin c (from_utf8_lossy root @ middle_dot @ base @ ellipsis @ head) patch None []
              (''git:'' @ lg_debug g root @ '':'' @ common @ '':'' @ head_oid) in
        liftR (Inr (s\<lparr>snap_title := snap_title s @ middle_dot @ take 12 common @ arrow @ take 12 head_oid\<rparr>))))))))"

definition capture :: "'a codec_scheme \<Rightarrow> local_git \<Rightarrow> os_string \<Rightarrow> bool \<Rightarrow> patch_report reader" where
  "capture c g root staged =
     bindR (git_patch c g root (if staged then [''--cached'', ''--''] else [''--''])) (\<lambda>p.
       if staged then liftR (Inr p) else untracked c g root p)"

definition captured_snapshot :: "'a codec_scheme \<Rightarrow> local_git \<Rightarrow> os_string \<Rightarrow> bool \<Rightarrow> patch_report \<Rightarrow> snapshot" where
  "captured_snapshot c g root staged p =
     with_origin c (from_utf8_lossy root @ middle_dot @ (if staged then ''staged'' else ''working tree + untracked'') @
         '' (double-captured)'') p None []
       (''git:'' @ lg_debug g root @ '':'' @ (if staged then ''staged'' else ''worktree''))"

fun capture_twice :: "'a codec_scheme \<Rightarrow> local_git \<Rightarrow> os_string \<Rightarrow> bool \<Rightarrow> nat \<Rightarrow> snapshot reader" where
  "capture_twice c g root staged 0 =
     liftR (Inl (Message ''the local source changed during capture; the previous session was preserved''))"
| "capture_twice c g root staged (Suc n) =
     bindR (capture c g root staged) (\<lambda>a.
     bindR (capture c g root staged) (\<lambda>b.
     bindR (liftR (lg_json g a)) (\<lambda>ja.
     bindR (liftR (lg_json g b)) (\<lambda>jb.
       if ja = jb then liftR (Inr (captured_snapshot c g root staged a))
       else capture_twice c g root staged n))))"

definition local_snapshot :: "'a codec_scheme \<Rightarrow> local_git \<Rightarrow> os_string \<Rightarrow> local_mode \<Rightarrow> snapshot reader" where
  "local_snapshot c g path m =
     bindR (git_root g path) (\<lambda>root.
       case m of
         LocalCompare base head \<Rightarrow> git_compare c g root base head
       | Staged \<Rightarrow> capture_twice c g root True 3
       | WorkingTree \<Rightarrow> capture_twice c g root False 3)"

section \<open>The rows of an untracked file\<close>

lemma scan_lines_endings:
  "scan_lines rw i start ls r = Inr (e, ls') \<Longrightarrow> \<forall>l \<in> set ls. sl_ending l \<noteq> EndNone \<Longrightarrow>
    \<forall>l \<in> set ls'. sl_ending l \<noteq> EndNone"
  by (induction rw i start ls r rule: scan_lines.induct) (auto simp: Let_def split: if_splits)

lemma valid_utf8_ascii_tail: "valid_utf8 (c # s) \<Longrightarrow> byte_of c < (0x80 :: nat) \<Longrightarrow> valid_utf8 s"
  by (subst (asm) valid_utf8.simps) (simp add: utf8_step_ascii)

lemma valid_render:
  assumes "sl_ending l \<noteq> EndNone" "valid_utf8 (render_line rw l @ rest)"
  shows "valid_utf8 (line_slice rw l) \<and> valid_utf8 rest"
proof (cases "sl_ending l")
  case EndLf
  with assms(2) valid_utf8_cut [of "line_slice rw l" LF rest] valid_utf8_ascii_tail [of LF rest] show ?thesis
    by (simp add: render_line_def ending_bytes_def is_cont_def)
next
  case EndCrLf
  with assms(2) have "valid_utf8 (line_slice rw l @ CR # LF # rest)" by (simp add: render_line_def ending_bytes_def)
  then have "valid_utf8 (line_slice rw l)" "valid_utf8 (CR # LF # rest)"
    using valid_utf8_cut [of "line_slice rw l" CR "LF # rest"] by (simp_all add: is_cont_def)
  with valid_utf8_ascii_tail [of CR "LF # rest"] valid_utf8_ascii_tail [of LF rest] show ?thesis by simp
qed (use assms(1) in simp)

lemma valid_lines:
  "\<forall>l \<in> set ls. sl_ending l \<noteq> EndNone \<Longrightarrow> valid_utf8 (concat (map (render_line rw) ls) @ rest) \<Longrightarrow>
    (\<forall>l \<in> set ls. valid_utf8 (line_slice rw l)) \<and> valid_utf8 rest"
proof (induction ls)
  case (Cons l ls)
  then show ?case using valid_render [of l rw "concat (map (render_line rw) ls) @ rest"] by auto
qed simp

lemma source_lines_valid:
  assumes "source_from_utf8 bs = Inr d" "l \<in> set (doc_lines d)"
  shows "valid_utf8 (line_slice (raw d) l)"
proof -
  note doc = source_doc_lines [OF assms(1)]
  from assms(1) obtain start ls where v: "valid_utf8 bs" and sc: "scan_lines bs 0 0 [] bs = Inr (start, ls)"
    and d: "doc_lines d = (if start < length bs then ls @ [\<lparr>content = (start, length bs), sl_ending = EndNone\<rparr>] else ls)"
    by (auto simp: source_from_utf8_def bind_simps from_utf8_def Let_def split: if_splits)
  have e: "\<forall>l \<in> set ls. sl_ending l \<noteq> EndNone" by (rule scan_lines_endings [OF sc]) simp
  show ?thesis
  proof (cases "start < length bs")
    case False
    with d doc v valid_lines [OF e, of bs "[]"] assms(2) show ?thesis by auto
  next
    case True
    let ?l = "\<lparr>content = (start, length bs), sl_ending = EndNone\<rparr>"
    have "concat (map (render_line bs) ls) @ render_line bs ?l = bs" using True d doc by auto
    then have "valid_utf8 (concat (map (render_line bs) ls) @ render_line bs ?l)" using v by simp
    from valid_lines [OF e this] have "\<forall>l \<in> set (ls @ [?l]). valid_utf8 (line_slice bs l)"
      by (auto simp: render_line_def ending_bytes_def)
    with True d doc assms(2) show ?thesis by auto
  qed
qed

lemma untracked_row_text:
  "i < length (doc_lines d) \<Longrightarrow> str_or [] (line_text d (i + 1)) = line_slice (raw d) (doc_lines d ! i)"
  by (simp add: line_text_def doc_line_at_def str_or_def)

lemma side_numbers_upt:
  "side_numbers SideRight (map (\<lambda>i. \<lparr>old_line = None, new_line = Some (i + 1), row_text = f i, row_ending = g i,
     row_kind = RAdded\<rparr>) [0..<n]) = [1..<Suc n]"
  by (induction n) (simp_all add: row_number_def)

lemma side_numbers_none:
  "(\<And>r. r \<in> set rs \<Longrightarrow> row_number s r = None) \<Longrightarrow> side_numbers s rs = []"
  by (induction rs) auto

lemma untracked_hunk_ok:
  assumes "source_from_utf8 bs = Inr d"
  shows "hunk_ok (untracked_hunk d)"
proof -
  note doc = source_doc_lines [OF assms]
  have "row_ok r" if "r \<in> set (rows (untracked_hunk d))" for r
    using that source_lines_valid [OF assms] by (auto simp: untracked_hunk_def row_ok_def untracked_row_text simp del: One_nat_def)
  moreover have "side_numbers s (rows (untracked_hunk d)) =
      [side_start s (untracked_hunk d) ..< side_start s (untracked_hunk d) + side_count s (untracked_hunk d)]" for s
  proof (cases s)
    case SideLeft
    then show ?thesis
      by (simp add: side_start_def side_count_def)
        (auto simp: untracked_hunk_def row_number_def intro!: side_numbers_none)
  next
    case SideRight
    then show ?thesis
      using side_numbers_upt [of "\<lambda>i. str_or [] (line_text d (i + 1))" "\<lambda>i. sl_ending (doc_lines d ! i)" "length (doc_lines d)"]
      by (simp add: untracked_hunk_def side_start_def side_count_def)
  qed
  moreover have "range_ok (side_start s (untracked_hunk d)) (side_count s (untracked_hunk d))" for s
    using doc by (cases s)
      (auto simp: untracked_hunk_def side_start_def side_count_def range_ok_def u32_max_def max_source_lines_def)
  ultimately show ?thesis by (simp add: hunk_ok_def list_all_iff)
qed

lemma untracked_hunk_text:
  assumes "source_from_utf8 bs = Inr d"
  shows "concat (map (\<lambda>r. row_text r @ ending_bytes (row_ending r)) (rows (untracked_hunk d))) = bs"
proof -
  have "map (\<lambda>r. row_text r @ ending_bytes (row_ending r)) (rows (untracked_hunk d)) =
      map (\<lambda>i. render_line (raw d) (doc_lines d ! i)) [0..<length (doc_lines d)]"
    by (simp add: untracked_hunk_def untracked_row_text render_line_def cong: map_cong del: One_nat_def)
  also have "\<dots> = map (render_line (raw d)) (map ((!) (doc_lines d)) [0..<length (doc_lines d)])" by simp
  finally show ?thesis using source_doc_lines [OF assms] by (metis map_nth)
qed

definition text_of :: "file_change \<Rightarrow> bytes" where
  "text_of f = concat (map (\<lambda>r. row_text r @ ending_bytes (row_ending r)) (file_rows f))"

definition untracked_ok :: "local_git \<Rightarrow> os_string \<Rightarrow> file_change \<Rightarrow> bool" where
  "untracked_ok g root f \<longleftrightarrow>
     file_ok f \<and> fc_kind f = KAdded \<and> old_path f = None \<and>
     (\<exists>path t w bs. new_path f = Some path \<and> path_ok path \<and> lg_files g t (path_join root (path_bytes path)) = Inr w \<and>
        wf_regular w \<and> wf_bytes w = Inr bs \<and> length bs \<le> MAX_LOCAL_BYTES \<and>
        (fc_content f = CText \<longrightarrow> text_of f = bs) \<and> (fc_content f \<noteq> CText \<longrightarrow> NUL \<in> set bs \<or> \<not> valid_utf8 bs))"

lemma decode_untracked_Some:
  "decode_untracked bs = Inr (Some d) \<Longrightarrow> source_from_utf8 bs = Inr d"
  by (auto simp: decode_untracked_def split: if_splits sum.splits)

lemma scan_lines_error: "scan_lines rw i start ls r = Inl e \<Longrightarrow> e = TooManyLines"
  by (induction rw i start ls r rule: scan_lines.induct) (auto simp: Let_def split: if_splits)

lemma decode_untracked_None:
  "decode_untracked bs = Inr None \<Longrightarrow> NUL \<in> set bs \<or> \<not> valid_utf8 bs"
  by (auto dest: scan_lines_error simp: decode_untracked_def source_from_utf8_def failIf_def bindE_def okE_def from_utf8_def Let_def
      split: if_splits sum.splits) 

lemma untracked_change_ok:
  assumes "repo_path_new (path_bytes path) = Inr path" "lg_files g t (path_join root (path_bytes path)) = Inr w"
    and "wf_regular w" "wf_bytes w = Inr bs" "length bs \<le> MAX_LOCAL_BYTES" "decode_untracked bs = Inr doc"
  shows "untracked_ok g root (untracked_change c path m bs doc)"
proof -
  let ?f = "untracked_change c path m bs doc"
  have hunks: "list_all hunk_ok (hunks ?f) \<and> (doc \<noteq> None \<longrightarrow> text_of ?f = bs)"
  proof (cases doc)
    case (Some d)
    note src = decode_untracked_Some [OF assms(6) [unfolded Some]]
    show ?thesis
    proof (cases "doc_lines d = []")
      case True
      with source_doc_lines [OF src] have "bs = []" by auto
      with True Some show ?thesis by (simp add: untracked_change_def text_of_def file_rows_def)
    next
      case False
      with Some untracked_hunk_ok [OF src] untracked_hunk_text [OF src] show ?thesis
        by (simp add: untracked_change_def text_of_def file_rows_def)
    qed
  qed (simp add: untracked_change_def)
  have "sorted_wrt hunk_before (hunks ?f)" by (simp add: untracked_change_def split: option.split)
  with hunks have "file_ok ?f" by (simp add: file_ok_def)
  moreover have "fc_content ?f \<noteq> CText \<longrightarrow> NUL \<in> set bs \<or> \<not> valid_utf8 bs"
    using decode_untracked_None [of bs] assms(6) by (auto simp: untracked_change_def)
  moreover have "fc_content ?f = CText \<longrightarrow> text_of ?f = bs" using hunks by (auto simp: untracked_change_def)
  moreover have "fc_kind ?f = KAdded" "old_path ?f = None" "new_path ?f = Some path" by (simp_all add: untracked_change_def)
  moreover have "path_ok path" using assms(1) by (simp add: path_ok_def)
  ultimately show ?thesis using assms(2-5) unfolding untracked_ok_def by blast
qed

lemma read_untracked_Inr:
  assumes "read_untracked g root path t = (Inr (m, bs), t')"
  shows "\<exists>w. lg_files g t (path_join root (path_bytes path)) = Inr w \<and> wf_regular w \<and> wf_bytes w = Inr bs \<and>
    length bs \<le> MAX_LOCAL_BYTES"
  using assms by (auto simp: read_untracked_def bind_simps Let_def)

lemma repo_path_new_self: "repo_path_new x = Inr p \<Longrightarrow> repo_path_new (path_bytes p) = Inr p"
  by (auto simp: repo_path_new_def split: if_splits)

lemma count_rows_Inr:
  "count_rows n doc = Inr k \<Longrightarrow> k = n + (case doc of None \<Rightarrow> 0 | Some d \<Rightarrow> length (doc_lines d)) \<and> (n \<le> 500000 \<longrightarrow> k \<le> 500000)"
  by (auto simp: count_rows_def bind_simps Let_def split: option.splits)

lemma untracked_change_rows:
  "length (file_rows (untracked_change c path m bs doc)) = (case doc of None \<Rightarrow> 0 | Some d \<Rightarrow> length (doc_lines d))"
  by (auto simp: untracked_change_def file_rows_def untracked_hunk_def split: option.split)

definition tally_ok :: "untracked_state \<Rightarrow> bool" where
  "tally_ok st \<longleftrightarrow> us_rows st = total_file_rows (us_files st) \<and> us_rows st \<le> 500000 \<and> us_bytes st \<le> MAX_LOCAL_BYTES"

lemma add_untracked_Inr:
  assumes "add_untracked c g root p st t = (Inr st', t')" "tally_ok st"
  shows "\<exists>f. us_files st' = us_files st @ [f] \<and> untracked_ok g root f \<and> tally_ok st'"
proof -
  from assms(1) obtain path m bs doc n u where p: "repo_path_new p = Inr path" and r: "read_untracked g root path t = (Inr (m, bs), u)"
    and d: "decode_untracked bs = Inr doc" and n: "count_rows (us_rows st) doc = Inr n"
    and b: "us_bytes st + length bs \<le> MAX_LOCAL_BYTES"
    and st': "st' = \<lparr>us_bytes = us_bytes st + length bs, us_rows = n, us_files = us_files st @ [untracked_change c path m bs doc]\<rparr>"
    by (auto simp: add_untracked_def bind_simps)
  obtain w where w: "lg_files g t (path_join root (path_bytes path)) = Inr w" "wf_regular w" "wf_bytes w = Inr bs"
    "length bs \<le> MAX_LOCAL_BYTES" using read_untracked_Inr [OF r] by blast
  let ?f = "untracked_change c path m bs doc"
  have "untracked_ok g root ?f" by (rule untracked_change_ok [OF repo_path_new_self [OF p] w d])
  moreover have "n = us_rows st + length (file_rows ?f)" using count_rows_Inr [OF n] by (simp add: untracked_change_rows)
  moreover have "n \<le> 500000" using count_rows_Inr [OF n] assms(2) by (simp add: tally_ok_def)
  ultimately show ?thesis using assms(2) b by (intro exI [of _ ?f]) (simp add: st' total_file_rows_def tally_ok_def)
qed

lemma add_all_untracked_Inr:
  assumes "add_all_untracked c g root ps st t = (Inr st', t')" "tally_ok st"
  shows "\<exists>new. us_files st' = us_files st @ new \<and> length new = length ps \<and> list_all (untracked_ok g root) new \<and> tally_ok st'"
  using assms
proof (induction ps arbitrary: st t)
  case Nil
  then show ?case by (simp add: liftR_def)
next
  case (Cons p ps)
  from Cons.prems(1) obtain st1 t1 where a: "add_untracked c g root p st t = (Inr st1, t1)"
    and rest: "add_all_untracked c g root ps st1 t1 = (Inr st', t')" by (auto simp: bind_simps)
  obtain f where f: "us_files st1 = us_files st @ [f]" "untracked_ok g root f" "tally_ok st1"
    using add_untracked_Inr [OF a Cons.prems(2)] by blast
  obtain new where new: "us_files st' = us_files st1 @ new" "length new = length ps" "list_all (untracked_ok g root) new"
    "tally_ok st'" using Cons.IH [OF rest f(3)] by blast
  show ?case by (rule exI [of _ "f # new"]) (use f new in simp)
qed

lemma untracked_Inr:
  assumes "untracked c g root p t = (Inr q, t')" "total_file_rows (files p) \<le> 500000"
  shows "\<exists>new. files q = files p @ new \<and> length new \<le> MAX_UNTRACKED \<and> list_all (untracked_ok g root) new \<and>
    total_file_rows (files q) \<le> 500000"
proof -
  let ?st = "\<lparr>us_bytes = 0, us_rows = sum_list (map (\<lambda>f. length (file_rows f)) (files p)), us_files = files p\<rparr>"
  from assms(1) obtain ps st' u u' where ps: "length ps \<le> MAX_UNTRACKED"
    and all: "add_all_untracked c g root ps ?st u = (Inr st', u')" and q: "files q = us_files st'"
    by (auto simp: untracked_def bind_simps Let_def not_less split: if_splits)
  have "tally_ok ?st" using assms(2) by (simp add: tally_ok_def total_file_rows_def)
  then obtain new where "us_files st' = us_files ?st @ new" "length new = length ps" "list_all (untracked_ok g root) new"
    "tally_ok st'" using add_all_untracked_Inr [OF all] by blast
  with ps q show ?thesis by (intro exI [of _ new]) (simp add: tally_ok_def)
qed

lemma git_patch_ok:
  assumes "git_patch c g root extra t = (Inr p, t')"
  shows "list_all file_ok (files p) \<and> total_file_rows (files p) \<le> 500000"
proof -
  obtain out where "parse_patch (sha256 c) out default_limits = Inr p"
    using assms by (auto simp: git_patch_def bind_simps)
  from parse_patch_Inr(1,3) [OF this] show ?thesis
    by (auto simp: list_all_iff file_settled_def total_file_rows_def default_limits_def)
qed

definition capture_ok :: "local_git \<Rightarrow> os_string \<Rightarrow> bool \<Rightarrow> patch_report \<Rightarrow> bool" where
  "capture_ok g root staged p \<longleftrightarrow>
     list_all file_ok (files p) \<and> total_file_rows (files p) \<le> 500000 \<and>
     (\<exists>tracked new. files p = tracked @ new \<and> length new \<le> MAX_UNTRACKED \<and> list_all (untracked_ok g root) new \<and>
        (staged \<longrightarrow> new = []))"

lemma capture_Inr:
  assumes "capture c g root staged t = (Inr p, t')"
  shows "capture_ok g root staged p"
proof -
  from assms obtain tracked u where a: "git_patch c g root (if staged then [''--cached'', ''--''] else [''--'']) t = (Inr tracked, u)"
    and b: "if staged then p = tracked else untracked c g root tracked u = (Inr p, t')"
    by (auto simp: capture_def bind_simps split: if_splits)
  note ok = git_patch_ok [OF a]
  show ?thesis
  proof (cases staged)
    case True
    with b ok show ?thesis by (auto simp: capture_ok_def)
  next
    case False
    with b have "untracked c g root tracked u = (Inr p, t')" by simp
    with untracked_Inr [OF this] ok obtain new where n: "files p = files tracked @ new" "length new \<le> MAX_UNTRACKED"
      "list_all (untracked_ok g root) new" "total_file_rows (files p) \<le> 500000" by blast
    moreover have "list_all file_ok new" using n(3) by (auto simp: list_all_iff untracked_ok_def)
    ultimately show ?thesis using ok False by (auto simp: capture_ok_def)
  qed
qed

lemma capture_twice_Inr:
  assumes "capture_twice c g root staged n t = (Inr s, t')"
  shows "\<exists>a b t1 t2. capture c g root staged t1 = (Inr a, t2) \<and> capture c g root staged t2 = (Inr b, t') \<and>
    lg_json g a = lg_json g b \<and> lg_json g a \<noteq> Inl e \<and> s = captured_snapshot c g root staged a"
  using assms
proof (induction n arbitrary: t)
  case 0
  then show ?case by (simp add: liftR_def)
next
  case (Suc n)
  from Suc.prems obtain a b ja jb t2 t3 where ab: "capture c g root staged t = (Inr a, t2)" "capture c g root staged t2 = (Inr b, t3)"
    "lg_json g a = Inr ja" "lg_json g b = Inr jb"
    and r: "(if ja = jb then liftR (Inr (captured_snapshot c g root staged a)) else capture_twice c g root staged n) t3 = (Inr s, t')"
    by (auto simp: bind_simps)
  show ?case
  proof (cases "ja = jb")
    case True
    with r ab show ?thesis by (intro exI [of _ a] exI [of _ b] exI [of _ t] exI [of _ t2]) (auto simp: liftR_def)
  next
    case False
    with r show ?thesis using Suc.IH by simp
  qed
qed

lemma git_root_Inr:
  assumes "git_root g path t = (Inr root, t')"
  shows "\<exists>program. lg_canonical g (lg_program g) = Inr program \<and> \<not> path_starts_with (lg_program g) root \<and>
    \<not> path_starts_with program root"
  using assms by (auto simp: git_root_def bind_simps liftR_def split: if_splits)

text \<open>No variable that redirects Git or injects configuration reaches it.\<close>

lemma local_git_environment:
  assumes "x \<in> set GIT_REDIRECTS \<or> injected_config x \<and> x \<in> set (lg_vars g)"
  shows "child_env (git_request g root args) inherited x = None"
proof (rule child_env_removed)
  show "x \<in> set (env_remove (git_request g root args))" using assms by (auto simp: git_request_def)
  have "\<not> list_ex (\<lambda>kv. fst kv \<in> set GIT_REDIRECTS \<or> injected_config (fst kv)) FIXED_ENV" by code_simp
  with assms show "x \<notin> fst ` set FIXED_ENV" by (auto simp: list_ex_iff)
qed

section \<open>Properties\<close>


definition sample_git :: local_git where
  "sample_git = \<lparr>lg_program = ''/usr/bin/git'', lg_vars = [], lg_canonical = Inr, lg_debug = (\<lambda>p. p),
     lg_json = (\<lambda>p. Inr (concat (map text_of (files p)))),
     lg_run = (\<lambda>t r. Inr \<lparr>po_status = Some 0,
       po_stdout = (if ''--show-toplevel'' \<in> set (pq_args r) then ''/repo'' @ [LF]
                    else if ''ls-files'' \<in> set (pq_args r) then ''a.txt'' @ [NUL] else []), po_stderr = []\<rparr>),
     lg_files = (\<lambda>t p. Inr \<lparr>wf_regular = True, wf_mode = 420, wf_bytes = Inr (''hi'' @ [LF])\<rparr>)\<rparr>"


end
