(* ===== verification/Details.thy ===== *)
theory Details
  imports Snapshot
begin

text \<open>
  What the panels show of a review, \<open>crates/core/src/review_details.rs\<close>: the release that last
  changed a line, the verdict of the reviewers, the threads at a line and where a thread
  belongs, progress and dates, and the markdown of a comment without its hidden parts. A hash map is a map;
  the code ranges of the markdown parser are an argument. A panic of the code is \<open>None\<close>.
\<close>

section \<open>Releases of a line\<close>

definition release_name :: "release \<Rightarrow> str \<Rightarrow> str" where
  "release_name r head = case_option head id (rel_tag r)"

definition touch_file :: "nat \<Rightarrow> release_file \<Rightarrow> (str \<rightharpoonup> nat list) \<times> (str \<rightharpoonup> str) \<Rightarrow> (str \<rightharpoonup> nat list) \<times> (str \<rightharpoonup> str)" where
  "touch_file i f st =
     (let (paths, renamed) = st; head = case_option (rf_path f) id (renamed (rf_path f)) in
      (paths(head \<mapsto> case_option [] id (paths head) @ [i]),
       case rf_previous f of None \<Rightarrow> renamed | Some p \<Rightarrow> renamed(p \<mapsto> head)))"

text \<open>\<open>Vec::dedup\<close>: of equal neighbours the first stays.\<close>

definition sort_dedup :: "nat list \<Rightarrow> nat list" where
  "sort_dedup xs = remdups_adj (sort xs)"

definition releases_by_path :: "release list \<Rightarrow> str \<rightharpoonup> nat list" where
  "releases_by_path rs =
     map_option sort_dedup \<circ>
       fst (fold (\<lambda>(i, r). fold (touch_file i) (rel_files r)) (rev (enumerate 0 rs)) (Map.empty, Map.empty))"

definition release_of :: "release list \<Rightarrow> str \<rightharpoonup> nat" where
  "release_of rs = map_of (rev (concat (map (\<lambda>(i, r). map (\<lambda>sha. (sha, i)) (rel_shas r)) (enumerate 0 rs))))"

definition as_blamed :: "release list \<Rightarrow> nat \<times> nat \<times> str \<Rightarrow> blamed_range option" where
  "as_blamed rs r = map_option (\<lambda>i. \<lparr>bl_start = fst r, bl_end = fst (snd r), bl_release = i, bl_commit = snd (snd r)\<rparr>)
     (release_of rs (snd (snd r)))"

definition attribute :: "release list \<Rightarrow> (nat \<times> nat \<times> str) list \<Rightarrow> blamed_range list" where
  "attribute rs ranges = sort_key bl_start (List.map_filter (as_blamed rs) ranges)"

definition widen :: "nat \<Rightarrow> (nat \<times> nat) option \<Rightarrow> (nat \<times> nat) option" where
  "widen n sp = Some (case sp of None \<Rightarrow> (n, n) | Some (a, b) \<Rightarrow> (min a n, max b n))"

definition blame_span :: "overview \<Rightarrow> file_change \<Rightarrow> (nat \<times> nat) option" where
  "blame_span ov f =
     (if length (ov_releases ov) < 2 \<or> list_all (\<lambda>r. rel_shas r = []) (ov_releases ov) \<or>
         (\<exists>p \<in> set_option (display_path f). bt_contains p (ov_blame ov))
      then None
      else fold widen (List.map_filter new_line (filter (\<lambda>r. row_kind r = RAdded) (file_rows f))) None)"

definition with_blame :: "snapshot \<Rightarrow> blame_read \<Rightarrow> snapshot" where
  "with_blame s found = s\<lparr>snap_overview := (snap_overview s)\<lparr>ov_blame := bt_extend (ov_blame (snap_overview s)) found\<rparr>\<rparr>"

definition UNBLAMED :: str where
  "UNBLAMED = ''Release attribution is unavailable for''"

definition unblamed_warning :: "blame_read \<Rightarrow> str option" where
  "unblamed_warning blame =
     (let failed = map fst (filter (\<lambda>(_, b). b = None) blame); shown_names = join_with '', '' (take 3 failed) in
      if failed = [] then None
      else if length failed = 1
      then Some (UNBLAMED @ '' '' @ shown_names @ '': its blame could not be read, so its lines show no release.'')
      else Some (UNBLAMED @ '' '' @ show_nat (length failed) @
        '' files whose blame could not be read, so their lines show no release: '' @ shown_names @
        (if length failed > 3 then '', '' @ [CHR 0xE2, CHR 0x80, CHR 0xA6] else []) @ ''.''))"

definition blamed :: "blame_read \<Rightarrow> str \<Rightarrow> nat \<Rightarrow> blamed_range option" where
  "blamed blame path line =
     (case bt_get path blame of
        Some (Some ranges) \<Rightarrow>
          (let i = partition_point (\<lambda>b. bl_end b < line) ranges in
           if i < length ranges \<and> bl_start (ranges ! i) \<le> line then Some (ranges ! i) else None)
      | _ \<Rightarrow> None)"

definition row_release :: "blame_read \<Rightarrow> str \<Rightarrow> patch_row \<Rightarrow> blamed_range option" where
  "row_release blame path r =
     (if row_kind r \<noteq> RAdded then None else Option.bind (new_line r) (blamed blame path))"

definition removed_in :: "str list \<Rightarrow> str" where
  "removed_in names =
     (if names = [] then ''Removed in this range''
      else if length names = 1 then ''Removed in '' @ hd names
      else if length names > 4
      then ''Removed in one of '' @ show_nat (length names) @ '' releases, '' @ hd names @ '' to '' @ last names
      else ''Removed in one of: '' @ join_with '', '' names)"

section \<open>Verdicts, dates and threads\<close>

definition decision_label :: "review_decision \<Rightarrow> str" where
  "decision_label d = (case d of Approved \<Rightarrow> ''approved'' | ChangesRequested \<Rightarrow> ''changes requested'')"

definition ruling :: "str \<Rightarrow> bool" where
  "ruling state \<longleftrightarrow> state = ''APPROVED'' \<or> state = ''CHANGES_REQUESTED'' \<or> state = ''DISMISSED''"

definition review_decision_of :: "(str \<times> str) list \<Rightarrow> review_decision option" where
  "review_decision_of reviews =
     (let latest = bt_extend [] (filter (\<lambda>(_, state). ruling state) reviews) in
      if list_ex (\<lambda>(_, s). s = ''CHANGES_REQUESTED'') latest then Some ChangesRequested
      else if list_ex (\<lambda>(_, s). s = ''APPROVED'') latest then Some Approved
      else None)"

definition short_timestamp :: "str \<Rightarrow> str option" where
  "short_timestamp t =
     (if length t \<ge> 16 \<and> t ! 10 = CHR ''T'' \<and> t ! 4 = CHR ''-'' \<and> t ! 13 = CHR '':''
      then Option.bind (str_get t 0 10) (\<lambda>day. Option.bind (str_get t 11 16) (\<lambda>minute. Some (day @ '' '' @ minute)))
      else Some t)"

definition comment_covers :: "str \<Rightarrow> side \<Rightarrow> nat \<Rightarrow> thread_comment \<Rightarrow> bool" where
  "comment_covers path s line c \<longleftrightarrow>
     tc_path c = path \<and> tc_side c = Some s \<and>
     (case tc_line c of None \<Rightarrow> False | Some stop \<Rightarrow> case_option stop id (tc_start_line c) \<le> line \<and> line \<le> stop)"

definition push_root :: "nat list \<Rightarrow> nat \<Rightarrow> nat list" where
  "push_root roots r = (if r \<in> set roots then roots else roots @ [r])"

definition threads_at :: "thread_comment list \<Rightarrow> str \<Rightarrow> side \<Rightarrow> nat \<Rightarrow> nat list" where
  "threads_at cs path s line = foldl push_root [] (map root_id (filter (comment_covers path s line) cs))"

definition thread_counts :: "thread_comment list \<Rightarrow> (str, nat) btree" where
  "thread_counts cs =
     fold (\<lambda>c m. bt_insert (tc_path c) (case_option 0 id (bt_get (tc_path c) m) + 1) m) (filter (\<lambda>c. tc_id c = root_id c) cs) []"

definition reviewed_progress :: "(str, bool) btree \<Rightarrow> str list \<Rightarrow> nat \<times> nat" where
  "reviewed_progress seen paths = (length (filter (\<lambda>f. bt_get f seen = Some True) paths), length paths)"

datatype thread_location = AtLine source_point | AtFile source_point | Outdated

definition thread_location_of :: "snapshot \<Rightarrow> thread_comment \<Rightarrow> thread_location" where
  "thread_location_of s c =
     (case List.find (\<lambda>f. display_path f = Some (tc_path c)) (files (snap_patch s)) of
        None \<Rightarrow> Outdated
      | Some f \<Rightarrow>
          (case tc_side c of
             None \<Rightarrow> Outdated
           | Some sd \<Rightarrow>
               (case (if tc_file_level c \<noteq> Some True then tc_line c else None) of
                  Some line \<Rightarrow>
                    (let p = \<lparr>sp_snapshot = snap_id s, sp_file = fc_id f, sp_side = sd, sp_line = line, byte_column = 0\<rparr> in
                     case validate_point s p of Inr _ \<Rightarrow> AtLine p | Inl _ \<Rightarrow> Outdated)
                | None \<Rightarrow>
                    if sd \<noteq> SideRight \<or> \<not> case_option (tc_line c = None) id (tc_file_level c) \<or>
                       (case snap_remote s of None \<Rightarrow> False | Some r \<Rightarrow> tc_commit_id c \<noteq> rt_head r)
                    then Outdated
                    else AtFile \<lparr>sp_snapshot = snap_id s, sp_file = fc_id f, sp_side = sd, sp_line = 0, byte_column = 0\<rparr>)))"

definition is_at_file :: "thread_location \<Rightarrow> bool" where
  "is_at_file l \<longleftrightarrow> (case l of AtFile _ \<Rightarrow> True | _ \<Rightarrow> False)"

definition other_side_of :: "side \<Rightarrow> patch_row \<Rightarrow> (side \<times> nat) option" where
  "other_side_of s r =
     (case s of SideLeft \<Rightarrow> map_option (\<lambda>n. (SideRight, n)) (new_line r) | SideRight \<Rightarrow> map_option (\<lambda>n. (SideLeft, n)) (old_line r))"

definition thread_roots_at :: "snapshot \<Rightarrow> source_point \<Rightarrow> nat list" where
  "thread_roots_at s p =
     (case snap_file s (sp_file p) of
        None \<Rightarrow> []
      | Some f \<Rightarrow>
          (case display_path f of
             None \<Rightarrow> []
           | Some path \<Rightarrow>
               if sp_side p = SideRight \<and> sp_line p = 0
               then foldl push_root [] (map root_id (filter (\<lambda>c. tc_path c = path \<and> is_at_file (thread_location_of s c)) (snap_comments s)))
               else
                 (let roots = threads_at (snap_comments s) path (sp_side p) (sp_line p) in
                  case fc_line f (sp_side p) (sp_line p) of
                    None \<Rightarrow> roots
                  | Some r \<Rightarrow>
                      if row_kind r \<noteq> RContext then roots
                      else
                        (case other_side_of (sp_side p) r of
                           None \<Rightarrow> roots
                         | Some (sd, n) \<Rightarrow> foldl push_root roots (threads_at (snap_comments s) path sd n)))))"

section \<open>Visible markdown\<close>

definition separate_code_delimiters :: "str \<Rightarrow> str \<Rightarrow> bool \<Rightarrow> str" where
  "separate_code_delimiters out following gap =
     (if gap \<and> ends_with ''`'' out \<and> starts_with ''`'' following then out @ ''<!---->'' else out)"

record markdown_state =
  md_at :: nat
  md_line_end :: nat
  md_hidden :: bool
  md_gap :: bool
  md_visible :: str
  md_code :: "range list"

text \<open>The end of the line that holds \<open>at\<close>, past its line feed.\<close>

definition line_end_from :: "str \<Rightarrow> nat \<Rightarrow> nat" where
  "line_end_from body at =
     (case position (\<lambda>c. c = LF) (drop at body) of None \<Rightarrow> length body | Some i \<Rightarrow> at + i + 1)"

definition find_str :: "str \<Rightarrow> str \<Rightarrow> nat option" where
  "find_str p s = map_option (\<lambda>(a, _). length a) (split_once p s)"

definition first_char_len :: "str \<Rightarrow> nat" where
  "first_char_len s = (case utf8_step s of Some (_, n) \<Rightarrow> n | None \<Rightarrow> 1)"

definition markdown_move :: "nat \<Rightarrow> str \<Rightarrow> markdown_state \<Rightarrow> markdown_state" where
  "markdown_move line_end rest st =
     (let at = md_at st in
      if md_hidden st
      then (case find_str ''-->'' rest of
              Some i \<Rightarrow> st\<lparr>md_at := at + i + 3, md_hidden := False\<rparr>
            | None \<Rightarrow> st\<lparr>md_at := line_end\<rparr>)
      else if starts_with ''<!--'' rest then st\<lparr>md_at := at + 4, md_hidden := True, md_gap := True\<rparr>
      else if (case str_get rest 0 4 of None \<Rightarrow> False | Some s \<Rightarrow> to_ascii_lowercase s = ''<img'')
      then (case position (\<lambda>c. c = CHR ''>'') rest of
              Some i \<Rightarrow> st\<lparr>md_at := at + i + 1, md_visible := md_visible st @ ''[image]'', md_gap := False\<rparr>
            | None \<Rightarrow> st\<lparr>md_at := line_end\<rparr>)
      else
        (let n = first_char_len rest in
         st\<lparr>md_at := at + n, md_gap := False,
            md_visible := separate_code_delimiters (md_visible st) rest (md_gap st) @ take n rest\<rparr>))"

definition markdown_step :: "str \<Rightarrow> markdown_state \<Rightarrow> markdown_state" where
  "markdown_step body st =
     (let e = (if md_at st \<ge> md_line_end st then line_end_from body (md_at st) else md_line_end st) in
      markdown_move e (slice (md_at st) e body) (st\<lparr>md_line_end := e\<rparr>))"

definition markdown_code_step :: "str \<Rightarrow> range \<Rightarrow> markdown_state \<Rightarrow> markdown_state" where
  "markdown_code_step body r st =
     (let snippet = slice (fst r) (snd r) body; out = separate_code_delimiters (md_visible st) snippet (md_gap st) in
      st\<lparr>md_at := snd r, md_gap := False, md_visible := out @ snippet,
         md_code := md_code st @ [(length out, length out + length snippet)]\<rparr>)"

definition code_here :: "markdown_state \<Rightarrow> range list \<Rightarrow> bool" where
  "code_here st code \<longleftrightarrow> \<not> md_hidden st \<and> code \<noteq> [] \<and> fst (hd code) = md_at st"

lemma line_end_after: "at < length body \<Longrightarrow> at < line_end_from body at"
  by (auto simp: line_end_from_def split: option.split)

lemma markdown_move_at: "md_at st < e \<Longrightarrow> md_at st < md_at (markdown_move e rest st)"
proof -
  have "0 < first_char_len rest" using utf8_step_len by (auto simp: first_char_len_def split: option.split)
  then show "md_at st < e \<Longrightarrow> ?thesis" by (simp add: markdown_move_def Let_def split: option.split)
qed

lemma markdown_step_at: "md_at st < length body \<Longrightarrow> md_at st < md_at (markdown_step body st)"
  using line_end_after [of "md_at st" body] markdown_move_at [of "st\<lparr>md_line_end := _\<rparr>"] by (simp add: markdown_step_def Let_def)

function markdown_loop :: "str \<Rightarrow> range list \<Rightarrow> markdown_state \<Rightarrow> markdown_state" where
  "markdown_loop body code st =
     (if md_at st \<ge> length body then st
      else
        (let code = dropWhile (\<lambda>r. snd r \<le> md_at st) code in
         if code_here st code then markdown_loop body code (markdown_code_step body (hd code) st)
         else markdown_loop body code (markdown_step body st)))"
  by pat_completeness auto
termination
proof (relation "measure (\<lambda>(body, _, st). length body - md_at st)", goal_cases)
  case (2 body code st code')
  then have "snd (hd code') > md_at st" using hd_dropWhile [of "\<lambda>r. snd r \<le> md_at st" code] by (auto simp: code_here_def)
  with 2 show ?case by (simp add: markdown_code_step_def Let_def)
next
  case (3 body code st code')
  then show ?case using markdown_step_at [of st body] by auto
qed simp

declare markdown_loop.simps [simp del]

text \<open>\<open>str::replace\<close> for a pattern that is not empty.\<close>

function replace_str :: "str \<Rightarrow> str \<Rightarrow> str \<Rightarrow> str" where
  "replace_str p w s =
     (if p = [] then s else case split_once p s of None \<Rightarrow> s | Some (a, b) \<Rightarrow> a @ w @ replace_str p w b)"
  by pat_completeness auto
termination
  by (relation "measure (\<lambda>(_, _, s). length s)") (auto dest!: split_once_Some)

declare replace_str.simps [simp del]

fun replace_images :: "str \<Rightarrow> nat \<Rightarrow> range list \<Rightarrow> str" where
  "replace_images visible at [] = replace_str ''!['' ''[image: '' (drop at visible)"
| "replace_images visible at (r # rs) =
     replace_str ''!['' ''[image: '' (slice at (fst r) visible) @ slice (fst r) (snd r) visible @ replace_images visible (snd r) rs"

definition visible_markdown :: "range list option \<Rightarrow> str \<Rightarrow> str" where
  "visible_markdown code_ranges body =
     (case code_ranges of
        None \<Rightarrow> ''Markdown preview unavailable''
      | Some code \<Rightarrow>
          (let st = markdown_loop body code \<lparr>md_at = 0, md_line_end = 0, md_hidden = False, md_gap = False, md_visible = [],
             md_code = []\<rparr> in
           replace_images (md_visible st) 0 (md_code st)))"

section \<open>Attribution\<close>

definition ranges_ok :: "(nat \<times> nat \<times> str) list \<Rightarrow> bool" where
  "ranges_ok rs \<longleftrightarrow> (\<forall>(a, b, _) \<in> set rs. a \<le> b) \<and> sorted_wrt (\<lambda>(_, b, _) (a, _, _). b < a) rs"

text \<open>A commit belongs to the last release that lists it.\<close>

lemma release_of_Some:
  assumes "release_of rs commit = Some i"
  shows "i < length rs \<and> commit \<in> set (rel_shas (rs ! i))"
proof -
  have "(commit, i) \<in> set (concat (map (\<lambda>(i, r). map (\<lambda>sha. (sha, i)) (rel_shas r)) (enumerate 0 rs)))"
    using map_of_SomeD [OF assms [unfolded release_of_def]] by simp
  then show ?thesis by (auto simp: in_set_enumerate_eq)
qed

lemma release_of_None:
  assumes "r \<in> set rs" "commit \<in> set (rel_shas r)"
  shows "release_of rs commit \<noteq> None"
proof -
  obtain i where "i < length rs" "r = rs ! i" using assms(1) by (auto simp: in_set_conv_nth)
  then have "(i, r) \<in> set (enumerate 0 rs)" by (simp add: in_set_enumerate_eq)
  with assms(2) have "commit \<in> fst ` set (concat (map (\<lambda>(i, r). map (\<lambda>sha. (sha, i)) (rel_shas r)) (enumerate 0 rs)))" by force
  then show ?thesis by (simp add: release_of_def map_of_eq_None_iff)
qed

lemma as_blamed_Some:
  "as_blamed rs r = Some b \<longleftrightarrow>
    r = (bl_start b, bl_end b, bl_commit b) \<and> release_of rs (bl_commit b) = Some (bl_release b)"
  by (cases b; cases r) (auto simp: as_blamed_def)

lemma attribute_set:
  "b \<in> set (attribute rs ranges) \<longleftrightarrow>
    (bl_start b, bl_end b, bl_commit b) \<in> set ranges \<and> release_of rs (bl_commit b) = Some (bl_release b)"
proof -
  have "b \<in> set (List.map_filter (as_blamed rs) ranges) \<longleftrightarrow> (\<exists>r \<in> set ranges. as_blamed rs r = Some b)"
    by (force simp: map_filter_def)
  then show ?thesis by (auto simp: attribute_def as_blamed_Some)
qed

text \<open>Ranges in line order stay in line order, so the binary search finds the one that holds a line.\<close>

lemma sorted_map_filter:
  assumes "sorted_wrt P xs" "\<And>x y u v. P x y \<Longrightarrow> f x = Some u \<Longrightarrow> f y = Some v \<Longrightarrow> Q u v"
  shows "sorted_wrt Q (List.map_filter f xs)"
  using assms(1)
proof (induction xs)
  case (Cons x xs)
  have "Q u v" if "f x = Some u" "v \<in> set (List.map_filter f xs)" for u v
    using that Cons.prems assms(2) by (auto simp: map_filter_def)
  with Cons show ?case by (auto simp: map_filter_def)
qed (simp add: map_filter_def)

lemma attribute_sorted:
  assumes "ranges_ok ranges"
  shows "sorted_wrt (\<lambda>a b. bl_end a < bl_start b) (attribute rs ranges)"
proof -
  have s: "sorted_wrt (\<lambda>a b. bl_end a < bl_start b) (List.map_filter (as_blamed rs) ranges)"
    by (rule sorted_map_filter [of "\<lambda>(_, b, _) (a, _, _). b < a"]) (use assms in \<open>auto simp: ranges_ok_def as_blamed_Some\<close>)
  have "bl_start b \<le> bl_end b" if "b \<in> set (List.map_filter (as_blamed rs) ranges)" for b
    using that assms by (auto simp: map_filter_def ranges_ok_def as_blamed_def)
  with s have "sorted_wrt (\<lambda>a b. bl_start a \<le> bl_start b) (List.map_filter (as_blamed rs) ranges)"
    by (fastforce intro: sorted_wrt_mono_rel [rotated])
  then have "sort_key bl_start (List.map_filter (as_blamed rs) ranges) = List.map_filter (as_blamed rs) ranges"
    by (intro sort_key_id_if_sorted) (simp add: sorted_map)
  with s show ?thesis by (simp add: attribute_def)
qed

lemma partition_finds:
  assumes "sorted_wrt (\<lambda>a b. bl_end a < bl_start b) bs" "b \<in> set bs" "bl_start b \<le> line" "line \<le> bl_end b"
    and "\<forall>b \<in> set bs. bl_start b \<le> bl_end b"
  shows "partition_point (\<lambda>b. bl_end b < line) bs < length bs \<and> bs ! partition_point (\<lambda>b. bl_end b < line) bs = b"
  using assms
proof (induction bs)
  case (Cons x bs)
  show ?case
  proof (cases "bl_end x < line")
    case True
    with Cons.prems(2,4) have "b \<in> set bs" by auto
    with Cons True show ?thesis by (simp add: partition_point_def)
  next
    case False
    then have "b = x" using Cons.prems by auto
    with False show ?thesis by (simp add: partition_point_def)
  qed
qed simp

lemma blamed_attributed:
  assumes "ranges_ok ranges" "bt_get path blame = Some (Some (attribute rs ranges))"
  shows "blamed blame path line = Some b \<longleftrightarrow>
    b \<in> set (attribute rs ranges) \<and> bl_start b \<le> line \<and> line \<le> bl_end b"
proof -
  let ?bs = "attribute rs ranges" and ?i = "partition_point (\<lambda>b. bl_end b < line) (attribute rs ranges)"
  have le: "\<forall>b \<in> set ?bs. bl_start b \<le> bl_end b" using assms(1) by (auto simp: attribute_set ranges_ok_def)
  have out: "blamed blame path line = (if ?i < length ?bs \<and> bl_start (?bs ! ?i) \<le> line then Some (?bs ! ?i) else None)"
    by (simp add: blamed_def assms(2) Let_def)
  show ?thesis
  proof
    assume "blamed blame path line = Some b"
    then have i: "?i < length ?bs" "bl_start (?bs ! ?i) \<le> line" "b = ?bs ! ?i" by (auto simp: out split: if_splits)
    then have "\<not> bl_end (?bs ! ?i) < line" using nth_length_takeWhile [of "\<lambda>b. bl_end b < line" ?bs] by (simp add: partition_point_def)
    with i show "b \<in> set ?bs \<and> bl_start b \<le> line \<and> line \<le> bl_end b" by simp
  next
    assume b: "b \<in> set ?bs \<and> bl_start b \<le> line \<and> line \<le> bl_end b"
    with partition_finds [OF attribute_sorted [OF assms(1)], of b rs line] le show "blamed blame path line = Some b"
      by (simp add: out)
  qed
qed

lemma fold_widen:
  "fold widen ns (Some (a, b)) = Some (fold min ns a, fold max ns b)"
  by (induction ns arbitrary: a b) (simp_all add: widen_def min.commute max.commute)

lemma fold_min_max:
  fixes a :: nat
  shows "fold min ns a \<in> insert a (set ns) \<and> (\<forall>n \<in> insert a (set ns). fold min ns a \<le> n)"
    and "fold max ns a \<in> insert a (set ns) \<and> (\<forall>n \<in> insert a (set ns). n \<le> fold max ns a)"
  by (induction ns arbitrary: a) (auto simp: min_def max_def split: if_splits, (meson order_trans linear)+)

definition added_lines :: "file_change \<Rightarrow> nat list" where
  "added_lines f = List.map_filter new_line (filter (\<lambda>r. row_kind r = RAdded) (file_rows f))"

lemma blame_span_covers:
  assumes "blame_span ov f = Some (a, b)"
  shows "a \<in> set (added_lines f) \<and> b \<in> set (added_lines f) \<and> (\<forall>n \<in> set (added_lines f). a \<le> n \<and> n \<le> b)"
proof -
  have "fold widen (added_lines f) None = Some (a, b)" using assms by (auto simp: blame_span_def added_lines_def split: if_splits)
  then obtain n ns where "added_lines f = n # ns" "a = fold min ns n" "b = fold max ns n"
    by (cases "added_lines f") (auto simp: widen_def fold_widen)
  with fold_min_max [of ns n] show ?thesis by auto
qed

section \<open>Threads and counts\<close>

lemma push_roots: "distinct roots \<Longrightarrow> distinct (foldl push_root roots rs) \<and> set (foldl push_root roots rs) = set roots \<union> set rs"
  by (induction rs arbitrary: roots) (auto simp: push_root_def)

lemma threads_at_exact:
  "distinct (threads_at cs path s line) \<and>
   set (threads_at cs path s line) = root_id ` {c \<in> set cs. comment_covers path s line c}"
  using push_roots [of "[]" "map root_id (filter (comment_covers path s line) cs)"] by (auto simp: threads_at_def)

lemma thread_location_line:
  "thread_location_of s c = AtLine p \<Longrightarrow> \<exists>r. validate_point s p = Inr r \<and> tc_side c = Some (sp_side p) \<and> tc_line c = Some (sp_line p)"
  by (auto simp: thread_location_of_def Let_def split: option.splits sum.splits if_splits)

lemma bt_values: "bt_ok m \<Longrightarrow> list_ex (\<lambda>(_, x). x = v) m \<longleftrightarrow> (\<exists>u. bt_get u m = Some v)"
  using bt_get_in [of _ m v] bt_in_get [of m _ v] by (auto simp: list_ex_iff)

section \<open>Properties\<close>

text \<open>
  A line shows the release that last changed it: when the blame of a file, given in line
  order, is attributed and stored, looking a line up finds a range exactly if one of the
  blamed ranges holds the line and some release lists its commit; the range found is that
  one, and its release lists the commit.
\<close>

theorem blamed_release:
  assumes "ranges_ok ranges" "bt_ok blame"
  shows "(blamed (bt_insert path (Some (attribute rs ranges)) blame) path line = Some b \<longrightarrow>
      (bl_start b, bl_end b, bl_commit b) \<in> set ranges \<and> bl_start b \<le> line \<and> line \<le> bl_end b \<and>
      bl_release b < length rs \<and> bl_commit b \<in> set (rel_shas (rs ! bl_release b))) \<and>
    ((\<exists>(lo, hi, commit) \<in> set ranges. lo \<le> line \<and> line \<le> hi \<and> (\<exists>r \<in> set rs. commit \<in> set (rel_shas r))) \<longrightarrow>
      blamed (bt_insert path (Some (attribute rs ranges)) blame) path line \<noteq> None)"
proof -
  let ?m = "bt_insert path (Some (attribute rs ranges)) blame"
  have get: "bt_get path ?m = Some (Some (attribute rs ranges))" by (simp add: bt_get_insert_sorted assms(2))
  note found = blamed_attributed [OF assms(1) get, of line]
  have "blamed ?m path line \<noteq> None" if r: "(lo, hi, commit) \<in> set ranges" "lo \<le> line" "line \<le> hi" "r \<in> set rs" "commit \<in> set (rel_shas r)"
    for lo hi commit r
  proof -
    obtain i where "release_of rs commit = Some i" using release_of_None [OF r(4,5)] by blast
    with r found [of "\<lparr>bl_start = lo, bl_end = hi, bl_release = i, bl_commit = commit\<rparr>"] show ?thesis
      by (simp add: attribute_set)
  qed
  moreover have "(bl_start b, bl_end b, bl_commit b) \<in> set ranges \<and> bl_start b \<le> line \<and> line \<le> bl_end b \<and>
      bl_release b < length rs \<and> bl_commit b \<in> set (rel_shas (rs ! bl_release b))" if "blamed ?m path line = Some b"
    using found [of b] that release_of_Some by (auto simp: attribute_set)
  ultimately show ?thesis by blast
qed

definition sample_release :: "str \<Rightarrow> str list \<Rightarrow> release" where
  "sample_release tag shas = \<lparr>rel_tag = Some tag, rel_commit = [], rel_date = None, rel_commits = 0, rel_files = [],
     rel_notes = None, rel_url = None, rel_shas = shas\<rparr>"

theorem blamed_release_witness:
  "map_option bl_release (blamed (bt_insert ''f'' (Some (attribute
      [sample_release ''v1'' [''a''], sample_release ''v2'' [''b'', ''c'']] [(1, 3, ''x''), (4, 6, ''b''), (8, 8, ''a'')])) [])
      ''f'' 5) = Some 1"
proof -
  let ?rs = "[sample_release ''v1'' [''a''], sample_release ''v2'' [''b'', ''c'']]"
  let ?ranges = "[(1 :: nat, 3 :: nat, ''x''), (4, 6, ''b''), (8, 8, ''a'')]"
  let ?m = "bt_insert ''f'' (Some (attribute ?rs ?ranges)) []"
  have ok: "ranges_ok ?ranges" by (simp add: ranges_ok_def)
  from blamed_release [OF ok bt_ok_Nil, of "''f''" ?rs 5] have "blamed ?m ''f'' 5 \<noteq> None"
    by (simp add: sample_release_def)
  moreover have "map_option bl_release (blamed ?m ''f'' 5) = Some 1" by code_simp
  ultimately show ?thesis by simp
qed

text \<open>
  The verdict shown is that of the reviewers' latest rulings: changes are requested
  exactly if some reviewer's last ruling asks for them, and the review is approved exactly if none does and
  some reviewer's last ruling approves. Comments and pending reviews are no rulings.
\<close>

theorem review_decision_latest:
  "(review_decision_of reviews = Some ChangesRequested \<longleftrightarrow>
     (\<exists>u. map_of (rev (filter (\<lambda>(_, st). ruling st) reviews)) u = Some ''CHANGES_REQUESTED'')) \<and>
   (review_decision_of reviews = Some Approved \<longleftrightarrow>
     (\<forall>u. map_of (rev (filter (\<lambda>(_, st). ruling st) reviews)) u \<noteq> Some ''CHANGES_REQUESTED'') \<and>
     (\<exists>u. map_of (rev (filter (\<lambda>(_, st). ruling st) reviews)) u = Some ''APPROVED''))"
proof -
  let ?f = "filter (\<lambda>(_, st). ruling st) reviews"
  let ?m = "bt_extend [] ?f"
  have "bt_ok ?m" by (rule bt_extend_ok) simp
  note bt_values [OF this]
  moreover have "bt_get u ?m = map_of (rev ?f) u" for u by (simp add: bt_get_extend split: option.split)
  ultimately have "list_ex (\<lambda>(_, x). x = st) ?m \<longleftrightarrow> (\<exists>u. map_of (rev ?f) u = Some st)" for st by simp
  then show ?thesis by (simp add: review_decision_of_def Let_def del: rev_filter)
qed

text \<open>
  The suppression of images in provider markdown has a gap: a second exclamation mark
  before an image survives the replacement, joins the inserted bracket, and the shown text is an image again.
\<close>

theorem visible_markdown_image_left:
  "visible_markdown (Some []) ''![a](b)'' = ''[image: a](b)'' \<and>
   visible_markdown (Some []) ''!![a](b)'' = ''![image: a](b)''"
  by code_simp

text \<open>
  A date that looks like a timestamp up to its minutes and goes on with a letter of two bytes
  is cut inside that letter: the slice panics.
\<close>

lemma short_timestamp_panics:
  "short_timestamp ''2026-09-04T14:22:31Z'' = Some ''2026-09-04 14:22'' \<and>
   valid_utf8 (''2026-09-04T14:2'' @ [CHR 0xC3, CHR 0xA9]) \<and>
   short_timestamp (''2026-09-04T14:2'' @ [CHR 0xC3, CHR 0xA9]) = None"
  by code_simp

end
