(* ===== verification/Gate.thy ===== *)
theory Gate
  imports Prelude Fair
begin

text \<open>
  The gate of the background reads, \<open>Services::permit\<close> and the drop of a \<open>Permit\<close> in
  \<open>crates/adapters/src/service.rs\<close>. A counter under a mutex admits four readers; a call that
  finds it full waits on a condition variable, for 50 ms at most before it
  looks again, and gives up when it is cancelled. Each call is a small machine, one
  turn of it is one critical section, and the calls interleave in any
  order. A waiting call may wake in any turn: by the notification of a drop, by the timeout or
  spuriously. A turn of a call that reads ends the read and drops its permit.
\<close>

section \<open>The machine\<close>

datatype gate_phase = Asking | Waiting | Reading | Left | Refused

record gate_call =
  gate_phase :: gate_phase
  call_cancelled :: bool

record gate =
  reads :: nat
  calls :: "gate_call list"

definition MAX_READS :: nat where
  "MAX_READS = 4"

definition permit_turn :: "nat \<Rightarrow> gate_call \<Rightarrow> nat \<times> gate_phase" where
  "permit_turn count c =
     (if count \<ge> MAX_READS
      then if call_cancelled c then (count, Refused) else (count, Waiting)
      else (Suc count, Reading))"

definition permit_drop :: "nat \<Rightarrow> nat \<times> gate_phase" where
  "permit_drop count = (count - 1, Left)"

definition call_turn :: "nat \<Rightarrow> gate_call \<Rightarrow> nat \<times> gate_phase" where
  "call_turn count c =
     (case gate_phase c of
        Asking \<Rightarrow> permit_turn count c
      | Waiting \<Rightarrow> (count, Asking)
      | Reading \<Rightarrow> permit_drop count
      | p \<Rightarrow> (count, p))"

datatype gate_event = Turn nat | Cancel nat

fun gate_act :: "gate_event \<Rightarrow> gate \<Rightarrow> gate" where
  "gate_act (Turn i) g =
     (if i < length (calls g)
      then (let (n, p) = call_turn (reads g) (calls g ! i) in
            g\<lparr>reads := n, calls := (calls g)[i := (calls g ! i)\<lparr>gate_phase := p\<rparr>]\<rparr>)
      else g)"
| "gate_act (Cancel i) g =
     (if i < length (calls g) then g\<lparr>calls := (calls g)[i := (calls g ! i)\<lparr>call_cancelled := True\<rparr>]\<rparr> else g)"

definition gate_start :: "nat \<Rightarrow> gate" where
  "gate_start n = \<lparr>reads = 0, calls = replicate n \<lparr>gate_phase = Asking, call_cancelled = False\<rparr>\<rparr>"

section \<open>Counting phases\<close>

definition phase_count :: "gate_phase \<Rightarrow> gate \<Rightarrow> nat" where
  "phase_count p g = length (filter (\<lambda>c. gate_phase c = p) (calls g))"

definition gate_ok :: "gate \<Rightarrow> bool" where
  "gate_ok g \<longleftrightarrow> reads g = phase_count Reading g \<and> reads g \<le> MAX_READS"

definition gate_over :: "gate \<Rightarrow> bool" where
  "gate_over g \<longleftrightarrow> list_all (\<lambda>c. gate_phase c = Left \<or> gate_phase c = Refused) (calls g)"

lemma filter_update:
  assumes "i < length xs"
  shows "length (filter P (xs[i := x])) + (if P (xs ! i) then 1 else 0) = length (filter P xs) + (if P x then 1 else 0)"
  using assms
proof (induction xs arbitrary: i)
  case (Cons y xs)
  show ?case
  proof (cases i)
    case (Suc j)
    with Cons.IH [of j] Cons.prems show ?thesis by simp
  qed simp
qed simp

lemma phase_count_turn:
  assumes "i < length (calls g)" "calls g' = (calls g)[i := c]"
  shows "phase_count p g' + (if gate_phase (calls g ! i) = p then 1 else 0) =
    phase_count p g + (if gate_phase c = p then 1 else 0)"
  unfolding phase_count_def assms(2) by (rule filter_update [OF assms(1)])

lemma phase_count_cancel: "phase_count p (gate_act (Cancel i) g) = phase_count p g"
proof (cases "i < length (calls g)")
  case True
  let ?c = "(calls g ! i)\<lparr>call_cancelled := True\<rparr>"
  have "calls (gate_act (Cancel i) g) = (calls g)[i := ?c]" using True by simp
  from phase_count_turn [OF True this, of p] show ?thesis by simp
qed simp

lemma phase_count_pos: "i < length (calls g) \<Longrightarrow> gate_phase (calls g ! i) = p \<Longrightarrow> 0 < phase_count p g"
  unfolding phase_count_def by (rule length_pos_if_in_set [of "calls g ! i"]) simp

lemma gate_ok_act: "gate_ok g \<Longrightarrow> gate_ok (gate_act e g)"
proof (cases e)
  case (Cancel i)
  moreover have "reads (gate_act (Cancel i) g) = reads g" by simp
  moreover assume "gate_ok g"
  ultimately show ?thesis by (simp add: gate_ok_def phase_count_cancel del: gate_act.simps)
next
  case (Turn i)
  assume ok: "gate_ok g"
  show ?thesis
  proof (cases "i < length (calls g)")
    case True
    obtain n p where t: "call_turn (reads g) (calls g ! i) = (n, p)" by fastforce
    have g': "calls (gate_act e g) = (calls g)[i := (calls g ! i)\<lparr>gate_phase := p\<rparr>]" "reads (gate_act e g) = n"
      using True t by (simp_all add: Turn)
    from phase_count_turn [OF True g'(1), of Reading] t ok g'(2) phase_count_pos [OF True refl] show ?thesis
      by (cases "gate_phase (calls g ! i)")
        (auto simp: gate_ok_def call_turn_def permit_turn_def permit_drop_def split: if_splits)
  qed (use ok in \<open>simp add: Turn\<close>)
qed

definition refusals_ok :: "gate \<Rightarrow> bool" where
  "refusals_ok g \<longleftrightarrow> list_all (\<lambda>c. gate_phase c = Refused \<longrightarrow> call_cancelled c) (calls g)"

lemma refusals_ok_act: "refusals_ok g \<Longrightarrow> refusals_ok (gate_act e g)"
  by (cases e)
    (auto simp: refusals_ok_def list_all_length nth_list_update call_turn_def permit_turn_def permit_drop_def
      Let_def split: prod.splits gate_phase.splits if_splits)

section \<open>Every call is served\<close>

text \<open>
  The rank counts what is still to be done and, while nobody reads, the calls that have to wake first.
\<close>

definition gate_todo :: "gate \<Rightarrow> nat" where
  "gate_todo g = 2 * phase_count Asking g + 2 * phase_count Waiting g + phase_count Reading g"

definition gate_rank :: "gate \<Rightarrow> nat" where
  "gate_rank g = gate_todo g * (length (calls g) + 2) +
     (if reads g = 0 then phase_count Waiting g else length (calls g) + 1)"

fun gate_helps :: "gate_event \<Rightarrow> gate \<Rightarrow> bool" where
  "gate_helps (Turn i) g \<longleftrightarrow> i < length (calls g) \<and>
     (gate_phase (calls g ! i) = Reading \<or>
      reads g = 0 \<and> (gate_phase (calls g ! i) = Asking \<or> gate_phase (calls g ! i) = Waiting))"
| "gate_helps (Cancel i) g \<longleftrightarrow> False"

lemma phase_count_le: "phase_count p g \<le> length (calls g)"
  by (simp add: phase_count_def)

lemma rank_todo_less:
  assumes "gate_todo g' < gate_todo g" "length (calls g') = length (calls g)"
  shows "gate_rank g' < gate_rank g"
proof -
  let ?L = "length (calls g)"
  have "gate_rank g' \<le> gate_todo g' * (?L + 2) + (?L + 1)"
    using phase_count_le [of Waiting g'] by (simp add: gate_rank_def assms(2))
  also have "\<dots> < Suc (gate_todo g') * (?L + 2)" by simp
  also have "\<dots> \<le> gate_todo g * (?L + 2)" using assms(1) by (intro mult_right_mono) simp_all
  also have "\<dots> \<le> gate_rank g" by (simp add: gate_rank_def)
  finally show ?thesis .
qed

lemma same_phase: "gate_phase c = p \<Longrightarrow> c\<lparr>gate_phase := p\<rparr> = c"
  by (cases c) simp

lemma gate_turn_effect:
  assumes "i < length (calls g)" "call_turn (reads g) (calls g ! i) = (n, p)"
  shows "reads (gate_act (Turn i) g) = n"
    and "calls (gate_act (Turn i) g) = (calls g)[i := (calls g ! i)\<lparr>gate_phase := p\<rparr>]"
    and "phase_count q (gate_act (Turn i) g) + (if gate_phase (calls g ! i) = q then 1 else 0) =
      phase_count q g + (if p = q then 1 else 0)"
proof -
  show "reads (gate_act (Turn i) g) = n" using assms by simp
  show c: "calls (gate_act (Turn i) g) = (calls g)[i := (calls g ! i)\<lparr>gate_phase := p\<rparr>]" using assms by simp
  show "phase_count q (gate_act (Turn i) g) + (if gate_phase (calls g ! i) = q then 1 else 0) =
      phase_count q g + (if p = q then 1 else 0)"
    using phase_count_turn [OF assms(1) c, of q] by simp
qed

text \<open>What a turn does, by the phase it starts in.\<close>

lemma gate_turn_lowers:
  assumes "i < length (calls g)"
    and "gate_phase (calls g ! i) = Reading \<or> gate_phase (calls g ! i) = Asking \<and>
      (reads g < MAX_READS \<or> call_cancelled (calls g ! i))"
  shows "gate_todo (gate_act (Turn i) g) < gate_todo g"
proof -
  obtain n p where t: "call_turn (reads g) (calls g ! i) = (n, p)" by fastforce
  note k = gate_turn_effect(3) [OF assms(1) t]
  from assms(2) k [of Asking] k [of Waiting] k [of Reading] t show ?thesis
    by (auto simp: call_turn_def permit_turn_def permit_drop_def gate_todo_def split: if_splits)
qed

lemma gate_turn_keeps:
  assumes "i < length (calls g)"
    and "gate_phase (calls g ! i) = Waiting \<or>
      gate_phase (calls g ! i) = Asking \<and> reads g \<ge> MAX_READS \<and> \<not> call_cancelled (calls g ! i)"
  shows "gate_todo (gate_act (Turn i) g) = gate_todo g" and "reads (gate_act (Turn i) g) = reads g"
    and "reads g = 0 \<Longrightarrow> phase_count Waiting (gate_act (Turn i) g) < phase_count Waiting g"
proof -
  obtain n p where t: "call_turn (reads g) (calls g ! i) = (n, p)" by fastforce
  note k = gate_turn_effect(3) [OF assms(1) t]
  show "gate_todo (gate_act (Turn i) g) = gate_todo g"
    using assms(2) k [of Asking] k [of Waiting] k [of Reading] t
    by (auto simp: call_turn_def permit_turn_def gate_todo_def split: if_splits)
  show "reads (gate_act (Turn i) g) = reads g"
    using assms(2) t gate_turn_effect(1) [OF assms(1) t] by (auto simp: call_turn_def permit_turn_def)
  show "phase_count Waiting (gate_act (Turn i) g) < phase_count Waiting g" if "reads g = 0"
    using assms(2) k [of Waiting] t that by (auto simp: call_turn_def MAX_READS_def)
qed

lemma gate_turn_idle:
  assumes "i < length (calls g)" "gate_phase (calls g ! i) = Left \<or> gate_phase (calls g ! i) = Refused"
  shows "gate_act (Turn i) g = g"
proof -
  obtain p where p: "gate_phase (calls g ! i) = p" "p = Left \<or> p = Refused" using assms(2) by blast
  have "call_turn (reads g) (calls g ! i) = (reads g, p)" using p by (auto simp: call_turn_def)
  with assms(1) p(1) show ?thesis by (simp add: same_phase)
qed

lemma gate_phase_cases:
  assumes "i < length (calls g)"
  obtains "gate_act (Turn i) g = g" "gate_phase (calls g ! i) = Left \<or> gate_phase (calls g ! i) = Refused"
  | "gate_todo (gate_act (Turn i) g) < gate_todo g"
  | "gate_phase (calls g ! i) = Waiting \<or>
      gate_phase (calls g ! i) = Asking \<and> reads g \<ge> MAX_READS \<and> \<not> call_cancelled (calls g ! i)"
  using gate_turn_lowers [OF assms] gate_turn_idle [OF assms]
  by (cases "gate_phase (calls g ! i)"; cases "reads g < MAX_READS \<or> call_cancelled (calls g ! i)")
    (auto simp del: gate_act.simps)

lemma gate_calls_length: "length (calls (gate_act e g)) = length (calls g)"
  by (cases e) (auto simp: Let_def split: prod.split)

lemma gate_cancel_same:
  "reads (gate_act (Cancel i) g) = reads g" "gate_todo (gate_act (Cancel i) g) = gate_todo g"
  "gate_rank (gate_act (Cancel i) g) = gate_rank g"
  using phase_count_cancel [of _ i g] gate_calls_length [of "Cancel i" g]
  by (simp_all add: gate_todo_def gate_rank_def)

lemma gate_turn_outside: "\<not> i < length (calls g) \<Longrightarrow> gate_act (Turn i) g = g"
  by simp

lemma gate_rank_act: "gate_rank (gate_act e g) \<le> gate_rank g"
proof (cases e)
  case (Turn i)
  show ?thesis
  proof (cases "i < length (calls g)")
    case True
    then show ?thesis
    proof (cases rule: gate_phase_cases)
      case 2
      from rank_todo_less [OF this gate_calls_length] show ?thesis unfolding Turn by (rule less_imp_le)
    next
      case 3
      note keeps = gate_turn_keeps [OF True 3]
      then show ?thesis using gate_calls_length [of e g] by (auto simp: Turn gate_rank_def simp del: gate_act.simps)
    qed (simp add: Turn)
  qed (simp add: Turn)
next
  case (Cancel i)
  then show ?thesis by (simp only: gate_cancel_same)
qed

lemma gate_helps_lowers:
  assumes "gate_helps e g"
  shows "gate_rank (gate_act e g) < gate_rank g"
proof -
  from assms obtain i where e: "e = Turn i" and i: "i < length (calls g)"
    and h: "gate_phase (calls g ! i) = Reading \<or> reads g = 0 \<and> (gate_phase (calls g ! i) = Asking \<or> gate_phase (calls g ! i) = Waiting)"
    by (cases e) auto
  show ?thesis
  proof (cases "gate_phase (calls g ! i) = Waiting")
    case True
    with h have z: "reads g = 0" by simp
    have w: "gate_phase (calls g ! i) = Waiting \<or>
      gate_phase (calls g ! i) = Asking \<and> reads g \<ge> MAX_READS \<and> \<not> call_cancelled (calls g ! i)" using True by simp
    note keeps = gate_turn_keeps [OF i w]
    show ?thesis using keeps(1,2) keeps(3) [OF z] gate_calls_length [of e g] z
      by (simp add: e gate_rank_def del: gate_act.simps)
  next
    case False
    then have "gate_todo (gate_act e g) < gate_todo g"
      unfolding e by (intro gate_turn_lowers [OF i]) (use h in \<open>auto simp: MAX_READS_def\<close>)
    then show ?thesis by (rule rank_todo_less) (rule gate_calls_length)
  qed
qed

lemma gate_other_call:
  assumes "e' \<noteq> Turn i" "i < length (calls g)"
  shows "gate_phase (calls (gate_act e' g) ! i) = gate_phase (calls g ! i)"
  using assms by (cases e') (auto simp: nth_list_update Let_def split: prod.split)

lemma gate_helps_stays:
  assumes "gate_helps e g" "e' \<noteq> e"
  shows "gate_rank (gate_act e' g) < gate_rank g \<or> gate_helps e (gate_act e' g)"
proof -
  from assms(1) obtain i where e: "e = Turn i" and i: "i < length (calls g)"
    and h: "gate_phase (calls g ! i) = Reading \<or> reads g = 0 \<and> (gate_phase (calls g ! i) = Asking \<or> gate_phase (calls g ! i) = Waiting)"
    by (cases e) auto
  have p: "gate_phase (calls (gate_act e' g) ! i) = gate_phase (calls g ! i)"
    using gate_other_call [OF _ i] assms(2) e by blast
  have "gate_todo (gate_act e' g) < gate_todo g \<or> reads (gate_act e' g) = reads g"
  proof (cases e')
    case (Turn j)
    show ?thesis
    proof (cases "j < length (calls g)")
      case True
      then show ?thesis
      proof (cases rule: gate_phase_cases)
        case 3
        with gate_turn_keeps(2) [OF True] show ?thesis by (simp add: Turn del: gate_act.simps)
      qed (simp_all add: Turn del: gate_act.simps)
    qed (simp add: Turn)
  qed simp
  then show ?thesis
    using rank_todo_less [OF _ gate_calls_length] h i p gate_calls_length [of e' g] by (auto simp: e simp del: gate_act.simps)
qed

lemma gate_helped:
  assumes "gate_ok g" "\<not> gate_over g"
  shows "\<exists>i < length (calls g). gate_helps (Turn i) g"
proof (cases "reads g = 0")
  case True
  obtain i where i: "i < length (calls g)" "gate_phase (calls g ! i) \<noteq> Left" "gate_phase (calls g ! i) \<noteq> Refused"
    using assms(2) by (auto simp: gate_over_def list_all_length)
  have "gate_phase (calls g ! i) = Asking \<or> gate_phase (calls g ! i) = Waiting \<or> gate_phase (calls g ! i) = Reading"
    using i(2,3) by (cases "gate_phase (calls g ! i)") simp_all
  with True i(1) show ?thesis by auto
next
  case False
  then have "filter (\<lambda>c. gate_phase c = Reading) (calls g) \<noteq> []" using assms(1) by (auto simp: gate_ok_def phase_count_def)
  then obtain c where "c \<in> set (calls g)" "gate_phase c = Reading" by (auto simp: filter_empty_conv)
  then show ?thesis by (auto simp: in_set_conv_nth)
qed

lemma gate_over_act: "gate_over g \<Longrightarrow> gate_over (gate_act e g)"
proof (cases e)
  case (Turn i)
  assume o: "gate_over g"
  show ?thesis
  proof (cases "i < length (calls g)")
    case True
    with o have "gate_phase (calls g ! i) = Left \<or> gate_phase (calls g ! i) = Refused"
      by (auto simp: gate_over_def list_all_length)
    from gate_turn_idle [OF True this] o show ?thesis by (simp add: Turn del: gate_act.simps)
  qed (use o in \<open>simp add: Turn\<close>)
next
  case (Cancel i)
  assume "gate_over g"
  then show ?thesis by (auto simp: Cancel gate_over_def list_all_length nth_list_update)
qed

text \<open>The contract of fair machines, for the calls of one gate with a fixed number of them.\<close>

interpretation read_gate: fair_machine gate_act "\<lambda>g. gate_ok g \<and> refusals_ok g \<and> length (calls g) = n" gate_rank gate_helps gate_over
  "Turn ` {..<n}" for n
proof (unfold_locales, goal_cases)
  case (1 g e)
  then show ?case using gate_ok_act refusals_ok_act gate_calls_length by simp
next
  case (2 g e)
  show ?case by (rule gate_rank_act)
next
  case (3 g)
  then show ?case using gate_helped [of g] by auto
next
  case (4 g e)
  then show ?case by (blast intro: gate_helps_lowers)
next
  case (5 g e e')
  then show ?case using gate_helps_stays by blast
next
  case (6 g e)
  then show ?case using gate_over_act by blast
qed

lemma gate_start_ok: "gate_ok (gate_start n) \<and> refusals_ok (gate_start n) \<and> length (calls (gate_start n)) = n"
  by (simp add: gate_ok_def refusals_ok_def gate_start_def phase_count_def list_all_length)

section \<open>Properties\<close>

text \<open>
  The read gate keeps its count: whatever the calls do and in whatever order,
  the counter is the number of calls that hold a permit, it is never above four, and a
  permit is only dropped while the counter is positive, so the subtraction cannot underflow.
\<close>

theorem gate_counts_readers:
  "reads (run_events gate_act sched (gate_start n) k) = phase_count Reading (run_events gate_act sched (gate_start n) k) \<and>
   reads (run_events gate_act sched (gate_start n) k) \<le> 4 \<and>
   (i < n \<and> gate_phase (calls (run_events gate_act sched (gate_start n) k) ! i) = Reading \<longrightarrow>
      0 < reads (run_events gate_act sched (gate_start n) k))"
proof -
  let ?g = "run_events gate_act sched (gate_start n) k"
  have "gate_ok ?g" "length (calls ?g) = n" using read_gate.run_inv [OF gate_start_ok] by auto
  then show ?thesis using phase_count_pos [of i ?g Reading] by (auto simp: gate_ok_def MAX_READS_def)
qed

theorem gate_counts_readers_witness:
  "reads (run_events gate_act Turn (gate_start 6) 6) = phase_count Reading (run_events gate_act Turn (gate_start 6) 6) \<and>
   phase_count Reading (run_events gate_act Turn (gate_start 6) 6) = 4 \<and>
   gate_phase (calls (run_events gate_act Turn (gate_start 6) 6) ! 5) = Waiting"
proof -
  note ok = gate_counts_readers [of Turn 6 6 0, THEN conjunct1]
  show ?thesis by (rule conjI [OF ok]) code_simp
qed

text \<open>
  Claim C28. No read starves at the gate: when every call gets turns again and again, each of the
  \<open>n\<close> calls in the end has held a permit and dropped it, or was refused because it was
  cancelled; nothing else can happen to it after that.
\<close>

theorem gate_serves_all:
  assumes "fair_for (Turn ` {..<n}) sched"
  shows "\<exists>k. \<forall>m \<ge> k. \<forall>i < n.
    gate_phase (calls (run_events gate_act sched (gate_start n) m) ! i) = Left \<or>
    gate_phase (calls (run_events gate_act sched (gate_start n) m) ! i) = Refused \<and>
      call_cancelled (calls (run_events gate_act sched (gate_start n) m) ! i)"
proof -
  from read_gate.eventually_over [OF gate_start_ok assms] obtain k where
    k: "\<forall>m \<ge> k. gate_over (run_events gate_act sched (gate_start n) m)" by blast
  have "gate_phase (calls (run_events gate_act sched (gate_start n) m) ! i) = Left \<or>
    gate_phase (calls (run_events gate_act sched (gate_start n) m) ! i) = Refused \<and>
      call_cancelled (calls (run_events gate_act sched (gate_start n) m) ! i)" if "m \<ge> k" "i < n" for m i
  proof -
    let ?g = "run_events gate_act sched (gate_start n) m"
    have "gate_over ?g" "refusals_ok ?g" "length (calls ?g) = n"
      using k that(1) read_gate.run_inv [OF gate_start_ok, of sched n m] by simp_all
    with that(2) show ?thesis by (auto simp: gate_over_def refusals_ok_def list_all_length)
  qed
  then show ?thesis by blast
qed

theorem gate_serves_all_witness:
  "\<exists>m. gate_phase (calls (run_events gate_act (\<lambda>k. Turn (k mod 6)) (gate_start 6) m) ! 5) = Left \<or>
     gate_phase (calls (run_events gate_act (\<lambda>k. Turn (k mod 6)) (gate_start 6) m) ! 5) = Refused"
proof -
  have "\<exists>m \<ge> k. Turn (m mod 6) = Turn i" if "i < 6" for i k :: nat
    by (rule exI [of _ "6 * k + i"]) (use that in simp)
  then have "fair_for (Turn ` {..<6}) (\<lambda>k. Turn (k mod 6))" by (auto simp: fair_for_def)
  from gate_serves_all [OF this] obtain k where k: "\<forall>m \<ge> k. \<forall>i < 6.
      gate_phase (calls (run_events gate_act (\<lambda>k. Turn (k mod 6)) (gate_start 6) m) ! i) = Left \<or>
      gate_phase (calls (run_events gate_act (\<lambda>k. Turn (k mod 6)) (gate_start 6) m) ! i) = Refused \<and>
        call_cancelled (calls (run_events gate_act (\<lambda>k. Turn (k mod 6)) (gate_start 6) m) ! i)" ..
  have "(5 :: nat) < 6" by simp
  with k show ?thesis by blast
qed

end
