(* ===== verification/Service.thy ===== *)
theory Service
  imports Writers LocalGit Details Gate
begin

text \<open>
  The services behind the workbench, \<open>crates/adapters/src/service.rs\<close>: the registry of
  providers and of the outboxes that may publish, opening a source and keeping it, source lines, blame and
  releases of a compare, preparing and publishing a review, and the recognition of an address. A provider is a record
  of its operations; those of the three providers are built from their address parsers and readers. The
  answer of the read gate, which theory \<open>Gate\<close> models, and the moments at which a call finds itself cancelled are arguments.
\<close>

section \<open>Providers\<close>

type_synonym line_span = "str \<times> nat \<times> nat"
type_synonym blame_ranges = "(nat \<times> nat \<times> str) list"

record provider =
  p_rules :: review_rules
  p_open :: "str \<Rightarrow> store_error + snapshot"
  p_accepts :: "str \<Rightarrow> bool"
  p_source :: "remote_target \<Rightarrow> str \<Rightarrow> str \<Rightarrow> store_error + bytes"
  p_remote :: "store_error + unit"
  p_releases :: "remote_target \<Rightarrow> store_error + (release list \<times> str list)"
  p_blame :: "remote_target \<Rightarrow> line_span list \<Rightarrow> store_error + blame_ranges option list"

text \<open>What a provider's reader does; \<open>None\<close> for a provider whose program was not found.\<close>

record ('p, 'c) host_reader =
  hr_snapshot :: "'p \<Rightarrow> store_error + snapshot"
  hr_compare :: "'c \<Rightarrow> store_error + snapshot"
  hr_source :: "remote_target \<Rightarrow> str \<Rightarrow> str \<Rightarrow> store_error + bytes"
  hr_releases :: "remote_target \<Rightarrow> store_error + (release list \<times> str list)"
  hr_blame :: "remote_target \<Rightarrow> line_span list \<Rightarrow> store_error + blame_ranges option list"

definition with_reader :: "str \<Rightarrow> 'r option \<Rightarrow> ('r \<Rightarrow> store_error + 'a) \<Rightarrow> store_error + 'a" where
  "with_reader missing reader f = bindE (okE (Message missing) reader) f"

definition GITHUB_MISSING :: str where
  "GITHUB_MISSING = ''Install gh, then run gh auth login for this host''"

definition GITLAB_MISSING :: str where
  "GITLAB_MISSING = ''Install glab, then authenticate for this GitLab host''"

definition ENTIRE_MISSING :: str where
  "ENTIRE_MISSING = ''Install Entire CLI 0.12.2 or newer, then run entire login''"

definition is_ok :: "'e + 'a \<Rightarrow> bool" where
  "is_ok r \<longleftrightarrow> (case r of Inl _ \<Rightarrow> False | Inr _ \<Rightarrow> True)"

definition github_provider :: "url_parser \<Rightarrow> payload_codec \<Rightarrow> (pr_address, compare_address) host_reader option \<Rightarrow> provider" where
  "github_provider u j reader =
     \<lparr>p_rules = github_rules j,
      p_open = (\<lambda>address. bindE (map_errE Message (github_target_parse u address)) (\<lambda>t.
        with_reader GITHUB_MISSING reader (\<lambda>r. case t of GhPr a \<Rightarrow> hr_snapshot r a | GhCompare a \<Rightarrow> hr_compare r a))),
      p_accepts = (\<lambda>address. is_ok (github_target_parse u address)),
      p_source = (\<lambda>t path rev. with_reader GITHUB_MISSING reader (\<lambda>r. hr_source r t path rev)),
      p_remote = with_reader GITHUB_MISSING reader (\<lambda>r. Inr ()),
      p_releases = (\<lambda>t. with_reader GITHUB_MISSING reader (\<lambda>r. hr_releases r t)),
      p_blame = (\<lambda>t spans. with_reader GITHUB_MISSING reader (\<lambda>r. hr_blame r t spans))\<rparr>"

definition gitlab_provider :: "url_parser \<Rightarrow> payload_codec \<Rightarrow> (mr_address, gitlab_compare) host_reader option \<Rightarrow> provider" where
  "gitlab_provider u j reader =
     \<lparr>p_rules = gitlab_rules j,
      p_open = (\<lambda>address. bindE (map_errE Message (gitlab_target_parse u address)) (\<lambda>t.
        with_reader GITLAB_MISSING reader (\<lambda>r. case t of GlMr a \<Rightarrow> hr_snapshot r a | GlCompare a \<Rightarrow> hr_compare r a))),
      p_accepts = (\<lambda>address. is_ok (gitlab_target_parse u address)),
      p_source = (\<lambda>t path rev. with_reader GITLAB_MISSING reader (\<lambda>r. hr_source r t path rev)),
      p_remote = with_reader GITLAB_MISSING reader (\<lambda>r. Inr ()),
      p_releases = (\<lambda>t. with_reader GITLAB_MISSING reader (\<lambda>r. hr_releases r t)),
      p_blame = (\<lambda>t spans. with_reader GITLAB_MISSING reader (\<lambda>r. hr_blame r t spans))\<rparr>"

definition entire_provider :: "url_parser \<Rightarrow> (trail_address, unit) host_reader option \<Rightarrow> provider" where
  "entire_provider u reader =
     \<lparr>p_rules = entire_rules u,
      p_open = (\<lambda>address. with_reader ENTIRE_MISSING reader (\<lambda>r.
        bindE (map_errE Message (trail_parse u address)) (hr_snapshot r))),
      p_accepts = (\<lambda>address. is_ok (trail_parse u address)),
      p_source = (\<lambda>t path rev. with_reader ENTIRE_MISSING reader (\<lambda>r. hr_source r t path rev)),
      p_remote = Inl (Message READ_ONLY),
      p_releases = (\<lambda>_. Inr ([], [])),
      p_blame = (\<lambda>_ _. Inl (Message ''This provider cannot read blame''))\<rparr>"

section \<open>The registry\<close>

record services =
  sv_providers :: "provider list"
  outboxes :: "provider_id \<rightharpoonup> review_rules"
  sv_git :: "(os_string \<Rightarrow> local_mode \<Rightarrow> store_error + snapshot) option"
  sv_ids :: nat
  sv_nonce :: str

definition services_empty :: "(os_string \<Rightarrow> local_mode \<Rightarrow> store_error + snapshot) option \<Rightarrow> str \<Rightarrow> services" where
  "services_empty g nonce = \<lparr>sv_providers = [], outboxes = Map.empty, sv_git = g, sv_ids = 1, sv_nonce = nonce\<rparr>"

definition register :: "provider \<times> bool \<Rightarrow> services \<Rightarrow> services" where
  "register r svc =
     (let (p, writes) = r; i = rules_id (p_rules p); cleared = (outboxes svc)(i := None) in
      svc\<lparr>outboxes := (if writes \<and> read_only_reason (p_rules p) = None \<and> is_ok (p_remote p)
                       then cleared(i \<mapsto> p_rules p) else cleared),
          sv_providers := sv_providers svc @ [p]\<rparr>)"

definition new_with_providers ::
  "url_parser \<Rightarrow> payload_codec \<Rightarrow> (pr_address, compare_address) host_reader option \<Rightarrow>
   (mr_address, gitlab_compare) host_reader option \<Rightarrow> (trail_address, unit) host_reader option \<Rightarrow>
   (os_string \<Rightarrow> local_mode \<Rightarrow> store_error + snapshot) option \<Rightarrow> str \<Rightarrow> bool \<Rightarrow> bool \<Rightarrow> services" where
  "new_with_providers u j gh gl en g nonce writes gitlab_writes =
     register (entire_provider u en, False)
       (register (gitlab_provider u j gl, gitlab_writes)
         (register (github_provider u j gh, writes) (services_empty g nonce)))"

definition provider_for :: "services \<Rightarrow> provider_id \<Rightarrow> store_error + provider" where
  "provider_for svc i =
     okE (Message (''No review provider named '' @ provider_str i @ '' is available''))
       (List.find (\<lambda>p. rules_id (p_rules p) = i) (rev (sv_providers svc)))"

definition writes_enabled :: "services \<Rightarrow> bool" where
  "writes_enabled svc \<longleftrightarrow> outboxes svc \<noteq> Map.empty"

definition writes_enabled_for :: "services \<Rightarrow> provider_id \<Rightarrow> bool" where
  "writes_enabled_for svc i \<longleftrightarrow> outboxes svc i \<noteq> None"

definition fresh_id :: "services \<Rightarrow> str \<times> services" where
  "fresh_id svc = (sv_nonce svc @ ''-'' @ show_nat (sv_ids svc), svc\<lparr>sv_ids := (sv_ids svc + 1) mod 2 ^ 64\<rparr>)"

section \<open>Opening a source\<close>

datatype open_request =
    OpenFixture str
  | OpenPatch os_string
  | OpenRemote provider_id str
  | OpenLocalGit os_string str str
  | OpenLocalIndex os_string
  | OpenLocalWorktree os_string
  | OpenResume snapshot_id

record load_world =
  lw_fixture :: "str \<Rightarrow> bytes option"
  lw_decorate :: "snapshot \<Rightarrow> str \<Rightarrow> snapshot"
  lw_canonical :: "os_string \<Rightarrow> store_error + os_string"
  lw_debug :: "os_string \<Rightarrow> str"
  lw_file :: "os_string \<Rightarrow> store_error + opened_file"

definition use_git :: "services \<Rightarrow> os_string \<Rightarrow> local_mode \<Rightarrow> store_error + snapshot" where
  "use_git svc root m = bindE (okE (Message ''Git was not found'') (sv_git svc)) (\<lambda>g. g root m)"

definition read_source :: "'a codec_scheme \<Rightarrow> load_world \<Rightarrow> services \<Rightarrow> open_request \<Rightarrow> store_error + snapshot" where
  "read_source c w svc request =
     (case request of
        OpenFixture i \<Rightarrow>
          bindE (okE (Message ''unknown/non-patch fixture'') (lw_fixture w i)) (\<lambda>bs.
          bindE (map_errE PatchFailed (parse_patch (sha256 c) bs default_limits)) (\<lambda>p.
            Inr (lw_decorate w (with_origin c (''Fixture '' @ i @ middle_dot @ ''offline'') p None [] (''fixture:'' @ i)) i)))
      | OpenPatch path \<Rightarrow>
          bindE (lw_canonical w path) (\<lambda>full.
          bindE (read_bounded (lw_file w full) (32 * 1024 * 1024)) (\<lambda>bs.
          bindE (map_errE PatchFailed (parse_patch (sha256 c) bs default_limits)) (\<lambda>p.
            Inr (with_origin c (from_utf8_lossy full) p None [] (''patch:'' @ lw_debug w full)))))
      | OpenRemote i address \<Rightarrow> bindE (provider_for svc i) (\<lambda>p. p_open p address)
      | OpenLocalGit root base head \<Rightarrow> use_git svc root (LocalCompare base head)
      | OpenLocalIndex root \<Rightarrow> use_git svc root Staged
      | OpenLocalWorktree root \<Rightarrow> use_git svc root WorkingTree
      | OpenResume _ \<Rightarrow> Inl AdapterPanic)"

text \<open>
  \<open>permit\<close> is the answer of the gate and \<open>cancelled\<close> what the check after it finds. A request to
  resume does not read a source.
\<close>

definition service_load :: "'a codec_scheme \<Rightarrow> 'j json \<Rightarrow> int \<Rightarrow> load_world \<Rightarrow> services \<Rightarrow> store_error + unit \<Rightarrow> bool \<Rightarrow>
    open_request \<Rightarrow> 'j db \<Rightarrow> (store_error + (snapshot \<times> draft list \<times> saved_view)) \<times> 'j db" where
  "service_load c k now w svc permit cancelled request db =
     (case permit of Inl e \<Rightarrow> (Inl e, db) | Inr _ \<Rightarrow>
      if cancelled then (Inl (Message ''read cancelled''), db)
      else
     (case request of
        OpenResume i \<Rightarrow> opened c k now i db
      | _ \<Rightarrow>
          (case read_source c w svc request of Inl e \<Rightarrow> (Inl e, db) | Inr s \<Rightarrow>
          (case put_snapshot c k now s db of Inl e \<Rightarrow> (Inl e, db) | Inr db' \<Rightarrow>
            (let db'' = show_recent now (snap_id s) db' in
             (bindE (drafts_of k (snap_id s) db'') (\<lambda>ds. bindE (view_of k (snap_id s) db'') (\<lambda>v. Inr (s, ds, v))), db''))))))"

section \<open>Source lines, blame and releases\<close>

definition source_lines :: "services \<Rightarrow> store_error + unit \<Rightarrow> remote_target \<Rightarrow> str \<Rightarrow> str \<Rightarrow> nat \<Rightarrow> nat \<Rightarrow> store_error + str list" where
  "source_lines svc permit target path revision start limit =
     failIf (start = 0 \<or> limit > 1000 \<or> (revision \<noteq> rt_head target \<and> revision \<noteq> comparison_base target))
       (Message ''Invalid context request'')
     (bindE (map_errE Message (repo_path_new path)) (\<lambda>_.
      bindE permit (\<lambda>_.
      bindE (bindE (provider_for svc (rt_provider target)) (\<lambda>p. p_source p target path revision)) (\<lambda>bs.
      failIf (length bs > 2 * 1024 * 1024) (Message ''Source context is over the 2 MiB cap'')
      (bindE (okE (Message ''Source is not UTF-8 text'') (from_utf8 bs)) (\<lambda>content.
       failIf (NUL \<in> set content) (Message ''Binary input does not provide source lines'')
         (Inr (take limit (drop (start - 1) (str_lines content))))))))))"

definition wanted_spans :: "snapshot \<Rightarrow> str list \<Rightarrow> line_span list" where
  "wanted_spans s paths =
     List.map_filter (\<lambda>path.
       Option.bind (List.find (\<lambda>f. display_path f = Some path) (files (snap_patch s))) (\<lambda>f.
         map_option (\<lambda>(first, final). (path, first, final)) (blame_span (snap_overview s) f))) paths"

definition service_blame :: "services \<Rightarrow> store_error + unit \<Rightarrow> bool \<Rightarrow> snapshot \<Rightarrow> str list \<Rightarrow> store_error + blame_read" where
  "service_blame svc permit cancelled s paths =
     bindE (okE (Message ''Release attribution needs a hosted compare'') (snap_remote s)) (\<lambda>target.
     bindE permit (\<lambda>_.
       (let spans = wanted_spans s paths;
            found = (case bindE (provider_for svc (rt_provider target)) (\<lambda>p. p_blame p target spans) of
                       Inl _ \<Rightarrow> replicate (length spans) None | Inr r \<Rightarrow> r) in
        failIf cancelled (Message ''Release attribution was cancelled'')
          (Inr (bt_extend [] (map (\<lambda>((path, _, _), ranges).
             (path, case ranges of Some r \<Rightarrow> if r = [] then None else Some (attribute (ov_releases (snap_overview s)) r)
                    | None \<Rightarrow> None)) (zip spans found)))))))"

definition keep_paths :: "str set \<Rightarrow> release \<Rightarrow> release" where
  "keep_paths paths r = r\<lparr>rel_files := filter (\<lambda>f. rf_path f \<in> paths) (rel_files r)\<rparr>"

definition add_warning :: "str list \<Rightarrow> str \<Rightarrow> str list" where
  "add_warning ws w = (if w \<in> set ws then ws else ws @ [w])"

definition with_releases :: "snapshot \<Rightarrow> release list \<times> str list \<Rightarrow> snapshot" where
  "with_releases s read =
     (let paths = set (List.map_filter display_path (files (snap_patch s)));
          releases = map (keep_paths paths) (fst read); ov = snap_overview s in
      s\<lparr>snap_overview := ov\<lparr>ov_blame := (if ov_releases ov \<noteq> releases then [] else ov_blame ov), ov_releases := releases\<rparr>,
        snap_warnings := foldl add_warning (snap_warnings s) (snd read)\<rparr>)"

definition service_releases :: "'a codec_scheme \<Rightarrow> 'j json \<Rightarrow> (store_error \<Rightarrow> str) \<Rightarrow> int \<Rightarrow> services \<Rightarrow> store_error + unit \<Rightarrow> bool \<Rightarrow>
    snapshot \<Rightarrow> 'j db \<Rightarrow> (store_error + snapshot) \<times> 'j db" where
  "service_releases c k show now svc permit cancelled s db =
     (case snap_remote s of
        None \<Rightarrow> (Inr s, db)
      | Some t \<Rightarrow>
          if rt_compare t = None then (Inr s, db)
          else
            (let read = bindE permit (\<lambda>_. bindE (provider_for svc (rt_provider t)) (\<lambda>p. p_releases p t));
                 s' = with_releases s (case read of
                        Inr r \<Rightarrow> r
                      | Inl e \<Rightarrow> ([], [''The releases in this range could not be listed: '' @ show e])) in
             if cancelled then (Inl (Message ''read cancelled''), db)
             else (case put_snapshot c k now s' db of Inl e \<Rightarrow> (Inl e, db) | Inr db' \<Rightarrow> (Inr s', db'))))"

section \<open>Reviews\<close>

definition service_prepare :: "'a review_codec_scheme \<Rightarrow> 'j json \<Rightarrow> (review_error \<Rightarrow> str) \<Rightarrow> int \<Rightarrow> services \<Rightarrow> snapshot_id \<Rightarrow>
    draft list \<Rightarrow> verdict \<Rightarrow> str \<Rightarrow> 'j db \<Rightarrow> (store_error + prepared_review) \<times> services \<times> 'j db" where
  "service_prepare c k show now svc i drafts v summary db =
     (case snapshot_of c k i db of Inl e \<Rightarrow> (Inl e, svc, db) | Inr s \<Rightarrow>
     (case snap_remote s of None \<Rightarrow> (Inl (Message ''offline source; a hosted review target is required''), svc, db) | Some t \<Rightarrow>
     (case provider_for svc (rt_provider t) of Inl e \<Rightarrow> (Inl e, svc, db) | Inr p \<Rightarrow>
       (let (fresh, svc') = fresh_id svc in
        case prepare c (p_rules p) (OperationId fresh) s drafts v summary of
          Inl e \<Rightarrow> (Inl (Message (show e)), svc', db)
        | Inr r \<Rightarrow>
            (case insert_prepared c k now (p_rules p) r db of
               Inl e \<Rightarrow> (Inl e, svc', db)
             | Inr (_, db') \<Rightarrow> (Inr r, svc', db'))))))"

definition service_publish :: "'a review_codec_scheme \<Rightarrow> 'j json \<Rightarrow> 'v value_api \<Rightarrow> int \<Rightarrow> services \<Rightarrow> 'v publish_answers \<Rightarrow>
    prepared_review \<Rightarrow> 'j db \<Rightarrow> (store_error + outbox_entry) \<times> 'j db \<times> bool" where
  "service_publish c k a now svc ans p db =
     (case provider_for svc (rt_provider (pr_target p)) of Inl e \<Rightarrow> (Inl e, db, False) | Inr pv \<Rightarrow>
     (case read_only_reason (p_rules pv) of Some reason \<Rightarrow> (Inl (Message reason), db, False) | None \<Rightarrow>
     (case outboxes svc (rt_provider (pr_target p)) of
        None \<Rightarrow> (Inl (Message (rules_name (p_rules pv) @ '' publication is disabled; restart with '' @ write_flag (p_rules pv) @
          '' to confirm a review'')), db, False)
      | Some rules \<Rightarrow> publish c k a rules now ans p db)))"

definition service_reconcile :: "'a review_codec_scheme \<Rightarrow> 'j json \<Rightarrow> 'v value_api \<Rightarrow> int \<Rightarrow> services \<Rightarrow> 'v reconcile_answers \<Rightarrow>
    operation_id \<Rightarrow> 'j db \<Rightarrow> store_error + (outbox_entry \<times> 'j db)" where
  "service_reconcile c k a now svc ans i db =
     bindE (operation k i db) (\<lambda>e.
     bindE (provider_for svc (rt_provider (pr_target (oe_prepared e)))) (\<lambda>p.
     bindE (p_remote p) (\<lambda>_. reconcile c k a (p_rules p) now ans i db)))"

section \<open>Addresses\<close>

definition MAX_DETECTED :: nat where
  "MAX_DETECTED = 4096"

definition GITHUB_TOKENS :: "str list" where
  "GITHUB_TOKENS = [''GH_TOKEN'', ''GITHUB_TOKEN'', ''GH_ENTERPRISE_TOKEN'', ''GITHUB_ENTERPRISE_TOKEN'']"

definition GITLAB_TOKENS :: "str list" where
  "GITLAB_TOKENS = [''GITLAB_TOKEN'', ''GITLAB_ACCESS_TOKEN'', ''OAUTH_TOKEN'']"

definition remote_host :: "url_parser \<Rightarrow> provider_id \<Rightarrow> str \<Rightarrow> str option" where
  "remote_host u i address =
     (if i = GITHUB
      then map_option (\<lambda>t. case t of GhPr a \<Rightarrow> pa_host a | GhCompare a \<Rightarrow> ca_host a) (ok_of (github_target_parse u address))
      else if i = GITLAB
      then map_option (\<lambda>t. case t of GlMr a \<Rightarrow> ma_host a | GlCompare a \<Rightarrow> gc_host a) (ok_of (gitlab_target_parse u address))
      else if i = ENTIRE then map_option ta_host (ok_of (trail_parse u address))
      else None)"

definition public_host :: "provider_id \<Rightarrow> str \<Rightarrow> bool" where
  "public_host i host \<longleftrightarrow>
     (if i = GITHUB then eq_ignore_ascii_case host ''github.com''
      else if i = GITLAB then eq_ignore_ascii_case host ''gitlab.com''
      else if i = ENTIRE then eq_ignore_ascii_case host ''entire.com'' \<or> eq_ignore_ascii_case host ''entire.io''
      else False)"

definition sign_in_request :: "os_string \<Rightarrow> str \<Rightarrow> str list \<Rightarrow> process_request" where
  "sign_in_request program host tokens =
     (with_args [''auth'', ''status'', ''--hostname'', host] (request_new program))\<lparr>deadline_secs := 15, env_remove := tokens\<rparr>"

definition signed_in :: "(process_request \<Rightarrow> store_error + process_output) \<Rightarrow> os_string \<Rightarrow> str \<Rightarrow> str list \<Rightarrow> bool" where
  "signed_in run program host tokens =
     (case run (sign_in_request program host tokens) of Inl _ \<Rightarrow> False | Inr out \<Rightarrow> exit_success (po_status out))"

definition unconfirmed_host :: "url_parser \<Rightarrow> (process_request \<Rightarrow> store_error + process_output) \<Rightarrow> os_string option \<Rightarrow> os_string option \<Rightarrow>
    open_request \<Rightarrow> str option" where
  "unconfirmed_host u run gh glab request =
     (case request of
        OpenRemote i address \<Rightarrow>
          Option.bind (remote_host u i address) (\<lambda>host.
            if public_host i host then None
            else if i = GITHUB \<or> i = GITLAB
            then (let (program, tokens) = (if i = GITHUB then (gh, GITHUB_TOKENS) else (glab, GITLAB_TOKENS)) in
                  if (case program of None \<Rightarrow> False | Some p \<Rightarrow> signed_in run p host tokens) then None else Some host)
            else Some host)
      | _ \<Rightarrow> None)"

record detected =
  det_request :: open_request
  det_label :: str

text \<open>\<open>is_file\<close> and \<open>absolute\<close> are the file system's; \<open>absolute\<close> may fail.\<close>

definition detect_source :: "url_parser \<Rightarrow> (os_string \<Rightarrow> bool) \<Rightarrow> (os_string \<Rightarrow> os_string option) \<Rightarrow> str \<Rightarrow> detected option" where
  "detect_source u is_file absolute given =
     (let input = trim given in
      if input = [] \<or> length input > MAX_DETECTED \<or> LF \<in> set input then None
      else if is_file input
      then Some \<lparr>det_request = OpenPatch (case_option input id (absolute input)), det_label = ''Patch file''\<rparr>
      else if (case u input of None \<Rightarrow> False
               | Some url \<Rightarrow> (case u_host url of None \<Rightarrow> False | Some host \<Rightarrow> public_host ENTIRE host))
      then (if is_ok (trail_parse u input)
            then Some \<lparr>det_request = OpenRemote ENTIRE input, det_label = ''Entire Trail''\<rparr> else None)
      else
        (case (github_target_parse u input, gitlab_target_parse u input) of
           (Inr (GhPr _), _) \<Rightarrow> Some \<lparr>det_request = OpenRemote GITHUB input, det_label = ''GitHub pull request''\<rparr>
         | (Inr (GhCompare _), _) \<Rightarrow> Some \<lparr>det_request = OpenRemote GITHUB input, det_label = ''GitHub compare''\<rparr>
         | (Inl _, Inr (GlMr _)) \<Rightarrow> Some \<lparr>det_request = OpenRemote GITLAB input, det_label = ''GitLab merge request''\<rparr>
         | (Inl _, Inr (GlCompare _)) \<Rightarrow> Some \<lparr>det_request = OpenRemote GITLAB input, det_label = ''GitLab compare''\<rparr>
         | _ \<Rightarrow> None))"

section \<open>The registry keeps the last registration\<close>

definition last_registered :: "(provider \<times> bool) list \<Rightarrow> provider_id \<Rightarrow> (provider \<times> bool) option" where
  "last_registered regs i = List.find (\<lambda>r. rules_id (p_rules (fst r)) = i) (rev regs)"

definition may_publish :: "provider \<times> bool \<Rightarrow> bool" where
  "may_publish r \<longleftrightarrow> snd r \<and> read_only_reason (p_rules (fst r)) = None \<and> is_ok (p_remote (fst r))"

lemma find_append: "List.find P (xs @ ys) = (case List.find P xs of None \<Rightarrow> List.find P ys | Some x \<Rightarrow> Some x)"
  by (induction xs) auto

lemma find_map_fst: "List.find P (map fst xs) = map_option fst (List.find (\<lambda>x. P (fst x)) xs)"
  by (induction xs) auto

lemma register_outbox:
  "outboxes (register r svc) i =
    (if i = rules_id (p_rules (fst r)) then (if may_publish r then Some (p_rules (fst r)) else None) else outboxes svc i)"
  by (cases r) (simp add: register_def may_publish_def Let_def)

lemma register_providers: "sv_providers (register r svc) = sv_providers svc @ [fst r]"
  by (cases r) (simp add: register_def Let_def)

lemma registered_providers: "sv_providers (fold register regs (services_empty g nonce)) = map fst regs"
  by (induction regs rule: rev_induct) (simp_all add: services_empty_def register_providers)

lemma registered_outboxes:
  "outboxes (fold register regs (services_empty g nonce)) i =
    (case last_registered regs i of Some r \<Rightarrow> if may_publish r then Some (p_rules (fst r)) else None | None \<Rightarrow> None)"
  by (induction regs rule: rev_induct) (simp_all add: services_empty_def register_outbox last_registered_def)

lemma registered_provider_for:
  "provider_for (fold register regs (services_empty g nonce)) i = Inr p \<longleftrightarrow> map_option fst (last_registered regs i) = Some p"
  by (simp add: provider_for_def registered_providers last_registered_def rev_map find_map_fst okE_def split: option.split)

lemma new_with_providers_fold:
  "new_with_providers u j gh gl en g nonce writes gitlab_writes =
     fold register [(github_provider u j gh, writes), (gitlab_provider u j gl, gitlab_writes), (entire_provider u en, False)]
       (services_empty g nonce)"
  by (simp add: new_with_providers_def)

lemma service_publish_cases:
  assumes "service_publish c k a now svc ans p db = (r, db', sent)"
  shows "outboxes svc (rt_provider (pr_target p)) \<noteq> None \<or> \<not> sent \<and> db' = db \<and> (\<exists>e. r = Inl e)"
  using assms by (auto simp: service_publish_def split: sum.splits option.splits)

section \<open>Opening keeps the store\<close>

lemma snapshot_of_show_recent: "snapshot_of c k i (show_recent now j db) = snapshot_of c k i db"
proof -
  have "map_option sr_data (tb_get sr_id x (snapshots_t (show_recent now j db))) = map_option sr_data (tb_get sr_id x (snapshots_t db))" for x
    by (auto simp: show_recent_def touch_snapshot_def tb_get_update option.map_comp comp_def split: option.split)
  moreover have "snapshot_blame_t (show_recent now j db) = snapshot_blame_t db" by (simp add: show_recent_def touch_snapshot_def)
  moreover have "snapshot_of c k i d = bindE (okE SqlError (map_option sr_data (tb_get sr_id (snapshot_key i) (snapshots_t d)))) (\<lambda>data.
     bindE (case data of SqlText j \<Rightarrow> okE JsonError (dec_snapshot k j)
            | SqlBlob z \<Rightarrow> bindE (okE JsonError (inflate k z)) (\<lambda>j. okE JsonError (dec_snapshot k j))
            | SqlOther \<Rightarrow> Inl (Message ''saved snapshot has an unknown encoding'')) (\<lambda>s.
     failIf (\<not> verify_identity c s) (Message ''saved snapshot integrity check failed'')
     (bindE (foldE (load_blame_row k)
          (filter (\<lambda>r. br_snapshot_id r = snapshot_key i \<and>
             br_releases_key r = releases_key c (ov_releases (snap_overview s))) (snapshot_blame_t d))
          (ov_blame (snap_overview s))) (\<lambda>blame.
        Inr (s\<lparr>snap_overview := (snap_overview s)\<lparr>ov_blame := blame\<rparr>\<rparr>)))))" for d
    by (cases "tb_get sr_id (snapshot_key i) (snapshots_t d)") (simp_all add: snapshot_of_def okE_def bindE_def)
  ultimately show ?thesis by simp
qed

definition same_work :: "'j db \<Rightarrow> 'j db \<Rightarrow> bool" where
  "same_work db db' \<longleftrightarrow> drafts_t db' = drafts_t db \<and> views_t db' = views_t db \<and> outbox_t db' = outbox_t db \<and> settings_t db' = settings_t db"

lemma show_recent_work: "same_work db (show_recent now i db)"
  by (simp add: same_work_def show_recent_def touch_snapshot_def)

lemma put_snapshot_work: "put_snapshot c k now s db = Inr db' \<Longrightarrow> same_work db db'"
  by (auto simp: same_work_def put_snapshot_def bind_simps Let_def)

lemma same_work_trans: "same_work a b \<Longrightarrow> same_work b c \<Longrightarrow> same_work a c"
  by (simp add: same_work_def)

lemma service_load_work: "service_load c k now w svc permit cancelled request db = (r, db') \<Longrightarrow> same_work db db'"
proof (cases permit)
  case (Inr x)
  assume load: "service_load c k now w svc permit cancelled request db = (r, db')"
  show ?thesis
  proof (cases "cancelled \<or> (\<exists>i. request = OpenResume i)")
    case True
    with load Inr show ?thesis
      by (auto simp: service_load_def opened_def Let_def same_work_def show_recent_def touch_snapshot_def split: if_splits open_request.splits)
  next
    case False
    show ?thesis
    proof (cases "\<exists>s d. read_source c w svc request = Inr s \<and> put_snapshot c k now s db = Inr d")
      case True
      then obtain s d where "read_source c w svc request = Inr s" "put_snapshot c k now s db = Inr d" by blast
      with False load Inr have "db' = show_recent now (snap_id s) d" "same_work db d"
        by (auto simp: service_load_def Let_def put_snapshot_work split: open_request.splits)
      then show ?thesis using same_work_trans show_recent_work by blast
    next
      case no: False
      have "db' = db" using False load Inr no
        by (cases "read_source c w svc request"; cases "put_snapshot c k now (projr (read_source c w svc request)) db")
          (auto simp: service_load_def Let_def split: open_request.splits)
      then show ?thesis by (simp add: same_work_def)
    qed
  qed
qed (simp add: service_load_def same_work_def)

section \<open>Properties\<close>


definition idle_reader :: "('p, 'c) host_reader" where
  "idle_reader = \<lparr>hr_snapshot = (\<lambda>_. Inl IoError), hr_compare = (\<lambda>_. Inl IoError), hr_source = (\<lambda>_ _ _. Inl IoError),
     hr_releases = (\<lambda>_. Inl IoError), hr_blame = (\<lambda>_ _. Inl IoError)\<rparr>"

definition sample_services :: "bool \<Rightarrow> services" where
  "sample_services writes = new_with_providers (\<lambda>_. None) hex_codec (Some idle_reader) None None None ''n'' writes False"

definition waiting_db :: "json_text db" where
  "waiting_db = empty_db\<lparr>outbox_t := [\<lparr>or_id = ''op'', or_state = ''prepared'', or_data = JEntry
     \<lparr>oe_prepared = sample_review ''a'', oe_state = Prepared, baseline_review_ids = [], remote_id = None, diagnostic = None\<rparr>,
     or_updated_at = 1\<rparr>]\<rparr>"


text \<open>
  An open never touches the user's work: whatever the request and the answers, drafts, views, outbox and
  settings stay as they were, also when the open fails or is cancelled; and a source that opens is stored so
  that it reads back, with the drafts and the view that the store holds for it.
\<close>

theorem service_load_keeps:
  assumes "json_ok k" "service_load c k now w svc permit cancelled request db = (r, db')"
  shows "drafts_t db' = drafts_t db \<and> views_t db' = views_t db \<and> outbox_t db' = outbox_t db \<and> settings_t db' = settings_t db \<and>
    (\<forall>s ds v. r = Inr (s, ds, v) \<and> (\<forall>i. request \<noteq> OpenResume i) \<longrightarrow>
       snapshot_of c k (snap_id s) db' = Inr (written_snapshot s) \<and> drafts_of k (snap_id s) db' = Inr ds \<and>
       view_of k (snap_id s) db' = Inr v)"
proof -
  have "snapshot_of c k (snap_id s) db' = Inr (written_snapshot s) \<and> drafts_of k (snap_id s) db' = Inr ds \<and>
       view_of k (snap_id s) db' = Inr v" if r: "r = Inr (s, ds, v)" and q: "\<forall>i. request \<noteq> OpenResume i" for s ds v
  proof -
    from assms(2) r q obtain d where "put_snapshot c k now s db = Inr d" "db' = show_recent now (snap_id s) d"
      "drafts_of k (snap_id s) db' = Inr ds" "view_of k (snap_id s) db' = Inr v"
      by (auto simp: service_load_def Let_def bind_simps split: sum.splits if_splits open_request.splits)
    with snapshot_roundtrip [OF assms(1)] show ?thesis by (auto simp: snapshot_of_show_recent)
  qed
  with service_load_work [OF assms(2)] show ?thesis by (simp add: same_work_def)
qed

definition sample_world :: load_world where
  "sample_world = \<lparr>lw_fixture = (\<lambda>_. Some []), lw_decorate = (\<lambda>s _. s), lw_canonical = Inr, lw_debug = (\<lambda>p. p),
     lw_file = (\<lambda>_. Inl IoError)\<rparr>"

theorem service_load_keeps_witness:
  "\<exists>s ds v db'. service_load sample_codec plain_json 5 sample_world (sample_services False) (Inr ()) False (OpenFixture ''F00'') sample_db =
      (Inr (s, ds, v), db') \<and> drafts_t db' = drafts_t sample_db \<and>
   snapshot_of sample_codec plain_json (snap_id s) db' = Inr (written_snapshot s)"
proof -
  let ?load = "service_load sample_codec plain_json 5 sample_world (sample_services False) (Inr ()) False (OpenFixture ''F00'') sample_db"
  have "isl (fst ?load) = False" by code_simp
  then obtain s ds v db' where run: "?load = (Inr (s, ds, v), db')"
    by (metis isl_def prod.collapse sum.exhaust)
  from service_load_keeps [OF plain_json_ok run] run show ?thesis by auto
qed

text \<open>
  An address goes to a provider that takes it: text that is recognised as a remote source is
  passed on trimmed and unchanged to a provider whose own parser accepts it, and an address on a host of Entire
  is never handed to another provider. Text of more than 4096 bytes or several lines is no source.
\<close>

theorem detect_source_sound:
  assumes "detect_source u is_file absolute given = Some d" "det_request d = OpenRemote i address"
  shows "address = trim given \<and> length address \<le> 4096 \<and> LF \<notin> set address \<and>
    (i = GITHUB \<and> p_accepts (github_provider u j gh) address \<or> i = GITLAB \<and> p_accepts (gitlab_provider u j gl) address \<or>
     i = ENTIRE \<and> p_accepts (entire_provider u en) address) \<and>
    (\<forall>url host. u address = Some url \<and> u_host url = Some host \<and>
       (eq_ignore_ascii_case host ''entire.com'' \<or> eq_ignore_ascii_case host ''entire.io'') \<longrightarrow> i = ENTIRE)"
proof -
  let ?entire = "case u (trim given) of None \<Rightarrow> False
    | Some url \<Rightarrow> (case u_host url of None \<Rightarrow> False | Some host \<Rightarrow> public_host ENTIRE host)"
  have ids: "ENTIRE \<noteq> GITHUB" "ENTIRE \<noteq> GITLAB" "GITLAB \<noteq> GITHUB" by (simp_all add: ENTIRE_def GITHUB_def GITLAB_def)
  have in_limits: "trim given \<noteq> []" "length (trim given) \<le> 4096" "LF \<notin> set (trim given)" "\<not> is_file (trim given)"
    using assms by (auto simp: detect_source_def Let_def MAX_DETECTED_def split: if_splits)
  show ?thesis
  proof (cases ?entire)
    case True
    then have "det_request d = OpenRemote ENTIRE (trim given) \<and> is_ok (trail_parse u (trim given))"
      using assms in_limits by (auto simp: detect_source_def Let_def split: if_splits)
    with assms(2) in_limits show ?thesis by (auto simp: entire_provider_def)
  next
    case False
    then have "(case (github_target_parse u (trim given), gitlab_target_parse u (trim given)) of
           (Inr (GhPr _), _) \<Rightarrow> Some \<lparr>det_request = OpenRemote GITHUB (trim given), det_label = ''GitHub pull request''\<rparr>
         | (Inr (GhCompare _), _) \<Rightarrow> Some \<lparr>det_request = OpenRemote GITHUB (trim given), det_label = ''GitHub compare''\<rparr>
         | (Inl _, Inr (GlMr _)) \<Rightarrow> Some \<lparr>det_request = OpenRemote GITLAB (trim given), det_label = ''GitLab merge request''\<rparr>
         | (Inl _, Inr (GlCompare _)) \<Rightarrow> Some \<lparr>det_request = OpenRemote GITLAB (trim given), det_label = ''GitLab compare''\<rparr>
         | _ \<Rightarrow> None) = Some d"
      using assms(1) in_limits unfolding detect_source_def Let_def MAX_DETECTED_def
      by (simp only: not_le [symmetric] if_False simp_thms)
    then have "i = GITHUB \<and> is_ok (github_target_parse u (trim given)) \<or> i = GITLAB \<and> is_ok (gitlab_target_parse u (trim given))"
      "address = trim given"
      using assms(2) by (auto simp: is_ok_def split: sum.splits github_target.splits gitlab_target.splits)
    with in_limits False show ?thesis
      by (auto simp: github_provider_def gitlab_provider_def public_host_def ids split: option.splits)
  qed
qed

definition trail_url :: str where
  "trail_url = ''https://entire.com/et/project/-/trails/12''"

definition sample_url :: url_parser where
  "sample_url s = (if s = trail_url
     then Some \<lparr>u_scheme = ''https'', u_username = [], u_password = None, u_port = None, u_query = None, u_fragment = None,
       u_host = Some ''entire.com'', u_path = ''/et/project/-/trails/12'', u_segments = None, u_query_pairs = []\<rparr> else None)"

theorem detect_source_sound_witness:
  "map_option det_request (detect_source sample_url (\<lambda>_. False) Some (''  '' @ trail_url)) = Some (OpenRemote ENTIRE trail_url) \<and>
   p_accepts (entire_provider sample_url None) trail_url"
proof -
  let ?d = "detect_source sample_url (\<lambda>_. False) Some (''  '' @ trail_url)"
  have d: "map_option det_request ?d = Some (OpenRemote ENTIRE trail_url)" by code_simp
  then obtain x where x: "?d = Some x" "det_request x = OpenRemote ENTIRE trail_url" by auto
  have "ENTIRE \<noteq> GITHUB" "ENTIRE \<noteq> GITLAB" by (simp_all add: ENTIRE_def GITHUB_def GITLAB_def)
  with detect_source_sound [OF x, of hex_codec None None None] have "p_accepts (entire_provider sample_url None) trail_url" by blast
  with d show ?thesis by blast
qed

text \<open>
  A host is contacted only when the user has reason to trust it: when no confirmation is asked for an address that one of
  the three providers takes, its host is the provider's public one, or the provider's own tool, run without the token
  variables, reported that it is signed in there. Entire's addresses never name another host.
\<close>

theorem unconfirmed_host_trusted:
  assumes "unconfirmed_host u run gh glab (OpenRemote i address) = None" "remote_host u i address = Some host"
  shows "(public_host i host \<or>
     i = GITHUB \<and> (\<exists>program out. gh = Some program \<and> run (sign_in_request program host GITHUB_TOKENS) = Inr out \<and> exit_success (po_status out)) \<or>
     i = GITLAB \<and> (\<exists>program out. glab = Some program \<and> run (sign_in_request program host GITLAB_TOKENS) = Inr out \<and> exit_success (po_status out))) \<and>
    (\<forall>program inherited. list_all (\<lambda>x. child_env (sign_in_request program host GITHUB_TOKENS) inherited x = None) GITHUB_TOKENS \<and>
       list_all (\<lambda>x. child_env (sign_in_request program host GITLAB_TOKENS) inherited x = None) GITLAB_TOKENS)"
proof -
  have f: "list_all (\<lambda>x. x \<notin> fst ` set FIXED_ENV) (GITHUB_TOKENS @ GITLAB_TOKENS)" by code_simp
  have "child_env (sign_in_request program host tokens) inherited x = None"
    if "x \<in> set tokens" "x \<in> set (GITHUB_TOKENS @ GITLAB_TOKENS)" for program tokens inherited x
    using that f by (intro child_env_removed) (auto simp: sign_in_request_def list_all_iff)
  then have "\<forall>program inherited. list_all (\<lambda>x. child_env (sign_in_request program host GITHUB_TOKENS) inherited x = None) GITHUB_TOKENS \<and>
       list_all (\<lambda>x. child_env (sign_in_request program host GITLAB_TOKENS) inherited x = None) GITLAB_TOKENS"
    by (simp add: list_all_iff)
  moreover have "public_host i host \<or>
     i = GITHUB \<and> (\<exists>program out. gh = Some program \<and> run (sign_in_request program host GITHUB_TOKENS) = Inr out \<and> exit_success (po_status out)) \<or>
     i = GITLAB \<and> (\<exists>program out. glab = Some program \<and> run (sign_in_request program host GITLAB_TOKENS) = Inr out \<and> exit_success (po_status out))"
    using assms by (auto simp: unconfirmed_host_def signed_in_def Let_def split: if_splits option.splits sum.splits)
  ultimately show ?thesis by blast
qed

theorem unconfirmed_host_trusted_witness:
  "unconfirmed_host sample_url (\<lambda>_. Inl IoError) None None (OpenRemote ENTIRE trail_url) = None \<and> public_host ENTIRE ''entire.com''"
proof -
  have n: "unconfirmed_host sample_url (\<lambda>_. Inl IoError) None None (OpenRemote ENTIRE trail_url) = None" by code_simp
  have h: "remote_host sample_url ENTIRE trail_url = Some ''entire.com''" by code_simp
  have "ENTIRE \<noteq> GITHUB" "ENTIRE \<noteq> GITLAB" by (simp_all add: ENTIRE_def GITHUB_def GITLAB_def)
  with unconfirmed_host_trusted [OF n h] n show ?thesis by blast
qed

text \<open>
  A prepared review is on record before it is shown: when preparing succeeds, the review verifies under the
  rules of the provider registered for its target, carries the next identity of this process, and the store lists it
  as prepared; no other operation changes.
\<close>

theorem service_prepare_recorded:
  assumes "json_ok k" "service_prepare c k show now svc i drafts v summary db = (Inr p, svc', db')"
  shows "pr_id p = OperationId (sv_nonce svc @ ''-'' @ show_nat (sv_ids svc)) \<and> sv_ids svc' = (sv_ids svc + 1) mod 2 ^ 64 \<and>
    (\<exists>pv. provider_for svc (rt_provider (pr_target p)) = Inr pv \<and> verify_review c (p_rules pv) p) \<and>
    entry_of k (pr_id p) db' = Some \<lparr>oe_prepared = p, oe_state = Prepared, baseline_review_ids = [], remote_id = None, diagnostic = None\<rparr> \<and>
    (\<forall>x. x \<noteq> pr_id p \<longrightarrow> entry_of k x db' = entry_of k x db)"
proof -
  from assms(2) obtain s t pv e where st: "snap_remote s = Some t" "provider_for svc (rt_provider t) = Inr pv"
    and prep: "prepare c (p_rules pv) (OperationId (fst (fresh_id svc))) s drafts v summary = Inr p"
    and ins: "insert_prepared c k now (p_rules pv) p db = Inr (e, db')" and svc': "svc' = snd (fresh_id svc)"
    by (auto simp: service_prepare_def split: sum.splits option.splits prod.splits)
  obtain target where t: "snap_remote s = Some target" "pr_target p = target" "pr_id p = OperationId (fst (fresh_id svc))"
    using prep by (elim prepare_Inr) (auto simp: Let_def)
  define e' where "e' = \<lparr>oe_prepared = p, oe_state = Prepared, baseline_review_ids = [], remote_id = None, diagnostic = None\<rparr>"
  have ver: "verify_review c (p_rules pv) p" and new: "tb_get or_id (operation_key (pr_id p)) (outbox_t db) = None"
    and db': "outbox_t db' = outbox_t db @ [\<lparr>or_id = operation_key (pr_id p), or_state = ''prepared'', or_data = enc_entry k e', or_updated_at = now\<rparr>]"
    using ins by (auto simp: insert_prepared_def bind_simps Let_def e'_def)
  have "entry_of k x db' = (if x = pr_id p then Some e' else entry_of k x db)" for x
    using new json_okD(4) [OF assms(1)] by (auto simp: entry_of_row db' tb_get_append tb_get_single split: option.split)
  moreover have "provider_for svc (rt_provider (pr_target p)) = Inr pv" using st t by simp
  ultimately show ?thesis using ver t(3) svc' by (auto simp: fresh_id_def e'_def)
qed

definition hosted_db :: "json_text db" where
  "hosted_db = empty_db\<lparr>snapshots_t := [\<lparr>sr_id = [], sr_title = ''t'', sr_data = SqlText (JSnapshot (hosted sample_target)), sr_updated_at = 1\<rparr>]\<rparr>"

theorem service_prepare_recorded_witness:
  "\<exists>p svc db'. service_prepare sample_review_codec plain_json (\<lambda>_. []) 3 (sample_services True) (SnapshotId []) [ready_draft] Approve [] hosted_db =
      (Inr p, svc, db') \<and> pr_id p = OperationId ''n-1'' \<and> entry_of plain_json (OperationId ''n-1'') db' \<noteq> None"
proof -
  let ?prep = "service_prepare sample_review_codec plain_json (\<lambda>_. []) 3 (sample_services True) (SnapshotId []) [ready_draft] Approve [] hosted_db"
  have "isl (fst ?prep) = False" by code_simp
  then obtain p svc db' where run: "?prep = (Inr p, svc, db')" by (metis isl_def prod.collapse sum.exhaust)
  note rec = service_prepare_recorded [OF plain_json_ok run]
  have "sv_nonce (sample_services True) @ ''-'' @ show_nat (sv_ids (sample_services True)) = ''n-1''" by code_simp
  with rec have "pr_id p = OperationId ''n-1''" by simp
  with rec run show ?thesis by auto
qed

section \<open>The state directory\<close>

text \<open>
  The directories that exist are a set, and \<open>can_rename\<close> says whether a rename succeeds. The result is the
  directory to use and the directories afterwards.
\<close>

definition migrated_state_dir :: "bool \<Rightarrow> os_string \<Rightarrow> os_string \<times> os_string set \<Rightarrow> os_string \<times> os_string set" where
  "migrated_state_dir can_rename new old_fs =
     (let (old, fs) = old_fs in
      if new \<in> fs \<or> old \<notin> fs then (new, fs)
      else if can_rename then (new, insert new (fs - {old})) else (old, fs))"

definition state_dir_under :: "bool \<Rightarrow> bool \<Rightarrow> os_string \<Rightarrow> os_string \<Rightarrow> os_string set \<Rightarrow> os_string \<times> os_string set" where
  "state_dir_under first_rename second_rename base oldest fs =
     migrated_state_dir second_rename (path_join base ''diffz'')
       (migrated_state_dir first_rename (path_join base ''diffr'') (path_join base oldest, fs))"

text \<open>A path without links is the list of its components; \<open>read_to_string\<close> answers \<open>None\<close> when the file is missing.\<close>

definition extension_of :: "os_string \<Rightarrow> os_string option" where
  "extension_of name = (case rsplit_once ''.'' name of Some (stem, ext) \<Rightarrow> if stem = [] then None else Some ext | None \<Rightarrow> None)"

definition bundled_state_dir :: "(os_string list \<Rightarrow> (str + str) option) \<Rightarrow> os_string list \<Rightarrow> store_error + os_string option" where
  "bundled_state_dir read exe =
     (if length exe < 3 then Inr None
      else
        (let macos = butlast exe; contents = butlast macos; bundle = butlast contents in
         if last macos \<noteq> ''MacOS'' \<or> contents = [] \<or> last contents \<noteq> ''Contents'' \<or>
            bundle = [] \<or> extension_of (last bundle) \<noteq> Some ''app''
         then Inr None
         else
           (case read (contents @ [''Resources'', ''state-dir'']) of
              None \<Rightarrow> Inr None
            | Some (Inl e) \<Rightarrow> Inl (Message (''Contents/Resources/state-dir must hold an absolute path; '' @ e))
            | Some (Inr said) \<Rightarrow>
                failIf (\<not> is_absolute (trim said))
                  (Message (''Contents/Resources/state-dir must hold an absolute path, got '' @ [CHR 0x27] @ trim said @ [CHR 0x27]))
                  (Inr (Some (trim said))))))"

definition default_state_dir :: "bool \<Rightarrow> store_error + os_string option \<Rightarrow> os_string option \<Rightarrow> os_string option \<Rightarrow> bool \<Rightarrow> bool \<Rightarrow>
    os_string set \<Rightarrow> store_error + (os_string \<times> os_string set)" where
  "default_state_dir mac bundled home xdg first_rename second_rename fs =
     bindE (if mac then bundled else Inr None) (\<lambda>dir.
       case dir of
         Some d \<Rightarrow> Inr (d, fs)
       | None \<Rightarrow>
           (case (if mac then home else None) of
              Some h \<Rightarrow> Inr (state_dir_under first_rename second_rename (path_join h ''Library/Application Support'') ''ReviewWorkbench'' fs)
            | None \<Rightarrow>
                (case xdg of
                   Some p \<Rightarrow>
                     if is_absolute p then Inr (state_dir_under first_rename second_rename p ''review-workbench'' fs)
                     else bindE (okE (Message ''HOME unset; specify --state-dir'') home) (\<lambda>h.
                       Inr (state_dir_under first_rename second_rename (path_join h ''.local/state'') ''review-workbench'' fs))
                 | None \<Rightarrow> bindE (okE (Message ''HOME unset; specify --state-dir'') home) (\<lambda>h.
                       Inr (state_dir_under first_rename second_rename (path_join h ''.local/state'') ''review-workbench'' fs)))))"

text \<open>
  Saved state is never left behind: when any of the three directories exists, the one that is used exists,
  whether the renames succeed or not.
\<close>

lemma state_dir_kept:
  assumes "state_dir_under r1 r2 base oldest fs = (d, fs')"
    and "path_join base ''diffz'' \<in> fs \<or> path_join base ''diffr'' \<in> fs \<or> path_join base oldest \<in> fs"
  shows "d \<in> fs'"
  using assms by (auto simp: state_dir_under_def migrated_state_dir_def Let_def split: if_splits)

end
