(* ===== verification/Handoff.thy ===== *)
theory Handoff
  imports Service
begin

text \<open>
  Handing a request to the window that already runs, \<open>crates/adapters/src/handoff.rs\<close>. A later
  invocation connects to the socket of the running window, writes one frame and reads one
  acknowledgement; when nothing runs it takes the launch lock, looks again and starts a window.
  What the operating system answers is an argument: a loop that waits is given the list of what its
  turns observe, and is \<open>None\<close> while that list ends before the loop does. The messages a run
  writes and the tokens it gives to a new window are part of its result. The JSON
  texts of messages are parameters.
\<close>

section \<open>Messages\<close>

definition VERSION :: nat where
  "VERSION = 1"

definition LIMIT :: nat where
  "LIMIT = 65536"

definition ACTIVATION_TOKEN_LIMIT :: nat where
  "ACTIVATION_TOKEN_LIMIT = 4096"

definition admit_activation_token :: "str \<Rightarrow> str option" where
  "admit_activation_token token =
     (if token \<noteq> [] \<and> length token \<le> ACTIVATION_TOKEN_LIMIT \<and> NUL \<notin> set token then Some token else None)"

text \<open>A JSON value where a token may stand, and how the field is read.\<close>

datatype token_value = TokenString str | TokenOther

definition optional_activation_token :: "token_value option \<Rightarrow> str option" where
  "optional_activation_token v = (case v of Some (TokenString t) \<Rightarrow> admit_activation_token t | _ \<Rightarrow> None)"

record writes =
  w_github :: bool
  w_gitlab :: bool

definition default_writes :: writes where
  "default_writes = \<lparr>w_github = False, w_gitlab = False\<rparr>"

record message =
  m_version :: nat
  m_request :: "open_request option"
  m_writes :: writes
  m_token :: "str option"

text \<open>
  A decoded object: \<open>writes\<close> and the token may be absent.
\<close>

record wire =
  wi_version :: nat
  wi_request :: "open_request option"
  wi_writes :: "writes option"
  wi_token :: "token_value option"

definition message_of_wire :: "wire \<Rightarrow> message" where
  "message_of_wire w = \<lparr>m_version = wi_version w, m_request = wi_request w,
     m_writes = (case wi_writes w of None \<Rightarrow> default_writes | Some x \<Rightarrow> x),
     m_token = optional_activation_token (wi_token w)\<rparr>"

record ack =
  ack_version :: nat
  ack_error :: "str option"

datatype outcome = NotRunning | Accepted | Refused str | Unanswered

datatype delivery = HandedOff | Launched

text \<open>
  The JSON texts. A decoder that fails names a line and a column.
\<close>

record handoff_codec =
  enc_message :: "message \<Rightarrow> bytes option"
  dec_header :: "str \<Rightarrow> (nat \<times> nat) + nat"
  dec_wire :: "str \<Rightarrow> (nat \<times> nat) + wire"
  enc_ack :: "ack \<Rightarrow> bytes option"
  dec_ack :: "str \<Rightarrow> ack option"

section \<open>One line of a stream\<close>

datatype io_kind = NotFound | ConnectionRefused | InvalidInput | InvalidData | WouldBlock | TimedOut
  | BrokenPipe | ConnectionReset | OtherKind

text \<open>
  The bytes that arrive on a connection, and whether an error or the end of the stream
  follows them.
\<close>

type_synonym arriving = "bytes \<times> io_kind option"

definition handoff_read_line :: "arriving \<Rightarrow> io_kind + str" where
  "handoff_read_line a =
     (let bs = take LIMIT (fst a) in
      if LF \<in> set bs
      then let line = takeWhile (\<lambda>c. c \<noteq> LF) bs @ [LF] in
           if valid_utf8 line then Inr line else Inl InvalidData
      else if length bs < LIMIT then Inl (case snd a of None \<Rightarrow> InvalidData | Some k \<Rightarrow> k)
      else Inl InvalidData)"

section \<open>The frame and its exchange\<close>

function frame_message :: "handoff_codec \<Rightarrow> message \<Rightarrow> store_error + message \<times> bytes" where
  "frame_message j message =
     (case enc_message j message of
        None \<Rightarrow> Inl (Message ''could not encode handoff request'')
      | Some text \<Rightarrow>
          if length (text @ [LF]) \<le> LIMIT then Inr (message, text @ [LF])
          else if m_token message = None
          then Inl (Message ''handoff request exceeds the 65536-byte frame limit'')
          else frame_message j (message\<lparr>m_token := None\<rparr>))"
  by pat_completeness auto
termination by (relation "measure (\<lambda>(j, m). if m_token m = None then 0 else 1)") auto

declare frame_message.simps [simp del]

definition first_message :: "open_request option \<Rightarrow> writes \<Rightarrow> str option \<Rightarrow> message" where
  "first_message request writes token = \<lparr>m_version = VERSION, m_request = request, m_writes = writes,
     m_token = Option.bind token admit_activation_token\<rparr>"

definition handoff_frame :: "handoff_codec \<Rightarrow> open_request option \<Rightarrow> writes \<Rightarrow> str option \<Rightarrow> store_error + message \<times> bytes" where
  "handoff_frame j request writes token = frame_message j (first_message request writes token)"

definition unreadable :: "nat \<times> nat \<Rightarrow> str" where
  "unreadable e = ''the running diffz could not read the request at line '' @ show_nat (fst e) @ '' column '' @ show_nat (snd e)"

definition unanswered :: "io_kind \<Rightarrow> bool" where
  "unanswered k \<longleftrightarrow> k = WouldBlock \<or> k = TimedOut \<or> k = BrokenPipe \<or> k = ConnectionReset"

text \<open>
  The peer maps the bytes of a frame to what the write and the read of the acknowledgement
  give. The result is the outcome and the messages written; the token is gone after it.
\<close>

type_synonym peer = "bytes \<Rightarrow> io_kind + str"

definition read_outcome :: "handoff_codec \<Rightarrow> io_kind + str \<Rightarrow> store_error + outcome" where
  "read_outcome j answer =
     (case answer of
        Inr line \<Rightarrow>
          if line = [] then Inr Unanswered
          else bindE (okE (Message ''could not read handoff acknowledgement'') (dec_ack j line)) (\<lambda>a.
               Inr (case ack_error a of None \<Rightarrow> Accepted | Some e \<Rightarrow> Refused e))
      | Inl k \<Rightarrow> if k = InvalidData \<or> unanswered k then Inr Unanswered else Inl IoError)"

definition exchange :: "handoff_codec \<Rightarrow> peer \<Rightarrow> open_request option \<Rightarrow> writes \<Rightarrow> str option \<Rightarrow>
    (store_error + outcome) \<times> message list" where
  "exchange j peer request writes token =
     (case handoff_frame j request writes token of
        Inl e \<Rightarrow> (Inl e, [])
      | Inr (m, bs) \<Rightarrow> (read_outcome j (peer bs), [m]))"

section \<open>Finding the window that runs\<close>

text \<open>A loop that looks again until a turn decides it.\<close>

fun poll :: "('t \<Rightarrow> 'r option) \<Rightarrow> 't list \<Rightarrow> 'r option" where
  "poll once [] = None"
| "poll once (t # ts) = (case once t of None \<Rightarrow> poll once ts | Some r \<Rightarrow> Some r)"

record connection =
  cn_timeouts :: "store_error + unit"
  cn_peer :: peer

record connect_turn =
  ct_connect :: "io_kind + connection"
  ct_in_use :: "store_error + bool"
  ct_remove :: "io_kind + unit"
  ct_late :: bool

definition connect_once :: "connect_turn \<Rightarrow> (store_error + connection option) option" where
  "connect_once t =
     (case ct_connect t of
        Inr c \<Rightarrow> Some (Inr (Some c))
      | Inl k \<Rightarrow>
          if k = NotFound \<or> k = ConnectionRefused
          then (case ct_in_use t of
                  Inl e \<Rightarrow> Some (Inl e)
                | Inr False \<Rightarrow>
                    Some (case ct_remove t of Inl r \<Rightarrow> if r = NotFound then Inr None else Inl IoError | Inr _ \<Rightarrow> Inr None)
                | Inr True \<Rightarrow>
                    if ct_late t
                    then Some (Inl (Message ''another diffz instance is using this state directory but is not taking requests''))
                    else None)
          else if k = InvalidInput
          then Some (bindE (ct_in_use t) (\<lambda>used.
                 if used
                 then Inl (Message ''another diffz instance is using this state directory, whose path is too long to take requests'')
                 else Inr None))
          else Some (Inl IoError))"

definition connect_loop :: "connect_turn list \<Rightarrow> (store_error + connection option) option" where
  "connect_loop = poll connect_once"

text \<open>
  The outcome, the token that is left, and the messages written.
\<close>

type_synonym sending = "(store_error + outcome) \<times> str option \<times> message list"

definition send_within :: "handoff_codec \<Rightarrow> connect_turn list \<Rightarrow> open_request option \<Rightarrow> writes \<Rightarrow> str option \<Rightarrow> sending option" where
  "send_within j turns request writes token =
     map_option (\<lambda>found.
       case found of
         Inl e \<Rightarrow> (Inl e, token, [])
       | Inr None \<Rightarrow> (Inr NotRunning, token, [])
       | Inr (Some c) \<Rightarrow>
           (case cn_timeouts c of
              Inl e \<Rightarrow> (Inl e, token, [])
            | Inr _ \<Rightarrow> (let (r, ms) = exchange j (cn_peer c) request writes token in (r, None, ms))))
       (connect_loop turns)"

section \<open>Delivering a request\<close>

text \<open>
  One turn of a wait for the state directory: whether it is in use, and whether the
  deadline has passed.
\<close>

type_synonym wait_turn = "(store_error + bool) \<times> bool"

definition free_once :: "wait_turn \<Rightarrow> (store_error + unit) option" where
  "free_once t =
     (case fst t of
        Inl e \<Rightarrow> Some (Inl e)
      | Inr False \<Rightarrow> Some (Inr ())
      | Inr True \<Rightarrow>
          if snd t then Some (Inl (Message ''the running diffz did not answer in time; try again in a moment''))
          else None)"

definition wait_free :: "wait_turn list \<Rightarrow> (store_error + unit) option" where
  "wait_free = poll free_once"

definition settle :: "outcome \<Rightarrow> wait_turn list \<Rightarrow> (store_error + delivery option) option" where
  "settle out turns =
     (case out of
        Accepted \<Rightarrow> Some (Inr (Some HandedOff))
      | Refused e \<Rightarrow> Some (Inl (Message e))
      | NotRunning \<Rightarrow> Some (Inr None)
      | Unanswered \<Rightarrow> map_option (\<lambda>r. bindE r (\<lambda>_. Inr None)) (wait_free turns))"

type_synonym listen_turn = "(io_kind + unit) \<times> bool"

definition listening_once :: "str \<Rightarrow> listen_turn \<Rightarrow> (store_error + unit) option" where
  "listening_once log t =
     (case fst t of
        Inr _ \<Rightarrow> Some (Inr ())
      | Inl k \<Rightarrow>
          if k = InvalidInput then Some (Inr ())
          else if snd t then Some (Inl (Message (''the new diffz window did not start taking requests; see '' @ log)))
          else None)"

definition wait_listening :: "str \<Rightarrow> listen_turn list \<Rightarrow> (store_error + unit) option" where
  "wait_listening log = poll (listening_once log)"

text \<open>
  What one look for a running window comes to: the messages written and the token left, with
  \<open>None\<close> while it still waits.
\<close>

record attempt =
  at_turns :: "connect_turn list"
  at_settle :: "wait_turn list"

definition try_window :: "handoff_codec \<Rightarrow> attempt \<Rightarrow> open_request option \<Rightarrow> writes \<Rightarrow> str option \<Rightarrow>
    ((store_error + delivery option) \<times> str option \<times> message list) option" where
  "try_window j a request writes token =
     Option.bind (send_within j (at_turns a) request writes token) (\<lambda>(r, token', ms).
     case r of
       Inl e \<Rightarrow> Some (Inl e, token', ms)
     | Inr out \<Rightarrow> map_option (\<lambda>d. (d, token', ms)) (settle out (at_settle a)))"

record delivery_world =
  dw_first :: attempt
  dw_private_dir :: "store_error + unit"
  dw_launch_lock :: "store_error + unit"
  dw_second :: attempt
  dw_launch :: "str option \<Rightarrow> store_error + unit"
  dw_listen :: "listen_turn list"
  dw_log :: str

text \<open>
  A finished delivery: its result, every message written and the tokens of every window started.
\<close>

record delivered =
  dl_result :: "store_error + delivery"
  dl_sent :: "message list"
  dl_launched :: "str option list"

definition launch_window :: "delivery_world \<Rightarrow> message list \<Rightarrow> str option \<Rightarrow> delivered option" where
  "launch_window w sent token =
     (case dw_launch w token of
        Inl e \<Rightarrow> Some \<lparr>dl_result = Inl e, dl_sent = sent, dl_launched = [token]\<rparr>
      | Inr _ \<Rightarrow> map_option (\<lambda>r. \<lparr>dl_result = bindE r (\<lambda>_. Inr Launched), dl_sent = sent, dl_launched = [token]\<rparr>)
          (wait_listening (dw_log w) (dw_listen w)))"

definition no_launch :: "store_error + delivery \<Rightarrow> message list \<Rightarrow> delivered" where
  "no_launch r sent = \<lparr>dl_result = r, dl_sent = sent, dl_launched = []\<rparr>"

definition deliver :: "handoff_codec \<Rightarrow> delivery_world \<Rightarrow> open_request option \<Rightarrow> writes \<Rightarrow> str option \<Rightarrow> delivered option" where
  "deliver j w request writes token =
     Option.bind (try_window j (dw_first w) request writes token) (\<lambda>(r, token', ms).
     case r of
       Inl e \<Rightarrow> Some (no_launch (Inl e) ms)
     | Inr (Some d) \<Rightarrow> Some (no_launch (Inr d) ms)
     | Inr None \<Rightarrow>
         (case bindE (dw_private_dir w) (\<lambda>_. dw_launch_lock w) of
            Inl e \<Rightarrow> Some (no_launch (Inl e) ms)
          | Inr _ \<Rightarrow>
              Option.bind (try_window j (dw_second w) request writes token') (\<lambda>(r', token'', ms').
              case r' of
                Inl e \<Rightarrow> Some (no_launch (Inl e) (ms @ ms'))
              | Inr (Some d) \<Rightarrow> Some (no_launch (Inr d) (ms @ ms'))
              | Inr None \<Rightarrow> launch_window w (ms @ ms') token'')))"

text \<open>
  A window that fails to open its store hands the request over. \<open>open_first\<close> and
  \<open>open_again\<close> are what the two attempts to open give.
\<close>

definition open_or_hand_off :: "handoff_codec \<Rightarrow> connect_turn list \<Rightarrow> open_request option \<Rightarrow> writes \<Rightarrow> str option \<Rightarrow>
    store_error + 'a \<Rightarrow> store_error + 'a \<Rightarrow> ((store_error + 'a option) \<times> str option \<times> message list) option" where
  "open_or_hand_off j turns request writes token open_first open_again =
     (case open_first of
        Inr x \<Rightarrow> Some (Inr (Some x), token, [])
      | Inl e \<Rightarrow> map_option (\<lambda>(r, token', ms).
          (bindE r (\<lambda>out. case out of
             Accepted \<Rightarrow> Inr None
           | Refused msg \<Rightarrow> Inl (Message msg)
           | NotRunning \<Rightarrow> bindE open_again (\<lambda>x. Inr (Some x))
           | Unanswered \<Rightarrow> Inl e), token', ms))
          (send_within j turns request writes token))"

section \<open>The window that listens\<close>

definition missing_write_flag :: "writes \<Rightarrow> writes \<Rightarrow> str option" where
  "missing_write_flag asked granted =
     (if w_github asked \<and> \<not> w_github granted then Some ''--allow-github-writes''
      else if w_gitlab asked \<and> \<not> w_gitlab granted then Some ''--allow-gitlab-writes''
      else None)"

definition write_refusal :: "str \<Rightarrow> str" where
  "write_refusal flag = ''the running diffz was started without '' @ flag @ ''; close it, then run diffz again with the flag''"

record incoming =
  in_request :: "open_request option"
  in_token :: "str option"

text \<open>The bytes of a reply: none when the acknowledgement cannot be encoded.\<close>

definition reply :: "handoff_codec \<Rightarrow> str option \<Rightarrow> bytes" where
  "reply j err = (case enc_ack j \<lparr>ack_version = VERSION, ack_error = err\<rparr> of None \<Rightarrow> [] | Some text \<Rightarrow> text @ [LF])"

definition accept_line :: "handoff_codec \<Rightarrow> writes \<Rightarrow> str \<Rightarrow> str + incoming" where
  "accept_line j granted line =
     (case dec_header j line of
        Inl e \<Rightarrow> Inl (unreadable e)
      | Inr v \<Rightarrow>
          if v \<noteq> VERSION
          then Inl (''the running diffz reads handoff version '' @ show_nat VERSION @ '', not '' @ show_nat v @ ''; restart it'')
          else (case dec_wire j line of
             Inl e \<Rightarrow> Inl (unreadable e)
           | Inr wi \<Rightarrow>
               (let m = message_of_wire wi in
                case missing_write_flag (m_writes m) granted of
                  Some flag \<Rightarrow> Inl (write_refusal flag)
                | None \<Rightarrow> Inr \<lparr>in_request = m_request m, in_token = m_token m\<rparr>)))"

definition accept_once :: "handoff_codec \<Rightarrow> writes \<Rightarrow> arriving \<Rightarrow> str + incoming" where
  "accept_once j granted a = accept_line j granted (case handoff_read_line a of Inl _ \<Rightarrow> [] | Inr line \<Rightarrow> line)"

text \<open>
  The loop over the connections that arrive: the replies to those it skips, and the
  first request with the connections that are left.
\<close>

fun accept_loop :: "handoff_codec \<Rightarrow> writes \<Rightarrow> arriving list \<Rightarrow> bytes list \<times> (incoming \<times> arriving list) option" where
  "accept_loop j granted [] = ([], None)"
| "accept_loop j granted (a # as) =
     (case accept_once j granted a of
        Inl e \<Rightarrow> (let (rs, r) = accept_loop j granted as in (reply j (Some e) # rs, r))
      | Inr i \<Rightarrow> ([], Some (i, as)))"

section \<open>Loops that poll\<close>

text \<open>
  The contract of a polling loop: a turn after the deadline decides it. The three loops of a
  delivery are instances.
\<close>

locale polling =
  fixes once :: "'t \<Rightarrow> 'r option" and late :: "'t \<Rightarrow> bool"
  assumes late_decides: "late t \<Longrightarrow> once t \<noteq> None"
begin

lemma poll_ends: "t \<in> set ts \<Longrightarrow> late t \<Longrightarrow> \<exists>r. poll once ts = Some r"
proof (induction ts)
  case (Cons u ts)
  then show ?case using late_decides [of t] by (cases "once u") auto
qed simp

lemma poll_decided:
  "poll once ts = Some r \<Longrightarrow> \<exists>t \<in> set ts. once t = Some r"
proof (induction ts)
  case (Cons u ts)
  then show ?case by (cases "once u") auto
qed simp

end

interpretation connecting: polling connect_once ct_late
  by unfold_locales (auto simp: connect_once_def split: sum.splits bool.splits if_splits)

interpretation freeing: polling free_once snd
  by unfold_locales (auto simp: free_once_def split: sum.splits bool.splits)

interpretation listening: polling "listening_once log" snd for log
  by unfold_locales (auto simp: listening_once_def split: sum.splits if_splits)

lemmas poll_defs = connect_loop_def wait_free_def wait_listening_def

definition attempt_bounded :: "attempt \<Rightarrow> bool" where
  "attempt_bounded a \<longleftrightarrow> (\<exists>t \<in> set (at_turns a). ct_late t) \<and> (\<exists>t \<in> set (at_settle a). snd t)"

lemma send_within_ends:
  assumes "t \<in> set turns" "ct_late t"
  shows "\<exists>x. send_within j turns request writes token = Some x"
proof -
  from connecting.poll_ends [OF assms] obtain r where "connect_loop turns = Some r" unfolding poll_defs ..
  then show ?thesis unfolding send_within_def by (simp del: split_paired_Ex)
qed

lemma settle_ends: "t \<in> set turns \<Longrightarrow> snd t \<Longrightarrow> \<exists>x. settle out turns = Some x"
  using freeing.poll_ends [of t turns] by (cases out) (simp_all add: settle_def poll_defs)

lemma try_window_ends:
  assumes "attempt_bounded a"
  shows "\<exists>x. try_window j a request writes token = Some x"
proof -
  from assms obtain t u where t: "t \<in> set (at_turns a)" "ct_late t" and u: "u \<in> set (at_settle a)" "snd u"
    by (auto simp: attempt_bounded_def)
  from send_within_ends [OF t] obtain r k ms where "send_within j (at_turns a) request writes token = Some (r, k, ms)" by (metis prod_cases3)
  with settle_ends [OF u] show ?thesis by (cases r) (auto simp: try_window_def)
qed

text \<open>A delivery returns once its waits have passed their deadlines.\<close>

lemma deliver_ends:
  assumes "attempt_bounded (dw_first w)" "attempt_bounded (dw_second w)" "t \<in> set (dw_listen w)" "snd t"
  shows "\<exists>d. deliver j w request writes token = Some d"
proof -
  obtain r k ms where 1: "try_window j (dw_first w) request writes token = Some (r, k, ms)"
    using try_window_ends [OF assms(1)] by (metis prod_cases3)
  obtain r' k' ms' where 2: "try_window j (dw_second w) request writes k = Some (r', k', ms')"
    using try_window_ends [OF assms(2)] by (metis prod_cases3)
  from listening.poll_ends [OF assms(3,4)] have "\<exists>x. launch_window w (ms @ ms') k' = Some x"
    by (auto simp: launch_window_def poll_defs split: sum.split)
  with 1 2 show ?thesis by (auto simp: deliver_def split: sum.split option.split)
qed

section \<open>What a delivery writes\<close>

lemma frame_message_cases:
  "frame_message j m = Inr (m', bs) \<Longrightarrow>
     (m' = m \<or> m' = m\<lparr>m_token := None\<rparr>) \<and> (\<exists>t. enc_message j m' = Some t \<and> bs = t @ [LF] \<and> length bs \<le> LIMIT)"
proof (induction j m rule: frame_message.induct)
  case (1 j m)
  from "1.prems" show ?case
  proof (cases "enc_message j m")
    case (Some t)
    with "1.prems" "1.IH" [OF Some] show ?thesis
      by (cases "length (t @ [LF]) \<le> LIMIT"; cases "m_token m") (auto simp: frame_message.simps [of j m])
  qed (simp add: frame_message.simps [of j m])
qed

definition carries :: "open_request option \<Rightarrow> writes \<Rightarrow> str option \<Rightarrow> message \<Rightarrow> bool" where
  "carries request writes token m \<longleftrightarrow> m_version m = VERSION \<and> m_request m = request \<and> m_writes m = writes \<and>
     (m_token m = None \<or> m_token m = token)"

lemma admit_same: "Option.bind token admit_activation_token = None \<or> Option.bind token admit_activation_token = token"
  by (cases token) (auto simp: admit_activation_token_def)

lemma first_message_carries: "carries request writes token (first_message request writes token)"
  using admit_same [of token] by (auto simp: carries_def first_message_def)

lemma handoff_frame_carries:
  assumes "handoff_frame j request writes token = Inr (m, bs)"
  shows "carries request writes token m \<and> (\<exists>t. enc_message j m = Some t \<and> bs = t @ [LF] \<and> length bs \<le> LIMIT)"
  using frame_message_cases [OF assms [unfolded handoff_frame_def]] first_message_carries [of request writes token]
  by (auto simp: carries_def)

lemma carries_tokens:
  assumes "\<forall>m \<in> set ms. carries request writes token m"
  shows "set (List.map_filter m_token ms) \<subseteq> set_option token"
proof
  fix t assume "t \<in> set (List.map_filter m_token ms)"
  then obtain m where "m \<in> set ms" "m_token m = Some t" by (auto simp: List.map_filter_def)
  with assms show "t \<in> set_option token" by (auto simp: carries_def)
qed

text \<open>
  How one look changes the token: either nothing was written and it is kept, or it is gone and at most one
  message was written.
\<close>

definition spends :: "open_request option \<Rightarrow> writes \<Rightarrow> str option \<Rightarrow> str option \<Rightarrow> message list \<Rightarrow> bool" where
  "spends request writes token token' ms \<longleftrightarrow>
     token' = token \<and> ms = [] \<or>
     token' = None \<and> length ms \<le> 1 \<and> (\<forall>m \<in> set ms. carries request writes token m)"

lemma exchange_writes:
  assumes "exchange j peer request writes token = (r, ms)"
  shows "length ms \<le> 1 \<and> (\<forall>m \<in> set ms. carries request writes token m)"
proof (cases "handoff_frame j request writes token")
  case (Inr p)
  with assms handoff_frame_carries [of j request writes token "fst p" "snd p"] show ?thesis
    by (cases p) (auto simp: exchange_def)
qed (use assms in \<open>auto simp: exchange_def\<close>)

lemma send_within_cases:
  assumes "send_within j turns request writes token = Some (r, token', ms)"
  obtains (kept) "token' = token" "ms = []" "(\<exists>e. r = Inl e) \<or> r = Inr NotRunning \<and> connect_loop turns = Some (Inr None)"
  | (sent) c where "connect_loop turns = Some (Inr (Some c))" "exchange j (cn_peer c) request writes token = (r, ms)" "token' = None"
proof -
  from assms obtain f where f: "connect_loop turns = Some f" by (auto simp: send_within_def)
  show thesis
  proof (cases f)
    case (Inr x)
    show ?thesis
    proof (cases x)
      case (Some c)
      with f Inr assms show ?thesis
        by (cases "cn_timeouts c"; cases "exchange j (cn_peer c) request writes token")
          (auto simp: send_within_def intro: kept sent)
    qed (use f Inr assms in \<open>auto simp: send_within_def intro: kept\<close>)
  qed (use f assms in \<open>auto simp: send_within_def intro: kept\<close>)
qed

lemma send_within_spends:
  assumes "send_within j turns request writes token = Some (r, token', ms)"
  shows "spends request writes token token' ms"
  using assms
proof (cases rule: send_within_cases)
  case (sent c)
  then show ?thesis using exchange_writes [OF sent(2)] by (simp add: spends_def)
qed (simp add: spends_def)

lemma try_window_sends:
  assumes "try_window j a request writes token = Some (r, token', ms)"
  obtains (failed) e where "send_within j (at_turns a) request writes token = Some (Inl e, token', ms)" "r = Inl e"
  | (settled) out where "send_within j (at_turns a) request writes token = Some (Inr out, token', ms)" "settle out (at_settle a) = Some r"
proof -
  from assms obtain r0 k ms0 where s: "send_within j (at_turns a) request writes token = Some (r0, k, ms0)"
    and c: "(case r0 of Inl e \<Rightarrow> Some (Inl e, k, ms0) | Inr out \<Rightarrow> map_option (\<lambda>d. (d, k, ms0)) (settle out (at_settle a)))
      = Some (r, token', ms)"
    by (auto simp: try_window_def Option.bind_eq_Some_conv)
  then show thesis by (cases r0) (auto intro: failed settled)
qed

lemma try_window_spends:
  assumes "try_window j a request writes token = Some (r, token', ms)"
  shows "spends request writes token token' ms"
  using assms by (cases rule: try_window_sends) (simp_all add: send_within_spends)

lemma spends_twice:
  assumes "spends request writes token k ms" "spends request writes k k' ms'"
  shows "length (ms @ ms') \<le> 2" "\<forall>m \<in> set (ms @ ms'). carries request writes token m"
    "length (List.map_filter m_token (ms @ ms')) + (if k' = None then 0 else 1) \<le> 1"
    "k' = None \<or> k' = token"
  using assms by (auto simp: spends_def carries_def List.map_filter_def length_Suc_conv le_Suc_eq split: if_splits)

lemma launch_window_result:
  "launch_window w sent token = Some d \<Longrightarrow>
     dl_sent d = sent \<and> dl_launched d = [token] \<and>
     (dl_result d = Inr Launched \<and> dw_launch w token = Inr () \<or> (\<exists>e. dl_result d = Inl e))"
proof (cases "dw_launch w token")
  case (Inr u)
  assume "launch_window w sent token = Some d"
  with Inr obtain r where "wait_listening (dw_log w) (dw_listen w) = Some r"
    "d = \<lparr>dl_result = bindE r (\<lambda>_. Inr Launched), dl_sent = sent, dl_launched = [token]\<rparr>"
    by (auto simp: launch_window_def)
  then show ?thesis using Inr by (cases r) auto
qed (auto simp: launch_window_def)

text \<open>Every finished delivery, by what became of its two looks.\<close>

lemma deliver_cases:
  assumes "deliver j w request writes token = Some d"
  obtains (first) r k where "try_window j (dw_first w) request writes token = Some (r, k, dl_sent d)" "dl_launched d = []"
      "r = map_sum id Some (dl_result d) \<or> (\<exists>e. r = Inr None \<and> dl_result d = Inl e)"
  | (second) k ms r ms' k' where "try_window j (dw_first w) request writes token = Some (Inr None, k, ms)"
      "try_window j (dw_second w) request writes k = Some (r, k', ms')" "dl_sent d = ms @ ms'" "dl_launched d = []"
      "r = map_sum id Some (dl_result d)"
  | (launch) k ms ms' k' where "try_window j (dw_first w) request writes token = Some (Inr None, k, ms)"
      "try_window j (dw_second w) request writes k = Some (Inr None, k', ms')" "dl_sent d = ms @ ms'" "dl_launched d = [k']"
      "dl_result d = Inr Launched \<and> dw_launch w k' = Inr () \<or> (\<exists>e. dl_result d = Inl e)"
proof -
  from assms obtain r k ms where t: "try_window j (dw_first w) request writes token = Some (r, k, ms)"
    and d: "Some d = (case r of Inl e \<Rightarrow> Some (no_launch (Inl e) ms) | Inr (Some x) \<Rightarrow> Some (no_launch (Inr x) ms)
      | Inr None \<Rightarrow> (case bindE (dw_private_dir w) (\<lambda>_. dw_launch_lock w) of
            Inl e \<Rightarrow> Some (no_launch (Inl e) ms)
          | Inr _ \<Rightarrow>
              Option.bind (try_window j (dw_second w) request writes k) (\<lambda>(r', token'', ms').
              case r' of
                Inl e \<Rightarrow> Some (no_launch (Inl e) (ms @ ms'))
              | Inr (Some d) \<Rightarrow> Some (no_launch (Inr d) (ms @ ms'))
              | Inr None \<Rightarrow> launch_window w (ms @ ms') token'')))"
    by (auto simp: deliver_def Option.bind_eq_Some_conv)
  show thesis
  proof (cases "\<exists>x. r = Inr None \<and> bindE (dw_private_dir w) (\<lambda>_. dw_launch_lock w) = Inr x")
    case False
    with d have "dl_sent d = ms \<and> dl_launched d = [] \<and>
        (r = map_sum id Some (dl_result d) \<or> (\<exists>e. r = Inr None \<and> dl_result d = Inl e))"
      by (auto simp: no_launch_def split: sum.splits option.splits)
    with t show ?thesis using first by blast
  next
    case True
    then obtain x where r: "r = Inr None" "bindE (dw_private_dir w) (\<lambda>_. dw_launch_lock w) = Inr x" by blast
    with d have "Some d = Option.bind (try_window j (dw_second w) request writes k) (\<lambda>(r', token'', ms').
              case r' of
                Inl e \<Rightarrow> Some (no_launch (Inl e) (ms @ ms'))
              | Inr (Some d) \<Rightarrow> Some (no_launch (Inr d) (ms @ ms'))
              | Inr None \<Rightarrow> launch_window w (ms @ ms') token'')" by simp
    then obtain r' k' ms' where t': "try_window j (dw_second w) request writes k = Some (r', k', ms')"
      and d': "Some d = (case r' of
                Inl e \<Rightarrow> Some (no_launch (Inl e) (ms @ ms'))
              | Inr (Some d) \<Rightarrow> Some (no_launch (Inr d) (ms @ ms'))
              | Inr None \<Rightarrow> launch_window w (ms @ ms') k')"
      by (cases "try_window j (dw_second w) request writes k") auto
    show ?thesis
    proof (cases "r' = Inr None")
      case True
      with d' have "dl_sent d = ms @ ms' \<and> dl_launched d = [k'] \<and>
          (dl_result d = Inr Launched \<and> dw_launch w k' = Inr () \<or> (\<exists>e. dl_result d = Inl e))"
        using launch_window_result [of w "ms @ ms'" k' d] by simp
      with t r(1) t' True show ?thesis using launch by blast
    next
      case False
      with d' have "dl_sent d = ms @ ms' \<and> dl_launched d = [] \<and> r' = map_sum id Some (dl_result d)"
        by (auto simp: no_launch_def split: sum.splits option.splits)
      with t r(1) t' show ?thesis using second by blast
    qed
  qed
qed

section \<open>When a window is started\<close>

definition seen_free :: "attempt \<Rightarrow> bool" where
  "seen_free a \<longleftrightarrow> (\<exists>t \<in> set (at_turns a). (\<exists>k. ct_connect t = Inl k) \<and> ct_in_use t = Inr False) \<or>
     (\<exists>t \<in> set (at_settle a). fst t = Inr False)"

lemma connect_once_nothing: "connect_once t = Some (Inr None) \<Longrightarrow> (\<exists>k. ct_connect t = Inl k) \<and> ct_in_use t = Inr False"
  by (auto simp: connect_once_def bindE_def split: sum.splits bool.splits if_splits)

lemma connect_once_found: "connect_once t = Some (Inr (Some c)) \<Longrightarrow> ct_connect t = Inr c"
  by (auto simp: connect_once_def bindE_def split: sum.splits bool.splits if_splits)

lemma free_once_free: "free_once t = Some (Inr u) \<Longrightarrow> fst t = Inr False"
  by (auto simp: free_once_def split: sum.splits bool.splits if_splits)

lemma exchange_not_running: "exchange j peer request writes token \<noteq> (Inr NotRunning, ms)"
  by (auto simp: exchange_def read_outcome_def bindE_def okE_def split: sum.splits option.splits if_splits prod.splits)

lemma settle_none:
  assumes "settle out turns = Some (Inr None)"
  shows "out = NotRunning \<or> (\<exists>t \<in> set turns. fst t = Inr False)"
proof (cases out)
  case Unanswered
  with assms obtain u where "wait_free turns = Some (Inr u)" by (auto simp: settle_def bind_simps)
  then show ?thesis using freeing.poll_decided [of turns] free_once_free unfolding poll_defs by blast
qed (use assms in \<open>auto simp: settle_def\<close>)

lemma try_window_free:
  assumes "try_window j a request writes token = Some (Inr None, token', ms)"
  shows "seen_free a"
  using assms
proof (cases rule: try_window_sends)
  case (settled out)
  then consider "out = NotRunning" | "\<exists>t \<in> set (at_settle a). fst t = Inr False" using settle_none by blast
  then show ?thesis
  proof cases
    case 1
    from settled(1) show ?thesis
    proof (cases rule: send_within_cases)
      case kept
      with 1 have "connect_loop (at_turns a) = Some (Inr None)" by simp
      then show ?thesis using connecting.poll_decided [of "at_turns a"] connect_once_nothing
        unfolding poll_defs seen_free_def by blast
    next
      case (sent c)
      with 1 show ?thesis using exchange_not_running by simp
    qed
  qed (simp add: seen_free_def)
qed simp

text \<open>
  A request was taken: a window it connected to acknowledged the frame without an error.
\<close>

definition taken_by :: "handoff_codec \<Rightarrow> attempt \<Rightarrow> message \<Rightarrow> bool" where
  "taken_by j a m \<longleftrightarrow> (\<exists>t \<in> set (at_turns a). \<exists>c text line ack. ct_connect t = Inr c \<and> enc_message j m = Some text \<and>
     cn_peer c (text @ [LF]) = Inr line \<and> dec_ack j line = Some ack \<and> ack_error ack = None)"

lemma exchange_accepted:
  assumes "exchange j peer request writes token = (Inr Accepted, ms)"
  obtains m t line a where "ms = [m]" "enc_message j m = Some t" "peer (t @ [LF]) = Inr line" "dec_ack j line = Some a" "ack_error a = None"
proof -
  from assms obtain m bs where f: "handoff_frame j request writes token = Inr (m, bs)" and ms: "ms = [m]"
    and r: "read_outcome j (peer bs) = Inr Accepted"
    by (auto simp: exchange_def split: sum.splits)
  from r obtain line a where "peer bs = Inr line" "dec_ack j line = Some a" "ack_error a = None"
    by (auto simp: read_outcome_def bind_simps split: sum.splits if_splits option.splits)
  with handoff_frame_carries [OF f] ms that show thesis by blast
qed

lemma settle_handed: "settle out turns = Some (Inr (Some x)) \<Longrightarrow> out = Accepted \<and> x = HandedOff"
  by (cases out) (auto simp: settle_def bind_simps)

lemma try_window_taken:
  assumes "try_window j a request writes token = Some (Inr (Some x), token', ms)"
  shows "x = HandedOff \<and> (\<exists>m. ms = [m] \<and> taken_by j a m)"
  using assms
proof (cases rule: try_window_sends)
  case (settled out)
  then have out: "out = Accepted" "x = HandedOff" using settle_handed by blast+
  from settled(1) show ?thesis
  proof (cases rule: send_within_cases)
    case (sent c)
    from connecting.poll_decided [OF sent(1) [unfolded poll_defs]] connect_once_found
    obtain t where t: "t \<in> set (at_turns a)" "ct_connect t = Inr c" by blast
    from exchange_accepted [OF sent(2) [unfolded out]] t show ?thesis
      unfolding taken_by_def using out(2) by metis
  qed (use out in auto)
qed simp

lemma deliver_handed:
  assumes "deliver j w request writes token = Some d" "dl_result d = Inr HandedOff"
  obtains ms m where "dl_sent d = ms @ [m]" "dl_launched d = []" "m_request m = request" "m_writes m = writes"
    "taken_by j (dw_first w) m \<or> taken_by j (dw_second w) m"
  using assms(1)
proof (cases rule: deliver_cases)
  case (first r k)
  then have r: "try_window j (dw_first w) request writes token = Some (Inr (Some HandedOff), k, dl_sent d)" using assms(2) by auto
  from try_window_taken [OF r] try_window_spends [OF r] first(2) that [of "[]"] show thesis
    by (auto simp: spends_def carries_def)
next
  case (second k ms r ms' k')
  then have r: "try_window j (dw_second w) request writes k = Some (Inr (Some HandedOff), k', ms')" using assms(2) by auto
  from try_window_taken [OF r] try_window_spends [OF r] second(3,4) that [of ms] show thesis
    by (auto simp: spends_def carries_def)
next
  case (launch k ms ms' k')
  with assms(2) show thesis by auto
qed

lemma deliver_launched:
  assumes "deliver j w request writes token = Some d" "dl_result d = Inr Launched"
  obtains k where "dl_launched d = [k]" "dw_launch w k = Inr ()"
  using assms(1)
proof (cases rule: deliver_cases)
  case (first r k)
  then have "try_window j (dw_first w) request writes token = Some (Inr (Some Launched), k, dl_sent d)" using assms(2) by auto
  from try_window_taken [OF this] show thesis by simp
next
  case (second k ms r ms' k')
  then have "try_window j (dw_second w) request writes k = Some (Inr (Some Launched), k', ms')" using assms(2) by auto
  from try_window_taken [OF this] show thesis by simp
next
  case (launch k ms ms' k')
  with assms(2) that show thesis by auto
qed

section \<open>Both ends together\<close>

text \<open>
  What serde gives: a text is one line of UTF-8 and reads back as what was written.
\<close>

definition reads_back :: "handoff_codec \<Rightarrow> bool" where
  "reads_back j \<longleftrightarrow>
     (\<forall>m t. enc_message j m = Some t \<longrightarrow> LF \<notin> set t \<and> valid_utf8 t \<and> dec_header j (t @ [LF]) = Inr (m_version m) \<and>
        dec_wire j (t @ [LF]) = Inr \<lparr>wi_version = m_version m, wi_request = m_request m, wi_writes = Some (m_writes m),
          wi_token = map_option TokenString (m_token m)\<rparr>) \<and>
     (\<forall>a t. enc_ack j a = Some t \<longrightarrow> LF \<notin> set t \<and> valid_utf8 t \<and> dec_ack j (t @ [LF]) = Some a)"

text \<open>
  A window started with the permissions \<open>granted\<close>, as the peer of an exchange: it accepts the
  frame and replies, with the error that \<open>answer\<close> gives for a request it accepts.
\<close>

definition window_peer :: "handoff_codec \<Rightarrow> writes \<Rightarrow> (incoming \<Rightarrow> str option) \<Rightarrow> peer" where
  "window_peer j granted answer bs =
     handoff_read_line (reply j (case accept_once j granted (bs, None) of Inl e \<Rightarrow> Some e | Inr i \<Rightarrow> answer i), None)"

lemma read_line_back:
  assumes "LF \<notin> set t" "valid_utf8 t" "length t < LIMIT"
  shows "handoff_read_line (t @ [LF], k) = Inr (t @ [LF])"
proof -
  from assms(3) have "take LIMIT (t @ [LF]) = t @ [LF]" by simp
  moreover have "takeWhile (\<lambda>c. c \<noteq> LF) (t @ [LF]) = t" using assms(1) by (induction t) auto
  moreover have "valid_utf8 (t @ [LF])" by (rule valid_utf8_append [OF assms(2)]) (simp add: ascii_valid_utf8)
  ultimately show ?thesis by (simp add: handoff_read_line_def Let_def)
qed

lemma admit_idem: "Option.bind token admit_activation_token = Some t \<Longrightarrow> admit_activation_token t = Some t"
  by (cases token) (auto simp: admit_activation_token_def split: if_splits)

lemma handoff_frame_token:
  assumes "handoff_frame j request writes token = Inr (m, bs)"
  shows "optional_activation_token (map_option TokenString (m_token m)) = m_token m"
proof -
  have *: "m_token m = None \<or> m_token m = Option.bind token admit_activation_token"
    using frame_message_cases [OF assms [unfolded handoff_frame_def]] by (auto simp: first_message_def)
  show ?thesis
  proof (cases "m_token m")
    case (Some t)
    with * have "Option.bind token admit_activation_token = Some t" by auto
    from admit_idem [OF this] Some show ?thesis by (simp add: optional_activation_token_def)
  qed (simp add: optional_activation_token_def)
qed

lemma accept_frame:
  assumes "reads_back j" "handoff_frame j request writes token = Inr (m, bs)"
  shows "accept_once j granted (bs, None) =
    (case missing_write_flag writes granted of Some flag \<Rightarrow> Inl (write_refusal flag)
     | None \<Rightarrow> Inr \<lparr>in_request = request, in_token = m_token m\<rparr>)"
proof -
  from handoff_frame_carries [OF assms(2)] obtain t where m: "carries request writes token m"
    and t: "enc_message j m = Some t" "bs = t @ [LF]" "length t < LIMIT" by (auto simp: Suc_le_eq)
  with assms(1) have "LF \<notin> set t" "valid_utf8 t" and d: "dec_header j bs = Inr (m_version m)"
      "dec_wire j bs = Inr \<lparr>wi_version = m_version m, wi_request = m_request m, wi_writes = Some (m_writes m),
          wi_token = map_option TokenString (m_token m)\<rparr>"
    by (auto simp: reads_back_def)
  with t have "handoff_read_line (bs, None) = Inr bs" using read_line_back by blast
  with d m handoff_frame_token [OF assms(2)] show ?thesis
    by (simp add: accept_once_def accept_line_def message_of_wire_def carries_def Let_def split: option.split)
qed

section \<open>A concrete codec and world\<close>

definition sample_message :: "str option \<Rightarrow> message" where
  "sample_message token = \<lparr>m_version = VERSION, m_request = Some (OpenFixture ''F01''), m_writes = \<lparr>w_github = True, w_gitlab = False\<rparr>, m_token = token\<rparr>"

definition sample_refusal :: str where
  "sample_refusal = write_refusal ''--allow-github-writes''"

definition sample_handoff :: handoff_codec where
  "sample_handoff = \<lparr>
     enc_message = (\<lambda>m. if m = sample_message None then Some ''m'' else if m = sample_message (Some ''tok'') then Some ''t'' else None),
     dec_header = (\<lambda>_. Inr VERSION),
     dec_wire = (\<lambda>line. Inr \<lparr>wi_version = VERSION, wi_request = Some (OpenFixture ''F01''),
       wi_writes = Some \<lparr>w_github = True, w_gitlab = False\<rparr>,
       wi_token = (if line = ''t'' @ [LF] then Some (TokenString ''tok'') else None)\<rparr>),
     enc_ack = (\<lambda>a. if a = \<lparr>ack_version = VERSION, ack_error = None\<rparr> then Some ''ok''
       else if a = \<lparr>ack_version = VERSION, ack_error = Some sample_refusal\<rparr> then Some ''no'' else None),
     dec_ack = (\<lambda>line. Some \<lparr>ack_version = VERSION, ack_error = (if line = ''no'' @ [LF] then Some sample_refusal else None)\<rparr>)\<rparr>"

lemma sample_handoff_reads_back: "reads_back sample_handoff"
  by (auto simp: reads_back_def sample_handoff_def sample_message_def ascii_valid_utf8 split: if_splits)

definition nobody :: attempt where
  "nobody = \<lparr>at_turns = [\<lparr>ct_connect = Inl NotFound, ct_in_use = Inr False, ct_remove = Inl NotFound, ct_late = False\<rparr>], at_settle = []\<rparr>"

definition somebody :: attempt where
  "somebody = \<lparr>at_turns =
     [\<lparr>ct_connect = Inl ConnectionRefused, ct_in_use = Inr True, ct_remove = Inr (), ct_late = False\<rparr>,
      \<lparr>ct_connect = Inr \<lparr>cn_timeouts = Inr (), cn_peer = \<lambda>_. Inr (''ok'' @ [LF])\<rparr>, ct_in_use = Inr True, ct_remove = Inr (), ct_late = False\<rparr>],
     at_settle = []\<rparr>"

definition sample_delivery :: "attempt \<Rightarrow> delivery_world" where
  "sample_delivery second = \<lparr>dw_first = nobody, dw_private_dir = Inr (), dw_launch_lock = Inr (), dw_second = second,
     dw_launch = \<lambda>_. Inr (), dw_listen = [(Inl NotFound, False), (Inr (), False)], dw_log = ''diffz.log''\<rparr>"

lemmas sample_handoff_simps = sample_handoff_def sample_message_def nobody_def somebody_def sample_delivery_def
  first_message_def admit_activation_token_def VERSION_def LIMIT_def ACTIVATION_TOKEN_LIMIT_def handoff_frame_def frame_message.simps

lemma sample_frame:
  "handoff_frame sample_handoff (Some (OpenFixture ''F01'')) \<lparr>w_github = True, w_gitlab = False\<rparr> (Some ''tok'') =
     Inr (sample_message (Some ''tok''), ''t'' @ [LF])"
  by (simp add: sample_handoff_simps)

lemma sample_launched:
  "deliver sample_handoff (sample_delivery nobody) (Some (OpenFixture ''F01'')) \<lparr>w_github = True, w_gitlab = False\<rparr> (Some ''tok'') =
     Some \<lparr>dl_result = Inr Launched, dl_sent = [], dl_launched = [Some ''tok'']\<rparr>"
  by (simp add: deliver_def try_window_def send_within_def connect_loop_def connect_once_def settle_def launch_window_def
    wait_listening_def listening_once_def nobody_def sample_delivery_def)

lemma sample_handed:
  "deliver sample_handoff (sample_delivery somebody) (Some (OpenFixture ''F01'')) \<lparr>w_github = True, w_gitlab = False\<rparr> (Some ''tok'') =
     Some \<lparr>dl_result = Inr HandedOff, dl_sent = [sample_message (Some ''tok'')], dl_launched = []\<rparr>"
  by (simp add: deliver_def try_window_def send_within_def connect_loop_def connect_once_def settle_def
    nobody_def somebody_def sample_delivery_def exchange_def sample_frame no_launch_def read_outcome_def)
    (simp add: sample_handoff_def settle_def no_launch_def)

section \<open>Properties\<close>

text \<open>
  Claim C22. An activation token is used at most once. Whatever the sockets, locks and
  windows answer, a finished delivery has written at most two messages and started at most
  one window; at most one of these carried a token, which is the token of the
  invocation, and every message carries exactly the request and the write permissions asked for.
\<close>

theorem deliver_token_once:
  assumes "deliver j w request writes token = Some d"
  shows "length (dl_sent d) \<le> 2 \<and> length (dl_launched d) \<le> 1 \<and>
    length (List.map_filter m_token (dl_sent d) @ List.map_filter id (dl_launched d)) \<le> 1 \<and>
    set (List.map_filter m_token (dl_sent d) @ List.map_filter id (dl_launched d)) \<subseteq> set_option token \<and>
    (\<forall>m \<in> set (dl_sent d). m_version m = VERSION \<and> m_request m = request \<and> m_writes m = writes)"
proof -
  have *: "length ms \<le> 2 \<and> length (List.map_filter m_token ms @ List.map_filter id ls) \<le> 1 \<and>
      set (List.map_filter m_token ms @ List.map_filter id ls) \<subseteq> set_option token \<and>
      (\<forall>m \<in> set ms. m_version m = VERSION \<and> m_request m = request \<and> m_writes m = writes)"
    if "spends request writes token k us" "spends request writes k k' vs" "ms = us @ vs" "ls = [] \<or> ls = [k']" for k us k' vs ms ls
    using spends_twice [OF that(1,2)] carries_tokens [of "us @ vs" request writes token] that(3,4)
    by (cases k') (auto simp: carries_def split: if_splits)
  have nil: "spends request writes k k []" for k by (simp add: spends_def)
  from assms show ?thesis
  proof (cases rule: deliver_cases)
    case (first r k)
    then show ?thesis using * [OF try_window_spends [OF first(1)] nil, of "dl_sent d" "[]"] by simp
  next
    case (second k ms r ms' k')
    then show ?thesis using * [OF try_window_spends [OF second(1)] try_window_spends [OF second(2)] second(3), of "[]"] by simp
  next
    case (launch k ms ms' k')
    then show ?thesis using * [OF try_window_spends [OF launch(1)] try_window_spends [OF launch(2)] launch(3), of "[k']"] by simp
  qed
qed

theorem deliver_token_once_witness:
  "length (List.map_filter m_token [sample_message (Some ''tok'')] @ List.map_filter id ([] :: str option list)) \<le> 1 \<and>
   set (List.map_filter m_token [sample_message (Some ''tok'')]) \<subseteq> {''tok''}"
  using deliver_token_once [OF sample_handed] by simp

text \<open>
  A window is started only while none runs, and a request counts as handed off
  only when a window took it. When a delivery starts a window, each of its
  two looks, the second under the launch lock, has found the state
  directory free; it reports a start only then. When it reports that the request was
  handed off, no window was started and a window acknowledged the last message written.
\<close>

theorem deliver_launches_alone:
  assumes "deliver j w request writes token = Some d"
  shows "(dl_launched d \<noteq> [] \<longrightarrow> seen_free (dw_first w) \<and> seen_free (dw_second w)) \<and>
    (dl_result d = Inr Launched \<longrightarrow> dl_launched d \<noteq> []) \<and>
    (dl_result d = Inr HandedOff \<longrightarrow> dl_launched d = [] \<and> dl_sent d \<noteq> [] \<and>
       (taken_by j (dw_first w) (last (dl_sent d)) \<or> taken_by j (dw_second w) (last (dl_sent d))))"
proof -
  have "seen_free (dw_first w) \<and> seen_free (dw_second w)" if "dl_launched d \<noteq> []"
    using assms
  proof (cases rule: deliver_cases)
    case (launch k ms ms' k')
    then show ?thesis using try_window_free by blast
  qed (use that in simp_all)
  moreover have "dl_launched d \<noteq> []" if "dl_result d = Inr Launched"
    by (rule deliver_launched [OF assms that]) simp
  moreover have "dl_launched d = [] \<and> dl_sent d \<noteq> [] \<and>
      (taken_by j (dw_first w) (last (dl_sent d)) \<or> taken_by j (dw_second w) (last (dl_sent d)))"
    if "dl_result d = Inr HandedOff"
    by (rule deliver_handed [OF assms that]) simp
  ultimately show ?thesis by blast
qed

theorem deliver_launches_alone_witness:
  "seen_free nobody \<and> taken_by sample_handoff somebody (sample_message (Some ''tok''))"
proof -
  have "\<not> taken_by sample_handoff nobody m" for m by (simp add: taken_by_def nobody_def)
  with deliver_launches_alone [OF sample_launched] deliver_launches_alone [OF sample_handed] show ?thesis
    by (simp add: sample_delivery_def)
qed

text \<open>
  A frame is one line of at most 65536 bytes that holds the whole request. It exists
  exactly when the request without a token can be encoded within that limit or with
  its token can; a token that does not fit is dropped, never the request.
\<close>

theorem handoff_frame_bounded:
  "(case handoff_frame j request writes token of
      Inr (m, bs) \<Rightarrow> length bs \<le> LIMIT \<and> (\<exists>t. enc_message j m = Some t \<and> bs = t @ [LF]) \<and>
        m_request m = request \<and> m_writes m = writes \<and>
        (m_token m = Option.bind token admit_activation_token \<or>
         m_token m = None \<and> (\<exists>t. enc_message j (first_message request writes token) = Some t \<and> LIMIT \<le> length t))
    | Inl e \<Rightarrow> \<not> (\<exists>t. enc_message j (first_message request writes token) = Some t \<and> length t < LIMIT) \<and>
        (enc_message j (first_message request writes token) = None \<or>
         \<not> (\<exists>t. enc_message j (first_message request writes None) = Some t \<and> length t < LIMIT)))"
proof -
  let ?m = "first_message request writes token" and ?n = "first_message request writes None"
  have n: "?m\<lparr>m_token := None\<rparr> = ?n" "m_request ?m = request" "m_writes ?m = writes"
      "m_token ?m = Option.bind token admit_activation_token" "m_request ?n = request" "m_writes ?n = writes" "m_token ?n = None"
    by (simp_all add: first_message_def)
  have last: "frame_message j ?n = (case enc_message j ?n of None \<Rightarrow> Inl (Message ''could not encode handoff request'')
      | Some t \<Rightarrow> if length t < LIMIT then Inr (?n, t @ [LF]) else Inl (Message ''handoff request exceeds the 65536-byte frame limit''))"
    by (subst frame_message.simps) (simp add: first_message_def Suc_le_eq split: option.split)
  show ?thesis
  proof (cases "enc_message j ?m")
    case (Some t)
    have m_none: "?m = ?n" if "Option.bind token admit_activation_token = None" using that by (simp add: first_message_def)
    show ?thesis
    proof (cases "length t < LIMIT \<or> m_token ?m = None")
      case True
      with Some show ?thesis
        by (cases "length t < LIMIT") (auto simp: handoff_frame_def frame_message.simps [of j ?m] Suc_le_eq n m_none last)
    next
      case False
      with Some have "handoff_frame j request writes token = frame_message j ?n"
        by (auto simp: handoff_frame_def frame_message.simps [of j ?m] n(1) Suc_le_eq)
      with False Some show ?thesis by (auto simp: last n split: option.split)
    qed
  qed (simp add: handoff_frame_def frame_message.simps [of j ?m])
qed

theorem handoff_frame_bounded_witness:
  "case handoff_frame sample_handoff (Some (OpenFixture ''F01'')) \<lparr>w_github = True, w_gitlab = False\<rparr> (Some ''tok'') of
     Inl _ \<Rightarrow> False | Inr (m, bs) \<Rightarrow> length bs \<le> LIMIT \<and> m_request m = Some (OpenFixture ''F01'')"
  using handoff_frame_bounded [of sample_handoff "Some (OpenFixture ''F01'')" "\<lparr>w_github = True, w_gitlab = False\<rparr>" "Some ''tok''"]
  by (simp add: sample_frame)

text \<open>
  Claim C23. A request that reaches a running window arrives as it was sent, and the sender
  learns what became of it. With texts that read back and an acknowledgement within the frame limit, the
  window gets exactly the request and the admitted token of the frame unless the sender asks for a write
  permission that the window does not have, in which case the request is never accepted, and the outcome of the exchange is the answer of the window: a
  refusal that names the missing flag, the window's own error, or acceptance.
\<close>

theorem handoff_roundtrip:
  assumes "reads_back j" "handoff_frame j request writes token = Inr (m, bs)"
    and "err = (case missing_write_flag writes granted of Some flag \<Rightarrow> Some (write_refusal flag)
      | None \<Rightarrow> answer \<lparr>in_request = request, in_token = m_token m\<rparr>)"
    and "enc_ack j \<lparr>ack_version = VERSION, ack_error = err\<rparr> = Some t" "length t < LIMIT"
  shows "exchange j (window_peer j granted answer) request writes token =
    (Inr (case err of None \<Rightarrow> Accepted | Some e \<Rightarrow> Refused e), [m]) \<and>
    (err = None \<longrightarrow> (w_github writes \<longrightarrow> w_github granted) \<and> (w_gitlab writes \<longrightarrow> w_gitlab granted)) \<and>
    ((w_github writes \<longrightarrow> w_github granted) \<and> (w_gitlab writes \<longrightarrow> w_gitlab granted) \<longrightarrow>
       err = answer \<lparr>in_request = request, in_token = m_token m\<rparr>)"
proof -
  have "(case accept_once j granted (bs, None) of Inl e \<Rightarrow> Some e | Inr i \<Rightarrow> answer i) = err"
    unfolding accept_frame [OF assms(1,2)] assms(3) by (simp split: option.split)
  moreover have "reply j err = t @ [LF]" using assms(4) by (simp add: reply_def)
  ultimately have "window_peer j granted answer bs = Inr (t @ [LF])"
    using assms(1,4,5) read_line_back [of t None] by (simp add: window_peer_def reads_back_def)
  moreover have "dec_ack j (t @ [LF]) = Some \<lparr>ack_version = VERSION, ack_error = err\<rparr>"
    using assms(1,4) by (simp add: reads_back_def)
  ultimately have "exchange j (window_peer j granted answer) request writes token =
      (Inr (case err of None \<Rightarrow> Accepted | Some e \<Rightarrow> Refused e), [m])"
    using assms(2) by (simp add: exchange_def read_outcome_def)
  moreover have "missing_write_flag writes granted = None \<longleftrightarrow> (w_github writes \<longrightarrow> w_github granted) \<and> (w_gitlab writes \<longrightarrow> w_gitlab granted)"
    by (auto simp: missing_write_flag_def)
  ultimately show ?thesis using assms(3) by (auto split: option.splits)
qed

theorem handoff_roundtrip_witness:
  "exchange sample_handoff (window_peer sample_handoff default_writes (\<lambda>_. None)) (Some (OpenFixture ''F01''))
     \<lparr>w_github = True, w_gitlab = False\<rparr> (Some ''tok'') = (Inr (Refused sample_refusal), [sample_message (Some ''tok'')])"
  using handoff_roundtrip [OF sample_handoff_reads_back sample_frame, where err = "Some sample_refusal" and granted = default_writes
    and answer = "\<lambda>_. None" and t = "''no''"]
  by (simp add: missing_write_flag_def default_writes_def sample_refusal_def sample_handoff_def LIMIT_def)

end
