(* ===== verification/Cli.thy ===== *)
theory Cli
  imports Handoff
begin

text \<open>
  The command line, \<open>crates/app/src/main.rs\<close>: the options of an invocation, the arguments that start a
  window in the background, and the choice between printing, inspecting, handing off and opening
  a window. An argument is the bytes the operating system gives; an option name or a textual value must be
  UTF-8. The working directory and the file system are arguments. Failures are
  their messages.
\<close>

section \<open>Options\<close>

record options =
  opt_request :: "open_request option"
  opt_state :: "os_string option"
  opt_writes :: bool
  opt_gitlab_writes :: bool
  opt_inspect :: bool
  opt_foreground :: bool
  opt_json :: bool
  opt_font :: "str option"
  opt_theme :: "str option"
  opt_probe :: "os_string option"
  opt_probe_output :: "os_string option"

text \<open>
  What the command line needs of its surroundings: the URL parser, the debug form of a
  text, files, and the absolute form of a path.
\<close>

record surroundings =
  su_url :: url_parser
  su_debug :: "os_string \<Rightarrow> str"
  su_is_file :: "os_string \<Rightarrow> bool"
  su_exists :: "os_string \<Rightarrow> bool"
  su_absolute :: "os_string \<Rightarrow> str + os_string"

definition text_argument :: "os_string \<Rightarrow> str \<Rightarrow> str + str" where
  "text_argument value flag = (if valid_utf8 value then Inr value else Inl (''value after '' @ flag @ '' must be valid UTF-8''))"

definition set_source :: "open_request option \<Rightarrow> open_request \<Rightarrow> str + open_request option" where
  "set_source source request = (if source \<noteq> None then Inl ''pass a single source per launch'' else Inr (Some request))"

definition ENTIRE_COMPARE :: str where
  "ENTIRE_COMPARE = ''Entire compare URLs are not supported; use --trail with an Entire Trail URL''"

definition entire_host :: "str \<Rightarrow> bool" where
  "entire_host host \<longleftrightarrow> host = ''entire.com'' \<or> host = ''entire.io''"

definition compare_request :: "surroundings \<Rightarrow> str \<Rightarrow> str + open_request" where
  "compare_request su address =
     (if is_ok (trail_parse (su_url su) address) then Inl (su_debug su address @ '' is an Entire Trail; use --trail'')
      else
        (case (github_target_parse (su_url su) address, gitlab_target_parse (su_url su) address) of
           (Inr (GhCompare a), gl) \<Rightarrow>
             if entire_host (ca_host a) then Inl ENTIRE_COMPARE
             else (case gl of
                     Inr (GlCompare b) \<Rightarrow> if entire_host (gc_host b) then Inl ENTIRE_COMPARE else Inr (OpenRemote GITHUB address)
                   | _ \<Rightarrow> Inr (OpenRemote GITHUB address))
         | (_, Inr (GlCompare b)) \<Rightarrow> if entire_host (gc_host b) then Inl ENTIRE_COMPARE else Inr (OpenRemote GITLAB address)
         | (Inl gh, Inl gl) \<Rightarrow> Inl (''not a GitHub compare ('' @ gh @ '') or a GitLab compare ('' @ gl @ '')'')
         | _ \<Rightarrow> Inl (su_debug su address @ '' is a pull or merge request; use --pr or --mr'')))"

definition no_source_text :: str where
  "no_source_text = '' is neither a file nor a review address; pass a patch file, owner/repo#N or a '' @
     ''GitHub pull request URL, group/project!N or a GitLab merge request URL, or a GitHub '' @
     ''or GitLab compare URL, or an Entire Trail URL''"

definition absolute_path :: "surroundings \<Rightarrow> os_string \<Rightarrow> os_string option" where
  "absolute_path su path = ok_of (su_absolute su path)"

definition detect :: "surroundings \<Rightarrow> os_string \<Rightarrow> str + open_request" where
  "detect su path =
     (if su_is_file su path then bindE (su_absolute su path) (\<lambda>p. Inr (OpenPatch p))
      else (case (if valid_utf8 path then detect_source (su_url su) (su_is_file su) (absolute_path su) path else None) of
              Some d \<Rightarrow> (case det_request d of OpenRemote i a \<Rightarrow> Inr (OpenRemote i a)
                                       | _ \<Rightarrow> Inl (su_debug su path @ no_source_text))
            | None \<Rightarrow> Inl (su_debug su path @ no_source_text)))"

section \<open>The parser\<close>

record parse_state =
  ps_source :: "open_request option"
  ps_options :: options
  ps_positional :: bool
  ps_base :: str
  ps_head :: str

definition no_options :: options where
  "no_options = \<lparr>opt_request = None, opt_state = None, opt_writes = False, opt_gitlab_writes = False, opt_inspect = False,
     opt_foreground = False, opt_json = False, opt_font = None, opt_theme = None, opt_probe = None, opt_probe_output = None\<rparr>"

definition parse_start :: parse_state where
  "parse_start = \<lparr>ps_source = None, ps_options = no_options, ps_positional = False, ps_base = ''main'', ps_head = ''HEAD''\<rparr>"

definition VALUE_FLAGS :: "str list" where
  "VALUE_FLAGS = [''--fixture'', ''--patch'', ''--pr'', ''--git'', ''--staged'', ''--worktree'', ''--resume'', ''--base'', ''--head'',
     ''--state-dir'', ''--mr'', ''--trail'', ''--compare'', ''--font'', ''--theme'', ''--probe'', ''--probe-output'']"

definition add_source :: "parse_state \<Rightarrow> open_request \<Rightarrow> str + parse_state" where
  "add_source st request = bindE (set_source (ps_source st) request) (\<lambda>s. Inr (st\<lparr>ps_source := s\<rparr>))"

definition set_options :: "parse_state \<Rightarrow> (options \<Rightarrow> options) \<Rightarrow> str + parse_state" where
  "set_options st f = Inr (st\<lparr>ps_options := f (ps_options st)\<rparr>)"

text \<open>An option with the value that follows it.\<close>

definition with_value :: "surroundings \<Rightarrow> str \<Rightarrow> os_string \<Rightarrow> parse_state \<Rightarrow> str + parse_state" where
  "with_value su flag v st =
     (if flag = ''--fixture'' then bindE (text_argument v flag) (\<lambda>t. add_source st (OpenFixture t))
      else if flag = ''--patch'' then add_source st (OpenPatch v)
      else if flag = ''--pr'' then bindE (text_argument v flag) (\<lambda>t. add_source st (OpenRemote GITHUB t))
      else if flag = ''--git'' then add_source st (OpenLocalGit v [] [])
      else if flag = ''--staged'' then add_source st (OpenLocalIndex v)
      else if flag = ''--worktree'' then add_source st (OpenLocalWorktree v)
      else if flag = ''--resume'' then bindE (text_argument v flag) (\<lambda>t. add_source st (OpenResume (SnapshotId t)))
      else if flag = ''--base'' then bindE (text_argument v flag) (\<lambda>t. Inr (st\<lparr>ps_base := t\<rparr>))
      else if flag = ''--head'' then bindE (text_argument v flag) (\<lambda>t. Inr (st\<lparr>ps_head := t\<rparr>))
      else if flag = ''--state-dir'' then set_options st (\<lambda>o'. o'\<lparr>opt_state := Some v\<rparr>)
      else if flag = ''--mr'' then bindE (text_argument v flag) (\<lambda>t. add_source st (OpenRemote GITLAB t))
      else if flag = ''--trail'' then
        bindE (text_argument v flag) (\<lambda>t. bindE (trail_parse (su_url su) t) (\<lambda>_. add_source st (OpenRemote ENTIRE t)))
      else if flag = ''--compare'' then
        bindE (text_argument v flag) (\<lambda>t. bindE (compare_request su t) (\<lambda>r. add_source st r))
      else if flag = ''--font'' then bindE (text_argument v flag) (\<lambda>t. set_options st (\<lambda>o'. o'\<lparr>opt_font := Some t\<rparr>))
      else if flag = ''--theme'' then bindE (text_argument v flag) (\<lambda>t. set_options st (\<lambda>o'. o'\<lparr>opt_theme := Some t\<rparr>))
      else if flag = ''--probe'' then set_options st (\<lambda>o'. o'\<lparr>opt_probe := Some v\<rparr>)
      else set_options st (\<lambda>o'. o'\<lparr>opt_probe_output := Some v\<rparr>))"

text \<open>An option without a value, or the positional source.\<close>

definition without_value :: "surroundings \<Rightarrow> str \<Rightarrow> os_string \<Rightarrow> parse_state \<Rightarrow> str + parse_state" where
  "without_value su flag arg st =
     (if flag = ''--allow-github-writes'' then set_options st (\<lambda>o'. o'\<lparr>opt_writes := True\<rparr>)
      else if flag = ''--allow-gitlab-writes'' then set_options st (\<lambda>o'. o'\<lparr>opt_gitlab_writes := True\<rparr>)
      else if flag = ''--inspect'' then set_options st (\<lambda>o'. o'\<lparr>opt_inspect := True\<rparr>)
      else if flag = ''--foreground'' then set_options st (\<lambda>o'. o'\<lparr>opt_foreground := True\<rparr>)
      else if flag = ''--json'' then set_options st (\<lambda>o'. o'\<lparr>opt_json := True\<rparr>)
      else if \<not> starts_with ''-'' arg then add_source (st\<lparr>ps_positional := True\<rparr>) (OpenPatch arg)
      else Inl (''unknown argument '' @ su_debug su arg @ ''; use --help''))"

fun parse_loop :: "surroundings \<Rightarrow> parse_state \<Rightarrow> os_string list \<Rightarrow> str + parse_state" where
  "parse_loop su st [] = Inr st"
| "parse_loop su st (arg # rest) =
     (let flag = (if valid_utf8 arg then arg else []) in
      if flag \<in> set VALUE_FLAGS
      then (case rest of
              [] \<Rightarrow> Inl (''missing value after '' @ flag)
            | v # rest' \<Rightarrow> (case with_value su flag v st of Inl e \<Rightarrow> Inl e | Inr st' \<Rightarrow> parse_loop su st' rest'))
      else (case without_value su flag arg st of Inl e \<Rightarrow> Inl e | Inr st' \<Rightarrow> parse_loop su st' rest))"

text \<open>The paths of a request, which JSON holds only as UTF-8.\<close>

definition request_paths :: "open_request \<Rightarrow> os_string list" where
  "request_paths r = (case r of OpenPatch p \<Rightarrow> [p] | OpenLocalGit root _ _ \<Rightarrow> [root] | OpenLocalIndex p \<Rightarrow> [p]
     | OpenLocalWorktree p \<Rightarrow> [p] | _ \<Rightarrow> [])"

definition json_source :: "open_request option \<Rightarrow> str + open_request option" where
  "json_source request =
     (if list_all valid_utf8 (concat (map request_paths (case request of None \<Rightarrow> [] | Some r \<Rightarrow> [r])))
      then Inr request else Inl ''source cannot be represented in JSON; use a UTF-8 path'')"

definition set_refs :: "str \<Rightarrow> str \<Rightarrow> open_request \<Rightarrow> open_request" where
  "set_refs base head r = (case r of OpenLocalGit root _ _ \<Rightarrow> OpenLocalGit root base head | _ \<Rightarrow> r)"

definition parse_finish :: "(os_string \<Rightarrow> str + open_request) \<Rightarrow> parse_state \<Rightarrow> str + options" where
  "parse_finish detector st =
     bindE (case ps_source st of
              Some (OpenPatch path) \<Rightarrow> if ps_positional st then bindE (detector path) (\<lambda>r. Inr (Some r)) else Inr (ps_source st)
            | s \<Rightarrow> Inr s) (\<lambda>source.
     (let o' = (ps_options st)\<lparr>opt_request := map_option (set_refs (ps_base st) (ps_head st)) source\<rparr> in
      failIf ((opt_probe o' = None) \<noteq> (opt_probe_output o' = None)) ''pass --probe together with --probe-output''
      (if opt_json o' then bindE (json_source (opt_request o')) (\<lambda>_. Inr o') else Inr o')))"

definition parse_with_detect :: "surroundings \<Rightarrow> (os_string \<Rightarrow> str + open_request) \<Rightarrow> os_string list \<Rightarrow> str + options" where
  "parse_with_detect su detector args = bindE (parse_loop su parse_start args) (parse_finish detector)"

definition parse_options :: "surroundings \<Rightarrow> os_string list \<Rightarrow> str + options" where
  "parse_options su = parse_with_detect su (detect su)"

section \<open>Starting a window in the background\<close>

definition absolute_request :: "surroundings \<Rightarrow> open_request \<Rightarrow> str + open_request" where
  "absolute_request su r =
     (case r of
        OpenPatch p \<Rightarrow> bindE (su_absolute su p) (\<lambda>x. Inr (OpenPatch x))
      | OpenLocalGit root base head \<Rightarrow> bindE (su_absolute su root) (\<lambda>x. Inr (OpenLocalGit x base head))
      | OpenLocalIndex p \<Rightarrow> bindE (su_absolute su p) (\<lambda>x. Inr (OpenLocalIndex x))
      | OpenLocalWorktree p \<Rightarrow> bindE (su_absolute su p) (\<lambda>x. Inr (OpenLocalWorktree x))
      | _ \<Rightarrow> Inr r)"

definition handed_request :: "surroundings \<Rightarrow> options \<Rightarrow> str + open_request option" where
  "handed_request su o' = (case opt_request o' of None \<Rightarrow> Inr None | Some r \<Rightarrow> bindE (absolute_request su r) (\<lambda>x. Inr (Some x)))"

definition remote_flag :: "surroundings \<Rightarrow> provider_id \<Rightarrow> str \<Rightarrow> str + str" where
  "remote_flag su i address =
     (if i = ENTIRE then Inr ''--trail''
      else if is_ok (compare_request su address) then Inr ''--compare''
      else if i = GITHUB then Inr ''--pr''
      else if i = GITLAB then Inr ''--mr''
      else Inl (''no command-line flag opens a '' @ provider_str i @ '' address''))"

definition source_args :: "surroundings \<Rightarrow> open_request option \<Rightarrow> str + os_string list" where
  "source_args su request =
     (case request of
        None \<Rightarrow> Inr []
      | Some (OpenFixture i) \<Rightarrow> Inr [''--fixture'', i]
      | Some (OpenPatch p) \<Rightarrow> Inr [''--patch'', p]
      | Some (OpenRemote i address) \<Rightarrow> bindE (remote_flag su i address) (\<lambda>flag. Inr [flag, address])
      | Some (OpenLocalGit root base head) \<Rightarrow> Inr [''--git'', root, ''--base'', base, ''--head'', head]
      | Some (OpenLocalIndex p) \<Rightarrow> Inr [''--staged'', p]
      | Some (OpenLocalWorktree p) \<Rightarrow> Inr [''--worktree'', p]
      | Some (OpenResume (SnapshotId i)) \<Rightarrow> Inr [''--resume'', i])"

definition theme_path :: "surroundings \<Rightarrow> str \<Rightarrow> str + os_string" where
  "theme_path su theme = (if su_exists su theme then su_absolute su theme else Inr theme)"

definition launch_args :: "surroundings \<Rightarrow> options \<Rightarrow> os_string \<Rightarrow> open_request option \<Rightarrow> str + os_string list" where
  "launch_args su o' state request =
     bindE (su_absolute su state) (\<lambda>dir.
     bindE (source_args su request) (\<lambda>source.
     bindE (case opt_theme o' of None \<Rightarrow> Inr [] | Some t \<Rightarrow> bindE (theme_path su t) (\<lambda>p. Inr [''--theme'', p])) (\<lambda>theme.
       Inr ([''--foreground'', ''--state-dir'', dir] @ source @
         (if opt_writes o' then [''--allow-github-writes''] else []) @
         (if opt_gitlab_writes o' then [''--allow-gitlab-writes''] else []) @
         (case opt_font o' of None \<Rightarrow> [] | Some f \<Rightarrow> [''--font'', f]) @ theme))))"

definition writes_of :: "options \<Rightarrow> writes" where
  "writes_of o' = \<lparr>w_github = opt_writes o', w_gitlab = opt_gitlab_writes o'\<rparr>"

datatype report_line = ReportTaken str "open_request option" | ReportError str

definition report :: "str + str \<Rightarrow> open_request option \<Rightarrow> report_line \<times> (str + unit)" where
  "report result request =
     (case bindE result (\<lambda>status. bindE (json_source request) (\<lambda>source. Inr (status, source))) of
        Inr (status, source) \<Rightarrow> (ReportTaken status source, Inr ())
      | Inl e \<Rightarrow> (ReportError e, Inl e))"

definition delivery_status :: "delivery \<Rightarrow> str" where
  "delivery_status d = (case d of HandedOff \<Rightarrow> ''handed_off'' | Launched \<Rightarrow> ''launched'')"

text \<open>
  A finished invocation: its exit status, the line it prints, and the delivery it made. \<open>start\<close>
  starts the executable in the background with its arguments and a token, and \<open>show\<close> is the text of an error.
\<close>

record handed =
  ho_exit :: "str + unit"
  ho_line :: "report_line option"
  ho_delivered :: "delivered option"

definition launcher :: "surroundings \<Rightarrow> (os_string list \<Rightarrow> str option \<Rightarrow> str + unit) \<Rightarrow> options \<Rightarrow> os_string \<Rightarrow>
    open_request option \<Rightarrow> str option \<Rightarrow> store_error + unit" where
  "launcher su start o' state request token =
     map_errE Message (bindE (launch_args su o' state request) (\<lambda>args. start args token))"

definition finish_hand_off :: "options \<Rightarrow> str + str \<Rightarrow> open_request option \<Rightarrow> delivered option \<Rightarrow> handed" where
  "finish_hand_off o' result request d =
     (if opt_json o'
      then \<lparr>ho_exit = snd (report result request), ho_line = Some (fst (report result request)), ho_delivered = d\<rparr>
      else \<lparr>ho_exit = bindE result (\<lambda>_. Inr ()), ho_line = None, ho_delivered = d\<rparr>)"

definition hand_off :: "surroundings \<Rightarrow> handoff_codec \<Rightarrow> (store_error \<Rightarrow> str) \<Rightarrow> (os_string list \<Rightarrow> str option \<Rightarrow> str + unit) \<Rightarrow>
    delivery_world \<Rightarrow> options \<Rightarrow> os_string \<Rightarrow> str option \<Rightarrow> handed option" where
  "hand_off su j show start w o' state token =
     (case bindE (handed_request su o') (\<lambda>r. if opt_json o' then json_source r else Inr r) of
        Inl e \<Rightarrow> Some (finish_hand_off o' (Inl e) None None)
      | Inr request \<Rightarrow>
          map_option (\<lambda>d. finish_hand_off o' (map_errE show (bindE (dl_result d) (\<lambda>x. Inr (delivery_status x)))) request (Some d))
            (deliver j (w\<lparr>dw_launch := launcher su start o' state request\<rparr>) request (writes_of o') token))"

section \<open>What an invocation does\<close>

definition early_exit :: "str \<Rightarrow> str \<Rightarrow> os_string list \<Rightarrow> str option" where
  "early_exit help version args =
     (if ''--help'' \<in> set args \<or> ''-h'' \<in> set args then Some help
      else if ''--version'' \<in> set args \<or> ''-V'' \<in> set args then Some (''diffz '' @ version)
      else None)"

definition captured_activation_token :: "os_string option \<Rightarrow> str option" where
  "captured_activation_token v =
     Option.bind v (\<lambda>t. if valid_utf8 t then admit_activation_token t else None)"

datatype start_plan =
    PlanPrint str
  | PlanDoctor
  | PlanFail str "report_line option"
  | PlanProbe os_string os_string
  | PlanHandOff options os_string
  | PlanInspect "open_request option" os_string
  | PlanWindow options os_string

text \<open>
  The branches of \<open>run\<close> up to the action each one ends in. \<open>launchd\<close> tells whether the parent
  process is the first process, as for a start from the desktop of macOS.
\<close>

definition run_plan :: "surroundings \<Rightarrow> str \<Rightarrow> str \<Rightarrow> bool \<Rightarrow> str + os_string \<Rightarrow> os_string list \<Rightarrow> start_plan" where
  "run_plan su help version launchd default_dir args =
     (case early_exit help version args of Some t \<Rightarrow> PlanPrint t | None \<Rightarrow>
      if args = [''--doctor''] then PlanDoctor
      else (case parse_options su args of
         Inl e \<Rightarrow> PlanFail e (if ''--json'' \<in> set args then Some (ReportError e) else None)
       | Inr o' \<Rightarrow>
           (case (opt_probe o', opt_probe_output o') of
              (Some source, Some output) \<Rightarrow> PlanProbe source output
            | _ \<Rightarrow>
                (case (case opt_state o' of Some dir \<Rightarrow> Inr dir | None \<Rightarrow> default_dir) of
                   Inl e \<Rightarrow> PlanFail e None
                 | Inr dir \<Rightarrow>
                     if \<not> opt_inspect o' \<and> \<not> opt_foreground o' \<and> \<not> launchd then PlanHandOff o' dir
                     else if opt_inspect o'
                     then PlanInspect (opt_request o') dir
                     else PlanWindow o' dir))))"

section \<open>The arguments of a window read back\<close>

definition PLAIN_FLAGS :: "str list" where
  "PLAIN_FLAGS = [''--allow-github-writes'', ''--allow-gitlab-writes'', ''--inspect'', ''--foreground'', ''--json'']"

lemma flag_utf8: "flag \<in> set VALUE_FLAGS \<Longrightarrow> valid_utf8 flag" "flag \<in> set PLAIN_FLAGS \<Longrightarrow> valid_utf8 flag \<and> flag \<notin> set VALUE_FLAGS"
  by (auto simp: VALUE_FLAGS_def PLAIN_FLAGS_def ascii_valid_utf8)

lemma parse_value:
  "flag \<in> set VALUE_FLAGS \<Longrightarrow> with_value su flag v st = Inr st' \<Longrightarrow> parse_loop su st (flag # v # rest) = parse_loop su st' rest"
  by (simp add: flag_utf8)

lemma parse_plain:
  "flag \<in> set PLAIN_FLAGS \<Longrightarrow> without_value su flag flag st = Inr st' \<Longrightarrow> parse_loop su st (flag # rest) = parse_loop su st' rest"
  by (simp add: flag_utf8)

text \<open>
  The requests for which an option exists that opens them again: texts are UTF-8, an
  Entire address is a trail, and an address that is a compare belongs to the provider that the
  compare option gives it to.
\<close>

definition reopenable :: "surroundings \<Rightarrow> open_request \<Rightarrow> bool" where
  "reopenable su r =
     (case r of
        OpenFixture i \<Rightarrow> valid_utf8 i
      | OpenRemote i a \<Rightarrow> valid_utf8 a \<and>
          (if i = ENTIRE then is_ok (trail_parse (su_url su) a)
           else case compare_request su a of Inl _ \<Rightarrow> True | Inr r' \<Rightarrow> r' = r)
      | OpenLocalGit _ base head \<Rightarrow> valid_utf8 base \<and> valid_utf8 head
      | OpenResume (SnapshotId i) \<Rightarrow> valid_utf8 i
      | _ \<Rightarrow> True)"

lemma provider_ids [simp]: "GITHUB \<noteq> GITLAB" "GITHUB \<noteq> ENTIRE" "GITLAB \<noteq> ENTIRE" "GITLAB \<noteq> GITHUB" "ENTIRE \<noteq> GITHUB" "ENTIRE \<noteq> GITLAB"
  by (simp_all add: GITHUB_def GITLAB_def ENTIRE_def)

definition with_request :: "parse_state \<Rightarrow> open_request option \<Rightarrow> parse_state" where
  "with_request st request =
     (case request of
        None \<Rightarrow> st
      | Some (OpenLocalGit root base head) \<Rightarrow> st\<lparr>ps_source := Some (OpenLocalGit root [] []), ps_base := base, ps_head := head\<rparr>
      | Some r \<Rightarrow> st\<lparr>ps_source := Some r\<rparr>)"

lemma with_value_texts:
  "valid_utf8 v \<Longrightarrow> with_value su ''--fixture'' v st = add_source st (OpenFixture v)"
  "valid_utf8 v \<Longrightarrow> with_value su ''--pr'' v st = add_source st (OpenRemote GITHUB v)"
  "valid_utf8 v \<Longrightarrow> with_value su ''--mr'' v st = add_source st (OpenRemote GITLAB v)"
  "valid_utf8 v \<Longrightarrow> with_value su ''--resume'' v st = add_source st (OpenResume (SnapshotId v))"
  "valid_utf8 v \<Longrightarrow> with_value su ''--trail'' v st = bindE (trail_parse (su_url su) v) (\<lambda>_. add_source st (OpenRemote ENTIRE v))"
  "valid_utf8 v \<Longrightarrow> with_value su ''--compare'' v st = bindE (compare_request su v) (\<lambda>r. add_source st r)"
  "valid_utf8 v \<Longrightarrow> with_value su ''--base'' v st = Inr (st\<lparr>ps_base := v\<rparr>)"
  "valid_utf8 v \<Longrightarrow> with_value su ''--head'' v st = Inr (st\<lparr>ps_head := v\<rparr>)"
  "valid_utf8 v \<Longrightarrow> with_value su ''--font'' v st = set_options st (\<lambda>o'. o'\<lparr>opt_font := Some v\<rparr>)"
  "valid_utf8 v \<Longrightarrow> with_value su ''--theme'' v st = set_options st (\<lambda>o'. o'\<lparr>opt_theme := Some v\<rparr>)"
  by (simp_all add: with_value_def text_argument_def)

lemma with_value_paths:
  "with_value su ''--patch'' v st = add_source st (OpenPatch v)"
  "with_value su ''--git'' v st = add_source st (OpenLocalGit v [] [])"
  "with_value su ''--staged'' v st = add_source st (OpenLocalIndex v)"
  "with_value su ''--worktree'' v st = add_source st (OpenLocalWorktree v)"
  "with_value su ''--state-dir'' v st = set_options st (\<lambda>o'. o'\<lparr>opt_state := Some v\<rparr>)"
  by (simp_all add: with_value_def)

lemma value_flags [simp]:
  "''--fixture'' \<in> set VALUE_FLAGS" "''--pr'' \<in> set VALUE_FLAGS" "''--mr'' \<in> set VALUE_FLAGS" "''--resume'' \<in> set VALUE_FLAGS"
  "''--trail'' \<in> set VALUE_FLAGS" "''--compare'' \<in> set VALUE_FLAGS" "''--base'' \<in> set VALUE_FLAGS" "''--head'' \<in> set VALUE_FLAGS"
  "''--font'' \<in> set VALUE_FLAGS" "''--theme'' \<in> set VALUE_FLAGS" "''--patch'' \<in> set VALUE_FLAGS" "''--git'' \<in> set VALUE_FLAGS"
  "''--staged'' \<in> set VALUE_FLAGS" "''--worktree'' \<in> set VALUE_FLAGS" "''--state-dir'' \<in> set VALUE_FLAGS"
  by (simp_all add: VALUE_FLAGS_def)

lemma add_source_first: "ps_source st = None \<Longrightarrow> add_source st r = Inr (st\<lparr>ps_source := Some r\<rparr>)"
  by (simp add: add_source_def set_source_def)

lemma remote_flag_opens:
  assumes "remote_flag su i a = Inr flag" "reopenable su (OpenRemote i a)" "ps_source st = None"
  shows "flag \<in> set VALUE_FLAGS \<and> with_value su flag a st = Inr (st\<lparr>ps_source := Some (OpenRemote i a)\<rparr>)"
proof -
  from assms(2) have a: "valid_utf8 a" by (simp add: reopenable_def)
  consider "i = ENTIRE" "flag = ''--trail''" | "i \<noteq> ENTIRE" "is_ok (compare_request su a)" "flag = ''--compare''"
    | "i = GITHUB" "flag = ''--pr''" | "i = GITLAB" "flag = ''--mr''"
    using assms(1) by (auto simp: remote_flag_def split: if_splits)
  then show ?thesis
  proof cases
    case 1
    with assms(2) have "is_ok (trail_parse (su_url su) a)" by (simp add: reopenable_def)
    with 1 a show ?thesis
      by (cases "trail_parse (su_url su) a") (simp_all add: with_value_texts add_source_first assms(3) is_ok_def)
  next
    case 2
    with assms(2) have "compare_request su a = Inr (OpenRemote i a)"
      by (cases "compare_request su a") (simp_all add: reopenable_def is_ok_def)
    with 2 a show ?thesis by (simp add: with_value_texts add_source_first assms(3))
  qed (simp_all add: a with_value_texts add_source_first assms(3))
qed

lemma parse_source:
  assumes "source_args su request = Inr src" "ps_source st = None" "\<forall>r. request = Some r \<longrightarrow> reopenable su r"
  shows "parse_loop su st (src @ rest) = parse_loop su (with_request st request) rest"
proof (cases request)
  case (Some r)
  have one: "parse_loop su st ([flag, v] @ rest) = parse_loop su (with_request st request) rest"
    if "flag \<in> set VALUE_FLAGS" "with_value su flag v st = Inr (st\<lparr>ps_source := Some r\<rparr>)" "with_request st request = st\<lparr>ps_source := Some r\<rparr>" for flag v
    using parse_value [OF that(1,2)] that(3) by simp
  show ?thesis
  proof (cases r)
    case (OpenRemote i a)
    with Some assms(1) obtain flag where flag: "remote_flag su i a = Inr flag" "src = [flag, a]" by (auto simp: source_args_def bind_simps)
    with remote_flag_opens [OF flag(1) _ assms(2)] assms(3) Some OpenRemote one show ?thesis by (simp add: with_request_def)
  next
    case (OpenLocalGit root base head)
    with Some assms(1,3) have src: "src = [''--git'', root, ''--base'', base, ''--head'', head]" "valid_utf8 base" "valid_utf8 head"
      by (auto simp: source_args_def reopenable_def)
    have "parse_loop su st (src @ rest) = parse_loop su (st\<lparr>ps_source := Some (OpenLocalGit root [] [])\<rparr>) ([''--base'', base, ''--head'', head] @ rest)"
      unfolding src(1) by (simp only: append.simps) (rule parse_value, simp, simp add: with_value_paths add_source_first assms(2))
    also have "\<dots> = parse_loop su (st\<lparr>ps_source := Some (OpenLocalGit root [] []), ps_base := base\<rparr>) ([''--head'', head] @ rest)"
      by (simp only: append.simps) (rule parse_value, simp, simp add: with_value_texts src)
    also have "\<dots> = parse_loop su (with_request st request) rest"
      by (simp only: append.simps) (rule parse_value, simp, simp add: with_value_texts src with_request_def Some OpenLocalGit)
    finally show ?thesis .
  next
    case (OpenFixture i)
    with Some assms show ?thesis using one [of "''--fixture''" i]
      by (simp add: source_args_def reopenable_def with_request_def with_value_texts add_source_first del: parse_loop.simps)
  next
    case (OpenPatch p)
    with Some assms show ?thesis using one [of "''--patch''" p]
      by (simp add: source_args_def with_request_def with_value_paths add_source_first del: parse_loop.simps)
  next
    case (OpenLocalIndex p)
    with Some assms show ?thesis using one [of "''--staged''" p]
      by (simp add: source_args_def with_request_def with_value_paths add_source_first del: parse_loop.simps)
  next
    case (OpenLocalWorktree p)
    with Some assms show ?thesis using one [of "''--worktree''" p]
      by (simp add: source_args_def with_request_def with_value_paths add_source_first del: parse_loop.simps)
  next
    case (OpenResume i)
    with Some assms show ?thesis using one [of "''--resume''" "case i of SnapshotId x \<Rightarrow> x"]
      by (cases i) (simp add: source_args_def reopenable_def with_request_def with_value_texts add_source_first del: parse_loop.simps)
  qed
qed (use assms in \<open>simp add: source_args_def with_request_def\<close>)

lemma plain_flags [simp]:
  "''--foreground'' \<in> set PLAIN_FLAGS" "''--allow-github-writes'' \<in> set PLAIN_FLAGS" "''--allow-gitlab-writes'' \<in> set PLAIN_FLAGS"
  by (simp_all add: PLAIN_FLAGS_def)

lemma without_value_flags:
  "without_value su ''--foreground'' x st = set_options st (\<lambda>o'. o'\<lparr>opt_foreground := True\<rparr>)"
  "without_value su ''--allow-github-writes'' x st = set_options st (\<lambda>o'. o'\<lparr>opt_writes := True\<rparr>)"
  "without_value su ''--allow-gitlab-writes'' x st = set_options st (\<lambda>o'. o'\<lparr>opt_gitlab_writes := True\<rparr>)"
  "without_value su ''--inspect'' x st = set_options st (\<lambda>o'. o'\<lparr>opt_inspect := True\<rparr>)"
  "without_value su ''--json'' x st = set_options st (\<lambda>o'. o'\<lparr>opt_json := True\<rparr>)"
  by (simp_all add: without_value_def)

lemma parse_writes:
  "parse_loop su st ((if b then [''--allow-github-writes''] else []) @ (if c then [''--allow-gitlab-writes''] else []) @ rest) =
   parse_loop su (st\<lparr>ps_options := (ps_options st)\<lparr>opt_writes := opt_writes (ps_options st) \<or> b,
     opt_gitlab_writes := opt_gitlab_writes (ps_options st) \<or> c\<rparr>\<rparr>) rest"
  by (cases b; cases c) (simp_all add: without_value_flags set_options_def parse_plain del: parse_loop.simps)

lemma parse_font:
  assumes "\<forall>f. font = Some f \<longrightarrow> valid_utf8 f"
  shows "parse_loop su st ((case font of None \<Rightarrow> [] | Some f \<Rightarrow> [''--font'', f]) @ rest) =
    parse_loop su (case font of None \<Rightarrow> st | Some f \<Rightarrow> st\<lparr>ps_options := (ps_options st)\<lparr>opt_font := Some f\<rparr>\<rparr>) rest"
  using assms by (cases font) (simp_all add: parse_value with_value_texts set_options_def del: parse_loop.simps)

lemma parse_theme:
  assumes "\<forall>p. theme = Some p \<longrightarrow> valid_utf8 p"
  shows "parse_loop su st (case theme of None \<Rightarrow> [] | Some p \<Rightarrow> [''--theme'', p]) =
    Inr (case theme of None \<Rightarrow> st | Some p \<Rightarrow> st\<lparr>ps_options := (ps_options st)\<lparr>opt_theme := Some p\<rparr>\<rparr>)"
proof (cases theme)
  case (Some p)
  with assms show ?thesis
    using parse_value [of "''--theme''" su p st "st\<lparr>ps_options := (ps_options st)\<lparr>opt_theme := Some p\<rparr>\<rparr>" "[]"]
    by (simp add: with_value_texts set_options_def)
qed simp

text \<open>The options of a window that was started in the background for \<open>o'\<close>.\<close>

definition window_options :: "surroundings \<Rightarrow> options \<Rightarrow> os_string \<Rightarrow> open_request option \<Rightarrow> options" where
  "window_options su o' dir request = \<lparr>opt_request = request, opt_state = Some dir, opt_writes = opt_writes o',
     opt_gitlab_writes = opt_gitlab_writes o', opt_inspect = False, opt_foreground = True, opt_json = False, opt_font = opt_font o',
     opt_theme = Option.bind (opt_theme o') (\<lambda>t. ok_of (theme_path su t)), opt_probe = None, opt_probe_output = None\<rparr>"

definition texts_ok :: "surroundings \<Rightarrow> options \<Rightarrow> open_request option \<Rightarrow> bool" where
  "texts_ok su o' request \<longleftrightarrow>
     (case request of None \<Rightarrow> True | Some r \<Rightarrow> reopenable su r) \<and>
     (case opt_font o' of None \<Rightarrow> True | Some f \<Rightarrow> valid_utf8 f) \<and>
     (case Option.bind (opt_theme o') (\<lambda>t. ok_of (theme_path su t)) of None \<Rightarrow> True | Some p \<Rightarrow> valid_utf8 p)"

lemma launch_args_parts:
  assumes "launch_args su o' state request = Inr args"
  obtains dir src where "su_absolute su state = Inr dir" "source_args su request = Inr src"
    "args = [''--foreground'', ''--state-dir'', dir] @ src @
         (if opt_writes o' then [''--allow-github-writes''] else []) @
         (if opt_gitlab_writes o' then [''--allow-gitlab-writes''] else []) @
         (case opt_font o' of None \<Rightarrow> [] | Some f \<Rightarrow> [''--font'', f]) @
         (case Option.bind (opt_theme o') (\<lambda>t. ok_of (theme_path su t)) of None \<Rightarrow> [] | Some p \<Rightarrow> [''--theme'', p])"
proof -
  from assms obtain dir src theme where p: "su_absolute su state = Inr dir" "source_args su request = Inr src"
    and theme: "(case opt_theme o' of None \<Rightarrow> Inr [] | Some t \<Rightarrow> bindE (theme_path su t) (\<lambda>p. Inr [''--theme'', p])) = Inr theme"
    and args: "args = [''--foreground'', ''--state-dir'', dir] @ src @
         (if opt_writes o' then [''--allow-github-writes''] else []) @
         (if opt_gitlab_writes o' then [''--allow-gitlab-writes''] else []) @
         (case opt_font o' of None \<Rightarrow> [] | Some f \<Rightarrow> [''--font'', f]) @ theme"
    by (auto simp: launch_args_def bind_simps simp del: append.simps)
  from theme have "theme = (case Option.bind (opt_theme o') (\<lambda>t. ok_of (theme_path su t)) of None \<Rightarrow> [] | Some p \<Rightarrow> [''--theme'', p])"
    by (cases "opt_theme o'") (auto simp: bind_simps ok_of_def)
  with p args that show thesis by blast
qed

lemma parse_launch_args:
  assumes "launch_args su o' state request = Inr args" "texts_ok su o' request" "su_absolute su state = Inr dir"
  shows "parse_with_detect su detector args = Inr (window_options su o' dir request)"
proof -
  let ?theme = "Option.bind (opt_theme o') (\<lambda>t. ok_of (theme_path su t))"
  from assms(1,3) obtain src where src: "source_args su request = Inr src" and args: "args = [''--foreground'', ''--state-dir'', dir] @ src @
         (if opt_writes o' then [''--allow-github-writes''] else []) @
         (if opt_gitlab_writes o' then [''--allow-gitlab-writes''] else []) @
         (case opt_font o' of None \<Rightarrow> [] | Some f \<Rightarrow> [''--font'', f]) @
         (case ?theme of None \<Rightarrow> [] | Some p \<Rightarrow> [''--theme'', p])"
    by (elim launch_args_parts) simp
  from assms(2) have r: "\<forall>r. request = Some r \<longrightarrow> reopenable su r" and f: "\<forall>f. opt_font o' = Some f \<longrightarrow> valid_utf8 f"
    and t: "\<forall>p. ?theme = Some p \<longrightarrow> valid_utf8 p" by (auto simp: texts_ok_def)
  define s0 where "s0 = parse_start\<lparr>ps_options := no_options\<lparr>opt_foreground := True, opt_state := Some dir\<rparr>\<rparr>"
  define s1 where "s1 = with_request s0 request"
  define s2 where "s2 = s1\<lparr>ps_options := (ps_options s1)\<lparr>opt_writes := opt_writes (ps_options s1) \<or> opt_writes o',
     opt_gitlab_writes := opt_gitlab_writes (ps_options s1) \<or> opt_gitlab_writes o'\<rparr>\<rparr>"
  define s3 where "s3 = (case opt_font o' of None \<Rightarrow> s2 | Some f \<Rightarrow> s2\<lparr>ps_options := (ps_options s2)\<lparr>opt_font := Some f\<rparr>\<rparr>)"
  define s4 where "s4 = (case ?theme of None \<Rightarrow> s3 | Some p \<Rightarrow> s3\<lparr>ps_options := (ps_options s3)\<lparr>opt_theme := Some p\<rparr>\<rparr>)"
  have "parse_loop su parse_start ([''--foreground'', ''--state-dir'', dir] @ rest) = parse_loop su s0 rest" for rest
    by (simp add: parse_plain parse_value without_value_flags with_value_paths set_options_def parse_start_def s0_def del: parse_loop.simps)
  moreover have "parse_loop su s0 (src @ rest) = parse_loop su s1 rest" for rest
    unfolding s1_def by (rule parse_source [OF src _ r]) (simp add: s0_def parse_start_def)
  ultimately have "parse_loop su parse_start args = Inr s4"
    unfolding args by (simp only: parse_writes parse_font [OF f] parse_theme [OF t] s2_def [symmetric] s3_def [symmetric] s4_def [symmetric])
  moreover have s1: "ps_options s1 = no_options\<lparr>opt_foreground := True, opt_state := Some dir\<rparr>" "\<not> ps_positional s1"
      "map_option (set_refs (ps_base s1) (ps_head s1)) (ps_source s1) = request"
    by (auto simp: s1_def s0_def with_request_def parse_start_def set_refs_def split: option.split open_request.split)
  have s4: "ps_source s4 = ps_source s1" "\<not> ps_positional s4" "ps_base s4 = ps_base s1" "ps_head s4 = ps_head s1"
      "(ps_options s4)\<lparr>opt_request := request\<rparr> = window_options su o' dir request"
    using s1(2) by (auto simp: s4_def s3_def s2_def s1(1) no_options_def window_options_def split: option.split)
  have plain: "(case ps_source s4 of
              Some (OpenPatch path) \<Rightarrow> if ps_positional s4 then bindE (detector path) (\<lambda>r. Inr (Some r)) else Inr (ps_source s4)
            | x \<Rightarrow> Inr x) = Inr (ps_source s4)"
    using s4(2) by (auto split: option.split open_request.split)
  have req: "map_option (set_refs (ps_base s4) (ps_head s4)) (ps_source s4) = request" using s1(3) s4 by simp
  have "parse_finish detector s4 = Inr (window_options su o' dir request)"
    unfolding parse_finish_def plain bindE_Inr req Let_def s4(5) by (simp add: window_options_def)
  ultimately show ?thesis by (simp add: parse_with_detect_def)
qed

section \<open>Addresses that are detected open again\<close>

lemma chars_ascii_append: "\<forall>c \<in> set p. byte_of c < (0x80 :: nat) \<Longrightarrow> chars (p @ s) = map (\<lambda>c. [c]) p @ chars s"
proof (induction p)
  case (Cons c p)
  then show ?case by (subst chars.simps) (simp add: utf8_step_ascii)
qed simp

lemma trim_https: 
  assumes "starts_with https s" shows "starts_with https (trim s)"
proof -
  from assms obtain t where t: "s = https @ t" by (auto simp: starts_with_iff)
  let ?p = "map (\<lambda>c. [c]) https"
  have c: "chars s = ?p @ chars t" unfolding t by (rule chars_ascii_append) (simp add: https_def)
  have n: "\<forall>x \<in> set ?p. \<not> ws_char x" by (simp add: https_def ws_char_def char_cp_def is_whitespace_def utf8_step_ascii)
  then have b: "dropWhile ws_char (rev ?p) = rev ?p" by (simp add: https_def)
  have "dropWhile ws_char (chars s) = chars s" unfolding c using n by (simp add: https_def)
  moreover have "dropWhile ws_char (rev (chars t) @ rev ?p) = dropWhile ws_char (rev (chars t)) @ rev ?p"
    by (simp only: dropWhile_append b) simp
  moreover have "concat ?p = https" by simp
  ultimately have "trim s = https @ concat (rev (dropWhile ws_char (rev (chars t))))"
    unfolding trim_def c by (simp del: rev_map)
  then show ?thesis by (simp add: starts_with_iff)
qed

lemma length_split_on: "length (split_on c xs) = Suc (length (filter (\<lambda>x. x = c) xs))"
proof (induction xs)
  case (Cons x xs)
  then show ?case by (cases "x = c") (simp_all add: split_on_Cons)
qed simp

lemma trim_char_suffix: "dropWhile (\<lambda>x. x = c) s \<noteq> [] \<Longrightarrow> \<exists>lead. trim_end_char c s = lead @ trim_char c s"
proof -
  assume ne: "dropWhile (\<lambda>x. x = c) s \<noteq> []"
  let ?l = "takeWhile (\<lambda>x. x = c) s" and ?d = "dropWhile (\<lambda>x. x = c) s"
  have "hd ?d \<noteq> c" using hd_dropWhile [OF ne] by simp
  then have "hd ?d \<in> set (rev ?d)" "hd ?d \<noteq> c" using ne by auto
  then have "dropWhile (\<lambda>x. x = c) (rev ?d @ rev ?l) = dropWhile (\<lambda>x. x = c) (rev ?d) @ rev ?l" using dropWhile_append1 [of "hd ?d"] by auto
  moreover have "rev s = rev ?d @ rev ?l" by (metis rev_append takeWhile_dropWhile_id)
  ultimately have "trim_end_char c s = ?l @ trim_char c s" by (simp add: trim_end_char_def trim_char_def)
  then show ?thesis ..
qed

lemma gitlab_compare_path:
  assumes "gitlab_compare_parse u v = Inr c" "u (trim v) = Some url"
  obtains project t where "split_once ''/-/compare'' (trim_char CHR ''/'' (u_path url)) = Some (project, t)"
    "t = [] \<or> (\<exists>x. t = CHR ''/'' # x)" "project_ok project"
proof -
  from assms obtain x where x: "split_once ''/-/compare'' (trim_char CHR ''/'' (u_path url)) = Some x"
    and r: "(case x of (project, t) \<Rightarrow>
       bindE (if t = [] then Inr None
              else bindE (okE ''Invalid compare URL suffix'' (strip_prefix ''/'' t)) (\<lambda>x. Inr (Some x))) (\<lambda>rest.
       bindE (gitlab_refs rest (u_query_pairs url)) (\<lambda>(from, to, direct, pid).
       failIf (\<not> project_ok project) ''GitLab project name is invalid''
      (failIf (\<not> ref_name from \<or> \<not> ref_name to) ''The compare names a ref that Git cannot use''
      (bindE (okE ''Missing GitLab host'' (u_host url)) (\<lambda>h.
        Inr \<lparr>gc_host = h, gc_project = project,
             gc_refs = \<lparr>cmp_base = from, cmp_head = to, cmp_direct = direct\<rparr>, from_project_id = pid\<rparr>)))))) = Inr c"
    unfolding gitlab_compare_parse_def Let_def bindE_eq_Inr failIf_eq_Inr okE_eq_Inr by auto
  obtain project t where p: "x = (project, t)" by fastforce
  from r [unfolded p prod.case bindE_eq_Inr] obtain rest y where
    rest: "(if t = [] then Inr None else bindE (okE ''Invalid compare URL suffix'' (strip_prefix ''/'' t)) (\<lambda>x. Inr (Some x))) = Inr rest"
    and y: "(case y of (from, to, direct, pid) \<Rightarrow>
       failIf (\<not> project_ok project) ''GitLab project name is invalid''
      (failIf (\<not> ref_name from \<or> \<not> ref_name to) ''The compare names a ref that Git cannot use''
      (bindE (okE ''Missing GitLab host'' (u_host url)) (\<lambda>h.
        Inr \<lparr>gc_host = h, gc_project = project,
             gc_refs = \<lparr>cmp_base = from, cmp_head = to, cmp_direct = direct\<rparr>, from_project_id = pid\<rparr>)))) = Inr c"
    by blast
  from rest have "t = [] \<or> (\<exists>x. t = CHR ''/'' # x)" by (auto simp: bind_simps strip_prefix_Some split: if_splits)
  moreover from y have "project_ok project" by (cases y) (simp add: failIf_eq_Inr)
  ultimately show thesis using that x p by blast
qed

lemma pr_not_gitlab_compare:
  assumes "pr_parse u v = Inr a" "starts_with https (trim v)" "gitlab_compare_parse u v = Inr c"
  shows False
proof -
  from assms obtain url where url: "u (trim v) = Some url"
    and pr: "4 \<le> length (tl (split_on CHR ''/'' (trim_end_char CHR ''/'' (u_path url))))"
      "length (tl (split_on CHR ''/'' (trim_end_char CHR ''/'' (u_path url)))) \<le> 5"
      "tl (split_on CHR ''/'' (trim_end_char CHR ''/'' (u_path url))) ! 2 = ''pull''"
      "all_digits (tl (split_on CHR ''/'' (trim_end_char CHR ''/'' (u_path url))) ! 3)"
    by (auto simp: pr_parse_def pr_checked_def Let_def bind_simps)
  obtain project t where sp: "split_once ''/-/compare'' (trim_char CHR ''/'' (u_path url)) = Some (project, t)"
    and t: "t = [] \<or> (\<exists>x. t = CHR ''/'' # x)" and ok: "project_ok project"
    by (rule gitlab_compare_path [OF assms(3) url])
  from split_once_Some [OF sp] have path: "trim_char CHR ''/'' (u_path url) = project @ ''/-/compare'' @ t" .
  then have "trim_char CHR ''/'' (u_path url) \<noteq> []" by simp
  then have "dropWhile (\<lambda>x. x = CHR ''/'') (u_path url) \<noteq> []"
    unfolding trim_char_def trim_end_char_def by (metis dropWhile.simps(1) rev.simps(1))
  from trim_char_suffix [OF this] obtain lead where "trim_end_char CHR ''/'' (u_path url) = lead @ trim_char CHR ''/'' (u_path url)" ..
  then have end': "trim_end_char CHR ''/'' (u_path url) = (lead @ project) @ CHR ''/'' # ''-'' @ CHR ''/'' # ''compare'' @ t"
    unfolding path by simp
  let ?A = "split_on CHR ''/'' (lead @ project)"
  obtain M where "split_on CHR ''/'' (''compare'' @ t) = ''compare'' # M"
  proof (cases "t = []")
    case True
    then show ?thesis using that [of "[]"] by (simp add: split_on_no_sep)
  next
    case False
    with t obtain x where "t = CHR ''/'' # x" by blast
    then show ?thesis using that [of "split_on CHR ''/'' x"] by (simp only: split_on_append_sep) (simp add: split_on_no_sep)
  qed
  then have segs: "split_on CHR ''/'' (trim_end_char CHR ''/'' (u_path url)) = ?A @ [''-'', ''compare''] @ M"
    unfolding end' by (simp only: split_on_append_sep) (simp add: split_on_no_sep)
  have len: "2 \<le> length ?A" using ok by (simp add: project_ok_def length_split_on)
  define q where "q = length ?A - 1"
  have tail: "tl (split_on CHR ''/'' (trim_end_char CHR ''/'' (u_path url))) = tl ?A @ [''-'', ''compare''] @ M"
    unfolding segs using len by (simp add: tl_append split: list.split) 
  have q: "length (tl ?A) = q" "1 \<le> q" using len by (simp_all add: q_def)
  with pr(2) tail have "q \<le> 3" by simp
  with q(2) consider "q = 1" | "q = 2" | "q = 3" by linarith
  then show False
  proof cases
    case 1
    with pr(3) tail q(1) show ?thesis by (simp add: nth_append)
  next
    case 2
    with pr(3) tail q(1) show ?thesis by (simp add: nth_append)
  next
    case 3
    with pr(4) tail q(1) show ?thesis by (simp add: nth_append all_digits_def is_ascii_digit_def)
  qed
qed
lemma chars_valid: "valid_utf8 s \<Longrightarrow> c \<in> set (chars s) \<Longrightarrow> valid_utf8 c"
proof (induction s rule: chars.induct)
  case (1 s)
  show ?case
  proof (cases s)
    case (Cons x xs)
    with "1.prems"(1) obtain cp n where st: "utf8_step s = Some (cp, n)" "valid_utf8 (drop n s)"
      by (subst (asm) valid_utf8.simps) (auto split: option.splits)
    have "is_char_boundary s n"
      using st(2) utf8_step_len [OF st(1)] valid_utf8_hd [of "s ! n" "drop (Suc n) s"]
      by (auto simp: is_char_boundary_def Cons_nth_drop_Suc)
    then have "valid_utf8 (take n s)" using valid_utf8_boundary "1.prems"(1) by blast
    with st Cons "1.prems"(2) "1.IH" show ?thesis by (subst (asm) chars.simps) auto
  qed (use "1.prems" in simp)
qed

lemma concat_valid: "\<forall>c \<in> set cs. valid_utf8 c \<Longrightarrow> valid_utf8 (concat cs)"
  by (induction cs) (auto intro: valid_utf8_append)

lemma trim_valid:
  assumes "valid_utf8 s"
  shows "valid_utf8 (trim s)"
  unfolding trim_def
proof (rule concat_valid, rule ballI)
  fix c assume "c \<in> set (rev (dropWhile ws_char (rev (dropWhile ws_char (chars s)))))"
  then have "c \<in> set (chars s)" by (metis set_dropWhileD set_rev)
  with assms show "valid_utf8 c" by (rule chars_valid)
qed

text \<open>
  A pull request is never also a GitLab compare, so the option that is chosen for a detected address opens it
  with the same provider.
\<close>

lemma github_pr_not_compare:
  assumes "github_target_parse u a = Inr (GhPr p)"
  shows "gitlab_target_parse u a \<noteq> Inr (GlCompare c)"
proof
  assume "gitlab_target_parse u a = Inr (GlCompare c)"
  then have g: "starts_with https (trim a)" "gitlab_compare_parse u (trim a) = Inr c"
    by (auto simp: gitlab_target_parse_def Let_def bind_simps split: if_splits)
  from assms have "pr_parse u (trim a) = Inr p"
    by (auto simp: github_target_parse_def Let_def bind_simps split: if_splits)
  from pr_not_gitlab_compare [OF this trim_https [OF g(1)] g(2)] show False .
qed

lemma compare_request_provider:
  assumes "compare_request su a = Inr r"
  shows "(\<exists>c. github_target_parse (su_url su) a = Inr (GhCompare c)) \<and> r = OpenRemote GITHUB a \<or>
    (\<nexists>c. github_target_parse (su_url su) a = Inr (GhCompare c)) \<and> (\<exists>c. gitlab_target_parse (su_url su) a = Inr (GlCompare c)) \<and> r = OpenRemote GITLAB a"
  using assms
  by (auto simp: compare_request_def split: if_splits sum.splits github_target.splits gitlab_target.splits)

lemma detect_reopenable:
  assumes "detect su path = Inr r"
  shows "reopenable su r"
proof (cases "su_is_file su path")
  case True
  with assms show ?thesis by (auto simp: detect_def bind_simps reopenable_def)
next
  case False
  with assms obtain d i a where v: "valid_utf8 path" and d: "detect_source (su_url su) (su_is_file su) (absolute_path su) path = Some d"
    "det_request d = OpenRemote i a" and r: "r = OpenRemote i a"
    by (auto simp: detect_def split: option.splits open_request.splits if_splits) metis
  from v have a: "valid_utf8 (trim path)" by (rule trim_valid)
  let ?gh = "github_target_parse (su_url su) (trim path)" and ?gl = "gitlab_target_parse (su_url su) (trim path)"
  from d have "i = ENTIRE \<and> a = trim path \<and> is_ok (trail_parse (su_url su) a) \<or>
      i = GITHUB \<and> a = trim path \<and> (\<exists>x. ?gh = Inr x) \<or>
      i = GITLAB \<and> a = trim path \<and> (\<exists>e x. ?gh = Inl e \<and> ?gl = Inr x)"
    by (auto simp: detect_source_def Let_def split: if_splits sum.splits github_target.splits gitlab_target.splits)
  moreover have "(case compare_request su a of Inl _ \<Rightarrow> True | Inr r' \<Rightarrow> r' = OpenRemote i a)"
    if "i = GITHUB \<and> a = trim path \<and> (\<exists>x. ?gh = Inr x) \<or> i = GITLAB \<and> a = trim path \<and> (\<exists>e x. ?gh = Inl e \<and> ?gl = Inr x)"
  proof (cases "compare_request su a")
    case (Inr r')
    with compare_request_provider [OF Inr] that show ?thesis
      using github_pr_not_compare [of "su_url su" "trim path"] by (auto, metis github_target.exhaust)
  qed simp
  ultimately show ?thesis using a unfolding r by (auto simp: reopenable_def)
qed

section \<open>Where permissions and modes come from\<close>

text \<open>An option that is set was given.\<close>

definition set_by :: "os_string set \<Rightarrow> options \<Rightarrow> bool" where
  "set_by given o' \<longleftrightarrow>
     (opt_writes o' \<longrightarrow> ''--allow-github-writes'' \<in> given) \<and> (opt_gitlab_writes o' \<longrightarrow> ''--allow-gitlab-writes'' \<in> given) \<and>
     (opt_inspect o' \<longrightarrow> ''--inspect'' \<in> given) \<and> (opt_foreground o' \<longrightarrow> ''--foreground'' \<in> given) \<and> (opt_json o' \<longrightarrow> ''--json'' \<in> given)"

lemma set_by_mono: "set_by A o' \<Longrightarrow> A \<subseteq> B \<Longrightarrow> set_by B o'"
  by (auto simp: set_by_def)

lemma add_source_options: "add_source st r = Inr st' \<Longrightarrow> ps_options st' = ps_options st"
  by (auto simp: add_source_def bind_simps)

definition keeps :: "parse_state \<Rightarrow> str + parse_state \<Rightarrow> bool" where
  "keeps st r \<longleftrightarrow> (\<forall>st' A. r = Inr st' \<and> set_by A (ps_options st) \<longrightarrow> set_by A (ps_options st'))"

lemma keeps_add: "keeps st (add_source st r)"
  by (auto simp: keeps_def dest: add_source_options)

lemma keeps_bind: "(\<And>x. keeps st (g x)) \<Longrightarrow> keeps st (bindE m g)"
  by (cases m) (simp_all add: keeps_def)

lemma keeps_if: "keeps st r \<Longrightarrow> keeps st r' \<Longrightarrow> keeps st (if b then r else r')"
  by simp

lemma keeps_refs: "keeps st (Inr (st\<lparr>ps_base := x\<rparr>))" "keeps st (Inr (st\<lparr>ps_head := x\<rparr>))"
  by (simp_all add: keeps_def)

lemma keeps_set: "(\<And>A o'. set_by A o' \<Longrightarrow> set_by A (f o')) \<Longrightarrow> keeps st (set_options st f)"
  by (simp add: keeps_def set_options_def)

lemma with_value_keeps: "keeps st (with_value su flag v st)"
  unfolding with_value_def by (intro keeps_if keeps_bind keeps_add keeps_refs keeps_set) (simp_all add: set_by_def)

lemma set_by_flag:
  "set_by A o' \<Longrightarrow> set_by (insert ''--allow-github-writes'' A) (o'\<lparr>opt_writes := True\<rparr>)"
  "set_by A o' \<Longrightarrow> set_by (insert ''--allow-gitlab-writes'' A) (o'\<lparr>opt_gitlab_writes := True\<rparr>)"
  "set_by A o' \<Longrightarrow> set_by (insert ''--inspect'' A) (o'\<lparr>opt_inspect := True\<rparr>)"
  "set_by A o' \<Longrightarrow> set_by (insert ''--foreground'' A) (o'\<lparr>opt_foreground := True\<rparr>)"
  "set_by A o' \<Longrightarrow> set_by (insert ''--json'' A) (o'\<lparr>opt_json := True\<rparr>)"
  by (simp_all add: set_by_def)

lemma plain_flag_options:
  assumes "arg \<in> set PLAIN_FLAGS" "without_value su arg arg st = Inr st'" "set_by A (ps_options st)"
  shows "set_by (insert arg A) (ps_options st')"
proof -
  have "arg = ''--allow-github-writes'' \<or> arg = ''--allow-gitlab-writes'' \<or> arg = ''--inspect'' \<or> arg = ''--foreground'' \<or> arg = ''--json''"
    using assms(1) by (simp add: PLAIN_FLAGS_def)
  then show ?thesis
  proof (elim disjE)
    assume a: "arg = ''--allow-github-writes''"
    show ?thesis using assms(2) set_by_flag(1) [OF assms(3)] unfolding a without_value_flags set_options_def by auto
  next
    assume a: "arg = ''--allow-gitlab-writes''"
    show ?thesis using assms(2) set_by_flag(2) [OF assms(3)] unfolding a without_value_flags set_options_def by auto
  next
    assume a: "arg = ''--inspect''"
    show ?thesis using assms(2) set_by_flag(3) [OF assms(3)] unfolding a without_value_flags set_options_def by auto
  next
    assume a: "arg = ''--foreground''"
    show ?thesis using assms(2) set_by_flag(4) [OF assms(3)] unfolding a without_value_flags set_options_def by auto
  next
    assume a: "arg = ''--json''"
    show ?thesis using assms(2) set_by_flag(5) [OF assms(3)] unfolding a without_value_flags set_options_def by auto
  qed
qed

lemma without_value_options:
  assumes "without_value su flag arg st = Inr st'" "set_by A (ps_options st)" "flag = arg \<or> flag = []"
  shows "set_by (insert arg A) (ps_options st')"
proof (cases "flag \<in> set PLAIN_FLAGS")
  case True
  then have "flag = arg" using assms(3) by (auto simp: PLAIN_FLAGS_def)
  with True assms(1,2) show ?thesis using plain_flag_options by blast
next
  case False
  then have "without_value su flag arg st = (if \<not> starts_with ''-'' arg then add_source (st\<lparr>ps_positional := True\<rparr>) (OpenPatch arg)
      else Inl (''unknown argument '' @ su_debug su arg @ ''; use --help''))"
    unfolding without_value_def PLAIN_FLAGS_def by simp
  with assms(1) have "ps_options st' = ps_options st" by (auto dest: add_source_options split: if_splits)
  with assms(2) show ?thesis by (auto intro: set_by_mono)
qed

lemma parse_loop_options:
  "parse_loop su st args = Inr st' \<Longrightarrow> set_by A (ps_options st) \<Longrightarrow> set_by (A \<union> set args) (ps_options st')"
proof (induction su st args arbitrary: A rule: parse_loop.induct)
  case (2 su st arg rest)
  let ?flag = "if valid_utf8 arg then arg else []"
  show ?case
  proof (cases "?flag \<in> set VALUE_FLAGS")
    case True
    with "2.prems"(1) obtain v rest' st1 where r: "rest = v # rest'" "with_value su ?flag v st = Inr st1" "parse_loop su st1 rest' = Inr st'"
      by (cases rest) (auto simp: Let_def split: sum.splits)
    have "set_by A (ps_options st1)" using with_value_keeps r(2) "2.prems"(2) unfolding keeps_def by blast
    from "2.IH"(1) [OF refl True r(1,2) r(3) this] show ?thesis
      unfolding r(1) by (rule set_by_mono) auto
  next
    case False
    with "2.prems"(1) obtain st1 where r: "without_value su ?flag arg st = Inr st1" "parse_loop su st1 rest = Inr st'"
      by (auto simp: Let_def split: sum.splits)
    have "set_by (insert arg A) (ps_options st1)" by (rule without_value_options [OF r(1) "2.prems"(2)]) simp
    from "2.IH"(2) [OF refl False r(1,2) this] show ?thesis by (rule set_by_mono) auto
  qed
qed auto

lemma parse_options_given:
  assumes "parse_options su args = Inr o'"
  shows "set_by (set args) o'"
proof -
  from assms obtain st where st: "parse_loop su parse_start args = Inr st" "parse_finish (detect su) st = Inr o'"
    by (auto simp: parse_options_def parse_with_detect_def bind_simps)
  have "set_by {} (ps_options parse_start)" by (simp add: parse_start_def no_options_def set_by_def)
  from parse_loop_options [OF st(1) this] have "set_by (set args) (ps_options st)" by simp
  moreover from st(2) obtain r where "o' = (ps_options st)\<lparr>opt_request := r\<rparr>"
    unfolding parse_finish_def bindE_eq_Inr Let_def by (auto simp: failIf_eq_Inr bind_simps split: if_splits)
  ultimately show ?thesis by (simp add: set_by_def)
qed

section \<open>A concrete invocation\<close>

definition sample_surroundings :: surroundings where
  "sample_surroundings = \<lparr>su_url = \<lambda>_. None, su_debug = id, su_is_file = \<lambda>_. False, su_exists = \<lambda>_. False,
     su_absolute = \<lambda>p. Inr (''/w/'' @ p)\<rparr>"

definition sample_options :: options where
  "sample_options = no_options\<lparr>opt_request := Some (OpenPatch ''a.patch''), opt_writes := True, opt_theme := Some ''current''\<rparr>"

definition sample_args :: "os_string list" where
  "sample_args = [''--foreground'', ''--state-dir'', ''/w/state'', ''--patch'', ''/w/a.patch'', ''--allow-github-writes'', ''--theme'', ''current'']"

lemmas sample_cli = sample_surroundings_def sample_options_def sample_args_def no_options_def

lemma sample_launch_args:
  "launch_args sample_surroundings sample_options ''state'' (Some (OpenPatch ''/w/a.patch'')) = Inr sample_args"
  by (simp add: launch_args_def source_args_def theme_path_def sample_cli)

lemma sample_texts: "texts_ok sample_surroundings sample_options (Some (OpenPatch ''/w/a.patch''))"
  by (simp add: texts_ok_def reopenable_def theme_path_def ok_of_def sample_cli ascii_valid_utf8)

lemma sample_handed_request: "handed_request sample_surroundings sample_options = Inr (Some (OpenPatch ''/w/a.patch''))"
  by (simp add: handed_request_def absolute_request_def sample_cli)

lemma sample_hand_off:
  "hand_off sample_surroundings sample_handoff (\<lambda>_. []) (\<lambda>_ _. Inr ()) (sample_delivery nobody) sample_options ''state'' (Some ''tok'') =
     Some \<lparr>ho_exit = Inr (), ho_line = None,
       ho_delivered = Some \<lparr>dl_result = Inr Launched, dl_sent = [], dl_launched = [Some ''tok'']\<rparr>\<rparr>"
proof -
  have "\<not> opt_json sample_options" by (simp add: sample_cli)
  moreover have "deliver sample_handoff ((sample_delivery nobody)\<lparr>dw_launch := launcher sample_surroundings (\<lambda>_ _. Inr ()) sample_options ''state''
      (Some (OpenPatch ''/w/a.patch''))\<rparr>) (Some (OpenPatch ''/w/a.patch'')) (writes_of sample_options) (Some ''tok'') =
    Some \<lparr>dl_result = Inr Launched, dl_sent = [], dl_launched = [Some ''tok'']\<rparr>"
    by (simp add: deliver_def try_window_def send_within_def connect_loop_def connect_once_def settle_def launch_window_def
      wait_listening_def listening_once_def nobody_def sample_delivery_def launcher_def sample_launch_args)
  ultimately show ?thesis by (simp add: hand_off_def sample_handed_request finish_hand_off_def)
qed

lemma sample_run_plan:
  "run_plan sample_surroundings help version False (Inr ''/s'') [''--pr'', ''o/r#1'', ''--allow-github-writes''] =
     PlanHandOff (no_options\<lparr>opt_request := Some (OpenRemote GITHUB ''o/r#1''), opt_writes := True\<rparr>) ''/s''"
proof -
  have "parse_loop sample_surroundings parse_start [''--pr'', ''o/r#1'', ''--allow-github-writes''] =
      Inr (parse_start\<lparr>ps_source := Some (OpenRemote GITHUB ''o/r#1''), ps_options := no_options\<lparr>opt_writes := True\<rparr>\<rparr>)"
    by (simp add: parse_value parse_plain with_value_texts without_value_flags add_source_first set_options_def ascii_valid_utf8
        parse_start_def del: parse_loop.simps(2))
  then have "parse_options sample_surroundings [''--pr'', ''o/r#1'', ''--allow-github-writes''] =
      Inr (no_options\<lparr>opt_request := Some (OpenRemote GITHUB ''o/r#1''), opt_writes := True\<rparr>)"
    by (simp add: parse_options_def parse_with_detect_def parse_finish_def parse_start_def set_refs_def no_options_def)
  then show ?thesis by (simp add: run_plan_def early_exit_def no_options_def)
qed

text \<open>
  The option for an address is chosen without its provider when some provider parses it as a compare, so an
  address of one provider can be started with the other.
\<close>

definition lab_compare :: str where
  "lab_compare = ''https://gitlab.com/g/p/-/compare/v1...v2''"

definition lab_surroundings :: surroundings where
  "lab_surroundings = sample_surroundings\<lparr>su_url := \<lambda>v. if v = lab_compare
     then Some \<lparr>u_scheme = ''https'', u_username = [], u_password = None, u_port = None, u_query = None, u_fragment = None,
       u_host = Some ''gitlab.com'', u_path = ''/g/p/-/compare/v1...v2'', u_segments = Some [''g'', ''p'', ''-'', ''compare'', ''v1...v2''],
       u_query_pairs = []\<rparr>
     else None\<rparr>"

lemma lab_compare_request: "compare_request lab_surroundings lab_compare = Inr (OpenRemote GITLAB lab_compare)"
  by code_simp

lemma launch_other_provider:
  "launch_args lab_surroundings no_options ''state'' (Some (OpenRemote GITHUB lab_compare)) =
     Inr [''--foreground'', ''--state-dir'', ''/w/state'', ''--compare'', lab_compare] \<and>
   map_sum id opt_request (parse_options lab_surroundings [''--foreground'', ''--state-dir'', ''/w/state'', ''--compare'', lab_compare]) =
     Inr (Some (OpenRemote GITLAB lab_compare))"
  by code_simp

section \<open>Properties\<close>

text \<open>
  The arguments that start a window in the background read back as the same request. Whatever the
  detector, they parse to the request they were made for, with the
  write permissions and the font of the invocation, its state directory made absolute and its theme
  resolved; the started process then opens a window itself and does not hand off again, unless a value asks for help or the version.
\<close>

theorem launch_args_roundtrip:
  assumes "launch_args su o' state request = Inr args" "texts_ok su o' request" "su_absolute su state = Inr dir"
  shows "parse_options su args = Inr (window_options su o' dir request) \<and>
    (early_exit help version args = None \<longrightarrow>
     run_plan su help version launchd default_dir args = PlanWindow (window_options su o' dir request) dir)"
proof -
  have p: "parse_options su args = Inr (window_options su o' dir request)"
    unfolding parse_options_def by (rule parse_launch_args [OF assms])
  moreover have "args \<noteq> [''--doctor'']" by (rule launch_args_parts [OF assms(1)]) simp
  ultimately show ?thesis by (simp add: run_plan_def window_options_def)
qed

theorem launch_args_roundtrip_witness:
  "parse_options sample_surroundings sample_args =
     Inr (window_options sample_surroundings sample_options ''/w/state'' (Some (OpenPatch ''/w/a.patch''))) \<and>
   run_plan sample_surroundings ''help'' ''1'' False (Inr ''/s'') sample_args =
     PlanWindow (window_options sample_surroundings sample_options ''/w/state'' (Some (OpenPatch ''/w/a.patch''))) ''/w/state''"
proof -
  have "early_exit ''help'' ''1'' sample_args = None" by (simp add: early_exit_def sample_args_def)
  moreover have "su_absolute sample_surroundings ''state'' = Inr ''/w/state''" by (simp add: sample_cli)
  ultimately show ?thesis using launch_args_roundtrip [OF sample_launch_args sample_texts] by blast
qed



text \<open>
  Only an invocation without help, version, diagnosis, inspection, probe and
  foreground options hands off or detaches, and write permissions are asked for explicitly: each one that is handed
  over stands among the arguments.
\<close>

theorem run_plan_hands_off:
  assumes "run_plan su help version launchd default_dir args = PlanHandOff o' dir"
  shows "set args \<inter> {''--help'', ''-h'', ''--version'', ''-V''} = {} \<and> args \<noteq> [''--doctor''] \<and> \<not> opt_inspect o' \<and> \<not> opt_foreground o' \<and>
    (opt_probe o' = None \<or> opt_probe_output o' = None) \<and> parse_options su args = Inr o' \<and>
    (w_github (writes_of o') \<longrightarrow> ''--allow-github-writes'' \<in> set args) \<and>
    (w_gitlab (writes_of o') \<longrightarrow> ''--allow-gitlab-writes'' \<in> set args)"
proof -
  from assms have e: "early_exit help version args = None" "args \<noteq> [''--doctor'']"
    by (auto simp: run_plan_def split: option.splits if_splits)
  with assms obtain o2 where p: "parse_options su args = Inr o2" by (cases "parse_options su args") (auto simp: run_plan_def)
  from assms e p have "o2 = o' \<and> \<not> opt_inspect o' \<and> \<not> opt_foreground o' \<and> (opt_probe o' = None \<or> opt_probe_output o' = None)"
    by (auto simp: run_plan_def split: option.splits if_splits sum.splits)
  with e p parse_options_given [OF p] show ?thesis
    by (auto simp: early_exit_def set_by_def writes_of_def split: if_splits)
qed

theorem run_plan_hands_off_witness:
  "set [''--pr'', ''o/r#1'', ''--allow-github-writes''] \<inter> {''--help'', ''-h'', ''--version'', ''-V''} = {} \<and>
   ''--allow-github-writes'' \<in> set [''--pr'', ''o/r#1'', ''--allow-github-writes'']"
  using run_plan_hands_off [OF sample_run_plan] by (simp add: writes_of_def no_options_def)

end
