(* ===== verification/Evidence.thy ===== *)
theory Evidence
  imports Http
begin

text \<open>
  What Entire reports beside a change: gates and checks from the mergeability of a change
  (\<open>crates/adapters/src/entire_context.rs\<close>) and session metadata of its commits
  (\<open>crates/adapters/src/entire_sessions.rs\<close>). A JSON value is the type \<open>doc\<close>. The decoders that serde derives for
  \<open>Gate\<close> and \<open>Run\<close>, the URL parser and the text of a parsed URL are parameters.
\<close>

section \<open>JSON values\<close>

text \<open>\<open>value.get(key)\<close>: none on a missing key and on a value that is no object.\<close>

definition doc_lookup :: "doc \<Rightarrow> str \<Rightarrow> doc option" where
  "doc_lookup v k = (case v of DObj kvs \<Rightarrow> map_of kvs k | _ \<Rightarrow> None)"

definition doc_str :: "doc \<Rightarrow> str option" where
  "doc_str v = (case v of DStr s \<Rightarrow> Some s | _ \<Rightarrow> None)"

definition doc_bool :: "doc \<Rightarrow> bool option" where
  "doc_bool v = (case v of DBool b \<Rightarrow> Some b | _ \<Rightarrow> None)"

definition is_object :: "doc \<Rightarrow> bool" where
  "is_object v = (case v of DObj _ \<Rightarrow> True | _ \<Rightarrow> False)"

definition add_notice :: "overview \<Rightarrow> str \<Rightarrow> overview" where
  "add_notice ov t = (if t \<in> set (ov_notices ov) then ov else ov\<lparr>ov_notices := ov_notices ov @ [t]\<rparr>)"

definition push_check :: "overview \<Rightarrow> check \<Rightarrow> overview" where
  "push_check ov c = ov\<lparr>ov_checks := ov_checks ov @ [c]\<rparr>"

section \<open>Gates\<close>

record evidence_gate =
  g_key :: str
  g_type :: str
  g_blocking :: "bool option"
  g_status :: "str option"
  g_state :: "str option"
  g_outcome :: "str option"
  g_head_sha :: "str option"
  g_evaluated_at_sha :: "str option"
  g_stale_reason :: "str option"
  g_rationale :: "str option"
  g_not_applicable_reason :: "str option"
  g_value :: doc

record evidence_run =
  r_name :: str
  r_status :: str
  r_conclusion :: "str option"
  r_details_url :: "str option"
  r_started_at :: "str option"
  r_completed_at :: "str option"
  r_app_name :: "str option"
  r_source :: "str option"

record evidence_codec =
  dec_gate :: "doc \<Rightarrow> evidence_gate option"
  dec_run :: "doc \<Rightarrow> evidence_run option"
  ev_url :: url_parser
  ev_url_text :: "url \<Rightarrow> str"

definition same_revision :: "str option \<Rightarrow> str \<Rightarrow> bool" where
  "same_revision actual expected \<longleftrightarrow>
     (length expected = 40 \<or> length expected = 64) \<and> list_all is_ascii_hexdigit expected \<and>
     (case actual of None \<Rightarrow> False | Some sha \<Rightarrow> eq_ignore_ascii_case sha expected)"

text \<open>Status, conclusion, and the reason why a claimed result cannot be used.\<close>

type_synonym gate_ruling = "str \<times> str option \<times> str option"

definition gate_verdict :: "evidence_gate \<Rightarrow> str \<Rightarrow> gate_ruling" where
  "gate_verdict g head =
     (let status = str_or [] (g_status g); state = g_state g in
      if status \<notin> {''passed'', ''failed'', ''pending'', ''error'', ''skipped'', ''not_applicable''}
      then (''unavailable'', None, Some ''its status is unknown'')
      else if state \<notin> {None, Some ''evaluated'', Some ''running'', Some ''pending'', Some ''disabled'', Some ''stale'', Some ''not_applicable''}
      then (''unavailable'', None, Some ''its evaluation state is unknown'')
      else if state = Some ''not_applicable'' \<or> status = ''not_applicable'' then (''completed'', Some ''not_applicable'', None)
      else if state = Some ''disabled'' \<or> status = ''skipped'' then (''completed'', Some ''skipped'', None)
      else if state = Some ''stale'' \<or> (case g_stale_reason g of None \<Rightarrow> False | Some s \<Rightarrow> trim s \<noteq> []) \<or>
        (case g_evaluated_at_sha g of None \<Rightarrow> False | Some sha \<Rightarrow> \<not> same_revision (Some sha) head)
      then (''pending'', None, Some ''its result is stale for the displayed revision'')
      else if \<not> same_revision (g_head_sha g) head
      then (''pending'', None, Some ''it has no result pinned to the displayed revision'')
      else if state = Some ''running'' then (''in_progress'', None, None)
      else if status = ''pending'' \<or> state = Some ''pending'' then (''pending'', None, None)
      else if \<not> same_revision (g_evaluated_at_sha g) head
      then (''unavailable'', None, Some ''its evaluation revision is unavailable'')
      else if (case g_outcome g of None \<Rightarrow> False | Some out \<Rightarrow> out \<noteq> status)
      then (''unavailable'', None, Some ''its status and evaluation outcome disagree'')
      else if status = ''passed'' then (''completed'', Some ''success'', None)
      else if status = ''failed'' then (''completed'', Some ''failure'', None)
      else if status = ''error'' then (''completed'', Some ''error'', None)
      else (''unavailable'', None, Some ''its status is unknown''))"

definition spaced :: "str \<Rightarrow> str" where
  "spaced s = concat (map (\<lambda>c. if is_control (char_cp c) then '' '' else c) (chars s))"

definition context_text :: "str \<Rightarrow> str" where
  "context_text s = join_with '' '' (split_whitespace (spaced s))"

text \<open>A percent escape of a control character.\<close>

fun control_escape :: "str \<Rightarrow> bool" where
  "control_escape (a # b # c # rest) =
     (a = CHR ''%'' \<and> (case (hex_value b, hex_value c) of (Some hi, Some lo) \<Rightarrow> is_ascii_control (of_byte (16 * hi + lo)) | _ \<Rightarrow> False) \<or>
      control_escape (b # c # rest))"
| "control_escape _ = False"

definition authority_of :: "str \<Rightarrow> str" where
  "authority_of rest = takeWhile (\<lambda>c. c \<notin> {CHR ''/'', CHR ''?'', CHR ''#''}) rest"

definition safe_details_url :: "evidence_codec \<Rightarrow> str \<Rightarrow> str option" where
  "safe_details_url j given =
     (if list_ex (\<lambda>c. is_control (char_cp c) \<or> ws_char c) (chars given) \<or> BACKSLASH \<in> set given then None
      else Option.bind (split_once ''://'' given) (\<lambda>(scheme, rest).
        if \<not> eq_ignore_ascii_case scheme ''https'' \<or> authority_of rest = [] \<or> CHR ''@'' \<in> set (authority_of rest) then None
        else if control_escape given then None
        else Option.bind (ev_url j given) (\<lambda>u.
          if u_scheme u = ''https'' \<and> u_host u \<noteq> None \<and> u_username u = [] \<and> u_password u = None
          then Some (ev_url_text j u) else None)))"

definition gate_name :: "evidence_gate \<Rightarrow> str" where
  "gate_name g = (let name = context_text (g_key g) in if name = [] then context_text (g_type g) else name)"

definition gate_notices :: "evidence_gate \<Rightarrow> str \<Rightarrow> str option \<Rightarrow> str option \<Rightarrow> str list" where
  "gate_notices g name conclusion problem =
     (case problem of None \<Rightarrow> [] | Some p \<Rightarrow> [''Entire gate '' @ name @ '': '' @ p @ ''.'']) @
     (if conclusion = Some ''not_applicable'' \<and> g_not_applicable_reason g = Some ''no_changes''
      then [''Entire gate '' @ name @ '': no code changes; the gate was not evaluated.''] else []) @
     (case g_rationale g of
        None \<Rightarrow> []
      | Some r \<Rightarrow> if conclusion \<noteq> Some ''success'' \<and> context_text r \<noteq> []
                then [''Entire gate '' @ name @ '': '' @ context_text r] else [])"

definition add_gate :: "evidence_codec \<Rightarrow> str \<Rightarrow> evidence_gate \<Rightarrow> overview \<Rightarrow> overview" where
  "add_gate j head g ov =
     (if gate_name g = [] then add_notice ov ''An Entire gate result did not identify its gate.''
      else
        (let name = gate_name g @ (if g_blocking g = Some False then '' (non-blocking)'' else []);
             (status, conclusion, problem) = gate_verdict g head;
             ov' = foldl add_notice ov (gate_notices g name conclusion problem) in
         push_check ov' \<lparr>check_name = name, check_kind = ''Gate'', check_status = status,
           check_conclusion = conclusion, check_url = Option.bind (doc_str (doc_get (g_value g) ''web_url'')) (safe_details_url j)\<rparr>))"

section \<open>Runs\<close>

definition CONCLUSIONS :: "str list" where
  "CONCLUSIONS = [''success'', ''failure'', ''neutral'', ''skipped'', ''cancelled'', ''timed_out'', ''action_required'', ''startup_failure'', ''stale'']"

definition run_placeholder :: "evidence_run \<Rightarrow> bool" where
  "run_placeholder r \<longleftrightarrow> r_status r = ''queued'' \<and> r_started_at r = None \<and> r_completed_at r = None \<and> r_conclusion r = None"

definition run_provider :: "evidence_run \<Rightarrow> str option" where
  "run_provider r =
     (let named = (case r_app_name r of Some s \<Rightarrow> if trim s \<noteq> [] then Some s else r_source r | None \<Rightarrow> r_source r) in
      Option.bind (map_option context_text named) (\<lambda>s. if s = [] then None else Some s))"

definition run_label :: "evidence_run \<Rightarrow> str" where
  "run_label r =
     (let name = context_text (r_name r) in (if name = [] then ''Unnamed Entire CI check'' else name)) @
     (case run_provider r of None \<Rightarrow> [] | Some p \<Rightarrow> '' ('' @ p @ '')'')"

definition run_result_of :: "evidence_run \<Rightarrow> (str \<times> str option) option" where
  "run_result_of r =
     (if r_status r = ''queued'' then Some (''queued'', None)
      else if r_status r = ''in_progress'' then Some (''in_progress'', None)
      else if r_status r = ''completed'' \<and> (case r_conclusion r of None \<Rightarrow> False | Some c \<Rightarrow> c \<in> set CONCLUSIONS)
      then Some (''completed'', r_conclusion r)
      else None)"

definition add_run :: "evidence_codec \<Rightarrow> bool \<Rightarrow> overview \<Rightarrow> doc \<Rightarrow> overview" where
  "add_run j available ov v =
     (case dec_run j v of
        None \<Rightarrow> add_notice ov ''Some Entire CI results could not be read.''
      | Some r \<Rightarrow>
          if \<not> available \<and> \<not> run_placeholder r then ov
          else
            (let (status, conclusion) = (case run_result_of r of Some x \<Rightarrow> x | None \<Rightarrow> (''unavailable'', None));
                 ov' = (if run_result_of r = None
                   then add_notice ov (''Entire CI check '' @ run_label r @ '': its status or conclusion is unavailable.'') else ov) in
             push_check ov' \<lparr>check_name = run_label r, check_kind = ''Check'', check_status = status,
               check_conclusion = conclusion, check_url = Option.bind (r_details_url r) (safe_details_url j)\<rparr>))"

definition availability_notice :: "str option \<Rightarrow> str list" where
  "availability_notice a =
     (if a = Some ''available'' then []
      else if a = Some ''unavailable'' then [''Entire CI evidence is unavailable for this revision.'']
      else if a = Some ''not_applicable'' then [''Entire reports no applicable CI evidence for this revision.'']
      else [''Entire did not report a recognized CI availability for this revision.''])"

definition add_runs :: "evidence_codec \<Rightarrow> doc \<Rightarrow> overview \<Rightarrow> overview" where
  "add_runs j checks ov =
     (let availability = doc_str (doc_get checks ''availability''); available = availability = Some ''available'';
          ov' = foldl add_notice ov (availability_notice availability);
          runs = (case doc_lookup checks ''runs'' of Some (DArr xs) \<Rightarrow> Some xs | Some DNull \<Rightarrow> Some [] | _ \<Rightarrow> None) in
      case runs of
        None \<Rightarrow> add_notice ov' ''Entire did not provide a valid CI run list.''
      | Some rs \<Rightarrow>
          foldl (add_run j available)
            (if available \<and> rs = [] then add_notice ov' ''Entire reports no external CI runs for this revision.'' else ov') rs)"

definition add_gate_value :: "evidence_codec \<Rightarrow> str \<Rightarrow> overview \<Rightarrow> doc \<Rightarrow> overview" where
  "add_gate_value j head ov v =
     (case dec_gate j v of
        Some g \<Rightarrow> add_gate j head g ov
      | None \<Rightarrow> add_notice ov ''Some Entire gate results could not be read.'')"

definition context_apply :: "evidence_codec \<Rightarrow> doc \<Rightarrow> str \<Rightarrow> overview \<Rightarrow> overview" where
  "context_apply j mergeability head ov =
     (if \<not> is_object mergeability then add_notice ov ''Entire did not provide gate and CI results for this revision.''
      else if \<not> same_revision (doc_str (doc_get mergeability ''head_sha'')) head
      then add_notice ov ''Entire gate and CI results are not pinned to the displayed revision; their status is unavailable.''
      else
        add_runs j (doc_get mergeability ''checks'')
          (case doc_lookup mergeability ''gates'' of
             Some (DArr gates) \<Rightarrow> foldl (add_gate_value j head) ov gates
           | Some DNull \<Rightarrow> ov
           | _ \<Rightarrow> add_notice ov ''Entire did not provide a valid gate result list.''))"

section \<open>Sessions\<close>

definition MAX_ROWS :: nat where
  "MAX_ROWS = 10"

definition UNAVAILABLE :: str where
  "UNAVAILABLE = ''Entire session metadata is unavailable for the captured commit range. Recordings may exist but be inaccessible or not indexed, including in a separate checkpoint repository.''"

definition INCOMPLETE :: str where
  "INCOMPLETE = ''Entire session metadata is incomplete; additional sessions may be available. At most 10 summaries are shown.''"

definition format_char :: "nat \<Rightarrow> bool" where
  "format_char cp \<longleftrightarrow> cp = 0x61C \<or> (0x200B \<le> cp \<and> cp \<le> 0x200F) \<or> (0x202A \<le> cp \<and> cp \<le> 0x202E) \<or>
     (0x2060 \<le> cp \<and> cp \<le> 0x2069) \<or> cp = 0xFEFF"

record text_state =
  ts_out :: "str list"
  ts_length :: nat
  ts_space :: bool

text \<open>
  The loop over the characters; the output is kept as characters, and the flag of the result tells whether it
  was short off.
\<close>

fun session_text_loop :: "nat \<Rightarrow> nat \<Rightarrow> text_state \<Rightarrow> str list \<Rightarrow> text_state \<times> bool" where
  "session_text_loop limit i st [] = (st, False)"
| "session_text_loop limit i st (c # cs) =
     (if i \<ge> limit * 4 then (st, True)
      else if format_char (char_cp c) then session_text_loop limit (Suc i) st cs
      else if is_control (char_cp c) \<or> ws_char c
      then session_text_loop limit (Suc i) (st\<lparr>ts_space := ts_out st \<noteq> []\<rparr>) cs
      else (let needed = 1 + (if ts_space st then 1 else 0) in
        if ts_length st + needed > limit then (st, True)
        else session_text_loop limit (Suc i)
          \<lparr>ts_out = ts_out st @ (if ts_space st then ['' ''] else []) @ [c], ts_length = ts_length st + needed, ts_space = False\<rparr> cs))"

definition dots_char :: str where
  "dots_char = [CHR 0xE2, CHR 0x80, CHR 0xA6]"

definition session_text :: "str \<Rightarrow> nat \<Rightarrow> str" where
  "session_text given limit =
     (let (st, truncated) = session_text_loop limit 0 \<lparr>ts_out = [], ts_length = 0, ts_space = False\<rparr> (chars given) in
      concat (ts_out st) @ (if truncated \<and> ts_out st \<noteq> [] then dots_char else []))"

definition nullable_text :: "doc \<Rightarrow> str option option" where
  "nullable_text v = (case v of DNull \<Rightarrow> Some None | DStr s \<Rightarrow> Some (Some s) | _ \<Rightarrow> None)"

definition row_dot :: str where
  "row_dot = [CHR '' '', CHR 0xC2, CHR 0xB7, CHR '' '']"

definition session_line :: "str \<Rightarrow> str \<Rightarrow> str \<Rightarrow> str \<Rightarrow> str \<Rightarrow> str" where
  "session_line i agent model active started =
     ''Entire session '' @ i @ (if agent = [] then row_dot @ ''agent unknown'' else row_dot) @ agent @
     (if model \<noteq> [] then row_dot @ model else []) @
     (if active \<noteq> [] then row_dot @ ''active '' @ active else if started \<noteq> [] then row_dot @ ''started '' @ started else [])"

definition session_row :: "doc \<Rightarrow> (str \<times> str) option" where
  "session_row v =
     Option.bind (Option.bind (doc_lookup v ''sessionId'') doc_str) (\<lambda>raw_id.
     if session_text raw_id 80 = [] then None else
     Option.bind (Option.bind (doc_lookup v ''agent'') nullable_text) (\<lambda>agent.
     Option.bind (Option.bind (doc_lookup v ''model'') nullable_text) (\<lambda>model.
     Option.bind (Option.bind (doc_lookup v ''startedAt'') doc_str) (\<lambda>started.
     Option.bind (Option.bind (doc_lookup v ''lastActivityAt'') doc_str) (\<lambda>active.
       Some (raw_id, session_line (session_text raw_id 80) (session_text (str_or [] agent) 48) (session_text (str_or [] model) 64)
         (session_text active 40) (session_text started 40)))))))"

record envelope =
  en_sessions :: "doc list"
  en_access :: bool
  en_complete :: bool
  en_more :: bool

definition envelope_sessions :: "doc \<Rightarrow> doc list option" where
  "envelope_sessions v = (case v of DArr xs \<Rightarrow> Some xs | DNull \<Rightarrow> Some [] | _ \<Rightarrow> None)"

definition envelope_more :: "doc \<Rightarrow> bool option" where
  "envelope_more v = (case v of DStr s \<Rightarrow> Some (s \<noteq> []) | DNull \<Rightarrow> Some False | _ \<Rightarrow> None)"

definition envelope_read :: "doc \<Rightarrow> envelope option" where
  "envelope_read v =
     Option.bind (Option.bind (doc_lookup v ''sessions'') envelope_sessions) (\<lambda>sessions.
     Option.bind (Option.bind (doc_lookup v ''next_cursor'') envelope_more) (\<lambda>more.
     Option.bind (Option.bind (doc_lookup v ''app_has_access'') doc_bool) (\<lambda>access.
     Option.bind (Option.bind (doc_lookup v ''session_branch_exists'') doc_bool) (\<lambda>branch.
     Option.bind (Option.bind (doc_lookup v ''history_complete'') doc_bool) (\<lambda>complete.
     Option.bind (Option.bind (doc_lookup v ''history_status'') doc_str) (\<lambda>status.
     Option.bind (Option.bind (doc_lookup v ''repo_full_name'') doc_str) (\<lambda>repo.
     Option.bind (Option.bind (doc_lookup v ''source'') doc_str) (\<lambda>source.
       Some \<lparr>en_sessions = sessions, en_access = access,
         en_complete = complete \<and> status = ''complete'' \<and> branch \<and> repo \<noteq> [] \<and> source \<noteq> [], en_more = more\<rparr>))))))))"

text \<open>The rows of the first values, with the identities seen and whether something was left out.\<close>

fun session_rows :: "doc list \<Rightarrow> str set \<Rightarrow> bool \<Rightarrow> str list \<times> bool" where
  "session_rows [] seen partial = ([], partial)"
| "session_rows (v # vs) seen partial =
     (case session_row v of
        None \<Rightarrow> session_rows vs seen True
      | Some (i, row) \<Rightarrow>
          if i \<in> seen then session_rows vs seen True
          else (let (rs, p) = session_rows vs (insert i seen) partial in (row # rs, p)))"

definition NO_SUMMARIES :: str where
  "NO_SUMMARIES = ''Entire has not provided complete session metadata for the captured commit range; no usable summaries are available here. This does not establish that no agent sessions exist.''"

text \<open>The sentence that claims that there are no sessions.\<close>

definition NO_SESSIONS :: str where
  "NO_SESSIONS = ''Entire reports no indexed sessions linked to the captured commit range. This does not rule out unrecorded or unindexed work.''"

definition SUMMARY_HEADING :: str where
  "SUMMARY_HEADING = ''Entire session summaries linked to the captured commit range (metadata only):''"

definition sessions_apply :: "doc \<Rightarrow> overview \<Rightarrow> overview" where
  "sessions_apply response ov =
     (case envelope_read response of
        None \<Rightarrow> add_notice ov UNAVAILABLE
      | Some en \<Rightarrow>
          if \<not> en_access en then add_notice ov UNAVAILABLE
          else
            (let (rs, partial) = session_rows (take MAX_ROWS (en_sessions en)) {}
                   (\<not> en_complete en \<or> en_more en \<or> length (en_sessions en) > MAX_ROWS) in
             if rs = [] then
               add_notice ov (if partial
                 then NO_SUMMARIES
                 else NO_SESSIONS)
             else
               (let ov1 = add_notice ov SUMMARY_HEADING;
                    ov2 = ov1\<lparr>ov_notices := ov_notices ov1 @ rs\<rparr> in
                if partial then add_notice ov2 INCOMPLETE else ov2)))"

section \<open>What is added\<close>

text \<open>Both sources only append checks and notices.\<close>

definition extends_overview :: "overview \<Rightarrow> overview \<Rightarrow> bool" where
  "extends_overview ov ov' \<longleftrightarrow>
     (\<exists>cs ns. ov' = ov\<lparr>ov_checks := ov_checks ov @ cs, ov_notices := ov_notices ov @ ns\<rparr>)"

lemma extends_refl [simp]: "extends_overview ov ov"
  unfolding extends_overview_def by (rule exI [of _ "[]"], rule exI [of _ "[]"]) simp

lemma extends_trans [trans]: "extends_overview a b \<Longrightarrow> extends_overview b c \<Longrightarrow> extends_overview a c"
  by (auto simp: extends_overview_def) (metis append.assoc)

lemma extends_notice [simp]: "extends_overview ov (add_notice ov t)"
proof (cases "t \<in> set (ov_notices ov)")
  case False
  then show ?thesis
    unfolding extends_overview_def by - (rule exI [of _ "[]"], rule exI [of _ "[t]"], simp add: add_notice_def)
qed (simp add: add_notice_def)

lemma extends_check: "extends_overview ov ov' \<Longrightarrow> extends_overview ov (push_check ov' c)"
  by (rule extends_trans, assumption, unfold extends_overview_def, rule exI [of _ "[c]"], rule exI [of _ "[]"])
    (simp add: push_check_def)

lemma push_check_checks [simp]: "ov_checks (push_check ov c) = ov_checks ov @ [c]"
  by (simp add: push_check_def)

lemma extends_foldl: "(\<And>a x. extends_overview a (f a x)) \<Longrightarrow> extends_overview ov (foldl f ov xs)"
  by (induction xs arbitrary: ov) (auto intro: extends_trans)

lemma add_notice_checks [simp]: "ov_checks (add_notice ov t) = ov_checks ov"
  by (simp add: add_notice_def)

lemma foldl_notice_checks [simp]: "ov_checks (foldl add_notice ov ts) = ov_checks ov"
  by (induction ts arbitrary: ov) simp_all

lemma extends_add_gate: "extends_overview ov (add_gate j head g ov)"
  by (auto simp: add_gate_def Let_def split: prod.split intro!: extends_check extends_foldl)

lemma extends_add_gate_value: "extends_overview ov (add_gate_value j head ov v)"
  by (auto simp: add_gate_value_def extends_add_gate split: option.split)

lemma extends_add_run: "extends_overview ov (add_run j available ov v)"
  by (auto simp: add_run_def Let_def split: option.split prod.split intro!: extends_check)

lemma extends_add_runs: "extends_overview ov (add_runs j checks ov)"
proof -
  let ?n = "foldl add_notice ov (availability_notice (doc_str (doc_get checks ''availability'')))"
  have "extends_overview ov ?n" by (rule extends_foldl) simp
  moreover have "extends_overview ?n (add_runs j checks ov)"
    by (auto simp: add_runs_def Let_def split: option.split doc.split
      intro: extends_trans [OF _ extends_foldl] extends_foldl extends_add_run)
  ultimately show ?thesis by (rule extends_trans)
qed

text \<open>A check that a fold appends is appended by one of its steps.\<close>

lemma foldl_new_check:
  assumes "c \<in> set (ov_checks (foldl f ov xs))" "c \<notin> set (ov_checks ov)"
    and step: "\<And>a x. c \<in> set (ov_checks (f a x)) \<Longrightarrow> c \<notin> set (ov_checks a) \<Longrightarrow> P x"
  shows "\<exists>x \<in> set xs. P x"
  using assms(1,2)
proof (induction xs arbitrary: ov)
  case (Cons x xs)
  show ?case
  proof (cases "c \<in> set (ov_checks (f ov x))")
    case True
    with step Cons.prems show ?thesis by auto
  next
    case False
    with Cons show ?thesis by simp
  qed
qed simp

section \<open>A success is pinned to the displayed revision\<close>

definition gate_passed :: "evidence_gate \<Rightarrow> str \<Rightarrow> bool" where
  "gate_passed g head \<longleftrightarrow>
     g_status g = Some ''passed'' \<and> g_outcome g \<in> {None, Some ''passed''} \<and> g_state g \<in> {None, Some ''evaluated''} \<and>
     same_revision (g_head_sha g) head \<and> same_revision (g_evaluated_at_sha g) head \<and>
     (case g_stale_reason g of None \<Rightarrow> True | Some s \<Rightarrow> trim s = [])"

lemma gate_verdict_success:
  assumes "gate_verdict g head = (status, Some ''success'', problem)"
  shows "gate_passed g head \<and> status = ''completed'' \<and> problem = None"
proof (cases "g_status g")
  case None
  with assms show ?thesis by (simp add: gate_verdict_def str_or_def)
next
  case (Some t)
  then have t: "str_or [] (g_status g) = t" by (simp add: str_or_def)
  from assms show ?thesis
    unfolding gate_verdict_def gate_passed_def Let_def t unfolding Some
    by (simp split: if_split_asm option.splits)
qed

definition gate_row :: "evidence_codec \<Rightarrow> str \<Rightarrow> check \<Rightarrow> doc \<Rightarrow> bool" where
  "gate_row j head c v \<longleftrightarrow>
     (case dec_gate j v of
        None \<Rightarrow> False
      | Some g \<Rightarrow> check_kind c = ''Gate'' \<and> check_status c = fst (gate_verdict g head) \<and>
          check_conclusion c = fst (snd (gate_verdict g head)) \<and>
          check_url c = Option.bind (doc_str (doc_get (g_value g) ''web_url'')) (safe_details_url j))"

definition run_row :: "evidence_codec \<Rightarrow> bool \<Rightarrow> check \<Rightarrow> doc \<Rightarrow> bool" where
  "run_row j available c v \<longleftrightarrow>
     (case dec_run j v of
        None \<Rightarrow> False
      | Some r \<Rightarrow> check_kind c = ''Check'' \<and> (available \<or> run_placeholder r) \<and>
          check_conclusion c = Option.bind (run_result_of r) snd \<and>
          check_url c = Option.bind (r_details_url r) (safe_details_url j))"

lemma add_gate_row:
  assumes "c \<in> set (ov_checks (add_gate_value j head ov v))" "c \<notin> set (ov_checks ov)"
  shows "gate_row j head c v"
  using assms
  by (auto simp: add_gate_value_def add_gate_def gate_row_def Let_def split: option.splits prod.splits if_splits)

lemma add_run_row:
  assumes "c \<in> set (ov_checks (add_run j available ov v))" "c \<notin> set (ov_checks ov)"
  shows "run_row j available c v"
  using assms
  by (auto simp: add_run_def run_row_def Let_def split: option.splits prod.splits if_splits)

definition gate_list :: "doc \<Rightarrow> doc list" where
  "gate_list m = (case doc_lookup m ''gates'' of Some (DArr gates) \<Rightarrow> gates | _ \<Rightarrow> [])"

definition run_list :: "doc \<Rightarrow> doc list" where
  "run_list checks = (case doc_lookup checks ''runs'' of Some (DArr runs) \<Rightarrow> runs | _ \<Rightarrow> [])"

definition runs_available :: "doc \<Rightarrow> bool" where
  "runs_available checks \<longleftrightarrow> doc_str (doc_get checks ''availability'') = Some ''available''"

lemma add_runs_checks:
  "\<exists>ov'. ov_checks ov' = ov_checks ov \<and>
     ov_checks (add_runs j checks ov) = ov_checks (foldl (add_run j (runs_available checks)) ov' (run_list checks))"
proof -
  define noted where "noted = foldl add_notice ov (availability_notice (doc_str (doc_get checks ''availability'')))"
  define runs where "runs = (case doc_lookup checks ''runs'' of Some (DArr xs) \<Rightarrow> Some xs | Some DNull \<Rightarrow> Some [] | _ \<Rightarrow> None)"
  define start where "start = (if runs_available checks \<and> run_list checks = []
    then add_notice noted ''Entire reports no external CI runs for this revision.'' else noted)"
  have l: "run_list checks = (case runs of None \<Rightarrow> [] | Some rs \<Rightarrow> rs)"
    by (simp add: run_list_def runs_def split: option.split doc.split)
  have n: "ov_checks noted = ov_checks ov" by (simp add: noted_def)
  then have s: "ov_checks start = ov_checks ov" by (simp add: start_def)
  have "add_runs j checks ov =
    (case runs of None \<Rightarrow> add_notice noted ''Entire did not provide a valid CI run list.''
     | Some rs \<Rightarrow> foldl (add_run j (runs_available checks)) start rs)"
    unfolding add_runs_def Let_def noted_def [symmetric] runs_def [symmetric] runs_available_def [symmetric] start_def l
    by (simp split: option.split)
  with l n s show ?thesis by (cases runs) auto
qed

lemma add_runs_row:
  assumes "c \<in> set (ov_checks (add_runs j checks ov))" "c \<notin> set (ov_checks ov)"
  shows "\<exists>v \<in> set (run_list checks). run_row j (runs_available checks) c v"
proof -
  obtain ov' where ov': "ov_checks ov' = ov_checks ov"
    and c: "c \<in> set (ov_checks (foldl (add_run j (runs_available checks)) ov' (run_list checks)))"
    using assms(1) add_runs_checks [of ov j checks] by auto
  show ?thesis
    by (rule foldl_new_check [OF c]) (use assms ov' add_run_row in auto)
qed

lemma context_apply_row:
  assumes "c \<in> set (ov_checks (context_apply j m head ov))" "c \<notin> set (ov_checks ov)"
  shows "is_object m \<and> same_revision (doc_str (doc_get m ''head_sha'')) head \<and>
    ((\<exists>v \<in> set (gate_list m). gate_row j head c v) \<or>
     (\<exists>v \<in> set (run_list (doc_get m ''checks'')). run_row j (runs_available (doc_get m ''checks'')) c v))"
proof -
  have pin: "is_object m" "same_revision (doc_str (doc_get m ''head_sha'')) head"
    using assms by (auto simp: context_apply_def split: if_splits)
  let ?g = "case doc_lookup m ''gates'' of Some (DArr gates) \<Rightarrow> foldl (add_gate_value j head) ov gates
    | Some DNull \<Rightarrow> ov | _ \<Rightarrow> add_notice ov ''Entire did not provide a valid gate result list.''"
  have g: "ov_checks ?g = ov_checks (foldl (add_gate_value j head) ov (gate_list m))"
    by (simp add: gate_list_def split: option.split doc.split)
  have a: "context_apply j m head ov = add_runs j (doc_get m ''checks'') ?g"
    using pin by (simp add: context_apply_def)
  show ?thesis
  proof (cases "c \<in> set (ov_checks ?g)")
    case True
    have "\<exists>v \<in> set (gate_list m). gate_row j head c v"
      by (rule foldl_new_check [OF True [unfolded g]]) (use assms(2) add_gate_row in auto)
    with pin show ?thesis by blast
  next
    case False
    from add_runs_row [OF assms(1) [unfolded a] False] pin show ?thesis by blast
  qed
qed

definition https_link :: "evidence_codec \<Rightarrow> str \<Rightarrow> bool" where
  "https_link j t \<longleftrightarrow>
     (\<exists>given u. ev_url j given = Some u \<and> t = ev_url_text j u \<and> u_scheme u = ''https'' \<and> u_username u = [] \<and> u_password u = None)"

lemma safe_details_url_https: "safe_details_url j given = Some t \<Longrightarrow> https_link j t"
  by (auto simp: safe_details_url_def https_link_def bind_eq_Some_conv split: if_splits)

lemma extends_context_apply: "extends_overview ov (context_apply j m head ov)"
proof -
  have "extends_overview ov (case doc_lookup m ''gates'' of Some (DArr gates) \<Rightarrow> foldl (add_gate_value j head) ov gates
    | Some DNull \<Rightarrow> ov | _ \<Rightarrow> add_notice ov ''Entire did not provide a valid gate result list.'')"
    by (simp add: extends_foldl extends_add_gate_value split: option.split doc.split)
  then show ?thesis
    unfolding context_apply_def by (simp add: extends_trans [OF _ extends_add_runs])
qed

text \<open>
  Claim C32. Checks and notices of an overview are only appended to, nothing else of it changes, and a check that is
  added with the conclusion ``success'' is evidence for the displayed revision: the mergeability names that revision, and
  the check is either a gate that passed, evaluated at exactly that revision, with an agreeing outcome and no reason
  to be stale, or a completed run of a list that is available. Its link, if any, is an HTTPS address without credentials.
\<close>

theorem context_apply_pinned:
  assumes "c \<in> set (ov_checks (context_apply j m head ov))" "c \<notin> set (ov_checks ov)" "check_conclusion c = Some ''success''"
  shows "extends_overview ov (context_apply j m head ov) \<and> same_revision (doc_str (doc_get m ''head_sha'')) head \<and>
    ((check_kind c = ''Gate'' \<and> check_status c = ''completed'' \<and>
        (\<exists>v g. v \<in> set (gate_list m) \<and> dec_gate j v = Some g \<and> gate_passed g head)) \<or>
     (check_kind c = ''Check'' \<and> runs_available (doc_get m ''checks'') \<and>
        (\<exists>v r. v \<in> set (run_list (doc_get m ''checks'')) \<and> dec_run j v = Some r \<and>
           r_status r = ''completed'' \<and> r_conclusion r = Some ''success''))) \<and>
    (\<forall>t. check_url c = Some t \<longrightarrow> https_link j t)"
proof -
  have url: "https_link j t"
    if "Option.bind x (safe_details_url j) = Some t" for x t
    using that by (cases x) (auto intro: safe_details_url_https)
  from context_apply_row [OF assms(1,2)] have pin: "same_revision (doc_str (doc_get m ''head_sha'')) head"
    and "(\<exists>v \<in> set (gate_list m). gate_row j head c v) \<or>
     (\<exists>v \<in> set (run_list (doc_get m ''checks'')). run_row j (runs_available (doc_get m ''checks'')) c v)" by auto
  then show ?thesis
  proof (elim disjE bexE)
    fix v assume v: "v \<in> set (gate_list m)" "gate_row j head c v"
    then obtain g where g: "dec_gate j v = Some g" "check_kind c = ''Gate''" "check_status c = fst (gate_verdict g head)"
      "check_conclusion c = fst (snd (gate_verdict g head))"
      "check_url c = Option.bind (doc_str (doc_get (g_value g) ''web_url'')) (safe_details_url j)"
      by (auto simp: gate_row_def split: option.splits)
    then have "gate_verdict g head = (check_status c, Some ''success'', snd (snd (gate_verdict g head)))"
      using assms(3) by (metis prod.collapse)
    from gate_verdict_success [OF this] v(1) g url pin extends_context_apply show ?thesis by metis
  next
    fix v assume v: "v \<in> set (run_list (doc_get m ''checks''))" "run_row j (runs_available (doc_get m ''checks'')) c v"
    then obtain r where r: "dec_run j v = Some r" "check_kind c = ''Check''"
      "runs_available (doc_get m ''checks'') \<or> run_placeholder r" "check_conclusion c = Option.bind (run_result_of r) snd"
      "check_url c = Option.bind (r_details_url r) (safe_details_url j)"
      by (auto simp: run_row_def split: option.splits)
    then have "r_status r = ''completed'' \<and> r_conclusion r = Some ''success''"
      using assms(3) by (simp add: run_result_of_def split: if_split_asm)
    moreover from this have "\<not> run_placeholder r" by (simp add: run_placeholder_def)
    ultimately show ?thesis using v(1) r url pin extends_context_apply by metis
  qed
qed

text \<open>A codec that reads every object as one gate that passed at a fixed revision.\<close>

definition sample_head :: str where
  "sample_head = replicate 40 CHR ''a''"

definition sample_gate :: evidence_gate where
  "sample_gate = \<lparr>g_key = ''build'', g_type = ''ci'', g_blocking = Some True, g_status = Some ''passed'', g_state = Some ''evaluated'',
     g_outcome = Some ''passed'', g_head_sha = Some sample_head, g_evaluated_at_sha = Some (replicate 40 CHR ''A''),
     g_stale_reason = None, g_rationale = None, g_not_applicable_reason = None, g_value = DNull\<rparr>"

definition sample_evidence :: evidence_codec where
  "sample_evidence = \<lparr>dec_gate = (\<lambda>v. if is_object v then Some sample_gate else None), dec_run = (\<lambda>_. None),
     ev_url = (\<lambda>_. None), ev_url_text = u_scheme\<rparr>"

definition sample_mergeability :: doc where
  "sample_mergeability = DObj [(''head_sha'', DStr sample_head), (''gates'', DArr [DObj []]), (''checks'', DNull)]"

definition sample_check :: check where
  "sample_check = \<lparr>check_name = ''build'', check_kind = ''Gate'', check_status = ''completed'',
     check_conclusion = Some ''success'', check_url = None\<rparr>"

theorem context_apply_pinned_witness:
  "sample_check \<in> set (ov_checks (context_apply sample_evidence sample_mergeability sample_head default_overview)) \<and>
   (\<exists>v g. v \<in> set (gate_list sample_mergeability) \<and> dec_gate sample_evidence v = Some g \<and> gate_passed g sample_head)"
proof -
  have c: "sample_check \<in> set (ov_checks (context_apply sample_evidence sample_mergeability sample_head default_overview))"
    by code_simp
  moreover have "sample_check \<notin> set (ov_checks default_overview)" by code_simp
  moreover have "check_conclusion sample_check = Some ''success''" by (simp add: sample_check_def)
  moreover have "check_kind sample_check \<noteq> ''Check''" by (simp add: sample_check_def)
  ultimately show ?thesis
    using context_apply_pinned [of sample_check sample_evidence sample_mergeability sample_head default_overview] by blast
qed

section \<open>Bounded texts of sessions\<close>

definition plain_char :: "str \<Rightarrow> bool" where
  "plain_char c \<longleftrightarrow> \<not> is_control (char_cp c) \<and> \<not> format_char (char_cp c) \<and> (ws_char c \<longrightarrow> c = '' '')"

lemma plain_chars [simp]:
  "one_char '' ''" "plain_char '' ''" "one_char dots_char" "plain_char dots_char"
  by (simp_all add: one_char_def plain_char_def char_cp_def utf8_step.simps dots_char_def is_control_def format_char_def
    ws_char_def is_whitespace_def is_cont_def cont_bits_def Let_def)

lemma session_text_loop_bounded:
  assumes "session_text_loop limit i st cs = (st', short)" "ts_length st = length (ts_out st)" "length (ts_out st) \<le> limit"
    "\<forall>c \<in> set (ts_out st). one_char c \<and> plain_char c" "\<forall>c \<in> set cs. one_char c"
  shows "length (ts_out st') \<le> limit \<and> (\<forall>c \<in> set (ts_out st'). one_char c \<and> plain_char c)"
  using assms
proof (induction limit i st cs rule: session_text_loop.induct)
  case (2 limit i st c cs)
  consider "i \<ge> limit * 4" | "i < limit * 4" "format_char (char_cp c)"
    | "i < limit * 4" "\<not> format_char (char_cp c)" "is_control (char_cp c) \<or> ws_char c"
    | "i < limit * 4" "\<not> format_char (char_cp c)" "\<not> (is_control (char_cp c) \<or> ws_char c)" by linarith
  then show ?case
  proof cases
    case 4
    then have "plain_char c" by (simp add: plain_char_def)
    with 4 2(3-) "2.prems" show ?thesis
      by (simp add: Let_def split: if_split_asm)
  qed (use 2 in \<open>simp_all\<close>)
qed simp

text \<open>
  Claim C34. A text that is shown from session metadata has at most \<open>limit\<close> characters and an ellipsis, on one line: no
  control character, no invisible or directional formatting character, and no white space but single spaces' own character.
\<close>

theorem session_text_bounded:
  assumes "valid_utf8 given"
  shows "length (chars (session_text given limit)) \<le> limit + 1 \<and> list_all plain_char (chars (session_text given limit))"
proof -
  obtain st short where st: "session_text_loop limit 0 \<lparr>ts_out = [], ts_length = 0, ts_space = False\<rparr> (chars given) = (st, short)"
    by fastforce
  let ?cs = "ts_out st @ (if short \<and> ts_out st \<noteq> [] then [dots_char] else [])"
  have b: "length (ts_out st) \<le> limit \<and> (\<forall>c \<in> set (ts_out st). one_char c \<and> plain_char c)"
    by (rule session_text_loop_bounded [OF st]) (use chars_one_char [OF assms] in simp_all)
  then have "chars (concat ?cs) = ?cs" by (intro chars_concat) auto
  moreover have "session_text given limit = concat ?cs" by (auto simp: session_text_def st)
  ultimately show ?thesis using b by (auto simp: list_all_iff)
qed

text \<open>The theorem at an input with a right-to-left override, a line break and too many letters.\<close>

theorem session_text_bounded_witness:
  "length (chars (session_text (''ab'' @ [CHR 0xE2, CHR 0x80, CHR 0xAE] @ [CHR 0x0A] @ ''cdef'') 4)) \<le> 4 + 1 \<and>
   list_all plain_char (chars (session_text (''ab'' @ [CHR 0xE2, CHR 0x80, CHR 0xAE] @ [CHR 0x0A] @ ''cdef'') 4))"
  by (rule session_text_bounded [of "''ab'' @ [CHR 0xE2, CHR 0x80, CHR 0xAE] @ [CHR 0x0A] @ ''cdef''" 4]) code_simp

section \<open>Only selected fields are read\<close>

definition SESSION_FIELDS :: "str list" where
  "SESSION_FIELDS = [''sessionId'', ''agent'', ''model'', ''startedAt'', ''lastActivityAt'']"

definition ENVELOPE_FIELDS :: "str list" where
  "ENVELOPE_FIELDS = [''sessions'', ''next_cursor'', ''app_has_access'', ''session_branch_exists'', ''history_complete'',
     ''history_status'', ''repo_full_name'', ''source'']"

definition keep_fields :: "str list \<Rightarrow> doc \<Rightarrow> doc" where
  "keep_fields ks v = (case v of DObj kvs \<Rightarrow> DObj (filter (\<lambda>kv. fst kv \<in> set ks) kvs) | _ \<Rightarrow> v)"

definition keep_sessions :: "doc \<Rightarrow> doc" where
  "keep_sessions v = (case v of DArr xs \<Rightarrow> DArr (map (keep_fields SESSION_FIELDS) xs) | _ \<Rightarrow> v)"

text \<open>A response without everything that the summaries do not name: prompts, display names, transcripts.\<close>

definition redact :: "doc \<Rightarrow> doc" where
  "redact v =
     (case keep_fields ENVELOPE_FIELDS v of
        DObj kvs \<Rightarrow> DObj (map (\<lambda>(k, x). (k, if k = ''sessions'' then keep_sessions x else x)) kvs)
      | w \<Rightarrow> w)"

lemma lookup_keep_fields: "doc_lookup (keep_fields ks v) k = (if k \<in> set ks then doc_lookup v k else None)"
  by (cases v) (simp_all add: doc_lookup_def keep_fields_def map_of_filter_fst [of "\<lambda>k. k \<in> set ks"])

lemma lookup_redact:
  "doc_lookup (redact v) k =
     (if k \<in> set ENVELOPE_FIELDS then map_option (\<lambda>x. if k = ''sessions'' then keep_sessions x else x) (doc_lookup v k) else None)"
proof -
  have "doc_lookup (redact v) k =
      map_option (\<lambda>x. if k = ''sessions'' then keep_sessions x else x) (doc_lookup (keep_fields ENVELOPE_FIELDS v) k)"
    by (cases v) (simp_all add: redact_def keep_fields_def doc_lookup_def map_of_map_value)
  then show ?thesis by (simp add: lookup_keep_fields)
qed

lemma session_row_keep: "session_row (keep_fields SESSION_FIELDS v) = session_row v"
proof -
  have "doc_lookup (keep_fields SESSION_FIELDS v) k = doc_lookup v k" if "k \<in> set SESSION_FIELDS" for k
    using that by (simp add: lookup_keep_fields)
  from this [of "''sessionId''"] this [of "''agent''"] this [of "''model''"] this [of "''startedAt''"] this [of "''lastActivityAt''"]
  show ?thesis unfolding session_row_def by (simp add: SESSION_FIELDS_def cong: if_cong)
qed

lemma session_rows_keep: "session_rows (map (keep_fields SESSION_FIELDS) vs) seen partial = session_rows vs seen partial"
  by (induction vs arbitrary: seen partial) (simp_all add: session_row_keep split: option.split)

lemma envelope_sessions_keep: "envelope_sessions (keep_sessions v) = map_option (map (keep_fields SESSION_FIELDS)) (envelope_sessions v)"
  by (cases v) (simp_all add: envelope_sessions_def keep_sessions_def)

lemma envelope_read_redact:
  "envelope_read (redact v) =
     map_option (\<lambda>en. en\<lparr>en_sessions := map (keep_fields SESSION_FIELDS) (en_sessions en)\<rparr>) (envelope_read v)"
  by (simp add: envelope_read_def lookup_redact ENVELOPE_FIELDS_def envelope_sessions_keep split: Option.bind_split)

text \<open>
  Claim C33. Session summaries come from eight fields of the response and five fields of each session alone: a response
  whose other fields are removed, such as prompts, display names and transcripts, gives the same overview.
\<close>

theorem sessions_apply_redacted: "sessions_apply (redact response) ov = sessions_apply response ov"
  by (cases "envelope_read response")
    (simp_all add: sessions_apply_def envelope_read_redact take_map session_rows_keep)

section \<open>How much is said\<close>

lemma session_rows_length: "length (fst (session_rows vs seen partial)) \<le> length vs"
  by (induction vs arbitrary: seen partial) (auto split: option.split prod.split simp: Let_def le_SucI case_prod_unfold)

lemma session_rows_partial: "partial \<Longrightarrow> snd (session_rows vs seen partial)"
  by (induction vs arbitrary: seen partial) (auto split: option.split simp: Let_def case_prod_unfold)

lemma session_rows_none:
  assumes "\<not> snd (session_rows vs seen partial)" "fst (session_rows vs seen partial) = []"
  shows "vs = []"
proof (cases vs)
  case (Cons v ws)
  with assms show ?thesis
    by (auto split: option.splits if_splits simp: Let_def case_prod_unfold session_rows_partial)
qed

definition appends_notices :: "overview \<Rightarrow> overview \<Rightarrow> str set \<Rightarrow> nat \<Rightarrow> bool" where
  "appends_notices ov ov' T n \<longleftrightarrow> (\<exists>ns. ov' = ov\<lparr>ov_notices := ov_notices ov @ ns\<rparr> \<and> set ns \<subseteq> T \<and> length ns \<le> n)"

lemma appends_notice: "appends_notices ov (add_notice ov t) {t} 1"
  unfolding appends_notices_def add_notice_def
  by (cases "t \<in> set (ov_notices ov)") (auto intro: exI [of _ "[]"] exI [of _ "[t]"])

lemma appends_trans:
  "appends_notices a b S m \<Longrightarrow> appends_notices b c T n \<Longrightarrow> S \<union> T \<subseteq> U \<Longrightarrow> m + n \<le> k \<Longrightarrow> appends_notices a c U k"
  unfolding appends_notices_def by (elim exE conjE, rule_tac x = "ns @ nsa" in exI) auto

lemma sentences: "UNAVAILABLE \<noteq> NO_SESSIONS" "NO_SUMMARIES \<noteq> NO_SESSIONS" "SUMMARY_HEADING \<noteq> NO_SESSIONS" "INCOMPLETE \<noteq> NO_SESSIONS"
  by (simp_all add: UNAVAILABLE_def NO_SUMMARIES_def SUMMARY_HEADING_def INCOMPLETE_def NO_SESSIONS_def)

lemma appends_mono: "appends_notices a b S m \<Longrightarrow> S \<subseteq> T \<Longrightarrow> m \<le> n \<Longrightarrow> appends_notices a b T n"
  unfolding appends_notices_def by (elim exE, rule_tac x = ns in exI) auto

text \<open>A summary starts with the words \<open>Entire session\<close>, so it is never the claim that there are none.\<close>

lemma session_line_start: "session_line i agent model active started ! 7 = CHR ''s''"
  by (simp add: session_line_def)

lemma session_row_start: "session_row v = Some (i, row) \<Longrightarrow> row ! 7 = CHR ''s''"
  by (auto simp: session_row_def session_line_start bind_eq_Some_conv split: if_splits)

lemma session_rows_start: "row \<in> set (fst (session_rows vs seen partial)) \<Longrightarrow> row ! 7 = CHR ''s''"
  by (induction vs arbitrary: seen partial)
    (auto split: option.splits if_splits simp: Let_def case_prod_unfold session_row_start)

abbreviation (input) summary_texts :: "str set" where
  "summary_texts \<equiv> {t. t \<noteq> NO_SESSIONS}"

lemma session_rows_texts: "set (fst (session_rows vs seen partial)) \<subseteq> summary_texts"
  using session_rows_start by (force simp: NO_SESSIONS_def)

lemma sessions_apply_appends:
  "appends_notices ov (sessions_apply response ov)
     (summary_texts \<union> (if \<exists>en. envelope_read response = Some en \<and> en_access en \<and> en_complete en \<and> \<not> en_more en \<and> en_sessions en = []
        then {NO_SESSIONS} else {})) (MAX_ROWS + 2)" (is "appends_notices _ _ ?T _")
proof (cases "envelope_read response")
  case None
  then show ?thesis
    by (auto simp: sessions_apply_def sentences intro!: appends_mono [OF appends_notice])
next
  case (Some en)
  define rows where "rows = session_rows (take MAX_ROWS (en_sessions en)) {}
    (\<not> en_complete en \<or> en_more en \<or> length (en_sessions en) > MAX_ROWS)"
  have len: "length (fst rows) \<le> MAX_ROWS"
    unfolding rows_def using session_rows_length order_trans by (metis length_take min.cobounded2)
  have texts: "set (fst rows) \<subseteq> summary_texts" unfolding rows_def by (rule session_rows_texts)
  show ?thesis
  proof (cases "en_access en")
    case False
    with Some show ?thesis
      by (auto simp: sessions_apply_def sentences intro!: appends_mono [OF appends_notice])
  next
    case access: True
    show ?thesis
    proof (cases "fst rows = []")
      case none: True
      show ?thesis
      proof (cases "snd rows")
        case True
        with Some access none show ?thesis
          by (auto simp: sessions_apply_def rows_def case_prod_unfold sentences intro!: appends_mono [OF appends_notice])
      next
        case False
        have "take MAX_ROWS (en_sessions en) = []" by (rule session_rows_none) (use False none rows_def in simp_all)
        moreover have full: "en_complete en" "\<not> en_more en"
          using False session_rows_partial unfolding rows_def by metis+
        ultimately have "en_sessions en = []" by (simp add: MAX_ROWS_def)
        with Some access full have "NO_SESSIONS \<in> ?T" by simp
        moreover have "sessions_apply response ov = add_notice ov NO_SESSIONS"
          using Some access none False by (simp add: sessions_apply_def rows_def Let_def case_prod_unfold)
        ultimately show ?thesis using appends_mono [OF appends_notice, of NO_SESSIONS ?T "MAX_ROWS + 2" ov] by simp
      qed
    next
      case False
      let ?heading = SUMMARY_HEADING
      let ?rows = "(add_notice ov ?heading)\<lparr>ov_notices := ov_notices (add_notice ov ?heading) @ fst rows\<rparr>"
      have r: "appends_notices (add_notice ov ?heading) ?rows summary_texts MAX_ROWS"
        unfolding appends_notices_def using len texts by blast
      have h: "appends_notices ov ?rows summary_texts (MAX_ROWS + 1)"
        by (rule appends_trans [OF appends_notice r]) (simp_all add: sentences)
      have i: "appends_notices ov (add_notice ?rows INCOMPLETE) summary_texts (MAX_ROWS + 2)"
        by (rule appends_trans [OF h appends_notice]) (simp_all add: sentences)
      have "sessions_apply response ov = (if snd rows then add_notice ?rows INCOMPLETE else ?rows)"
        using Some access False by (simp add: sessions_apply_def rows_def case_prod_unfold Let_def)
      with appends_mono [OF h, of ?T "MAX_ROWS + 2"] appends_mono [OF i, of ?T "MAX_ROWS + 2"] show ?thesis by auto
    qed
  qed
qed

text \<open>
  Applying a response keeps everything of the overview and appends at most twelve notices (a heading, ten
  summaries, one remark that they are incomplete). That there are no indexed sessions is said only when the response
  grants access, its history is complete in every respect that is reported, there is no further page, and its list is empty.
\<close>

theorem sessions_apply_bounded:
  "\<exists>ns. sessions_apply response ov = ov\<lparr>ov_notices := ov_notices ov @ ns\<rparr> \<and> length ns \<le> MAX_ROWS + 2 \<and>
     (NO_SESSIONS \<in> set ns \<longrightarrow>
       (\<exists>en. envelope_read response = Some en \<and> en_access en \<and> en_complete en \<and> \<not> en_more en \<and> en_sessions en = []))"
  using sessions_apply_appends [of ov response] unfolding appends_notices_def by (auto split: if_split_asm)

definition sample_response :: doc where
  "sample_response = DObj [(''sessions'', DNull), (''next_cursor'', DNull), (''app_has_access'', DBool True),
     (''session_branch_exists'', DBool True), (''history_complete'', DBool True), (''history_status'', DStr ''complete''),
     (''repo_full_name'', DStr ''a/b''), (''source'', DStr ''db'')]"

theorem sessions_apply_bounded_witness:
  "ov_notices (sessions_apply sample_response default_overview) = [NO_SESSIONS] \<and>
   (\<exists>en. envelope_read sample_response = Some en \<and> en_access en \<and> en_complete en \<and> \<not> en_more en \<and> en_sessions en = [])"
proof -
  have n: "ov_notices (sessions_apply sample_response default_overview) = [NO_SESSIONS]" by code_simp
  moreover obtain ns where ns: "sessions_apply sample_response default_overview = default_overview\<lparr>ov_notices := ov_notices default_overview @ ns\<rparr>"
    "NO_SESSIONS \<in> set ns \<longrightarrow> (\<exists>en. envelope_read sample_response = Some en \<and> en_access en \<and> en_complete en \<and> \<not> en_more en \<and> en_sessions en = [])"
    using sessions_apply_bounded [of sample_response default_overview] by blast
  moreover have "ns = [NO_SESSIONS]" using n ns(1) by (simp add: default_overview_def)
  ultimately show ?thesis by simp
qed

end
