(* ===== verification/Entire.thy ===== *)
theory Entire
  imports Evidence Process
begin

text \<open>
  The reader of Entire trails (\<open>crates/adapters/src/entire.rs\<close>). It runs the \<open>entire\<close> command line for the login
  and the JSON reads and \<open>curl\<close> for the bytes of a file. A computation threads the list of the processes run so
  far, so that a property may speak about every process it starts; the outcome of the n-th run is a parameter, as are the
  URL parser, the form encoding of a query, JSON decoding and the decoder that serde derives for \<open>Comparison\<close>.
\<close>

section \<open>Computations that run processes\<close>

type_synonym 'a running = "process_request list \<Rightarrow> (store_error + 'a) \<times> process_request list"

definition bindQ :: "'a running \<Rightarrow> ('a \<Rightarrow> 'b running) \<Rightarrow> 'b running" where
  "bindQ m f log = (case m log of (Inl e, l) \<Rightarrow> (Inl e, l) | (Inr x, l) \<Rightarrow> f x l)"

definition liftQ :: "store_error + 'a \<Rightarrow> 'a running" where
  "liftQ r log = (r, log)"

definition tryQ :: "'a running \<Rightarrow> (store_error + 'a) running" where
  "tryQ m log = (case m log of (r, l) \<Rightarrow> (Inr r, l))"

definition failQ :: "bool \<Rightarrow> str \<Rightarrow> 'a running \<Rightarrow> 'a running" where
  "failQ b e m = (if b then liftQ (Inl (Message e)) else m)"

definition askQ :: "(nat \<Rightarrow> process_request \<Rightarrow> store_error + process_output) \<Rightarrow> process_request \<Rightarrow> process_output running" where
  "askQ run q log = (run (length log) q, log @ [q])"

section \<open>The data\<close>

record changed_file =
  cf_path :: str
  cf_previous :: "str option"
  cf_status :: str
  cf_binary :: bool
  cf_too_large :: bool

record comparison =
  cmp_files :: "changed_file list"
  cmp_truncated :: bool

record entire_reader =
  er_program :: os_string
  er_curl :: "os_string option"
  er_url :: url_parser
  er_query :: "(str \<times> str) list \<Rightarrow> str"
  er_json :: "bytes \<Rightarrow> doc option"
  er_comparison :: "doc \<Rightarrow> comparison option"
  er_evidence :: evidence_codec
  er_run :: "nat \<Rightarrow> process_request \<Rightarrow> store_error + process_output"
  er_cancelled :: "nat \<Rightarrow> bool"
  er_now :: nat

record entire_repository =
  ep_id :: str
  ep_placement :: str
  ep_origin :: str
  ep_name :: str

record project_trail =
  pt_origin :: str
  pt_project_id :: str
  pt_id :: str
  pt_endpoint :: str
  pt_forge :: str
  pt_name :: str
  pt_number :: nat

record selected =
  se_repo :: str
  se_number :: nat
  se_change_id :: "str option"
  se_placement :: "str option"
  se_project :: "project_trail option"
  se_parent_number :: "nat option"

record trail_parent =
  tp_id :: str
  tp_project_id :: str
  tp_forge :: str
  tp_project :: str
  tp_number :: nat

record pins =
  pin_id :: str
  pin_base :: str
  pin_head :: str
  pin_merge_base :: str
  pin_status :: str
  pin_parent :: "trail_parent option"

section \<open>Reading documents\<close>

text \<open>\<open>Value::pointer\<close> on the paths the reader uses: no path names an array index.\<close>

definition doc_pointer :: "doc \<Rightarrow> str \<Rightarrow> doc option" where
  "doc_pointer v path = foldl (\<lambda>x k. Option.bind x (\<lambda>d. doc_lookup d k)) (Some v) (tl (split_on CHR ''/'' path))"

definition entire_text :: "doc \<Rightarrow> str \<Rightarrow> store_error + str" where
  "entire_text v path =
     okE (Message (''Entire response is missing '' @ path))
       (Option.bind (Option.bind (doc_pointer v path) doc_str) (\<lambda>s. if s = [] then None else Some s))"

definition doc_u64 :: "doc \<Rightarrow> nat option" where
  "doc_u64 v = (case v of DNum n \<Rightarrow> Some n | _ \<Rightarrow> None)"

definition doc_array :: "doc \<Rightarrow> doc list option" where
  "doc_array v = (case v of DArr xs \<Rightarrow> Some xs | _ \<Rightarrow> None)"

definition doc_is :: "doc \<Rightarrow> str \<Rightarrow> str \<Rightarrow> bool" where
  "doc_is v k s \<longleftrightarrow> doc_str (doc_get v k) = Some s"

definition change_number :: "doc \<Rightarrow> nat option" where
  "change_number v = Option.bind (doc_u64 (doc_get v ''number'')) (\<lambda>n. if 0 < n \<and> n < 10000000000 then Some n else None)"

definition entire_query :: "entire_reader \<Rightarrow> str \<Rightarrow> (str \<times> str) list \<Rightarrow> str" where
  "entire_query er path values = path @ ''?'' @ er_query er values"

section \<open>The login\<close>

definition audiences :: "doc \<Rightarrow> str list" where
  "audiences claims = (case doc_get claims ''aud'' of DStr s \<Rightarrow> [s] | DArr xs \<Rightarrow> List.map_filter doc_str xs | _ \<Rightarrow> [])"

definition core_host :: "str \<Rightarrow> bool" where
  "core_host host =
     (case strip_prefix ''core.'' host of
        None \<Rightarrow> False
      | Some h \<Rightarrow> (case strip_suffix ''.entire.io'' h of
            Some r \<Rightarrow> project_name r
          | None \<Rightarrow> (case strip_suffix ''.entire.com'' h of Some r \<Rightarrow> project_name r | None \<Rightarrow> False)))"

definition login_host :: "str \<Rightarrow> bool" where
  "login_host host \<longleftrightarrow> core_host host \<or> host \<in> {''auth.entire.io'', ''auth.entire.com''} \<or>
     ends_with ''.auth.entire.io'' host \<or> ends_with ''.auth.entire.com'' host \<or>
     ends_with ''.console.entire.io'' host \<or> ends_with ''.console.entire.com'' host"

definition token_char :: "char \<Rightarrow> bool" where
  "token_char b \<longleftrightarrow> is_ascii_alphanumeric b \<or> b \<in> set ''._-''"

definition login_of_token :: "entire_reader \<Rightarrow> bytes \<Rightarrow> store_error + str" where
  "login_of_token er given =
     bindE (okE (Message ''Entire returned an invalid login token'') (from_utf8 given)) (\<lambda>s.
     (let token = trim s; parts = split_on CHR ''.'' token in
      failIf (token = [] \<or> length token > 16 * 1024 \<or> \<not> list_all token_char token)
        (Message ''Entire returned an invalid login token; run entire login'')
     (failIf (length parts \<noteq> 3 \<or> [] \<in> set parts)
        (Message ''Entire requires a login or service-account JWT; run entire login'')
     (bindE (map_errE Message (decode_base64url (parts ! 1))) (\<lambda>payload.
      bindE (okE (Message ''Entire login claims could not be read'') (er_json er payload)) (\<lambda>claims.
      bindE (okE (Message ''Entire login has no control-plane audience'')
        (List.find (\<lambda>a. case er_url er a of Some u \<Rightarrow> u_scheme u \<noteq> [] | None \<Rightarrow> False) (audiences claims))) (\<lambda>audience.
      bindE (map_errE Message (strict_https_url (er_url er) audience)) (\<lambda>u.
      failIf (\<not> login_host (str_or [] (u_host u)) \<or> u_path u \<notin> {[], ''/''} \<or> u_query u \<noteq> None \<or> u_fragment u \<noteq> None)
        (Message ''Select an Entire production login before opening entire.com links'')
        (Inr token)))))))))"

section \<open>Requests\<close>

definition BASE_URLS :: "os_string list" where
  "BASE_URLS = [''ENTIRE_API_BASE_URL'', ''ENTIRE_AUTH_BASE_URL'', ''ENTIRE_WEB_BASE_URL'']"

definition entire_command :: "entire_reader \<Rightarrow> str list \<Rightarrow> process_request" where
  "entire_command er args =
     (with_args args (request_new (er_program er)))\<lparr>deadline_secs := 60, env_remove := BASE_URLS\<rparr>"

definition login_request :: "entire_reader \<Rightarrow> process_request" where
  "login_request er = (entire_command er [''auth'', ''token''])\<lparr>stdout_limit := 16 * 1024\<rparr>"

definition entire_login :: "entire_reader \<Rightarrow> str running" where
  "entire_login er =
     bindQ (askQ (er_run er) (login_request er)) (\<lambda>out.
     failQ (\<not> exit_success (po_status out))
       ''Entire authentication failed. Install Entire CLI 0.12.2 or newer and run entire login.''
     (liftQ (login_of_token er (po_stdout out))))"

text \<open>The last status line among the headers on standard error.\<close>

definition line_status :: "str \<Rightarrow> nat option" where
  "line_status line =
     (case split_whitespace line of
        p # s # _ \<Rightarrow> if starts_with ''HTTP/'' p then parse_unsigned 65535 s else None
      | _ \<Rightarrow> None)"

definition include_status :: "bytes \<Rightarrow> nat option" where
  "include_status err =
     (case List.map_filter line_status (str_lines (from_utf8_lossy err)) of [] \<Rightarrow> None | ss \<Rightarrow> Some (last ss))"

definition read_failure :: "nat option \<Rightarrow> str" where
  "read_failure status =
     (case status of
        None \<Rightarrow> ''Entire API read failed. Check entire login, CLI 0.12.2 or newer, and network access.''
      | Some s \<Rightarrow>
          if s = 401 \<or> s = 403 then ''Entire access was denied; check the selected login and repository permissions''
          else if s = 404 then ''Entire could not read this resource at its primary placement; it may be unavailable, inaccessible, or not indexed yet''
          else if s = 429 then ''Entire rate limited this read; retry after its limit resets''
          else ''Entire API read failed (HTTP '' @ show_nat s @ ''); the existing session is unchanged'')"

definition bad_endpoint :: "entire_reader \<Rightarrow> str \<Rightarrow> bool" where
  "bad_endpoint er endpoint \<longleftrightarrow> \<not> starts_with ''/api/v1/'' endpoint \<or> set endpoint \<inter> {CR, LF, BACKSLASH, CHR ''{'', CHR ''}''} \<noteq> {} \<or>
     er_url er endpoint \<noteq> None"

definition api_request :: "entire_reader \<Rightarrow> str \<Rightarrow> bool \<Rightarrow> str \<Rightarrow> process_request" where
  "api_request er token cell endpoint =
     (let q = entire_command er [''api'', ''--to'', if cell then ''cell'' else ''core'', ''--include'', ''--method'', ''GET'', endpoint] in
      q\<lparr>pq_env := bt_insert ''ENTIRE_TOKEN'' token (pq_env q)\<rparr>)"

definition to_origin :: "str \<Rightarrow> process_request \<Rightarrow> process_request" where
  "to_origin origin q =
     q\<lparr>env_remove := filter (\<lambda>name. name \<noteq> ''ENTIRE_API_BASE_URL'') (env_remove q),
       pq_env := bt_insert ''ENTIRE_API_BASE_URL'' origin (pq_env q)\<rparr>"

definition request_for :: "entire_reader \<Rightarrow> str \<Rightarrow> str option \<Rightarrow> str \<Rightarrow> store_error + process_request" where
  "request_for er token origin endpoint =
     (let q = api_request er token (origin \<noteq> None) endpoint in
      case origin of
        None \<Rightarrow> Inr q
      | Some given \<Rightarrow> bindE (map_errE Message (entire_api_origin (er_url er) given)) (\<lambda>cell. Inr (to_origin cell q)))"

definition entire_request :: "entire_reader \<Rightarrow> str \<Rightarrow> str option \<Rightarrow> str \<Rightarrow> bytes running" where
  "entire_request er token origin endpoint =
     failQ (bad_endpoint er endpoint) ''invalid relative Entire API endpoint''
     (bindQ (liftQ (request_for er token origin endpoint)) (\<lambda>q.
      bindQ (askQ (er_run er) q) (\<lambda>out.
      (let status = include_status (po_stderr out) in
       failQ (\<not> exit_success (po_status out) \<or> (case status of None \<Rightarrow> True | Some s \<Rightarrow> \<not> (200 \<le> s \<and> s < 300)))
         (read_failure status)
       (liftQ (Inr (po_stdout out)))))))"

definition entire_json :: "entire_reader \<Rightarrow> str \<Rightarrow> str option \<Rightarrow> str \<Rightarrow> doc running" where
  "entire_json er token origin endpoint =
     bindQ (entire_request er token origin endpoint) (\<lambda>body.
     liftQ (okE (Message ''Entire returned invalid JSON for an API read'') (er_json er body)))"

definition entire_account :: "entire_reader \<Rightarrow> str \<Rightarrow> str running" where
  "entire_account er token =
     bindQ (entire_json er token None ''/api/v1/me'') (\<lambda>account.
     bindQ (liftQ (entire_text account ''/global/accountId'')) (\<lambda>i.
     failQ (\<not> opaque_id i) ''Entire did not return an account identity'' (liftQ (Inr i))))"

section \<open>Repositories and trails\<close>

definition directory_name :: "doc \<Rightarrow> str \<Rightarrow> str \<Rightarrow> str \<Rightarrow> str \<Rightarrow> str option" where
  "directory_name row fg project repo provider =
     Option.bind (doc_str (doc_get row ''full_name'')) (\<lambda>full.
     if (case doc_lookup row ''provider'' of None \<Rightarrow> False | Some v \<Rightarrow> doc_str v \<noteq> Some provider) then None
     else Option.bind
       (case split_on CHR ''/'' full of
          [owner, name] \<Rightarrow> if doc_is row ''provider'' provider then Some (owner, name) else None
        | [namespace, owner, name] \<Rightarrow> if namespace = fg then Some (owner, name) else None
        | _ \<Rightarrow> None) (\<lambda>(owner, name).
       if eq_ignore_ascii_case owner project \<and> eq_ignore_ascii_case name repo then Some name else None))"

definition forge_provider :: "str \<Rightarrow> str" where
  "forge_provider fg = (if fg = ''et'' then ''entire'' else ''github'')"

definition repository_row :: "doc \<Rightarrow> trail_address \<Rightarrow> str \<Rightarrow> store_error + doc" where
  "repository_row directory a repo =
     bindE (okE (Message ''Entire repository directory has no repos array'') (doc_array (doc_get directory ''repos''))) (\<lambda>rows.
     failIf (doc_bool (doc_get directory ''truncated'') = Some True \<or>
             (case doc_str (doc_get directory ''nextPageToken'') of None \<Rightarrow> False | Some s \<Rightarrow> s \<noteq> []))
       (Message ''Entire's exact repository lookup was incomplete; retry before opening this Change'')
     (case filter (\<lambda>r. directory_name r (ta_forge a) (ta_project a) repo (forge_provider (ta_forge a)) \<noteq> None) rows of
        [row] \<Rightarrow> Inr row
      | _ \<Rightarrow> Inl (Message ''Entire could not resolve one accessible repository with this forge-qualified name'')))"

definition repository_of :: "entire_reader \<Rightarrow> trail_address \<Rightarrow> str \<Rightarrow> doc \<Rightarrow> store_error + entire_repository" where
  "repository_of er a repo row =
     bindE (entire_text row ''/id'') (\<lambda>i.
     failIf (\<not> opaque_id i) (Message ''Entire returned an invalid repository identity'')
     (bindE (entire_text row ''/primaries/processing'') (\<lambda>primary.
      failIf (\<not> placement_ok primary) (Message ''Entire repository has no usable processing-primary placement'')
     (bindE (okE (Message ''Entire repository has no placements'') (doc_array (doc_get row ''placements''))) (\<lambda>placements.
      case filter (\<lambda>p. doc_is p ''id'' primary) placements of
        [placement] \<Rightarrow>
          failIf (\<not> doc_is placement ''status'' ''ready'')
            (Message ''Entire's processing-primary placement is not ready; retry when indexing completes'')
          (bindE (entire_text placement ''/apiBaseUrl'') (\<lambda>base.
           bindE (map_errE Message (entire_api_origin (er_url er) base)) (\<lambda>origin.
           bindE (okE (Message ''invalid Entire repository name'')
             (directory_name row (ta_forge a) (ta_project a) repo (forge_provider (ta_forge a)))) (\<lambda>canonical.
           failIf (\<not> entire_repo_name canonical) (Message ''invalid Entire repository name'')
             (Inr \<lparr>ep_id = i, ep_placement = primary, ep_origin = origin, ep_name = canonical\<rparr>)))))
      | _ \<Rightarrow> Inl (Message ''Entire processing primary is absent or ambiguous in its placement directory''))))))"

definition entire_repository_read :: "entire_reader \<Rightarrow> str \<Rightarrow> trail_address \<Rightarrow> str \<Rightarrow> entire_repository running" where
  "entire_repository_read er token a repo =
     failQ (\<not> entire_repo_name repo) ''invalid Entire repository name''
     (bindQ (entire_json er token None (entire_query er ''/api/v1/repos''
        [(''filter'', ta_forge a @ ''/'' @ ta_project a @ ''/'' @ repo)])) (\<lambda>directory.
      bindQ (liftQ (repository_row directory a repo)) (\<lambda>row.
      liftQ (repository_of er a repo row))))"

definition partial_marker :: "doc \<Rightarrow> store_error + bool" where
  "partial_marker detail =
     (case doc_lookup detail ''isPossiblyPartial'' of
        None \<Rightarrow> Inr False
      | Some (DBool b) \<Rightarrow> Inr b
      | Some _ \<Rightarrow> Inl (Message ''Entire project Trail has an invalid access-filtering marker''))"

definition listed_change_urls :: "trail_address \<Rightarrow> doc list \<Rightarrow> str list" where
  "listed_change_urls a changes =
     take 10 (List.map_filter (\<lambda>c.
       Option.bind (doc_str (doc_get c ''repository'')) (\<lambda>repo.
       if \<not> entire_repo_name repo then None else map_option (change_url a repo) (change_number c))) changes)"

definition change_wanted :: "(str \<times> nat) option \<Rightarrow> doc \<Rightarrow> bool" where
  "change_wanted wanted c =
     (case wanted of
        None \<Rightarrow> True
      | Some (repo, number) \<Rightarrow>
          (case doc_str (doc_get c ''repository'') of None \<Rightarrow> False | Some r \<Rightarrow> eq_ignore_ascii_case r repo) \<and>
          doc_u64 (doc_get c ''number'') = Some number)"

type_synonym chosen_change = "str \<times> nat \<times> str \<times> str"

definition change_identity :: "doc \<Rightarrow> store_error + chosen_change" where
  "change_identity c =
     bindE (entire_text c ''/repository'') (\<lambda>repo.
     bindE (entire_text c ''/id'') (\<lambda>i.
     bindE (entire_text c ''/repositoryId'') (\<lambda>placement.
     bindE (okE (Message ''Entire Change has no valid number'') (change_number c)) (\<lambda>number.
     failIf (\<not> entire_repo_name repo \<or> \<not> opaque_id i \<or> \<not> placement_ok placement)
       (Message ''Entire Change has an unsupported repository or Change identity'')
       (Inr (repo, number, i, placement))))))"

definition select_project_change :: "trail_address \<Rightarrow> doc \<Rightarrow> (str \<times> nat) option \<Rightarrow> store_error + chosen_change" where
  "select_project_change a detail wanted =
     bindE (okE (Message ''Entire project Trail did not provide its readable Changes'') (doc_array (doc_get detail ''changes''))) (\<lambda>changes.
     failIf (length changes > 10000) (Message ''Entire project Trail exceeds the Change safety limit'')
     (bindE (partial_marker detail) (\<lambda>possibly_partial.
      if wanted = None \<and> (length changes \<noteq> 1 \<or> possibly_partial) then
        (let urls = listed_change_urls a changes in
         Inl (Message (''This Entire Trail has multiple, missing, or potentially access-filtered Changes. Open an explicit Change URL'' @
           (if urls = [] then ''.'' else '': '' @ join_with '' ; '' urls))))
      else
        (case filter (change_wanted wanted) changes of
           [c] \<Rightarrow> change_identity c
         | _ \<Rightarrow> Inl (Message ''This project Trail does not expose exactly one matching Change; open the Change from Entire'')))))"

definition entire_project :: "entire_reader \<Rightarrow> str \<Rightarrow> trail_address \<Rightarrow> nat \<Rightarrow> (project_trail \<times> doc) running" where
  "entire_project er token a number =
     bindQ (entire_json er token None (''/api/v1/projects/resolve/'' @ ta_forge a @ ''/'' @ ta_project a)) (\<lambda>resolved.
     failQ (\<not> doc_is (doc_get resolved ''reference'') ''host'' (ta_forge a)) ''Entire resolved a different project identity''
     (bindQ (liftQ (entire_text resolved ''/reference/project'')) (\<lambda>project.
      failQ (\<not> eq_ignore_ascii_case project (ta_project a)) ''Entire resolved a different project identity''
     (bindQ (liftQ (entire_text resolved ''/project/id'')) (\<lambda>project_id.
      failQ (\<not> placement_ok project_id) ''Entire project has no stable identity''
     (bindQ (liftQ (entire_text resolved ''/project/primaryProcessingCell'')) (\<lambda>_.
      bindQ (liftQ (entire_text resolved ''/project/region'')) (\<lambda>_.
      bindQ (liftQ (bindE (entire_text resolved ''/project/apiUrl'') (\<lambda>u. map_errE Message (entire_api_origin (er_url er) u)))) (\<lambda>origin.
      (let endpoint = entire_query er (''/api/v1/'' @ ta_forge a @ ''/'' @ ta_project a @ ''/trails/'' @ show_nat number)
             [(''project_id'', project_id)] in
       bindQ (entire_json er token (Some origin) endpoint) (\<lambda>detail.
       failQ (\<not> doc_is detail ''projectId'' project_id \<or> doc_u64 (doc_get detail ''number'') \<noteq> Some number)
         ''Entire returned a different project Trail''
       (bindQ (liftQ (entire_text detail ''/id'')) (\<lambda>i.
        failQ (\<not> placement_ok i) ''Entire project Trail has no stable identity''
        (liftQ (Inr (\<lparr>pt_origin = origin, pt_project_id = project_id, pt_id = i, pt_endpoint = endpoint,
           pt_forge = ta_forge a, pt_name = ta_project a, pt_number = number\<rparr>, detail))))))))))))))))"

definition direct_change :: "str \<Rightarrow> nat \<Rightarrow> nat option \<Rightarrow> selected" where
  "direct_change repo number parent_number = \<lparr>se_repo = repo, se_number = number, se_change_id = None, se_placement = None,
     se_project = None, se_parent_number = parent_number\<rparr>"

definition entire_select :: "entire_reader \<Rightarrow> str \<Rightarrow> trail_address \<Rightarrow> selected running" where
  "entire_select er token a =
     (case ta_selection a of
        TrailRepository repo number \<Rightarrow> liftQ (Inr (direct_change repo number None))
      | TrailProject parent (Some (repo, number)) \<Rightarrow> liftQ (Inr (direct_change repo number (Some parent)))
      | TrailProject number None \<Rightarrow>
          bindQ (entire_project er token a number) (\<lambda>(project, detail).
          bindQ (liftQ (select_project_change a detail None)) (\<lambda>(repo, change, i, placement).
          liftQ (Inr \<lparr>se_repo = repo, se_number = change, se_change_id = Some i, se_placement = Some placement,
            se_project = Some project, se_parent_number = Some (pt_number project)\<rparr>))))"

section \<open>Pins\<close>

definition parent_expected :: "project_trail \<Rightarrow> trail_parent \<Rightarrow> str \<Rightarrow> bool" where
  "parent_expected e p project \<longleftrightarrow> tp_id p = pt_id e \<and> tp_project_id p = pt_project_id e \<and> tp_forge p = pt_forge e \<and>
     eq_ignore_ascii_case project (pt_name e) \<and> tp_number p = pt_number e"

definition parent_read :: "doc \<Rightarrow> selected \<Rightarrow> trail_address \<Rightarrow> store_error + trail_parent option" where
  "parent_read v sel a =
     (case doc_get v ''parent'' of
        DNull \<Rightarrow>
          failIf (se_parent_number sel \<noteq> None)
            (Message ''Entire Change does not expose the parent needed to verify this project Trail URL; open its repository-scoped URL instead'')
            (Inr None)
      | parent \<Rightarrow>
          bindE (entire_text parent ''/id'') (\<lambda>i.
          bindE (entire_text parent ''/project_id'') (\<lambda>project_id.
          bindE (entire_text parent ''/host'') (\<lambda>fg.
          bindE (entire_text parent ''/project'') (\<lambda>project.
          bindE (okE (Message ''Entire Change has an invalid project Trail number'') (change_number parent)) (\<lambda>number.
          (let p = \<lparr>tp_id = i, tp_project_id = project_id, tp_forge = fg, tp_project = to_ascii_lowercase project, tp_number = number\<rparr>;
               inconsistent = Message ''Entire Change has inconsistent project parent identity'' in
           failIf (\<not> placement_ok i \<or> \<not> placement_ok project_id \<or> fg \<noteq> ta_forge a \<or>
                   \<not> eq_ignore_ascii_case project (ta_project a) \<or> \<not> project_name project) inconsistent
           (bindE (entire_text parent ''/path'') (\<lambda>path.
            failIf (path \<noteq> ''/api/v1/'' @ fg @ ''/'' @ tp_project p @ ''/trails/'' @ i) inconsistent
           (failIf (case se_parent_number sel of None \<Rightarrow> False | Some expected \<Rightarrow> expected \<noteq> number)
              (Message ''Entire Change has a different project Trail number'')
           (failIf (case se_project sel of None \<Rightarrow> False | Some e \<Rightarrow> \<not> parent_expected e p project)
              (Message ''Entire Change does not confirm its selected project parent identity'')
              (Inr (Some p)))))))))))))"

definition pins_read :: "doc \<Rightarrow> selected \<Rightarrow> trail_address \<Rightarrow> store_error + pins" where
  "pins_read v sel a =
     bindE (entire_text v ''/id'') (\<lambda>i.
     failIf (\<not> opaque_id i \<or> doc_u64 (doc_get v ''number'') \<noteq> Some (se_number sel) \<or>
             (case se_change_id sel of None \<Rightarrow> False | Some expected \<Rightarrow> expected \<noteq> i))
       (Message ''Entire returned a different Change identity'')
     (bindE (parent_read v sel a) (\<lambda>parent.
      bindE (entire_text v ''/base_sha'') (\<lambda>base.
      bindE (entire_text v ''/head_sha'') (\<lambda>head.
      bindE (entire_text v ''/merge_base_sha'') (\<lambda>merge_base.
      failIf (\<not> list_all commit_id_ok [base, head, merge_base] \<or> length base \<noteq> length head \<or> length base \<noteq> length merge_base)
        (Message ''Entire has not supplied a complete immutable Change snapshot; retry after indexing completes'')
     (bindE (entire_text v ''/status'') (\<lambda>status.
      failIf (status \<notin> {''open'', ''draft'', ''closed'', ''merged''})
        (Message ''Entire returned an unsupported Change lifecycle status'')
        (Inr \<lparr>pin_id = i, pin_base = base, pin_head = head, pin_merge_base = merge_base, pin_status = status,
          pin_parent = parent\<rparr>)))))))))"

section \<open>The comparison\<close>

fun comparison_files :: "str set \<Rightarrow> changed_file list \<Rightarrow> store_error + unit" where
  "comparison_files seen [] = Inr ()"
| "comparison_files seen (f # fs) =
     bindE (map_errE Message (repo_path_new (cf_path f))) (\<lambda>_.
     failIf (cf_path f \<in> seen) (Message ''Entire comparison repeats a file path'')
    (failIf (cf_status f \<notin> {''added'', ''modified'', ''removed'', ''renamed''})
       (Message ''Entire comparison contains an unsupported file status'')
    (bindE (if cf_status f = ''renamed''
            then bindE (okE (Message ''Entire rename has no previousPath'') (cf_previous f)) (\<lambda>p. map_errE Message (repo_path_new p))
            else Inr (RepoPath (cf_path f))) (\<lambda>_.
     comparison_files (insert (cf_path f) seen) fs))))"

definition comparison_validate :: "comparison \<Rightarrow> store_error + unit" where
  "comparison_validate c =
     failIf (length (cmp_files c) > 10000) (Message ''Entire comparison exceeds the file safety limit'')
       (comparison_files {} (cmp_files c))"

definition file_warnings :: "str set \<Rightarrow> changed_file \<Rightarrow> str list" where
  "file_warnings actual f =
     (let path = path_display (RepoPath (cf_path f)) in
      (if cf_too_large f
       then [''Entire omitted size-limited comparison data for '' @ path @ ''; its full changes are not promised.''] else []) @
      (if cf_binary f \<and> cf_path f \<notin> actual
       then [''Entire lists a binary change absent from the diff: '' @ path] else []))"

definition comparison_warnings :: "comparison \<Rightarrow> patch_report \<Rightarrow> store_error + str list" where
  "comparison_warnings c patch =
     bindE (okE AdapterPanic (patch_names patch)) (\<lambda>names.
     (let expected = set (map cf_path (cmp_files c)); actual = set names in
      Inr ((if cmp_truncated c
            then [''Entire truncated its comparison metadata; this snapshot cannot claim complete file coverage.''] else []) @
           (if expected \<noteq> actual
            then [''Entire file coverage disagrees: '' @ show_nat (card expected) @ '' listed files, '' @ show_nat (card actual) @
                  '' files in the diff. Some changed files may be unavailable.''] else []) @
           concat (map (file_warnings actual) (cmp_files c)))))"

section \<open>A snapshot\<close>

definition change_endpoint :: "entire_repository \<Rightarrow> selected \<Rightarrow> str" where
  "change_endpoint r sel = ''/api/v1/repos/'' @ ep_placement r @ ''/trails/'' @ show_nat (se_number sel)"

definition git_endpoint :: "entire_reader \<Rightarrow> entire_repository \<Rightarrow> str \<Rightarrow> pins \<Rightarrow> (str \<times> str) list \<Rightarrow> str" where
  "git_endpoint er r kind p extra =
     entire_query er (''/api/v1/git/repos/'' @ ep_placement r @ kind) ([(''base'', pin_merge_base p), (''head'', pin_head p)] @ extra)"

definition sessions_endpoint :: "entire_reader \<Rightarrow> entire_repository \<Rightarrow> pins \<Rightarrow> str" where
  "sessions_endpoint er r p =
     entire_query er (''/api/v1/repos/'' @ ep_placement r @ ''/sessions'')
       [(''base'', pin_merge_base p), (''head'', pin_head p), (''limit'', ''10'')]"

definition trail_web_address :: "trail_address \<Rightarrow> entire_repository \<Rightarrow> selected \<Rightarrow> pins \<Rightarrow> str" where
  "trail_web_address a r sel p =
     (case pin_parent p of
        Some parent \<Rightarrow> ''https://entire.com/'' @ tp_forge parent @ ''/'' @ tp_project parent @ ''/-/trails/'' @ show_nat (tp_number parent) @
          ''/changes/'' @ ep_name r @ ''/'' @ show_nat (se_number sel)
      | None \<Rightarrow> change_url a (ep_name r) (se_number sel))"

definition entire_target_of :: "trail_address \<Rightarrow> entire_repository \<Rightarrow> selected \<Rightarrow> pins \<Rightarrow> entire_target" where
  "entire_target_of a r sel p =
     \<lparr>forge = ta_forge a, repository_id = ep_id r, placement_id = ep_placement r, change_id = pin_id p,
      api_origin = ep_origin r, entire_address = trail_web_address a r sel p,
      project_trail_id = map_option tp_id (pin_parent p)\<rparr>"

definition entire_remote :: "trail_address \<Rightarrow> entire_repository \<Rightarrow> selected \<Rightarrow> pins \<Rightarrow> str \<Rightarrow> doc \<Rightarrow> remote_target" where
  "entire_remote a r sel p account after =
     \<lparr>rt_provider = ENTIRE,
      rt_repository = \<lparr>repo_host = ''entire.com'', repo_id = 0, repo_owner = ta_project a, repo_name = ep_name r\<rparr>,
      rt_account = account, rt_pr = se_number sel, target_tip = pin_base p, comparison_base = pin_merge_base p, rt_head = pin_head p,
      rt_open = (pin_status p \<in> {''open'', ''draft''}),
      rt_draft = (pin_status p = ''draft'' \<or> doc_bool (doc_get after ''ready_for_review'') = Some False),
      rt_merged = (pin_status p = ''merged''), pending_review = False, rt_compare = None,
      rt_entire = Some (entire_target_of a r sel p)\<rparr>"

definition NOT_IMPORTED :: str where
  "NOT_IMPORTED = ''Entire findings, discussions, and full session transcripts are not imported yet.''"

definition entire_overview :: "entire_reader \<Rightarrow> doc \<Rightarrow> str \<Rightarrow> store_error + doc \<Rightarrow> overview" where
  "entire_overview er after head sessions =
     (let ov = default_overview\<lparr>ov_description := Option.bind (doc_pointer after ''/body_document/text_snapshot'') doc_str,
            ov_author := Option.bind (doc_pointer after ''/author/login'') doc_str, ov_captured_at := Some (er_now er)\<rparr>;
          ov1 = context_apply (er_evidence er) (doc_get after ''mergeability'') head ov;
          ov2 = (case sessions of Inr response \<Rightarrow> sessions_apply response ov1 | Inl _ \<Rightarrow> add_notice ov1 UNAVAILABLE) in
      ov2\<lparr>ov_notices := ov_notices ov2 @ [READ_ONLY, NOT_IMPORTED]\<rparr>)"

definition entire_snapshot_of :: "entire_reader \<Rightarrow> 'a codec_scheme \<Rightarrow> trail_address \<Rightarrow> entire_repository \<Rightarrow> selected \<Rightarrow> pins \<Rightarrow> str \<Rightarrow>
    doc \<Rightarrow> patch_report \<Rightarrow> comparison \<Rightarrow> store_error + doc \<Rightarrow> store_error + snapshot" where
  "entire_snapshot_of er c a r sel p account after patch coverage sessions =
     bindE (entire_text after ''/title'') (\<lambda>title.
     bindE (comparison_warnings coverage patch) (\<lambda>warnings.
     Inr ((with_origin c
         (title @ middle_dot @ ta_forge a @ ''/'' @ ta_project a @ ''/'' @ ep_name r @ '' Change #'' @ show_nat (se_number sel))
         patch (Some (entire_remote a r sel p account after)) []
         (''entire:'' @ ta_forge a @ '':'' @ ep_id r @ '':'' @ ep_placement r @ '':'' @ pin_id p))
       \<lparr>snap_warnings := warnings, snap_overview := entire_overview er after (pin_head p) sessions\<rparr>)))"

text \<open>The project trail, when the change was chosen from one, still has the same identity and the same single choice.\<close>

definition still_selected :: "entire_reader \<Rightarrow> str \<Rightarrow> trail_address \<Rightarrow> selected \<Rightarrow> unit running" where
  "still_selected er token a sel =
     (case se_project sel of
        None \<Rightarrow> liftQ (Inr ())
      | Some project \<Rightarrow>
          bindQ (entire_json er token (Some (pt_origin project)) (pt_endpoint project)) (\<lambda>current.
          failQ (\<not> doc_is current ''id'' (pt_id project) \<or> \<not> doc_is current ''projectId'' (pt_project_id project))
            ''Entire project Trail identity changed during capture''
          (bindQ (liftQ (select_project_change a current
               (case ta_selection a of TrailProject _ change \<Rightarrow> change | TrailRepository _ _ \<Rightarrow> None))) (\<lambda>(repo, number, i, placement).
           failQ (\<not> eq_ignore_ascii_case repo (se_repo sel) \<or> number \<noteq> se_number sel \<or>
                  Some i \<noteq> se_change_id sel \<or> Some placement \<noteq> se_placement sel)
             ''Entire project Trail changed its selected Change during capture''
           (liftQ (Inr ()))))))"

definition entire_coverage :: "entire_reader \<Rightarrow> str \<Rightarrow> entire_repository \<Rightarrow> pins \<Rightarrow> comparison running" where
  "entire_coverage er token r p =
     bindQ (entire_json er token (Some (ep_origin r)) (git_endpoint er r ''/compare'' p [(''includeStats'', ''true'')])) (\<lambda>compare.
     bindQ (liftQ (okE (Message ''Entire comparison metadata has an unsupported shape'') (er_comparison er compare))) (\<lambda>coverage.
     bindQ (liftQ (comparison_validate coverage)) (\<lambda>_.
     liftQ (Inr coverage))))"

definition entire_patch :: "entire_reader \<Rightarrow> 'a codec_scheme \<Rightarrow> str \<Rightarrow> entire_repository \<Rightarrow> pins \<Rightarrow> comparison \<Rightarrow> patch_report running" where
  "entire_patch er c token r p coverage =
     bindQ (entire_request er token (Some (ep_origin r)) (git_endpoint er r ''/diff'' p [])) (\<lambda>body.
     bindQ (liftQ (map_errE PatchFailed (parse_patch (sha256 c) body default_limits))) (\<lambda>patch.
     failQ (files patch = [] \<and> (cmp_files coverage \<noteq> [] \<or> cmp_truncated coverage))
       ''Entire returned an empty diff for an incomplete or nonempty comparison; no snapshot was installed''
     (liftQ (Inr patch))))"

definition cancelledQ :: "entire_reader \<Rightarrow> bool running" where
  "cancelledQ er log = (Inr (er_cancelled er (length log)), log)"

text \<open>One pass of the loop: nothing when the pins moved between the two reads of the change.\<close>

definition capture_once :: "entire_reader \<Rightarrow> 'a codec_scheme \<Rightarrow> trail_address \<Rightarrow> str \<Rightarrow> str \<Rightarrow> selected \<Rightarrow> entire_repository \<Rightarrow>
    snapshot option running" where
  "capture_once er c a token account sel r =
     bindQ (entire_json er token (Some (ep_origin r)) (change_endpoint r sel)) (\<lambda>before.
     bindQ (liftQ (pins_read before sel a)) (\<lambda>p.
     bindQ (entire_coverage er token r p) (\<lambda>coverage.
     bindQ (entire_patch er c token r p coverage) (\<lambda>patch.
     bindQ (tryQ (entire_json er token (Some (ep_origin r)) (sessions_endpoint er r p))) (\<lambda>sessions.
     bindQ (cancelledQ er) (\<lambda>cancelled.
     failQ cancelled ''Entire capture was cancelled''
     (bindQ (entire_json er token (Some (ep_origin r)) (change_endpoint r sel)) (\<lambda>after.
      bindQ (liftQ (pins_read after sel a)) (\<lambda>p'.
      if p' \<noteq> p then liftQ (Inr None)
      else
      bindQ (entire_repository_read er token a (se_repo sel)) (\<lambda>r'.
      failQ (r' \<noteq> r) ''Entire repository identity or primary placement changed during capture; reopen the Trail''
      (bindQ (still_selected er token a sel) (\<lambda>_.
       bindQ (entire_login er) (\<lambda>still.
       bindQ (entire_account er still) (\<lambda>account'.
       failQ (account' \<noteq> account) ''The Entire account changed while the snapshot was captured''
       (bindQ (liftQ (entire_snapshot_of er c a r sel p account after patch coverage sessions)) (\<lambda>s.
        liftQ (Inr (Some s))))))))))))))))))"

fun capture_loop :: "nat \<Rightarrow> entire_reader \<Rightarrow> 'a codec_scheme \<Rightarrow> trail_address \<Rightarrow> str \<Rightarrow> str \<Rightarrow> selected \<Rightarrow> entire_repository \<Rightarrow>
    snapshot running" where
  "capture_loop 0 er c a token account sel r =
     liftQ (Inl (Message ''The Entire Change moved throughout capture; the existing session and its drafts are unchanged''))"
| "capture_loop (Suc left) er c a token account sel r =
     bindQ (capture_once er c a token account sel r) (\<lambda>found.
     case found of Some s \<Rightarrow> liftQ (Inr s) | None \<Rightarrow> capture_loop left er c a token account sel r)"

definition entire_snapshot :: "entire_reader \<Rightarrow> 'a codec_scheme \<Rightarrow> trail_address \<Rightarrow> snapshot running" where
  "entire_snapshot er c a =
     bindQ (entire_login er) (\<lambda>token.
     bindQ (entire_account er token) (\<lambda>account.
     bindQ (entire_select er token a) (\<lambda>sel.
     bindQ (entire_repository_read er token a (se_repo sel)) (\<lambda>r.
     failQ (case se_placement sel of None \<Rightarrow> False | Some p \<Rightarrow> p \<noteq> ep_placement r)
       ''Entire's project Change and repository directory disagree on the repository placement''
     (capture_loop 3 er c a token account sel r)))))"

section \<open>The bytes of a file\<close>

definition MAX_RESPONSE :: nat where
  "MAX_RESPONSE = 32 * 1024 * 1024"

definition CURL_STATUS :: bytes where
  "CURL_STATUS = LF # ''DIFFZ_ENTIRE_HTTP:''"

definition raw_body :: "bytes \<Rightarrow> store_error + bytes" where
  "raw_body bs =
     (let suffix = length CURL_STATUS + 3; start = length bs - suffix in
      failIf (length bs < suffix) (Message ''Entire raw source returned no HTTP status'')
     (failIf (take (length CURL_STATUS) (drop start bs) \<noteq> CURL_STATUS)
        (Message ''Entire raw source returned an incomplete HTTP response'')
     (failIf (drop (length bs - 3) bs \<noteq> ''200'')
        (Message ''Entire raw source was unavailable at the captured revision; reopen the Trail or check repository access'')
     (failIf (length (take start bs) > MAX_RESPONSE) (Message ''Entire source exceeds the 32 MiB safety limit'')
        (Inr (take start bs))))))"

definition CURL_OPTIONS :: "str list" where
  "CURL_OPTIONS = [''--disable'', ''--silent'', ''--show-error'', ''--globoff'', ''--path-as-is'', ''--proto'', ''=https'',
     ''--proto-redir'', ''=https'', ''--max-redirs'', ''0'', ''--connect-timeout'', ''10'', ''--max-time'', ''60'',
     ''--max-filesize'', ''33554432'', ''--request'', ''GET'', ''--header'', ''Accept: application/octet-stream'',
     ''--config'', ''-'', ''--url'']"

definition curl_request :: "os_string \<Rightarrow> str \<Rightarrow> str \<Rightarrow> process_request" where
  "curl_request curl token address =
     (with_args (CURL_OPTIONS @ [address, ''--write-out'', CURL_STATUS @ ''%{http_code}'']) (request_new curl))
       \<lparr>pq_stdin := ''header = '' @ [CHR 0x22] @ ''Authorization: Bearer '' @ token @ [CHR 0x22, LF], deadline_secs := 65,
         stdout_limit := MAX_RESPONSE + length CURL_STATUS + 3\<rparr>"

definition source_endpoint :: "entire_reader \<Rightarrow> entire_target \<Rightarrow> str \<Rightarrow> str \<Rightarrow> str" where
  "source_endpoint er t path revision =
     entire_query er (''/api/v1/git/repos/'' @ placement_id t @ ''/raw/'' @ encode path) [(''ref'', revision)]"

definition entire_source :: "entire_reader \<Rightarrow> remote_target \<Rightarrow> str \<Rightarrow> str \<Rightarrow> bytes running" where
  "entire_source er target path revision =
     failQ (rt_provider target \<noteq> ENTIRE) ''source target is not Entire''
     (bindQ (liftQ (okE (Message ''Entire source identity is missing; reopen the Trail'') (rt_entire target))) (\<lambda>t.
      bindQ (liftQ (map_errE Message (entire_api_origin (er_url er) (api_origin t)))) (\<lambda>origin.
      failQ (\<not> placement_ok (placement_id t) \<or> \<not> commit_id_ok revision \<or>
             (revision \<noteq> rt_head target \<and> revision \<noteq> comparison_base target))
        ''Entire source must use this snapshot's exact immutable revision''
      (bindQ (liftQ (map_errE Message (repo_path_new path))) (\<lambda>_.
       failQ (BACKSLASH \<in> set path) ''backslashes in Entire source paths are not supported''
       (bindQ (liftQ (okE (Message ''Install curl to read byte-exact Entire source context'') (er_curl er))) (\<lambda>curl.
        bindQ (entire_login er) (\<lambda>token.
        bindQ (entire_account er token) (\<lambda>account.
        failQ (account \<noteq> rt_account target) ''The selected Entire account differs from this snapshot; reopen the Trail''
        (bindQ (askQ (er_run er) (curl_request curl token (origin @ source_endpoint er t path revision))) (\<lambda>out.
         failQ (\<not> exit_success (po_status out)) ''Entire raw source read failed; check access and network connectivity''
         (liftQ (raw_body (po_stdout out))))))))))))))"

section \<open>What a computation runs\<close>

named_theorems running_intros "introduction rules for the processes of a computation"

text \<open>The log only grows, and by allowed processes.\<close>

definition runs_only :: "(process_request \<Rightarrow> bool) \<Rightarrow> 'a running \<Rightarrow> bool" where
  "runs_only P m \<longleftrightarrow> (\<forall>log. \<exists>qs. snd (m log) = log @ qs \<and> list_all P qs)"

lemma runs_onlyE:
  assumes "runs_only P m" "m log = (r, log')"
  obtains qs where "log' = log @ qs" "list_all P qs"
  using assms unfolding runs_only_def by (metis snd_conv)

lemma runs_bind [running_intros]:
  assumes "runs_only P m" "\<And>x. runs_only P (f x)"
  shows "runs_only P (bindQ m f)"
  unfolding runs_only_def
proof
  fix log
  obtain r l where m: "m log = (r, l)" by fastforce
  obtain qs where qs: "l = log @ qs" "list_all P qs" using runs_onlyE [OF assms(1) m] .
  show "\<exists>qs. snd (bindQ m f log) = log @ qs \<and> list_all P qs"
  proof (cases r)
    case Inl
    with m qs show ?thesis by (simp add: bindQ_def)
  next
    case (Inr x)
    obtain r' l' where f: "f x l = (r', l')" by fastforce
    obtain ps where "l' = l @ ps" "list_all P ps" using runs_onlyE [OF assms(2) f] .
    with m qs Inr f show ?thesis by (simp add: bindQ_def)
  qed
qed

lemma runs_lift [running_intros]: "runs_only P (liftQ r)"
  by (simp add: runs_only_def liftQ_def)

lemma runs_ask [running_intros]: "P q \<Longrightarrow> runs_only P (askQ run q)"
  by (simp add: runs_only_def askQ_def)

lemma runs_try [running_intros]: "runs_only P m \<Longrightarrow> runs_only P (tryQ m)"
  by (auto simp: runs_only_def tryQ_def split_beta)

lemma runs_cancelled [running_intros]: "runs_only P (cancelledQ er)"
  by (simp add: runs_only_def cancelledQ_def)

lemma runs_fail [running_intros]: "(\<not> b \<Longrightarrow> runs_only P m) \<Longrightarrow> runs_only P (failQ b e m)"
  by (simp add: failQ_def runs_lift)

lemma runs_if [running_intros]: "(b \<Longrightarrow> runs_only P x) \<Longrightarrow> (\<not> b \<Longrightarrow> runs_only P y) \<Longrightarrow> runs_only P (if b then x else y)"
  by simp

lemma runs_bind_lift: "(\<And>x. r = Inr x \<Longrightarrow> runs_only P (f x)) \<Longrightarrow> runs_only P (bindQ (liftQ r) f)"
  by (cases r) (simp_all add: runs_only_def bindQ_def liftQ_def)

text \<open>
  What every user of the command line may run: the login and the reads at a checked endpoint, through the service's own
  host or through an origin that was checked.
\<close>

locale reading =
  fixes er :: entire_reader and allowed :: "process_request \<Rightarrow> bool"
  assumes login_allowed: "allowed (login_request er)"
    and core_allowed: "\<not> bad_endpoint er e \<Longrightarrow> allowed (api_request er token False e)"
    and cell_allowed: "\<not> bad_endpoint er e \<Longrightarrow> entire_api_origin (er_url er) given = Inr origin \<Longrightarrow>
      allowed (to_origin origin (api_request er token True e))"
begin

lemma runs_login [running_intros]: "runs_only allowed (entire_login er)"
  unfolding entire_login_def by (intro running_intros login_allowed)

lemma runs_request [running_intros]: "runs_only allowed (entire_request er token origin e)"
  unfolding entire_request_def Let_def
proof (intro runs_fail runs_bind_lift runs_bind runs_ask runs_lift)
  fix q assume e: "\<not> bad_endpoint er e" and q: "request_for er token origin e = Inr q"
  from q show "allowed q"
    by (cases origin) (auto simp: request_for_def bind_simps core_allowed [OF e] cell_allowed [OF e])
qed

lemma runs_json [running_intros]: "runs_only allowed (entire_json er token origin e)"
  unfolding entire_json_def by (intro running_intros)

lemma runs_account [running_intros]: "runs_only allowed (entire_account er token)"
  unfolding entire_account_def by (intro running_intros)

lemma runs_repository [running_intros]: "runs_only allowed (entire_repository_read er token a repo)"
  unfolding entire_repository_read_def by (intro running_intros)

lemma runs_project [running_intros]: "runs_only allowed (entire_project er token a number)"
  unfolding entire_project_def Let_def by (intro running_intros)

lemma runs_select [running_intros]: "runs_only allowed (entire_select er token a)"
  unfolding entire_select_def case_prod_unfold by (auto split: trail_selection.split option.split intro!: running_intros)

lemma runs_still_selected [running_intros]: "runs_only allowed (still_selected er token a sel)"
  unfolding still_selected_def case_prod_unfold by (auto split: option.split intro!: running_intros)

lemma runs_coverage [running_intros]: "runs_only allowed (entire_coverage er token r p)"
  unfolding entire_coverage_def by (intro running_intros)

lemma runs_patch [running_intros]: "runs_only allowed (entire_patch er c token r p coverage)"
  unfolding entire_patch_def by (intro running_intros)

lemma runs_capture_once [running_intros]: "runs_only allowed (capture_once er c a token account sel r)"
  unfolding capture_once_def by (intro running_intros)

lemma runs_capture_loop [running_intros]: "runs_only allowed (capture_loop left er c a token account sel r)"
  by (induction left) (auto split: option.split intro!: running_intros)

lemma runs_snapshot: "runs_only allowed (entire_snapshot er c a)"
  unfolding entire_snapshot_def by (intro running_intros)

end

interpretation any_run: reading er "\<lambda>_. True" for er
  by unfold_locales simp_all

text \<open>A host of the service that answers API requests.\<close>

definition trusted_origin :: "str \<Rightarrow> bool" where
  "trusted_origin origin \<longleftrightarrow>
     (\<exists>host. origin = https @ host \<and> (ends_with ''.api.entire.io'' host \<or> ends_with ''.api.entire.com'' host))"

lemma api_origin_trusted: "entire_api_origin u given = Inr origin \<Longrightarrow> trusted_origin origin"
  by (auto simp: entire_api_origin_def trusted_origin_def bind_simps Let_def failIf_def split: if_splits)

text \<open>
  A process that may be run: it is the \<open>entire\<close> or the \<open>curl\<close> program, reads with GET, and has the login token only
  where it goes to the service: in the environment with the API host removed or set to a trusted origin, or in a
  configuration on standard input of a \<open>curl\<close> that follows no redirect and reads one address at a trusted origin.
\<close>

definition gets_only :: "str list \<Rightarrow> bool" where
  "gets_only args \<longleftrightarrow> args = [''auth'', ''token''] \<or>
     (\<exists>cell e. args = [''api'', ''--to'', cell, ''--include'', ''--method'', ''GET'', e] \<and> starts_with ''/api/v1/'' e) \<or>
     (\<exists>address. args = CURL_OPTIONS @ [address, ''--write-out'', CURL_STATUS @ ''%{http_code}''])"

definition token_kept :: "process_request \<Rightarrow> bool" where
  "token_kept q \<longleftrightarrow>
     (bt_get ''ENTIRE_TOKEN'' (pq_env q) \<noteq> None \<longrightarrow>
       (case bt_get ''ENTIRE_API_BASE_URL'' (pq_env q) of
          None \<Rightarrow> ''ENTIRE_API_BASE_URL'' \<in> set (env_remove q)
        | Some origin \<Rightarrow> trusted_origin origin \<and> ''ENTIRE_API_BASE_URL'' \<notin> set (env_remove q))) \<and>
     (pq_stdin q \<noteq> [] \<longrightarrow>
       (\<exists>origin e. trusted_origin origin \<and> starts_with ''/api/v1/git/repos/'' e \<and>
          pq_args q = CURL_OPTIONS @ [origin @ e, ''--write-out'', CURL_STATUS @ ''%{http_code}'']))"

definition process_allowed :: "entire_reader \<Rightarrow> process_request \<Rightarrow> bool" where
  "process_allowed er q \<longleftrightarrow> (executable q = er_program er \<or> Some (executable q) = er_curl er) \<and> gets_only (pq_args q) \<and> token_kept q"

lemmas request_defs = api_request_def to_origin_def entire_command_def request_new_def with_args_def login_request_def BASE_URLS_def

lemma bad_endpoint_api: "\<not> bad_endpoint er e \<Longrightarrow> starts_with ''/api/v1/'' e"
  by (simp add: bad_endpoint_def)

interpretation safe_run: reading er "process_allowed er" for er
proof unfold_locales
  show "process_allowed er (login_request er)"
    by (simp add: process_allowed_def gets_only_def token_kept_def request_defs bt_get_def)
next
  fix e token assume "\<not> bad_endpoint er e"
  then show "process_allowed er (api_request er token False e)"
    by (auto simp: process_allowed_def gets_only_def token_kept_def request_defs bt_get_def Let_def dest: bad_endpoint_api)
next
  fix e token given origin assume "\<not> bad_endpoint er e" "entire_api_origin (er_url er) given = Inr origin"
  then show "process_allowed er (to_origin origin (api_request er token True e))"
    by (auto simp: process_allowed_def gets_only_def token_kept_def request_defs bt_get_def Let_def dest: bad_endpoint_api api_origin_trusted)
qed

lemma curl_allowed:
  assumes "er_curl er = Some curl" "entire_api_origin (er_url er) given = Inr origin"
  shows "process_allowed er (curl_request curl token (origin @ source_endpoint er t path revision))"
proof -
  have "starts_with ''/api/v1/git/repos/'' (source_endpoint er t path revision)"
    by (simp add: source_endpoint_def entire_query_def starts_with_iff)
  with api_origin_trusted [OF assms(2)] assms(1) show ?thesis
    by (auto simp: process_allowed_def gets_only_def token_kept_def curl_request_def request_new_def with_args_def bt_get_def)
qed

lemma runs_source: "runs_only (process_allowed er) (entire_source er target path revision)"
  unfolding entire_source_def
proof (intro runs_fail runs_bind_lift runs_bind runs_ask runs_lift safe_run.runs_login safe_run.runs_account)
  fix t :: entire_target and origin p curl token account
  assume "map_errE Message (entire_api_origin (er_url er) (api_origin t)) = Inr origin"
    and "okE (Message ''Install curl to read byte-exact Entire source context'') (er_curl er) = Inr curl"
  then show "process_allowed er (curl_request curl token (origin @ source_endpoint er t path revision))"
    by (intro curl_allowed) (simp_all add: bind_simps)
qed


section \<open>What a snapshot was read from\<close>

lemma bindQ_Inr [bind_simps]: "bindQ m f l = (Inr y, k) \<longleftrightarrow> (\<exists>x j. m l = (Inr x, j) \<and> f x j = (Inr y, k))"
  by (auto simp: bindQ_def split: prod.split sum.split)

lemma liftQ_Inr [bind_simps]: "liftQ r l = (Inr y, k) \<longleftrightarrow> r = Inr y \<and> k = l"
  by (auto simp: liftQ_def)

lemma failQ_Inr [bind_simps]: "failQ b e m l = (Inr y, k) \<longleftrightarrow> \<not> b \<and> m l = (Inr y, k)"
  by (auto simp: failQ_def liftQ_def)

lemma askQ_Inr [bind_simps]: "askQ run q l = (Inr y, k) \<longleftrightarrow> run (length l) q = Inr y \<and> k = l @ [q]"
  by (auto simp: askQ_def)

text \<open>The n-th process was the read of an endpoint, and this was its successful answer.\<close>

definition body_at :: "entire_reader \<Rightarrow> process_request list \<Rightarrow> nat \<Rightarrow> str \<Rightarrow> str option \<Rightarrow> str \<Rightarrow> bytes \<Rightarrow> bool" where
  "body_at er log n token origin e body \<longleftrightarrow>
     n < length log \<and> request_for er token origin e = Inr (log ! n) \<and>
     (\<exists>out. er_run er n (log ! n) = Inr out \<and> exit_success (po_status out) \<and> po_stdout out = body)"

definition json_at :: "entire_reader \<Rightarrow> process_request list \<Rightarrow> nat \<Rightarrow> str \<Rightarrow> str option \<Rightarrow> str \<Rightarrow> doc \<Rightarrow> bool" where
  "json_at er log n token origin e v \<longleftrightarrow> (\<exists>body. body_at er log n token origin e body \<and> er_json er body = Some v)"

definition account_at :: "entire_reader \<Rightarrow> process_request list \<Rightarrow> nat \<Rightarrow> str \<Rightarrow> bool" where
  "account_at er log n account \<longleftrightarrow>
     (\<exists>token v. json_at er log n token None ''/api/v1/me'' v \<and> entire_text v ''/global/accountId'' = Inr account)"

lemma request_at:
  assumes "entire_request er token origin e l = (Inr body, k)"
  shows "length k = Suc (length l) \<and> body_at er k (length l) token origin e body"
  using assms by (auto simp: entire_request_def bind_simps Let_def body_at_def)

lemma json_read_at:
  assumes "entire_json er token origin e l = (Inr v, k)"
  shows "length k = Suc (length l) \<and> json_at er k (length l) token origin e v"
  using assms by (auto simp: entire_json_def bind_simps json_at_def dest!: request_at)

lemma account_read_at:
  assumes "entire_account er token l = (Inr account, k)"
  shows "length k = Suc (length l) \<and> account_at er k (length l) account"
  using assms by (auto simp: entire_account_def bind_simps account_at_def dest!: json_read_at)

lemma body_at_later: "body_at er l n token origin e body \<Longrightarrow> prefix l k \<Longrightarrow> body_at er k n token origin e body"
  by (auto simp: body_at_def prefix_def nth_append)

lemma json_at_later: "json_at er l n token origin e v \<Longrightarrow> prefix l k \<Longrightarrow> json_at er k n token origin e v"
  by (auto simp: json_at_def intro: body_at_later)

lemma account_at_later: "account_at er l n account \<Longrightarrow> prefix l k \<Longrightarrow> account_at er k n account"
  by (auto simp: account_at_def intro: json_at_later)

lemma runs_prefix: "runs_only P m \<Longrightarrow> m l = (r, k) \<Longrightarrow> prefix l k"
  unfolding prefix_def by (metis runs_onlyE)

lemma patch_at:
  assumes "entire_patch er c token r p coverage l = (Inr patch, k)"
  shows "\<exists>body. length k = Suc (length l) \<and> body_at er k (length l) token (Some (ep_origin r)) (git_endpoint er r ''/diff'' p []) body \<and>
    parse_patch (sha256 c) body default_limits = Inr patch \<and>
    (files patch \<noteq> [] \<or> cmp_files coverage = [] \<and> \<not> cmp_truncated coverage)"
  using assms by (auto simp: entire_patch_def bind_simps dest!: request_at)

text \<open>The comparison that was read, and accepted, before process \<open>d\<close>.\<close>

definition coverage_at :: "entire_reader \<Rightarrow> process_request list \<Rightarrow> nat \<Rightarrow> str \<Rightarrow> entire_repository \<Rightarrow> pins \<Rightarrow> comparison \<Rightarrow> bool" where
  "coverage_at er log d token r p coverage \<longleftrightarrow>
     (\<exists>n v. n < d \<and> json_at er log n token (Some (ep_origin r)) (git_endpoint er r ''/compare'' p [(''includeStats'', ''true'')]) v \<and>
        er_comparison er v = Some coverage \<and> comparison_validate coverage = Inr ())"

lemma coverage_read_at:
  assumes "entire_coverage er token r p l = (Inr coverage, k)"
  shows "length k = Suc (length l) \<and> coverage_at er k (length k) token r p coverage"
proof -
  from assms obtain v where "entire_json er token (Some (ep_origin r)) (git_endpoint er r ''/compare'' p [(''includeStats'', ''true'')]) l = (Inr v, k)"
    and v: "er_comparison er v = Some coverage" "comparison_validate coverage = Inr ()"
    by (auto simp: entire_coverage_def bind_simps)
  from json_read_at [OF this(1)] have k: "length k = Suc (length l)" and
    at: "json_at er k (length l) token (Some (ep_origin r)) (git_endpoint er r ''/compare'' p [(''includeStats'', ''true'')]) v" by blast+
  have "coverage_at er k (length k) token r p coverage"
    unfolding coverage_at_def by (rule exI [of _ "length l"], rule exI [of _ v]) (simp add: k at v)
  with k show ?thesis ..
qed

lemma coverage_at_later: "coverage_at er l d token r p coverage \<Longrightarrow> prefix l k \<Longrightarrow> coverage_at er k d token r p coverage"
  unfolding coverage_at_def by (meson json_at_later)

lemma snapshot_of_fields:
  assumes "entire_snapshot_of er c a r sel p account after patch coverage sessions = Inr s"
  shows "snap_patch s = patch \<and> comparison_warnings coverage patch = Inr (snap_warnings s) \<and>
    snap_remote s = Some (entire_remote a r sel p account after) \<and> verify_identity c s"
  using assms by (auto simp: entire_snapshot_of_def bind_simps with_origin_def verify_identity_def)

text \<open>The evidence of one pass that succeeds, in the order of its processes.\<close>

definition captured :: "entire_reader \<Rightarrow> 'a codec_scheme \<Rightarrow> trail_address \<Rightarrow> process_request list \<Rightarrow> nat \<Rightarrow> str \<Rightarrow> str \<Rightarrow>
    selected \<Rightarrow> entire_repository \<Rightarrow> snapshot \<Rightarrow> bool" where
  "captured er c a log start token account sel r s \<longleftrightarrow>
     (\<exists>i d j m before p body coverage after sessions.
        start \<le> i \<and> i < d \<and> d < j \<and> j < m \<and>
        json_at er log i token (Some (ep_origin r)) (change_endpoint r sel) before \<and> pins_read before sel a = Inr p \<and>
        coverage_at er log d token r p coverage \<and>
        body_at er log d token (Some (ep_origin r)) (git_endpoint er r ''/diff'' p []) body \<and>
        parse_patch (sha256 c) body default_limits = Inr (snap_patch s) \<and>
        (files (snap_patch s) \<noteq> [] \<or> cmp_files coverage = [] \<and> \<not> cmp_truncated coverage) \<and>
        json_at er log j token (Some (ep_origin r)) (change_endpoint r sel) after \<and> pins_read after sel a = Inr p \<and>
        account_at er log m account \<and>
        entire_snapshot_of er c a r sel p account after (snap_patch s) coverage sessions = Inr s)"

lemma capture_once_captured:
  assumes "capture_once er c a token account sel r l = (Inr (Some s), k)"
  shows "captured er c a k (length l) token account sel r s"
proof -
  from assms obtain before l1 p coverage l2 patch l3 sessions l4 after l5 r' l6 l7 still l8 where
    1: "entire_json er token (Some (ep_origin r)) (change_endpoint r sel) l = (Inr before, l1)" "pins_read before sel a = Inr p" and
    2: "entire_coverage er token r p l1 = (Inr coverage, l2)" and
    3: "entire_patch er c token r p coverage l2 = (Inr patch, l3)" and
    4: "tryQ (entire_json er token (Some (ep_origin r)) (sessions_endpoint er r p)) l3 = (Inr sessions, l4)" and
    5: "entire_json er token (Some (ep_origin r)) (change_endpoint r sel) l4 = (Inr after, l5)" "pins_read after sel a = Inr p" and
    6: "entire_repository_read er token a (se_repo sel) l5 = (Inr r', l6)" and
    7: "still_selected er token a sel l6 = (Inr (), l7)" and
    8: "entire_login er l7 = (Inr still, l8)" and
    9: "entire_account er still l8 = (Inr account, k)" and
    s: "entire_snapshot_of er c a r sel p account after patch coverage sessions = Inr s"
    unfolding capture_once_def bind_simps cancelledQ_def by (auto simp: bind_simps split: if_split_asm)
  note steps = runs_prefix [OF any_run.runs_coverage 2] runs_prefix [OF any_run.runs_patch 3]
    runs_prefix [OF runs_try [OF any_run.runs_json] 4] runs_prefix [OF any_run.runs_json 5(1)]
    runs_prefix [OF any_run.runs_repository 6] runs_prefix [OF any_run.runs_still_selected 7]
    runs_prefix [OF any_run.runs_login 8] runs_prefix [OF any_run.runs_account 9]
  have upto: "prefix l1 k" "prefix l2 k" "prefix l3 k" "prefix l5 k" using steps by (meson prefix_order.trans)+
  have patch: "snap_patch s = patch" using snapshot_of_fields [OF s] by blast
  obtain body where body: "length l3 = Suc (length l2)" "body_at er l3 (length l2) token (Some (ep_origin r)) (git_endpoint er r ''/diff'' p []) body"
    "parse_patch (sha256 c) body default_limits = Inr patch" "files patch \<noteq> [] \<or> cmp_files coverage = [] \<and> \<not> cmp_truncated coverage"
    using patch_at [OF 3] by blast
  have "length l \<le> length l \<and> length l < length l2 \<and> length l2 < length l4 \<and> length l4 < length l8"
    using steps [THEN prefix_length_le] json_read_at [OF 1(1)] json_read_at [OF 5(1)] body(1) by linarith
  moreover have "json_at er k (length l) token (Some (ep_origin r)) (change_endpoint r sel) before"
    "json_at er k (length l4) token (Some (ep_origin r)) (change_endpoint r sel) after"
    "body_at er k (length l2) token (Some (ep_origin r)) (git_endpoint er r ''/diff'' p []) body"
    using upto(1,3,4) json_read_at [OF 1(1)] json_read_at [OF 5(1)] body(2) by (auto intro: json_at_later body_at_later)
  moreover have "coverage_at er k (length l2) token r p coverage"
    using coverage_read_at [OF 2] upto(2) by (blast intro: coverage_at_later)
  moreover have "account_at er k (length l8) account" using account_read_at [OF 9] by blast
  ultimately show ?thesis
    unfolding captured_def patch using 1(2) 5(2) body(3,4) s by blast
qed

lemma capture_loop_captured:
  assumes "capture_loop left er c a token account sel r l = (Inr s, k)"
  shows "captured er c a k (length l) token account sel r s"
  using assms
proof (induction left arbitrary: l)
  case (Suc left)
  then obtain found l1 where f: "capture_once er c a token account sel r l = (Inr found, l1)"
    and k: "(case found of Some s \<Rightarrow> liftQ (Inr s) | None \<Rightarrow> capture_loop left er c a token account sel r) l1 = (Inr s, k)"
    by (auto simp: bind_simps)
  show ?case
  proof (cases found)
    case None
    with k have "captured er c a k (length l1) token account sel r s" by (simp add: Suc.IH)
    moreover have "length l \<le> length l1" using prefix_length_le [OF runs_prefix [OF any_run.runs_capture_once f]] .
    ultimately show ?thesis unfolding captured_def by (meson order_trans)
  next
    case (Some s')
    with k f capture_once_captured show ?thesis by (auto simp: bind_simps)
  qed
qed (simp add: liftQ_def)

lemma only_Inr: "(case xs of [x] \<Rightarrow> f x | _ \<Rightarrow> Inl e) = Inr y \<longleftrightarrow> (\<exists>x. xs = [x] \<and> f x = Inr y)"
  by (auto split: list.split)

lemma repository_origin_trusted:
  assumes "entire_repository_read er token a repo l = (Inr r, k)"
  shows "trusted_origin (ep_origin r) \<and> placement_ok (ep_placement r) \<and> opaque_id (ep_id r) \<and> entire_repo_name (ep_name r)"
  using assms
  by (auto simp: entire_repository_read_def repository_of_def bind_simps only_Inr intro: api_origin_trusted)

lemma pins_read_commits:
  assumes "pins_read v sel a = Inr p"
  shows "list_all commit_id_ok [pin_base p, pin_head p, pin_merge_base p] \<and> opaque_id (pin_id p) \<and>
    doc_u64 (doc_get v ''number'') = Some (se_number sel)"
  using assms by (auto simp: pins_read_def bind_simps)

text \<open>
  Claim C31. A trail that opens was read consistently: the change was read before and after its diff with the same immutable
  revisions, identity, status and parent; the patch is the parse of the diff between exactly these revisions at the
  repository's trusted origin, and is empty only when the comparison that was read is; the account at the end is the account at the
  beginning; and the snapshot's target names these revisions, this account and this repository, under its own identity.
\<close>

theorem entire_snapshot_pinned:
  assumes "entire_snapshot er c a [] = (Inr s, log)"
  shows "\<exists>i d j m n token account sel r before p body coverage after.
    i < j \<and> j < d \<and> d < m \<and> m < n \<and> account_at er log i account \<and>
    json_at er log j token (Some (ep_origin r)) (change_endpoint r sel) before \<and> pins_read before sel a = Inr p \<and>
    coverage_at er log d token r p coverage \<and>
    body_at er log d token (Some (ep_origin r)) (git_endpoint er r ''/diff'' p []) body \<and>
    parse_patch (sha256 c) body default_limits = Inr (snap_patch s) \<and>
    (files (snap_patch s) \<noteq> [] \<or> cmp_files coverage = [] \<and> \<not> cmp_truncated coverage) \<and>
    comparison_warnings coverage (snap_patch s) = Inr (snap_warnings s) \<and>
    json_at er log m token (Some (ep_origin r)) (change_endpoint r sel) after \<and> pins_read after sel a = Inr p \<and>
    account_at er log n account \<and>
    trusted_origin (ep_origin r) \<and> placement_ok (ep_placement r) \<and> list_all commit_id_ok [pin_base p, pin_head p, pin_merge_base p] \<and>
    snap_remote s = Some (entire_remote a r sel p account after) \<and> verify_identity c s"
proof -
  from assms obtain token l1 account l2 sel l3 r l4 where
    1: "entire_login er [] = (Inr token, l1)" and 2: "entire_account er token l1 = (Inr account, l2)" and
    3: "entire_select er token a l2 = (Inr sel, l3)" and 4: "entire_repository_read er token a (se_repo sel) l3 = (Inr r, l4)" and
    5: "capture_loop 3 er c a token account sel r l4 = (Inr s, log)"
    unfolding entire_snapshot_def by (auto simp: bind_simps)
  note steps = runs_prefix [OF any_run.runs_select 3] runs_prefix [OF any_run.runs_repository 4] runs_prefix [OF any_run.runs_capture_loop 5]
  from account_read_at [OF 2] have acc: "length l2 = Suc (length l1)" "account_at er l2 (length l1) account" by auto
  have "prefix l2 log" using steps by (meson prefix_order.trans)
  with acc(2) have first: "account_at er log (length l1) account" using account_at_later by blast
  have before: "length l1 < length l4" using acc(1) steps(1,2) [THEN prefix_length_le] by linarith
  from capture_loop_captured [OF 5] obtain j d m n before' p body coverage after sessions where c:
    "length l4 \<le> j" "j < d" "d < m" "m < n"
    "json_at er log j token (Some (ep_origin r)) (change_endpoint r sel) before'" "pins_read before' sel a = Inr p"
    "coverage_at er log d token r p coverage"
    "body_at er log d token (Some (ep_origin r)) (git_endpoint er r ''/diff'' p []) body"
    "parse_patch (sha256 c) body default_limits = Inr (snap_patch s)"
    "files (snap_patch s) \<noteq> [] \<or> cmp_files coverage = [] \<and> \<not> cmp_truncated coverage"
    "json_at er log m token (Some (ep_origin r)) (change_endpoint r sel) after" "pins_read after sel a = Inr p"
    "account_at er log n account"
    "entire_snapshot_of er c a r sel p account after (snap_patch s) coverage sessions = Inr s"
    unfolding captured_def by metis
  from c(14) have s: "comparison_warnings coverage (snap_patch s) = Inr (snap_warnings s)"
    "snap_remote s = Some (entire_remote a r sel p account after)" "verify_identity c s"
    using snapshot_of_fields [OF c(14)] by blast+
  have "length l1 < j" using before c(1) by linarith
  with first c s repository_origin_trusted [OF 4] pins_read_commits [OF c(6)] show ?thesis by blast
qed

text \<open>A small service: one repository-scoped change with an empty diff.\<close>

definition site_url :: url_parser where
  "site_url s =
     (if s = ''https://x.api.entire.io'' \<or> s = ''https://auth.entire.io''
      then Some \<lparr>u_scheme = ''https'', u_username = [], u_password = None, u_port = None, u_query = None, u_fragment = None,
        u_host = Some (drop 8 s), u_path = ''/'', u_segments = None, u_query_pairs = []\<rparr>
      else None)"

definition site_placement :: str where
  "site_placement = replicate 26 CHR ''0''"

definition site_json :: "bytes \<Rightarrow> doc option" where
  "site_json b =
     (let sha = DStr (replicate 40 (CHR ''a'')) in
      if b = ''me'' then Some (DObj [(''global'', DObj [(''accountId'', DStr ''me'')])])
      else if b = ''repos'' then Some (DObj [(''repos'', DArr [DObj [(''full_name'', DStr ''et/p/r''), (''id'', DStr ''R''),
        (''primaries'', DObj [(''processing'', DStr site_placement)]),
        (''placements'', DArr [DObj [(''id'', DStr site_placement), (''status'', DStr ''ready''),
          (''apiBaseUrl'', DStr ''https://x.api.entire.io'')]])]])])
      else if b = ''change'' then Some (DObj [(''id'', DStr ''C''), (''number'', DNum 7), (''base_sha'', sha), (''head_sha'', sha),
        (''merge_base_sha'', sha), (''status'', DStr ''open''), (''title'', DStr ''T'')])
      else if b = ''compare'' then Some DNull
      else Some (DObj [(''aud'', DStr ''https://auth.entire.io'')]))"

definition site_body :: "str \<Rightarrow> bytes" where
  "site_body e =
     (if e = ''/api/v1/me'' then ''me'' else if e = ''/api/v1/repos?'' then ''repos''
      else if ends_with ''/trails/7'' e then ''change'' else if ends_with ''/compare?'' e then ''compare'' else [])"

definition site_run :: "nat \<Rightarrow> process_request \<Rightarrow> store_error + process_output" where
  "site_run n q =
     (if executable q = ''curl'' then Inr \<lparr>po_status = Some 0, po_stdout = ''text'' @ CURL_STATUS @ ''200'', po_stderr = []\<rparr>
      else if pq_args q = [''auth'', ''token''] then Inr \<lparr>po_status = Some 0, po_stdout = ''a.e30.c'', po_stderr = []\<rparr>
      else Inr \<lparr>po_status = Some 0, po_stdout = site_body (last (pq_args q)), po_stderr = ''HTTP/1.1 200 OK''\<rparr>)"

definition site :: entire_reader where
  "site = \<lparr>er_program = ''entire'', er_curl = Some ''curl'', er_url = site_url, er_query = (\<lambda>_. []), er_json = site_json,
     er_comparison = (\<lambda>_. Some \<lparr>cmp_files = [], cmp_truncated = False\<rparr>), er_evidence = sample_evidence, er_run = site_run,
     er_cancelled = (\<lambda>_. False), er_now = 5\<rparr>"

definition site_address :: trail_address where
  "site_address = \<lparr>ta_host = ''entire.com'', ta_forge = ''et'', ta_project = ''p'', ta_selection = TrailRepository ''r'' 7\<rparr>"

lemma site_loads:
  "case entire_snapshot site sample_codec site_address [] of (Inl _, _) \<Rightarrow> False | (Inr _, _) \<Rightarrow> True"
  by code_simp

theorem entire_snapshot_pinned_witness:
  "\<exists>s log t. entire_snapshot site sample_codec site_address [] = (Inr s, log) \<and> verify_identity sample_codec s \<and>
     snap_remote s = Some t \<and> rt_provider t = ENTIRE"
proof -
  obtain s log where s: "entire_snapshot site sample_codec site_address [] = (Inr s, log)"
    using site_loads by (auto split: sum.splits prod.splits)
  then obtain a r sel p account after where "snap_remote s = Some (entire_remote a r sel p account after)" "verify_identity sample_codec s"
    using entire_snapshot_pinned [OF s] by blast
  with s show ?thesis by (auto simp: entire_remote_def)
qed

section \<open>What the bytes of a file were read from\<close>

lemma raw_body_Inr: "raw_body b = Inr bs \<longleftrightarrow> b = bs @ CURL_STATUS @ ''200'' \<and> length bs \<le> MAX_RESPONSE"
proof
  assume r: "raw_body b = Inr bs"
  define start where "start = length b - (length CURL_STATUS + 3)"
  from r have f: "length CURL_STATUS + 3 \<le> length b" "take (length CURL_STATUS) (drop start b) = CURL_STATUS"
    "drop (length b - 3) b = ''200''" "bs = take start b" "length bs \<le> MAX_RESPONSE"
    by (auto simp: raw_body_def Let_def bind_simps start_def)
  have "drop (length CURL_STATUS) (drop start b) = drop (length b - 3) b"
    using f(1) by (simp add: start_def)
  with f(2,3) have "drop start b = CURL_STATUS @ ''200''" by (metis append_take_drop_id)
  with f(4,5) show "b = bs @ CURL_STATUS @ ''200'' \<and> length bs \<le> MAX_RESPONSE" by (metis append_take_drop_id)
qed (simp add: raw_body_def Let_def CURL_STATUS_def)

text \<open>
  The bytes of a file are exactly what \<open>curl\<close> printed before its marker and the status 200, within 32 MiB. They
  were read for a revision of the snapshot, a full object name, at a valid path under the target's own placement at a
  trusted origin, by the account of the snapshot.
\<close>

theorem entire_source_exact:
  assumes "entire_source er target path revision [] = (Inr bs, log)"
  shows "\<exists>t origin curl token i out.
    rt_entire target = Some t \<and> entire_api_origin (er_url er) (api_origin t) = Inr origin \<and> trusted_origin origin \<and>
    commit_id_ok revision \<and> (revision = rt_head target \<or> revision = comparison_base target) \<and>
    path_ok (RepoPath path) \<and> account_at er log i (rt_account target) \<and>
    log ! Suc i = curl_request curl token (origin @ source_endpoint er t path revision) \<and> length log = i + 2 \<and>
    er_run er (Suc i) (log ! Suc i) = Inr out \<and> po_stdout out = bs @ CURL_STATUS @ ''200'' \<and> length bs \<le> MAX_RESPONSE"
proof -
  from assms obtain t origin p curl token l1 l2 out where
    f: "rt_entire target = Some t" "entire_api_origin (er_url er) (api_origin t) = Inr origin"
    "commit_id_ok revision" "revision = rt_head target \<or> revision = comparison_base target" "repo_path_new path = Inr p" and
    2: "entire_login er [] = (Inr token, l1)" "entire_account er token l1 = (Inr (rt_account target), l2)" and
    3: "er_run er (length l2) (curl_request curl token (origin @ source_endpoint er t path revision)) = Inr out"
      "log = l2 @ [curl_request curl token (origin @ source_endpoint er t path revision)]" "raw_body (po_stdout out) = Inr bs"
    unfolding entire_source_def by (auto simp: bind_simps)
  from account_read_at [OF 2(2)] have l2: "length l2 = Suc (length l1)" "account_at er l2 (length l1) (rt_account target)" by auto
  then have "account_at er log (length l1) (rt_account target)" using 3(2) account_at_later by (metis prefixI)
  moreover have "log ! Suc (length l1) = curl_request curl token (origin @ source_endpoint er t path revision)"
    "er_run er (Suc (length l1)) (log ! Suc (length l1)) = Inr out" "length log = length l1 + 2"
    using l2(1) 3(1,2) by (simp_all add: nth_append)
  moreover have "path_ok (RepoPath path)" using f(5) repo_path_new_ok repo_path_new_Inr by metis
  ultimately show ?thesis using f 3(3) api_origin_trusted [OF f(2)] unfolding raw_body_Inr by blast
qed

definition site_target :: remote_target where
  "site_target = entire_remote site_address \<lparr>ep_id = ''R'', ep_placement = site_placement, ep_origin = ''https://x.api.entire.io'', ep_name = ''r''\<rparr>
     (direct_change ''r'' 7 None) \<lparr>pin_id = ''C'', pin_base = replicate 40 CHR ''a'', pin_head = replicate 40 CHR ''a'',
       pin_merge_base = replicate 40 CHR ''a'', pin_status = ''open'', pin_parent = None\<rparr> ''me'' DNull"

theorem entire_source_exact_witness:
  "\<exists>log t. entire_source site site_target ''f'' (replicate 40 CHR ''a'') [] = (Inr ''text'', log) \<and> rt_entire site_target = Some t"
proof -
  have "fst (entire_source site site_target ''f'' (replicate 40 CHR ''a'') []) = Inr ''text''" by code_simp
  then obtain log where s: "entire_source site site_target ''f'' (replicate 40 CHR ''a'') [] = (Inr ''text'', log)"
    by (metis prod.collapse)
  with entire_source_exact [OF s] show ?thesis by blast
qed

end
