(* ===== verification/Tasks.thy ===== *)
theory Tasks
  imports Rebuild Releases Pool Details
begin

text \<open>
  Reads that overlap. The loaders of GitHub and GitLab start some reads on threads of their own and wait for all of
  them. A task is one such read; the k-th request of task n has its own answer, so that whatever the threads'
  interleaving, its answers are some argument \<open>world\<close> of the model. A later task starts after every earlier group of tasks
  was joined. Also here: what both loaders make of the release timeline (\<open>crates/adapters/src/releases.rs\<close>).
\<close>

section \<open>Tasks\<close>

type_synonym world = "nat \<Rightarrow> server"

definition task :: "world \<Rightarrow> (server \<Rightarrow> 'a reader) \<Rightarrow> 'a reader" where
  "task w m n = (fst (m (w n) 0), Suc n)"

text \<open>
  \<open>bounded\<close>: the answers of all items in order, or the error of the first item that fails, which is what every
  interleaving of the pool of threads returns (theory \<open>Pool\<close>).
\<close>

definition bounded_tasks :: "world \<Rightarrow> ('a \<Rightarrow> server \<Rightarrow> 'b reader) \<Rightarrow> 'a list \<Rightarrow> 'b list reader" where
  "bounded_tasks w f items n =
     (collect_results (map (\<lambda>(i, x). fst (f x (w i) 0)) (List.enumerate n items)), n + length items)"

section \<open>Values\<close>

definition items_of :: "('v, 'z) json_api_scheme \<Rightarrow> 'v \<Rightarrow> 'v list" where
  "items_of a v = (case v_array a v of Some xs \<Rightarrow> xs | None \<Rightarrow> [])"

definition count_of :: "('v, 'z) json_api_scheme \<Rightarrow> 'v \<Rightarrow> nat" where
  "count_of a v = (case v_u64 a v of Some n \<Rightarrow> n | None \<Rightarrow> 0)"

text \<open>\<open>Value::pointer\<close> through arrays too: a decimal segment is an index.\<close>

definition step_at :: "('v, 'z) json_api_scheme \<Rightarrow> 'v \<Rightarrow> str \<Rightarrow> 'v" where
  "step_at a v k =
     (case v_array a v of
        Some xs \<Rightarrow> (case parse_unsigned (2 ^ 64 - 1) k of Some i \<Rightarrow> if i < length xs then xs ! i else v_null a | None \<Rightarrow> v_null a)
      | None \<Rightarrow> v_get a v k)"

definition pointer_at :: "('v, 'z) json_api_scheme \<Rightarrow> 'v \<Rightarrow> str \<Rightarrow> 'v" where
  "pointer_at a v path = fold (\<lambda>k x. step_at a x k) (tl (split_on CHR ''/'' path)) v"

section \<open>Files a provider left out\<close>

text \<open>\<open>path()\<close> panics on a file without a path.\<close>

fun text_captured :: "str \<Rightarrow> file_change list \<Rightarrow> store_error + bool" where
  "text_captured name [] = Inr False"
| "text_captured name (f # fs) =
     bindE (okE AdapterPanic (fc_path f)) (\<lambda>p.
     if path_utf8 p = Inr name \<and> (hunks f \<noteq> [] \<or> fc_content f \<noteq> CText) then Inr True else text_captured name fs)"

definition text_omitted :: "('v, 'z) json_api_scheme \<Rightarrow> 'v \<Rightarrow> bool" where
  "text_omitted a f \<longleftrightarrow> v_get a f ''patch'' = v_null a \<and> 0 < count_of a (v_get a f ''changes'')"

fun omitted_warnings :: "('v, 'z) json_api_scheme \<Rightarrow> file_change list \<Rightarrow> 'v list \<Rightarrow> store_error + str list" where
  "omitted_warnings a shown [] = Inr []"
| "omitted_warnings a shown (f # fs) =
     bindE (if text_omitted a f
            then (let name = str_or [] (v_str a (v_get a f ''filename'')) in
              bindE (text_captured name shown) (\<lambda>captured.
              Inr (if captured then [] else [''provider omitted text for '' @ name])))
            else Inr []) (\<lambda>here.
     bindE (omitted_warnings a shown fs) (\<lambda>rest. Inr (here @ rest)))"

section \<open>Tags and steps\<close>

definition TAG_PAGES :: nat where
  "TAG_PAGES = 10"

definition tags_cut_warning :: str where
  "tags_cut_warning = ''Only the first '' @ show_nat (TAG_PAGES * 100) @ '' tags were checked for releases in this range.''"

text \<open>
  The statistics of each step: of the whole compare when one step spans it, else one read for each step. The function
  \<open>whole\<close> adapts what the whole compare says.
\<close>

definition step_stats :: "world \<Rightarrow> str \<Rightarrow> str \<Rightarrow> 's \<Rightarrow> (step \<Rightarrow> server \<Rightarrow> 's reader) \<Rightarrow> step list \<Rightarrow> 's list reader" where
  "step_stats w base head whole read ss =
     (case ss of
        [only] \<Rightarrow> if step_from only = base \<and> step_to only = head then liftR (Inr [whole]) else bounded_tasks w read ss
      | _ \<Rightarrow> bounded_tasks w read ss)"

section \<open>Compares\<close>

definition encode_ref :: "str \<Rightarrow> str" where
  "encode_ref r = replace_char CHR ''/'' ''%2F'' (encode_path r)"

definition compare_remote :: "provider_id \<Rightarrow> str \<Rightarrow> nat \<Rightarrow> str \<Rightarrow> str \<Rightarrow> str \<Rightarrow> str \<Rightarrow> str \<Rightarrow> compare_refs \<Rightarrow> remote_target" where
  "compare_remote provider host i owner name tip base head refs =
     \<lparr>rt_provider = provider,
      rt_repository = \<lparr>repo_host = host, repo_id = i, repo_owner = owner, repo_name = name\<rparr>,
      rt_account = [], rt_pr = 0, target_tip = tip, comparison_base = base, rt_head = head, rt_open = True, rt_draft = False,
      rt_merged = False, pending_review = False, rt_compare = Some refs, rt_entire = None\<rparr>"

definition option_list :: "'a option \<Rightarrow> 'a list" where
  "option_list x = (case x of None \<Rightarrow> [] | Some y \<Rightarrow> [y])"

section \<open>Reading in order\<close>

lemma bounded_tasks_Inr:
  assumes "bounded_tasks w f items n = (Inr xs, k)"
  shows "k = n + length items \<and> length xs = length items \<and> (\<forall>i < length items. fst (f (items ! i) (w (n + i)) 0) = Inr (xs ! i))"
proof -
  have r: "map (\<lambda>(i, x). fst (f x (w i) 0)) (List.enumerate n items) = map Inr xs" and k: "k = n + length items"
    using assms by (auto simp: bounded_tasks_def collect_results_Inr)
  have l: "length xs = length items" using arg_cong [OF r, of length] by simp
  moreover have "fst (f (items ! i) (w (n + i)) 0) = Inr (xs ! i)" if "i < length items" for i
    using arg_cong [OF r, of "\<lambda>l. l ! i"] that l by (simp add: nth_enumerate_eq)
  ultimately show ?thesis using k by simp
qed

lemma task_Inr: "task w m n = (Inr x, k) \<longleftrightarrow> fst (m (w n) 0) = Inr x \<and> k = Suc n"
  by (auto simp: task_def)

lemma tryR_task: "tryR (task w m) n = (r, k) \<longleftrightarrow> r = Inr (fst (m (w n) 0)) \<and> k = Suc n"
  by (auto simp: tryR_def task_def)

lemma tryR_task_Inr: "tryR (task w m) n = (Inr r, k) \<longleftrightarrow> r = fst (m (w n) 0) \<and> k = Suc n"
  by (auto simp: tryR_task)

lemmas task_simps = bind_simps tryR_task_Inr task_Inr

lemma members_length: "length (members rng ss) = length ss"
  unfolding members_def
proof -
  have "length (members_loop rng seen ss) = length ss" for seen
    by (induction ss arbitrary: seen) (auto split: prod.split)
  then show "length (members_loop rng [] ss) = length ss" .
qed

lemma step_stats_length:
  assumes "step_stats w base head whole read ss n = (Inr stats, k)"
  shows "length stats = length ss"
  using assms
  by (auto simp: step_stats_def bind_simps dest!: bounded_tasks_Inr split: list.splits if_split_asm)

lemma timeline_columns:
  assumes "length stats = length ss" "length shas = length ss"
    "\<And>st sts here. f st sts here = step_to st \<and> g st sts here = step_tag st \<and> h st sts here = here"
  shows "map (\<lambda>(st, sts, here). f st sts here) (zip ss (zip stats shas)) = map step_to ss \<and>
    map (\<lambda>(st, sts, here). g st sts here) (zip ss (zip stats shas)) = map step_tag ss \<and>
    map (\<lambda>(st, sts, here). h st sts here) (zip ss (zip stats shas)) = shas"
  using assms by (auto intro!: nth_equalityI)

lemma hexdigit_lower: "is_ascii_hexdigit c \<Longrightarrow> is_ascii_hexdigit (ascii_lower c)"
proof -
  have "\<forall>c. is_ascii_hexdigit c \<longrightarrow> is_ascii_hexdigit (ascii_lower c)" by code_simp
  then show "is_ascii_hexdigit c \<Longrightarrow> is_ascii_hexdigit (ascii_lower c)" by blast
qed

end
