(* ===== verification/GithubLoad.thy ===== *)
theory GithubLoad
  imports Tasks
begin

text \<open>
  The loaders of GitHub (\<open>crates/adapters/src/github.rs\<close>): a pull request, a compare of two refs, the release timeline of
  a compare, and blame. Reads that the code starts on threads are tasks; the clock, serde_json and the URL
  crate are parameters.
\<close>

section \<open>The overview of a pull request\<close>

definition github_conversation :: "('v, 'z) json_api_scheme \<Rightarrow> 'v \<Rightarrow> conversation_comment option" where
  "github_conversation a v =
     Option.bind (v_u64 a (v_get a v ''id'')) (\<lambda>i.
     Option.bind (v_str a (v_get a (v_get a v ''user'') ''login'')) (\<lambda>author.
     Option.bind (v_str a (v_get a v ''body'')) (\<lambda>body.
     Some \<lparr>cc_id = i, cc_author = author, cc_body = body, cc_created_at = v_str a (v_get a v ''created_at'')\<rparr>)))"

definition add_checks :: "('v, 'z) json_api_scheme \<Rightarrow> (store_error \<Rightarrow> str) \<Rightarrow> str \<Rightarrow> store_error + 'v list \<Rightarrow> overview \<Rightarrow> overview" where
  "add_checks a disp kind listed ov =
     (case listed of
        Inr rs \<Rightarrow> ov\<lparr>ov_checks := ov_checks ov @ map (\<lambda>v. check_row a v kind) rs\<rparr>
      | Inl e \<Rightarrow> ov\<lparr>ov_notices := ov_notices ov @ [kind @ '' metadata unavailable: '' @ disp e]\<rparr>)"

definition add_conversation :: "('v, 'z) json_api_scheme \<Rightarrow> (store_error \<Rightarrow> str) \<Rightarrow> store_error + 'v list \<Rightarrow> overview \<Rightarrow> overview" where
  "add_conversation a disp listed ov =
     (case listed of
        Inr rs \<Rightarrow> ov\<lparr>ov_conversation := List.map_filter (github_conversation a) rs\<rparr>
      | Inl e \<Rightarrow> ov\<lparr>ov_notices := ov_notices ov @ [''Conversation unavailable: '' @ disp e]\<rparr>)"

definition described :: "('v, 'z) json_api_scheme \<Rightarrow> 'v \<Rightarrow> overview \<Rightarrow> overview" where
  "described a m ov =
     ov\<lparr>ov_description := v_str a (v_get a m ''body''), ov_author := v_str a (v_get a (v_get a m ''user'') ''login'')\<rparr>"

definition github_overview :: "('v, 'z) json_api_scheme \<Rightarrow> (store_error \<Rightarrow> str) \<Rightarrow> world \<Rightarrow> nat \<Rightarrow> pr_address \<Rightarrow> 'v \<Rightarrow> str \<Rightarrow>
    overview reader" where
  "github_overview a disp w now addr m head =
     (let repo = ''repos/'' @ pa_owner addr @ ''/'' @ pa_repo addr;
          ov = described a m (default_overview\<lparr>ov_captured_at := Some now\<rparr>) in
      bindR (tryR (task w (\<lambda>srv. pages a srv (repo @ ''/issues/'' @ show_nat (pa_number addr) @ ''/comments'')))) (\<lambda>conversation.
      bindR (tryR (task w (\<lambda>srv. named_pages a srv (repo @ ''/commits/'' @ head @ ''/check-runs'') ''check_runs''))) (\<lambda>runs.
      bindR (tryR (task w (\<lambda>srv. named_pages a srv (repo @ ''/actions/runs?head_sha='' @ head) ''workflow_runs''))) (\<lambda>workflows.
      bindR (tryR (task w (\<lambda>srv. named_pages a srv (repo @ ''/commits/'' @ head @ ''/status'') ''statuses''))) (\<lambda>statuses.
      liftR (Inr (add_conversation a disp conversation
        (add_checks a disp ''Status'' statuses (add_checks a disp ''Workflow'' workflows (add_checks a disp ''Check'' runs ov))))))))))"

section \<open>A pull request\<close>

definition GITHUB_DIFF :: str where
  "GITHUB_DIFF = ''Accept: application/vnd.github.diff''"

definition diff_body :: "('v, 'z) json_api_scheme \<Rightarrow> str \<Rightarrow> str \<Rightarrow> 'v list \<Rightarrow> http_response \<Rightarrow> store_error + bytes" where
  "diff_body a failed after fs given =
     (if hr_status given = 200 then Inr (hr_body given)
      else if hr_status given = 406 then Inr (patch_from_files a fs)
      else Inl (Message (failed @ show_nat (hr_status given) @ after)))"

definition review_note :: "('v, 'z) json_api_scheme \<Rightarrow> 'v \<Rightarrow> conversation_comment option" where
  "review_note a v =
     Option.bind (v_str a (v_get a v ''body'')) (\<lambda>body.
     if trim body = [] then None
     else Option.bind (v_u64 a (v_get a v ''id'')) (\<lambda>i.
       Option.bind (v_str a (v_get a (v_get a v ''user'') ''login'')) (\<lambda>author.
       Some \<lparr>cc_id = i, cc_author = author, cc_body = body, cc_created_at = v_str a (v_get a v ''submitted_at'')\<rparr>)))"

definition review_state :: "('v, 'z) json_api_scheme \<Rightarrow> 'v \<Rightarrow> (str \<times> str) option" where
  "review_state a r =
     Option.bind (v_str a (v_get a (v_get a r ''user'') ''login'')) (\<lambda>login.
     map_option (Pair login) (v_str a (v_get a r ''state'')))"

definition from_files_warning :: "str \<Rightarrow> str \<Rightarrow> ('v, 'z) json_api_scheme \<Rightarrow> 'v list \<Rightarrow> str" where
  "from_files_warning said rest a fs = said @ show_nat (length (filter (text_omitted a) fs)) @ rest"

definition coverage_warnings :: "('v, 'z) json_api_scheme \<Rightarrow> nat \<Rightarrow> 'v list \<Rightarrow> patch_report \<Rightarrow> store_error + str list" where
  "coverage_warnings a expected fs patch =
     bindE (okE AdapterPanic (patch_names patch)) (\<lambda>names.
     bindE (omitted_warnings a (files patch) fs) (\<lambda>omitted.
     Inr ((if expected \<noteq> length fs \<or> expected \<noteq> length (files patch)
           then [''coverage disagreement: metadata '' @ show_nat expected @ '', file count '' @ show_nat (length fs) @
                 '', patch count '' @ show_nat (length (files patch))] else []) @
          (if set (List.map_filter (\<lambda>f. v_str a (v_get a f ''filename'')) fs) \<noteq> set names
           then [''file paths from the provider disagree with the canonical patch paths''] else []) @
          omitted)))"

text \<open>What one pass has read when its first group of tasks is joined.\<close>

record 'v pr_reads =
  pr_compare :: "store_error + 'v"
  pr_files :: "store_error + 'v list"
  pr_diff :: "store_error + http_response"
  pr_comments :: "store_error + 'v list"
  pr_reviews :: "store_error + 'v list"
  pr_overview :: overview

definition github_reads :: "('v, 'z) json_api_scheme \<Rightarrow> (store_error \<Rightarrow> str) \<Rightarrow> world \<Rightarrow> nat \<Rightarrow> pr_address \<Rightarrow> 'v \<Rightarrow> str \<Rightarrow> str \<Rightarrow>
    'v pr_reads reader" where
  "github_reads a disp w now addr before base head =
     bindR (tryR (task w (\<lambda>srv. get_json a srv (''repos/'' @ pa_owner addr @ ''/'' @ pa_repo addr @ ''/compare/'' @ base @ ''...'' @ head)))) (\<lambda>compare.
     bindR (tryR (task w (\<lambda>srv. pages a srv (pr_root addr @ ''/files'')))) (\<lambda>fs.
     bindR (tryR (task w (\<lambda>srv. github_request srv (pr_root addr) GITHUB_DIFF))) (\<lambda>diff.
     bindR (tryR (task w (\<lambda>srv. pages a srv (pr_root addr @ ''/comments'')))) (\<lambda>comments.
     bindR (tryR (task w (\<lambda>srv. pages a srv (pr_root addr @ ''/reviews'')))) (\<lambda>reviews.
     bindR (github_overview a disp w now addr before head) (\<lambda>ov.
     liftR (Inr \<lparr>pr_compare = compare, pr_files = fs, pr_diff = diff, pr_comments = comments, pr_reviews = reviews,
       pr_overview = ov\<rparr>)))))))"

text \<open>The snapshot, once the metadata was read again and did not move.\<close>

definition github_finish :: "('v, 'z) json_api_scheme \<Rightarrow> 'a codec_scheme \<Rightarrow> pr_address \<Rightarrow> 'v \<Rightarrow> remote_target \<Rightarrow> patch_report \<Rightarrow> bool \<Rightarrow>
    'v list \<Rightarrow> 'v list \<Rightarrow> 'v list \<Rightarrow> overview \<Rightarrow> store_error + snapshot" where
  "github_finish a c addr after remote patch from_files fs comments reviews ov =
     bindE (gh_text a after ''/title'') (\<lambda>title.
     bindE (collect_results (map (github_thread a) comments)) (\<lambda>threads.
     bindE (gh_number a after ''/changed_files'') (\<lambda>expected.
     bindE (coverage_warnings a expected fs patch) (\<lambda>warnings.
     Inr ((snapshot_new c (title @ middle_dot @ pa_owner addr @ ''/'' @ pa_repo addr @ '' #'' @ show_nat (pa_number addr)) patch (Some remote) threads)
       \<lparr>snap_warnings :=
          (if from_files
           then [from_files_warning ''GitHub serves no unified diff past 300 files. This review then comes via the per-file endpoint, and GitHub had already omitted the text for ''
                   '' of those files.'' a fs]
           else []) @ warnings,
        snap_overview := (described a after ov)
          \<lparr>ov_decision := review_decision_of (List.map_filter (review_state a) reviews),
           ov_conversation := ov_conversation ov @ List.map_filter (review_note a) reviews\<rparr>\<rparr>)))))"

definition github_pass :: "('v, 'z) json_api_scheme \<Rightarrow> 'a codec_scheme \<Rightarrow> (store_error \<Rightarrow> str) \<Rightarrow> world \<Rightarrow> nat \<Rightarrow> pr_address \<Rightarrow> str \<Rightarrow> 'v \<Rightarrow>
    snapshot option reader" where
  "github_pass a c disp w now addr account before =
     bindR (liftR (oid a before ''/base/sha'')) (\<lambda>base.
     bindR (liftR (oid a before ''/head/sha'')) (\<lambda>head.
     bindR (github_reads a disp w now addr before base head) (\<lambda>rd.
     bindR (liftR (pr_compare rd)) (\<lambda>compare.
     bindR (liftR (oid a compare ''/merge_base_commit/sha'')) (\<lambda>merge_base.
     bindR (liftR (github_target_of a addr before account merge_base)) (\<lambda>target.
     bindR (liftR (pr_files rd)) (\<lambda>fs.
     bindR (liftR (pr_diff rd)) (\<lambda>diff.
     bindR (liftR (diff_body a ''GitHub diff failed (HTTP '' ''); the existing session stays as is'' fs diff)) (\<lambda>body.
     bindR (liftR (map_errE PatchFailed (parse_patch (sha256 c) body default_limits))) (\<lambda>patch.
     bindR (liftR (pr_comments rd)) (\<lambda>comments.
     bindR (liftR (pr_reviews rd)) (\<lambda>reviews.
     bindR (tryR (task w (\<lambda>srv. github_account a srv))) (\<lambda>still.
     bindR (task w (\<lambda>srv. github_metadata a srv addr)) (\<lambda>after.
     bindR (liftR (oid a after ''/base/sha'')) (\<lambda>base'.
     if base \<noteq> base' then liftR (Inr None)
     else
     bindR (liftR (oid a after ''/head/sha'')) (\<lambda>head'.
     if head \<noteq> head' \<or> pointer a before ''/base/repo/id'' \<noteq> pointer a after ''/base/repo/id'' then liftR (Inr None)
     else
     bindR (liftR still) (\<lambda>account'.
     if account' \<noteq> account
     then liftR (Inl (Message ''the GitHub account changed while the snapshot was captured''))
     else
     bindR (liftR (github_finish a c addr after
       (target\<lparr>pending_review := list_ex (pending_by a account) reviews, rt_open := is_text a after ''state'' ''open'',
          rt_draft := is_true a after ''draft'', rt_merged := is_merged a after\<rparr>)
       patch (hr_status diff = 406) fs comments reviews (pr_overview rd))) (\<lambda>s.
     liftR (Inr (Some s))))))))))))))))))))"

fun github_loop :: "nat \<Rightarrow> ('v, 'z) json_api_scheme \<Rightarrow> 'a codec_scheme \<Rightarrow> (store_error \<Rightarrow> str) \<Rightarrow> world \<Rightarrow> nat \<Rightarrow> pr_address \<Rightarrow> str \<Rightarrow>
    'v option \<Rightarrow> snapshot reader" where
  "github_loop 0 a c disp w now addr account first =
     liftR (Inl (Message ''the PR moved throughout the snapshot attempt; the old session and its drafts are kept''))"
| "github_loop (Suc left) a c disp w now addr account first =
     bindR (case first of Some m \<Rightarrow> liftR (Inr m) | None \<Rightarrow> task w (\<lambda>srv. github_metadata a srv addr)) (\<lambda>before.
     bindR (github_pass a c disp w now addr account before) (\<lambda>found.
     case found of Some s \<Rightarrow> liftR (Inr s) | None \<Rightarrow> github_loop left a c disp w now addr account None))"

definition github_snapshot :: "('v, 'z) json_api_scheme \<Rightarrow> 'a codec_scheme \<Rightarrow> (store_error \<Rightarrow> str) \<Rightarrow> world \<Rightarrow> nat \<Rightarrow> pr_address \<Rightarrow>
    snapshot reader" where
  "github_snapshot a c disp w now addr =
     bindR (tryR (task w (\<lambda>srv. github_account a srv))) (\<lambda>account.
     bindR (tryR (task w (\<lambda>srv. github_metadata a srv addr))) (\<lambda>first.
     bindR (liftR account) (\<lambda>account.
     bindR (liftR first) (\<lambda>first.
     github_loop 3 a c disp w now addr account (Some first)))))"

section \<open>A compare\<close>

definition compare_range :: "compare_address \<Rightarrow> str \<Rightarrow> str \<Rightarrow> str" where
  "compare_range addr base head =
     ''repos/'' @ ca_owner addr @ ''/'' @ ca_repo addr @ ''/compare/'' @ encode_ref base @ ''...'' @ encode_ref head"

definition compare_head :: "('v, 'z) json_api_scheme \<Rightarrow> 'v \<Rightarrow> str \<Rightarrow> 'v list \<Rightarrow> store_error + str" where
  "compare_head a named merge_base commits =
     (if v_u64 a (v_get a named ''total_commits'') = Some 0 then Inr merge_base
      else if commits = [] then Inl (Message ''GitHub's compare response has no commits to pin the head to'')
      else oid a (last commits) ''/sha'')"

text \<open>A line of the description; slicing the commit name inside a character panics.\<close>

definition commit_line :: "('v, 'z) json_api_scheme \<Rightarrow> 'v \<Rightarrow> store_error + str" where
  "commit_line a c =
     (let sha = str_or [] (v_str a (v_get a c ''sha''));
          subject = (case v_str a (v_get a (v_get a c ''commit'') ''message'') of
            None \<Rightarrow> [] | Some m \<Rightarrow> (case str_lines m of [] \<Rightarrow> [] | l # _ \<Rightarrow> l)) in
      if is_char_boundary sha (min (length sha) 7)
      then Inr (''- `'' @ take 7 sha @ ''` '' @ subject @ [LF])
      else Inl AdapterPanic)"

definition compare_warnings :: "('v, 'z) json_api_scheme \<Rightarrow> bool \<Rightarrow> 'v list \<Rightarrow> patch_report \<Rightarrow> nat \<Rightarrow> nat \<Rightarrow> store_error + str list" where
  "compare_warnings a from_files fs patch amount listed =
     bindE (omitted_warnings a (files patch) fs) (\<lambda>omitted.
     (let capped = 300 \<le> length fs; shown = length (files patch) in
      Inr ((if from_files
            then [from_files_warning ''GitHub refused the unified diff for this compare, so it comes from the per-file listing. That stops at 300 files, and GitHub had already omitted the text for ''
                    '' of those files.'' a fs]
            else if (capped \<and> shown < length fs) \<or> (\<not> capped \<and> shown \<noteq> length fs)
            then [''coverage disagreement: file listing '' @ show_nat (length fs) @ '', patch count '' @ show_nat shown]
            else []) @
           omitted @
           (if listed < amount
            then [''GitHub lists only the newest '' @ show_nat listed @ '' of this compare's '' @ show_nat amount @
                  '' commits; the diff still covers all of them.''] else []))))"

definition github_compare_finish :: "('v, 'z) json_api_scheme \<Rightarrow> 'a codec_scheme \<Rightarrow> nat \<Rightarrow> compare_address \<Rightarrow> 'v \<Rightarrow> 'v \<Rightarrow> str \<Rightarrow> str \<Rightarrow>
    str \<Rightarrow> str \<Rightarrow> str \<Rightarrow> 'v list \<Rightarrow> 'v list \<Rightarrow> bool \<Rightarrow> patch_report \<Rightarrow> store_error + snapshot" where
  "github_compare_finish a c now addr meta named owner name base merge_base head commits fs from_files patch =
     (let refs = ca_refs addr; label = compare_label refs in
      bindE (gh_number a meta ''/id'') (\<lambda>i.
      bindE (compare_warnings a from_files fs patch (count_of a (v_get a named ''total_commits'')) (length commits)) (\<lambda>warnings.
      bindE (collect_results (map (commit_line a) commits)) (\<lambda>described.
      Inr ((with_origin c (owner @ ''/'' @ name @ ''  '' @ label) patch
          (Some (compare_remote GITHUB (ca_host addr) i owner name base merge_base head refs)) []
          (''github-compare:'' @ ca_host addr @ ''/'' @ owner @ ''/'' @ name @ '':'' @ label))
        \<lparr>snap_warnings := warnings,
         snap_overview := default_overview\<lparr>ov_description := Some (concat described), ov_captured_at := Some now\<rparr>\<rparr>)))))"

definition github_compare :: "('v, 'z) json_api_scheme \<Rightarrow> 'a codec_scheme \<Rightarrow> world \<Rightarrow> nat \<Rightarrow> compare_address \<Rightarrow> snapshot reader" where
  "github_compare a c w now addr =
     (let refs = ca_refs addr in
      bindR (tryR (task w (\<lambda>srv. get_json a srv (''repos/'' @ ca_owner addr @ ''/'' @ ca_repo addr)))) (\<lambda>meta.
      bindR (tryR (task w (\<lambda>srv. get_json a srv (compare_range addr (cmp_base refs) (cmp_head refs))))) (\<lambda>named.
      bindR (liftR meta) (\<lambda>meta.
      bindR (liftR named) (\<lambda>named.
      bindR (liftR (gh_text a meta ''/owner/login'')) (\<lambda>owner.
      bindR (liftR (gh_text a meta ''/name'')) (\<lambda>name.
      if \<not> eq_ignore_ascii_case owner (ca_owner addr) \<or> \<not> eq_ignore_ascii_case name (ca_repo addr)
      then liftR (Inl (Message ''the repository moved to another identity; open the compare at its canonical URL''))
      else
      bindR (liftR (oid a named ''/base_commit/sha'')) (\<lambda>base.
      bindR (liftR (oid a named ''/merge_base_commit/sha'')) (\<lambda>merge_base.
      if cmp_direct refs \<and> merge_base \<noteq> base
      then liftR (Inl (Message ''GitHub's API compares against the merge base only, and BASE is not an ancestor of HEAD here, so BASE..HEAD would differ; use BASE...HEAD''))
      else
      bindR (liftR (okE (Message ''GitHub's compare response is missing its commit list'') (v_array a (v_get a named ''commits'')))) (\<lambda>commits.
      bindR (liftR (compare_head a named merge_base commits)) (\<lambda>head.
      bindR (task w (\<lambda>srv. github_request srv (compare_range addr base head) GITHUB_DIFF)) (\<lambda>diff.
      (let fs = items_of a (v_get a named ''files'') in
       bindR (liftR (diff_body a ''GitHub compare diff failed (HTTP '' '')'' fs diff)) (\<lambda>body.
       bindR (liftR (map_errE PatchFailed (parse_patch (sha256 c) body default_limits))) (\<lambda>patch.
       liftR (github_compare_finish a c now addr meta named owner name base merge_base head commits fs
         (hr_status diff = 406) patch))))))))))))))))"

section \<open>Releases of a compare\<close>

fun add_tags :: "('v, 'z) json_api_scheme \<Rightarrow> 'v list \<Rightarrow> (str \<times> str) list \<Rightarrow> store_error + (str \<times> str) list" where
  "add_tags a [] tags = Inr tags"
| "add_tags a (t # ts) tags =
     (case oid a t ''/commit/sha'' of
        Inl _ \<Rightarrow> add_tags a ts tags
      | Inr sha \<Rightarrow> bindE (gh_text a t ''/name'') (\<lambda>name. add_tags a ts (tags @ [(name, sha)])))"

fun tag_pages :: "('v, 'z) json_api_scheme \<Rightarrow> server \<Rightarrow> str \<Rightarrow> nat \<Rightarrow> nat \<Rightarrow> (str \<times> str) list \<Rightarrow> ((str \<times> str) list \<times> bool) reader" where
  "tag_pages a srv repo 0 page tags = liftR (Inr (tags, True))"
| "tag_pages a srv repo (Suc left) page tags =
     bindR (get_json a srv (repo @ ''/tags?per_page=100&page='' @ show_nat page)) (\<lambda>v.
     bindR (liftR (okE (Message ''expected GitHub array page'') (v_array a v))) (\<lambda>found.
     bindR (liftR (add_tags a found tags)) (\<lambda>tags.
     if length found < 100 then liftR (Inr (tags, False)) else tag_pages a srv repo left (Suc page) tags)))"

definition release_commits :: "('v, 'z) json_api_scheme \<Rightarrow> world \<Rightarrow> str \<Rightarrow> str \<Rightarrow> str \<Rightarrow> 'v \<Rightarrow> 'v list reader" where
  "release_commits a w repo base head compare =
     (let listed = items_of a (v_get a compare ''commits''); amount = count_of a (v_get a compare ''total_commits'') in
      if amount \<le> length listed then liftR (Inr listed)
      else if 5000 < amount
      then liftR (Inl (Message (''the range holds '' @ show_nat amount @ '' commits, more than the 5,000 that are placed'')))
      else
      bindR (bounded_tasks w (\<lambda>page srv. get_json a srv (repo @ ''/compare/'' @ base @ ''...'' @ head @ ''?per_page=100&page='' @ show_nat page))
        [1..<Suc ((amount + 99) div 100)]) (\<lambda>ps.
      liftR (Inr (concat (map (\<lambda>p. items_of a (v_get a p ''commits'')) ps)))))"

definition commit_parent :: "('v, 'z) json_api_scheme \<Rightarrow> 'v \<Rightarrow> store_error + (str \<times> str option)" where
  "commit_parent a c =
     bindE (oid a c ''/sha'') (\<lambda>sha.
     Inr (sha, Option.bind (v_str a (pointer_at a c ''/parents/0/sha'')) (\<lambda>p. if object_id p then Some (to_ascii_lowercase p) else None)))"

definition commit_parents :: "('v, 'z) json_api_scheme \<Rightarrow> 'v \<Rightarrow> str list" where
  "commit_parents a c = List.map_filter (\<lambda>p. ok_of (oid a p ''/sha'')) (items_of a (v_get a c ''parents''))"

definition release_notes :: "('v, 'z) json_api_scheme \<Rightarrow> 'v \<Rightarrow> (str \<times> 'v) list" where
  "release_notes a v =
     List.map_filter (\<lambda>r. map_option (\<lambda>t. (t, r)) (v_str a (v_get a r ''tag_name'')))
       (filter (\<lambda>r. \<not> is_true a r ''draft'') (items_of a v))"

definition release_file_of :: "('v, 'z) json_api_scheme \<Rightarrow> 'v \<Rightarrow> release_file" where
  "release_file_of a f =
     \<lparr>rf_path = str_or [] (v_str a (v_get a f ''filename'')), rf_additions = count_of a (v_get a f ''additions''),
      rf_deletions = count_of a (v_get a f ''deletions''), rf_previous = v_str a (v_get a f ''previous_filename'')\<rparr>"

definition compare_stats :: "('v, 'z) json_api_scheme \<Rightarrow> 'v \<Rightarrow> nat \<times> release_file list" where
  "compare_stats a v = (count_of a (v_get a v ''total_commits''), map (release_file_of a) (items_of a (v_get a v ''files'')))"

definition commit_date :: "('v, 'z) json_api_scheme \<Rightarrow> 'v \<Rightarrow> (str \<times> str) option" where
  "commit_date a c =
     Option.bind (v_str a (v_get a c ''sha'')) (\<lambda>sha.
     map_option (Pair sha) (v_str a (v_get a (v_get a (v_get a c ''commit'') ''committer'') ''date'')))"

definition github_release :: "('v, 'z) json_api_scheme \<Rightarrow> repository_key \<Rightarrow> (str \<Rightarrow> 'v option) \<Rightarrow> (str \<Rightarrow> str option) \<Rightarrow> step \<Rightarrow>
    nat \<times> release_file list \<Rightarrow> str list \<Rightarrow> release" where
  "github_release a key notes dates st stats shas =
     (let release = Option.bind (step_tag st) notes in
      \<lparr>rel_tag = step_tag st, rel_commit = step_to st, rel_date = dates (step_to st), rel_commits = fst stats, rel_files = snd stats,
       rel_notes = Option.bind (Option.bind release (\<lambda>r. v_str a (v_get a r ''body''))) (\<lambda>b. if trim b = [] then None else Some b),
       rel_url = map_option (\<lambda>t. case Option.bind release (\<lambda>r. v_str a (v_get a r ''html_url'')) of
           Some u \<Rightarrow> u
         | None \<Rightarrow> ''https://'' @ repo_host key @ ''/'' @ repo_owner key @ ''/'' @ repo_name key @ ''/releases/tag/'' @ encode_path t) (step_tag st),
       rel_shas = shas\<rparr>)"

definition minus_sign :: str where
  "minus_sign = [CHR 0xE2, CHR 0x88, CHR 0x92]"

definition many_files_warning :: "str \<Rightarrow> str" where
  "many_files_warning name = ''GitHub lists only the first 300 files of '' @ name @
     '', so the file tree may leave some of its files out and its +/'' @ minus_sign @ '' totals may be low.''"

text \<open>The timeline, from everything that is read before the steps are known.\<close>

definition github_timeline :: "('v, 'z) json_api_scheme \<Rightarrow> world \<Rightarrow> remote_target \<Rightarrow> compare_refs \<Rightarrow> str \<Rightarrow> 'v \<Rightarrow> (str \<times> str) list \<Rightarrow> bool \<Rightarrow>
    (str \<times> 'v) list \<Rightarrow> 'v list \<Rightarrow> (str \<times> str option) list \<Rightarrow> (release list \<times> str list) reader" where
  "github_timeline a w t refs repo compare tags truncated noted commits rng =
     (let base = target_tip t; head = rt_head t;
          (ss, folded) = steps rng base head tags (map fst noted);
          shas = members (map (\<lambda>(c, sha, _). (sha, commit_parents a c)) (zip commits rng)) ss in
      bindR (step_stats w base head (compare_stats a compare)
        (\<lambda>st srv. bindR (get_json a srv (repo @ ''/compare/'' @ step_from st @ ''...'' @ step_to st @ ''?per_page=1'')) (\<lambda>v.
           liftR (Inr (compare_stats a v)))) ss) (\<lambda>stats.
      (let dates = map_of (rev (List.map_filter (commit_date a) commits));
           joined = zip ss (zip stats shas) in
       liftR (Inr (map (\<lambda>(st, sts, here). github_release a (rt_repository t) (map_of (rev noted)) dates st sts here) joined,
         (if truncated then [tags_cut_warning] else []) @ option_list (folded_warning folded) @
         concat (map (\<lambda>(st, sts, _). if 300 \<le> length (snd sts)
           then [many_files_warning (str_or (cmp_head refs) (step_tag st))] else []) joined))))))"

definition github_releases :: "('v, 'z) json_api_scheme \<Rightarrow> world \<Rightarrow> remote_target \<Rightarrow> (release list \<times> str list) reader" where
  "github_releases a w t =
     bindR (liftR (okE (Message ''only a compare has releases'') (rt_compare t))) (\<lambda>refs.
     (let base = target_tip t; head = rt_head t; key = rt_repository t; repo = ''repos/'' @ repo_owner key @ ''/'' @ repo_name key in
      bindR (tryR (task w (\<lambda>srv. tag_pages a srv repo TAG_PAGES 1 []))) (\<lambda>tags.
      bindR (tryR (task w (\<lambda>srv. get_json a srv (repo @ ''/releases?per_page=100'')))) (\<lambda>notes.
      bindR (tryR (task w (\<lambda>srv. get_json a srv (repo @ ''/compare/'' @ base @ ''...'' @ head)))) (\<lambda>compare.
      bindR (liftR compare) (\<lambda>compare.
      bindR (liftR tags) (\<lambda>tags.
      bindR (liftR notes) (\<lambda>notes.
      bindR (release_commits a w repo base head compare) (\<lambda>commits.
      bindR (liftR (collect_results (map (commit_parent a) commits))) (\<lambda>rng.
      github_timeline a w t refs repo compare (fst tags) (snd tags) (release_notes a notes) commits rng))))))))))"

section \<open>Blame\<close>

definition BLAME_BATCH :: nat where
  "BLAME_BATCH = 4"

definition blame_params :: "nat \<Rightarrow> str" where
  "blame_params n = concat (map (\<lambda>i. '', $p'' @ show_nat i @ '': String!'') [0..<n])"

definition blame_fields :: "nat \<Rightarrow> str" where
  "blame_fields n = concat (map (\<lambda>i. '' f'' @ show_nat i @ '': blame(path: $p'' @ show_nat i @
     '') { ranges { startingLine endingLine commit { oid } } }'') [0..<n])"

definition blame_query :: "nat \<Rightarrow> str" where
  "blame_query n = ''query($owner: String!, $name: String!, $head: String!'' @ blame_params n @
     '') { repository(owner: $owner, name: $name) { object(expression: $head) { ... on Commit {'' @ blame_fields n @ '' } } } }''"

definition blame_body :: "('v, 'z) json_api_scheme \<Rightarrow> remote_target \<Rightarrow> (str \<times> nat \<times> nat) list \<Rightarrow> 'v" where
  "blame_body a t batch =
     v_object a [(''query'', v_of_str a (blame_query (length batch))),
       (''variables'', v_object a ([(''owner'', v_of_str a (repo_owner (rt_repository t))),
          (''name'', v_of_str a (repo_name (rt_repository t))), (''head'', v_of_str a (rt_head t))] @
          map (\<lambda>(i, path, _, _). (''p'' @ show_nat i, v_of_str a path)) (List.enumerate 0 batch)))]"

definition blame_range :: "('v, 'z) json_api_scheme \<Rightarrow> 'v \<Rightarrow> (nat \<times> nat \<times> str) option" where
  "blame_range a r =
     Option.bind (to_u32 (v_u64 a (v_get a r ''startingLine''))) (\<lambda>s.
     Option.bind (to_u32 (v_u64 a (v_get a r ''endingLine''))) (\<lambda>e.
     map_option (\<lambda>sha. (s, e, sha)) (ok_of (oid a r ''/commit/oid''))))"

definition touches_span :: "nat \<Rightarrow> nat \<Rightarrow> (nat \<times> nat \<times> str) option \<Rightarrow> bool" where
  "touches_span lo hi r = (case r of None \<Rightarrow> True | Some (s, e, _) \<Rightarrow> s \<le> hi \<and> lo \<le> e)"

definition blame_of :: "('v, 'z) json_api_scheme \<Rightarrow> 'v \<Rightarrow> nat \<Rightarrow> str \<times> nat \<times> nat \<Rightarrow> (nat \<times> nat \<times> str) list option" where
  "blame_of a commit i span =
     (case span of (_, lo, hi) \<Rightarrow>
      Option.bind (v_array a (v_get a (v_get a commit (''f'' @ show_nat i)) ''ranges'')) (\<lambda>rs.
      collect_options (filter (touches_span lo hi) (map (blame_range a) rs))))"

definition blame_batch :: "('v, 'z) json_api_scheme \<Rightarrow> (nat \<Rightarrow> 'v \<Rightarrow> store_error + http_response) \<Rightarrow> remote_target \<Rightarrow> nat \<Rightarrow>
    (str \<times> nat \<times> nat) list \<Rightarrow> store_error + (nat \<times> nat \<times> str) list option list" where
  "blame_batch a post t n batch =
     bindE (post n (blame_body a t batch)) (\<lambda>r.
     failIf (hr_status r \<noteq> 200) (Message (''GitHub blame failed with HTTP '' @ show_nat (hr_status r)))
     (bindE (okE JsonError (from_slice a (hr_body r))) (\<lambda>v.
      (let commit = v_get a (v_get a (v_get a v ''data'') ''repository'') ''object'' in
       Inr (map (\<lambda>(i, span). blame_of a commit i span) (List.enumerate 0 batch))))))"

fun chunks :: "nat \<Rightarrow> 'a list \<Rightarrow> 'a list list" where
  "chunks n [] = []"
| "chunks n (x # xs) = (x # take (n - 1) xs) # chunks n (drop (n - 1) xs)"

definition github_blame :: "('v, 'z) json_api_scheme \<Rightarrow> (nat \<Rightarrow> 'v \<Rightarrow> store_error + http_response) \<Rightarrow> remote_target \<Rightarrow>
    (str \<times> nat \<times> nat) list \<Rightarrow> (nat \<times> nat \<times> str) list option list" where
  "github_blame a post t spans =
     concat (map (\<lambda>(n, batch). case blame_batch a post t n batch of Inr found \<Rightarrow> found | Inl _ \<Rightarrow> replicate (length batch) None)
       (List.enumerate 0 (chunks BLAME_BATCH spans)))"

section \<open>What a pull request was read from\<close>

lemma github_overview_steps: "github_overview a disp w now addr m head n = (Inr ov, k) \<Longrightarrow> k = n + 4"
  by (auto simp: github_overview_def Let_def task_simps)

lemma github_reads_Inr:
  assumes "github_reads a disp w now addr before base head n = (Inr rd, k)"
  shows "k = n + 9 \<and>
    pr_compare rd = fst (get_json a (w n) (''repos/'' @ pa_owner addr @ ''/'' @ pa_repo addr @ ''/compare/'' @ base @ ''...'' @ head) 0) \<and>
    pr_files rd = fst (pages a (w (n + 1)) (pr_root addr @ ''/files'') 0) \<and>
    pr_diff rd = fst (github_request (w (n + 2)) (pr_root addr) GITHUB_DIFF 0)"
  using assms by (auto simp: github_reads_def task_simps dest!: github_overview_steps)

lemma github_finish_fields:
  assumes "github_finish a c addr after remote patch from_files fs comments reviews ov = Inr s"
  shows "snap_patch s = patch \<and> snap_remote s = Some remote \<and> verify_identity c s"
  using assms by (auto simp: github_finish_def bind_simps snapshot_new_def with_origin_def verify_identity_def)

text \<open>
  The evidence of a pass that succeeds: between two reads of the metadata that agree, the comparison, the file list and the
  diff were read, and the account once more.
\<close>

definition pr_captured :: "('v, 'z) json_api_scheme \<Rightarrow> 'a codec_scheme \<Rightarrow> world \<Rightarrow> pr_address \<Rightarrow> str \<Rightarrow> 'v \<Rightarrow> nat \<Rightarrow> snapshot \<Rightarrow> bool" where
  "pr_captured a c w addr account before n s \<longleftrightarrow>
     (\<exists>base head compare fs diff body after t.
        oid a before ''/base/sha'' = Inr base \<and> oid a before ''/head/sha'' = Inr head \<and>
        fst (get_json a (w n) (''repos/'' @ pa_owner addr @ ''/'' @ pa_repo addr @ ''/compare/'' @ base @ ''...'' @ head) 0) = Inr compare \<and>
        fst (pages a (w (n + 1)) (pr_root addr @ ''/files'') 0) = Inr fs \<and>
        fst (github_request (w (n + 2)) (pr_root addr) GITHUB_DIFF 0) = Inr diff \<and>
        (hr_status diff = 200 \<and> body = hr_body diff \<or> hr_status diff = 406 \<and> body = patch_from_files a fs) \<and>
        parse_patch (sha256 c) body default_limits = Inr (snap_patch s) \<and>
        fst (github_account a (w (n + 9)) 0) = Inr account \<and>
        fst (github_metadata a (w (n + 10)) addr 0) = Inr after \<and>
        oid a after ''/base/sha'' = Inr base \<and> oid a after ''/head/sha'' = Inr head \<and>
        pointer a before ''/base/repo/id'' = pointer a after ''/base/repo/id'' \<and>
        snap_remote s = Some t \<and> target_tip t = base \<and> rt_head t = head \<and>
        oid a compare ''/merge_base_commit/sha'' = Inr (comparison_base t) \<and> rt_account t = account \<and>
        rt_open t = is_text a after ''state'' ''open'' \<and> rt_merged t = is_merged a after \<and> verify_identity c s)"

lemma github_target_fields:
  assumes "github_target_of a addr m account base = Inr t"
  shows "oid a m ''/base/sha'' = Inr (target_tip t) \<and> oid a m ''/head/sha'' = Inr (rt_head t) \<and> comparison_base t = base \<and> rt_account t = account"
  using assms by (auto simp: github_target_of_def bind_simps)

lemma diff_body_Inr:
  assumes "diff_body a failed aft fs diff = Inr body"
  shows "hr_status diff = 200 \<and> body = hr_body diff \<or> hr_status diff = 406 \<and> body = patch_from_files a fs"
  using assms by (auto simp: diff_body_def split: if_split_asm)

lemma github_pass_captured:
  assumes "github_pass a c disp w now addr account before n = (Inr (Some s), k)"
  shows "pr_captured a c w addr account before n s \<and> k = n + 11"
proof -
  from assms obtain base head rd n1 compare merge_base target fs diff body patch comments reviews after where
    b: "oid a before ''/base/sha'' = Inr base" "oid a before ''/head/sha'' = Inr head" and
    rd: "github_reads a disp w now addr before base head n = (Inr rd, n1)" and
    r: "pr_compare rd = Inr compare" "oid a compare ''/merge_base_commit/sha'' = Inr merge_base"
      "github_target_of a addr before account merge_base = Inr target" "pr_files rd = Inr fs" "pr_diff rd = Inr diff"
      "diff_body a ''GitHub diff failed (HTTP '' ''); the existing session stays as is'' fs diff = Inr body"
      "parse_patch (sha256 c) body default_limits = Inr patch" and
    e: "fst (github_account a (w n1) 0) = Inr account" "fst (github_metadata a (w (Suc n1)) addr 0) = Inr after"
      "oid a after ''/base/sha'' = Inr base" "oid a after ''/head/sha'' = Inr head"
      "pointer a before ''/base/repo/id'' = pointer a after ''/base/repo/id''" "k = Suc (Suc n1)" and
    s: "github_finish a c addr after
       (target\<lparr>pending_review := list_ex (pending_by a account) reviews, rt_open := is_text a after ''state'' ''open'',
          rt_draft := is_true a after ''draft'', rt_merged := is_merged a after\<rparr>)
       patch (hr_status diff = 406) fs comments reviews (pr_overview rd) = Inr s"
    unfolding github_pass_def by (auto simp: task_simps split: if_split_asm)
  note rd' = github_reads_Inr [OF rd]
  note t = github_target_fields [OF r(3)]
  from t b have "target_tip target = base" "rt_head target = head" by simp_all
  with github_finish_fields [OF s] rd' r b e t diff_body_Inr [OF r(6)] show ?thesis
    unfolding pr_captured_def by (simp add: eval_nat_numeral) metis
qed

lemma github_loop_captured:
  assumes "github_loop left a c disp w now addr account first n = (Inr s, k)"
    and "case first of Some m \<Rightarrow> \<exists>i < n. fst (github_metadata a (w i) addr 0) = Inr m | None \<Rightarrow> True"
  shows "\<exists>before i m. i < m \<and> fst (github_metadata a (w i) addr 0) = Inr before \<and> pr_captured a c w addr account before m s"
  using assms
proof (induction left arbitrary: first n)
  case (Suc left)
  then obtain before n1 found n2 where
    b: "(case first of Some m \<Rightarrow> liftR (Inr m) | None \<Rightarrow> task w (\<lambda>srv. github_metadata a srv addr)) n = (Inr before, n1)" and
    f: "github_pass a c disp w now addr account before n1 = (Inr found, n2)" and
    k: "(case found of Some s \<Rightarrow> liftR (Inr s) | None \<Rightarrow> github_loop left a c disp w now addr account None) n2 = (Inr s, k)"
    by (auto simp: bind_simps)
  show ?case
  proof (cases found)
    case None
    with k Suc.IH [of None n2] show ?thesis by simp
  next
    case (Some s')
    with k f have "github_pass a c disp w now addr account before n1 = (Inr (Some s), n2)" by (simp add: bind_simps)
    from github_pass_captured [OF this] have "pr_captured a c w addr account before n1 s" by blast
    moreover have "\<exists>i < n1. fst (github_metadata a (w i) addr 0) = Inr before"
      using b Suc.prems(2) by (auto simp: task_simps split: option.splits)
    ultimately show ?thesis by blast
  qed
qed (simp add: liftR_def)

text \<open>
  Claim C35. A pull request that loads was read consistently: between two reads of its metadata that name the same base and
  head revisions and the same repository, the comparison of exactly these revisions, a complete file list and the diff were
  read; the patch is the parse of that diff, or of the patch rebuilt from that list when GitHub refused the diff; the
  acting account is the same at the beginning and at the end; and the target names these revisions, the merge base of the
  comparison, this account, and the state of the last read.
\<close>

theorem github_snapshot_consistent:
  assumes "github_snapshot a c disp w now addr 0 = (Inr s, k)"
  shows "\<exists>account before i n. fst (github_account a (w 0) 0) = Inr account \<and> i < n \<and>
    fst (github_metadata a (w i) addr 0) = Inr before \<and> pr_captured a c w addr account before n s"
proof -
  from assms obtain account first where f: "fst (github_account a (w 0) 0) = Inr account"
    "fst (github_metadata a (w (Suc 0)) addr 0) = Inr first"
    "github_loop 3 a c disp w now addr account (Some first) (Suc (Suc 0)) = (Inr s, k)"
    unfolding github_snapshot_def by (auto simp: task_simps)
  have "case Some first of Some m \<Rightarrow> \<exists>i < Suc (Suc 0). fst (github_metadata a (w i) addr 0) = Inr m | None \<Rightarrow> True"
    using f(2) by auto
  from github_loop_captured [OF f(3) this] f(1) show ?thesis by blast
qed

definition hub_address :: pr_address where
  "hub_address = \<lparr>pa_host = ''github.com'', pa_owner = ''o'', pa_repo = ''r'', pa_number = 7\<rparr>"

definition hub_decode :: "bytes \<Rightarrow> doc option" where
  "hub_decode b =
     (let sha = DObj [(''sha'', DStr (replicate 40 CHR ''a''))] in
      if b = ''m'' then Some (DObj [(''base'', DObj [(''sha'', DStr (replicate 40 CHR ''a'')),
          (''repo'', DObj [(''id'', DNum 3), (''name'', DStr ''r''), (''owner'', DObj [(''login'', DStr ''o'')])])]),
        (''head'', sha), (''state'', DStr ''open''), (''title'', DStr ''T''), (''changed_files'', DNum 0)])
      else if b = ''u'' then Some (DObj [(''login'', DStr ''me'')])
      else if b = ''c'' then Some (DObj [(''merge_base_commit'', sha)])
      else if b = ''[]'' then Some (DArr []) else None)"

definition hub_world :: world where
  "hub_world n k e accept =
     Inr \<lparr>hr_status = 200, hr_headers = [],
       hr_body = (if accept = GITHUB_DIFF then [] else if e = pr_root hub_address then ''m'' else if e = ''user'' then ''u''
         else if starts_with ''repos/o/r/compare/'' e then ''c'' else ''[]'')\<rparr>"

lemma hub_loads:
  "case github_snapshot (doc_api hub_decode) sample_codec (\<lambda>_. []) hub_world 5 hub_address 0 of
     (Inl _, _) \<Rightarrow> False | (Inr s, _) \<Rightarrow> True"
  by code_simp

theorem github_snapshot_consistent_witness:
  "\<exists>s k t. github_snapshot (doc_api hub_decode) sample_codec (\<lambda>_. []) hub_world 5 hub_address 0 = (Inr s, k) \<and>
     snap_remote s = Some t \<and> verify_identity sample_codec s"
proof -
  obtain s k where s: "github_snapshot (doc_api hub_decode) sample_codec (\<lambda>_. []) hub_world 5 hub_address 0 = (Inr s, k)"
    using hub_loads by (auto split: sum.splits prod.splits)
  from github_snapshot_consistent [OF s] s show ?thesis unfolding pr_captured_def by blast
qed

section \<open>What a compare was read from\<close>

lemma github_compare_finish_fields:
  assumes "github_compare_finish a c now addr meta named owner name base merge_base head commits fs from_files patch = Inr s"
  shows "snap_patch s = patch \<and> verify_identity c s \<and>
    (\<exists>i. snap_remote s = Some (compare_remote GITHUB (ca_host addr) i owner name base merge_base head (ca_refs addr)))"
  using assms by (auto simp: github_compare_finish_def Let_def bind_simps with_origin_def verify_identity_def)

lemma oid_object_id: "oid a v path = Inr s \<Longrightarrow> object_id s"
  by (auto simp: oid_def bind_simps object_id_def to_ascii_lowercase_def list_all_iff hexdigit_lower)

text \<open>
  A GitHub compare that loads is pinned: its refs were resolved once to full commit names of the base, the
  merge base and the head, the patch is the parse of the diff read for exactly those names, or of the patch rebuilt from the
  list of the resolved compare when GitHub refused the diff, and the target names them. When the address asks for a direct
  comparison, the base is the merge base, so that the diff is the one that was asked for.
\<close>

theorem github_compare_pinned:
  assumes "github_compare a c w now addr 0 = (Inr s, k)"
  shows "\<exists>named diff body t.
    fst (get_json a (w 1) (compare_range addr (cmp_base (ca_refs addr)) (cmp_head (ca_refs addr))) 0) = Inr named \<and>
    oid a named ''/base_commit/sha'' = Inr (target_tip t) \<and> oid a named ''/merge_base_commit/sha'' = Inr (comparison_base t) \<and>
    list_all object_id [target_tip t, comparison_base t, rt_head t] \<and>
    (cmp_direct (ca_refs addr) \<longrightarrow> comparison_base t = target_tip t) \<and>
    fst (github_request (w 2) (compare_range addr (target_tip t) (rt_head t)) GITHUB_DIFF 0) = Inr diff \<and>
    (hr_status diff = 200 \<and> body = hr_body diff \<or>
     hr_status diff = 406 \<and> body = patch_from_files a (items_of a (v_get a named ''files''))) \<and>
    parse_patch (sha256 c) body default_limits = Inr (snap_patch s) \<and>
    snap_remote s = Some t \<and> rt_compare t = Some (ca_refs addr) \<and> rt_pr t = 0 \<and> rt_account t = [] \<and> verify_identity c s"
proof -
  from assms obtain meta named owner name base merge_base commits head diff body patch where
    n: "fst (get_json a (w (Suc 0)) (compare_range addr (cmp_base (ca_refs addr)) (cmp_head (ca_refs addr))) 0) = Inr named" and
    o: "oid a named ''/base_commit/sha'' = Inr base" "oid a named ''/merge_base_commit/sha'' = Inr merge_base"
      "compare_head a named merge_base commits = Inr head" and
    d: "cmp_direct (ca_refs addr) \<longrightarrow> merge_base = base" and
    b: "fst (github_request (w (Suc (Suc 0))) (compare_range addr base head) GITHUB_DIFF 0) = Inr diff"
      "diff_body a ''GitHub compare diff failed (HTTP '' '')'' (items_of a (v_get a named ''files'')) diff = Inr body"
      "parse_patch (sha256 c) body default_limits = Inr patch" and
    f: "github_compare_finish a c now addr meta named owner name base merge_base head commits (items_of a (v_get a named ''files''))
         (hr_status diff = 406) patch = Inr s"
    unfolding github_compare_def Let_def by (auto simp: task_simps split: if_split_asm)
  from github_compare_finish_fields [OF f] obtain i where s: "snap_patch s = patch" "verify_identity c s"
    "snap_remote s = Some (compare_remote GITHUB (ca_host addr) i owner name base merge_base head (ca_refs addr))" by blast
  have "object_id head" using o(2,3) by (auto simp: compare_head_def dest: oid_object_id split: if_split_asm)
  with oid_object_id [OF o(1)] oid_object_id [OF o(2)] have ids: "list_all object_id [base, merge_base, head]" by simp
  show ?thesis
    by (rule exI [of _ named], rule exI [of _ diff], rule exI [of _ body],
        rule exI [of _ "compare_remote GITHUB (ca_host addr) i owner name base merge_base head (ca_refs addr)"])
      (use n o(1,2) d b ids s diff_body_Inr [OF b(2)] in \<open>simp add: compare_remote_def eval_nat_numeral\<close>)
qed

definition hub_compare :: compare_address where
  "hub_compare = \<lparr>ca_host = ''github.com'', ca_owner = ''o'', ca_repo = ''r'',
     ca_refs = \<lparr>cmp_base = ''v1'', cmp_head = ''v2'', cmp_direct = True\<rparr>\<rparr>"

definition hub_compare_decode :: "bytes \<Rightarrow> doc option" where
  "hub_compare_decode b =
     (let sha = DObj [(''sha'', DStr (replicate 40 CHR ''a''))] in
      if b = ''m'' then Some (DObj [(''id'', DNum 3), (''name'', DStr ''r''), (''owner'', DObj [(''login'', DStr ''o'')])])
      else Some (DObj [(''base_commit'', sha), (''merge_base_commit'', sha), (''commits'', DArr []), (''total_commits'', DNum 0)]))"

definition hub_compare_world :: world where
  "hub_compare_world n k e accept =
     Inr \<lparr>hr_status = 200, hr_headers = [], hr_body = (if accept = GITHUB_DIFF then [] else if e = ''repos/o/r'' then ''m'' else ''c'')\<rparr>"

lemma hub_compare_loads:
  "case github_compare (doc_api hub_compare_decode) sample_codec hub_compare_world 5 hub_compare 0 of (Inl _, _) \<Rightarrow> False | (Inr s, _) \<Rightarrow> True"
  by code_simp

theorem github_compare_pinned_witness:
  "\<exists>s k t. github_compare (doc_api hub_compare_decode) sample_codec hub_compare_world 5 hub_compare 0 = (Inr s, k) \<and>
     snap_remote s = Some t \<and> comparison_base t = target_tip t"
proof -
  obtain s k where s: "github_compare (doc_api hub_compare_decode) sample_codec hub_compare_world 5 hub_compare 0 = (Inr s, k)"
    using hub_compare_loads by (auto split: sum.splits prod.splits)
  have "cmp_direct (ca_refs hub_compare)" by (simp add: hub_compare_def)
  with github_compare_pinned [OF s] s show ?thesis by blast
qed

section \<open>Blame is aligned with its spans\<close>

definition within_span :: "str \<times> nat \<times> nat \<Rightarrow> (nat \<times> nat \<times> str) list option \<Rightarrow> bool" where
  "within_span span found =
     (case (span, found) of
        (_, None) \<Rightarrow> True
      | ((_, lo, hi), Some rs) \<Rightarrow> list_all (\<lambda>(s, e, sha). s \<le> hi \<and> lo \<le> e \<and> s \<le> u32_max \<and> e \<le> u32_max \<and> object_id sha) rs)"

lemma blame_range_bounds:
  "blame_range a r = Some (s, e, sha) \<Longrightarrow> s \<le> u32_max \<and> e \<le> u32_max \<and> object_id sha"
  by (auto simp: blame_range_def bind_eq_Some_conv to_u32_def ok_of_def oid_object_id split: option.splits if_splits sum.splits)

lemma blame_of_within: "within_span span (blame_of a commit i span)"
proof (cases "blame_of a commit i span")
  case None
  then show ?thesis by (cases span) (simp add: within_span_def)
next
  case (Some rs)
  obtain path lo hi where span: "span = (path, lo, hi)" by (cases span) auto
  with Some obtain vs where "filter (touches_span lo hi) (map (blame_range a) vs) = map Some rs"
    by (auto simp: blame_of_def bind_eq_Some_conv collect_options_Some)
  then have r: "touches_span lo hi (Some r) \<and> (\<exists>v. blame_range a v = Some r)" if "r \<in> set rs" for r
  proof -
    assume f: "filter (touches_span lo hi) (map (blame_range a) vs) = map Some rs"
    have "Some r \<in> set (filter (touches_span lo hi) (map (blame_range a) vs))" using that f by simp
    then show ?thesis by auto
  qed
  have "\<forall>x \<in> set rs. case x of (s, e, sha) \<Rightarrow> s \<le> hi \<and> lo \<le> e \<and> s \<le> u32_max \<and> e \<le> u32_max \<and> object_id sha"
    using r by (fastforce simp: touches_span_def dest: blame_range_bounds split: prod.splits)
  with Some span show ?thesis by (simp add: within_span_def list_all_iff)
qed

lemma concat_chunks: "concat (chunks n xs) = xs"
  by (induction n xs rule: chunks.induct) simp_all

lemma blame_batch_aligned:
  assumes "blame_batch a post t n batch = Inr found"
  shows "list_all2 within_span batch found"
  using assms
  by (auto simp: blame_batch_def bind_simps Let_def list_all2_conv_all_nth nth_enumerate_eq blame_of_within)

lemma none_within: "list_all2 within_span batch (replicate (length batch) None)"
  by (auto simp: list_all2_conv_all_nth within_span_def split: prod.split)

lemma list_all2_concat_map:
  "(\<And>n x. list_all2 P x (f n x)) \<Longrightarrow> list_all2 P (concat xs) (concat (map (\<lambda>(n, x). f n x) (List.enumerate k xs)))"
  by (induction xs arbitrary: k) (simp_all add: list_all2_appendI)

text \<open>
  Whatever the queries answer, blame from GitHub has one entry for each span that was asked for, in order: none
  when its query failed, else ranges that each touch the span, within the numbers of lines and with full commit names.
\<close>

theorem github_blame_aligned: "list_all2 within_span spans (github_blame a post t spans)"
proof -
  have "list_all2 within_span batch (case blame_batch a post t n batch of Inr found \<Rightarrow> found | Inl _ \<Rightarrow> replicate (length batch) None)"
    for n batch
    by (auto split: sum.split intro: blame_batch_aligned none_within)
  from list_all2_concat_map [of within_span "\<lambda>n batch. case blame_batch a post t n batch of Inr found \<Rightarrow> found | Inl _ \<Rightarrow> replicate (length batch) None",
      OF this, of "chunks BLAME_BATCH spans" 0]
  show ?thesis by (simp add: github_blame_def concat_chunks)
qed

section \<open>Releases\<close>

lemma github_timeline_steps:
  assumes "github_timeline a w t refs repo compare tags truncated noted commits rng n = (Inr (rels, warnings), k)"
  shows "\<exists>ss graph. ss = fst (steps rng (target_tip t) (rt_head t) tags (map fst noted)) \<and>
    map rel_commit rels = map step_to ss \<and> map rel_tag rels = map step_tag ss \<and> map rel_shas rels = members graph ss"
proof -
  obtain ss folded where ss: "steps rng (target_tip t) (rt_head t) tags (map fst noted) = (ss, folded)" by fastforce
  define shas where "shas = members (map (\<lambda>(c, sha, _). (sha, commit_parents a c)) (zip commits rng)) ss"
  define dates where "dates = map_of (rev (List.map_filter (commit_date a) commits))"
  from assms obtain stats j where st: "step_stats w (target_tip t) (rt_head t) (compare_stats a compare)
        (\<lambda>st srv. bindR (get_json a srv (repo @ ''/compare/'' @ step_from st @ ''...'' @ step_to st @ ''?per_page=1'')) (\<lambda>v.
           liftR (Inr (compare_stats a v)))) ss n = (Inr stats, j)"
    and r: "rels = map (\<lambda>(st, sts, here). github_release a (rt_repository t) (map_of (rev noted)) dates st sts here) (zip ss (zip stats shas))"
    unfolding github_timeline_def Let_def ss prod.case shas_def dates_def by (auto simp: bind_simps)
  have "length stats = length ss" "length shas = length ss"
    using step_stats_length [OF st] by (simp_all add: shas_def members_length)
  from timeline_columns [OF this,
      of "\<lambda>st sts here. rel_commit (github_release a (rt_repository t) (map_of (rev noted)) dates st sts here)"
         "\<lambda>st sts here. rel_tag (github_release a (rt_repository t) (map_of (rev noted)) dates st sts here)"
         "\<lambda>st sts here. rel_shas (github_release a (rt_repository t) (map_of (rev noted)) dates st sts here)"]
  have "map rel_commit rels = map step_to ss" "map rel_tag rels = map step_tag ss" "map rel_shas rels = shas"
    unfolding r by (simp_all add: github_release_def Let_def comp_def case_prod_unfold)
  with ss show ?thesis unfolding shas_def by fastforce
qed

text \<open>
  The releases of a compare are its steps, in order: each has the commit and the tag of its step, and the commits
  that were given to it are those that its step adds.
\<close>

theorem github_releases_steps:
  assumes "github_releases a w t n = (Inr (rels, warnings), k)"
  shows "\<exists>rng graph tags released ss.
    ss = fst (steps rng (target_tip t) (rt_head t) tags released) \<and>
    map rel_commit rels = map step_to ss \<and> map rel_tag rels = map step_tag ss \<and> map rel_shas rels = members graph ss"
proof -
  from assms obtain refs repo compare tags truncated noted commits rng j where
    "github_timeline a w t refs repo compare tags truncated noted commits rng j = (Inr (rels, warnings), k)"
    unfolding github_releases_def Let_def by (simp only: task_simps) blast
  from github_timeline_steps [OF this] show ?thesis by blast
qed

end
