(* ===== verification/GitlabLoad.thy ===== *)
theory GitlabLoad
  imports Tasks
begin

text \<open>
  The loaders of GitLab beside the merge request of theory \<open>Http\<close> (\<open>crates/adapters/src/gitlab.rs\<close>): a compare of two refs,
  its release timeline, and blame.
\<close>

section \<open>A compare\<close>

definition DIFF_FILES :: nat where
  "DIFF_FILES = 1000"

definition show_bool :: "bool \<Rightarrow> str" where
  "show_bool b = (if b then ''true'' else ''false'')"

definition project_endpoint :: "str \<Rightarrow> str" where
  "project_endpoint path = ''projects/'' @ replace_char CHR ''/'' ''%2F'' path"

definition compare_endpoint :: "str \<Rightarrow> str \<Rightarrow> str \<Rightarrow> bool \<Rightarrow> str" where
  "compare_endpoint project base head straight =
     project @ ''/repository/compare?from='' @ base @ ''&to='' @ head @ ''&straight='' @ show_bool straight"

definition left_out :: "('v, 'z) json_api_scheme \<Rightarrow> 'v \<Rightarrow> str list" where
  "left_out a d =
     (if is_true a d ''too_large'' \<or> is_true a d ''collapsed''
      then [''GitLab left out the text of '' @ str_or [] (v_str a (v_get a d ''new_path'')) @ '' because it is too large or collapsed'']
      else [])"

definition compare_cut :: "('v, 'z) json_api_scheme \<Rightarrow> 'v \<Rightarrow> bool" where
  "compare_cut a v \<longleftrightarrow> is_true a v ''compare_timeout'' \<or> DIFF_FILES \<le> length (items_of a (v_get a v ''diffs''))"

definition gitlab_compare_warnings :: "('v, 'z) json_api_scheme \<Rightarrow> 'v \<Rightarrow> patch_report \<Rightarrow> str list" where
  "gitlab_compare_warnings a compare patch =
     (let diffs = items_of a (v_get a compare ''diffs'') in
      (if compare_cut a compare
       then [''GitLab timed out computing this compare or reached its file limit, so its file list, release timeline, and release attribution may be incomplete'']
       else []) @
      (if length (files patch) \<noteq> length diffs
       then [''coverage disagreement: file listing '' @ show_nat (length diffs) @ '', patch count '' @ show_nat (length (files patch))]
       else []) @
      concat (map (left_out a) diffs))"

definition commit_title :: "('v, 'z) json_api_scheme \<Rightarrow> 'v \<Rightarrow> str" where
  "commit_title a c =
     ''- `'' @ str_or [] (v_str a (v_get a c ''short_id'')) @ ''` '' @ str_or [] (v_str a (v_get a c ''title'')) @ [LF]"

definition gitlab_compare_finish :: "('v, 'z) json_api_scheme \<Rightarrow> 'a codec_scheme \<Rightarrow> nat option \<Rightarrow> gitlab_compare \<Rightarrow> 'v \<Rightarrow> 'v \<Rightarrow>
    str \<Rightarrow> str \<Rightarrow> str \<Rightarrow> patch_report \<Rightarrow> store_error + snapshot" where
  "gitlab_compare_finish a c clock addr meta compare tip base head patch =
     bindE (okE (Message ''Missing project ID'') (v_u64 a (v_get a meta ''id''))) (\<lambda>i.
     failIf (case from_project_id addr of None \<Rightarrow> False | Some given \<Rightarrow> given \<noteq> i) (Message ''cross-project compares are not supported'')
     (bindE (gl_string a meta ''/path_with_namespace'') (\<lambda>path.
      bindE (okE (Message ''Invalid project'') (rsplit_once ''/'' path)) (\<lambda>(owner, name).
      bindE (okE (Message ''Clock error'') clock) (\<lambda>now.
      (let refs = gc_refs addr; label = compare_label refs in
       Inr ((with_origin c (path @ ''  '' @ label) patch
           (Some (compare_remote GITLAB (gc_host addr) i owner name tip base head refs)) []
           (''gitlab-compare:'' @ gc_host addr @ '':'' @ path @ '':'' @ label))
         \<lparr>snap_warnings := gitlab_compare_warnings a compare patch,
          snap_overview := default_overview\<lparr>ov_description := Some (concat (map (commit_title a) (items_of a (v_get a compare ''commits'')))),
            ov_captured_at := Some now\<rparr>\<rparr>)))))))"

definition gitlab_compare_load :: "('v, 'z) json_api_scheme \<Rightarrow> 'a codec_scheme \<Rightarrow> world \<Rightarrow> nat option \<Rightarrow> gitlab_compare \<Rightarrow> snapshot reader" where
  "gitlab_compare_load a c w clock addr =
     (let refs = gc_refs addr; project = project_endpoint (gc_project addr);
          commit = (\<lambda>r. project @ ''/repository/commits/'' @ encode_ref r) in
      bindR (tryR (task w (\<lambda>srv. gitlab_get a srv project))) (\<lambda>meta.
      bindR (tryR (task w (\<lambda>srv. gitlab_get a srv (commit (cmp_base refs))))) (\<lambda>from_commit.
      bindR (tryR (task w (\<lambda>srv. gitlab_get a srv (commit (cmp_head refs))))) (\<lambda>to_commit.
      bindR (liftR meta) (\<lambda>meta.
      bindR (liftR from_commit) (\<lambda>from_commit.
      bindR (liftR to_commit) (\<lambda>to_commit.
      bindR (liftR (gl_sha a from_commit ''/id'')) (\<lambda>tip.
      bindR (liftR (gl_sha a to_commit ''/id'')) (\<lambda>head.
      bindR (tryR (task w (\<lambda>srv. gitlab_get a srv (compare_endpoint project tip head (cmp_direct refs))))) (\<lambda>compare.
      bindR (if cmp_direct refs then liftR (Inr (Inr tip))
             else tryR (task w (\<lambda>srv. bindR (gitlab_get a srv (project @ ''/repository/merge_base?refs[]='' @ tip @ ''&refs[]='' @ head)) (\<lambda>v.
               liftR (gl_sha a v ''/id''))))) (\<lambda>base.
      bindR (liftR compare) (\<lambda>compare.
      bindR (liftR base) (\<lambda>base.
      bindR (liftR (map_errE PatchFailed
        (parse_patch (sha256 c) (patch_from_diffs a (items_of a (v_get a compare ''diffs''))) default_limits))) (\<lambda>patch.
      liftR (gitlab_compare_finish a c clock addr meta compare tip base head patch)))))))))))))))"

section \<open>Releases of a compare\<close>

type_synonym tag_list = "(str \<times> str) list \<times> (str \<times> str) list"

fun add_gitlab_tags :: "('v, 'z) json_api_scheme \<Rightarrow> 'v list \<Rightarrow> tag_list \<Rightarrow> store_error + tag_list" where
  "add_gitlab_tags a [] st = Inr st"
| "add_gitlab_tags a (t # ts) st =
     (case gl_sha a t ''/commit/id'' of
        Inl _ \<Rightarrow> add_gitlab_tags a ts st
      | Inr commit \<Rightarrow> bindE (gl_string a t ''/name'') (\<lambda>name.
          add_gitlab_tags a ts (fst st @ [(name, commit)],
            (case v_str a (v_get a (v_get a t ''release'') ''description'') of
               Some body \<Rightarrow> snd st @ [(name, body)] | None \<Rightarrow> snd st))))"

fun gitlab_tag_pages :: "('v, 'z) json_api_scheme \<Rightarrow> server \<Rightarrow> str \<Rightarrow> nat \<Rightarrow> nat \<Rightarrow> tag_list \<Rightarrow> (tag_list \<times> bool) reader" where
  "gitlab_tag_pages a srv project 0 page st = liftR (Inr (st, True))"
| "gitlab_tag_pages a srv project (Suc left) page st =
     bindR (gitlab_get a srv (project @ ''/repository/tags?per_page=100&page='' @ show_nat page)) (\<lambda>v.
     bindR (liftR (okE (Message ''Expected a GitLab tag list'') (v_array a v))) (\<lambda>found.
     bindR (liftR (add_gitlab_tags a found st)) (\<lambda>st.
     if length found < 100 then liftR (Inr (st, False)) else gitlab_tag_pages a srv project left (Suc page) st)))"

definition sha_of_str :: "str option \<Rightarrow> str option" where
  "sha_of_str x = Option.bind x (\<lambda>p. if object_id p then Some (to_ascii_lowercase p) else None)"

definition gitlab_commit_parent :: "('v, 'z) json_api_scheme \<Rightarrow> 'v \<Rightarrow> store_error + (str \<times> str option)" where
  "gitlab_commit_parent a v =
     bindE (gl_sha a v ''/id'') (\<lambda>i. Inr (i, sha_of_str (v_str a (pointer_at a v ''/parent_ids/0''))))"

definition gitlab_commit_parents :: "('v, 'z) json_api_scheme \<Rightarrow> 'v \<Rightarrow> str list" where
  "gitlab_commit_parents a v =
     List.map_filter (\<lambda>i. sha_of_str (v_str a (pointer_at a v (''/parent_ids/'' @ show_nat i))))
       [0..<length (items_of a (v_get a v ''parent_ids''))]"

definition lines_starting :: "char \<Rightarrow> str \<Rightarrow> nat" where
  "lines_starting c diff = length (filter (starts_with [c]) (str_lines diff))"

definition gitlab_file_of :: "('v, 'z) json_api_scheme \<Rightarrow> 'v \<Rightarrow> release_file" where
  "gitlab_file_of a d =
     (let diff = str_or [] (v_str a (v_get a d ''diff'')) in
      \<lparr>rf_path = str_or [] (v_str a (v_get a d ''new_path'')), rf_additions = lines_starting CHR ''+'' diff,
       rf_deletions = lines_starting CHR ''-'' diff,
       rf_previous = (if is_true a d ''renamed_file'' then v_str a (v_get a d ''old_path'') else None)\<rparr>)"

type_synonym gitlab_stats = "bool \<times> nat \<times> release_file list"

definition gitlab_compare_stats :: "('v, 'z) json_api_scheme \<Rightarrow> 'v \<Rightarrow> gitlab_stats" where
  "gitlab_compare_stats a v =
     (compare_cut a v, length (items_of a (v_get a v ''commits'')), map (gitlab_file_of a) (items_of a (v_get a v ''diffs'')))"

definition gitlab_date :: "('v, 'z) json_api_scheme \<Rightarrow> 'v \<Rightarrow> (str \<times> str) option" where
  "gitlab_date a v = Option.bind (v_str a (v_get a v ''id'')) (\<lambda>i. map_option (Pair i) (v_str a (v_get a v ''created_at'')))"

definition gitlab_release :: "str \<Rightarrow> str \<Rightarrow> (str \<Rightarrow> str option) \<Rightarrow> (str \<Rightarrow> str option) \<Rightarrow> step \<Rightarrow> gitlab_stats \<Rightarrow> str list \<Rightarrow> release" where
  "gitlab_release host path notes dates st stats shas =
     (let note = Option.bind (step_tag st) notes in
      \<lparr>rel_tag = step_tag st, rel_commit = step_to st, rel_date = dates (step_to st), rel_commits = fst (snd stats),
       rel_files = snd (snd stats), rel_notes = Option.bind note (\<lambda>b. if trim b = [] then None else Some b),
       rel_url = map_option (\<lambda>t. ''https://'' @ host @ ''/'' @ path @ ''/-/'' @ (if note \<noteq> None then ''releases'' else ''tags'') @ ''/'' @
         encode_path t) (step_tag st),
       rel_shas = shas\<rparr>)"

definition step_cut_warning :: "str \<Rightarrow> str" where
  "step_cut_warning name = ''GitLab timed out or reached its file limit comparing '' @ name @
     '', so the file tree may leave some of its files out.''"

definition gitlab_timeline :: "('v, 'z) json_api_scheme \<Rightarrow> world \<Rightarrow> remote_target \<Rightarrow> compare_refs \<Rightarrow> str \<Rightarrow> 'v \<Rightarrow> tag_list \<Rightarrow> bool \<Rightarrow>
    (str \<times> str option) list \<Rightarrow> (release list \<times> str list) reader" where
  "gitlab_timeline a w t refs path compare tags truncated rng =
     (let base = target_tip t; head = rt_head t; notes = map_of (rev (snd tags)); commits = items_of a (v_get a compare ''commits'');
          (ss, folded) = steps rng base head (fst tags) (map fst (snd tags));
          shas = members (map (\<lambda>(v, i, _). (i, gitlab_commit_parents a v)) (zip commits rng)) ss in
      bindR (step_stats w base head (case gitlab_compare_stats a compare of (_, n, fs) \<Rightarrow> (False, n, fs))
        (\<lambda>st srv. bindR (gitlab_get a srv (compare_endpoint (project_endpoint path) (step_from st) (step_to st) (cmp_direct refs))) (\<lambda>v.
           liftR (Inr (gitlab_compare_stats a v)))) ss) (\<lambda>stats.
      (let dates = map_of (rev (List.map_filter (gitlab_date a) commits));
           joined = zip ss (zip stats shas) in
       liftR (Inr (map (\<lambda>(st, sts, here). gitlab_release (repo_host (rt_repository t)) path notes dates st sts here) joined,
         (if truncated then [tags_cut_warning] else []) @ option_list (folded_warning folded) @
         concat (map (\<lambda>(st, sts, _). if fst sts then [step_cut_warning (str_or (cmp_head refs) (step_tag st))] else []) joined))))))"

definition gitlab_releases :: "('v, 'z) json_api_scheme \<Rightarrow> world \<Rightarrow> remote_target \<Rightarrow> (release list \<times> str list) reader" where
  "gitlab_releases a w t =
     bindR (liftR (okE (Message ''only a compare has releases'') (rt_compare t))) (\<lambda>refs.
     (let path = repo_owner (rt_repository t) @ ''/'' @ repo_name (rt_repository t); project = project_endpoint path in
      bindR (tryR (task w (\<lambda>srv. gitlab_get a srv (compare_endpoint project (target_tip t) (rt_head t) (cmp_direct refs))))) (\<lambda>compare.
      bindR (tryR (task w (\<lambda>srv. gitlab_tag_pages a srv project TAG_PAGES 1 ([], [])))) (\<lambda>tags.
      bindR (liftR compare) (\<lambda>compare.
      bindR (liftR tags) (\<lambda>tags.
      bindR (liftR (collect_results (map (gitlab_commit_parent a) (items_of a (v_get a compare ''commits''))))) (\<lambda>rng.
      gitlab_timeline a w t refs path compare (fst tags) (snd tags) rng)))))))"

section \<open>Blame\<close>

text \<open>Line numbers are 32-bit and wrap, as in a release build.\<close>

fun blame_groups :: "('v, 'z) json_api_scheme \<Rightarrow> nat \<Rightarrow> 'v list \<Rightarrow> (nat \<times> nat \<times> str) list option" where
  "blame_groups a line [] = Some []"
| "blame_groups a line (g # gs) =
     Option.bind (to_u32 (map_option length (v_array a (v_get a g ''lines'')))) (\<lambda>n.
     if n = 0 then None
     else Option.bind (ok_of (gl_sha a g ''/commit/id'')) (\<lambda>commit.
       map_option (Cons (line, (line + (n - 1)) mod 2 ^ 32, commit)) (blame_groups a ((line + n) mod 2 ^ 32) gs)))"

definition gitlab_blame_file :: "('v, 'z) json_api_scheme \<Rightarrow> remote_target \<Rightarrow> str \<times> nat \<times> nat \<Rightarrow> server \<Rightarrow>
    (nat \<times> nat \<times> str) list option reader" where
  "gitlab_blame_file a t span srv =
     (case span of (path, lo, hi) \<Rightarrow>
      bindR (tryR (gitlab_get a srv (''projects/'' @ encode_ref (ma_project (mr_from_target t)) @ ''/repository/files/'' @ encode_ref path @
        ''/blame?ref='' @ rt_head t @ ''&range[start]='' @ show_nat lo @ ''&range[end]='' @ show_nat hi))) (\<lambda>v.
      liftR (Inr (Option.bind (ok_of v) (\<lambda>v. Option.bind (v_array a v) (blame_groups a lo))))))"

definition gitlab_blame :: "('v, 'z) json_api_scheme \<Rightarrow> world \<Rightarrow> remote_target \<Rightarrow> (str \<times> nat \<times> nat) list \<Rightarrow>
    (nat \<times> nat \<times> str) list option list reader" where
  "gitlab_blame a w t spans = bounded_tasks w (gitlab_blame_file a t) spans"

section \<open>What a compare was read from\<close>

lemma gitlab_compare_finish_fields:
  assumes "gitlab_compare_finish a c clock addr meta compare tip base head patch = Inr s"
  shows "snap_patch s = patch \<and> verify_identity c s \<and>
    (\<exists>i owner name. snap_remote s = Some (compare_remote GITLAB (gc_host addr) i owner name tip base head (gc_refs addr)) \<and>
      (case from_project_id addr of None \<Rightarrow> True | Some given \<Rightarrow> given = i))"
proof -
  from assms obtain i path owner name now where
    g: "case from_project_id addr of None \<Rightarrow> True | Some given \<Rightarrow> given = i" and
    s: "s = (with_origin c (path @ ''  '' @ compare_label (gc_refs addr)) patch
           (Some (compare_remote GITLAB (gc_host addr) i owner name tip base head (gc_refs addr))) []
           (''gitlab-compare:'' @ gc_host addr @ '':'' @ path @ '':'' @ compare_label (gc_refs addr)))
         \<lparr>snap_warnings := gitlab_compare_warnings a compare patch,
          snap_overview := default_overview\<lparr>ov_description := Some (concat (map (commit_title a) (items_of a (v_get a compare ''commits'')))),
            ov_captured_at := Some now\<rparr>\<rparr>"
    unfolding gitlab_compare_finish_def Let_def bind_simps by (auto simp: bind_simps split: option.splits)
  from s have "snap_remote s = Some (compare_remote GITLAB (gc_host addr) i owner name tip base head (gc_refs addr))"
    "snap_patch s = patch" "verify_identity c s" by (simp_all add: with_origin_def verify_identity_def)
  with g show ?thesis by blast
qed

lemma gl_sha_object_id: "gl_sha a v path = Inr s \<Longrightarrow> object_id s"
  by (auto simp: gl_sha_def bind_simps object_id_def to_ascii_lowercase_def list_all_iff hexdigit_lower)

text \<open>
  A GitLab compare that loads is pinned: both refs were resolved to full commit names first, the patch is the parse
  of the patch rebuilt from the one comparison of exactly these names in the requested mode, the target names them, and the
  base of the comparison is the merge base that GitLab reports or, for a direct comparison, the first commit
  itself. A compare with another project is never loaded as one of this project.
\<close>

theorem gitlab_compare_pinned:
  assumes "gitlab_compare_load a c w clock addr 0 = (Inr s, k)"
  shows "\<exists>project from_commit to_commit compare t i.
    project = project_endpoint (gc_project addr) \<and>
    fst (gitlab_get a (w 1) (project @ ''/repository/commits/'' @ encode_ref (cmp_base (gc_refs addr))) 0) = Inr from_commit \<and>
    gl_sha a from_commit ''/id'' = Inr (target_tip t) \<and>
    fst (gitlab_get a (w 2) (project @ ''/repository/commits/'' @ encode_ref (cmp_head (gc_refs addr))) 0) = Inr to_commit \<and>
    gl_sha a to_commit ''/id'' = Inr (rt_head t) \<and>
    fst (gitlab_get a (w 3) (compare_endpoint project (target_tip t) (rt_head t) (cmp_direct (gc_refs addr))) 0) = Inr compare \<and>
    parse_patch (sha256 c) (patch_from_diffs a (items_of a (v_get a compare ''diffs''))) default_limits = Inr (snap_patch s) \<and>
    list_all object_id [target_tip t, comparison_base t, rt_head t] \<and>
    (cmp_direct (gc_refs addr) \<longrightarrow> comparison_base t = target_tip t) \<and>
    snap_remote s = Some t \<and> repo_id (rt_repository t) = i \<and> (from_project_id addr = None \<or> from_project_id addr = Some i) \<and>
    rt_compare t = Some (gc_refs addr) \<and> verify_identity c s"
proof -
  define project where "project = project_endpoint (gc_project addr)"
  from assms obtain meta from_commit to_commit tip head compare base patch where
    f: "fst (gitlab_get a (w (Suc 0)) (project @ ''/repository/commits/'' @ encode_ref (cmp_base (gc_refs addr))) 0) = Inr from_commit"
       "fst (gitlab_get a (w (Suc (Suc 0))) (project @ ''/repository/commits/'' @ encode_ref (cmp_head (gc_refs addr))) 0) = Inr to_commit"
       "gl_sha a from_commit ''/id'' = Inr tip" "gl_sha a to_commit ''/id'' = Inr head"
       "fst (gitlab_get a (w (Suc (Suc (Suc 0)))) (compare_endpoint project tip head (cmp_direct (gc_refs addr))) 0) = Inr compare" and
    b: "if cmp_direct (gc_refs addr) then base = tip else \<exists>v. gl_sha a v ''/id'' = Inr base" and
    p: "parse_patch (sha256 c) (patch_from_diffs a (items_of a (v_get a compare ''diffs''))) default_limits = Inr patch" and
    s: "gitlab_compare_finish a c clock addr meta compare tip base head patch = Inr s"
    unfolding gitlab_compare_load_def Let_def project_def [symmetric]
    by (auto simp: task_simps bindR_fst_Inr liftR_def split: if_split_asm) (metis fst_conv)+
  from gitlab_compare_finish_fields [OF s] obtain i owner name where r: "snap_patch s = patch" "verify_identity c s"
    "snap_remote s = Some (compare_remote GITLAB (gc_host addr) i owner name tip base head (gc_refs addr))"
    "case from_project_id addr of None \<Rightarrow> True | Some given \<Rightarrow> given = i" by blast
  have "object_id base" using b gl_sha_object_id [OF f(3)] by (auto split: if_split_asm dest: gl_sha_object_id)
  with gl_sha_object_id [OF f(3)] gl_sha_object_id [OF f(4)] have ids: "list_all object_id [tip, base, head]" by simp
  have from_id: "from_project_id addr = None \<or> from_project_id addr = Some i" using r(4) by (simp split: option.splits)
  show ?thesis
    by (rule exI [of _ project], rule exI [of _ from_commit], rule exI [of _ to_commit], rule exI [of _ compare],
        rule exI [of _ "compare_remote GITLAB (gc_host addr) i owner name tip base head (gc_refs addr)"], rule exI [of _ i])
      (use f b p r(1-3) ids from_id in \<open>simp add: compare_remote_def eval_nat_numeral project_def split: if_split_asm\<close>)
qed

definition lab_range :: gitlab_compare where
  "lab_range = \<lparr>gc_host = ''gitlab.com'', gc_project = ''g/p'', gc_refs = \<lparr>cmp_base = ''v1'', cmp_head = ''v2'', cmp_direct = True\<rparr>,
     from_project_id = Some 3\<rparr>"

definition lab_range_decode :: "bytes \<Rightarrow> doc option" where
  "lab_range_decode b =
     Some (if b = ''p'' then DObj [(''id'', DNum 3), (''path_with_namespace'', DStr ''g/p'')]
           else DObj [(''id'', DStr (replicate 40 CHR ''a''))])"

definition lab_range_world :: world where
  "lab_range_world n k e accept =
     Inr \<lparr>hr_status = 200, hr_headers = [], hr_body = (if e = ''projects/g%2Fp'' then ''p'' else ''c'')\<rparr>"

lemma lab_range_loads:
  "case gitlab_compare_load (doc_api lab_range_decode) sample_codec lab_range_world (Some 5) lab_range 0 of
     (Inl _, _) \<Rightarrow> False | (Inr s, _) \<Rightarrow> True"
  by code_simp

theorem gitlab_compare_pinned_witness:
  "\<exists>s k t. gitlab_compare_load (doc_api lab_range_decode) sample_codec lab_range_world (Some 5) lab_range 0 = (Inr s, k) \<and>
     snap_remote s = Some t \<and> comparison_base t = target_tip t"
proof -
  obtain s k where s: "gitlab_compare_load (doc_api lab_range_decode) sample_codec lab_range_world (Some 5) lab_range 0 = (Inr s, k)"
    using lab_range_loads by (auto split: sum.splits prod.splits)
  have "cmp_direct (gc_refs lab_range)" by (simp add: lab_range_def)
  with gitlab_compare_pinned [OF s] s show ?thesis by blast
qed

section \<open>Releases\<close>

lemma gitlab_timeline_steps:
  assumes "gitlab_timeline a w t refs path compare tags truncated rng n = (Inr (rels, warnings), k)"
  shows "\<exists>ss graph. ss = fst (steps rng (target_tip t) (rt_head t) (fst tags) (map fst (snd tags))) \<and>
    map rel_commit rels = map step_to ss \<and> map rel_tag rels = map step_tag ss \<and> map rel_shas rels = members graph ss"
proof -
  obtain ss folded where ss: "steps rng (target_tip t) (rt_head t) (fst tags) (map fst (snd tags)) = (ss, folded)" by fastforce
  define shas where "shas = members (map (\<lambda>(v, i, _). (i, gitlab_commit_parents a v)) (zip (items_of a (v_get a compare ''commits'')) rng)) ss"
  define dates where "dates = map_of (rev (List.map_filter (gitlab_date a) (items_of a (v_get a compare ''commits''))))"
  define row where "row = gitlab_release (repo_host (rt_repository t)) path (map_of (rev (snd tags))) dates"
  from assms obtain stats j where st: "step_stats w (target_tip t) (rt_head t) (case gitlab_compare_stats a compare of (_, n, fs) \<Rightarrow> (False, n, fs))
        (\<lambda>st srv. bindR (gitlab_get a srv (compare_endpoint (project_endpoint path) (step_from st) (step_to st) (cmp_direct refs))) (\<lambda>v.
           liftR (Inr (gitlab_compare_stats a v)))) ss n = (Inr stats, j)"
    and r: "rels = map (\<lambda>(st, sts, here). row st sts here) (zip ss (zip stats shas))"
    unfolding gitlab_timeline_def Let_def ss prod.case shas_def dates_def row_def by (auto simp: bind_simps)
  have "length stats = length ss" "length shas = length ss"
    using step_stats_length [OF st] by (simp_all add: shas_def members_length)
  from timeline_columns [OF this, of "\<lambda>st sts here. rel_commit (row st sts here)" "\<lambda>st sts here. rel_tag (row st sts here)"
      "\<lambda>st sts here. rel_shas (row st sts here)"]
  have "map rel_commit rels = map step_to ss" "map rel_tag rels = map step_tag ss" "map rel_shas rels = shas"
    unfolding r by (simp_all add: row_def gitlab_release_def Let_def comp_def case_prod_unfold)
  with ss show ?thesis unfolding shas_def by fastforce
qed

theorem gitlab_releases_steps:
  assumes "gitlab_releases a w t n = (Inr (rels, warnings), k)"
  shows "\<exists>rng graph tags released ss.
    ss = fst (steps rng (target_tip t) (rt_head t) tags released) \<and>
    map rel_commit rels = map step_to ss \<and> map rel_tag rels = map step_tag ss \<and> map rel_shas rels = members graph ss"
proof -
  from assms obtain refs path compare tags truncated rng j where
    "gitlab_timeline a w t refs path compare tags truncated rng j = (Inr (rels, warnings), k)"
    unfolding gitlab_releases_def Let_def by (simp only: task_simps) blast
  from gitlab_timeline_steps [OF this] show ?thesis by blast
qed

section \<open>Blame covers its lines without gaps\<close>

fun tiled :: "nat \<Rightarrow> (nat \<times> nat \<times> str) list \<Rightarrow> bool" where
  "tiled line [] = True"
| "tiled line ((s, e, sha) # rs) \<longleftrightarrow> s = line \<and> s \<le> e \<and> object_id sha \<and> tiled (Suc e) rs"

definition group_lines :: "('v, 'z) json_api_scheme \<Rightarrow> 'v list \<Rightarrow> nat" where
  "group_lines a gs = sum_list (map (\<lambda>g. length (items_of a (v_get a g ''lines''))) gs)"

lemma blame_groups_tiles:
  assumes "blame_groups a line gs = Some rs" "line + group_lines a gs \<le> 2 ^ 32"
  shows "tiled line rs \<and> length rs = length gs"
  using assms
proof (induction a line gs arbitrary: rs rule: blame_groups.induct)
  case (2 a line g gs)
  from 2(2) obtain n commit rest where n: "to_u32 (map_option length (v_array a (v_get a g ''lines''))) = Some n" "n \<noteq> 0"
    and c: "ok_of (gl_sha a g ''/commit/id'') = Some commit"
    and rest: "blame_groups a ((line + n) mod 2 ^ 32) gs = Some rest"
    and rs: "rs = (line, (line + (n - 1)) mod 2 ^ 32, commit) # rest"
    by (auto simp: bind_eq_Some_conv split: if_split_asm)
  have len: "length (items_of a (v_get a g ''lines'')) = n"
    using n(1) by (auto simp: to_u32_def items_of_def split: option.splits if_splits)
  have bound: "line + n + group_lines a gs \<le> 2 ^ 32" using 2(3) len by (simp add: group_lines_def)
  have e: "(line + (n - 1)) mod 2 ^ 32 = line + (n - 1)" using bound n(2) by simp
  have id: "object_id commit" using c by (auto simp: ok_of_def dest: gl_sha_object_id split: sum.splits)
  show ?case
  proof (cases gs)
    case Nil
    with rest rs e id n(2) show ?thesis by simp
  next
    case (Cons g' gs')
    from rest Cons have "0 < group_lines a gs"
      by (auto simp: bind_eq_Some_conv to_u32_def group_lines_def items_of_def split: option.splits if_split_asm)
    with bound have m: "(line + n) mod 2 ^ 32 = line + n" by simp
    from 2(1) [OF n(1) n(2) c, of rest] rest bound m have "tiled (line + n) rest \<and> length rest = length gs" by simp
    with rs e id n(2) show ?thesis by simp
  qed
qed simp

definition blamed_from :: "('v, 'z) json_api_scheme \<Rightarrow> str \<times> nat \<times> nat \<Rightarrow> (nat \<times> nat \<times> str) list option \<Rightarrow> bool" where
  "blamed_from a span f \<longleftrightarrow> f = None \<or>
     (\<exists>gs rs. f = Some rs \<and> blame_groups a (fst (snd span)) gs = Some rs \<and>
       (2 ^ 32 < fst (snd span) + group_lines a gs \<or> tiled (fst (snd span)) rs \<and> length rs = length gs))"

lemma try_lift_fst: "fst (bindR (tryR m) (\<lambda>v. liftR (Inr (g v))) n) = Inr (g (fst (m n)))"
  by (simp add: bindR_def tryR_def liftR_def split: prod.split)

lemma blame_file_from: "\<exists>f. fst (gitlab_blame_file a t span srv 0) = Inr f \<and> blamed_from a span f"
proof -
  obtain path lo hi where span: "span = (path, lo, hi)" by (cases span) auto
  have "\<exists>v :: store_error + _. fst (gitlab_blame_file a t span srv 0) = Inr (Option.bind (ok_of v) (\<lambda>v. Option.bind (v_array a v) (blame_groups a lo)))"
    unfolding span gitlab_blame_file_def prod.case try_lift_fst by (rule exI) (rule refl)
  then obtain v :: "store_error + _" where "fst (gitlab_blame_file a t span srv 0) = Inr (Option.bind (ok_of v) (\<lambda>v. Option.bind (v_array a v) (blame_groups a lo)))" ..
  moreover have "blamed_from a span (Option.bind (ok_of v) (\<lambda>v. Option.bind (v_array a v) (blame_groups a lo)))"
  proof (cases "Option.bind (ok_of v) (\<lambda>v. Option.bind (v_array a v) (blame_groups a lo))")
    case (Some rs)
    then obtain gs where "blame_groups a lo gs = Some rs" by (auto simp: bind_eq_Some_conv)
    with blame_groups_tiles [OF this] show ?thesis unfolding blamed_from_def Some span by (metis fst_conv leI snd_conv)
  qed (simp add: blamed_from_def)
  ultimately show ?thesis by blast
qed

text \<open>
  Blame from GitLab always answers with one entry for each span, in order: none when its file could not be read,
  else ranges that follow each other without gap or overlap from the first line of the span, one for each group that
  was listed and with full commit names, unless the line numbers leave 32 bits.
\<close>

theorem gitlab_blame_tiles:
  "\<exists>found. gitlab_blame a w t spans n = (Inr found, n + length spans) \<and> list_all2 (blamed_from a) spans found"
proof -
  define f where "f i x = (SOME f. fst (gitlab_blame_file a t x (w i) 0) = Inr f \<and> blamed_from a x f)" for i x
  have f: "fst (gitlab_blame_file a t x (w i) 0) = Inr (f i x) \<and> blamed_from a x (f i x)" for i x
    unfolding f_def by (rule someI_ex) (rule blame_file_from)
  have "map (\<lambda>(i, x). fst (gitlab_blame_file a t x (w i) 0)) (List.enumerate n spans) =
      map Inr (map (\<lambda>(i, x). f i x) (List.enumerate n spans))"
    using f by (simp add: case_prod_unfold comp_def)
  then have "gitlab_blame a w t spans n = (Inr (map (\<lambda>(i, x). f i x) (List.enumerate n spans)), n + length spans)"
    unfolding gitlab_blame_def bounded_tasks_def by (simp add: collect_results_all del: map_map)
  moreover have "list_all2 (blamed_from a) spans (map (\<lambda>(i, x). f i x) (List.enumerate n spans))"
    using f by (simp add: list_all2_conv_all_nth nth_enumerate_eq)
  ultimately show ?thesis by blast
qed

end
