(* ===== verification/Rich.thy ===== *)
theory Rich
  imports Inline PatchParse
begin

text \<open>
  The rich diff of Markdown prose, \<open>crates/core/src/rich.rs\<close>: the rows of each side of a hunk are grouped into blocks, blocks
  are matched by a longest common subsequence over the table of theory \<open>Inline\<close>, and what lies between
  matches is paired up. A range is a pair of line indexes. Fence and heading marks are ASCII, so that counting their characters is
  counting bytes. Cells of the table are 16 bits wide in the source; \<open>cells_fit\<close> shows that they stay below 501.
\<close>

section \<open>Blocks\<close>

datatype rich_kind = RichSame | RichAdded | RichRemoved | RichChanged

record rich_block =
  rb_kind :: rich_kind
  rb_old :: "str option"
  rb_new :: "str option"
  rb_old_line :: "nat option"
  rb_new_line :: "nat option"

datatype rich_item = RichBlock rich_block | RichGap nat nat nat

definition run_of :: "char \<Rightarrow> str \<Rightarrow> nat" where
  "run_of c s = length (takeWhile (\<lambda>x. x = c) s)"

definition opener :: "str \<Rightarrow> (char \<times> nat) option" where
  "opener trimmed =
     (case trimmed of
        [] \<Rightarrow> None
      | c # _ \<Rightarrow> if c \<noteq> CHR ''`'' \<and> c \<noteq> CHR ''~'' then None
                else if 3 \<le> run_of c trimmed then Some (c, run_of c trimmed) else None)"

definition closer :: "str \<Rightarrow> char \<Rightarrow> nat \<Rightarrow> bool" where
  "closer trimmed c open_len \<longleftrightarrow> starts_with [c] trimmed \<and> max open_len 3 \<le> run_of c trimmed"

definition is_heading :: "str \<Rightarrow> bool" where
  "is_heading line =
     (let spaces = run_of CHR '' '' line; rest = drop spaces line; hashes = run_of CHR ''#'' rest in
      spaces \<le> 3 \<and> 1 \<le> hashes \<and> hashes \<le> 6 \<and> starts_with '' '' (drop hashes rest))"

definition prose_line :: "str \<Rightarrow> bool" where
  "prose_line l \<longleftrightarrow> trim l \<noteq> [] \<and> \<not> is_heading l \<and> opener (trim l) = None"

definition fence_end :: "str list \<Rightarrow> char \<Rightarrow> nat \<Rightarrow> nat \<Rightarrow> nat" where
  "fence_end lines c len j = j + length (takeWhile (\<lambda>l. \<not> closer (trim l) c len) (drop j lines))"

definition prose_end :: "str list \<Rightarrow> nat \<Rightarrow> nat" where
  "prose_end lines i = i + length (takeWhile prose_line (drop i lines))"

lemma prose_end_after: "i < length lines \<Longrightarrow> prose_line (lines ! i) \<Longrightarrow> i < prose_end lines i"
  by (simp add: prose_end_def Cons_nth_drop_Suc [symmetric])

lemma fence_end_from: "j \<le> fence_end lines c len j"
  by (simp add: fence_end_def)

function blocks_from :: "str list \<Rightarrow> nat \<Rightarrow> ranges" where
  "blocks_from lines i =
     (if length lines \<le> i then []
      else if trim (lines ! i) = [] then blocks_from lines (i + 1)
      else case opener (trim (lines ! i)) of
        Some (c, len) \<Rightarrow>
          (let j = fence_end lines c len (i + 1) in
           if j < length lines then (i, j + 1) # blocks_from lines (j + 1)
           else (i, length lines) # blocks_from lines (length lines))
      | None \<Rightarrow>
          if is_heading (lines ! i) then (i, i + 1) # blocks_from lines (i + 1)
          else (i, prose_end lines i) # blocks_from lines (prose_end lines i))"
  by pat_completeness auto
termination
proof (relation "measure (\<lambda>(lines, i). length lines - i)")
  fix lines i
  assume "\<not> length lines \<le> i" "trim (lines ! i) \<noteq> []" "opener (trim (lines ! i)) = None" "\<not> is_heading (lines ! i)"
  then show "((lines, prose_end lines i), lines, i) \<in> measure (\<lambda>(lines, i). length lines - i)"
    using prose_end_after [of i lines] by (simp add: prose_line_def)
next
  fix lines i p c len j
  assume "\<not> length lines \<le> i" "j = fence_end lines c len (i + 1)"
  then show "((lines, j + 1), lines, i) \<in> measure (\<lambda>(lines, i). length lines - i)"
    using fence_end_from [of "i + 1" lines c len] by simp
qed auto

declare blocks_from.simps [simp del]

definition blocks :: "str list \<Rightarrow> ranges" where
  "blocks lines = blocks_from lines 0"

section \<open>Sides\<close>

record rich_side =
  rs_lines :: "str list"
  rs_nums :: "nat list"
  rs_blocks :: ranges

definition side_block :: "rich_side \<Rightarrow> nat \<Rightarrow> str list" where
  "side_block s i = (case rs_blocks s ! i of (lo, hi) \<Rightarrow> slice lo hi (rs_lines s))"

definition block_text :: "rich_side \<Rightarrow> nat \<Rightarrow> str" where
  "block_text s i = join_with [LF] (side_block s i)"

definition block_norm :: "rich_side \<Rightarrow> nat \<Rightarrow> str" where
  "block_norm s i =
     (let ls = side_block s i; suffix = (if ls = [] then 0 else length (last ls) - length (trim_end (last ls)));
          t = join_with [LF] ls in
      take (length t - suffix) t)"

definition build_side :: "hunk \<Rightarrow> (row_kind \<Rightarrow> bool) \<Rightarrow> (patch_row \<Rightarrow> nat option) \<Rightarrow> rich_side" where
  "build_side h keep num =
     (let rs = filter (\<lambda>r. keep (row_kind r)) (rows h); ls = map row_text rs in
      \<lparr>rs_lines = ls, rs_nums = map (\<lambda>r. case num r of Some n \<Rightarrow> n | None \<Rightarrow> 0) rs, rs_blocks = blocks ls\<rparr>)"

section \<open>Matching\<close>

function walk_pairs :: "'a list \<Rightarrow> 'a list \<Rightarrow> nat \<Rightarrow> nat list \<Rightarrow> nat \<Rightarrow> nat \<Rightarrow> (nat \<times> nat) list" where
  "walk_pairs a b cols dp i j =
     (if i < length a \<and> j < length b then
        if a ! i = b ! j then (i, j) # walk_pairs a b cols dp (i + 1) (j + 1)
        else if i + 1 < length a \<and> dp ! ((i + 1) * cols + j) \<ge> dp ! (i * cols + j + 1) then walk_pairs a b cols dp (i + 1) j
        else walk_pairs a b cols dp i (j + 1)
      else [])"
  by pat_completeness auto
termination
  by (relation "measure (\<lambda>(a, b, cols, dp, i, j). (length a - i) + (length b - j))") auto

declare walk_pairs.simps [simp del]

definition MAX_PAIRINGS :: nat where
  "MAX_PAIRINGS = 250000"

definition norms :: "rich_side \<Rightarrow> str list" where
  "norms s = map (block_norm s) [0..<length (rs_blocks s)]"

definition block_lcs :: "rich_side \<Rightarrow> rich_side \<Rightarrow> (nat \<times> nat) list option" where
  "block_lcs a b =
     (if rs_blocks a = [] \<or> rs_blocks b = [] then Some []
      else if MAX_PAIRINGS < length (rs_blocks a) * length (rs_blocks b) then None
      else
        (let na = norms a; nb = norms b; cols = length nb + 1;
             dp = fill_rows na nb cols (length na) (replicate ((length na + 1) * cols) 0) in
         Some (walk_pairs na nb cols dp 0 0)))"

section \<open>Items\<close>

definition rich_block_of :: "rich_kind \<Rightarrow> (nat \<times> rich_side) option \<Rightarrow> (nat \<times> rich_side) option \<Rightarrow> rich_item" where
  "rich_block_of kind old new =
     (let at = (\<lambda>(i, s). rs_nums s ! fst (rs_blocks s ! i)) in
      RichBlock \<lparr>rb_kind = kind, rb_old = map_option (\<lambda>(i, s). block_text s i) old, rb_new = map_option (\<lambda>(i, s). block_text s i) new,
        rb_old_line = map_option at old, rb_new_line = map_option at new\<rparr>)"

text \<open>Everything from the positions up to the next match: pairs first, then what one side has left.\<close>

definition gap_items :: "rich_side \<Rightarrow> rich_side \<Rightarrow> nat \<Rightarrow> nat \<Rightarrow> nat \<Rightarrow> nat \<Rightarrow> rich_item list" where
  "gap_items old new i j old_end new_end =
     (let k = old_end - i; m = new_end - j; paired = min k m in
      map (\<lambda>t. rich_block_of RichChanged (Some (i + t, old)) (Some (j + t, new))) [0..<paired] @
      map (\<lambda>t. rich_block_of RichRemoved (Some (i + t, old)) None) [paired..<k] @
      map (\<lambda>t. rich_block_of RichAdded None (Some (j + t, new))) [paired..<m])"

function emit_loop :: "rich_side \<Rightarrow> rich_side \<Rightarrow> nat \<Rightarrow> nat \<Rightarrow> (nat \<times> nat) list \<Rightarrow> rich_item list" where
  "emit_loop old new i j ms =
     (if i < length (rs_blocks old) \<or> j < length (rs_blocks new) then
        (case ms of
           [] \<Rightarrow> gap_items old new i j (length (rs_blocks old)) (length (rs_blocks new)) @
             emit_loop old new (length (rs_blocks old)) (length (rs_blocks new)) []
         | (oi, nj) # rest \<Rightarrow>
             if i = oi \<and> j = nj
             then rich_block_of RichSame (Some (oi, old)) (Some (nj, new)) # emit_loop old new (oi + 1) (nj + 1) rest
             else gap_items old new i j oi nj @ emit_loop old new oi nj ms)
      else [])"
  by pat_completeness auto
termination
  by (relation "measure (\<lambda>(old, new, i, j, ms). 2 * length ms +
      (case ms of [] \<Rightarrow> if i < length (rs_blocks old) \<or> j < length (rs_blocks new) then 1 else 0 | m # _ \<Rightarrow> if m = (i, j) then 0 else 1))")
    (auto split: list.split)

declare emit_loop.simps [simp del]

definition old_side :: "hunk \<Rightarrow> rich_side" where
  "old_side h = build_side h (\<lambda>k. k \<noteq> RAdded) old_line"

definition new_side :: "hunk \<Rightarrow> rich_side" where
  "new_side h = build_side h (\<lambda>k. k \<noteq> RRemoved) new_line"

definition emit_hunk :: "hunk \<Rightarrow> rich_item list" where
  "emit_hunk h =
     (let old = old_side h; new = new_side h in
      case block_lcs old new of
        None \<Rightarrow>
          map (\<lambda>i. rich_block_of RichRemoved (Some (i, old)) None) [0..<length (rs_blocks old)] @
          map (\<lambda>j. rich_block_of RichAdded None (Some (j, new))) [0..<length (rs_blocks new)]
      | Some ms \<Rightarrow> emit_loop old new 0 0 ms)"

definition last_number :: "(patch_row \<Rightarrow> nat option) \<Rightarrow> nat \<Rightarrow> hunk \<Rightarrow> nat" where
  "last_number num d h = (case List.map_filter num (rows h) of [] \<Rightarrow> d | n # ns \<Rightarrow> fold max ns n)"

fun rich_loop :: "nat \<Rightarrow> nat \<Rightarrow> hunk list \<Rightarrow> rich_item list" where
  "rich_loop prev_old prev_new [] = []"
| "rich_loop prev_old prev_new (h # hs) =
     (if prev_new + 1 < new_start h then [RichGap (prev_old + 1) (prev_new + 1) (new_start h - prev_new - 1)] else []) @
     emit_hunk h @ rich_loop (last_number old_line prev_old h) (last_number new_line prev_new h) hs"

definition rich_diff :: "file_change \<Rightarrow> rich_item list" where
  "rich_diff f = rich_loop 0 0 (hunks f)"

section \<open>Word marks\<close>

definition merge_into :: "(nat \<Rightarrow> bool) \<Rightarrow> str \<Rightarrow> ranges \<Rightarrow> range \<Rightarrow> ranges" where
  "merge_into alnum t merged r =
     (if merged \<noteq> [] \<and> snd (last merged) \<le> fst r \<and> fst r - snd (last merged) \<le> 2 \<and>
        \<not> list_ex (\<lambda>c. alnum (char_cp c)) (chars (slice (snd (last merged)) (fst r) t))
      then butlast merged @ [(fst (last merged), snd r)] else merged @ [r])"

fun wrap_loop :: "str \<Rightarrow> str \<times> str \<Rightarrow> nat \<Rightarrow> ranges \<Rightarrow> str" where
  "wrap_loop t marker at [] = drop at t"
| "wrap_loop t marker at (r # rs) =
     (let p = piece t r; lead = length p - length (trim_start p); trail = length p - length (trim_end p) in
      if length p \<le> lead + trail then wrap_loop t marker at rs
      else slice at (fst r + lead) t @ fst marker @ slice (fst r + lead) (snd r - trail) t @ snd marker @
        wrap_loop t marker (snd r - trail) rs)"

definition wrap :: "(nat \<Rightarrow> bool) \<Rightarrow> str \<Rightarrow> ranges \<Rightarrow> str \<times> str \<Rightarrow> str" where
  "wrap alnum t rs marker = wrap_loop t marker 0 (foldl (merge_into alnum t) [] rs)"

definition mark_words :: "(nat \<Rightarrow> bool) \<Rightarrow> str \<Rightarrow> str \<Rightarrow> str \<times> str \<Rightarrow> str \<times> str \<Rightarrow> str \<times> str" where
  "mark_words alnum old new removed added =
     (if starts_with ''```'' (trim_start old) \<or> starts_with ''~~~'' (trim_start old) then (old, new)
      else
        (let (a, b) = word_diff_with alnum old new (64 * 1024) 3000 in
         (wrap alnum old a removed, wrap alnum new b added)))"

section \<open>Blocks cover the text\<close>

text \<open>What makes a range a block: a heading, lines of prose, or a fence up to its first closing line or the end.\<close>

definition block_shape :: "str list \<Rightarrow> range \<Rightarrow> bool" where
  "block_shape lines r \<longleftrightarrow>
     (case r of (a, b) \<Rightarrow>
        (b = Suc a \<and> is_heading (lines ! a) \<and> opener (trim (lines ! a)) = None) \<or>
        list_all prose_line (slice a b lines) \<or>
        (\<exists>c len. opener (trim (lines ! a)) = Some (c, len) \<and>
           (\<forall>k. a < k \<longrightarrow> Suc k < b \<longrightarrow> \<not> closer (trim (lines ! k)) c len) \<and>
           (b = length lines \<or> a < b - 1 \<and> closer (trim (lines ! (b - 1))) c len)))"

definition block_cover :: "str list \<Rightarrow> nat \<Rightarrow> ranges \<Rightarrow> bool" where
  "block_cover lines i rs \<longleftrightarrow>
     sorted_wrt (\<lambda>r r'. snd r \<le> fst r') rs \<and>
     list_all (\<lambda>r. i \<le> fst r \<and> fst r < snd r \<and> snd r \<le> length lines \<and> block_shape lines r) rs \<and>
     (\<forall>k. i \<le> k \<longrightarrow> k < length lines \<longrightarrow> trim (lines ! k) \<noteq> [] \<longrightarrow> list_ex (\<lambda>r. fst r \<le> k \<and> k < snd r) rs)"

lemma block_cover_end: "block_cover lines (length lines) []"
  by (simp add: block_cover_def)

lemma block_cover_skip:
  assumes "block_cover lines (Suc i) rs" "trim (lines ! i) = []"
  shows "block_cover lines i rs"
proof -
  have "list_ex (\<lambda>r. fst r \<le> k \<and> k < snd r) rs" if "i \<le> k" "k < length lines" "trim (lines ! k) \<noteq> []" for k
    using that assms by (cases "k = i") (auto simp: block_cover_def)
  with assms(1) show ?thesis unfolding block_cover_def list_all_iff by (simp add: Suc_leD)
qed

lemma block_cover_step:
  assumes "block_cover lines e rs" "i < e" "e \<le> length lines" "block_shape lines (i, e)"
  shows "block_cover lines i ((i, e) # rs)"
proof -
  have later: "e \<le> fst r \<and> fst r < snd r \<and> snd r \<le> length lines \<and> block_shape lines r" if "r \<in> set rs" for r
    using assms(1) that by (simp add: block_cover_def list_all_iff)
  have "list_ex (\<lambda>r. fst r \<le> k \<and> k < snd r) ((i, e) # rs)" if "i \<le> k" "k < length lines" "trim (lines ! k) \<noteq> []" for k
    using that assms(1) by (cases "k < e") (auto simp: block_cover_def)
  moreover have "i \<le> fst r" if "r \<in> set rs" for r using later [OF that] assms(2) by simp
  ultimately show ?thesis
    using assms later unfolding block_cover_def list_all_iff by simp
qed

lemma fence_end_bound: "j \<le> length lines \<Longrightarrow> fence_end lines c len j \<le> length lines"
  using length_takeWhile_le [of _ "drop j lines"] by (simp add: fence_end_def le_diff_conv2 add.commute)

lemma prose_end_bound: "i \<le> length lines \<Longrightarrow> prose_end lines i \<le> length lines"
  using length_takeWhile_le [of prose_line "drop i lines"] by (simp add: prose_end_def)

lemma fence_end_open: "j \<le> k \<Longrightarrow> k < fence_end lines c len j \<Longrightarrow> \<not> closer (trim (lines ! k)) c len"
proof -
  let ?P = "\<lambda>l. \<not> closer (trim l) c len"
  assume k: "j \<le> k" "k < fence_end lines c len j"
  then have n: "k - j < length (takeWhile ?P (drop j lines))" by (simp add: fence_end_def)
  then have "?P (takeWhile ?P (drop j lines) ! (k - j))" using nth_mem set_takeWhileD by metis
  with n k(1) length_takeWhile_le [of ?P "drop j lines"] show ?thesis by (simp add: takeWhile_nth)
qed

lemma fence_end_closes: "fence_end lines c len j < length lines \<Longrightarrow> closer (trim (lines ! fence_end lines c len j)) c len"
proof -
  let ?P = "\<lambda>l. \<not> closer (trim l) c len"
  assume "fence_end lines c len j < length lines"
  then have "length (takeWhile ?P (drop j lines)) < length (drop j lines)" by (simp add: fence_end_def)
  from nth_length_takeWhile [OF this] this show ?thesis by (simp add: fence_end_def)
qed

lemma prose_end_prose: "list_all prose_line (slice i (prose_end lines i) lines)"
proof -
  have "slice i (prose_end lines i) lines = takeWhile prose_line (drop i lines)"
    by (simp add: slice_def prose_end_def takeWhile_eq_take [symmetric])
  then show ?thesis by (auto simp: list_all_iff dest: set_takeWhileD)
qed

lemma blocks_from_cover: "i \<le> length lines \<Longrightarrow> block_cover lines i (blocks_from lines i)"
proof (induction lines i rule: blocks_from.induct)
  case (1 lines i)
  show ?case
  proof (cases "length lines \<le> i")
    case True
    with 1(6) show ?thesis by (simp add: blocks_from.simps block_cover_end)
  next
    case in_range: False
    show ?thesis
    proof (cases "trim (lines ! i) = []")
      case True
      with 1(1) in_range show ?thesis by (subst blocks_from.simps) (simp add: block_cover_skip)
    next
      case nonblank: False
      show ?thesis
      proof (cases "opener (trim (lines ! i))")
        case None
        show ?thesis
        proof (cases "is_heading (lines ! i)")
          case True
          have "block_cover lines (i + 1) (blocks_from lines (i + 1))" by (rule 1(2) [OF in_range nonblank None True]) (use in_range in simp)
          with in_range nonblank None True show ?thesis
            by (subst blocks_from.simps) (simp add: block_cover_step block_shape_def)
        next
          case False
          then have p: "i < prose_end lines i" using prose_end_after [of i lines] in_range nonblank None by (simp add: prose_line_def)
          have e: "prose_end lines i \<le> length lines" using prose_end_bound [of i lines] in_range by simp
          have "block_cover lines (prose_end lines i) (blocks_from lines (prose_end lines i))"
            by (rule 1(3) [OF in_range nonblank None False e])
          then have "block_cover lines i ((i, prose_end lines i) # blocks_from lines (prose_end lines i))"
            by (rule block_cover_step) (use p e prose_end_prose [of i lines] in \<open>simp_all add: block_shape_def\<close>)
          with in_range nonblank None False show ?thesis by (subst blocks_from.simps) simp
        qed
      next
        case (Some f)
        obtain c len where f: "opener (trim (lines ! i)) = Some (c, len)" using Some by (cases f) simp
        define j where "j = fence_end lines c len (Suc i)"
        have j_at: "j = fence_end lines c len (i + 1)" by (simp add: j_def)
        have j: "i + 1 \<le> j" "j \<le> length lines"
          using fence_end_from [of "i + 1" lines c len] fence_end_bound [of "i + 1" lines c len] in_range by (simp_all add: j_def)
        have inner: "\<not> closer (trim (lines ! k)) c len" if "i < k" "k < j" for k
          using fence_end_open [of "i + 1" k lines c len] that by (simp add: j_def)
        show ?thesis
        proof (cases "j < length lines")
          case True
          have "block_cover lines (j + 1) (blocks_from lines (j + 1))"
            by (rule 1(4) [OF in_range nonblank f refl j_at True]) (use True in simp)
          moreover have "closer (trim (lines ! j)) c len" using fence_end_closes [of lines c len "i + 1"] True by (simp add: j_def)
          ultimately have "block_cover lines i ((i, j + 1) # blocks_from lines (j + 1))"
            by (intro block_cover_step) (use j True f inner in \<open>auto simp: block_shape_def\<close>)
          with in_range nonblank f True show ?thesis
            by (subst blocks_from.simps) (simp add: j_def [symmetric] Let_def)
        next
          case False
          have "blocks_from lines (length lines) = []" by (simp add: blocks_from.simps)
          moreover have "block_cover lines i [(i, length lines)]"
            by (rule block_cover_step [OF block_cover_end]) (use in_range f inner False j in \<open>auto simp: block_shape_def\<close>)
          ultimately show ?thesis using in_range nonblank f False
            by (subst blocks_from.simps) (simp add: j_def [symmetric] Let_def)
        qed
      qed
    qed
  qed
qed

text \<open>
  The blocks of a text are in order, without overlap and not empty; each is a heading, a run of prose lines or a fence with
  everything up to its first closing line; and every line that is not blank lies in a block.
\<close>

theorem blocks_cover: "block_cover lines 0 (blocks lines)"
  using blocks_from_cover [of 0 lines] by (simp add: blocks_def)

section \<open>Matches\<close>

lemma walk_pairs_sound:
  assumes "rows_done a b 0 dp"
  shows "length (walk_pairs a b (length b + 1) dp i j) = lcs_len (drop i a) (drop j b) \<and>
    sorted_wrt pair_before (walk_pairs a b (length b + 1) dp i j) \<and>
    (\<forall>p \<in> set (walk_pairs a b (length b + 1) dp i j). i \<le> fst p \<and> fst p < length a \<and> j \<le> snd p \<and> snd p < length b \<and> a ! fst p = b ! snd p)"
  using assms
proof (induction a b "length b + 1" dp i j rule: walk_pairs.induct)
  case (1 a b dp i j)
  let ?t = "walk_pairs a b (length b + 1) dp"
  show ?case
  proof (cases "i < length a \<and> j < length b")
    case False
    then show ?thesis by (subst (1 2 3) walk_pairs.simps) auto
  next
    case True
    note ih = 1(1) [OF True] 1(2) [OF True] 1(3) [OF True]
    have cells: "cell_ok a b dp (i + 1) j" "cell_ok a b dp i (j + 1)" using 1(4) True by (auto simp: rows_done_def)
    show ?thesis
    proof (cases "a ! i = b ! j")
      case eq: True
      have t: "?t i j = (i, j) # ?t (i + 1) (j + 1)" using True eq by (subst walk_pairs.simps) simp
      show ?thesis using ih(1) [OF eq 1(4)] True eq lcs_len_drop [of i a j b]
        unfolding t by (auto simp: pair_before_def)
    next
      case neq: False
      have max: "lcs_len (drop i a) (drop j b) = max (dp ! ((i + 1) * (length b + 1) + j)) (dp ! (i * (length b + 1) + j + 1))"
        using cells lcs_len_drop [of i a j b] True neq by (simp add: cell_ok_def add.assoc)
      show ?thesis
      proof (cases "i + 1 < length a \<and> dp ! ((i + 1) * (length b + 1) + j) \<ge> dp ! (i * (length b + 1) + j + 1)")
        case up: True
        have t: "?t i j = ?t (i + 1) j" using True neq up by (subst walk_pairs.simps) simp
        show ?thesis using ih(2) [OF neq up 1(4)] max up cells(1) unfolding t cell_ok_def by auto
      next
        case down: False
        have t: "?t i j = ?t i (j + 1)"
          by (subst walk_pairs.simps) (simp only: if_P [OF True] if_not_P [OF neq] if_not_P [OF down])
        have "dp ! ((i + 1) * (length b + 1) + j) = 0" if "\<not> i + 1 < length a"
          using cells(1) that by (simp add: cell_ok_def)
        with max down have "lcs_len (drop i a) (drop j b) = dp ! (i * (length b + 1) + j + 1)" by fastforce
        then show ?thesis using ih(3) [OF neq down 1(4)] cells(2) unfolding t cell_ok_def by (auto simp: add.assoc)
      qed
    qed
  qed
qed

lemma lcs_len_le: "lcs_len xs ys \<le> length xs \<and> lcs_len xs ys \<le> length ys"
  by (induction xs ys rule: lcs_len.induct) auto

text \<open>The cells of a table that is built fit into 16 bits.\<close>

lemma cells_fit:
  assumes "length na * length nb \<le> MAX_PAIRINGS" "i \<le> length na" "j \<le> length nb"
  shows "fill_rows na nb (length nb + 1) (length na) (replicate ((length na + 1) * (length nb + 1)) 0) ! (i * (length nb + 1) + j) \<le> 500"
proof -
  have "lcs_len (drop i na) (drop j nb) \<le> length na \<and> lcs_len (drop i na) (drop j nb) \<le> length nb"
    using lcs_len_le [of "drop i na" "drop j nb"] by auto
  then have "lcs_len (drop i na) (drop j nb) * lcs_len (drop i na) (drop j nb) \<le> length na * length nb"
    by (intro mult_le_mono) auto
  also have "\<dots> \<le> 500 * 500" using assms(1) by (simp add: MAX_PAIRINGS_def)
  finally have "lcs_len (drop i na) (drop j nb) \<le> 500" by (simp only: power2_nat_le_eq_le flip: power2_eq_square)
  then show ?thesis using table_done [of na nb] assms(2,3) by (simp add: rows_done_def cell_ok_def)
qed

lemma length_norms [simp]: "length (norms s) = length (rs_blocks s)"
  by (simp add: norms_def)

lemma block_lcs_sound:
  assumes "block_lcs a b = Some ms"
  shows "length ms = lcs_len (norms a) (norms b) \<and> sorted_wrt pair_before ms \<and>
    (\<forall>p \<in> set ms. fst p < length (rs_blocks a) \<and> snd p < length (rs_blocks b) \<and> block_norm a (fst p) = block_norm b (snd p))"
proof (cases "rs_blocks a = [] \<or> rs_blocks b = []")
  case True
  then have "norms a = [] \<or> norms b = []" by (auto simp: norms_def)
  with assms True show ?thesis by (auto simp: block_lcs_def)
next
  case False
  let ?dp = "fill_rows (norms a) (norms b) (length (norms b) + 1) (length (norms a)) (replicate ((length (norms a) + 1) * (length (norms b) + 1)) 0)"
  have ms: "ms = walk_pairs (norms a) (norms b) (length (norms b) + 1) ?dp 0 0"
    using assms False unfolding block_lcs_def Let_def
    by (simp only: if_False if_not_P option.inject option.distinct split: if_split_asm)
  show ?thesis using walk_pairs_sound [OF table_done, of "norms a" "norms b" 0 0] unfolding ms by (auto simp: norms_def)
qed

section \<open>Every block is shown\<close>

definition shown_old :: "rich_item \<Rightarrow> (str \<times> nat) option" where
  "shown_old it = (case it of RichBlock b \<Rightarrow> Option.bind (rb_old b) (\<lambda>t. map_option (Pair t) (rb_old_line b)) | RichGap _ _ _ \<Rightarrow> None)"

definition shown_new :: "rich_item \<Rightarrow> (str \<times> nat) option" where
  "shown_new it = (case it of RichBlock b \<Rightarrow> Option.bind (rb_new b) (\<lambda>t. map_option (Pair t) (rb_new_line b)) | RichGap _ _ _ \<Rightarrow> None)"

definition is_same :: "rich_item \<Rightarrow> bool" where
  "is_same it = (case it of RichBlock b \<Rightarrow> rb_kind b = RichSame | RichGap _ _ _ \<Rightarrow> False)"

text \<open>The text of a block and the number of its first line.\<close>

definition block_at :: "rich_side \<Rightarrow> nat \<Rightarrow> str \<times> nat" where
  "block_at s i = (block_text s i, rs_nums s ! fst (rs_blocks s ! i))"

definition item_ok :: "rich_side \<Rightarrow> rich_side \<Rightarrow> rich_item \<Rightarrow> bool" where
  "item_ok old new it \<longleftrightarrow>
     (\<exists>i j. it = rich_block_of RichSame (Some (i, old)) (Some (j, new)) \<and> block_norm old i = block_norm new j) \<or>
     (\<exists>i j. it = rich_block_of RichChanged (Some (i, old)) (Some (j, new))) \<or>
     (\<exists>i. it = rich_block_of RichRemoved (Some (i, old)) None) \<or>
     (\<exists>j. it = rich_block_of RichAdded None (Some (j, new)))"

lemma shown_block [simp]:
  "shown_old (rich_block_of k old new) = map_option (\<lambda>(i, s). block_at s i) old"
  "shown_new (rich_block_of k old new) = map_option (\<lambda>(i, s). block_at s i) new"
  "is_same (rich_block_of k old new) \<longleftrightarrow> k = RichSame"
  by (auto simp: shown_old_def shown_new_def is_same_def rich_block_of_def block_at_def Let_def map_option_case split: prod.split option.split)

lemma map_filter_map: "List.map_filter f (map g xs) = List.map_filter (\<lambda>x. f (g x)) xs"
  by (simp add: List.map_filter_def filter_map comp_def)

lemma map_filter_all: "(\<And>x. f x = Some (g x)) \<Longrightarrow> List.map_filter f xs = map g xs"
  by (simp add: List.map_filter_def)

lemma map_filter_app: "List.map_filter f (xs @ ys) = List.map_filter f xs @ List.map_filter f ys"
  by (simp add: List.map_filter_def)

lemma map_filter_no: "(\<And>x. f x = None) \<Longrightarrow> List.map_filter f xs = []"
  by (simp add: List.map_filter_def)

lemma upt_shift: "map (\<lambda>t. f (i + t)) [a..<b] = map f [i + a..<i + b]"
  by (rule nth_equalityI) (simp_all add: ac_simps)

lemma upt_split: "a \<le> b \<Longrightarrow> b \<le> c \<Longrightarrow> [a..<b] @ [b..<c] = [a..<c]"
  using upt_add_eq_append [of a b "c - b"] by simp

lemma upt_min: "a \<le> b \<Longrightarrow> map f [a..<a + min (b - a) m] @ map f [a + min (b - a) m..<b] = map f [a..<b]"
  by (subst map_append [symmetric], subst upt_split) auto

lemmas shown_simps = map_filter_map map_filter_all map_filter_app map_filter_no

lemma gap_items_shown:
  assumes "i \<le> oe" "j \<le> ne"
  shows "List.map_filter shown_old (gap_items old new i j oe ne) = map (block_at old) [i..<oe]"
    and "List.map_filter shown_new (gap_items old new i j oe ne) = map (block_at new) [j..<ne]"
    and "filter is_same (gap_items old new i j oe ne) = []"
    and "list_all (item_ok old new) (gap_items old new i j oe ne)"
proof -
  show "List.map_filter shown_old (gap_items old new i j oe ne) = map (block_at old) [i..<oe]"
    using upt_min [OF assms(1), of "block_at old" "ne - j"] assms
    by (simp add: gap_items_def Let_def shown_simps upt_shift)
  show "List.map_filter shown_new (gap_items old new i j oe ne) = map (block_at new) [j..<ne]"
    using upt_min [OF assms(2), of "block_at new" "oe - i"] assms
    by (simp add: gap_items_def Let_def shown_simps upt_shift min.commute)
  show "filter is_same (gap_items old new i j oe ne) = []"
    by (simp add: gap_items_def Let_def filter_empty_conv)
  show "list_all (item_ok old new) (gap_items old new i j oe ne)"
    by (auto simp: gap_items_def Let_def list_all_iff item_ok_def)
qed

lemma emit_loop_done: "emit_loop old new (length (rs_blocks old)) (length (rs_blocks new)) ms = []"
  by (subst emit_loop.simps) simp

lemma emit_loop_Nil:
  "emit_loop old new i j [] = (if i < length (rs_blocks old) \<or> j < length (rs_blocks new)
     then gap_items old new i j (length (rs_blocks old)) (length (rs_blocks new)) else [])"
  by (subst emit_loop.simps) (simp add: emit_loop_done)

lemma emit_loop_Cons:
  assumes "oi < length (rs_blocks old)"
  shows "emit_loop old new i j ((oi, nj) # ms) =
    (if i < length (rs_blocks old) \<or> j < length (rs_blocks new)
     then (if i = oi \<and> j = nj then [] else gap_items old new i j oi nj) @
       rich_block_of RichSame (Some (oi, old)) (Some (nj, new)) # emit_loop old new (oi + 1) (nj + 1) ms else [])"
proof -
  have "emit_loop old new oi nj ((oi, nj) # ms) =
    rich_block_of RichSame (Some (oi, old)) (Some (nj, new)) # emit_loop old new (oi + 1) (nj + 1) ms"
    using assms by (subst emit_loop.simps) simp
  then show ?thesis by (subst emit_loop.simps) simp
qed

lemma emit_loop_shown:
  assumes "sorted_wrt pair_before ms"
    and "\<forall>p \<in> set ms. i \<le> fst p \<and> j \<le> snd p \<and> fst p < length (rs_blocks old) \<and> snd p < length (rs_blocks new) \<and>
      block_norm old (fst p) = block_norm new (snd p)"
    and "i \<le> length (rs_blocks old)" "j \<le> length (rs_blocks new)"
  shows "List.map_filter shown_old (emit_loop old new i j ms) = map (block_at old) [i..<length (rs_blocks old)] \<and>
    List.map_filter shown_new (emit_loop old new i j ms) = map (block_at new) [j..<length (rs_blocks new)] \<and>
    length (filter is_same (emit_loop old new i j ms)) = length ms \<and> list_all (item_ok old new) (emit_loop old new i j ms)"
  using assms
proof (induction ms arbitrary: i j)
  case Nil
  then show ?case by (simp add: emit_loop_Nil gap_items_shown map_filter_simps)
next
  case (Cons p ms)
  obtain oi nj where p: "p = (oi, nj)" by (cases p)
  have r: "i \<le> oi" "j \<le> nj" "oi < length (rs_blocks old)" "nj < length (rs_blocks new)" "block_norm old oi = block_norm new nj"
    using Cons.prems(2) by (auto simp: p)
  have rest: "List.map_filter shown_old (emit_loop old new (oi + 1) (nj + 1) ms) = map (block_at old) [oi + 1..<length (rs_blocks old)] \<and>
    List.map_filter shown_new (emit_loop old new (oi + 1) (nj + 1) ms) = map (block_at new) [nj + 1..<length (rs_blocks new)] \<and>
    length (filter is_same (emit_loop old new (oi + 1) (nj + 1) ms)) = length ms \<and>
    list_all (item_ok old new) (emit_loop old new (oi + 1) (nj + 1) ms)"
    by (rule Cons.IH) (use Cons.prems r in \<open>auto simp: p pair_before_def\<close>)
  have gap: "(if i = oi \<and> j = nj then [] else gap_items old new i j oi nj) = gap_items old new i j oi nj"
    by (simp add: gap_items_def Let_def)
  have e: "emit_loop old new i j (p # ms) = gap_items old new i j oi nj @
      rich_block_of RichSame (Some (oi, old)) (Some (nj, new)) # emit_loop old new (oi + 1) (nj + 1) ms"
    unfolding p emit_loop_Cons [OF r(3)] gap using r by simp
  have same: "item_ok old new (rich_block_of RichSame (Some (oi, old)) (Some (nj, new)))"
    unfolding item_ok_def using r(5) by blast
  have u: "[i..<length (rs_blocks old)] = [i..<oi] @ oi # [oi + 1..<length (rs_blocks old)]"
    "[j..<length (rs_blocks new)] = [j..<nj] @ nj # [nj + 1..<length (rs_blocks new)]"
    using r upt_split [of i oi "length (rs_blocks old)"] upt_split [of j nj "length (rs_blocks new)"]
    by (simp_all add: upt_conv_Cons)
  note g = gap_items_shown [OF r(1,2), of old new]
  show ?case using rest same g unfolding e u by (simp add: map_filter_app map_filter_simps)
qed

text \<open>
  Claim C39. The items of a hunk show every block of the old side and every block of the new side exactly once and in order, with the
  number of its first line. A block that is shown as unchanged has the same text on both sides up to white space at its end, and
  as many blocks as possible are: their number is the length of a longest common subsequence, unless there are too many
  pairs, and then none is.
\<close>

theorem emit_hunk_complete:
  "List.map_filter shown_old (emit_hunk h) = map (block_at (old_side h)) [0..<length (rs_blocks (old_side h))] \<and>
   List.map_filter shown_new (emit_hunk h) = map (block_at (new_side h)) [0..<length (rs_blocks (new_side h))] \<and>
   list_all (item_ok (old_side h) (new_side h)) (emit_hunk h) \<and>
   length (filter is_same (emit_hunk h)) =
     (if length (rs_blocks (old_side h)) * length (rs_blocks (new_side h)) \<le> MAX_PAIRINGS
      then lcs_len (norms (old_side h)) (norms (new_side h)) else 0)"
proof (cases "block_lcs (old_side h) (new_side h)")
  case None
  then have "MAX_PAIRINGS < length (rs_blocks (old_side h)) * length (rs_blocks (new_side h))"
    by (auto simp: block_lcs_def Let_def split: if_splits)
  with None show ?thesis
    by (auto simp: emit_hunk_def Let_def shown_simps filter_empty_conv list_all_iff item_ok_def)
next
  case (Some ms)
  have "length (rs_blocks (old_side h)) * length (rs_blocks (new_side h)) \<le> MAX_PAIRINGS"
    using Some by (auto simp: block_lcs_def Let_def split: if_splits)
  moreover note m = block_lcs_sound [OF Some]
  have "List.map_filter shown_old (emit_loop (old_side h) (new_side h) 0 0 ms) = map (block_at (old_side h)) [0..<length (rs_blocks (old_side h))] \<and>
    List.map_filter shown_new (emit_loop (old_side h) (new_side h) 0 0 ms) = map (block_at (new_side h)) [0..<length (rs_blocks (new_side h))] \<and>
    length (filter is_same (emit_loop (old_side h) (new_side h) 0 0 ms)) = length ms \<and>
    list_all (item_ok (old_side h) (new_side h)) (emit_loop (old_side h) (new_side h) 0 0 ms)"
    by (rule emit_loop_shown) (use m in auto)
  ultimately show ?thesis using m Some by (simp add: emit_hunk_def Let_def)
qed

section \<open>Gaps\<close>

definition gap_lines :: "rich_item \<Rightarrow> nat list" where
  "gap_lines it = (case it of RichBlock _ \<Rightarrow> [] | RichGap _ n count \<Rightarrow> [n..<n + count])"

definition new_lines :: "hunk list \<Rightarrow> nat list" where
  "new_lines hs = concat (map (\<lambda>h. side_numbers SideRight (rows h)) hs)"

definition hunks_end :: "nat \<Rightarrow> hunk list \<Rightarrow> nat" where
  "hunks_end d hs = (if hs = [] then d else new_start (last hs) + new_count (last hs))"

lemma emit_hunk_no_gap: "concat (map gap_lines (emit_hunk h)) = []"
  using emit_hunk_complete [of h] by (auto simp: list_all_iff item_ok_def rich_block_of_def gap_lines_def Let_def)

lemma fold_max_upt: "a \<le> b \<Longrightarrow> fold max [Suc a..<Suc b] a = b"
  by (induction b rule: dec_induct) (simp_all add: max_def)

lemma hunk_new_numbers: "hunk_ok h \<Longrightarrow> side_numbers SideRight (rows h) = [new_start h..<new_start h + new_count h]"
  unfolding hunk_ok_def by (metis side.simps(4) side_count_def side_start_def)

lemma last_number_new:
  assumes "hunk_ok h" "0 < new_count h"
  shows "Suc (last_number new_line d h) = new_start h + new_count h"
proof -
  have "row_number SideRight = new_line" by (simp add: row_number_def fun_eq_iff)
  with hunk_new_numbers [OF assms(1)] have n: "List.map_filter new_line (rows h) = [new_start h..<new_start h + new_count h]"
    by (simp add: side_numbers_def)
  obtain k where k: "new_count h = Suc k" using assms(2) by (cases "new_count h") auto
  have "[new_start h..<new_start h + new_count h] = new_start h # [Suc (new_start h)..<Suc (new_start h + k)]"
    unfolding k by (simp add: upt_rec del: upt_Suc)
  with fold_max_upt [of "new_start h" "new_start h + k"] n k show ?thesis by (simp add: last_number_def del: upt_Suc)
qed

lemma new_lines_from:
  assumes "list_all hunk_ok hs" "\<forall>h \<in> set hs. s \<le> new_start h" "n \<in> set (new_lines hs)"
  shows "s \<le> n"
  using assms by (auto simp: new_lines_def list_all_iff hunk_new_numbers)

lemma hunk_before_new: "hunk_before h h' \<Longrightarrow> new_start h + new_count h \<le> new_start h'"
  unfolding hunk_before_def by (metis side.simps(4) side_count_def side_start_def)

lemma hunks_end_from:
  assumes "sorted_wrt hunk_before (h # hs)"
  shows "new_start h + new_count h \<le> hunks_end (new_start h + new_count h) hs"
  using assms hunk_before_new [of h "last hs"] by (cases hs) (auto simp: hunks_end_def)

lemma gap_head:
  "p < s \<Longrightarrow> concat (map gap_lines (if p + 1 < s then [RichGap o' (p + 1) (s - p - 1)] else [])) = [Suc p..<s]"
  by (simp add: gap_lines_def del: upt_Suc)

lemma rich_loop_gaps:
  assumes "list_all hunk_ok hs" "sorted_wrt hunk_before hs" "\<forall>h \<in> set hs. 0 < new_count h \<and> prev_new < new_start h"
  shows "concat (map gap_lines (rich_loop prev_old prev_new hs)) =
    filter (\<lambda>n. n \<notin> set (new_lines hs)) [Suc prev_new..<hunks_end (Suc prev_new) hs]"
  using assms
proof (induction hs arbitrary: prev_old prev_new)
  case (Cons h hs)
  let ?e = "new_start h + new_count h" and ?p = "last_number new_line prev_new h"
  have ok: "hunk_ok h" "0 < new_count h" "prev_new < new_start h" using Cons.prems by auto
  have p: "Suc ?p = ?e" using last_number_new [OF ok(1,2)] .
  have later: "?e \<le> new_start h'" if "h' \<in> set hs" for h' using Cons.prems(2) that hunk_before_new by auto
  have rest: "concat (map gap_lines (rich_loop (last_number old_line prev_old h) ?p hs)) =
      filter (\<lambda>n. n \<notin> set (new_lines hs)) [?e..<hunks_end ?e hs]"
    using Cons.IH [of ?p "last_number old_line prev_old h"] Cons.prems later p by (simp add: Suc_le_eq [symmetric])
  have lines: "set (new_lines (h # hs)) = {new_start h..<?e} \<union> set (new_lines hs)"
    by (simp add: new_lines_def hunk_new_numbers [OF ok(1)])
  have from_e: "?e \<le> n" if "n \<in> set (new_lines hs)" for n
    by (rule new_lines_from [OF _ _ that]) (use Cons.prems later in auto)
  have "[Suc prev_new..<hunks_end (Suc prev_new) (h # hs)] =
      [Suc prev_new..<new_start h] @ [new_start h..<?e] @ [?e..<hunks_end ?e hs]"
    using ok(3) hunks_end_from [OF Cons.prems(2)] upt_split [of "new_start h" ?e "hunks_end ?e hs"]
      upt_split [of "Suc prev_new" "new_start h" "hunks_end ?e hs"]
    by (simp add: hunks_end_def)
  moreover have "filter (\<lambda>n. n \<notin> set (new_lines (h # hs))) [Suc prev_new..<new_start h] = [Suc prev_new..<new_start h]"
    unfolding lines by (rule filter_True) (use from_e in fastforce)
  moreover have "filter (\<lambda>n. n \<notin> set (new_lines (h # hs))) [new_start h..<?e] = []"
    unfolding lines by simp
  moreover have "filter (\<lambda>n. n \<notin> set (new_lines (h # hs))) [?e..<hunks_end ?e hs] = filter (\<lambda>n. n \<notin> set (new_lines hs)) [?e..<hunks_end ?e hs]"
    unfolding lines by (rule filter_cong) auto
  ultimately show ?case using rest
    by (simp only: rich_loop.simps map_append concat_append emit_hunk_no_gap gap_head [OF ok(3)] filter_append append_Nil)
qed (simp add: hunks_end_def)

text \<open>
  In a file with counted, ordered hunks that each show a line of the new side, the gaps name exactly the lines of
  the new side that no hunk shows, each once and in order, up to the last hunk.
\<close>

theorem rich_gaps_exact:
  assumes "file_ok f" "list_all (\<lambda>h. 0 < new_count h) (hunks f)"
  shows "concat (map gap_lines (rich_diff f)) = filter (\<lambda>n. n \<notin> set (new_lines (hunks f))) [1..<hunks_end 1 (hunks f)]"
proof -
  have "0 < new_start h" if "h \<in> set (hunks f)" for h
  proof -
    have "range_ok (side_start SideRight h) (side_count SideRight h)" "0 < new_count h"
      using assms that by (auto simp: file_ok_def list_all_iff hunk_ok_def)
    then show ?thesis by (simp add: range_ok_def side_start_def side_count_def)
  qed
  with rich_loop_gaps [of "hunks f" 0 0] assms show ?thesis by (simp add: rich_diff_def file_ok_def list_all_iff)
qed

section \<open>Marks are only inserted\<close>

fun spliced :: "str \<Rightarrow> str \<times> str \<Rightarrow> nat \<Rightarrow> ranges \<Rightarrow> str" where
  "spliced t m at [] = drop at t"
| "spliced t m at (p # ps) = slice at (fst p) t @ fst m @ slice (fst p) (snd p) t @ snd m @ spliced t m (snd p) ps"

definition in_order :: "nat \<Rightarrow> nat \<Rightarrow> ranges \<Rightarrow> bool" where
  "in_order lo hi rs \<longleftrightarrow> sorted_wrt (\<lambda>r r'. snd r \<le> fst r') rs \<and> (\<forall>r \<in> set rs. lo \<le> fst r \<and> fst r \<le> snd r \<and> snd r \<le> hi)"

lemma spliced_plain: "in_order at (length t) ps \<Longrightarrow> spliced t ([], []) at ps = drop at t"
proof (induction ps arbitrary: at)
  case (Cons p ps)
  have "spliced t ([], []) (snd p) ps = drop (snd p) t" by (rule Cons.IH) (use Cons.prems in \<open>auto simp: in_order_def\<close>)
  moreover have "slice at (fst p) t @ slice (fst p) (snd p) t = slice at (snd p) t"
    using Cons.prems by (intro slice_append) (auto simp: in_order_def)
  moreover have "slice at (snd p) t @ drop (snd p) t = drop at t"
    using Cons.prems slice_append [of at "snd p" "length t" t] by (auto simp: in_order_def slice_def)
  ultimately show ?case by (metis append.assoc append_Nil fst_conv snd_conv spliced.simps(2))
qed simp

lemma wrap_loop_spliced:
  assumes "in_order at (length t) rs"
  shows "\<exists>ps. in_order at (length t) ps \<and> (\<forall>m. wrap_loop t m at rs = spliced t m at ps)"
  using assms
proof (induction rs arbitrary: at)
  case Nil
  then show ?case by (intro exI [of _ "[]"]) simp
next
  case (Cons r rs)
  define lead trail where lt: "lead = length (piece t r) - length (trim_start (piece t r))" "trail = length (piece t r) - length (trim_end (piece t r))"
  have b: "at \<le> fst r" "fst r \<le> snd r" "snd r \<le> length t" "sorted_wrt (\<lambda>r r'. snd r \<le> fst r') rs"
    "\<And>r'. r' \<in> set rs \<Longrightarrow> snd r \<le> fst r' \<and> fst r' \<le> snd r' \<and> snd r' \<le> length t"
    using Cons.prems by (auto simp: in_order_def)
  have len: "length (piece t r) = snd r - fst r" using b(3) by (simp add: piece_def length_slice)
  show ?case
  proof (cases "length (piece t r) \<le> lead + trail")
    case True
    have "in_order at (length t) rs" using Cons.prems by (auto simp: in_order_def)
    from Cons.IH [OF this] True show ?thesis by (simp add: lt)
  next
    case False
    let ?s = "fst r + lead" and ?e = "snd r - trail"
    have se: "at \<le> ?s" "?s \<le> ?e" "?e \<le> snd r" using False b len by auto
    have "in_order ?e (length t) rs" unfolding in_order_def using b(4,5) se(3) by force
    from Cons.IH [OF this] obtain ps where ps: "in_order ?e (length t) ps" "\<And>m. wrap_loop t m ?e rs = spliced t m ?e ps" by blast
    have "in_order at (length t) ((?s, ?e) # ps)" using ps(1) se b(3) by (auto simp: in_order_def)
    moreover have "wrap_loop t m at (r # rs) = spliced t m at ((?s, ?e) # ps)" for m
      using False ps(2) by (simp add: Let_def flip: lt)
    ultimately show ?thesis by blast
  qed
qed

lemma merge_into_order:
  assumes "in_order lo hi merged" "lo \<le> fst r" "fst r \<le> snd r" "snd r \<le> hi" "merged \<noteq> [] \<Longrightarrow> snd (last merged) \<le> fst r"
  shows "in_order lo hi (merge_into alnum t merged r)" "merge_into alnum t merged r \<noteq> [] \<and> snd (last (merge_into alnum t merged r)) = snd r"
proof -
  have l: "snd r' \<le> fst r" if "r' \<in> set merged" for r'
  proof -
    have "merged = butlast merged @ [last merged]" using that by (cases merged) auto
    then have "r' = last merged \<or> snd r' \<le> fst (last merged)"
      using that assms(1) unfolding in_order_def by (metis (no_types, lifting) UnE empty_iff empty_set insertE list.simps(15) list.set_intros(1) set_append sorted_wrt_append)
    moreover have "last merged \<in> set merged" using that by (cases merged) auto
    then have "fst (last merged) \<le> snd (last merged)" using assms(1) by (auto simp: in_order_def)
    ultimately show ?thesis using assms(5) that by (cases merged) fastforce+
  qed
  show "in_order lo hi (merge_into alnum t merged r)"
  proof (cases "merge_into alnum t merged r = merged @ [r]")
    case True
    then show ?thesis using assms(1-4) l by (auto simp: in_order_def sorted_wrt_append)
  next
    case False
    then have m: "merge_into alnum t merged r = butlast merged @ [(fst (last merged), snd r)]" "merged \<noteq> []"
      by (auto simp: merge_into_def split: if_splits)
    then have "merged = butlast merged @ [last merged]" by simp
    then have "in_order lo hi (butlast merged @ [last merged])" using assms(1) by simp
    then show ?thesis unfolding m(1) using assms(4) l [OF last_in_set [OF m(2)]] assms(3)
      by (auto simp: in_order_def sorted_wrt_append)
  qed
  show "merge_into alnum t merged r \<noteq> [] \<and> snd (last (merge_into alnum t merged r)) = snd r"
    by (simp add: merge_into_def)
qed

lemma merge_order:
  assumes "in_order lo hi merged" "in_order lo hi rs" "\<forall>r \<in> set rs. merged \<noteq> [] \<longrightarrow> snd (last merged) \<le> fst r"
  shows "in_order lo hi (foldl (merge_into alnum t) merged rs)"
  using assms
proof (induction rs arbitrary: merged)
  case (Cons r rs)
  have r: "lo \<le> fst r" "fst r \<le> snd r" "snd r \<le> hi" "merged \<noteq> [] \<Longrightarrow> snd (last merged) \<le> fst r"
    using Cons.prems by (auto simp: in_order_def)
  note m = merge_into_order [OF Cons.prems(1) r, of alnum t]
  show ?case unfolding foldl_Cons
    by (rule Cons.IH [OF m(1)]) (use Cons.prems m(2) in \<open>auto simp: in_order_def\<close>)
qed simp

text \<open>
  Marking words only inserts the two delimiters, around pieces of the text that are in order and do not overlap; which
  pieces these are does not depend on the delimiters, and without them the text is unchanged.
\<close>

theorem wrap_inserts:
  assumes "in_order 0 (length t) rs"
  shows "\<exists>ps. in_order 0 (length t) ps \<and> (\<forall>m. wrap alnum t rs m = spliced t m 0 ps) \<and> wrap alnum t rs ([], []) = t"
proof -
  have "in_order 0 (length t) (foldl (merge_into alnum t) [] rs)"
    by (rule merge_order [OF _ assms]) (simp_all add: in_order_def)
  from wrap_loop_spliced [OF this] obtain ps where "in_order 0 (length t) ps" "\<And>m. wrap alnum t rs m = spliced t m 0 ps"
    unfolding wrap_def by blast
  with spliced_plain [of 0 t ps] show ?thesis by auto
qed


section \<open>At an input\<close>

definition one_line_hunk :: "nat \<Rightarrow> nat \<Rightarrow> hunk" where
  "one_line_hunk old new =
     \<lparr>old_start = old, old_count = 1, new_start = new, new_count = 1, section_text = [],
      rows = [\<lparr>old_line = Some old, new_line = Some new, row_text = ''x'', row_ending = EndLf, row_kind = RContext\<rparr>]\<rparr>"

definition removal_hunk :: "nat \<Rightarrow> nat \<Rightarrow> hunk" where
  "removal_hunk old new =
     \<lparr>old_start = old, old_count = 1, new_start = new, new_count = 0, section_text = [],
      rows = [\<lparr>old_line = Some old, new_line = None, row_text = ''y'', row_ending = EndLf, row_kind = RRemoved\<rparr>]\<rparr>"

definition file_of_hunks :: "hunk list \<Rightarrow> file_change" where
  "file_of_hunks hs =
     \<lparr>fc_id = FileId ''f'', old_path = Some (RepoPath ''a.md''), new_path = Some (RepoPath ''a.md''), fc_kind = KModified,
      fc_content = CText, old_mode = None, new_mode = None, old_oid = None, new_oid = None, hunks = hs, metadata = []\<rparr>"

lemma sample_hunks_ok:
  "file_ok (file_of_hunks [one_line_hunk 3 3, one_line_hunk 6 6])" "file_ok (file_of_hunks [removal_hunk 2 1, one_line_hunk 10 9])"
  by (simp_all add: file_ok_def hunk_ok_def hunk_before_def all_sides row_ok_def ascii_valid_utf8 side_numbers_def
    row_number_def side_start_def side_count_def range_ok_def u32_max_def file_of_hunks_def one_line_hunk_def removal_hunk_def map_filter_simps)

theorem rich_gaps_exact_witness:
  "concat (map gap_lines (rich_diff (file_of_hunks [one_line_hunk 3 3, one_line_hunk 6 6]))) = [1, 2, 4, 5]"
proof -
  have "list_all (\<lambda>h. 0 < new_count h) (hunks (file_of_hunks [one_line_hunk 3 3, one_line_hunk 6 6]))" by code_simp
  from rich_gaps_exact [OF sample_hunks_ok(1) this]
  have "concat (map gap_lines (rich_diff (file_of_hunks [one_line_hunk 3 3, one_line_hunk 6 6]))) =
    filter (\<lambda>n. n \<notin> set (new_lines [one_line_hunk 3 3, one_line_hunk 6 6])) [1..<hunks_end 1 [one_line_hunk 3 3, one_line_hunk 6 6]]"
    by (simp add: file_of_hunks_def)
  also have "\<dots> = [1, 2, 4, 5]" by code_simp
  finally show ?thesis .
qed

text \<open>
  A hunk that shows no line of the new side leaves the count of shown lines where it was. Its file is counted and ordered,
  as patches without context are; the gap after it starts again with new line 1, although the hunk stands after that line,
  and pairs it with old line 3, although old line 3 is new line 2.
\<close>

theorem rich_gap_repeats:
  "file_ok (file_of_hunks [removal_hunk 2 1, one_line_hunk 10 9]) \<and>
   RichGap 3 1 8 \<in> set (rich_diff (file_of_hunks [removal_hunk 2 1, one_line_hunk 10 9]))"
proof
  have "rich_diff (file_of_hunks [removal_hunk 2 1, one_line_hunk 10 9]) =
    [rich_block_of RichRemoved (Some (0, old_side (removal_hunk 2 1))) None, RichGap 3 1 8,
     rich_block_of RichSame (Some (0, old_side (one_line_hunk 10 9))) (Some (0, new_side (one_line_hunk 10 9)))]"
    by code_simp
  then show "RichGap 3 1 8 \<in> set (rich_diff (file_of_hunks [removal_hunk 2 1, one_line_hunk 10 9]))" by simp
qed (rule sample_hunks_ok(2))

end
