(* ===== verification/Syntax.thy ===== *)
theory Syntax
  imports Address
begin

text \<open>
  Syntax spans, \<open>crates/core/src/syntax.rs\<close>: the kinds of tokens, the grammar of a path, and how the events of a highlighter
  become spans of lines. The grammars and the highlighter are a library: its events for a language and a source are an
  argument. \<open>None\<close> in place of the lines of \<open>push_span\<close> is an index out of range.
\<close>

section \<open>Tokens\<close>

datatype token = TKeyword | TFunction | TType | TString | TNumber | TComment | TProperty | TConstant | TOperator | TPunctuation | TVariable | TParameter | TAttribute | TNamespace | TLabel | TEmbedded

definition ALL_TOKENS :: "token list" where
  "ALL_TOKENS = [TKeyword, TFunction, TType, TString, TNumber, TComment, TProperty, TConstant,
     TOperator, TPunctuation, TVariable, TParameter, TAttribute, TNamespace, TLabel, TEmbedded]"

fun token_name :: "token \<Rightarrow> str" where
  "token_name TKeyword = ''keyword''"
| "token_name TFunction = ''function''"
| "token_name TType = ''type''"
| "token_name TString = ''string''"
| "token_name TNumber = ''number''"
| "token_name TComment = ''comment''"
| "token_name TProperty = ''property''"
| "token_name TConstant = ''constant''"
| "token_name TOperator = ''operator''"
| "token_name TPunctuation = ''punctuation''"
| "token_name TVariable = ''variable''"
| "token_name TParameter = ''parameter''"
| "token_name TAttribute = ''attribute''"
| "token_name TNamespace = ''namespace''"
| "token_name TLabel = ''label''"
| "token_name TEmbedded = ''embedded''"

record token_span =
  span_start :: nat
  span_stop :: nat
  span_token :: token

definition RECOGNIZED :: "(str \<times> token) list" where
  "RECOGNIZED =
    [(''keyword'', TKeyword), (''function'', TFunction), (''function.method'', TFunction), (''function.macro'', TFunction),
     (''method'', TFunction), (''constructor'', TFunction), (''type'', TType), (''type.builtin'', TType),
     (''string'', TString), (''string.special'', TString), (''character'', TString), (''escape'', TString),
     (''number'', TNumber), (''float'', TNumber), (''comment'', TComment), (''property'', TProperty),
     (''field'', TProperty), (''constant'', TConstant), (''constant.builtin'', TConstant), (''boolean'', TConstant),
     (''operator'', TOperator), (''punctuation'', TPunctuation), (''punctuation.bracket'', TPunctuation),
     (''punctuation.delimiter'', TPunctuation), (''punctuation.special'', TPunctuation), (''variable'', TVariable),
     (''variable.builtin'', TVariable), (''variable.parameter'', TParameter), (''parameter'', TParameter),
     (''attribute'', TAttribute), (''tag'', TAttribute), (''tag.delimiter'', TAttribute), (''namespace'', TNamespace),
     (''module'', TNamespace), (''label'', TLabel), (''embedded'', TEmbedded)]"

definition recognized_names :: "str list" where
  "recognized_names = map fst RECOGNIZED"

definition token_for :: "nat \<Rightarrow> token option" where
  "token_for i = (if i < length RECOGNIZED then Some (snd (RECOGNIZED ! i)) else None)"

section \<open>The grammar of a path\<close>

text \<open>The text after the last point of the last component of a path, in lower case.\<close>

definition path_extension :: "str \<Rightarrow> str option" where
  "path_extension path = map_option (\<lambda>(_, e). to_ascii_lowercase e) (rsplit_once ''.'' (last (split_on (CHR ''/'') path)))"

definition LANGUAGES :: "(str list \<times> str) list" where
  "LANGUAGES =
    [([''rs''], ''rust''), ([''js'', ''mjs'', ''cjs'', ''jsx''], ''javascript''), ([''ts'', ''mts'', ''cts''], ''typescript''),
     ([''tsx''], ''tsx''), ([''json''], ''json''), ([''py''], ''python''), ([''go''], ''go''), ([''c'', ''h''], ''c''),
     ([''cpp'', ''cc'', ''cxx'', ''hpp'', ''hh'', ''hxx''], ''cpp''), ([''java''], ''java''), ([''rb''], ''ruby''),
     ([''sh'', ''bash'', ''zsh''], ''bash''), ([''toml''], ''toml''), ([''yaml'', ''yml''], ''yaml''), ([''html'', ''htm''], ''html''),
     ([''css''], ''css''), ([''ex'', ''exs''], ''elixir''), ([''heex''], ''heex''), ([''gleam''], ''gleam'')]"

definition language_for_path :: "str \<Rightarrow> str option" where
  "language_for_path path =
     Option.bind (path_extension path) (\<lambda>e. map_option snd (List.find (\<lambda>(es, _). e \<in> set es) LANGUAGES))"

definition builtin_claim :: "str \<Rightarrow> (str \<times> nat) option" where
  "builtin_claim path = map_option (\<lambda>name. (name, 0)) (language_for_path path)"

section \<open>Spans of lines\<close>

datatype highlight_event = HighlightStart nat | HighlightEnd | HighlightSource nat nat

definition newlines :: "bytes \<Rightarrow> nat list" where
  "newlines src = filter (\<lambda>i. src ! i = LF) [0..<length src]"

fun bounds_from :: "bytes \<Rightarrow> nat \<Rightarrow> nat list \<Rightarrow> (nat \<times> nat) list" where
  "bounds_from src line_start [] = [(line_start, length src)]"
| "bounds_from src line_start (nl # nls) =
     (line_start, if nl > line_start \<and> src ! (nl - 1) = CR then nl - 1 else nl) # bounds_from src (nl + 1) nls"

definition line_bounds :: "bytes \<Rightarrow> (nat \<times> nat) list" where
  "line_bounds src = bounds_from src 0 (newlines src)"

function push_loop :: "(nat \<times> nat) list \<Rightarrow> nat \<Rightarrow> token \<Rightarrow> nat \<Rightarrow> nat \<Rightarrow> token_span list list \<Rightarrow> token_span list list option" where
  "push_loop bounds stop tok cursor line ls =
     (if \<not> cursor < stop then Some ls
      else if \<not> (line < length bounds \<and> line < length ls) then None
      else
        (let (line_start, line_end) = bounds ! line;
             clipped = min stop line_end;
             ls' = (if clipped > cursor
                    then ls[line := ls ! line @ [\<lparr>span_start = cursor - line_start, span_stop = clipped - line_start, span_token = tok\<rparr>]]
                    else ls) in
         if clipped = stop then Some ls'
         else if Suc line < length bounds then push_loop bounds stop tok (fst (bounds ! Suc line)) (Suc line) ls'
         else None))"
  by pat_completeness auto
termination by (relation "measure (\<lambda>(bounds, _, _, _, line, _). length bounds - line)") auto

declare push_loop.simps [simp del]

definition push_span :: "(nat \<times> nat) list \<Rightarrow> nat \<Rightarrow> nat \<Rightarrow> token \<Rightarrow> token_span list list \<Rightarrow> token_span list list option" where
  "push_span bounds start stop tok ls =
     (let p = partition_point (\<lambda>b. fst b \<le> start) bounds in
      if p = 0 then None else push_loop bounds stop tok start (p - 1) ls)"

text \<open>An event that is \<open>None\<close> is an error of the highlighter. \<open>None\<close> as a result: no spans, or an index out of range.\<close>

datatype spans_result = NoSpans | SpansPanic | Spans "token_span list list"

fun spans_loop :: "(nat \<times> nat) list \<Rightarrow> highlight_event option list \<Rightarrow> token list \<Rightarrow> token_span list list \<Rightarrow> spans_result" where
  "spans_loop bounds [] stack ls = Spans ls"
| "spans_loop bounds (None # es) stack ls = NoSpans"
| "spans_loop bounds (Some (HighlightStart i) # es) stack ls =
     (case token_for i of None \<Rightarrow> NoSpans | Some t \<Rightarrow> spans_loop bounds es (t # stack) ls)"
| "spans_loop bounds (Some HighlightEnd # es) stack ls = spans_loop bounds es (tl stack) ls"
| "spans_loop bounds (Some (HighlightSource start stop) # es) stack ls =
     (case stack of
        [] \<Rightarrow> spans_loop bounds es stack ls
      | t # _ \<Rightarrow>
          (case push_span bounds start stop t ls of
             None \<Rightarrow> SpansPanic
           | Some ls' \<Rightarrow> spans_loop bounds es stack ls'))"

definition spans :: "bytes \<Rightarrow> highlight_event option list option \<Rightarrow> spans_result" where
  "spans src events =
     (case events of
        None \<Rightarrow> NoSpans
      | Some es \<Rightarrow> (let bounds = line_bounds src in spans_loop bounds es [] (replicate (length bounds) [])))"

definition builtin_highlight :: "(str \<Rightarrow> bytes \<Rightarrow> highlight_event option list option) \<Rightarrow> str \<Rightarrow> bytes \<Rightarrow> spans_result" where
  "builtin_highlight highlighter path src =
     (case language_for_path path of None \<Rightarrow> NoSpans | Some name \<Rightarrow> spans src (highlighter name src))"

section \<open>The lines of a source\<close>

text \<open>Line ranges: they start at \<open>k\<close>, none ends before it starts, the next starts after the end of the one before, and the last ends with the source.\<close>

fun line_ranges_ok :: "nat \<Rightarrow> nat \<Rightarrow> (nat \<times> nat) list \<Rightarrow> bool" where
  "line_ranges_ok n k [] \<longleftrightarrow> False"
| "line_ranges_ok n k [(s, e)] \<longleftrightarrow> s = k \<and> s \<le> e \<and> e = n"
| "line_ranges_ok n k ((s, e) # b # bs) \<longleftrightarrow> s = k \<and> s \<le> e \<and> e < fst b \<and> line_ranges_ok n (fst b) (b # bs)"

lemma bounds_from_ok:
  assumes "sorted_wrt (<) nls" "\<forall>i \<in> set nls. k \<le> i \<and> i < length src" "k \<le> length src"
  shows "line_ranges_ok (length src) k (bounds_from src k nls) \<and> fst (hd (bounds_from src k nls)) = k"
  using assms
proof (induction src k nls rule: bounds_from.induct)
  case (2 src k nl nls)
  then have ih: "line_ranges_ok (length src) (nl + 1) (bounds_from src (nl + 1) nls)" "fst (hd (bounds_from src (nl + 1) nls)) = nl + 1"
    by (fastforce simp: Suc_le_eq)+
  obtain b bs where b: "bounds_from src (nl + 1) nls = b # bs" by (cases nls) auto
  with ih have "fst b = nl + 1" by simp
  then show ?case using ih(1) 2(3) by (auto simp: b [simplified])
qed simp

lemma line_bounds_ok: "line_ranges_ok (length src) 0 (line_bounds src)"
  unfolding line_bounds_def newlines_def by (rule conjunct1, rule bounds_from_ok) (auto simp: sorted_wrt_filter)

lemma line_ranges_ok_nth:
  assumes "line_ranges_ok n k bs"
  shows "bs \<noteq> [] \<and> fst (bs ! 0) = k \<and> (\<forall>i < length bs. fst (bs ! i) \<le> snd (bs ! i)) \<and>
    (\<forall>i. Suc i < length bs \<longrightarrow> snd (bs ! i) < fst (bs ! Suc i)) \<and> snd (bs ! (length bs - 1)) = n"
  using assms
proof (induction n k bs rule: line_ranges_ok.induct)
  case (3 n k s e b bs)
  then have ih: "fst b = fst ((b # bs) ! 0)" "\<forall>i < length (b # bs). fst ((b # bs) ! i) \<le> snd ((b # bs) ! i)"
    "\<forall>i. Suc i < length (b # bs) \<longrightarrow> snd ((b # bs) ! i) < fst ((b # bs) ! Suc i)" "snd ((b # bs) ! (length (b # bs) - 1)) = n" by auto
  from 3(2) have e: "s = k" "s \<le> e" "e < fst b" by auto
  have "fst (((s, e) # b # bs) ! i) \<le> snd (((s, e) # b # bs) ! i)" if "i < length ((s, e) # b # bs)" for i
    using that ih(2) e by (cases i) auto
  moreover have "snd (((s, e) # b # bs) ! i) < fst (((s, e) # b # bs) ! Suc i)" if "Suc i < length ((s, e) # b # bs)" for i
    using that ih(3) e by (cases i) auto
  ultimately show ?case using e ih(4) by simp
qed auto

lemma ranges_apart:
  assumes "line_ranges_ok n k bs" "i < j" "j < length bs"
  shows "snd (bs ! i) < fst (bs ! j)"
  using assms(2,3)
proof (induction j)
  case (Suc j)
  note r = line_ranges_ok_nth [OF assms(1)]
  show ?case
  proof (cases "i = j")
    case True
    with Suc r show ?thesis by auto
  next
    case False
    with Suc have "snd (bs ! i) < fst (bs ! j)" by simp
    also have "\<dots> \<le> snd (bs ! j)" using r Suc.prems by auto
    also have "\<dots> < fst (bs ! Suc j)" using r Suc.prems by auto
    finally show ?thesis .
  qed
qed simp

section \<open>A span goes to the lines it meets\<close>

text \<open>The part of a range of bytes that lies on a line.\<close>

definition clip :: "nat \<times> nat \<Rightarrow> nat \<times> nat \<times> token \<Rightarrow> token_span list" where
  "clip b r = (case (b, r) of ((s, e), start, stop, tok) \<Rightarrow>
     if max start s < min stop e then [\<lparr>span_start = max start s - s, span_stop = min stop e - s, span_token = tok\<rparr>] else [])"

lemma clip_before: "snd b \<le> start \<Longrightarrow> clip b (start, stop, tok) = []"
  by (auto simp: clip_def split: prod.split)

lemma clip_after: "stop \<le> fst b \<Longrightarrow> clip b (start, stop, tok) = []"
  by (auto simp: clip_def split: prod.split)

lemma clip_from: "start \<le> fst b \<Longrightarrow> start' \<le> fst b \<Longrightarrow> clip b (start, stop, tok) = clip b (start', stop, tok)"
  by (auto simp: clip_def max_def split: prod.split)

lemma clip_empty: "stop \<le> start \<Longrightarrow> clip b (start, stop, tok) = []"
  by (auto simp: clip_def split: prod.split)

definition add_clips :: "(nat \<times> nat) list \<Rightarrow> token_span list list \<Rightarrow> nat \<times> nat \<times> token \<Rightarrow> token_span list list" where
  "add_clips bounds ls r = map (\<lambda>(b, l). l @ clip b r) (zip bounds ls)"

lemma add_clips_nth:
  "length ls = length bounds \<Longrightarrow> i < length bounds \<Longrightarrow> add_clips bounds ls r ! i = ls ! i @ clip (bounds ! i) r"
  "length ls = length bounds \<Longrightarrow> length (add_clips bounds ls r) = length bounds"
  by (simp_all add: add_clips_def)

lemma push_loop_clips:
  assumes "line_ranges_ok n k bounds" "line < length bounds" "length ls = length bounds" "fst (bounds ! line) \<le> cursor" "stop \<le> n"
    "Suc line < length bounds \<longrightarrow> cursor < fst (bounds ! Suc line)"
  shows "push_loop bounds stop tok cursor line ls = Some (add_clips bounds ls (cursor, stop, tok))"
  using assms
proof (induction bounds stop tok cursor line ls rule: push_loop.induct)
  case (1 bounds stop tok cursor line ls)
  let ?r = "(cursor, stop, tok)"
  obtain s e where b: "bounds ! line = (s, e)" by (cases "bounds ! line")
  note apart = ranges_apart [OF 1(2)]
  define ls' where "ls' = ls[line := ls ! line @ clip (s, e) ?r]"
  have before: "clip (bounds ! i) ?r = []" if "i < line" for i
    using apart [OF that] 1(3,5) by (intro clip_before) simp
  show ?case
  proof (cases "cursor < stop")
    case False
    then have "add_clips bounds ls ?r = ls" using 1(4) by (intro nth_equalityI) (simp_all add: add_clips_nth clip_empty)
    with False show ?thesis by (simp add: push_loop.simps)
  next
    case less: True
    have here: "(if min stop e > cursor then ls[line := ls ! line @ [\<lparr>span_start = cursor - s, span_stop = min stop e - s, span_token = tok\<rparr>]] else ls) = ls'"
      using 1(5) b by (simp add: ls'_def clip_def max_def)
    show ?thesis
    proof (cases "min stop e = stop")
      case True
      have "add_clips bounds ls ?r = ls'"
      proof (rule nth_equalityI)
        fix i assume "i < length (add_clips bounds ls ?r)"
        then have i: "i < length bounds" using 1(4) by (simp add: add_clips_nth)
        have "clip (bounds ! i) ?r = []" if "line < i" using apart [OF that i] True b by (intro clip_after) simp
        then show "add_clips bounds ls ?r ! i = ls' ! i"
          using before 1(4) i b by (cases i line rule: linorder_cases) (auto simp: add_clips_nth ls'_def)
      qed (simp add: add_clips_nth 1(4) ls'_def)
      with True less here b 1(3,4) show ?thesis by (subst push_loop.simps) (simp add: Let_def)
    next
      case False
      have more: "Suc line < length bounds"
      proof (rule ccontr)
        assume "\<not> Suc line < length bounds"
        with 1(3) have "line = length bounds - 1" by simp
        with line_ranges_ok_nth [OF 1(2)] b have "e = n" by simp
        with False 1(6) show False by simp
      qed
      let ?c = "fst (bounds ! Suc line)"
      have ec: "e < ?c" using apart [of line "Suc line"] more b by simp
      have "push_loop bounds stop tok ?c (Suc line) ls' = Some (add_clips bounds ls' (?c, stop, tok))"
      proof -
        have "Suc (Suc line) < length bounds \<longrightarrow> ?c < fst (bounds ! Suc (Suc line))"
          using apart [of "Suc line" "Suc (Suc line)"] line_ranges_ok_nth [OF 1(2)] more by (meson lessI order.strict_trans1)
        then show ?thesis
          using 1(1) [OF _ _ refl b [symmetric] refl refl False more] less here 1(2-6) more by (simp add: ls'_def)
      qed
      moreover have "add_clips bounds ls' (?c, stop, tok) = add_clips bounds ls ?r"
      proof (rule nth_equalityI)
        fix i assume "i < length (add_clips bounds ls' (?c, stop, tok))"
        then have i: "i < length bounds" using 1(4) by (simp add: add_clips_nth ls'_def)
        have low: "clip (bounds ! i) (?c, stop, tok) = []" if "i \<le> line"
          using apart [of i "Suc line"] that more by (intro clip_before) simp
        have high: "clip (bounds ! i) (?c, stop, tok) = clip (bounds ! i) ?r" if "line < i"
        proof (rule clip_from)
          have "?c \<le> snd (bounds ! Suc line)" using line_ranges_ok_nth [OF 1(2)] more by blast
          then show le: "?c \<le> fst (bounds ! i)"
            using that apart [OF _ i, of "Suc line"] by (cases "Suc line = i") auto
          show "cursor \<le> fst (bounds ! i)" using le 1(7) more by auto
        qed
        show "add_clips bounds ls' (?c, stop, tok) ! i = add_clips bounds ls ?r ! i"
          using low high before 1(4) i b by (cases i line rule: linorder_cases) (auto simp: add_clips_nth ls'_def)
      qed (simp add: add_clips_nth 1(4) ls'_def)
      moreover have es: "min stop e = e" "e \<noteq> stop" using False by auto
      ultimately show ?thesis using less here [unfolded es(1)] b 1(3,4) more
        by (subst push_loop.simps) (simp add: Let_def split: if_split_asm)
    qed
  qed
qed

lemma push_span_clips:
  assumes "length ls = length (line_bounds src)" "stop \<le> length src"
  shows "push_span (line_bounds src) start stop tok ls = Some (add_clips (line_bounds src) ls (start, stop, tok))"
proof -
  define bounds where "bounds = line_bounds src"
  define p where "p = partition_point (\<lambda>b. fst b \<le> start) bounds"
  have ok: "line_ranges_ok (length src) 0 bounds" unfolding bounds_def by (rule line_bounds_ok)
  note r = line_ranges_ok_nth [OF ok]
  have "p \<noteq> 0" using r by (cases bounds) (auto simp: p_def partition_point_def)
  then obtain line where p: "p = Suc line" by (cases p) auto
  have "p \<le> length bounds" unfolding p_def partition_point_def by (rule length_takeWhile_le)
  moreover have "fst (bounds ! line) \<le> start"
    using p set_takeWhileD [of "bounds ! line" "\<lambda>b. fst b \<le> start" bounds]
    unfolding p_def partition_point_def by (metis lessI nth_mem takeWhile_nth)
  moreover have "start < fst (bounds ! Suc line)" if "Suc line < length bounds"
    using nth_length_takeWhile [of "\<lambda>b. fst b \<le> start" bounds] that p unfolding p_def partition_point_def by simp
  ultimately have "push_loop bounds stop tok start line ls = Some (add_clips bounds ls (start, stop, tok))"
    using assms p by (intro push_loop_clips [OF ok]) (auto simp: bounds_def)
  then show ?thesis by (simp add: push_span_def Let_def p p_def [symmetric] bounds_def [symmetric])
qed

section \<open>What the lines show\<close>

text \<open>The ranges of the source with the innermost token around them.\<close>

fun tagged :: "highlight_event option list \<Rightarrow> token list \<Rightarrow> (nat \<times> nat \<times> token) list" where
  "tagged (Some (HighlightStart i) # es) stack = tagged es (the (token_for i) # stack)"
| "tagged (Some HighlightEnd # es) stack = tagged es (tl stack)"
| "tagged (Some (HighlightSource start stop) # es) stack =
     (case stack of [] \<Rightarrow> [] | t # _ \<Rightarrow> [(start, stop, t)]) @ tagged es stack"
| "tagged _ stack = []"

fun readable :: "highlight_event option \<Rightarrow> bool" where
  "readable None \<longleftrightarrow> False"
| "readable (Some (HighlightStart i)) \<longleftrightarrow> i < length RECOGNIZED"
| "readable (Some _) \<longleftrightarrow> True"

fun within :: "nat \<Rightarrow> highlight_event option \<Rightarrow> bool" where
  "within n (Some (HighlightSource start stop)) \<longleftrightarrow> stop \<le> n"
| "within n _ \<longleftrightarrow> True"

lemma add_all_clips:
  assumes "length ls = length bounds"
  shows "foldl (add_clips bounds) ls rs = map (\<lambda>(b, l). l @ concat (map (clip b) rs)) (zip bounds ls)"
  using assms
proof (induction rs arbitrary: ls)
  case Nil
  then show ?case by (intro nth_equalityI) simp_all
next
  case (Cons r rs)
  then show ?case
    by (intro nth_equalityI) (simp_all add: add_clips_nth)
qed

lemma spans_loop_clips:
  assumes "list_all (within (length src)) es" "length ls = length (line_bounds src)"
  shows "spans_loop (line_bounds src) es stack ls =
    (if list_all readable es then Spans (foldl (add_clips (line_bounds src)) ls (tagged es stack)) else NoSpans)"
  using assms
proof (induction "line_bounds src" es stack ls rule: spans_loop.induct)
  case (5 start stop es stack ls)
  then show ?case
    by (cases stack) (simp_all add: push_span_clips add_clips_nth)
qed (auto simp: token_for_def split: option.split)

lemma lines_of_bounds:
  "k \<le> length src \<Longrightarrow>
   map (\<lambda>(s, e). take (e - s) (drop s src)) (bounds_from src k (filter (\<lambda>i. src ! i = LF) [k..<length src])) =
   map strip_cr (butlast (split_on LF (drop k src))) @ [last (split_on LF (drop k src))]"
proof (induction "length src - k" arbitrary: k rule: less_induct)
  case less
  show ?case
  proof (cases "LF \<in> set (drop k src)")
    case False
    then have "filter (\<lambda>i. src ! i = LF) [k..<length src] = []"
      using less.prems by (auto simp: filter_empty_conv in_set_conv_nth) (metis add_diff_inverse_nat diff_less_mono leD)
    with False show ?thesis by (simp add: split_on_no_sep)
  next
    case True
    then obtain a d where ad: "drop k src = a @ LF # d" "LF \<notin> set a" by (meson split_list_first)
    define pre where "pre = take k src"
    define nl where "nl = k + length a"
    have src: "src = pre @ a @ LF # d" and pre: "length pre = k"
      using append_take_drop_id [of k src] less.prems by (auto simp: pre_def ad(1))
    have "filter (\<lambda>i. src ! i = LF) [k..<nl] = []"
      using ad(2) pre by (auto simp: filter_empty_conv nl_def src nth_append in_set_conv_nth)
    moreover have "[k..<length src] = [k..<nl] @ nl # [Suc nl..<length src]"
    proof -
      have "k \<le> nl" "nl < length src" using pre by (simp_all add: nl_def src)
      then show ?thesis using upt_add_eq_append [of k nl "length src - nl"] by (simp add: upt_conv_Cons)
    qed
    ultimately have f: "filter (\<lambda>i. src ! i = LF) [k..<length src] = nl # filter (\<lambda>i. src ! i = LF) [Suc nl..<length src]"
      using pre by (simp add: nl_def src nth_append)
    have d: "drop (Suc nl) src = d" "Suc nl \<le> length src" using pre by (simp_all add: nl_def src)
    have cr: "strip_suffix [CR] (ys @ [CR]) = Some ys" for ys by (simp add: strip_suffix_Some)
    have piece: "take ((if k < nl \<and> src ! (nl - 1) = CR then nl - 1 else nl) - k) (drop k src) = strip_cr a"
      using pre by (cases a rule: rev_cases) (auto simp: nl_def src nth_append strip_cr_def cr strip_suffix_Some split: option.split)
    have "map (\<lambda>(s, e). take (e - s) (drop s src)) (bounds_from src (Suc nl) (filter (\<lambda>i. src ! i = LF) [Suc nl..<length src])) =
        map strip_cr (butlast (split_on LF d)) @ [last (split_on LF d)]"
      using less.hyps [of "Suc nl"] d by (simp add: nl_def src pre)
    then show ?thesis using piece by (simp add: f ad(1) split_on_append_sep split_on_no_sep ad(2))
  qed
qed

text \<open>
  Claim C40. The spans of a source show each token exactly where it is: every line holds, in the order of the events, the part of each
  range under a token that lies on the line, and nothing of its line ending; an event that cannot be read gives no spans at all, and no index is out
  of range.
\<close>

theorem spans_exact:
  assumes "list_all (within (length src)) es"
  shows "spans src (Some es) =
    (if list_all readable es then Spans (map (\<lambda>b. concat (map (clip b) (tagged es []))) (line_bounds src)) else NoSpans) \<and>
    map (\<lambda>(s, e). take (e - s) (drop s src)) (line_bounds src) =
      map strip_cr (butlast (split_on LF src)) @ [last (split_on LF src)]"
proof
  let ?b = "line_bounds src"
  have "foldl (add_clips ?b) (replicate (length ?b) []) (tagged es []) = map (\<lambda>b. concat (map (clip b) (tagged es []))) ?b"
    by (subst add_all_clips) (auto intro: nth_equalityI)
  then show "spans src (Some es) =
    (if list_all readable es then Spans (map (\<lambda>b. concat (map (clip b) (tagged es []))) (line_bounds src)) else NoSpans)"
    by (simp add: spans_def Let_def spans_loop_clips assms)
  show "map (\<lambda>(s, e). take (e - s) (drop s src)) (line_bounds src) =
      map strip_cr (butlast (split_on LF src)) @ [last (split_on LF src)]"
    using lines_of_bounds [of 0 src] by (simp add: line_bounds_def newlines_def)
qed

theorem spans_exact_witness:
  "spans ''a'' (Some [Some (HighlightStart 0), Some (HighlightSource 0 1), Some HighlightEnd]) =
     Spans [[\<lparr>span_start = 0, span_stop = 1, span_token = TKeyword\<rparr>]]"
proof -
  let ?es = "[Some (HighlightStart 0), Some (HighlightSource 0 1), Some HighlightEnd]"
  have "list_all (within (length ''a'')) ?es" by code_simp
  note r = spans_exact [OF this]
  have "list_all readable ?es" "map (\<lambda>b. concat (map (clip b) (tagged ?es []))) (line_bounds ''a'') =
    [[\<lparr>span_start = 0, span_stop = 1, span_token = TKeyword\<rparr>]]" by code_simp+
  with r show ?thesis by simp
qed

end
