(* ===== verification/Themes.thy ===== *)
theory Themes
  imports Inline Process Syntax
begin

text \<open>
  Themes, \<open>crates/core/src/palette.rs\<close> and \<open>crates/core/src/theme.rs\<close>: colours, the palette of a \<open>colors.toml\<close>, the colours that are derived
  from it, the theme of a \<open>theme.toml\<close>, and the directories that are searched. The file system, the environment and the
  \<open>Debug\<close> form of a text, which rests on Unicode tables, are arguments. Mixing is single-precision arithmetic and is written
  out on integers: a number is held in units of 2^-40, and the result of an operation is rounded to 24 significant bits.
\<close>

section \<open>Colours\<close>

datatype rgb = Rgb nat nat nat

definition rgb_digit :: "char \<Rightarrow> nat option" where
  "rgb_digit c =
     (let n = byte_of c in
      if 48 \<le> n \<and> n \<le> 57 then Some (n - 48)
      else if 97 \<le> n \<and> n \<le> 102 then Some (n - 97 + 10)
      else if 65 \<le> n \<and> n \<le> 70 then Some (n - 65 + 10)
      else None)"

definition rgb_parse :: "str \<Rightarrow> rgb option" where
  "rgb_parse h =
     (if length h \<noteq> 7 \<or> hd h \<noteq> CHR ''#'' then None
      else case those (map rgb_digit (tl h)) of
        Some [a, b, c, d, e, f] \<Rightarrow> Some (Rgb (a * 16 + b) (c * 16 + d) (e * 16 + f))
      | _ \<Rightarrow> None)"

fun rgb_hex :: "rgb \<Rightarrow> str" where
  "rgb_hex (Rgb r g b) = ''#'' @ hex_byte (of_byte r) @ hex_byte (of_byte g) @ hex_byte (of_byte b)"

definition round_f32 :: "int \<Rightarrow> int" where
  "round_f32 n = sgn n * int (as_f32 (nat \<bar>n\<bar>))"

text \<open>\<open>(a + (b - a) * t).round() as u8\<close>, with \<open>t\<close> in units of 2^-26.\<close>

definition lerp :: "int \<Rightarrow> nat \<Rightarrow> nat \<Rightarrow> nat" where
  "lerp t a b =
     (let product = round_f32 ((int b - int a) * t * 2 ^ 14);
          s = round_f32 (int a * 2 ^ 40 + product);
          rounded = sgn s * ((\<bar>s\<bar> + 2 ^ 39) div 2 ^ 40) in
      nat (max 0 (min 255 rounded)))"

fun rgb_mix :: "int \<Rightarrow> rgb \<Rightarrow> rgb \<Rightarrow> rgb" where
  "rgb_mix t (Rgb r g b) (Rgb r' g' b') = Rgb (lerp t r r') (lerp t g g') (lerp t b b')"

text \<open>The singles nearest to 0.18 and 0.40.\<close>

definition F18 :: int where
  "F18 = 12079596"

definition F40 :: int where
  "F40 = 26843546"

section \<open>Palettes\<close>

datatype theme_mode = ModeDark | ModeLight

record palette =
  pal_mode :: theme_mode
  pal_accent :: rgb
  pal_selection :: rgb
  pal_muted :: rgb
  pal_background :: rgb
  pal_dark_background :: rgb
  pal_darker_background :: rgb
  pal_lighter_background :: rgb
  pal_foreground :: rgb
  pal_dark_foreground :: rgb
  pal_light_foreground :: rgb
  pal_bright_foreground :: rgb
  pal_red :: rgb
  pal_yellow :: rgb
  pal_orange :: rgb
  pal_green :: rgb
  pal_cyan :: rgb
  pal_blue :: rgb
  pal_magenta :: rgb
  pal_brown :: rgb
  pal_bright_red :: rgb
  pal_bright_yellow :: rgb
  pal_bright_green :: rgb
  pal_bright_cyan :: rgb
  pal_bright_blue :: rgb
  pal_bright_magenta :: rgb

definition PALETTE_KEYS :: "str list" where
  "PALETTE_KEYS =
    [''accent'', ''selection'', ''muted'', ''background'', ''dark_background'', ''darker_background'',
     ''lighter_background'', ''foreground'', ''dark_foreground'', ''light_foreground'', ''bright_foreground'', ''red'',
     ''yellow'', ''orange'', ''green'', ''cyan'', ''blue'', ''magenta'',
     ''brown'', ''bright_red'', ''bright_yellow'', ''bright_green'', ''bright_cyan'', ''bright_blue'',
     ''bright_magenta'']"

definition ALIASES :: "(str \<times> str) list" where
  "ALIASES =
    [(''bg'', ''background''), (''fg'', ''foreground''), (''dark_bg'', ''dark_background''), (''darker_bg'', ''darker_background''),
     (''lighter_bg'', ''lighter_background''), (''dark_fg'', ''dark_foreground''), (''light_fg'', ''light_foreground''),
     (''bright_fg'', ''bright_foreground'')]"

definition canonical_key :: "str \<Rightarrow> str option" where
  "canonical_key key =
     (case List.find (\<lambda>(alias, _). alias = key) ALIASES of
        Some (_, canonical) \<Rightarrow> Some canonical
      | None \<Rightarrow> List.find (\<lambda>candidate. candidate = key) PALETTE_KEYS)"

definition quoted :: "str \<Rightarrow> str" where
  "quoted rest =
     (let t = trim rest in
      case split_once ''\"'' t of
        Some (_, after) \<Rightarrow> (case split_once ''\"'' after of Some (inside, _) \<Rightarrow> inside | None \<Rightarrow> after)
      | None \<Rightarrow> t)"

record palette_state =
  ps_raw :: "str \<Rightarrow> str option"
  ps_mode :: "str option"

text \<open>The key and the value of a line.\<close>

definition palette_entry :: "str \<Rightarrow> (str \<times> str) option" where
  "palette_entry line =
     (let l = trim line in
      if l = [] \<or> starts_with ''#'' l then None
      else map_option (\<lambda>(key, rest). (trim key, quoted rest)) (split_once ''='' l))"

definition palette_step :: "palette_state \<Rightarrow> str \<Rightarrow> palette_state" where
  "palette_step st line =
     (case palette_entry line of
        None \<Rightarrow> st
      | Some (key, v) \<Rightarrow>
          if key = ''mode'' then st\<lparr>ps_mode := Some v\<rparr>
          else case canonical_key key of
            None \<Rightarrow> st
          | Some c \<Rightarrow> if c \<noteq> key \<and> ps_raw st c \<noteq> None then st else st\<lparr>ps_raw := (ps_raw st)(c \<mapsto> v)\<rparr>)"

definition palette_read :: "str \<Rightarrow> palette_state" where
  "palette_read t = foldl palette_step \<lparr>ps_raw = (\<lambda>_. None), ps_mode = None\<rparr> (str_lines t)"

definition missing_keys :: "palette_state \<Rightarrow> str list" where
  "missing_keys st = filter (\<lambda>k. ps_raw st k = None) PALETTE_KEYS"

definition bad_values :: "(str \<Rightarrow> str) \<Rightarrow> palette_state \<Rightarrow> str list" where
  "bad_values debug st =
     List.map_filter (\<lambda>k. case ps_raw st k of
         Some v \<Rightarrow> if rgb_parse v = None then Some (''bad value for '' @ k @ '': '' @ debug v) else None
       | None \<Rightarrow> None) PALETTE_KEYS"

definition palette_of :: "theme_mode \<Rightarrow> (str \<Rightarrow> rgb) \<Rightarrow> palette" where
  "palette_of m color =
     \<lparr>pal_mode = m,
      pal_accent = color ''accent'', pal_selection = color ''selection'', pal_muted = color ''muted'',
      pal_background = color ''background'', pal_dark_background = color ''dark_background'', pal_darker_background = color ''darker_background'',
      pal_lighter_background = color ''lighter_background'', pal_foreground = color ''foreground'', pal_dark_foreground = color ''dark_foreground'',
      pal_light_foreground = color ''light_foreground'', pal_bright_foreground = color ''bright_foreground'', pal_red = color ''red'',
      pal_yellow = color ''yellow'', pal_orange = color ''orange'', pal_green = color ''green'',
      pal_cyan = color ''cyan'', pal_blue = color ''blue'', pal_magenta = color ''magenta'',
      pal_brown = color ''brown'', pal_bright_red = color ''bright_red'', pal_bright_yellow = color ''bright_yellow'',
      pal_bright_green = color ''bright_green'', pal_bright_cyan = color ''bright_cyan'', pal_bright_blue = color ''bright_blue'',
      pal_bright_magenta = color ''bright_magenta''\<rparr>"

text \<open>A colour of the map; every key has one when nothing is missing or bad.\<close>

definition palette_color :: "palette_state \<Rightarrow> str \<Rightarrow> rgb" where
  "palette_color st k = (case Option.bind (ps_raw st k) rgb_parse of Some c \<Rightarrow> c | None \<Rightarrow> Rgb 0 0 0)"

definition palette_parse :: "(str \<Rightarrow> str) \<Rightarrow> str \<Rightarrow> str + palette" where
  "palette_parse debug t =
     (let st = palette_read t; missing = missing_keys st; wrong = bad_values debug st in
      if missing \<noteq> [] \<or> wrong \<noteq> []
      then Inl (join_with ''; '' ((if missing \<noteq> [] then [''missing: '' @ join_with '', '' missing] else []) @ wrong))
      else Inr (palette_of (if ps_mode st = Some ''light'' then ModeLight else ModeDark) (palette_color st)))"

record theme_system =
  ts_is_file :: "os_string \<Rightarrow> bool"
  ts_is_dir :: "os_string \<Rightarrow> bool"
  ts_read :: "os_string \<Rightarrow> str + str"
  ts_entries :: "os_string \<Rightarrow> os_string list option"
  ts_home :: "os_string option"
  ts_config_home :: "os_string option"
  ts_debug :: "str \<Rightarrow> str"

text \<open>\<open>Path::join\<close> with any path.\<close>

definition join_path :: "os_string \<Rightarrow> os_string \<Rightarrow> os_string" where
  "join_path dir p = (if is_absolute p then p else path_join dir p)"

definition read_text :: "theme_system \<Rightarrow> os_string \<Rightarrow> str + str" where
  "read_text sys p = map_errE (\<lambda>e. ''cannot read '' @ from_utf8_lossy p @ '': '' @ e) (ts_read sys p)"

definition palette_file :: "theme_system \<Rightarrow> os_string \<Rightarrow> os_string" where
  "palette_file sys p = (if ts_is_dir sys p then path_join p ''colors.toml'' else p)"

definition palette_load :: "theme_system \<Rightarrow> os_string \<Rightarrow> str + palette" where
  "palette_load sys p = bindE (read_text sys (palette_file sys p)) (palette_parse (ts_debug sys))"

section \<open>Skins\<close>

record skin_spec =
  sk_base :: rgb
  sk_surface :: rgb
  sk_raised :: rgb
  sk_text :: rgb
  sk_muted :: rgb
  sk_border :: rgb
  sk_accent :: rgb
  sk_added :: rgb
  sk_removed :: rgb
  sk_added_word :: rgb
  sk_removed_word :: rgb
  sk_selection :: rgb
  sk_warning :: rgb
  sk_positive :: rgb
  sk_negative :: rgb
  sk_function :: rgb
  sk_symbol :: rgb

text \<open>The fields by key: how each is read and written.\<close>

definition SKIN_SLOTS :: "(str \<times> (skin_spec \<Rightarrow> rgb) \<times> (rgb \<Rightarrow> skin_spec \<Rightarrow> skin_spec)) list" where
  "SKIN_SLOTS =
    [(''base'', sk_base, \<lambda>c s. s\<lparr>sk_base := c\<rparr>),
     (''surface'', sk_surface, \<lambda>c s. s\<lparr>sk_surface := c\<rparr>),
     (''raised'', sk_raised, \<lambda>c s. s\<lparr>sk_raised := c\<rparr>),
     (''text'', sk_text, \<lambda>c s. s\<lparr>sk_text := c\<rparr>),
     (''muted'', sk_muted, \<lambda>c s. s\<lparr>sk_muted := c\<rparr>),
     (''border'', sk_border, \<lambda>c s. s\<lparr>sk_border := c\<rparr>),
     (''accent'', sk_accent, \<lambda>c s. s\<lparr>sk_accent := c\<rparr>),
     (''added'', sk_added, \<lambda>c s. s\<lparr>sk_added := c\<rparr>),
     (''removed'', sk_removed, \<lambda>c s. s\<lparr>sk_removed := c\<rparr>),
     (''added_word'', sk_added_word, \<lambda>c s. s\<lparr>sk_added_word := c\<rparr>),
     (''removed_word'', sk_removed_word, \<lambda>c s. s\<lparr>sk_removed_word := c\<rparr>),
     (''selection'', sk_selection, \<lambda>c s. s\<lparr>sk_selection := c\<rparr>),
     (''warning'', sk_warning, \<lambda>c s. s\<lparr>sk_warning := c\<rparr>),
     (''positive'', sk_positive, \<lambda>c s. s\<lparr>sk_positive := c\<rparr>),
     (''negative'', sk_negative, \<lambda>c s. s\<lparr>sk_negative := c\<rparr>),
     (''function'', sk_function, \<lambda>c s. s\<lparr>sk_function := c\<rparr>),
     (''symbol'', sk_symbol, \<lambda>c s. s\<lparr>sk_symbol := c\<rparr>)]"

definition SKIN_KEYS :: "str list" where
  "SKIN_KEYS = map fst SKIN_SLOTS"

definition skin_put :: "str \<Rightarrow> rgb \<Rightarrow> skin_spec \<Rightarrow> skin_spec option" where
  "skin_put key c s = map_option (\<lambda>(_, write). write c s) (map_of SKIN_SLOTS key)"

definition skin_get :: "str \<Rightarrow> skin_spec \<Rightarrow> rgb option" where
  "skin_get key s = map_option (\<lambda>(read, _). read s) (map_of SKIN_SLOTS key)"

definition hex_rgb :: "nat \<Rightarrow> rgb" where
  "hex_rgb n = Rgb (n div 2 ^ 16 mod 256) (n div 2 ^ 8 mod 256) (n mod 256)"

definition skin_builtin :: "theme_mode \<Rightarrow> skin_spec" where
  "skin_builtin m =
     (case m of
        ModeDark \<Rightarrow>
       \<lparr>sk_base = hex_rgb 0x151820, sk_surface = hex_rgb 0x1b1f29, sk_raised = hex_rgb 0x262d3b, sk_text = hex_rgb 0xe8eaf0,
        sk_muted = hex_rgb 0x9ba5b5, sk_border = hex_rgb 0x303848, sk_accent = hex_rgb 0x88b4ff, sk_added = hex_rgb 0x18332a,
        sk_removed = hex_rgb 0x3c242a, sk_added_word = hex_rgb 0x28583c, sk_removed_word = hex_rgb 0x703845, sk_selection = hex_rgb 0x385678,
        sk_warning = hex_rgb 0xf0be72, sk_positive = hex_rgb 0x81c995, sk_negative = hex_rgb 0xf28b95, sk_function = hex_rgb 0xd2a8ff,
        sk_symbol = hex_rgb 0x6fd3c8\<rparr>
      | ModeLight \<Rightarrow>
       \<lparr>sk_base = hex_rgb 0xfafbfd, sk_surface = hex_rgb 0xf0f3f7, sk_raised = hex_rgb 0xe7edf4, sk_text = hex_rgb 0x1c2633,
        sk_muted = hex_rgb 0x5a687a, sk_border = hex_rgb 0xcdd7e3, sk_accent = hex_rgb 0x245fbb, sk_added = hex_rgb 0xe1f1e6,
        sk_removed = hex_rgb 0xfae7e8, sk_added_word = hex_rgb 0xbce0c9, sk_removed_word = hex_rgb 0xf2bfc5, sk_selection = hex_rgb 0xb6d5fa,
        sk_warning = hex_rgb 0x8c5809, sk_positive = hex_rgb 0x237a45, sk_negative = hex_rgb 0xc73745, sk_function = hex_rgb 0x6f42c1,
        sk_symbol = hex_rgb 0x0f766e\<rparr>)"

definition skin_from_palette :: "palette \<Rightarrow> skin_spec" where
  "skin_from_palette p =
     \<lparr>sk_base = pal_background p, sk_surface = pal_lighter_background p, sk_raised = pal_selection p, sk_text = pal_foreground p,
      sk_muted = pal_dark_foreground p, sk_border = pal_muted p, sk_accent = pal_accent p,
      sk_added = rgb_mix F18 (pal_background p) (pal_green p), sk_removed = rgb_mix F18 (pal_background p) (pal_red p),
      sk_added_word = rgb_mix F40 (pal_background p) (pal_green p), sk_removed_word = rgb_mix F40 (pal_background p) (pal_red p),
      sk_selection = pal_selection p, sk_warning = pal_yellow p, sk_positive = pal_green p, sk_negative = pal_red p,
      sk_function = pal_magenta p, sk_symbol = pal_cyan p\<rparr>"

definition skin_token :: "skin_spec \<Rightarrow> token \<Rightarrow> rgb" where
  "skin_token s t =
     (if t \<in> {TKeyword, TOperator} then sk_accent s
      else if t = TFunction then sk_function s
      else if t \<in> {TType, TNamespace, TAttribute, TLabel, TProperty} then sk_symbol s
      else if t = TString then sk_positive s
      else if t \<in> {TNumber, TConstant} then sk_warning s
      else if t \<in> {TComment, TPunctuation} then sk_muted s
      else sk_text s)"

section \<open>Themes\<close>

record theme =
  th_mode :: theme_mode
  th_palette :: "palette option"
  th_skin :: skin_spec
  th_syntax :: "token \<Rightarrow> rgb option"
  th_files :: "os_string list"
  th_warnings :: "str list"

definition theme_from_palette :: "palette \<Rightarrow> theme" where
  "theme_from_palette p =
     \<lparr>th_mode = pal_mode p, th_palette = Some p, th_skin = skin_from_palette p, th_syntax = (\<lambda>_. None), th_files = [], th_warnings = []\<rparr>"

definition theme_token :: "theme \<Rightarrow> token \<Rightarrow> rgb" where
  "theme_token th t = (case th_syntax th t of Some c \<Rightarrow> c | None \<Rightarrow> skin_token (th_skin th) t)"

record theme_lines =
  tl_section :: str
  tl_extends :: "str option"
  tl_mode :: "str option"
  tl_skin :: "(str \<times> str) list"
  tl_syntax :: "(str \<times> str) list"
  tl_warnings :: "str list"

definition theme_line :: "theme_lines \<Rightarrow> str \<Rightarrow> theme_lines" where
  "theme_line st line =
     (let l = trim line in
      if l = [] \<or> starts_with ''#'' l then st
      else case strip_prefix ''['' l of
        Some rest \<Rightarrow>
          (let section = trim (takeWhile (\<lambda>c. c \<noteq> CHR '']'') rest) in
           st\<lparr>tl_section := section,
             tl_warnings := tl_warnings st @ (if section \<notin> {''skin'', ''syntax''} then [''unknown section ['' @ section @ '']''] else [])\<rparr>)
      | None \<Rightarrow>
          (case split_once ''='' l of
             None \<Rightarrow> st
           | Some (k, rest) \<Rightarrow>
               (let key = trim k; v = quoted rest in
                if tl_section st = [] then
                  (if key = ''extends'' then st\<lparr>tl_extends := Some v\<rparr>
                   else if key = ''mode'' then st\<lparr>tl_mode := Some v\<rparr>
                   else st\<lparr>tl_warnings := tl_warnings st @ [''unknown key '' @ key]\<rparr>)
                else if tl_section st = ''skin'' then st\<lparr>tl_skin := tl_skin st @ [(key, v)]\<rparr>
                else if tl_section st = ''syntax'' then st\<lparr>tl_syntax := tl_syntax st @ [(key, v)]\<rparr>
                else st)))"

definition theme_lines_of :: "str \<Rightarrow> theme_lines" where
  "theme_lines_of t =
     foldl theme_line \<lparr>tl_section = [], tl_extends = None, tl_mode = None, tl_skin = [], tl_syntax = [], tl_warnings = []\<rparr> (str_lines t)"

text \<open>One entry of a section; the second component collects what cannot be read.\<close>

definition skin_entry :: "(str \<Rightarrow> str) \<Rightarrow> theme \<times> str list \<Rightarrow> str \<times> str \<Rightarrow> theme \<times> str list" where
  "skin_entry debug st kv =
     (case (st, kv) of ((th, wrong), key, v) \<Rightarrow>
        if key \<notin> set SKIN_KEYS then (th\<lparr>th_warnings := th_warnings th @ [''unknown key skin.'' @ key]\<rparr>, wrong)
        else case rgb_parse v of
          None \<Rightarrow> (th, wrong @ [''bad value for skin.'' @ key @ '': '' @ debug v])
        | Some c \<Rightarrow> (case skin_put key c (th_skin th) of Some s \<Rightarrow> (th\<lparr>th_skin := s\<rparr>, wrong) | None \<Rightarrow> (th, wrong)))"

definition syntax_entry :: "(str \<Rightarrow> str) \<Rightarrow> theme \<times> str list \<Rightarrow> str \<times> str \<Rightarrow> theme \<times> str list" where
  "syntax_entry debug st kv =
     (case (st, kv) of ((th, wrong), key, v) \<Rightarrow>
        (case List.find (\<lambda>t. token_name t = key) ALL_TOKENS of
           None \<Rightarrow> (th\<lparr>th_warnings := th_warnings th @ [''unknown key syntax.'' @ key]\<rparr>, wrong)
         | Some t \<Rightarrow>
             (case rgb_parse v of
                None \<Rightarrow> (th, wrong @ [''bad value for syntax.'' @ key @ '': '' @ debug v])
              | Some c \<Rightarrow> (th\<lparr>th_syntax := (th_syntax th)(t \<mapsto> c)\<rparr>, wrong))))"

definition theme_extends :: "theme_system \<Rightarrow> os_string \<Rightarrow> str option \<Rightarrow> str + palette option \<times> os_string list" where
  "theme_extends sys dir name =
     (case name of
        None \<Rightarrow> Inr (None, [])
      | Some n \<Rightarrow>
          (let p = join_path dir n in
           bindE (map_errE (\<lambda>e. ''extends: '' @ e) (palette_load sys p)) (\<lambda>pal. Inr (Some pal, [palette_file sys p]))))"

definition mode_of :: "(str \<Rightarrow> str) \<Rightarrow> str option \<Rightarrow> palette option \<Rightarrow> str + theme_mode" where
  "mode_of debug given pal =
     (case given of
        Some m \<Rightarrow> if m = ''dark'' then Inr ModeDark else if m = ''light'' then Inr ModeLight
                 else Inl (''bad value for mode: '' @ debug m)
      | None \<Rightarrow> Inr (case pal of None \<Rightarrow> ModeDark | Some p \<Rightarrow> pal_mode p))"

definition theme_start :: "theme_mode \<Rightarrow> palette option \<Rightarrow> os_string list \<Rightarrow> str list \<Rightarrow> theme" where
  "theme_start m pal fs warnings =
     \<lparr>th_mode = m, th_palette = pal, th_skin = (case pal of None \<Rightarrow> skin_builtin m | Some p \<Rightarrow> skin_from_palette p),
      th_syntax = (\<lambda>_. None), th_files = fs, th_warnings = warnings\<rparr>"

definition theme_parse :: "theme_system \<Rightarrow> str \<Rightarrow> os_string \<Rightarrow> str + theme" where
  "theme_parse sys t dir =
     (let st = theme_lines_of t in
      bindE (theme_extends sys dir (tl_extends st)) (\<lambda>(pal, fs).
      bindE (mode_of (ts_debug sys) (tl_mode st) pal) (\<lambda>m.
      (let skinned = foldl (skin_entry (ts_debug sys)) (theme_start m pal fs (tl_warnings st), []) (tl_skin st);
           (th, wrong) = foldl (syntax_entry (ts_debug sys)) skinned (tl_syntax st) in
       if wrong = [] then Inr th else Inl (join_with ''; '' wrong)))))"

definition theme_file :: "theme_system \<Rightarrow> os_string \<Rightarrow> os_string option" where
  "theme_file sys dir = List.find (ts_is_file sys) (map (path_join dir) [''theme.toml'', ''colors.toml''])"

text \<open>The last component of a path, and what is before it.\<close>

definition split_path :: "os_string \<Rightarrow> os_string \<times> os_string" where
  "split_path p = (case rsplit_once ''/'' p of Some (dir, name) \<Rightarrow> (if dir = [] then ''/'' else dir, name) | None \<Rightarrow> ([], p))"

definition theme_load :: "theme_system \<Rightarrow> os_string \<Rightarrow> str + theme" where
  "theme_load sys path =
     bindE (if ts_is_dir sys path then okE (''no theme in '' @ from_utf8_lossy path) (theme_file sys path) else Inr path) (\<lambda>file.
     bindE (read_text sys file) (\<lambda>t.
     bindE (if snd (split_path file) = ''theme.toml'' then theme_parse sys t (fst (split_path file))
            else bindE (palette_parse (ts_debug sys) t) (\<lambda>p. Inr (theme_from_palette p))) (\<lambda>th.
     Inr (th\<lparr>th_files := file # th_files th\<rparr>))))"

section \<open>Where themes are\<close>

record theme_entry =
  te_label :: str
  te_reference :: str
  te_path :: os_string

definition theme_dirs :: "theme_system \<Rightarrow> os_string list" where
  "theme_dirs sys =
     (case ts_config_home sys of
        Some xdg \<Rightarrow> [path_join (path_join xdg ''diffz'') ''themes'']
      | None \<Rightarrow> (case ts_home sys of
          Some home \<Rightarrow> [path_join (path_join (path_join home ''.config'') ''diffz'') ''themes''] | None \<Rightarrow> [])) @
     (case ts_home sys of Some home \<Rightarrow> [path_join (path_join (path_join home ''.config'') ''omarchy'') ''themes''] | None \<Rightarrow> []) @
     [''/usr/share/omarchy/themes'']"

definition omarchy_entry :: "theme_system \<Rightarrow> theme_entry option" where
  "omarchy_entry sys =
     Option.bind (ts_home sys) (\<lambda>home.
     map_option (\<lambda>p. \<lparr>te_label = ''Omarchy current theme'', te_reference = ''current'', te_path = p\<rparr>)
       (theme_file sys (path_join home ''.local/state/omarchy/current/theme'')))"

definition omarchy_list :: "theme_system \<Rightarrow> theme_entry list" where
  "omarchy_list sys = (case omarchy_entry sys of None \<Rightarrow> [] | Some e \<Rightarrow> [e])"

definition omarchy_resolve :: "theme_system \<Rightarrow> str \<Rightarrow> theme_entry option" where
  "omarchy_resolve sys reference =
     (if reference \<noteq> ''current'' \<and> reference \<noteq> ''omarchy'' then None
      else map_option (\<lambda>e. e\<lparr>te_reference := reference\<rparr>) (omarchy_entry sys))"

fun discover_dir :: "theme_system \<Rightarrow> os_string \<Rightarrow> os_string list \<Rightarrow> (str \<times> os_string) list \<Rightarrow> (str \<times> os_string) list" where
  "discover_dir sys dir [] out = out"
| "discover_dir sys dir (name # names) out =
     discover_dir sys dir names
       (case theme_file sys (path_join dir name) of
          Some file \<Rightarrow> if valid_utf8 name \<and> name \<notin> fst ` set out then out @ [(name, file)] else out
        | None \<Rightarrow> out)"

definition discover_in :: "theme_system \<Rightarrow> os_string list \<Rightarrow> (str \<times> os_string) list" where
  "discover_in sys dirs =
     sort_key fst (foldl (\<lambda>out dir. case ts_entries sys dir of Some names \<Rightarrow> discover_dir sys dir names out | None \<Rightarrow> out) [] dirs)"

definition directories_list :: "theme_system \<Rightarrow> os_string list \<Rightarrow> theme_entry list" where
  "directories_list sys dirs = map (\<lambda>(name, p). \<lparr>te_label = name, te_reference = name, te_path = p\<rparr>) (discover_in sys dirs)"

fun directories_resolve :: "theme_system \<Rightarrow> os_string list \<Rightarrow> str \<Rightarrow> theme_entry option" where
  "directories_resolve sys [] reference = None"
| "directories_resolve sys (dir # dirs) reference =
     (case theme_file sys (join_path dir reference) of
        Some p \<Rightarrow> Some \<lparr>te_label = reference, te_reference = reference, te_path = p\<rparr>
      | None \<Rightarrow> directories_resolve sys dirs reference)"

section \<open>Hexadecimal colours read back\<close>

lemma rgb_digit_lower:
  assumes "rgb_digit c = Some d"
  shows "d < 16 \<and> hex_lower d = ascii_lower c"
proof -
  have c: "of_byte (byte_of c :: nat) = c" by simp
  from assms consider (dec) "48 \<le> byte_of c" "byte_of c \<le> (57 :: nat)" "d = byte_of c - 48"
    | (low) "97 \<le> byte_of c" "byte_of c \<le> (102 :: nat)" "d = byte_of c - 97 + 10"
    | (up) "65 \<le> byte_of c" "byte_of c \<le> (70 :: nat)" "d = byte_of c - 65 + 10"
    by (auto simp: rgb_digit_def Let_def split: if_split_asm)
  then show ?thesis
  proof cases
    case dec
    then have "d < 10" "48 + d = byte_of c" "\<not> 65 \<le> (byte_of c :: nat)" by linarith+
    with c show ?thesis by (simp add: hex_lower_def ascii_lower_def)
  next
    case low
    then have "\<not> d < 10" "d < 16" "87 + d = byte_of c" "\<not> byte_of c \<le> (90 :: nat)" by linarith+
    with c show ?thesis by (simp add: hex_lower_def ascii_lower_def)
  next
    case up
    then have "\<not> d < 10" "d < 16" "87 + d = byte_of c + 32" "65 \<le> (byte_of c :: nat)" "byte_of c \<le> (90 :: nat)" by linarith+
    then show ?thesis by (simp add: hex_lower_def ascii_lower_def)
  qed
qed

lemma rgb_digit_hex: "d < 16 \<Longrightarrow> rgb_digit (hex_lower d) = Some d"
  by (simp add: rgb_digit_def hex_lower_def Let_def)

lemma hex_pair_byte: "a < 16 \<Longrightarrow> b < 16 \<Longrightarrow> hex_byte (of_byte (a * 16 + b)) = [hex_lower a, hex_lower b]"
  by (simp add: hex_byte_def)

lemma rgb_parse_digits:
  assumes "rgb_parse h = Some (Rgb r g b)"
  shows "\<exists>a c d e f k a' c' d' e' f' k'. h = [CHR ''#'', a, c, d, e, f, k] \<and>
    map rgb_digit [a, c, d, e, f, k] = map Some [a', c', d', e', f', k'] \<and>
    r = a' * 16 + c' \<and> g = d' * 16 + e' \<and> b = f' * 16 + k'"
proof -
  from assms obtain a' c' d' e' f' k' where h: "length h = 7" "hd h = CHR ''#''"
    and ds: "map rgb_digit (tl h) = map Some [a', c', d', e', f', k']"
    and rgb: "r = a' * 16 + c'" "g = d' * 16 + e'" "b = f' * 16 + k'"
    unfolding rgb_parse_def by (simp split: if_split_asm option.split_asm list.split_asm add: those_Some)
  obtain a c d e f k where t: "tl h = [a, c, d, e, f, k]" using ds by (auto simp: map_eq_Cons_conv)
  from h have "h = CHR ''#'' # tl h" by (cases h) auto
  with t ds rgb show ?thesis by metis
qed

text \<open>
  Colours round trip: what is printed reads back, and what was read prints as the same text in lower case; only
  seven characters are ever read, and every channel is a byte.
\<close>

theorem rgb_roundtrip:
  "(r < 256 \<and> g < 256 \<and> b < 256 \<longrightarrow> rgb_parse (rgb_hex (Rgb r g b)) = Some (Rgb r g b)) \<and>
   (rgb_parse h = Some (Rgb r g b) \<longrightarrow> rgb_hex (Rgb r g b) = to_ascii_lowercase h \<and> r < 256 \<and> g < 256 \<and> b < 256)"
proof (intro conjI impI)
  assume "r < 256 \<and> g < 256 \<and> b < 256"
  then have d: "r div 16 < 16" "r mod 16 < 16" "g div 16 < 16" "g mod 16 < 16" "b div 16 < 16" "b mod 16 < 16"
    and m: "r mod 256 = r" "g mod 256 = g" "b mod 256 = b" by auto
  show "rgb_parse (rgb_hex (Rgb r g b)) = Some (Rgb r g b)"
    using d by (simp add: rgb_parse_def hex_byte_def rgb_digit_hex m)
next
  assume "rgb_parse h = Some (Rgb r g b)"
  then obtain a c d e f k a' c' d' e' f' k' where h: "h = [CHR ''#'', a, c, d, e, f, k]"
    and v: "rgb_digit a = Some a'" "rgb_digit c = Some c'" "rgb_digit d = Some d'" "rgb_digit e = Some e'"
      "rgb_digit f = Some f'" "rgb_digit k = Some k'"
    and rgb: "r = a' * 16 + c'" "g = d' * 16 + e'" "b = f' * 16 + k'"
    using rgb_parse_digits by fastforce
  note l = v [THEN rgb_digit_lower]
  have "ascii_lower CHR ''#'' = CHR ''#''" by code_simp
  then show "rgb_hex (Rgb r g b) = to_ascii_lowercase h"
    using l by (simp add: h rgb hex_pair_byte to_ascii_lowercase_def)
  show "r < 256" "g < 256" "b < 256" using l by (simp_all add: rgb)
qed

section \<open>Which value a palette key has\<close>

definition entries_of :: "str \<Rightarrow> (str \<times> str) list" where
  "entries_of t = List.map_filter palette_entry (str_lines t)"

definition named :: "str \<Rightarrow> (str \<times> str) list \<Rightarrow> str list" where
  "named k es = map snd (filter (\<lambda>(key, _). key = k) es)"

definition aliased :: "str \<Rightarrow> (str \<times> str) list \<Rightarrow> str list" where
  "aliased k es = map snd (filter (\<lambda>(key, _). key \<noteq> k \<and> canonical_key key = Some k) es)"

definition settled :: "str \<Rightarrow> (str \<times> str) list \<Rightarrow> str option" where
  "settled k es =
     (if named k es \<noteq> [] then Some (last (named k es)) else if aliased k es \<noteq> [] then Some (hd (aliased k es)) else None)"

lemma key_facts:
  "list_all (\<lambda>k. canonical_key k = Some k \<and> k \<noteq> ''mode'') PALETTE_KEYS" "canonical_key ''mode'' = None" "distinct PALETTE_KEYS"
  by code_simp+

lemma key_canonical: "k \<in> set PALETTE_KEYS \<Longrightarrow> canonical_key k = Some k \<and> k \<noteq> ''mode''"
  using key_facts(1) by (simp add: list_all_iff)

lemma settled_snoc:
  assumes "k \<in> set PALETTE_KEYS"
  shows "settled k (es @ [(key, v)]) =
    (if key = k then Some v else if canonical_key key = Some k \<and> settled k es = None then Some v else settled k es)"
  by (simp add: settled_def named_def aliased_def)

lemma palette_read_settled:
  assumes k: "k \<in> set PALETTE_KEYS"
  shows "ps_raw (foldl palette_step \<lparr>ps_raw = (\<lambda>_. None), ps_mode = None\<rparr> ls) k = settled k (List.map_filter palette_entry ls)"
proof (induction ls rule: rev_induct)
  case Nil
  then show ?case by (simp add: settled_def named_def aliased_def map_filter_simps)
next
  case (snoc l ls)
  let ?st = "foldl palette_step \<lparr>ps_raw = (\<lambda>_. None), ps_mode = None\<rparr> ls"
  have app: "List.map_filter palette_entry (ls @ [l]) =
      List.map_filter palette_entry ls @ (case palette_entry l of None \<Rightarrow> [] | Some e \<Rightarrow> [e])"
    by (simp add: List.map_filter_def split: option.split)
  show ?case
  proof (cases "palette_entry l")
    case None
    with snoc show ?thesis unfolding app by (simp add: palette_step_def)
  next
    case (Some e)
    obtain key v where e: "e = (key, v)" by (cases e)
    note canon = key_canonical [OF k] key_facts(2)
    have "ps_raw (palette_step ?st l) k =
        (if key = k then Some v else if canonical_key key = Some k \<and> ps_raw ?st k = None then Some v else ps_raw ?st k)"
      using canon by (auto simp: palette_step_def Some e split: option.split)
    then show ?thesis unfolding app by (simp add: Some e settled_snoc [OF k] snoc)
  qed
qed

text \<open>
  A palette is accepted exactly when every one of the 25 keys has a colour, and then each colour is the one that was given: the
  last value under the key itself, or, when there is none, the first value under one of its aliases.
\<close>

definition key_color :: "str \<Rightarrow> str \<Rightarrow> rgb option" where
  "key_color t k = Option.bind (settled k (entries_of t)) rgb_parse"

lemma palette_accepts:
  "missing_keys st = [] \<and> bad_values debug st = [] \<longleftrightarrow> list_all (\<lambda>k. Option.bind (ps_raw st k) rgb_parse \<noteq> None) PALETTE_KEYS"
proof -
  have "bad_values debug st = [] \<longleftrightarrow> (\<forall>k \<in> set PALETTE_KEYS. \<forall>v. ps_raw st k = Some v \<longrightarrow> rgb_parse v \<noteq> None)"
    by (auto simp: bad_values_def filter_empty_conv List.map_filter_def split: option.splits)
  moreover have "missing_keys st = [] \<longleftrightarrow> (\<forall>k \<in> set PALETTE_KEYS. ps_raw st k \<noteq> None)"
    by (simp add: missing_keys_def filter_empty_conv)
  moreover have "Option.bind x rgb_parse \<noteq> None \<longleftrightarrow> x \<noteq> None \<and> (\<forall>v. x = Some v \<longrightarrow> rgb_parse v \<noteq> None)" for x
    by (cases x) auto
  ultimately show ?thesis unfolding list_all_iff by blast
qed

theorem palette_parse_complete:
  "palette_parse debug t =
     (if list_all (\<lambda>k. key_color t k \<noteq> None) PALETTE_KEYS
      then Inr (palette_of (if ps_mode (palette_read t) = Some ''light'' then ModeLight else ModeDark) (\<lambda>k. the (key_color t k)))
      else Inl (join_with ''; ''
        ((if missing_keys (palette_read t) \<noteq> [] then [''missing: '' @ join_with '', '' (missing_keys (palette_read t))] else []) @
         bad_values debug (palette_read t))))"
proof -
  have raw: "Option.bind (ps_raw (palette_read t) k) rgb_parse = key_color t k" if "k \<in> set PALETTE_KEYS" for k
    using palette_read_settled [OF that] by (simp add: palette_read_def key_color_def entries_of_def)
  then have acc: "missing_keys (palette_read t) = [] \<and> bad_values debug (palette_read t) = [] \<longleftrightarrow>
      list_all (\<lambda>k. key_color t k \<noteq> None) PALETTE_KEYS"
    unfolding palette_accepts by (simp add: list_all_iff)
  have same: "palette_of m (palette_color (palette_read t)) = palette_of m (\<lambda>k. the (key_color t k))"
    if "list_all (\<lambda>k. key_color t k \<noteq> None) PALETTE_KEYS" for m
  proof -
    have "palette_color (palette_read t) k = the (key_color t k)" if "k \<in> set PALETTE_KEYS" for k
      using raw [OF that] \<open>list_all _ _\<close> that by (auto simp: palette_color_def list_all_iff)
    then show ?thesis unfolding palette_of_def PALETTE_KEYS_def by simp
  qed
  show ?thesis
  proof (cases "list_all (\<lambda>k. key_color t k \<noteq> None) PALETTE_KEYS")
    case True
    with acc same show ?thesis by (simp add: palette_parse_def Let_def)
  next
    case False
    with acc show ?thesis by (auto simp: palette_parse_def Let_def)
  qed
qed

section \<open>Which colour a slot of a theme has\<close>

text \<open>A structure with a slot for each known key: writing a key changes that key alone.\<close>

locale color_slots =
  fixes known :: "str \<Rightarrow> bool"
    and get :: "str \<Rightarrow> 's \<Rightarrow> rgb option"
    and put :: "str \<Rightarrow> rgb \<Rightarrow> 's \<Rightarrow> 's"
  assumes get_put: "known k \<Longrightarrow> get k (put k c s) = Some c"
    and get_put_other: "known k \<Longrightarrow> k' \<noteq> k \<Longrightarrow> get k' (put k c s) = get k' s"
begin

definition fill :: "'s \<Rightarrow> str \<times> str \<Rightarrow> 's" where
  "fill s kv = (case kv of (k, v) \<Rightarrow> if known k then (case rgb_parse v of Some c \<Rightarrow> put k c s | None \<Rightarrow> s) else s)"

lemma get_fill:
  assumes "known k"
  shows "get k (foldl fill s es) = (let cs = List.map_filter rgb_parse (named k es) in if cs = [] then get k s else Some (last cs))"
proof (induction es rule: rev_induct)
  case Nil
  then show ?case by (simp add: named_def map_filter_simps)
next
  case (snoc e es)
  obtain key v where e: "e = (key, v)" by (cases e)
  have app: "List.map_filter rgb_parse (named k (es @ [e])) =
      List.map_filter rgb_parse (named k es) @ (if key = k then (case rgb_parse v of Some c \<Rightarrow> [c] | None \<Rightarrow> []) else [])"
    by (simp add: e named_def List.map_filter_def split: option.split)
  have "get k (foldl fill s (es @ [e])) =
      (if key = k then (case rgb_parse v of Some c \<Rightarrow> Some c | None \<Rightarrow> get k (foldl fill s es)) else get k (foldl fill s es))"
    using assms get_put get_put_other by (auto simp: e fill_def split: option.split)
  then show ?case unfolding app snoc by (auto simp: Let_def split: option.split)
qed

end

definition skin_set :: "str \<Rightarrow> rgb \<Rightarrow> skin_spec \<Rightarrow> skin_spec" where
  "skin_set k c s = (case skin_put k c s of Some s' \<Rightarrow> s' | None \<Rightarrow> s)"

definition token_get :: "str \<Rightarrow> (token \<Rightarrow> rgb option) \<Rightarrow> rgb option" where
  "token_get k s = Option.bind (List.find (\<lambda>t. token_name t = k) ALL_TOKENS) s"

definition token_set :: "str \<Rightarrow> rgb \<Rightarrow> (token \<Rightarrow> rgb option) \<Rightarrow> token \<Rightarrow> rgb option" where
  "token_set k c s = (case List.find (\<lambda>t. token_name t = k) ALL_TOKENS of Some t \<Rightarrow> s(t \<mapsto> c) | None \<Rightarrow> s)"

definition token_known :: "str \<Rightarrow> bool" where
  "token_known k \<longleftrightarrow> List.find (\<lambda>t. token_name t = k) ALL_TOKENS \<noteq> None"

lemma skin_slots_apart:
  "\<forall>e \<in> set SKIN_SLOTS. \<forall>e' \<in> set SKIN_SLOTS. fst (snd e') (snd (snd e) c s) = (if fst e' = fst e then c else fst (snd e') s)"
  for c s
  by (simp add: SKIN_SLOTS_def)

lemma skin_slots_distinct: "distinct (map fst SKIN_SLOTS)"
  by (simp add: SKIN_SLOTS_def)

lemma skin_slot_of:
  assumes "k \<in> set SKIN_KEYS"
  obtains rd wr where "map_of SKIN_SLOTS k = Some (rd, wr)" "(k, rd, wr) \<in> set SKIN_SLOTS"
proof -
  from assms have "map_of SKIN_SLOTS k \<noteq> None" by (simp add: SKIN_KEYS_def map_of_eq_None_iff)
  then obtain e where e: "map_of SKIN_SLOTS k = Some e" by blast
  obtain rd wr where "e = (rd, wr)" by (cases e)
  with e show ?thesis using that [of rd wr] map_of_SomeD [of SKIN_SLOTS k "(rd, wr)"] by simp
qed

interpretation skin_slots: color_slots "\<lambda>k. k \<in> set SKIN_KEYS" skin_get skin_set
proof
  fix k k' c s
  assume "k \<in> set SKIN_KEYS"
  then obtain rd wr where w: "map_of SKIN_SLOTS k = Some (rd, wr)" and in_k: "(k, rd, wr) \<in> set SKIN_SLOTS"
    by (rule skin_slot_of)
  then have eq: "skin_set k c s = wr c s" by (simp add: skin_set_def skin_put_def)
  show "skin_get k (skin_set k c s) = Some c"
    using bspec [OF bspec [OF skin_slots_apart in_k] in_k, of c s] w by (simp add: skin_get_def eq)
  assume "k' \<noteq> k"
  then show "skin_get k' (skin_set k c s) = skin_get k' s"
    using bspec [OF skin_slots_apart in_k, of c s]
    by (cases "map_of SKIN_SLOTS k'") (auto simp: skin_get_def eq dest!: map_of_SomeD)
qed

lemma token_name_inj: "token_name t = token_name t' \<Longrightarrow> t = t'"
  by (cases t; cases t'; simp)

lemma find_token: "List.find (\<lambda>t. token_name t = k) ALL_TOKENS = Some t \<Longrightarrow> token_name t = k"
  by (auto simp: find_Some_iff)

interpretation token_slots: color_slots token_known token_get token_set
proof
  fix k k' c s
  assume "token_known k"
  then obtain t where t: "List.find (\<lambda>t. token_name t = k) ALL_TOKENS = Some t" by (auto simp: token_known_def)
  then show "token_get k (token_set k c s) = Some c" by (simp add: token_get_def token_set_def)
  assume "k' \<noteq> k"
  then show "token_get k' (token_set k c s) = token_get k' s"
    using t find_token [OF t]
    by (cases "List.find (\<lambda>t. token_name t = k') ALL_TOKENS") (auto simp: token_get_def token_set_def dest: find_token)
qed

definition entry_bad :: "(str \<Rightarrow> bool) \<Rightarrow> str \<times> str \<Rightarrow> bool" where
  "entry_bad known kv \<longleftrightarrow> known (fst kv) \<and> rgb_parse (snd kv) = None"

lemma skin_known: "k \<in> set SKIN_KEYS \<Longrightarrow> skin_put k c s = Some (skin_set k c s)"
  by (erule skin_slot_of [of k]) (simp add: skin_put_def skin_set_def)

lemma skin_entry_step:
  "th_skin (fst (skin_entry debug st e)) = skin_slots.fill (th_skin (fst st)) e"
  "th_syntax (fst (skin_entry debug st e)) = th_syntax (fst st)"
  "snd (skin_entry debug st e) = [] \<longleftrightarrow> snd st = [] \<and> \<not> entry_bad (\<lambda>k. k \<in> set SKIN_KEYS) e"
  by (simp_all add: skin_entry_def skin_slots.fill_def entry_bad_def skin_known split: option.split prod.split)

lemma skin_entries:
  "th_skin (fst (foldl (skin_entry debug) st es)) = foldl skin_slots.fill (th_skin (fst st)) es \<and>
   th_syntax (fst (foldl (skin_entry debug) st es)) = th_syntax (fst st) \<and>
   (snd (foldl (skin_entry debug) st es) = [] \<longleftrightarrow> snd st = [] \<and> \<not> list_ex (entry_bad (\<lambda>k. k \<in> set SKIN_KEYS)) es)"
  by (induction es arbitrary: st) (auto simp: skin_entry_step)

lemma syntax_entry_step:
  "th_syntax (fst (syntax_entry debug st e)) = token_slots.fill (th_syntax (fst st)) e"
  "th_skin (fst (syntax_entry debug st e)) = th_skin (fst st)"
  "snd (syntax_entry debug st e) = [] \<longleftrightarrow> snd st = [] \<and> \<not> entry_bad token_known e"
  by (simp_all add: syntax_entry_def token_slots.fill_def entry_bad_def token_known_def token_set_def split: option.split prod.split)

lemma syntax_entries:
  "th_syntax (fst (foldl (syntax_entry debug) st es)) = foldl token_slots.fill (th_syntax (fst st)) es \<and>
   th_skin (fst (foldl (syntax_entry debug) st es)) = th_skin (fst st) \<and>
   (snd (foldl (syntax_entry debug) st es) = [] \<longleftrightarrow> snd st = [] \<and> \<not> list_ex (entry_bad token_known) es)"
  by (induction es arbitrary: st) (auto simp: syntax_entry_step)

text \<open>
  A theme that loads has no value that is not a colour under a known key, and every colour is the one that was given
  last: of a slot of the skin, or else that of the palette it extends or of the built-in skin of its mode; of a kind of
  token, or else that of the skin.
\<close>

definition given_color :: "str \<Rightarrow> (str \<times> str) list \<Rightarrow> rgb option" where
  "given_color k es = (let cs = List.map_filter rgb_parse (named k es) in if cs = [] then None else Some (last cs))"

theorem theme_parse_colors:
  assumes "theme_parse sys t dir = Inr th"
  shows "\<exists>pal fs m. theme_extends sys dir (tl_extends (theme_lines_of t)) = Inr (pal, fs) \<and>
    mode_of (ts_debug sys) (tl_mode (theme_lines_of t)) pal = Inr m \<and>
    \<not> list_ex (entry_bad (\<lambda>k. k \<in> set SKIN_KEYS)) (tl_skin (theme_lines_of t)) \<and>
    \<not> list_ex (entry_bad token_known) (tl_syntax (theme_lines_of t)) \<and>
    (\<forall>k \<in> set SKIN_KEYS. skin_get k (th_skin th) =
       (case given_color k (tl_skin (theme_lines_of t)) of
          Some c \<Rightarrow> Some c
        | None \<Rightarrow> skin_get k (case pal of None \<Rightarrow> skin_builtin m | Some p \<Rightarrow> skin_from_palette p))) \<and>
    (\<forall>tk. theme_token th tk =
       (case given_color (token_name tk) (tl_syntax (theme_lines_of t)) of Some c \<Rightarrow> c | None \<Rightarrow> skin_token (th_skin th) tk))"
proof -
  define st where "st = theme_lines_of t"
  from assms obtain pal fs m where e: "theme_extends sys dir (tl_extends st) = Inr (pal, fs)" "mode_of (ts_debug sys) (tl_mode st) pal = Inr m"
    and th: "(let skinned = foldl (skin_entry (ts_debug sys)) (theme_start m pal fs (tl_warnings st), []) (tl_skin st);
           (th, wrong) = foldl (syntax_entry (ts_debug sys)) skinned (tl_syntax st) in
       if wrong = [] then Inr th else Inl (join_with ''; '' wrong)) = Inr th"
    unfolding theme_parse_def st_def [symmetric] Let_def by (auto simp: bindE_eq_Inr)
  define skinned where "skinned = foldl (skin_entry (ts_debug sys)) (theme_start m pal fs (tl_warnings st), []) (tl_skin st)"
  have all: "th = fst (foldl (syntax_entry (ts_debug sys)) skinned (tl_syntax st))"
    "snd (foldl (syntax_entry (ts_debug sys)) skinned (tl_syntax st)) = []"
    using th unfolding skinned_def [symmetric] Let_def by (auto split: prod.splits if_splits)
  note sk = skin_entries [of "ts_debug sys" "(theme_start m pal fs (tl_warnings st), [])" "tl_skin st", folded skinned_def]
  note sy = syntax_entries [of "ts_debug sys" skinned "tl_syntax st", folded all(1), unfolded all(2)]
  have base: "th_skin (theme_start m pal fs w) = (case pal of None \<Rightarrow> skin_builtin m | Some p \<Rightarrow> skin_from_palette p)"
    "th_syntax (theme_start m pal fs w) = (\<lambda>_. None)" for w by (simp_all add: theme_start_def)
  have good: "\<not> list_ex (entry_bad (\<lambda>k. k \<in> set SKIN_KEYS)) (tl_skin st)" "\<not> list_ex (entry_bad token_known) (tl_syntax st)"
    using sk sy by auto
  have skin: "th_skin th = foldl skin_slots.fill (case pal of None \<Rightarrow> skin_builtin m | Some p \<Rightarrow> skin_from_palette p) (tl_skin st)"
    and syn: "th_syntax th = foldl token_slots.fill (\<lambda>_. None) (tl_syntax st)" using sk sy base by auto
  have "skin_get k (th_skin th) =
      (case given_color k (tl_skin st) of Some c \<Rightarrow> Some c
       | None \<Rightarrow> skin_get k (case pal of None \<Rightarrow> skin_builtin m | Some p \<Rightarrow> skin_from_palette p))" if "k \<in> set SKIN_KEYS" for k
    using skin_slots.get_fill [OF that] by (simp add: skin given_color_def Let_def)
  moreover have "theme_token th tk =
      (case given_color (token_name tk) (tl_syntax st) of Some c \<Rightarrow> c | None \<Rightarrow> skin_token (th_skin th) tk)" for tk
  proof -
    have f: "List.find (\<lambda>t. token_name t = token_name tk) ALL_TOKENS = Some tk" by (cases tk) (simp_all add: ALL_TOKENS_def)
    have "token_get (token_name tk) (th_syntax th) = given_color (token_name tk) (tl_syntax st)"
      using token_slots.get_fill [of "token_name tk" "\<lambda>_. None" "tl_syntax st"] f
      by (simp add: syn token_known_def token_get_def given_color_def Let_def)
    then show ?thesis by (simp add: theme_token_def token_get_def f)
  qed
  ultimately show ?thesis using e good unfolding st_def by blast
qed

end
