(* ===== verification/Components.thy ===== *)
theory Components
  imports Annotation
begin

text \<open>
  Extension components, \<open>crates/core/src/component.rs\<close>: the count of running calls with the thread that advances the epoch while
  there is one, the review that a component is given and the annotations it returns. The WebAssembly run-time is a library: what it
  reports for a component is an argument. The thread waits on a condition variable, which may also wake without a notification; every
  interleaving of its turns with those of the callers is a list of acts.
\<close>

section \<open>Calls in flight and the epoch\<close>

text \<open>A call between its increment and its notification is counted; it is running until its guard is dropped.\<close>

datatype call_phase = CallIdle | CallCounted | CallRunning

datatype ticker = TickerTest | TickerParked | TickerAsleep

record calls =
  running :: nat
  call_phase_of :: "nat \<Rightarrow> call_phase"
  ticker_of :: ticker
  epoch :: nat

datatype calls_act = CallCount nat | CallNotify nat | CallDrop nat | TickerTurn | TickerWakes

definition calls_new :: calls where
  "calls_new = \<lparr>running = 0, call_phase_of = (\<lambda>_. CallIdle), ticker_of = TickerTest, epoch = 0\<rparr>"

text \<open>
  \<open>None\<close> is an act that cannot happen: a step out of the order of the code, a turn of the thread while it is parked, or the
  decrement of a count that is zero, which panics.
\<close>

fun calls_step :: "calls_act \<Rightarrow> calls \<Rightarrow> calls option" where
  "calls_step (CallCount c) s =
     (if call_phase_of s c = CallIdle then Some (s\<lparr>running := running s + 1, call_phase_of := (call_phase_of s)(c := CallCounted)\<rparr>) else None)"
| "calls_step (CallNotify c) s =
     (if call_phase_of s c = CallCounted
      then Some (s\<lparr>call_phase_of := (call_phase_of s)(c := CallRunning), ticker_of := (if ticker_of s = TickerParked then TickerTest else ticker_of s)\<rparr>)
      else None)"
| "calls_step (CallDrop c) s =
     (if call_phase_of s c = CallRunning \<and> running s > 0
      then Some (s\<lparr>running := running s - 1, call_phase_of := (call_phase_of s)(c := CallIdle)\<rparr>) else None)"
| "calls_step TickerTurn s =
     (case ticker_of s of
        TickerTest \<Rightarrow> Some (s\<lparr>ticker_of := (if running s = 0 then TickerParked else TickerAsleep)\<rparr>)
      | TickerAsleep \<Rightarrow> Some (s\<lparr>ticker_of := TickerTest, epoch := epoch s + 1\<rparr>)
      | TickerParked \<Rightarrow> None)"
| "calls_step TickerWakes s = (if ticker_of s = TickerParked then Some (s\<lparr>ticker_of := TickerTest\<rparr>) else None)"

fun calls_run :: "calls_act list \<Rightarrow> calls \<Rightarrow> calls option" where
  "calls_run [] s = Some s"
| "calls_run (a # as) s = Option.bind (calls_step a s) (calls_run as)"

inductive calls_reachable :: "calls \<Rightarrow> bool" where
  calls_init: "calls_reachable calls_new"
| calls_next: "calls_reachable s \<Longrightarrow> calls_step a s = Some s' \<Longrightarrow> calls_reachable s'"

definition open_calls :: "calls \<Rightarrow> nat set" where
  "open_calls s = {c. call_phase_of s c \<noteq> CallIdle}"

text \<open>The count is that of the open calls, and the thread is parked only while no call has been announced.\<close>

definition calls_ok :: "calls \<Rightarrow> bool" where
  "calls_ok s \<longleftrightarrow> finite (open_calls s) \<and> running s = card (open_calls s) \<and>
     (ticker_of s = TickerParked \<longrightarrow> (\<forall>c. call_phase_of s c \<noteq> CallRunning))"

lemma running_call:
  assumes "calls_ok s" "call_phase_of s c = CallRunning"
  shows "running s > 0" "ticker_of s \<noteq> TickerParked"
proof -
  have "c \<in> open_calls s" using assms(2) by (simp add: open_calls_def)
  with assms(1) show "running s > 0" by (auto simp: calls_ok_def card_gt_0_iff)
  from assms show "ticker_of s \<noteq> TickerParked" by (auto simp: calls_ok_def)
qed

lemma calls_step_ok:
  assumes ok: "calls_ok s" and step: "calls_step a s = Some s'"
  shows "calls_ok s'"
proof (cases a)
  case (CallCount c)
  with step have "s' = s\<lparr>running := running s + 1, call_phase_of := (call_phase_of s)(c := CallCounted)\<rparr>" "c \<notin> open_calls s"
    by (auto simp: open_calls_def split: if_splits)
  moreover then have "open_calls s' = insert c (open_calls s)" by (auto simp: open_calls_def)
  ultimately show ?thesis using ok by (auto simp: calls_ok_def)
next
  case (CallNotify c)
  with step have s': "s' = s\<lparr>call_phase_of := (call_phase_of s)(c := CallRunning), ticker_of := (if ticker_of s = TickerParked then TickerTest else ticker_of s)\<rparr>"
    and c: "call_phase_of s c = CallCounted" by (auto split: if_splits)
  then have "open_calls s' = open_calls s" by (auto simp: open_calls_def)
  then show ?thesis using ok by (simp add: calls_ok_def s')
next
  case (CallDrop c)
  with step have s': "s' = s\<lparr>running := running s - 1, call_phase_of := (call_phase_of s)(c := CallIdle)\<rparr>"
    and c: "c \<in> open_calls s" by (auto simp: open_calls_def split: if_splits)
  then have "open_calls s' = open_calls s - {c}" by (auto simp: open_calls_def)
  then show ?thesis using ok c by (auto simp: calls_ok_def s')
next
  case TickerTurn
  show ?thesis
  proof (cases "ticker_of s = TickerTest \<and> running s = 0")
    case True
    with step TickerTurn have s': "s' = s\<lparr>ticker_of := TickerParked\<rparr>" by simp
    with True ok have "call_phase_of s c = CallIdle" for c by (auto simp: calls_ok_def open_calls_def)
    then show ?thesis using ok by (simp add: calls_ok_def s' open_calls_def)
  next
    case False
    with step TickerTurn ok show ?thesis by (auto simp: calls_ok_def open_calls_def split: ticker.splits if_splits)
  qed
next
  case TickerWakes
  with step ok show ?thesis by (auto simp: calls_ok_def open_calls_def split: if_splits)
qed

lemma calls_reachable_ok: "calls_reachable s \<Longrightarrow> calls_ok s"
proof (induction rule: calls_reachable.induct)
  case calls_init
  then show ?case by (simp add: calls_ok_def calls_new_def open_calls_def)
qed (rule calls_step_ok)

text \<open>
  Every interleaving of the calls and the thread keeps the count equal to the number of calls whose guard is alive, so no decrement ever
  panics, and the thread is never parked while a call is running.
\<close>

theorem calls_never_lost:
  assumes "calls_reachable s"
  shows "running s = card (open_calls s) \<and> finite (open_calls s) \<and>
    (\<forall>c. call_phase_of s c = CallRunning \<longrightarrow> calls_step (CallDrop c) s \<noteq> None \<and> calls_step TickerTurn s \<noteq> None)"
proof -
  have ok: "calls_ok s" by (rule calls_reachable_ok [OF assms])
  have "calls_step (CallDrop c) s \<noteq> None \<and> calls_step TickerTurn s \<noteq> None" if "call_phase_of s c = CallRunning" for c
    using running_call [OF ok that] that by (auto split: ticker.split)
  with ok show ?thesis by (simp add: calls_ok_def)
qed

section \<open>A running call meets its deadline\<close>

text \<open>How many turns the thread has until the epoch has advanced \<open>d\<close> times.\<close>

definition turns_left :: "nat \<Rightarrow> calls \<Rightarrow> nat" where
  "turns_left d s = 2 * d - (if ticker_of s = TickerAsleep then 1 else 0)"

lemma epoch_advances:
  assumes "calls_ok s" "call_phase_of s c = CallRunning" "CallDrop c \<notin> set as" "calls_run as s = Some s'"
    "turns_left d s \<le> count_list as TickerTurn"
  shows "epoch s + d \<le> epoch s'"
  using assms
proof (induction as arbitrary: s d)
  case Nil
  then show ?case by (auto simp: turns_left_def split: if_splits)
next
  case (Cons a as)
  from Cons.prems(4) obtain s1 where s1: "calls_step a s = Some s1" "calls_run as s1 = Some s'" by (auto simp: bind_eq_Some_conv)
  have ok: "calls_ok s1" by (rule calls_step_ok [OF Cons.prems(1) s1(1)])
  have c: "call_phase_of s1 c = CallRunning"
    using s1(1) Cons.prems(2,3) by (cases a) (auto split: if_splits ticker.splits)
  have np: "ticker_of s \<noteq> TickerParked" using Cons.prems(1,2) by (auto simp: calls_ok_def)
  note ih = Cons.IH [OF ok c _ s1(2)]
  show ?case
  proof (cases a)
    case TickerTurn
    have run: "running s \<noteq> 0" using running_call [OF Cons.prems(1,2)] by simp
    show ?thesis
    proof (cases "ticker_of s")
      case TickerTest
      with s1 TickerTurn run have e: "epoch s1 = epoch s" "ticker_of s1 = TickerAsleep" by auto
      have "turns_left d s1 \<le> count_list as TickerTurn"
        using Cons.prems(5) TickerTurn TickerTest e by (simp add: turns_left_def)
      with ih Cons.prems(3) e show ?thesis by simp
    next
      case TickerAsleep
      with s1 TickerTurn have e: "epoch s1 = epoch s + 1" "ticker_of s1 = TickerTest" by auto
      show ?thesis
      proof (cases d)
        case 0
        have "turns_left 0 s1 \<le> count_list as TickerTurn" by (simp add: turns_left_def)
        with ih Cons.prems(3) e 0 show ?thesis by force
      next
        case (Suc d')
        have "turns_left d' s1 \<le> count_list as TickerTurn"
          using Cons.prems(5) TickerTurn TickerAsleep e Suc by (simp add: turns_left_def)
        with ih Cons.prems(3) e Suc show ?thesis by force
      qed
    next
      case TickerParked
      with np show ?thesis by simp
    qed
  qed (use s1(1) np Cons.prems(3,5) ih in \<open>auto simp: turns_left_def split: if_splits\<close>)
qed



text \<open>An idle process is left alone: without a call the thread parks after one tick at most.\<close>

lemma idle_epoch:
  assumes "running s = 0" "\<And>c. CallCount c \<notin> set as" "calls_ok s" "calls_run as s = Some s'"
  shows "epoch s' \<le> epoch s + (if ticker_of s = TickerAsleep then 1 else 0)"
  using assms
proof (induction as arbitrary: s)
  case (Cons a as)
  then obtain s1 where s1: "calls_step a s = Some s1" "calls_run as s1 = Some s'" by (auto simp: bind_eq_Some_conv)
  have idle: "call_phase_of s c = CallIdle" for c using Cons.prems(1,3) by (auto simp: calls_ok_def open_calls_def)
  have "running s1 = 0" using s1(1) Cons.prems(1) Cons.prems(2) idle by (cases a) (auto split: if_splits ticker.splits)
  moreover have "epoch s1 + (if ticker_of s1 = TickerAsleep then 1 else 0) \<le> epoch s + (if ticker_of s = TickerAsleep then 1 else 0)"
    using s1(1) Cons.prems(1,2) idle by (cases a) (auto split: if_splits ticker.splits)
  moreover have "CallCount c \<notin> set as" for c using Cons.prems(2) [of c] by simp
  ultimately show ?case using Cons.IH [of s1] s1(2) calls_step_ok [OF Cons.prems(3) s1(1)] by fastforce
qed simp

section \<open>What a component is given and what it returns\<close>

datatype wit_side = WitOld | WitNew

datatype wit_severity = WitNote | WitInfo | WitWarning | WitError

datatype wit_row_kind = WitContext | WitRowAdded | WitRowRemoved

datatype wit_status = WitAdded | WitDeleted | WitModified | WitRenamed | WitCopied

record wit_row =
  wr_kind :: wit_row_kind
  wr_old_line :: "nat option"
  wr_new_line :: "nat option"
  wr_text :: str

record wit_hunk =
  wh_old_start :: nat
  wh_old_count :: nat
  wh_new_start :: nat
  wh_new_count :: nat
  wh_rows :: "wit_row list"

record wit_file =
  wf_path :: str
  wf_old_path :: "str option"
  wf_status :: wit_status
  wf_hunks :: "wit_hunk list"

record wit_review =
  wv_title :: str
  wv_files :: "wit_file list"

datatype wit_anchor = WitFile str | WitLines str wit_side nat nat

record wit_annotation =
  wa_anchor :: wit_anchor
  wa_severity :: wit_severity
  wa_title :: str
  wa_body :: "str option"

definition wit_row_of :: "patch_row \<Rightarrow> wit_row" where
  "wit_row_of r =
     \<lparr>wr_kind = (case row_kind r of RContext \<Rightarrow> WitContext | RAdded \<Rightarrow> WitRowAdded | RRemoved \<Rightarrow> WitRowRemoved),
      wr_old_line = old_line r, wr_new_line = new_line r, wr_text = row_text r\<rparr>"

definition wit_hunk_of :: "hunk \<Rightarrow> wit_hunk" where
  "wit_hunk_of h =
     \<lparr>wh_old_start = old_start h, wh_old_count = old_count h, wh_new_start = new_start h, wh_new_count = new_count h,
      wh_rows = map wit_row_of (rows h)\<rparr>"

definition wit_status_of :: "change_kind \<Rightarrow> wit_status" where
  "wit_status_of k =
     (case k of KAdded \<Rightarrow> WitAdded | KDeleted \<Rightarrow> WitDeleted | KModified \<Rightarrow> WitModified | KRenamed \<Rightarrow> WitRenamed | KCopied \<Rightarrow> WitCopied)"

text \<open>\<open>None\<close>: a file without a path, on which \<open>display_path\<close> panics.\<close>

definition wit_file_of :: "file_change \<Rightarrow> wit_file option" where
  "wit_file_of f =
     map_option (\<lambda>path. \<lparr>wf_path = path, wf_old_path = Option.bind (old_path f) (\<lambda>p. ok_of (path_utf8 p)),
       wf_status = wit_status_of (fc_kind f), wf_hunks = map wit_hunk_of (hunks f)\<rparr>) (display_path f)"

definition component_review :: "snapshot \<Rightarrow> wit_review option" where
  "component_review s =
     map_option (\<lambda>fs. \<lparr>wv_title = snap_title s, wv_files = fs\<rparr>) (those (map wit_file_of (files (snap_patch s))))"

definition side_of_wit :: "wit_side \<Rightarrow> side" where
  "side_of_wit s = (case s of WitOld \<Rightarrow> SideLeft | WitNew \<Rightarrow> SideRight)"

definition anchor_of_wit :: "wit_anchor \<Rightarrow> anchor" where
  "anchor_of_wit a =
     (case a of WitFile path \<Rightarrow> AnchorFile path | WitLines path s start stop \<Rightarrow> AnchorLines path (side_of_wit s) start stop)"

definition severity_of_wit :: "wit_severity \<Rightarrow> severity" where
  "severity_of_wit s = (case s of WitNote \<Rightarrow> SevNote | WitInfo \<Rightarrow> SevInfo | WitWarning \<Rightarrow> SevWarning | WitError \<Rightarrow> SevError)"

definition annotation_of_wit :: "str \<Rightarrow> wit_annotation \<Rightarrow> annotation" where
  "annotation_of_wit source a =
     \<lparr>ann_anchor = anchor_of_wit (wa_anchor a), ann_severity = severity_of_wit (wa_severity a), ann_title = wa_title a,
      ann_body = wa_body a, ann_source = source\<rparr>"

section \<open>A call of a component\<close>

definition TICK :: nat where
  "TICK = 10"

record limits =
  limit_time :: nat
  limit_memory :: nat

definition call_limits :: limits where
  "call_limits = \<lparr>limit_time = 2000, limit_memory = 64 * 2 ^ 20\<rparr>"

definition deadline_ticks :: "limits \<Rightarrow> nat" where
  "deadline_ticks l = max 1 (limit_time l div TICK)"

text \<open>What the run-time reports: that the epoch interrupted the call, another failure, or what the component returned.\<close>

datatype call_report = CallInterrupted | CallFailed str | CallReturned "str + wit_annotation list"

record code_annotator =
  ca_id :: str
  ca_limits :: limits
  ca_compile :: "str + unit"
  ca_start :: "str + unit"
  ca_call :: "wit_review \<Rightarrow> call_report"

definition code_annotate :: "code_annotator \<Rightarrow> bool \<Rightarrow> snapshot \<Rightarrow> annotate_error + annotation list" where
  "code_annotate ca cancelled s =
     (case ca_compile ca of
        Inl e \<Rightarrow> Inl (AnnotateMessage e)
      | Inr _ \<Rightarrow>
          if cancelled then Inl (AnnotateMessage ''cancelled'')
          else case ca_start ca of
            Inl e \<Rightarrow> Inl (AnnotateMessage (''cannot start: '' @ e))
          | Inr _ \<Rightarrow>
              (case component_review s of
                 None \<Rightarrow> Inl PathPanic
               | Some v \<Rightarrow>
                   (case ca_call ca v of
                      CallInterrupted \<Rightarrow> Inl (AnnotateMessage (''stopped after '' @ show_nat (limit_time (ca_limits ca)) @ '' ms''))
                    | CallFailed e \<Rightarrow> Inl (AnnotateMessage e)
                    | CallReturned (Inl e) \<Rightarrow> Inl (AnnotateMessage e)
                    | CallReturned (Inr found) \<Rightarrow> Inr (map (annotation_of_wit (ca_id ca)) found))))"

text \<open>
  A component sees the whole patch: the rows of the review it is given read back as the rows of the snapshot, in order and under the
  path of their file.
\<close>

definition row_of_wit :: "wit_row \<Rightarrow> row_kind \<times> nat option \<times> nat option \<times> str" where
  "row_of_wit r =
     ((case wr_kind r of WitContext \<Rightarrow> RContext | WitRowAdded \<Rightarrow> RAdded | WitRowRemoved \<Rightarrow> RRemoved), wr_old_line r, wr_new_line r, wr_text r)"

lemma row_of_wit_row_of: "row_of_wit (wit_row_of r) = (row_kind r, old_line r, new_line r, row_text r)"
  by (cases "row_kind r") (simp_all add: wit_row_of_def row_of_wit_def)

theorem component_sees_patch:
  assumes "component_review s = Some v"
  shows "map (\<lambda>f. (Some (wf_path f), map (\<lambda>h. map row_of_wit (wh_rows h)) (wf_hunks f))) (wv_files v) =
    map (\<lambda>f. (display_path f, map (\<lambda>h. map (\<lambda>r. (row_kind r, old_line r, new_line r, row_text r)) (rows h)) (hunks f)))
      (files (snap_patch s))"
proof -
  from assms obtain fs where v: "v = \<lparr>wv_title = snap_title s, wv_files = fs\<rparr>" and fs: "those (map wit_file_of (files (snap_patch s))) = Some fs"
    by (auto simp: component_review_def)
  have "map wit_file_of gs = map Some fs \<Longrightarrow>
      map (\<lambda>f. (Some (wf_path f), map (\<lambda>h. map row_of_wit (wh_rows h)) (wf_hunks f))) fs =
      map (\<lambda>f. (display_path f, map (\<lambda>h. map (\<lambda>r. (row_kind r, old_line r, new_line r, row_text r)) (rows h)) (hunks f))) gs" for gs
  proof (induction gs arbitrary: fs)
    case (Cons g gs)
    then obtain f fs' where f: "fs = f # fs'" "wit_file_of g = Some f" "map wit_file_of gs = map Some fs'" by (cases fs) auto
    then have "(Some (wf_path f), map (\<lambda>h. map row_of_wit (wh_rows h)) (wf_hunks f)) =
        (display_path g, map (\<lambda>h. map (\<lambda>r. (row_kind r, old_line r, new_line r, row_text r)) (rows h)) (hunks g))"
      by (auto simp: wit_file_of_def wit_hunk_of_def row_of_wit_row_of)
    with Cons.IH [OF f(3)] f show ?case by simp
  qed simp
  moreover have "map wit_file_of (files (snap_patch s)) = map Some fs" using fs by (simp add: those_Some)
  ultimately show ?thesis by (simp add: v)
qed

end
