(* ===== verification/Extensions.thy ===== *)
theory Extensions
  imports Themes Components LocalGit Pool
begin

text \<open>
  Extensions, \<open>crates/core/src/extension.rs\<close> and \<open>crates/core/src/registry.rs\<close>: the manifest of an extension and the folders that are searched, and
  the registry of grammars, themes and annotators. The file system is the argument of \<open>Themes\<close>; the TOML decoder is the
  argument \<open>toml\<close>. The definitions are those of the application, which is built with grammars and components.
\<close>

section \<open>Paths\<close>

text \<open>\<open>Path::components\<close>: a leading point is a component of its own, later ones and empty pieces are skipped.\<close>

datatype path_part = RootDir | CurDir | ParentDir | NormalPart os_string

definition parts :: "os_string \<Rightarrow> path_part list" where
  "parts p =
     (if is_absolute p then [RootDir] else if hd (split_on (CHR ''/'') p) = ''.'' then [CurDir] else []) @
     map (\<lambda>x. if x = ''..'' then ParentDir else NormalPart x) (path_components p)"

fun is_normal :: "path_part \<Rightarrow> bool" where
  "is_normal (NormalPart _) \<longleftrightarrow> True"
| "is_normal _ \<longleftrightarrow> False"

definition file_name :: "os_string \<Rightarrow> os_string option" where
  "file_name p = (if parts p = [] then None else case last (parts p) of NormalPart x \<Rightarrow> Some x | _ \<Rightarrow> None)"

section \<open>Manifests\<close>

definition CONTRACT :: "nat \<times> nat" where
  "CONTRACT = (0, 1)"

definition PRIORITY :: nat where
  "PRIORITY = 10"

record language_manifest =
  lm_name :: str
  lm_grammar :: os_string
  lm_queries :: os_string
  lm_extensions :: "str list"

record ext_manifest =
  em_id :: str
  em_name :: "str option"
  em_version :: "str option"
  em_diffz :: str
  em_languages :: "language_manifest list"
  em_themes :: "os_string list"
  em_annotators :: "(str \<times> os_string) list"

record extension =
  ext_id :: str
  ext_name :: str
  ext_version :: str
  ext_dir :: os_string
  ext_languages :: "language_manifest list"
  ext_themes :: "os_string list"
  ext_annotators :: "(str \<times> os_string) list"

record installed =
  in_extensions :: "extension list"
  in_problems :: "str list"

definition extension_dirs :: "theme_system \<Rightarrow> os_string list" where
  "extension_dirs sys =
     (case ts_config_home sys of
        Some xdg \<Rightarrow> [path_join xdg ''diffz/extensions'']
      | None \<Rightarrow> (case ts_home sys of Some home \<Rightarrow> [path_join home ''.config/diffz/extensions''] | None \<Rightarrow> []))"

definition valid_ext_id :: "str \<Rightarrow> bool" where
  "valid_ext_id s \<longleftrightarrow> s \<noteq> [] \<and> list_all (\<lambda>c. is_ascii_alphanumeric c \<or> c = CHR ''-'' \<or> c = CHR ''_'') s"

definition contract_of :: "str \<Rightarrow> (nat \<times> nat) option" where
  "contract_of s =
     Option.bind (split_once ''.'' s) (\<lambda>(a, b).
     Option.bind (parse_u64 a) (\<lambda>major. map_option (\<lambda>minor. (major, minor)) (parse_u64 b)))"

definition inside :: "os_string \<Rightarrow> os_string \<Rightarrow> str + os_string" where
  "inside dir p =
     (if list_all is_normal (parts p) then Inr (path_join dir p)
      else Inl (''path '' @ from_utf8_lossy p @ '' leaves the extension''))"

definition ext_language :: "os_string \<Rightarrow> language_manifest \<Rightarrow> str + language_manifest" where
  "ext_language dir l =
     bindE (inside dir (lm_grammar l)) (\<lambda>g.
     bindE (inside dir (lm_queries l)) (\<lambda>q.
     Inr (l\<lparr>lm_grammar := g, lm_queries := q, lm_extensions := map to_ascii_lowercase (lm_extensions l)\<rparr>)))"

definition ext_load :: "theme_system \<Rightarrow> (str \<Rightarrow> str + ext_manifest) \<Rightarrow> os_string \<Rightarrow> str + extension" where
  "ext_load sys toml dir =
     bindE (ts_read sys (path_join dir ''extension.toml'')) (\<lambda>t.
     bindE (map_errE (\<lambda>e. ''extension.toml: '' @ e) (toml t)) (\<lambda>m.
     failIf (\<not> valid_ext_id (em_id m)) (''invalid id '' @ ts_debug sys (em_id m)) (
     bindE (okE (''invalid diffz version '' @ ts_debug sys (em_diffz m)) (contract_of (em_diffz m))) (\<lambda>(major, minor).
     failIf (major \<noteq> fst CONTRACT \<or> minor > snd CONTRACT)
       (''needs extension contract '' @ em_diffz m @ '', this diffz provides '' @ show_nat (fst CONTRACT) @ ''.'' @ show_nat (snd CONTRACT)) (
     bindE (collect_results (map (ext_language dir) (em_languages m))) (\<lambda>ls.
     bindE (collect_results (map (inside dir) (em_themes m))) (\<lambda>ts.
     bindE (collect_results (map (\<lambda>(i, p). bindE (inside dir p) (\<lambda>q. Inr (em_id m @ ''/'' @ i, q))) (em_annotators m))) (\<lambda>as.
     Inr \<lparr>ext_id = em_id m, ext_name = (case em_name m of Some n \<Rightarrow> n | None \<Rightarrow> em_id m),
       ext_version = (case em_version m of Some v \<Rightarrow> v | None \<Rightarrow> []), ext_dir = dir,
       ext_languages = ls, ext_themes = ts, ext_annotators = as\<rparr>))))))))"

definition add_folder :: "theme_system \<Rightarrow> (str \<Rightarrow> str + ext_manifest) \<Rightarrow> installed \<Rightarrow> os_string \<Rightarrow> installed" where
  "add_folder sys toml st folder =
     (if \<not> ts_is_file sys (path_join folder ''extension.toml'') then st
      else case ext_load sys toml folder of
        Inr ext \<Rightarrow>
          if ext_id ext \<in> ext_id ` set (in_extensions st)
          then st\<lparr>in_problems := in_problems st @ [from_utf8_lossy folder @ '': duplicate id '' @ ext_id ext]\<rparr>
          else st\<lparr>in_extensions := in_extensions st @ [ext]\<rparr>
      | Inl e \<Rightarrow> st\<lparr>in_problems := in_problems st @ [from_utf8_lossy folder @ '': '' @ e]\<rparr>)"

definition ext_folders :: "theme_system \<Rightarrow> os_string \<Rightarrow> os_string list" where
  "ext_folders sys dir = (case ts_entries sys dir of Some names \<Rightarrow> map (path_join dir) (sort names) | None \<Rightarrow> [])"

definition ext_discover :: "theme_system \<Rightarrow> (str \<Rightarrow> str + ext_manifest) \<Rightarrow> os_string list \<Rightarrow> installed" where
  "ext_discover sys toml dirs =
     foldl (add_folder sys toml) \<lparr>in_extensions = [], in_problems = []\<rparr> (concat (map (ext_folders sys) dirs))"

definition ext_claim :: "language_manifest \<Rightarrow> str \<Rightarrow> (str \<times> nat) option" where
  "ext_claim l path =
     Option.bind (path_extension path) (\<lambda>e. if e \<in> set (lm_extensions l) then Some (lm_name l, PRIORITY) else None)"

definition ext_theme_entry :: "theme_system \<Rightarrow> os_string \<Rightarrow> theme_entry option" where
  "ext_theme_entry sys dir =
     Option.bind (Option.bind (file_name dir) from_utf8) (\<lambda>name.
     map_option (\<lambda>p. \<lparr>te_label = name, te_reference = name, te_path = p\<rparr>) (theme_file sys dir))"

definition ext_themes_list :: "theme_system \<Rightarrow> os_string list \<Rightarrow> theme_entry list" where
  "ext_themes_list sys dirs = sort_key te_label (List.map_filter (ext_theme_entry sys) dirs)"

definition ext_themes_resolve :: "theme_system \<Rightarrow> os_string list \<Rightarrow> str \<Rightarrow> theme_entry option" where
  "ext_themes_resolve sys dirs reference = List.find (\<lambda>e. te_reference e = reference) (ext_themes_list sys dirs)"

section \<open>The registry\<close>

record language_provider =
  lp_claim :: "str \<Rightarrow> (str \<times> nat) option"
  lp_highlight :: "str \<Rightarrow> bytes \<Rightarrow> spans_result"

record theme_source =
  src_list :: "theme_entry list"
  src_resolve :: "str \<Rightarrow> theme_entry option"

record annotator =
  an_id :: str
  an_annotate :: "snapshot \<Rightarrow> annotate_error + annotation list"

record registry =
  reg_languages :: "language_provider list"
  reg_themes :: "theme_source list"
  reg_extensions :: "extension list"
  reg_problems :: "str list"
  reg_annotators :: "annotator list"
  reg_components :: "code_annotator list"

text \<open>
  What the libraries do: the events of a built-in grammar and of the grammar of an extension, its check, and what is reported of the component at a
  path; and the answers of the cancellation flag, to the polls of the built-in check and of the components.
\<close>

record run_time =
  rt_grammar :: "str \<Rightarrow> bytes \<Rightarrow> highlight_event option list option"
  rt_language :: "language_manifest \<Rightarrow> bytes \<Rightarrow> highlight_event option list option"
  rt_check :: "language_manifest \<Rightarrow> str + unit"
  rt_component :: "str \<Rightarrow> os_string \<Rightarrow> code_annotator"
  rt_cancelled :: "nat \<Rightarrow> bool"
  rt_stopped :: bool

definition empty_registry :: registry where
  "empty_registry =
     \<lparr>reg_languages = [], reg_themes = [], reg_extensions = [], reg_problems = [], reg_annotators = [], reg_components = []\<rparr>"

definition builtin_grammars :: "run_time \<Rightarrow> language_provider" where
  "builtin_grammars rt = \<lparr>lp_claim = builtin_claim, lp_highlight = builtin_highlight (rt_grammar rt)\<rparr>"

definition extension_language :: "run_time \<Rightarrow> language_manifest \<Rightarrow> language_provider" where
  "extension_language rt l = \<lparr>lp_claim = ext_claim l, lp_highlight = (\<lambda>_ src. spans src (rt_language rt l src))\<rparr>"

definition diff_check :: "run_time \<Rightarrow> annotator" where
  "diff_check rt = \<lparr>an_id = ''diff check'', an_annotate = annotate (rt_cancelled rt)\<rparr>"

definition component_annotator :: "run_time \<Rightarrow> code_annotator \<Rightarrow> annotator" where
  "component_annotator rt ca = \<lparr>an_id = ca_id ca, an_annotate = code_annotate ca (rt_stopped rt)\<rparr>"

definition omarchy_source :: "theme_system \<Rightarrow> theme_source" where
  "omarchy_source sys = \<lparr>src_list = omarchy_list sys, src_resolve = omarchy_resolve sys\<rparr>"

definition directories_source :: "theme_system \<Rightarrow> os_string list \<Rightarrow> theme_source" where
  "directories_source sys dirs = \<lparr>src_list = directories_list sys dirs, src_resolve = directories_resolve sys dirs\<rparr>"

definition extension_themes :: "theme_system \<Rightarrow> os_string list \<Rightarrow> theme_source" where
  "extension_themes sys dirs = \<lparr>src_list = ext_themes_list sys dirs, src_resolve = ext_themes_resolve sys dirs\<rparr>"

definition add_annotator :: "annotator \<Rightarrow> registry \<Rightarrow> registry" where
  "add_annotator a reg = reg\<lparr>reg_annotators := reg_annotators reg @ [a]\<rparr>"

definition add_language :: "language_provider \<Rightarrow> registry \<Rightarrow> registry" where
  "add_language l reg = reg\<lparr>reg_languages := reg_languages reg @ [l]\<rparr>"

definition add_theme_source :: "theme_source \<Rightarrow> registry \<Rightarrow> registry" where
  "add_theme_source t reg = reg\<lparr>reg_themes := reg_themes reg @ [t]\<rparr>"

definition builtin_registry :: "run_time \<Rightarrow> theme_system \<Rightarrow> registry" where
  "builtin_registry rt sys =
     add_theme_source (directories_source sys (theme_dirs sys)) (add_theme_source (omarchy_source sys)
       (add_annotator (diff_check rt) (add_language (builtin_grammars rt) empty_registry)))"

definition add_component :: "run_time \<Rightarrow> registry \<Rightarrow> str \<times> os_string \<Rightarrow> registry" where
  "add_component rt reg a =
     (let ca = (rt_component rt (fst a) (snd a))\<lparr>ca_id := fst a, ca_limits := call_limits\<rparr> in
      add_annotator (component_annotator rt ca) (reg\<lparr>reg_components := reg_components reg @ [ca]\<rparr>))"

definition add_extension :: "run_time \<Rightarrow> registry \<Rightarrow> extension \<Rightarrow> registry" where
  "add_extension rt reg ext =
     (let reg' = foldl (\<lambda>g l. add_language (extension_language rt l) g) reg (ext_languages ext);
          reg'' = foldl (add_component rt) reg' (ext_annotators ext) in
      reg''\<lparr>reg_extensions := reg_extensions reg'' @ [ext]\<rparr>)"

definition add_extensions :: "run_time \<Rightarrow> theme_system \<Rightarrow> installed \<Rightarrow> registry \<Rightarrow> registry" where
  "add_extensions rt sys ins reg =
     (let reg' = foldl (add_extension rt) (reg\<lparr>reg_problems := reg_problems reg @ in_problems ins\<rparr>) (in_extensions ins);
          themes = concat (map ext_themes (in_extensions ins)) in
      if themes \<noteq> [] then add_theme_source (extension_themes sys themes) reg' else reg')"

definition installed_registry :: "run_time \<Rightarrow> theme_system \<Rightarrow> (str \<Rightarrow> str + ext_manifest) \<Rightarrow> registry" where
  "installed_registry rt sys toml =
     add_extensions rt sys (ext_discover sys toml (extension_dirs sys)) (builtin_registry rt sys)"

definition check_extensions :: "run_time \<Rightarrow> registry \<Rightarrow> str list" where
  "check_extensions rt reg =
     concat (map (\<lambda>ext. List.map_filter (\<lambda>l.
       case rt_check rt l of Inl e \<Rightarrow> Some (ext_id ext @ '': '' @ lm_name l @ '': '' @ e) | Inr _ \<Rightarrow> None) (ext_languages ext)) (reg_extensions reg)) @
     List.map_filter (\<lambda>ca. case ca_compile ca of Inl e \<Rightarrow> Some (ca_id ca @ '': '' @ e) | Inr _ \<Rightarrow> None) (reg_components reg)"

text \<open>The flag is polled before each annotator. \<open>None\<close> is a panic of an annotator.\<close>

fun annotate_loop :: "(nat \<Rightarrow> bool) \<Rightarrow> snapshot \<Rightarrow> nat \<Rightarrow> annotator list \<Rightarrow> annotation list \<times> str list \<Rightarrow> (annotation list \<times> str list) option" where
  "annotate_loop cancelled s k [] st = Some st"
| "annotate_loop cancelled s k (a # as) (found, problems) =
     (if cancelled k then Some (found, problems)
      else case an_annotate a s of
        Inr out \<Rightarrow>
          (let kept = filter (\<lambda>x. in_snapshot s (ann_anchor x)) out;
               dropped = length out - length kept in
           annotate_loop cancelled s (Suc k) as
             (found @ kept,
              problems @ (if dropped > 0 then [an_id a @ '': '' @ show_nat dropped @ '' annotations point outside this review''] else [])))
      | Inl (AnnotateMessage e) \<Rightarrow> annotate_loop cancelled s (Suc k) as (found, problems @ [an_id a @ '': '' @ e])
      | Inl PathPanic \<Rightarrow> None)"

definition registry_annotate :: "(nat \<Rightarrow> bool) \<Rightarrow> registry \<Rightarrow> snapshot \<Rightarrow> (annotation list \<times> str list) option" where
  "registry_annotate cancelled reg s = annotate_loop cancelled s 0 (reg_annotators reg) ([], [])"

definition better :: "str \<Rightarrow> (language_provider \<times> str \<times> nat) option \<Rightarrow> language_provider \<Rightarrow> (language_provider \<times> str \<times> nat) option" where
  "better path best provider =
     (case lp_claim provider path of
        None \<Rightarrow> best
      | Some (name, priority) \<Rightarrow>
          (case best of
             None \<Rightarrow> Some (provider, name, priority)
           | Some (_, _, p) \<Rightarrow> if priority > p then Some (provider, name, priority) else best))"

definition registry_language :: "registry \<Rightarrow> str \<Rightarrow> (language_provider \<times> str) option" where
  "registry_language reg path =
     map_option (\<lambda>(provider, name, _). (provider, name)) (foldl (better path) None (reg_languages reg))"

definition language_name :: "registry \<Rightarrow> str \<Rightarrow> str option" where
  "language_name reg path = map_option snd (registry_language reg path)"

definition HIGHLIGHT_LIMIT :: nat where
  "HIGHLIGHT_LIMIT = 256 * 1024"

definition registry_highlight :: "registry \<Rightarrow> bool \<Rightarrow> str \<Rightarrow> bytes \<Rightarrow> token_span list list option" where
  "registry_highlight reg cancelled path src =
     (let count = length (filter (\<lambda>c. c = LF) src) + 1; plain = replicate count [] in
      if length src > HIGHLIGHT_LIMIT \<or> cancelled then Some plain
      else case registry_language reg path of
        None \<Rightarrow> Some plain
      | Some (provider, _) \<Rightarrow>
          (case lp_highlight provider path src of NoSpans \<Rightarrow> Some plain | Spans ls \<Rightarrow> Some ls | SpansPanic \<Rightarrow> None))"

definition add_entry :: "theme_entry list \<Rightarrow> theme_entry \<Rightarrow> theme_entry list" where
  "add_entry out e = (if te_reference e \<in> te_reference ` set out then out else out @ [e])"

definition registry_themes :: "registry \<Rightarrow> theme_entry list" where
  "registry_themes reg = foldl add_entry [] (concat (map src_list (reg_themes reg)))"

definition theme_path_of :: "theme_system \<Rightarrow> str \<Rightarrow> os_string option" where
  "theme_path_of sys reference =
     (case strip_prefix ''~'' reference of
        Some rest \<Rightarrow>
          map_option (\<lambda>home. if rest = [] then home else join_path home (dropWhile (\<lambda>c. c = CHR ''/'') rest)) (ts_home sys)
      | None \<Rightarrow> Some reference)"

definition theme_label :: "str \<Rightarrow> str" where
  "theme_label reference =
     (let ps = parts reference;
          ds = (if file_name reference = Some ''colors.toml'' \<or> file_name reference = Some ''theme.toml'' then butlast ps else ps) in
      if ds = [] then reference
      else case last ds of NormalPart x \<Rightarrow> (case from_utf8 x of Some name \<Rightarrow> name | None \<Rightarrow> reference) | _ \<Rightarrow> reference)"

definition theme_at_path :: "theme_system \<Rightarrow> str \<Rightarrow> theme_entry option" where
  "theme_at_path sys reference =
     Option.bind (theme_path_of sys reference) (\<lambda>path.
     Option.bind (if ts_is_dir sys path then theme_file sys path else Some path) (\<lambda>file.
     if \<not> ts_is_file sys file then None
     else Some \<lparr>te_label = theme_label reference, te_reference = reference, te_path = file\<rparr>))"

definition resolve_theme :: "theme_system \<Rightarrow> registry \<Rightarrow> str \<Rightarrow> theme_entry option" where
  "resolve_theme sys reg reference =
     (if starts_with ''~'' reference \<or> CHR ''/'' \<in> set reference then theme_at_path sys reference
      else find_map (\<lambda>src. src_resolve src reference) (reg_themes reg))"

section \<open>Loaded extensions stay inside their folder\<close>

lemma path_components_join: "path_components (path_join dir p) = path_components dir @ path_components p"
proof (cases "dir = [] \<or> ends_with ''/'' dir")
  case True
  show ?thesis
  proof (cases "dir = []")
    case False
    with True obtain d where d: "dir = d @ [CHR ''/'']" by (auto simp: ends_with_iff)
    then have "path_join dir p = d @ CHR ''/'' # p" by (simp add: path_join_def ends_with_iff)
    then show ?thesis by (simp add: d path_components_def split_on_append_sep [of _ d "[]", simplified] split_on_append_sep [of _ d p, simplified])
  qed (simp add: path_join_def path_components_def)
next
  case False
  then show ?thesis by (simp add: path_join_def path_components_def split_on_append_sep)
qed

lemma map_Inr_in: "map f xs = map Inr ys \<Longrightarrow> y \<in> set ys \<Longrightarrow> \<exists>x \<in> set xs. f x = Inr y"
  by (induction xs arbitrary: ys) (auto simp: Cons_eq_map_conv)

definition ext_paths :: "extension \<Rightarrow> os_string list" where
  "ext_paths ext = concat (map (\<lambda>l. [lm_grammar l, lm_queries l]) (ext_languages ext)) @ ext_themes ext @ map snd (ext_annotators ext)"

text \<open>A path of a folder: the components of the folder, and then names alone.\<close>

definition below :: "os_string \<Rightarrow> os_string \<Rightarrow> bool" where
  "below dir p \<longleftrightarrow> (\<exists>q. p = path_join dir q \<and> \<not> is_absolute q \<and> path_components p = path_components dir @ path_components q \<and>
     list_all (\<lambda>x. x \<noteq> ''..'' \<and> x \<noteq> ''.'') (path_components q))"

lemma inside_below:
  assumes "inside dir p = Inr q"
  shows "below dir q"
proof -
  from assms have n: "list_all is_normal (parts p)" and q: "q = path_join dir p" by (auto simp: inside_def split: if_splits)
  have "\<not> is_absolute p" using n by (auto simp: parts_def)
  moreover have "x \<noteq> ''..'' \<and> x \<noteq> ''.''" if "x \<in> set (path_components p)" for x
  proof
    show "x \<noteq> ''..''" using n that by (auto simp: parts_def list_all_iff)
    show "x \<noteq> ''.''" using that by (simp add: path_components_def)
  qed
  ultimately show ?thesis unfolding below_def by (auto simp: q path_components_join list_all_iff)
qed

text \<open>
  Claim C38. An extension that loads has a valid identity and a contract this program provides, every file it names lies below its own folder, and its
  annotators carry its identity.
\<close>

theorem extension_stays_inside:
  assumes "ext_load sys toml dir = Inr ext"
  shows "valid_ext_id (ext_id ext) \<and> ext_dir ext = dir \<and>
    (\<exists>t m major minor. ts_read sys (path_join dir ''extension.toml'') = Inr t \<and> toml t = Inr m \<and> ext_id ext = em_id m \<and>
       contract_of (em_diffz m) = Some (major, minor) \<and> major = 0 \<and> minor \<le> 1 \<and>
       length (ext_languages ext) = length (em_languages m) \<and> length (ext_themes ext) = length (em_themes m) \<and>
       map fst (ext_annotators ext) = map (\<lambda>a. em_id m @ ''/'' @ fst a) (em_annotators m)) \<and>
    list_all (below dir) (ext_paths ext)"
proof -
  from assms obtain t m major minor ls ts as where
    m: "ts_read sys (path_join dir ''extension.toml'') = Inr t" "toml t = Inr m" "valid_ext_id (em_id m)"
      "contract_of (em_diffz m) = Some (major, minor)" "major = 0" "minor \<le> 1"
    and ls: "map (ext_language dir) (em_languages m) = map Inr ls"
    and ts: "map (inside dir) (em_themes m) = map Inr ts"
    and as: "map (\<lambda>(i, p). bindE (inside dir p) (\<lambda>q. Inr (em_id m @ ''/'' @ i, q))) (em_annotators m) = map Inr as"
    and ext: "ext = \<lparr>ext_id = em_id m, ext_name = (case em_name m of Some n \<Rightarrow> n | None \<Rightarrow> em_id m),
       ext_version = (case em_version m of Some v \<Rightarrow> v | None \<Rightarrow> []), ext_dir = dir,
       ext_languages = ls, ext_themes = ts, ext_annotators = as\<rparr>"
    unfolding ext_load_def by (auto simp: bindE_eq_Inr failIf_eq_Inr okE_eq_Inr map_errE_eq_Inr collect_results_Inr CONTRACT_def)
  have lang: "below dir (lm_grammar l) \<and> below dir (lm_queries l)" if "l \<in> set ls" for l
    using map_Inr_in [OF ls that] by (auto simp: ext_language_def bindE_eq_Inr dest: inside_below)
  have theme: "below dir p" if "p \<in> set ts" for p
    using map_Inr_in [OF ts that] by (auto dest: inside_below)
  have ann: "below dir (snd a)" if "a \<in> set as" for a
    using map_Inr_in [OF as that] by (fastforce simp: bindE_eq_Inr intro: inside_below)
  have ids: "map fst as = map (\<lambda>a. em_id m @ ''/'' @ fst a) (em_annotators m)"
  proof (rule nth_equalityI)
    show "length (map fst as) = length (map (\<lambda>a. em_id m @ ''/'' @ fst a) (em_annotators m))"
      using arg_cong [OF as, of length] by simp
    fix i assume "i < length (map fst as)"
    then show "map fst as ! i = map (\<lambda>a. em_id m @ ''/'' @ fst a) (em_annotators m) ! i"
      using arg_cong [OF as, of length] arg_cong [OF as, of "\<lambda>xs. xs ! i"]
      by (auto simp: bindE_eq_Inr split: prod.splits dest: sym)
  qed
  have "list_all (below dir) (ext_paths ext)" using lang theme ann by (auto simp: ext_paths_def ext list_all_iff)
  moreover have "length ls = length (em_languages m)" "length ts = length (em_themes m)"
    using arg_cong [OF ls, of length] arg_cong [OF ts, of length] by simp_all
  ultimately show ?thesis using m ids by (auto simp: ext)
qed

definition one_manifest :: ext_manifest where
  "one_manifest =
     \<lparr>em_id = ''e'', em_name = None, em_version = None, em_diffz = ''0.1'',
      em_languages = [\<lparr>lm_name = ''l'', lm_grammar = ''g/l.wasm'', lm_queries = ''q'', lm_extensions = [''L'']\<rparr>],
      em_themes = [''t''], em_annotators = [(''a'', ''a.wasm'')]\<rparr>"

definition readable_system :: theme_system where
  "readable_system =
     \<lparr>ts_is_file = (\<lambda>_. True), ts_is_dir = (\<lambda>_. False), ts_read = (\<lambda>_. Inr []), ts_entries = (\<lambda>_. None), ts_home = None,
      ts_config_home = None, ts_debug = id\<rparr>"

theorem extension_stays_inside_witness:
  "case ext_load readable_system (\<lambda>_. Inr one_manifest) ''/e'' of
     Inr ext \<Rightarrow> list_all (below ''/e'') (ext_paths ext) \<and> ext_id ext = ''e'' | Inl _ \<Rightarrow> False"
proof -
  have "\<not> isl (ext_load readable_system (\<lambda>_. Inr one_manifest) ''/e'')" by code_simp
  then obtain ext where e: "ext_load readable_system (\<lambda>_. Inr one_manifest) ''/e'' = Inr ext"
    by (cases "ext_load readable_system (\<lambda>_. Inr one_manifest) ''/e''") auto
  have "ext_id ext = em_id one_manifest" "list_all (below ''/e'') (ext_paths ext)" using extension_stays_inside [OF e] by auto
  then show ?thesis by (simp add: e) (simp add: one_manifest_def)
qed

text \<open>Discovery keeps identities apart, and a folder with a manifest is an extension or a problem.\<close>

lemma discover_folders:
  assumes "distinct (map ext_id (in_extensions st))"
  shows "distinct (map ext_id (in_extensions (foldl (add_folder sys toml) st fs))) \<and>
    length (in_extensions (foldl (add_folder sys toml) st fs)) + length (in_problems (foldl (add_folder sys toml) st fs)) =
    length (in_extensions st) + length (in_problems st) + length (filter (\<lambda>f. ts_is_file sys (path_join f ''extension.toml'')) fs)"
  using assms
proof (induction fs arbitrary: st)
  case (Cons f fs)
  have "distinct (map ext_id (in_extensions (add_folder sys toml st f)))"
    using Cons.prems by (auto simp: add_folder_def split: sum.split)
  moreover have "length (in_extensions (add_folder sys toml st f)) + length (in_problems (add_folder sys toml st f)) =
      length (in_extensions st) + length (in_problems st) + (if ts_is_file sys (path_join f ''extension.toml'') then 1 else 0)"
    by (auto simp: add_folder_def split: sum.split)
  ultimately show ?case using Cons.IH [of "add_folder sys toml st f"] by simp
qed simp

theorem ext_discover_accounts:
  "distinct (map ext_id (in_extensions (ext_discover sys toml dirs))) \<and>
   length (in_extensions (ext_discover sys toml dirs)) + length (in_problems (ext_discover sys toml dirs)) =
     length (filter (\<lambda>f. ts_is_file sys (path_join f ''extension.toml'')) (concat (map (ext_folders sys) dirs)))"
  unfolding ext_discover_def by (subst discover_folders; simp add: discover_folders)+

section \<open>Which grammar a path gets\<close>

text \<open>How strongly a provider claims a path; zero when it does not.\<close>

definition rank :: "str \<Rightarrow> language_provider \<Rightarrow> nat" where
  "rank path p = (case lp_claim p path of None \<Rightarrow> 0 | Some (_, q) \<Rightarrow> Suc q)"

definition best_of :: "str \<Rightarrow> language_provider list \<Rightarrow> (language_provider \<times> str \<times> nat) option \<Rightarrow> bool" where
  "best_of path ls best \<longleftrightarrow>
     (case best of
        None \<Rightarrow> \<forall>p \<in> set ls. lp_claim p path = None
      | Some (provider, name, pr) \<Rightarrow>
          \<exists>before behind. ls = before @ provider # behind \<and> lp_claim provider path = Some (name, pr) \<and>
            (\<forall>p \<in> set before. rank path p < rank path provider) \<and> (\<forall>p \<in> set behind. rank path p \<le> rank path provider))"

lemma best_of_SomeI:
  "ls = before @ provider # behind \<Longrightarrow> lp_claim provider path = Some (name, pr) \<Longrightarrow>
   (\<And>p. p \<in> set before \<Longrightarrow> rank path p < rank path provider) \<Longrightarrow> (\<And>p. p \<in> set behind \<Longrightarrow> rank path p \<le> rank path provider) \<Longrightarrow>
   best_of path ls (Some (provider, name, pr))"
  unfolding best_of_def by auto

lemma best_of_SomeE:
  assumes "best_of path ls (Some (provider, name, pr))"
  obtains before behind where "ls = before @ provider # behind" "lp_claim provider path = Some (name, pr)"
    "\<And>p. p \<in> set before \<Longrightarrow> rank path p < rank path provider" "\<And>p. p \<in> set behind \<Longrightarrow> rank path p \<le> rank path provider"
  using assms unfolding best_of_def by auto

lemma best_of_last:
  assumes "\<And>p'. p' \<in> set ls \<Longrightarrow> rank path p' < rank path p" "lp_claim p path = Some (n, q)"
  shows "best_of path (ls @ [p]) (Some (p, n, q))"
  using assms by (intro best_of_SomeI [of _ ls _ "[]"]) simp_all

lemma best_of_keep:
  assumes "best_of path ls (Some (provider, name, pr))" "rank path p \<le> rank path provider"
  shows "best_of path (ls @ [p]) (Some (provider, name, pr))"
  using assms(1)
proof (rule best_of_SomeE)
  fix before behind
  assume b: "ls = before @ provider # behind" "lp_claim provider path = Some (name, pr)"
    "\<And>p. p \<in> set before \<Longrightarrow> rank path p < rank path provider" "\<And>p. p \<in> set behind \<Longrightarrow> rank path p \<le> rank path provider"
  show ?thesis by (rule best_of_SomeI [of _ before _ "behind @ [p]"]) (use b assms(2) in auto)
qed

lemma better_best:
  assumes "best_of path ls best"
  shows "best_of path (ls @ [p]) (better path best p)"
proof (cases "lp_claim p path")
  case None
  show ?thesis
  proof (cases best)
    case best: None
    with assms None show ?thesis by (simp add: best_of_def better_def)
  next
    case (Some b)
    obtain provider name pr where b: "b = (provider, name, pr)" by (cases b)
    then show ?thesis using best_of_keep [OF assms [unfolded Some b], of p] None by (simp add: better_def Some rank_def)
  qed
next
  case (Some c)
  obtain n q where c: "lp_claim p path = Some (n, q)" using Some by (cases c) simp
  then have rp: "rank path p = Suc q" by (simp add: rank_def)
  show ?thesis
  proof (cases best)
    case None
    with assms have "rank path p' = 0" if "p' \<in> set ls" for p' using that by (simp add: best_of_def rank_def)
    with c None rp show ?thesis by (simp add: better_def best_of_last)
  next
    case (Some b)
    obtain provider name pr where b: "b = (provider, name, pr)" by (cases b)
    note best = assms [unfolded Some b]
    then have rq: "rank path provider = Suc pr" by (auto elim!: best_of_SomeE simp: rank_def)
    show ?thesis
    proof (cases "q > pr")
      case True
      have "rank path p' < rank path p" if "p' \<in> set ls" for p'
        using best by (rule best_of_SomeE) (use that True rp rq in force)
      with c True Some b show ?thesis by (simp add: better_def best_of_last)
    next
      case False
      with c rp rq best_of_keep [OF best, of p] Some b show ?thesis by (simp add: better_def)
    qed
  qed
qed

lemma foldl_better: "best_of path ls (foldl (better path) None ls)"
proof (induction ls rule: rev_induct)
  case Nil
  then show ?case by (simp add: best_of_def)
next
  case (snoc p ls)
  then show ?case using better_best by simp
qed

text \<open>
  The grammar of a path is that of the first provider with the highest priority among those that claim it; with none, no provider claims it.
\<close>

theorem registry_language_best:
  "case registry_language reg path of
     None \<Rightarrow> \<forall>p \<in> set (reg_languages reg). lp_claim p path = None
   | Some (provider, name) \<Rightarrow> \<exists>pr. best_of path (reg_languages reg) (Some (provider, name, pr))"
  using foldl_better [of path "reg_languages reg"]
  by (cases "foldl (better path) None (reg_languages reg)") (auto simp: registry_language_def best_of_def)

section \<open>Annotations of all annotators\<close>

definition kept_annotations :: "snapshot \<Rightarrow> annotator \<Rightarrow> annotation list" where
  "kept_annotations s a = (case an_annotate a s of Inr out \<Rightarrow> filter (\<lambda>x. in_snapshot s (ann_anchor x)) out | Inl _ \<Rightarrow> [])"

definition troubled :: "snapshot \<Rightarrow> annotator \<Rightarrow> bool" where
  "troubled s a \<longleftrightarrow> (case an_annotate a s of Inr out \<Rightarrow> \<not> list_all (\<lambda>x. in_snapshot s (ann_anchor x)) out | Inl _ \<Rightarrow> True)"

fun asked :: "(nat \<Rightarrow> bool) \<Rightarrow> nat \<Rightarrow> annotator list \<Rightarrow> annotator list" where
  "asked cancelled k [] = []"
| "asked cancelled k (a # as) = (if cancelled k then [] else a # asked cancelled (Suc k) as)"

lemma filter_shorter: "length xs - length (filter P xs) > 0 \<longleftrightarrow> \<not> list_all P xs"
  by (metis filter_True length_filter_less list_all_iff diff_is_0_eq' less_numeral_extra(3) order_refl zero_less_diff)

lemma annotate_loop_kept:
  assumes "annotate_loop cancelled s k as (found, problems) = Some (found', problems')"
  shows "found' = found @ concat (map (kept_annotations s) (asked cancelled k as)) \<and>
    length problems' = length problems + length (filter (troubled s) (asked cancelled k as))"
  using assms
proof (induction as arbitrary: k found problems)
  case (Cons a as)
  show ?case
  proof (cases "cancelled k")
    case True
    with Cons.prems show ?thesis by simp
  next
    case False
    show ?thesis
    proof (cases "an_annotate a s")
      case (Inl e)
      with Cons False show ?thesis by (cases e) (force simp: kept_annotations_def troubled_def)+
    next
      case (Inr out)
      have t: "troubled s a \<longleftrightarrow> length out - length (filter (\<lambda>x. in_snapshot s (ann_anchor x)) out) > 0"
        by (simp only: troubled_def Inr sum.case filter_shorter)
      from Cons.prems False Inr have "annotate_loop cancelled s (Suc k) as
          (found @ kept_annotations s a, problems @ (if troubled s a
             then [an_id a @ '': '' @ show_nat (length out - length (filter (\<lambda>x. in_snapshot s (ann_anchor x)) out)) @ '' annotations point outside this review'']
             else [])) = Some (found', problems')"
        by (simp add: kept_annotations_def Let_def t)
      from Cons.IH [OF this] False show ?thesis by simp
    qed
  qed
qed simp

text \<open>
  The annotations shown are, in order, those of every annotator that was asked before a cancellation that lie in the snapshot; each asked annotator
  that failed or pointed elsewhere is reported once.
\<close>

theorem registry_annotate_kept:
  assumes "registry_annotate cancelled reg s = Some (found, problems)"
  shows "found = concat (map (kept_annotations s) (asked cancelled 0 (reg_annotators reg))) \<and>
    length problems = length (filter (troubled s) (asked cancelled 0 (reg_annotators reg))) \<and>
    (\<forall>a \<in> set found. in_snapshot s (ann_anchor a))"
proof -
  have "found = concat (map (kept_annotations s) (asked cancelled 0 (reg_annotators reg)))"
    "length problems = length (filter (troubled s) (asked cancelled 0 (reg_annotators reg)))"
    using annotate_loop_kept [OF assms [unfolded registry_annotate_def]] by simp_all
  moreover have "in_snapshot s (ann_anchor x)" if "x \<in> set (kept_annotations s a)" for x a
    using that by (auto simp: kept_annotations_def split: sum.splits)
  ultimately show ?thesis by auto
qed

section \<open>A listed theme is the theme that is chosen\<close>

text \<open>A source of themes: a plain reference resolves to the entry that is listed under it.\<close>

locale theme_source_laws =
  fixes listed :: "theme_entry list"
    and resolve :: "str \<Rightarrow> theme_entry option"
    and plain :: "str \<Rightarrow> bool"
  assumes finds: "plain r \<Longrightarrow> resolve r = List.find (\<lambda>e. te_reference e = r) listed"

definition plain_name :: "str \<Rightarrow> bool" where
  "plain_name r \<longleftrightarrow> r \<noteq> [] \<and> r \<noteq> ''omarchy'' \<and> CHR ''/'' \<notin> set r \<and> \<not> starts_with ''~'' r \<and> valid_utf8 r"

text \<open>A folder with a theme file in it is listed by its directory.\<close>

definition listed_name :: "theme_system \<Rightarrow> os_string list \<Rightarrow> str \<Rightarrow> bool" where
  "listed_name sys dirs r \<longleftrightarrow> list_all (\<lambda>dir. theme_file sys (path_join dir r) \<noteq> None \<longrightarrow>
     (case ts_entries sys dir of Some names \<Rightarrow> r \<in> set names | None \<Rightarrow> False)) dirs"

lemma map_of_discover_dir:
  "map_of (discover_dir sys dir names out) r =
     (case map_of out r of
        Some p \<Rightarrow> Some p
      | None \<Rightarrow> if r \<in> set names \<and> valid_utf8 r then theme_file sys (path_join dir r) else None)"
proof (induction sys dir names out rule: discover_dir.induct)
  case (2 sys dir name names out)
  show ?case
    by (simp add: "2.IH" map_of_append dom_map_of_conv_image_fst [symmetric] split: option.split)
      (auto simp: map_add_def domIff split: option.split)
qed (simp split: option.split)

lemma discover_dir_distinct: "distinct (map fst out) \<Longrightarrow> distinct (map fst (discover_dir sys dir names out))"
  by (induction sys dir names out rule: discover_dir.induct) (auto split: option.split)

definition discovered :: "theme_system \<Rightarrow> os_string list \<Rightarrow> (str \<times> os_string) list \<Rightarrow> (str \<times> os_string) list" where
  "discovered sys dirs out = foldl (\<lambda>out dir. case ts_entries sys dir of Some names \<Rightarrow> discover_dir sys dir names out | None \<Rightarrow> out) out dirs"

lemma discovered_distinct: "distinct (map fst out) \<Longrightarrow> distinct (map fst (discovered sys dirs out))"
  unfolding discovered_def by (induction dirs arbitrary: out) (auto simp: discover_dir_distinct split: option.split)

lemma map_of_discovered:
  assumes "listed_name sys dirs r" "valid_utf8 r"
  shows "map_of (discovered sys dirs out) r =
    (case map_of out r of Some p \<Rightarrow> Some p | None \<Rightarrow> find_map (\<lambda>dir. theme_file sys (path_join dir r)) dirs)"
  using assms(1)
proof (induction dirs arbitrary: out)
  case Nil
  then show ?case by (simp add: discovered_def find_map_def map_filter_simps split: option.split)
next
  case (Cons dir dirs)
  let ?out = "case ts_entries sys dir of Some names \<Rightarrow> discover_dir sys dir names out | None \<Rightarrow> out"
  have step: "discovered sys (dir # dirs) out = discovered sys dirs ?out" by (simp add: discovered_def)
  have here: "map_of ?out r = (case map_of out r of Some p \<Rightarrow> Some p | None \<Rightarrow> theme_file sys (path_join dir r))"
    using Cons.prems assms(2) by (auto simp: listed_name_def map_of_discover_dir split: option.splits)
  have "find_map (\<lambda>dir. theme_file sys (path_join dir r)) (dir # dirs) =
      (case theme_file sys (path_join dir r) of Some p \<Rightarrow> Some p | None \<Rightarrow> find_map (\<lambda>dir. theme_file sys (path_join dir r)) dirs)"
    by (simp add: find_map_def map_filter_simps split: option.split)
  then show ?case
    using Cons.IH [of ?out] Cons.prems by (simp add: step here listed_name_def split: option.split)
qed

lemma directories_resolve_find:
  "CHR ''/'' \<notin> set r \<Longrightarrow> directories_resolve sys dirs r =
     map_option (\<lambda>p. \<lparr>te_label = r, te_reference = r, te_path = p\<rparr>) (find_map (\<lambda>dir. theme_file sys (path_join dir r)) dirs)"
proof (induction dirs)
  case (Cons dir dirs)
  have "\<not> is_absolute r" using Cons.prems by (cases r) (auto simp: is_absolute_def starts_with_def)
  with Cons show ?case by (simp add: join_path_def find_map_def map_filter_simps split: option.split)
qed (simp add: find_map_def map_filter_simps)

lemma find_entries:
  "List.find (\<lambda>e. te_reference e = r) (map (\<lambda>(name, p). \<lparr>te_label = name, te_reference = name, te_path = p\<rparr>) xs) =
     map_option (\<lambda>p. \<lparr>te_label = r, te_reference = r, te_path = p\<rparr>) (map_of xs r)"
  by (induction xs) auto

lemma directories_list_find:
  assumes "listed_name sys dirs r" "valid_utf8 r"
  shows "List.find (\<lambda>e. te_reference e = r) (directories_list sys dirs) =
    map_option (\<lambda>p. \<lparr>te_label = r, te_reference = r, te_path = p\<rparr>) (find_map (\<lambda>dir. theme_file sys (path_join dir r)) dirs)"
proof -
  have d: "distinct (map fst (discovered sys dirs []))" by (rule discovered_distinct) simp
  have "distinct (map fst (sort_key fst (discovered sys dirs [])))"
    using d by (metis distinct_map distinct_sort set_sort)
  then have "map_of (sort_key fst (discovered sys dirs [])) = map_of (discovered sys dirs [])"
    using d by (intro map_of_inject_set [THEN iffD2]) simp_all
  then show ?thesis
    using map_of_discovered [OF assms, of "[]"]
    by (simp add: directories_list_def find_entries discover_in_def discovered_def [symmetric])
qed

interpretation omarchy: theme_source_laws "omarchy_list sys" "omarchy_resolve sys" plain_name for sys
proof
  fix r assume "plain_name r"
  then have "r \<noteq> ''omarchy''" by (simp add: plain_name_def)
  then show "omarchy_resolve sys r = List.find (\<lambda>e. te_reference e = r) (omarchy_list sys)"
    by (cases "omarchy_entry sys") (auto simp: omarchy_resolve_def omarchy_list_def omarchy_entry_def bind_eq_Some_conv)
qed

interpretation directories: theme_source_laws "directories_list sys dirs" "directories_resolve sys dirs"
  "\<lambda>r. plain_name r \<and> listed_name sys dirs r" for sys dirs
  by unfold_locales (simp add: plain_name_def directories_resolve_find directories_list_find)

interpretation ext_source: theme_source_laws "ext_themes_list sys dirs" "ext_themes_resolve sys dirs" "\<lambda>_. True" for sys dirs
  by unfold_locales (simp add: ext_themes_resolve_def)

lemma find_in_both: "List.find P (xs @ ys) = (case List.find P xs of Some x \<Rightarrow> Some x | None \<Rightarrow> List.find P ys)"
  by (induction xs) auto

lemma sources_find:
  assumes "\<And>src. src \<in> set srcs \<Longrightarrow> src_resolve src r = List.find (\<lambda>e. te_reference e = r) (src_list src)"
  shows "find_map (\<lambda>src. src_resolve src r) srcs = List.find (\<lambda>e. te_reference e = r) (concat (map src_list srcs))"
  using assms
proof (induction srcs)
  case (Cons src srcs)
  then show ?case by (simp add: find_in_both find_map_def map_filter_simps split: option.split)
qed (simp add: find_map_def map_filter_simps)

lemma add_entries_find:
  "List.find (\<lambda>e. te_reference e = r) (foldl add_entry out es) =
     (case List.find (\<lambda>e. te_reference e = r) out of Some e \<Rightarrow> Some e | None \<Rightarrow> List.find (\<lambda>e. te_reference e = r) es)"
proof (induction es arbitrary: out)
  case (Cons e es)
  have "List.find (\<lambda>e. te_reference e = r) (add_entry out e) =
      (case List.find (\<lambda>e. te_reference e = r) out of Some x \<Rightarrow> Some x | None \<Rightarrow> if te_reference e = r then Some e else None)"
  proof (cases "te_reference e \<in> te_reference ` set out")
    case True
    then have "List.find (\<lambda>e. te_reference e = r) out \<noteq> None" if "te_reference e = r"
      using that by (auto simp: find_None_iff)
    with True show ?thesis by (auto simp: add_entry_def split: option.split)
  next
    case False
    then show ?thesis by (simp add: add_entry_def find_in_both split: option.split)
  qed
  with Cons show ?case by (simp split: option.split)
qed (simp split: option.split)

lemma add_extension_themes: "reg_themes (foldl (add_extension rt) reg es) = reg_themes reg"
proof -
  have comp: "reg_themes (foldl (add_component rt) reg as) = reg_themes reg" for reg as
    by (induction as arbitrary: reg) (simp_all add: add_component_def add_annotator_def Let_def)
  have lang: "reg_themes (foldl (\<lambda>g l. add_language (extension_language rt l) g) reg ls) = reg_themes reg" for reg ls
    by (induction ls arbitrary: reg) (simp_all add: add_language_def)
  have "reg_themes (add_extension rt reg e) = reg_themes reg" for reg e
    by (simp add: add_extension_def Let_def comp lang)
  then show ?thesis by (induction es arbitrary: reg) simp_all
qed

lemma installed_sources:
  "src \<in> set (reg_themes (installed_registry rt sys toml)) \<Longrightarrow>
     src = omarchy_source sys \<or> src = directories_source sys (theme_dirs sys) \<or> (\<exists>dirs. src = extension_themes sys dirs)"
  by (auto simp: installed_registry_def add_extensions_def builtin_registry_def add_theme_source_def add_annotator_def
      add_language_def empty_registry_def Let_def add_extension_themes split: if_splits)

text \<open>
  Choosing a theme by a plain reference gives exactly the entry that is listed under that reference, or none when none is listed: the sources
  answer as they list, and earlier sources win in both.
\<close>

theorem listed_themes_resolve:
  assumes "plain_name r" "listed_name sys (theme_dirs sys) r"
  shows "resolve_theme sys (installed_registry rt sys toml) r =
    List.find (\<lambda>e. te_reference e = r) (registry_themes (installed_registry rt sys toml))"
proof -
  let ?reg = "installed_registry rt sys toml"
  have "src_resolve src r = List.find (\<lambda>e. te_reference e = r) (src_list src)" if "src \<in> set (reg_themes ?reg)" for src
    using installed_sources [OF that] assms
      omarchy.finds [of r sys] directories.finds [of r sys "theme_dirs sys"] ext_source.finds [where sys = sys and r = r]
    by (auto simp: omarchy_source_def directories_source_def extension_themes_def)
  then have "find_map (\<lambda>src. src_resolve src r) (reg_themes ?reg) =
      List.find (\<lambda>e. te_reference e = r) (concat (map src_list (reg_themes ?reg)))" by (rule sources_find)
  with assms(1) show ?thesis
    by (simp add: resolve_theme_def registry_themes_def add_entries_find plain_name_def)
qed

definition sample_system :: "(os_string \<Rightarrow> bool) \<Rightarrow> (os_string \<Rightarrow> os_string list option) \<Rightarrow> os_string option \<Rightarrow> theme_system" where
  "sample_system is_file entries home =
     \<lparr>ts_is_file = is_file, ts_is_dir = (\<lambda>_. False), ts_read = (\<lambda>_. Inl []), ts_entries = entries, ts_home = home,
      ts_config_home = None, ts_debug = id\<rparr>"

definition one_theme :: theme_system where
  "one_theme = sample_system (\<lambda>p. p = ''/usr/share/omarchy/themes/x/colors.toml'')
     (\<lambda>d. if d = ''/usr/share/omarchy/themes'' then Some [''x''] else None) None"

theorem listed_themes_resolve_witness:
  "\<forall>rt toml. resolve_theme one_theme (installed_registry rt one_theme toml) ''x'' =
     List.find (\<lambda>e. te_reference e = ''x'') (registry_themes (installed_registry rt one_theme toml))"
proof -
  have "plain_name ''x''" "listed_name one_theme (theme_dirs one_theme) ''x''" by code_simp+
  then show ?thesis using listed_themes_resolve by blast
qed

text \<open>
  The reference \<open>omarchy\<close> is not such a reference. A theme folder of that name is listed with its own file, and choosing it gives the file of the
  current Omarchy theme.
\<close>

definition omarchy_folder :: theme_system where
  "omarchy_folder = sample_system
     (\<lambda>p. p = ''/h/.local/state/omarchy/current/theme/colors.toml'' \<or> p = ''/h/.config/omarchy/themes/omarchy/colors.toml'')
     (\<lambda>d. if d = ''/h/.config/omarchy/themes'' then Some [''omarchy''] else None) (Some ''/h'')"

lemma builtin_themes: "reg_themes (builtin_registry rt sys) = [omarchy_source sys, directories_source sys (theme_dirs sys)]"
  by (simp add: builtin_registry_def add_theme_source_def add_annotator_def add_language_def empty_registry_def)

theorem omarchy_theme_shadowed:
  "\<lparr>te_label = ''omarchy'', te_reference = ''omarchy'', te_path = ''/h/.config/omarchy/themes/omarchy/colors.toml''\<rparr>
     \<in> set (registry_themes (builtin_registry rt omarchy_folder)) \<and>
   map_option te_path (resolve_theme omarchy_folder (builtin_registry rt omarchy_folder) ''omarchy'') =
     Some ''/h/.local/state/omarchy/current/theme/colors.toml''"
proof
  have "\<lparr>te_label = ''omarchy'', te_reference = ''omarchy'', te_path = ''/h/.config/omarchy/themes/omarchy/colors.toml''\<rparr>
     \<in> set (foldl add_entry [] (omarchy_list omarchy_folder @ directories_list omarchy_folder (theme_dirs omarchy_folder)))" by code_simp
  then show "\<lparr>te_label = ''omarchy'', te_reference = ''omarchy'', te_path = ''/h/.config/omarchy/themes/omarchy/colors.toml''\<rparr>
     \<in> set (registry_themes (builtin_registry rt omarchy_folder))"
    by (simp only: registry_themes_def builtin_themes list.map concat.simps omarchy_source_def directories_source_def theme_source.simps append_Nil2)
  have "map_option te_path (omarchy_resolve omarchy_folder ''omarchy'') = Some ''/h/.local/state/omarchy/current/theme/colors.toml''" by code_simp
  moreover have "\<not> (starts_with ''~'' ''omarchy'' \<or> CHR ''/'' \<in> set ''omarchy'')" by code_simp
  ultimately show "map_option te_path (resolve_theme omarchy_folder (builtin_registry rt omarchy_folder) ''omarchy'') =
     Some ''/h/.local/state/omarchy/current/theme/colors.toml''"
    by (auto simp: resolve_theme_def builtin_themes omarchy_source_def find_map_def map_filter_simps split: option.splits)
qed

end
