(* ===== verification/Heights.thy ===== *)
theory Heights
  imports Inline
begin

text \<open>
  The index of row heights, \<open>crates/core/src/height_index.rs\<close>: a binary indexed tree of floating-point sums. A finite single is an integer in
  units of 2^-149, the least distance of two singles. The doubles of this file are sums and differences of singles, so they are integers in the
  same unit; an operation rounds to 53 significant bits, and a conversion to a single rounds to 24 bits and overflows at 2^128. No double overflows:
  that takes more than 2^890 rows. The two zeros are not told apart.
\<close>

unbundle bit_operations_syntax

section \<open>Numbers\<close>

datatype f32 = F32 int | F32Inf | F32NegInf | F32NaN

text \<open>Round to \<open>p\<close> significant bits, to even in the middle.\<close>

definition round_sig :: "nat \<Rightarrow> nat \<Rightarrow> nat" where
  "round_sig p n =
     (if n < 2 ^ p then n
      else let e = bit_len n - p; q = n div 2 ^ e; r = n mod 2 ^ e; half = 2 ^ (e - 1) in
        (if r > half \<or> (r = half \<and> odd q) then q + 1 else q) * 2 ^ e)"

definition round_f64 :: "int \<Rightarrow> int" where
  "round_f64 n = sgn n * int (round_sig 53 (nat \<bar>n\<bar>))"

definition to_f32 :: "int \<Rightarrow> f32" where
  "to_f32 n =
     (let r = sgn n * int (round_sig 24 (nat \<bar>n\<bar>)) in
      if r \<ge> 2 ^ 277 then F32Inf else if r \<le> - (2 ^ 277) then F32NegInf else F32 r)"

definition ONE :: int where
  "ONE = 2 ^ 149"

section \<open>The index\<close>

record height_index =
  h_values :: "int list"
  h_tree :: "int list"

text \<open>\<open>i & (!i + 1)\<close>.\<close>

definition lowbit :: "nat \<Rightarrow> nat" where
  "lowbit i = nat (int i AND (NOT (int i) + 1))"

lemma odd_and_minus: "odd (y :: int) \<Longrightarrow> y AND - y = 1"
proof (rule bit_eqI)
  fix n
  assume odd: "odd y"
  have minus: "- y = NOT (y - 1)" by (simp add: not_eq_complement)
  show "bit (y AND - y) n \<longleftrightarrow> bit (1 :: int) n"
  proof (cases n)
    case 0
    with odd show ?thesis unfolding minus by (simp add: bit_0 even_and_iff)
  next
    case (Suc n')
    have "(y - 1) div 2 = y div 2" using odd by presburger
    then have "bit (y - 1) n \<longleftrightarrow> bit y n" by (simp add: Suc bit_Suc)
    moreover have "\<not> bit (1 :: int) n" by (simp add: Suc bit_1_iff)
    ultimately show ?thesis unfolding minus by (simp only: bit_and_iff bit_not_iff) simp
  qed
qed

lemma lowbit_odd:
  assumes "odd x"
  shows "lowbit (2 ^ k * x) = 2 ^ k"
proof -
  have "push_bit k (int x AND - int x) = 2 ^ k" using assms by (simp add: odd_and_minus push_bit_eq_mult)
  moreover have "push_bit k (int x AND - int x) = int (2 ^ k * x) AND - int (2 ^ k * x)"
    by (simp only: push_bit_and) (simp add: push_bit_eq_mult mult.commute)
  moreover have "NOT z + 1 = - z" for z :: int by (simp add: not_eq_complement)
  ultimately show ?thesis unfolding lowbit_def by (metis nat_int of_nat_numeral of_nat_power)
qed

lemma odd_part:
  assumes "0 < (i :: nat)"
  obtains k x where "i = 2 ^ k * x" "odd x"
proof -
  have "\<exists>k x. i = 2 ^ k * x \<and> odd x" using assms
  proof (induction i rule: less_induct)
    case (less i)
    show ?case
    proof (cases "even i")
      case True
      then obtain j where j: "i = 2 * j" by blast
      with less.IH [of j] less.prems obtain k x where "j = 2 ^ k * x" "odd x" by auto
      then have "i = 2 ^ Suc k * x \<and> odd x" by (simp add: j)
      then show ?thesis by blast
    next
      case False
      then have "i = 2 ^ 0 * i \<and> odd i" by simp
      then show ?thesis by blast
    qed
  qed
  then show ?thesis using that by blast
qed

lemma lowbit_bounds: "0 < i \<Longrightarrow> 0 < lowbit i \<and> lowbit i \<le> i"
  by (erule odd_part) (auto simp: lowbit_odd elim: oddE)

text \<open>The loop of \<open>set\<close>.\<close>

function add_up :: "int \<Rightarrow> nat \<Rightarrow> int list \<Rightarrow> int list" where
  "add_up delta i tree =
     (if 0 < i \<and> i < length tree then add_up delta (i + lowbit i) (tree[i := round_f64 (tree ! i + delta)]) else tree)"
  by pat_completeness auto
termination
  by (relation "measure (\<lambda>(_, i, tree). length tree - i)") (auto dest: lowbit_bounds)

declare add_up.simps [simp del]

definition set_height :: "nat \<Rightarrow> int \<Rightarrow> height_index \<Rightarrow> height_index" where
  "set_height index v h =
     (let delta = round_f64 (v - h_values h ! index) in
      \<lparr>h_values = (h_values h)[index := v], h_tree = add_up delta (index + 1) (h_tree h)\<rparr>)"

definition estimate_of :: "f32 \<Rightarrow> int" where
  "estimate_of estimate = (case estimate of F32 e \<Rightarrow> if e > 0 then e else 20 * ONE | _ \<Rightarrow> 20 * ONE)"

definition height_new :: "nat \<Rightarrow> f32 \<Rightarrow> height_index" where
  "height_new count estimate =
     foldl (\<lambda>h i. set_height i (estimate_of estimate) h) \<lparr>h_values = replicate count 0, h_tree = replicate (count + 1) 0\<rparr> [0..<count]"

definition height_update :: "nat \<Rightarrow> f32 \<Rightarrow> height_index \<Rightarrow> str + height_index" where
  "height_update index height h =
     (case height of
        F32 v \<Rightarrow> if index \<ge> length (h_values h) \<or> v \<le> 0 then Inl ''invalid row height'' else Inr (set_height index v h)
      | _ \<Rightarrow> Inl ''invalid row height'')"

function sum_down :: "int list \<Rightarrow> nat \<Rightarrow> int \<Rightarrow> int" where
  "sum_down tree i acc = (if 0 < i then sum_down tree (i - lowbit i) (round_f64 (acc + tree ! i)) else acc)"
  by pat_completeness auto
termination
  by (relation "measure (\<lambda>(_, i, _). i)") (auto dest: lowbit_bounds)

declare sum_down.simps [simp del]

definition height_prefix :: "height_index \<Rightarrow> nat \<Rightarrow> f32" where
  "height_prefix h count = to_f32 (sum_down (h_tree h) (min count (length (h_values h))) 0)"

definition height_total :: "height_index \<Rightarrow> f32" where
  "height_total h = height_prefix h (length (h_values h))"

text \<open>\<open>f32::min\<close> of a number with a total, as a double.\<close>

definition capped :: "int \<Rightarrow> f32 \<Rightarrow> int" where
  "capped y t = (case t of F32 n \<Rightarrow> min y n | _ \<Rightarrow> y)"

definition wanted_y :: "height_index \<Rightarrow> f32 \<Rightarrow> int" where
  "wanted_y h y = (case y of F32 n \<Rightarrow> capped (max n 0) (height_total h) | _ \<Rightarrow> 0)"

function bit_above :: "nat \<Rightarrow> nat \<Rightarrow> nat" where
  "bit_above n b = (if 0 < b \<and> b < n then bit_above n (2 * b) else b)"
  by pat_completeness auto
termination by (relation "measure (\<lambda>(n, b). n - b)") auto

declare bit_above.simps [simp del]

fun locate_loop :: "int list \<Rightarrow> int \<Rightarrow> nat \<Rightarrow> nat \<Rightarrow> int \<Rightarrow> nat" where
  "locate_loop tree y b index acc =
     (if b = 0 then index
      else let nxt = index + b in
        if nxt < length tree \<and> round_f64 (acc + tree ! nxt) \<le> y
        then locate_loop tree y (b div 2) nxt (round_f64 (acc + tree ! nxt))
        else locate_loop tree y (b div 2) index acc)"

declare locate_loop.simps [simp del]

text \<open>The difference from a prefix that overflowed is minus infinity, which is raised to zero.\<close>

definition offset_in :: "int \<Rightarrow> f32 \<Rightarrow> int \<Rightarrow> f32" where
  "offset_in y p v = to_f32 (min (case p of F32 n \<Rightarrow> max (round_f64 (y - n)) 0 | _ \<Rightarrow> 0) v)"

definition height_locate :: "height_index \<Rightarrow> f32 \<Rightarrow> nat \<times> f32" where
  "height_locate h y =
     (if h_values h = [] then (0, F32 0)
      else
        let y' = wanted_y h y;
            index = locate_loop (h_tree h) y' (bit_above (length (h_tree h)) 1) 0 0;
            i = min index (length (h_values h) - 1) in
        (i, offset_in y' (height_prefix h i) (h_values h ! i)))"

section \<open>Lowest bits\<close>

lemma lowbit_mult: "0 < x \<Longrightarrow> lowbit (2 ^ k * x) = 2 ^ k * lowbit x"
proof (erule odd_part)
  fix j z assume "x = 2 ^ j * z" "odd z"
  then show ?thesis using lowbit_odd [of z "k + j"] lowbit_odd [of z j] by (simp add: power_add mult.assoc)
qed

lemma lowbit_between:
  assumes "0 < i" "0 < r" "r < lowbit i"
  shows "lowbit (i + r) = lowbit r"
proof -
  obtain k x where i: "i = 2 ^ k * x" "odd x" using assms(1) by (rule odd_part)
  obtain a z where r: "r = 2 ^ a * z" "odd z" using assms(2) by (rule odd_part)
  have "(2 :: nat) ^ a \<le> r" using r by (auto elim: oddE)
  also have "\<dots> < 2 ^ k" using assms(3) i by (simp add: lowbit_odd)
  finally have "a < k" by simp
  then obtain d where d: "k = a + Suc d" using less_iff_Suc_add by auto
  have "i + r = 2 ^ a * (z + 2 * (2 ^ d * x))" by (simp add: i r d power_add algebra_simps)
  moreover have "odd (z + 2 * (2 ^ d * x))" using r(2) by simp
  ultimately have "lowbit (i + r) = 2 ^ a" using lowbit_odd by metis
  then show ?thesis unfolding r(1) lowbit_odd [OF r(2)] .
qed

lemma lowbit_next:
  assumes "0 < i"
  shows "2 * lowbit i \<le> lowbit (i + lowbit i)"
proof -
  obtain k x where i: "i = 2 ^ k * x" "odd x" using assms by (rule odd_part)
  then obtain m where m: "x = 2 * m + 1" by (auto elim: oddE)
  have "i + lowbit i = 2 ^ Suc k * (m + 1)" unfolding i(1) lowbit_odd [OF i(2)] by (simp add: m algebra_simps)
  then have "lowbit (i + lowbit i) = 2 ^ Suc k * lowbit (m + 1)" by (simp only: lowbit_mult)
  moreover have "1 \<le> lowbit (m + 1)" using lowbit_bounds [of "m + 1"] by simp
  ultimately show ?thesis using i by (simp add: lowbit_odd)
qed

section \<open>Exact rounding\<close>

lemma bit_len_le: "n < 2 ^ k \<Longrightarrow> bit_len n \<le> k"
proof (induction n arbitrary: k rule: bit_len.induct)
  case (1 n)
  show ?case
  proof (cases "n = 0")
    case False
    with "1.prems" obtain k' where k: "k = Suc k'" by (cases k) auto
    with "1.prems" have "n div 2 < 2 ^ k'" by simp
    with 1 False k show ?thesis by (subst bit_len.simps) simp
  qed (simp add: bit_len.simps)
qed

lemma round_sig_exact:
  assumes "2 ^ u dvd n" "n < 2 ^ (u + p)"
  shows "round_sig p n = n"
proof (cases "n < 2 ^ p")
  case False
  define e where "e = bit_len n - p"
  have "e \<le> u" using bit_len_le [OF assms(2)] by (simp add: e_def)
  then have "2 ^ e dvd n" using assms(1) by (meson dvd_trans le_imp_power_dvd)
  with False show ?thesis by (simp add: round_sig_def Let_def e_def [symmetric])
qed (simp add: round_sig_def)

text \<open>A number of at most 53 bits above the unit \<open>2 ^ u\<close>.\<close>

definition fits :: "nat \<Rightarrow> int \<Rightarrow> bool" where
  "fits u n \<longleftrightarrow> 2 ^ u dvd n \<and> \<bar>n\<bar> < 2 ^ (u + 53)"

lemma round_f64_exact:
  assumes "fits u n"
  shows "round_f64 n = n"
proof -
  have "int (2 ^ u) dvd int (nat \<bar>n\<bar>)" using assms by (simp add: fits_def)
  then have "2 ^ u dvd nat \<bar>n\<bar>" by (simp only: int_dvd_int_iff)
  moreover have "nat \<bar>n\<bar> < 2 ^ (u + 53)" using assms by (simp add: fits_def nat_less_iff)
  ultimately show ?thesis by (simp add: round_f64_def round_sig_exact sgn_mult_abs)
qed

section \<open>The tree holds sums\<close>

text \<open>Entry \<open>i\<close> of the tree is the sum of the \<open>lowbit i\<close> values before position \<open>i\<close>.\<close>

definition tree_sum :: "int list \<Rightarrow> nat \<Rightarrow> int" where
  "tree_sum vs i = sum_list (take i vs) - sum_list (take (i - lowbit i) vs)"

definition holds_sums :: "int list \<Rightarrow> int list \<Rightarrow> bool" where
  "holds_sums vs tree \<longleftrightarrow> length tree = Suc (length vs) \<and> (\<forall>i. 0 < i \<and> i \<le> length vs \<longrightarrow> tree ! i = tree_sum vs i)"

text \<open>Heights that are added exactly: multiples of \<open>2 ^ u\<close>, not negative, with a total of at most 53 bits above it.\<close>

definition exact_heights :: "nat \<Rightarrow> int list \<Rightarrow> bool" where
  "exact_heights u vs \<longleftrightarrow> list_all (\<lambda>v. 0 \<le> v \<and> 2 ^ u dvd v) vs \<and> sum_list vs < 2 ^ (u + 53)"

lemma sum_take_mono:
  assumes "list_all (\<lambda>v. 0 \<le> v) vs" "i \<le> j"
  shows "sum_list (take i vs) \<le> sum_list (take j vs :: int list)"
proof -
  have "take j vs = take i vs @ take (j - i) (drop i vs)" using assms(2) by (metis le_add_diff_inverse take_add)
  moreover have "0 \<le> sum_list (take (j - i) (drop i vs))"
    using assms(1) by (intro sum_list_nonneg) (auto simp: list_all_iff dest!: in_set_takeD in_set_dropD)
  ultimately show ?thesis by simp
qed

lemma sum_dvd: "list_all (\<lambda>v. d dvd v) vs \<Longrightarrow> d dvd sum_list (take i vs :: int list)"
  by (induction vs arbitrary: i) (auto simp: take_Cons split: nat.split)

lemma exact_take:
  assumes "exact_heights u vs"
  shows "0 \<le> sum_list (take i vs)" "sum_list (take i vs) < 2 ^ (u + 53)" "2 ^ u dvd sum_list (take i vs)"
proof -
  have n: "list_all (\<lambda>v. 0 \<le> v) vs" and d: "list_all (\<lambda>v. 2 ^ u dvd v) vs" using assms by (auto simp: exact_heights_def list_all_iff)
  show "0 \<le> sum_list (take i vs)" using sum_take_mono [OF n, of 0 i] by simp
  have "sum_list (take i vs) \<le> sum_list vs"
    using sum_take_mono [OF n, of i "max i (length vs)"] by simp
  then show "sum_list (take i vs) < 2 ^ (u + 53)" using assms by (simp add: exact_heights_def)
  show "2 ^ u dvd sum_list (take i vs)" by (rule sum_dvd [OF d])
qed

lemma fits_difference:
  assumes "exact_heights u vs" "exact_heights u ws"
  shows "fits u (sum_list (take i vs) - sum_list (take j ws))"
  using exact_take [OF assms(1), of i] exact_take [OF assms(2), of j] by (simp add: fits_def dvd_diff abs_less_iff)

lemma fits_take: "exact_heights u vs \<Longrightarrow> fits u (sum_list (take i vs))"
  using exact_take [of u vs i] by (simp add: fits_def)

text \<open>Which entries a value counts in.\<close>

definition covers :: "nat \<Rightarrow> nat \<Rightarrow> bool" where
  "covers k i \<longleftrightarrow> i - lowbit i < k \<and> k \<le> i"

lemma covers_next:
  assumes "0 < k" "covers k i"
  shows "covers k (i + lowbit i)" "i < j \<Longrightarrow> j < i + lowbit i \<Longrightarrow> \<not> covers k j"
proof -
  have i: "0 < i" "i - lowbit i < k" "k \<le> i" using assms by (auto simp: covers_def)
  then have b: "0 < lowbit i" "lowbit i \<le> i" using lowbit_bounds by auto
  have "i + lowbit i - lowbit (i + lowbit i) \<le> i - lowbit i" using lowbit_next [OF i(1)] by simp
  then show "covers k (i + lowbit i)" using i by (simp add: covers_def)
  assume j: "i < j" "j < i + lowbit i"
  define r where "r = j - i"
  have "0 < r" "r < lowbit i" "j = i + r" using j by (auto simp: r_def)
  then have "lowbit j \<le> r" using lowbit_between [OF i(1)] lowbit_bounds [of r] by simp
  then have "i \<le> j - lowbit j" using \<open>j = i + r\<close> by simp
  then show "\<not> covers k j" using i by (simp add: covers_def)
qed

lemma add_up_covers:
  assumes "0 < k" "covers k i" "\<And>j. i \<le> j \<Longrightarrow> j < length tree \<Longrightarrow> covers k j \<Longrightarrow> round_f64 (tree ! j + delta) = tree ! j + delta"
  shows "length (add_up delta i tree) = length tree \<and>
    (\<forall>j < length tree. add_up delta i tree ! j = tree ! j + (if i \<le> j \<and> covers k j then delta else 0))"
  using assms
proof (induction delta i tree rule: add_up.induct)
  case (1 delta i tree)
  have i: "0 < i" using "1.prems" by (auto simp: covers_def)
  show ?case
  proof (cases "i < length tree")
    case False
    then show ?thesis by (subst (1 2) add_up.simps) simp
  next
    case True
    let ?t = "tree[i := round_f64 (tree ! i + delta)]"
    have lb: "0 < lowbit i" using lowbit_bounds [OF i] by simp
    have ti: "round_f64 (tree ! i + delta) = tree ! i + delta" using "1.prems"(2,3) True by simp
    have ih: "length (add_up delta (i + lowbit i) ?t) = length ?t \<and>
        (\<forall>j < length ?t. add_up delta (i + lowbit i) ?t ! j = ?t ! j + (if i + lowbit i \<le> j \<and> covers k j then delta else 0))"
      using True i "1.prems" covers_next [OF "1.prems"(1,2)] lb by (intro "1.IH") auto
    have "add_up delta (i + lowbit i) ?t ! j = tree ! j + (if i \<le> j \<and> covers k j then delta else 0)" if "j < length tree" for j
    proof (cases "j = i")
      case True
      with ih that "1.prems"(2) lb ti show ?thesis by auto
    next
      case False
      then have "(i + lowbit i \<le> j \<and> covers k j) \<longleftrightarrow> (i \<le> j \<and> covers k j)"
        using covers_next(2) [OF "1.prems"(1,2), of j] lb False by (metis le_eq_less_or_eq not_le trans_le_add1)
      with ih that False show ?thesis by auto
    qed
    moreover have "add_up delta i tree = add_up delta (i + lowbit i) ?t" using True i by (subst add_up.simps) simp
    ultimately show ?thesis using ih by simp
  qed
qed

lemma sum_list_upd: "k < length xs \<Longrightarrow> sum_list (xs[k := v]) = sum_list xs + (v - xs ! k :: int)"
  by (induction xs arbitrary: k) (auto simp: nth_Cons split: nat.split)

lemma sum_take_update:
  assumes "k < length vs"
  shows "sum_list (take i (vs[k := v])) = sum_list (take i vs) + (if k < i then v - vs ! k else 0 :: int)"
proof (cases "k < i")
  case True
  then have "take i (vs[k := v]) = (take i vs)[k := v]" by (simp add: take_update_swap)
  with True assms show ?thesis by (simp add: sum_list_upd)
next
  case False
  then show ?thesis by simp
qed

lemma tree_sum_update:
  assumes "k < length vs" "0 < i"
  shows "tree_sum (vs[k := v]) i = tree_sum vs i + (if covers (Suc k) i then v - vs ! k else 0)"
  using lowbit_bounds [OF assms(2)] by (simp add: tree_sum_def sum_take_update [OF assms(1)] covers_def) linarith

lemma set_height_sums:
  assumes "holds_sums (h_values h) (h_tree h)" "k < length (h_values h)" "exact_heights u (h_values h)" "exact_heights u ((h_values h)[k := v])"
  shows "holds_sums (h_values (set_height k v h)) (h_tree (set_height k v h)) \<and> h_values (set_height k v h) = (h_values h)[k := v]"
proof -
  let ?vs = "h_values h" and ?ws = "(h_values h)[k := v]"
  have delta: "round_f64 (v - ?vs ! k) = v - ?vs ! k"
  proof (rule round_f64_exact [of u])
    have "v - ?vs ! k = sum_list (take (length ?vs) ?ws) - sum_list (take (length ?vs) ?vs)"
      using assms(2) by (simp only: sum_take_update) simp
    then show "fits u (v - ?vs ! k)" by (simp only: fits_difference [OF assms(4,3)])
  qed
  have c: "covers (Suc k) (Suc k)" using lowbit_bounds [of "Suc k"] by (simp add: covers_def)
  have len: "length (h_tree h) = Suc (length ?vs)" using assms(1) by (simp add: holds_sums_def)
  have new: "h_tree h ! j + (v - ?vs ! k) = tree_sum ?ws j" if "Suc k \<le> j" "j < length (h_tree h)" "covers (Suc k) j" for j
    using assms(1) that len by (simp add: holds_sums_def tree_sum_update [OF assms(2)])
  have "round_f64 (h_tree h ! j + (v - ?vs ! k)) = h_tree h ! j + (v - ?vs ! k)"
    if "Suc k \<le> j" "j < length (h_tree h)" "covers (Suc k) j" for j
    unfolding new [OF that] by (rule round_f64_exact [of u]) (simp add: tree_sum_def fits_difference [OF assms(4,4)])
  then have add: "length (add_up (v - ?vs ! k) (Suc k) (h_tree h)) = length (h_tree h)"
    "\<forall>j < length (h_tree h). add_up (v - ?vs ! k) (Suc k) (h_tree h) ! j =
       h_tree h ! j + (if Suc k \<le> j \<and> covers (Suc k) j then v - ?vs ! k else 0)"
    using add_up_covers [OF _ c, of "h_tree h" "v - ?vs ! k"] by auto
  have "add_up (v - ?vs ! k) (Suc k) (h_tree h) ! i = tree_sum ?ws i" if "0 < i" "i \<le> length ?vs" for i
  proof -
    have "add_up (v - ?vs ! k) (Suc k) (h_tree h) ! i = tree_sum ?vs i + (if Suc k \<le> i \<and> covers (Suc k) i then v - ?vs ! k else 0)"
      using add(2) that len assms(1) by (simp add: holds_sums_def)
    also have "(Suc k \<le> i \<and> covers (Suc k) i) \<longleftrightarrow> covers (Suc k) i" by (auto simp: covers_def)
    finally show ?thesis using tree_sum_update [OF assms(2) that(1)] by simp
  qed
  then show ?thesis using add(1) len by (simp add: set_height_def Let_def delta holds_sums_def)
qed

section \<open>An index that was built\<close>

text \<open>An index made by \<open>height_new\<close> and updates, with the heights it stands for, all of them added exactly.\<close>

inductive height_built :: "nat \<Rightarrow> int list \<Rightarrow> height_index \<Rightarrow> bool" for u :: nat where
  built_new: "exact_heights u (replicate count (estimate_of e)) \<Longrightarrow>
    height_built u (replicate count (estimate_of e)) (height_new count e)"
| built_update: "height_built u vs h \<Longrightarrow> height_update k (F32 v) h = Inr h' \<Longrightarrow> exact_heights u (vs[k := v]) \<Longrightarrow>
    height_built u (vs[k := v]) h'"

lemma new_heights:
  assumes "exact_heights u (replicate count v)" "m \<le> count"
  defines "h \<equiv> foldl (\<lambda>h i. set_height i v h) \<lparr>h_values = replicate count 0, h_tree = replicate (count + 1) 0\<rparr> [0..<m]"
  shows "holds_sums (h_values h) (h_tree h) \<and> h_values h = replicate m v @ replicate (count - m) 0"
  using assms(2) unfolding h_def
proof (induction m)
  case 0
  show ?case by (auto simp: holds_sums_def tree_sum_def sum_list_replicate nth_Cons')
next
  case (Suc m)
  let ?h = "foldl (\<lambda>h i. set_height i v h) \<lparr>h_values = replicate count 0, h_tree = replicate (count + 1) 0\<rparr> [0..<m]"
  have ih: "holds_sums (h_values ?h) (h_tree ?h)" "h_values ?h = replicate m v @ replicate (count - m) 0" using Suc by auto
  obtain k where k: "count - m = Suc k" using Suc.prems by (cases "count - m") auto
  have upd: "(h_values ?h)[m := v] = replicate (Suc m) v @ replicate (count - Suc m) 0"
  proof -
    have "count - Suc m = k" using k by simp
    moreover have "replicate (Suc m) v = replicate m v @ [v]" by (simp add: replicate_append_same)
    ultimately show ?thesis unfolding ih(2) k by (simp add: list_update_append)
  qed
  have part: "exact_heights u (replicate n v @ replicate (count - n) 0)" if "n \<le> count" for n
  proof (cases "n = 0")
    case False
    with that assms(1) have v: "0 \<le> v" "2 ^ u dvd v" "int count * v < 2 ^ (u + 53)"
      by (auto simp: exact_heights_def list_all_iff sum_list_replicate split: if_splits)
    have "int n * v \<le> int count * v" using that v(1) by (simp add: mult_right_mono)
    with v show ?thesis by (auto simp: exact_heights_def list_all_iff sum_list_replicate)
  qed (simp add: exact_heights_def list_all_iff sum_list_replicate)
  have "holds_sums (h_values (set_height m v ?h)) (h_tree (set_height m v ?h)) \<and> h_values (set_height m v ?h) = (h_values ?h)[m := v]"
  proof (rule set_height_sums [OF ih(1), of m u v])
    show "m < length (h_values ?h)" unfolding ih(2) using Suc.prems by simp
    show "exact_heights u (h_values ?h)" unfolding ih(2) using part [of m] Suc.prems by simp
    show "exact_heights u ((h_values ?h)[m := v])" unfolding upd using Suc.prems by (rule part)
  qed
  then show ?case unfolding upd by auto
qed

lemma height_built_sums:
  assumes "height_built u vs h"
  shows "h_values h = vs \<and> holds_sums vs (h_tree h) \<and> exact_heights u vs \<and> list_all (\<lambda>v. 0 < v) vs"
  using assms
proof (induction rule: height_built.induct)
  case (built_new count e)
  have "0 < estimate_of e" by (auto simp: estimate_of_def ONE_def split: f32.split)
  moreover have "holds_sums (h_values (height_new count e)) (h_tree (height_new count e)) \<and>
      h_values (height_new count e) = replicate count (estimate_of e)"
    using new_heights [OF built_new, of count] by (auto simp: height_new_def)
  ultimately show ?case using built_new by (auto simp: list_all_iff)
next
  case (built_update vs h k v h')
  then have h': "h' = set_height k v h" and k: "k < length vs" "0 < v" by (auto simp: height_update_def split: if_splits)
  with built_update set_height_sums [of h k u v] have "h_values h' = vs[k := v] \<and> holds_sums (vs[k := v]) (h_tree h')" by auto
  then show ?case using built_update k(2) by (auto simp: list_all_iff dest: set_update_subset_insert [THEN subsetD])
qed

lemma sum_down_exact:
  assumes "holds_sums vs tree" "exact_heights u vs" "i \<le> n" "n \<le> length vs"
  shows "sum_down tree i (sum_list (take n vs) - sum_list (take i vs)) = sum_list (take n vs)"
  using assms(3)
proof (induction i rule: less_induct)
  case (less i)
  show ?case
  proof (cases "0 < i")
    case True
    note lb = lowbit_bounds [OF True]
    have "tree ! i = tree_sum vs i" using assms(1,4) less.prems True by (simp add: holds_sums_def)
    then have "round_f64 (sum_list (take n vs) - sum_list (take i vs) + tree ! i) = sum_list (take n vs) - sum_list (take (i - lowbit i) vs)"
      using round_f64_exact [OF fits_difference [OF assms(2,2), of n "i - lowbit i"]] by (simp add: tree_sum_def)
    then show ?thesis using less.IH [of "i - lowbit i"] less.prems lb True by (subst sum_down.simps) simp
  qed (simp add: sum_down.simps)
qed

lemma prefix_exact:
  assumes "height_built u vs h"
  shows "height_prefix h n = to_f32 (sum_list (take n vs))"
proof -
  note b = height_built_sums [OF assms]
  have "sum_down (h_tree h) (min n (length vs)) 0 = sum_list (take (min n (length vs)) vs)"
    using sum_down_exact [of vs "h_tree h" u "min n (length vs)" "min n (length vs)"] b by simp
  moreover have "take (min n (length vs)) vs = take n vs" by (simp add: min_def)
  ultimately show ?thesis using b by (simp add: height_prefix_def)
qed

section \<open>Locating a position\<close>

lemma bit_above_power: "\<exists>k. bit_above n (2 ^ j) = 2 ^ k \<and> n \<le> 2 ^ k"
proof (induction "n - 2 ^ j" arbitrary: j rule: less_induct)
  case less
  show ?case
  proof (cases "(2 :: nat) ^ j < n")
    case True
    then have "n - 2 ^ Suc j < n - 2 ^ j" by (intro diff_less_mono2) simp_all
    from less [OF this] True show ?thesis by (subst bit_above.simps) simp
  next
    case False
    then show ?thesis by (subst bit_above.simps) auto
  qed
qed

lemma locate_loop_finds:
  assumes "holds_sums vs tree" "exact_heights u vs" "2 ^ k dvd index" "index \<le> length vs" "sum_list (take index vs) \<le> y"
    "\<And>j. j \<le> length vs \<Longrightarrow> index + 2 ^ k \<le> j \<Longrightarrow> y < sum_list (take j vs)"
  shows "\<exists>r. locate_loop tree y (2 ^ k div 2) index (sum_list (take index vs)) = r \<and> r \<le> length vs \<and> sum_list (take r vs) \<le> y \<and>
    (\<forall>j \<le> length vs. r < j \<longrightarrow> y < sum_list (take j vs))"
  using assms(3-)
proof (induction k arbitrary: index)
  case 0
  then show ?case by (auto simp: locate_loop.simps)
next
  case (Suc k)
  let ?S = "\<lambda>j. sum_list (take j vs)" and ?n = "index + 2 ^ k"
  obtain q where q: "index = 2 ^ Suc k * q" using Suc.prems(1) by blast
  have low: "lowbit ?n = 2 ^ k" using lowbit_odd [of "2 * q + 1" k] by (simp add: q algebra_simps)
  have d: "2 ^ k dvd index" "2 ^ k dvd ?n" by (simp_all add: q)
  show ?case
  proof (cases "?n \<le> length vs")
    case False
    have "\<exists>r. locate_loop tree y (2 ^ k div 2) index (?S index) = r \<and> r \<le> length vs \<and> ?S r \<le> y \<and> (\<forall>j \<le> length vs. r < j \<longrightarrow> y < ?S j)"
      using False d Suc.prems by (intro Suc.IH) auto
    then show ?thesis using False assms(1) by (subst locate_loop.simps) (simp add: holds_sums_def Let_def)
  next
    case True
    have "tree ! ?n = ?S ?n - ?S index" using assms(1) True low by (simp add: holds_sums_def tree_sum_def)
    then have acc: "round_f64 (?S index + tree ! ?n) = ?S ?n" using round_f64_exact [OF fits_take [OF assms(2), of ?n]] by simp
    have nz: "list_all (\<lambda>v. 0 \<le> v) vs" using assms(2) by (simp add: exact_heights_def list_all_iff)
    show ?thesis
    proof (cases "?S ?n \<le> y")
      case True': True
      have "\<exists>r. locate_loop tree y (2 ^ k div 2) ?n (?S ?n) = r \<and> r \<le> length vs \<and> ?S r \<le> y \<and> (\<forall>j \<le> length vs. r < j \<longrightarrow> y < ?S j)"
        using True True' d Suc.prems(4) by (intro Suc.IH) (auto simp: add.assoc)
      then show ?thesis using True True' assms(1) acc by (subst locate_loop.simps) (simp add: holds_sums_def Let_def)
    next
      case False
      have "y < ?S j" if "j \<le> length vs" "?n \<le> j" for j using False sum_take_mono [OF nz that(2)] by simp
      then have "\<exists>r. locate_loop tree y (2 ^ k div 2) index (?S index) = r \<and> r \<le> length vs \<and> ?S r \<le> y \<and> (\<forall>j \<le> length vs. r < j \<longrightarrow> y < ?S j)"
        using d Suc.prems by (intro Suc.IH) auto
      then show ?thesis using False assms(1) acc by (subst locate_loop.simps) (simp add: holds_sums_def Let_def)
    qed
  qed
qed

lemma wanted_nonneg:
  assumes "height_built u vs h"
  shows "0 \<le> wanted_y h y"
proof -
  have "0 \<le> sum_list (take (length vs) vs)" using exact_take(1) height_built_sums [OF assms] by blast
  then have "0 \<le> r" if "height_total h = F32 r" for r
    using that unfolding height_total_def prefix_exact [OF assms] to_f32_def using height_built_sums [OF assms]
    by (auto simp: Let_def sgn_if split: if_splits)
  then show ?thesis by (auto simp: wanted_y_def capped_def split: f32.split)
qed

text \<open>
  Claim C37. The index of heights computes sums: while the heights are added exactly, whatever the order of the updates, a prefix is the sum of the heights before
  the row, rounded once; and the located row is the one that holds the wanted position, which is first brought into the range of the document.
\<close>

theorem height_index_exact:
  assumes "height_built u vs h"
  shows "height_prefix h n = to_f32 (sum_list (take n vs)) \<and>
    (vs \<noteq> [] \<longrightarrow>
      (case height_locate h y of (i, off) \<Rightarrow>
         i < length vs \<and> sum_list (take i vs) \<le> wanted_y h y \<and>
         (Suc i < length vs \<longrightarrow> wanted_y h y < sum_list (take (Suc i) vs)) \<and>
         off = offset_in (wanted_y h y) (to_f32 (sum_list (take i vs))) (vs ! i)))"
proof (intro conjI impI)
  show "height_prefix h n = to_f32 (sum_list (take n vs))" by (rule prefix_exact [OF assms])
  assume ne: "vs \<noteq> []"
  note b = height_built_sums [OF assms]
  define y' where "y' = wanted_y h y"
  obtain k where k: "bit_above (length (h_tree h)) (2 ^ 0) = 2 ^ k" "length (h_tree h) \<le> 2 ^ k" using bit_above_power by blast
  have "\<exists>r. locate_loop (h_tree h) y' (2 ^ Suc k div 2) 0 (sum_list (take 0 vs)) = r \<and> r \<le> length vs \<and> sum_list (take r vs) \<le> y' \<and>
      (\<forall>j \<le> length vs. r < j \<longrightarrow> y' < sum_list (take j vs))"
    using b k(2) wanted_nonneg [OF assms, of y] by (intro locate_loop_finds [of _ _ u]) (auto simp: y'_def holds_sums_def)
  then obtain r where r: "locate_loop (h_tree h) y' (2 ^ k) 0 0 = r" "r \<le> length vs" "sum_list (take r vs) \<le> y'"
    "\<forall>j \<le> length vs. r < j \<longrightarrow> y' < sum_list (take j vs)" by auto
  define i where "i = min r (length vs - 1)"
  have loc: "height_locate h y = (i, offset_in y' (to_f32 (sum_list (take i vs))) (vs ! i))"
    using b ne k(1) r(1) by (simp add: height_locate_def Let_def y'_def [symmetric] i_def prefix_exact [OF assms])
  have nz: "list_all (\<lambda>v. 0 \<le> v) vs" using b by (simp add: exact_heights_def list_all_iff)
  have "sum_list (take i vs) \<le> sum_list (take r vs)" by (rule sum_take_mono [OF nz]) (simp add: i_def)
  moreover have "y' < sum_list (take (Suc i) vs)" if "Suc i < length vs" using that r(4) by (auto simp: i_def min_def split: if_splits)
  moreover have "i < length vs" using ne by (cases vs) (auto simp: i_def)
  ultimately show "case height_locate h y of (i, off) \<Rightarrow>
         i < length vs \<and> sum_list (take i vs) \<le> wanted_y h y \<and>
         (Suc i < length vs \<longrightarrow> wanted_y h y < sum_list (take (Suc i) vs)) \<and>
         off = offset_in (wanted_y h y) (to_f32 (sum_list (take i vs))) (vs ! i)"
    using r(3) by (simp add: loc y'_def [symmetric])
qed

theorem height_index_exact_witness:
  "height_prefix (height_new 3 (F32 (20 * ONE))) 2 = to_f32 (40 * ONE)"
proof -
  have "exact_heights 149 (replicate 3 (estimate_of (F32 (20 * ONE))))"
    by (simp add: exact_heights_def estimate_of_def ONE_def eval_nat_numeral(2,3))
  from height_index_exact [OF built_new [OF this], of 2] show ?thesis
    by (simp add: estimate_of_def ONE_def eval_nat_numeral(2,3))
qed

end
