(* ===== verification/Scroll.thy ===== *)
theory Scroll
  imports Heights
begin

text \<open>
  Turning to the next file at an edge, \<open>BoundaryScroll\<close> of \<open>crates/core/src/scroll.rs\<close>, with the singles of \<open>Heights\<close>: an addition of two of them
  is exact in units of 2^-149 and is then rounded. The coasting after a finger lifts rests on \<open>exp\<close> and \<open>ln\<close> and is not modelled.
\<close>

section \<open>Singles\<close>

fun f32_add :: "f32 \<Rightarrow> f32 \<Rightarrow> f32" where
  "f32_add (F32 a) (F32 b) = to_f32 (a + b)"
| "f32_add F32NaN _ = F32NaN"
| "f32_add _ F32NaN = F32NaN"
| "f32_add F32Inf F32NegInf = F32NaN"
| "f32_add F32NegInf F32Inf = F32NaN"
| "f32_add F32Inf _ = F32Inf"
| "f32_add _ F32Inf = F32Inf"
| "f32_add F32NegInf _ = F32NegInf"
| "f32_add _ F32NegInf = F32NegInf"

fun f32_abs :: "f32 \<Rightarrow> f32" where
  "f32_abs (F32 a) = F32 \<bar>a\<bar>"
| "f32_abs F32NaN = F32NaN"
| "f32_abs _ = F32Inf"

fun f32_at_least :: "f32 \<Rightarrow> int \<Rightarrow> bool" where
  "f32_at_least (F32 a) n \<longleftrightarrow> n \<le> a"
| "f32_at_least F32Inf _ \<longleftrightarrow> True"
| "f32_at_least _ _ \<longleftrightarrow> False"

definition direction :: "f32 \<Rightarrow> int" where
  "direction d = (case d of F32 a \<Rightarrow> sgn a | F32Inf \<Rightarrow> 1 | F32NegInf \<Rightarrow> - 1 | F32NaN \<Rightarrow> 0)"

section \<open>The gate at an edge\<close>

definition PULL_THRESHOLD :: int where
  "PULL_THRESHOLD = 120 * ONE"

record boundary =
  bs_armed :: int
  bs_pulling :: bool
  bs_progress :: f32

definition boundary_new :: boundary where
  "boundary_new = \<lparr>bs_armed = 0, bs_pulling = False, bs_progress = F32 0\<rparr>"

definition stop_pull :: "boundary \<Rightarrow> boundary" where
  "stop_pull b = b\<lparr>bs_pulling := False, bs_progress := F32 0\<rparr>"

definition begin_pull :: "int \<Rightarrow> bool \<Rightarrow> boundary \<Rightarrow> boundary" where
  "begin_pull edge fresh b = (if fresh then b\<lparr>bs_pulling := (bs_armed b = edge), bs_progress := F32 0\<rparr> else b)"

definition boundary_update :: "int \<Rightarrow> f32 \<Rightarrow> bool \<Rightarrow> boundary \<Rightarrow> boundary \<times> int option" where
  "boundary_update edge delta fresh b =
     (if edge = 0 then (stop_pull (b\<lparr>bs_armed := direction delta\<rparr>), None)
      else if edge \<noteq> direction delta then (stop_pull (b\<lparr>bs_armed := 0\<rparr>), None)
      else
        let b1 = begin_pull edge fresh b in
        if \<not> bs_pulling b1 then (b1\<lparr>bs_armed := edge\<rparr>, None)
        else
          let p = f32_add (bs_progress b1) (f32_abs delta) in
          if f32_at_least p PULL_THRESHOLD then (boundary_new, Some edge) else (b1\<lparr>bs_progress := p\<rparr>, None))"

definition boundary_arm :: "int \<Rightarrow> boundary \<Rightarrow> boundary" where
  "boundary_arm edge b = stop_pull (b\<lparr>bs_armed := edge\<rparr>)"

definition boundary_release :: "boundary \<Rightarrow> boundary" where
  "boundary_release b = stop_pull b"

definition boundary_pulling :: "boundary \<Rightarrow> int" where
  "boundary_pulling b = (if bs_pulling b then bs_armed b else 0)"

section \<open>What a turn takes\<close>

datatype boundary_event = Scrolled int f32 bool | Armed int | Released

fun boundary_event_step :: "boundary \<Rightarrow> boundary_event \<Rightarrow> boundary" where
  "boundary_event_step b (Scrolled edge delta fresh) = fst (boundary_update edge delta fresh b)"
| "boundary_event_step b (Armed edge) = boundary_arm edge b"
| "boundary_event_step b Released = boundary_release b"

definition boundary_after :: "boundary_event list \<Rightarrow> boundary" where
  "boundary_after evs = foldl boundary_event_step boundary_new evs"

text \<open>One gesture against an edge, as edges and deltas: the first event starts the gesture, the others continue it.\<close>

definition gesture :: "(int \<times> f32) list \<Rightarrow> boundary_event list" where
  "gesture g = map (\<lambda>(i, edge, d). Scrolled edge d (i = 0)) (enumerate 0 g)"

definition pulled :: "(int \<times> f32) list \<Rightarrow> f32" where
  "pulled g = foldl (\<lambda>p (_, d). f32_add p (f32_abs d)) (F32 0) g"

text \<open>The events end with a gesture that pulls at an edge all the time, and that found the gate armed for its first edge.\<close>

definition pulls :: "boundary_event list \<Rightarrow> (int \<times> f32) list \<Rightarrow> bool" where
  "pulls evs g \<longleftrightarrow> g \<noteq> [] \<and> list_all (\<lambda>(edge, d). edge \<noteq> 0 \<and> direction d = edge) g \<and>
     (\<exists>pre. evs = pre @ gesture g \<and> bs_armed (boundary_after pre) = fst (hd g))"

lemma gesture_snoc: "g \<noteq> [] \<Longrightarrow> gesture (g @ [(edge, d)]) = gesture g @ [Scrolled edge d False]"
  by (simp add: gesture_def enumerate_append_eq)

lemma pulls_snoc: "pulls evs g \<Longrightarrow> edge \<noteq> 0 \<Longrightarrow> direction d = edge \<Longrightarrow> pulls (evs @ [Scrolled edge d False]) (g @ [(edge, d)])"
  by (auto simp: pulls_def gesture_snoc)

lemma pulls_first: "edge \<noteq> 0 \<Longrightarrow> direction d = edge \<Longrightarrow> bs_armed (boundary_after evs) = edge \<Longrightarrow> pulls (evs @ [Scrolled edge d True]) [(edge, d)]"
  by (auto simp: pulls_def gesture_def)

lemma after_snoc: "boundary_after (evs @ [e]) = boundary_event_step (boundary_after evs) e"
  by (simp add: boundary_after_def)

lemma pulled_snoc: "pulled (g @ [(edge, d)]) = f32_add (pulled g) (f32_abs d)"
  by (simp add: pulled_def)

lemma stop_pull_not [simp]: "bs_pulling (stop_pull b) = False"
  by (simp add: stop_pull_def)

definition pull_known :: "boundary_event list \<Rightarrow> bool" where
  "pull_known evs \<longleftrightarrow> (bs_pulling (boundary_after evs) \<longrightarrow> (\<exists>g. pulls evs g \<and> bs_progress (boundary_after evs) = pulled g))"

lemma pull_of_update:
  assumes known: "pull_known evs" and e: "edge \<noteq> 0" "direction d = edge"
    and p: "bs_pulling (begin_pull edge fresh (boundary_after evs))"
  shows "\<exists>g. pulls (evs @ [Scrolled edge d fresh]) g \<and> fst (last g) = edge \<and>
    f32_add (bs_progress (begin_pull edge fresh (boundary_after evs))) (f32_abs d) = pulled g"
proof (cases fresh)
  case True
  with p have "bs_armed (boundary_after evs) = edge" by (simp add: begin_pull_def)
  then have "pulls (evs @ [Scrolled edge d fresh]) [(edge, d)]" using True pulls_first [OF e] by simp
  then show ?thesis using True by (intro exI [of _ "[(edge, d)]"]) (simp add: begin_pull_def pulled_def)
next
  case False
  with p known obtain g where g: "pulls evs g" "bs_progress (boundary_after evs) = pulled g" by (auto simp: begin_pull_def pull_known_def)
  from pulls_snoc [OF g(1) e] False g(2) show ?thesis
    by (intro exI [of _ "g @ [(edge, d)]"]) (simp add: begin_pull_def pulled_snoc)
qed

lemma pull_known_step:
  assumes "pull_known evs"
  shows "pull_known (evs @ [e])"
proof (cases e)
  case (Scrolled edge d fresh)
  let ?b = "begin_pull edge fresh (boundary_after evs)"
  show ?thesis
  proof (cases "edge \<noteq> 0 \<and> direction d = edge \<and> bs_pulling ?b")
    case True
    then show ?thesis using pull_of_update [OF assms, of edge d fresh]
      by (auto simp: pull_known_def after_snoc Scrolled boundary_update_def Let_def boundary_new_def)
  next
    case False
    then show ?thesis by (auto simp: pull_known_def after_snoc Scrolled boundary_update_def Let_def)
  qed
qed (simp_all add: pull_known_def after_snoc boundary_arm_def boundary_release_def)

text \<open>
  A file is turned only by a gesture that began with the gate armed for its first edge, pulled at an edge with every event, and has pulled as
  far as the threshold; in particular the gesture that reaches an edge never turns the file.
\<close>

theorem boundary_turn_pulled:
  assumes "snd (boundary_update edge d fresh (boundary_after evs)) = Some turned"
  shows "turned = edge \<and> (\<exists>g. pulls (evs @ [Scrolled edge d fresh]) g \<and> fst (last g) = edge \<and> f32_at_least (pulled g) PULL_THRESHOLD)"
proof -
  have known: "pull_known evs"
  proof (induction evs rule: rev_induct)
    case Nil
    then show ?case by (simp add: pull_known_def boundary_after_def boundary_new_def)
  qed (rule pull_known_step)
  from assms have e: "edge \<noteq> 0" "direction d = edge" "bs_pulling (begin_pull edge fresh (boundary_after evs))" "turned = edge"
    "f32_at_least (f32_add (bs_progress (begin_pull edge fresh (boundary_after evs))) (f32_abs d)) PULL_THRESHOLD"
    by (auto simp: boundary_update_def Let_def split: if_splits)
  with pull_of_update [OF known e(1,2,3)] show ?thesis by auto
qed

text \<open>
  The edge may change within the gesture. In a file that fits the view, 100 pixels down and then 30 pixels up in one gesture turn to the previous file.
\<close>

lemma to_f32_whole:
  assumes "0 \<le> n" "n < 2 ^ 24"
  shows "to_f32 (n * ONE) = F32 (n * ONE)"
proof -
  define m where "m = nat n"
  have n: "n = int m" and m: "m < 2 ^ 24" using assms by (auto simp: m_def nat_less_iff)
  have one: "ONE = int (2 ^ 149)" by (simp only: ONE_def of_nat_power of_nat_numeral)
  have abs: "nat \<bar>n * ONE\<bar> = m * 2 ^ 149" unfolding n one of_nat_mult [symmetric] by (simp only: abs_of_nat nat_int)
  have "m * 2 ^ 149 < 2 ^ 24 * 2 ^ 149" using m by (intro mult_strict_right_mono) (simp_all only: zero_less_power zero_less_numeral)
  then have "m * 2 ^ 149 < 2 ^ (149 + 24)" by (simp only: power_add mult.commute)
  then have "round_sig 24 (m * 2 ^ 149) = m * 2 ^ 149" by (intro round_sig_exact [of 149]) (simp_all only: dvd_triv_right)
  then have r: "sgn (n * ONE) * int (round_sig 24 (nat \<bar>n * ONE\<bar>)) = n * ONE"
    unfolding abs using assms by (simp add: n one sgn_if)
  have "n * ONE < 2 ^ 24 * 2 ^ 149" using assms unfolding ONE_def by (intro mult_strict_right_mono) simp_all
  also have "\<dots> < (2 :: int) ^ 277" by (simp only: power_add [symmetric]) simp
  finally show ?thesis using assms unfolding to_f32_def r by (simp add: Let_def ONE_def)
qed

theorem boundary_turns_back:
  "snd (boundary_update (- 1) (F32 (- 30 * ONE)) False
     (boundary_after [Scrolled 1 (F32 (20 * ONE)) True, Released, Scrolled 1 (F32 (100 * ONE)) True])) = Some (- 1)"
proof -
  have pos: "0 < ONE" by (simp add: ONE_def)
  have dir: "direction (F32 (20 * ONE)) = 1" "direction (F32 (100 * ONE)) = 1" "direction (F32 (- 30 * ONE)) = - 1"
    using pos by (simp_all add: direction_def sgn_if)
  have adds: "f32_add (F32 0) (F32 (100 * ONE)) = F32 (100 * ONE)" "f32_add (F32 (100 * ONE)) (F32 (30 * ONE)) = F32 (130 * ONE)"
    using to_f32_whole [of 100] to_f32_whole [of 130] by simp_all
  have abs: "f32_abs (F32 (100 * ONE)) = F32 (100 * ONE)" "f32_abs (F32 (- 30 * ONE)) = F32 (30 * ONE)" using pos by simp_all
  have "boundary_after [Scrolled 1 (F32 (20 * ONE)) True, Released, Scrolled 1 (F32 (100 * ONE)) True] =
      \<lparr>bs_armed = 1, bs_pulling = True, bs_progress = F32 (100 * ONE)\<rparr>"
    using pos by (simp add: boundary_after_def boundary_new_def boundary_update_def dir begin_pull_def Let_def boundary_release_def
        stop_pull_def abs adds PULL_THRESHOLD_def del: f32_add.simps f32_abs.simps)
  then show ?thesis
    using pos by (simp add: boundary_update_def dir [simplified] begin_pull_def Let_def abs [simplified] adds PULL_THRESHOLD_def del: f32_add.simps)
qed

end
