(* ===== verification/Composer.thy ===== *)
theory Composer
  imports Address
begin

text \<open>
  The comment editor, \<open>crates/ui/src/comment_editor/markdown.rs\<close>, \<open>state.rs\<close> and the editing steps of \<open>crates/ui/src/comment_editor.rs\<close>: Markdown that is put around or in
  place of a selection, blank lines around blocks, and the menu that a slash opens. The text input is a widget of the toolkit: its text, selection and cursor
  are arguments, and what is left of a step is the new text with its selection. Offsets are byte offsets.
\<close>

section \<open>Edits\<close>

datatype md_format = Heading | Bold | Italic | Quote | InlineCode | CodeBlock | Link | Bulleted | Numbered | Checklist

record edit =
  ed_text :: str
  ed_start :: nat
  ed_stop :: nat

definition caret_edit :: "str \<Rightarrow> nat \<Rightarrow> edit" where
  "caret_edit t offset = \<lparr>ed_text = t, ed_start = offset, ed_stop = offset\<rparr>"

definition wrap_edit :: "str \<Rightarrow> str \<Rightarrow> str \<Rightarrow> edit" where
  "wrap_edit sel before behind =
     \<lparr>ed_text = before @ sel @ behind, ed_start = length before, ed_stop = length before + length sel\<rparr>"

text \<open>\<open>str::split_inclusive\<close> at line feeds.\<close>

fun split_inclusive :: "str \<Rightarrow> str list" where
  "split_inclusive [] = []"
| "split_inclusive (c # cs) =
     (if c = LF then [c] # split_inclusive cs
      else case split_inclusive cs of [] \<Rightarrow> [[c]] | l # ls \<Rightarrow> (c # l) # ls)"

definition prefix_lines :: "str \<Rightarrow> str \<Rightarrow> edit" where
  "prefix_lines sel pre =
     (let t = concat (map (\<lambda>l. pre @ l) (split_inclusive sel));
          t' = (if t = [] then pre else t) in
      caret_edit t' (length t'))"

definition code_block :: "str \<Rightarrow> str \<Rightarrow> edit" where
  "code_block language sel =
     (let t = ''```'' @ language @ [LF] @ sel @ [LF] @ ''```'' in
      if sel = [] then caret_edit t (4 + length language)
      else \<lparr>ed_text = t, ed_start = 4 + length language, ed_stop = 4 + length language + length sel\<rparr>)"

fun format_edit :: "md_format \<Rightarrow> str \<Rightarrow> edit" where
  "format_edit Bold sel = wrap_edit sel ''**'' ''**''"
| "format_edit Italic sel = wrap_edit sel ''*'' ''*''"
| "format_edit InlineCode sel = wrap_edit sel ''`'' ''`''"
| "format_edit Link sel =
     (let t = ''['' @ sel @ ''](url)'' in
      if sel = [] then caret_edit t 1 else \<lparr>ed_text = t, ed_start = length sel + 3, ed_stop = length sel + 6\<rparr>)"
| "format_edit Heading sel = prefix_lines sel ''## ''"
| "format_edit Quote sel = prefix_lines sel ''> ''"
| "format_edit Bulleted sel = prefix_lines sel ''- ''"
| "format_edit Numbered sel = prefix_lines sel ''1. ''"
| "format_edit Checklist sel = prefix_lines sel ''- [ ] ''"
| "format_edit CodeBlock sel = code_block [] sel"

definition trailing_newlines :: "str \<Rightarrow> nat" where
  "trailing_newlines s = length (takeWhile (\<lambda>c. c = LF) (rev s))"

definition leading_newlines :: "str \<Rightarrow> nat" where
  "leading_newlines s = length (takeWhile (\<lambda>c. c = LF) s)"

definition newline_gap :: "nat \<Rightarrow> str" where
  "newline_gap n = (if n = 0 then [LF, LF] else if n = 1 then [LF] else [])"

definition block_context :: "edit \<Rightarrow> str \<Rightarrow> str \<Rightarrow> edit" where
  "block_context e before behind =
     (let leading = (if before = [] then [] else newline_gap (trailing_newlines before));
          trailing = (if behind = [] then [] else newline_gap (trailing_newlines (ed_text e) + leading_newlines behind)) in
      \<lparr>ed_text = leading @ ed_text e @ trailing, ed_start = ed_start e + length leading, ed_stop = ed_stop e + length leading\<rparr>)"

definition MAX_TABLE_DIMENSION :: nat where
  "MAX_TABLE_DIMENSION = 20"

definition table_row :: "str list \<Rightarrow> str" where
  "table_row cells = ''| '' @ join_with '' | '' cells @ '' |''"

definition table_edit :: "nat \<Rightarrow> nat \<Rightarrow> edit" where
  "table_edit columns rws =
     (let c = min MAX_TABLE_DIMENSION (max 1 columns); r = min MAX_TABLE_DIMENSION (max 1 rws);
          header = table_row (map (\<lambda>n. ''Column '' @ show_nat n) [1..<c + 1]);
          separator = table_row (replicate c ''---'');
          empty = table_row (replicate c '' '') in
      caret_edit (header @ [LF] @ separator @ [LF] @ join_with [LF] (replicate r empty)) (length header + 1 + length separator + 3))"

section \<open>The slash menu\<close>

definition slash_query :: "str \<Rightarrow> nat \<Rightarrow> ((nat \<times> nat) \<times> str) option" where
  "slash_query t caret =
     Option.bind (str_get t 0 caret) (\<lambda>before.
     Option.bind (rsplit_once ''/'' before) (\<lambda>(head, query).
       if head \<noteq> [] \<and> \<not> ws_char (last (chars head)) then None
       else if list_ex ws_char (chars query) \<or> LF \<in> set query then None
       else Some ((length head, caret), to_ascii_lowercase query)))"

datatype slash_menu = MenuCommands | MenuTable | MenuLanguage | MenuReplies

record composer =
  cm_preview :: bool
  cm_columns :: nat
  cm_rows :: nat
  cm_hover :: "(nat \<times> nat) option"
  cm_insert_hovered :: bool
  cm_slash :: "slash_menu option"
  cm_range :: "(nat \<times> nat) option"
  cm_query :: str
  cm_index :: nat

definition composer_new :: composer where
  "composer_new =
     \<lparr>cm_preview = False, cm_columns = 3, cm_rows = 2, cm_hover = None, cm_insert_hovered = False, cm_slash = None, cm_range = None,
      cm_query = [], cm_index = 0\<rparr>"

definition composer_reset :: "composer \<Rightarrow> composer" where
  "composer_reset c =
     c\<lparr>cm_preview := False, cm_slash := None, cm_range := None, cm_query := [], cm_index := 0, cm_hover := None, cm_insert_hovered := False\<rparr>"

definition synced :: "str \<Rightarrow> nat \<Rightarrow> bool \<Rightarrow> composer \<Rightarrow> composer" where
  "synced t cursor selection_empty c =
     (case (if selection_empty then slash_query t cursor else None) of
        Some (rng, query) \<Rightarrow>
          (let c' = (if cm_range c \<noteq> Some rng \<or> cm_query c \<noteq> query then c\<lparr>cm_index := 0, cm_slash := Some MenuCommands\<rparr> else c) in
           c'\<lparr>cm_range := Some rng, cm_query := query\<rparr>)
      | None \<Rightarrow> if cm_range c \<noteq> None then c\<lparr>cm_slash := None, cm_range := None, cm_query := []\<rparr> else c)"

definition sync_slash :: "str \<Rightarrow> nat \<Rightarrow> bool \<Rightarrow> composer \<Rightarrow> composer \<times> bool" where
  "sync_slash t cursor selection_empty c =
     (let c' = synced t cursor selection_empty c in
      (c', (cm_slash c, cm_range c, cm_query c, cm_index c) \<noteq> (cm_slash c', cm_range c', cm_query c', cm_index c')))"

section \<open>Editing steps\<close>

definition slash_closed :: "composer \<Rightarrow> composer" where
  "slash_closed c = c\<lparr>cm_slash := None, cm_range := None, cm_query := [], cm_index := 0\<rparr>"

text \<open>The text with the range replaced, and the new selection.\<close>

definition edit_comment :: "edit \<Rightarrow> nat \<times> nat \<Rightarrow> str \<Rightarrow> composer \<Rightarrow> str \<times> (nat \<times> nat) \<times> composer" where
  "edit_comment e rng t c =
     (take (fst rng) t @ ed_text e @ drop (snd rng) t, (fst rng + ed_start e, fst rng + ed_stop e), slash_closed c)"

definition is_block :: "md_format \<Rightarrow> bool" where
  "is_block f \<longleftrightarrow> f \<in> {Heading, Quote, CodeBlock, Bulleted, Numbered, Checklist}"

definition format_comment :: "md_format \<Rightarrow> nat \<times> nat \<Rightarrow> str \<Rightarrow> composer \<Rightarrow> str \<times> (nat \<times> nat) \<times> composer" where
  "format_comment f rng t c =
     (let sel = (case str_get t (fst rng) (snd rng) of Some s \<Rightarrow> s | None \<Rightarrow> []);
          e = format_edit f sel;
          e' = (if is_block f then block_context e (take (fst rng) t) (drop (snd rng) t) else e) in
      edit_comment e' rng t c)"

definition active_slash_range :: "str \<Rightarrow> nat \<Rightarrow> composer \<Rightarrow> (nat \<times> nat) option" where
  "active_slash_range t cursor c =
     (case cm_range c of
        None \<Rightarrow> None
      | Some rng \<Rightarrow>
          if cursor = snd rng \<and> (case str_get t (fst rng) (snd rng) of Some s \<Rightarrow> starts_with ''/'' s | None \<Rightarrow> False)
          then Some rng else None)"

definition insert_slash_edit :: "edit \<Rightarrow> nat \<Rightarrow> nat \<times> nat \<Rightarrow> str \<Rightarrow> composer \<Rightarrow> str \<times> (nat \<times> nat) \<times> composer" where
  "insert_slash_edit e cursor selected t c =
     (let rng = (case active_slash_range t cursor c of Some r \<Rightarrow> r | None \<Rightarrow> selected) in
      edit_comment (block_context e (take (fst rng) t) (drop (snd rng) t)) rng t c)"

definition move_menu :: "nat \<Rightarrow> int \<Rightarrow> composer \<Rightarrow> composer \<times> bool" where
  "move_menu count delta c =
     (if cm_slash c = None \<or> count = 0 then (c, False)
      else (c\<lparr>cm_index := nat ((int (cm_index c) + delta) mod int count)\<rparr>, True))"

section \<open>Blocks stand alone\<close>

definition edit_ok :: "edit \<Rightarrow> bool" where
  "edit_ok e \<longleftrightarrow> ed_start e \<le> ed_stop e \<and> ed_stop e \<le> length (ed_text e)"

lemma format_edit_ok: "edit_ok (format_edit f sel)"
  by (cases f) (auto simp: edit_ok_def wrap_edit_def caret_edit_def prefix_lines_def code_block_def Let_def)

lemma takeWhile_repl: "takeWhile (\<lambda>c. c = a) xs = replicate (length (takeWhile (\<lambda>c. c = a) xs)) a"
  by (induction xs) auto

lemma trailing_split: "\<exists>r. s = r @ replicate (trailing_newlines s) LF"
proof -
  have "rev s = takeWhile (\<lambda>c. c = LF) (rev s) @ dropWhile (\<lambda>c. c = LF) (rev s)" by simp
  then have "s = rev (dropWhile (\<lambda>c. c = LF) (rev s)) @ rev (takeWhile (\<lambda>c. c = LF) (rev s))" by (metis rev_append rev_rev_ident)
  moreover have "rev (takeWhile (\<lambda>c. c = LF) (rev s)) = replicate (trailing_newlines s) LF"
    unfolding trailing_newlines_def by (subst takeWhile_repl) simp
  ultimately show ?thesis by metis
qed

lemma leading_split: "\<exists>r. s = replicate (leading_newlines s) LF @ r"
  unfolding leading_newlines_def by (metis takeWhile_dropWhile_id takeWhile_repl)

lemma gap_fills: "\<exists>k. replicate n LF @ newline_gap n = replicate (k + 2) LF"
proof -
  consider "n = 0" | "n = 1" | k where "n = k + 2" by (metis One_nat_def add_2_eq_Suc' not0_implies_Suc)
  then show ?thesis by cases (auto simp: newline_gap_def intro: exI [of _ 0])
qed

text \<open>
  A block that is put into a comment stands alone: what is before it ends in a blank line, a blank line separates it from what follows, the rest of
  the comment is kept, and the new selection holds the text that the edit selects.
\<close>

theorem block_stands_alone:
  assumes "edit_ok e"
  shows "\<exists>lead trail. ed_text (block_context e before behind) = lead @ ed_text e @ trail \<and>
    (before = [] \<and> lead = [] \<or> before \<noteq> [] \<and> (\<exists>r. before @ lead = r @ [LF, LF])) \<and>
    (behind = [] \<and> trail = [] \<or> behind \<noteq> [] \<and> (\<exists>p r k. ed_text e = p @ replicate (trailing_newlines (ed_text e)) LF \<and>
       replicate (trailing_newlines (ed_text e)) LF @ trail @ behind = replicate (k + 2) LF @ r)) \<and>
    edit_ok (block_context e before behind) \<and>
    slice (ed_start (block_context e before behind)) (ed_stop (block_context e before behind)) (ed_text (block_context e before behind)) =
      slice (ed_start e) (ed_stop e) (ed_text e)"
proof -
  define lead where "lead = (if before = [] then [] else newline_gap (trailing_newlines before))"
  define trail where "trail = (if behind = [] then [] else newline_gap (trailing_newlines (ed_text e) + leading_newlines behind))"
  have bc: "block_context e before behind = \<lparr>ed_text = lead @ ed_text e @ trail, ed_start = ed_start e + length lead, ed_stop = ed_stop e + length lead\<rparr>"
    by (simp add: block_context_def Let_def lead_def trail_def)
  have l: "before = [] \<and> lead = [] \<or> before \<noteq> [] \<and> (\<exists>r. before @ lead = r @ [LF, LF])"
  proof (cases "before = []")
    case False
    obtain r where r: "before = r @ replicate (trailing_newlines before) LF" using trailing_split by blast
    obtain k where "replicate (trailing_newlines before) LF @ newline_gap (trailing_newlines before) = replicate (k + 2) LF" using gap_fills by blast
    then have "before @ lead = r @ replicate (k + 2) LF" using r False by (metis append.assoc lead_def)
    then have "before @ lead = (r @ replicate k LF) @ [LF, LF]" by (simp only: replicate_add) (simp add: numeral_2_eq_2)
    with False show ?thesis by blast
  qed (simp add: lead_def)
  let ?n = "trailing_newlines (ed_text e)" and ?m = "leading_newlines behind"
  have t: "behind = [] \<and> trail = [] \<or> behind \<noteq> [] \<and> (\<exists>p r k. ed_text e = p @ replicate ?n LF \<and>
       replicate ?n LF @ trail @ behind = replicate (k + 2) LF @ r)"
  proof (cases "behind = []")
    case False
    obtain p where p: "ed_text e = p @ replicate ?n LF" using trailing_split by blast
    obtain r where r: "behind = replicate ?m LF @ r" using leading_split by blast
    obtain k where k: "replicate (?n + ?m) LF @ newline_gap (?n + ?m) = replicate (k + 2) LF" using gap_fills by blast
    obtain g where g: "newline_gap (?n + ?m) = replicate g LF"
      by (metis newline_gap_def replicate.simps numeral_2_eq_2 One_nat_def)
    have "replicate ?n LF @ trail @ behind = replicate ?n LF @ replicate g LF @ replicate ?m LF @ r"
      using False g r by (metis trail_def)
    also have "\<dots> = (replicate (?n + ?m) LF @ replicate g LF) @ r" by (simp add: replicate_add [symmetric] add.commute add.left_commute)
    also have "\<dots> = replicate (k + 2) LF @ r" using k g by simp
    finally show ?thesis using False p by blast
  qed (simp add: trail_def)
  have "slice (ed_start e + length lead) (ed_stop e + length lead) (lead @ ed_text e @ trail) = slice (ed_start e) (ed_stop e) (ed_text e)"
    using assms by (auto simp: slice_def edit_ok_def)
  then show ?thesis using l t assms by (intro exI [of _ lead] exI [of _ trail]) (auto simp: bc edit_ok_def)
qed

text \<open>Emphasis keeps the selected text selected.\<close>

theorem wrapped_selection:
  "f \<in> {Bold, Italic, InlineCode} \<Longrightarrow> slice (ed_start (format_edit f sel)) (ed_stop (format_edit f sel)) (ed_text (format_edit f sel)) = sel"
  by (auto simp: wrap_edit_def slice_def)

section \<open>When the slash menu opens\<close>

text \<open>
  A slash opens the menu only at the start or after white space, and what was typed after it up to the cursor holds no white space; the range is that of
  the slash and the query.
\<close>

theorem slash_query_sound:
  assumes "slash_query t caret = Some ((start, stop), query)"
  shows "stop = caret \<and> caret \<le> length t \<and> start < caret \<and> t ! start = CHR ''/'' \<and>
    (start = 0 \<or> ws_char (last (chars (take start t)))) \<and>
    \<not> list_ex ws_char (chars (slice (start + 1) caret t)) \<and> LF \<notin> set (slice (start + 1) caret t) \<and> query = to_ascii_lowercase (slice (start + 1) caret t)"
proof -
  from assms obtain before head q where b: "str_get t 0 caret = Some before" "rsplit_once ''/'' before = Some (head, q)"
    and h: "head = [] \<or> ws_char (last (chars head))" "\<not> list_ex ws_char (chars q)" "LF \<notin> set q"
    and r: "start = length head" "stop = caret" "query = to_ascii_lowercase q"
    by (auto simp: slash_query_def bind_eq_Some_conv split: if_splits)
  have len: "caret \<le> length t" and bf: "before = take caret t"
    using b(1) char_boundary_le by (auto simp: str_get_def slice_def split: if_splits)
  have eq: "before = head @ ''/'' @ q" using b(2) split_once_Some [of "rev ''/''" "rev before"]
    by (auto simp: rsplit_once_def) (metis append.assoc append_Cons append_Nil rev.simps rev_append rev_rev_ident)
  have t: "t = head @ ''/'' @ q @ drop caret t" "caret = length head + 1 + length q"
  proof -
    have "length before = caret" using bf len by simp
    with eq show "caret = length head + 1 + length q" by simp
    show "t = head @ ''/'' @ q @ drop caret t" using append_take_drop_id [of caret t, folded bf, unfolded eq] by simp
  qed
  have "slice (start + 1) caret t = q" "take start t = head" "t ! start = CHR ''/''"
    unfolding r(1) by (subst t(1), simp add: slice_def t(2) nth_append)+
  then show ?thesis using h r t(2) len by auto
qed

text \<open>The menu is open at most while a slash is being typed, and a step that changes nothing of it reports so.\<close>

theorem sync_slash_tracks:
  assumes "cm_range c = None \<Longrightarrow> cm_slash c = None"
  shows "case sync_slash t cursor selection_empty c of (c', changed) \<Rightarrow>
    (cm_range c' = map_option fst (if selection_empty then slash_query t cursor else None)) \<and>
    (cm_range c' = None \<longrightarrow> cm_slash c' = None) \<and>
    (\<not> changed \<longrightarrow> c' = c)"
proof (cases "if selection_empty then slash_query t cursor else None")
  case None
  then show ?thesis using assms by (cases "cm_range c") (auto simp: sync_slash_def synced_def Let_def)
next
  case (Some q)
  then show ?thesis by (cases q; cases c) (auto simp: sync_slash_def synced_def Let_def)
qed

end
