(* ===== verification/Spec2Isabelle.thy ===== *)
theory Spec2Isabelle
  imports PatchPrint Writers Rebuild Releases Pool Inline Timefmt Annotation FileTree Layout
    Presentation Cli Entire GithubLoad GitlabLoad Rich Extensions Scroll
    Composer
begin

text \<open>
  diffz is a native reader for code reviews, written in Rust. This development models the
  logic of its crates \<open>crates/core\<close> and \<open>crates/adapters\<close> and of the command line in \<open>crates/app\<close>: reading a patch or a hosted review into an
  immutable snapshot, writing draft comments on it, freezing them into a prepared review, and
  publishing that review at most once.

  \<^bold>\<open>How the parts interact.\<close> A provider (GitHub through \<open>gh\<close>, GitLab through \<open>glab\<close>, Entire) reads a
  remote target and a unified patch; the patch parser turns the bytes into files, hunks and rows;
  a snapshot binds them to an identity that is a digest of its source. The session reducer keeps
  selection, drafts and saves for one snapshot. \<open>prepare\<close> freezes the drafts under a provider's rules
  into a review with a fingerprint. The store keeps snapshots, drafts, views and the outbox in
  SQLite tables; the outbox moves a review from prepared to in flight before the one request, and on
  an unclear answer reconciliation looks for evidence instead of sending again. The service registers the
  providers, opens sources through them, through local Git or from a file, and puts what it
  opened into the store; at most four reads run at a time. An invocation of the command line either
  opens a window on the service, or hands its request to the window that already runs. Around this core lie
  the rows of the two views and of the Markdown view, the word marks of changed lines, syntax spans, themes, extensions, the file tree,
  annotations, review details, the release timeline and timestamps.

  \<^bold>\<open>Theories.\<close>
  \<^item> \<open>Prelude\<close>, \<open>Text\<close>, \<open>BTree\<close>: results as sums (\<open>bindE\<close>), checked integers, slices; byte strings and
    UTF-8 text as the standard library treats them; ordered maps with the contract \<open>key_map\<close>.
  \<^item> \<open>Domain\<close>: identities, digest, source documents, repository paths and Git quoting, targets
    (\<open>domain.rs\<close>). Shown: documents render back to their bytes, quoted paths read back, digests bind.
  \<^item> \<open>Patch\<close>, \<open>PatchParse\<close>, \<open>PatchPrint\<close>: the data and operations of \<open>patch.rs\<close>, its parser, and a reference
    printer. Shown: counted, ordered hunks; exact line lookup (locale \<open>line_index\<close>); valid paths; printed
    hunks parse back.
  \<^item> \<open>Snapshot\<close>, \<open>Session\<close>: \<open>domain.rs\<close>, \<open>session.rs\<close>, \<open>anchor.rs\<close>, \<open>export.rs\<close>, \<open>source_link.rs\<close>. Shown: identity
    binding, copying, and invariants of every session that events reach.
  \<^item> \<open>Review\<close>, \<open>Store\<close>, \<open>Outbox\<close>: \<open>review.rs\<close>, \<open>store.rs\<close> with \<open>schema.sql\<close>, \<open>outbox.rs\<close>. Every operation on the tables is a
    function on a record of tables; the system is a step relation over local operations,
    publications, crashes and restarts. Shown: one request per operation over every interleaving,
    recovery, durability and evidence-based confirmation.
  \<^item> \<open>Address\<close>, \<open>Rules\<close>, \<open>Http\<close>, \<open>Writers\<close>, \<open>Rebuild\<close>: the pure and the request-making parts of \<open>github.rs\<close>,
    \<open>gitlab.rs\<close>, \<open>entire.rs\<close>. Requests are answers of a server argument, so all interleavings with a changing
    remote are covered. Shown: preparation freezes what was previewed, listings are complete (locale
    \<open>page_loop\<close>), loaded merge requests are consistent, sends follow their plan, markers and rebuilt
    headers read back.
  \<^item> \<open>Tasks\<close>, \<open>GithubLoad\<close>, \<open>GitlabLoad\<close>: the loaders of \<open>github.rs\<close> and \<open>gitlab.rs\<close> for pull requests, compares, release timelines
    and blame. A read on a thread of its own is a task with its own answers. Shown: loaded
    pull requests and compares are pinned to commits read once and confirmed at the end, timelines follow the steps, and blame
    answers every span in order.
  \<^item> \<open>Evidence\<close>, \<open>Entire\<close>: \<open>entire_context.rs\<close>, \<open>entire_sessions.rs\<close> and the reader of \<open>entire.rs\<close> as computations that run child
    processes and keep the list of what they ran. The locale \<open>reading\<close> says what a reader may run, for all operations at once. Shown: the
    token goes to trusted origins only, snapshots are pinned, a reported success belongs to the displayed revision, and prompts
    and transcripts cannot reach the overview.
  \<^item> \<open>Fair\<close>: schedules in which every thread gets turns again and again, and the locale \<open>fair_machine\<close> in which a rank
    that helpful turns lower makes a machine end. The pool and the gate interpret it.
  \<^item> \<open>Process\<close>, \<open>LocalGit\<close>: \<open>process.rs\<close>, \<open>local_git.rs\<close>. A run of a child process is a loop over what its turns observe. Shown: a
    success is the complete output within its limits, the loop ends with its deadline and leaves no child
    behind an error, error excerpts are short, printable and redacted, and local snapshots are
    captured twice with equal content.
  \<^item> \<open>Details\<close>: \<open>review_details.rs\<close>. Shown: blame goes to the release that added a commit, the verdict is
    that of each reviewer's last ruling, and the visible form of Markdown can leave an image.
  \<^item> \<open>Gate\<close>, \<open>Service\<close>: \<open>service.rs\<close> with the provider implementations of \<open>github.rs\<close>, \<open>gitlab.rs\<close>, \<open>entire.rs\<close>. Shown: the gate
    counts its readers and serves every call on a fair schedule; publication needs a provider
    registered for writing; opening keeps drafts and operations; detected text goes to the provider that parses it; hosts
    are trusted only when public or signed in.
  \<^item> \<open>Handoff\<close>, \<open>Cli\<close>: \<open>handoff.rs\<close>, \<open>crates/app/src/main.rs\<close>. Waiting loops satisfy the contract \<open>polling\<close>. Shown: frames are bounded, both ends of
    an exchange agree, tokens are used once, windows are started only while none runs, the arguments of a background
    window parse back to its request, and a successful invocation has given its request to a window.
  \<^item> \<open>Presentation\<close>: \<open>presentation.rs\<close>. Shown: both views show every row once and in order, marks lie in
    their text, and the search returns the first matches.
  \<^item> \<open>Releases\<close>, \<open>Pool\<close>: \<open>releases.rs\<close>. Shown: steps chain from base to head and partition the commits; the
    thread pool, a machine of interleaved moves on one counter, ends on every schedule, answers on every fair one and returns what
    sequential reading returns.
  \<^item> \<open>Rich\<close>: the Markdown view of \<open>rich.rs\<close>. Shown: blocks cover the lines of a document in order, a hunk shows every block of both sides
    exactly once and in order, marks only insert, and gaps lie between the hunks when each has rows on both sides.
  \<^item> \<open>Syntax\<close>, \<open>Themes\<close>: \<open>syntax.rs\<close>, \<open>palette.rs\<close>, \<open>theme.rs\<close>. Shown: spans show each token exactly on the lines it covers, colours read back, a palette is
    accepted exactly when every key has a colour, and every colour of a theme is the one given last (locale \<open>color_slots\<close>).
  \<^item> \<open>Components\<close>, \<open>Extensions\<close>: \<open>component.rs\<close>, \<open>extension.rs\<close>, \<open>registry.rs\<close>. The count of running calls and the thread that advances the epoch are a machine
    of interleaved acts. Shown: a running call reaches its deadline, no count is lost, the files of an extension lie below its folder, a path gets the
    first grammar of the highest priority, shown annotations lie in the snapshot, and a listed theme is the one that is chosen (locale
    \<open>theme_source_laws\<close>).
  \<^item> \<open>Heights\<close>, \<open>Scroll\<close>: \<open>height_index.rs\<close> and the gate of \<open>scroll.rs\<close> on rounded integers. Shown: the binary indexed tree computes the
    sums of the heights and locates the row of a position, and a file is turned only by a gesture that began at an armed gate and pulled far enough.
  \<^item> \<open>Composer\<close>: the Markdown edits and the slash menu of the comment editor in \<open>crates/ui\<close>. Shown: inserted blocks stand alone and keep the rest of
    the comment, and the menu follows the slash before the cursor.
  \<^item> \<open>Inline\<close>, \<open>Annotation\<close>, \<open>FileTree\<close>, \<open>Layout\<close>, \<open>Timefmt\<close>: the files of those names in \<open>crates/core\<close>. Shown: longest common
    subsequence against the recurrence, marks that leave equal text, exact diff checks, one row per
    matching file, offsets that survive tab expansion, dates that follow the calendar.

  \<^bold>\<open>Conventions.\<close> A \<open>struct\<close> is a record, an \<open>enum\<close> a datatype, \<open>Result\<close> a sum with the error on the left,
  a panic that the code can reach an error or \<open>None\<close>. Integers are natural numbers with their width
  written out where the code checks or can reach it (\<open>u32_max\<close>, \<open>u64_max\<close>), and 64-bit words for the navigation clock that
  wraps. Loops are structural recursion or functions with a measure; no fuel is used. A loop that waits for the
  operating system recurses over the list of what its turns observe and is \<open>None\<close> while the list is too short; that a passed deadline
  ends it is proved. SHA-256, JSON
  encoders, URL parsing, Unicode tables, clocks and the answers of servers are arguments; what is
  assumed of them is a named hypothesis with a concrete instance in a witness.

  \<^bold>\<open>Not modelled.\<close> The user interface, apart from the edits of comments, and its toolkit, fonts, signals and process groups, the socket, lock and log
  files, the grammars and the WebAssembly run-time (libraries whose answers are arguments), measured geometry
  (floating point of the text engine), coasting (\<open>exp\<close> and \<open>ln\<close> of single precision), and compression bytes of the store.
\<close>

end
